(* ===== verification/Prelude.thy ===== *)
theory Prelude
  imports Main "HOL-Library.Word" "HOL-Library.Monad_Syntax"
begin

text \<open>
  Shared vocabulary of the development: Rust's integer types, panics, results and
  the checked \<open>usize\<close> arithmetic of the debug profile (the \<open>Justfile\<close> builds
  \<open>rust-profile := debug\<close>, so an overflowing \<open>+\<close>, \<open>-\<close>, \<open>*\<close> and a failing
  \<open>debug_assert!\<close> panic, and a panic halts the kernel).

  \<^item> A computation that may panic has type \<^typ>\<open>'a option\<close>; \<^term>\<open>None\<close> is the
    panic and \<open>do\<close>-notation sequences such computations.
  \<^item> A Rust \<open>Result<T, E>\<close> is the sum \<^typ>\<open>'e + 'a\<close> with \<open>Err\<close> and \<open>Ok\<close> for the
    injections; a method that takes \<open>&mut self\<close> also returns the new state.
  \<^item> \<open>usize\<close> values that are counted and compared are natural numbers below
    \<open>USIZE_LIM\<close>; registers and flag words are \<open>word\<close>s of the source's width.
\<close>

unbundle bit_operations_syntax

named_theorems usize_defs \<open>unfolds the checked arithmetic on usize\<close>
named_theorems usize_simps \<open>evaluates checked arithmetic that succeeds\<close>

type_synonym u8 = "8 word"
type_synonym u16 = "16 word"
type_synonym u32 = "32 word"
type_synonym u64 = "64 word"
type_synonym usize = nat

abbreviation Ok :: "'a \<Rightarrow> 'e + 'a" where
  "Ok \<equiv> Inr"

abbreviation Err :: "'e \<Rightarrow> 'e + 'a" where
  "Err \<equiv> Inl"

subsection \<open>Checked arithmetic on usize\<close>

definition USIZE_LIM :: nat where
  "USIZE_LIM = 2 ^ 64"

definition uadd :: "usize \<Rightarrow> usize \<Rightarrow> usize option" where
  [usize_defs]: "uadd a b = (if a + b < USIZE_LIM then Some (a + b) else None)"

definition usub :: "usize \<Rightarrow> usize \<Rightarrow> usize option" where
  [usize_defs]: "usub a b = (if b \<le> a then Some (a - b) else None)"

definition umul :: "usize \<Rightarrow> usize \<Rightarrow> usize option" where
  [usize_defs]: "umul a b = (if a * b < USIZE_LIM then Some (a * b) else None)"

definition udiv :: "usize \<Rightarrow> usize \<Rightarrow> usize option" where
  [usize_defs]: "udiv a b = (if b = 0 then None else Some (a div b))"

definition umod :: "usize \<Rightarrow> usize \<Rightarrow> usize option" where
  [usize_defs]: "umod a b = (if b = 0 then None else Some (a mod b))"

text \<open>\<open>2_usize.pow(i)\<close>\<close>

definition upow2 :: "nat \<Rightarrow> usize option" where
  [usize_defs]: "upow2 i = (if i < 64 then Some (2 ^ i) else None)"

text \<open>\<open>usize::div_ceil\<close>, \<open>usize::is_power_of_two\<close>, \<open>usize::ilog2\<close> (which panics on 0) and
  \<open>usize::checked_next_power_of_two\<close>.\<close>

definition div_ceil :: "usize \<Rightarrow> usize \<Rightarrow> usize" where
  "div_ceil a b = a div b + (if a mod b = 0 then 0 else 1)"

fun log2_floor :: "nat \<Rightarrow> nat" where
  "log2_floor n = (if n \<le> 1 then 0 else Suc (log2_floor (n div 2)))"

declare log2_floor.simps [simp del]

definition ilog2 :: "usize \<Rightarrow> usize option" where
  "ilog2 n = (if n = 0 then None else Some (log2_floor n))"

definition is_power_of_two :: "usize \<Rightarrow> bool" where
  "is_power_of_two n \<longleftrightarrow> n \<noteq> 0 \<and> 2 ^ log2_floor n = n"

definition next_power_of_two :: "nat \<Rightarrow> nat" where
  "next_power_of_two n = (if n \<le> 1 then 1 else 2 ^ Suc (log2_floor (n - 1)))"

definition checked_next_power_of_two :: "usize \<Rightarrow> usize option" where
  "checked_next_power_of_two n =
     (if next_power_of_two n < USIZE_LIM then Some (next_power_of_two n) else None)"

text \<open>\<open>assert!\<close>, \<open>sanity_assert!\<close> (a \<open>debug_assert!\<close>) and slice indexing.\<close>

definition ensure :: "bool \<Rightarrow> unit option" where
  "ensure b = (if b then Some () else None)"

definition idx :: "'a list \<Rightarrow> nat \<Rightarrow> 'a option" where
  "idx xs i = (if i < length xs then Some (xs ! i) else None)"

text \<open>\<open>Result::unwrap\<close>, \<open>Result::map_err\<close> and \<open>Option::ok_or\<close>.\<close>

definition unwrap_ok :: "'e + 'a \<Rightarrow> 'a option" where
  "unwrap_ok r = (case r of Inl _ \<Rightarrow> None | Inr x \<Rightarrow> Some x)"

definition map_err :: "('e \<Rightarrow> 'f) \<Rightarrow> 'e + 'a \<Rightarrow> 'f + 'a" where
  "map_err f r = (case r of Inl e \<Rightarrow> Inl (f e) | Inr x \<Rightarrow> Inr x)"

definition ok_or :: "'e \<Rightarrow> 'a option \<Rightarrow> 'e + 'a" where
  "ok_or e r = (case r of None \<Rightarrow> Inl e | Some x \<Rightarrow> Inr x)"

text \<open>Position of the first element that satisfies a predicate, as
  \<open>iter().enumerate().find(..)\<close> returns it.\<close>

fun find_idx :: "('a \<Rightarrow> bool) \<Rightarrow> 'a list \<Rightarrow> nat option" where
  "find_idx P [] = None"
| "find_idx P (x # xs) = (if P x then Some 0 else map_option Suc (find_idx P xs))"

text \<open>Removal of the element at a position.\<close>

definition remove_nth :: "nat \<Rightarrow> 'a list \<Rightarrow> 'a list" where
  "remove_nth i xs = take i xs @ drop (Suc i) xs"

subsection \<open>Facts about the checked arithmetic\<close>

lemma uadd_Some_iff [simp]: "uadd a b = Some c \<longleftrightarrow> a + b < USIZE_LIM \<and> c = a + b"
  by (auto simp: uadd_def)

lemma usub_Some_iff [simp]: "usub a b = Some c \<longleftrightarrow> b \<le> a \<and> c = a - b"
  by (auto simp: usub_def)

lemma umul_Some_iff [simp]: "umul a b = Some c \<longleftrightarrow> a * b < USIZE_LIM \<and> c = a * b"
  by (auto simp: umul_def)

lemma umod_Some_iff [simp]: "umod a b = Some c \<longleftrightarrow> b \<noteq> 0 \<and> c = a mod b"
  by (auto simp: umod_def)

lemma udiv_Some_iff [simp]: "udiv a b = Some c \<longleftrightarrow> b \<noteq> 0 \<and> c = a div b"
  by (auto simp: udiv_def)

lemma upow2_Some_iff [simp]: "upow2 i = Some c \<longleftrightarrow> i < 64 \<and> c = 2 ^ i"
  by (auto simp: upow2_def)

lemma uadd_ok [usize_simps]: "a + b < USIZE_LIM \<Longrightarrow> uadd a b = Some (a + b)"
  by simp

lemma usub_ok [usize_simps]: "b \<le> a \<Longrightarrow> usub a b = Some (a - b)"
  by simp

lemma umul_ok [usize_simps]: "a * b < USIZE_LIM \<Longrightarrow> umul a b = Some (a * b)"
  by simp

lemma udiv_ok [usize_simps]: "0 < b \<Longrightarrow> udiv a b = Some (a div b)"
  by simp

lemma umod_ok [usize_simps]: "0 < b \<Longrightarrow> umod a b = Some (a mod b)"
  by simp

lemma upow2_ok [usize_simps]: "i < 64 \<Longrightarrow> upow2 i = Some (2 ^ i)"
  by simp

lemma ensure_Some_iff [simp]: "ensure b = Some u \<longleftrightarrow> b"
  by (simp add: ensure_def)

lemma ensure_True [simp]: "ensure True = Some ()"
  by (simp add: ensure_def)

lemma ensure_False [simp]: "ensure False = None"
  by (simp add: ensure_def)

lemma idx_Some_iff [simp]: "idx xs i = Some x \<longleftrightarrow> i < length xs \<and> x = xs ! i"
  by (auto simp: idx_def)

lemma idx_in_range [simp]: "i < length xs \<Longrightarrow> idx xs i = Some (xs ! i)"
  by simp

lemma unwrap_ok_simps [simp]: "unwrap_ok (Inr x) = Some x" "unwrap_ok (Inl e) = None"
  by (simp_all add: unwrap_ok_def)

lemma unwrap_ok_Some_iff [simp]: "unwrap_ok r = Some x \<longleftrightarrow> r = Inr x"
  by (cases r) simp_all

lemma map_err_simps [simp]:
  "map_err f (Inr x) = Inr x" "map_err f (Inl e) = Inl (f e)"
  by (simp_all add: map_err_def)

lemma ok_or_simps [simp]: "ok_or e (Some x) = Inr x" "ok_or e None = Inl e"
  by (simp_all add: ok_or_def)

subsection \<open>Powers of two\<close>

lemma log2_floor_bounds: "0 < n \<Longrightarrow> 2 ^ log2_floor n \<le> n \<and> n < 2 ^ Suc (log2_floor n)"
proof (induction n rule: log2_floor.induct)
  case (1 n)
  show ?case
  proof (cases "n \<le> 1")
    case True
    with "1.prems" show ?thesis by (simp add: log2_floor.simps)
  next
    case False
    then have IH: "2 ^ log2_floor (n div 2) \<le> n div 2 \<and> n div 2 < 2 ^ Suc (log2_floor (n div 2))"
      using "1.IH" by simp
    have "log2_floor n = Suc (log2_floor (n div 2))"
      using False by (simp add: log2_floor.simps)
    with IH show ?thesis by auto
  qed
qed

lemma log2_floor_unique: "2 ^ k \<le> n \<Longrightarrow> n < 2 ^ Suc k \<Longrightarrow> log2_floor n = k"
proof (rule ccontr)
  assume a: "2 ^ k \<le> n" "n < 2 ^ Suc k" and "log2_floor n \<noteq> k"
  from a(1) have "0 < n" by (metis less_le_trans zero_less_numeral zero_less_power)
  note b = log2_floor_bounds [OF this]
  from \<open>log2_floor n \<noteq> k\<close> have "Suc (log2_floor n) \<le> k \<or> Suc k \<le> log2_floor n"
    by arith
  then show False
  proof
    assume "Suc (log2_floor n) \<le> k"
    then have "(2::nat) ^ Suc (log2_floor n) \<le> 2 ^ k" by (rule power_increasing) simp
    with a b show False by linarith
  next
    assume "Suc k \<le> log2_floor n"
    then have "(2::nat) ^ Suc k \<le> 2 ^ log2_floor n" by (rule power_increasing) simp
    with a b show False by linarith
  qed
qed

lemma log2_floor_pow2 [simp]: "log2_floor (2 ^ k) = k"
  by (rule log2_floor_unique) simp_all

lemma ilog2_pow2 [simp]: "ilog2 (2 ^ k) = Some k"
  by (simp add: ilog2_def)

lemma is_power_of_two_iff: "is_power_of_two n \<longleftrightarrow> (\<exists>k. n = 2 ^ k)"
  by (auto simp: is_power_of_two_def intro: sym)

lemma next_power_of_two_ex: "\<exists>k. next_power_of_two n = 2 ^ k"
proof (cases "n \<le> 1")
  case True
  then show ?thesis by (auto simp: next_power_of_two_def intro: exI [of _ 0])
next
  case False
  then have "next_power_of_two n = 2 ^ Suc (log2_floor (n - 1))"
    by (simp add: next_power_of_two_def)
  then show ?thesis by blast
qed

lemma next_power_of_two_ge: "n \<le> next_power_of_two n"
proof (cases "n \<le> 1")
  case False
  then have "n - 1 < 2 ^ Suc (log2_floor (n - 1))"
    using log2_floor_bounds [of "n - 1"] by simp
  with False show ?thesis by (simp add: next_power_of_two_def)
qed (simp add: next_power_of_two_def)

lemma next_power_of_two_least: "n \<le> 2 ^ k \<Longrightarrow> next_power_of_two n \<le> 2 ^ k"
proof (cases "n \<le> 1")
  case False
  assume "n \<le> 2 ^ k"
  with False have "n - 1 < 2 ^ k" and "0 < n - 1" by simp_all
  then have "2 ^ log2_floor (n - 1) < (2::nat) ^ k"
    using log2_floor_bounds [of "n - 1"] by linarith
  then have "log2_floor (n - 1) < k"
    by (simp add: power_strict_increasing_iff)
  then have "(2::nat) ^ Suc (log2_floor (n - 1)) \<le> 2 ^ k"
    by (intro power_increasing) simp_all
  with False show ?thesis by (simp add: next_power_of_two_def)
qed (simp add: next_power_of_two_def)

lemma next_power_of_two_pow2 [simp]: "next_power_of_two (2 ^ k) = 2 ^ k"
  by (meson le_antisym next_power_of_two_ge next_power_of_two_least order_refl)

lemma pow2_lt_USIZE_LIM [simp]: "(2::nat) ^ k < USIZE_LIM \<longleftrightarrow> k < 64"
  unfolding USIZE_LIM_def by (rule power_strict_increasing_iff) simp

subsection \<open>Masks on machine words\<close>

lemma unat_and_not_mask:
  "unat (w AND NOT (mask k)) = unat w div 2 ^ k * 2 ^ k" for w :: "'a::len word"
proof -
  have "unat (w AND NOT (mask k)) = push_bit k (drop_bit k (unat w))"
    by (rule bit_eqI) (auto simp: bit_simps dest: bit_imp_le_length)
  then show ?thesis by (simp add: push_bit_eq_mult drop_bit_eq_div)
qed

lemma of_nat_pow2_minus_1: "of_nat (2 ^ k - 1) = (mask k :: 'a::len word)"
  by (simp add: mask_eq_exp_minus_1 of_nat_diff)

lemma unat_of_nat_u64: "n < USIZE_LIM \<Longrightarrow> unat (of_nat n :: u64) = n"
  by (simp add: unat_of_nat USIZE_LIM_def)

subsection \<open>Lists\<close>

lemma div_ceil_bound: "0 < b \<Longrightarrow> i < a \<Longrightarrow> i div b < div_ceil a b"
proof -
  assume "0 < b" "i < a"
  then have "i div b \<le> a div b" by (simp add: div_le_mono)
  moreover have "a mod b = 0 \<Longrightarrow> i div b < a div b"
    using \<open>i < a\<close> \<open>0 < b\<close> by (metis div_less_iff_less_mult mult_div_mod_eq
        add.right_neutral mult.commute)
  ultimately show ?thesis by (auto simp: div_ceil_def)
qed

lemma div_ceil_mult_ge: "0 < b \<Longrightarrow> a \<le> div_ceil a b * b"
proof -
  assume "0 < b"
  then have "a \<le> a div b * b + b" using mod_less_divisor [of b a] div_mult_mod_eq [of a b] by linarith
  then show ?thesis by (cases "a mod b = 0") (auto simp: div_ceil_def)
qed

lemma div_ceil_mono:
  assumes "0 < b" and "a \<le> c"
  shows "div_ceil a b \<le> div_ceil c b"
proof (cases "a mod b \<noteq> 0 \<and> c mod b = 0")
  case True
  have "a div b \<noteq> c div b"
  proof
    assume "a div b = c div b"
    with True have "c = b * (a div b)" by (metis add.right_neutral mult_div_mod_eq)
    moreover have "b * (a div b) + a mod b = a" by (rule mult_div_mod_eq)
    ultimately show False using True \<open>a \<le> c\<close> by simp
  qed
  moreover have "a div b \<le> c div b" using \<open>a \<le> c\<close> by (rule div_le_mono)
  ultimately show ?thesis using True by (simp add: div_ceil_def)
next
  case False
  then show ?thesis using div_le_mono [OF \<open>a \<le> c\<close>, of b] by (auto simp: div_ceil_def)
qed

lemma find_idx_Some:
  "find_idx P xs = Some i \<longleftrightarrow> i < length xs \<and> P (xs ! i) \<and> (\<forall>j < i. \<not> P (xs ! j))"
proof (induction xs arbitrary: i)
  case (Cons x xs)
  show ?case
    using Cons.IH by (cases i) (auto simp: less_Suc_eq_0_disj)
qed simp

lemma find_idx_None: "find_idx P xs = None \<longleftrightarrow> (\<forall>x \<in> set xs. \<not> P x)"
  by (induction xs) auto

lemma length_remove_nth [simp]: "i < length xs \<Longrightarrow> length (remove_nth i xs) = length xs - 1"
  by (simp add: remove_nth_def)

lemma remove_nth_0 [simp]: "remove_nth 0 (x # xs) = xs"
  by (simp add: remove_nth_def)

lemma remove_nth_Suc [simp]: "remove_nth (Suc i) (x # xs) = x # remove_nth i xs"
  by (simp add: remove_nth_def)

lemma remove_nth_split:
  "i < length xs \<Longrightarrow> \<exists>ys zs. xs = ys @ xs ! i # zs \<and> length ys = i \<and> remove_nth i xs = ys @ zs"
  using id_take_nth_drop [of i xs]
  by (intro exI [of _ "take i xs"] exI [of _ "drop (Suc i) xs"]) (simp add: remove_nth_def)

lemma distinct_remove_nth: "distinct xs \<Longrightarrow> distinct (remove_nth i xs)"
  unfolding remove_nth_def
  by (auto simp: set_take_disj_set_drop_if_distinct)

lemma set_remove_nth:
  assumes "distinct xs" and "i < length xs"
  shows "set (remove_nth i xs) = set xs - {xs ! i}"
proof -
  from remove_nth_split [OF assms(2)] obtain ys zs
    where *: "xs = ys @ xs ! i # zs" and **: "remove_nth i xs = ys @ zs" by blast
  from * assms(1) have "xs ! i \<notin> set ys \<union> set zs"
    by (metis Un_iff distinct.simps(2) distinct_append disjoint_iff list.set_intros(1))
  moreover from * have "set xs = set ys \<union> set zs \<union> {xs ! i}"
    by (metis Un_insert_right list.simps(15) set_append sup_bot_right)
  ultimately show ?thesis by (auto simp: **)
qed

end
