(* ===== verification/Bitmap.thy ===== *)
theory Bitmap
  imports Prelude
begin

text \<open>
  The growable bitmap of \<open>utils/src/collections/bitmap.rs\<close>: a vector of bytes and the
  number of bits in use.  The operations work on bytes as the code does (index
  \<open>i / 8\<close>, mask \<open>1 << (i % 8)\<close>; an index outside the vector panics); the abstraction
  \<open>bitmap_bits\<close> reads the bitmap as the list of its bits, and every operation is
  shown to be the corresponding list operation.  The contract its clients rely on is the
  locale \<open>bit_store\<close>.
\<close>

subsection \<open>The data structure\<close>

record Bitmap =
  bm_entries :: "u8 list"
  bm_used_bits_count :: usize

datatype BitmapError =
    IndexOutOfBounds usize usize
  | InvalidSize usize

definition bitmap_uninit :: Bitmap where
  "bitmap_uninit = \<lparr> bm_entries = [], bm_used_bits_count = 0 \<rparr>"

definition bitmap_new :: "usize \<Rightarrow> Bitmap" where
  "bitmap_new used_bits_count =
     (let entries_count = div_ceil used_bits_count 8
      in \<lparr> bm_entries = replicate entries_count 0, bm_used_bits_count = used_bits_count \<rparr>)"

definition bitmap_set :: "Bitmap \<Rightarrow> usize \<Rightarrow> ((BitmapError + unit) \<times> Bitmap) option" where
  "bitmap_set b index =
     (if bm_used_bits_count b \<le> index
      then Some (Err (IndexOutOfBounds index (bm_used_bits_count b)), b)
      else do {
        e \<leftarrow> idx (bm_entries b) (index div 8);
        Some (Ok (), b \<lparr> bm_entries :=
          (bm_entries b) [index div 8 := e OR push_bit (index mod 8) 1] \<rparr>) })"

definition bitmap_unset :: "Bitmap \<Rightarrow> usize \<Rightarrow> ((BitmapError + unit) \<times> Bitmap) option" where
  "bitmap_unset b index =
     (if bm_used_bits_count b \<le> index
      then Some (Err (IndexOutOfBounds index (bm_used_bits_count b)), b)
      else do {
        e \<leftarrow> idx (bm_entries b) (index div 8);
        Some (Ok (), b \<lparr> bm_entries :=
          (bm_entries b) [index div 8 := e AND NOT (push_bit (index mod 8) 1)] \<rparr>) })"

definition bitmap_flip :: "Bitmap \<Rightarrow> usize \<Rightarrow> ((BitmapError + unit) \<times> Bitmap) option" where
  "bitmap_flip b index =
     (if bm_used_bits_count b \<le> index
      then Some (Err (IndexOutOfBounds index (bm_used_bits_count b)), b)
      else do {
        e \<leftarrow> idx (bm_entries b) (index div 8);
        Some (Ok (), b \<lparr> bm_entries :=
          (bm_entries b) [index div 8 := e XOR push_bit (index mod 8) 1] \<rparr>) })"

definition bitmap_is_set :: "Bitmap \<Rightarrow> usize \<Rightarrow> (BitmapError + bool) option" where
  "bitmap_is_set b index =
     (if bm_used_bits_count b \<le> index
      then Some (Err (IndexOutOfBounds index (bm_used_bits_count b)))
      else do {
        e \<leftarrow> idx (bm_entries b) (index div 8);
        Some (Ok (e AND push_bit (index mod 8) 1 \<noteq> 0)) })"

definition bitmap_grow :: "Bitmap \<Rightarrow> usize \<Rightarrow> (BitmapError + unit) \<times> Bitmap" where
  "bitmap_grow b new_size =
     (if new_size < bm_used_bits_count b then (Err (InvalidSize new_size), b)
      else
        let new_entries_count = div_ceil new_size 8;
            es = (if length (bm_entries b) < new_entries_count
                  then bm_entries b @ replicate (new_entries_count - length (bm_entries b)) 0
                  else bm_entries b)
        in (Ok (), b \<lparr> bm_entries := es, bm_used_bits_count := new_size \<rparr>))"

definition bitmap_shrink :: "Bitmap \<Rightarrow> usize \<Rightarrow> (BitmapError + unit) \<times> Bitmap" where
  "bitmap_shrink b new_size =
     (if bm_used_bits_count b < new_size then (Err (InvalidSize new_size), b)
      else
        let new_entries_count = div_ceil new_size 8
        in (Ok (), b \<lparr> bm_entries := take new_entries_count (bm_entries b),
                       bm_used_bits_count := new_size \<rparr>))"

definition bitmap_clear :: "Bitmap \<Rightarrow> Bitmap" where
  "bitmap_clear b = b \<lparr> bm_entries := map (\<lambda>_. 0) (bm_entries b) \<rparr>"

subsection \<open>Iterators\<close>

text \<open>\<open>BitmapIterator\<close> and \<open>BitmapIntoIterator\<close> have the same state and the same
  \<open>next\<close>; \<open>unwrap_or(false)\<close> swallows the error of \<open>is_set\<close>, not its panic.\<close>

record BitmapIterator =
  it_bitmap :: Bitmap
  it_current_index :: usize

definition bitmap_iter :: "Bitmap \<Rightarrow> BitmapIterator" where
  "bitmap_iter b = \<lparr> it_bitmap = b, it_current_index = 0 \<rparr>"

definition bitmap_next :: "BitmapIterator \<Rightarrow> (bool option \<times> BitmapIterator) option" where
  "bitmap_next it =
     (if bm_used_bits_count (it_bitmap it) \<le> it_current_index it then Some (None, it)
      else do {
        r \<leftarrow> bitmap_is_set (it_bitmap it) (it_current_index it);
        let result = (case r of Inl _ \<Rightarrow> False | Inr x \<Rightarrow> x);
        i \<leftarrow> uadd (it_current_index it) 1;
        Some (Some result, it \<lparr> it_current_index := i \<rparr>) })"

text \<open>\<open>collect()\<close>: calls \<open>next\<close> until it returns \<open>None\<close>.\<close>

function bitmap_collect :: "BitmapIterator \<Rightarrow> bool list option" where
  "bitmap_collect it =
     (case bitmap_next it of
        None \<Rightarrow> None
      | Some (None, it') \<Rightarrow> Some []
      | Some (Some x, it') \<Rightarrow> map_option (Cons x) (bitmap_collect it'))"
  by pat_completeness auto

termination bitmap_collect
  by (relation "measure (\<lambda>it. bm_used_bits_count (it_bitmap it) - it_current_index it)")
     (auto simp: bitmap_next_def split: if_splits option.splits bind_splits)

declare bitmap_collect.simps [simp del]

subsection \<open>Abstraction and invariant\<close>

definition bitmap_bit :: "Bitmap \<Rightarrow> nat \<Rightarrow> bool" where
  "bitmap_bit b i \<longleftrightarrow> bit (bm_entries b ! (i div 8)) (i mod 8)"

definition bitmap_bits :: "Bitmap \<Rightarrow> bool list" where
  "bitmap_bits b = map (bitmap_bit b) [0..<bm_used_bits_count b]"

definition bitmap_wf :: "Bitmap \<Rightarrow> bool" where
  "bitmap_wf b \<longleftrightarrow> length (bm_entries b) = div_ceil (bm_used_bits_count b) 8
     \<and> bm_used_bits_count b < USIZE_LIM"

text \<open>No bit past the end is set in the last byte; only \<open>shrink\<close> can break this.\<close>

definition bitmap_clean :: "Bitmap \<Rightarrow> bool" where
  "bitmap_clean b \<longleftrightarrow>
     (\<forall>i < 8 * length (bm_entries b). bm_used_bits_count b \<le> i \<longrightarrow> \<not> bitmap_bit b i)"

lemma length_bitmap_bits [simp]: "length (bitmap_bits b) = bm_used_bits_count b"
  by (simp add: bitmap_bits_def)

lemma nth_bitmap_bits [simp]: "i < bm_used_bits_count b \<Longrightarrow> bitmap_bits b ! i = bitmap_bit b i"
  by (simp add: bitmap_bits_def)

lemma bitmap_wf_index: "bitmap_wf b \<Longrightarrow> i < bm_used_bits_count b \<Longrightarrow> i div 8 < length (bm_entries b)"
  by (simp add: bitmap_wf_def div_ceil_bound)

lemma and_pow2: "(w :: 'a::len word) AND 2 ^ k \<noteq> 0 \<longleftrightarrow> bit w k"
  by (simp add: and_exp_eq_0_iff_not_bit)

lemma byte_position: "i div 8 = j div 8 \<and> i mod 8 = j mod 8 \<longleftrightarrow> i = (j::nat)"
  by (metis div_mult_mod_eq)

text \<open>The effect of rewriting the byte that holds bit \<open>i\<close>, when the new byte differs only at
  that bit.\<close>

lemma bitmap_bits_update:
  assumes wf: "bitmap_wf b" and i: "i < bm_used_bits_count b"
    and e': "\<And>k. k < 8 \<Longrightarrow> bit e' k = (if k = i mod 8 then v else bit (bm_entries b ! (i div 8)) k)"
  shows "bitmap_bits (b \<lparr> bm_entries := (bm_entries b) [i div 8 := e'] \<rparr>) = (bitmap_bits b) [i := v]"
proof (rule nth_equalityI)
  fix j
  assume "j < length (bitmap_bits (b \<lparr> bm_entries := (bm_entries b) [i div 8 := e'] \<rparr>))"
  then have j: "j < bm_used_bits_count b" by simp
  have "i div 8 < length (bm_entries b)" by (rule bitmap_wf_index [OF wf i])
  with i j show "bitmap_bits (b \<lparr> bm_entries := (bm_entries b) [i div 8 := e'] \<rparr>) ! j
    = (bitmap_bits b) [i := v] ! j"
    using byte_position [of i j] by (auto simp: bitmap_bit_def nth_list_update e')
qed simp

lemma bitmap_wf_update:
  "bitmap_wf b \<Longrightarrow> bitmap_wf (b \<lparr> bm_entries := (bm_entries b) [k := e'] \<rparr>)"
  by (simp add: bitmap_wf_def)

subsection \<open>The operations refine list operations\<close>

lemma bitmap_set_spec:
  assumes "bitmap_wf b" and "i < bm_used_bits_count b"
  shows "\<exists>b'. bitmap_set b i = Some (Ok (), b') \<and> bitmap_wf b'
     \<and> bm_used_bits_count b' = bm_used_bits_count b \<and> bitmap_bits b' = (bitmap_bits b) [i := True]"
  using assms bitmap_wf_index [OF assms]
  by (auto simp: bitmap_set_def bitmap_wf_update bit_simps intro!: bitmap_bits_update)

lemma bitmap_unset_spec:
  assumes "bitmap_wf b" and "i < bm_used_bits_count b"
  shows "\<exists>b'. bitmap_unset b i = Some (Ok (), b') \<and> bitmap_wf b'
     \<and> bm_used_bits_count b' = bm_used_bits_count b \<and> bitmap_bits b' = (bitmap_bits b) [i := False]"
  using assms bitmap_wf_index [OF assms]
  by (auto simp: bitmap_unset_def bitmap_wf_update bit_simps intro!: bitmap_bits_update
      split: if_splits)

lemma bitmap_flip_spec:
  assumes "bitmap_wf b" and "i < bm_used_bits_count b"
  shows "\<exists>b'. bitmap_flip b i = Some (Ok (), b') \<and> bitmap_wf b'
     \<and> bm_used_bits_count b' = bm_used_bits_count b
     \<and> bitmap_bits b' = (bitmap_bits b) [i := \<not> bitmap_bits b ! i]"
  using assms bitmap_wf_index [OF assms]
  by (auto simp: bitmap_flip_def bitmap_wf_update bit_simps bitmap_bit_def intro!: bitmap_bits_update)

lemma bitmap_is_set_spec:
  assumes "bitmap_wf b" and "i < bm_used_bits_count b"
  shows "bitmap_is_set b i = Some (Ok (bitmap_bits b ! i))"
  using assms bitmap_wf_index [OF assms]
  by (simp add: bitmap_is_set_def and_pow2 bitmap_bit_def)

lemma bitmap_out_of_bounds:
  assumes "bm_used_bits_count b \<le> i"
  shows "bitmap_set b i = Some (Err (IndexOutOfBounds i (bm_used_bits_count b)), b)"
    and "bitmap_unset b i = Some (Err (IndexOutOfBounds i (bm_used_bits_count b)), b)"
    and "bitmap_flip b i = Some (Err (IndexOutOfBounds i (bm_used_bits_count b)), b)"
    and "bitmap_is_set b i = Some (Err (IndexOutOfBounds i (bm_used_bits_count b)))"
  using assms by (simp_all add: bitmap_set_def bitmap_unset_def bitmap_flip_def bitmap_is_set_def)

lemma bitmap_new_count [simp]: "bm_used_bits_count (bitmap_new n) = n"
  by (simp add: bitmap_new_def Let_def)

lemma bitmap_new_spec:
  assumes "n < USIZE_LIM"
  shows "bitmap_wf (bitmap_new n) \<and> bitmap_bits (bitmap_new n) = replicate n False"
proof
  show "bitmap_wf (bitmap_new n)"
    using assms by (simp add: bitmap_new_def bitmap_wf_def Let_def)
  have "bitmap_bit (bitmap_new n) i = False" if "i < n" for i
    using that div_ceil_bound [of 8 i n] by (simp add: bitmap_new_def bitmap_bit_def Let_def)
  then show "bitmap_bits (bitmap_new n) = replicate n False"
    by (intro nth_equalityI) (simp_all add: bitmap_new_def Let_def)
qed

lemma bitmap_uninit_wf: "bitmap_wf bitmap_uninit" "bitmap_bits bitmap_uninit = []"
  by (simp_all add: bitmap_uninit_def bitmap_wf_def bitmap_bits_def div_ceil_def USIZE_LIM_def)

lemma div_ceil_8_bound: "n \<le> 8 * div_ceil n 8"
  unfolding div_ceil_def by (cases "n mod 8 = 0") auto

lemma bitmap_grow_spec:
  assumes wf: "bitmap_wf b" and clean: "bitmap_clean b"
    and n: "bm_used_bits_count b \<le> n" "n < USIZE_LIM"
  shows "\<exists>b'. bitmap_grow b n = (Ok (), b') \<and> bitmap_wf b' \<and> bitmap_clean b'
     \<and> bitmap_bits b' = bitmap_bits b @ replicate (n - bm_used_bits_count b) False"
proof -
  define k where "k = div_ceil n 8 - length (bm_entries b)"
  define b' where "b' = b \<lparr> bm_entries := bm_entries b @ replicate k 0, bm_used_bits_count := n \<rparr>"
  have len: "length (bm_entries b) \<le> div_ceil n 8"
    using wf n by (simp add: bitmap_wf_def div_ceil_mono)
  have eq: "bitmap_grow b n = (Ok (), b')"
    using n len by (auto simp: bitmap_grow_def b'_def k_def Let_def)
  have wf': "bitmap_wf b'"
    using len n by (simp add: bitmap_wf_def b'_def k_def)
  have bit': "bitmap_bit b' i = (i < bm_used_bits_count b \<and> bitmap_bit b i)"
    if i: "i < 8 * length (bm_entries b')" for i
  proof (cases "i div 8 < length (bm_entries b)")
    case True
    then have "bitmap_bit b' i = bitmap_bit b i"
      by (simp add: bitmap_bit_def b'_def nth_append)
    moreover from True have "i < 8 * length (bm_entries b)" by simp
    ultimately show ?thesis using clean unfolding bitmap_clean_def by (meson not_le)
  next
    case False
    then have "\<not> bitmap_bit b' i"
      using i by (simp add: bitmap_bit_def b'_def nth_append)
    moreover have "\<not> i < bm_used_bits_count b"
      using False bitmap_wf_index [OF wf] by blast
    ultimately show ?thesis by simp
  qed
  have used': "bm_used_bits_count b' = n" by (simp add: b'_def)
  have cap: "i < n \<Longrightarrow> i < 8 * length (bm_entries b')" for i
    using wf' div_ceil_8_bound [of n] by (simp add: bitmap_wf_def used')
  have "bitmap_bits b' = bitmap_bits b @ replicate (n - bm_used_bits_count b) False"
    using n by (intro nth_equalityI) (auto simp: used' nth_append bit' cap)
  moreover have "bitmap_clean b'"
    using n by (auto simp: bitmap_clean_def bit' used')
  ultimately show ?thesis using eq wf' by blast
qed

lemma bitmap_shrink_spec:
  assumes wf: "bitmap_wf b" and n: "n \<le> bm_used_bits_count b"
  shows "\<exists>b'. bitmap_shrink b n = (Ok (), b') \<and> bitmap_wf b' \<and> bitmap_bits b' = take n (bitmap_bits b)"
proof -
  define b' where "b' = b \<lparr> bm_entries := take (div_ceil n 8) (bm_entries b), bm_used_bits_count := n \<rparr>"
  have "div_ceil n 8 \<le> length (bm_entries b)"
    using wf n by (simp add: bitmap_wf_def div_ceil_mono)
  then have wf': "bitmap_wf b'"
    using wf n by (simp add: bitmap_wf_def b'_def)
  have "bitmap_bit b' i = bitmap_bit b i" if "i < n" for i
    using that div_ceil_bound [of 8 i n] by (simp add: bitmap_bit_def b'_def)
  then have "bitmap_bits b' = take n (bitmap_bits b)"
    using n by (intro nth_equalityI) (simp_all add: b'_def)
  moreover have "bitmap_shrink b n = (Ok (), b')"
    using n by (simp add: bitmap_shrink_def b'_def Let_def)
  ultimately show ?thesis using wf' by blast
qed

lemma bitmap_clear_spec:
  assumes "bitmap_wf b"
  shows "bitmap_wf (bitmap_clear b)" "bitmap_clean (bitmap_clear b)"
    "bitmap_bits (bitmap_clear b) = replicate (bm_used_bits_count b) False"
proof -
  show "bitmap_wf (bitmap_clear b)" using assms by (simp add: bitmap_wf_def bitmap_clear_def)
  show "bitmap_clean (bitmap_clear b)"
    by (simp add: bitmap_clean_def bitmap_clear_def bitmap_bit_def less_mult_imp_div_less mult.commute)
  show "bitmap_bits (bitmap_clear b) = replicate (bm_used_bits_count b) False"
    using bitmap_wf_index [OF assms]
    by (intro nth_equalityI) (simp_all add: bitmap_clear_def bitmap_bit_def)
qed

lemma bitmap_collect_from:
  assumes "bitmap_wf b" and "i \<le> bm_used_bits_count b"
  shows "bitmap_collect \<lparr> it_bitmap = b, it_current_index = i \<rparr> = Some (drop i (bitmap_bits b))"
  using assms(2)
proof (induction "bm_used_bits_count b - i" arbitrary: i)
  case 0
  then show ?case by (simp add: bitmap_collect.simps bitmap_next_def)
next
  case (Suc n)
  then have i: "i < bm_used_bits_count b" by simp
  with assms(1) have "i + 1 < USIZE_LIM" by (simp add: bitmap_wf_def)
  then have "bitmap_next \<lparr> it_bitmap = b, it_current_index = i \<rparr>
      = Some (Some (bitmap_bits b ! i), \<lparr> it_bitmap = b, it_current_index = Suc i \<rparr>)"
    using i bitmap_is_set_spec [OF assms(1) i] by (simp add: bitmap_next_def uadd_def)
  moreover have "bitmap_collect \<lparr> it_bitmap = b, it_current_index = Suc i \<rparr>
      = Some (drop (Suc i) (bitmap_bits b))"
    using Suc i by simp
  ultimately show ?case
    using i Cons_nth_drop_Suc [of i "bitmap_bits b"]
    by (subst bitmap_collect.simps) simp
qed

subsection \<open>What clients of a bit store rely on\<close>

text \<open>The \<open>for i in 0..count\<close> search for the first clear bit, over the \<open>is_set\<close> of
  any store.\<close>

fun scan_first_clear ::
  "('s \<Rightarrow> nat \<Rightarrow> ('e + bool) option) \<Rightarrow> 's \<Rightarrow> nat \<Rightarrow> nat \<Rightarrow> ('e + nat option) option" where
  "scan_first_clear is_set s i 0 = Some (Ok None)"
| "scan_first_clear is_set s i (Suc n) = do {
     r \<leftarrow> is_set s i;
     (case r of
        Inl e \<Rightarrow> Some (Err e)
      | Inr b \<Rightarrow> if b then scan_first_clear is_set s (Suc i) n else Some (Ok (Some i))) }"

locale bit_store =
  fixes inv :: "'s \<Rightarrow> bool"
    and bits :: "'s \<Rightarrow> bool list"
    and count :: "'s \<Rightarrow> nat"
    and is_set :: "'s \<Rightarrow> nat \<Rightarrow> ('e + bool) option"
    and set_at :: "'s \<Rightarrow> nat \<Rightarrow> (('e + unit) \<times> 's) option"
    and unset_at :: "'s \<Rightarrow> nat \<Rightarrow> (('e + unit) \<times> 's) option"
  assumes count_bits: "inv s \<Longrightarrow> count s = length (bits s)"
    and is_set_bits: "inv s \<Longrightarrow> i < count s \<Longrightarrow> is_set s i = Some (Ok (bits s ! i))"
    and set_bits: "inv s \<Longrightarrow> i < count s \<Longrightarrow>
      \<exists>s'. set_at s i = Some (Ok (), s') \<and> inv s' \<and> bits s' = (bits s) [i := True]"
    and unset_bits: "inv s \<Longrightarrow> i < count s \<Longrightarrow>
      \<exists>s'. unset_at s i = Some (Ok (), s') \<and> inv s' \<and> bits s' = (bits s) [i := False]"
begin

lemma scan_from:
  assumes "inv s" and "i + n = count s"
  shows "scan_first_clear is_set s i n
    = Some (Ok (map_option (\<lambda>k. i + k) (find_idx Not (drop i (bits s)))))"
  using assms(2)
proof (induction n arbitrary: i)
  case 0
  then show ?case using count_bits [OF assms(1)] by simp
next
  case (Suc n)
  then have i: "i < count s" by simp
  then have "drop i (bits s) = bits s ! i # drop (Suc i) (bits s)"
    using count_bits [OF assms(1)] by (simp add: Cons_nth_drop_Suc)
  moreover have "scan_first_clear is_set s (Suc i) n
    = Some (Ok (map_option (\<lambda>k. Suc i + k) (find_idx Not (drop (Suc i) (bits s)))))"
    using Suc by simp
  ultimately show ?case
    using is_set_bits [OF assms(1) i]
    by (simp add: option.map_comp comp_def)
qed

lemma scan_all:
  assumes "inv s"
  shows "scan_first_clear is_set s 0 (count s) = Some (Ok (find_idx Not (bits s)))"
  using scan_from [OF assms, of 0 "count s"] by (simp add: option.map_ident)

lemma set_changes_only:
  assumes "inv s" and "i < count s"
  shows "\<exists>s'. set_at s i = Some (Ok (), s') \<and> inv s' \<and> count s' = count s
    \<and> {j. j < count s' \<and> bits s' ! j} = insert i {j. j < count s \<and> bits s ! j}"
proof -
  from set_bits [OF assms] obtain s' where s':
    "set_at s i = Some (Ok (), s')" "inv s'" "bits s' = (bits s) [i := True]" by blast
  then have "count s' = count s" using count_bits assms(1) by simp
  moreover have "{j. j < count s' \<and> bits s' ! j} = insert i {j. j < count s \<and> bits s ! j}"
    using s' assms count_bits \<open>count s' = count s\<close> by (auto simp: nth_list_update)
  ultimately show ?thesis using s' by blast
qed

lemma unset_changes_only:
  assumes "inv s" and "i < count s"
  shows "\<exists>s'. unset_at s i = Some (Ok (), s') \<and> inv s' \<and> count s' = count s
    \<and> {j. j < count s' \<and> bits s' ! j} = {j. j < count s \<and> bits s ! j} - {i}"
proof -
  from unset_bits [OF assms] obtain s' where s':
    "unset_at s i = Some (Ok (), s')" "inv s'" "bits s' = (bits s) [i := False]" by blast
  then have "count s' = count s" using count_bits assms(1) by simp
  moreover have "{j. j < count s' \<and> bits s' ! j} = {j. j < count s \<and> bits s ! j} - {i}"
    using s' assms count_bits \<open>count s' = count s\<close> by (auto simp: nth_list_update)
  ultimately show ?thesis using s' by blast
qed

end

interpretation bitmap_store: bit_store bitmap_wf bitmap_bits bm_used_bits_count
  bitmap_is_set bitmap_set bitmap_unset
proof unfold_locales
  fix b i
  assume b: "bitmap_wf b" "i < bm_used_bits_count b"
  show "bitmap_is_set b i = Some (Ok (bitmap_bits b ! i))"
    by (rule bitmap_is_set_spec [OF b])
  show "\<exists>b'. bitmap_set b i = Some (Ok (), b') \<and> bitmap_wf b' \<and> bitmap_bits b' = (bitmap_bits b) [i := True]"
    using bitmap_set_spec [OF b] by blast
  show "\<exists>b'. bitmap_unset b i = Some (Ok (), b') \<and> bitmap_wf b' \<and> bitmap_bits b' = (bitmap_bits b) [i := False]"
    using bitmap_unset_spec [OF b] by blast
qed simp

subsection \<open>Properties\<close>

text \<open>C32: every bit operation on an index in range returns without panicking and without an
  error, keeps the representation invariant, and changes exactly the addressed bit: on the
  list of bits, \<open>set\<close>, \<open>unset\<close> and \<open>flip\<close> are a single list update and \<open>is_set\<close> a
  lookup.\<close>

theorem bitmap_ops_refine_list:
  assumes "bitmap_wf b" and "i < bm_used_bits_count b"
  shows "bitmap_is_set b i = Some (Ok (bitmap_bits b ! i))
    \<and> (\<exists>b'. bitmap_set b i = Some (Ok (), b') \<and> bitmap_wf b' \<and> bitmap_bits b' = (bitmap_bits b) [i := True])
    \<and> (\<exists>b'. bitmap_unset b i = Some (Ok (), b') \<and> bitmap_wf b' \<and> bitmap_bits b' = (bitmap_bits b) [i := False])
    \<and> (\<exists>b'. bitmap_flip b i = Some (Ok (), b') \<and> bitmap_wf b'
         \<and> bitmap_bits b' = (bitmap_bits b) [i := \<not> bitmap_bits b ! i])"
  using bitmap_is_set_spec [OF assms] bitmap_set_spec [OF assms] bitmap_unset_spec [OF assms]
    bitmap_flip_spec [OF assms] by blast

theorem bitmap_ops_refine_list_witness:
  "bitmap_wf (bitmap_new 10) \<and> bitmap_is_set (bitmap_new 10) 9 = Some (Ok False)
    \<and> (\<exists>b'. bitmap_set (bitmap_new 10) 9 = Some (Ok (), b') \<and> bitmap_bits b' ! 9)"
proof -
  have wf: "bitmap_wf (bitmap_new 10)" and bits: "bitmap_bits (bitmap_new 10) = replicate 10 False"
    using bitmap_new_spec [of 10] by (simp_all add: USIZE_LIM_def)
  have n: "bm_used_bits_count (bitmap_new 10) = 10" by (simp add: bitmap_new_def Let_def)
  have i: "9 < bm_used_bits_count (bitmap_new 10)" by (simp add: n)
  note p = bitmap_ops_refine_list [OF wf i, unfolded bits]
  from p obtain b' where b': "bitmap_set (bitmap_new 10) 9 = Some (Ok (), b')"
    "bitmap_bits b' = (replicate 10 False) [9 := True]" by blast
  then have "bitmap_bits b' ! 9" by simp
  with b' p wf show ?thesis by auto
qed

text \<open>the iterator of a well-formed bitmap terminates and yields exactly its bits, in
  order.\<close>

theorem bitmap_iter_yields_bits:
  assumes "bitmap_wf b"
  shows "bitmap_collect (bitmap_iter b) = Some (bitmap_bits b)"
  using bitmap_collect_from [OF assms, of 0] by (simp add: bitmap_iter_def)

theorem bitmap_iter_yields_bits_witness:
  "bitmap_collect (bitmap_iter (bitmap_new 4)) = Some [False, False, False, False]"
proof -
  have "bitmap_wf (bitmap_new 4)" "bitmap_bits (bitmap_new 4) = replicate 4 False"
    using bitmap_new_spec [of 4] by (simp_all add: USIZE_LIM_def)
  with bitmap_iter_yields_bits [of "bitmap_new 4"] show ?thesis
    by (simp add: numeral_eq_Suc)
qed

text \<open>\<open>grow\<close> keeps every bit and appends clear ones provided no stale bit lies past the
  end, and \<open>shrink\<close> keeps a prefix; but the two together are not what they seem: shrinking
  to a length inside a byte leaves the cut bits in place, and growing again brings them
  back (here bit 7 of a bitmap that was cut to 4 bits and regrown to 8).\<close>

theorem bitmap_resize:
  "(\<forall>b n. bitmap_wf b \<longrightarrow> bitmap_clean b \<longrightarrow> bm_used_bits_count b \<le> n \<longrightarrow> n < USIZE_LIM \<longrightarrow>
      (\<exists>b'. bitmap_grow b n = (Ok (), b') \<and> bitmap_wf b'
        \<and> bitmap_bits b' = bitmap_bits b @ replicate (n - bm_used_bits_count b) False))
   \<and> (\<forall>b n. bitmap_wf b \<longrightarrow> n \<le> bm_used_bits_count b \<longrightarrow>
      (\<exists>b'. bitmap_shrink b n = (Ok (), b') \<and> bitmap_wf b' \<and> bitmap_bits b' = take n (bitmap_bits b)))
   \<and> (\<exists>b. bitmap_set (bitmap_new 8) 7 = Some (Ok (), b)
      \<and> bitmap_is_set (snd (bitmap_grow (snd (bitmap_shrink b 4)) 8)) 7 = Some (Ok True))"
proof (intro conjI allI impI)
  fix b n
  assume "bitmap_wf b" "bitmap_clean b" "bm_used_bits_count b \<le> n" "n < USIZE_LIM"
  then show "\<exists>b'. bitmap_grow b n = (Ok (), b') \<and> bitmap_wf b'
      \<and> bitmap_bits b' = bitmap_bits b @ replicate (n - bm_used_bits_count b) False"
    using bitmap_grow_spec by blast
next
  fix b n
  assume "bitmap_wf b" "n \<le> bm_used_bits_count b"
  then show "\<exists>b'. bitmap_shrink b n = (Ok (), b') \<and> bitmap_wf b' \<and> bitmap_bits b' = take n (bitmap_bits b)"
    by (rule bitmap_shrink_spec)
qed (simp add: bitmap_set_def bitmap_new_def bitmap_shrink_def bitmap_grow_def bitmap_is_set_def
    div_ceil_def Let_def)

theorem bitmap_resize_witness:
  "\<exists>b'. bitmap_grow (bitmap_new 3) 9 = (Ok (), b') \<and> bitmap_bits b' = replicate 9 False"
proof -
  have "bitmap_wf (bitmap_new 3)" "bitmap_bits (bitmap_new 3) = replicate 3 False"
    using bitmap_new_spec [of 3] by (simp_all add: USIZE_LIM_def)
  moreover have "bitmap_clean (bitmap_new 3)"
    by (simp add: bitmap_clean_def bitmap_new_def bitmap_bit_def div_ceil_def Let_def)
  moreover have "bm_used_bits_count (bitmap_new 3) = 3" by (simp add: bitmap_new_def Let_def)
  moreover have "replicate 3 False @ replicate 6 False = replicate 9 False"
    by (simp add: replicate_add [symmetric])
  ultimately show ?thesis
    using bitmap_resize [THEN conjunct1, rule_format, of "bitmap_new 3" 9]
    by (auto simp: USIZE_LIM_def)
qed

end
