(* ===== verification/Id_Alloc.thy ===== *)
theory Id_Alloc
  imports Bitmap
begin

text \<open>
  The ID allocators of \<open>utils/src/collections/id\<close>: \<open>IdHander\<close> (\<open>hander.rs\<close>), a bump
  allocator, and \<open>IdTracker\<close> (\<open>tracker.rs\<close>), which tracks the IDs of a finite pool in a
  bitmap.  The tracker reaches the bitmap only through the contract \<open>bit_store\<close>; its
  abstract state is the set of IDs that are taken.
\<close>

subsection \<open>Ids\<close>

datatype Id = Id (id_val: usize)

instantiation Id :: linorder
begin

definition less_eq_Id :: "Id \<Rightarrow> Id \<Rightarrow> bool" where
  "less_eq_Id a b \<longleftrightarrow> id_val a \<le> id_val b"

definition less_Id :: "Id \<Rightarrow> Id \<Rightarrow> bool" where
  "less_Id a b \<longleftrightarrow> id_val a < id_val b"

instance
  by standard (auto simp: less_eq_Id_def less_Id_def intro: Id.expand)

end

lemmas Id_order = less_eq_Id_def less_Id_def

definition MAX_ID :: Id where
  "MAX_ID = Id (USIZE_LIM - 1)"

subsection \<open>IdHander\<close>

record IdHander =
  hander_next :: Id
  hander_max :: Id

definition id_hander_uninit :: IdHander where
  "id_hander_uninit = \<lparr> hander_next = Id 0, hander_max = Id 0 \<rparr>"

definition id_hander_new_starting_from :: "Id \<Rightarrow> Id \<Rightarrow> IdHander" where
  "id_hander_new_starting_from start_id max_id = \<lparr> hander_next = start_id, hander_max = max_id \<rparr>"

definition id_hander_new :: "Id \<Rightarrow> IdHander" where
  "id_hander_new max_id = id_hander_new_starting_from (Id 0) max_id"

definition id_hander_handout_and_skip :: "IdHander \<Rightarrow> usize \<Rightarrow> (Id option \<times> IdHander) option" where
  "id_hander_handout_and_skip h count =
     (if id_val (hander_next h) > id_val (hander_max h) then Some (None, h)
      else do {
        let handed_out = hander_next h;
        n \<leftarrow> uadd (id_val (hander_next h)) count;
        Some (Some handed_out, h \<lparr> hander_next := Id n \<rparr>) })"

definition id_hander_handout :: "IdHander \<Rightarrow> (Id option \<times> IdHander) option" where
  "id_hander_handout h = id_hander_handout_and_skip h 1"

definition id_hander_peek_next :: "IdHander \<Rightarrow> Id" where
  "id_hander_peek_next h = hander_next h"

text \<open>A client's sequence of \<open>handout_and_skip\<close> calls and the IDs it receives.\<close>

fun id_hander_run :: "IdHander \<Rightarrow> usize list \<Rightarrow> (Id option list \<times> IdHander) option" where
  "id_hander_run h [] = Some ([], h)"
| "id_hander_run h (c # cs) = do {
     (r, h') \<leftarrow> id_hander_handout_and_skip h c;
     (rs, h'') \<leftarrow> id_hander_run h' cs;
     Some (r # rs, h'') }"

subsection \<open>IdTracker\<close>

datatype IdTrackerError = OutOfIds | IdAlreadyFree | InvalidId | IdAlreadyTaken

record IdTracker =
  trk_bitmap :: Bitmap
  trk_min :: Id

definition id_tracker_uninit :: IdTracker where
  "id_tracker_uninit = \<lparr> trk_bitmap = bitmap_uninit, trk_min = Id 0 \<rparr>"

definition id_tracker_new :: "Id \<Rightarrow> Id \<Rightarrow> IdTracker option" where
  "id_tracker_new mn mx = do {
     d \<leftarrow> usub (id_val mx) (id_val mn);
     n \<leftarrow> uadd d 1;
     Some \<lparr> trk_bitmap = bitmap_new n, trk_min = mn \<rparr> }"

definition id_tracker_allocate :: "IdTracker \<Rightarrow> ((IdTrackerError + Id) \<times> IdTracker) option" where
  "id_tracker_allocate t = do {
     r \<leftarrow> scan_first_clear bitmap_is_set (trk_bitmap t) 0 (bm_used_bits_count (trk_bitmap t));
     (case r of
        Inl _ \<Rightarrow> Some (Err InvalidId, t)
      | Inr None \<Rightarrow> Some (Err OutOfIds, t)
      | Inr (Some i) \<Rightarrow> do {
          n \<leftarrow> uadd (id_val (trk_min t)) i;
          (s, bm) \<leftarrow> bitmap_set (trk_bitmap t) i;
          _ \<leftarrow> unwrap_ok s;
          Some (Ok (Id n), t \<lparr> trk_bitmap := bm \<rparr>) }) }"

text \<open>The range check of \<open>allocate_at\<close> and \<open>free\<close>; \<open>||\<close> evaluates the upper bound, which can
  overflow or underflow, only when the lower bound holds.\<close>

definition id_tracker_invalid :: "IdTracker \<Rightarrow> Id \<Rightarrow> bool option" where
  "id_tracker_invalid t ident =
     (if ident < trk_min t then Some True
      else do {
        a \<leftarrow> uadd (id_val (trk_min t)) (bm_used_bits_count (trk_bitmap t));
        m \<leftarrow> usub a 1;
        Some (Id m < ident) })"

definition id_tracker_allocate_at :: "IdTracker \<Rightarrow> Id \<Rightarrow> ((IdTrackerError + unit) \<times> IdTracker) option" where
  "id_tracker_allocate_at t ident = do {
     bad \<leftarrow> id_tracker_invalid t ident;
     if bad then Some (Err InvalidId, t)
     else do {
       bit_index \<leftarrow> usub (id_val ident) (id_val (trk_min t));
       r \<leftarrow> bitmap_is_set (trk_bitmap t) bit_index;
       found \<leftarrow> unwrap_ok r;
       if found then Some (Err IdAlreadyTaken, t)
       else do {
         (s, bm) \<leftarrow> bitmap_set (trk_bitmap t) bit_index;
         _ \<leftarrow> unwrap_ok s;
         Some (Ok (), t \<lparr> trk_bitmap := bm \<rparr>) } } }"

definition id_tracker_free :: "IdTracker \<Rightarrow> Id \<Rightarrow> ((IdTrackerError + unit) \<times> IdTracker) option" where
  "id_tracker_free t ident = do {
     bad \<leftarrow> id_tracker_invalid t ident;
     if bad then Some (Err InvalidId, t)
     else do {
       bit_index \<leftarrow> usub (id_val ident) (id_val (trk_min t));
       r \<leftarrow> bitmap_is_set (trk_bitmap t) bit_index;
       found \<leftarrow> unwrap_ok r;
       if \<not> found then Some (Err IdAlreadyFree, t)
       else do {
         (s, bm) \<leftarrow> bitmap_unset (trk_bitmap t) bit_index;
         _ \<leftarrow> unwrap_ok s;
         Some (Ok (), t \<lparr> trk_bitmap := bm \<rparr>) } } }"

subsection \<open>Abstract state of a tracker\<close>

definition tracker_pool :: "IdTracker \<Rightarrow> Id set" where
  "tracker_pool t = {ident. id_val (trk_min t) \<le> id_val ident
     \<and> id_val ident < id_val (trk_min t) + bm_used_bits_count (trk_bitmap t)}"

definition tracker_taken :: "IdTracker \<Rightarrow> Id set" where
  "tracker_taken t = {ident \<in> tracker_pool t. bitmap_bits (trk_bitmap t) ! (id_val ident - id_val (trk_min t))}"

definition tracker_wf :: "IdTracker \<Rightarrow> bool" where
  "tracker_wf t \<longleftrightarrow> bitmap_wf (trk_bitmap t) \<and> 0 < bm_used_bits_count (trk_bitmap t)
     \<and> id_val (trk_min t) + bm_used_bits_count (trk_bitmap t) < USIZE_LIM"

text \<open>What an ID allocator promises, on the pool and the set of taken IDs.\<close>

definition spec_allocate :: "Id set \<Rightarrow> Id set \<Rightarrow> (IdTrackerError + Id) \<Rightarrow> Id set \<Rightarrow> bool" where
  "spec_allocate pool taken r taken' \<longleftrightarrow>
     (if pool \<subseteq> taken then r = Err OutOfIds \<and> taken' = taken
      else \<exists>ident \<in> pool - taken. r = Ok ident \<and> taken' = insert ident taken
             \<and> (\<forall>id' \<in> pool - taken. ident \<le> id'))"

definition spec_allocate_at :: "Id set \<Rightarrow> Id set \<Rightarrow> Id \<Rightarrow> (IdTrackerError + unit) \<times> Id set" where
  "spec_allocate_at pool taken ident =
     (if ident \<notin> pool then (Err InvalidId, taken)
      else if ident \<in> taken then (Err IdAlreadyTaken, taken)
      else (Ok (), insert ident taken))"

definition spec_free :: "Id set \<Rightarrow> Id set \<Rightarrow> Id \<Rightarrow> (IdTrackerError + unit) \<times> Id set" where
  "spec_free pool taken ident =
     (if ident \<notin> pool then (Err InvalidId, taken)
      else if ident \<notin> taken then (Err IdAlreadyFree, taken)
      else (Ok (), taken - {ident}))"

subsection \<open>The tracker implements the specification\<close>

definition id_at :: "IdTracker \<Rightarrow> nat \<Rightarrow> Id" where
  "id_at t i = Id (id_val (trk_min t) + i)"

lemma id_at_inj [simp]: "id_at t i = id_at t j \<longleftrightarrow> i = j"
  by (simp add: id_at_def)

lemma id_at_image_diff: "id_at t ` (A - {i}) = id_at t ` A - {id_at t i}"
  by auto

lemma id_at_le [simp]: "id_at t i \<le> id_at t j \<longleftrightarrow> i \<le> j"
  by (simp add: id_at_def Id_order)

lemma id_at_cong: "trk_min t' = trk_min t \<Longrightarrow> id_at t' = id_at t"
  by (simp add: fun_eq_iff id_at_def)

lemma tracker_pool_image: "tracker_pool t = id_at t ` {i. i < bm_used_bits_count (trk_bitmap t)}"
proof (intro set_eqI iffI)
  fix x
  assume "x \<in> tracker_pool t"
  then have "x = id_at t (id_val x - id_val (trk_min t))"
    and "id_val x - id_val (trk_min t) < bm_used_bits_count (trk_bitmap t)"
    by (cases x; auto simp: tracker_pool_def id_at_def)+
  then show "x \<in> id_at t ` {i. i < bm_used_bits_count (trk_bitmap t)}" by blast
qed (auto simp: tracker_pool_def id_at_def)

lemma tracker_taken_image:
  "tracker_taken t = id_at t ` {i. i < bm_used_bits_count (trk_bitmap t) \<and> bitmap_bits (trk_bitmap t) ! i}"
proof -
  have "bitmap_bits (trk_bitmap t) ! (id_val (id_at t i) - id_val (trk_min t)) = bitmap_bits (trk_bitmap t) ! i" for i
    by (simp add: id_at_def)
  then show ?thesis by (auto simp: tracker_taken_def tracker_pool_image)
qed

lemma in_pool_id_at:
  assumes "x \<in> tracker_pool t"
  obtains i where "x = id_at t i" "i < bm_used_bits_count (trk_bitmap t)"
  using assms by (auto simp: tracker_pool_image)

lemma id_at_taken [simp]:
  "i < bm_used_bits_count (trk_bitmap t) \<Longrightarrow> id_at t i \<in> tracker_taken t \<longleftrightarrow> bitmap_bits (trk_bitmap t) ! i"
  by (auto simp: tracker_taken_image)

lemma id_tracker_invalid_iff:
  assumes "tracker_wf t"
  shows "id_tracker_invalid t x = Some (x \<notin> tracker_pool t)"
  using assms by (auto simp: id_tracker_invalid_def tracker_wf_def tracker_pool_def Id_order
      uadd_def usub_def)

lemma tracker_set_bit:
  assumes "tracker_wf t" and i: "i < bm_used_bits_count (trk_bitmap t)"
  obtains bm where "bitmap_set (trk_bitmap t) i = Some (Ok (), bm)"
    and "tracker_wf (t \<lparr> trk_bitmap := bm \<rparr>)"
    and "tracker_pool (t \<lparr> trk_bitmap := bm \<rparr>) = tracker_pool t"
    and "tracker_taken (t \<lparr> trk_bitmap := bm \<rparr>) = insert (id_at t i) (tracker_taken t)"
proof -
  have wf: "bitmap_wf (trk_bitmap t)" using assms by (simp add: tracker_wf_def)
  from bitmap_store.set_changes_only [OF wf i] obtain bm where bm:
    "bitmap_set (trk_bitmap t) i = Some (Ok (), bm)" "bitmap_wf bm"
    "bm_used_bits_count bm = bm_used_bits_count (trk_bitmap t)"
    "{j. j < bm_used_bits_count bm \<and> bitmap_bits bm ! j}
      = insert i {j. j < bm_used_bits_count (trk_bitmap t) \<and> bitmap_bits (trk_bitmap t) ! j}" by blast
  let ?t' = "t \<lparr> trk_bitmap := bm \<rparr>"
  have at: "id_at ?t' = id_at t" by (rule id_at_cong) simp
  have "tracker_taken ?t' = insert (id_at t i) (tracker_taken t)"
    unfolding tracker_taken_image at using bm(4) by simp
  with bm assms show thesis
    by (intro that [of bm]) (simp_all add: tracker_wf_def tracker_pool_def)
qed

lemma tracker_unset_bit:
  assumes "tracker_wf t" and i: "i < bm_used_bits_count (trk_bitmap t)"
  obtains bm where "bitmap_unset (trk_bitmap t) i = Some (Ok (), bm)"
    and "tracker_wf (t \<lparr> trk_bitmap := bm \<rparr>)"
    and "tracker_pool (t \<lparr> trk_bitmap := bm \<rparr>) = tracker_pool t"
    and "tracker_taken (t \<lparr> trk_bitmap := bm \<rparr>) = tracker_taken t - {id_at t i}"
proof -
  have wf: "bitmap_wf (trk_bitmap t)" using assms by (simp add: tracker_wf_def)
  from bitmap_store.unset_changes_only [OF wf i] obtain bm where bm:
    "bitmap_unset (trk_bitmap t) i = Some (Ok (), bm)" "bitmap_wf bm"
    "bm_used_bits_count bm = bm_used_bits_count (trk_bitmap t)"
    "{j. j < bm_used_bits_count bm \<and> bitmap_bits bm ! j}
      = {j. j < bm_used_bits_count (trk_bitmap t) \<and> bitmap_bits (trk_bitmap t) ! j} - {i}" by blast
  let ?t' = "t \<lparr> trk_bitmap := bm \<rparr>"
  have at: "id_at ?t' = id_at t" by (rule id_at_cong) simp
  have "tracker_taken ?t' = tracker_taken t - {id_at t i}"
    unfolding tracker_taken_image at using bm(4)
    by (simp add: id_at_image_diff)
  with bm assms show thesis
    by (intro that [of bm]) (simp_all add: tracker_wf_def tracker_pool_def)
qed

lemma tracker_is_set:
  assumes "tracker_wf t" and "i < bm_used_bits_count (trk_bitmap t)"
  shows "bitmap_is_set (trk_bitmap t) i = Some (Ok (id_at t i \<in> tracker_taken t))"
  using assms bitmap_store.is_set_bits by (simp add: tracker_wf_def)

lemma id_at_usub [simp]: "usub (id_val (id_at t i)) (id_val (trk_min t)) = Some i"
  by (simp add: id_at_def)

lemma id_tracker_allocate_at_spec:
  assumes wf: "tracker_wf t"
  shows "\<exists>r t'. id_tracker_allocate_at t x = Some (r, t') \<and> tracker_wf t' \<and> tracker_pool t' = tracker_pool t
     \<and> (r, tracker_taken t') = spec_allocate_at (tracker_pool t) (tracker_taken t) x"
proof (cases "x \<in> tracker_pool t")
  case False
  then show ?thesis
    using wf by (simp add: id_tracker_allocate_at_def id_tracker_invalid_iff spec_allocate_at_def)
next
  case True
  then obtain i where x: "x = id_at t i" and i: "i < bm_used_bits_count (trk_bitmap t)"
    by (rule in_pool_id_at)
  obtain bm where bm: "bitmap_set (trk_bitmap t) i = Some (Ok (), bm)"
    "tracker_wf (t \<lparr> trk_bitmap := bm \<rparr>)"
    "tracker_pool (t \<lparr> trk_bitmap := bm \<rparr>) = tracker_pool t"
    "tracker_taken (t \<lparr> trk_bitmap := bm \<rparr>) = insert (id_at t i) (tracker_taken t)"
    by (rule tracker_set_bit [OF wf i])
  show ?thesis
    using True wf bm tracker_is_set [OF wf i] x
    by (cases "x \<in> tracker_taken t")
       (simp_all add: id_tracker_allocate_at_def id_tracker_invalid_iff spec_allocate_at_def)
qed

lemma id_tracker_free_spec:
  assumes wf: "tracker_wf t"
  shows "\<exists>r t'. id_tracker_free t x = Some (r, t') \<and> tracker_wf t' \<and> tracker_pool t' = tracker_pool t
     \<and> (r, tracker_taken t') = spec_free (tracker_pool t) (tracker_taken t) x"
proof (cases "x \<in> tracker_pool t")
  case False
  then show ?thesis
    using wf by (simp add: id_tracker_free_def id_tracker_invalid_iff spec_free_def)
next
  case True
  then obtain i where x: "x = id_at t i" and i: "i < bm_used_bits_count (trk_bitmap t)"
    by (rule in_pool_id_at)
  obtain bm where bm: "bitmap_unset (trk_bitmap t) i = Some (Ok (), bm)"
    "tracker_wf (t \<lparr> trk_bitmap := bm \<rparr>)"
    "tracker_pool (t \<lparr> trk_bitmap := bm \<rparr>) = tracker_pool t"
    "tracker_taken (t \<lparr> trk_bitmap := bm \<rparr>) = tracker_taken t - {id_at t i}"
    by (rule tracker_unset_bit [OF wf i])
  show ?thesis
    using True wf bm tracker_is_set [OF wf i] x
    by (cases "x \<in> tracker_taken t")
       (simp_all add: id_tracker_free_def id_tracker_invalid_iff spec_free_def)
qed

lemma tracker_full_iff:
  "tracker_pool t \<subseteq> tracker_taken t \<longleftrightarrow> find_idx Not (bitmap_bits (trk_bitmap t)) = None"
  by (simp add: find_idx_None tracker_pool_image image_subset_iff all_set_conv_all_nth)

lemma id_tracker_allocate_spec:
  assumes wf: "tracker_wf t"
  shows "\<exists>r t'. id_tracker_allocate t = Some (r, t') \<and> tracker_wf t' \<and> tracker_pool t' = tracker_pool t
     \<and> spec_allocate (tracker_pool t) (tracker_taken t) r (tracker_taken t')"
proof -
  have bwf: "bitmap_wf (trk_bitmap t)" using wf by (simp add: tracker_wf_def)
  note scan = bitmap_store.scan_all [OF bwf]
  show ?thesis
  proof (cases "find_idx Not (bitmap_bits (trk_bitmap t))")
    case None
    with wf scan show ?thesis
      by (simp add: id_tracker_allocate_def spec_allocate_def tracker_full_iff)
  next
    case (Some i)
    then have i: "i < bm_used_bits_count (trk_bitmap t)" "id_at t i \<notin> tracker_taken t"
      and least: "\<And>j. j < i \<Longrightarrow> id_at t j \<in> tracker_taken t"
      by (auto simp: find_idx_Some)
    obtain bm where bm: "bitmap_set (trk_bitmap t) i = Some (Ok (), bm)"
      "tracker_wf (t \<lparr> trk_bitmap := bm \<rparr>)"
      "tracker_pool (t \<lparr> trk_bitmap := bm \<rparr>) = tracker_pool t"
      "tracker_taken (t \<lparr> trk_bitmap := bm \<rparr>) = insert (id_at t i) (tracker_taken t)"
      by (rule tracker_set_bit [OF wf i(1)])
    have ltU: "id_val (trk_min t) + i < USIZE_LIM" using i wf by (simp add: tracker_wf_def)
    have "id_at t i \<le> y" if "y \<in> tracker_pool t - tracker_taken t" for y
    proof -
      from that obtain j where y: "y = id_at t j" by (auto simp: tracker_pool_image)
      with that least have "\<not> j < i" by blast
      with y show ?thesis by simp
    qed
    moreover have "id_at t i \<in> tracker_pool t" using i by (auto simp: tracker_pool_image)
    ultimately have "spec_allocate (tracker_pool t) (tracker_taken t) (Ok (id_at t i))
        (insert (id_at t i) (tracker_taken t))"
      using i(2) by (auto simp: spec_allocate_def)
    with bm scan Some ltU show ?thesis
      by (simp add: id_tracker_allocate_def id_at_def [symmetric] uadd_def)
  qed
qed

lemma id_tracker_new_spec:
  assumes "id_val mn \<le> id_val mx" and "id_val mx + 1 < USIZE_LIM"
  shows "\<exists>t. id_tracker_new mn mx = Some t \<and> tracker_wf t \<and> tracker_pool t = {mn..mx} \<and> tracker_taken t = {}"
proof -
  let ?n = "id_val mx - id_val mn + 1"
  let ?t = "\<lparr> trk_bitmap = bitmap_new ?n, trk_min = mn \<rparr>"
  have n: "?n < USIZE_LIM" using assms by simp
  have "id_tracker_new mn mx = Some ?t"
    using assms n by (simp add: id_tracker_new_def uadd_def usub_def)
  moreover have "tracker_wf ?t"
    using bitmap_new_spec [OF n] assms by (simp add: tracker_wf_def)
  moreover have "tracker_pool ?t = {mn..mx}"
    using assms by (auto simp: tracker_pool_def Id_order)
  moreover have "tracker_taken ?t = {}"
    using bitmap_new_spec [OF n]
    by (auto simp: tracker_taken_image simp del: nth_bitmap_bits replicate_Suc add_Suc_right)
  ultimately show ?thesis by blast
qed

subsection \<open>The hander\<close>

lemma id_hander_handout_and_skip_spec:
  assumes "id_val (hander_max h) + c < USIZE_LIM"
  shows "id_hander_handout_and_skip h c =
    (if hander_next h \<le> hander_max h
     then Some (Some (hander_next h), h \<lparr> hander_next := Id (id_val (hander_next h) + c) \<rparr>)
     else Some (None, h))"
  using assms by (auto simp: id_hander_handout_and_skip_def uadd_def Id_order)

text \<open>Every ID handed out in a run lies between the start and the maximum.\<close>

lemma id_hander_run_range:
  assumes "id_hander_run h cs = Some (rs, h')" and "Some x \<in> set rs"
  shows "hander_next h \<le> x \<and> x \<le> hander_max h"
  using assms
proof (induction cs arbitrary: h rs)
  case (Cons c cs)
  from Cons.prems(1) obtain r h1 rs1 where step:
    "id_hander_handout_and_skip h c = Some (r, h1)" "id_hander_run h1 cs = Some (rs1, h')" "rs = r # rs1"
    by (auto split: bind_splits prod.splits)
  have mono: "hander_next h \<le> hander_next h1" "hander_max h1 = hander_max h"
    using step(1) by (auto simp: id_hander_handout_and_skip_def Id_order split: if_splits bind_splits)
  from Cons.prems(2) step(3) consider "Some x = r" | "Some x \<in> set rs1" by auto
  then show ?case
  proof cases
    case 1
    with step(1) show ?thesis
      by (auto simp: id_hander_handout_and_skip_def Id_order split: if_splits bind_splits)
  next
    case 2
    with Cons.IH step(2) have "hander_next h1 \<le> x \<and> x \<le> hander_max h1" by blast
    with mono show ?thesis by auto
  qed
qed simp

lemma id_hander_run_disjoint:
  assumes "id_hander_run h cs = Some (rs, h')" and "i < j" and "j < length rs"
    and "rs ! i = Some x" and "rs ! j = Some y"
  shows "id_val x + cs ! i \<le> id_val y"
  using assms
proof (induction cs arbitrary: h rs i j)
  case (Cons c cs)
  from Cons.prems(1) obtain r h1 rs1 where step:
    "id_hander_handout_and_skip h c = Some (r, h1)" "id_hander_run h1 cs = Some (rs1, h')" "rs = r # rs1"
    by (auto split: bind_splits prod.splits)
  from Cons.prems obtain j' where j: "j = Suc j'" by (cases j) auto
  show ?case
  proof (cases i)
    case 0
    with Cons.prems step have "r = Some x" by simp
    with step(1) have "id_val (hander_next h1) = id_val x + c"
      by (auto simp: id_hander_handout_and_skip_def split: if_splits bind_splits)
    moreover from Cons.prems step(3) j have "Some y \<in> set rs1" by (auto simp: in_set_conv_nth)
    then have "hander_next h1 \<le> y" using id_hander_run_range [OF step(2)] by blast
    ultimately show ?thesis using 0 by (simp add: Id_order)
  next
    case (Suc i')
    then show ?thesis using Cons.IH [OF step(2), of i' j'] Cons.prems step(3) j by simp
  qed
qed simp

text \<open>\<open>n\<close> successive calls of \<open>allocate\<close>.\<close>

fun id_tracker_allocate_n :: "nat \<Rightarrow> IdTracker \<Rightarrow> ((IdTrackerError + Id) list \<times> IdTracker) option" where
  "id_tracker_allocate_n 0 t = Some ([], t)"
| "id_tracker_allocate_n (Suc n) t = do {
     (r, t') \<leftarrow> id_tracker_allocate t;
     (rs, t'') \<leftarrow> id_tracker_allocate_n n t';
     Some (r # rs, t'') }"

lemma id_tracker_allocate_n_from:
  assumes "tracker_wf t" and "tracker_pool t = {Id a..Id b}" and "tracker_taken t = {Id a..<Id k}"
    and "a \<le> k" and "k + n \<le> Suc b"
  shows "\<exists>t'. id_tracker_allocate_n n t = Some (map (\<lambda>i. Ok (Id i)) [k..<k + n], t')
    \<and> tracker_wf t' \<and> tracker_pool t' = {Id a..Id b} \<and> tracker_taken t' = {Id a..<Id (k + n)}"
  using assms
proof (induction n arbitrary: t k)
  case (Suc n)
  obtain r t1 where t1: "id_tracker_allocate t = Some (r, t1)" "tracker_wf t1"
    "tracker_pool t1 = tracker_pool t" "spec_allocate (tracker_pool t) (tracker_taken t) r (tracker_taken t1)"
    using id_tracker_allocate_spec [OF Suc.prems(1)] by blast
  have k: "Id k \<in> tracker_pool t - tracker_taken t"
    using Suc.prems by (auto simp: Id_order)
  with t1(4) obtain x where x: "x \<in> tracker_pool t - tracker_taken t" "r = Ok x"
    "tracker_taken t1 = insert x (tracker_taken t)" "x \<le> Id k"
    by (auto simp: spec_allocate_def split: if_splits)
  then have "x = Id k"
    using Suc.prems by (cases x) (auto simp: Id_order)
  then have "tracker_taken t1 = {Id a..<Id (Suc k)}"
    using x Suc.prems by (auto simp: Id_order intro!: Id.expand)
  then obtain t' where "id_tracker_allocate_n n t1 = Some (map (\<lambda>i. Ok (Id i)) [Suc k..<Suc k + n], t')"
    "tracker_wf t'" "tracker_pool t' = {Id a..Id b}" "tracker_taken t' = {Id a..<Id (Suc k + n)}"
    using Suc.IH [of t1 "Suc k"] Suc.prems t1 by auto
  moreover have "[k..<k + Suc n] = k # [Suc k..<Suc k + n]" by (simp add: upt_conv_Cons)
  ultimately show ?case using t1(1) x(2) \<open>x = Id k\<close> by simp
qed simp

subsection \<open>Properties\<close>

text \<open>C31: the tracker implements the abstract ID allocator.  On every well-formed tracker
  none of the operations panics, each keeps the invariant and the pool, and \<open>allocate\<close> hands
  out the least free ID (\<open>OutOfIds\<close> exactly when the pool is exhausted), \<open>allocate_at\<close> and
  \<open>free\<close> act on the set of taken IDs and report \<open>InvalidId\<close>, \<open>IdAlreadyTaken\<close> and
  \<open>IdAlreadyFree\<close> exactly as specified.\<close>

theorem id_tracker_refines_spec:
  assumes "tracker_wf t"
  shows "(\<exists>r t'. id_tracker_allocate t = Some (r, t') \<and> tracker_wf t' \<and> tracker_pool t' = tracker_pool t
       \<and> spec_allocate (tracker_pool t) (tracker_taken t) r (tracker_taken t'))
    \<and> (\<exists>r t'. id_tracker_allocate_at t x = Some (r, t') \<and> tracker_wf t' \<and> tracker_pool t' = tracker_pool t
       \<and> (r, tracker_taken t') = spec_allocate_at (tracker_pool t) (tracker_taken t) x)
    \<and> (\<exists>r t'. id_tracker_free t x = Some (r, t') \<and> tracker_wf t' \<and> tracker_pool t' = tracker_pool t
       \<and> (r, tracker_taken t') = spec_free (tracker_pool t) (tracker_taken t) x)"
  using id_tracker_allocate_spec [OF assms] id_tracker_allocate_at_spec [OF assms]
    id_tracker_free_spec [OF assms] by blast

theorem id_tracker_refines_spec_witness:
  "\<exists>t t'. id_tracker_new (Id 10) (Id 15) = Some t \<and> tracker_wf t
     \<and> id_tracker_allocate_at t (Id 12) = Some (Ok (), t') \<and> tracker_taken t' = {Id 12}"
proof -
  obtain t where t: "id_tracker_new (Id 10) (Id 15) = Some t" "tracker_wf t"
    "tracker_pool t = {Id 10..Id 15}" "tracker_taken t = {}"
    using id_tracker_new_spec [of "Id 10" "Id 15"] by (auto simp: USIZE_LIM_def)
  have "Id 12 \<in> tracker_pool t" by (simp add: t Id_order)
  with t id_tracker_refines_spec [OF t(2), THEN conjunct2, THEN conjunct1, of "Id 12"]
  show ?thesis by (auto simp: spec_allocate_at_def)
qed

text \<open>a fresh tracker for the pool \<open>min..=max\<close> hands out \<open>min, min + 1, ..., max\<close>, each
  exactly once and in this order, and the call after that reports \<open>OutOfIds\<close>.\<close>

theorem id_tracker_exhausts_pool:
  assumes "mn \<le> mx" and "mx + 1 < USIZE_LIM"
  shows "\<exists>t t'. id_tracker_new (Id mn) (Id mx) = Some t
    \<and> id_tracker_allocate_n (Suc mx - mn) t = Some (map (\<lambda>i. Ok (Id i)) [mn..<Suc mx], t')
    \<and> id_tracker_allocate t' = Some (Err OutOfIds, t')"
proof -
  obtain t where t: "id_tracker_new (Id mn) (Id mx) = Some t" "tracker_wf t"
    "tracker_pool t = {Id mn..Id mx}" "tracker_taken t = {}"
    using id_tracker_new_spec [of "Id mn" "Id mx"] assms by auto
  moreover have "{} = {Id mn..<Id mn}" by simp
  ultimately obtain t' where t': "tracker_wf t'" "tracker_pool t' = {Id mn..Id mx}"
    "id_tracker_allocate_n (Suc mx - mn) t = Some (map (\<lambda>i. Ok (Id i)) [mn..<mn + (Suc mx - mn)], t')"
    "tracker_taken t' = {Id mn..<Id (mn + (Suc mx - mn))}"
    using id_tracker_allocate_n_from [of t mn mx mn "Suc mx - mn"] assms by auto
  have full: "tracker_pool t' \<subseteq> tracker_taken t'"
    using t' assms by (auto simp: Id_order)
  then have "find_idx Not (bitmap_bits (trk_bitmap t')) = None" by (simp add: tracker_full_iff)
  then have "id_tracker_allocate t' = Some (Err OutOfIds, t')"
    using bitmap_store.scan_all [of "trk_bitmap t'"] t'(1)
    by (simp add: id_tracker_allocate_def tracker_wf_def)
  with t t' assms show ?thesis by simp
qed

theorem id_tracker_exhausts_pool_witness:
  "\<exists>t t'. id_tracker_new (Id 5) (Id 6) = Some t
    \<and> id_tracker_allocate_n 2 t = Some ([Ok (Id 5), Ok (Id 6)], t')
    \<and> id_tracker_allocate t' = Some (Err OutOfIds, t')"
proof -
  have upt: "[5..<Suc 6] = [5, 6 :: nat]" by (simp add: upt_rec)
  show ?thesis
    using id_tracker_exhausts_pool [of 5 6, unfolded upt] by (simp add: USIZE_LIM_def)
qed

text \<open>the bump allocator never hands out an ID twice: in any sequence of calls, an ID
  handed out later lies beyond the whole range of \<open>count\<close> IDs that every earlier successful
  call reserved, and all of them lie between the start and the maximum.\<close>

theorem id_hander_ranges_disjoint:
  assumes "id_hander_run h cs = Some (rs, h')" and "i < j" and "j < length rs"
    and "rs ! i = Some x" and "rs ! j = Some y"
  shows "id_val x + cs ! i \<le> id_val y \<and> hander_next h \<le> x \<and> y \<le> hander_max h"
proof -
  have "Some x \<in> set rs" "Some y \<in> set rs"
    using assms by (auto simp: in_set_conv_nth intro: exI [of _ i] exI [of _ j])
  then show ?thesis
    using id_hander_run_disjoint [OF assms] id_hander_run_range [OF assms(1)] by blast
qed

theorem id_hander_ranges_disjoint_witness:
  "\<exists>h'. id_hander_run (id_hander_new (Id 10)) [1, 3, 2] = Some ([Some (Id 0), Some (Id 1), Some (Id 4)], h')
    \<and> (1::nat) + 3 \<le> 4"
proof -
  obtain h' where h': "id_hander_run (id_hander_new (Id 10)) [1, 3, 2]
      = Some ([Some (Id 0), Some (Id 1), Some (Id 4)], h')"
    by (simp add: id_hander_new_def id_hander_new_starting_from_def id_hander_handout_and_skip_def
        uadd_def USIZE_LIM_def)
  then show ?thesis using id_hander_ranges_disjoint [OF h', of 1 2 "Id 1" "Id 4"] by simp
qed

text \<open>An uninitialised tracker is not an empty one: \<open>allocate\<close> reports \<open>OutOfIds\<close>, but the
  range check of \<open>allocate_at\<close> and \<open>free\<close> computes \<open>0 + 0 - 1\<close> and panics for every ID.\<close>

theorem id_tracker_uninit_panics:
  "id_tracker_allocate id_tracker_uninit = Some (Err OutOfIds, id_tracker_uninit)
   \<and> id_tracker_allocate_at id_tracker_uninit x = None
   \<and> id_tracker_free id_tracker_uninit x = None"
  by (simp add: id_tracker_allocate_def id_tracker_allocate_at_def id_tracker_free_def
      id_tracker_invalid_def id_tracker_uninit_def bitmap_uninit_def Id_order uadd_def usub_def
      USIZE_LIM_def)

end
