(* ===== verification/Node_List.thy ===== *)
theory Node_List
  imports Prelude
begin

text \<open>
  The contract shared by the two intrusive lists of \<open>utils/src/collections\<close>
  (\<open>linkedlist.rs\<close>, \<open>stacklist.rs\<close>).  Nodes live in a heap, a partial map from
  addresses to nodes; dereferencing an address outside its domain is undefined behaviour and
  fails like a panic.  The locale \<open>node_stack\<close> states what a user of the front of such a
  list relies on; its laws are over the sequence of node addresses the list holds.
\<close>

subsection \<open>Chains of addresses\<close>

definition first_or :: "nat list \<Rightarrow> nat option \<Rightarrow> nat option" where
  "first_or ps nx = (case ps of [] \<Rightarrow> nx | p # _ \<Rightarrow> Some p)"

definition last_or :: "nat option \<Rightarrow> nat list \<Rightarrow> nat option" where
  "last_or pv ps = (if ps = [] then pv else Some (last ps))"

lemma first_or_simps [simp]: "first_or [] nx = nx" "first_or (p # ps) nx = Some p"
  by (simp_all add: first_or_def)

lemma last_or_simps [simp]: "last_or pv [] = pv" "last_or pv (p # ps) = last_or (Some p) ps"
  by (simp_all add: last_or_def)

lemma last_or_append [simp]: "last_or pv (ps @ qs) = last_or (last_or pv ps) qs"
  by (simp add: last_or_def)

lemma first_or_append [simp]: "first_or (ps @ qs) nx = first_or ps (first_or qs nx)"
  by (cases ps) simp_all

lemma first_or_None [simp]: "first_or ps None = None \<longleftrightarrow> ps = []"
  by (cases ps) simp_all

lemma last_or_None [simp]: "last_or None ps = None \<longleftrightarrow> ps = []"
  by (simp add: last_or_def)

subsection \<open>Using the front of a list\<close>

text \<open>Pops until the list is empty, as the \<open>while let Some(..) = list.pop()\<close> loops do; \<open>n\<close>
  bounds the number of rounds.\<close>

fun drain :: "('h \<Rightarrow> 'l \<Rightarrow> (nat option \<times> 'h \<times> 'l) option) \<Rightarrow> nat \<Rightarrow> 'h \<Rightarrow> 'l \<Rightarrow> (nat list \<times> 'h \<times> 'l) option" where
  "drain pop 0 h l = None"
| "drain pop (Suc n) h l = do {
     (r, h1, l1) \<leftarrow> pop h l;
     (case r of
        None \<Rightarrow> Some ([], h1, l1)
      | Some p \<Rightarrow> do {
          (ps, h2, l2) \<leftarrow> drain pop n h1 l1;
          Some (p # ps, h2, l2) }) }"

fun push_each :: "('h \<Rightarrow> 'l \<Rightarrow> nat \<Rightarrow> ('h \<times> 'l) option) \<Rightarrow> 'h \<Rightarrow> 'l \<Rightarrow> nat list \<Rightarrow> ('h \<times> 'l) option" where
  "push_each push h l [] = Some (h, l)"
| "push_each push h l (p # ps) = do {
     (h1, l1) \<leftarrow> push h l p;
     push_each push h1 l1 ps }"

locale node_stack =
  fixes rep :: "'h \<Rightarrow> 'l \<Rightarrow> nat list \<Rightarrow> bool"
    and live :: "'h \<Rightarrow> nat set"
    and push :: "'h \<Rightarrow> 'l \<Rightarrow> nat \<Rightarrow> ('h \<times> 'l) option"
    and pop :: "'h \<Rightarrow> 'l \<Rightarrow> (nat option \<times> 'h \<times> 'l) option"
    and remove_at :: "'h \<Rightarrow> 'l \<Rightarrow> nat \<Rightarrow> (nat option \<times> 'h \<times> 'l) option"
  assumes rep_distinct: "rep h l ps \<Longrightarrow> distinct ps \<and> set ps \<subseteq> live h"
    and push_rep: "rep h l ps \<Longrightarrow> p \<in> live h \<Longrightarrow> p \<notin> set ps \<Longrightarrow> Suc (length ps) < USIZE_LIM \<Longrightarrow>
      \<exists>h' l'. push h l p = Some (h', l') \<and> rep h' l' (p # ps) \<and> live h' = live h"
    and pop_empty: "rep h l [] \<Longrightarrow> pop h l = Some (None, h, l)"
    and pop_rep: "rep h l (p # ps) \<Longrightarrow>
      \<exists>h' l'. pop h l = Some (Some p, h', l') \<and> rep h' l' ps \<and> live h' = live h"
    and remove_rep: "rep h l ps \<Longrightarrow> i < length ps \<Longrightarrow>
      \<exists>h' l'. remove_at h l i = Some (Some (ps ! i), h', l') \<and> rep h' l' (remove_nth i ps) \<and> live h' = live h"
    and remove_out: "rep h l ps \<Longrightarrow> length ps \<le> i \<Longrightarrow> remove_at h l i = Some (None, h, l)"
begin

lemma push_then_pop:
  assumes "rep h l ps" and "p \<in> live h" and "p \<notin> set ps" and "Suc (length ps) < USIZE_LIM"
  shows "\<exists>h1 l1 h2 l2. push h l p = Some (h1, l1) \<and> pop h1 l1 = Some (Some p, h2, l2) \<and> rep h2 l2 ps"
  using push_rep [OF assms] pop_rep by blast

lemma remove_then_push:
  assumes "rep h l ps" and "i < length ps" and "length ps < USIZE_LIM"
  shows "\<exists>h1 l1 h2 l2. remove_at h l i = Some (Some (ps ! i), h1, l1)
    \<and> push h1 l1 (ps ! i) = Some (h2, l2) \<and> rep h2 l2 (ps ! i # remove_nth i ps)"
proof -
  from remove_rep [OF assms(1,2)] obtain h1 l1 where
    1: "remove_at h l i = Some (Some (ps ! i), h1, l1)" "rep h1 l1 (remove_nth i ps)" "live h1 = live h"
    by blast
  have "ps ! i \<in> live h1" and "ps ! i \<notin> set (remove_nth i ps)"
    using rep_distinct [OF assms(1)] assms(2) 1(3) by (auto simp: set_remove_nth)
  moreover have "Suc (length (remove_nth i ps)) < USIZE_LIM" using assms by simp
  ultimately show ?thesis using push_rep [OF 1(2)] 1(1) by blast
qed

lemma drain_rep:
  assumes "rep h l ps" and "length ps < n"
  shows "\<exists>h' l'. drain pop n h l = Some (ps, h', l') \<and> rep h' l' [] \<and> live h' = live h"
  using assms
proof (induction ps arbitrary: h l n)
  case Nil
  then show ?case using pop_empty by (cases n) auto
next
  case (Cons p ps)
  then obtain m where n: "n = Suc m" and m: "length ps < m" by (cases n) auto
  obtain h1 l1 where 1: "pop h l = Some (Some p, h1, l1)" "rep h1 l1 ps" "live h1 = live h"
    using pop_rep [OF Cons.prems(1)] by blast
  obtain h2 l2 where "drain pop m h1 l1 = Some (ps, h2, l2)" "rep h2 l2 []" "live h2 = live h1"
    using Cons.IH [OF 1(2) m] by blast
  with 1 n show ?case by simp
qed

lemma push_each_rep:
  assumes "rep h l ps" and "distinct qs" and "set qs \<subseteq> live h" and "set qs \<inter> set ps = {}"
    and "length ps + length qs < USIZE_LIM"
  shows "\<exists>h' l'. push_each push h l qs = Some (h', l') \<and> rep h' l' (rev qs @ ps) \<and> live h' = live h"
  using assms
proof (induction qs arbitrary: h l ps)
  case (Cons q qs)
  have "q \<in> live h" "q \<notin> set ps" "Suc (length ps) < USIZE_LIM" using Cons.prems by auto
  from push_rep [OF Cons.prems(1) this] obtain h1 l1 where
    1: "push h l q = Some (h1, l1)" "rep h1 l1 (q # ps)" "live h1 = live h" by blast
  have "\<exists>h' l'. push_each push h1 l1 qs = Some (h', l') \<and> rep h' l' (rev qs @ q # ps) \<and> live h' = live h1"
    using Cons.prems 1 by (intro Cons.IH) auto
  with 1 show ?case by simp
qed simp

text \<open>Last in, first out.\<close>

lemma push_each_then_drain:
  assumes "rep h l []" and "distinct qs" and "set qs \<subseteq> live h" and "length qs < USIZE_LIM"
  shows "\<exists>h1 l1 h2 l2. push_each push h l qs = Some (h1, l1)
    \<and> drain pop (Suc (length qs)) h1 l1 = Some (rev qs, h2, l2) \<and> rep h2 l2 []"
proof -
  from push_each_rep [OF assms(1,2,3)] assms(4) obtain h1 l1 where
    1: "push_each push h l qs = Some (h1, l1)" "rep h1 l1 (rev qs)" by auto
  then show ?thesis using drain_rep [OF 1(2), of "Suc (length qs)"] by auto
qed

end

end
