(* ===== verification/LinkedList.thy ===== *)
theory LinkedList
  imports Node_List
begin

text \<open>
  The doubly linked list of \<open>utils/src/collections/linkedlist.rs\<close>, at the level of its
  pointers: the heap maps node addresses to nodes with \<open>next\<close> and \<open>prev\<close>, the list
  itself is its \<open>head\<close>, \<open>tail\<close> and \<open>len\<close>.  \<open>Box::new\<close> takes the address the allocator
  returns as an argument; \<open>Box::from_raw\<close> followed by a drop removes the node from the
  heap.  The predicate \<open>linked_list h l ps\<close> says that \<open>l\<close> is a well-formed list through the
  nodes \<open>ps\<close>.
\<close>

subsection \<open>Nodes, heaps and lists\<close>

record 'a DNode =
  dn_data :: 'a
  dn_next :: "nat option"
  dn_prev :: "nat option"

type_synonym 'a dheap = "nat \<rightharpoonup> 'a DNode"

record LinkedList =
  ll_head :: "nat option"
  ll_tail :: "nat option"
  ll_len :: usize

definition dnode_new :: "'a \<Rightarrow> 'a DNode" where
  "dnode_new data = \<lparr> dn_data = data, dn_next = None, dn_prev = None \<rparr>"

definition dn_set_next :: "'a dheap \<Rightarrow> nat \<Rightarrow> nat option \<Rightarrow> 'a dheap option" where
  "dn_set_next h p v = do { n \<leftarrow> h p; Some (h(p \<mapsto> n \<lparr> dn_next := v \<rparr>)) }"

definition dn_set_prev :: "'a dheap \<Rightarrow> nat \<Rightarrow> nat option \<Rightarrow> 'a dheap option" where
  "dn_set_prev h p v = do { n \<leftarrow> h p; Some (h(p \<mapsto> n \<lparr> dn_prev := v \<rparr>)) }"

definition ll_new :: LinkedList where
  "ll_new = \<lparr> ll_head = None, ll_tail = None, ll_len = 0 \<rparr>"

definition ll_is_empty :: "LinkedList \<Rightarrow> bool" where
  "ll_is_empty l \<longleftrightarrow> ll_len l = 0"

definition ll_front :: "'a dheap \<Rightarrow> LinkedList \<Rightarrow> 'a option option" where
  "ll_front h l = (case ll_head l of
     None \<Rightarrow> Some None
   | Some node \<Rightarrow> do { n \<leftarrow> h node; Some (Some (dn_data n)) })"

definition ll_back :: "'a dheap \<Rightarrow> LinkedList \<Rightarrow> 'a option option" where
  "ll_back h l = (case ll_tail l of
     None \<Rightarrow> Some None
   | Some node \<Rightarrow> do { n \<leftarrow> h node; Some (Some (dn_data n)) })"

text \<open>\<open>front_mut\<close> and \<open>back_mut\<close> lend the data of a node to the caller, whose use of it is the
  function \<open>f\<close>.\<close>

definition ll_front_mut :: "'a dheap \<Rightarrow> LinkedList \<Rightarrow> ('a \<Rightarrow> 'a) \<Rightarrow> 'a dheap option" where
  "ll_front_mut h l f = (case ll_head l of
     None \<Rightarrow> Some h
   | Some node \<Rightarrow> do { n \<leftarrow> h node; Some (h(node \<mapsto> n \<lparr> dn_data := f (dn_data n) \<rparr>)) })"

definition ll_back_mut :: "'a dheap \<Rightarrow> LinkedList \<Rightarrow> ('a \<Rightarrow> 'a) \<Rightarrow> 'a dheap option" where
  "ll_back_mut h l f = (case ll_tail l of
     None \<Rightarrow> Some h
   | Some node \<Rightarrow> do { n \<leftarrow> h node; Some (h(node \<mapsto> n \<lparr> dn_data := f (dn_data n) \<rparr>)) })"

subsection \<open>Pushing\<close>

definition ll_push_front :: "'a dheap \<Rightarrow> LinkedList \<Rightarrow> nat \<Rightarrow> 'a \<Rightarrow> ('a dheap \<times> LinkedList) option" where
  "ll_push_front h l new_node data = do {
     let h = h(new_node \<mapsto> (dnode_new data) \<lparr> dn_next := ll_head l, dn_prev := None \<rparr>);
     (h, l) \<leftarrow> (case ll_head l of
         Some old_head \<Rightarrow> do { h \<leftarrow> dn_set_prev h old_head (Some new_node); Some (h, l) }
       | None \<Rightarrow> Some (h, l \<lparr> ll_tail := Some new_node \<rparr>));
     let l = l \<lparr> ll_head := Some new_node \<rparr>;
     n \<leftarrow> uadd (ll_len l) 1;
     Some (h, l \<lparr> ll_len := n \<rparr>) }"

definition ll_push_back :: "'a dheap \<Rightarrow> LinkedList \<Rightarrow> nat \<Rightarrow> 'a \<Rightarrow> ('a dheap \<times> LinkedList) option" where
  "ll_push_back h l new_node data = do {
     let h = h(new_node \<mapsto> (dnode_new data) \<lparr> dn_next := None, dn_prev := ll_tail l \<rparr>);
     (h, l) \<leftarrow> (case ll_tail l of
         Some old_tail \<Rightarrow> do { h \<leftarrow> dn_set_next h old_tail (Some new_node); Some (h, l) }
       | None \<Rightarrow> Some (h, l \<lparr> ll_head := Some new_node \<rparr>));
     let l = l \<lparr> ll_tail := Some new_node \<rparr>;
     n \<leftarrow> uadd (ll_len l) 1;
     Some (h, l \<lparr> ll_len := n \<rparr>) }"

definition ll_push_node_front :: "'a dheap \<Rightarrow> LinkedList \<Rightarrow> nat \<Rightarrow> ('a dheap \<times> LinkedList) option" where
  "ll_push_node_front h l node = do {
     h \<leftarrow> dn_set_next h node (ll_head l);
     h \<leftarrow> dn_set_prev h node None;
     (h, l) \<leftarrow> (case ll_head l of
         Some old_head \<Rightarrow> do { h \<leftarrow> dn_set_prev h old_head (Some node); Some (h, l) }
       | None \<Rightarrow> Some (h, l \<lparr> ll_tail := Some node \<rparr>));
     let l = l \<lparr> ll_head := Some node \<rparr>;
     n \<leftarrow> uadd (ll_len l) 1;
     Some (h, l \<lparr> ll_len := n \<rparr>) }"

definition ll_push_node_back :: "'a dheap \<Rightarrow> LinkedList \<Rightarrow> nat \<Rightarrow> ('a dheap \<times> LinkedList) option" where
  "ll_push_node_back h l node = do {
     h \<leftarrow> dn_set_prev h node (ll_tail l);
     h \<leftarrow> dn_set_next h node None;
     (h, l) \<leftarrow> (case ll_tail l of
         Some old_tail \<Rightarrow> do { h \<leftarrow> dn_set_next h old_tail (Some node); Some (h, l) }
       | None \<Rightarrow> Some (h, l \<lparr> ll_head := Some node \<rparr>));
     let l = l \<lparr> ll_tail := Some node \<rparr>;
     n \<leftarrow> uadd (ll_len l) 1;
     Some (h, l \<lparr> ll_len := n \<rparr>) }"

subsection \<open>Popping\<close>

definition ll_pop_front :: "'a dheap \<Rightarrow> LinkedList \<Rightarrow> ('a option \<times> 'a dheap \<times> LinkedList) option" where
  "ll_pop_front h l = (case ll_head l of
     None \<Rightarrow> Some (None, h, l)
   | Some node \<Rightarrow> do {
       boxed \<leftarrow> h node;
       let l = l \<lparr> ll_head := dn_next boxed \<rparr>;
       (h, l) \<leftarrow> (case ll_head l of
           Some new_head \<Rightarrow> do { h \<leftarrow> dn_set_prev h new_head None; Some (h, l) }
         | None \<Rightarrow> Some (h, l \<lparr> ll_tail := None \<rparr>));
       n \<leftarrow> usub (ll_len l) 1;
       Some (Some (dn_data boxed), h(node := None), l \<lparr> ll_len := n \<rparr>) })"

definition ll_pop_back :: "'a dheap \<Rightarrow> LinkedList \<Rightarrow> ('a option \<times> 'a dheap \<times> LinkedList) option" where
  "ll_pop_back h l = (case ll_tail l of
     None \<Rightarrow> Some (None, h, l)
   | Some node \<Rightarrow> do {
       boxed \<leftarrow> h node;
       let l = l \<lparr> ll_tail := dn_prev boxed \<rparr>;
       (h, l) \<leftarrow> (case ll_tail l of
           Some new_tail \<Rightarrow> do { h \<leftarrow> dn_set_next h new_tail None; Some (h, l) }
         | None \<Rightarrow> Some (h, l \<lparr> ll_head := None \<rparr>));
       n \<leftarrow> usub (ll_len l) 1;
       Some (Some (dn_data boxed), h(node := None), l \<lparr> ll_len := n \<rparr>) })"

definition ll_pop_node_front :: "'a dheap \<Rightarrow> LinkedList \<Rightarrow> (nat option \<times> 'a dheap \<times> LinkedList) option" where
  "ll_pop_node_front h l = (case ll_head l of
     None \<Rightarrow> Some (None, h, l)
   | Some node \<Rightarrow> do {
       nd \<leftarrow> h node;
       let l = l \<lparr> ll_head := dn_next nd \<rparr>;
       (h, l) \<leftarrow> (case ll_head l of
           Some new_head \<Rightarrow> do { h \<leftarrow> dn_set_prev h new_head None; Some (h, l) }
         | None \<Rightarrow> Some (h, l \<lparr> ll_tail := None \<rparr>));
       n \<leftarrow> usub (ll_len l) 1;
       h \<leftarrow> dn_set_next h node None;
       h \<leftarrow> dn_set_prev h node None;
       Some (Some node, h, l \<lparr> ll_len := n \<rparr>) })"

definition ll_pop_node_back :: "'a dheap \<Rightarrow> LinkedList \<Rightarrow> (nat option \<times> 'a dheap \<times> LinkedList) option" where
  "ll_pop_node_back h l = (case ll_tail l of
     None \<Rightarrow> Some (None, h, l)
   | Some node \<Rightarrow> do {
       nd \<leftarrow> h node;
       let l = l \<lparr> ll_tail := dn_prev nd \<rparr>;
       (h, l) \<leftarrow> (case ll_tail l of
           Some new_tail \<Rightarrow> do { h \<leftarrow> dn_set_next h new_tail None; Some (h, l) }
         | None \<Rightarrow> Some (h, l \<lparr> ll_head := None \<rparr>));
       n \<leftarrow> usub (ll_len l) 1;
       h \<leftarrow> dn_set_next h node None;
       h \<leftarrow> dn_set_prev h node None;
       Some (Some node, h, l \<lparr> ll_len := n \<rparr>) })"

text \<open>The loop \<open>for _ in 0..index { curr = curr.next? }\<close>: the outer option is a failed
  dereference, the inner one the early return of \<open>?\<close>.\<close>

fun ll_walk :: "'a dheap \<Rightarrow> nat \<Rightarrow> nat \<Rightarrow> nat option option" where
  "ll_walk h cur 0 = Some (Some cur)"
| "ll_walk h cur (Suc i) = do {
     n \<leftarrow> h cur;
     (case dn_next n of None \<Rightarrow> Some None | Some q \<Rightarrow> ll_walk h q i) }"

definition ll_unlink :: "'a dheap \<Rightarrow> LinkedList \<Rightarrow> nat \<Rightarrow> ('a dheap \<times> LinkedList) option" where
  "ll_unlink h l cur = do {
     c \<leftarrow> h cur;
     (h, l) \<leftarrow> (case dn_prev c of
         Some prev \<Rightarrow> do { h \<leftarrow> dn_set_next h prev (dn_next c); Some (h, l) }
       | None \<Rightarrow> Some (h, l \<lparr> ll_head := dn_next c \<rparr>));
     c \<leftarrow> h cur;
     (h, l) \<leftarrow> (case dn_next c of
         Some nxt \<Rightarrow> do { h \<leftarrow> dn_set_prev h nxt (dn_prev c); Some (h, l) }
       | None \<Rightarrow> Some (h, l \<lparr> ll_tail := dn_prev c \<rparr>));
     n \<leftarrow> usub (ll_len l) 1;
     h \<leftarrow> dn_set_next h cur None;
     h \<leftarrow> dn_set_prev h cur None;
     Some (h, l \<lparr> ll_len := n \<rparr>) }"

definition ll_remove_at_node :: "'a dheap \<Rightarrow> LinkedList \<Rightarrow> nat \<Rightarrow> (nat option \<times> 'a dheap \<times> LinkedList) option" where
  "ll_remove_at_node h l index =
     (if ll_len l \<le> index then Some (None, h, l)
      else case ll_head l of
        None \<Rightarrow> Some (None, h, l)
      | Some hd_ptr \<Rightarrow> do {
          r \<leftarrow> ll_walk h hd_ptr index;
          (case r of
             None \<Rightarrow> Some (None, h, l)
           | Some cur \<Rightarrow> do {
               (h, l) \<leftarrow> ll_unlink h l cur;
               Some (Some cur, h, l) }) })"

text \<open>\<open>clear\<close> (and \<open>drop\<close>, which calls it): \<open>while self.pop_front().is_some() {}\<close>.  Every
  round decreases \<open>len\<close>, whose underflow would panic.\<close>

function ll_clear :: "'a dheap \<Rightarrow> LinkedList \<Rightarrow> ('a dheap \<times> LinkedList) option" where
  "ll_clear h l =
     (case ll_pop_front h l of
        None \<Rightarrow> None
      | Some (None, h', l') \<Rightarrow> Some (h', l')
      | Some (Some _, h', l') \<Rightarrow> ll_clear h' l')"
  by pat_completeness auto

termination ll_clear
  by (relation "measure (\<lambda>(h, l). ll_len l)")
     (auto simp: ll_pop_front_def Let_def split: option.splits bind_splits prod.splits)

declare ll_clear.simps [simp del]

subsection \<open>Iterators\<close>

text \<open>\<open>Iter\<close>, \<open>IterMut\<close>, \<open>IterNode\<close> and \<open>IterMutNode\<close> share their state and their way of
  advancing; they differ in whether they yield the node or its data, by reference.  \<open>next\<close>
  yields the address of the node.\<close>

record LLIter =
  li_next :: "nat option"
  li_remaining :: usize

definition ll_iter :: "LinkedList \<Rightarrow> LLIter" where
  "ll_iter l = \<lparr> li_next = ll_head l, li_remaining = ll_len l \<rparr>"

definition ll_iter_next :: "'a dheap \<Rightarrow> LLIter \<Rightarrow> (nat option \<times> LLIter) option" where
  "ll_iter_next h it =
     (if li_remaining it = 0 then Some (None, it)
      else case li_next it of
        None \<Rightarrow> Some (None, it)
      | Some node \<Rightarrow> do {
          n \<leftarrow> h node;
          r \<leftarrow> usub (li_remaining it) 1;
          Some (Some node, it \<lparr> li_next := dn_next n, li_remaining := r \<rparr>) })"

definition ll_size_hint :: "LLIter \<Rightarrow> usize \<times> usize option" where
  "ll_size_hint it = (li_remaining it, Some (li_remaining it))"

function ll_iter_collect :: "'a dheap \<Rightarrow> LLIter \<Rightarrow> nat list option" where
  "ll_iter_collect h it =
     (case ll_iter_next h it of
        None \<Rightarrow> None
      | Some (None, it') \<Rightarrow> Some []
      | Some (Some p, it') \<Rightarrow> map_option (Cons p) (ll_iter_collect h it'))"
  by pat_completeness auto

termination ll_iter_collect
  by (relation "measure (\<lambda>(h, it). li_remaining it)")
     (auto simp: ll_iter_next_def split: option.splits if_splits bind_splits)

declare ll_iter_collect.simps [simp del]

subsection \<open>Well-formed lists\<close>

primrec chain :: "'a dheap \<Rightarrow> nat option \<Rightarrow> nat list \<Rightarrow> nat option \<Rightarrow> bool" where
  "chain h pv [] nx \<longleftrightarrow> True"
| "chain h pv (p # ps) nx \<longleftrightarrow>
     (case h p of
        None \<Rightarrow> False
      | Some n \<Rightarrow> dn_prev n = pv \<and> dn_next n = first_or ps nx \<and> chain h (Some p) ps nx)"

definition linked_list :: "'a dheap \<Rightarrow> LinkedList \<Rightarrow> nat list \<Rightarrow> bool" where
  "linked_list h l ps \<longleftrightarrow> distinct ps \<and> chain h None ps None \<and> ll_head l = first_or ps None
     \<and> ll_tail l = last_or None ps \<and> ll_len l = length ps \<and> length ps < USIZE_LIM"

definition heap_data :: "'a dheap \<Rightarrow> nat \<rightharpoonup> 'a" where
  "heap_data h p = map_option dn_data (h p)"

definition ll_contents :: "'a dheap \<Rightarrow> nat list \<Rightarrow> 'a list" where
  "ll_contents h ps = map (\<lambda>p. dn_data (the (h p))) ps"

lemma chain_append:
  "chain h pv (ps @ qs) nx \<longleftrightarrow> chain h pv ps (first_or qs nx) \<and> chain h (last_or pv ps) qs nx"
  by (induction ps arbitrary: pv) (auto split: option.splits)

lemma chain_frame [simp]: "p \<notin> set ps \<Longrightarrow> chain (h(p := x)) pv ps nx = chain h pv ps nx"
  by (induction ps arbitrary: pv) (auto split: option.splits)

lemma chain_cong: "(\<And>p. p \<in> set ps \<Longrightarrow> h' p = h p) \<Longrightarrow> chain h' pv ps nx = chain h pv ps nx"
  by (induction ps arbitrary: pv) (auto split: option.splits)

lemma chain_live: "chain h pv ps nx \<Longrightarrow> set ps \<subseteq> dom h"
  by (induction ps arbitrary: pv) (auto split: option.splits)

text \<open>Relinking the first node to a new predecessor and the last node to a new successor.\<close>

lemma chain_relink_first:
  assumes "distinct (p # ps)" and "chain h pv (p # ps) nx" and "h p = Some n"
  shows "chain (h(p \<mapsto> n \<lparr> dn_prev := pv' \<rparr>)) pv' (p # ps) nx"
  using assms by simp

lemma chain_relink_last:
  assumes "distinct (ps @ [p])" and "chain h pv (ps @ [p]) nx" and "h p = Some n"
  shows "chain (h(p \<mapsto> n \<lparr> dn_next := nx' \<rparr>)) pv (ps @ [p]) nx'"
  using assms by (simp add: chain_append)

lemma heap_data_update [simp]:
  "heap_data (h(p \<mapsto> n)) = (heap_data h)(p \<mapsto> dn_data n)"
  "heap_data (h(p := None)) = (heap_data h)(p := None)"
  by (auto simp: heap_data_def fun_eq_iff)

lemma heap_data_Some [simp]: "h p = Some n \<Longrightarrow> heap_data h p = Some (dn_data n)"
  by (simp add: heap_data_def)

declare map_upd_triv [simp]

lemma heap_data_dom: "heap_data h' = heap_data h \<Longrightarrow> dom h' = dom h"
  by (auto simp: heap_data_def fun_eq_iff dom_def) (metis option.map_disc_iff not_None_eq)+

lemma heap_data_contents:
  assumes "heap_data h' = heap_data h" and "set ps \<subseteq> dom h"
  shows "ll_contents h' ps = ll_contents h ps"
  unfolding ll_contents_def
proof (rule map_cong [OF refl])
  fix p
  assume "p \<in> set ps"
  with assms(2) obtain n where "h p = Some n" by blast
  with assms(1) show "dn_data (the (h' p)) = dn_data (the (h p))"
    by (simp add: heap_data_def fun_eq_iff) (metis option.map_sel option.map_disc_iff option.sel option.simps(3))
qed

text \<open>Writing a link field: the heap changes at one node only and keeps all data.\<close>

lemma dn_set_prev_Some [simp]:
  "h p = Some n \<Longrightarrow> dn_set_prev h p v = Some (h(p \<mapsto> n \<lparr> dn_prev := v \<rparr>))"
  by (simp add: dn_set_prev_def)

lemma dn_set_next_Some [simp]:
  "h p = Some n \<Longrightarrow> dn_set_next h p v = Some (h(p \<mapsto> n \<lparr> dn_next := v \<rparr>))"
  by (simp add: dn_set_next_def)

lemma linked_listD:
  assumes "linked_list h l ps"
  shows "distinct ps" "chain h None ps None" "set ps \<subseteq> dom h" "length ps < USIZE_LIM"
    "ll_head l = first_or ps None" "ll_tail l = last_or None ps" "ll_len l = length ps"
  using assms chain_live [of h None ps None] by (auto simp: linked_list_def)

lemma linked_list_new: "linked_list h ll_new []"
  by (simp add: linked_list_def ll_new_def USIZE_LIM_def)

subsection \<open>The operations on the front\<close>

lemma ll_push_node_front_spec:
  assumes ll: "linked_list h l ps" and p: "p \<in> dom h" "p \<notin> set ps"
    and len: "Suc (length ps) < USIZE_LIM"
  shows "\<exists>h' l'. ll_push_node_front h l p = Some (h', l') \<and> linked_list h' l' (p # ps)
    \<and> heap_data h' = heap_data h \<and> (\<forall>q. q \<notin> insert p (set ps) \<longrightarrow> h' q = h q)"
proof -
  note D = linked_listD [OF ll]
  from p obtain n where n: "h p = Some n" by blast
  show ?thesis
  proof (cases ps)
    case Nil
    with n D p len show ?thesis
      by (simp add: ll_push_node_front_def linked_list_def Let_def uadd_def)
  next
    case (Cons q qs)
    then have "q \<in> dom h" "q \<noteq> p" using D p by auto
    then obtain m where m: "h q = Some m" by blast
    with n D p len Cons \<open>q \<noteq> p\<close> show ?thesis
      by (simp add: ll_push_node_front_def linked_list_def Let_def uadd_def)
  qed
qed

lemma ll_pop_node_front_spec:
  assumes ll: "linked_list h l (p # ps)"
  shows "\<exists>h' l'. ll_pop_node_front h l = Some (Some p, h', l') \<and> linked_list h' l' ps
    \<and> heap_data h' = heap_data h \<and> (\<forall>q. q \<notin> set (p # ps) \<longrightarrow> h' q = h q)"
proof -
  note D = linked_listD [OF ll]
  from D obtain n where n: "h p = Some n" "dn_next n = first_or ps None" by (auto split: option.splits)
  show ?thesis
  proof (cases ps)
    case Nil
    with n D show ?thesis
      by (simp add: ll_pop_node_front_def linked_list_def Let_def usub_def)
  next
    case (Cons q qs)
    then have "q \<in> dom h" "q \<noteq> p" using D by auto
    then obtain m where m: "h q = Some m" by blast
    with n D Cons \<open>q \<noteq> p\<close> show ?thesis
      by (simp add: ll_pop_node_front_def linked_list_def Let_def usub_def)
  qed
qed

lemma ll_pop_node_front_empty: "linked_list h l [] \<Longrightarrow> ll_pop_node_front h l = Some (None, h, l)"
  by (simp add: linked_list_def ll_pop_node_front_def)

subsection \<open>The operations on the back\<close>

lemma ll_push_node_back_spec:
  assumes ll: "linked_list h l ps" and p: "p \<in> dom h" "p \<notin> set ps"
    and len: "Suc (length ps) < USIZE_LIM"
  shows "\<exists>h' l'. ll_push_node_back h l p = Some (h', l') \<and> linked_list h' l' (ps @ [p])
    \<and> heap_data h' = heap_data h \<and> (\<forall>q. q \<notin> insert p (set ps) \<longrightarrow> h' q = h q)"
proof -
  note D = linked_listD [OF ll]
  from p obtain n where n: "h p = Some n" by blast
  show ?thesis
  proof (cases ps rule: rev_cases)
    case Nil
    with n D p len show ?thesis
      by (simp add: ll_push_node_back_def linked_list_def Let_def uadd_def)
  next
    case (snoc qs q)
    then have "q \<in> dom h" "q \<noteq> p" using D p by auto
    then obtain m where m: "h q = Some m" by blast
    with n D p len snoc \<open>q \<noteq> p\<close> show ?thesis
      by (simp add: ll_push_node_back_def linked_list_def Let_def uadd_def chain_append)
  qed
qed

lemma ll_pop_node_back_spec:
  assumes ll: "linked_list h l (ps @ [p])"
  shows "\<exists>h' l'. ll_pop_node_back h l = Some (Some p, h', l') \<and> linked_list h' l' ps
    \<and> heap_data h' = heap_data h \<and> (\<forall>q. q \<notin> set (ps @ [p]) \<longrightarrow> h' q = h q)"
proof -
  note D = linked_listD [OF ll]
  from D obtain n where n: "h p = Some n" "dn_prev n = last_or None ps"
    by (auto simp: chain_append split: option.splits)
  show ?thesis
  proof (cases ps rule: rev_cases)
    case Nil
    with n D show ?thesis
      by (simp add: ll_pop_node_back_def linked_list_def Let_def usub_def)
  next
    case (snoc qs q)
    then have "q \<in> dom h" "q \<noteq> p" using D by auto
    then obtain m where m: "h q = Some m" by blast
    with n D snoc \<open>q \<noteq> p\<close> show ?thesis
      by (simp add: ll_pop_node_back_def linked_list_def Let_def usub_def chain_append)
  qed
qed

subsection \<open>Removal in the middle\<close>

lemma ll_walk_chain:
  assumes "chain h pv ps None" and "i < length ps"
  shows "ll_walk h (hd ps) i = Some (Some (ps ! i))"
  using assms
proof (induction i arbitrary: ps pv)
  case 0
  then show ?case by (cases ps) simp_all
next
  case (Suc i)
  then obtain p q qs where ps: "ps = p # q # qs"
    by (metis Suc_less_eq length_Cons less_nat_zero_code list.exhaust list.size(3))
  with Suc.prems obtain n where "h p = Some n" "dn_next n = Some q" "chain h (Some p) (q # qs) None"
    by (auto split: option.splits)
  with Suc.IH [of "Some p" "q # qs"] Suc.prems ps show ?case by simp
qed

lemma ll_unlink_spec:
  assumes ll: "linked_list h l (as @ p # bs)"
  shows "\<exists>h' l'. ll_unlink h l p = Some (h', l') \<and> linked_list h' l' (as @ bs)
    \<and> heap_data h' = heap_data h \<and> (\<forall>q. q \<notin> set (as @ p # bs) \<longrightarrow> h' q = h q)"
proof -
  note D = linked_listD [OF ll]
  from D obtain n where n: "h p = Some n" "dn_prev n = last_or None as" "dn_next n = first_or bs None"
    by (auto simp: chain_append split: option.splits)
  show ?thesis
  proof (cases as rule: rev_cases)
    case as: Nil
    show ?thesis
    proof (cases bs)
      case Nil
      with as n D show ?thesis
        by (simp add: ll_unlink_def linked_list_def Let_def usub_def)
    next
      case (Cons b bs')
      then obtain m where "h b = Some m" using D by auto
      with as Cons n D show ?thesis
        by (simp add: ll_unlink_def linked_list_def Let_def usub_def)
    qed
  next
    case (snoc as' a)
    then obtain k where k: "h a = Some k" "a \<noteq> p" using D by auto
    show ?thesis
    proof (cases bs)
      case Nil
      with snoc k n D show ?thesis
        by (simp add: ll_unlink_def linked_list_def Let_def usub_def chain_append)
    next
      case (Cons b bs')
      then obtain m where m: "h b = Some m" "b \<noteq> a" "b \<noteq> p" using D snoc by auto
      with snoc Cons k n D show ?thesis
        by (simp add: ll_unlink_def linked_list_def Let_def usub_def chain_append)
    qed
  qed
qed

lemma ll_remove_at_node_spec:
  assumes ll: "linked_list h l ps" and i: "i < length ps"
  shows "\<exists>h' l'. ll_remove_at_node h l i = Some (Some (ps ! i), h', l') \<and> linked_list h' l' (remove_nth i ps)
    \<and> heap_data h' = heap_data h \<and> (\<forall>q. q \<notin> set ps \<longrightarrow> h' q = h q)"
proof -
  note D = linked_listD [OF ll]
  obtain as bs where split: "ps = as @ ps ! i # bs" "remove_nth i ps = as @ bs"
    using remove_nth_split [OF i] by blast
  from ll split(1) have ll': "linked_list h l (as @ ps ! i # bs)" by metis
  obtain h' l' where u: "ll_unlink h l (ps ! i) = Some (h', l')" "linked_list h' l' (as @ bs)"
    "heap_data h' = heap_data h" "\<forall>q. q \<notin> set (as @ ps ! i # bs) \<longrightarrow> h' q = h q"
    using ll_unlink_spec [OF ll'] by blast
  have "ll_head l = Some (hd ps)" using D i by (cases ps) auto
  then have "ll_remove_at_node h l i = Some (Some (ps ! i), h', l')"
    using D i u(1) ll_walk_chain [OF D(2) i] by (simp add: ll_remove_at_node_def)
  moreover have "\<forall>q. q \<notin> set ps \<longrightarrow> h' q = h q" using u(4) split(1) by metis
  ultimately show ?thesis using u split(2) by metis
qed

subsection \<open>Operations that own their nodes\<close>

lemma linked_list_frame: "linked_list h l ps \<Longrightarrow> p \<notin> set ps \<Longrightarrow> linked_list (h(p := x)) l ps"
  by (simp add: linked_list_def)

lemma ll_contents_frame: "p \<notin> set ps \<Longrightarrow> ll_contents (h(p := x)) ps = ll_contents h ps"
  by (auto simp: ll_contents_def)

lemma ll_push_front_node: "ll_push_front h l p d = ll_push_node_front (h(p \<mapsto> dnode_new d)) l p"
  by (cases "ll_head l") (simp_all add: ll_push_front_def ll_push_node_front_def dn_set_next_def dn_set_prev_def Let_def)

lemma ll_push_back_node: "ll_push_back h l p d = ll_push_node_back (h(p \<mapsto> dnode_new d)) l p"
  by (cases "ll_tail l") (simp_all add: ll_push_back_def ll_push_node_back_def dnode_new_def dn_set_next_def dn_set_prev_def Let_def)

lemma ll_push_front_spec:
  assumes ll: "linked_list h l ps" and p: "p \<notin> dom h" and len: "Suc (length ps) < USIZE_LIM"
  shows "\<exists>h' l'. ll_push_front h l p d = Some (h', l') \<and> linked_list h' l' (p # ps)
    \<and> ll_contents h' (p # ps) = d # ll_contents h ps \<and> (\<forall>q. q \<notin> insert p (set ps) \<longrightarrow> h' q = h q)"
proof -
  let ?h = "h(p \<mapsto> dnode_new d)"
  have notin: "p \<notin> set ps" using p linked_listD(3) [OF ll] by blast
  then have "linked_list ?h l ps" using ll by (simp add: linked_list_frame)
  then obtain h' l' where r: "ll_push_node_front ?h l p = Some (h', l')" "linked_list h' l' (p # ps)"
    "heap_data h' = heap_data ?h" "\<forall>q. q \<notin> insert p (set ps) \<longrightarrow> h' q = ?h q"
    using ll_push_node_front_spec [of ?h l ps p] notin len by auto
  have "ll_contents h' (p # ps) = ll_contents ?h (p # ps)"
    using linked_listD(3) [OF ll] by (intro heap_data_contents r(3)) auto
  also have "\<dots> = d # ll_contents h ps"
    using notin by (simp add: ll_contents_def dnode_new_def)
  finally show ?thesis using r by (auto simp: ll_push_front_node)
qed

lemma ll_push_back_spec:
  assumes ll: "linked_list h l ps" and p: "p \<notin> dom h" and len: "Suc (length ps) < USIZE_LIM"
  shows "\<exists>h' l'. ll_push_back h l p d = Some (h', l') \<and> linked_list h' l' (ps @ [p])
    \<and> ll_contents h' (ps @ [p]) = ll_contents h ps @ [d] \<and> (\<forall>q. q \<notin> insert p (set ps) \<longrightarrow> h' q = h q)"
proof -
  let ?h = "h(p \<mapsto> dnode_new d)"
  have notin: "p \<notin> set ps" using p linked_listD(3) [OF ll] by blast
  then have "linked_list ?h l ps" using ll by (simp add: linked_list_frame)
  then obtain h' l' where r: "ll_push_node_back ?h l p = Some (h', l')" "linked_list h' l' (ps @ [p])"
    "heap_data h' = heap_data ?h" "\<forall>q. q \<notin> insert p (set ps) \<longrightarrow> h' q = ?h q"
    using ll_push_node_back_spec [of ?h l ps p] notin len by auto
  have "ll_contents h' (ps @ [p]) = ll_contents ?h (ps @ [p])"
    using linked_listD(3) [OF ll] by (intro heap_data_contents r(3)) auto
  also have "\<dots> = ll_contents h ps @ [d]"
    using notin by (simp add: ll_contents_def dnode_new_def)
  finally show ?thesis using r by (auto simp: ll_push_back_node)
qed

text \<open>\<open>pop_front\<close> and \<open>pop_back\<close> are the node variants followed by freeing the node.\<close>

lemma ll_pop_front_node:
  "ll_pop_front h l = do {
     (r, h', l') \<leftarrow> ll_pop_node_front h l;
     (case r of None \<Rightarrow> Some (None, h', l')
      | Some p \<Rightarrow> Some (map_option dn_data (h p), h'(p := None), l')) }"
  by (auto simp: ll_pop_front_def ll_pop_node_front_def dn_set_prev_def dn_set_next_def Let_def
      split: option.splits bind_splits)

lemma ll_pop_back_node:
  "ll_pop_back h l = do {
     (r, h', l') \<leftarrow> ll_pop_node_back h l;
     (case r of None \<Rightarrow> Some (None, h', l')
      | Some p \<Rightarrow> Some (map_option dn_data (h p), h'(p := None), l')) }"
  by (auto simp: ll_pop_back_def ll_pop_node_back_def dn_set_prev_def dn_set_next_def Let_def
      split: option.splits bind_splits)

lemma ll_pop_front_spec:
  assumes ll: "linked_list h l (p # ps)"
  shows "\<exists>h' l'. ll_pop_front h l = Some (Some (hd (ll_contents h (p # ps))), h', l') \<and> linked_list h' l' ps
    \<and> ll_contents h' ps = tl (ll_contents h (p # ps)) \<and> dom h' = dom h - {p}
    \<and> (\<forall>q. q \<notin> set (p # ps) \<longrightarrow> h' q = h q)"
proof -
  note D = linked_listD [OF ll]
  obtain h1 l1 where r: "ll_pop_node_front h l = Some (Some p, h1, l1)" "linked_list h1 l1 ps"
    "heap_data h1 = heap_data h" "\<forall>q. q \<notin> set (p # ps) \<longrightarrow> h1 q = h q"
    using ll_pop_node_front_spec [OF ll] by blast
  have "ll_contents (h1(p := None)) ps = ll_contents h ps"
    using D heap_data_contents [OF r(3), of ps] by (simp add: ll_contents_frame)
  then show ?thesis
    using r D heap_data_dom [OF r(3)] linked_list_frame [OF r(2), of p None]
    by (auto simp: ll_pop_front_node ll_contents_def)
qed

lemma ll_pop_back_spec:
  assumes ll: "linked_list h l (ps @ [p])"
  shows "\<exists>h' l'. ll_pop_back h l = Some (Some (last (ll_contents h (ps @ [p]))), h', l') \<and> linked_list h' l' ps
    \<and> ll_contents h' ps = butlast (ll_contents h (ps @ [p])) \<and> dom h' = dom h - {p}
    \<and> (\<forall>q. q \<notin> set (ps @ [p]) \<longrightarrow> h' q = h q)"
proof -
  note D = linked_listD [OF ll]
  obtain h1 l1 where r: "ll_pop_node_back h l = Some (Some p, h1, l1)" "linked_list h1 l1 ps"
    "heap_data h1 = heap_data h" "\<forall>q. q \<notin> set (ps @ [p]) \<longrightarrow> h1 q = h q"
    using ll_pop_node_back_spec [OF ll] by blast
  have "ll_contents (h1(p := None)) ps = ll_contents h ps"
    using D heap_data_contents [OF r(3), of ps] by (simp add: ll_contents_frame)
  then show ?thesis
    using r D heap_data_dom [OF r(3)] linked_list_frame [OF r(2), of p None]
    by (auto simp: ll_pop_back_node ll_contents_def)
qed

lemma ll_pop_empty:
  "linked_list h l [] \<Longrightarrow> ll_pop_front h l = Some (None, h, l) \<and> ll_pop_back h l = Some (None, h, l)"
  by (simp add: linked_list_def ll_pop_front_def ll_pop_back_def)

lemma ll_clear_spec:
  assumes "linked_list h l ps"
  shows "\<exists>h' l'. ll_clear h l = Some (h', l') \<and> linked_list h' l' [] \<and> dom h' = dom h - set ps
    \<and> (\<forall>q. q \<notin> set ps \<longrightarrow> h' q = h q)"
  using assms
proof (induction ps arbitrary: h l)
  case Nil
  then show ?case by (subst ll_clear.simps) (simp add: ll_pop_empty)
next
  case (Cons p ps)
  from ll_pop_front_spec [OF Cons.prems] obtain h1 l1 where
    1: "ll_pop_front h l = Some (Some (hd (ll_contents h (p # ps))), h1, l1)" "linked_list h1 l1 ps" "dom h1 = dom h - {p}"
      "\<forall>q. q \<notin> set (p # ps) \<longrightarrow> h1 q = h q" by blast
  from Cons.IH [OF 1(2)] obtain h2 l2 where
    2: "ll_clear h1 l1 = Some (h2, l2)" "linked_list h2 l2 []" "dom h2 = dom h1 - set ps"
      "\<forall>q. q \<notin> set ps \<longrightarrow> h2 q = h1 q" by blast
  have "\<forall>q. q \<notin> set (p # ps) \<longrightarrow> h2 q = h q" using 1(4) 2(4) by simp
  moreover have "dom h2 = dom h - set (p # ps)" using 1(3) 2(3) by auto
  ultimately show ?case using 1(1) 2(1,2) by (subst ll_clear.simps) simp
qed

lemma ll_iter_collect_chain:
  assumes "chain h pv ps None"
  shows "ll_iter_collect h \<lparr> li_next = first_or ps None, li_remaining = length ps \<rparr> = Some ps"
  using assms
proof (induction ps arbitrary: pv)
  case Nil
  then show ?case by (subst ll_iter_collect.simps) (simp add: ll_iter_next_def)
next
  case (Cons p ps)
  then obtain n where "h p = Some n" "dn_next n = first_or ps None" "chain h (Some p) ps None"
    by (auto split: option.splits)
  with Cons.IH show ?case
    by (subst ll_iter_collect.simps) (simp add: ll_iter_next_def usub_def)
qed

interpretation ll_front_stack: node_stack linked_list dom ll_push_node_front ll_pop_node_front ll_remove_at_node
proof unfold_locales
  fix h :: "'a dheap" and l ps
  assume ll: "linked_list h l ps"
  show "distinct ps \<and> set ps \<subseteq> dom h" using linked_listD [OF ll] by blast
  fix p
  assume "p \<in> dom h" "p \<notin> set ps" "Suc (length ps) < USIZE_LIM"
  from ll_push_node_front_spec [OF ll this]
  show "\<exists>h' l'. ll_push_node_front h l p = Some (h', l') \<and> linked_list h' l' (p # ps) \<and> dom h' = dom h"
    using heap_data_dom by blast
next
  fix h :: "'a dheap" and l p ps
  assume "linked_list h l (p # ps)"
  from ll_pop_node_front_spec [OF this]
  show "\<exists>h' l'. ll_pop_node_front h l = Some (Some p, h', l') \<and> linked_list h' l' ps \<and> dom h' = dom h"
    using heap_data_dom by blast
next
  fix h :: "'a dheap" and l ps i
  assume ll: "linked_list h l ps"
  show "\<exists>h' l'. ll_remove_at_node h l i = Some (Some (ps ! i), h', l') \<and> linked_list h' l' (remove_nth i ps)
    \<and> dom h' = dom h" if "i < length ps"
    using ll_remove_at_node_spec [OF ll that] heap_data_dom by blast
  show "ll_remove_at_node h l i = Some (None, h, l)" if "length ps \<le> i"
    using that linked_listD [OF ll] by (simp add: ll_remove_at_node_def)
qed (simp add: ll_pop_node_front_empty)

subsection \<open>Properties\<close>

text \<open>C28: the list is a double-ended queue.  Pushing a fresh node at either end succeeds and
  adds the element there; popping at either end returns the element there, frees its node and
  leaves a well-formed list of the rest; nodes of other lists are never touched.\<close>

theorem linked_list_deque:
  assumes "linked_list h l ps" and "p \<notin> dom h" and "Suc (length ps) < USIZE_LIM"
    and "linked_list h2 l2 (a # as)" and "a # as = bs @ [b]"
  shows "(\<exists>h' l'. ll_push_front h l p d = Some (h', l') \<and> linked_list h' l' (p # ps)
        \<and> ll_contents h' (p # ps) = d # ll_contents h ps \<and> (\<forall>q. q \<notin> insert p (set ps) \<longrightarrow> h' q = h q))
    \<and> (\<exists>h' l'. ll_push_back h l p d = Some (h', l') \<and> linked_list h' l' (ps @ [p])
        \<and> ll_contents h' (ps @ [p]) = ll_contents h ps @ [d] \<and> (\<forall>q. q \<notin> insert p (set ps) \<longrightarrow> h' q = h q))
    \<and> (\<exists>h' l'. ll_pop_front h2 l2 = Some (Some (hd (ll_contents h2 (a # as))), h', l') \<and> linked_list h' l' as
        \<and> ll_contents h' as = tl (ll_contents h2 (a # as)) \<and> dom h' = dom h2 - {a}
        \<and> (\<forall>q. q \<notin> set (a # as) \<longrightarrow> h' q = h2 q))
    \<and> (\<exists>h' l'. ll_pop_back h2 l2 = Some (Some (last (ll_contents h2 (a # as))), h', l') \<and> linked_list h' l' bs
        \<and> ll_contents h' bs = butlast (ll_contents h2 (a # as)) \<and> dom h' = dom h2 - {b}
        \<and> (\<forall>q. q \<notin> set (a # as) \<longrightarrow> h' q = h2 q))"
proof -
  note pb = ll_pop_back_spec [OF assms(4) [unfolded assms(5)], folded assms(5)]
  show ?thesis
    by (intro conjI ll_push_front_spec ll_push_back_spec ll_pop_front_spec pb assms(1-4))
qed

theorem linked_list_deque_witness:
  "\<exists>h' l'. ll_push_back Map.empty ll_new 8 (1::nat) = Some (h', l') \<and> linked_list h' l' [8]
    \<and> ll_contents h' [8] = [1]"
proof -
  let ?h = "[8 \<mapsto> \<lparr> dn_data = 1 :: nat, dn_next = None, dn_prev = None \<rparr>]"
  let ?l = "\<lparr> ll_head = Some 8, ll_tail = Some 8, ll_len = 1 \<rparr>"
  have l2: "linked_list ?h ?l [8]" by (simp add: linked_list_def USIZE_LIM_def)
  have "8 \<notin> dom (Map.empty :: nat dheap)" "Suc (length []) < USIZE_LIM" "[8 :: nat] = [] @ [8]"
    by (simp_all add: USIZE_LIM_def)
  from linked_list_deque [OF linked_list_new this(1,2) l2 this(3), of 1, THEN conjunct2, THEN conjunct1]
  show ?thesis by (auto simp: ll_contents_def)
qed

text \<open>\<open>remove_at_node\<close> removes exactly the node at the index, from the front, the middle or
  the back, relinks its neighbours, keeps all data and all nodes outside the list, and returns
  \<open>None\<close> without effect beyond the end.  The removed node can be pushed back.\<close>

theorem linked_list_remove_at:
  assumes "linked_list h l ps"
  shows "(i < length ps \<longrightarrow> (\<exists>h1 l1 h2 l2. ll_remove_at_node h l i = Some (Some (ps ! i), h1, l1)
        \<and> linked_list h1 l1 (remove_nth i ps) \<and> heap_data h1 = heap_data h
        \<and> (\<forall>q. q \<notin> set ps \<longrightarrow> h1 q = h q)
        \<and> ll_push_node_front h1 l1 (ps ! i) = Some (h2, l2) \<and> linked_list h2 l2 (ps ! i # remove_nth i ps)))
    \<and> (length ps \<le> i \<longrightarrow> ll_remove_at_node h l i = Some (None, h, l))"
proof (intro conjI impI)
  assume i: "i < length ps"
  from ll_front_stack.remove_then_push [OF assms i] linked_listD(4) [OF assms]
    ll_remove_at_node_spec [OF assms i]
  show "\<exists>h1 l1 h2 l2. ll_remove_at_node h l i = Some (Some (ps ! i), h1, l1)
        \<and> linked_list h1 l1 (remove_nth i ps) \<and> heap_data h1 = heap_data h
        \<and> (\<forall>q. q \<notin> set ps \<longrightarrow> h1 q = h q)
        \<and> ll_push_node_front h1 l1 (ps ! i) = Some (h2, l2) \<and> linked_list h2 l2 (ps ! i # remove_nth i ps)"
    by auto
next
  assume "length ps \<le> i"
  then show "ll_remove_at_node h l i = Some (None, h, l)"
    by (rule ll_front_stack.remove_out [OF assms])
qed

theorem linked_list_remove_at_witness:
  "\<exists>(h :: unit dheap) l h1 l1. linked_list h l [8, 16, 24] \<and> ll_remove_at_node h l 1 = Some (Some 16, h1, l1)
    \<and> linked_list h1 l1 [8, 24]"
proof -
  let ?h = "[8 \<mapsto> \<lparr> dn_data = (), dn_next = Some 16, dn_prev = None \<rparr>,
    16 \<mapsto> \<lparr> dn_data = (), dn_next = Some 24, dn_prev = Some 8 \<rparr>,
    24 \<mapsto> \<lparr> dn_data = (), dn_next = None, dn_prev = Some 16 \<rparr>]"
  let ?l = "\<lparr> ll_head = Some 8, ll_tail = Some 24, ll_len = 3 \<rparr>"
  have l: "linked_list ?h ?l [8, 16, 24]" by (simp add: linked_list_def USIZE_LIM_def)
  from linked_list_remove_at [OF l, of 1] have "\<exists>h1 l1. ll_remove_at_node ?h ?l 1 = Some (Some 16, h1, l1)
    \<and> linked_list h1 l1 [8, 24]" by (auto simp: remove_nth_def)
  with l show ?thesis by blast
qed

text \<open>C29: iterating visits every node exactly once, in order, and ends; \<open>clear\<close> (and so \<open>drop\<close>)
  ends, leaves an empty list and frees every node of the list and no other.\<close>

theorem linked_list_iter_clear:
  assumes "linked_list h l ps"
  shows "ll_iter_collect h (ll_iter l) = Some ps
    \<and> (\<exists>h' l'. ll_clear h l = Some (h', l') \<and> linked_list h' l' [] \<and> dom h' = dom h - set ps
         \<and> (\<forall>q. q \<notin> set ps \<longrightarrow> h' q = h q))"
  using ll_iter_collect_chain [OF linked_listD(2) [OF assms]] linked_listD(5,7) [OF assms]
    ll_clear_spec [OF assms] by (simp add: ll_iter_def)

theorem linked_list_iter_clear_witness:
  "\<exists>(h :: unit dheap) l h' l'. linked_list h l [8, 16] \<and> ll_iter_collect h (ll_iter l) = Some [8, 16]
    \<and> ll_clear h l = Some (h', l') \<and> dom h' = {}"
proof -
  let ?h = "[8 \<mapsto> \<lparr> dn_data = (), dn_next = Some 16, dn_prev = None \<rparr>,
    16 \<mapsto> \<lparr> dn_data = (), dn_next = None, dn_prev = Some 8 \<rparr>]"
  let ?l = "\<lparr> ll_head = Some 8, ll_tail = Some 16, ll_len = 2 \<rparr>"
  have l: "linked_list ?h ?l [8, 16]" by (simp add: linked_list_def USIZE_LIM_def)
  have "dom ?h - set [8, 16] = {}" by auto
  with linked_list_iter_clear [OF l] obtain h' l' where
    "ll_iter_collect ?h (ll_iter ?l) = Some [8, 16]" "ll_clear ?h ?l = Some (h', l')" "dom h' = {}" by metis
  with l show ?thesis by blast
qed

end
