(* ===== verification/StackList.thy ===== *)
theory StackList
  imports Node_List
begin

text \<open>
  The singly linked stack of \<open>utils/src/collections/stacklist.rs\<close>, at the level of its
  pointers.  \<open>pop\<close> reads the data out of the popped node and leaves the node allocated, as
  the code does; \<open>retain\<close> walks a pointer to a link (\<open>&mut Option<NonNull<Node<T>>>\<close>) and
  frees the nodes it cuts out.  \<open>Box::new\<close> takes the address the allocator returns as an
  argument.  The predicate \<open>stack_list h l ps\<close> says that \<open>l\<close> is a well-formed list through
  the nodes \<open>ps\<close>.
\<close>

subsection \<open>Nodes, heaps and lists\<close>

record 'a SNode =
  sn_data :: 'a
  sn_next :: "nat option"

type_synonym 'a sheap = "nat \<rightharpoonup> 'a SNode"

record StackList =
  sl_head :: "nat option"
  sl_len :: usize

definition snode_new :: "'a \<Rightarrow> 'a SNode" where
  "snode_new data = \<lparr> sn_data = data, sn_next = None \<rparr>"

definition sn_set_next :: "'a sheap \<Rightarrow> nat \<Rightarrow> nat option \<Rightarrow> 'a sheap option" where
  "sn_set_next h p v = do { n \<leftarrow> h p; Some (h(p \<mapsto> n \<lparr> sn_next := v \<rparr>)) }"

definition sl_new :: StackList where
  "sl_new = \<lparr> sl_head = None, sl_len = 0 \<rparr>"

definition sl_is_empty :: "StackList \<Rightarrow> bool" where
  "sl_is_empty l \<longleftrightarrow> sl_head l = None"

definition sl_push_node :: "'a sheap \<Rightarrow> StackList \<Rightarrow> nat \<Rightarrow> ('a sheap \<times> StackList) option" where
  "sl_push_node h l node = do {
     h \<leftarrow> sn_set_next h node (sl_head l);
     n \<leftarrow> uadd (sl_len l) 1;
     Some (h, l \<lparr> sl_head := Some node, sl_len := n \<rparr>) }"

definition sl_push :: "'a sheap \<Rightarrow> StackList \<Rightarrow> nat \<Rightarrow> 'a \<Rightarrow> ('a sheap \<times> StackList) option" where
  "sl_push h l new_node data = sl_push_node (h(new_node \<mapsto> snode_new data)) l new_node"

definition sl_pop_node :: "'a sheap \<Rightarrow> StackList \<Rightarrow> (nat option \<times> 'a sheap \<times> StackList) option" where
  "sl_pop_node h l = (case sl_head l of
     None \<Rightarrow> Some (None, h, l)
   | Some node \<Rightarrow> do {
       nd \<leftarrow> h node;
       h \<leftarrow> sn_set_next h node None;
       let l = l \<lparr> sl_head := sn_next nd \<rparr>;
       n \<leftarrow> usub (sl_len l) 1;
       Some (Some node, h, l \<lparr> sl_len := n \<rparr>) })"

definition sl_pop :: "'a sheap \<Rightarrow> StackList \<Rightarrow> ('a option \<times> 'a sheap \<times> StackList) option" where
  "sl_pop h l = do {
     (r, h, l) \<leftarrow> sl_pop_node h l;
     (case r of
        None \<Rightarrow> Some (None, h, l)
      | Some node \<Rightarrow> do { n \<leftarrow> h node; Some (Some (sn_data n), h, l) }) }"

definition sl_peek :: "'a sheap \<Rightarrow> StackList \<Rightarrow> 'a option option" where
  "sl_peek h l = (case sl_head l of
     None \<Rightarrow> Some None
   | Some hd_ptr \<Rightarrow> do { n \<leftarrow> h hd_ptr; Some (Some (sn_data n)) })"

text \<open>The loop \<open>for _ in 0..i { current = current.next? }\<close>.\<close>

fun sl_walk :: "'a sheap \<Rightarrow> nat \<Rightarrow> nat \<Rightarrow> nat option option" where
  "sl_walk h current 0 = Some (Some current)"
| "sl_walk h current (Suc i) = do {
     n \<leftarrow> h current;
     (case sn_next n of None \<Rightarrow> Some None | Some q \<Rightarrow> sl_walk h q i) }"

definition sl_remove_at :: "'a sheap \<Rightarrow> StackList \<Rightarrow> nat \<Rightarrow> (nat option \<times> 'a sheap \<times> StackList) option" where
  "sl_remove_at h l index =
     (if sl_len l \<le> index then Some (None, h, l)
      else if index = 0 then sl_pop_node h l
      else case sl_head l of
        None \<Rightarrow> Some (None, h, l)
      | Some hd_ptr \<Rightarrow> do {
          r \<leftarrow> sl_walk h hd_ptr (index - 1);
          (case r of
             None \<Rightarrow> Some (None, h, l)
           | Some current \<Rightarrow> do {
               c \<leftarrow> h current;
               (case sn_next c of
                  None \<Rightarrow> Some (None, h, l)
                | Some node_to_remove \<Rightarrow> do {
                    nr \<leftarrow> h node_to_remove;
                    h \<leftarrow> sn_set_next h current (sn_next nr);
                    n \<leftarrow> usub (sl_len l) 1;
                    Some (Some node_to_remove, h, l \<lparr> sl_len := n \<rparr>) }) }) })"

definition sl_get :: "'a sheap \<Rightarrow> StackList \<Rightarrow> nat \<Rightarrow> 'a option option" where
  "sl_get h l index =
     (if sl_len l \<le> index then Some None
      else case sl_head l of
        None \<Rightarrow> Some None
      | Some hd_ptr \<Rightarrow> do {
          r \<leftarrow> sl_walk h hd_ptr index;
          (case r of
             None \<Rightarrow> Some None
           | Some current \<Rightarrow> do { n \<leftarrow> h current; Some (Some (sn_data n)) }) })"

text \<open>\<open>get_mut\<close> and \<open>peek_mut\<close> lend the data to the caller, whose use of it is \<open>f\<close>.\<close>

definition sl_get_mut :: "'a sheap \<Rightarrow> StackList \<Rightarrow> nat \<Rightarrow> ('a \<Rightarrow> 'a) \<Rightarrow> 'a sheap option" where
  "sl_get_mut h l index f =
     (if sl_len l \<le> index then Some h
      else case sl_head l of
        None \<Rightarrow> Some h
      | Some hd_ptr \<Rightarrow> do {
          r \<leftarrow> sl_walk h hd_ptr index;
          (case r of
             None \<Rightarrow> Some h
           | Some current \<Rightarrow> do {
               n \<leftarrow> h current;
               Some (h(current \<mapsto> n \<lparr> sn_data := f (sn_data n) \<rparr>)) }) })"

definition sl_peek_mut :: "'a sheap \<Rightarrow> StackList \<Rightarrow> ('a \<Rightarrow> 'a) \<Rightarrow> 'a sheap option" where
  "sl_peek_mut h l f = (case sl_head l of
     None \<Rightarrow> Some h
   | Some hd_ptr \<Rightarrow> do { n \<leftarrow> h hd_ptr; Some (h(hd_ptr \<mapsto> n \<lparr> sn_data := f (sn_data n) \<rparr>)) })"

subsection \<open>Consuming the list\<close>

text \<open>\<open>while let Some(item) = self.pop() { .. }\<close>, collecting the items: the loop of \<open>clear\<close>,
  \<open>drop\<close>, \<open>into_vec\<close> and the owned iterator.\<close>

function sl_pop_all :: "'a sheap \<Rightarrow> StackList \<Rightarrow> ('a list \<times> 'a sheap \<times> StackList) option" where
  "sl_pop_all h l =
     (case sl_pop h l of
        None \<Rightarrow> None
      | Some (None, h', l') \<Rightarrow> Some ([], h', l')
      | Some (Some x, h', l') \<Rightarrow> map_option (\<lambda>(xs, r). (x # xs, r)) (sl_pop_all h' l'))"
  by pat_completeness auto

termination sl_pop_all
  by (relation "measure (\<lambda>(h, l). sl_len l)")
     (auto simp: sl_pop_def sl_pop_node_def sn_set_next_def Let_def
       split: option.splits bind_splits prod.splits)

declare sl_pop_all.simps [simp del]

definition sl_clear :: "'a sheap \<Rightarrow> StackList \<Rightarrow> ('a sheap \<times> StackList) option" where
  "sl_clear h l = map_option snd (sl_pop_all h l)"

definition sl_into_vec :: "'a sheap \<Rightarrow> StackList \<Rightarrow> ('a list \<times> 'a sheap) option" where
  "sl_into_vec h l = map_option (\<lambda>(vec, h', l'). (rev vec, h')) (sl_pop_all h l)"

subsection \<open>Iterators\<close>

record SLIter =
  si_current :: "nat option"
  si_remaining :: usize

definition sl_iter :: "StackList \<Rightarrow> SLIter" where
  "sl_iter l = \<lparr> si_current = sl_head l, si_remaining = sl_len l \<rparr>"

definition sl_iter_next :: "'a sheap \<Rightarrow> SLIter \<Rightarrow> (nat option \<times> SLIter) option" where
  "sl_iter_next h it =
     (if si_remaining it = 0 then Some (None, it)
      else case si_current it of
        None \<Rightarrow> Some (None, it)
      | Some current \<Rightarrow> do {
          n \<leftarrow> h current;
          r \<leftarrow> usub (si_remaining it) 1;
          Some (Some current, it \<lparr> si_current := sn_next n, si_remaining := r \<rparr>) })"

definition sl_size_hint :: "SLIter \<Rightarrow> usize \<times> usize option" where
  "sl_size_hint it = (si_remaining it, Some (si_remaining it))"

function sl_iter_data :: "'a sheap \<Rightarrow> SLIter \<Rightarrow> 'a list option" where
  "sl_iter_data h it =
     (case sl_iter_next h it of
        None \<Rightarrow> None
      | Some (None, it') \<Rightarrow> Some []
      | Some (Some p, it') \<Rightarrow> do {
          n \<leftarrow> h p;
          xs \<leftarrow> sl_iter_data h it';
          Some (sn_data n # xs) })"
  by pat_completeness auto

termination sl_iter_data
  by (relation "measure (\<lambda>(h, it). si_remaining it)")
     (auto simp: sl_iter_next_def split: option.splits if_splits bind_splits)

declare sl_iter_data.simps [simp del]

subsection \<open>Building lists\<close>

text \<open>\<open>extend\<close> and \<open>from_iter\<close> push the items in order; the addresses are the allocator's.\<close>

fun sl_extend :: "'a sheap \<Rightarrow> StackList \<Rightarrow> (nat \<times> 'a) list \<Rightarrow> ('a sheap \<times> StackList) option" where
  "sl_extend h l [] = Some (h, l)"
| "sl_extend h l ((p, item) # items) = do {
     (h, l) \<leftarrow> sl_push h l p item;
     sl_extend h l items }"

definition sl_from_iter :: "'a sheap \<Rightarrow> (nat \<times> 'a) list \<Rightarrow> ('a sheap \<times> StackList) option" where
  "sl_from_iter h items = sl_extend h sl_new items"

definition sl_clone :: "'a sheap \<Rightarrow> StackList \<Rightarrow> nat list \<Rightarrow> ('a sheap \<times> StackList) option" where
  "sl_clone h l addrs = do {
     items \<leftarrow> sl_iter_data h (sl_iter l);
     sl_extend h sl_new (zip addrs (rev items)) }"

definition sl_eq :: "'a sheap \<Rightarrow> StackList \<Rightarrow> StackList \<Rightarrow> bool option" where
  "sl_eq h l other =
     (if sl_len l \<noteq> sl_len other then Some False
      else do {
        xs \<leftarrow> sl_iter_data h (sl_iter l);
        ys \<leftarrow> sl_iter_data h (sl_iter other);
        Some (xs = ys) })"

subsection \<open>Filtering in place\<close>

text \<open>The pointer \<open>current\<close> of \<open>retain\<close> is the address of a link: the list's \<open>head\<close> field or
  the \<open>next\<close> field of a node.  The predicate is a closure without state of its own.\<close>

datatype SLink = HeadLink | NextLink nat

definition sl_read_link :: "'a sheap \<Rightarrow> StackList \<Rightarrow> SLink \<Rightarrow> nat option option" where
  "sl_read_link h l k = (case k of
     HeadLink \<Rightarrow> Some (sl_head l)
   | NextLink p \<Rightarrow> do { n \<leftarrow> h p; Some (sn_next n) })"

definition sl_write_link :: "'a sheap \<Rightarrow> StackList \<Rightarrow> SLink \<Rightarrow> nat option \<Rightarrow> ('a sheap \<times> StackList) option" where
  "sl_write_link h l k v = (case k of
     HeadLink \<Rightarrow> Some (h, l \<lparr> sl_head := v \<rparr>)
   | NextLink p \<Rightarrow> do { h \<leftarrow> sn_set_next h p v; Some (h, l) })"

fun sl_retain_loop :: "nat \<Rightarrow> ('a \<Rightarrow> bool) \<Rightarrow> 'a sheap \<Rightarrow> StackList \<Rightarrow> SLink \<Rightarrow> ('a sheap \<times> StackList) option" where
  "sl_retain_loop 0 f h l current = None"
| "sl_retain_loop (Suc fuel) f h l current = do {
     r \<leftarrow> sl_read_link h l current;
     (case r of
        None \<Rightarrow> Some (h, l)
      | Some node_ptr \<Rightarrow> do {
          node \<leftarrow> h node_ptr;
          if f (sn_data node) then sl_retain_loop fuel f h l (NextLink node_ptr)
          else do {
            (h, l) \<leftarrow> sl_write_link h l current (sn_next node);
            n \<leftarrow> usub (sl_len l) 1;
            sl_retain_loop fuel f (h(node_ptr := None)) (l \<lparr> sl_len := n \<rparr>) current } }) }"

definition sl_retain :: "nat \<Rightarrow> ('a \<Rightarrow> bool) \<Rightarrow> 'a sheap \<Rightarrow> StackList \<Rightarrow> ('a sheap \<times> StackList) option" where
  "sl_retain fuel f h l = sl_retain_loop fuel f h l HeadLink"

subsection \<open>Well-formed lists\<close>

primrec schain :: "'a sheap \<Rightarrow> nat list \<Rightarrow> nat option \<Rightarrow> bool" where
  "schain h [] nx \<longleftrightarrow> True"
| "schain h (p # ps) nx \<longleftrightarrow>
     (case h p of
        None \<Rightarrow> False
      | Some n \<Rightarrow> sn_next n = first_or ps nx \<and> schain h ps nx)"

definition stack_list :: "'a sheap \<Rightarrow> StackList \<Rightarrow> nat list \<Rightarrow> bool" where
  "stack_list h l ps \<longleftrightarrow> distinct ps \<and> schain h ps None \<and> sl_head l = first_or ps None
     \<and> sl_len l = length ps \<and> length ps < USIZE_LIM"

definition sl_data :: "'a sheap \<Rightarrow> nat \<rightharpoonup> 'a" where
  "sl_data h p = map_option sn_data (h p)"

definition sl_contents :: "'a sheap \<Rightarrow> nat list \<Rightarrow> 'a list" where
  "sl_contents h ps = map (\<lambda>p. the (sl_data h p)) ps"

lemma schain_append: "schain h (ps @ qs) nx \<longleftrightarrow> schain h ps (first_or qs nx) \<and> schain h qs nx"
  by (induction ps) (auto split: option.splits)

lemma schain_frame [simp]: "p \<notin> set ps \<Longrightarrow> schain (h(p := x)) ps nx = schain h ps nx"
  by (induction ps) (auto split: option.splits)

lemma schain_live: "schain h ps nx \<Longrightarrow> set ps \<subseteq> dom h"
  by (induction ps) (auto split: option.splits)

lemma sl_data_update [simp]:
  "sl_data (h(p \<mapsto> n)) = (sl_data h)(p \<mapsto> sn_data n)"
  "sl_data (h(p := None)) = (sl_data h)(p := None)"
  by (auto simp: sl_data_def fun_eq_iff)

lemma sl_data_Some [simp]: "h p = Some n \<Longrightarrow> sl_data h p = Some (sn_data n)"
  by (simp add: sl_data_def)

declare map_upd_triv [simp]

lemma sl_data_dom: "dom (sl_data h) = dom h"
  by (auto simp: sl_data_def)

lemma sl_data_eq_dom: "sl_data h' = sl_data h \<Longrightarrow> dom h' = dom h"
  by (metis sl_data_dom)

lemma sl_contents_cong: "(\<And>p. p \<in> set ps \<Longrightarrow> sl_data h' p = sl_data h p) \<Longrightarrow> sl_contents h' ps = sl_contents h ps"
  by (simp add: sl_contents_def)

lemma sn_set_next_Some [simp]:
  "h p = Some n \<Longrightarrow> sn_set_next h p v = Some (h(p \<mapsto> n \<lparr> sn_next := v \<rparr>))"
  by (simp add: sn_set_next_def)

lemma stack_listD:
  assumes "stack_list h l ps"
  shows "distinct ps" "schain h ps None" "set ps \<subseteq> dom h" "length ps < USIZE_LIM"
    "sl_head l = first_or ps None" "sl_len l = length ps"
  using assms schain_live [of h ps None] by (auto simp: stack_list_def)

lemma stack_list_new: "stack_list h sl_new []"
  by (simp add: stack_list_def sl_new_def USIZE_LIM_def)

lemma stack_list_frame: "stack_list h l ps \<Longrightarrow> p \<notin> set ps \<Longrightarrow> stack_list (h(p := x)) l ps"
  by (simp add: stack_list_def)

subsection \<open>The operations refine list operations\<close>

lemma sl_push_node_spec:
  assumes sl: "stack_list h l ps" and p: "p \<in> dom h" "p \<notin> set ps" and len: "Suc (length ps) < USIZE_LIM"
  shows "\<exists>h' l'. sl_push_node h l p = Some (h', l') \<and> stack_list h' l' (p # ps)
    \<and> sl_data h' = sl_data h \<and> (\<forall>q. q \<noteq> p \<longrightarrow> h' q = h q)"
proof -
  from p obtain n where "h p = Some n" by blast
  with stack_listD [OF sl] p len show ?thesis
    by (simp add: sl_push_node_def stack_list_def uadd_def)
qed

lemma sl_push_spec:
  assumes sl: "stack_list h l ps" and p: "p \<notin> dom h" and len: "Suc (length ps) < USIZE_LIM"
  shows "\<exists>h' l'. sl_push h l p d = Some (h', l') \<and> stack_list h' l' (p # ps)
    \<and> sl_data h' = (sl_data h)(p \<mapsto> d) \<and> (\<forall>q. q \<noteq> p \<longrightarrow> h' q = h q)"
proof -
  let ?h = "h(p \<mapsto> snode_new d)"
  have "p \<notin> set ps" using p stack_listD(3) [OF sl] by blast
  moreover have "stack_list ?h l ps" using sl calculation by (simp add: stack_list_frame)
  ultimately show ?thesis
    using sl_push_node_spec [of ?h l ps p] len by (auto simp: sl_push_def snode_new_def)
qed

lemma sl_pop_node_spec:
  assumes sl: "stack_list h l (p # ps)"
  shows "\<exists>h' l'. sl_pop_node h l = Some (Some p, h', l') \<and> stack_list h' l' ps
    \<and> sl_data h' = sl_data h \<and> (\<forall>q. q \<noteq> p \<longrightarrow> h' q = h q)"
proof -
  from stack_listD [OF sl] obtain n where "h p = Some n" "sn_next n = first_or ps None"
    by (auto split: option.splits)
  with stack_listD [OF sl] show ?thesis
    by (simp add: sl_pop_node_def stack_list_def usub_def Let_def)
qed

lemma sl_pop_node_empty: "stack_list h l [] \<Longrightarrow> sl_pop_node h l = Some (None, h, l)"
  by (simp add: stack_list_def sl_pop_node_def)

lemma sl_pop_spec:
  assumes sl: "stack_list h l (p # ps)"
  shows "\<exists>h' l'. sl_pop h l = Some (Some (the (sl_data h p)), h', l') \<and> stack_list h' l' ps
    \<and> sl_data h' = sl_data h \<and> (\<forall>q. q \<noteq> p \<longrightarrow> h' q = h q)"
proof -
  obtain h' l' where r: "sl_pop_node h l = Some (Some p, h', l')" "stack_list h' l' ps"
    "sl_data h' = sl_data h" "\<forall>q. q \<noteq> p \<longrightarrow> h' q = h q"
    using sl_pop_node_spec [OF sl] by blast
  have "p \<in> dom h'" using sl_data_eq_dom [OF r(3)] stack_listD(3) [OF sl] by simp
  then obtain n where "h' p = Some n" by blast
  moreover from this have "the (sl_data h p) = sn_data n" by (simp add: r(3) [symmetric])
  ultimately show ?thesis using r by (simp add: sl_pop_def)
qed

lemma sl_pop_all_spec:
  assumes "stack_list h l ps"
  shows "\<exists>h' l'. sl_pop_all h l = Some (sl_contents h ps, h', l') \<and> stack_list h' l' [] \<and> sl_data h' = sl_data h"
  using assms
proof (induction ps arbitrary: h l)
  case Nil
  then show ?case
    by (subst sl_pop_all.simps) (simp add: sl_pop_def sl_pop_node_empty sl_contents_def)
next
  case (Cons p ps)
  obtain h1 l1 where 1: "sl_pop h l = Some (Some (the (sl_data h p)), h1, l1)" "stack_list h1 l1 ps"
    "sl_data h1 = sl_data h"
    using sl_pop_spec [OF Cons.prems] by blast
  obtain h2 l2 where "sl_pop_all h1 l1 = Some (sl_contents h1 ps, h2, l2)" "stack_list h2 l2 []"
    "sl_data h2 = sl_data h1"
    using Cons.IH [OF 1(2)] by blast
  with 1 show ?case by (subst sl_pop_all.simps) (simp add: sl_contents_def)
qed

lemma sl_iter_data_chain:
  assumes "schain h ps None"
  shows "sl_iter_data h \<lparr> si_current = first_or ps None, si_remaining = length ps \<rparr> = Some (sl_contents h ps)"
  using assms
proof (induction ps)
  case Nil
  then show ?case by (subst sl_iter_data.simps) (simp add: sl_iter_next_def sl_contents_def)
next
  case (Cons p ps)
  then obtain n where "h p = Some n" "sn_next n = first_or ps None" "schain h ps None"
    by (auto split: option.splits)
  with Cons.IH show ?case
    by (subst sl_iter_data.simps) (simp add: sl_iter_next_def sl_contents_def usub_def)
qed

lemma sl_iter_data_spec: "stack_list h l ps \<Longrightarrow> sl_iter_data h (sl_iter l) = Some (sl_contents h ps)"
  using sl_iter_data_chain [of h ps] by (simp add: stack_list_def sl_iter_def)

lemma sl_walk_chain:
  assumes "schain h ps None" and "i < length ps"
  shows "sl_walk h (hd ps) i = Some (Some (ps ! i))"
  using assms
proof (induction i arbitrary: ps)
  case 0
  then show ?case by (cases ps) simp_all
next
  case (Suc i)
  then obtain p q qs where ps: "ps = p # q # qs"
    by (metis Suc_less_eq length_Cons less_nat_zero_code list.exhaust list.size(3))
  with Suc.prems obtain n where "h p = Some n" "sn_next n = Some q" "schain h (q # qs) None"
    by (auto split: option.splits)
  with Suc.IH [of "q # qs"] Suc.prems ps show ?case by simp
qed

lemma sl_remove_at_spec:
  assumes sl: "stack_list h l ps" and i: "i < length ps"
  shows "\<exists>h' l'. sl_remove_at h l i = Some (Some (ps ! i), h', l') \<and> stack_list h' l' (remove_nth i ps)
    \<and> sl_data h' = sl_data h \<and> (\<forall>q. q \<notin> set ps \<longrightarrow> h' q = h q)"
proof (cases i)
  case 0
  with i obtain p qs where "ps = p # qs" by (cases ps) auto
  with sl_pop_node_spec [of h l p qs] sl stack_listD [OF sl] 0 show ?thesis
    by (auto simp: sl_remove_at_def)
next
  case (Suc k)
  note D = stack_listD [OF sl]
  obtain as bs where split: "ps = as @ ps ! i # bs" "length as = i" "remove_nth i ps = as @ bs"
    using remove_nth_split [OF i] by blast
  with Suc obtain as' c where as: "as = as' @ [c]" by (cases as rule: rev_cases) auto
  define p where "p = ps ! i"
  have ps: "ps = as' @ c # p # bs" using split as by (simp add: p_def)
  have k: "ps ! k = c" using ps split(2) as Suc by (simp add: nth_append)
  from D ps obtain nc np where n: "h c = Some nc" "sn_next nc = Some p" "h p = Some np" "sn_next np = first_or bs None"
    by (auto simp: schain_append split: option.splits)
  have hd: "sl_head l = Some (hd ps)" using D i by (cases ps) auto
  have walk: "sl_walk h (hd ps) k = Some (Some c)"
    using sl_walk_chain [OF D(2), of k] i Suc k by simp
  let ?h' = "h(c \<mapsto> nc \<lparr> sn_next := sn_next np \<rparr>)"
  let ?l' = "l \<lparr> sl_len := length ps - 1 \<rparr>"
  have "sl_remove_at h l i = Some (Some p, ?h', ?l')"
    using D(4,6) i Suc hd walk n by (simp add: sl_remove_at_def usub_def)
  moreover have "stack_list ?h' ?l' (as' @ c # bs)"
    using D n unfolding ps by (simp add: stack_list_def schain_append)
  moreover have "remove_nth i ps = as' @ c # bs" using split(3) as by simp
  moreover have "c \<in> set ps" by (subst ps) simp
  moreover have "sl_data ?h' = sl_data h" using n(1) by simp
  ultimately show ?thesis
    by (intro exI [of _ ?h'] exI [of _ ?l']) (auto simp: p_def)
qed

lemma sl_get_spec:
  assumes sl: "stack_list h l ps"
  shows "sl_get h l i = Some (if i < length ps then Some (sl_contents h ps ! i) else None)"
proof (cases "i < length ps")
  case True
  note D = stack_listD [OF sl]
  have "ps ! i \<in> dom h" using True D(3) nth_mem by blast
  then obtain n where "h (ps ! i) = Some n" by blast
  moreover have "sl_head l = Some (hd ps)" using D True by (cases ps) auto
  ultimately show ?thesis
    using D(6) True sl_walk_chain [OF D(2) True] by (simp add: sl_get_def sl_contents_def)
next
  case False
  then show ?thesis using stack_listD [OF sl] by (simp add: sl_get_def)
qed

interpretation sl_stack: node_stack stack_list dom sl_push_node sl_pop_node sl_remove_at
proof unfold_locales
  fix h :: "'a sheap" and l ps
  assume sl: "stack_list h l ps"
  show "distinct ps \<and> set ps \<subseteq> dom h" using stack_listD [OF sl] by blast
  fix p
  assume "p \<in> dom h" "p \<notin> set ps" "Suc (length ps) < USIZE_LIM"
  from sl_push_node_spec [OF sl this]
  show "\<exists>h' l'. sl_push_node h l p = Some (h', l') \<and> stack_list h' l' (p # ps) \<and> dom h' = dom h"
    using sl_data_eq_dom by blast
next
  fix h :: "'a sheap" and l p ps
  assume "stack_list h l (p # ps)"
  from sl_pop_node_spec [OF this]
  show "\<exists>h' l'. sl_pop_node h l = Some (Some p, h', l') \<and> stack_list h' l' ps \<and> dom h' = dom h"
    using sl_data_eq_dom by blast
next
  fix h :: "'a sheap" and l ps i
  assume sl: "stack_list h l ps"
  show "\<exists>h' l'. sl_remove_at h l i = Some (Some (ps ! i), h', l') \<and> stack_list h' l' (remove_nth i ps)
    \<and> dom h' = dom h" if "i < length ps"
    using sl_remove_at_spec [OF sl that] sl_data_eq_dom by blast
  show "sl_remove_at h l i = Some (None, h, l)" if "length ps \<le> i"
    using that stack_listD [OF sl] by (simp add: sl_remove_at_def)
qed (simp add: sl_pop_node_empty)

subsection \<open>Building and filtering\<close>

lemma sl_extend_spec:
  assumes "stack_list h l ps" and "distinct (map fst items)" and "fst ` set items \<inter> dom h = {}"
    and "length ps + length items < USIZE_LIM"
  shows "\<exists>h' l'. sl_extend h l items = Some (h', l') \<and> stack_list h' l' (rev (map fst items) @ ps)
    \<and> sl_data h' = sl_data h ++ map_of items \<and> (\<forall>q \<in> dom h. h' q = h q)"
  using assms
proof (induction items arbitrary: h l ps)
  case (Cons it items)
  obtain p d where it: "it = (p, d)" by fastforce
  from Cons.prems it have p: "p \<notin> dom h" "Suc (length ps) < USIZE_LIM" by auto
  obtain h1 l1 where 1: "sl_push h l p d = Some (h1, l1)" "stack_list h1 l1 (p # ps)"
    "sl_data h1 = (sl_data h)(p \<mapsto> d)" "\<forall>q. q \<noteq> p \<longrightarrow> h1 q = h q"
    using sl_push_spec [OF Cons.prems(1) p] by blast
  have "dom h1 = insert p (dom h)" using 1(3) sl_data_dom [of h1] sl_data_dom [of h] by auto
  then obtain h2 l2 where 2: "sl_extend h1 l1 items = Some (h2, l2)"
    "stack_list h2 l2 (rev (map fst items) @ p # ps)" "sl_data h2 = sl_data h1 ++ map_of items"
    "\<forall>q \<in> dom h1. h2 q = h1 q"
    using Cons.IH [OF 1(2)] Cons.prems it by auto
  have "p \<notin> dom (map_of items)" using Cons.prems(2) it by (simp add: dom_map_of_conv_image_fst)
  then have "sl_data h2 = sl_data h ++ map_of (it # items)"
    using 2(3) 1(3) it by (simp add: map_add_upd_left del: map_of_Cons_code)
  moreover have "\<forall>q \<in> dom h. h2 q = h q"
    using 1(4) 2(4) \<open>dom h1 = insert p (dom h)\<close> p(1) by auto
  ultimately show ?case using 1(1) 2(1,2) it by (simp del: map_of_Cons_code map_of.simps)
qed simp

lemma sl_clone_spec:
  assumes sl: "stack_list h l ps" and addrs: "distinct addrs" "length addrs = length ps" "set addrs \<inter> dom h = {}"
  shows "\<exists>h' l'. sl_clone h l addrs = Some (h', l') \<and> stack_list h' l' (rev addrs)
    \<and> sl_contents h' (rev addrs) = sl_contents h ps \<and> (\<forall>q \<in> dom h. h' q = h q)"
proof -
  let ?items = "zip addrs (rev (sl_contents h ps))"
  have len: "length (rev (sl_contents h ps)) = length addrs" by (simp add: sl_contents_def addrs)
  have fsts: "map fst ?items = addrs" using len by simp
  then have "fst ` set ?items = set addrs" by (metis set_map)
  then obtain h' l' where r: "sl_extend h sl_new ?items = Some (h', l')" "stack_list h' l' (rev addrs)"
    "sl_data h' = sl_data h ++ map_of ?items" "\<forall>q \<in> dom h. h' q = h q"
    using sl_extend_spec [OF stack_list_new, of ?items h] addrs len fsts stack_listD(4) [OF sl]
    by auto
  have "map (\<lambda>p. the (sl_data h' p)) addrs = rev (sl_contents h ps)"
  proof (rule nth_equalityI)
    fix i
    assume "i < length (map (\<lambda>p. the (sl_data h' p)) addrs)"
    then have i: "i < length addrs" by simp
    then have "map_of ?items (addrs ! i) = Some (rev (sl_contents h ps) ! i)"
      using addrs len by (simp add: map_of_zip_nth)
    then show "map (\<lambda>p. the (sl_data h' p)) addrs ! i = rev (sl_contents h ps) ! i"
      using i by (simp add: r(3) map_add_Some_iff)
  qed (use len in simp)
  then have "sl_contents h' (rev addrs) = sl_contents h ps"
    by (simp add: sl_contents_def rev_map [symmetric])
  then show ?thesis using r sl_iter_data_spec [OF sl] by (simp add: sl_clone_def)
qed

definition sl_link_after :: "nat list \<Rightarrow> SLink" where
  "sl_link_after ps = (if ps = [] then HeadLink else NextLink (last ps))"

lemma sl_link_after_snoc [simp]: "sl_link_after (ps @ [p]) = NextLink p"
  by (simp add: sl_link_after_def)

lemma sl_read_link_after:
  assumes "stack_list h l (as @ bs)"
  shows "sl_read_link h l (sl_link_after as) = Some (first_or bs None)"
proof (cases as rule: rev_cases)
  case Nil
  with assms show ?thesis by (simp add: sl_read_link_def sl_link_after_def stack_list_def)
next
  case (snoc as' a)
  with stack_listD(2) [OF assms] show ?thesis
    by (auto simp: sl_read_link_def schain_append split: option.splits)
qed

text \<open>Cutting the node behind a link out of the list.\<close>

lemma sl_cut_spec:
  assumes sl: "stack_list h l (as @ b # bs)" and b: "h b = Some n"
  shows "\<exists>h1 l1. sl_write_link h l (sl_link_after as) (sn_next n) = Some (h1, l1) \<and> sl_len l1 = sl_len l
    \<and> stack_list (h1(b := None)) (l1 \<lparr> sl_len := sl_len l - 1 \<rparr>) (as @ bs)
    \<and> sl_data (h1(b := None)) = (sl_data h)(b := None)
    \<and> (\<forall>q. q \<notin> set (as @ [b]) \<longrightarrow> h1 q = h q)"
proof (cases as rule: rev_cases)
  case Nil
  with stack_listD [OF sl] b show ?thesis
    by (simp add: sl_write_link_def sl_link_after_def stack_list_def)
next
  case (snoc as' a)
  with stack_listD [OF sl] obtain m where "h a = Some m" "a \<noteq> b" by auto
  with snoc stack_listD [OF sl] b show ?thesis
    by (simp add: sl_write_link_def stack_list_def schain_append)
qed

lemma sl_retain_loop_spec:
  assumes "stack_list h l (as @ bs)" and "length bs < fuel"
  shows "\<exists>h' l'. sl_retain_loop fuel f h l (sl_link_after as) = Some (h', l')
    \<and> stack_list h' l' (as @ filter (\<lambda>p. f (the (sl_data h p))) bs)
    \<and> sl_data h' = (sl_data h) |` (- {p \<in> set bs. \<not> f (the (sl_data h p))})"
  using assms
proof (induction bs arbitrary: h l as fuel)
  case Nil
  then obtain k where "fuel = Suc k" by (cases fuel) auto
  with Nil sl_read_link_after [of h l as "[]"] show ?case by simp
next
  case (Cons b bs)
  note D = stack_listD [OF Cons.prems(1)]
  from Cons.prems(2) obtain k where fuel: "fuel = Suc k" and k: "length bs < k" by (cases fuel) auto
  from D obtain n where n: "h b = Some n" by auto
  note read = sl_read_link_after [OF Cons.prems(1)]
  show ?case
  proof (cases "f (sn_data n)")
    case True
    from Cons.prems(1) have "stack_list h l ((as @ [b]) @ bs)" by simp
    moreover have "{p \<in> set (b # bs). \<not> f (the (sl_data h p))} = {p \<in> set bs. \<not> f (the (sl_data h p))}"
      using True n by auto
    ultimately show ?thesis using Cons.IH [of h l "as @ [b]" k] k True read n fuel by simp
  next
    case False
    obtain h1 l1 where c: "sl_write_link h l (sl_link_after as) (sn_next n) = Some (h1, l1)"
      "sl_len l1 = sl_len l" "stack_list (h1(b := None)) (l1 \<lparr> sl_len := sl_len l - 1 \<rparr>) (as @ bs)"
      "sl_data (h1(b := None)) = (sl_data h)(b := None)"
      using sl_cut_spec [OF Cons.prems(1) n] by blast
    from D have "b \<notin> set bs" by simp
    then have flt: "filter (\<lambda>p. f (the (sl_data (h1(b := None)) p))) bs = filter (\<lambda>p. f (the (sl_data h p))) bs"
      by (intro filter_cong) (auto simp: c(4) simp del: sl_data_update)
    have restr: "(sl_data (h1(b := None))) |` (- {p \<in> set bs. \<not> f (the (sl_data (h1(b := None)) p))})
      = (sl_data h) |` (- {p \<in> set (b # bs). \<not> f (the (sl_data h p))})"
      unfolding c(4) using \<open>b \<notin> set bs\<close> False n
      by (auto simp: fun_eq_iff restrict_map_def)
    have "1 \<le> sl_len l1" using c(2) D(6) by simp
    then have step: "sl_retain_loop fuel f h l (sl_link_after as)
        = sl_retain_loop k f (h1(b := None)) (l1 \<lparr> sl_len := sl_len l - 1 \<rparr>) (sl_link_after as)"
      using c(1,2) False n fuel read by (simp add: usub_def)
    have head: "filter (\<lambda>p. f (the (sl_data h p))) (b # bs) = filter (\<lambda>p. f (the (sl_data h p))) bs"
      using False n by simp
    show ?thesis using Cons.IH [OF c(3) k] unfolding step restr flt head .
  qed
qed

subsection \<open>Properties\<close>

text \<open>C30: on a well-formed stack through the nodes \<open>p # ps\<close>, \<open>pop\<close> returns the data of the
  top and leaves a well-formed stack through \<open>ps\<close>, pushing a fresh node on it puts the
  data on top, \<open>remove_at\<close> cuts out exactly the node at the index and keeps all data, and \<open>get\<close> reads by
  index.  A pop changes no node but the top, a push none but the new one, and a removal none outside the
  list: the links and data of all nodes of other lists are untouched.\<close>

theorem stack_list_ops:
  assumes "stack_list h l (p # ps)" and "q \<notin> dom h" and "Suc (Suc (length ps)) < USIZE_LIM"
    and "i < length (p # ps)"
  shows "(\<exists>h' l'. sl_pop h l = Some (Some (hd (sl_contents h (p # ps))), h', l') \<and> stack_list h' l' ps
        \<and> sl_contents h' ps = tl (sl_contents h (p # ps)) \<and> (\<forall>r. r \<noteq> p \<longrightarrow> h' r = h r))
    \<and> (\<exists>h' l'. sl_push h l q d = Some (h', l') \<and> stack_list h' l' (q # p # ps)
        \<and> sl_contents h' (q # p # ps) = d # sl_contents h (p # ps) \<and> (\<forall>r. r \<noteq> q \<longrightarrow> h' r = h r))
    \<and> (\<exists>h' l'. sl_remove_at h l i = Some (Some ((p # ps) ! i), h', l')
        \<and> stack_list h' l' (remove_nth i (p # ps)) \<and> sl_data h' = sl_data h
        \<and> (\<forall>r. r \<notin> set (p # ps) \<longrightarrow> h' r = h r))
    \<and> sl_get h l i = Some (Some (sl_contents h (p # ps) ! i))"
proof (intro conjI)
  show "\<exists>h' l'. sl_pop h l = Some (Some (hd (sl_contents h (p # ps))), h', l') \<and> stack_list h' l' ps
      \<and> sl_contents h' ps = tl (sl_contents h (p # ps)) \<and> (\<forall>r. r \<noteq> p \<longrightarrow> h' r = h r)"
    using sl_pop_spec [OF assms(1)] by (auto simp: sl_contents_def)
  have "q \<notin> set (p # ps)" using assms(2) stack_listD(3) [OF assms(1)] by blast
  then show "\<exists>h' l'. sl_push h l q d = Some (h', l') \<and> stack_list h' l' (q # p # ps)
      \<and> sl_contents h' (q # p # ps) = d # sl_contents h (p # ps) \<and> (\<forall>r. r \<noteq> q \<longrightarrow> h' r = h r)"
    using sl_push_spec [OF assms(1,2), of d] assms(3) by (auto simp: sl_contents_def)
  show "\<exists>h' l'. sl_remove_at h l i = Some (Some ((p # ps) ! i), h', l')
      \<and> stack_list h' l' (remove_nth i (p # ps)) \<and> sl_data h' = sl_data h
        \<and> (\<forall>r. r \<notin> set (p # ps) \<longrightarrow> h' r = h r)"
    using sl_remove_at_spec [OF assms(1,4)] by blast
  show "sl_get h l i = Some (Some (sl_contents h (p # ps) ! i))"
    using sl_get_spec [OF assms(1), of i] assms(4) by simp
qed

theorem stack_list_ops_witness:
  "\<exists>h l. stack_list h l [16, 8] \<and> sl_contents h [16, 8] = [True, False]
    \<and> (\<exists>h' l'. sl_pop h l = Some (Some True, h', l') \<and> stack_list h' l' [8])
    \<and> (\<exists>h' l'. sl_remove_at h l 1 = Some (Some 8, h', l') \<and> stack_list h' l' [16] \<and> h' 32 = h 32 \<and> h 32 \<noteq> None)"
proof -
  let ?h = "[8 \<mapsto> \<lparr> sn_data = False, sn_next = None \<rparr>, 16 \<mapsto> \<lparr> sn_data = True, sn_next = Some 8 \<rparr>,
    32 \<mapsto> \<lparr> sn_data = True, sn_next = Some 40 \<rparr>]"
  let ?l = "\<lparr> sl_head = Some 16, sl_len = 2 \<rparr>"
  have sl: "stack_list ?h ?l [16, 8]" by (simp add: stack_list_def USIZE_LIM_def)
  have c: "sl_contents ?h [16, 8] = [True, False]" by (simp add: sl_contents_def)
  have q: "(24 :: nat) \<notin> dom ?h" by simp
  have "\<exists>h' l'. sl_pop ?h ?l = Some (Some True, h', l') \<and> stack_list h' l' [8]"
    using stack_list_ops [OF sl q, of 0 True, unfolded c] by (auto simp: USIZE_LIM_def)
  moreover have "\<exists>h' l'. sl_remove_at ?h ?l 1 = Some (Some 8, h', l') \<and> stack_list h' l' [16] \<and> h' 32 = ?h 32"
    using stack_list_ops [OF sl q, of 1 True] by (fastforce simp: USIZE_LIM_def remove_nth_def)
  ultimately show ?thesis using sl c by (intro exI [of _ ?h] exI [of _ ?l]) simp
qed

text \<open>given as much fuel as the list has nodes plus one, \<open>retain\<close> returns, keeps exactly
  the elements that satisfy the predicate, in their order, and frees exactly the others.\<close>

theorem stack_list_retain:
  assumes "stack_list h l ps" and "length ps < fuel"
  shows "\<exists>h' l'. sl_retain fuel f h l = Some (h', l')
    \<and> (\<exists>ps'. stack_list h' l' ps' \<and> sl_contents h' ps' = filter f (sl_contents h ps)
         \<and> dom h' = dom h - (set ps - set ps'))"
proof -
  let ?keep = "\<lambda>p. f (the (sl_data h p))"
  obtain h' l' where r: "sl_retain_loop fuel f h l (sl_link_after []) = Some (h', l')"
    "stack_list h' l' (filter ?keep ps)" "sl_data h' = (sl_data h) |` (- {p \<in> set ps. \<not> ?keep p})"
    using sl_retain_loop_spec [of h l "[]" ps fuel f] assms by auto
  have "sl_contents h' (filter ?keep ps) = filter f (sl_contents h ps)"
    by (auto simp: sl_contents_def filter_map comp_def r(3) intro!: map_cong)
  moreover have "dom h' = dom h - (set ps - set (filter ?keep ps))"
    using sl_data_dom [of h'] sl_data_dom [of h] by (auto simp: r(3))
  ultimately show ?thesis
    using r(1,2) by (auto simp: sl_retain_def sl_link_after_def)
qed

theorem stack_list_retain_witness:
  "\<exists>h l. stack_list h l [16, 8] \<and> sl_contents h [16, 8] = [5, 2 :: nat]
    \<and> (\<exists>h' l' ps'. sl_retain 3 even h l = Some (h', l') \<and> stack_list h' l' ps' \<and> sl_contents h' ps' = [2])"
proof -
  let ?h = "[8 \<mapsto> \<lparr> sn_data = 2, sn_next = None \<rparr>, 16 \<mapsto> \<lparr> sn_data = 5 :: nat, sn_next = Some 8 \<rparr>]"
  let ?l = "\<lparr> sl_head = Some 16, sl_len = 2 \<rparr>"
  have sl: "stack_list ?h ?l [16, 8]" by (simp add: stack_list_def USIZE_LIM_def)
  have c: "sl_contents ?h [16, 8] = [5, 2]" by (simp add: sl_contents_def)
  from stack_list_retain [OF sl, of 3 even, unfolded c] sl c show ?thesis by auto
qed

text \<open>\<open>clone\<close> into fresh nodes yields a list that holds the same elements in the same order
  and that \<open>eq\<close> identifies with the original, which is left intact; \<open>into_vec\<close> returns the
  elements in the order they were pushed, the reverse of the order in which the list
  iterates.\<close>

theorem stack_list_clone_into_vec:
  assumes "stack_list h l ps" and "distinct addrs" and "length addrs = length ps" and "set addrs \<inter> dom h = {}"
  shows "(\<exists>h' l'. sl_clone h l addrs = Some (h', l') \<and> stack_list h' l' (rev addrs) \<and> stack_list h' l ps
        \<and> sl_eq h' l' l = Some True)
    \<and> sl_iter_data h (sl_iter l) = Some (sl_contents h ps)
    \<and> (\<exists>h'. sl_into_vec h l = Some (rev (sl_contents h ps), h'))"
proof (intro conjI)
  obtain h' l' where r: "sl_clone h l addrs = Some (h', l')" "stack_list h' l' (rev addrs)"
    "sl_contents h' (rev addrs) = sl_contents h ps" "\<forall>q \<in> dom h. h' q = h q"
    using sl_clone_spec [OF assms] by blast
  have same: "p \<in> set ps \<Longrightarrow> h' p = h p" for p
    using r(4) stack_listD(3) [OF assms(1)] by blast
  then have chain: "schain h' ps nx = schain h ps nx" for nx
    by (induction ps) (auto split: option.splits)
  then have old: "stack_list h' l ps" using assms(1) by (simp add: stack_list_def)
  have "sl_contents h' ps = sl_contents h ps"
    using same by (intro sl_contents_cong) (simp add: sl_data_def)
  then have "sl_eq h' l' l = Some True"
    using sl_iter_data_spec [OF r(2)] sl_iter_data_spec [OF old] r(3) stack_listD(6) [OF r(2)]
      stack_listD(6) [OF old] assms(3) by (simp add: sl_eq_def)
  with r old show "\<exists>h' l'. sl_clone h l addrs = Some (h', l') \<and> stack_list h' l' (rev addrs) \<and> stack_list h' l ps
      \<and> sl_eq h' l' l = Some True" by blast
  show "sl_iter_data h (sl_iter l) = Some (sl_contents h ps)" by (rule sl_iter_data_spec [OF assms(1)])
  show "\<exists>h'. sl_into_vec h l = Some (rev (sl_contents h ps), h')"
    using sl_pop_all_spec [OF assms(1)] by (auto simp: sl_into_vec_def)
qed

theorem stack_list_clone_into_vec_witness:
  "\<exists>h l h' l'. stack_list h l [16, 8] \<and> sl_clone h l [24, 32] = Some (h', l')
    \<and> sl_eq h' l' l = Some True \<and> (\<exists>h''. sl_into_vec h l = Some ([2, 5 :: nat], h''))"
proof -
  let ?h = "[8 \<mapsto> \<lparr> sn_data = 2, sn_next = None \<rparr>, 16 \<mapsto> \<lparr> sn_data = 5 :: nat, sn_next = Some 8 \<rparr>]"
  let ?l = "\<lparr> sl_head = Some 16, sl_len = 2 \<rparr>"
  have sl: "stack_list ?h ?l [16, 8]" by (simp add: stack_list_def USIZE_LIM_def)
  have c: "sl_contents ?h [16, 8] = [5, 2]" by (simp add: sl_contents_def)
  from stack_list_clone_into_vec [OF sl, of "[24, 32]", unfolded c] obtain h' l' h'' where
    "sl_clone ?h ?l [24, 32] = Some (h', l')" "sl_eq h' l' ?l = Some True"
    "sl_into_vec ?h ?l = Some ([2, 5], h'')" by auto
  with sl show ?thesis by blast
qed

text \<open>the node interface of the stack is last-in first-out on every heap: pushing distinct
  live nodes onto an empty stack succeeds, popping until empty terminates and returns them in
  reverse order, and the stack is empty again.\<close>

theorem stack_list_lifo:
  assumes "distinct qs" and "set qs \<subseteq> dom h" and "length qs < USIZE_LIM"
  shows "\<exists>h1 l1 h2 l2. push_each sl_push_node h sl_new qs = Some (h1, l1)
    \<and> drain sl_pop_node (Suc (length qs)) h1 l1 = Some (rev qs, h2, l2) \<and> stack_list h2 l2 []"
  by (rule sl_stack.push_each_then_drain [OF stack_list_new assms])

theorem stack_list_lifo_witness:
  "\<exists>h1 l1 h2 l2. push_each sl_push_node [8 \<mapsto> snode_new (), 16 \<mapsto> snode_new ()] sl_new [8, 16] = Some (h1, l1)
    \<and> drain sl_pop_node 3 h1 l1 = Some ([16, 8], h2, l2) \<and> stack_list h2 l2 []"
  using stack_list_lifo [of "[8, 16]" "[8 \<mapsto> snode_new (), 16 \<mapsto> snode_new ()]"]
  by (simp add: USIZE_LIM_def numeral_3_eq_3)

end
