(* ===== verification/Spinlock.thy ===== *)
theory Spinlock
  imports Prelude
begin

text \<open>
  The spin lock of \<open>utils/src/sync/spinlock.rs\<close>: an atomic flag and the protected data.  The
  functions are the atomic operations of the code; the inductive relation \<open>spin_step\<close>
  interleaves any number of threads that lock, use the data through the guard and drop the
  guard.  A use of the data is a read into a register followed by a separate write, so that a
  missing lock would lose updates.
\<close>

subsection \<open>The lock\<close>

record 'a SpinLock =
  sp_lock :: bool
  sp_data :: 'a

definition spin_new :: "'a \<Rightarrow> 'a SpinLock" where
  "spin_new data = \<lparr> sp_lock = False, sp_data = data \<rparr>"

text \<open>One round of \<open>spin_until!(!self.lock.swap(true, Acquire))\<close>: the value tested and the new
  state.\<close>

definition spin_try :: "'a SpinLock \<Rightarrow> bool \<times> 'a SpinLock" where
  "spin_try s = (let old = sp_lock s in (\<not> old, s \<lparr> sp_lock := True \<rparr>))"

text \<open>The spinning loop with a bound on the rounds, \<open>None\<close> when it is still spinning; without
  interference a round decides.\<close>

fun spin_lock_loop :: "nat \<Rightarrow> 'a SpinLock \<Rightarrow> 'a SpinLock option" where
  "spin_lock_loop 0 s = None"
| "spin_lock_loop (Suc n) s = (case spin_try s of
     (True, s') \<Rightarrow> Some s'
   | (False, s') \<Rightarrow> spin_lock_loop n s')"

definition spin_unlock :: "'a SpinLock \<Rightarrow> 'a SpinLock" where
  "spin_unlock s = s \<lparr> sp_lock := False \<rparr>"

text \<open>\<open>drop\<close> of the guard: the type's \<open>custom_unlock\<close> on the data, then the release.\<close>

definition spin_custom_unlock :: "('a \<Rightarrow> 'a) \<Rightarrow> 'a SpinLock \<Rightarrow> 'a SpinLock" where
  "spin_custom_unlock cu s = s \<lparr> sp_data := cu (sp_data s) \<rparr>"

definition spin_guard_drop :: "('a \<Rightarrow> 'a) \<Rightarrow> 'a SpinLock \<Rightarrow> 'a SpinLock" where
  "spin_guard_drop cu s = spin_unlock (spin_custom_unlock cu s)"

text \<open>\<open>deref\<close> and \<open>deref_mut\<close> of the guard.\<close>

definition spin_deref :: "'a SpinLock \<Rightarrow> 'a" where
  "spin_deref s = sp_data s"

definition spin_deref_write :: "'a SpinLock \<Rightarrow> 'a \<Rightarrow> 'a SpinLock" where
  "spin_deref_write s v = s \<lparr> sp_data := v \<rparr>"

subsection \<open>Threads\<close>

datatype 'a pc = Idle | Spinning | Guard "'a option" | Releasing

record 'a spin_state =
  st_lock :: "'a SpinLock"
  st_pc :: "nat \<Rightarrow> 'a pc"
  st_log :: "('a \<Rightarrow> 'a) list"

text \<open>\<open>st_log\<close> is a ghost: the updates made so far, the latest first.\<close>

inductive spin_step :: "('a \<Rightarrow> 'a) \<Rightarrow> 'a spin_state \<Rightarrow> 'a spin_state \<Rightarrow> bool" for cu where
  call: "st_pc s t = Idle \<Longrightarrow> spin_step cu s (s \<lparr> st_pc := (st_pc s)(t := Spinning) \<rparr>)"
| swap: "st_pc s t = Spinning \<Longrightarrow> spin_try (st_lock s) = (won, l) \<Longrightarrow>
    spin_step cu s (s \<lparr> st_lock := l, st_pc := (st_pc s)(t := if won then Guard None else Spinning) \<rparr>)"
| load: "st_pc s t = Guard None \<Longrightarrow>
    spin_step cu s (s \<lparr> st_pc := (st_pc s)(t := Guard (Some (spin_deref (st_lock s)))) \<rparr>)"
| store: "st_pc s t = Guard (Some v) \<Longrightarrow>
    spin_step cu s (s \<lparr> st_lock := spin_deref_write (st_lock s) (f v), st_pc := (st_pc s)(t := Guard None),
      st_log := f # st_log s \<rparr>)"
| drop_begin: "st_pc s t = Guard None \<Longrightarrow>
    spin_step cu s (s \<lparr> st_lock := spin_custom_unlock cu (st_lock s), st_pc := (st_pc s)(t := Releasing),
      st_log := cu # st_log s \<rparr>)"
| drop_end: "st_pc s t = Releasing \<Longrightarrow>
    spin_step cu s (s \<lparr> st_lock := spin_unlock (st_lock s), st_pc := (st_pc s)(t := Idle) \<rparr>)"

inductive_cases spin_stepE: "spin_step cu s s'"

definition spin_init :: "'a \<Rightarrow> 'a spin_state" where
  "spin_init d = \<lparr> st_lock = spin_new d, st_pc = (\<lambda>_. Idle), st_log = [] \<rparr>"

inductive spin_reach :: "('a \<Rightarrow> 'a) \<Rightarrow> 'a \<Rightarrow> 'a spin_state \<Rightarrow> bool" for cu d where
  start: "spin_reach cu d (spin_init d)"
| more: "spin_reach cu d s \<Longrightarrow> spin_step cu s s' \<Longrightarrow> spin_reach cu d s'"

subsection \<open>The invariant\<close>

definition holds :: "'a pc \<Rightarrow> bool" where
  "holds p \<longleftrightarrow> (case p of Guard _ \<Rightarrow> True | Releasing \<Rightarrow> True | _ \<Rightarrow> False)"

lemma holds_simps [simp]:
  "\<not> holds Idle" "\<not> holds Spinning" "holds (Guard v)" "holds Releasing"
  by (simp_all add: holds_def)

definition spin_inv :: "'a \<Rightarrow> 'a spin_state \<Rightarrow> bool" where
  "spin_inv d s \<longleftrightarrow>
     (\<forall>t u. holds (st_pc s t) \<longrightarrow> holds (st_pc s u) \<longrightarrow> t = u)
     \<and> (sp_lock (st_lock s) \<longleftrightarrow> (\<exists>t. holds (st_pc s t)))
     \<and> (\<forall>t v. st_pc s t = Guard (Some v) \<longrightarrow> v = sp_data (st_lock s))
     \<and> sp_data (st_lock s) = foldr (\<lambda>f. f) (st_log s) d"

lemma spin_invD:
  assumes "spin_inv d s"
  shows "holds (st_pc s t) \<Longrightarrow> holds (st_pc s u) \<Longrightarrow> t = u"
    and "sp_lock (st_lock s) \<longleftrightarrow> (\<exists>t. holds (st_pc s t))"
    and "st_pc s t = Guard (Some v) \<Longrightarrow> v = sp_data (st_lock s)"
    and "sp_data (st_lock s) = foldr (\<lambda>f. f) (st_log s) d"
  using assms unfolding spin_inv_def by blast+

lemmas spin_ops = spin_try_def spin_unlock_def spin_custom_unlock_def spin_deref_def spin_deref_write_def

lemma spin_inv_init: "spin_inv d (spin_init d)"
  unfolding spin_inv_def spin_init_def spin_new_def by simp

text \<open>Another thread cannot be in its critical section while one is.\<close>

lemma other_not_holding: "spin_inv d s \<Longrightarrow> holds (st_pc s t) \<Longrightarrow> u \<noteq> t \<Longrightarrow> \<not> holds (st_pc s u)"
  unfolding spin_inv_def by (elim conjE) blast

lemma other_not_guard: "spin_inv d s \<Longrightarrow> holds (st_pc s t) \<Longrightarrow> u \<noteq> t \<Longrightarrow> st_pc s u \<noteq> Guard v"
  by (metis other_not_holding holds_simps(3))

text \<open>Steps that do not change who holds the lock.\<close>

lemma spin_inv_same_holders:
  assumes "spin_inv d s" and "\<And>u. holds (st_pc s' u) = holds (st_pc s u)"
    and "sp_lock (st_lock s') = sp_lock (st_lock s)"
    and "\<And>u v. st_pc s' u = Guard (Some v) \<Longrightarrow> v = sp_data (st_lock s')"
    and "sp_data (st_lock s') = foldr (\<lambda>f. f) (st_log s') d"
  shows "spin_inv d s'"
  using assms unfolding spin_inv_def by simp

lemma spin_inv_step:
  assumes inv: "spin_inv d s" and step: "spin_step cu s s'"
  shows "spin_inv d s'"
  using step
proof cases
  case (call t)
  show ?thesis
    by (rule spin_inv_same_holders [OF inv])
       (use call spin_invD(3,4) [OF inv] in \<open>auto split: if_splits\<close>)
next
  case (swap t won l)
  show ?thesis
  proof (cases "sp_lock (st_lock s)")
    case True
    then have "\<not> won" "st_lock s = l" using swap by (auto simp: spin_try_def Let_def)
    then have "s' = s" using swap by (auto simp: fun_upd_idem)
    then show ?thesis using inv by simp
  next
    case False
    then have w: "won" "l = st_lock s \<lparr> sp_lock := True \<rparr>" using swap by (auto simp: spin_try_def Let_def)
    have no: "\<not> holds (st_pc s u)" for u using False spin_invD(2) [OF inv] by blast
    then have "st_pc s u \<noteq> Guard v" for u v using holds_simps(3) by metis
    then show ?thesis using swap w no spin_invD(4) [OF inv] by (auto simp: spin_inv_def)
  qed
next
  case (load t)
  show ?thesis
    by (rule spin_inv_same_holders [OF inv])
       (use load spin_invD(3,4) [OF inv] in \<open>auto simp: spin_ops split: if_splits\<close>)
next
  case (store t v f)
  have h: "holds (st_pc s t)" using store by simp
  show ?thesis
    by (rule spin_inv_same_holders [OF inv])
       (use store spin_invD(3,4) [OF inv] other_not_guard [OF inv h] in \<open>auto simp: spin_ops split: if_splits\<close>)
next
  case (drop_begin t)
  have h: "holds (st_pc s t)" using drop_begin by simp
  show ?thesis
    by (rule spin_inv_same_holders [OF inv])
       (use drop_begin spin_invD(4) [OF inv] other_not_guard [OF inv h] in \<open>auto simp: spin_ops split: if_splits\<close>)
next
  case (drop_end t)
  have h: "holds (st_pc s t)" using drop_end by simp
  have "\<not> holds (st_pc s' u)" for u using drop_end other_not_holding [OF inv h, of u] by auto
  moreover from this have "st_pc s' u \<noteq> Guard v" for u v by (metis holds_simps(3))
  ultimately show ?thesis using drop_end spin_invD(4) [OF inv] by (auto simp: spin_inv_def spin_ops)
qed

lemma spin_reach_inv: "spin_reach cu d s \<Longrightarrow> spin_inv d s"
  by (induction rule: spin_reach.induct) (auto intro: spin_inv_init spin_inv_step)

subsection \<open>Properties\<close>

text \<open>C16: mutual exclusion and no lost update, for any number of threads and any interleaving.  At
  most one thread holds a guard; the flag is set exactly when one does; and the protected data
  is the result of applying all updates made under the lock, one after the other, although each
  of them reads and writes in separate steps.\<close>

theorem spinlock_mutual_exclusion:
  assumes "spin_reach cu d s"
  shows "(\<forall>t u. holds (st_pc s t) \<longrightarrow> holds (st_pc s u) \<longrightarrow> t = u)
    \<and> (sp_lock (st_lock s) \<longleftrightarrow> (\<exists>t. holds (st_pc s t)))
    \<and> sp_data (st_lock s) = foldr (\<lambda>f. f) (st_log s) d"
  using spin_reach_inv [OF assms] unfolding spin_inv_def by blast

theorem spinlock_mutual_exclusion_witness:
  "\<exists>s :: nat spin_state. spin_reach id 5 s \<and> st_pc s 1 = Guard None \<and> st_pc s 2 = Spinning \<and> sp_lock (st_lock s)"
proof -
  let ?s0 = "spin_init (5 :: nat)"
  let ?s1 = "?s0 \<lparr> st_pc := (st_pc ?s0)(1 := Spinning) \<rparr>"
  let ?s2 = "?s1 \<lparr> st_pc := (st_pc ?s1)(2 := Spinning) \<rparr>"
  let ?s3 = "?s2 \<lparr> st_lock := (st_lock ?s2) \<lparr> sp_lock := True \<rparr>, st_pc := (st_pc ?s2)(1 := Guard None) \<rparr>"
  have "spin_step id ?s0 ?s1" by (rule spin_step.call) (simp add: spin_init_def)
  moreover have "spin_step id ?s1 ?s2" by (rule spin_step.call) (simp add: spin_init_def)
  moreover have "spin_step id ?s2 ?s3"
    using spin_step.swap [of ?s2 1 True "(st_lock ?s2) \<lparr> sp_lock := True \<rparr>" id]
    by (simp add: spin_try_def spin_init_def spin_new_def)
  ultimately have r: "spin_reach id 5 ?s3" by (meson spin_reach.intros)
  have pc: "st_pc ?s3 1 = Guard None" "st_pc ?s3 2 = Spinning" by simp_all
  then have "sp_lock (st_lock ?s3)"
    using spinlock_mutual_exclusion [OF r, THEN conjunct2, THEN conjunct1] holds_simps(3) by metis
  with r pc show ?thesis by blast
qed

text \<open>the lock is never stuck: whenever no thread holds a guard, the next swap of any spinning
  thread acquires it, and a lock that is free is acquired by the first round of the loop.\<close>

theorem spinlock_progress:
  assumes "spin_reach cu d s" and "st_pc s t = Spinning" and "\<forall>u. \<not> holds (st_pc s u)"
  shows "\<exists>s'. spin_step cu s s' \<and> st_pc s' t = Guard None
    \<and> spin_lock_loop (Suc n) (st_lock s) = Some (st_lock s')"
proof -
  have "\<not> sp_lock (st_lock s)" using spin_invD(2) [OF spin_reach_inv [OF assms(1)]] assms(3) by blast
  then have won: "spin_try (st_lock s) = (True, (st_lock s) \<lparr> sp_lock := True \<rparr>)" by (simp add: spin_try_def)
  from spin_step.swap [OF assms(2) this, of cu] show ?thesis
    by (intro exI conjI) (auto simp: won)
qed

theorem spinlock_progress_witness:
  "\<exists>s s' :: nat spin_state. spin_reach id 5 s \<and> spin_step id s s' \<and> st_pc s' 1 = Guard None"
proof -
  let ?s0 = "spin_init (5 :: nat)"
  let ?s1 = "?s0 \<lparr> st_pc := (st_pc ?s0)(1 := Spinning) \<rparr>"
  have "spin_step id ?s0 ?s1" by (rule spin_step.call) (simp add: spin_init_def)
  then have r: "spin_reach id 5 ?s1" by (meson spin_reach.intros)
  have "st_pc ?s1 1 = Spinning" "\<forall>u. \<not> holds (st_pc ?s1 u)" by (simp_all add: spin_init_def)
  from spinlock_progress [OF r this] r show ?thesis by blast
qed

end
