(* ===== verification/Mem_Addr.thy ===== *)
theory Mem_Addr
  imports Prelude
begin

text \<open>
  \<open>utils/src/mem\<close>: physical and virtual addresses (transparent wrappers of \<open>usize\<close>), the
  higher-half direct map (HHDM) whose offset is the \<open>FastLazyStatic\<close> cell
  \<open>HHDM_OFFSET\<close>, here an argument, the byte loops \<open>memset\<close> and \<open>memcpy\<close>, and MMIO areas.  A
  byte memory is a partial map; an access outside its domain faults (\<open>None\<close>).
\<close>

subsection \<open>Addresses\<close>

type_synonym PhysAddr = usize
type_synonym VirtAddr = usize

definition add_hhdm_offset :: "usize \<Rightarrow> PhysAddr \<Rightarrow> VirtAddr option" where
  "add_hhdm_offset hhdm a = uadd a hhdm"

definition subtract_hhdm_offset :: "usize \<Rightarrow> VirtAddr \<Rightarrow> PhysAddr option" where
  "subtract_hhdm_offset hhdm a = usub a hhdm"

text \<open>The \<open>Add\<close> and \<open>Sub\<close> instances of both address types.\<close>

definition addr_add :: "usize \<Rightarrow> usize \<Rightarrow> usize option" where
  "addr_add a b = uadd a b"

definition addr_sub :: "usize \<Rightarrow> usize \<Rightarrow> usize option" where
  "addr_sub a b = usub a b"

subsection \<open>FastLazyStatic\<close>

record 'a FastLazyStatic =
  fls_data :: 'a

definition fls_new :: "'a \<Rightarrow> 'a FastLazyStatic" where
  "fls_new uninit = \<lparr> fls_data = uninit \<rparr>"

definition fls_set :: "'a FastLazyStatic \<Rightarrow> 'a \<Rightarrow> 'a FastLazyStatic" where
  "fls_set c v = c \<lparr> fls_data := v \<rparr>"

definition fls_get :: "'a FastLazyStatic \<Rightarrow> 'a" where
  "fls_get c = fls_data c"

subsection \<open>Byte loops\<close>

type_synonym bytemem = "nat \<rightharpoonup> u8"

definition write_byte :: "bytemem \<Rightarrow> nat \<Rightarrow> u8 \<Rightarrow> bytemem option" where
  "write_byte m p v = (if p \<in> dom m then Some (m(p \<mapsto> v)) else None)"

fun memset_loop :: "bytemem \<Rightarrow> nat \<Rightarrow> u8 \<Rightarrow> nat \<Rightarrow> nat \<Rightarrow> bytemem option" where
  "memset_loop m ptr v i 0 = Some m"
| "memset_loop m ptr v i (Suc n) = do {
     m \<leftarrow> write_byte m (ptr + i) v;
     memset_loop m ptr v (Suc i) n }"

definition memset :: "bytemem \<Rightarrow> nat \<Rightarrow> u8 \<Rightarrow> usize \<Rightarrow> bytemem option" where
  "memset m ptr v len = memset_loop m ptr v 0 len"

fun memcpy_loop :: "bytemem \<Rightarrow> nat \<Rightarrow> nat \<Rightarrow> nat \<Rightarrow> nat \<Rightarrow> bytemem option" where
  "memcpy_loop m dst src i 0 = Some m"
| "memcpy_loop m dst src i (Suc n) = do {
     v \<leftarrow> m (src + i);
     m \<leftarrow> write_byte m (dst + i) v;
     memcpy_loop m dst src (Suc i) n }"

definition memcpy :: "bytemem \<Rightarrow> nat \<Rightarrow> nat \<Rightarrow> usize \<Rightarrow> bytemem option" where
  "memcpy m dst src len = memcpy_loop m dst src 0 len"

subsection \<open>MMIO\<close>

text \<open>An MMIO area is a base pointer; \<open>read\<close> and \<open>write\<close> access the device at the base plus the
  byte offset of the register.  The device is outside the program: its reads and writes are
  the functions \<open>rd\<close> and \<open>wr\<close> on its state.\<close>

record MmioArea =
  mmio_base :: usize

definition mmio_new :: "usize \<Rightarrow> MmioArea" where
  "mmio_new base = \<lparr> mmio_base = base \<rparr>"

definition mmio_read :: "('d \<Rightarrow> usize \<Rightarrow> 'v) \<Rightarrow> 'd \<Rightarrow> MmioArea \<Rightarrow> usize \<Rightarrow> 'v" where
  "mmio_read rd d area off = rd d (mmio_base area + off)"

definition mmio_write :: "('d \<Rightarrow> usize \<Rightarrow> 'v \<Rightarrow> 'd) \<Rightarrow> 'd \<Rightarrow> MmioArea \<Rightarrow> usize \<Rightarrow> 'v \<Rightarrow> 'd" where
  "mmio_write wr d area off v = wr d (mmio_base area + off) v"

definition mmio_change_base :: "MmioArea \<Rightarrow> usize \<Rightarrow> MmioArea" where
  "mmio_change_base area ptr = area \<lparr> mmio_base := ptr \<rparr>"

text \<open>\<open>MmioCell\<close>: a single register at the base.\<close>

definition mmio_cell_read :: "('d \<Rightarrow> usize \<Rightarrow> 'v) \<Rightarrow> 'd \<Rightarrow> MmioArea \<Rightarrow> 'v" where
  "mmio_cell_read rd d cell = rd d (mmio_base cell)"

definition mmio_cell_write :: "('d \<Rightarrow> usize \<Rightarrow> 'v \<Rightarrow> 'd) \<Rightarrow> 'd \<Rightarrow> MmioArea \<Rightarrow> 'v \<Rightarrow> 'd" where
  "mmio_cell_write wr d cell v = wr d (mmio_base cell) v"

subsection \<open>Lemmas\<close>

lemma memset_loop_spec:
  assumes "{ptr + i..<ptr + i + n} \<subseteq> dom m"
  shows "\<exists>m'. memset_loop m ptr v i n = Some m' \<and> dom m' = dom m
    \<and> (\<forall>q. m' q = (if ptr + i \<le> q \<and> q < ptr + i + n then Some v else m q))"
  using assms
proof (induction n arbitrary: m i)
  case (Suc n)
  let ?m = "m(ptr + i \<mapsto> v)"
  have in_dom: "ptr + i \<in> dom m" using Suc.prems by (auto simp: subset_iff)
  then have d: "dom ?m = dom m" by auto
  have "{ptr + Suc i..<ptr + Suc i + n} \<subseteq> dom ?m" using Suc.prems d by (auto simp: subset_iff)
  then obtain m' where m': "memset_loop ?m ptr v (Suc i) n = Some m'" "dom m' = dom ?m"
    "\<forall>q. m' q = (if ptr + Suc i \<le> q \<and> q < ptr + Suc i + n then Some v else ?m q)"
    using Suc.IH by blast
  then have "\<forall>q. m' q = (if ptr + i \<le> q \<and> q < ptr + i + Suc n then Some v else m q)" by auto
  with m' d in_dom show ?case by (simp add: write_byte_def)
qed auto

lemma memcpy_loop_spec:
  assumes "{src + i..<src + i + n} \<subseteq> dom m" and "{dst + i..<dst + i + n} \<subseteq> dom m"
    and "{src + i..<src + i + n} \<inter> {dst + i..<dst + i + n} = {}"
  shows "\<exists>m'. memcpy_loop m dst src i n = Some m' \<and> dom m' = dom m
    \<and> (\<forall>q. m' q = (if dst + i \<le> q \<and> q < dst + i + n then m (src + (q - dst)) else m q))"
  using assms
proof (induction n arbitrary: m i)
  case (Suc n)
  from Suc.prems(1) obtain v where v: "m (src + i) = Some v" by (fastforce simp: subset_iff)
  let ?m = "m(dst + i \<mapsto> v)"
  have in_dom: "dst + i \<in> dom m" using Suc.prems by (auto simp: subset_iff)
  then have d: "dom ?m = dom m" by auto
  have sub: "{p + Suc i..<p + Suc i + n} \<subseteq> {p + i..<p + i + Suc n}" for p by auto
  have "{src + Suc i..<src + Suc i + n} \<subseteq> dom ?m" "{dst + Suc i..<dst + Suc i + n} \<subseteq> dom ?m"
    "{src + Suc i..<src + Suc i + n} \<inter> {dst + Suc i..<dst + Suc i + n} = {}"
    using Suc.prems sub [of src] sub [of dst] unfolding d by blast+
  then obtain m' where m': "memcpy_loop ?m dst src (Suc i) n = Some m'" "dom m' = dom ?m"
    "\<forall>q. m' q = (if dst + Suc i \<le> q \<and> q < dst + Suc i + n then ?m (src + (q - dst)) else ?m q)"
    using Suc.IH by blast
  have "m' q = (if dst + i \<le> q \<and> q < dst + i + Suc n then m (src + (q - dst)) else m q)" for q
  proof -
    have "src + (q - dst) \<noteq> dst + i" if "dst + Suc i \<le> q" "q < dst + Suc i + n"
    proof
      assume "src + (q - dst) = dst + i"
      moreover have "src + (q - dst) \<in> {src + i..<src + i + Suc n}" using that by auto
      moreover have "dst + i \<in> {dst + i..<dst + i + Suc n}" by simp
      ultimately show False using Suc.prems(3) by (metis disjoint_iff)
    qed
    then show ?thesis using m'(3) v by auto
  qed
  with m' d in_dom v show ?case by (simp add: write_byte_def)
qed auto

subsection \<open>Properties\<close>

text \<open>translating an address of the direct map forth and back is the identity, without a
  panic whenever the translation does not overflow.\<close>

theorem hhdm_round_trip:
  assumes "a + hhdm < USIZE_LIM"
  shows "\<exists>v. add_hhdm_offset hhdm a = Some v \<and> subtract_hhdm_offset hhdm v = Some a"
  using assms by (simp add: add_hhdm_offset_def subtract_hhdm_offset_def uadd_def)

theorem hhdm_round_trip_witness:
  "\<exists>v. add_hhdm_offset 0xffff800000000000 0x1000 = Some v
    \<and> subtract_hhdm_offset 0xffff800000000000 v = Some 0x1000"
  using hhdm_round_trip [of "0x1000" "0xffff800000000000"] by (simp add: USIZE_LIM_def)

text \<open>on mapped, non-overlapping ranges \<open>memcpy\<close> ends without a fault, copies every byte of
  the source to the corresponding byte of the destination and changes nothing else; \<open>memset\<close>
  fills exactly its range.\<close>

theorem memcpy_memset_correct:
  assumes "{src..<src + n} \<subseteq> dom m" and "{dst..<dst + n} \<subseteq> dom m" and "{src..<src + n} \<inter> {dst..<dst + n} = {}"
  shows "(\<exists>m'. memcpy m dst src n = Some m' \<and> (\<forall>k < n. m' (dst + k) = m (src + k))
        \<and> (\<forall>q. q \<notin> {dst..<dst + n} \<longrightarrow> m' q = m q))
    \<and> (\<exists>m'. memset m dst v n = Some m' \<and> (\<forall>k < n. m' (dst + k) = Some v)
        \<and> (\<forall>q. q \<notin> {dst..<dst + n} \<longrightarrow> m' q = m q))"
proof
  obtain m' where m': "memcpy m dst src n = Some m'"
    "\<forall>q. m' q = (if dst \<le> q \<and> q < dst + n then m (src + (q - dst)) else m q)"
    using memcpy_loop_spec [of src 0 n m dst] assms by (auto simp: memcpy_def)
  then show "\<exists>m'. memcpy m dst src n = Some m' \<and> (\<forall>k < n. m' (dst + k) = m (src + k))
      \<and> (\<forall>q. q \<notin> {dst..<dst + n} \<longrightarrow> m' q = m q)" by simp
  obtain m'' where m'': "memset m dst v n = Some m''"
    "\<forall>q. m'' q = (if dst \<le> q \<and> q < dst + n then Some v else m q)"
    using memset_loop_spec [of dst 0 n m v] assms by (auto simp: memset_def)
  then show "\<exists>m'. memset m dst v n = Some m' \<and> (\<forall>k < n. m' (dst + k) = Some v)
      \<and> (\<forall>q. q \<notin> {dst..<dst + n} \<longrightarrow> m' q = m q)" by simp
qed

theorem memcpy_memset_correct_witness:
  "\<exists>m'. memcpy [0 \<mapsto> 7, 1 \<mapsto> 8, 2 \<mapsto> 0, 3 \<mapsto> 0] 2 0 2 = Some m' \<and> m' 2 = Some 7 \<and> m' 3 = Some 8"
proof -
  let ?m = "[0 \<mapsto> 7, 1 \<mapsto> 8, 2 \<mapsto> 0, 3 \<mapsto> 0] :: bytemem"
  have "{0..<0 + 2} \<subseteq> dom ?m" "{2..<2 + 2} \<subseteq> dom ?m" by auto
  moreover have "{0..<0 + 2} \<inter> {2..<2 + 2} = ({} :: nat set)" by auto
  ultimately obtain m' where
    m': "memcpy ?m 2 0 2 = Some m'" "\<forall>k < 2. m' (2 + k) = ?m (0 + k)"
    using memcpy_memset_correct [THEN conjunct1] by blast
  from m'(2) [rule_format, of 0] m'(2) [rule_format, of 1] m'(1) show ?thesis by simp
qed

end
