(* ===== verification/Slab.thy ===== *)
theory Slab
  imports Mem_Addr
begin

text \<open>
  The slab allocator of \<open>slab/src/internal.rs\<close>.  The intrusive lists it uses appear by their
  contents: the free list of a slab is the sequence of the addresses of its free objects (a
  \<open>StackList\<close>), the slabs are a sequence (a \<open>LinkedList\<close>); theories \<open>StackList\<close> and
  \<open>LinkedList\<close> show that the pointer-level lists implement these sequences.  The paging
  functions that supply and take back pages are parameters \<open>ap\<close> and \<open>fp\<close> of the operations
  that call them.
\<close>

subsection \<open>Data\<close>

record Layout =
  ly_size :: usize
  ly_align :: usize

datatype SlabError = BadPtrRange | DoubleFree | SlabFullInternalError | SlabPagingError | InvalidLayout

record Slab =
  sb_buffer :: nat
  sb_free_objects :: "nat list"
  sb_allocated_count :: usize
  sb_capacity :: usize

record InternalSlabAllocator =
  sa_slabs :: "Slab list"
  sa_page_count :: usize
  sa_object_count :: usize
  sa_layout :: Layout

text \<open>Sizes on the target: an object node is one pointer; a slab node holds the slab (five words)
  and two pointers.\<close>

definition OBJECT_NODE_SIZE :: usize where
  "OBJECT_NODE_SIZE = 8"

definition OBJECT_NODE_ALIGN :: usize where
  "OBJECT_NODE_ALIGN = 8"

definition SLAB_NODE_SIZE :: usize where
  "SLAB_NODE_SIZE = 56"

definition SLAB_NODE_ALIGN :: usize where
  "SLAB_NODE_ALIGN = 8"

definition PAGE_SIZE :: usize where
  "PAGE_SIZE = 4096"

text \<open>\<open>is_aligned_to\<close> panics unless the alignment is a power of two.\<close>

definition is_aligned_to :: "nat \<Rightarrow> usize \<Rightarrow> bool option" where
  "is_aligned_to p align = (if is_power_of_two align then Some (p mod align = 0) else None)"

subsection \<open>Construction\<close>

definition adjust_layout :: "Layout \<Rightarrow> Layout" where
  "adjust_layout layout =
     (let size = (if OBJECT_NODE_SIZE < ly_size layout then ly_size layout else OBJECT_NODE_SIZE);
          align = (if OBJECT_NODE_ALIGN < ly_align layout then ly_align layout else OBJECT_NODE_ALIGN)
      in \<lparr> ly_size = size, ly_align = align \<rparr>)"

definition calculate_object_count :: "Layout \<Rightarrow> usize \<Rightarrow> usize option" where
  "calculate_object_count layout page_count = do {
     total_size \<leftarrow> umul page_count PAGE_SIZE;
     let metadata_size = SLAB_NODE_SIZE;
     available_for_objects \<leftarrow> usub total_size metadata_size;
     let alignment_waste = available_for_objects mod SLAB_NODE_ALIGN;
     usable_space \<leftarrow> usub available_for_objects alignment_waste;
     udiv usable_space (ly_size layout) }"

definition slab_allocator_new :: "Layout \<Rightarrow> InternalSlabAllocator option" where
  "slab_allocator_new layout = do {
     let adjusted_layout = adjust_layout layout;
     let page_count = 1;
     object_count \<leftarrow> calculate_object_count adjusted_layout page_count;
     Some \<lparr> sa_slabs = [], sa_page_count = page_count, sa_object_count = object_count, sa_layout = adjusted_layout \<rparr> }"

text \<open>\<open>align_up\<close>: the mask is applied to the 64-bit representation.\<close>

definition align_up :: "usize \<Rightarrow> usize \<Rightarrow> usize option" where
  "align_up value align = do {
     a \<leftarrow> uadd value align;
     x \<leftarrow> usub a 1;
     m \<leftarrow> usub align 1;
     Some (unat ((of_nat x :: u64) AND NOT (of_nat m))) }"

subsection \<open>One slab\<close>

fun slab_new_loop :: "nat \<Rightarrow> Layout \<Rightarrow> nat list \<Rightarrow> nat list \<Rightarrow> (SlabError + nat list) option" where
  "slab_new_loop buffer layout free_objects [] = Some (Ok free_objects)"
| "slab_new_loop buffer layout free_objects (i # is) = do {
     offset \<leftarrow> umul i (ly_size layout);
     let object_ptr = buffer + offset;
     aligned \<leftarrow> is_aligned_to object_ptr (ly_align layout);
     if \<not> aligned then Some (Err InvalidLayout)
     else slab_new_loop buffer layout (object_ptr # free_objects) is }"

definition slab_new :: "nat \<Rightarrow> usize \<Rightarrow> Layout \<Rightarrow> (SlabError + Slab) option" where
  "slab_new buffer capacity layout = do {
     r \<leftarrow> slab_new_loop buffer layout [] [0..<capacity];
     (case r of
        Inl e \<Rightarrow> Some (Err e)
      | Inr free_objects \<Rightarrow> Some (Ok \<lparr> sb_buffer = buffer, sb_free_objects = free_objects,
          sb_allocated_count = 0, sb_capacity = capacity \<rparr>)) }"

definition slab_contains_ptr :: "Slab \<Rightarrow> nat \<Rightarrow> Layout \<Rightarrow> bool option" where
  "slab_contains_ptr s ptr layout = do {
     n \<leftarrow> umul (sb_capacity s) (ly_size layout);
     buffer_end \<leftarrow> uadd (sb_buffer s) n;
     Some (sb_buffer s \<le> ptr \<and> ptr < buffer_end) }"

definition slab_is_empty :: "Slab \<Rightarrow> bool" where
  "slab_is_empty s \<longleftrightarrow> sb_allocated_count s = 0"

definition slab_allocate :: "Slab \<Rightarrow> Layout \<Rightarrow> ((SlabError + nat) \<times> Slab) option" where
  "slab_allocate s layout = (case sb_free_objects s of
     [] \<Rightarrow> Some (Err SlabFullInternalError, s)
   | ptr # rest \<Rightarrow> do {
       n \<leftarrow> uadd (sb_allocated_count s) 1;
       let s = s \<lparr> sb_free_objects := rest, sb_allocated_count := n \<rparr>;
       aligned \<leftarrow> is_aligned_to ptr (ly_align layout);
       if \<not> aligned then Some (Err InvalidLayout, s)
       else Some (Ok ptr, s) })"

definition slab_free :: "Slab \<Rightarrow> nat \<Rightarrow> Layout \<Rightarrow> ((SlabError + unit) \<times> Slab) option" where
  "slab_free s ptr layout = do {
     offset \<leftarrow> usub ptr (sb_buffer s);
     r \<leftarrow> umod offset (ly_size layout);
     if r \<noteq> 0 then Some (Err BadPtrRange, s)
     else if ptr \<in> set (sb_free_objects s) then Some (Err DoubleFree, s)
     else Some (Ok (), s \<lparr> sb_free_objects := ptr # sb_free_objects s,
                           sb_allocated_count := sb_allocated_count s - 1 \<rparr>) }"

subsection \<open>The allocator\<close>

text \<open>\<open>for slab in self.slabs.iter_mut()\<close>: the first slab that yields an object; the slabs before
  it keep whatever their failed attempt did to them.\<close>

fun slabs_allocate :: "Slab list \<Rightarrow> Layout \<Rightarrow> (nat option \<times> Slab list) option" where
  "slabs_allocate [] layout = Some (None, [])"
| "slabs_allocate (s # ss) layout = do {
     (r, s') \<leftarrow> slab_allocate s layout;
     (case r of
        Inr ptr \<Rightarrow> Some (Some ptr, s' # ss)
      | Inl _ \<Rightarrow> do {
          (q, ss') \<leftarrow> slabs_allocate ss layout;
          Some (q, s' # ss') }) }"

fun slabs_free :: "Slab list \<Rightarrow> nat \<Rightarrow> Layout \<Rightarrow> ((SlabError + unit) \<times> Slab list) option" where
  "slabs_free [] ptr layout = Some (Err BadPtrRange, [])"
| "slabs_free (s # ss) ptr layout = do {
     c \<leftarrow> slab_contains_ptr s ptr layout;
     if c then do {
       (r, s') \<leftarrow> slab_free s ptr layout;
       Some (r, s' # ss) }
     else do {
       (r, ss') \<leftarrow> slabs_free ss ptr layout;
       Some (r, s # ss') } }"

type_synonym ('m, 'e) page_alloc = "'m \<Rightarrow> usize \<Rightarrow> (('e + nat) \<times> 'm) option"
type_synonym ('m, 'e) page_free = "'m \<Rightarrow> nat \<Rightarrow> usize \<Rightarrow> (('e + unit) \<times> 'm) option"

definition slab_grow :: "('m, 'e) page_alloc \<Rightarrow> InternalSlabAllocator \<Rightarrow> 'm
    \<Rightarrow> ((SlabError + unit) \<times> InternalSlabAllocator \<times> 'm) option" where
  "slab_grow ap a m = do {
     (pages, m) \<leftarrow> ap m (sa_page_count a);
     (case pages of
        Inl _ \<Rightarrow> Some (Err SlabPagingError, a, m)
      | Inr buffer \<Rightarrow> do {
          objects_size \<leftarrow> umul (sa_object_count a) (ly_size (sa_layout a));
          metadata_offset \<leftarrow> align_up objects_size SLAB_NODE_ALIGN;
          metadata_end \<leftarrow> uadd metadata_offset SLAB_NODE_SIZE;
          total \<leftarrow> umul (sa_page_count a) PAGE_SIZE;
          _ \<leftarrow> ensure (metadata_end \<le> total);
          r \<leftarrow> slab_new buffer (sa_object_count a) (sa_layout a);
          (case r of
             Inl e \<Rightarrow> Some (Err e, a, m)
           | Inr slab \<Rightarrow> Some (Ok (), a \<lparr> sa_slabs := sa_slabs a @ [slab] \<rparr>, m)) }) }"

definition slab_alloc :: "('m, 'e) page_alloc \<Rightarrow> InternalSlabAllocator \<Rightarrow> 'm
    \<Rightarrow> ((SlabError + nat) \<times> InternalSlabAllocator \<times> 'm) option" where
  "slab_alloc ap a m = do {
     (q, ss) \<leftarrow> slabs_allocate (sa_slabs a) (sa_layout a);
     let a = a \<lparr> sa_slabs := ss \<rparr>;
     (case q of
        Some ptr \<Rightarrow> Some (Ok ptr, a, m)
      | None \<Rightarrow> do {
          (g, a, m) \<leftarrow> slab_grow ap a m;
          (case g of
             Inl e \<Rightarrow> Some (Err e, a, m)
           | Inr _ \<Rightarrow>
               if sa_slabs a = [] then Some (Err SlabFullInternalError, a, m)
               else do {
                 (r, s) \<leftarrow> slab_allocate (last (sa_slabs a)) (sa_layout a);
                 let a = a \<lparr> sa_slabs := butlast (sa_slabs a) @ [s] \<rparr>;
                 (case r of
                    Inr ptr \<Rightarrow> Some (Ok ptr, a, m)
                  | Inl _ \<Rightarrow> Some (Err SlabFullInternalError, a, m)) }) }) }"

definition slab_dealloc :: "InternalSlabAllocator \<Rightarrow> nat \<Rightarrow> ((SlabError + unit) \<times> InternalSlabAllocator) option" where
  "slab_dealloc a ptr = do {
     aligned \<leftarrow> is_aligned_to ptr (ly_align (sa_layout a));
     if \<not> aligned then Some (Err BadPtrRange, a)
     else do {
       (r, ss) \<leftarrow> slabs_free (sa_slabs a) ptr (sa_layout a);
       Some (r, a \<lparr> sa_slabs := ss \<rparr>) } }"

fun slab_reap_loop :: "('m, 'e) page_free \<Rightarrow> usize \<Rightarrow> Slab list \<Rightarrow> 'm \<Rightarrow> (nat \<times> Slab list \<times> 'm) option" where
  "slab_reap_loop fp page_count [] m = Some (0, [], m)"
| "slab_reap_loop fp page_count (s # ss) m =
     (if slab_is_empty s then do {
        _ \<leftarrow> ensure (sb_buffer s mod PAGE_SIZE = 0);
        (r, m) \<leftarrow> fp m (sb_buffer s) page_count;
        _ \<leftarrow> unwrap_ok r;
        (n, ss', m) \<leftarrow> slab_reap_loop fp page_count ss m;
        Some (Suc n, ss', m) }
      else Some (0, s # ss, m))"

definition slab_reap :: "('m, 'e) page_free \<Rightarrow> InternalSlabAllocator \<Rightarrow> 'm \<Rightarrow> (nat \<times> InternalSlabAllocator \<times> 'm) option" where
  "slab_reap fp a m = do {
     (n, ss, m) \<leftarrow> slab_reap_loop fp (sa_page_count a) (sa_slabs a) m;
     Some (n, a \<lparr> sa_slabs := ss \<rparr>, m) }"

text \<open>\<open>drop\<close>: reap, note whether objects are still allocated, free the rest, and panic on leaks.\<close>

fun slab_force_free :: "('m, 'e) page_free \<Rightarrow> usize \<Rightarrow> Slab list \<Rightarrow> 'm \<Rightarrow> 'm option" where
  "slab_force_free fp page_count [] m = Some m"
| "slab_force_free fp page_count (s # ss) m = do {
     (r, m) \<leftarrow> fp m (sb_buffer s) page_count;
     _ \<leftarrow> unwrap_ok r;
     slab_force_free fp page_count ss m }"

definition slab_drop :: "('m, 'e) page_free \<Rightarrow> InternalSlabAllocator \<Rightarrow> 'm \<Rightarrow> 'm option" where
  "slab_drop fp a m = do {
     (_, a, m) \<leftarrow> slab_reap fp a m;
     let has_leaks = (\<exists>s \<in> set (sa_slabs a). \<not> slab_is_empty s);
     m \<leftarrow> slab_force_free fp (sa_page_count a) (sa_slabs a) m;
     _ \<leftarrow> ensure (\<not> has_leaks);
     Some m }"

subsection \<open>Invariant\<close>

text \<open>A layout the allocator can serve: the size is a positive multiple of the alignment, and the
  alignment a power of two of at most a page.\<close>

definition layout_ok :: "Layout \<Rightarrow> bool" where
  "layout_ok L \<longleftrightarrow> is_power_of_two (ly_align L) \<and> ly_align L dvd ly_size L \<and> ly_align L dvd PAGE_SIZE
     \<and> OBJECT_NODE_ALIGN dvd ly_align L \<and> 0 < ly_size L"

definition slab_objs :: "Layout \<Rightarrow> Slab \<Rightarrow> nat set" where
  "slab_objs L s = (\<lambda>i. sb_buffer s + i * ly_size L) ` {..<sb_capacity s}"

definition slab_live :: "Layout \<Rightarrow> Slab \<Rightarrow> nat set" where
  "slab_live L s = slab_objs L s - set (sb_free_objects s)"

definition page_ok :: "nat \<Rightarrow> bool" where
  "page_ok b \<longleftrightarrow> 0 < b \<and> PAGE_SIZE dvd b \<and> b + PAGE_SIZE < USIZE_LIM"

definition slab_ok :: "Layout \<Rightarrow> Slab \<Rightarrow> bool" where
  "slab_ok L s \<longleftrightarrow> page_ok (sb_buffer s)
     \<and> sb_capacity s * ly_size L + SLAB_NODE_SIZE \<le> PAGE_SIZE
     \<and> distinct (sb_free_objects s) \<and> set (sb_free_objects s) \<subseteq> slab_objs L s
     \<and> sb_allocated_count s + length (sb_free_objects s) = sb_capacity s"

definition slabs_ok :: "Layout \<Rightarrow> Slab list \<Rightarrow> bool" where
  "slabs_ok L ss \<longleftrightarrow> (\<forall>s \<in> set ss. slab_ok L s) \<and> distinct (map sb_buffer ss)"

definition slabs_live :: "Layout \<Rightarrow> Slab list \<Rightarrow> nat set" where
  "slabs_live L ss = (\<Union>s \<in> set ss. slab_live L s)"

definition slabs_objs :: "Layout \<Rightarrow> Slab list \<Rightarrow> nat set" where
  "slabs_objs L ss = (\<Union>s \<in> set ss. slab_objs L s)"

definition allocator_ok :: "InternalSlabAllocator \<Rightarrow> bool" where
  "allocator_ok a \<longleftrightarrow> layout_ok (sa_layout a) \<and> sa_page_count a = 1
     \<and> calculate_object_count (sa_layout a) 1 = Some (sa_object_count a)
     \<and> slabs_ok (sa_layout a) (sa_slabs a) \<and> (\<forall>s \<in> set (sa_slabs a). sb_capacity s = sa_object_count a)"

lemmas slab_sizes = OBJECT_NODE_SIZE_def OBJECT_NODE_ALIGN_def SLAB_NODE_SIZE_def SLAB_NODE_ALIGN_def PAGE_SIZE_def

lemma USIZE_LIM_large: "n \<le> 18446744073709551615 \<Longrightarrow> n < USIZE_LIM"
  by (simp add: USIZE_LIM_def)

subsection \<open>Facts about one slab\<close>

lemma object_count_bound:
  assumes "calculate_object_count L 1 = Some n"
  shows "n * ly_size L \<le> 4040" and "0 < ly_size L" and "n = 4040 div ly_size L"
proof -
  have "udiv 4040 (ly_size L) = Some n"
    using assms by (simp add: calculate_object_count_def umul_def USIZE_LIM_def slab_sizes usub_def Let_def)
  then show "0 < ly_size L" and n: "n = 4040 div ly_size L" by auto
  show "n * ly_size L \<le> 4040" unfolding n by (simp add: mult.commute)
qed

lemma slab_obj_bounds:
  assumes "slab_ok L s" and "p \<in> slab_objs L s"
  shows "sb_buffer s \<le> p" and "p + ly_size L + SLAB_NODE_SIZE \<le> sb_buffer s + PAGE_SIZE"
proof -
  from assms(2) obtain i where i: "i < sb_capacity s" "p = sb_buffer s + i * ly_size L"
    by (auto simp: slab_objs_def)
  then show "sb_buffer s \<le> p" by simp
  have "Suc i * ly_size L \<le> sb_capacity s * ly_size L"
    using i by (intro mult_le_mono1) simp
  with assms(1) i show "p + ly_size L + SLAB_NODE_SIZE \<le> sb_buffer s + PAGE_SIZE"
    by (simp add: slab_ok_def)
qed

lemma slab_obj_disjoint:
  assumes "p \<in> slab_objs L s" and "q \<in> slab_objs L s" and "p \<noteq> q"
  shows "p + ly_size L \<le> q \<or> q + ly_size L \<le> p"
proof -
  from assms obtain i j where ij: "p = sb_buffer s + i * ly_size L" "q = sb_buffer s + j * ly_size L" "i \<noteq> j"
    by (auto simp: slab_objs_def)
  from \<open>i \<noteq> j\<close> have "Suc i * ly_size L \<le> j * ly_size L \<or> Suc j * ly_size L \<le> i * ly_size L"
    by (meson mult_le_mono1 not_less_eq_eq nat_le_linear le_antisym)
  with ij show ?thesis by auto
qed

lemma slab_obj_aligned:
  assumes "layout_ok L" and "slab_ok L s" and "p \<in> slab_objs L s"
  shows "is_aligned_to p (ly_align L) = Some True"
proof -
  from assms(3) obtain i where "p = sb_buffer s + i * ly_size L" by (auto simp: slab_objs_def)
  moreover from assms have "ly_align L dvd sb_buffer s"
    by (auto simp: layout_ok_def slab_ok_def page_ok_def intro: dvd_trans)
  ultimately have "ly_align L dvd p" using assms(1) by (simp add: layout_ok_def)
  with assms(1) show ?thesis by (simp add: is_aligned_to_def layout_ok_def dvd_eq_mod_eq_0)
qed

lemma card_slab_objs:
  assumes "0 < ly_size L"
  shows "card (slab_objs L s) = sb_capacity s" and "finite (slab_objs L s)"
  using assms by (auto simp: slab_objs_def inj_on_def intro: trans [OF card_image])

lemma slab_is_empty_iff:
  assumes "layout_ok L" and "slab_ok L s"
  shows "slab_is_empty s \<longleftrightarrow> slab_live L s = {}"
proof -
  from assms have size: "0 < ly_size L" by (simp add: layout_ok_def)
  note objs = card_slab_objs [OF size, of s]
  from assms(2) have sub: "set (sb_free_objects s) \<subseteq> slab_objs L s" and
    len: "sb_allocated_count s + card (set (sb_free_objects s)) = sb_capacity s"
    by (auto simp: slab_ok_def distinct_card)
  have "slab_live L s = {} \<longleftrightarrow> set (sb_free_objects s) = slab_objs L s"
    using sub by (auto simp: slab_live_def)
  also have "\<dots> \<longleftrightarrow> card (set (sb_free_objects s)) = card (slab_objs L s)"
    using sub objs(2) by (metis card_subset_eq)
  also have "\<dots> \<longleftrightarrow> slab_is_empty s" using len objs(1) by (auto simp: slab_is_empty_def)
  finally show ?thesis by simp
qed

subsection \<open>Operations on one slab\<close>

lemma slab_new_loop_ok:
  assumes "\<forall>i \<in> set is. i * ly_size L < USIZE_LIM \<and> is_aligned_to (b + i * ly_size L) (ly_align L) = Some True"
  shows "slab_new_loop b L acc is = Some (Ok (rev (map (\<lambda>i. b + i * ly_size L) is) @ acc))"
  using assms by (induction "is" arbitrary: acc) (simp_all add: umul_ok)

lemma slab_new_ok:
  assumes L: "layout_ok L" and b: "page_ok b" and cap: "cap * ly_size L + SLAB_NODE_SIZE \<le> PAGE_SIZE"
  obtains s where "slab_new b cap L = Some (Ok s)" and "slab_ok L s" and "sb_buffer s = b"
    and "sb_capacity s = cap" and "slab_live L s = {}" and "slab_is_empty s"
    and "set (sb_free_objects s) = slab_objs L s"
proof -
  define f where "f = (\<lambda>i. b + i * ly_size L)"
  define s where "s = \<lparr> sb_buffer = b, sb_free_objects = rev (map f [0..<cap]), sb_allocated_count = 0,
    sb_capacity = cap \<rparr>"
  have objs: "set (sb_free_objects s) = slab_objs L s"
    by (auto simp: s_def slab_objs_def f_def)
  have inj: "inj f" using L by (auto simp: f_def inj_def layout_ok_def)
  then have ok: "slab_ok L s"
    using b cap objs by (auto simp: slab_ok_def s_def distinct_map intro: inj_on_subset)
  have "i * ly_size L < USIZE_LIM \<and> is_aligned_to (b + i * ly_size L) (ly_align L) = Some True" if "i < cap" for i
  proof -
    from that have "b + i * ly_size L \<in> slab_objs L s" by (auto simp: slab_objs_def s_def)
    from slab_obj_aligned [OF L ok this] slab_obj_bounds [OF ok this] b show ?thesis
      by (simp add: page_ok_def s_def)
  qed
  then have "slab_new b cap L = Some (Ok s)"
    by (simp add: slab_new_def slab_new_loop_ok s_def f_def)
  with ok objs show ?thesis
    by (intro that [of s]) (simp_all add: s_def slab_live_def slab_is_empty_def)
qed

lemma slab_allocate_full:
  "sb_free_objects s = [] \<Longrightarrow> slab_allocate s L = Some (Err SlabFullInternalError, s)"
  by (simp add: slab_allocate_def)

lemma slab_ok_count: "slab_ok L s \<Longrightarrow> 0 < ly_size L \<Longrightarrow> sb_capacity s \<le> PAGE_SIZE"
  by (simp add: slab_ok_def) (metis add_leD1 le_trans mult_le_mono2 nat_mult_1_right Suc_leI One_nat_def)

lemma slab_allocate_ok:
  assumes L: "layout_ok L" and ok: "slab_ok L s" and free: "sb_free_objects s = p # ps"
  obtains s' where "slab_allocate s L = Some (Ok p, s')" and "slab_ok L s'"
    and "sb_buffer s' = sb_buffer s" and "sb_capacity s' = sb_capacity s" and "slab_objs L s' = slab_objs L s"
    and "slab_live L s' = insert p (slab_live L s)" and "p \<notin> slab_live L s" and "p \<in> slab_objs L s"
proof -
  define s' where "s' = s \<lparr> sb_free_objects := ps, sb_allocated_count := sb_allocated_count s + 1 \<rparr>"
  have p: "p \<in> slab_objs L s" using ok free by (auto simp: slab_ok_def)
  have "sb_capacity s \<le> PAGE_SIZE" using L ok by (auto intro: slab_ok_count simp: layout_ok_def)
  then have "sb_allocated_count s + 1 < USIZE_LIM"
    using ok free by (simp add: slab_ok_def slab_sizes USIZE_LIM_def)
  then have "slab_allocate s L = Some (Ok p, s')"
    using slab_obj_aligned [OF L ok p] free by (simp add: slab_allocate_def uadd_ok Let_def s'_def)
  moreover have objs: "slab_objs L s' = slab_objs L s" by (simp add: slab_objs_def s'_def)
  moreover have "slab_ok L s'" using ok free objs by (auto simp: slab_ok_def s'_def)
  moreover have "slab_live L s' = insert p (slab_live L s)" "p \<notin> slab_live L s"
    using p objs ok free by (auto simp: slab_live_def s'_def slab_ok_def)
  ultimately show ?thesis using p by (intro that) (simp_all add: s'_def)
qed

lemma slab_contains_ptr_ok:
  assumes "slab_ok L s"
  shows "slab_contains_ptr s q L
    = Some (sb_buffer s \<le> q \<and> q < sb_buffer s + sb_capacity s * ly_size L)"
  using assms by (simp add: slab_contains_ptr_def slab_ok_def page_ok_def usize_simps)

lemma slab_free_cases:
  assumes L: "layout_ok L" and ok: "slab_ok L s"
    and q: "sb_buffer s \<le> q" "q < sb_buffer s + sb_capacity s * ly_size L"
  shows "q \<notin> slab_objs L s \<Longrightarrow> slab_free s q L = Some (Err BadPtrRange, s)"
    and "q \<in> slab_objs L s - slab_live L s \<Longrightarrow> slab_free s q L = Some (Err DoubleFree, s)"
    and "q \<in> slab_live L s \<Longrightarrow> \<exists>s'. slab_free s q L = Some (Ok (), s') \<and> slab_ok L s'
      \<and> sb_buffer s' = sb_buffer s \<and> sb_capacity s' = sb_capacity s
      \<and> slab_objs L s' = slab_objs L s \<and> slab_live L s' = slab_live L s - {q}"
proof -
  from L have size: "0 < ly_size L" by (simp add: layout_ok_def)
  define r where "r = (q - sb_buffer s) mod ly_size L"
  have r: "r = 0 \<longleftrightarrow> q \<in> slab_objs L s"
  proof
    assume "r = 0"
    then obtain i where i: "q - sb_buffer s = i * ly_size L"
      by (metis r_def dvd_def mod_eq_0_iff_dvd mult.commute)
    with q size have "i < sb_capacity s" by (metis add_diff_inverse_nat linorder_not_le mult_less_cancel2 nat_add_left_cancel_less)
    with i q show "q \<in> slab_objs L s" by (auto simp: slab_objs_def image_iff intro!: bexI [of _ i])
  qed (auto simp: r_def slab_objs_def)
  have step: "slab_free s q L = (if r \<noteq> 0 then Some (Err BadPtrRange, s)
     else if q \<in> set (sb_free_objects s) then Some (Err DoubleFree, s)
     else Some (Ok (), s \<lparr> sb_free_objects := q # sb_free_objects s,
                           sb_allocated_count := sb_allocated_count s - 1 \<rparr>))"
    using q size by (simp add: slab_free_def usize_simps r_def)
  show "q \<notin> slab_objs L s \<Longrightarrow> slab_free s q L = Some (Err BadPtrRange, s)" using step r by simp
  show "q \<in> slab_objs L s - slab_live L s \<Longrightarrow> slab_free s q L = Some (Err DoubleFree, s)"
    using step r by (simp add: slab_live_def)
  assume live: "q \<in> slab_live L s"
  define s' where "s' = s \<lparr> sb_free_objects := q # sb_free_objects s, sb_allocated_count := sb_allocated_count s - 1 \<rparr>"
  have objs: "slab_objs L s' = slab_objs L s" by (simp add: slab_objs_def s'_def)
  have "\<not> slab_is_empty s" using live slab_is_empty_iff [OF L ok] by blast
  then have "slab_ok L s'"
    using ok live objs by (auto simp: slab_ok_def s'_def slab_is_empty_def slab_live_def)
  moreover have "slab_free s q L = Some (Ok (), s')" using step r live by (simp add: slab_live_def s'_def)
  moreover have "slab_live L s' = slab_live L s - {q}" by (auto simp: slab_live_def objs) (auto simp: s'_def)
  ultimately show "\<exists>s'. slab_free s q L = Some (Ok (), s') \<and> slab_ok L s'
      \<and> sb_buffer s' = sb_buffer s \<and> sb_capacity s' = sb_capacity s
      \<and> slab_objs L s' = slab_objs L s \<and> slab_live L s' = slab_live L s - {q}"
    using objs by (intro exI [of _ s']) (simp add: s'_def)
qed

subsection \<open>Operations on the list of slabs\<close>

lemma slabs_ok_Cons [simp]:
  "slabs_ok L (s # ss) \<longleftrightarrow> slab_ok L s \<and> slabs_ok L ss \<and> sb_buffer s \<notin> sb_buffer ` set ss"
  by (auto simp: slabs_ok_def)

lemma slabs_ok_Nil [simp]: "slabs_ok L []"
  by (simp add: slabs_ok_def)

lemma slabs_live_simps [simp]:
  "slabs_live L [] = {}" "slabs_live L (s # ss) = slab_live L s \<union> slabs_live L ss"
  "slabs_objs L [] = {}" "slabs_objs L (s # ss) = slab_objs L s \<union> slabs_objs L ss"
  by (simp_all add: slabs_live_def slabs_objs_def)

lemma slabs_ok_snoc:
  "slabs_ok L (ss @ [s]) \<longleftrightarrow> slabs_ok L ss \<and> slab_ok L s \<and> sb_buffer s \<notin> sb_buffer ` set ss"
  by (auto simp: slabs_ok_def)

lemma slabs_live_append: "slabs_live L (ss @ ts) = slabs_live L ss \<union> slabs_live L ts"
  by (auto simp: slabs_live_def)

lemma slab_live_sub: "slab_live L s \<subseteq> slab_objs L s"
  by (auto simp: slab_live_def)

lemma slabs_live_sub: "slabs_live L ss \<subseteq> slabs_objs L ss"
  using slab_live_sub by (auto simp: slabs_live_def slabs_objs_def)

text \<open>Slabs of different pages have no byte in common.\<close>

lemma pages_apart:
  assumes "page_ok b" and "page_ok c" and "b \<noteq> c"
  shows "b + PAGE_SIZE \<le> c \<or> c + PAGE_SIZE \<le> b"
proof -
  from assms obtain i j where ij: "b = PAGE_SIZE * i" "c = PAGE_SIZE * j"
    by (auto simp: page_ok_def elim!: dvdE)
  with assms(3) have "Suc i \<le> j \<or> Suc j \<le> i" by auto
  then have "PAGE_SIZE * Suc i \<le> PAGE_SIZE * j \<or> PAGE_SIZE * Suc j \<le> PAGE_SIZE * i"
    using mult_le_mono2 by blast
  with ij show ?thesis by (simp add: add.commute)
qed

lemma slabs_apart:
  assumes "slab_ok L s" and "slab_ok L t" and "sb_buffer s \<noteq> sb_buffer t"
    and "p \<in> slab_objs L s" and "q \<in> slab_objs L t"
  shows "p + ly_size L \<le> q \<or> q + ly_size L \<le> p"
proof -
  have "sb_buffer s + PAGE_SIZE \<le> sb_buffer t \<or> sb_buffer t + PAGE_SIZE \<le> sb_buffer s"
    using assms by (intro pages_apart) (simp_all add: slab_ok_def)
  with slab_obj_bounds [OF assms(1,4)] slab_obj_bounds [OF assms(2,5)] show ?thesis by auto
qed

lemma slabs_objs_apart:
  assumes "slabs_ok L ss" and "p \<in> slabs_objs L ss" and "q \<in> slabs_objs L ss" and "p \<noteq> q"
  shows "p + ly_size L \<le> q \<or> q + ly_size L \<le> p"
proof -
  from assms obtain s t where st: "s \<in> set ss" "p \<in> slab_objs L s" "t \<in> set ss" "q \<in> slab_objs L t"
    by (auto simp: slabs_objs_def)
  show ?thesis
  proof (cases "s = t")
    case True
    with st assms show ?thesis by (intro slab_obj_disjoint) auto
  next
    case False
    with st assms(1) have "sb_buffer s \<noteq> sb_buffer t" by (auto simp: slabs_ok_def distinct_map dest: inj_onD)
    with st assms(1) show ?thesis by (intro slabs_apart) (auto simp: slabs_ok_def)
  qed
qed

lemma slabs_disjoint:
  assumes "0 < ly_size L" and "slabs_ok L (s # ss)"
  shows "slab_objs L s \<inter> slabs_objs L ss = {}"
proof -
  have "p \<noteq> q" if "p \<in> slab_objs L s" "t \<in> set ss" "q \<in> slab_objs L t" for p q t
    using slabs_apart [of L s t p q] that assms by (fastforce simp: slabs_ok_def)
  then show ?thesis by (auto simp: slabs_objs_def)
qed

lemma slabs_objs_other:
  assumes ok: "slabs_ok L (s # ss)"
    and q: "sb_buffer s \<le> q" "q < sb_buffer s + sb_capacity s * ly_size L"
  shows "q \<notin> slabs_objs L ss"
proof
  assume "q \<in> slabs_objs L ss"
  then obtain t where t: "t \<in> set ss" "q \<in> slab_objs L t" by (auto simp: slabs_objs_def)
  with ok have tok: "slab_ok L t" "sb_buffer s \<noteq> sb_buffer t" "slab_ok L s" by (auto simp: slabs_ok_def)
  then have "sb_buffer s + PAGE_SIZE \<le> sb_buffer t \<or> sb_buffer t + PAGE_SIZE \<le> sb_buffer s"
    by (intro pages_apart) (simp_all add: slab_ok_def)
  with q tok(3) slab_obj_bounds [OF tok(1) t(2)] show False by (auto simp: slab_ok_def slab_sizes)
qed

lemma slabs_allocate_ok:
  assumes L: "layout_ok L" and "slabs_ok L ss"
  shows "\<exists>q ss'. slabs_allocate ss L = Some (q, ss') \<and> slabs_ok L ss' \<and> map sb_buffer ss' = map sb_buffer ss
    \<and> map sb_capacity ss' = map sb_capacity ss \<and> slabs_objs L ss' = slabs_objs L ss
    \<and> (case q of Some p \<Rightarrow> p \<in> slabs_objs L ss \<and> p \<notin> slabs_live L ss \<and> slabs_live L ss' = insert p (slabs_live L ss)
       | None \<Rightarrow> ss' = ss \<and> (\<forall>s \<in> set ss. sb_free_objects s = []))"
  using assms(2)
proof (induction ss)
  case (Cons s ss)
  then have ok: "slab_ok L s" "slabs_ok L ss" "sb_buffer s \<notin> sb_buffer ` set ss" by simp_all
  from L have size: "0 < ly_size L" by (simp add: layout_ok_def)
  note dis = slabs_disjoint [OF size Cons.prems]
  show ?case
  proof (cases "sb_free_objects s")
    case Nil
    from Cons.IH [OF ok(2)] obtain q ss' where *: "slabs_allocate ss L = Some (q, ss')" "slabs_ok L ss'"
      "map sb_buffer ss' = map sb_buffer ss" "map sb_capacity ss' = map sb_capacity ss" "slabs_objs L ss' = slabs_objs L ss"
      "case q of Some p \<Rightarrow> p \<in> slabs_objs L ss \<and> p \<notin> slabs_live L ss \<and> slabs_live L ss' = insert p (slabs_live L ss)
       | None \<Rightarrow> ss' = ss \<and> (\<forall>s \<in> set ss. sb_free_objects s = [])"
      by blast
    from *(3) have "sb_buffer ` set ss' = sb_buffer ` set ss" by (metis list.set_map)
    with * ok dis slab_live_sub [of L s] show ?thesis
      by (auto simp: slab_allocate_full [OF Nil] Nil split: option.splits)
  next
    case (Cons p ps)
    from slab_allocate_ok [OF L ok(1) Cons] obtain s' where s': "slab_allocate s L = Some (Ok p, s')"
      "slab_ok L s'" "sb_buffer s' = sb_buffer s" "sb_capacity s' = sb_capacity s" "slab_objs L s' = slab_objs L s"
      "slab_live L s' = insert p (slab_live L s)" "p \<notin> slab_live L s" "p \<in> slab_objs L s" by metis
    with ok dis slabs_live_sub [of L ss] show ?thesis by auto
  qed
qed simp

lemma slabs_free_ok:
  assumes L: "layout_ok L" and "slabs_ok L ss"
  shows "\<exists>r ss'. slabs_free ss q L = Some (r, ss') \<and> slabs_ok L ss' \<and> map sb_buffer ss' = map sb_buffer ss
    \<and> map sb_capacity ss' = map sb_capacity ss \<and> slabs_objs L ss' = slabs_objs L ss
    \<and> (if q \<in> slabs_live L ss then r = Ok () \<and> slabs_live L ss' = slabs_live L ss - {q}
       else ss' = ss \<and> r = Err (if q \<in> slabs_objs L ss then DoubleFree else BadPtrRange))"
  using assms(2)
proof (induction ss)
  case (Cons s ss)
  then have ok: "slab_ok L s" "slabs_ok L ss" "sb_buffer s \<notin> sb_buffer ` set ss" by simp_all
  from L have size: "0 < ly_size L" by (simp add: layout_ok_def)
  note dis = slabs_disjoint [OF size Cons.prems]
  define inside where "inside \<longleftrightarrow> sb_buffer s \<le> q \<and> q < sb_buffer s + sb_capacity s * ly_size L"
  have c: "slab_contains_ptr s q L = Some inside" using ok by (simp add: slab_contains_ptr_ok inside_def)
  show ?case
  proof (cases inside)
    case True
    then have io: "sb_buffer s \<le> q" "q < sb_buffer s + sb_capacity s * ly_size L" by (simp_all add: inside_def)
    have out: "q \<notin> slabs_objs L ss" using slabs_objs_other [OF Cons.prems io] .
    note cs = slab_free_cases [OF L ok(1) io]
    consider "q \<notin> slab_objs L s" | "q \<in> slab_objs L s - slab_live L s" | "q \<in> slab_live L s"
      using slab_live_sub by blast
    then show ?thesis
    proof cases
      case 1
      with cs(1) c True ok out slabs_live_sub [of L ss] slab_live_sub [of L s] show ?thesis by auto
    next
      case 2
      with cs(2) c True ok out slabs_live_sub [of L ss] show ?thesis by auto
    next
      case 3
      from cs(3) [OF this] obtain s' where "slab_free s q L = Some (Ok (), s')" "slab_ok L s'"
        "sb_buffer s' = sb_buffer s" "sb_capacity s' = sb_capacity s" "slab_objs L s' = slab_objs L s"
        "slab_live L s' = slab_live L s - {q}" by blast
      with 3 c True ok out slabs_live_sub [of L ss] show ?thesis by auto
    qed
  next
    case False
    then have "q \<notin> slab_objs L s" using ok(1) size by (auto simp: inside_def slab_objs_def)
    moreover from Cons.IH [OF ok(2)] obtain r ss' where *: "slabs_free ss q L = Some (r, ss')" "slabs_ok L ss'"
      "map sb_buffer ss' = map sb_buffer ss" "map sb_capacity ss' = map sb_capacity ss" "slabs_objs L ss' = slabs_objs L ss"
      "if q \<in> slabs_live L ss then r = Ok () \<and> slabs_live L ss' = slabs_live L ss - {q}
       else ss' = ss \<and> r = Err (if q \<in> slabs_objs L ss then DoubleFree else BadPtrRange)" by blast
    moreover from *(3) have "sb_buffer ` set ss' = sb_buffer ` set ss" by (metis list.set_map)
    moreover have "q \<notin> slab_live L s" using \<open>q \<notin> slab_objs L s\<close> slab_live_sub by blast
    ultimately show ?thesis using c False ok by (auto split: if_splits)
  qed
qed simp

subsection \<open>The allocator\<close>

lemma align_up_pow2:
  assumes "v + 2 ^ k < USIZE_LIM"
  shows "align_up v (2 ^ k) = Some ((v + 2 ^ k - 1) div 2 ^ k * 2 ^ k)"
proof -
  have "unat ((of_nat (v + 2 ^ k - 1) :: u64) AND NOT (mask k)) = (v + 2 ^ k - 1) div 2 ^ k * 2 ^ k"
    using assms by (subst unat_and_not_mask) (simp add: unat_of_nat_u64)
  moreover have "(1::nat) \<le> v + 2 ^ k" by (metis add_leE one_le_numeral one_le_power trans_le_add2)
  ultimately show ?thesis
    using assms by (simp add: align_up_def usize_simps mask_eq_exp_minus_1)
qed

lemma round_up_multiple:
  fixes v d :: nat
  assumes "0 < d"
  shows "v \<le> (v + d - 1) div d * d" and "d dvd w \<Longrightarrow> v \<le> w \<Longrightarrow> (v + d - 1) div d * d \<le> w"
proof -
  have "(v + d - 1) div d * d + (v + d - 1) mod d = v + d - 1" by (rule div_mult_mod_eq)
  moreover have "(v + d - 1) mod d < d" using assms by simp
  ultimately show "v \<le> (v + d - 1) div d * d" by linarith
next
  assume "d dvd w" "v \<le> w"
  then have "(v + d - 1) div d \<le> (w + (d - 1)) div d" using assms by (intro div_le_mono) simp
  also have "\<dots> = w div d" using \<open>d dvd w\<close> assms by (simp only: div_plus_div_distrib_dvd_left) simp
  finally have "(v + d - 1) div d * d \<le> w div d * d" by (rule mult_le_mono1)
  with \<open>d dvd w\<close> show "(v + d - 1) div d * d \<le> w" by simp
qed

definition sa_live :: "InternalSlabAllocator \<Rightarrow> nat set" where
  "sa_live a = slabs_live (sa_layout a) (sa_slabs a)"

definition sa_pages :: "InternalSlabAllocator \<Rightarrow> nat set" where
  "sa_pages a = sb_buffer ` set (sa_slabs a)"

text \<open>No slab has a free object.\<close>

definition sa_full :: "InternalSlabAllocator \<Rightarrow> bool" where
  "sa_full a \<longleftrightarrow> (\<forall>s \<in> set (sa_slabs a). sb_free_objects s = [])"

text \<open>What the slab allocator relies on: a page that the source hands out is page aligned, not null
  and not one the allocator already holds.  The source may fail with an error or panic.\<close>

definition page_source_ok :: "('m, 'e) page_alloc \<Rightarrow> 'm \<Rightarrow> nat set \<Rightarrow> bool" where
  "page_source_ok ap m held \<longleftrightarrow> (\<forall>b m'. ap m 1 = Some (Ok b, m') \<longrightarrow> page_ok b \<and> b \<notin> held)"

text \<open>What it means that an allocator \<open>a\<close> has served the object at \<open>p\<close> and is then \<open>a'\<close>.\<close>

definition object_served :: "InternalSlabAllocator \<Rightarrow> nat \<Rightarrow> InternalSlabAllocator \<Rightarrow> bool" where
  "object_served a p a' \<longleftrightarrow> allocator_ok a' \<and> sa_layout a' = sa_layout a
     \<and> ly_align (sa_layout a) dvd p \<and> p \<notin> sa_live a \<and> sa_live a' = insert p (sa_live a)
     \<and> (\<forall>q \<in> sa_live a. p + ly_size (sa_layout a) \<le> q \<or> q + ly_size (sa_layout a) \<le> p)
     \<and> (\<exists>b \<in> sa_pages a'. b \<le> p \<and> p + ly_size (sa_layout a) + SLAB_NODE_SIZE \<le> b + PAGE_SIZE)"

lemma sa_obj_facts:
  assumes "allocator_ok a" and p: "p \<in> slabs_objs (sa_layout a) (sa_slabs a)"
  shows "is_aligned_to p (ly_align (sa_layout a)) = Some True"
    and "\<exists>b \<in> sa_pages a. b \<le> p \<and> p + ly_size (sa_layout a) + SLAB_NODE_SIZE \<le> b + PAGE_SIZE"
proof -
  from p obtain s where s: "s \<in> set (sa_slabs a)" "p \<in> slab_objs (sa_layout a) s" by (auto simp: slabs_objs_def)
  with assms have ok: "layout_ok (sa_layout a)" "slab_ok (sa_layout a) s" by (auto simp: allocator_ok_def slabs_ok_def)
  from slab_obj_aligned [OF ok s(2)] show "is_aligned_to p (ly_align (sa_layout a)) = Some True" .
  from slab_obj_bounds [OF ok(2) s(2)] s(1)
  show "\<exists>b \<in> sa_pages a. b \<le> p \<and> p + ly_size (sa_layout a) + SLAB_NODE_SIZE \<le> b + PAGE_SIZE"
    by (auto simp: sa_pages_def)
qed

lemma object_servedI:
  assumes "allocator_ok a'" and "sa_layout a' = sa_layout a" and "p \<notin> sa_live a" and "sa_live a' = insert p (sa_live a)"
    and "p \<in> slabs_objs (sa_layout a') (sa_slabs a')"
  shows "object_served a p a'"
proof -
  have "p + ly_size (sa_layout a) \<le> q \<or> q + ly_size (sa_layout a) \<le> p" if "q \<in> sa_live a" for q
  proof -
    from that assms(4) have "q \<in> slabs_objs (sa_layout a') (sa_slabs a')"
      using slabs_live_sub by (auto simp: sa_live_def)
    with slabs_objs_apart [of "sa_layout a'" "sa_slabs a'" p q] assms that show ?thesis
      by (auto simp: allocator_ok_def)
  qed
  moreover have "ly_align (sa_layout a) dvd p"
    using sa_obj_facts(1) [OF assms(1,5)] assms(2)
    by (simp add: is_aligned_to_def dvd_eq_mod_eq_0 split: if_splits)
  ultimately show ?thesis
    using assms sa_obj_facts(2) [OF assms(1,5)] by (simp add: object_served_def)
qed

lemma slab_grow_ok:
  assumes ok: "allocator_ok a" and ap: "ap m 1 = Some (Ok b, m')" and b: "page_ok b" "b \<notin> sa_pages a"
  obtains s where "slab_grow ap a m = Some (Ok (), a \<lparr> sa_slabs := sa_slabs a @ [s] \<rparr>, m')"
    and "allocator_ok (a \<lparr> sa_slabs := sa_slabs a @ [s] \<rparr>)" and "slab_live (sa_layout a) s = {}"
    and "sb_buffer s = b" and "slab_ok (sa_layout a) s" and "sb_capacity s = sa_object_count a"
    and "set (sb_free_objects s) = slab_objs (sa_layout a) s"
proof -
  let ?L = "sa_layout a" and ?n = "sa_object_count a"
  from ok have L: "layout_ok ?L" and cnt: "calculate_object_count ?L 1 = Some ?n" and pc: "sa_page_count a = 1"
    by (simp_all add: allocator_ok_def)
  note bound = object_count_bound [OF cnt]
  define off where "off = (?n * ly_size ?L + 8 - 1) div 8 * 8"
  have off: "off \<le> 4040" unfolding off_def using bound(1) by (intro round_up_multiple(2)) simp_all
  have lim: "n \<le> 5000 \<Longrightarrow> n < USIZE_LIM" for n by (simp add: USIZE_LIM_def)
  have al: "align_up (?n * ly_size ?L) SLAB_NODE_ALIGN = Some off"
    using align_up_pow2 [of "?n * ly_size ?L" 3] bound(1) lim by (simp add: slab_sizes off_def)
  from bound(1) have "?n * ly_size ?L + SLAB_NODE_SIZE \<le> PAGE_SIZE" by (simp add: slab_sizes)
  from slab_new_ok [OF L b(1) this] obtain s where s: "slab_new b ?n ?L = Some (Ok s)" "slab_ok ?L s" "sb_buffer s = b"
    "sb_capacity s = ?n" "slab_live ?L s = {}" "set (sb_free_objects s) = slab_objs ?L s" by metis
  have u: "umul ?n (ly_size ?L) = Some (?n * ly_size ?L)" "uadd off SLAB_NODE_SIZE = Some (off + SLAB_NODE_SIZE)"
    "umul 1 PAGE_SIZE = Some PAGE_SIZE" "ensure (off + SLAB_NODE_SIZE \<le> PAGE_SIZE) = Some ()"
    using off bound(1) by (simp_all add: lim slab_sizes)
  have "slab_grow ap a m = Some (Ok (), a \<lparr> sa_slabs := sa_slabs a @ [s] \<rparr>, m')"
    by (simp add: slab_grow_def ap [unfolded One_nat_def] pc al s(1) u [unfolded One_nat_def])
  moreover have "allocator_ok (a \<lparr> sa_slabs := sa_slabs a @ [s] \<rparr>)"
    using ok s b(2) by (auto simp: allocator_ok_def slabs_ok_snoc sa_pages_def)
  ultimately show ?thesis using s that by blast
qed

lemma slabs_allocate_full:
  assumes ok: "allocator_ok a" and full: "sa_full a"
  shows "slabs_allocate (sa_slabs a) (sa_layout a) = Some (None, sa_slabs a)"
proof -
  let ?L = "sa_layout a"
  from ok have L: "layout_ok ?L" and ss: "slabs_ok ?L (sa_slabs a)" by (simp_all add: allocator_ok_def)
  from full have "slabs_objs ?L (sa_slabs a) = slabs_live ?L (sa_slabs a)"
    by (auto simp: sa_full_def slabs_objs_def slabs_live_def slab_live_def)
  with slabs_allocate_ok [OF L ss] show ?thesis by (auto split: option.splits)
qed

lemma slab_alloc_grows:
  assumes ok: "allocator_ok a" and full: "sa_full a"
    and ap: "ap m 1 = Some (Ok b, m')" and b: "page_ok b" "b \<notin> sa_pages a" and n: "0 < sa_object_count a"
  obtains p a' where "slab_alloc ap a m = Some (Ok p, a', m')" and "object_served a p a'"
    and "sa_pages a' = insert b (sa_pages a)"
proof -
  let ?L = "sa_layout a"
  from ok have L: "layout_ok ?L" and ss: "slabs_ok ?L (sa_slabs a)" by (simp_all add: allocator_ok_def)
  from L have size: "0 < ly_size ?L" by (simp add: layout_ok_def)
  note none = slabs_allocate_full [OF ok full]
  from slab_grow_ok [of a ap m, OF ok ap b] obtain s where g: "slab_grow ap a m = Some (Ok (), a \<lparr> sa_slabs := sa_slabs a @ [s] \<rparr>, m')"
    "allocator_ok (a \<lparr> sa_slabs := sa_slabs a @ [s] \<rparr>)" "slab_live ?L s = {}" "sb_buffer s = b" "slab_ok ?L s"
    "sb_capacity s = sa_object_count a" "set (sb_free_objects s) = slab_objs ?L s" by metis
  have "sb_free_objects s \<noteq> []" using g(6,7) n card_slab_objs(1) [OF size, of s] by auto
  then obtain p ps where ps: "sb_free_objects s = p # ps" by (cases "sb_free_objects s") auto
  from slab_allocate_ok [OF L g(5) ps] obtain s' where s': "slab_allocate s ?L = Some (Ok p, s')" "slab_ok ?L s'"
    "sb_buffer s' = sb_buffer s" "sb_capacity s' = sb_capacity s" "slab_objs ?L s' = slab_objs ?L s"
    "slab_live ?L s' = insert p (slab_live ?L s)" "p \<in> slab_objs ?L s" by metis
  define a' where "a' = a \<lparr> sa_slabs := sa_slabs a @ [s'] \<rparr>"
  have "slab_alloc ap a m = Some (Ok p, a', m')"
    by (simp add: slab_alloc_def none g(1) s'(1) a'_def Let_def)
  moreover have "allocator_ok a'"
    using ok g(2) s' by (auto simp: allocator_ok_def a'_def slabs_ok_snoc)
  moreover have "sa_live a' = insert p (sa_live a)" "sa_pages a' = insert b (sa_pages a)"
    using g(3,4) s'(3,6) by (auto simp: sa_live_def sa_pages_def a'_def slabs_live_append)
  moreover have "p \<notin> sa_live a"
  proof
    assume "p \<in> sa_live a"
    then have p: "p \<in> slabs_objs ?L (sa_slabs a)" using slabs_live_sub by (auto simp: sa_live_def)
    have "slabs_ok ?L (s # sa_slabs a)" using g(2) by (auto simp: allocator_ok_def slabs_ok_snoc)
    from slabs_disjoint [OF size this] p s'(7) show False by auto
  qed
  moreover have "p \<in> slabs_objs (sa_layout a') (sa_slabs a')" "sa_layout a' = sa_layout a"
    using s'(5,7) by (auto simp: a'_def slabs_objs_def)
  ultimately show ?thesis using that object_servedI by blast
qed

text \<open>An object size that leaves no room beside the slab node: a page is taken and no object is found in it.\<close>

lemma slab_alloc_no_room:
  assumes aok: "allocator_ok a" and n0: "sa_object_count a = 0"
    and ap: "ap m 1 = Some (Ok b, m')" "page_ok b" "b \<notin> sa_pages a"
  obtains s where "slab_alloc ap a m = Some (Err SlabFullInternalError, a \<lparr> sa_slabs := sa_slabs a @ [s] \<rparr>, m')"
    and "allocator_ok (a \<lparr> sa_slabs := sa_slabs a @ [s] \<rparr>)"
    and "slab_live (sa_layout a) s = {}" and "sb_buffer s = b"
proof -
  from aok n0 have "\<forall>s \<in> set (sa_slabs a). slab_ok (sa_layout a) s \<and> sb_capacity s = 0"
    by (simp add: allocator_ok_def slabs_ok_def)
  then have "sa_full a" by (auto simp: sa_full_def slab_ok_def)
  note q = slabs_allocate_full [OF aok this]
  from slab_grow_ok [of a ap m, OF aok ap] obtain s where
    g: "slab_grow ap a m = Some (Ok (), a \<lparr> sa_slabs := sa_slabs a @ [s] \<rparr>, m')" "allocator_ok (a \<lparr> sa_slabs := sa_slabs a @ [s] \<rparr>)"
      "slab_live (sa_layout a) s = {}" "sb_buffer s = b" "sb_capacity s = sa_object_count a"
      "set (sb_free_objects s) = slab_objs (sa_layout a) s" by metis
  from g(5,6) n0 have "sb_free_objects s = []" by (simp add: slab_objs_def)
  then have "slab_alloc ap a m = Some (Err SlabFullInternalError, a \<lparr> sa_slabs := sa_slabs a @ [s] \<rparr>, m')"
    using q g(1) by (simp add: slab_alloc_def slab_allocate_full Let_def)
  from that [OF this g(2-4)] show ?thesis .
qed

lemma slab_alloc_hit:
  assumes ok: "allocator_ok a" and nf: "\<not> sa_full a"
  obtains p a' where "slab_alloc ap a m = Some (Ok p, a', m)" and "object_served a p a'" and "sa_pages a' = sa_pages a"
proof -
  let ?L = "sa_layout a"
  from ok have L: "layout_ok ?L" and ss: "slabs_ok ?L (sa_slabs a)" by (simp_all add: allocator_ok_def)
  from slabs_allocate_ok [OF L ss] nf obtain p ss' where q: "slabs_allocate (sa_slabs a) ?L = Some (Some p, ss')"
    and ss': "slabs_ok ?L ss'" "map sb_buffer ss' = map sb_buffer (sa_slabs a)"
      "map sb_capacity ss' = map sb_capacity (sa_slabs a)" "slabs_objs ?L ss' = slabs_objs ?L (sa_slabs a)"
    and p: "p \<in> slabs_objs ?L (sa_slabs a)" "p \<notin> slabs_live ?L (sa_slabs a)" "slabs_live ?L ss' = insert p (slabs_live ?L (sa_slabs a))"
    by (auto simp: sa_full_def split: option.splits)
  define a' where "a' = a \<lparr> sa_slabs := ss' \<rparr>"
  from ss'(2,3) have "sb_buffer ` set ss' = sb_buffer ` set (sa_slabs a)" "sb_capacity ` set ss' = sb_capacity ` set (sa_slabs a)"
    by (metis list.set_map)+
  then have "allocator_ok a'" "sa_pages a' = sa_pages a"
    using ok ss' by (auto simp: allocator_ok_def sa_pages_def a'_def)
  moreover from this(1) have "object_served a p a'"
    by (rule object_servedI) (use p ss' in \<open>simp_all add: a'_def sa_live_def\<close>)
  moreover have "slab_alloc ap a m = Some (Ok p, a', m)" by (simp add: slab_alloc_def q Let_def a'_def)
  ultimately show ?thesis using that by blast
qed

text \<open>Every outcome of an allocation.\<close>

lemma slab_alloc_cases:
  assumes ok: "allocator_ok a" and src: "page_source_ok ap m (sa_pages a)"
  shows "if \<not> sa_full a
    then \<exists>p a'. slab_alloc ap a m = Some (Ok p, a', m) \<and> object_served a p a' \<and> sa_pages a' = sa_pages a
    else case ap m 1 of
        None \<Rightarrow> slab_alloc ap a m = None
      | Some (Inl e, m') \<Rightarrow> slab_alloc ap a m = Some (Err SlabPagingError, a, m')
      | Some (Inr b, m') \<Rightarrow>
          if sa_object_count a = 0
          then \<exists>a'. slab_alloc ap a m = Some (Err SlabFullInternalError, a', m') \<and> allocator_ok a'
            \<and> sa_layout a' = sa_layout a \<and> sa_live a' = sa_live a \<and> sa_pages a' = insert b (sa_pages a)
          else \<exists>p a'. slab_alloc ap a m = Some (Ok p, a', m') \<and> object_served a p a' \<and> sa_pages a' = insert b (sa_pages a)"
proof (cases "sa_full a")
  case False
  then show ?thesis using slab_alloc_hit [OF ok False, of ap m] by metis
next
  case True
  from ok have pc: "sa_page_count a = 1" by (simp add: allocator_ok_def)
  note q = slabs_allocate_full [OF ok True]
  consider "ap m 1 = None" | e m' where "ap m 1 = Some (Err e, m')" | b m' where "ap m 1 = Some (Ok b, m')"
    by (metis option.exhaust prod.exhaust sum.exhaust)
  then show ?thesis
  proof cases
    case (3 b m')
    with src have b: "page_ok b" "b \<notin> sa_pages a" by (auto simp: page_source_ok_def)
    show ?thesis
    proof (cases "sa_object_count a = 0")
      case n0: True
      obtain s where "slab_alloc ap a m = Some (Err SlabFullInternalError, a \<lparr> sa_slabs := sa_slabs a @ [s] \<rparr>, m')"
        "allocator_ok (a \<lparr> sa_slabs := sa_slabs a @ [s] \<rparr>)" "slab_live (sa_layout a) s = {}" "sb_buffer s = b"
        by (rule slab_alloc_no_room [of a ap m, OF ok n0 3 b]) (rule that)
      then show ?thesis using True 3 n0 by (simp add: sa_live_def sa_pages_def slabs_live_append)
    next
      case n: False
      then have "0 < sa_object_count a" by simp
      from slab_alloc_grows [of a ap m, OF ok True 3 b this] True 3 n show ?thesis by (simp, metis)
    qed
  qed (use True pc q in \<open>simp_all add: slab_alloc_def slab_grow_def\<close>)
qed

lemma slab_dealloc_cases:
  assumes ok: "allocator_ok a"
  shows "\<exists>r a'. slab_dealloc a q = Some (r, a') \<and> allocator_ok a' \<and> sa_layout a' = sa_layout a \<and> sa_pages a' = sa_pages a
    \<and> (if q \<in> sa_live a then r = Ok () \<and> sa_live a' = sa_live a - {q}
       else a' = a \<and> r = Err (if q \<in> slabs_objs (sa_layout a) (sa_slabs a) then DoubleFree else BadPtrRange))"
proof -
  let ?L = "sa_layout a"
  from ok have L: "layout_ok ?L" and ss: "slabs_ok ?L (sa_slabs a)" by (simp_all add: allocator_ok_def)
  from L have al: "is_aligned_to q (ly_align ?L) = Some (q mod ly_align ?L = 0)"
    by (simp add: is_aligned_to_def layout_ok_def)
  show ?thesis
  proof (cases "q mod ly_align ?L = 0")
    case False
    with al have "q \<notin> slabs_objs ?L (sa_slabs a)" using sa_obj_facts(1) [OF ok] by auto
    then have "q \<notin> sa_live a" using slabs_live_sub by (auto simp: sa_live_def)
    with False al ok \<open>q \<notin> slabs_objs ?L (sa_slabs a)\<close> show ?thesis by (simp add: slab_dealloc_def)
  next
    case True
    from slabs_free_ok [OF L ss, of q] obtain r ss' where r: "slabs_free (sa_slabs a) q ?L = Some (r, ss')"
      "slabs_ok ?L ss'" "map sb_buffer ss' = map sb_buffer (sa_slabs a)" "map sb_capacity ss' = map sb_capacity (sa_slabs a)"
      "if q \<in> slabs_live ?L (sa_slabs a) then r = Ok () \<and> slabs_live ?L ss' = slabs_live ?L (sa_slabs a) - {q}
       else ss' = sa_slabs a \<and> r = Err (if q \<in> slabs_objs ?L (sa_slabs a) then DoubleFree else BadPtrRange)" by blast
    from r(3,4) have "sb_buffer ` set ss' = sb_buffer ` set (sa_slabs a)" "sb_capacity ` set ss' = sb_capacity ` set (sa_slabs a)"
      by (metis list.set_map)+
    then have "allocator_ok (a \<lparr> sa_slabs := ss' \<rparr>)" "sa_pages (a \<lparr> sa_slabs := ss' \<rparr>) = sa_pages a"
      using ok r by (auto simp: allocator_ok_def sa_pages_def)
    with True al r show ?thesis by (simp add: slab_dealloc_def sa_live_def split: if_splits)
  qed
qed

lemma slab_allocator_new_ok:
  assumes "layout_ok (adjust_layout L)"
  obtains a where "slab_allocator_new L = Some a" and "allocator_ok a" and "sa_live a = {}" and "sa_pages a = {}"
    and "sa_layout a = adjust_layout L" and "sa_object_count a = 4040 div ly_size (adjust_layout L)"
proof -
  let ?L = "adjust_layout L"
  from assms have "0 < ly_size ?L" by (simp add: layout_ok_def)
  then have c: "calculate_object_count ?L 1 = Some (4040 div ly_size ?L)"
    by (simp add: calculate_object_count_def umul_def USIZE_LIM_def slab_sizes usub_def Let_def udiv_def)
  define a where "a = \<lparr> sa_slabs = [], sa_page_count = 1, sa_object_count = 4040 div ly_size ?L, sa_layout = ?L \<rparr>"
  have "slab_allocator_new L = Some a" using c by (simp add: slab_allocator_new_def Let_def a_def)
  with c assms show ?thesis
    by (intro that [of a]) (simp_all add: a_def allocator_ok_def sa_live_def sa_pages_def)
qed

text \<open>Reaping drops the leading empty slabs.\<close>

fun free_each :: "('m, 'e) page_free \<Rightarrow> usize \<Rightarrow> nat list \<Rightarrow> 'm \<Rightarrow> 'm option" where
  "free_each fp n [] m = Some m"
| "free_each fp n (b # bs) m = (case fp m b n of Some (Inr _, m') \<Rightarrow> free_each fp n bs m' | _ \<Rightarrow> None)"

lemma slab_reap_loop_spec:
  assumes "\<forall>s \<in> set ss. page_ok (sb_buffer s)"
  shows "slab_reap_loop fp n ss m =
    map_option (\<lambda>m'. (length (takeWhile slab_is_empty ss), dropWhile slab_is_empty ss, m'))
      (free_each fp n (map sb_buffer (takeWhile slab_is_empty ss)) m)"
  using assms
proof (induction ss arbitrary: m)
  case (Cons s ss)
  then have al: "sb_buffer s mod PAGE_SIZE = 0" by (auto simp: page_ok_def)
  show ?case
  proof (cases "fp m (sb_buffer s) n")
    case None
    with al show ?thesis by simp
  next
    case (Some x)
    then obtain r m' where r: "fp m (sb_buffer s) n = Some (r, m')" by (cases x) auto
    with Cons al show ?thesis
      by (cases r) (auto simp: map_option_case split: option.splits)
  qed
qed simp

lemma slab_force_free_spec:
  "slab_force_free fp n ss m = free_each fp n (map sb_buffer ss) m"
proof (induction ss arbitrary: m)
  case (Cons s ss)
  show ?case
  proof (cases "fp m (sb_buffer s) n")
    case (Some x)
    then show ?thesis using Cons by (cases x; cases "fst x") auto
  qed simp
qed simp

lemma free_each_append:
  "free_each fp n (bs @ cs) m = Option.bind (free_each fp n bs m) (free_each fp n cs)"
  by (induction bs arbitrary: m) (auto split: option.splits sum.splits)

text \<open>The slabs a reap gives back: the leading ones without a live object.\<close>

lemma slab_reap_spec:
  assumes ok: "allocator_ok a"
  obtains dead a' where
    "slab_reap fp a m = map_option (\<lambda>m'. (length dead, a', m')) (free_each fp 1 (map sb_buffer dead) m)"
    and "sa_slabs a = dead @ sa_slabs a'" and "\<forall>s \<in> set dead. slab_live (sa_layout a) s = {}"
    and "sa_slabs a' \<noteq> [] \<longrightarrow> slab_live (sa_layout a) (hd (sa_slabs a')) \<noteq> {}"
    and "allocator_ok a'" and "sa_layout a' = sa_layout a" and "sa_live a' = sa_live a"
proof -
  let ?L = "sa_layout a"
  let ?dead = "takeWhile slab_is_empty (sa_slabs a)" and ?rest = "dropWhile slab_is_empty (sa_slabs a)"
  define a' where "a' = a \<lparr> sa_slabs := ?rest \<rparr>"
  from ok have L: "layout_ok ?L" and sok: "\<forall>s \<in> set (sa_slabs a). slab_ok ?L s" and pc: "sa_page_count a = 1"
    by (simp_all add: allocator_ok_def slabs_ok_def)
  then have "\<forall>s \<in> set (sa_slabs a). page_ok (sb_buffer s)" by (simp add: slab_ok_def)
  from slab_reap_loop_spec [OF this, of fp 1 m] pc
  have run: "slab_reap fp a m = map_option (\<lambda>m'. (length ?dead, a', m')) (free_each fp 1 (map sb_buffer ?dead) m)"
    by (auto simp: slab_reap_def a'_def split: option.splits Option.bind_splits)
  have split: "sa_slabs a = ?dead @ ?rest" by simp
  have dead: "\<forall>s \<in> set ?dead. slab_live ?L s = {}"
    using slab_is_empty_iff [OF L] sok by (metis set_takeWhileD)
  then have "slabs_live ?L ?dead = {}" by (simp add: slabs_live_def)
  then have live: "slabs_live ?L (sa_slabs a) = slabs_live ?L ?rest"
    by (metis split slabs_live_append sup_bot.left_neutral)
  have ok': "allocator_ok a'"
    using ok unfolding a'_def by (auto simp: allocator_ok_def slabs_ok_def dest: set_dropWhileD)
      (metis distinct_append map_append split)
  have hd: "?rest \<noteq> [] \<longrightarrow> slab_live ?L (hd ?rest) \<noteq> {}"
    using hd_dropWhile [of slab_is_empty "sa_slabs a"] slab_is_empty_iff [OF L] sok
    by (metis hd_in_set set_dropWhileD)
  show ?thesis
    by (rule that [of ?dead a']) (use run dead hd ok' live in \<open>simp_all add: a'_def sa_live_def\<close>)
qed

subsection \<open>Properties\<close>


definition example_slab_allocator :: InternalSlabAllocator where
  "example_slab_allocator = \<lparr> sa_slabs = [\<lparr> sb_buffer = 8192, sb_free_objects = [8192],
     sb_allocated_count = 1, sb_capacity = 2 \<rparr>], sa_page_count = 1, sa_object_count = 2,
     sa_layout = \<lparr> ly_size = 2000, ly_align = 16 \<rparr> \<rparr>"

lemma is_power_of_two_pow2 [simp]: "is_power_of_two (2 ^ k)"
  by (auto simp: is_power_of_two_iff)

definition example_full_allocator :: InternalSlabAllocator where
  "example_full_allocator = example_slab_allocator \<lparr> sa_slabs := [\<lparr> sb_buffer = 8192, sb_free_objects = [],
     sb_allocated_count = 2, sb_capacity = 2 \<rparr>] \<rparr>"

definition example_reap_allocator :: InternalSlabAllocator where
  "example_reap_allocator = example_slab_allocator \<lparr> sa_slabs := [\<lparr> sb_buffer = 4096, sb_free_objects = [6096, 4096],
     sb_allocated_count = 0, sb_capacity = 2 \<rparr>, \<lparr> sb_buffer = 8192, sb_free_objects = [8192],
     sb_allocated_count = 1, sb_capacity = 2 \<rparr>] \<rparr>"

lemmas example_allocators = example_slab_allocator_def example_full_allocator_def example_reap_allocator_def

lemma example_slab_allocator_ok: "allocator_ok example_slab_allocator"
  and example_full_allocator_ok: "allocator_ok example_full_allocator"
  and example_reap_allocator_ok: "allocator_ok example_reap_allocator"
proof -
  have "is_power_of_two 16" using is_power_of_two_pow2 [of 4] by simp
  moreover have "{..<2::nat} = {0, 1}" by auto
  ultimately show "allocator_ok example_slab_allocator" "allocator_ok example_full_allocator" "allocator_ok example_reap_allocator"
    by (simp_all add: allocator_ok_def example_allocators layout_ok_def slab_ok_def slab_objs_def page_ok_def
        slab_sizes calculate_object_count_def usize_defs USIZE_LIM_def Let_def)
qed

lemma example_page_source: "\<forall>b \<in> A. b < n \<Longrightarrow> 0 < n \<Longrightarrow> 4096 dvd n \<Longrightarrow> n + 4096 < USIZE_LIM
  \<Longrightarrow> page_source_ok (\<lambda>(n::nat) _. Some (Ok n :: unit + nat, n + 4096)) n A"
  by (auto simp: page_source_ok_def page_ok_def slab_sizes)


text \<open>C14: Freeing on a well-formed slab allocator never panics and tells all cases apart: a live
  object is freed and only it; an object that is not live is reported as a double free; any
  other address is a bad pointer; the last two change nothing.\<close>
theorem slab_dealloc_correct:
  assumes "allocator_ok a"
  shows "\<exists>r a'. slab_dealloc a q = Some (r, a') \<and> allocator_ok a' \<and> sa_layout a' = sa_layout a \<and> sa_pages a' = sa_pages a
    \<and> (if q \<in> sa_live a then r = Ok () \<and> sa_live a' = sa_live a - {q}
       else a' = a \<and> r = Err (if q \<in> slabs_objs (sa_layout a) (sa_slabs a) then DoubleFree else BadPtrRange))"
  using assms by (rule slab_dealloc_cases)

theorem slab_dealloc_correct_witness:
  "\<exists>r a'. slab_dealloc example_slab_allocator 10192 = Some (r, a') \<and> r = Ok () \<and> 10192 \<notin> sa_live a'"
proof -
  have "{..<2::nat} = {0, 1}" by auto
  then have "10192 \<in> sa_live example_slab_allocator"
    by (simp add: sa_live_def example_slab_allocator_def slab_live_def slab_objs_def)
  then show ?thesis using slab_dealloc_correct [OF example_slab_allocator_ok, of 10192] by auto
qed

text \<open>C27: Reaping a well-formed slab allocator gives back the pages of its leading slabs without live objects, one after
  another and in order, and returns their number with the allocator of the remaining slabs; it returns
  whenever each of these frees succeeds and panics when one fails.  It keeps the invariant and every live
  object, and stops at the first slab that has a live object.\<close>
theorem slab_reap_correct:
  assumes "allocator_ok a"
  shows "\<exists>dead a'. slab_reap fp a m = map_option (\<lambda>m'. (length dead, a', m')) (free_each fp 1 (map sb_buffer dead) m)
    \<and> sa_slabs a = dead @ sa_slabs a' \<and> (\<forall>s \<in> set dead. slab_live (sa_layout a) s = {})
    \<and> (sa_slabs a' \<noteq> [] \<longrightarrow> slab_live (sa_layout a) (hd (sa_slabs a')) \<noteq> {})
    \<and> allocator_ok a' \<and> sa_layout a' = sa_layout a \<and> sa_live a' = sa_live a"
  by (rule slab_reap_spec [OF assms, of fp m]) blast

text \<open>The empty slab at 4096 is given back, the slab at 8192 with a live object is kept.\<close>

theorem slab_reap_correct_witness:
  "\<exists>a'. slab_reap (\<lambda>m p n. Some (Ok () :: unit + unit, m @ [p])) example_reap_allocator [] = Some (1, a', [4096])
     \<and> sa_pages a' = {8192} \<and> allocator_ok a' \<and> sa_live a' = sa_live example_reap_allocator"
proof -
  let ?fp = "\<lambda>m p n. Some (Ok () :: unit + unit, m @ [p])"
  have two: "{..<2::nat} = {0, 1}" by auto
  from slab_reap_correct [OF example_reap_allocator_ok, of ?fp "[]"] obtain dead a' where
    r: "slab_reap ?fp example_reap_allocator [] = map_option (\<lambda>m'. (length dead, a', m')) (free_each ?fp 1 (map sb_buffer dead) [])"
    and d: "sa_slabs example_reap_allocator = dead @ sa_slabs a'" "\<forall>s \<in> set dead. slab_live (sa_layout example_reap_allocator) s = {}"
      "sa_slabs a' \<noteq> [] \<longrightarrow> slab_live (sa_layout example_reap_allocator) (hd (sa_slabs a')) \<noteq> {}"
    and a': "allocator_ok a'" "sa_live a' = sa_live example_reap_allocator"
    by (elim exE conjE)
  define rest where "rest = sa_slabs a'"
  from d have "map sb_buffer dead = [4096] \<and> length dead = 1 \<and> sb_buffer ` set rest = {8192}"
    unfolding rest_def [symmetric]
    by (cases dead; cases "tl dead") (auto simp: example_allocators slab_live_def slab_objs_def two Cons_eq_append_conv)
  with r a' show ?thesis by (simp add: sa_pages_def rest_def)
qed

text \<open>An object type whose size is not a multiple of the node alignment cannot be served: for
  a 12-byte, 4-aligned type every allocation on a fresh allocator fails with an invalid layout,
  after it has taken a page from the page source that it does not keep.\<close>
theorem slab_layout_not_padded:
  assumes "ap m 1 = Some (Ok b, m')" and "page_ok b"
    and "slab_allocator_new \<lparr> ly_size = 12, ly_align = 4 \<rparr> = Some a"
  shows "slab_alloc ap a m = Some (Err InvalidLayout, a, m')"
proof -
  have a: "a = \<lparr> sa_slabs = [], sa_page_count = 1, sa_object_count = 336, sa_layout = \<lparr> ly_size = 12, ly_align = 8 \<rparr> \<rparr>"
    using assms(3) by (simp add: slab_allocator_new_def adjust_layout_def calculate_object_count_def slab_sizes
        usize_defs USIZE_LIM_def Let_def)
  have p8: "is_power_of_two 8" using is_power_of_two_pow2 [of 3] by simp
  have b0: "b mod 8 = 0" using assms(2) by (auto simp: page_ok_def slab_sizes elim!: dvdE)
  then have "(b + 12) mod 8 = 4" by presburger
  then have loop: "slab_new_loop b \<lparr> ly_size = 12, ly_align = 8 \<rparr> [] [0..<336] = Some (Err InvalidLayout)"
    using b0 p8 by (simp add: upt_conv_Cons is_aligned_to_def usize_defs USIZE_LIM_def)
  have "align_up 4032 8 = Some 4032"
    using align_up_pow2 [of 4032 3] by (simp add: USIZE_LIM_def)
  with loop assms(1) show ?thesis
    by (simp add: a slab_alloc_def slab_grow_def slab_new_def slab_sizes usize_defs USIZE_LIM_def)
qed

theorem slab_layout_not_padded_witness:
  "\<exists>a. slab_allocator_new \<lparr> ly_size = 12, ly_align = 4 \<rparr> = Some a
     \<and> slab_alloc (\<lambda>(n::nat) _. Some (Ok n :: unit + nat, n + 4096)) a 8192 = Some (Err InvalidLayout, a, 12288)"
proof -
  obtain a where a: "slab_allocator_new \<lparr> ly_size = 12, ly_align = 4 \<rparr> = Some a"
    by (simp add: slab_allocator_new_def adjust_layout_def calculate_object_count_def slab_sizes
        usize_defs USIZE_LIM_def Let_def)
  from slab_layout_not_padded [OF _ _ a, of "\<lambda>(n::nat) _. Some (Ok n :: unit + nat, n + 4096)" 8192 8192 12288] a
  show ?thesis by (simp add: page_ok_def slab_sizes USIZE_LIM_def)
qed

end
