(* ===== verification/Heap.thy ===== *)
theory Heap
  imports Slab
begin

text \<open>
  \<open>slab/src/heap.rs\<close> and \<open>slab/src/lib.rs\<close>: the global allocator, eight slab allocators for the
  sizes 32 to 4096, and the allocator of one object type.  Each call holds the spin lock of the
  allocator it works on until it returns (theory \<open>Spinlock\<close>), so a call is one step here.
\<close>

subsection \<open>The heap\<close>

record Heap =
  slab_32 :: InternalSlabAllocator
  slab_64 :: InternalSlabAllocator
  slab_128 :: InternalSlabAllocator
  slab_256 :: InternalSlabAllocator
  slab_512 :: InternalSlabAllocator
  slab_1024 :: InternalSlabAllocator
  slab_2048 :: InternalSlabAllocator
  slab_4096 :: InternalSlabAllocator

definition heap_new :: "Heap option" where
  "heap_new = do {
     a32 \<leftarrow> slab_allocator_new \<lparr> ly_size = 32, ly_align = 32 \<rparr>;
     a64 \<leftarrow> slab_allocator_new \<lparr> ly_size = 64, ly_align = 64 \<rparr>;
     a128 \<leftarrow> slab_allocator_new \<lparr> ly_size = 128, ly_align = 128 \<rparr>;
     a256 \<leftarrow> slab_allocator_new \<lparr> ly_size = 256, ly_align = 256 \<rparr>;
     a512 \<leftarrow> slab_allocator_new \<lparr> ly_size = 512, ly_align = 512 \<rparr>;
     a1024 \<leftarrow> slab_allocator_new \<lparr> ly_size = 1024, ly_align = 1024 \<rparr>;
     a2048 \<leftarrow> slab_allocator_new \<lparr> ly_size = 2048, ly_align = 2048 \<rparr>;
     a4096 \<leftarrow> slab_allocator_new \<lparr> ly_size = 4096, ly_align = 4096 \<rparr>;
     Some \<lparr> slab_32 = a32, slab_64 = a64, slab_128 = a128, slab_256 = a256, slab_512 = a512,
       slab_1024 = a1024, slab_2048 = a2048, slab_4096 = a4096 \<rparr> }"

text \<open>The field that \<open>layout_to_allocator\<close> returns a guard of.\<close>

datatype heap_slot = S32 | S64 | S128 | S256 | S512 | S1024 | S2048 | S4096

fun slot_get :: "heap_slot \<Rightarrow> Heap \<Rightarrow> InternalSlabAllocator" where
  "slot_get S32 h = slab_32 h"
| "slot_get S64 h = slab_64 h"
| "slot_get S128 h = slab_128 h"
| "slot_get S256 h = slab_256 h"
| "slot_get S512 h = slab_512 h"
| "slot_get S1024 h = slab_1024 h"
| "slot_get S2048 h = slab_2048 h"
| "slot_get S4096 h = slab_4096 h"

fun slot_set :: "heap_slot \<Rightarrow> InternalSlabAllocator \<Rightarrow> Heap \<Rightarrow> Heap" where
  "slot_set S32 a h = h \<lparr> slab_32 := a \<rparr>"
| "slot_set S64 a h = h \<lparr> slab_64 := a \<rparr>"
| "slot_set S128 a h = h \<lparr> slab_128 := a \<rparr>"
| "slot_set S256 a h = h \<lparr> slab_256 := a \<rparr>"
| "slot_set S512 a h = h \<lparr> slab_512 := a \<rparr>"
| "slot_set S1024 a h = h \<lparr> slab_1024 := a \<rparr>"
| "slot_set S2048 a h = h \<lparr> slab_2048 := a \<rparr>"
| "slot_set S4096 a h = h \<lparr> slab_4096 := a \<rparr>"

text \<open>\<open>Layout::pad_to_align\<close>: the size rounded up to a multiple of the alignment.\<close>

definition pad_to_align :: "Layout \<Rightarrow> Layout" where
  "pad_to_align l = l \<lparr> ly_size := div_ceil (ly_size l) (ly_align l) * ly_align l \<rparr>"

definition layout_to_allocator :: "Layout \<Rightarrow> heap_slot option" where
  "layout_to_allocator layout =
     (let layout = pad_to_align layout in
      if ly_size layout \<le> 32 \<and> ly_align layout \<le> 32 then Some S32
      else if ly_size layout \<le> 64 \<and> ly_align layout \<le> 64 then Some S64
      else if ly_size layout \<le> 128 \<and> ly_align layout \<le> 128 then Some S128
      else if ly_size layout \<le> 256 \<and> ly_align layout \<le> 256 then Some S256
      else if ly_size layout \<le> 512 \<and> ly_align layout \<le> 512 then Some S512
      else if ly_size layout \<le> 1024 \<and> ly_align layout \<le> 1024 then Some S1024
      else if ly_size layout \<le> 2048 \<and> ly_align layout \<le> 2048 then Some S2048
      else if ly_size layout \<le> 4096 \<and> ly_align layout \<le> 4096 then Some S4096
      else None)"

text \<open>\<open>GlobalAlloc\<close>; the null pointer is 0.\<close>

definition heap_alloc :: "('m, 'e) page_alloc \<Rightarrow> Heap \<Rightarrow> Layout \<Rightarrow> 'm \<Rightarrow> (nat \<times> Heap \<times> 'm) option" where
  "heap_alloc ap h layout m = do {
     c \<leftarrow> layout_to_allocator layout;
     (r, a, m) \<leftarrow> slab_alloc ap (slot_get c h) m;
     Some ((case r of Inr ptr \<Rightarrow> ptr | Inl _ \<Rightarrow> 0), slot_set c a h, m) }"

definition heap_dealloc :: "Heap \<Rightarrow> nat \<Rightarrow> Layout \<Rightarrow> Heap option" where
  "heap_dealloc h ptr layout = do {
     c \<leftarrow> layout_to_allocator layout;
     _ \<leftarrow> ensure (ptr \<noteq> 0);
     (r, a) \<leftarrow> slab_dealloc (slot_get c h) ptr;
     _ \<leftarrow> unwrap_ok r;
     Some (slot_set c a h) }"

fun heap_reap_slots :: "('m, 'e) page_free \<Rightarrow> heap_slot list \<Rightarrow> usize \<Rightarrow> Heap \<Rightarrow> 'm \<Rightarrow> (usize \<times> Heap \<times> 'm) option" where
  "heap_reap_slots fp [] total_reaped h m = Some (total_reaped, h, m)"
| "heap_reap_slots fp (c # cs) total_reaped h m = do {
     (n, a, m) \<leftarrow> slab_reap fp (slot_get c h) m;
     total_reaped \<leftarrow> uadd total_reaped n;
     heap_reap_slots fp cs total_reaped (slot_set c a h) m }"

definition heap_reap :: "('m, 'e) page_free \<Rightarrow> Heap \<Rightarrow> 'm \<Rightarrow> (usize \<times> Heap \<times> 'm) option" where
  "heap_reap fp h m = heap_reap_slots fp [S64, S128, S256, S512, S1024, S2048, S4096] 0 h m"

subsection \<open>The allocator of one type\<close>

text \<open>\<open>SlabAllocator<T>\<close>: \<open>lt\<close> is \<open>Layout::new::<T>()\<close>.  The pointer of the \<open>SyncUnsafeCell\<close> is
  never null, so the \<open>AllocError\<close> branch of \<open>allocate\<close> is dead.\<close>

definition typed_slab_new :: "Layout \<Rightarrow> InternalSlabAllocator option" where
  "typed_slab_new lt = slab_allocator_new lt"

definition typed_slab_allocate :: "('m, 'e) page_alloc \<Rightarrow> Layout \<Rightarrow> InternalSlabAllocator \<Rightarrow> Layout \<Rightarrow> 'm
    \<Rightarrow> ((nat \<times> usize) \<times> InternalSlabAllocator \<times> 'm) option" where
  "typed_slab_allocate ap lt a layout m = do {
     _ \<leftarrow> ensure (layout = lt);
     (r, a, m) \<leftarrow> slab_alloc ap a m;
     object \<leftarrow> unwrap_ok r;
     Some ((object, ly_size layout), a, m) }"

definition typed_slab_deallocate :: "Layout \<Rightarrow> InternalSlabAllocator \<Rightarrow> nat \<Rightarrow> Layout \<Rightarrow> InternalSlabAllocator option" where
  "typed_slab_deallocate lt a ptr layout = do {
     _ \<leftarrow> ensure (layout = lt);
     (r, a) \<leftarrow> slab_dealloc a ptr;
     _ \<leftarrow> ensure (r = Ok ());
     Some a }"

subsection \<open>Invariant\<close>

fun slot_size :: "heap_slot \<Rightarrow> nat" where
  "slot_size S32 = 32"
| "slot_size S64 = 64"
| "slot_size S128 = 128"
| "slot_size S256 = 256"
| "slot_size S512 = 512"
| "slot_size S1024 = 1024"
| "slot_size S2048 = 2048"
| "slot_size S4096 = 4096"

definition slot_layout :: "heap_slot \<Rightarrow> Layout" where
  "slot_layout c = \<lparr> ly_size = slot_size c, ly_align = slot_size c \<rparr>"

definition heap_ok :: "Heap \<Rightarrow> bool" where
  "heap_ok h \<longleftrightarrow> (\<forall>c. allocator_ok (slot_get c h) \<and> sa_layout (slot_get c h) = slot_layout c)
     \<and> (\<forall>c d. c \<noteq> d \<longrightarrow> sa_pages (slot_get c h) \<inter> sa_pages (slot_get d h) = {})"

definition heap_pages :: "Heap \<Rightarrow> nat set" where
  "heap_pages h = (\<Union>c. sa_pages (slot_get c h))"

text \<open>The live blocks: address and size.\<close>

definition heap_live :: "Heap \<Rightarrow> (nat \<times> nat) set" where
  "heap_live h = {(p, slot_size c) |p c. p \<in> sa_live (slot_get c h)}"

lemma slot_get_set [simp]: "slot_get d (slot_set c a h) = (if d = c then a else slot_get d h)"
  by (cases c; cases d) simp_all

lemma slot_set_get [simp]: "slot_set c (slot_get c h) h = h"
  by (cases c) simp_all

lemma slot_size_inj: "slot_size c = slot_size d \<Longrightarrow> c = d"
  by (cases c; cases d) simp_all

lemma slot_size_pow2: "is_power_of_two (slot_size c)" "slot_size c dvd PAGE_SIZE" "8 dvd slot_size c" "0 < slot_size c"
  using is_power_of_two_pow2 [of 5] is_power_of_two_pow2 [of 6] is_power_of_two_pow2 [of 7] is_power_of_two_pow2 [of 8]
    is_power_of_two_pow2 [of 9] is_power_of_two_pow2 [of 10] is_power_of_two_pow2 [of 11] is_power_of_two_pow2 [of 12]
  by (cases c; simp add: slab_sizes)+

lemma slot_layout_ok: "layout_ok (slot_layout c)"
  by (simp add: layout_ok_def slot_layout_def slot_size_pow2 OBJECT_NODE_ALIGN_def)

lemma layout_to_allocator_fits:
  assumes "layout_to_allocator l = Some c" and "is_power_of_two (ly_align l)"
  shows "ly_size l \<le> slot_size c" and "ly_align l dvd slot_size c"
proof -
  have pos: "0 < ly_align l" using assms(2) by (simp add: is_power_of_two_def)
  have "ly_size l \<le> div_ceil (ly_size l) (ly_align l) * ly_align l"
    using pos by (rule div_ceil_mult_ge)
  moreover have fits: "div_ceil (ly_size l) (ly_align l) * ly_align l \<le> slot_size c" "ly_align l \<le> slot_size c"
    using assms(1) by (auto simp: layout_to_allocator_def pad_to_align_def Let_def split: if_splits)
  ultimately show "ly_size l \<le> slot_size c" by linarith
  from assms(2) slot_size_pow2(1) [of c] obtain i j where "ly_align l = 2 ^ i" "slot_size c = 2 ^ j"
    by (auto simp: is_power_of_two_iff)
  with fits(2) show "ly_align l dvd slot_size c" by (simp add: le_imp_power_dvd)
qed

lemma layout_to_allocator_total:
  assumes "ly_size (pad_to_align l) \<le> 2048" and "ly_align l \<le> 2048"
  obtains c where "layout_to_allocator l = Some c" and "c \<noteq> S4096"
proof -
  have "ly_align (pad_to_align l) = ly_align l" by (simp add: pad_to_align_def)
  with assms have "layout_to_allocator l \<noteq> None \<and> layout_to_allocator l \<noteq> Some S4096"
    by (auto simp: layout_to_allocator_def Let_def)
  then show ?thesis using that by auto
qed

lemma slot_object_count:
  assumes "heap_ok h" and "c \<noteq> S4096"
  shows "0 < sa_object_count (slot_get c h)"
proof -
  from assms(1) have "calculate_object_count (slot_layout c) 1 = Some (sa_object_count (slot_get c h))"
    by (metis allocator_ok_def heap_ok_def)
  from object_count_bound(3) [OF this] assms(2) show ?thesis by (cases c) (simp_all add: slot_layout_def)
qed

lemma page_source_ok_mono: "page_source_ok ap m H \<Longrightarrow> A \<subseteq> H \<Longrightarrow> page_source_ok ap m A"
  by (auto simp: page_source_ok_def)

text \<open>Live blocks of different slots lie on different pages.\<close>

lemma heap_live_apart:
  assumes ok: "heap_ok h" and "(p, n) \<in> heap_live h" "(q, k) \<in> heap_live h" "(p, n) \<noteq> (q, k)"
  shows "p + n \<le> q \<or> q + k \<le> p"
proof -
  from assms obtain c d where c: "n = slot_size c" "p \<in> sa_live (slot_get c h)"
    and d: "k = slot_size d" "q \<in> sa_live (slot_get d h)" by (auto simp: heap_live_def)
  from ok have lay: "sa_layout (slot_get c h) = slot_layout c" "sa_layout (slot_get d h) = slot_layout d"
    and aok: "allocator_ok (slot_get c h)" "allocator_ok (slot_get d h)" by (auto simp: heap_ok_def)
  from c d lay have pq: "p \<in> slabs_objs (slot_layout c) (sa_slabs (slot_get c h))"
    "q \<in> slabs_objs (slot_layout d) (sa_slabs (slot_get d h))"
    using slabs_live_sub by (fastforce simp: sa_live_def)+
  show ?thesis
  proof (cases "c = d")
    case True
    then have "p \<noteq> q" using c d assms(4) by auto
    then show ?thesis
      using slabs_objs_apart [of "slot_layout c" "sa_slabs (slot_get c h)" p q] aok lay pq True c d
      by (auto simp: allocator_ok_def slot_layout_def)
  next
    case False
    from sa_obj_facts(2) [OF aok(1)] pq lay obtain b where b: "b \<in> sa_pages (slot_get c h)" "b \<le> p" "p + n + SLAB_NODE_SIZE \<le> b + PAGE_SIZE"
      by (auto simp: c slot_layout_def)
    from sa_obj_facts(2) [OF aok(2)] pq lay obtain b' where b': "b' \<in> sa_pages (slot_get d h)" "b' \<le> q" "q + k + SLAB_NODE_SIZE \<le> b' + PAGE_SIZE"
      by (auto simp: d slot_layout_def)
    from b(1) b'(1) False ok have "b \<noteq> b'" by (auto simp: heap_ok_def)
    moreover have "page_ok b" "page_ok b'"
      using b b' aok by (auto simp: sa_pages_def allocator_ok_def slabs_ok_def slab_ok_def)
    ultimately have "b + PAGE_SIZE \<le> b' \<or> b' + PAGE_SIZE \<le> b" by (intro pages_apart)
    with b b' show ?thesis by auto
  qed
qed

lemma heap_ok_update:
  assumes "heap_ok h" and "allocator_ok a" and "sa_layout a = slot_layout c"
    and "sa_pages a \<subseteq> sa_pages (slot_get c h) \<union> B" and "B \<inter> heap_pages h = {}"
  shows "heap_ok (slot_set c a h)"
proof -
  have "sa_pages a \<inter> sa_pages (slot_get d h) = {}" if "d \<noteq> c" for d
  proof -
    from that assms(1) have "sa_pages (slot_get c h) \<inter> sa_pages (slot_get d h) = {}" unfolding heap_ok_def by blast
    moreover from assms(5) have "B \<inter> sa_pages (slot_get d h) = {}" by (auto simp: heap_pages_def)
    ultimately show ?thesis using assms(4) by blast
  qed
  moreover from this have "sa_pages (slot_get d h) \<inter> sa_pages a = {}" if "d \<noteq> c" for d using that by blast
  ultimately show ?thesis using assms(1-3) by (simp add: heap_ok_def)
qed

lemma heap_live_set:
  "heap_live (slot_set c a h) = {(p, slot_size c) |p. p \<in> sa_live a} \<union> {x \<in> heap_live h. snd x \<noteq> slot_size c}"
  by (auto simp: heap_live_def dest: slot_size_inj split: if_splits) (metis slot_size_inj)+

lemma heap_live_slot: "(p, slot_size c) \<in> heap_live h \<longleftrightarrow> p \<in> sa_live (slot_get c h)"
  by (auto simp: heap_live_def dest: slot_size_inj)

lemma heap_live_same: "sa_live a = sa_live (slot_get c h) \<Longrightarrow> heap_live (slot_set c a h) = heap_live h"
  unfolding heap_live_set using heap_live_slot by fastforce

lemma heap_pages_same:
  assumes "sa_pages a = sa_pages (slot_get c h)"
  shows "heap_pages (slot_set c a h) = heap_pages h"
proof -
  have "sa_pages (slot_get d (slot_set c a h)) = sa_pages (slot_get d h)" for d using assms by simp
  then show ?thesis unfolding heap_pages_def by presburger
qed

lemma heap_pages_insert:
  assumes "sa_pages a = insert b (sa_pages (slot_get c h))"
  shows "heap_pages (slot_set c a h) = insert b (heap_pages h)"
proof -
  have "sa_pages (slot_get d (slot_set c a h)) = (if d = c then insert b (sa_pages (slot_get d h)) else sa_pages (slot_get d h))" for d
    using assms by simp
  then have "heap_pages (slot_set c a h) = (\<Union>d. if d = c then insert b (sa_pages (slot_get d h)) else sa_pages (slot_get d h))"
    by (simp only: heap_pages_def)
  also have "\<dots> = insert b (heap_pages h)" by (auto simp: heap_pages_def split: if_splits)
  finally show ?thesis .
qed

lemma adjust_slot_layout [simp]: "adjust_layout (slot_layout c) = slot_layout c"
  by (cases c) (simp_all add: adjust_layout_def slot_layout_def slab_sizes)

lemma slot_new_ok:
  obtains a where "slab_allocator_new (slot_layout c) = Some a" and "allocator_ok a" and "sa_live a = {}" and "sa_pages a = {}"
    and "sa_layout a = slot_layout c"
  using slab_allocator_new_ok [of "slot_layout c"] slot_layout_ok [of c] by (metis adjust_slot_layout)

lemma heap_new_ok:
  obtains h where "heap_new = Some h" and "heap_ok h" and "heap_live h = {}" and "heap_pages h = {}"
proof -
  define f where "f c = the (slab_allocator_new (slot_layout c))" for c
  have f: "slab_allocator_new (slot_layout c) = Some (f c) \<and> allocator_ok (f c) \<and> sa_live (f c) = {} \<and> sa_pages (f c) = {}
      \<and> sa_layout (f c) = slot_layout c" for c
    using slot_new_ok [of c] by (metis f_def option.sel)
  define h where "h = \<lparr> slab_32 = f S32, slab_64 = f S64, slab_128 = f S128, slab_256 = f S256, slab_512 = f S512,
       slab_1024 = f S1024, slab_2048 = f S2048, slab_4096 = f S4096 \<rparr>"
  have g: "slot_get c h = f c" for c by (cases c) (simp_all add: h_def)
  have "slab_allocator_new \<lparr> ly_size = slot_size c, ly_align = slot_size c \<rparr> = Some (f c)" for c
    using f [of c] by (simp add: slot_layout_def)
  from this [of S32] this [of S64] this [of S128] this [of S256] this [of S512] this [of S1024] this [of S2048] this [of S4096]
  have "heap_new = Some h" by (simp add: heap_new_def h_def)
  then show ?thesis
    using f by (intro that [of h]) (simp_all add: heap_ok_def heap_live_def heap_pages_def g)
qed

subsection \<open>Properties\<close>

text \<open>Storing back a slot that has served an object.\<close>

lemma slot_served:
  assumes ok: "heap_ok h" and r: "object_served (slot_get c h) p a"
    and B: "sa_pages a \<subseteq> sa_pages (slot_get c h) \<union> B" "B \<inter> heap_pages h = {}"
  shows "heap_ok (slot_set c a h) \<and> p \<noteq> 0 \<and> slot_size c dvd p \<and> (p, slot_size c) \<notin> heap_live h
    \<and> heap_live (slot_set c a h) = insert (p, slot_size c) (heap_live h)
    \<and> (\<exists>b \<in> heap_pages (slot_set c a h). b \<le> p \<and> p + slot_size c \<le> b + PAGE_SIZE)"
proof -
  from ok have lay: "sa_layout (slot_get c h) = slot_layout c" by (auto simp: heap_ok_def)
  from r lay have a: "allocator_ok a" "sa_layout a = slot_layout c" "slot_size c dvd p" "p \<notin> sa_live (slot_get c h)"
      "sa_live a = insert p (sa_live (slot_get c h))"
    and "\<exists>b \<in> sa_pages a. b \<le> p \<and> p + slot_size c + SLAB_NODE_SIZE \<le> b + PAGE_SIZE"
    by (simp_all add: object_served_def slot_layout_def)
  then obtain b where b: "b \<in> sa_pages a" "b \<le> p" "p + slot_size c \<le> b + PAGE_SIZE" by fastforce
  with a(1) have "0 < p" by (auto simp: sa_pages_def allocator_ok_def slabs_ok_def slab_ok_def page_ok_def)
  moreover have "heap_live (slot_set c a h) = insert (p, slot_size c) (heap_live h)"
    unfolding heap_live_set a(5) using heap_live_slot by fastforce
  moreover have "b \<in> heap_pages (slot_set c a h)" using b(1) unfolding heap_pages_def by (auto intro!: exI [of _ c])
  ultimately show ?thesis
    using heap_ok_update [OF ok a(1,2) B] a(3,4) b(2,3) by (auto simp: heap_live_slot)
qed

definition slot_block :: "Heap \<Rightarrow> heap_slot \<Rightarrow> nat \<Rightarrow> Heap \<Rightarrow> bool" where
  "slot_block h c p h' \<longleftrightarrow> heap_ok h' \<and> p \<noteq> 0 \<and> slot_size c dvd p \<and> (p, slot_size c) \<notin> heap_live h
     \<and> heap_live h' = insert (p, slot_size c) (heap_live h) \<and> (\<exists>b \<in> heap_pages h'. b \<le> p \<and> p + slot_size c \<le> b + PAGE_SIZE)"

lemma heap_alloc_cases:
  assumes ok: "heap_ok h" and c: "layout_to_allocator l = Some c" "c \<noteq> S4096"
    and src: "page_source_ok ap m (heap_pages h)"
  shows "if \<not> sa_full (slot_get c h)
    then \<exists>p h'. heap_alloc ap h l m = Some (p, h', m) \<and> slot_block h c p h' \<and> heap_pages h' = heap_pages h
    else case ap m 1 of
        None \<Rightarrow> heap_alloc ap h l m = None
      | Some (Inl e, m') \<Rightarrow> heap_alloc ap h l m = Some (0, h, m')
      | Some (Inr b, m') \<Rightarrow> \<exists>p h'. heap_alloc ap h l m = Some (p, h', m') \<and> slot_block h c p h' \<and> heap_pages h' = insert b (heap_pages h)"
proof -
  let ?a = "slot_get c h"
  from ok have aok: "allocator_ok ?a" by (auto simp: heap_ok_def)
  have "sa_pages ?a \<subseteq> heap_pages h" by (auto simp: heap_pages_def)
  note cases = slab_alloc_cases [OF aok page_source_ok_mono [OF src this]]
  show ?thesis
  proof (cases "sa_full ?a")
    case False
    with cases obtain p a' where r: "slab_alloc ap ?a m = Some (Ok p, a', m)" "object_served ?a p a'" "sa_pages a' = sa_pages ?a"
      by auto
    from slot_served [OF ok r(2), of "{}"] r(3) have "slot_block h c p (slot_set c a' h)" by (simp add: slot_block_def)
    with r False heap_pages_same [OF r(3)] show ?thesis by (simp add: heap_alloc_def c)
  next
    case True
    consider "ap m 1 = None" | e m' where "ap m 1 = Some (Err e, m')" | b m' where "ap m 1 = Some (Ok b, m')"
      by (metis option.exhaust prod.exhaust sum.exhaust)
    then show ?thesis
    proof cases
      case (3 b m')
      from cases True 3 slot_object_count [OF ok c(2)] obtain p a' where
        r: "slab_alloc ap ?a m = Some (Ok p, a', m')" "object_served ?a p a'" "sa_pages a' = insert b (sa_pages ?a)" by auto
      from src 3 have "b \<notin> heap_pages h" by (auto simp: page_source_ok_def)
      with slot_served [OF ok r(2), of "{b}"] r(3) have "slot_block h c p (slot_set c a' h)" by (simp add: slot_block_def)
      with r True 3 heap_pages_insert [OF r(3)] show ?thesis by (simp add: heap_alloc_def c)
    qed (use cases True in \<open>simp_all add: heap_alloc_def c\<close>)
  qed
qed

subsection \<open>The interface to the page source\<close>

text \<open>What the heap needs of the page source: \<open>ok m A n\<close> says that the pages of \<open>A\<close> are handed out and that at
  least \<open>n\<close> more requests for one page succeed.\<close>

fun heap_alloc_all :: "('m, 'e) page_alloc \<Rightarrow> Heap \<Rightarrow> 'm \<Rightarrow> Layout list \<Rightarrow> (nat list \<times> Heap \<times> 'm) option" where
  "heap_alloc_all ap h m [] = Some ([], h, m)"
| "heap_alloc_all ap h m (l # ls) = do {
     (p, h, m) \<leftarrow> heap_alloc ap h l m;
     (ps, h, m) \<leftarrow> heap_alloc_all ap h m ls;
     Some (p # ps, h, m) }"

locale page_source =
  fixes ap :: "('m, 'e) page_alloc" and ok :: "'m \<Rightarrow> nat set \<Rightarrow> nat \<Rightarrow> bool"
  assumes deliver: "ok m A (Suc n) \<Longrightarrow> \<exists>b m'. ap m 1 = Some (Ok b, m') \<and> page_ok b \<and> b \<notin> A \<and> ok m' (insert b A) n"
    and weaken: "ok m A (Suc n) \<Longrightarrow> ok m A n"
begin

lemma alloc_one:
  assumes h: "heap_ok h" "heap_pages h \<subseteq> A" and m: "ok m A (Suc n)"
    and l: "is_power_of_two (ly_align l)" "ly_align l \<le> 2048" "ly_size (pad_to_align l) \<le> 2048"
  shows "\<exists>p h' m' A' k. heap_alloc ap h l m = Some (p, h', m') \<and> heap_ok h' \<and> heap_pages h' \<subseteq> A' \<and> ok m' A' n \<and> A \<subseteq> A'
    \<and> p \<noteq> 0 \<and> ly_align l dvd p \<and> ly_size l \<le> k \<and> (p, k) \<notin> heap_live h \<and> heap_live h' = insert (p, k) (heap_live h)
    \<and> (\<exists>b \<in> A'. b \<le> p \<and> p + k \<le> b + PAGE_SIZE)"
proof -
  from deliver [OF m] obtain b m1 where b: "ap m 1 = Some (Ok b, m1)" "page_ok b" "b \<notin> A" "ok m1 (insert b A) n" by blast
  with h(2) have src: "page_source_ok ap m (heap_pages h)" by (auto simp: page_source_ok_def)
  from layout_to_allocator_total [OF l(3,2)] obtain c where c: "layout_to_allocator l = Some c" "c \<noteq> S4096" by metis
  note fits = layout_to_allocator_fits [OF c(1) l(1)]
  have "\<exists>p h' m'. heap_alloc ap h l m = Some (p, h', m') \<and> slot_block h c p h'
      \<and> (heap_pages h' = heap_pages h \<and> m' = m \<or> m' = m1 \<and> heap_pages h' = insert b (heap_pages h))"
    using heap_alloc_cases [OF h(1) c src] b(1) by (cases "sa_full (slot_get c h)") auto
  then obtain p h' m' where r: "heap_alloc ap h l m = Some (p, h', m')" "heap_ok h'" "p \<noteq> 0"
    "slot_size c dvd p" "(p, slot_size c) \<notin> heap_live h" "heap_live h' = insert (p, slot_size c) (heap_live h)"
    "\<exists>b \<in> heap_pages h'. b \<le> p \<and> p + slot_size c \<le> b + PAGE_SIZE"
    and pg: "heap_pages h' = heap_pages h \<and> m' = m \<or> m' = m1 \<and> heap_pages h' = insert b (heap_pages h)"
    unfolding slot_block_def by blast
  have "\<exists>A'. heap_pages h' \<subseteq> A' \<and> ok m' A' n \<and> A \<subseteq> A'"
  proof (cases "heap_pages h' = heap_pages h \<and> m' = m")
    case True
    then show ?thesis using h(2) weaken [OF m] by blast
  next
    case False
    with pg b(1) have "m' = m1" "heap_pages h' = insert b (heap_pages h)" by auto
    then show ?thesis using b(4) h(2) by (intro exI [of _ "insert b A"]) auto
  qed
  then obtain A' where "heap_pages h' \<subseteq> A'" "ok m' A' n" "A \<subseteq> A'" by blast
  then show ?thesis using r fits dvd_trans [OF fits(2) r(4)] by blast
qed

lemma alloc_all:
  assumes "heap_ok h" and "heap_pages h \<subseteq> A" and "ok m A (length ls + n)"
    and "\<forall>l \<in> set ls. is_power_of_two (ly_align l) \<and> ly_align l \<le> 2048 \<and> ly_size (pad_to_align l) \<le> 2048"
  shows "\<exists>bs h' m' A'. heap_alloc_all ap h m ls = Some (map fst bs, h', m') \<and> heap_ok h' \<and> heap_pages h' \<subseteq> A' \<and> ok m' A' n \<and> A \<subseteq> A'
    \<and> list_all2 (\<lambda>l b. fst b \<noteq> 0 \<and> ly_align l dvd fst b \<and> ly_size l \<le> snd b \<and> (\<exists>a \<in> A'. a \<le> fst b \<and> fst b + snd b \<le> a + PAGE_SIZE)) ls bs
    \<and> distinct bs \<and> heap_live h' = set bs \<union> heap_live h \<and> set bs \<inter> heap_live h = {}"
  using assms
proof (induction ls arbitrary: h m A)
  case Nil
  then show ?case by auto
next
  case (Cons l ls)
  have m: "ok m A (Suc (length ls + n))" using Cons.prems(3) by simp
  from Cons.prems(4) have "is_power_of_two (ly_align l)" "ly_align l \<le> 2048" "ly_size (pad_to_align l) \<le> 2048" by simp_all
  from alloc_one [OF Cons.prems(1,2) m this] obtain p h1 m1 A1 k where
    a: "heap_alloc ap h l m = Some (p, h1, m1)" "heap_ok h1" "heap_pages h1 \<subseteq> A1" "ok m1 A1 (length ls + n)" "A \<subseteq> A1" "p \<noteq> 0"
    "ly_align l dvd p" "ly_size l \<le> k" "(p, k) \<notin> heap_live h" "heap_live h1 = insert (p, k) (heap_live h)"
    "\<exists>b \<in> A1. b \<le> p \<and> p + k \<le> b + PAGE_SIZE" by blast
  from Cons.prems(4) have "\<forall>l \<in> set ls. is_power_of_two (ly_align l) \<and> ly_align l \<le> 2048 \<and> ly_size (pad_to_align l) \<le> 2048" by simp
  from Cons.IH [OF a(2-4) this] obtain bs h' m' A' where
    r: "heap_alloc_all ap h1 m1 ls = Some (map fst bs, h', m')" "heap_ok h'" "heap_pages h' \<subseteq> A'" "ok m' A' n" "A1 \<subseteq> A'"
    "list_all2 (\<lambda>l b. fst b \<noteq> 0 \<and> ly_align l dvd fst b \<and> ly_size l \<le> snd b \<and> (\<exists>a \<in> A'. a \<le> fst b \<and> fst b + snd b \<le> a + PAGE_SIZE)) ls bs"
    "distinct bs" "heap_live h' = set bs \<union> heap_live h1" "set bs \<inter> heap_live h1 = {}" by blast
  show ?case
    using a r by (intro exI [of _ "(p, k) # bs"] exI [of _ h'] exI [of _ m'] exI [of _ A']) auto
qed

end

lemma heap_dealloc_live:
  assumes ok: "heap_ok h" and c: "layout_to_allocator l = Some c" and live: "(p, slot_size c) \<in> heap_live h" and "p \<noteq> 0"
  obtains h' where "heap_dealloc h p l = Some h'" and "heap_ok h'" and "heap_live h' = heap_live h - {(p, slot_size c)}"
    and "heap_pages h' = heap_pages h"
proof -
  let ?a = "slot_get c h"
  from ok have aok: "allocator_ok ?a" and lay: "sa_layout ?a = slot_layout c" by (auto simp: heap_ok_def)
  from live have p: "p \<in> sa_live ?a" by (simp add: heap_live_slot)
  from slab_dealloc_cases [OF aok, of p] p lay obtain a' where a': "slab_dealloc ?a p = Some (Ok (), a')" "allocator_ok a'"
    "sa_layout a' = slot_layout c" "sa_pages a' = sa_pages ?a" "sa_live a' = sa_live ?a - {p}" by auto
  have "heap_ok (slot_set c a' h)" using heap_ok_update [OF ok a'(2,3), of "{}"] a'(4) by simp
  moreover have "heap_live (slot_set c a' h) = heap_live h - {(p, slot_size c)}"
    unfolding heap_live_set a'(5) using heap_live_slot by fastforce
  ultimately show ?thesis using that a'(1) heap_pages_same [OF a'(4)] \<open>p \<noteq> 0\<close> by (simp add: heap_dealloc_def c)
qed

text \<open>What it means that a heap \<open>h\<close> has served a block at \<open>p\<close> for the layout \<open>l\<close> and is then \<open>h'\<close>; the last
  conjunct is the way back: freeing the block with its layout.\<close>

definition block_served :: "Heap \<Rightarrow> Layout \<Rightarrow> nat \<Rightarrow> Heap \<Rightarrow> bool" where
  "block_served h l p h' \<longleftrightarrow> heap_ok h' \<and> p \<noteq> 0 \<and> ly_align l dvd p
     \<and> (\<forall>(q, n) \<in> heap_live h. p + ly_size l \<le> q \<or> q + n \<le> p)
     \<and> (\<exists>n \<ge> ly_size l. heap_live h' = insert (p, n) (heap_live h) \<and> (p, n) \<notin> heap_live h
          \<and> (\<exists>b \<in> heap_pages h'. b \<le> p \<and> p + n \<le> b + PAGE_SIZE))
     \<and> (\<exists>h''. heap_dealloc h' p l = Some h'' \<and> heap_ok h'' \<and> heap_live h'' = heap_live h \<and> heap_pages h'' = heap_pages h')"

lemma slot_block_served:
  assumes "slot_block h c p h'" and "layout_to_allocator l = Some c" and "is_power_of_two (ly_align l)"
  shows "block_served h l p h'"
proof -
  from assms(1) have p: "heap_ok h'" "p \<noteq> 0" "slot_size c dvd p" "(p, slot_size c) \<notin> heap_live h"
    "heap_live h' = insert (p, slot_size c) (heap_live h)" "\<exists>b \<in> heap_pages h'. b \<le> p \<and> p + slot_size c \<le> b + PAGE_SIZE"
    unfolding slot_block_def by blast+
  note fits = layout_to_allocator_fits [OF assms(2,3)]
  have apart: "\<forall>(q, n) \<in> heap_live h. p + ly_size l \<le> q \<or> q + n \<le> p"
    using heap_live_apart [OF p(1), of p "slot_size c"] p(4,5) fits(1) by fastforce
  from p(5) have "(p, slot_size c) \<in> heap_live h'" by simp
  from heap_dealloc_live [OF p(1) assms(2) this p(2)] obtain h''
    where "heap_dealloc h' p l = Some h''" "heap_ok h''" "heap_live h'' = heap_live h" "heap_pages h'' = heap_pages h'"
    using p(4,5) by (metis Diff_insert_absorb)
  then show ?thesis using p fits apart unfolding block_served_def by (blast intro: dvd_trans)
qed

text \<open>C12: A request of at most 2048 bytes, aligned to at most 2048, whatever the page source does.  When the
  slot of the size class has a free object, a block is served without asking the page source.  Otherwise
  one page is asked for: if the source panics the request panics (the kernel's source does so when frames
  run out), if it fails with an error the pointer is null and the heap is unchanged, and if it delivers a
  page a block is served from it.  A served block is not null, aligned as asked, holds the requested size inside one page of the
  heap, overlaps no live block of any size class, and exactly it becomes live.  Freeing it with
  its layout succeeds and makes the live blocks what they were, while the heap keeps its pages.\<close>
theorem heap_alloc_correct:
  assumes "heap_ok h" and "is_power_of_two (ly_align l)" and "ly_align l \<le> 2048" and "ly_size (pad_to_align l) \<le> 2048"
    and "page_source_ok ap m (heap_pages h)"
  shows "\<exists>c. layout_to_allocator l = Some c
    \<and> (if \<not> sa_full (slot_get c h)
       then \<exists>p h'. heap_alloc ap h l m = Some (p, h', m) \<and> block_served h l p h' \<and> heap_pages h' = heap_pages h
       else case ap m 1 of
           None \<Rightarrow> heap_alloc ap h l m = None
         | Some (Inl e, m') \<Rightarrow> heap_alloc ap h l m = Some (0, h, m')
         | Some (Inr b, m') \<Rightarrow> \<exists>p h'. heap_alloc ap h l m = Some (p, h', m') \<and> block_served h l p h' \<and> heap_pages h' = insert b (heap_pages h))"
proof -
  from layout_to_allocator_total [OF assms(4,3)] obtain c where c: "layout_to_allocator l = Some c" "c \<noteq> S4096" by metis
  from heap_alloc_cases [OF assms(1) c assms(5)] c(1) show ?thesis
    using slot_block_served [OF _ c(1) assms(2)]
    by (intro exI [of _ c]) (fastforce split: option.splits prod.splits sum.splits if_splits)
qed

theorem heap_alloc_correct_witness:
  "\<exists>h p h' m'. heap_new = Some h
     \<and> heap_alloc (\<lambda>(n::nat) _. Some (Ok n :: unit + nat, n + 4096)) h \<lparr> ly_size = 100, ly_align = 8 \<rparr> 8192 = Some (p, h', 12288)
     \<and> block_served h \<lparr> ly_size = 100, ly_align = 8 \<rparr> p h' \<and> heap_pages h' = {8192}
     \<and> heap_alloc (\<lambda>(n::nat) _. None :: ((unit + nat) \<times> nat) option) h \<lparr> ly_size = 100, ly_align = 8 \<rparr> 8192 = None"
proof -
  let ?ap = "\<lambda>(n::nat) _. Some (Ok n :: unit + nat, n + 4096)" and ?l = "\<lparr> ly_size = 100, ly_align = 8 \<rparr>"
  let ?no = "\<lambda>(n::nat) _. None :: ((unit + nat) \<times> nat) option"
  obtain h where h: "heap_new = Some h" "heap_ok h" "heap_pages h = {}" using heap_new_ok by metis
  then have full: "sa_full (slot_get c h)" for c by (auto simp: heap_pages_def sa_pages_def sa_full_def)
  have l: "is_power_of_two (ly_align ?l)" "ly_align ?l \<le> 2048" "ly_size (pad_to_align ?l) \<le> 2048"
    using is_power_of_two_pow2 [of 3] by (simp_all add: pad_to_align_def div_ceil_def)
  have "page_source_ok ?ap 8192 (heap_pages h)"
    by (rule example_page_source) (simp_all add: h USIZE_LIM_def)
  from heap_alloc_correct [OF h(2) l this] full h(3) obtain p h' where
    "heap_alloc ?ap h ?l 8192 = Some (p, h', 12288)" "block_served h ?l p h'" "heap_pages h' = {8192}" by auto
  moreover have "page_source_ok ?no 8192 (heap_pages h)" by (simp add: page_source_ok_def)
  from heap_alloc_correct [OF h(2) l this] full have "heap_alloc ?no h ?l 8192 = None" by auto
  ultimately show ?thesis using h(1) by blast
qed

text \<open>A block of more than 2048 bytes is never served: the slot for 4096-byte blocks has room
  for no object, so every such allocation returns null although the page source delivered a
  page, which stays attached to the heap as a further slab of capacity 0.\<close>
theorem heap_large_alloc_null:
  assumes "heap_ok h" and "2048 < ly_size (pad_to_align l)" and "ly_size (pad_to_align l) \<le> 4096" and "ly_align l \<le> 4096"
    and "ap m 1 = Some (Ok b, m')" and "page_ok b" and "b \<notin> heap_pages h"
  shows "\<exists>h'. heap_alloc ap h l m = Some (0, h', m') \<and> heap_live h' = heap_live h \<and> heap_pages h' = insert b (heap_pages h)"
proof -
  let ?a = "slot_get S4096 h"
  have "ly_align (pad_to_align l) = ly_align l" by (simp add: pad_to_align_def)
  with assms(2-4) have c: "layout_to_allocator l = Some S4096" by (simp add: layout_to_allocator_def Let_def)
  from assms(1) have aok: "allocator_ok ?a" and lay: "sa_layout ?a = slot_layout S4096"
    unfolding heap_ok_def by blast+
  have large: "sa_object_count ?a = 0"
    using object_count_bound(3) [of "sa_layout ?a" "sa_object_count ?a"] aok unfolding allocator_ok_def lay by (simp add: slot_layout_def)
  have b: "b \<notin> sa_pages ?a" using assms(7) unfolding heap_pages_def by blast
  obtain s where s: "slab_alloc ap ?a m = Some (Err SlabFullInternalError, ?a \<lparr> sa_slabs := sa_slabs ?a @ [s] \<rparr>, m')"
    "slab_live (sa_layout ?a) s = {}" "sb_buffer s = b"
    by (rule slab_alloc_no_room [where ap = ap and m = m, OF aok large assms(5,6) b]) (rule that)
  then have "heap_alloc ap h l m = Some (0, slot_set S4096 (?a \<lparr> sa_slabs := sa_slabs ?a @ [s] \<rparr>) h, m')"
    by (simp add: heap_alloc_def c)
  moreover have "heap_live (slot_set S4096 (?a \<lparr> sa_slabs := sa_slabs ?a @ [s] \<rparr>) h) = heap_live h"
    by (rule heap_live_same) (use s(2) in \<open>simp add: sa_live_def slabs_live_append\<close>)
  moreover have "heap_pages (slot_set S4096 (?a \<lparr> sa_slabs := sa_slabs ?a @ [s] \<rparr>) h) = insert b (heap_pages h)"
    by (rule heap_pages_insert) (simp add: sa_pages_def s(3))
  ultimately show ?thesis by blast
qed

theorem heap_large_alloc_null_witness:
  "\<exists>h h'. heap_new = Some h
     \<and> heap_alloc (\<lambda>(n::nat) _. Some (Ok n :: unit + nat, n + 4096)) h \<lparr> ly_size = 3000, ly_align = 8 \<rparr> 8192 = Some (0, h', 12288)
     \<and> heap_pages h' = {8192}"
proof -
  obtain h where h: "heap_new = Some h" "heap_ok h" "heap_pages h = {}" using heap_new_ok by metis
  from heap_large_alloc_null [OF h(2), of "\<lparr> ly_size = 3000, ly_align = 8 \<rparr>" "\<lambda>(n::nat) _. Some (Ok n :: unit + nat, n + 4096)" 8192 8192 12288]
  show ?thesis using h by (auto simp: pad_to_align_def div_ceil_def page_ok_def slab_sizes USIZE_LIM_def)
qed

lemma heap_reap_slots_frame:
  "heap_reap_slots fp cs n h m = Some (n', h', m') \<Longrightarrow> c \<notin> set cs \<Longrightarrow> slot_get c h' = slot_get c h"
proof (induction cs arbitrary: n h m)
  case (Cons d cs)
  then obtain k a m1 n1 where "slab_reap fp (slot_get d h) m = Some (k, a, m1)"
    "heap_reap_slots fp cs n1 (slot_set d a h) m1 = Some (n', h', m')"
    by (auto split: Option.bind_splits)
  with Cons.IH [of n1 "slot_set d a h" m1] Cons.prems(2) show ?case by simp
qed simp

lemma heap_reap_slots_ok:
  "heap_reap_slots fp cs n h m = Some (n', h', m') \<Longrightarrow> heap_ok h \<Longrightarrow> heap_ok h' \<and> heap_live h' = heap_live h"
proof (induction cs arbitrary: n h m)
  case (Cons d cs)
  then obtain k a m1 n1 where r: "slab_reap fp (slot_get d h) m = Some (k, a, m1)"
    "heap_reap_slots fp cs n1 (slot_set d a h) m1 = Some (n', h', m')"
    by (auto split: Option.bind_splits)
  from Cons.prems(2) have aok: "allocator_ok (slot_get d h)" and lay: "sa_layout (slot_get d h) = slot_layout d"
    by (auto simp: heap_ok_def)
  obtain dead where a: "allocator_ok a" "sa_layout a = slot_layout d"
    "sa_live a = sa_live (slot_get d h)" "sa_slabs (slot_get d h) = dead @ sa_slabs a"
  proof (rule slab_reap_spec [OF aok, of fp m])
    fix dead :: "Slab list" and a'
    assume "slab_reap fp (slot_get d h) m = map_option (\<lambda>m'. (length dead, a', m')) (free_each fp 1 (map sb_buffer dead) m)"
    with r(1) have "a' = a" by auto
    moreover assume "sa_slabs (slot_get d h) = dead @ sa_slabs a'" "allocator_ok a'"
      "sa_layout a' = sa_layout (slot_get d h)" "sa_live a' = sa_live (slot_get d h)"
    ultimately show thesis using that lay by simp
  qed
  from a(4) have "sa_pages a \<subseteq> sa_pages (slot_get d h) \<union> {}" by (auto simp: sa_pages_def)
  from heap_ok_update [OF Cons.prems(2) a(1,2) this] have "heap_ok (slot_set d a h)" by simp
  moreover have "heap_live (slot_set d a h) = heap_live h"
    by (rule heap_live_same) (rule a(3))
  ultimately show ?case using Cons.IH [OF r(2)] by simp
qed simp

text \<open>Reaping the heap keeps every live block and the invariant, but never touches the slot
  for 32-byte blocks: its empty pages are not given back.\<close>
theorem heap_reap_correct:
  assumes "heap_ok h" and "heap_reap fp h m = Some (n, h', m')"
  shows "heap_ok h' \<and> heap_live h' = heap_live h \<and> slab_32 h' = slab_32 h"
proof -
  from assms(2) have r: "heap_reap_slots fp [S64, S128, S256, S512, S1024, S2048, S4096] 0 h m = Some (n, h', m')"
    by (simp only: heap_reap_def)
  have "slot_get S32 h' = slot_get S32 h" by (rule heap_reap_slots_frame [OF r]) simp
  with heap_reap_slots_ok [OF r assms(1)] show ?thesis by simp
qed

theorem heap_reap_correct_witness:
  "\<exists>h n h' m'. heap_new = Some h
     \<and> heap_reap (\<lambda>m p n. Some (Ok () :: unit + unit, m @ [p])) h ([] :: nat list) = Some (n, h', m') \<and> heap_ok h'"
proof -
  obtain h where h: "heap_new = Some h" "heap_ok h" "heap_pages h = {}" using heap_new_ok by metis
  then have "sa_slabs (slot_get c h) = []" for c by (auto simp: heap_pages_def sa_pages_def)
  from this [of S64] this [of S128] this [of S256] this [of S512] this [of S1024] this [of S2048] this [of S4096]
  have "heap_reap (\<lambda>m p n. Some (Ok () :: unit + unit, m @ [p])) h ([] :: nat list) \<noteq> None"
    by (simp add: heap_reap_def slab_reap_def USIZE_LIM_def uadd_def)
  then obtain n h' m' where "heap_reap (\<lambda>m p n. Some (Ok () :: unit + unit, m @ [p])) h ([] :: nat list) = Some (n, h', m')"
    by auto
  with h(1) heap_reap_correct [OF h(2) this] show ?thesis by blast
qed

end
