(* ===== verification/Buddy_Blocks.thy ===== *)
theory Buddy_Blocks
  imports Prelude
begin

text \<open>
  The mathematics of buddy blocks, without the allocator's data structures.  A block
  \<open>(i, a)\<close> of level \<open>i\<close> at byte address \<open>a\<close> covers \<open>2 ^ i\<close> pages.  The abstract state of
  the physical memory manager is the set of its free blocks; the invariant says that the
  blocks are aligned to their size, lie below the end of memory and do not overlap.
\<close>

subsection \<open>Blocks and buddies\<close>

definition BASIC_PAGE_SIZE :: usize where
  "BASIC_PAGE_SIZE = 4096"

definition bsz :: "nat \<Rightarrow> nat" where
  "bsz i = 2 ^ (i + 12)"

definition blk :: "nat \<Rightarrow> nat \<Rightarrow> nat set" where
  "blk i a = {a..<a + bsz i}"

definition buddy :: "nat \<Rightarrow> nat \<Rightarrow> nat" where
  "buddy i a = (if bsz (Suc i) dvd a then a + bsz i else a - bsz i)"

definition parent :: "nat \<Rightarrow> nat \<Rightarrow> nat" where
  "parent i a = min a (buddy i a)"

definition bytes :: "(nat \<times> nat) set \<Rightarrow> nat set" where
  "bytes F = (\<Union>(i, a) \<in> F. blk i a)"

definition blocks_ok :: "nat \<Rightarrow> nat \<Rightarrow> (nat \<times> nat) set \<Rightarrow> bool" where
  "blocks_ok L M F \<longleftrightarrow>
     (\<forall>(i, a) \<in> F. i < L \<and> bsz i dvd a \<and> a + bsz i \<le> M)
     \<and> (\<forall>(i, a) \<in> F. \<forall>(j, b) \<in> F. (i, a) \<noteq> (j, b) \<longrightarrow> blk i a \<inter> blk j b = {})"

definition coalesced :: "(nat \<times> nat) set \<Rightarrow> bool" where
  "coalesced F \<longleftrightarrow> (\<forall>(i, a) \<in> F. (i, buddy i a) \<notin> F)"

lemma bsz_pos [simp]: "0 < bsz i"
  by (simp add: bsz_def)

lemma bsz_neq0 [simp]: "bsz i \<noteq> 0"
  by (simp add: bsz_def)

lemma bsz_Suc: "bsz (Suc i) = 2 * bsz i"
  by (simp add: bsz_def power_add)

lemma bsz_pages: "bsz i = 2 ^ i * BASIC_PAGE_SIZE"
  by (simp add: bsz_def BASIC_PAGE_SIZE_def power_add)

lemma bsz_less_iff [simp]: "bsz i < bsz j \<longleftrightarrow> i < j"
  by (simp add: bsz_def)

lemma bsz_le_iff [simp]: "bsz i \<le> bsz j \<longleftrightarrow> i \<le> j"
  by (simp add: bsz_def)

lemma bsz_dvd: "i \<le> j \<Longrightarrow> bsz i dvd bsz j"
  by (simp add: bsz_def le_imp_power_dvd)

lemma bsz_not_dvd_diff: "bsz i dvd a \<Longrightarrow> \<not> bsz (Suc i) dvd a \<Longrightarrow> bsz i \<le> a \<and> bsz (Suc i) dvd a - bsz i"
proof -
  assume "bsz i dvd a" and n: "\<not> bsz (Suc i) dvd a"
  then obtain k where k: "a = bsz i * k" by (elim dvdE)
  with n have "odd k" by (auto simp: bsz_Suc)
  then obtain m where "k = 2 * m + 1" by (elim oddE)
  with k have "a = bsz (Suc i) * m + bsz i" by (simp add: bsz_Suc algebra_simps)
  then show ?thesis by simp
qed

lemma buddy_aligned: "bsz i dvd a \<Longrightarrow> bsz i dvd buddy i a"
  using bsz_dvd [of i "Suc i"] bsz_not_dvd_diff [of i a] by (auto simp: buddy_def intro: dvd_trans)

lemma buddy_neq: "bsz i dvd a \<Longrightarrow> buddy i a \<noteq> a"
  using bsz_not_dvd_diff [of i a] bsz_pos [of i] by (auto simp: buddy_def)

lemma buddy_buddy:
  assumes "bsz i dvd a"
  shows "buddy i (buddy i a) = a"
proof (cases "bsz (Suc i) dvd a")
  case True
  have "\<not> bsz (Suc i) dvd a + bsz i"
  proof
    assume "bsz (Suc i) dvd a + bsz i"
    with True have "bsz (Suc i) dvd bsz i" by (simp add: dvd_add_right_iff)
    then have "bsz (Suc i) \<le> bsz i" by (rule dvd_imp_le) simp
    then show False by simp
  qed
  with True show ?thesis by (simp add: buddy_def)
next
  case False
  with bsz_not_dvd_diff [OF assms] show ?thesis by (simp add: buddy_def)
qed

lemma parent_aligned: "bsz i dvd a \<Longrightarrow> bsz (Suc i) dvd parent i a"
  using bsz_not_dvd_diff [of i a] bsz_pos [of i] by (auto simp: parent_def buddy_def min_def simp del: bsz_pos)

lemma blk_disjoint_buddy: "bsz i dvd a \<Longrightarrow> blk i a \<inter> blk i (buddy i a) = {}"
  using bsz_not_dvd_diff [of i a] by (auto simp: blk_def buddy_def)

lemma blk_parent: "bsz i dvd a \<Longrightarrow> blk (Suc i) (parent i a) = blk i a \<union> blk i (buddy i a)"
  using bsz_not_dvd_diff [of i a] by (auto simp: blk_def buddy_def parent_def min_def bsz_Suc)

lemma parent_bound: "bsz i dvd a \<Longrightarrow> a + bsz i \<le> M \<Longrightarrow> buddy i a + bsz i \<le> M \<Longrightarrow> parent i a + bsz (Suc i) \<le> M"
  using bsz_not_dvd_diff [of i a] by (auto simp: buddy_def parent_def min_def bsz_Suc)

lemma blk_eq_iff: "blk i a = blk i b \<longleftrightarrow> a = b"
  by (auto simp: blk_def atLeastLessThan_eq_iff)

lemma blk_nonempty [simp]: "a \<in> blk i a" "blk i a \<noteq> {}"
  by (auto simp: blk_def)

subsection \<open>Sets of blocks\<close>

lemma bytes_insert [simp]: "bytes (insert (i, a) F) = blk i a \<union> bytes F"
  by (auto simp: bytes_def)

lemma bytes_empty [simp]: "bytes {} = {}"
  by (simp add: bytes_def)

lemma bytes_Un: "bytes (F \<union> G) = bytes F \<union> bytes G"
  by (auto simp: bytes_def)

lemma blk_subset_bytes: "(i, a) \<in> F \<Longrightarrow> blk i a \<subseteq> bytes F"
  by (auto simp: bytes_def)

lemma blocks_ok_empty [simp]: "blocks_ok L M {}"
  by (simp add: blocks_ok_def)

lemma blocks_okD:
  assumes "blocks_ok L M F" and "(i, a) \<in> F"
  shows "i < L" "bsz i dvd a" "a + bsz i \<le> M"
  using assms by (auto simp: blocks_ok_def)

lemma blocks_ok_disjoint:
  "blocks_ok L M F \<Longrightarrow> (i, a) \<in> F \<Longrightarrow> (j, b) \<in> F \<Longrightarrow> (i, a) \<noteq> (j, b) \<Longrightarrow> blk i a \<inter> blk j b = {}"
  unfolding blocks_ok_def by fast

lemma blocks_ok_subset: "blocks_ok L M F \<Longrightarrow> G \<subseteq> F \<Longrightarrow> blocks_ok L M G"
  unfolding blocks_ok_def by blast

lemma bytes_remove:
  assumes "blocks_ok L M F" and "(i, a) \<in> F"
  shows "bytes (F - {(i, a)}) = bytes F - blk i a"
proof
  show "bytes (F - {(i, a)}) \<subseteq> bytes F - blk i a"
  proof
    fix x
    assume "x \<in> bytes (F - {(i, a)})"
    then obtain j b where jb: "(j, b) \<in> F" "(j, b) \<noteq> (i, a)" "x \<in> blk j b" by (auto simp: bytes_def)
    then have "blk i a \<inter> blk j b = {}" using blocks_ok_disjoint [OF assms] by metis
    with jb show "x \<in> bytes F - blk i a" by (auto simp: bytes_def)
  qed
qed (auto simp: bytes_def)

lemma blocks_ok_insert:
  assumes "blocks_ok L M F" and "i < L" and "bsz i dvd a" and "a + bsz i \<le> M" and "blk i a \<inter> bytes F = {}"
  shows "blocks_ok L M (insert (i, a) F)"
proof -
  have d: "blk i a \<inter> blk j b = {}" if "(j, b) \<in> F" for j b
    using blk_subset_bytes [OF that] assms(5) by blast
  have "blk j b \<inter> blk k c = {}"
    if "(j, b) \<in> insert (i, a) F" "(k, c) \<in> insert (i, a) F" "(j, b) \<noteq> (k, c)" for j b k c
    using that d blocks_ok_disjoint [OF assms(1)] by blast
  moreover have "j < L \<and> bsz j dvd b \<and> b + bsz j \<le> M" if "(j, b) \<in> insert (i, a) F" for j b
    using that assms(2-4) blocks_okD [OF assms(1)] by auto
  ultimately show ?thesis unfolding blocks_ok_def by blast
qed

lemma blocks_ok_notin:
  "blk i a \<inter> bytes F = {} \<Longrightarrow> (i, a) \<notin> F"
  using blk_subset_bytes [of i a F] blk_nonempty(1) [of a i] by blast

lemma bytes_bound: "blocks_ok L M F \<Longrightarrow> bytes F \<subseteq> {..<M}"
  by (fastforce simp: bytes_def blk_def dest: blocks_okD)

subsection \<open>Splitting a block\<close>

text \<open>The blocks that \<open>disband\<close> pushes and the block it ends at, when it starts from the block of
  level \<open>s\<close> at \<open>a\<close> and goes up \<open>n\<close> levels.\<close>

fun split_off :: "nat \<Rightarrow> nat \<Rightarrow> nat \<Rightarrow> (nat \<times> nat) list" where
  "split_off s a 0 = []"
| "split_off s a (Suc n) = (s, buddy s a) # split_off (Suc s) (parent s a) n"

fun ancestor :: "nat \<Rightarrow> nat \<Rightarrow> nat \<Rightarrow> nat" where
  "ancestor s a 0 = a"
| "ancestor s a (Suc n) = ancestor (Suc s) (parent s a) n"

lemma parent_round:
  assumes "bsz i dvd a" and that: "Suc i \<le> u"
  shows "parent i a - parent i a mod bsz u = a - a mod bsz u"
proof (cases "bsz (Suc i) dvd a")
  case True
  then show ?thesis by (simp add: parent_def buddy_def)
next
  case False
  note n = bsz_not_dvd_diff [OF assms(1) False]
  have par: "parent i a = a - bsz i" using False by (simp add: parent_def buddy_def)
  from that bsz_dvd [of "Suc i" u] have "bsz (Suc i) dvd bsz u" by simp
  then obtain m where m: "bsz u = bsz (Suc i) * m" by (elim dvdE)
  from n obtain k where k: "a - bsz i = bsz (Suc i) * k" by (elim conjE dvdE)
  have m0: "0 < m" using m bsz_pos [of u] by (cases m) auto
  have "(a - bsz i) div bsz u = k div m" by (simp add: k m)
  moreover have "a div bsz u = k div m"
  proof -
    have "a = bsz (Suc i) * k + bsz i" using k n by simp
    then have "a div bsz (Suc i) = k" using bsz_pos [of "Suc i"] by (simp add: bsz_Suc)
    then show ?thesis by (simp add: m div_mult2_eq)
  qed
  ultimately show ?thesis
    by (simp add: par minus_mod_eq_div_mult)
qed

lemma ancestor_round: "bsz s dvd a \<Longrightarrow> ancestor s a n = a - a mod bsz (s + n)"
proof (induction n arbitrary: s a)
  case 0
  then show ?case by simp
next
  case (Suc n)
  from Suc.IH [OF parent_aligned [OF Suc.prems]] parent_round [OF Suc.prems, of "s + Suc n"]
  show ?case by simp
qed

lemma split_off_bytes:
  assumes "bsz s dvd a"
  shows "bytes (set (split_off s a n)) = blk (s + n) (ancestor s a n) - blk s a
    \<and> blk s a \<subseteq> blk (s + n) (ancestor s a n)"
  using assms
proof (induction n arbitrary: s a)
  case (Suc n)
  note IH = Suc.IH [OF parent_aligned [OF Suc.prems]]
  from IH blk_parent [OF Suc.prems] blk_disjoint_buddy [OF Suc.prems] show ?case by auto
qed simp

lemma split_off_ok:
  assumes "bsz s dvd a" and "s + n < L" and "ancestor s a n + bsz (s + n) \<le> M"
  shows "blocks_ok L M (set (split_off s a n))"
  using assms
proof (induction n arbitrary: s a)
  case (Suc n)
  note al = parent_aligned [OF Suc.prems(1)]
  have ok: "blocks_ok L M (set (split_off (Suc s) (parent s a) n))"
    using Suc.IH [OF al] Suc.prems by simp
  have sub: "blk (Suc s) (parent s a) \<subseteq> blk (Suc s + n) (ancestor (Suc s) (parent s a) n)"
    and eq: "bytes (set (split_off (Suc s) (parent s a) n))
      = blk (Suc s + n) (ancestor (Suc s) (parent s a) n) - blk (Suc s) (parent s a)"
    using split_off_bytes [OF al] by blast+
  have "blk s (buddy s a) \<subseteq> blk (Suc s) (parent s a)" using blk_parent [OF Suc.prems(1)] by blast
  with sub have in_anc: "blk s (buddy s a) \<subseteq> blk (Suc s + n) (ancestor (Suc s) (parent s a) n)" by blast
  have "buddy s a + bsz s - 1 \<in> blk s (buddy s a)" by (simp add: blk_def) (use bsz_pos [of s] in linarith)
  with in_anc have "buddy s a + bsz s \<le> M" using Suc.prems(3) by (auto simp: blk_def)
  moreover have "blk s (buddy s a) \<inter> bytes (set (split_off (Suc s) (parent s a) n)) = {}"
    using eq \<open>blk s (buddy s a) \<subseteq> blk (Suc s) (parent s a)\<close> by blast
  ultimately show ?case
    using blocks_ok_insert [OF ok] Suc.prems(2) buddy_aligned [OF Suc.prems(1)] by simp
qed simp

text \<open>The buddy of every block split off still contains the block kept.\<close>

lemma split_off_buddy:
  "bsz s dvd a \<Longrightarrow> (i, x) \<in> set (split_off s a n) \<Longrightarrow> blk s a \<subseteq> blk i (buddy i x)"
proof (induction n arbitrary: s a)
  case (Suc n)
  from Suc.prems(2) consider "i = s" "x = buddy s a" | "(i, x) \<in> set (split_off (Suc s) (parent s a) n)"
    by auto
  then show ?case
  proof cases
    case 1
    then show ?thesis using buddy_buddy [OF Suc.prems(1)] by simp
  next
    case 2
    from Suc.IH [OF parent_aligned [OF Suc.prems(1)] this] blk_parent [OF Suc.prems(1)]
    show ?thesis by blast
  qed
qed simp

lemma coalesced_split:
  assumes "coalesced F" and "G \<subseteq> F" and al: "bsz s dvd a" and ok: "blocks_ok L M F"
    and dis: "blk s a \<inter> bytes (G \<union> set (split_off s a n)) = {}"
  shows "coalesced (G \<union> set (split_off s a n))"
proof -
  let ?F = "G \<union> set (split_off s a n)"
  have no: "\<not> blk s a \<subseteq> blk i x" if "(i, x) \<in> ?F" for i x
    using blk_subset_bytes [OF that] dis blk_nonempty(1) [of a s] by blast
  have "(i, buddy i x) \<notin> ?F" if ix: "(i, x) \<in> ?F" for i x
  proof
    assume b: "(i, buddy i x) \<in> ?F"
    show False
    proof (cases "(i, x) \<in> set (split_off s a n)")
      case True
      then show False using split_off_buddy [OF al] no [OF b] by blast
    next
      case False
      then have xG: "(i, x) \<in> G" using ix by blast
      then have "bsz i dvd x" using blocks_okD(2) [OF ok] assms(2) by blast
      moreover have "(i, buddy i x) \<notin> G" using xG assms(1,2) by (auto simp: coalesced_def)
      ultimately show False
        using b split_off_buddy [OF al, of i "buddy i x" n] no [OF ix] by (simp add: buddy_buddy)
    qed
  qed
  then show ?thesis by (auto simp: coalesced_def)
qed

end
