(* ===== verification/Buddy.thy ===== *)
theory Buddy
  imports LinkedList Buddy_Blocks Mem_Addr "HOL-Library.Multiset"
begin

text \<open>
  The physical memory manager of \<open>pmm/src\<close>: the buddy allocator of \<open>buddy.rs\<close> on the linked
  lists of \<open>linkedlist.rs\<close>, at the level of their pointers.  The state is the heap of list
  nodes together with the zones (one list of free blocks per level) and the list of spare
  nodes; \<open>unwrap\<close>, \<open>assert!\<close>, \<open>unreachable!\<close> and arithmetic overflow are the value
  \<open>None\<close>.  The predicate \<open>buddy_inv\<close> relates a state to the set of its free blocks
  (theory \<open>Buddy_Blocks\<close>) and the number of its spare nodes, and every operation is specified by
  what it does to the set of free bytes.
\<close>

subsection \<open>Data\<close>

datatype PmmError =
    OutOfBounds | NoAvailableBlock | FreeOfAlreadyFree | InvalidAlignment
  | InvalidAddress | EmptyAllocation | EmptyFree | TooBigAllocation

record BuddyAllocator =
  ba_zones :: "LinkedList list"
  ba_freelist :: LinkedList

type_synonym nodes = "PhysAddr dheap"

definition MIN_ZONE_LEVEL :: usize where
  "MIN_ZONE_LEVEL = 12"

definition FREELIST_BUCKETS_SIZE :: usize where
  "FREELIST_BUCKETS_SIZE = 0x200000"

definition buddy_uninit :: BuddyAllocator where
  "buddy_uninit = \<lparr> ba_zones = [], ba_freelist = ll_new \<rparr>"

subsection \<open>Searching a zone\<close>

text \<open>The data an iterator over a list yields, in order.\<close>

fun load_all :: "'a dheap \<Rightarrow> nat list \<Rightarrow> 'a list option" where
  "load_all h [] = Some []"
| "load_all h (p # ps) = do {
     n \<leftarrow> h p;
     xs \<leftarrow> load_all h ps;
     Some (dn_data n # xs) }"

definition ll_iter_list :: "'a dheap \<Rightarrow> LinkedList \<Rightarrow> 'a list option" where
  "ll_iter_list h l = do {
     ps \<leftarrow> ll_iter_collect h (ll_iter l);
     load_all h ps }"

text \<open>\<open>iter_nodes().enumerate().find(..)\<close> with a closure that may panic.\<close>

fun find_pos :: "('a \<Rightarrow> bool option) \<Rightarrow> nat \<Rightarrow> 'a list \<Rightarrow> (nat \<times> 'a) option option" where
  "find_pos f k [] = Some None"
| "find_pos f k (x # xs) = do {
     b \<leftarrow> f x;
     if b then Some (Some (k, x)) else find_pos f (Suc k) xs }"

definition zone_find :: "nodes \<Rightarrow> BuddyAllocator \<Rightarrow> nat \<Rightarrow> (PhysAddr \<Rightarrow> bool option) \<Rightarrow> (nat \<times> PhysAddr) option option" where
  "zone_find h b i f = do {
     z \<leftarrow> idx (ba_zones b) i;
     xs \<leftarrow> ll_iter_list h z;
     find_pos f 0 xs }"

subsection \<open>Zones\<close>

definition get_buddy_addr :: "PhysAddr \<Rightarrow> usize \<Rightarrow> PhysAddr option" where
  "get_buddy_addr addr zone_index = do {
     e \<leftarrow> uadd zone_index MIN_ZONE_LEVEL;
     bucket_size \<leftarrow> upow2 e;
     r \<leftarrow> umod addr bucket_size;
     _ \<leftarrow> ensure (r = 0);
     d \<leftarrow> umul bucket_size 2;
     r2 \<leftarrow> umod addr d;
     if r2 = 0 then uadd addr bucket_size else usub addr bucket_size }"

definition determine_next_bucket_addr :: "PhysAddr \<Rightarrow> PhysAddr \<Rightarrow> PhysAddr" where
  "determine_next_bucket_addr addr buddy_addr = min addr buddy_addr"

definition pop_from_zone :: "nodes \<Rightarrow> BuddyAllocator \<Rightarrow> usize \<Rightarrow> usize \<Rightarrow> (nodes \<times> BuddyAllocator) option" where
  "pop_from_zone h b zone_index node_index = do {
     z \<leftarrow> idx (ba_zones b) zone_index;
     (r, h, z) \<leftarrow> ll_remove_at_node h z node_index;
     node \<leftarrow> r;
     (h, fl) \<leftarrow> ll_push_node_back h (ba_freelist b) node;
     Some (h, b \<lparr> ba_zones := (ba_zones b) [zone_index := z], ba_freelist := fl \<rparr>) }"

definition push_to_zone :: "nodes \<Rightarrow> BuddyAllocator \<Rightarrow> PhysAddr \<Rightarrow> usize \<Rightarrow> (nodes \<times> BuddyAllocator) option" where
  "push_to_zone h b buddy_addr zone_index = do {
     (r, h, fl) \<leftarrow> ll_pop_node_back h (ba_freelist b);
     buddy \<leftarrow> r;
     n \<leftarrow> h buddy;
     let h = h(buddy \<mapsto> n \<lparr> dn_data := buddy_addr \<rparr>);
     z \<leftarrow> idx (ba_zones b) zone_index;
     (h, z) \<leftarrow> ll_push_node_back h z buddy;
     Some (h, b \<lparr> ba_zones := (ba_zones b) [zone_index := z], ba_freelist := fl \<rparr>) }"

text \<open>The loops \<open>for i in start_index..self.zones.len()\<close> run over the list of the indices.\<close>

fun find_bucket_loop :: "nodes \<Rightarrow> BuddyAllocator \<Rightarrow> usize \<Rightarrow> usize list
    \<Rightarrow> ((PmmError + PhysAddr \<times> usize) \<times> nodes \<times> BuddyAllocator) option" where
  "find_bucket_loop h b alignment [] = Some (Err NoAvailableBlock, h, b)"
| "find_bucket_loop h b alignment (i # is) = do {
     found \<leftarrow> zone_find h b i (\<lambda>a. do { m \<leftarrow> umul BASIC_PAGE_SIZE alignment; r \<leftarrow> umod a m; Some (r = 0) });
     (case found of
        Some (pos, ret) \<Rightarrow> do {
          (h, b) \<leftarrow> pop_from_zone h b i pos;
          Some (Ok (ret, i), h, b) }
      | None \<Rightarrow> find_bucket_loop h b alignment is) }"

definition find_bucket :: "nodes \<Rightarrow> BuddyAllocator \<Rightarrow> usize \<Rightarrow> usize
    \<Rightarrow> ((PmmError + PhysAddr \<times> usize) \<times> nodes \<times> BuddyAllocator) option" where
  "find_bucket h b alignment start_index =
     find_bucket_loop h b alignment [start_index..<length (ba_zones b)]"

text \<open>The closure that tests whether the bucket at \<open>a\<close> of the given size contains \<open>addr\<close>; \<open>&&\<close>
  computes the end of the bucket only when the start is not above \<open>addr\<close>.\<close>

definition bucket_contains :: "PhysAddr \<Rightarrow> usize \<Rightarrow> PhysAddr \<Rightarrow> bool option" where
  "bucket_contains addr bucket_size a =
     (if a \<le> addr then do { e \<leftarrow> uadd a bucket_size; Some (addr < e) } else Some False)"

fun find_bucket_at_loop :: "nodes \<Rightarrow> BuddyAllocator \<Rightarrow> PhysAddr \<Rightarrow> usize list
    \<Rightarrow> ((PmmError + usize) \<times> nodes \<times> BuddyAllocator) option" where
  "find_bucket_at_loop h b addr [] = Some (Err NoAvailableBlock, h, b)"
| "find_bucket_at_loop h b addr (i # is) = do {
     p \<leftarrow> upow2 i;
     bucket_size \<leftarrow> umul p BASIC_PAGE_SIZE;
     found \<leftarrow> zone_find h b i (bucket_contains addr bucket_size);
     (case found of
        Some (pos, _) \<Rightarrow> do {
          (h, b) \<leftarrow> pop_from_zone h b i pos;
          Some (Ok i, h, b) }
      | None \<Rightarrow> find_bucket_at_loop h b addr is) }"

definition find_bucket_at :: "nodes \<Rightarrow> BuddyAllocator \<Rightarrow> PhysAddr \<Rightarrow> usize
    \<Rightarrow> ((PmmError + usize) \<times> nodes \<times> BuddyAllocator) option" where
  "find_bucket_at h b addr start_index =
     find_bucket_at_loop h b addr [start_index..<length (ba_zones b)]"

fun disband_loop :: "nodes \<Rightarrow> BuddyAllocator \<Rightarrow> PhysAddr \<Rightarrow> usize list \<Rightarrow> (nodes \<times> BuddyAllocator) option" where
  "disband_loop h b addr [] = Some (h, b)"
| "disband_loop h b addr (i # is) = do {
     buddy_addr \<leftarrow> get_buddy_addr addr i;
     (h, b) \<leftarrow> push_to_zone h b buddy_addr i;
     disband_loop h b (determine_next_bucket_addr addr buddy_addr) is }"

definition disband :: "nodes \<Rightarrow> BuddyAllocator \<Rightarrow> PhysAddr \<Rightarrow> usize \<Rightarrow> usize \<Rightarrow> (nodes \<times> BuddyAllocator) option" where
  "disband h b addr start_index used_index = disband_loop h b addr [start_index..<used_index]"

fun coalesce_loop :: "nodes \<Rightarrow> BuddyAllocator \<Rightarrow> PhysAddr \<Rightarrow> usize list \<Rightarrow> (nodes \<times> BuddyAllocator) option" where
  "coalesce_loop h b addr [] = None"
| "coalesce_loop h b addr (i # is) = do {
     buddy_addr \<leftarrow> get_buddy_addr addr i;
     found \<leftarrow> zone_find h b i (\<lambda>a. Some (a = buddy_addr));
     (case found of
        Some (pos, _) \<Rightarrow> do {
          (h, b) \<leftarrow> pop_from_zone h b i pos;
          coalesce_loop h b (determine_next_bucket_addr addr buddy_addr) is }
      | None \<Rightarrow> push_to_zone h b addr i) }"

definition coalesce :: "nodes \<Rightarrow> BuddyAllocator \<Rightarrow> PhysAddr \<Rightarrow> usize \<Rightarrow> (nodes \<times> BuddyAllocator) option" where
  "coalesce h b addr start_index = coalesce_loop h b addr [start_index..<length (ba_zones b)]"

subsection \<open>The allocator's interface\<close>

definition buddy_allocate_at :: "nodes \<Rightarrow> BuddyAllocator \<Rightarrow> PhysAddr \<Rightarrow> usize
    \<Rightarrow> ((PmmError + unit) \<times> nodes \<times> BuddyAllocator) option" where
  "buddy_allocate_at h b addr page_count =
     (if page_count = 0 then Some (Err EmptyAllocation, h, b)
      else do {
        max_pages \<leftarrow> upow2 (length (ba_zones b));
        if max_pages < page_count then Some (Err TooBigAllocation, h, b)
        else do {
          sz \<leftarrow> umul BASIC_PAGE_SIZE page_count;
          r \<leftarrow> umod addr sz;
          if r \<noteq> 0 then Some (Err InvalidAlignment, h, b)
          else case checked_next_power_of_two page_count of
            None \<Rightarrow> Some (Err NoAvailableBlock, h, b)
          | Some page_count \<Rightarrow> do {
              start_index \<leftarrow> ilog2 page_count;
              (found, h, b) \<leftarrow> find_bucket_at h b addr start_index;
              (case found of
                 Inl e \<Rightarrow> Some (Err e, h, b)
               | Inr used_index \<Rightarrow> do {
                   (h, b) \<leftarrow> disband h b addr start_index used_index;
                   Some (Ok (), h, b) }) } } })"

definition buddy_allocate :: "nodes \<Rightarrow> BuddyAllocator \<Rightarrow> usize \<Rightarrow> usize
    \<Rightarrow> ((PmmError + PhysAddr) \<times> nodes \<times> BuddyAllocator) option" where
  "buddy_allocate h b alignment page_count =
     (if page_count = 0 then Some (Err EmptyAllocation, h, b)
      else do {
        max_pages \<leftarrow> upow2 (length (ba_zones b));
        if max_pages < page_count then Some (Err TooBigAllocation, h, b)
        else if \<not> is_power_of_two alignment then Some (Err InvalidAlignment, h, b)
        else case checked_next_power_of_two page_count of
          None \<Rightarrow> Some (Err NoAvailableBlock, h, b)
        | Some page_count \<Rightarrow> do {
            start_index \<leftarrow> ilog2 page_count;
            (found, h, b) \<leftarrow> find_bucket h b alignment start_index;
            (case found of
               Inl e \<Rightarrow> Some (Err e, h, b)
             | Inr (used_addr, used_index) \<Rightarrow> do {
                 (h, b) \<leftarrow> disband h b used_addr start_index used_index;
                 Some (Ok used_addr, h, b) }) } })"

fun is_page_free_loop :: "nodes \<Rightarrow> BuddyAllocator \<Rightarrow> PhysAddr \<Rightarrow> usize list \<Rightarrow> bool option" where
  "is_page_free_loop h b addr [] = Some False"
| "is_page_free_loop h b addr (i # is) = do {
     p \<leftarrow> upow2 i;
     bucket_size \<leftarrow> umul p BASIC_PAGE_SIZE;
     found \<leftarrow> zone_find h b i (bucket_contains addr bucket_size);
     (case found of Some _ \<Rightarrow> Some True | None \<Rightarrow> is_page_free_loop h b addr is) }"

definition buddy_is_page_free :: "nodes \<Rightarrow> BuddyAllocator \<Rightarrow> PhysAddr \<Rightarrow> usize \<Rightarrow> (PmmError + bool) option" where
  "buddy_is_page_free h b addr page_count =
     (if page_count = 0 then Some (Err EmptyAllocation)
      else do {
        sz \<leftarrow> umul BASIC_PAGE_SIZE page_count;
        r \<leftarrow> umod addr sz;
        if r \<noteq> 0 then Some (Err InvalidAlignment)
        else case checked_next_power_of_two page_count of
          None \<Rightarrow> Some (Err NoAvailableBlock)
        | Some page_count \<Rightarrow> do {
            start_index \<leftarrow> ilog2 page_count;
            r \<leftarrow> is_page_free_loop h b addr [start_index..<length (ba_zones b)];
            Some (Ok r) } })"

definition buddy_free :: "nodes \<Rightarrow> BuddyAllocator \<Rightarrow> PhysAddr \<Rightarrow> usize
    \<Rightarrow> ((PmmError + unit) \<times> nodes \<times> BuddyAllocator) option" where
  "buddy_free h b addr page_count =
     (if page_count = 0 then Some (Err EmptyFree, h, b)
      else do {
        fr \<leftarrow> buddy_is_page_free h b addr page_count;
        (case fr of
           Inl e \<Rightarrow> Some (Err e, h, b)
         | Inr is_free \<Rightarrow>
             if is_free then Some (Err FreeOfAlreadyFree, h, b)
             else case checked_next_power_of_two page_count of
               None \<Rightarrow> Some (Err NoAvailableBlock, h, b)
             | Some page_count \<Rightarrow> do {
                 zone_index \<leftarrow> ilog2 page_count;
                 (h, b) \<leftarrow> coalesce h b addr zone_index;
                 Some (Ok (), h, b) }) })"

subsection \<open>Building the allocator from the memory map\<close>

text \<open>The boot loader's memory map is input data.  Its entry types are those the code names.\<close>

datatype EntryType =
    USABLE | BOOTLOADER_RECLAIMABLE | ACPI_RECLAIMABLE | EXECUTABLE_AND_MODULES | FRAMEBUFFER | OtherEntry nat

record MemEntry =
  me_base :: usize
  me_length :: usize
  me_type :: EntryType

definition get_page_count_from_mem_map :: "MemEntry list \<Rightarrow> usize option" where
  "get_page_count_from_mem_map mem_map = do {
     last_descr \<leftarrow> find (\<lambda>e. me_type e \<in> {USABLE, BOOTLOADER_RECLAIMABLE, ACPI_RECLAIMABLE, EXECUTABLE_AND_MODULES})
       (rev mem_map);
     end_addr \<leftarrow> uadd (me_base last_descr) (me_length last_descr);
     udiv end_addr BASIC_PAGE_SIZE }"

text \<open>\<open>for i in (0..self.zones.len()).rev()\<close>: the largest aligned bucket that fits.\<close>

fun pick_bucket :: "usize \<Rightarrow> usize \<Rightarrow> usize list \<Rightarrow> usize option option" where
  "pick_bucket addr_id total_page_count [] = Some None"
| "pick_bucket addr_id total_page_count (i # is) = do {
     page_count \<leftarrow> upow2 i;
     r \<leftarrow> umod addr_id page_count;
     if r = 0 \<and> page_count \<le> total_page_count then Some (Some page_count)
     else pick_bucket addr_id total_page_count is }"

lemma pick_bucket_pos: "pick_bucket n t is = Some (Some pc) \<Longrightarrow> 0 < pc \<and> pc \<le> t"
  by (induction "is") (auto split: bind_splits if_splits)

function break_loop :: "nodes \<Rightarrow> BuddyAllocator \<Rightarrow> usize \<Rightarrow> usize \<Rightarrow> (nodes \<times> BuddyAllocator) option" where
  "break_loop h b addr_id total_page_count =
     (if total_page_count = 0 then Some (h, b)
      else case pick_bucket addr_id total_page_count (rev [0..<length (ba_zones b)]) of
        None \<Rightarrow> None
      | Some None \<Rightarrow> None
      | Some (Some page_count) \<Rightarrow> do {
          a \<leftarrow> umul addr_id BASIC_PAGE_SIZE;
          (r, h, b) \<leftarrow> buddy_free h b a page_count;
          _ \<leftarrow> unwrap_ok r;
          n \<leftarrow> uadd addr_id page_count;
          break_loop h b n (total_page_count - page_count) })"
  by pat_completeness auto

termination break_loop
  by (relation "measure (\<lambda>(h, b, n, t). t)") (auto dest: pick_bucket_pos)

declare break_loop.simps [simp del]

definition break_into_buckets_n_free :: "nodes \<Rightarrow> BuddyAllocator \<Rightarrow> PhysAddr \<Rightarrow> usize \<Rightarrow> (nodes \<times> BuddyAllocator) option" where
  "break_into_buckets_n_free h b addr total_page_count = do {
     addr_id \<leftarrow> udiv addr BASIC_PAGE_SIZE;
     break_loop h b addr_id total_page_count }"

text \<open>Sizes and alignments of the two structures on the target: three words each.\<close>

definition SIZE_OF_LIST :: usize where
  "SIZE_OF_LIST = 24"

definition SIZE_OF_NODE :: usize where
  "SIZE_OF_NODE = 24"

definition ALIGN_OF_NODE :: usize where
  "ALIGN_OF_NODE = 8"

definition create_zones :: "usize \<Rightarrow> LinkedList list" where
  "create_zones zones_count = replicate zones_count ll_new"

fun push_nodes :: "nodes \<Rightarrow> LinkedList \<Rightarrow> nat list \<Rightarrow> (nodes \<times> LinkedList) option" where
  "push_nodes h l [] = Some (h, l)"
| "push_nodes h l (p # ps) = do {
     (h, l) \<leftarrow> ll_push_node_back h l p;
     push_nodes h l ps }"

definition create_freelist :: "nodes \<Rightarrow> usize \<Rightarrow> usize \<Rightarrow> (nodes \<times> LinkedList) option" where
  "create_freelist h zones_ptr max_zone_level = do {
     sz \<leftarrow> umul max_zone_level SIZE_OF_LIST;
     ptr \<leftarrow> uadd zones_ptr sz;
     let align_offset = (ALIGN_OF_NODE - ptr mod ALIGN_OF_NODE) mod ALIGN_OF_NODE;
     ptr \<leftarrow> uadd ptr align_offset;
     let buckets_count = FREELIST_BUCKETS_SIZE div SIZE_OF_NODE;
     push_nodes h ll_new (map (\<lambda>i. ptr + i * SIZE_OF_NODE) [0..<buckets_count]) }"

definition total_buffer_size :: "usize \<Rightarrow> usize option" where
  "total_buffer_size zones_count = do {
     zones_size \<leftarrow> umul zones_count SIZE_OF_LIST;
     align_to_add \<leftarrow> umod zones_size ALIGN_OF_NODE;
     x \<leftarrow> uadd zones_size align_to_add;
     uadd x FREELIST_BUCKETS_SIZE }"

definition buddy_new_from_limine :: "usize \<Rightarrow> nodes \<Rightarrow> MemEntry list
    \<Rightarrow> ((nodes \<times> BuddyAllocator) \<times> MemEntry \<times> usize) option" where
  "buddy_new_from_limine hhdm h mem_map = do {
     total_page_count \<leftarrow> get_page_count_from_mem_map mem_map;
     l \<leftarrow> ilog2 total_page_count;
     zones_count \<leftarrow> uadd l 1;
     size \<leftarrow> total_buffer_size zones_count;
     entry \<leftarrow> find (\<lambda>e. me_type e = USABLE \<and> size \<le> me_length e) mem_map;
     zones_ptr \<leftarrow> add_hhdm_offset hhdm (me_base entry);
     _ \<leftarrow> ensure (zones_ptr \<noteq> 0);
     (h, fl) \<leftarrow> create_freelist h zones_ptr zones_count;
     Some ((h, \<lparr> ba_zones = create_zones zones_count, ba_freelist = fl \<rparr>), entry, div_ceil size BASIC_PAGE_SIZE) }"

text \<open>Freeing every usable entry, then taking the pages of the allocator's own buffer.\<close>

fun free_usable :: "nodes \<Rightarrow> BuddyAllocator \<Rightarrow> MemEntry list \<Rightarrow> (nodes \<times> BuddyAllocator) option" where
  "free_usable h b [] = Some (h, b)"
| "free_usable h b (e # es) =
     (if me_type e = USABLE
      then do {
        page_count \<leftarrow> udiv (me_length e) BASIC_PAGE_SIZE;
        (h, b) \<leftarrow> break_into_buckets_n_free h b (me_base e) page_count;
        free_usable h b es }
      else free_usable h b es)"

fun take_pages :: "nodes \<Rightarrow> BuddyAllocator \<Rightarrow> PhysAddr \<Rightarrow> nat list \<Rightarrow> (nodes \<times> BuddyAllocator) option" where
  "take_pages h b base [] = Some (h, b)"
| "take_pages h b base (i # is) = do {
     off \<leftarrow> umul i BASIC_PAGE_SIZE;
     addr \<leftarrow> uadd base off;
     (r, h, b) \<leftarrow> buddy_allocate_at h b addr 1;
     _ \<leftarrow> unwrap_ok r;
     take_pages h b base is }"

definition buddy_init_from_limine :: "usize \<Rightarrow> nodes \<Rightarrow> MemEntry list \<Rightarrow> ((nodes \<times> BuddyAllocator) \<times> MemEntry) option" where
  "buddy_init_from_limine hhdm h mem_map = do {
     ((h, b), entry, page_count) \<leftarrow> buddy_new_from_limine hhdm h mem_map;
     (h, b) \<leftarrow> free_usable h b mem_map;
     (h, b) \<leftarrow> take_pages h b (me_base entry) [0..<page_count];
     Some ((h, b), entry) }"

subsection \<open>Representation\<close>

text \<open>The zones hold the addresses \<open>zs\<close> and there are \<open>k\<close> spare nodes; the nodes of all lists
  are pairwise distinct.\<close>

definition buddy_rep :: "nodes \<Rightarrow> BuddyAllocator \<Rightarrow> PhysAddr list list \<Rightarrow> nat \<Rightarrow> bool" where
  "buddy_rep h b zs k \<longleftrightarrow> (\<exists>nss fs.
     length nss = length (ba_zones b) \<and> length zs = length nss
     \<and> distinct (concat nss @ fs) \<and> length (concat nss @ fs) < USIZE_LIM
     \<and> (\<forall>i < length nss. linked_list h (ba_zones b ! i) (nss ! i) \<and> ll_contents h (nss ! i) = zs ! i)
     \<and> linked_list h (ba_freelist b) fs \<and> length fs = k)"

lemma linked_list_cong: "(\<And>q. q \<in> set ps \<Longrightarrow> h' q = h q) \<Longrightarrow> linked_list h' l ps = linked_list h l ps"
  using chain_cong [of ps h' h] by (simp add: linked_list_def)

lemma ll_contents_cong: "(\<And>q. q \<in> set ps \<Longrightarrow> h' q = h q) \<Longrightarrow> ll_contents h' ps = ll_contents h ps"
  by (simp add: ll_contents_def)

lemma mset_concat_update:
  "i < length nss \<Longrightarrow> mset (concat (nss [i := xs])) + mset (nss ! i) = mset (concat nss) + mset xs"
proof (induction nss arbitrary: i)
  case (Cons ns nss)
  then show ?case by (cases i) (simp_all add: ac_simps)
qed simp

lemma mset_remove_nth: "i < length xs \<Longrightarrow> mset (remove_nth i xs) + {# xs ! i #} = mset xs"
proof -
  assume i: "i < length xs"
  from remove_nth_split [OF i] obtain ys zs where
    xs: "xs = ys @ xs ! i # zs" and r: "remove_nth i xs = ys @ zs" by blast
  have "mset (ys @ xs ! i # zs) = mset (ys @ zs) + {# xs ! i #}" by simp
  with xs r show ?thesis by metis
qed

lemma ll_contents_remove_nth:
  "i < length ps \<Longrightarrow> ll_contents h (remove_nth i ps) = remove_nth i (ll_contents h ps)"
  by (simp add: ll_contents_def remove_nth_def take_map drop_map)

lemma nodes_disjoint:
  assumes "distinct (concat nss @ fs)" and "i < length nss"
  shows "set (nss ! i) \<inter> set fs = {}" "j < length nss \<Longrightarrow> j \<noteq> i \<Longrightarrow> set (nss ! i) \<inter> set (nss ! j) = {}"
    "distinct (nss ! i)"
proof -
  have sub: "set (nss ! i) \<subseteq> set (concat nss)" using assms(2) by (auto intro: nth_mem)
  then show "set (nss ! i) \<inter> set fs = {}" using assms(1) by auto
  show "distinct (nss ! i)" using assms by (auto simp: distinct_concat_iff)
  assume j: "j < length nss" "j \<noteq> i"
  have "distinct (concat nss)" using assms(1) by simp
  then show "set (nss ! i) \<inter> set (nss ! j) = {}"
    using assms(2) j
  proof (induction nss arbitrary: i j)
    case (Cons ns nss)
    have "set ns \<inter> set (nss ! k) = {}" if "k < length nss" for k
      using Cons.prems(1) that nth_mem [of k nss] by fastforce
    then show ?case using Cons by (cases i; cases j) auto
  qed simp
qed

text \<open>One step of replacing the nodes of zone \<open>i\<close> and of the spare list, when the new heap agrees
  with the old one on the nodes of the other zones.\<close>

lemma buddy_rep_update:
  assumes nss: "length nss = length (ba_zones b)" "length zs = length nss" "i < length nss"
    and d: "distinct (concat nss @ fs)" "length (concat nss @ fs) < USIZE_LIM"
    and zones: "\<forall>j < length nss. linked_list h (ba_zones b ! j) (nss ! j) \<and> ll_contents h (nss ! j) = zs ! j"
    and new: "linked_list h' z ns" "ll_contents h' ns = xs" "linked_list h' fl fs'" "length fs' = k'"
    and perm: "mset ns + mset fs' = mset (nss ! i) + mset fs"
    and frame: "\<And>j q. j < length nss \<Longrightarrow> j \<noteq> i \<Longrightarrow> q \<in> set (nss ! j) \<Longrightarrow> h' q = h q"
  shows "buddy_rep h' (b \<lparr> ba_zones := (ba_zones b) [i := z], ba_freelist := fl \<rparr>) (zs [i := xs]) k'"
proof -
  let ?nss = "nss [i := ns]"
  have m: "mset (concat ?nss @ fs') = mset (concat nss @ fs)"
  proof -
    have "mset (concat ?nss @ fs') + mset (nss ! i) = mset (concat nss) + mset ns + mset fs'"
      using mset_concat_update [OF nss(3), of ns] by (simp add: ac_simps)
    also have "\<dots> = mset (concat nss @ fs) + mset (nss ! i)"
      using perm by (simp add: ac_simps)
    finally show ?thesis by simp
  qed
  then have "distinct (concat ?nss @ fs')" "length (concat ?nss @ fs') < USIZE_LIM"
    using d mset_eq_imp_distinct_iff mset_eq_length by metis+
  moreover have "linked_list h' ((ba_zones b) [i := z] ! j) (?nss ! j) \<and> ll_contents h' (?nss ! j) = zs [i := xs] ! j"
    if "j < length nss" for j
  proof (cases "j = i")
    case False
    then show ?thesis
      using that zones frame [OF that False] linked_list_cong [of "nss ! j" h' h] ll_contents_cong [of "nss ! j" h' h]
      by simp
  qed (use that nss new in simp)
  ultimately show ?thesis
    unfolding buddy_rep_def using nss new by (intro exI [of _ ?nss] exI [of _ fs']) simp
qed

lemma load_all_contents: "set ps \<subseteq> dom h \<Longrightarrow> load_all h ps = Some (ll_contents h ps)"
  by (induction ps) (auto simp: ll_contents_def)

lemma ll_iter_list_spec: "linked_list h l ps \<Longrightarrow> ll_iter_list h l = Some (ll_contents h ps)"
  using ll_iter_collect_chain [of h None ps] linked_listD [of h l ps] load_all_contents [of ps h]
  by (simp add: ll_iter_list_def ll_iter_def)

lemma buddy_rep_length: "buddy_rep h b zs k \<Longrightarrow> length (ba_zones b) = length zs"
  by (auto simp: buddy_rep_def)

lemma zone_find_rep:
  assumes "buddy_rep h b zs k" and "i < length zs"
  shows "zone_find h b i f = find_pos f 0 (zs ! i)"
proof -
  from assms obtain ns where "linked_list h (ba_zones b ! i) ns" "ll_contents h ns = zs ! i"
    "i < length (ba_zones b)" by (auto simp: buddy_rep_def)
  then show ?thesis using ll_iter_list_spec [of h "ba_zones b ! i" ns] by (simp add: zone_find_def)
qed

text \<open>A node leaves one list for the back of another.\<close>

lemma move_node_out:
  assumes z: "linked_list h l ns" and fl: "linked_list h f fs" and dis: "set ns \<inter> set fs = {}" and ns: "distinct ns" "j < length ns"
    and lim: "Suc (length fs) < USIZE_LIM"
  obtains h1 l1 h2 f2 where "ll_remove_at_node h l j = Some (Some (ns ! j), h1, l1)" and "ll_push_node_back h1 f (ns ! j) = Some (h2, f2)"
    and "linked_list h2 l1 (remove_nth j ns)" and "linked_list h2 f2 (fs @ [ns ! j])"
    and "ll_contents h2 (remove_nth j ns) = remove_nth j (ll_contents h ns)" and "\<And>q. q \<notin> set ns \<union> set fs \<Longrightarrow> h2 q = h q"
proof -
  let ?p = "ns ! j"
  obtain h1 l1 where 1: "ll_remove_at_node h l j = Some (Some ?p, h1, l1)"
    "linked_list h1 l1 (remove_nth j ns)" "heap_data h1 = heap_data h" "\<forall>q. q \<notin> set ns \<longrightarrow> h1 q = h q"
    using ll_remove_at_node_spec [OF z ns(2)] by blast
  have p: "?p \<in> set ns" using ns(2) by simp
  with dis ns have p': "?p \<notin> set fs" "?p \<notin> set (remove_nth j ns)" by (blast, simp add: set_remove_nth)
  have fl1: "linked_list h1 f fs" using linked_list_cong [of fs h1 h] 1(4) dis fl by auto
  have "?p \<in> dom h1" using heap_data_dom [OF 1(3)] linked_listD(3) [OF z] p by blast
  then obtain h2 f2 where 2: "ll_push_node_back h1 f ?p = Some (h2, f2)" "linked_list h2 f2 (fs @ [?p])" "heap_data h2 = heap_data h1"
    "\<forall>q. q \<notin> insert ?p (set fs) \<longrightarrow> h2 q = h1 q"
    using ll_push_node_back_spec [OF fl1 _ p'(1) lim] by blast
  have "h2 q = h1 q" if "q \<in> set (remove_nth j ns)" for q
    using 2(4) that p'(2) dis ns by (auto simp: set_remove_nth)
  then have l1: "linked_list h2 l1 (remove_nth j ns)" using 1(2) linked_list_cong by blast
  have "set (remove_nth j ns) \<subseteq> dom h" using linked_listD(3) [OF z] ns by (auto simp: set_remove_nth)
  then have "ll_contents h2 (remove_nth j ns) = ll_contents h (remove_nth j ns)"
    using heap_data_contents 1(3) 2(3) by metis
  then have "ll_contents h2 (remove_nth j ns) = remove_nth j (ll_contents h ns)" by (simp add: ll_contents_remove_nth ns(2))
  moreover have "h2 q = h q" if "q \<notin> set ns \<union> set fs" for q using that p 1(4) 2(4) by (metis UnI1 UnI2 insertE)
  ultimately show ?thesis using 1(1) 2(1,2) l1 that by blast
qed

lemma pop_from_zone_rep:
  assumes "buddy_rep h b zs k" and i: "i < length zs" and j: "j < length (zs ! i)"
  shows "\<exists>h' b'. pop_from_zone h b i j = Some (h', b')
    \<and> buddy_rep h' b' (zs [i := remove_nth j (zs ! i)]) (Suc k)"
proof -
  from assms(1) obtain nss fs where r:
    "length nss = length (ba_zones b)" "length zs = length nss" "distinct (concat nss @ fs)"
    "length (concat nss @ fs) < USIZE_LIM"
    "\<forall>i < length nss. linked_list h (ba_zones b ! i) (nss ! i) \<and> ll_contents h (nss ! i) = zs ! i"
    "linked_list h (ba_freelist b) fs" "length fs = k" by (auto simp: buddy_rep_def)
  let ?ns = "nss ! i"
  have i': "i < length nss" and z: "linked_list h (ba_zones b ! i) ?ns" and c: "ll_contents h ?ns = zs ! i"
    using i r by auto
  have j': "j < length ?ns" using j c [symmetric] by (simp add: ll_contents_def)
  note dis = nodes_disjoint [OF r(3) i']
  have "?ns ! j \<in> set ?ns" using j' by simp
  then have "?ns ! j \<in> set (concat nss)" using i' by auto
  then have "0 < length (concat nss)" by (rule length_pos_if_in_set)
  moreover have "length (concat nss) + length fs < USIZE_LIM" using r(4) by simp
  ultimately have lim: "Suc (length fs) < USIZE_LIM" by linarith
  obtain h1 l1 h2 fl where m: "ll_remove_at_node h (ba_zones b ! i) j = Some (Some (?ns ! j), h1, l1)"
    "ll_push_node_back h1 (ba_freelist b) (?ns ! j) = Some (h2, fl)" "linked_list h2 l1 (remove_nth j ?ns)" "linked_list h2 fl (fs @ [?ns ! j])"
    "ll_contents h2 (remove_nth j ?ns) = remove_nth j (zs ! i)" and same: "\<And>q. q \<notin> set ?ns \<union> set fs \<Longrightarrow> h2 q = h q"
    using move_node_out [OF z r(6) dis(1,3) j' lim] unfolding c by blast
  have "mset (remove_nth j ?ns) + mset (fs @ [?ns ! j]) = mset ?ns + mset fs"
    using mset_remove_nth [OF j'] by (simp add: ac_simps)
  moreover have "h2 q = h q" if "j' < length nss" "j' \<noteq> i" "q \<in> set (nss ! j')" for j' q
    using that nodes_disjoint(1) [OF r(3) that(1)] dis(2) [OF that(1,2)] by (intro same) blast
  ultimately have "buddy_rep h2 (b \<lparr> ba_zones := (ba_zones b) [i := l1], ba_freelist := fl \<rparr>)
      (zs [i := remove_nth j (zs ! i)]) (Suc k)"
    using buddy_rep_update [OF r(1,2) i' r(3,4,5), of h2 l1 "remove_nth j ?ns"] m(3-5) r(7) by auto
  moreover have "idx (ba_zones b) i = Some (ba_zones b ! i)" using i' r(1) by simp
  ultimately show ?thesis using m(1,2) by (simp add: pop_from_zone_def)
qed

text \<open>The last node of a list gets new data and becomes the last node of another.\<close>

lemma move_node_in:
  assumes z: "linked_list h l ns" and fl: "linked_list h f (fs @ [p])" and dis: "set ns \<inter> set (fs @ [p]) = {}" "p \<notin> set fs"
    and lim: "Suc (length ns) < USIZE_LIM"
  obtains h1 f1 n h2 l2 where "ll_pop_node_back h f = Some (Some p, h1, f1)" and "h1 p = Some n"
    and "ll_push_node_back (h1(p \<mapsto> n \<lparr> dn_data := a \<rparr>)) l p = Some (h2, l2)"
    and "linked_list h2 l2 (ns @ [p])" and "linked_list h2 f1 fs" and "ll_contents h2 (ns @ [p]) = ll_contents h ns @ [a]"
    and "\<And>q. q \<notin> set ns \<union> set (fs @ [p]) \<Longrightarrow> h2 q = h q"
proof -
  have p: "p \<notin> set ns" using dis(1) by auto
  obtain h1 f1 where 1: "ll_pop_node_back h f = Some (Some p, h1, f1)" "linked_list h1 f1 fs" "heap_data h1 = heap_data h"
    "\<forall>q. q \<notin> set (fs @ [p]) \<longrightarrow> h1 q = h q"
    using ll_pop_node_back_spec [of h f fs p] fl by auto
  have "p \<in> dom h1" using heap_data_dom [OF 1(3)] linked_listD(3) [OF fl] by auto
  then obtain n where n: "h1 p = Some n" by blast
  let ?h = "h1(p \<mapsto> n \<lparr> dn_data := a \<rparr>)"
  have same: "?h q = h q" if "q \<in> set ns" for q using that 1(4) dis(1) p by auto
  have z1: "linked_list ?h l ns" using z linked_list_cong same by blast
  obtain h2 l2 where 2: "ll_push_node_back ?h l p = Some (h2, l2)" "linked_list h2 l2 (ns @ [p])" "heap_data h2 = heap_data ?h"
    "\<forall>q. q \<notin> insert p (set ns) \<longrightarrow> h2 q = ?h q"
    using ll_push_node_back_spec [OF z1, of p] p lim by auto
  have "ll_contents h2 (ns @ [p]) = ll_contents ?h (ns @ [p])" using linked_listD(3) [OF z1] by (intro heap_data_contents 2(3)) auto
  also have "\<dots> = ll_contents ?h ns @ [a]" by (simp add: ll_contents_def)
  also have "ll_contents ?h ns = ll_contents h ns" by (rule ll_contents_cong) (rule same)
  finally have cont: "ll_contents h2 (ns @ [p]) = ll_contents h ns @ [a]" .
  have "h2 q = h1 q" if "q \<in> set fs" for q using that 2(4) dis by auto
  then have "linked_list h2 f1 fs" using 1(2) linked_list_cong by blast
  moreover have "h2 q = h q" if "q \<notin> set ns \<union> set (fs @ [p])" for q using that 1(4) 2(4) by auto
  ultimately show ?thesis using 1(1) n 2(1,2) cont that by blast
qed

lemma push_to_zone_rep:
  assumes "buddy_rep h b zs (Suc k)" and i: "i < length zs"
  shows "\<exists>h' b'. push_to_zone h b a i = Some (h', b') \<and> buddy_rep h' b' (zs [i := zs ! i @ [a]]) k"
proof -
  from assms(1) obtain nss fs where r:
    "length nss = length (ba_zones b)" "length zs = length nss" "distinct (concat nss @ fs)"
    "length (concat nss @ fs) < USIZE_LIM"
    "\<forall>i < length nss. linked_list h (ba_zones b ! i) (nss ! i) \<and> ll_contents h (nss ! i) = zs ! i"
    "linked_list h (ba_freelist b) fs" "length fs = Suc k" by (auto simp: buddy_rep_def)
  then obtain fs' p where fs: "fs = fs' @ [p]" by (cases fs rule: rev_cases) auto
  let ?ns = "nss ! i"
  have i': "i < length nss" and z: "linked_list h (ba_zones b ! i) ?ns" and c: "ll_contents h ?ns = zs ! i"
    using i r by auto
  note dis = nodes_disjoint [OF r(3) i']
  have "length ?ns \<le> length (concat nss)" using i' by (auto simp: length_concat intro!: member_le_sum_list)
  then have lim: "Suc (length ?ns) < USIZE_LIM" using r(4,7) by simp
  have p: "p \<notin> set fs'" using r(3) by (simp add: fs)
  obtain h1 fl n h2 l2 where m: "ll_pop_node_back h (ba_freelist b) = Some (Some p, h1, fl)" "h1 p = Some n"
    "ll_push_node_back (h1(p \<mapsto> n \<lparr> dn_data := a \<rparr>)) (ba_zones b ! i) p = Some (h2, l2)"
    "linked_list h2 l2 (?ns @ [p])" "linked_list h2 fl fs'" "ll_contents h2 (?ns @ [p]) = zs ! i @ [a]"
    and same: "\<And>q. q \<notin> set ?ns \<union> set fs \<Longrightarrow> h2 q = h q"
    using move_node_in [OF z r(6) [unfolded fs] dis(1) [unfolded fs] p lim, of a] unfolding c fs by blast
  have "h2 q = h q" if "j < length nss" "j \<noteq> i" "q \<in> set (nss ! j)" for j q
    using that nodes_disjoint(1) [OF r(3) that(1)] dis(2) [OF that(1,2)] by (intro same) blast
  then have "buddy_rep h2 (b \<lparr> ba_zones := (ba_zones b) [i := l2], ba_freelist := fl \<rparr>)
      (zs [i := zs ! i @ [a]]) k"
    using buddy_rep_update [OF r(1,2) i' r(3,4,5) m(4,6), of fl fs' k] m(5) r(7) by (auto simp: fs)
  moreover have "idx (ba_zones b) i = Some (ba_zones b ! i)" using i' r(1) by simp
  ultimately show ?thesis using m(1-3) by (simp add: push_to_zone_def)
qed

subsection \<open>The invariant\<close>

definition zone_blocks :: "PhysAddr list list \<Rightarrow> (nat \<times> nat) set" where
  "zone_blocks zs = {(i, a). i < length zs \<and> a \<in> set (zs ! i)}"

text \<open>\<open>L\<close> is the number of zones and \<open>M\<close> the end of managed memory in bytes.  The top zone is
  more than half of the memory (\<open>new_from_limine\<close> takes one zone more than the logarithm of
  the page count), which is why coalescing never runs off the last zone.\<close>

definition mem_limits :: "nat \<Rightarrow> nat \<Rightarrow> bool" where
  "mem_limits L M \<longleftrightarrow> L \<le> 50 \<and> M < bsz L"

definition buddy_inv :: "nat \<Rightarrow> nat \<Rightarrow> nodes \<Rightarrow> BuddyAllocator \<Rightarrow> (nat \<times> nat) set \<Rightarrow> nat \<Rightarrow> bool" where
  "buddy_inv L M h b F k \<longleftrightarrow> (\<exists>zs. buddy_rep h b zs k \<and> length zs = L \<and> (\<forall>i < L. distinct (zs ! i))
     \<and> F = zone_blocks zs \<and> blocks_ok L M F) \<and> mem_limits L M"

lemma buddy_inv_length: "buddy_inv L M h b F k \<Longrightarrow> length (ba_zones b) = L"
  using buddy_rep_length by (auto simp: buddy_inv_def)

lemma buddy_inv_ok: "buddy_inv L M h b F k \<Longrightarrow> blocks_ok L M F \<and> mem_limits L M"
  by (auto simp: buddy_inv_def)

lemma buddy_inv_finite: "buddy_inv L M h b F k \<Longrightarrow> finite F"
proof -
  assume "buddy_inv L M h b F k"
  then obtain zs where "F = zone_blocks zs" by (auto simp: buddy_inv_def)
  moreover have "zone_blocks zs = (\<Union>i \<in> {..<length zs}. Pair i ` set (zs ! i))"
    by (auto simp: zone_blocks_def)
  ultimately show "finite F" by simp
qed

lemma card_take_out: "finite F \<Longrightarrow> x \<in> F \<Longrightarrow> Suc k + card (F - {x}) = k + card F"
  using card_Suc_Diff1 [of F x] by linarith

lemma find_pos_total:
  assumes "\<And>x. x \<in> set xs \<Longrightarrow> f x = Some (P x)"
  shows "find_pos f k xs = Some (map_option (\<lambda>j. (k + j, xs ! j)) (find_idx P xs))"
  using assms
proof (induction xs arbitrary: k)
  case (Cons x xs)
  then show ?case by (auto simp: option.map_comp comp_def)
qed simp

text \<open>Searching a zone either finds nothing or finds a free block that can be taken out.\<close>

lemma zone_find_cases [consumes 3, case_names none found]:
  assumes inv: "buddy_inv L M h b F k" and i: "i < L"
    and f: "\<forall>a. (i, a) \<in> F \<longrightarrow> f a = Some (P a)"
  obtains (none) "zone_find h b i f = Some None" "\<forall>a. (i, a) \<in> F \<longrightarrow> \<not> P a"
  | (found) pos a h' b' where "zone_find h b i f = Some (Some (pos, a))" "(i, a) \<in> F" "P a"
      "pop_from_zone h b i pos = Some (h', b')" "buddy_inv L M h' b' (F - {(i, a)}) (Suc k)"
proof -
  from inv obtain zs where zs: "buddy_rep h b zs k" "length zs = L" "\<forall>i < L. distinct (zs ! i)"
    "F = zone_blocks zs" "blocks_ok L M F" "mem_limits L M" by (auto simp: buddy_inv_def)
  have "zone_find h b i f = find_pos f 0 (zs ! i)" using zone_find_rep [OF zs(1)] i zs(2) by simp
  also have "\<dots> = Some (map_option (\<lambda>j. (j, zs ! i ! j)) (find_idx P (zs ! i)))"
    using find_pos_total [of "zs ! i" f P 0] f i zs(2,4) by (simp add: zone_blocks_def)
  finally have find: "zone_find h b i f = Some (map_option (\<lambda>j. (j, zs ! i ! j)) (find_idx P (zs ! i)))" .
  show thesis
  proof (cases "find_idx P (zs ! i)")
    case None
    then have "\<not> P a" if "(i, a) \<in> F" for a using that zs(4) by (auto simp: find_idx_None zone_blocks_def)
    with None find show thesis by (intro none) auto
  next
    case (Some j)
    then have j: "j < length (zs ! i)" "P (zs ! i ! j)" by (auto simp: find_idx_Some)
    let ?a = "zs ! i ! j" and ?zs = "zs [i := remove_nth j (zs ! i)]"
    obtain h' b' where pop: "pop_from_zone h b i j = Some (h', b')" "buddy_rep h' b' ?zs (Suc k)"
      using pop_from_zone_rep [OF zs(1) _ j(1)] i zs(2) by auto
    have d: "\<forall>k < L. distinct (?zs ! k)"
      using zs(2,3) i by (auto simp: nth_list_update distinct_remove_nth)
    have F: "zone_blocks ?zs = F - {(i, ?a)}"
      using i zs(2,3,4) j(1) by (auto simp: zone_blocks_def nth_list_update set_remove_nth split: if_splits)
    have "blocks_ok L M (F - {(i, ?a)})" by (rule blocks_ok_subset [OF zs(5)]) auto
    then have "buddy_inv L M h' b' (F - {(i, ?a)}) (Suc k)"
      unfolding buddy_inv_def using pop(2) d F zs(2,6) by (intro conjI exI [of _ ?zs]) simp_all
    moreover have "(i, ?a) \<in> F" using i j zs(2,4) by (simp add: zone_blocks_def)
    ultimately show thesis using found find Some j(2) pop(1) by simp
  qed
qed

lemma push_to_zone_inv:
  assumes inv: "buddy_inv L M h b F (Suc k)" and i: "i < L"
    and a: "bsz i dvd a" "a + bsz i \<le> M" "blk i a \<inter> bytes F = {}"
  shows "\<exists>h' b'. push_to_zone h b a i = Some (h', b') \<and> buddy_inv L M h' b' (insert (i, a) F) k"
proof -
  from inv obtain zs where zs: "buddy_rep h b zs (Suc k)" "length zs = L" "\<forall>i < L. distinct (zs ! i)"
    "F = zone_blocks zs" "blocks_ok L M F" "mem_limits L M" by (auto simp: buddy_inv_def)
  let ?zs = "zs [i := zs ! i @ [a]]"
  obtain h' b' where push: "push_to_zone h b a i = Some (h', b')" "buddy_rep h' b' ?zs k"
    using push_to_zone_rep [OF zs(1), of i a] i zs(2) by auto
  have "a \<notin> set (zs ! i)" using blocks_ok_notin [OF a(3)] i zs(2,4) by (simp add: zone_blocks_def)
  then have d: "\<forall>k < L. distinct (?zs ! k)" using zs(2,3) i by (auto simp: nth_list_update)
  have F: "zone_blocks ?zs = insert (i, a) F"
    using i zs(2,4) by (auto simp: zone_blocks_def nth_list_update split: if_splits)
  have "blocks_ok L M (insert (i, a) F)" by (rule blocks_ok_insert [OF zs(5) i a])
  then have "buddy_inv L M h' b' (insert (i, a) F) k"
    unfolding buddy_inv_def using push(2) d F zs(2,6) by (intro conjI exI [of _ ?zs]) simp_all
  with push(1) show ?thesis by blast
qed

lemma bsz_lt_USIZE_LIM: "i \<le> 51 \<Longrightarrow> bsz i < USIZE_LIM"
  by (simp add: bsz_def)

lemma get_buddy_addr_spec:
  assumes "bsz i dvd a" and "i < 50" and "a + bsz i < USIZE_LIM"
  shows "get_buddy_addr a i = Some (buddy i a)"
proof -
  have e: "uadd i MIN_ZONE_LEVEL = Some (i + 12)" and p: "upow2 (i + 12) = Some (bsz i)"
    using assms(2) by (simp_all add: MIN_ZONE_LEVEL_def USIZE_LIM_def bsz_def)
  have "bsz (Suc i) < USIZE_LIM" using assms(2) by (intro bsz_lt_USIZE_LIM) simp
  then have m: "umul (bsz i) 2 = Some (bsz (Suc i))" by (simp add: bsz_Suc)
  have r: "umod a (bsz i) = Some 0" "umod a (bsz (Suc i)) = Some (a mod bsz (Suc i))"
    using assms(1) by (simp_all add: mod_eq_0_iff_dvd [symmetric] umod_def)
  show ?thesis
  proof (cases "bsz (Suc i) dvd a")
    case True
    moreover have "uadd a (bsz i) = Some (a + bsz i)" using assms(3) by simp
    ultimately show ?thesis
      by (simp add: get_buddy_addr_def e p m r buddy_def mod_eq_0_iff_dvd)
  next
    case False
    then show ?thesis using bsz_not_dvd_diff [OF assms(1) False]
      by (simp add: get_buddy_addr_def e p m r buddy_def usub_def mod_eq_0_iff_dvd)
  qed
qed

lemma mem_limits_addr:
  assumes "mem_limits L M" and "i < L" and "a + bsz i \<le> M"
  shows "i < 50" "a + bsz i < USIZE_LIM" "a + bsz i + bsz i < USIZE_LIM"
proof -
  have L: "L \<le> 50" "M < bsz L" using assms(1) by (simp_all add: mem_limits_def)
  then show "i < 50" using assms(2) by simp
  have "bsz L < USIZE_LIM" "bsz (Suc L) < USIZE_LIM" using L(1) by (simp_all add: bsz_lt_USIZE_LIM)
  moreover have "bsz i \<le> bsz L" using assms(2) by simp
  ultimately show "a + bsz i < USIZE_LIM" "a + bsz i + bsz i < USIZE_LIM"
    using assms(3) L(2) by (simp_all add: bsz_Suc)
qed

subsection \<open>Splitting and merging\<close>

lemma blk_subset_bound: "blk i a \<subseteq> blk j b \<Longrightarrow> a + bsz i \<le> b + bsz j"
proof -
  assume "blk i a \<subseteq> blk j b"
  moreover have "a + bsz i - 1 \<in> blk i a" by (simp add: blk_def) (use bsz_pos [of i] in linarith)
  ultimately have "a + bsz i - 1 \<in> blk j b" by blast
  then show ?thesis by (auto simp: blk_def)
qed

lemma disband_loop_spec:
  assumes "buddy_inv L M h b F k" and "bsz s dvd a" and "s + n < L" and "ancestor s a n + bsz (s + n) \<le> M"
    and "bytes (set (split_off s a n)) \<inter> bytes F = {}" and "n \<le> k"
  shows "\<exists>h' b'. disband_loop h b a [s..<s + n] = Some (h', b')
    \<and> buddy_inv L M h' b' (F \<union> set (split_off s a n)) (k - n)
    \<and> k - n + card (F \<union> set (split_off s a n)) = k + card F"
  using assms
proof (induction n arbitrary: s a h b F k)
  case (Suc n)
  from Suc.prems(6) obtain k' where k: "k = Suc k'" by (cases k) auto
  note al = Suc.prems(2) and al' = parent_aligned [OF Suc.prems(2)]
  have ok: "blocks_ok L M (set (split_off s a (Suc n)))" using split_off_ok [OF al Suc.prems(3,4)] .
  have bd: "s < L" "bsz s dvd buddy s a" "buddy s a + bsz s \<le> M"
    using blocks_okD [OF ok, of s "buddy s a"] by simp_all
  have dis: "blk s (buddy s a) \<inter> bytes F = {}" using Suc.prems(5) by auto
  have "a + bsz s \<le> M"
    using blk_subset_bound conjunct2 [OF split_off_bytes [OF al, of "Suc n"]] Suc.prems(4) by (meson le_trans)
  then have gb: "get_buddy_addr a s = Some (buddy s a)"
    using mem_limits_addr [OF conjunct2 [OF buddy_inv_ok [OF Suc.prems(1)]] bd(1)] al
    by (simp add: get_buddy_addr_spec)
  obtain h1 b1 where 1: "push_to_zone h b (buddy s a) s = Some (h1, b1)"
    "buddy_inv L M h1 b1 (insert (s, buddy s a) F) k'"
    using push_to_zone_inv [OF Suc.prems(1) [unfolded k] bd dis] by blast
  have "blk s (buddy s a) \<subseteq> blk (Suc s) (parent s a)" using blk_parent [OF al] by blast
  then have "bytes (set (split_off (Suc s) (parent s a) n)) \<inter> bytes (insert (s, buddy s a) F) = {}"
    using split_off_bytes [OF al', of n] Suc.prems(5) by auto
  then obtain h2 b2 where "disband_loop h1 b1 (parent s a) [Suc s..<Suc s + n] = Some (h2, b2)"
    "buddy_inv L M h2 b2 (insert (s, buddy s a) F \<union> set (split_off (Suc s) (parent s a) n)) (k' - n)"
    "k' - n + card (insert (s, buddy s a) F \<union> set (split_off (Suc s) (parent s a) n))
      = k' + card (insert (s, buddy s a) F)"
    using Suc.IH [OF 1(2) al'] Suc.prems k by auto
  moreover have "card (insert (s, buddy s a) F) = Suc (card F)"
    using blocks_ok_notin [OF dis] buddy_inv_finite [OF Suc.prems(1)] by simp
  moreover have "[s..<s + Suc n] = s # [Suc s..<Suc s + n]" by (simp add: upt_conv_Cons)
  ultimately show ?case
    using gb 1(1) k by (simp add: determine_next_bucket_addr_def parent_def)
qed simp

text \<open>Taking a block out and giving back the parts that are not needed leaves exactly the
  requested block missing.\<close>

lemma disband_spec:
  assumes inv: "buddy_inv L M h b (F - {(u, c)}) (Suc k)" and F: "blocks_ok L M F" "(u, c) \<in> F"
    and s: "bsz s dvd a" "s \<le> u" "a \<in> blk u c" and k: "u \<le> s + Suc k"
  shows "\<exists>h' b' F'. disband h b a s u = Some (h', b') \<and> buddy_inv L M h' b' F' (Suc k - (u - s))
    \<and> bytes F' = bytes F - blk s a \<and> blk s a \<subseteq> blk u c \<and> (coalesced F \<longrightarrow> coalesced F')
    \<and> Suc k - (u - s) + card F' = k + card F"
proof -
  define n where "n = u - s"
  have u: "u = s + n" using s(2) by (simp add: n_def)
  note D = blocks_okD [OF F]
  have anc: "ancestor s a n = c"
  proof -
    from D(2) obtain m where m: "c = bsz u * m" by (elim dvdE)
    from s(3) have "c \<le> a" "a < c + bsz u" by (auto simp: blk_def)
    then have "a div bsz u = m"
      using m by (intro div_nat_eqI) (simp_all add: algebra_simps)
    then show ?thesis
      using ancestor_round [OF s(1), of n] m by (simp add: u [symmetric] minus_mod_eq_mult_div)
  qed
  have spl: "bytes (set (split_off s a n)) = blk u c - blk s a" "blk s a \<subseteq> blk u c"
    using split_off_bytes [OF s(1), of n] anc u by auto
  have "bytes (set (split_off s a n)) \<inter> bytes (F - {(u, c)}) = {}"
    using spl(1) bytes_remove [OF F] by auto
  then obtain h' b' where "disband_loop h b a [s..<s + n] = Some (h', b')"
    "buddy_inv L M h' b' ((F - {(u, c)}) \<union> set (split_off s a n)) (Suc k - n)"
    "Suc k - n + card ((F - {(u, c)}) \<union> set (split_off s a n)) = Suc k + card (F - {(u, c)})"
    using disband_loop_spec [OF inv s(1), of n] D anc u k by auto
  moreover have "Suc k + card (F - {(u, c)}) = k + card F"
    by (rule card_take_out) (use F(2) buddy_inv_finite [OF inv] in simp_all)
  moreover have eq: "bytes ((F - {(u, c)}) \<union> set (split_off s a n)) = bytes F - blk s a"
    using spl bytes_remove [OF F] blk_subset_bytes [OF F(2)] by (auto simp: bytes_Un)
  moreover have "coalesced F \<longrightarrow> coalesced ((F - {(u, c)}) \<union> set (split_off s a n))"
  proof
    assume "coalesced F"
    moreover have "blk s a \<inter> bytes ((F - {(u, c)}) \<union> set (split_off s a n)) = {}" using eq by blast
    ultimately show "coalesced ((F - {(u, c)}) \<union> set (split_off s a n))"
      by (intro coalesced_split [OF _ _ s(1) F(1)]) auto
  qed
  moreover have "disband h b a s u = disband_loop h b a [s..<s + n]" by (simp add: disband_def u)
  moreover have "Suc k - (u - s) = Suc k - n" by (simp add: u)
  ultimately show ?thesis using spl(2) by metis
qed

lemma coalesce_loop_spec:
  assumes "buddy_inv L M h b F k" and "bsz i dvd a" and "i < L" and "a + bsz i \<le> M"
    and "blk i a \<inter> bytes F = {}" and "0 < k"
  shows "\<exists>h' b' F' k'. coalesce_loop h b a [i..<L] = Some (h', b') \<and> buddy_inv L M h' b' F' k'
    \<and> bytes F' = bytes F \<union> blk i a \<and> k' + card F' = k + card F \<and> (coalesced F \<longrightarrow> coalesced F')"
  using assms
proof (induction "L - i" arbitrary: i a h b F k)
  case 0
  then show ?case by simp
next
  case (Suc n)
  note inv = Suc.prems(1) and al = Suc.prems(2)
  have upt: "[i..<L] = i # [Suc i..<L]" using Suc.prems(3) by (rule upt_conv_Cons)
  have lim: "mem_limits L M" "blocks_ok L M F" using buddy_inv_ok [OF inv] by auto
  have gb: "get_buddy_addr a i = Some (buddy i a)"
    using mem_limits_addr [OF lim(1) Suc.prems(3,4)] al by (simp add: get_buddy_addr_spec)
  have "\<forall>x. (i, x) \<in> F \<longrightarrow> Some (x = buddy i a) = Some (x = buddy i a)" by simp
  with inv Suc.prems(3) show ?case
  proof (cases rule: zone_find_cases)
    case none
    then have nb: "(i, buddy i a) \<notin> F" by blast
    from Suc.prems(6) obtain k' where k: "k = Suc k'" by (cases k) auto
    obtain h' b' where "push_to_zone h b a i = Some (h', b')" "buddy_inv L M h' b' (insert (i, a) F) k'"
      using push_to_zone_inv [OF inv [unfolded k] Suc.prems(3) al Suc.prems(4,5)] by blast
    moreover have "coalesced F \<longrightarrow> coalesced (insert (i, a) F)"
      using nb buddy_neq [OF al] buddy_buddy blocks_okD(2) [OF lim(2)]
      by (fastforce simp: coalesced_def)
    moreover have "card (insert (i, a) F) = Suc (card F)"
      using blocks_ok_notin [OF Suc.prems(5)] buddy_inv_finite [OF inv] by simp
    ultimately show ?thesis using gb none(1) upt k
      by (intro exI [of _ h'] exI [of _ b'] exI [of _ "insert (i, a) F"] exI [of _ k']) auto
  next
    case (found pos x h1 b1)
    have bF: "(i, buddy i a) \<in> F" using found by simp
    let ?F = "F - {(i, buddy i a)}"
    have inv1: "buddy_inv L M h1 b1 ?F (Suc k)" using found by simp
    have bytes1: "bytes ?F = bytes F - blk i (buddy i a)" by (rule bytes_remove [OF lim(2) bF])
    have bound: "parent i a + bsz (Suc i) \<le> M"
      using parent_bound [OF al Suc.prems(4)] blocks_okD(3) [OF lim(2) bF] by blast
    have "bsz (Suc i) < bsz L" using bound lim(1) unfolding mem_limits_def by linarith
    then have iL: "Suc i < L" by simp
    have n: "n = L - Suc i" using Suc.hyps(2) by simp
    have dis: "blk (Suc i) (parent i a) \<inter> bytes ?F = {}"
      using blk_parent [OF al] bytes1 Suc.prems(5) by auto
    obtain h' b' F' k' where r: "coalesce_loop h1 b1 (parent i a) [Suc i..<L] = Some (h', b')"
      "buddy_inv L M h' b' F' k'" "bytes F' = bytes ?F \<union> blk (Suc i) (parent i a)" "k' + card F' = Suc k + card ?F"
      "coalesced ?F \<longrightarrow> coalesced F'"
      using Suc.hyps(1) [OF n inv1 parent_aligned [OF al] iL bound dis] by auto
    have "bytes F' = bytes F \<union> blk i a"
      using r(3) bytes1 blk_parent [OF al] blk_subset_bytes [OF bF] by auto
    moreover have "Suc k + card ?F = k + card F"
      by (rule card_take_out [OF buddy_inv_finite [OF inv] bF])
    moreover have "coalesced F \<longrightarrow> coalesced ?F" by (auto simp: coalesced_def)
    moreover have "coalesce_loop h b a [i..<L] = Some (h', b')"
      using gb found r(1) upt by (simp add: determine_next_bucket_addr_def parent_def)
    ultimately show ?thesis using r by (intro exI [of _ h'] exI [of _ b'] exI [of _ F'] exI [of _ k']) simp
  qed
qed

subsection \<open>Allocation and freeing\<close>

lemma find_bucket_loop_spec:
  assumes inv: "buddy_inv L M h b F k" and "set is \<subseteq> {..<L}"
    and al: "0 < alignment" "BASIC_PAGE_SIZE * alignment < USIZE_LIM"
  shows "(find_bucket_loop h b alignment is = Some (Err NoAvailableBlock, h, b)
        \<and> (\<forall>i \<in> set is. \<forall>a. (i, a) \<in> F \<longrightarrow> \<not> BASIC_PAGE_SIZE * alignment dvd a))
    \<or> (\<exists>i a h' b'. find_bucket_loop h b alignment is = Some (Ok (a, i), h', b')
        \<and> i \<in> set is \<and> (i, a) \<in> F \<and> BASIC_PAGE_SIZE * alignment dvd a
        \<and> buddy_inv L M h' b' (F - {(i, a)}) (Suc k))"
  using assms(2)
proof (induction "is")
  case (Cons i "is")
  let ?f = "\<lambda>a. do { m \<leftarrow> umul BASIC_PAGE_SIZE alignment; r \<leftarrow> umod a m; Some (r = 0) }"
  have f: "\<forall>a. (i, a) \<in> F \<longrightarrow> ?f a = Some (BASIC_PAGE_SIZE * alignment dvd a)"
    using al by (simp add: usize_simps BASIC_PAGE_SIZE_def mod_eq_0_iff_dvd)
  have i: "i < L" using Cons.prems by simp
  from inv i f show ?case
  proof (cases rule: zone_find_cases)
    case none
    with Cons show ?thesis by auto
  next
    case (found pos a h' b')
    then show ?thesis by (intro disjI2 exI [of _ i] exI [of _ a] exI [of _ h'] exI [of _ b']) simp
  qed
qed simp

lemma bucket_contains_spec:
  "a + bsz i < USIZE_LIM \<Longrightarrow> bucket_contains addr (bsz i) a = Some (addr \<in> blk i a)"
  by (auto simp: bucket_contains_def blk_def uadd_def)

lemma bucket_size_spec:
  assumes "mem_limits L M" and "i < L"
  shows "upow2 i = Some (2 ^ i)" "umul (2 ^ i) BASIC_PAGE_SIZE = Some (bsz i)"
proof -
  have "i < 64" and "bsz i < USIZE_LIM" using assms by (simp_all add: mem_limits_def bsz_lt_USIZE_LIM)
  then show "upow2 i = Some (2 ^ i)" "umul (2 ^ i) BASIC_PAGE_SIZE = Some (bsz i)"
    by (simp_all add: bsz_pages)
qed

lemma bucket_contains_inv:
  assumes "buddy_inv L M h b F k" and "i < L"
  shows "\<forall>a. (i, a) \<in> F \<longrightarrow> bucket_contains addr (bsz i) a = Some (addr \<in> blk i a)"
  using buddy_inv_ok [OF assms(1)] mem_limits_addr(2) bucket_contains_spec
    blocks_okD(3) assms(2) by metis

lemma find_bucket_at_loop_spec:
  assumes inv: "buddy_inv L M h b F k" and "set is \<subseteq> {..<L}"
  shows "(find_bucket_at_loop h b addr is = Some (Err NoAvailableBlock, h, b)
        \<and> (\<forall>i \<in> set is. \<forall>a. (i, a) \<in> F \<longrightarrow> addr \<notin> blk i a))
    \<or> (\<exists>i a h' b'. find_bucket_at_loop h b addr is = Some (Ok i, h', b')
        \<and> i \<in> set is \<and> (i, a) \<in> F \<and> addr \<in> blk i a \<and> buddy_inv L M h' b' (F - {(i, a)}) (Suc k))"
  using assms(2)
proof (induction "is")
  case (Cons i "is")
  have i: "i < L" using Cons.prems by simp
  note sz = bucket_size_spec [OF conjunct2 [OF buddy_inv_ok [OF inv]] i]
  from inv i bucket_contains_inv [OF inv i, of addr] show ?case
  proof (cases rule: zone_find_cases)
    case none
    with Cons show ?thesis by (auto simp: sz)
  next
    case (found pos a h' b')
    then show ?thesis
      by (intro disjI2 exI [of _ i] exI [of _ a] exI [of _ h'] exI [of _ b']) (simp add: sz)
  qed
qed simp

lemma is_page_free_loop_spec:
  assumes inv: "buddy_inv L M h b F k" and "set is \<subseteq> {..<L}"
  shows "is_page_free_loop h b addr is = Some (\<exists>i \<in> set is. \<exists>a. (i, a) \<in> F \<and> addr \<in> blk i a)"
  using assms(2)
proof (induction "is")
  case (Cons i "is")
  have i: "i < L" using Cons.prems by simp
  note sz = bucket_size_spec [OF conjunct2 [OF buddy_inv_ok [OF inv]] i]
  from inv i bucket_contains_inv [OF inv i, of addr] show ?case
  proof (cases rule: zone_find_cases)
    case none
    with Cons show ?thesis by (auto simp: sz)
  next
    case (found pos a h' b')
    then show ?thesis by (auto simp: sz)
  qed
qed simp

text \<open>The level of the blocks a request for \<open>page_count\<close> pages is served from.\<close>

definition order_of :: "usize \<Rightarrow> nat" where
  "order_of page_count = log2_floor (next_power_of_two page_count)"

lemma next_power_of_two_order: "next_power_of_two pc = 2 ^ order_of pc"
  using next_power_of_two_ex [of pc] by (auto simp: order_of_def)

lemma order_of_ge: "pc \<le> 2 ^ order_of pc"
  using next_power_of_two_ge [of pc] by (simp add: next_power_of_two_order)

lemma order_of_pow2 [simp]: "order_of (2 ^ n) = n"
  by (simp add: order_of_def)

lemma order_of_le: "pc \<le> 2 ^ n \<Longrightarrow> order_of pc \<le> n"
  using next_power_of_two_least [of pc n] by (simp add: next_power_of_two_order)

lemma checked_next_power_of_two_order:
  "order_of pc < 64 \<Longrightarrow> checked_next_power_of_two pc = Some (2 ^ order_of pc)"
  by (simp add: checked_next_power_of_two_def next_power_of_two_order)

lemma mem_limits_zones: "mem_limits L M \<Longrightarrow> upow2 L = Some (2 ^ L)"
  by (simp add: mem_limits_def)

lemma bsz_order_pages: "BASIC_PAGE_SIZE * pc \<le> bsz (order_of pc)"
  using order_of_ge [of pc] by (simp add: bsz_pages)

lemma buddy_allocate_spec:
  assumes inv: "buddy_inv L M h b F k" and k: "L \<le> k"
    and pc: "0 < pc" "pc \<le> 2 ^ L" and al: "is_power_of_two alignment" "BASIC_PAGE_SIZE * alignment < USIZE_LIM"
  shows "(\<exists>a h' b' F' k'. buddy_allocate h b alignment pc = Some (Ok a, h', b') \<and> buddy_inv L M h' b' F' k'
        \<and> BASIC_PAGE_SIZE * alignment dvd a \<and> blk (order_of pc) a \<subseteq> bytes F
        \<and> bytes F' = bytes F - blk (order_of pc) a \<and> (coalesced F \<longrightarrow> coalesced F') \<and> k' + card F' = k + card F)
    \<or> (buddy_allocate h b alignment pc = Some (Err NoAvailableBlock, h, b)
        \<and> (\<forall>(i, a) \<in> F. order_of pc \<le> i \<longrightarrow> \<not> BASIC_PAGE_SIZE * alignment dvd a))"
proof -
  let ?s = "order_of pc"
  have lim: "mem_limits L M" and ok: "blocks_ok L M F" using buddy_inv_ok [OF inv] by auto
  have "?s \<le> L" using order_of_le [OF pc(2)] .
  then have s64: "?s < 64" using lim by (simp add: mem_limits_def)
  have "0 < alignment" using al(1) by (simp add: is_power_of_two_def)
  moreover have "set [?s..<L] \<subseteq> {..<L}" by auto
  ultimately have fb: "(find_bucket_loop h b alignment [?s..<L] = Some (Err NoAvailableBlock, h, b)
        \<and> (\<forall>i \<in> set [?s..<L]. \<forall>a. (i, a) \<in> F \<longrightarrow> \<not> BASIC_PAGE_SIZE * alignment dvd a))
    \<or> (\<exists>i a h' b'. find_bucket_loop h b alignment [?s..<L] = Some (Ok (a, i), h', b')
        \<and> i \<in> set [?s..<L] \<and> (i, a) \<in> F \<and> BASIC_PAGE_SIZE * alignment dvd a
        \<and> buddy_inv L M h' b' (F - {(i, a)}) (Suc k))"
    by (intro find_bucket_loop_spec [OF inv] al(2))
  have step: "buddy_allocate h b alignment pc = do {
      (found, h, b) \<leftarrow> find_bucket_loop h b alignment [?s..<L];
      (case found of
         Inl e \<Rightarrow> Some (Err e, h, b)
       | Inr (used_addr, used_index) \<Rightarrow> do {
           (h, b) \<leftarrow> disband h b used_addr ?s used_index;
           Some (Ok used_addr, h, b) }) }"
    using pc al(1) by (simp add: buddy_allocate_def find_bucket_def buddy_inv_length [OF inv]
        mem_limits_zones [OF lim] checked_next_power_of_two_order [OF s64])
  from fb consider
    (none) "find_bucket_loop h b alignment [?s..<L] = Some (Err NoAvailableBlock, h, b)"
      "\<forall>i \<in> set [?s..<L]. \<forall>a. (i, a) \<in> F \<longrightarrow> \<not> BASIC_PAGE_SIZE * alignment dvd a"
  | (found) i a h1 b1 where "find_bucket_loop h b alignment [?s..<L] = Some (Ok (a, i), h1, b1)"
      "i \<in> set [?s..<L]" "(i, a) \<in> F" "BASIC_PAGE_SIZE * alignment dvd a"
      "buddy_inv L M h1 b1 (F - {(i, a)}) (Suc k)"
    by blast
  then show ?thesis
  proof cases
    case none
    then show ?thesis using step blocks_okD(1) [OF ok] by fastforce
  next
    case found
    note D = blocks_okD [OF ok found(3)]
    have "bsz ?s dvd a" using D(2) bsz_dvd [of ?s i] found(2) by (auto intro: dvd_trans)
    have "?s \<le> i" "a \<in> blk i a" "i \<le> ?s + Suc k" using found(2) D(1) k by auto
    with \<open>bsz ?s dvd a\<close> obtain h' b' F' where "disband h1 b1 a ?s i = Some (h', b')"
      "buddy_inv L M h' b' F' (Suc k - (i - ?s))" "bytes F' = bytes F - blk ?s a" "blk ?s a \<subseteq> blk i a"
      "coalesced F \<longrightarrow> coalesced F'" "Suc k - (i - ?s) + card F' = k + card F"
      using disband_spec [OF found(5) ok found(3), of ?s a] by blast
    then show ?thesis
      using step found(1,4) blk_subset_bytes [OF found(3)]
      by (intro disjI1 exI [of _ a] exI [of _ h'] exI [of _ b'] exI [of _ F'] exI [of _ "Suc k - (i - ?s)"]) auto
  qed
qed

lemma buddy_allocate_at_spec:
  assumes inv: "buddy_inv L M h b F k" and k: "L \<le> k"
    and pc: "pc = 2 ^ s" "s \<le> L" and al: "BASIC_PAGE_SIZE * pc dvd addr"
  shows "(\<exists>h' b' F' k'. buddy_allocate_at h b addr pc = Some (Ok (), h', b') \<and> buddy_inv L M h' b' F' k'
        \<and> blk s addr \<subseteq> bytes F \<and> bytes F' = bytes F - blk s addr \<and> (coalesced F \<longrightarrow> coalesced F') \<and> k' + card F' = k + card F)
    \<or> (buddy_allocate_at h b addr pc = Some (Err NoAvailableBlock, h, b)
        \<and> (\<forall>(i, a) \<in> F. s \<le> i \<longrightarrow> addr \<notin> blk i a))"
proof -
  have lim: "mem_limits L M" and ok: "blocks_ok L M F" using buddy_inv_ok [OF inv] by auto
  have sz: "BASIC_PAGE_SIZE * pc = bsz s" by (simp add: pc bsz_pages)
  have s64: "order_of pc < 64" using pc lim by (simp add: mem_limits_def)
  have "bsz s < USIZE_LIM" using pc lim by (intro bsz_lt_USIZE_LIM) (simp add: mem_limits_def)
  then have m: "umul BASIC_PAGE_SIZE pc = Some (bsz s)" "umod addr (bsz s) = Some 0"
    using al by (simp_all add: sz mod_eq_0_iff_dvd [symmetric] umod_def)
  have step: "buddy_allocate_at h b addr pc = do {
      (found, h, b) \<leftarrow> find_bucket_at_loop h b addr [s..<L];
      (case found of
         Inl e \<Rightarrow> Some (Err e, h, b)
       | Inr used_index \<Rightarrow> do {
           (h, b) \<leftarrow> disband h b addr s used_index;
           Some (Ok (), h, b) }) }"
    using pc by (simp add: buddy_allocate_at_def find_bucket_at_def buddy_inv_length [OF inv] m
        mem_limits_zones [OF lim] checked_next_power_of_two_order [OF s64] m [unfolded pc(1)]
        checked_next_power_of_two_order [OF s64, unfolded pc(1)])
  have "set [s..<L] \<subseteq> {..<L}" by auto
  from find_bucket_at_loop_spec [OF inv this, of addr] consider
    (none) "find_bucket_at_loop h b addr [s..<L] = Some (Err NoAvailableBlock, h, b)"
      "\<forall>i \<in> set [s..<L]. \<forall>a. (i, a) \<in> F \<longrightarrow> addr \<notin> blk i a"
  | (found) i a h1 b1 where "find_bucket_at_loop h b addr [s..<L] = Some (Ok i, h1, b1)"
      "i \<in> set [s..<L]" "(i, a) \<in> F" "addr \<in> blk i a" "buddy_inv L M h1 b1 (F - {(i, a)}) (Suc k)"
    by blast
  then show ?thesis
  proof cases
    case none
    then show ?thesis using step blocks_okD(1) [OF ok] by fastforce
  next
    case found
    note D = blocks_okD [OF ok found(3)]
    have "bsz s dvd addr" "s \<le> i" "i \<le> s + Suc k" using al sz found(2) D(1) k by auto
    then obtain h' b' F' where "disband h1 b1 addr s i = Some (h', b')"
      "buddy_inv L M h' b' F' (Suc k - (i - s))" "bytes F' = bytes F - blk s addr" "blk s addr \<subseteq> blk i a"
      "coalesced F \<longrightarrow> coalesced F'" "Suc k - (i - s) + card F' = k + card F"
      using disband_spec [OF found(5) ok found(3) _ _ found(4)] by blast
    then show ?thesis
      using step found(1,4) blk_subset_bytes [OF found(3)]
      by (intro disjI1 exI [of _ h'] exI [of _ b'] exI [of _ F'] exI [of _ "Suc k - (i - s)"]) auto
  qed
qed

lemma buddy_is_page_free_spec:
  assumes inv: "buddy_inv L M h b F k" and pc: "0 < pc" "order_of pc < 52"
    and al: "BASIC_PAGE_SIZE * pc dvd addr"
  shows "buddy_is_page_free h b addr pc = Some (Ok (\<exists>i a. order_of pc \<le> i \<and> (i, a) \<in> F \<and> addr \<in> blk i a))"
proof -
  let ?s = "order_of pc"
  have ok: "blocks_ok L M F" using buddy_inv_ok [OF inv] by auto
  have "BASIC_PAGE_SIZE * pc < USIZE_LIM"
    using bsz_order_pages [of pc] bsz_lt_USIZE_LIM [of ?s] pc(2) by linarith
  then have m: "umul BASIC_PAGE_SIZE pc = Some (BASIC_PAGE_SIZE * pc)" "umod addr (BASIC_PAGE_SIZE * pc) = Some 0"
    using al pc(1) by (simp_all add: mod_eq_0_iff_dvd [symmetric] umod_def BASIC_PAGE_SIZE_def)
  have "set [?s..<L] \<subseteq> {..<L}" by auto
  from is_page_free_loop_spec [OF inv this, of addr]
  have "is_page_free_loop h b addr [?s..<L] = Some (\<exists>i a. ?s \<le> i \<and> (i, a) \<in> F \<and> addr \<in> blk i a)"
    using blocks_okD(1) [OF ok] by (simp add: Bex_def) metis
  then show ?thesis
    using pc by (simp add: buddy_is_page_free_def m checked_next_power_of_two_order buddy_inv_length [OF inv])
qed

lemma buddy_free_spec:
  assumes inv: "buddy_inv L M h b F k" and k: "0 < k" and pc: "0 < pc"
    and al: "BASIC_PAGE_SIZE * pc dvd addr" "bsz (order_of pc) dvd addr"
    and used: "addr + bsz (order_of pc) \<le> M" "blk (order_of pc) addr \<inter> bytes F = {}"
  shows "\<exists>h' b' F' k'. buddy_free h b addr pc = Some (Ok (), h', b') \<and> buddy_inv L M h' b' F' k'
    \<and> bytes F' = bytes F \<union> blk (order_of pc) addr \<and> k' + card F' = k + card F \<and> (coalesced F \<longrightarrow> coalesced F')"
proof -
  let ?s = "order_of pc"
  have lim: "mem_limits L M" using buddy_inv_ok [OF inv] by auto
  have "bsz ?s < bsz L" using used(1) lim unfolding mem_limits_def by linarith
  then have s: "?s < L" by simp
  then have s52: "?s < 52" using lim by (simp add: mem_limits_def)
  have "\<not> (\<exists>i a. ?s \<le> i \<and> (i, a) \<in> F \<and> addr \<in> blk i a)"
    using used(2) blk_subset_bytes blk_nonempty(1) [of addr ?s] by blast
  then have nf: "buddy_is_page_free h b addr pc = Some (Ok False)"
    using buddy_is_page_free_spec [OF inv pc s52 al(1)] by simp
  obtain h' b' F' k' where r: "coalesce_loop h b addr [?s..<L] = Some (h', b')" "buddy_inv L M h' b' F' k'"
    "bytes F' = bytes F \<union> blk ?s addr" "k' + card F' = k + card F" "coalesced F \<longrightarrow> coalesced F'"
    using coalesce_loop_spec [OF inv al(2) s used k] by blast
  have "buddy_free h b addr pc = Some (Ok (), h', b')"
    using pc nf r(1) s52
    by (simp add: buddy_free_def checked_next_power_of_two_order coalesce_def buddy_inv_length [OF inv])
  with r show ?thesis by blast
qed

subsection \<open>A manager that never runs out of nodes\<close>

text \<open>Nodes are conserved: every free block holds one and the others are spare.  When there are
  as many nodes as pages plus zones, a spare node is available whenever one is needed.\<close>

definition pmm_ok :: "nat \<Rightarrow> nat \<Rightarrow> nodes \<Rightarrow> BuddyAllocator \<Rightarrow> (nat \<times> nat) set \<Rightarrow> bool" where
  "pmm_ok L M h b F \<longleftrightarrow> (\<exists>k. buddy_inv L M h b F k \<and> M div BASIC_PAGE_SIZE + Suc L \<le> k + card F)"

lemma card_blocks:
  assumes "blocks_ok L M F"
  shows "card F \<le> M div BASIC_PAGE_SIZE"
proof -
  let ?f = "\<lambda>(i, a). a div BASIC_PAGE_SIZE"
  have dvd: "BASIC_PAGE_SIZE dvd a" if "(i, a) \<in> F" for i a
    using blocks_okD(2) [OF assms that] by (auto simp: bsz_pages intro: dvd_mult_right)
  have "inj_on ?f F"
  proof (rule inj_onI)
    fix x y
    assume xy: "x \<in> F" "y \<in> F" "?f x = ?f y"
    obtain i a j c where eq: "x = (i, a)" "y = (j, c)" by (metis surj_pair)
    with xy dvd have "a = c" by (metis case_prod_conv dvd_div_mult_self)
    then have "blk i a \<inter> blk j c \<noteq> {}" by (auto simp: blk_def)
    then show "x = y" using blocks_ok_disjoint [OF assms] xy eq by metis
  qed
  moreover have "?f ` F \<subseteq> {..<M div BASIC_PAGE_SIZE}"
  proof
    fix n
    assume "n \<in> ?f ` F"
    then obtain i a where ia: "(i, a) \<in> F" "n = a div BASIC_PAGE_SIZE" by auto
    have "BASIC_PAGE_SIZE \<le> bsz i" by (simp add: bsz_pages)
    then have "a + BASIC_PAGE_SIZE \<le> M" using blocks_okD(3) [OF assms ia(1)] by linarith
    then have "(a + BASIC_PAGE_SIZE) div BASIC_PAGE_SIZE \<le> M div BASIC_PAGE_SIZE" by (rule div_le_mono)
    then show "n \<in> {..<M div BASIC_PAGE_SIZE}" using ia(2) by (simp add: BASIC_PAGE_SIZE_def)
  qed
  ultimately show ?thesis using card_inj_on_le [of ?f F "{..<M div BASIC_PAGE_SIZE}"] by simp
qed

lemma pmm_ok_spare:
  assumes "pmm_ok L M h b F"
  obtains k where "buddy_inv L M h b F k" "L \<le> k" "0 < k" "M div BASIC_PAGE_SIZE + Suc L \<le> k + card F"
  using assms card_blocks buddy_inv_ok by (fastforce simp: pmm_ok_def)

lemma pmm_okI:
  "buddy_inv L M h b F k \<Longrightarrow> M div BASIC_PAGE_SIZE + Suc L \<le> k + card F \<Longrightarrow> pmm_ok L M h b F"
  by (auto simp: pmm_ok_def)

lemma pmm_allocate:
  assumes "pmm_ok L M h b F" and "0 < pc" "pc \<le> 2 ^ L" and "is_power_of_two alignment" "BASIC_PAGE_SIZE * alignment < USIZE_LIM"
  shows "(\<exists>a h' b' F'. buddy_allocate h b alignment pc = Some (Ok a, h', b') \<and> pmm_ok L M h' b' F'
        \<and> BASIC_PAGE_SIZE * alignment dvd a \<and> blk (order_of pc) a \<subseteq> bytes F
        \<and> bytes F' = bytes F - blk (order_of pc) a \<and> (coalesced F \<longrightarrow> coalesced F'))
    \<or> (buddy_allocate h b alignment pc = Some (Err NoAvailableBlock, h, b)
        \<and> (\<forall>(i, a) \<in> F. order_of pc \<le> i \<longrightarrow> \<not> BASIC_PAGE_SIZE * alignment dvd a))"
proof -
  obtain k where k: "buddy_inv L M h b F k" "L \<le> k" "M div BASIC_PAGE_SIZE + Suc L \<le> k + card F"
    using assms(1) by (rule pmm_ok_spare)
  from buddy_allocate_spec [OF k(1,2) assms(2-5)] show ?thesis
  proof (elim disjE exE conjE)
    fix a h' b' F' k'
    assume r: "buddy_allocate h b alignment pc = Some (Ok a, h', b')" "buddy_inv L M h' b' F' k'"
      "BASIC_PAGE_SIZE * alignment dvd a" "blk (order_of pc) a \<subseteq> bytes F"
      "bytes F' = bytes F - blk (order_of pc) a" "coalesced F \<longrightarrow> coalesced F'" "k' + card F' = k + card F"
    have "pmm_ok L M h' b' F'" using pmm_okI [OF r(2)] k(3) r(7) by simp
    with r show ?thesis by blast
  qed blast
qed

lemma pmm_allocate_at:
  assumes "pmm_ok L M h b F" and "s \<le> L" and "bsz s dvd addr"
  shows "(\<exists>h' b' F'. buddy_allocate_at h b addr (2 ^ s) = Some (Ok (), h', b') \<and> pmm_ok L M h' b' F'
        \<and> blk s addr \<subseteq> bytes F \<and> bytes F' = bytes F - blk s addr \<and> (coalesced F \<longrightarrow> coalesced F'))
    \<or> (buddy_allocate_at h b addr (2 ^ s) = Some (Err NoAvailableBlock, h, b)
        \<and> (\<forall>(i, a) \<in> F. s \<le> i \<longrightarrow> addr \<notin> blk i a))"
proof -
  obtain k where k: "buddy_inv L M h b F k" "L \<le> k" "M div BASIC_PAGE_SIZE + Suc L \<le> k + card F"
    using assms(1) by (rule pmm_ok_spare)
  have al: "BASIC_PAGE_SIZE * 2 ^ s dvd addr" using assms(3) by (simp add: bsz_pages mult.commute)
  from buddy_allocate_at_spec [OF k(1,2) refl assms(2) al] show ?thesis
  proof (elim disjE exE conjE)
    fix h' b' F' k'
    assume r: "buddy_allocate_at h b addr (2 ^ s) = Some (Ok (), h', b')" "buddy_inv L M h' b' F' k'"
      "blk s addr \<subseteq> bytes F" "bytes F' = bytes F - blk s addr" "coalesced F \<longrightarrow> coalesced F'"
      "k' + card F' = k + card F"
    have "pmm_ok L M h' b' F'" using pmm_okI [OF r(2)] k(3) r(6) by simp
    with r show ?thesis by blast
  qed blast
qed

lemma pmm_free:
  assumes "pmm_ok L M h b F" and "0 < pc" and "BASIC_PAGE_SIZE * pc dvd addr" "bsz (order_of pc) dvd addr"
    and "addr + bsz (order_of pc) \<le> M" "blk (order_of pc) addr \<inter> bytes F = {}"
  shows "\<exists>h' b' F'. buddy_free h b addr pc = Some (Ok (), h', b') \<and> pmm_ok L M h' b' F'
    \<and> bytes F' = bytes F \<union> blk (order_of pc) addr \<and> (coalesced F \<longrightarrow> coalesced F')"
proof -
  obtain k where k: "buddy_inv L M h b F k" "0 < k" "M div BASIC_PAGE_SIZE + Suc L \<le> k + card F"
    using assms(1) by (rule pmm_ok_spare)
  obtain h' b' F' k' where r: "buddy_free h b addr pc = Some (Ok (), h', b')" "buddy_inv L M h' b' F' k'"
    "bytes F' = bytes F \<union> blk (order_of pc) addr" "k' + card F' = k + card F" "coalesced F \<longrightarrow> coalesced F'"
    using buddy_free_spec [OF k(1,2) assms(2-6)] by blast
  have "pmm_ok L M h' b' F'" using pmm_okI [OF r(2)] k(3) r(4) by simp
  with r show ?thesis by blast
qed

end
