(* ===== verification/PMM.thy ===== *)
theory PMM
  imports Buddy
begin

text \<open>
  The physical memory manager as its clients see it: construction from the boot loader's memory
  map (\<open>init_from_limine\<close>), the interface \<open>page_allocator\<close> that the rest of the kernel relies
  on, and the properties of the allocator.
\<close>

subsection \<open>Freeing a range of pages\<close>

lemma pick_bucket_spec:
  assumes "\<forall>i \<in> set is. i < 64" and "0 \<in> set is" and "0 < t"
  shows "\<exists>i \<in> set is. pick_bucket n t is = Some (Some (2 ^ i)) \<and> 2 ^ i dvd n \<and> 2 ^ i \<le> t"
  using assms(1,2)
proof (induction "is")
  case (Cons i "is")
  show ?case
  proof (cases "2 ^ i dvd n \<and> 2 ^ i \<le> t")
    case True
    then show ?thesis using Cons.prems by (simp add: usize_simps mod_eq_0_iff_dvd)
  next
    case False
    with assms(3) have "i \<noteq> 0" by (cases i) auto
    then have "0 \<in> set is" using Cons.prems by simp
    with Cons have "\<exists>j \<in> set is. pick_bucket n t is = Some (Some (2 ^ j)) \<and> 2 ^ j dvd n \<and> 2 ^ j \<le> t" by simp
    then show ?thesis using False Cons.prems by (auto simp: usize_simps mod_eq_0_iff_dvd)
  qed
qed simp

definition page_range :: "nat \<Rightarrow> nat \<Rightarrow> nat set" where
  "page_range n t = {n * BASIC_PAGE_SIZE..<(n + t) * BASIC_PAGE_SIZE}"

lemma page_range_split:
  "p \<le> t \<Longrightarrow> page_range n t = page_range n p \<union> page_range (n + p) (t - p)"
  "p \<le> t \<Longrightarrow> page_range n p \<inter> page_range (n + p) (t - p) = {}"
  by (auto simp: page_range_def BASIC_PAGE_SIZE_def)

lemma page_range_0 [simp]: "page_range n 0 = {}"
  by (simp add: page_range_def)

lemma blk_page_range: "blk i (n * BASIC_PAGE_SIZE) = page_range n (2 ^ i)"
  by (simp add: blk_def page_range_def bsz_pages algebra_simps)

lemma pmm_ok_length: "pmm_ok L M h b F \<Longrightarrow> length (ba_zones b) = L"
  using buddy_inv_length by (auto simp: pmm_ok_def)

lemma pmm_ok_limits: "pmm_ok L M h b F \<Longrightarrow> mem_limits L M \<and> blocks_ok L M F"
  using buddy_inv_ok by (auto simp: pmm_ok_def)

lemma pmm_M_lt: "mem_limits L M \<Longrightarrow> M < USIZE_LIM"
  using bsz_lt_USIZE_LIM [of L] by (auto simp: mem_limits_def)

lemma break_loop_spec:
  assumes "pmm_ok L M h b F" and "0 < L" and "page_range n t \<inter> bytes F = {}" and "(n + t) * BASIC_PAGE_SIZE \<le> M"
  shows "\<exists>h' b' F'. break_loop h b n t = Some (h', b') \<and> pmm_ok L M h' b' F' \<and> bytes F' = bytes F \<union> page_range n t
    \<and> (coalesced F \<longrightarrow> coalesced F')"
  using assms
proof (induction t arbitrary: n h b F rule: less_induct)
  case (less t)
  show ?case
  proof (cases "t = 0")
    case True
    with less.prems show ?thesis by (subst break_loop.simps) auto
  next
    case False
    have lim: "mem_limits L M" using pmm_ok_limits [OF less.prems(1)] by blast
    have "\<forall>i \<in> set (rev [0..<L]). i < 64" "0 \<in> set (rev [0..<L])"
      using lim less.prems(2) by (auto simp: mem_limits_def)
    then obtain i where i: "pick_bucket n t (rev [0..<L]) = Some (Some (2 ^ i))" "2 ^ i dvd n" "2 ^ i \<le> t"
      using pick_bucket_spec [of "rev [0..<L]" t n] False by auto
    let ?a = "n * BASIC_PAGE_SIZE"
    have al: "bsz i dvd ?a" using i(2) by (simp add: bsz_pages)
    have "n * BASIC_PAGE_SIZE + 2 ^ i * BASIC_PAGE_SIZE \<le> (n + t) * BASIC_PAGE_SIZE"
      using i(3) by (simp add: distrib_right [symmetric])
    then have bound: "?a + bsz i \<le> M" using less.prems(4) by (simp add: bsz_pages)
    have "?a < USIZE_LIM" using bound pmm_M_lt [OF lim] bsz_pos [of i] by linarith
    then have mul: "umul n BASIC_PAGE_SIZE = Some ?a" by simp
    have "n \<le> ?a" by (simp add: BASIC_PAGE_SIZE_def)
    have "n + 2 ^ i \<le> ?a + bsz i" by (simp add: bsz_pages BASIC_PAGE_SIZE_def)
    then have add: "uadd n (2 ^ i) = Some (n + 2 ^ i)" using bound pmm_M_lt [OF lim] by simp
    have dis: "blk i ?a \<inter> bytes F = {}"
      using page_range_split(1) [OF i(3), of n] less.prems(3) by (auto simp: blk_page_range)
    have "BASIC_PAGE_SIZE * 2 ^ i dvd ?a" using al by (simp add: bsz_pages mult.commute)
    then obtain h1 b1 F1 where f: "buddy_free h b ?a (2 ^ i) = Some (Ok (), h1, b1)" "pmm_ok L M h1 b1 F1"
      "bytes F1 = bytes F \<union> page_range n (2 ^ i)" "coalesced F \<longrightarrow> coalesced F1"
      using pmm_free [OF less.prems(1), of "2 ^ i" ?a, unfolded order_of_pow2] al bound dis
      unfolding blk_page_range by auto
    have "page_range (n + 2 ^ i) (t - 2 ^ i) \<inter> bytes F1 = {}"
      using f(3) page_range_split [OF i(3), of n] less.prems(3) by auto
    moreover have "(n + 2 ^ i + (t - 2 ^ i)) * BASIC_PAGE_SIZE \<le> M" using less.prems(4) i(3) by simp
    moreover have "t - 2 ^ i < t" using False by simp
    ultimately obtain h2 b2 F2 where r: "break_loop h1 b1 (n + 2 ^ i) (t - 2 ^ i) = Some (h2, b2)" "pmm_ok L M h2 b2 F2"
      "bytes F2 = bytes F1 \<union> page_range (n + 2 ^ i) (t - 2 ^ i)" "coalesced F1 \<longrightarrow> coalesced F2"
      using less.IH f(2) less.prems(2) by metis
    have "bytes F2 = bytes F \<union> page_range n t"
      using r(3) f(3) page_range_split(1) [OF i(3), of n] by auto
    moreover have "break_loop h b n t = Some (h2, b2)"
      by (subst break_loop.simps) (simp add: False i(1) pmm_ok_length [OF less.prems(1)] mul f(1) add r(1))
    ultimately show ?thesis using r f by blast
  qed
qed

subsection \<open>Freeing the usable entries\<close>

definition usable :: "MemEntry \<Rightarrow> bool" where
  "usable e \<longleftrightarrow> me_type e = USABLE"

definition entry_bytes :: "MemEntry \<Rightarrow> nat set" where
  "entry_bytes e = {me_base e..<me_base e + me_length e}"

definition usable_bytes :: "MemEntry list \<Rightarrow> nat set" where
  "usable_bytes es = (\<Union>e \<in> {e \<in> set es. usable e}. entry_bytes e)"

text \<open>What the boot loader guarantees of usable entries: page aligned, in order, not overlapping.\<close>

definition mem_map_ok :: "nat \<Rightarrow> MemEntry list \<Rightarrow> bool" where
  "mem_map_ok M es \<longleftrightarrow>
     (\<forall>e \<in> set es. usable e \<longrightarrow> BASIC_PAGE_SIZE dvd me_base e \<and> BASIC_PAGE_SIZE dvd me_length e
        \<and> me_base e + me_length e \<le> M)
     \<and> sorted_wrt (\<lambda>e f. me_base e + me_length e \<le> me_base f) (filter usable es)"

lemma entry_page_range:
  assumes "BASIC_PAGE_SIZE dvd me_base e" and "BASIC_PAGE_SIZE dvd me_length e"
  shows "entry_bytes e = page_range (me_base e div BASIC_PAGE_SIZE) (me_length e div BASIC_PAGE_SIZE)"
  using assms by (simp add: entry_bytes_def page_range_def distrib_right)

lemma free_usable_spec:
  assumes "pmm_ok L M h b F" and "0 < L" and "mem_map_ok M es" and "bytes F \<inter> usable_bytes es = {}"
  shows "\<exists>h' b' F'. free_usable h b es = Some (h', b') \<and> pmm_ok L M h' b' F'
    \<and> bytes F' = bytes F \<union> usable_bytes es \<and> (coalesced F \<longrightarrow> coalesced F')"
  using assms
proof (induction es arbitrary: h b F)
  case Nil
  then show ?case by (auto simp: usable_bytes_def)
next
  case (Cons e es)
  have tail: "mem_map_ok M es" using Cons.prems(3) by (auto simp: mem_map_ok_def split: if_splits)
  show ?case
  proof (cases "usable e")
    case False
    then have "usable_bytes (e # es) = usable_bytes es" by (auto simp: usable_bytes_def)
    with Cons.IH [OF Cons.prems(1,2) tail] Cons.prems(4) False show ?thesis by (auto simp: usable_def)
  next
    case True
    have e: "BASIC_PAGE_SIZE dvd me_base e" "BASIC_PAGE_SIZE dvd me_length e" "me_base e + me_length e \<le> M"
      using Cons.prems(3) True by (auto simp: mem_map_ok_def)
    let ?n = "me_base e div BASIC_PAGE_SIZE" and ?t = "me_length e div BASIC_PAGE_SIZE"
    have un: "usable_bytes (e # es) = page_range ?n ?t \<union> usable_bytes es"
      using True entry_page_range [OF e(1,2)] by (auto simp: usable_bytes_def)
    have "(?n + ?t) * BASIC_PAGE_SIZE \<le> M" using e by (simp add: distrib_right)
    then obtain h1 b1 F1 where 1: "break_loop h b ?n ?t = Some (h1, b1)" "pmm_ok L M h1 b1 F1"
      "bytes F1 = bytes F \<union> page_range ?n ?t" "coalesced F \<longrightarrow> coalesced F1"
      using break_loop_spec [OF Cons.prems(1,2), of ?n ?t] Cons.prems(4) un by auto
    have "entry_bytes e \<inter> entry_bytes f = {}" if "f \<in> set es" "usable f" for f
    proof -
      have "me_base e + me_length e \<le> me_base f"
        using Cons.prems(3) True that by (auto simp: mem_map_ok_def)
      then show ?thesis by (auto simp: entry_bytes_def)
    qed
    then have "page_range ?n ?t \<inter> usable_bytes es = {}"
      using entry_page_range [OF e(1,2)] by (auto simp: usable_bytes_def)
    then have "bytes F1 \<inter> usable_bytes es = {}" using 1(3) Cons.prems(4) un by auto
    with Cons.IH [OF 1(2) Cons.prems(2) tail] obtain h2 b2 F2 where
      2: "free_usable h1 b1 es = Some (h2, b2)" "pmm_ok L M h2 b2 F2"
        "bytes F2 = bytes F1 \<union> usable_bytes es" "coalesced F1 \<longrightarrow> coalesced F2" by blast
    have "free_usable h b (e # es) = Some (h2, b2)"
      using True 1(1) 2(1) by (simp add: usable_def break_into_buckets_n_free_def udiv_def BASIC_PAGE_SIZE_def)
    with 1 2 un show ?thesis by auto
  qed
qed

lemma take_pages_spec:
  assumes "pmm_ok L M h b F" and "BASIC_PAGE_SIZE dvd base" and "page_range (base div BASIC_PAGE_SIZE + j) n \<subseteq> bytes F"
  shows "\<exists>h' b' F'. take_pages h b base [j..<j + n] = Some (h', b') \<and> pmm_ok L M h' b' F'
    \<and> bytes F' = bytes F - page_range (base div BASIC_PAGE_SIZE + j) n \<and> (coalesced F \<longrightarrow> coalesced F')"
  using assms
proof (induction n arbitrary: j h b F)
  case 0
  then show ?case by auto
next
  case (Suc n)
  let ?m = "base div BASIC_PAGE_SIZE + j"
  let ?a = "?m * BASIC_PAGE_SIZE"
  have a: "?a = base + j * BASIC_PAGE_SIZE" using Suc.prems(2) by (simp add: distrib_right)
  have split: "page_range ?m (Suc n) = page_range ?m 1 \<union> page_range (Suc ?m) n"
    "page_range ?m 1 \<inter> page_range (Suc ?m) n = {}"
    using page_range_split [of 1 "Suc n" ?m] by simp_all
  have lim: "mem_limits L M" "blocks_ok L M F" using pmm_ok_limits [OF Suc.prems(1)] by auto
  have "?a \<in> page_range ?m 1" by (simp add: page_range_def BASIC_PAGE_SIZE_def)
  then have inF: "?a \<in> bytes F" using Suc.prems(3) split(1) by blast
  then have "?a < M" using bytes_bound [OF lim(2)] by blast
  then have ltU: "?a < USIZE_LIM" using pmm_M_lt [OF lim(1)] by simp
  from inF obtain i c where ic: "(i, c) \<in> F" "?a \<in> blk i c" by (auto simp: bytes_def)
  have "bsz 0 dvd ?a" by (simp add: bsz_pages)
  from pmm_allocate_at [OF Suc.prems(1) _ this] ic obtain h1 b1 F1 where
    1: "buddy_allocate_at h b ?a 1 = Some (Ok (), h1, b1)" "pmm_ok L M h1 b1 F1"
      "bytes F1 = bytes F - blk 0 ?a" "coalesced F \<longrightarrow> coalesced F1" by auto
  have b1: "bytes F1 = bytes F - page_range ?m 1" using 1(3) blk_page_range [of 0 ?m] by simp
  have "page_range (base div BASIC_PAGE_SIZE + Suc j) n \<subseteq> bytes F1"
    using b1 Suc.prems(3) split by auto
  from Suc.IH [OF 1(2) Suc.prems(2) this] obtain h2 b2 F2 where
    2: "take_pages h1 b1 base [Suc j..<Suc j + n] = Some (h2, b2)" "pmm_ok L M h2 b2 F2"
      "bytes F2 = bytes F1 - page_range (base div BASIC_PAGE_SIZE + Suc j) n" "coalesced F1 \<longrightarrow> coalesced F2" by blast
  have mul: "umul j BASIC_PAGE_SIZE = Some (j * BASIC_PAGE_SIZE)" "uadd base (j * BASIC_PAGE_SIZE) = Some ?a"
    using ltU a by simp_all
  have "[j..<j + Suc n] = j # [Suc j..<Suc j + n]" by (simp add: upt_conv_Cons)
  then have "take_pages h b base [j..<j + Suc n] = Some (h2, b2)"
    by (simp add: mul 1(1) [unfolded One_nat_def] 2(1) [unfolded add_Suc] del: upt_Suc)
  moreover have "bytes F2 = bytes F - page_range ?m (Suc n)" using 2(3) b1 split(1) by auto
  ultimately show ?case using 1 2 by blast
qed

subsection \<open>The first state\<close>

lemma push_nodes_spec:
  assumes "linked_list h l ps" and "distinct (ps @ qs)" and "set qs \<subseteq> dom h" and "length (ps @ qs) < USIZE_LIM"
  shows "\<exists>h' l'. push_nodes h l qs = Some (h', l') \<and> linked_list h' l' (ps @ qs)"
  using assms
proof (induction qs arbitrary: h l ps)
  case (Cons q qs)
  have "q \<in> dom h" "q \<notin> set ps" "Suc (length ps) < USIZE_LIM" using Cons.prems by auto
  from ll_push_node_back_spec [OF Cons.prems(1) this] obtain h1 l1 where
    1: "ll_push_node_back h l q = Some (h1, l1)" "linked_list h1 l1 (ps @ [q])" "heap_data h1 = heap_data h" by blast
  have "set qs \<subseteq> dom h1" using Cons.prems(3) heap_data_dom [OF 1(3)] by simp
  then show ?case using Cons.IH [OF 1(2)] Cons.prems 1(1) by simp
qed simp

lemma create_freelist_spec:
  assumes "L \<le> 50" and "8 dvd zp" and "zp + (24 * L + FREELIST_BUCKETS_SIZE) < USIZE_LIM"
    and "{zp..<zp + (24 * L + FREELIST_BUCKETS_SIZE)} \<subseteq> dom h"
  shows "\<exists>h' fl fs. create_freelist h zp L = Some (h', fl) \<and> linked_list h' fl fs \<and> length fs = 87381"
proof -
  let ?ptr = "zp + 24 * L"
  let ?ps = "map (\<lambda>i. ?ptr + i * 24) [0..<87381]"
  have "8 dvd 24 * L" using dvd_triv_left [of 8 "3 * L"] by simp
  then have "?ptr mod 8 = 0" using assms(2) by (intro mod_eq_0_iff_dvd [THEN iffD2] dvd_add)
  then have off: "(8 - ?ptr mod 8) mod 8 = 0" by simp
  have u: "uadd zp (L * 24) = Some ?ptr" "uadd ?ptr 0 = Some ?ptr" "umul L 24 = Some (L * 24)"
    using assms(1,3) by (simp_all add: USIZE_LIM_def)
  have "create_freelist h zp L = push_nodes h ll_new ?ps"
    by (simp add: create_freelist_def SIZE_OF_LIST_def SIZE_OF_NODE_def ALIGN_OF_NODE_def
        FREELIST_BUCKETS_SIZE_def Let_def u off)
  moreover have "distinct ([] @ ?ps)" by (simp add: distinct_map inj_on_def)
  moreover have "set ?ps \<subseteq> dom h"
  proof
    fix p
    assume "p \<in> set ?ps"
    then have "p \<in> {zp..<zp + (24 * L + FREELIST_BUCKETS_SIZE)}" by (auto simp: FREELIST_BUCKETS_SIZE_def)
    then show "p \<in> dom h" using assms(4) by blast
  qed
  moreover have "length ([] @ ?ps) < USIZE_LIM" by (simp add: USIZE_LIM_def)
  ultimately show ?thesis
    using push_nodes_spec [OF linked_list_new [of h], of ?ps] by fastforce
qed

lemma buddy_rep_fresh:
  assumes "linked_list h fl fs" and "length fs = k"
  shows "buddy_rep h \<lparr> ba_zones = create_zones L, ba_freelist = fl \<rparr> (replicate L []) k"
  unfolding buddy_rep_def
  using assms linked_listD [OF assms(1)]
  by (intro exI [of _ "replicate L []"] exI [of _ fs])
     (auto simp: create_zones_def linked_list_new ll_contents_def)

lemma pmm_ok_fresh:
  assumes "linked_list h fl fs" and "mem_limits L M" and "M div BASIC_PAGE_SIZE + Suc L \<le> length fs"
  shows "pmm_ok L M h \<lparr> ba_zones = create_zones L, ba_freelist = fl \<rparr> {}"
proof -
  have "zone_blocks (replicate L []) = {}" by (auto simp: zone_blocks_def)
  then have "buddy_inv L M h \<lparr> ba_zones = create_zones L, ba_freelist = fl \<rparr> {} (length fs)"
    using buddy_rep_fresh [OF assms(1) refl, of L] assms(2)
    by (auto simp: buddy_inv_def intro!: exI [of _ "replicate L []"])
  then show ?thesis using assms(3) by (auto simp: pmm_ok_def)
qed

lemma total_buffer_size_spec:
  "L \<le> 50 \<Longrightarrow> total_buffer_size L = Some (24 * L + FREELIST_BUCKETS_SIZE)"
proof -
  assume L: "L \<le> 50"
  have "L * 24 mod 8 = 0" by presburger
  with L show ?thesis
    by (simp add: total_buffer_size_def SIZE_OF_LIST_def ALIGN_OF_NODE_def FREELIST_BUCKETS_SIZE_def
        umul_def umod_def uadd_def USIZE_LIM_def)
qed

lemma mem_limits_of_pages:
  assumes "0 < T" and "L = Suc (log2_floor T)" and "L \<le> 50"
  shows "mem_limits L (T * BASIC_PAGE_SIZE)"
proof -
  have "T < 2 ^ L" using log2_floor_bounds [OF assms(1)] assms(2) by simp
  then have "T * BASIC_PAGE_SIZE < 2 ^ L * BASIC_PAGE_SIZE" by (simp add: BASIC_PAGE_SIZE_def)
  then show ?thesis using assms(3) by (simp add: mem_limits_def bsz_pages)
qed

lemma div_ceil_page_range:
  assumes "sz \<le> n" and "BASIC_PAGE_SIZE dvd n"
  shows "div_ceil sz BASIC_PAGE_SIZE \<le> n div BASIC_PAGE_SIZE"
  using div_ceil_mono [of BASIC_PAGE_SIZE sz n] assms by (simp add: div_ceil_def BASIC_PAGE_SIZE_def)

lemma page_range_mono: "t \<le> u \<Longrightarrow> page_range n t \<subseteq> page_range n u"
  by (auto simp: page_range_def BASIC_PAGE_SIZE_def)

lemma pmm_init_spec:
  assumes T: "get_page_count_from_mem_map mm = Some T" "0 < T" "L = Suc (log2_floor T)" "L \<le> 50"
    and mm: "mem_map_ok (T * BASIC_PAGE_SIZE) mm"
    and entry: "find (\<lambda>e. me_type e = USABLE \<and> 24 * L + FREELIST_BUCKETS_SIZE \<le> me_length e) mm = Some entry"
    and hhdm: "0 < hhdm" "8 dvd hhdm" "me_base entry + hhdm + (24 * L + FREELIST_BUCKETS_SIZE) < USIZE_LIM"
    and raw: "{me_base entry + hhdm..<me_base entry + hhdm + (24 * L + FREELIST_BUCKETS_SIZE)} \<subseteq> dom h"
    and nodes: "T + Suc L \<le> 87381"
  shows "\<exists>h' b' F'. buddy_init_from_limine hhdm h mm = Some ((h', b'), entry)
    \<and> pmm_ok L (T * BASIC_PAGE_SIZE) h' b' F' \<and> coalesced F'
    \<and> bytes F' = usable_bytes mm - page_range (me_base entry div BASIC_PAGE_SIZE)
        (div_ceil (24 * L + FREELIST_BUCKETS_SIZE) BASIC_PAGE_SIZE)"
proof -
  let ?size = "24 * L + FREELIST_BUCKETS_SIZE" and ?M = "T * BASIC_PAGE_SIZE"
  let ?n = "me_base entry div BASIC_PAGE_SIZE" and ?t = "div_ceil ?size BASIC_PAGE_SIZE"
  let ?zp = "me_base entry + hhdm"
  from entry have e: "entry \<in> set mm" "usable entry" "?size \<le> me_length entry"
    by (auto simp: find_Some_iff usable_def)
  have al: "BASIC_PAGE_SIZE dvd me_base entry" "BASIC_PAGE_SIZE dvd me_length entry"
    using mm e by (auto simp: mem_map_ok_def)
  have "8 dvd BASIC_PAGE_SIZE" by (simp add: BASIC_PAGE_SIZE_def)
  then have "8 dvd ?zp" using al(1) hhdm(2) by (meson dvd_add dvd_trans)
  then obtain h1 fl fs where 1: "create_freelist h ?zp L = Some (h1, fl)" "linked_list h1 fl fs" "length fs = 87381"
    using create_freelist_spec [OF T(4) _ hhdm(3) raw] by blast
  let ?b = "\<lparr> ba_zones = create_zones L, ba_freelist = fl \<rparr>"
  have ilog: "ilog2 T = Some (log2_floor T)" "uadd (log2_floor T) 1 = Some L"
    using T by (simp_all add: ilog2_def USIZE_LIM_def)
  have zp: "add_hhdm_offset hhdm (me_base entry) = Some ?zp"
    using hhdm(3) by (simp add: add_hhdm_offset_def)
  have new: "buddy_new_from_limine hhdm h mm = Some ((h1, ?b), entry, ?t)"
    using hhdm(1) 1(1) entry
    by (simp add: buddy_new_from_limine_def T(1) ilog [unfolded One_nat_def] total_buffer_size_spec [OF T(4)] zp)
  have "?M div BASIC_PAGE_SIZE + Suc L \<le> length fs" using nodes 1(3) by (simp add: BASIC_PAGE_SIZE_def)
  then have ok1: "pmm_ok L ?M h1 ?b {}"
    by (rule pmm_ok_fresh [OF 1(2) mem_limits_of_pages [OF T(2,3,4)]])
  obtain h2 b2 F2 where 2: "free_usable h1 ?b mm = Some (h2, b2)" "pmm_ok L ?M h2 b2 F2"
    "bytes F2 = usable_bytes mm" "coalesced F2"
    using free_usable_spec [OF ok1 _ mm] T(3) by (auto simp: coalesced_def)
  have "page_range ?n ?t \<subseteq> entry_bytes entry"
    unfolding entry_page_range [OF al] by (intro page_range_mono div_ceil_page_range e(3) al(2))
  then have "page_range (?n + 0) ?t \<subseteq> bytes F2" using 2(3) e(1,2) by (auto simp: usable_bytes_def)
  from take_pages_spec [OF 2(2) al(1) this] obtain h3 b3 F3 where
    3: "take_pages h2 b2 (me_base entry) [0..<?t] = Some (h3, b3)" "pmm_ok L ?M h3 b3 F3"
      "bytes F3 = bytes F2 - page_range ?n ?t" "coalesced F2 \<longrightarrow> coalesced F3" by auto
  have "buddy_init_from_limine hhdm h mm = Some ((h3, b3), entry)"
    by (simp add: buddy_init_from_limine_def new 2(1) 3(1))
  with 2 3 show ?thesis by auto
qed

subsection \<open>The interface for pages\<close>

definition page :: "nat \<Rightarrow> nat set" where
  "page a = {a..<a + BASIC_PAGE_SIZE}"

lemma blk_0_page: "blk 0 a = page a"
  by (simp add: blk_def page_def bsz_pages)

lemma page_disjoint:
  assumes "BASIC_PAGE_SIZE dvd a" and "BASIC_PAGE_SIZE dvd b" and "a \<noteq> b"
  shows "page a \<inter> page b = {}"
proof -
  from assms obtain m n where "a = BASIC_PAGE_SIZE * m" "b = BASIC_PAGE_SIZE * n" by (elim dvdE)
  with assms(3) show ?thesis by (auto simp: page_def BASIC_PAGE_SIZE_def)
qed

fun alloc_n :: "('s \<Rightarrow> (('e + nat) \<times> 's) option) \<Rightarrow> nat \<Rightarrow> 's \<Rightarrow> (nat list \<times> 's) option" where
  "alloc_n alloc 0 s = Some ([], s)"
| "alloc_n alloc (Suc n) s = do {
     (r, s1) \<leftarrow> alloc s;
     (case r of
        Inl _ \<Rightarrow> Some ([], s1)
      | Inr a \<Rightarrow> do {
          (as, s2) \<leftarrow> alloc_n alloc n s1;
          Some (a # as, s2) }) }"

locale page_allocator =
  fixes ok :: "'s \<Rightarrow> nat set \<Rightarrow> bool"
    and alloc_page :: "'s \<Rightarrow> ((PmmError + nat) \<times> 's) option"
    and free_page :: "'s \<Rightarrow> nat \<Rightarrow> ((PmmError + unit) \<times> 's) option"
    and limit :: nat
  assumes alloc_some: "ok s U \<Longrightarrow> U \<noteq> {} \<Longrightarrow>
      \<exists>a s'. alloc_page s = Some (Ok a, s') \<and> BASIC_PAGE_SIZE dvd a \<and> page a \<subseteq> U \<and> ok s' (U - page a)"
    and alloc_none: "ok s {} \<Longrightarrow> alloc_page s = Some (Err NoAvailableBlock, s)"
    and free_ok: "ok s U \<Longrightarrow> BASIC_PAGE_SIZE dvd a \<Longrightarrow> a + BASIC_PAGE_SIZE \<le> limit \<Longrightarrow> page a \<inter> U = {} \<Longrightarrow>
      \<exists>s'. free_page s a = Some (Ok (), s') \<and> ok s' (U \<union> page a)"
    and free_again: "ok s U \<Longrightarrow> BASIC_PAGE_SIZE dvd a \<Longrightarrow> page a \<subseteq> U \<Longrightarrow>
      free_page s a = Some (Err FreeOfAlreadyFree, s)"
    and bounded: "ok s U \<Longrightarrow> U \<subseteq> {..<limit}"
begin

lemma alloc_then_free:
  assumes "ok s U" and "U \<noteq> {}"
  shows "\<exists>a s1 s2. alloc_page s = Some (Ok a, s1) \<and> free_page s1 a = Some (Ok (), s2) \<and> ok s2 U
    \<and> free_page s2 a = Some (Err FreeOfAlreadyFree, s2)"
proof -
  obtain a s1 where a: "alloc_page s = Some (Ok a, s1)" "BASIC_PAGE_SIZE dvd a" "page a \<subseteq> U" "ok s1 (U - page a)"
    using alloc_some [OF assms] by blast
  have "a + BASIC_PAGE_SIZE - 1 \<in> page a" by (simp add: page_def BASIC_PAGE_SIZE_def)
  then have "a + BASIC_PAGE_SIZE - 1 < limit" using a(3) bounded [OF assms(1)] by blast
  then have "a + BASIC_PAGE_SIZE \<le> limit" by (simp add: BASIC_PAGE_SIZE_def)
  then obtain s2 where s2: "free_page s1 a = Some (Ok (), s2)" "ok s2 (U - page a \<union> page a)"
    using free_ok [OF a(4,2)] by blast
  then have "ok s2 U" using a(3) by (simp add: Un_absorb2)
  then show ?thesis using a s2 free_again [of s2 U a] by blast
qed

lemma alloc_many:
  assumes "ok s U"
  shows "\<exists>as s' U'. alloc_n alloc_page n s = Some (as, s') \<and> ok s' U' \<and> distinct as
    \<and> (\<forall>a \<in> set as. BASIC_PAGE_SIZE dvd a \<and> page a \<subseteq> U) \<and> U' = U - (\<Union>a \<in> set as. page a)
    \<and> (length as = n \<or> U' = {})"
  using assms
proof (induction n arbitrary: s U)
  case (Suc n)
  show ?case
  proof (cases "U = {}")
    case True
    then show ?thesis using Suc.prems alloc_none by simp
  next
    case False
    obtain a s1 where a: "alloc_page s = Some (Ok a, s1)" "BASIC_PAGE_SIZE dvd a" "page a \<subseteq> U" "ok s1 (U - page a)"
      using alloc_some [OF Suc.prems False] by blast
    obtain as s' U' where r: "alloc_n alloc_page n s1 = Some (as, s')" "ok s' U'" "distinct as"
      "\<forall>b \<in> set as. BASIC_PAGE_SIZE dvd b \<and> page b \<subseteq> U - page a" "U' = U - page a - (\<Union>a \<in> set as. page a)"
      "length as = n \<or> U' = {}"
      using Suc.IH [OF a(4)] by blast
    have "a \<in> page a" by (simp add: page_def BASIC_PAGE_SIZE_def)
    then have "a \<notin> set as" using r(4) by blast
    moreover have "alloc_n alloc_page (Suc n) s = Some (a # as, s')" using a(1) r(1) by simp
    moreover have "U' = U - (\<Union>b \<in> set (a # as). page b)" using r(5) by auto
    ultimately show ?thesis using a r by (intro exI [of _ "a # as"] exI [of _ s'] exI [of _ U']) auto
  qed
qed auto

end

text \<open>The buddy allocator as a page allocator: state, single-page allocation and freeing.\<close>

definition pmm_free_bytes :: "nat \<Rightarrow> nat \<Rightarrow> nodes \<times> BuddyAllocator \<Rightarrow> nat set \<Rightarrow> bool" where
  "pmm_free_bytes L M s U \<longleftrightarrow> (\<exists>F. pmm_ok L M (fst s) (snd s) F \<and> U = bytes F)"

definition pmm_alloc_page :: "nodes \<times> BuddyAllocator \<Rightarrow> ((PmmError + nat) \<times> nodes \<times> BuddyAllocator) option" where
  "pmm_alloc_page s = buddy_allocate (fst s) (snd s) 1 1"

definition pmm_free_page :: "nodes \<times> BuddyAllocator \<Rightarrow> nat \<Rightarrow> ((PmmError + unit) \<times> nodes \<times> BuddyAllocator) option" where
  "pmm_free_page s a = buddy_free (fst s) (snd s) a 1"

lemma order_of_1 [simp]: "order_of (Suc 0) = 0"
  using order_of_pow2 [of 0] by simp

lemma buddy_double_free:
  assumes inv: "buddy_inv L M h b F k" and pc: "0 < pc" "order_of pc < 52"
    and al: "BASIC_PAGE_SIZE * pc dvd addr" and free: "(i, a) \<in> F" "order_of pc \<le> i" "addr \<in> blk i a"
  shows "buddy_free h b addr pc = Some (Err FreeOfAlreadyFree, h, b)"
proof -
  have "\<exists>i a. order_of pc \<le> i \<and> (i, a) \<in> F \<and> addr \<in> blk i a" using free by blast
  then have "buddy_is_page_free h b addr pc = Some (Ok True)"
    using buddy_is_page_free_spec [OF inv pc al] by simp
  then show ?thesis using pc by (simp add: buddy_free_def)
qed

interpretation pmm: page_allocator "pmm_free_bytes L M" pmm_alloc_page pmm_free_page M for L M
proof unfold_locales
  fix s U
  assume ok: "pmm_free_bytes L M s U"
  then obtain F where F: "pmm_ok L M (fst s) (snd s) F" "U = bytes F" by (auto simp: pmm_free_bytes_def)
  have bo: "blocks_ok L M F" using pmm_ok_limits [OF F(1)] by blast
  show "U \<subseteq> {..<M}" using bytes_bound [OF bo] F(2) by simp
  have one: "is_power_of_two 1" "BASIC_PAGE_SIZE * 1 < USIZE_LIM" "(1::nat) \<le> 2 ^ L"
    by (simp_all add: is_power_of_two_def BASIC_PAGE_SIZE_def USIZE_LIM_def log2_floor.simps)
  note al = pmm_allocate [OF F(1) zero_less_one one(3,1,2), unfolded mult_1_right]
  show "\<exists>a s'. pmm_alloc_page s = Some (Ok a, s') \<and> BASIC_PAGE_SIZE dvd a \<and> page a \<subseteq> U
      \<and> pmm_free_bytes L M s' (U - page a)" if "U \<noteq> {}"
  proof -
    from that F(2) obtain i a where ia: "(i, a) \<in> F" by (auto simp: bytes_def)
    then have "BASIC_PAGE_SIZE dvd a" using blocks_okD(2) [OF bo] by (auto simp: bsz_pages intro: dvd_mult_right)
    with al ia obtain c h' b' F' where "pmm_alloc_page s = Some (Ok c, (h', b'))" "pmm_ok L M h' b' F'"
      "BASIC_PAGE_SIZE dvd c" "page c \<subseteq> bytes F" "bytes F' = bytes F - page c"
      by (fastforce simp: pmm_alloc_page_def blk_0_page)
    then show ?thesis unfolding pmm_free_bytes_def F(2) by fastforce
  qed
  fix a
  assume a: "BASIC_PAGE_SIZE dvd a"
  show "\<exists>s'. pmm_free_page s a = Some (Ok (), s') \<and> pmm_free_bytes L M s' (U \<union> page a)"
    if "a + BASIC_PAGE_SIZE \<le> M" "page a \<inter> U = {}"
    using pmm_free [OF F(1), of 1 a] a that F(2)
    by (fastforce simp: pmm_free_page_def pmm_free_bytes_def blk_0_page bsz_pages)
  show "pmm_free_page s a = Some (Err FreeOfAlreadyFree, s)" if "page a \<subseteq> U"
  proof -
    obtain k where k: "buddy_inv L M (fst s) (snd s) F k" using F(1) by (rule pmm_ok_spare)
    have "a \<in> page a" by (simp add: page_def BASIC_PAGE_SIZE_def)
    with that F(2) obtain i c where "(i, c) \<in> F" "a \<in> blk i c" by (auto simp: bytes_def)
    then show ?thesis using buddy_double_free [OF k, of 1 a i c] a by (simp add: pmm_free_page_def)
  qed
next
  fix s
  assume "pmm_free_bytes L M s {}"
  then obtain F where F: "pmm_ok L M (fst s) (snd s) F" "bytes F = {}" by (auto simp: pmm_free_bytes_def)
  have one: "is_power_of_two 1" "BASIC_PAGE_SIZE * 1 < USIZE_LIM" "(1::nat) \<le> 2 ^ L"
    by (simp_all add: is_power_of_two_def BASIC_PAGE_SIZE_def USIZE_LIM_def log2_floor.simps)
  show "pmm_alloc_page s = Some (Err NoAvailableBlock, s)"
    using pmm_allocate [OF F(1) zero_less_one one(3,1,2)] F(2)
    by (auto simp: pmm_alloc_page_def)
qed

subsection \<open>A small state\<close>

text \<open>Four pages of memory, all free, managed with three zones.\<close>

lemma pmm_demo: "\<exists>h b F. pmm_ok 3 0x4000 h b F \<and> bytes F = blk 2 0"
proof -
  let ?h = "\<lambda>_. Some \<lparr> dn_data = 0, dn_next = None, dn_prev = None \<rparr> :: nat DNode option"
  obtain h :: nodes and fl where l: "linked_list h fl [0..<9]"
    using push_nodes_spec [OF linked_list_new [of ?h], of "[0..<9]"] by (auto simp: USIZE_LIM_def)
  have "mem_limits 3 0x4000" by (simp add: mem_limits_def bsz_def)
  from pmm_ok_fresh [OF l this] have ok: "pmm_ok 3 0x4000 h \<lparr> ba_zones = create_zones 3, ba_freelist = fl \<rparr> {}"
    by (simp add: BASIC_PAGE_SIZE_def)
  have "order_of 4 = 2" using order_of_pow2 [of 2] by simp
  with pmm_free [OF ok, of 4 0] show ?thesis by (auto simp: bsz_def)
qed

lemma rep_demo: "\<exists>h b. buddy_rep h b [[], [], []] (Suc 1)"
proof -
  let ?h = "\<lambda>_. Some \<lparr> dn_data = 0, dn_next = None, dn_prev = None \<rparr> :: nat DNode option"
  obtain h :: nodes and fl where l: "linked_list h fl [0..<2]"
    using push_nodes_spec [OF linked_list_new [of ?h], of "[0..<2]"] by (auto simp: USIZE_LIM_def)
  have "length [0..<2] = Suc 1" by simp
  from buddy_rep_fresh [OF l this, of 3] show ?thesis by (auto simp: numeral_3_eq_3)
qed

subsection \<open>Properties\<close>

text \<open>C1: allocation is correct on every branch and never panics.  A well-formed request is
  answered with a block that is aligned as asked, large enough and entirely free, and exactly
  that block leaves the free memory, with the allocator's invariant (blocks aligned, disjoint,
  in range, fully coalesced) kept; \<open>NoAvailableBlock\<close> is returned, without effect, exactly when
  no free block of a sufficient level has the alignment.  Ill-formed requests are refused with
  the documented error and without effect.\<close>

theorem pmm_allocate_correct:
  assumes "pmm_ok L M h b F" and "BASIC_PAGE_SIZE * alignment < USIZE_LIM"
  shows "buddy_allocate h b alignment 0 = Some (Err EmptyAllocation, h, b)
    \<and> (2 ^ L < pc \<longrightarrow> buddy_allocate h b alignment pc = Some (Err TooBigAllocation, h, b))
    \<and> (0 < pc \<and> pc \<le> 2 ^ L \<and> \<not> is_power_of_two alignment \<longrightarrow>
        buddy_allocate h b alignment pc = Some (Err InvalidAlignment, h, b))
    \<and> (0 < pc \<and> pc \<le> 2 ^ L \<and> is_power_of_two alignment \<longrightarrow>
        (if \<exists>(i, a) \<in> F. order_of pc \<le> i \<and> BASIC_PAGE_SIZE * alignment dvd a
         then \<exists>a h' b' F'. buddy_allocate h b alignment pc = Some (Ok a, h', b') \<and> pmm_ok L M h' b' F'
           \<and> BASIC_PAGE_SIZE * alignment dvd a \<and> pc * BASIC_PAGE_SIZE \<le> bsz (order_of pc)
           \<and> blk (order_of pc) a \<subseteq> bytes F \<and> bytes F' = bytes F - blk (order_of pc) a
           \<and> (coalesced F \<longrightarrow> coalesced F')
         else buddy_allocate h b alignment pc = Some (Err NoAvailableBlock, h, b)))"
proof (intro conjI impI)
  have up: "upow2 L = Some (2 ^ L)" "length (ba_zones b) = L"
    using mem_limits_zones pmm_ok_limits [OF assms(1)] pmm_ok_length [OF assms(1)] by blast+
  show "buddy_allocate h b alignment 0 = Some (Err EmptyAllocation, h, b)" by (simp add: buddy_allocate_def)
  show "buddy_allocate h b alignment pc = Some (Err TooBigAllocation, h, b)" if "2 ^ L < pc"
    using that by (simp add: buddy_allocate_def up)
  show "buddy_allocate h b alignment pc = Some (Err InvalidAlignment, h, b)"
    if "0 < pc \<and> pc \<le> 2 ^ L \<and> \<not> is_power_of_two alignment"
    using that by (simp add: buddy_allocate_def up)
  assume pc: "0 < pc \<and> pc \<le> 2 ^ L \<and> is_power_of_two alignment"
  let ?P = "\<exists>(i, a) \<in> F. order_of pc \<le> i \<and> BASIC_PAGE_SIZE * alignment dvd a"
  have sz: "pc * BASIC_PAGE_SIZE \<le> bsz (order_of pc)" using bsz_order_pages [of pc] by (simp add: mult.commute)
  have no: "buddy_allocate h b alignment pc = Some (Err NoAvailableBlock, h, b)" if "\<not> ?P"
  proof -
    have "\<not> (\<exists>a. BASIC_PAGE_SIZE * alignment dvd a \<and> (\<exists>i. order_of pc \<le> i \<and> (i, a) \<in> F))" using that by auto
    moreover have "find_bucket_loop h b alignment [order_of pc..<L] = Some (Err NoAvailableBlock, h, b)"
    proof -
      obtain k where k: "buddy_inv L M h b F k" using assms(1) by (rule pmm_ok_spare)
      have "0 < alignment" using pc by (simp add: is_power_of_two_def)
      moreover have "set [order_of pc..<L] \<subseteq> {..<L}" by auto
      ultimately show ?thesis using find_bucket_loop_spec [OF k, of "[order_of pc..<L]" alignment] assms(2) that
        by fastforce
    qed
    moreover have "order_of pc < 64"
      using order_of_le [of pc L] pc pmm_ok_limits [OF assms(1)] by (simp add: mem_limits_def)
    ultimately show ?thesis
      using pc by (simp add: buddy_allocate_def up find_bucket_def checked_next_power_of_two_order)
  qed
  have yes: "\<exists>a h' b' F'. buddy_allocate h b alignment pc = Some (Ok a, h', b') \<and> pmm_ok L M h' b' F'
      \<and> BASIC_PAGE_SIZE * alignment dvd a \<and> pc * BASIC_PAGE_SIZE \<le> bsz (order_of pc)
      \<and> blk (order_of pc) a \<subseteq> bytes F \<and> bytes F' = bytes F - blk (order_of pc) a
      \<and> (coalesced F \<longrightarrow> coalesced F')" if ?P
    using pmm_allocate [OF assms(1) _ _ _ assms(2), of pc] pc that sz by blast
  show "if ?P then \<exists>a h' b' F'. buddy_allocate h b alignment pc = Some (Ok a, h', b') \<and> pmm_ok L M h' b' F'
      \<and> BASIC_PAGE_SIZE * alignment dvd a \<and> pc * BASIC_PAGE_SIZE \<le> bsz (order_of pc)
      \<and> blk (order_of pc) a \<subseteq> bytes F \<and> bytes F' = bytes F - blk (order_of pc) a
      \<and> (coalesced F \<longrightarrow> coalesced F')
    else buddy_allocate h b alignment pc = Some (Err NoAvailableBlock, h, b)"
    using yes no by simp
qed

theorem pmm_allocate_correct_witness:
  "\<exists>h b F. pmm_ok 3 0x4000 h b F \<and> bytes F = blk 2 0
    \<and> buddy_allocate h b 1 0 = Some (Err EmptyAllocation, h, b)
    \<and> buddy_allocate h b 1 9 = Some (Err TooBigAllocation, h, b)
    \<and> buddy_allocate h b 3 1 = Some (Err InvalidAlignment, h, b)
    \<and> (\<exists>a h' b' F'. buddy_allocate h b 1 1 = Some (Ok a, h', b') \<and> bytes F' = blk 2 0 - blk 0 a)"
proof -
  obtain h b F where ok: "pmm_ok 3 0x4000 h b F" and F: "bytes F = blk 2 0" using pmm_demo by blast
  have p: "is_power_of_two 1" "\<not> is_power_of_two 3"
    by (simp_all add: is_power_of_two_def log2_floor.simps)
  have U: "BASIC_PAGE_SIZE * 1 < USIZE_LIM" "BASIC_PAGE_SIZE * 3 < USIZE_LIM"
    by (simp_all add: BASIC_PAGE_SIZE_def USIZE_LIM_def)
  note t1 = pmm_allocate_correct [OF ok U(1)] and t3 = pmm_allocate_correct [OF ok U(2), of 1]
  from F have "bytes F \<noteq> {}" by simp
  then obtain i a where ia: "(i, a) \<in> F" by (auto simp: bytes_def)
  have "BASIC_PAGE_SIZE dvd a"
    using blocks_okD(2) [OF conjunct2 [OF pmm_ok_limits [OF ok]] ia] by (auto simp: bsz_pages intro: dvd_mult_right)
  with ia have ex: "\<exists>(i, a) \<in> F. order_of 1 \<le> i \<and> BASIC_PAGE_SIZE * 1 dvd a" by auto
  have "0 < (1::nat) \<and> 1 \<le> (2::nat) ^ 3 \<and> is_power_of_two 1" using p by simp
  from t1 [of 1, THEN conjunct2, THEN conjunct2, THEN conjunct2, THEN mp, OF this, unfolded if_P [OF ex]]
  have "\<exists>a h' b' F'. buddy_allocate h b 1 1 = Some (Ok a, h', b') \<and> bytes F' = blk 2 0 - blk 0 a"
    by (simp add: F) blast
  moreover have "buddy_allocate h b 1 0 = Some (Err EmptyAllocation, h, b)"
    "buddy_allocate h b 1 9 = Some (Err TooBigAllocation, h, b)"
    "buddy_allocate h b 3 1 = Some (Err InvalidAlignment, h, b)"
    using t1 [of 9] t3 p by simp_all
  ultimately show ?thesis using ok F by blast
qed

text \<open>C2: freeing a block that was allocated (aligned, inside memory and not free) succeeds,
  returns exactly that block to the free memory, and coalesces it with its buddies as far as
  possible; the search for buddies never runs past the last zone.  Freeing a block that lies in
  a free block of at least its size is reported as \<open>FreeOfAlreadyFree\<close> without effect.\<close>

theorem pmm_free_correct:
  assumes "pmm_ok L M h b F" and "0 < pc" and "BASIC_PAGE_SIZE * pc dvd addr" and "order_of pc < 52"
  shows "buddy_free h b addr 0 = Some (Err EmptyFree, h, b)
    \<and> (bsz (order_of pc) dvd addr \<and> addr + bsz (order_of pc) \<le> M \<and> blk (order_of pc) addr \<inter> bytes F = {} \<longrightarrow>
        (\<exists>h' b' F'. buddy_free h b addr pc = Some (Ok (), h', b') \<and> pmm_ok L M h' b' F'
          \<and> bytes F' = bytes F \<union> blk (order_of pc) addr \<and> (coalesced F \<longrightarrow> coalesced F')))
    \<and> ((\<exists>(i, a) \<in> F. order_of pc \<le> i \<and> addr \<in> blk i a) \<longrightarrow>
        buddy_free h b addr pc = Some (Err FreeOfAlreadyFree, h, b))"
proof (intro conjI impI)
  obtain k where k: "buddy_inv L M h b F k" using assms(1) by (rule pmm_ok_spare)
  show "buddy_free h b addr 0 = Some (Err EmptyFree, h, b)" by (simp add: buddy_free_def)
  show "buddy_free h b addr pc = Some (Err FreeOfAlreadyFree, h, b)"
    if "\<exists>(i, a) \<in> F. order_of pc \<le> i \<and> addr \<in> blk i a"
    using buddy_double_free [OF k assms(2,4,3)] that by blast
  show "\<exists>h' b' F'. buddy_free h b addr pc = Some (Ok (), h', b') \<and> pmm_ok L M h' b' F'
      \<and> bytes F' = bytes F \<union> blk (order_of pc) addr \<and> (coalesced F \<longrightarrow> coalesced F')"
    if "bsz (order_of pc) dvd addr \<and> addr + bsz (order_of pc) \<le> M \<and> blk (order_of pc) addr \<inter> bytes F = {}"
    using pmm_free [OF assms(1,2,3)] that by blast
qed

theorem pmm_free_correct_witness:
  "\<exists>h b F. pmm_ok 3 0x4000 h b F \<and> bytes F = blk 2 0
    \<and> buddy_free h b 0x2000 1 = Some (Err FreeOfAlreadyFree, h, b)"
proof -
  obtain h b F where ok: "pmm_ok 3 0x4000 h b F" and F: "bytes F = blk 2 0" using pmm_demo by blast
  have "0x2000 \<in> bytes F" by (simp add: F blk_def bsz_def)
  then have "\<exists>(i, a) \<in> F. order_of 1 \<le> i \<and> 0x2000 \<in> blk i a" by (auto simp: bytes_def)
  with pmm_free_correct [OF ok, of 1 "0x2000"] have "buddy_free h b 0x2000 1 = Some (Err FreeOfAlreadyFree, h, b)"
    by (simp add: BASIC_PAGE_SIZE_def)
  with ok F show ?thesis by blast
qed

text \<open>C4: \<open>allocate_at\<close> for a power-of-two number of pages at an aligned address takes exactly the
  requested block out of the free memory when it lies in a free block, splitting that block, and
  otherwise returns \<open>NoAvailableBlock\<close> without effect.\<close>

theorem pmm_allocate_at_correct:
  assumes "pmm_ok L M h b F" and "s \<le> L" and "bsz s dvd addr"
  shows "if \<exists>(i, a) \<in> F. s \<le> i \<and> addr \<in> blk i a
    then \<exists>h' b' F'. buddy_allocate_at h b addr (2 ^ s) = Some (Ok (), h', b') \<and> pmm_ok L M h' b' F'
      \<and> blk s addr \<subseteq> bytes F \<and> bytes F' = bytes F - blk s addr \<and> (coalesced F \<longrightarrow> coalesced F')
    else buddy_allocate_at h b addr (2 ^ s) = Some (Err NoAvailableBlock, h, b)"
proof (cases "\<exists>(i, a) \<in> F. s \<le> i \<and> addr \<in> blk i a")
  case True
  with pmm_allocate_at [OF assms] show ?thesis by auto
next
  case False
  have "\<not> blk s addr \<subseteq> bytes F \<or> (\<exists>(i, a) \<in> F. i < s \<and> addr \<in> blk i a)"
    using False blk_nonempty(1) [of addr s] by (fastforce simp: bytes_def)
  moreover obtain k where k: "buddy_inv L M h b F k" "L \<le> k" using assms(1) by (rule pmm_ok_spare)
  have "set [s..<L] \<subseteq> {..<L}" by auto
  from find_bucket_at_loop_spec [OF k(1) this, of addr] False
  have find: "find_bucket_at_loop h b addr [s..<L] = Some (Err NoAvailableBlock, h, b)" by fastforce
  have lim: "mem_limits L M" using pmm_ok_limits [OF assms(1)] by blast
  then have "bsz s < USIZE_LIM" using assms(2) by (intro bsz_lt_USIZE_LIM) (simp add: mem_limits_def)
  then have m: "umul BASIC_PAGE_SIZE (2 ^ s) = Some (bsz s)" "umod addr (bsz s) = Some 0"
    using assms(3) by (simp_all add: bsz_pages mult.commute mod_eq_0_iff_dvd [symmetric] umod_def BASIC_PAGE_SIZE_def)
  have "s < 64" using assms(2) lim by (simp add: mem_limits_def)
  then have "checked_next_power_of_two (2 ^ s) = Some (2 ^ s)"
    using checked_next_power_of_two_order [of "2 ^ s"] by simp
  then have "buddy_allocate_at h b addr (2 ^ s) = Some (Err NoAvailableBlock, h, b)"
    using assms(2) by (simp add: buddy_allocate_at_def find_bucket_at_def pmm_ok_length [OF assms(1)] m
        mem_limits_zones [OF lim] find)
  with False show ?thesis by simp
qed

theorem pmm_allocate_at_correct_witness:
  "\<exists>h b F h' b' F'. pmm_ok 3 0x4000 h b F \<and> bytes F = blk 2 0
    \<and> buddy_allocate_at h b 0x2000 1 = Some (Ok (), h', b') \<and> bytes F' = blk 2 0 - blk 0 0x2000"
proof -
  obtain h b F where ok: "pmm_ok 3 0x4000 h b F" and F: "bytes F = blk 2 0" using pmm_demo by blast
  have "0x2000 \<in> bytes F" by (simp add: F blk_def bsz_def)
  then have "\<exists>(i, a) \<in> F. 0 \<le> i \<and> 0x2000 \<in> blk i a" by (auto simp: bytes_def)
  with pmm_allocate_at_correct [OF ok, of 0 "0x2000"] obtain h' b' F' where
    "buddy_allocate_at h b 0x2000 1 = Some (Ok (), h', b')" "bytes F' = blk 2 0 - blk 0 0x2000"
    by (auto simp: F bsz_def)
  with ok F show ?thesis by blast
qed

text \<open>C3: initialisation from the boot loader's memory map succeeds and leaves exactly the usable
  memory free, except for the pages that hold the allocator's own zones and nodes; the
  allocator's invariant holds in that first state.  The assumptions are the boot loader's
  guarantees (usable entries page aligned, ordered and disjoint), an entry large enough for the
  two megabytes of nodes, and no more pages than there are nodes.\<close>

theorem pmm_init_correct:
  assumes "get_page_count_from_mem_map mm = Some T" and "0 < T" and "Suc (log2_floor T) \<le> 50"
    and "mem_map_ok (T * BASIC_PAGE_SIZE) mm"
    and "find (\<lambda>e. me_type e = USABLE \<and> 24 * Suc (log2_floor T) + FREELIST_BUCKETS_SIZE \<le> me_length e) mm = Some entry"
    and "0 < hhdm" and "8 dvd hhdm"
    and "me_base entry + hhdm + (24 * Suc (log2_floor T) + FREELIST_BUCKETS_SIZE) < USIZE_LIM"
    and "{me_base entry + hhdm..<me_base entry + hhdm + (24 * Suc (log2_floor T) + FREELIST_BUCKETS_SIZE)} \<subseteq> dom h"
    and "T + Suc (Suc (log2_floor T)) \<le> 87381"
  shows "\<exists>h' b' F'. buddy_init_from_limine hhdm h mm = Some ((h', b'), entry)
    \<and> pmm_ok (Suc (log2_floor T)) (T * BASIC_PAGE_SIZE) h' b' F' \<and> coalesced F'
    \<and> bytes F' = usable_bytes mm - page_range (me_base entry div BASIC_PAGE_SIZE)
        (div_ceil (24 * Suc (log2_floor T) + FREELIST_BUCKETS_SIZE) BASIC_PAGE_SIZE)"
  by (rule pmm_init_spec [OF assms(1,2) refl assms(3-10)])

theorem pmm_init_correct_witness:
  "\<exists>h :: nodes. \<exists>h' b' F'. buddy_init_from_limine 0xffff800000000000 h
       [\<lparr> me_base = 0x1000, me_length = 0x1000, me_type = OtherEntry 1 \<rparr>,
        \<lparr> me_base = 0x100000, me_length = 0x400000, me_type = USABLE \<rparr>]
     = Some ((h', b'), \<lparr> me_base = 0x100000, me_length = 0x400000, me_type = USABLE \<rparr>)
    \<and> pmm_ok 11 0x500000 h' b' F'
    \<and> bytes F' = {0x100000..<0x500000} - page_range 0x100 (div_ceil (24 * 11 + FREELIST_BUCKETS_SIZE) BASIC_PAGE_SIZE)"
proof -
  let ?e = "\<lparr> me_base = 0x100000, me_length = 0x400000, me_type = USABLE \<rparr>"
  let ?mm = "[\<lparr> me_base = 0x1000, me_length = 0x1000, me_type = OtherEntry 1 \<rparr>, ?e]"
  let ?h = "\<lambda>_. Some \<lparr> dn_data = 0, dn_next = None, dn_prev = None \<rparr> :: nat DNode option"
  have T: "get_page_count_from_mem_map ?mm = Some 0x500"
    by (simp add: get_page_count_from_mem_map_def uadd_def udiv_def USIZE_LIM_def BASIC_PAGE_SIZE_def)
  have L: "log2_floor 0x500 = 10" by (rule log2_floor_unique) simp_all
  have M: "0x500 * BASIC_PAGE_SIZE = 0x500000" by (simp add: BASIC_PAGE_SIZE_def)
  have U: "usable_bytes ?mm = {0x100000..<0x500000}"
  proof -
    have "{e \<in> set ?mm. usable e} = {?e}" by (auto simp: usable_def)
    then show ?thesis by (simp add: usable_bytes_def entry_bytes_def del: atLeastLessThan_nat_numeral)
  qed
  have n: "me_base ?e div BASIC_PAGE_SIZE = 0x100" by (simp add: BASIC_PAGE_SIZE_def)
  let ?hh = "0xffff800000000000 :: nat"
  have p: "mem_map_ok (0x500 * BASIC_PAGE_SIZE) ?mm"
    by (simp add: mem_map_ok_def usable_def BASIC_PAGE_SIZE_def)
  have f: "find (\<lambda>e. me_type e = USABLE \<and> 24 * Suc (log2_floor 0x500) + FREELIST_BUCKETS_SIZE \<le> me_length e) ?mm = Some ?e"
    by (simp add: L FREELIST_BUCKETS_SIZE_def)
  have q: "me_base ?e + ?hh + (24 * Suc (log2_floor 0x500) + FREELIST_BUCKETS_SIZE) < USIZE_LIM"
    by (simp add: L FREELIST_BUCKETS_SIZE_def USIZE_LIM_def)
  have d: "{me_base ?e + ?hh..<me_base ?e + ?hh + (24 * Suc (log2_floor 0x500) + FREELIST_BUCKETS_SIZE)} \<subseteq> dom ?h"
    by auto
  have r: "0 < (0x500::nat)" "Suc (log2_floor 0x500) \<le> 50" "0 < ?hh" "8 dvd ?hh" "0x500 + Suc (Suc (log2_floor 0x500)) \<le> 87381"
    by (simp_all add: L)
  have e11: "Suc 10 = 11" by simp
  from pmm_init_correct [OF T r(1,2) p f r(3,4) q d r(5), unfolded L M U e11 n] show ?thesis
    by blast
qed

text \<open>C15: pages can be allocated one by one until the memory is exhausted: the pages handed out
  are pairwise distinct, page aligned and all taken from the free memory, and either all \<open>n\<close>
  requests succeed or no free byte is left.  A page that is freed again is accounted as free,
  and freeing it twice is detected.\<close>

theorem pmm_pages_correct:
  assumes "pmm_free_bytes L M s U"
  shows "(\<exists>as s' U'. alloc_n pmm_alloc_page n s = Some (as, s') \<and> pmm_free_bytes L M s' U' \<and> distinct as
        \<and> (\<forall>a \<in> set as. BASIC_PAGE_SIZE dvd a \<and> page a \<subseteq> U) \<and> U' = U - (\<Union>a \<in> set as. page a)
        \<and> (length as = n \<or> U' = {}))
    \<and> (U \<noteq> {} \<longrightarrow> (\<exists>a s1 s2. pmm_alloc_page s = Some (Ok a, s1) \<and> pmm_free_page s1 a = Some (Ok (), s2)
        \<and> pmm_free_bytes L M s2 U \<and> pmm_free_page s2 a = Some (Err FreeOfAlreadyFree, s2)))"
  using pmm.alloc_many [OF assms] pmm.alloc_then_free [OF assms] by blast

theorem pmm_pages_correct_witness:
  "\<exists>s as s'. pmm_free_bytes 3 0x4000 s (blk 2 0) \<and> alloc_n pmm_alloc_page 2 s = Some (as, s') \<and> distinct as"
proof -
  obtain h b F where "pmm_ok 3 0x4000 h b F" "bytes F = blk 2 0" using pmm_demo by blast
  then have ok: "pmm_free_bytes 3 0x4000 (h, b) (blk 2 0)" by (auto simp: pmm_free_bytes_def)
  from pmm_pages_correct [OF ok, of 2] ok show ?thesis by blast
qed

text \<open>The double-free check looks only at zones of at least the level of the block, so freeing a
  block that overlaps a smaller free block goes undetected: with only the page at \<open>0x1000\<close> free,
  freeing two pages at address 0 succeeds and leaves both \<open>0x1000\<close> (one page) and 0 (two
  pages) in the zones, overlapping.\<close>

theorem pmm_partial_double_free:
  assumes "buddy_rep h b [[0x1000], [], []] (Suc k)"
  shows "\<exists>h' b'. buddy_free h b 0 2 = Some (Ok (), h', b') \<and> buddy_rep h' b' [[0x1000], [0], []] k
    \<and> blk 0 0x1000 \<inter> blk 1 0 \<noteq> {}"
proof -
  have len: "length (ba_zones b) = 3" using buddy_rep_length [OF assms] by simp
  have o: "order_of 2 = 1" "checked_next_power_of_two 2 = Some 2" "ilog2 2 = Some 1"
    using order_of_pow2 [of 1] checked_next_power_of_two_order [of 2] ilog2_pow2 [of 1] by simp_all
  have z: "zone_find h b 1 f = Some None" "zone_find h b 2 f = Some None" for f
    using zone_find_rep [OF assms, of 1 f] zone_find_rep [OF assms, of 2 f] by simp_all
  have upt: "[1..<3] = [1, 2 :: nat]" by (simp add: upt_rec)
  have nf: "buddy_is_page_free h b 0 2 = Some (Ok False)"
    by (simp add: buddy_is_page_free_def o [unfolded One_nat_def] len upt [unfolded One_nat_def] z [unfolded One_nat_def]
        umul_def umod_def upow2_def BASIC_PAGE_SIZE_def USIZE_LIM_def)
  have "get_buddy_addr 0 1 = Some (buddy 1 0)"
    by (rule get_buddy_addr_spec) (simp_all add: bsz_def USIZE_LIM_def)
  moreover obtain h' b' where p: "push_to_zone h b 0 1 = Some (h', b')" "buddy_rep h' b' [[0x1000], [0], []] k"
    using push_to_zone_rep [OF assms, of 1 0] by auto
  ultimately have "buddy_free h b 0 2 = Some (Ok (), h', b')"
    using nf by (simp add: buddy_free_def o coalesce_def len upt [unfolded One_nat_def] z [unfolded One_nat_def])
  moreover have "blk 0 0x1000 \<inter> blk 1 0 \<noteq> {}" by (simp add: blk_def bsz_def)
  ultimately show ?thesis using p(2) by blast
qed

theorem pmm_partial_double_free_witness:
  "\<exists>h b h' b'. buddy_rep h b [[0x1000], [], []] 1 \<and> buddy_free h b 0 2 = Some (Ok (), h', b')
    \<and> buddy_rep h' b' [[0x1000], [0], []] 0"
proof -
  obtain h b where "buddy_rep h b [[], [], []] (Suc 1)" using rep_demo by blast
  from push_to_zone_rep [OF this, of 0 "0x1000"] obtain h1 b1 where r: "buddy_rep h1 b1 [[0x1000], [], []] (Suc 0)" by auto
  from pmm_partial_double_free [OF r] r show ?thesis by auto
qed

text \<open>\<open>allocate_at\<close> checks the alignment against the page count before rounding it up to a power
  of two.  For three pages at \<open>0x3000\<close> it takes the free block of four pages at 0, and reports
  success although two of the three pages lie beyond that block and are not free; when the
  enclosing free block has eight pages it panics in \<open>get_buddy_addr\<close>.\<close>

theorem pmm_allocate_at_non_power_of_two:
  "(buddy_rep h b [[], [], [0]] k \<and> Suc k < USIZE_LIM \<longrightarrow>
      (\<exists>h' b'. buddy_allocate_at h b 0x3000 3 = Some (Ok (), h', b') \<and> buddy_rep h' b' [[], [], []] (Suc k)
        \<and> \<not> {0x3000..<0x3000 + 3 * BASIC_PAGE_SIZE} \<subseteq> blk 2 0))
   \<and> (buddy_rep h b [[], [], [], [0]] k \<longrightarrow> buddy_allocate_at h b 0x3000 3 = None)"
proof -
  have o: "order_of 3 = 2" by (simp add: order_of_def next_power_of_two_def log2_floor.simps)
  have c: "checked_next_power_of_two 3 = Some 4" "ilog2 4 = Some 2"
    using checked_next_power_of_two_order [of 3] ilog2_pow2 [of 2] by (simp_all add: o)
  have upt: "[2..<3] = [2 :: nat]" "[2..<4] = [2, 3 :: nat]" by (simp_all add: upt_rec)
  show ?thesis
  proof (intro conjI impI)
    assume r: "buddy_rep h b [[], [], [0]] k \<and> Suc k < USIZE_LIM"
    have len: "length (ba_zones b) = 3" using buddy_rep_length conjunct1 [OF r] by fastforce
    have z: "zone_find h b 2 g = find_pos g 0 [0]" for g
      using zone_find_rep [OF conjunct1 [OF r], of 2 g] by simp
    obtain h' b' where p: "pop_from_zone h b 2 0 = Some (h', b')" "buddy_rep h' b' [[], [], []] (Suc k)"
      using pop_from_zone_rep [OF conjunct1 [OF r], of 2 0] by auto
    have "buddy_allocate_at h b 0x3000 3 = Some (Ok (), h', b')"
      by (simp add: buddy_allocate_at_def len c find_bucket_at_def upt z p disband_def
          bucket_contains_def uadd_def umul_def umod_def upow2_def BASIC_PAGE_SIZE_def USIZE_LIM_def)
    moreover have "0x5000 \<in> {0x3000..<0x3000 + 3 * BASIC_PAGE_SIZE}" "0x5000 \<notin> blk 2 0"
      by (simp_all add: BASIC_PAGE_SIZE_def blk_def bsz_def)
    ultimately show "\<exists>h' b'. buddy_allocate_at h b 0x3000 3 = Some (Ok (), h', b') \<and> buddy_rep h' b' [[], [], []] (Suc k)
        \<and> \<not> {0x3000..<0x3000 + 3 * BASIC_PAGE_SIZE} \<subseteq> blk 2 0" using p(2) by blast
  next
    assume r: "buddy_rep h b [[], [], [], [0]] k"
    have len: "length (ba_zones b) = 4" using buddy_rep_length [OF r] by simp
    have z: "zone_find h b 2 g = Some None" "zone_find h b 3 g = find_pos g 0 [0]" for g
      using zone_find_rep [OF r, of 2 g] zone_find_rep [OF r, of 3 g] by simp_all
    obtain h' b' where p: "pop_from_zone h b 3 0 = Some (h', b')"
      using pop_from_zone_rep [OF r, of 3 0] by auto
    have "get_buddy_addr 0x3000 2 = None"
      by (simp add: get_buddy_addr_def MIN_ZONE_LEVEL_def uadd_def upow2_def umod_def USIZE_LIM_def)
    then show "buddy_allocate_at h b 0x3000 3 = None"
      by (simp add: buddy_allocate_at_def len c find_bucket_at_def upt z p disband_def
          bucket_contains_def uadd_def umul_def umod_def upow2_def BASIC_PAGE_SIZE_def USIZE_LIM_def)
  qed
qed

theorem pmm_allocate_at_non_power_of_two_witness:
  "\<exists>h b h' b'. buddy_rep h b [[], [], [0]] 1 \<and> buddy_allocate_at h b 0x3000 3 = Some (Ok (), h', b')"
proof -
  obtain h b where "buddy_rep h b [[], [], []] (Suc 1)" using rep_demo by blast
  from push_to_zone_rep [OF this, of 2 0] obtain h1 b1 where r: "buddy_rep h1 b1 [[], [], [0]] 1" by auto
  from pmm_allocate_at_non_power_of_two [of h1 b1 1] r show ?thesis by (auto simp: USIZE_LIM_def)
qed

end
