(* ===== verification/Page_Flags.thy ===== *)
theory Page_Flags
  imports Mem_Addr
begin

text \<open>
  Page sizes, page flags and the page attribute table: the generic wrappers of
  \<open>kernel/src/mem/paging.rs\<close> and their x86-64 instances in
  \<open>kernel/src/arch/x86_64/paging\<close> (\<open>flags.rs\<close>, \<open>page_size.rs\<close>, \<open>pat.rs\<close>).  A flag set is a 64-bit word.
\<close>

subsection \<open>Errors and page sizes\<close>

datatype PagingError =
    PageAlreadyPresent | PageNotPresent | PageFault | InvalidPageSize | InvalidPhysicalAddress
  | InvalidVirtualAddress | InvalidFlags | OutOfMemory | BadPageCountAndAddressCombination

text \<open>\<open>PageSize\<close>: only the three sizes are constructed.\<close>

datatype PageSize = Size4KB | Size2MB | Size1GB

fun page_size_size :: "PageSize \<Rightarrow> usize" where
  "page_size_size Size4KB = 0x1000"
| "page_size_size Size2MB = 0x00200000"
| "page_size_size Size1GB = 0x40000000"

definition page_alignment :: "PageSize \<Rightarrow> usize" where
  "page_alignment ps = page_size_size ps div page_size_size Size4KB"

definition to_default_page_count :: "PageSize \<Rightarrow> usize" where
  "to_default_page_count ps = page_size_size ps div page_size_size Size4KB"

definition MAX_BOTTOM_PAGING_LEVEL :: usize where
  "MAX_BOTTOM_PAGING_LEVEL = 3"

definition from_bottom_paging_level :: "usize \<Rightarrow> PageSize option" where
  "from_bottom_paging_level level =
     (if level = 0 then Some Size4KB
      else if level = 1 then Some Size2MB
      else if level = 2 then Some Size1GB
      else None)"

fun bottom_paging_level :: "PageSize \<Rightarrow> usize" where
  "bottom_paging_level Size4KB = 0"
| "bottom_paging_level Size2MB = 1"
| "bottom_paging_level Size1GB = 2"

fun offset_bit_count :: "PageSize \<Rightarrow> usize" where
  "offset_bit_count Size4KB = 12"
| "offset_bit_count Size2MB = 21"
| "offset_bit_count Size1GB = 30"

definition get_offset_mask :: "PageSize \<Rightarrow> u64" where
  "get_offset_mask ps = of_nat (page_size_size ps) - 1"

fun get_pat_bit :: "PageSize \<Rightarrow> usize" where
  "get_pat_bit Size4KB = 7"
| "get_pat_bit Size2MB = 12"
| "get_pat_bit Size1GB = 12"

subsection \<open>Flags\<close>

type_synonym Flags = u64

definition flags_data :: "Flags \<Rightarrow> u64" where
  "flags_data f = f"

definition flags_get :: "Flags \<Rightarrow> u64 \<Rightarrow> bool" where
  "flags_get f d \<longleftrightarrow> f AND d \<noteq> 0"

definition flags_set :: "Flags \<Rightarrow> u64 \<Rightarrow> bool \<Rightarrow> Flags" where
  "flags_set f d status = (if status then f OR d else f AND NOT d)"

definition flags_join :: "Flags \<Rightarrow> Flags \<Rightarrow> Flags option" where
  "flags_join f g = (if f AND g \<noteq> 0 then None else Some (flags_set f g True))"

definition FLAGS_NONE :: u64 where "FLAGS_NONE = 0"
definition FLAG_P :: u64 where "FLAG_P = push_bit 0 1"
definition FLAG_RW :: u64 where "FLAG_RW = push_bit 1 1"
definition FLAG_US :: u64 where "FLAG_US = push_bit 2 1"
definition FLAG_PWT :: u64 where "FLAG_PWT = push_bit 3 1"
definition FLAG_PCD :: u64 where "FLAG_PCD = push_bit 4 1"
definition FLAG_A :: u64 where "FLAG_A = push_bit 5 1"
definition FLAG_D :: u64 where "FLAG_D = push_bit 6 1"
definition FLAG_PS :: u64 where "FLAG_PS = push_bit 7 1"
definition FLAG_G :: u64 where "FLAG_G = push_bit 8 1"
definition HLAT :: u64 where "HLAT = push_bit 11 1"
definition FLAG_BIG_PAGES_PAT :: u64 where "FLAG_BIG_PAGES_PAT = push_bit 12 1"
definition FLAG_4KB_PAT :: u64 where "FLAG_4KB_PAT = push_bit 7 1"
definition FLAG_XD :: u64 where "FLAG_XD = push_bit 63 1"
definition FLAG_ALLOCATED :: u64 where "FLAG_ALLOCATED = push_bit 9 1"
definition FLAG_LAST_ENTRY :: u64 where "FLAG_LAST_ENTRY = push_bit 10 1"

definition flags_new :: Flags where "flags_new = FLAGS_NONE"

definition set_present :: "Flags \<Rightarrow> bool \<Rightarrow> Flags" where "set_present f b = flags_set f FLAG_P b"
definition set_read_write :: "Flags \<Rightarrow> bool \<Rightarrow> Flags" where "set_read_write f b = flags_set f FLAG_RW b"
definition set_user_supervisor :: "Flags \<Rightarrow> bool \<Rightarrow> Flags" where "set_user_supervisor f b = flags_set f FLAG_US b"
definition set_pwt :: "Flags \<Rightarrow> bool \<Rightarrow> Flags" where "set_pwt f b = flags_set f FLAG_PWT b"
definition set_pcd :: "Flags \<Rightarrow> bool \<Rightarrow> Flags" where "set_pcd f b = flags_set f FLAG_PCD b"
definition set_pat_big_pages :: "Flags \<Rightarrow> bool \<Rightarrow> Flags" where "set_pat_big_pages f b = flags_set f FLAG_BIG_PAGES_PAT b"
definition set_pat_4kb :: "Flags \<Rightarrow> bool \<Rightarrow> Flags" where "set_pat_4kb f b = flags_set f FLAG_4KB_PAT b"
definition set_accessed :: "Flags \<Rightarrow> bool \<Rightarrow> Flags" where "set_accessed f b = flags_set f FLAG_A b"
definition set_dirty :: "Flags \<Rightarrow> bool \<Rightarrow> Flags" where "set_dirty f b = flags_set f FLAG_D b"
definition set_page_size :: "Flags \<Rightarrow> bool \<Rightarrow> Flags" where "set_page_size f b = flags_set f FLAG_PS b"
definition set_global :: "Flags \<Rightarrow> bool \<Rightarrow> Flags" where "set_global f b = flags_set f FLAG_G b"
definition set_hlat :: "Flags \<Rightarrow> bool \<Rightarrow> Flags" where "set_hlat f b = flags_set f HLAT b"
definition set_execute_disable :: "Flags \<Rightarrow> bool \<Rightarrow> Flags" where "set_execute_disable f b = flags_set f FLAG_XD b"
definition set_allocated :: "Flags \<Rightarrow> bool \<Rightarrow> Flags" where "set_allocated f b = flags_set f FLAG_ALLOCATED b"
definition set_last_entry :: "Flags \<Rightarrow> bool \<Rightarrow> Flags" where "set_last_entry f b = flags_set f FLAG_LAST_ENTRY b"

definition get_present :: "Flags \<Rightarrow> bool" where "get_present f = flags_get f FLAG_P"
definition get_read_write :: "Flags \<Rightarrow> bool" where "get_read_write f = flags_get f FLAG_RW"
definition get_user_supervisor :: "Flags \<Rightarrow> bool" where "get_user_supervisor f = flags_get f FLAG_US"
definition get_write_through :: "Flags \<Rightarrow> bool" where "get_write_through f = flags_get f FLAG_PWT"
definition get_cache_disable :: "Flags \<Rightarrow> bool" where "get_cache_disable f = flags_get f FLAG_PCD"
definition get_accessed :: "Flags \<Rightarrow> bool" where "get_accessed f = flags_get f FLAG_A"
definition get_dirty :: "Flags \<Rightarrow> bool" where "get_dirty f = flags_get f FLAG_D"
definition get_page_size :: "Flags \<Rightarrow> bool" where "get_page_size f = flags_get f FLAG_PS"
definition get_global :: "Flags \<Rightarrow> bool" where "get_global f = flags_get f FLAG_G"
definition get_hlat :: "Flags \<Rightarrow> bool" where "get_hlat f = flags_get f HLAT"
definition get_execute_disable :: "Flags \<Rightarrow> bool" where "get_execute_disable f = flags_get f FLAG_XD"
definition get_allocated :: "Flags \<Rightarrow> bool" where "get_allocated f = flags_get f FLAG_ALLOCATED"
definition get_last_entry :: "Flags \<Rightarrow> bool" where "get_last_entry f = flags_get f FLAG_LAST_ENTRY"

text \<open>\<open>From<PageSize> for Flags\<close>\<close>

definition flags_of_page_size :: "PageSize \<Rightarrow> Flags" where
  "flags_of_page_size ps = (if ps = Size4KB then flags_new else set_page_size flags_new True)"

subsection \<open>The page attribute table\<close>

datatype PatType = Uncacheable | WriteCombining | WriteThrough | WriteProtected | WriteBack | Uncached

datatype PatEntry = Pat0 | Pat1 | Pat2 | Pat3 | Pat4 | Pat5 | Pat6 | Pat7

fun pat_type_value :: "PatType \<Rightarrow> nat" where
  "pat_type_value Uncacheable = 0"
| "pat_type_value WriteCombining = 1"
| "pat_type_value WriteThrough = 4"
| "pat_type_value WriteProtected = 5"
| "pat_type_value WriteBack = 6"
| "pat_type_value Uncached = 7"

fun pat_entry_value :: "PatEntry \<Rightarrow> nat" where
  "pat_entry_value Pat0 = 0"
| "pat_entry_value Pat1 = 1"
| "pat_entry_value Pat2 = 2"
| "pat_entry_value Pat3 = 3"
| "pat_entry_value Pat4 = 4"
| "pat_entry_value Pat5 = 5"
| "pat_entry_value Pat6 = 6"
| "pat_entry_value Pat7 = 7"

definition SHIFTING_SIZE :: nat where
  "SHIFTING_SIZE = 8"

definition DEFAULT_PAT_STATUS :: "PatType list" where
  "DEFAULT_PAT_STATUS = [WriteBack, WriteThrough, Uncached, Uncacheable,
     WriteBack, WriteThrough, Uncached, Uncacheable]"

text \<open>The value of the \<open>IA32_PAT\<close> register is passed and returned.\<close>

definition pat_entry_set :: "u64 \<Rightarrow> PatEntry \<Rightarrow> PatType \<Rightarrow> u64" where
  "pat_entry_set pat entry pat_type =
     (let pat = pat AND NOT (push_bit (pat_entry_value entry * SHIFTING_SIZE) 7)
      in pat OR push_bit (pat_entry_value entry * SHIFTING_SIZE) (of_nat (pat_type_value pat_type)))"

definition pat_type_try_from :: "nat \<Rightarrow> PatType option" where
  "pat_type_try_from v =
     (if v = 0 then Some Uncacheable
      else if v = 1 then Some WriteCombining
      else if v = 4 then Some WriteThrough
      else if v = 5 then Some WriteProtected
      else if v = 6 then Some WriteBack
      else if v = 7 then Some Uncached
      else None)"

definition pat_entry_get_type :: "u64 \<Rightarrow> PatEntry \<Rightarrow> PatType option" where
  "pat_entry_get_type pat entry =
     pat_type_try_from (unat (drop_bit (pat_entry_value entry * SHIFTING_SIZE) pat AND 7))"

fun pat_entry_of_type :: "PatType \<Rightarrow> PatEntry" where
  "pat_entry_of_type WriteBack = Pat0"
| "pat_entry_of_type WriteThrough = Pat1"
| "pat_entry_of_type Uncached = Pat2"
| "pat_entry_of_type Uncacheable = Pat3"
| "pat_entry_of_type WriteCombining = Pat4"
| "pat_entry_of_type WriteProtected = Pat5"

definition check_pat_support :: "u32 \<Rightarrow> unit option" where
  "check_pat_support edx = ensure (edx AND push_bit 16 1 \<noteq> 0)"

definition setup_pat :: "u32 \<Rightarrow> u64 \<Rightarrow> u64 option" where
  "setup_pat edx pat = do {
     _ \<leftarrow> check_pat_support edx;
     let pat = pat_entry_set pat Pat0 WriteBack;
     let pat = pat_entry_set pat Pat1 WriteThrough;
     let pat = pat_entry_set pat Pat2 Uncached;
     let pat = pat_entry_set pat Pat3 Uncacheable;
     let pat = pat_entry_set pat Pat4 WriteCombining;
     let pat = pat_entry_set pat Pat5 WriteProtected;
     Some pat }"

definition set_pat :: "Flags \<Rightarrow> PatType \<Rightarrow> PageSize \<Rightarrow> Flags" where
  "set_pat f pat_type ps =
     (let pat = (of_nat (pat_entry_value (pat_entry_of_type pat_type)) :: u64);
          f = (if ps = Size4KB then set_pat_4kb f (pat AND 4 \<noteq> 0) else set_pat_big_pages f (pat AND 4 \<noteq> 0))
      in set_pcd (set_pwt f (pat AND 2 \<noteq> 0)) (pat AND 1 \<noteq> 0))"

subsection \<open>Flags bit by bit\<close>

named_theorems flag_bits \<open>bits of flag words\<close>

lemma get_offset_mask_eq: "get_offset_mask ps = mask (offset_bit_count ps)"
  by (cases ps) (simp_all add: get_offset_mask_def mask_eq_exp_minus_1)

lemma page_size_eq: "page_size_size ps = 2 ^ offset_bit_count ps"
  by (cases ps) simp_all

lemma flags_get_bit: "flags_get f (push_bit n 1) \<longleftrightarrow> bit f n"
  by (simp add: flags_get_def bit_iff_and_push_bit_not_eq_0)

lemma flags_set_bit:
  "n < 64 \<Longrightarrow> bit (flags_set f (push_bit n 1) b) k \<longleftrightarrow> (if k = n then b else bit f k)" for f :: u64
  by (auto simp: flags_set_def bit_simps dest: bit_imp_le_length)

lemmas flag_consts = FLAGS_NONE_def FLAG_P_def FLAG_RW_def FLAG_US_def FLAG_PWT_def FLAG_PCD_def FLAG_A_def FLAG_D_def
  FLAG_PS_def FLAG_G_def HLAT_def FLAG_BIG_PAGES_PAT_def FLAG_4KB_PAT_def FLAG_XD_def FLAG_ALLOCATED_def FLAG_LAST_ENTRY_def

lemma get_flag_bits [flag_bits]:
  "get_present f \<longleftrightarrow> bit f 0" "get_read_write f \<longleftrightarrow> bit f 1" "get_user_supervisor f \<longleftrightarrow> bit f 2"
  "get_write_through f \<longleftrightarrow> bit f 3" "get_cache_disable f \<longleftrightarrow> bit f 4" "get_accessed f \<longleftrightarrow> bit f 5"
  "get_dirty f \<longleftrightarrow> bit f 6" "get_page_size f \<longleftrightarrow> bit f 7" "get_global f \<longleftrightarrow> bit f 8"
  "get_allocated f \<longleftrightarrow> bit f 9" "get_last_entry f \<longleftrightarrow> bit f 10" "get_hlat f \<longleftrightarrow> bit f 11"
  "get_execute_disable f \<longleftrightarrow> bit f 63"
  by (simp_all only: get_present_def get_read_write_def get_user_supervisor_def get_write_through_def
      get_cache_disable_def get_accessed_def get_dirty_def get_page_size_def get_global_def get_allocated_def
      get_last_entry_def get_hlat_def get_execute_disable_def flag_consts flags_get_bit)

lemma set_flag_bits [flag_bits]:
  "bit (set_present f b) k \<longleftrightarrow> (if k = 0 then b else bit f k)"
  "bit (set_read_write f b) k \<longleftrightarrow> (if k = 1 then b else bit f k)"
  "bit (set_user_supervisor f b) k \<longleftrightarrow> (if k = 2 then b else bit f k)"
  "bit (set_pwt f b) k \<longleftrightarrow> (if k = 3 then b else bit f k)"
  "bit (set_pcd f b) k \<longleftrightarrow> (if k = 4 then b else bit f k)"
  "bit (set_accessed f b) k \<longleftrightarrow> (if k = 5 then b else bit f k)"
  "bit (set_dirty f b) k \<longleftrightarrow> (if k = 6 then b else bit f k)"
  "bit (set_page_size f b) k \<longleftrightarrow> (if k = 7 then b else bit f k)"
  "bit (set_pat_4kb f b) k \<longleftrightarrow> (if k = 7 then b else bit f k)"
  "bit (set_global f b) k \<longleftrightarrow> (if k = 8 then b else bit f k)"
  "bit (set_allocated f b) k \<longleftrightarrow> (if k = 9 then b else bit f k)"
  "bit (set_last_entry f b) k \<longleftrightarrow> (if k = 10 then b else bit f k)"
  "bit (set_hlat f b) k \<longleftrightarrow> (if k = 11 then b else bit f k)"
  "bit (set_pat_big_pages f b) k \<longleftrightarrow> (if k = 12 then b else bit f k)"
  "bit (set_execute_disable f b) k \<longleftrightarrow> (if k = 63 then b else bit f k)"
  by (simp_all only: set_present_def set_read_write_def set_user_supervisor_def set_pwt_def set_pcd_def set_accessed_def
      set_dirty_def set_page_size_def set_pat_4kb_def set_global_def set_allocated_def set_last_entry_def set_hlat_def
      set_pat_big_pages_def set_execute_disable_def flag_consts) (simp_all only: flags_set_bit rel_simps arith_simps if_True)

lemma flags_of_page_size_bits [flag_bits]: "bit (flags_of_page_size ps) k \<longleftrightarrow> ps \<noteq> Size4KB \<and> k = 7"
  by (simp add: flags_of_page_size_def flags_new_def FLAGS_NONE_def flag_bits)

lemma flags_join_bits:
  "flags_join f g = (if \<exists>k. bit f k \<and> bit g k then None else Some (f OR g))"
  using bit_imp_le_length [where 'a = 64 and w = f]
  by (auto simp: flags_join_def flags_set_def bit_eq_iff bit_simps)

subsection \<open>Properties\<close>

lemma pat_values: "pat_type_value ty < 8" "pat_entry_value en < 8" "pat_type_try_from (pat_type_value ty) = Some ty"
  by (cases ty; cases en; simp add: pat_type_try_from_def)+

lemma pat_entry_inj: "pat_entry_value a = pat_entry_value b \<Longrightarrow> a = b"
  by (cases a; cases b) simp_all

lemma bit_7: "bit (7 :: nat) n \<longleftrightarrow> n < 3" "bit (7 :: int) n \<longleftrightarrow> n < 3"
proof -
  have "(7 :: nat) = mask 3" "(7 :: int) = mask 3" by (simp_all add: mask_eq_exp_minus_1)
  then show "bit (7 :: nat) n \<longleftrightarrow> n < 3" "bit (7 :: int) n \<longleftrightarrow> n < 3" by (simp_all only: bit_mask_iff) auto
qed

lemma bit_small: "v < 8 \<Longrightarrow> bit (v :: nat) n \<Longrightarrow> n < 3"
proof -
  assume "v < 8" and b: "bit v n"
  then have "take_bit 3 v = v" by (simp add: take_bit_nat_eq_self)
  with b show "n < 3" by (metis bit_take_bit_iff)
qed

lemma pat_field_set:
  "drop_bit (pat_entry_value a * SHIFTING_SIZE) (pat_entry_set pat b ty) AND 7 =
     (if a = b then of_nat (pat_type_value ty) else drop_bit (pat_entry_value a * SHIFTING_SIZE) pat AND 7)"
proof (rule bit_eqI)
  fix n
  have v: "bit (pat_type_value ty) k \<Longrightarrow> k < 3" for k using bit_small pat_values(1) by blast
  have ne: "a \<noteq> b \<Longrightarrow> pat_entry_value a \<noteq> pat_entry_value b" using pat_entry_inj by blast
  have "a \<noteq> b \<Longrightarrow> n < 3 \<Longrightarrow> \<not> (pat_entry_value b * 8 \<le> pat_entry_value a * 8 + n \<and> pat_entry_value a * 8 + n - pat_entry_value b * 8 < 3)"
    using ne by arith
  then show "bit (drop_bit (pat_entry_value a * SHIFTING_SIZE) (pat_entry_set pat b ty) AND 7) n =
     bit (if a = b then of_nat (pat_type_value ty) else drop_bit (pat_entry_value a * SHIFTING_SIZE) pat AND 7) n"
    using v [of n] v [of "pat_entry_value a * 8 + n - pat_entry_value b * 8"] pat_values(2) [of a]
    by (auto simp: pat_entry_set_def Let_def SHIFTING_SIZE_def bit_simps bit_7)
qed

lemma pat_get_set:
  "pat_entry_get_type (pat_entry_set pat b ty) a = (if a = b then Some ty else pat_entry_get_type pat a)"
proof -
  have "unat (of_nat (pat_type_value ty) :: u64) = pat_type_value ty"
    using pat_values(1) [of ty] by (simp add: unat_of_nat)
  then show ?thesis by (simp add: pat_entry_get_type_def pat_field_set pat_values(3))
qed

text \<open>On a processor with the page attribute table, \<open>setup_pat\<close> programs it so that the entry the
  code associates with each memory type reads back as that type, whatever the register held
  before, and leaves the last two entries alone; without the feature it panics.\<close>
theorem setup_pat_correct:
  "(bit edx 16 \<longrightarrow> (\<exists>pat'. setup_pat edx pat = Some pat'
      \<and> (\<forall>ty. pat_entry_get_type pat' (pat_entry_of_type ty) = Some ty)
      \<and> (\<forall>en \<in> {Pat6, Pat7}. pat_entry_get_type pat' en = pat_entry_get_type pat en)))
   \<and> (\<not> bit edx 16 \<longrightarrow> setup_pat edx pat = None)"
proof -
  have c: "check_pat_support edx = ensure (bit edx 16)"
    by (simp only: check_pat_support_def bit_iff_and_push_bit_not_eq_0)
  have "pat_entry_get_type (pat_entry_set (pat_entry_set (pat_entry_set (pat_entry_set (pat_entry_set (pat_entry_set
      pat Pat0 WriteBack) Pat1 WriteThrough) Pat2 Uncached) Pat3 Uncacheable) Pat4 WriteCombining) Pat5 WriteProtected)
      (pat_entry_of_type ty) = Some ty" for ty
    by (cases ty) (simp_all add: pat_get_set)
  then show ?thesis by (simp add: setup_pat_def c Let_def pat_get_set)
qed

theorem setup_pat_correct_witness:
  "bit (0x10000 :: u32) 16 \<and> (\<exists>pat'. setup_pat 0x10000 0 = Some pat' \<and> pat_entry_get_type pat' Pat4 = Some WriteCombining)"
proof -
  have b: "bit (0x10000 :: u32) 16" by (simp add: bit_numeral_rec)
  from setup_pat_correct [of "0x10000" 0] b obtain pat' where "setup_pat 0x10000 0 = Some pat'"
    "\<forall>ty. pat_entry_get_type pat' (pat_entry_of_type ty) = Some ty" by auto
  then have "pat_entry_get_type pat' (pat_entry_of_type WriteCombining) = Some WriteCombining" by blast
  with b show ?thesis using \<open>setup_pat 0x10000 0 = Some pat'\<close> by auto
qed

text \<open>The entry the processor selects: bit 0 is the PWT flag, bit 1 the PCD flag, bit 2 the PAT flag
  of the page size, as the comments on the flags say.\<close>

definition selected_pat_entry :: "Flags \<Rightarrow> PageSize \<Rightarrow> nat" where
  "selected_pat_entry f ps = of_bool (get_write_through f) + 2 * of_bool (get_cache_disable f) + 4 * of_bool (bit f (get_pat_bit ps))"

lemma set_pat_bits:
  "bit (set_pat f ty ps) k \<longleftrightarrow>
     (if k = 4 then bit (pat_entry_value (pat_entry_of_type ty)) 0
      else if k = 3 then bit (pat_entry_value (pat_entry_of_type ty)) 1
      else if k = get_pat_bit ps then bit (pat_entry_value (pat_entry_of_type ty)) 2
      else bit f k)"
proof -
  have "(of_nat (pat_entry_value en) :: u64) AND 4 \<noteq> 0 \<longleftrightarrow> bit (pat_entry_value en) 2"
    "(of_nat (pat_entry_value en) :: u64) AND 2 \<noteq> 0 \<longleftrightarrow> bit (pat_entry_value en) 1"
    "(of_nat (pat_entry_value en) :: u64) AND 1 \<noteq> 0 \<longleftrightarrow> bit (pat_entry_value en) 0" for en
    by (cases en; simp add: bit_numeral_rec bit_Suc_0_iff)+
  then show ?thesis by (cases ps) (auto simp: set_pat_def Let_def flag_bits)
qed

text \<open>\<open>set_pat\<close> exchanges the two low bits of the entry: write-back, uncacheable and
  write-combining pages select the intended entry for every page size, but write-through pages
  select the entry of the uncached type and conversely, and write-protected pages an entry that
  the code never programs.\<close>
theorem set_pat_selects:
  "selected_pat_entry (set_pat f ty ps) ps = (case ty of
     WriteBack \<Rightarrow> pat_entry_value Pat0 | Uncacheable \<Rightarrow> pat_entry_value Pat3 | WriteCombining \<Rightarrow> pat_entry_value Pat4
   | WriteThrough \<Rightarrow> pat_entry_value (pat_entry_of_type Uncached)
   | Uncached \<Rightarrow> pat_entry_value (pat_entry_of_type WriteThrough)
   | WriteProtected \<Rightarrow> pat_entry_value Pat6)"
  by (cases ty; cases ps) (simp_all add: selected_pat_entry_def flag_bits set_pat_bits bit_numeral_rec bit_Suc_0_iff)

end
