(* ===== verification/Page_Table.thy ===== *)
theory Page_Table
  imports PMM Page_Flags
begin

text \<open>
  The page tables of \<open>kernel/src/arch/x86_64/paging/mod.rs\<close>.  Tables live in physical memory
  and are reached through the direct map: the state maps the virtual address of a table to its
  512 entries, and dereferencing an address that holds no table is \<open>None\<close>.  New tables come
  from the physical memory manager, whose state is part of the paging state.  A \<open>&mut PageTable\<close>
  is the address of the table, a \<open>&mut Entry\<close> the address of its table and its index.
\<close>

subsection \<open>Entries\<close>

type_synonym Entry = u64
type_synonym PageTable = "Entry list"

definition ENTRIES_PER_TABLE :: usize where
  "ENTRIES_PER_TABLE = 512"

definition entry_get_flags :: "Entry \<Rightarrow> Flags" where
  "entry_get_flags e = e AND 0xFFF"

definition entry_set_flags :: "Entry \<Rightarrow> Flags \<Rightarrow> Entry" where
  "entry_set_flags e f = (e AND NOT 0xFFF) OR flags_data f"

definition entry_get_addr :: "Entry \<Rightarrow> PageSize \<Rightarrow> PhysAddr option" where
  "entry_get_addr e ps = do {
     _ \<leftarrow> ensure (e AND NOT 0xFFF AND get_offset_mask ps = 0);
     Some (unat (e AND NOT (get_offset_mask ps))) }"

definition entry_set_addr :: "Entry \<Rightarrow> PhysAddr \<Rightarrow> PageSize \<Rightarrow> Entry option" where
  "entry_set_addr e addr ps = do {
     _ \<leftarrow> ensure (of_nat addr AND get_offset_mask ps = 0);
     let e = e AND get_offset_mask ps;
     Some (e OR (of_nat addr AND NOT (get_offset_mask ps))) }"

text \<open>\<open>next_level_table\<close>: the address of the table; \<open>as_mut().expect\<close> panics on null.\<close>

definition next_level_table :: "usize \<Rightarrow> Entry \<Rightarrow> VirtAddr option" where
  "next_level_table hhdm e = do {
     a \<leftarrow> entry_get_addr e Size4KB;
     p \<leftarrow> add_hhdm_offset hhdm a;
     _ \<leftarrow> ensure (p \<noteq> 0);
     Some p }"

text \<open>\<open>map\<close>: the address is written before the flags are joined, so a failure leaves it behind.\<close>

definition entry_map :: "Entry \<Rightarrow> PhysAddr \<Rightarrow> Flags \<Rightarrow> PageSize \<Rightarrow> ((PagingError + unit) \<times> Entry) option" where
  "entry_map e phys_addr flags ps =
     (if get_present (entry_get_flags e) then Some (Err PageAlreadyPresent, e)
      else do {
        e \<leftarrow> entry_set_addr e phys_addr ps;
        (case flags_join (set_last_entry (set_present flags True) True) (flags_of_page_size ps) of
           None \<Rightarrow> Some (Err InvalidFlags, e)
         | Some f \<Rightarrow> Some (Ok (), entry_set_flags e f)) })"

subsection \<open>State\<close>

record Paging =
  pg_tables :: "nat \<rightharpoonup> PageTable"
  pg_pmm :: "nodes \<times> BuddyAllocator"

definition tbl_read :: "Paging \<Rightarrow> VirtAddr \<Rightarrow> usize \<Rightarrow> Entry option" where
  "tbl_read t p i = do {
     es \<leftarrow> pg_tables t p;
     idx es i }"

definition tbl_write :: "Paging \<Rightarrow> VirtAddr \<Rightarrow> usize \<Rightarrow> Entry \<Rightarrow> Paging option" where
  "tbl_write t p i e = do {
     es \<leftarrow> pg_tables t p;
     _ \<leftarrow> ensure (i < length es);
     Some (t \<lparr> pg_tables := (pg_tables t)(p \<mapsto> es[i := e]) \<rparr>) }"

text \<open>\<open>release\<close>: an entry marked as allocated gives its page back to the physical memory manager.\<close>

definition entry_release :: "Paging \<Rightarrow> Entry \<Rightarrow> PageSize \<Rightarrow> ((PagingError + unit) \<times> Entry \<times> Paging) option" where
  "entry_release t e ps =
     (let flags = entry_get_flags e in
      if \<not> get_present (entry_get_flags e) then Some (Err PageNotPresent, e, t)
      else do {
        t \<leftarrow> (if get_allocated flags then do {
               phys_addr \<leftarrow> entry_get_addr e ps;
               (r, m) \<leftarrow> buddy_free (fst (pg_pmm t)) (snd (pg_pmm t)) phys_addr 1;
               _ \<leftarrow> unwrap_ok r;
               Some (t \<lparr> pg_pmm := m \<rparr>) }
             else Some t);
        Some (Ok (), entry_set_flags e (set_present flags False), t) })"

text \<open>\<open>PageTable::new\<close>: \<open>memset\<close> clears the 4096 bytes of the table.\<close>

definition page_table_new :: "usize \<Rightarrow> Paging \<Rightarrow> ((VirtAddr \<times> PhysAddr) \<times> Paging) option" where
  "page_table_new hhdm t = do {
     (r, m) \<leftarrow> buddy_allocate (fst (pg_pmm t)) (snd (pg_pmm t)) (page_alignment Size4KB) 1;
     phys_addr \<leftarrow> unwrap_ok r;
     ptr \<leftarrow> add_hhdm_offset hhdm phys_addr;
     _ \<leftarrow> ensure (ptr \<noteq> 0);
     Some ((ptr, phys_addr), t \<lparr> pg_tables := (pg_tables t)(ptr \<mapsto> replicate ENTRIES_PER_TABLE 0), pg_pmm := m \<rparr>) }"

definition next_level_index :: "VirtAddr \<Rightarrow> usize \<Rightarrow> usize" where
  "next_level_index addr level =
     unat ((drop_bit (offset_bit_count Size4KB + level * 9) (of_nat addr :: u64)) AND 0x1FF)"

subsection \<open>Walks\<close>

fun get_entry_loop :: "usize \<Rightarrow> Paging \<Rightarrow> VirtAddr \<Rightarrow> VirtAddr \<Rightarrow> usize list
    \<Rightarrow> (VirtAddr \<times> usize \<times> PageSize) option option" where
  "get_entry_loop hhdm t table virt_addr [] = None"
| "get_entry_loop hhdm t table virt_addr (level # levels) = do {
     let i = next_level_index virt_addr level;
     e \<leftarrow> tbl_read t table i;
     let flags = entry_get_flags e;
     if get_last_entry flags then
       (case from_bottom_paging_level level of
          None \<Rightarrow> Some None
        | Some page_size \<Rightarrow> Some (Some (table, i, page_size)))
     else if get_present flags then do {
       table \<leftarrow> next_level_table hhdm e;
       get_entry_loop hhdm t table virt_addr levels }
     else Some None }"

definition get_entry :: "usize \<Rightarrow> Paging \<Rightarrow> VirtAddr \<Rightarrow> VirtAddr \<Rightarrow> (VirtAddr \<times> usize \<times> PageSize) option option" where
  "get_entry hhdm t table virt_addr = get_entry_loop hhdm t table virt_addr (rev [0..<Suc MAX_BOTTOM_PAGING_LEVEL])"

fun get_create_loop :: "usize \<Rightarrow> Paging \<Rightarrow> VirtAddr \<Rightarrow> VirtAddr \<Rightarrow> usize list \<Rightarrow> (VirtAddr \<times> Paging) option" where
  "get_create_loop hhdm t table base_addr [] = Some (table, t)"
| "get_create_loop hhdm t table base_addr (level # levels) = do {
     let i = next_level_index base_addr level;
     e \<leftarrow> tbl_read t table i;
     let flags = entry_get_flags e;
     t \<leftarrow> (if \<not> get_present flags then do {
            t \<leftarrow> tbl_write t table i (entry_set_flags e (set_read_write (set_present flags True) True));
            ((_, phys_addr), t) \<leftarrow> page_table_new hhdm t;
            e \<leftarrow> tbl_read t table i;
            e \<leftarrow> entry_set_addr e phys_addr Size4KB;
            tbl_write t table i e }
          else Some t);
     e \<leftarrow> tbl_read t table i;
     table \<leftarrow> next_level_table hhdm e;
     get_create_loop hhdm t table base_addr levels }"

definition get_create_table_range :: "usize \<Rightarrow> Paging \<Rightarrow> VirtAddr \<Rightarrow> VirtAddr \<Rightarrow> PageSize \<Rightarrow> (VirtAddr \<times> Paging) option" where
  "get_create_table_range hhdm t table base_addr ps = do {
     _ \<leftarrow> ensure (base_addr mod page_size_size ps = 0);
     get_create_loop hhdm t table base_addr (rev [Suc (bottom_paging_level ps)..<Suc MAX_BOTTOM_PAGING_LEVEL]) }"

fun get_table_loop :: "usize \<Rightarrow> Paging \<Rightarrow> VirtAddr \<Rightarrow> VirtAddr \<Rightarrow> usize list \<Rightarrow> VirtAddr option option" where
  "get_table_loop hhdm t table base_addr [] = Some (Some table)"
| "get_table_loop hhdm t table base_addr (level # levels) = do {
     let i = next_level_index base_addr level;
     e \<leftarrow> tbl_read t table i;
     if \<not> get_present (entry_get_flags e) then Some None
     else do {
       table \<leftarrow> next_level_table hhdm e;
       get_table_loop hhdm t table base_addr levels } }"

definition get_table_range :: "usize \<Rightarrow> Paging \<Rightarrow> VirtAddr \<Rightarrow> VirtAddr \<Rightarrow> PageSize \<Rightarrow> VirtAddr option option" where
  "get_table_range hhdm t table base_addr ps = do {
     _ \<leftarrow> ensure (base_addr mod page_size_size ps = 0);
     get_table_loop hhdm t table base_addr (rev [Suc (bottom_paging_level ps)..<Suc MAX_BOTTOM_PAGING_LEVEL]) }"

subsection \<open>Mapping, unmapping, translation\<close>

fun map_entries :: "Paging \<Rightarrow> VirtAddr \<Rightarrow> usize \<Rightarrow> nat list \<Rightarrow> PhysAddr \<Rightarrow> PageSize \<Rightarrow> Flags
    \<Rightarrow> ((PagingError + unit) \<times> Paging) option" where
  "map_entries t table to_skip [] phys_addr ps flags = Some (Ok (), t)"
| "map_entries t table to_skip (i # is) phys_addr ps flags = do {
     off \<leftarrow> umul i (page_size_size ps);
     addr \<leftarrow> addr_add phys_addr off;
     e \<leftarrow> tbl_read t table (to_skip + i);
     (r, e) \<leftarrow> entry_map e addr flags ps;
     t \<leftarrow> tbl_write t table (to_skip + i) e;
     (case r of
        Inl err \<Rightarrow> Some (Err err, t)
      | Inr _ \<Rightarrow> map_entries t table to_skip is phys_addr ps flags) }"

definition map_pages :: "usize \<Rightarrow> Paging \<Rightarrow> VirtAddr \<Rightarrow> VirtAddr \<Rightarrow> PhysAddr \<Rightarrow> usize \<Rightarrow> PageSize \<Rightarrow> Flags
    \<Rightarrow> ((PagingError + unit) \<times> Paging) option" where
  "map_pages hhdm t table base_addr phys_addr page_count ps flags =
     (if base_addr mod page_size_size ps \<noteq> 0 then Some (Err InvalidVirtualAddress, t)
      else if phys_addr mod page_size_size ps \<noteq> 0 then Some (Err InvalidPhysicalAddress, t)
      else do {
        (table, t) \<leftarrow> get_create_table_range hhdm t table base_addr ps;
        let to_skip = next_level_index base_addr (bottom_paging_level ps);
        n \<leftarrow> uadd to_skip page_count;
        if ENTRIES_PER_TABLE < n then Some (Err BadPageCountAndAddressCombination, t)
        else map_entries t table to_skip [0..<page_count] phys_addr ps flags })"

fun unmap_entries :: "Paging \<Rightarrow> VirtAddr \<Rightarrow> usize \<Rightarrow> nat list \<Rightarrow> PageSize \<Rightarrow> ((PagingError + unit) \<times> Paging) option" where
  "unmap_entries t table to_skip [] ps = Some (Ok (), t)"
| "unmap_entries t table to_skip (i # is) ps = do {
     e \<leftarrow> tbl_read t table (to_skip + i);
     (r, e, t) \<leftarrow> entry_release t e ps;
     t \<leftarrow> tbl_write t table (to_skip + i) e;
     (case r of
        Inl err \<Rightarrow> Some (Err err, t)
      | Inr _ \<Rightarrow> unmap_entries t table to_skip is ps) }"

definition unmap_pages :: "usize \<Rightarrow> Paging \<Rightarrow> VirtAddr \<Rightarrow> VirtAddr \<Rightarrow> usize \<Rightarrow> PageSize
    \<Rightarrow> ((PagingError + unit) \<times> Paging) option" where
  "unmap_pages hhdm t table base_addr page_count ps =
     (if base_addr mod page_size_size ps \<noteq> 0 then Some (Err InvalidVirtualAddress, t)
      else do {
        r \<leftarrow> get_table_range hhdm t table base_addr ps;
        (case r of
           None \<Rightarrow> Some (Err PageNotPresent, t)
         | Some table \<Rightarrow> do {
             let to_skip = next_level_index base_addr (bottom_paging_level ps);
             n \<leftarrow> uadd to_skip page_count;
             if ENTRIES_PER_TABLE < n then Some (Err BadPageCountAndAddressCombination, t)
             else unmap_entries t table to_skip [0..<page_count] ps }) })"

definition translate :: "usize \<Rightarrow> Paging \<Rightarrow> VirtAddr \<Rightarrow> VirtAddr \<Rightarrow> PhysAddr option option" where
  "translate hhdm t table base_addr = do {
     r \<leftarrow> get_entry hhdm t table base_addr;
     (case r of
        None \<Rightarrow> Some None
      | Some (table, i, page_size) \<Rightarrow> do {
          e \<leftarrow> tbl_read t table i;
          let flags = entry_get_flags e;
          if \<not> get_present flags then Some None
          else do {
            a \<leftarrow> entry_get_addr e page_size;
            Some (Some a) } }) }"

subsection \<open>The mapping of the boot memory map\<close>

definition pick_page_size :: "usize \<Rightarrow> PhysAddr \<Rightarrow> VirtAddr \<Rightarrow> PageSize option" where
  "pick_page_size total_size phys virt =
     (let fits = (\<lambda>ps. page_size_size ps \<le> total_size \<and> phys mod page_size_size ps = 0 \<and> virt mod page_size_size ps = 0) in
      if fits Size1GB then Some Size1GB
      else if fits Size2MB then Some Size2MB
      else if fits Size4KB then Some Size4KB
      else None)"

lemma page_size_pos [simp]: "0 < page_size_size ps"
  by (cases ps) simp_all

lemma pick_page_size_le: "pick_page_size total_size phys virt = Some ps \<Longrightarrow> page_size_size ps \<le> total_size"
  by (auto simp: pick_page_size_def Let_def split: if_splits)

function map_in_entry :: "usize \<Rightarrow> Paging \<Rightarrow> VirtAddr \<Rightarrow> PhysAddr \<Rightarrow> usize \<Rightarrow> VirtAddr \<Rightarrow> Flags \<Rightarrow> PatType option \<Rightarrow> Paging option" where
  "map_in_entry hhdm t virt phys total_size new_pml flags pat =
     (if total_size = 0 then Some t
      else case pick_page_size total_size phys virt of
        None \<Rightarrow> None
      | Some ps \<Rightarrow>
          (let flags = (case pat of None \<Rightarrow> flags | Some pat_type \<Rightarrow> set_pat flags pat_type ps) in
           case map_pages hhdm t new_pml virt phys 1 ps flags of
             Some (Inr _, t) \<Rightarrow>
               (if phys + page_size_size ps < USIZE_LIM \<and> virt + page_size_size ps < USIZE_LIM
                then map_in_entry hhdm t (virt + page_size_size ps) (phys + page_size_size ps)
                       (total_size - page_size_size ps) new_pml flags pat
                else None)
           | _ \<Rightarrow> None))"
  by pat_completeness auto
termination
  by (relation "measure (\<lambda>(hhdm, t, virt, phys, total_size, new_pml, flags, pat). total_size)")
    (auto dest!: pick_page_size_le intro: diff_less)

declare map_in_entry.simps [simp del]

subsection \<open>Entries bit by bit\<close>

lemma bit_of_mask12: "(0xFFF :: u64) = mask 12"
  by (simp add: mask_eq_exp_minus_1)

lemma bit_u64_lt: "bit (w :: u64) n \<Longrightarrow> n < 64"
  using bit_imp_le_length by force

lemma entry_get_flags_bits [flag_bits]: "bit (entry_get_flags e) k \<longleftrightarrow> k < 12 \<and> bit e k"
  by (auto simp: entry_get_flags_def bit_of_mask12 bit_simps dest: bit_u64_lt)

lemma entry_set_flags_bits [flag_bits]: "bit (entry_set_flags e f) k \<longleftrightarrow> 12 \<le> k \<and> bit e k \<or> bit f k"
  by (auto simp: entry_set_flags_def flags_data_def bit_of_mask12 bit_simps dest: bit_u64_lt)

lemma aligned_low_bits:
  fixes addr :: nat
  assumes "2 ^ k dvd addr" and "bit addr n"
  shows "k \<le> n"
proof -
  from assms(1) obtain c where "addr = 2 ^ k * c" by (rule dvdE)
  then have "addr = push_bit k c" by (simp add: push_bit_eq_mult mult.commute)
  with assms(2) show ?thesis by (simp add: bit_push_bit_iff)
qed

lemma entry_set_addr_Some:
  assumes "page_size_size ps dvd addr"
  shows "entry_set_addr e addr ps = Some ((e AND mask (offset_bit_count ps)) OR of_nat addr)"
proof -
  have low: "bit addr n \<Longrightarrow> offset_bit_count ps \<le> n" for n
    using assms aligned_low_bits [of "offset_bit_count ps" addr n] by (simp add: page_size_eq)
  have "(of_nat addr :: u64) AND mask (offset_bit_count ps) = 0"
    by (rule bit_eqI) (auto simp: bit_simps dest: low)
  moreover have "(of_nat addr :: u64) AND NOT (mask (offset_bit_count ps)) = of_nat addr"
    by (rule bit_eqI) (auto simp: bit_simps dest: low)
  ultimately show ?thesis by (simp add: entry_set_addr_def get_offset_mask_eq)
qed

definition entry_addr :: "nat \<Rightarrow> Entry \<Rightarrow> nat" where
  "entry_addr k e = unat (e AND NOT (mask k))"

lemma entry_get_addr_eq:
  "entry_get_addr e ps = (if \<exists>k. 12 \<le> k \<and> k < offset_bit_count ps \<and> bit e k then None
     else Some (entry_addr (offset_bit_count ps) e))"
proof -
  have "(e AND NOT 0xFFF AND get_offset_mask ps = 0) \<longleftrightarrow> \<not> (\<exists>k. 12 \<le> k \<and> k < offset_bit_count ps \<and> bit e k)"
    by (auto simp: bit_eq_iff get_offset_mask_eq bit_of_mask12 bit_simps) (metis bit_u64_lt not_less)
  then show ?thesis by (auto simp: entry_get_addr_def entry_addr_def get_offset_mask_eq ensure_def)
qed

lemma next_level_table_eq:
  "next_level_table hhdm e = (if entry_addr 12 e + hhdm < USIZE_LIM \<and> entry_addr 12 e + hhdm \<noteq> 0
     then Some (entry_addr 12 e + hhdm) else None)"
  by (auto simp: next_level_table_def entry_get_addr_eq add_hhdm_offset_def uadd_def ensure_def)

lemma entry_addr_bits:
  assumes "a < USIZE_LIM" and "2 ^ k dvd a" and "\<And>n. k \<le> n \<Longrightarrow> bit e n \<longleftrightarrow> bit (of_nat a :: u64) n"
  shows "entry_addr k e = a"
proof -
  have "e AND NOT (mask k) = (of_nat a :: u64)"
  proof (rule bit_eqI)
    fix n
    show "bit (e AND NOT (mask k)) n = bit (of_nat a :: u64) n"
      using assms(3) [of n] aligned_low_bits [OF assms(2), of n] by (auto simp: bit_simps not_le dest: bit_u64_lt)
  qed
  then show ?thesis using assms(1) by (simp add: entry_addr_def unat_of_nat_u64)
qed

subsection \<open>The tree of tables\<close>

text \<open>An entry that points to a table: present and not marked as a last entry.\<close>

definition is_table :: "Entry \<Rightarrow> bool" where
  "is_table e \<longleftrightarrow> bit e 0 \<and> \<not> bit e 10"

fun walk :: "usize \<Rightarrow> Paging \<Rightarrow> nat \<Rightarrow> nat list \<Rightarrow> nat option" where
  "walk hhdm t p [] = Some p"
| "walk hhdm t p (i # is) = (case tbl_read t p i of
     Some e \<Rightarrow> if is_table e then walk hhdm t (entry_addr 12 e + hhdm) is else None
   | None \<Rightarrow> None)"

text \<open>What an entry of a table at a level may hold.  The page-size bit agrees with the last-entry
  mark, so that the processor and the code read the same page; an entry that is not present is
  empty or the remains of a page that was unmapped.\<close>

definition entry_wf :: "nat \<Rightarrow> Entry \<Rightarrow> bool" where
  "entry_wf l e \<longleftrightarrow>
     (if is_table e then 0 < l \<and> \<not> bit e 7
      else e = 0 \<or> bit e 10 \<and> l \<le> 2 \<and> (0 < l \<longrightarrow> bit e 7) \<and> (\<forall>k. 12 \<le> k \<and> k < 12 + 9 * l \<longrightarrow> \<not> bit e k))"

definition pt_wf :: "usize \<Rightarrow> Paging \<Rightarrow> nat \<Rightarrow> nat set \<Rightarrow> bool" where
  "pt_wf hhdm t root U \<longleftrightarrow>
     (\<forall>is p. length is \<le> 3 \<and> walk hhdm t root is = Some p \<longrightarrow>
        p < USIZE_LIM \<and> 0 < p \<and> hhdm \<le> p \<and> page (p - hhdm) \<inter> U = {}
        \<and> (\<exists>es. pg_tables t p = Some es \<and> length es = ENTRIES_PER_TABLE
             \<and> (\<forall>e \<in> set es. entry_wf (3 - length is) e)))
     \<and> (\<forall>is js p. length is \<le> 3 \<and> length js \<le> 3 \<and> walk hhdm t root is = Some p \<and> walk hhdm t root js = Some p \<longrightarrow> is = js)"

lemma pt_wfD:
  assumes "pt_wf hhdm t root U" and "walk hhdm t root is = Some p" and "length is \<le> 3"
  shows "p < USIZE_LIM" and "0 < p" and "hhdm \<le> p" and "page (p - hhdm) \<inter> U = {}"
    and "i < ENTRIES_PER_TABLE \<Longrightarrow> \<exists>e. tbl_read t p i = Some e \<and> entry_wf (3 - length is) e"
    and "tbl_read t p i = Some e \<Longrightarrow> entry_wf (3 - length is) e \<and> i < ENTRIES_PER_TABLE"
    and "length js \<le> 3 \<Longrightarrow> walk hhdm t root js = Some p \<Longrightarrow> js = is"
  using assms unfolding pt_wf_def by (blast | fastforce simp: tbl_read_def)+

lemma walk_append:
  "walk hhdm t p (is @ js) = Option.bind (walk hhdm t p is) (\<lambda>q. walk hhdm t q js)"
  by (induction "is" arbitrary: p) (auto split: option.splits)

lemma walk_snoc:
  "walk hhdm t p (is @ [i]) = Some q \<longleftrightarrow>
     (\<exists>r e. walk hhdm t p is = Some r \<and> tbl_read t r i = Some e \<and> is_table e \<and> q = entry_addr 12 e + hhdm)"
  by (auto simp: walk_append bind_eq_Some_conv split: option.splits if_splits)

text \<open>Writing one entry, and what it does to reads and walks.\<close>

lemma tbl_write_Some:
  assumes "tbl_read t p i = Some e0"
  obtains t' where "tbl_write t p i e = Some t'" and "pg_pmm t' = pg_pmm t"
    and "\<And>q k. tbl_read t' q k = (if q = p \<and> k = i then Some e else tbl_read t q k)"
    and "\<And>q. map_option length (pg_tables t' q) = map_option length (pg_tables t q)"
proof -
  from assms obtain es where es: "pg_tables t p = Some es" "i < length es"
    by (auto simp: tbl_read_def bind_eq_Some_conv)
  show ?thesis
  proof (rule that)
    show "tbl_write t p i e = Some (t \<lparr> pg_tables := (pg_tables t)(p \<mapsto> es[i := e]) \<rparr>)"
      using es by (simp add: tbl_write_def)
  qed (use es in \<open>auto simp: tbl_read_def idx_def\<close>)
qed

text \<open>A description of \<open>pt_wf\<close> by reads.\<close>

definition has_table :: "Paging \<Rightarrow> nat \<Rightarrow> bool" where
  "has_table t p \<longleftrightarrow> map_option length (pg_tables t p) = Some ENTRIES_PER_TABLE"

lemma has_table_read: "has_table t p \<Longrightarrow> i < ENTRIES_PER_TABLE \<longleftrightarrow> (\<exists>e. tbl_read t p i = Some e)"
  by (auto simp: has_table_def tbl_read_def)

lemma pt_wf_iff:
  "pt_wf hhdm t root U \<longleftrightarrow>
     (\<forall>is p. length is \<le> 3 \<and> walk hhdm t root is = Some p \<longrightarrow>
        p < USIZE_LIM \<and> 0 < p \<and> hhdm \<le> p \<and> page (p - hhdm) \<inter> U = {} \<and> has_table t p
        \<and> (\<forall>i e. tbl_read t p i = Some e \<longrightarrow> entry_wf (3 - length is) e))
     \<and> (\<forall>is js p. length is \<le> 3 \<and> length js \<le> 3 \<and> walk hhdm t root is = Some p \<and> walk hhdm t root js = Some p \<longrightarrow> is = js)"
proof -
  have "(\<exists>es. pg_tables t p = Some es \<and> length es = ENTRIES_PER_TABLE \<and> (\<forall>e \<in> set es. entry_wf l e))
    \<longleftrightarrow> has_table t p \<and> (\<forall>i e. tbl_read t p i = Some e \<longrightarrow> entry_wf l e)" for p l
    by (auto simp: has_table_def tbl_read_def all_set_conv_all_nth)
  then show ?thesis unfolding pt_wf_def by presburger
qed

lemma walk_same:
  assumes "\<And>js q k. length js < length is \<Longrightarrow> walk hhdm t root js = Some q \<Longrightarrow> take (Suc (length js)) is = js @ [k] \<Longrightarrow>
      map_option (\<lambda>e. if is_table e then Some (entry_addr 12 e) else None) (tbl_read t' q k) =
      map_option (\<lambda>e. if is_table e then Some (entry_addr 12 e) else None) (tbl_read t q k)"
  shows "walk hhdm t' root is = walk hhdm t root is"
  using assms
proof (induction "is" rule: rev_induct)
  case (snoc k "is")
  have IH: "walk hhdm t' root is = walk hhdm t root is"
  proof (rule snoc.IH)
    fix js q k'
    assume a: "length js < length is" "walk hhdm t root js = Some q" "take (Suc (length js)) is = js @ [k']"
    then have "take (Suc (length js)) (is @ [k]) = js @ [k']" by simp
    with a snoc.prems [of js q k'] show "map_option (\<lambda>e. if is_table e then Some (entry_addr 12 e) else None) (tbl_read t' q k') =
      map_option (\<lambda>e. if is_table e then Some (entry_addr 12 e) else None) (tbl_read t q k')" by simp
  qed
  show ?case
  proof (cases "walk hhdm t root is")
    case None
    then show ?thesis using IH by (simp add: walk_append)
  next
    case (Some q)
    have "map_option (\<lambda>e. if is_table e then Some (entry_addr 12 e) else None) (tbl_read t' q k) =
      map_option (\<lambda>e. if is_table e then Some (entry_addr 12 e) else None) (tbl_read t q k)"
      using snoc.prems [of "is" q k] Some by simp
    then show ?thesis
      using IH Some by (cases "tbl_read t q k"; cases "tbl_read t' q k") (auto simp: walk_append split: if_splits)
  qed
qed simp

text \<open>Replacing an entry that is no table by one that is no table keeps the tree.\<close>

lemma leaf_update:
  assumes wf: "pt_wf hhdm t root U" and w: "walk hhdm t root is = Some p" "length is \<le> 3"
    and old: "tbl_read t p i = Some e0" "\<not> is_table e0" and new: "\<not> is_table e" "entry_wf (3 - length is) e"
    and rd: "\<And>q k. tbl_read t' q k = (if q = p \<and> k = i then Some e else tbl_read t q k)"
    and len: "\<And>q. map_option length (pg_tables t' q) = map_option length (pg_tables t q)"
  shows "pt_wf hhdm t' root U" and "walk hhdm t' root js = walk hhdm t root js"
proof -
  have same: "walk hhdm t' root js = walk hhdm t root js" for js
    by (rule walk_same) (use old new in \<open>auto simp: rd\<close>)
  then show "walk hhdm t' root js = walk hhdm t root js" .
  have tab: "has_table t' q \<longleftrightarrow> has_table t q" for q by (simp add: has_table_def len)
  have ent: "entry_wf (3 - length js) e'"
    if js: "length js \<le> 3" "walk hhdm t root js = Some q" and e': "tbl_read t' q k = Some e'" for js q k e'
  proof (cases "q = p \<and> k = i")
    case True
    then have "js = is" using pt_wfD(7) [OF wf w] js by simp
    with True e' new show ?thesis by (simp add: rd)
  next
    case False
    with e' have "tbl_read t q k = Some e'" by (auto simp: rd split: if_splits)
    with pt_wfD(6) [OF wf js(2,1)] show ?thesis by blast
  qed
  from wf show "pt_wf hhdm t' root U" unfolding pt_wf_iff same tab using ent by blast
qed

text \<open>Hanging a fresh empty table into an empty entry adds exactly that table to the tree.\<close>

lemma page_self: "a \<in> page a"
  by (simp add: page_def BASIC_PAGE_SIZE_def)

lemma fresh_table:
  "pt_wf hhdm t root U \<Longrightarrow> page (n - hhdm) \<subseteq> U \<Longrightarrow> walk hhdm t root js = Some q \<Longrightarrow> length js \<le> 3 \<Longrightarrow> q \<noteq> n"
  using pt_wfD(4) [of hhdm t root U js q] page_self [of "n - hhdm"] by blast

lemma table_update_walk:
  assumes wf: "pt_wf hhdm t root U" and w: "walk hhdm t root is = Some p" "length is \<le> 2"
    and old: "tbl_read t p i = Some 0" and new: "is_table e" "entry_addr 12 e + hhdm = n" and n: "page (n - hhdm) \<subseteq> U"
    and rd: "\<And>q k. tbl_read t' q k = (if q = n then if k < ENTRIES_PER_TABLE then Some 0 else None
        else if q = p \<and> k = i then Some e else tbl_read t q k)"
    and js: "length js \<le> 4"
  shows "walk hhdm t' root js = (if js = is @ [i] then Some n else walk hhdm t root js)"
proof (cases "\<exists>rest. js = is @ i # rest")
  case False
  have "walk hhdm t' root js = walk hhdm t root js"
  proof (rule walk_same)
    fix js' q k
    assume a: "length js' < length js" "walk hhdm t root js' = Some q" "take (Suc (length js')) js = js' @ [k]"
    with js have q: "q \<noteq> n" "length js' \<le> 3" using fresh_table [OF wf n] by simp_all
    have "\<not> (q = p \<and> k = i)"
    proof
      assume "q = p \<and> k = i"
      then have "js' = is" "k = i" using pt_wfD(7) [OF wf w(1)] w(2) a(2) q(2) by simp_all
      with a(3) have "js = is @ i # drop (Suc (length is)) js"
        by (metis append_Cons append_Nil append_assoc append_take_drop_id)
      with False show False by blast
    qed
    with q show "map_option (\<lambda>e. if is_table e then Some (entry_addr 12 e) else None) (tbl_read t' q k) =
      map_option (\<lambda>e. if is_table e then Some (entry_addr 12 e) else None) (tbl_read t q k)" by (auto simp: rd)
  qed
  moreover have "js \<noteq> is @ [i]" using False by auto
  ultimately show ?thesis by simp
next
  case True
  then obtain rest where js: "js = is @ i # rest" by blast
  have "walk hhdm t' root is = walk hhdm t root is"
  proof (rule walk_same)
    fix js' q k
    assume a: "length js' < length is" "walk hhdm t root js' = Some q"
    then have "q \<noteq> n" "q \<noteq> p" using fresh_table [OF wf n] pt_wfD(7) [OF wf w(1), of js'] w(2) by auto
    then show "map_option (\<lambda>e. if is_table e then Some (entry_addr 12 e) else None) (tbl_read t' q k) =
      map_option (\<lambda>e. if is_table e then Some (entry_addr 12 e) else None) (tbl_read t q k)" by (simp add: rd)
  qed
  then have "walk hhdm t' root is = Some p" using w by simp
  moreover have "tbl_read t' p i = Some e" using fresh_table [OF wf n w(1)] w(2) by (simp add: rd)
  moreover have "walk hhdm t root js = None" using w old by (simp add: js walk_append is_table_def)
  moreover have "walk hhdm t' n rest = (if rest = [] then Some n else None)"
    by (cases rest) (simp_all add: rd is_table_def)
  ultimately show ?thesis using new by (auto simp: js walk_append)
qed

lemma table_update:
  assumes wf: "pt_wf hhdm t root U" and w: "walk hhdm t root is = Some p" "length is \<le> 2"
    and old: "tbl_read t p i = Some 0" and new: "is_table e" "\<not> bit e 7" "entry_addr 12 e + hhdm = n"
    and n: "n < USIZE_LIM" "0 < n" "hhdm \<le> n" "page (n - hhdm) \<subseteq> U"
    and rd: "\<And>q k. tbl_read t' q k = (if q = n then if k < ENTRIES_PER_TABLE then Some 0 else None
        else if q = p \<and> k = i then Some e else tbl_read t q k)"
    and tab: "\<And>q. has_table t' q \<longleftrightarrow> q = n \<or> has_table t q"
  shows "length js \<le> 4 \<Longrightarrow> walk hhdm t' root js = (if js = is @ [i] then Some n else walk hhdm t root js)"
    and "pt_wf hhdm t' root (U - page (n - hhdm))"
proof -
  note walks = table_update_walk [OF wf w old new(1,3) n(4) rd]
  show "length js \<le> 4 \<Longrightarrow> walk hhdm t' root js = (if js = is @ [i] then Some n else walk hhdm t root js)" by (rule walks)
  note fresh = fresh_table [OF wf n(4)]
  have ent: "entry_wf (3 - length js) e'"
    if js: "length js \<le> 3" "walk hhdm t' root js = Some q" and e': "tbl_read t' q k = Some e'" for js q k e'
  proof (cases "js = is @ [i]")
    case True
    then have "q = n" using walks [of js] js by simp
    with e' show ?thesis by (auto simp: rd entry_wf_def is_table_def split: if_splits)
  next
    case False
    with js have q: "walk hhdm t root js = Some q" using walks [of js] by simp
    then have "q \<noteq> n" using fresh js by simp
    show ?thesis
    proof (cases "q = p \<and> k = i")
      case True
      then have "js = is" using pt_wfD(7) [OF wf w(1)] w(2) js(1) q by simp
      with True e' \<open>q \<noteq> n\<close> new w(2) show ?thesis by (auto simp: rd entry_wf_def)
    next
      case False
      with e' \<open>q \<noteq> n\<close> have "tbl_read t q k = Some e'" by (auto simp: rd split: if_splits)
      with pt_wfD(6) [OF wf q js(1)] show ?thesis by blast
    qed
  qed
  have inv: "q < USIZE_LIM \<and> 0 < q \<and> hhdm \<le> q \<and> page (q - hhdm) \<inter> (U - page (n - hhdm)) = {} \<and> has_table t' q"
    if js: "length js \<le> 3" "walk hhdm t' root js = Some q" for js q
  proof (cases "js = is @ [i]")
    case True
    then have "q = n" using walks [of js] js by simp
    with n show ?thesis by (auto simp: tab)
  next
    case False
    with js have "walk hhdm t root js = Some q" using walks [of js] by simp
    with wf js(1) show ?thesis unfolding pt_wf_iff tab by blast
  qed
  have inj: "js = js'" if "length js \<le> 3" "length js' \<le> 3" "walk hhdm t' root js = Some q" "walk hhdm t' root js' = Some q" for js js' q
    using that walks [of js] walks [of js'] fresh pt_wfD(7) [OF wf, of js q js'] by (auto split: if_splits)
  show "pt_wf hhdm t' root (U - page (n - hhdm))" unfolding pt_wf_iff using ent inv inj by blast
qed

subsection \<open>Translation\<close>

text \<open>The table indices of an address from the top down to above a level.\<close>

definition path :: "nat \<Rightarrow> nat \<Rightarrow> nat list" where
  "path va l = map (next_level_index va) (rev [Suc l..<4])"

lemma path_simps:
  "path va 3 = []" "l < 3 \<Longrightarrow> path va l = path va (Suc l) @ [next_level_index va (Suc l)]" "length (path va l) = 3 - l"
proof -
  assume "l < 3"
  then have "[Suc l..<4] = Suc l # [Suc (Suc l)..<4]" by (simp add: upt_conv_Cons)
  then show "path va l = path va (Suc l) @ [next_level_index va (Suc l)]" by (simp add: path_def)
qed (simp_all add: path_def)

lemma next_level_index_lt: "next_level_index va l < ENTRIES_PER_TABLE"
proof -
  have m: "(0x1FF :: u64) = mask 9" by (simp add: mask_eq_exp_minus_1)
  have "next_level_index va l = unat (take_bit 9 (drop_bit (12 + l * 9) (of_nat va :: u64)))"
    by (simp add: next_level_index_def m take_bit_eq_mask)
  also have "\<dots> < 2 ^ 9" by (simp only: unsigned_take_bit_eq take_bit_nat_less_exp)
  finally show ?thesis by (simp add: ENTRIES_PER_TABLE_def)
qed

text \<open>The entry at which the walk for an address ends.\<close>

definition leaf :: "usize \<Rightarrow> Paging \<Rightarrow> nat \<Rightarrow> nat \<Rightarrow> nat \<Rightarrow> Entry \<Rightarrow> bool" where
  "leaf hhdm t root va l e \<longleftrightarrow> l \<le> 3 \<and> \<not> is_table e
     \<and> (\<exists>p. walk hhdm t root (path va l) = Some p \<and> tbl_read t p (next_level_index va l) = Some e)"

text \<open>The walk for an address ends at a given level and entry; for an empty entry the level is left
  open, since a new table may be hung in.\<close>

definition ends :: "usize \<Rightarrow> Paging \<Rightarrow> nat \<Rightarrow> nat \<Rightarrow> nat \<Rightarrow> Entry \<Rightarrow> bool" where
  "ends hhdm t root va lc ec \<longleftrightarrow> (if ec = 0 then \<exists>l. leaf hhdm t root va l 0 else leaf hhdm t root va lc ec)"

abbreviation unmapped :: "usize \<Rightarrow> Paging \<Rightarrow> nat \<Rightarrow> nat \<Rightarrow> bool" where
  "unmapped hhdm t root va \<equiv> ends hhdm t root va 0 0"

lemma walk_step:
  assumes wf: "pt_wf hhdm t root U" and l: "l \<le> 3" and w: "walk hhdm t root (path va l) = Some p"
  obtains e where "tbl_read t p (next_level_index va l) = Some e" and "entry_wf l e"
    and "is_table e \<Longrightarrow> 0 < l \<and> walk hhdm t root (path va (l - 1)) = Some (entry_addr 12 e + hhdm)
           \<and> next_level_table hhdm e = Some (entry_addr 12 e + hhdm)"
proof -
  have len: "length (path va l) \<le> 3" "3 - length (path va l) = l" using l by (simp_all add: path_simps)
  from pt_wfD(5) [OF wf w len(1) next_level_index_lt [of va l]] len(2)
  obtain e where e: "tbl_read t p (next_level_index va l) = Some e" "entry_wf l e" by auto
  have "0 < l \<and> walk hhdm t root (path va (l - 1)) = Some (entry_addr 12 e + hhdm)
           \<and> next_level_table hhdm e = Some (entry_addr 12 e + hhdm)" if "is_table e"
  proof -
    from that e(2) have "0 < l" by (simp add: entry_wf_def)
    then have "path va (l - 1) = path va l @ [next_level_index va l]" using l path_simps(2) [of "l - 1" va] by simp
    then have w': "walk hhdm t root (path va (l - 1)) = Some (entry_addr 12 e + hhdm)"
      using w e(1) that by (simp add: walk_append)
    have "length (path va (l - 1)) \<le> 3" by (simp add: path_simps)
    note b = pt_wfD(1,2) [OF wf w' this]
    then have "next_level_table hhdm e = Some (entry_addr 12 e + hhdm)" by (simp only: next_level_table_eq) simp
    with \<open>0 < l\<close> w' show ?thesis by simp
  qed
  with e show ?thesis using that by blast
qed

lemma get_entry_loop_spec:
  assumes wf: "pt_wf hhdm t root U" and "l \<le> 3" and "walk hhdm t root (path va l) = Some p"
  shows "\<exists>k e. k \<le> l \<and> leaf hhdm t root va k e
    \<and> get_entry_loop hhdm t p va (rev [0..<Suc l]) =
        Some (if bit e 10 then Some (the (walk hhdm t root (path va k)), next_level_index va k, the (from_bottom_paging_level k)) else None)"
  using assms(2,3)
proof (induction l arbitrary: p)
  case (0 p)
  from walk_step [OF wf 0] obtain e where e: "tbl_read t p (next_level_index va 0) = Some e" "entry_wf 0 e"
    "is_table e \<Longrightarrow> 0 < (0::nat)" by metis
  then have "\<not> is_table e" by blast
  with e 0 have "leaf hhdm t root va 0 e" by (auto simp: leaf_def)
  moreover have "bit e 0 \<longrightarrow> bit e 10" using \<open>\<not> is_table e\<close> by (simp add: is_table_def)
  ultimately show ?case
    using e(1) 0 by (intro exI [of _ 0] exI [of _ e]) (auto simp: flag_bits from_bottom_paging_level_def)
next
  case (Suc l)
  from walk_step [OF wf Suc.prems] obtain e where e: "tbl_read t p (next_level_index va (Suc l)) = Some e" "entry_wf (Suc l) e"
    "is_table e \<Longrightarrow> walk hhdm t root (path va l) = Some (entry_addr 12 e + hhdm) \<and> next_level_table hhdm e = Some (entry_addr 12 e + hhdm)"
    by (metis diff_Suc_1)
  have r: "rev [0..<Suc (Suc l)] = Suc l # rev [0..<Suc l]" by simp
  show ?case
  proof (cases "is_table e")
    case True
    with Suc.IH [of "entry_addr 12 e + hhdm"] Suc.prems(1) e(3) obtain k e' where
      "k \<le> l" "leaf hhdm t root va k e'"
      "get_entry_loop hhdm t (entry_addr 12 e + hhdm) va (rev [0..<Suc l]) =
        Some (if bit e' 10 then Some (the (walk hhdm t root (path va k)), next_level_index va k, the (from_bottom_paging_level k)) else None)"
      by fastforce
    moreover have "bit e 0" "\<not> bit e 10" using True by (simp_all add: is_table_def)
    ultimately show ?thesis
      unfolding r using e(1,3) True
      by (intro exI [of _ k] exI [of _ e']) (simp only: get_entry_loop.simps Let_def, simp add: flag_bits)
  next
    case False
    then have "leaf hhdm t root va (Suc l) e" using e(1) Suc.prems by (auto simp: leaf_def)
    moreover have "bit e 0 \<longrightarrow> bit e 10" using False by (simp add: is_table_def)
    moreover have "bit e 10 \<longrightarrow> (\<exists>ps. from_bottom_paging_level (Suc l) = Some ps)"
      using False e(2) by (auto simp: entry_wf_def from_bottom_paging_level_def)
    ultimately show ?thesis
      unfolding r using e(1) Suc.prems(2)
      by (intro exI [of _ "Suc l"] exI [of _ e]) (simp only: get_entry_loop.simps Let_def, auto simp: flag_bits)
  qed
qed

lemma ends_mono:
  assumes "ends hhdm t root va lc ec"
    and "\<And>k e. leaf hhdm t root va k e \<Longrightarrow> leaf hhdm t' root va k e \<or> e = 0 \<and> leaf hhdm t' root va (k - 1) 0"
  shows "ends hhdm t' root va lc ec"
  using assms unfolding ends_def by (metis (full_types))

lemma path_split:
  assumes "k < l" and "l \<le> 3"
  shows "\<exists>rest. path va k = path va l @ next_level_index va l # rest"
  using assms
proof (induction "l - k" arbitrary: k)
  case (Suc d)
  show ?case
  proof (cases "Suc k = l")
    case True
    then show ?thesis using Suc.prems path_simps(2) [of k va] by simp
  next
    case False
    have "d = l - Suc k" using Suc.hyps(2) by simp
    from Suc.hyps(1) [OF this] False Suc.prems obtain rest where
      "path va (Suc k) = path va l @ next_level_index va l # rest" by auto
    then show ?thesis using Suc.prems path_simps(2) [of k va] by simp
  qed
qed simp

lemma leaf_unique:
  assumes "leaf hhdm t root va l e" and "leaf hhdm t root va k e'"
  shows "l = k" and "e = e'"
proof -
  have no: "\<not> k < l" if "leaf hhdm t root va l e" "leaf hhdm t root va k e'" for l k e e'
  proof
    assume "k < l"
    moreover have "l \<le> 3" using that(1) by (simp add: leaf_def)
    ultimately obtain rest where rest: "path va k = path va l @ next_level_index va l # rest"
      using path_split by blast
    from that(1) obtain p where "\<not> is_table e" "walk hhdm t root (path va l) = Some p"
      "tbl_read t p (next_level_index va l) = Some e" by (auto simp: leaf_def)
    then have "walk hhdm t root (path va k) = None" by (simp add: rest walk_append)
    with that(2) show False by (simp add: leaf_def)
  qed
  from no [OF assms] no [OF assms(2,1)] show "l = k" by simp
  with assms show "e = e'" by (auto simp: leaf_def)
qed

lemma root_walk: "walk hhdm t root (path va 3) = Some root"
  by (simp add: path_simps)

lemma leaf_ex:
  assumes "pt_wf hhdm t root U"
  obtains l e where "leaf hhdm t root va l e"
  using get_entry_loop_spec [OF assms, of 3 va root] root_walk by (auto simp: path_simps)

lemma page_level_ex: "l \<le> 2 \<Longrightarrow> \<exists>ps. from_bottom_paging_level l = Some ps"
proof -
  assume "l \<le> 2"
  then have "l = 0 \<or> l = 1 \<or> l = 2" by arith
  then show ?thesis by (auto simp: from_bottom_paging_level_def)
qed

lemma page_level_size:
  "l \<le> 2 \<Longrightarrow> from_bottom_paging_level l = Some ps \<longleftrightarrow> bottom_paging_level ps = l"
  by (cases ps) (auto simp: from_bottom_paging_level_def)

lemma offset_bits_level: "offset_bit_count ps = 12 + 9 * bottom_paging_level ps"
  by (cases ps) simp_all

lemma translate_leaf:
  assumes wf: "pt_wf hhdm t root U" and leaf: "leaf hhdm t root va l e"
  shows "translate hhdm t root va = Some (if bit e 0 then Some (entry_addr (12 + 9 * l) e) else None)"
proof -
  from get_entry_loop_spec [OF wf _ root_walk, of va]
  obtain k e' where k: "leaf hhdm t root va k e'" "get_entry_loop hhdm t root va (rev [0..<Suc 3]) =
      Some (if bit e' 10 then Some (the (walk hhdm t root (path va k)), next_level_index va k, the (from_bottom_paging_level k)) else None)"
    by blast
  from leaf_unique [OF leaf k(1)] have lk: "k = l" "e' = e" by simp_all
  from leaf obtain p where p: "l \<le> 3" "\<not> is_table e" "walk hhdm t root (path va l) = Some p" "tbl_read t p (next_level_index va l) = Some e"
    by (auto simp: leaf_def)
  have ge: "get_entry hhdm t root va = Some (if bit e 10 then Some (p, next_level_index va l, the (from_bottom_paging_level l)) else None)"
    using k(2) p(3) by (simp add: get_entry_def MAX_BOTTOM_PAGING_LEVEL_def lk numeral_3_eq_3)
  from walk_step [OF wf p(1,3)] p(4) have ew: "entry_wf l e" by (metis option.inject)
  show ?thesis
  proof (cases "bit e 10")
    case False
    then have "e = 0" using ew p(2) by (auto simp: entry_wf_def)
    then show ?thesis by (simp add: translate_def ge)
  next
    case True
    then have l: "l \<le> 2" "\<forall>k. 12 \<le> k \<and> k < 12 + 9 * l \<longrightarrow> \<not> bit e k"
      using ew p(2) by (auto simp: entry_wf_def)
    then obtain ps where ps: "from_bottom_paging_level l = Some ps" using page_level_ex by blast
    then have ob: "offset_bit_count ps = 12 + 9 * l" using page_level_size l(1) by (simp add: offset_bits_level)
    then have "entry_get_addr e ps = Some (entry_addr (12 + 9 * l) e)"
      using l(2) by (auto simp: entry_get_addr_eq)
    then show ?thesis using True ge p(4) ps by (simp add: translate_def flag_bits Let_def)
  qed
qed

lemma translate_leaf_update:
  assumes wf: "pt_wf hhdm t root U" and w: "walk hhdm t root is = Some p" and l: "l \<le> 3" "length is = 3 - l"
    and old: "tbl_read t p i = Some e0" "\<not> is_table e0" and new: "\<not> is_table e" "entry_wf l e"
    and rd: "\<And>q k. tbl_read t' q k = (if q = p \<and> k = i then Some e else tbl_read t q k)"
    and len: "\<And>q. map_option length (pg_tables t' q) = map_option length (pg_tables t q)"
  shows "pt_wf hhdm t' root U" and "\<And>js. walk hhdm t' root js = walk hhdm t root js"
    and "translate hhdm t' root va = (if path va l = is \<and> next_level_index va l = i
       then Some (if bit e 0 then Some (entry_addr (12 + 9 * l) e) else None) else translate hhdm t root va)"
    and "\<not> (path va l = is \<and> next_level_index va l = i) \<Longrightarrow> ends hhdm t root va lc ec \<Longrightarrow> ends hhdm t' root va lc ec"
proof -
  have len3: "length is \<le> 3" "3 - length is = l" using l by simp_all
  have new': "entry_wf (3 - length is) e" using new(2) len3 by simp
  note upd = leaf_update [OF wf w len3(1) old new(1) new' rd len]
  show wf': "pt_wf hhdm t' root U" by (rule upd(1))
  show walks: "walk hhdm t' root js = walk hhdm t root js" for js by (rule upd(2))
  have other: "leaf hhdm t' root va k e'" if "\<not> (path va l = is \<and> next_level_index va l = i)" and k: "leaf hhdm t root va k e'" for k e'
  proof -
    from k obtain q where q: "k \<le> 3" "walk hhdm t root (path va k) = Some q" "tbl_read t q (next_level_index va k) = Some e'" "\<not> is_table e'"
      by (auto simp: leaf_def)
    have "\<not> (q = p \<and> next_level_index va k = i)"
    proof
      assume a: "q = p \<and> next_level_index va k = i"
      then have "path va k = is" using pt_wfD(7) [OF wf w len3(1), of "path va k"] q(2) by (simp add: path_simps)
      then have "k = l" using l q(1) path_simps(3) [of va k] by auto
      with a that(1) \<open>path va k = is\<close> show False by simp
    qed
    then show ?thesis using q by (auto simp: leaf_def walks rd)
  qed
  then show "\<not> (path va l = is \<and> next_level_index va l = i) \<Longrightarrow> ends hhdm t root va lc ec \<Longrightarrow> ends hhdm t' root va lc ec"
    by (meson ends_mono)
  show "translate hhdm t' root va = (if path va l = is \<and> next_level_index va l = i
       then Some (if bit e 0 then Some (entry_addr (12 + 9 * l) e) else None) else translate hhdm t root va)"
  proof (cases "path va l = is \<and> next_level_index va l = i")
    case True
    then have "leaf hhdm t' root va l e" using w l new(1) by (simp add: leaf_def walks rd)
    from translate_leaf [OF wf' this] True show ?thesis by simp
  next
    case False
    from leaf_ex [OF wf, of va] obtain k e' where k: "leaf hhdm t root va k e'" by blast
    with translate_leaf [OF wf' other [OF False k]] translate_leaf [OF wf k] False show ?thesis by auto
  qed
qed

lemma translate_table_update:
  assumes wf: "pt_wf hhdm t root U" and w: "walk hhdm t root is = Some p" "length is \<le> 2"
    and old: "tbl_read t p i = Some 0" and new: "is_table e" "\<not> bit e 7" "entry_addr 12 e + hhdm = n"
    and n: "n < USIZE_LIM" "0 < n" "hhdm \<le> n" "page (n - hhdm) \<subseteq> U"
    and rd: "\<And>q k. tbl_read t' q k = (if q = n then if k < ENTRIES_PER_TABLE then Some 0 else None
        else if q = p \<and> k = i then Some e else tbl_read t q k)"
    and tab: "\<And>q. has_table t' q \<longleftrightarrow> q = n \<or> has_table t q"
  shows "translate hhdm t' root va = translate hhdm t root va"
    and "ends hhdm t root va lc ec \<Longrightarrow> ends hhdm t' root va lc ec"
proof -
  note upd = table_update [OF wf w old new n rd tab]
  have wf': "pt_wf hhdm t' root (U - page (n - hhdm))" by (rule upd(2))
  have walks: "length js \<le> 4 \<Longrightarrow> walk hhdm t' root js = (if js = is @ [i] then Some n else walk hhdm t root js)" for js
    by (rule upd(1))
  have fresh: "q \<noteq> n" if "walk hhdm t root js = Some q" "length js \<le> 3" for js q
    using pt_wfD(4) [OF wf that] n(4) page_self [of "n - hhdm"] by blast
  have leaf': "leaf hhdm t' root va k e' \<or> e' = 0 \<and> leaf hhdm t' root va (k - 1) 0" if k: "leaf hhdm t root va k e'" for k e'
  proof -
    from k obtain q where q: "k \<le> 3" "walk hhdm t root (path va k) = Some q" "tbl_read t q (next_level_index va k) = Some e'" "\<not> is_table e'"
      by (auto simp: leaf_def)
    have pk: "length (path va k) \<le> 3" "length (path va k) \<le> 4" by (simp_all add: path_simps)
    have ni: "path va k \<noteq> is @ [i]"
      using q(2) w(1) old by (auto simp: walk_append is_table_def)
    with q(2) have w': "walk hhdm t' root (path va k) = Some q" using walks [OF pk(2)] by simp
    show ?thesis
    proof (cases "q = p \<and> next_level_index va k = i")
      case False
      then show ?thesis using q w' fresh [OF q(2) pk(1)] by (auto simp: leaf_def rd)
    next
      case True
      then have e0: "e' = 0" using q(3) old by simp
      have "path va k = is" using True q(2) pt_wfD(7) [OF wf w(1) _ pk(1)] w(2) by simp
      then have k0: "0 < k" using w(2) path_simps(3) [of va k] by auto
      then have "path va (k - 1) = is @ [i]" using path_simps(2) [of "k - 1" va] q(1) True \<open>path va k = is\<close> by simp
      then have "walk hhdm t' root (path va (k - 1)) = Some n" using walks w(2) by simp
      then have "leaf hhdm t' root va (k - 1) 0"
        using q(1) next_level_index_lt [of va "k - 1"] by (simp add: leaf_def rd is_table_def)
      with e0 show ?thesis by simp
    qed
  qed
  then show "ends hhdm t root va lc ec \<Longrightarrow> ends hhdm t' root va lc ec" by (meson ends_mono)
  from leaf_ex [OF wf, of va] obtain k e' where k: "leaf hhdm t root va k e'" by blast
  from leaf' [OF this] translate_leaf [OF wf'] translate_leaf [OF wf k] show "translate hhdm t' root va = translate hhdm t root va"
    by auto
qed

subsection \<open>Creating tables\<close>

lemma pmm_page_bounds:
  assumes "pmm_free_bytes L M s U" and "page a \<subseteq> U"
  shows "a + BASIC_PAGE_SIZE \<le> M"
proof -
  have "a + BASIC_PAGE_SIZE - 1 \<in> page a" by (simp add: page_def BASIC_PAGE_SIZE_def)
  with assms(2) pmm.bounded [OF assms(1)] show ?thesis by (auto simp: BASIC_PAGE_SIZE_def subset_iff)
qed

lemma page_table_new_ok:
  assumes pmm: "pmm_free_bytes L M (pg_pmm t) U" and "U \<noteq> {}" and h: "M + hhdm \<le> USIZE_LIM" "0 < hhdm"
  obtains pa t' where "page_table_new hhdm t = Some ((pa + hhdm, pa), t')" and "BASIC_PAGE_SIZE dvd pa" and "page pa \<subseteq> U"
    and "pmm_free_bytes L M (pg_pmm t') (U - page pa)" and "pa + hhdm < USIZE_LIM"
    and "\<And>q k. tbl_read t' q k = (if q = pa + hhdm then if k < ENTRIES_PER_TABLE then Some 0 else None else tbl_read t q k)"
    and "\<And>q. has_table t' q \<longleftrightarrow> q = pa + hhdm \<or> has_table t q"
proof -
  from pmm.alloc_some [OF pmm \<open>U \<noteq> {}\<close>] obtain pa m where
    a: "pmm_alloc_page (pg_pmm t) = Some (Ok pa, m)" "BASIC_PAGE_SIZE dvd pa" "page pa \<subseteq> U" "pmm_free_bytes L M m (U - page pa)" by blast
  from pmm_page_bounds [OF pmm a(3)] h have lim: "pa + hhdm < USIZE_LIM" by (simp add: BASIC_PAGE_SIZE_def)
  define t' where "t' = t \<lparr> pg_tables := (pg_tables t)(pa + hhdm \<mapsto> replicate ENTRIES_PER_TABLE 0), pg_pmm := m \<rparr>"
  show ?thesis
  proof (rule that)
    show "page_table_new hhdm t = Some ((pa + hhdm, pa), t')"
      using a(1) lim h(2) by (simp add: page_table_new_def pmm_alloc_page_def page_alignment_def add_hhdm_offset_def uadd_ok t'_def)
  qed (use a lim in \<open>auto simp: t'_def tbl_read_def has_table_def idx_def\<close>)
qed

definition new_table_entry :: "nat \<Rightarrow> Entry" where
  "new_table_entry pa = 3 OR of_nat pa"

lemma bit_3: "bit (3 :: nat) n \<longleftrightarrow> n = 0 \<or> n = 1" "bit (3 :: int) n \<longleftrightarrow> n = 0 \<or> n = 1"
  by (cases n; auto simp: bit_Suc bit_1_iff bit_0 bit_Suc_0_iff)+

lemma new_table_entry_facts:
  assumes "BASIC_PAGE_SIZE dvd pa" and "pa < USIZE_LIM"
  shows "is_table (new_table_entry pa)" and "\<not> bit (new_table_entry pa) 7" and "entry_addr 12 (new_table_entry pa) = pa"
proof -
  have al: "2 ^ 12 dvd pa" using assms(1) by (simp add: BASIC_PAGE_SIZE_def)
  have low: "bit pa n \<Longrightarrow> 12 \<le> n" for n using aligned_low_bits [OF al] .
  show "is_table (new_table_entry pa)" "\<not> bit (new_table_entry pa) 7"
    using low [of 7] low [of 10] by (auto simp: is_table_def new_table_entry_def bit_simps bit_3)
  show "entry_addr 12 (new_table_entry pa) = pa"
    by (rule entry_addr_bits [OF assms(2) al]) (auto simp: new_table_entry_def bit_simps bit_3)
qed

lemma create_entry_bits:
  assumes "BASIC_PAGE_SIZE dvd pa"
  shows "entry_set_addr (entry_set_flags 0 (set_read_write (set_present (entry_get_flags 0) True) True)) pa Size4KB
    = Some (new_table_entry pa)"
proof -
  have "entry_set_flags 0 (set_read_write (set_present (entry_get_flags 0) True) True) = 3"
    by (rule bit_eqI) (auto simp: flag_bits bit_3)
  moreover have "(3 :: u64) AND mask 12 = 3" by (rule bit_eqI) (auto simp: bit_simps bit_3)
  moreover have "page_size_size Size4KB dvd pa" using assms by (simp add: BASIC_PAGE_SIZE_def)
  ultimately show ?thesis by (simp add: entry_set_addr_Some new_table_entry_def)
qed

lemma create_step:
  assumes wf: "pt_wf hhdm t root (U \<union> D)" and pmm: "pmm_free_bytes L M (pg_pmm t) U" and "U \<noteq> {}" and dis: "D \<inter> U = {}"
    and h: "M + hhdm \<le> USIZE_LIM" "0 < hhdm" and w: "walk hhdm t root is = Some p" "length is \<le> 2"
    and old: "tbl_read t p i = Some 0"
  obtains t' pa where
    "(do { t \<leftarrow> tbl_write t p i (entry_set_flags 0 (set_read_write (set_present (entry_get_flags 0) True) True));
           ((_, phys_addr), t) \<leftarrow> page_table_new hhdm t;
           e \<leftarrow> tbl_read t p i;
           e \<leftarrow> entry_set_addr e phys_addr Size4KB;
           tbl_write t p i e }) = Some t'"
    and "page pa \<subseteq> U" and "pmm_free_bytes L M (pg_pmm t') (U - page pa)" and "pt_wf hhdm t' root (U - page pa \<union> D)"
    and "\<And>va. translate hhdm t' root va = translate hhdm t root va" and "\<And>va lc ec. ends hhdm t root va lc ec \<Longrightarrow> ends hhdm t' root va lc ec"
    and "\<And>js. length js \<le> 4 \<Longrightarrow> walk hhdm t' root js = (if js = is @ [i] then Some (pa + hhdm) else walk hhdm t root js)"
    and "\<And>q k. tbl_read t' q k = (if q = pa + hhdm then if k < ENTRIES_PER_TABLE then Some 0 else None
        else if q = p \<and> k = i then Some (new_table_entry pa) else tbl_read t q k)"
    and "entry_addr 12 (new_table_entry pa) = pa" and "is_table (new_table_entry pa)"
proof -
  from tbl_write_Some [OF old] obtain t1 where t1: "tbl_write t p i (entry_set_flags 0 (set_read_write (set_present (entry_get_flags 0) True) True)) = Some t1"
    "pg_pmm t1 = pg_pmm t" "\<And>q k. tbl_read t1 q k = (if q = p \<and> k = i then Some (entry_set_flags 0 (set_read_write (set_present (entry_get_flags 0) True) True)) else tbl_read t q k)"
    "\<And>q. map_option length (pg_tables t1 q) = map_option length (pg_tables t q)" by blast
  have pmm1: "pmm_free_bytes L M (pg_pmm t1) U" using pmm t1(2) by simp
  from page_table_new_ok [OF pmm1 \<open>U \<noteq> {}\<close> h] obtain pa t2 where
    t2: "page_table_new hhdm t1 = Some ((pa + hhdm, pa), t2)" "BASIC_PAGE_SIZE dvd pa" "page pa \<subseteq> U"
    "pmm_free_bytes L M (pg_pmm t2) (U - page pa)" "pa + hhdm < USIZE_LIM"
    "\<And>q k. tbl_read t2 q k = (if q = pa + hhdm then if k < ENTRIES_PER_TABLE then Some 0 else None else tbl_read t1 q k)"
    "\<And>q. has_table t2 q \<longleftrightarrow> q = pa + hhdm \<or> has_table t1 q" by blast
  have w3: "length is \<le> 3" using w by simp
  have pne: "p \<noteq> pa + hhdm" using pt_wfD(4) [OF wf w(1) w3] t2(3) page_self [of pa] by force
  then have r2: "tbl_read t2 p i = Some (entry_set_flags 0 (set_read_write (set_present (entry_get_flags 0) True) True))"
    by (simp add: t2(6) t1(3))
  from tbl_write_Some [OF r2, of "new_table_entry pa"] obtain t3 where t3: "tbl_write t2 p i (new_table_entry pa) = Some t3"
    "pg_pmm t3 = pg_pmm t2" "\<And>q k. tbl_read t3 q k = (if q = p \<and> k = i then Some (new_table_entry pa) else tbl_read t2 q k)"
    "\<And>q. map_option length (pg_tables t3 q) = map_option length (pg_tables t2 q)" by blast
  have rd: "tbl_read t3 q k = (if q = pa + hhdm then if k < ENTRIES_PER_TABLE then Some 0 else None
        else if q = p \<and> k = i then Some (new_table_entry pa) else tbl_read t q k)" for q k
    using pne by (simp add: t3(3) t2(6) t1(3))
  have tab: "has_table t3 q \<longleftrightarrow> q = pa + hhdm \<or> has_table t q" for q
    using t2(7) [of q] t3(4) [of q] t1(4) [of q] by (simp add: has_table_def)
  have "pa < USIZE_LIM" using t2(5) by simp
  note ent = new_table_entry_facts [OF t2(2) this]
  have n: "entry_addr 12 (new_table_entry pa) + hhdm = pa + hhdm" "pa + hhdm < USIZE_LIM" "0 < pa + hhdm" "hhdm \<le> pa + hhdm"
    "page (pa + hhdm - hhdm) \<subseteq> U \<union> D" using ent t2 h by auto
  note upd = table_update [OF wf w old ent(1,2) n rd tab] and tr = translate_table_update [OF wf w old ent(1,2) n rd tab]
  show ?thesis
  proof (rule that [of t3 pa])
    show "(do { t \<leftarrow> tbl_write t p i (entry_set_flags 0 (set_read_write (set_present (entry_get_flags 0) True) True));
           ((_, phys_addr), t) \<leftarrow> page_table_new hhdm t;
           e \<leftarrow> tbl_read t p i;
           e \<leftarrow> entry_set_addr e phys_addr Size4KB;
           tbl_write t p i e }) = Some t3"
      by (simp add: t1(1) t2(1) r2 create_entry_bits [OF t2(2)] t3(1))
    have "U \<union> D - page pa = U - page pa \<union> D" using t2(3) dis by auto
    then show "pt_wf hhdm t3 root (U - page pa \<union> D)" using upd(2) by simp
    show "pmm_free_bytes L M (pg_pmm t3) (U - page pa)" using t2(4) t3(2) by simp
  qed (use t2(3) ent upd(1) tr rd in auto)
qed

text \<open>No large page, present or unmapped, lies above level \<open>b\<close> on the way to an address, down from
  level \<open>l\<close>.\<close>

definition way_clear :: "usize \<Rightarrow> Paging \<Rightarrow> nat \<Rightarrow> nat \<Rightarrow> nat \<Rightarrow> nat \<Rightarrow> bool" where
  "way_clear hhdm t root va b l \<longleftrightarrow> (\<forall>k p e. b < k \<and> k \<le> l \<and> walk hhdm t root (path va k) = Some p
     \<and> tbl_read t p (next_level_index va k) = Some e \<longrightarrow> is_table e \<or> e = 0)"

lemma card_page: "card (page a) = BASIC_PAGE_SIZE" "finite (page a)"
  by (simp_all add: page_def)

lemma pool_card:
  assumes "pmm_free_bytes L M s U"
  shows "finite U" and "page a \<subseteq> U \<Longrightarrow> card (U - page a) + BASIC_PAGE_SIZE = card U"
proof -
  show fin: "finite U" using pmm.bounded [OF assms] finite_subset by blast
  assume "page a \<subseteq> U"
  then have "card (page a) \<le> card U" "card (U - page a) = card U - card (page a)"
    by (rule card_mono [OF fin], rule card_Diff_subset [OF card_page(2)])
  then show "card (U - page a) + BASIC_PAGE_SIZE = card U" by (simp add: card_page)
qed

text \<open>The tables of a tree after tables at the paths \<open>N\<close> have been added.\<close>

definition grown :: "usize \<Rightarrow> Paging \<Rightarrow> Paging \<Rightarrow> nat \<Rightarrow> nat list set \<Rightarrow> bool" where
  "grown hhdm t t' root N \<longleftrightarrow> (\<forall>js. length js \<le> 4 \<longrightarrow> (walk hhdm t' root js \<noteq> None) = (js \<in> N \<or> walk hhdm t root js \<noteq> None))
     \<and> (\<forall>js \<in> N. length js \<le> 4 \<and> walk hhdm t root js = None)"

lemma grown_refl [simp]: "grown hhdm t t root {}"
  by (simp add: grown_def)

lemma grown_trans:
  assumes "grown hhdm t t1 root N1" and "grown hhdm t1 t2 root N2"
  shows "grown hhdm t t2 root (N1 \<union> N2)" and "N1 \<inter> N2 = {}"
  using assms unfolding grown_def by blast+

text \<open>What \<open>get_create_table_range\<close> leaves behind when it has walked from level \<open>l\<close> down to level \<open>b\<close>: the table there is \<open>p'\<close>, the
  tables it had to add were taken from the free memory, and everything that was mapped still is.\<close>

definition created :: "nat \<Rightarrow> nat \<Rightarrow> usize \<Rightarrow> nat \<Rightarrow> nat set \<Rightarrow> nat \<Rightarrow> nat \<Rightarrow> nat \<Rightarrow> Paging \<Rightarrow> nat set \<Rightarrow> nat \<Rightarrow> Paging \<Rightarrow> nat set \<Rightarrow> bool" where
  "created L M hhdm root D va b l t U p' t' U' \<longleftrightarrow> pt_wf hhdm t' root (U' \<union> D)
    \<and> pmm_free_bytes L M (pg_pmm t') U' \<and> walk hhdm t' root (path va b) = Some p' \<and> U' \<subseteq> U
    \<and> card U \<le> card U' + (l - b) * BASIC_PAGE_SIZE
    \<and> (\<forall>va. translate hhdm t' root va = translate hhdm t root va) \<and> (\<forall>va lc ec. ends hhdm t root va lc ec \<longrightarrow> ends hhdm t' root va lc ec)
    \<and> (\<forall>k < ENTRIES_PER_TABLE. tbl_read t' p' k = (if walk hhdm t root (path va b) = Some p' then tbl_read t p' k else Some 0))
    \<and> (\<exists>N. grown hhdm t t' root N \<and> N \<subseteq> path va ` {b..<l} \<and> card U = card U' + card N * BASIC_PAGE_SIZE)"

lemma created_refl:
  "pt_wf hhdm t root (U \<union> D) \<Longrightarrow> pmm_free_bytes L M (pg_pmm t) U \<Longrightarrow> walk hhdm t root (path va b) = Some p
    \<Longrightarrow> created L M hhdm root D va b b t U p t U"
  unfolding created_def by auto

lemma created_Suc:
  "created L M hhdm root D va b l t U p' t' U' \<Longrightarrow> created L M hhdm root D va b (Suc l) t U p' t' U'"
proof -
  assume c: "created L M hhdm root D va b l t U p' t' U'"
  have "(l - b) * BASIC_PAGE_SIZE \<le> (Suc l - b) * BASIC_PAGE_SIZE" by (intro mult_le_mono1) simp
  moreover have "card U \<le> card U' + (l - b) * BASIC_PAGE_SIZE" using c unfolding created_def by blast
  ultimately have "card U \<le> card U' + (Suc l - b) * BASIC_PAGE_SIZE" by linarith
  moreover have "\<exists>N. grown hhdm t t' root N \<and> N \<subseteq> path va ` {b..<Suc l} \<and> card U = card U' + card N * BASIC_PAGE_SIZE"
    using c unfolding created_def by (meson image_mono ivl_subset le_SucI le_refl subset_trans)
  ultimately show ?thesis using c unfolding created_def by blast
qed

text \<open>A new table below the way: nothing lies below it.\<close>

lemma new_table_below:
  assumes wk: "\<And>js. length js \<le> 4 \<Longrightarrow> walk hhdm t1 root js = (if js = path va (Suc l) @ [next_level_index va (Suc l)] then Some n else walk hhdm t root js)"
    and rd: "\<And>k. k < ENTRIES_PER_TABLE \<Longrightarrow> tbl_read t1 n k = Some 0" and l: "Suc l \<le> 3"
  shows "walk hhdm t1 root (path va l) = Some n" and "k < l \<Longrightarrow> walk hhdm t1 root (path va k) = None" and "way_clear hhdm t1 root va b l"
proof -
  have "path va l = path va (Suc l) @ [next_level_index va (Suc l)]" using path_simps(2) [of l va] l by simp
  then show wl: "walk hhdm t1 root (path va l) = Some n" using wk [of "path va l"] by (simp add: path_simps)
  have zero: "tbl_read t1 n (next_level_index va l) = Some 0" by (rule rd [OF next_level_index_lt])
  have below: "walk hhdm t1 root (path va k) = None" if "k < l" for k
    using path_split [OF that, of va] l wl zero by (auto simp: walk_append is_table_def)
  then show "k < l \<Longrightarrow> walk hhdm t1 root (path va k) = None" .
  show "way_clear hhdm t1 root va b l"
    unfolding way_clear_def using below wl zero by (metis le_neq_implies_less option.distinct(1) option.inject)
qed

lemma created_new:
  assumes c: "created L M hhdm root D va b l t1 (U - page pa) p' t' U'" and p': "b = l \<Longrightarrow> p' = pa + hhdm" and b: "b \<le> l" "Suc l \<le> 3"
    and pool: "pmm_free_bytes L M (pg_pmm t) U" "page pa \<subseteq> U"
    and w: "walk hhdm t root (path va (Suc l)) = Some p" and old: "tbl_read t p (next_level_index va (Suc l)) = Some 0"
    and tr: "\<And>va. translate hhdm t1 root va = translate hhdm t root va" and um: "\<And>va lc ec. ends hhdm t root va lc ec \<Longrightarrow> ends hhdm t1 root va lc ec"
    and wk: "\<And>js. length js \<le> 4 \<Longrightarrow> walk hhdm t1 root js = (if js = path va (Suc l) @ [next_level_index va (Suc l)] then Some (pa + hhdm) else walk hhdm t root js)"
    and rd: "\<And>k. k < ENTRIES_PER_TABLE \<Longrightarrow> tbl_read t1 (pa + hhdm) k = Some 0"
  shows "created L M hhdm root D va b (Suc l) t U p' t' U'"
proof -
  note C = c [unfolded created_def]
  have none: "walk hhdm t root (path va k) = None" if "k \<le> l" for k
    using path_split [of k "Suc l" va] that b(2) w old by (auto simp: walk_append is_table_def)
  have "\<forall>k < ENTRIES_PER_TABLE. tbl_read t' p' k = Some 0"
  proof (cases "b = l")
    case True
    then show ?thesis using C p' new_table_below(1) [OF wk rd b(2)] rd by auto
  next
    case False
    then have "walk hhdm t1 root (path va b) = None" using new_table_below(2) [OF wk rd b(2)] b(1) by simp
    then show ?thesis using C by simp
  qed
  moreover from C obtain N where N: "grown hhdm t1 t' root N" "N \<subseteq> path va ` {b..<l}" "card (U - page pa) = card U' + card N * BASIC_PAGE_SIZE" by blast
  have pathl: "path va l = path va (Suc l) @ [next_level_index va (Suc l)]" using path_simps(2) [of l va] b by simp
  have "grown hhdm t t1 root {path va l}"
    unfolding grown_def using none [of l] by (auto simp: wk pathl [symmetric] path_simps)
  note g = grown_trans [OF this N(1)]
  have "finite N" using N(2) by (rule finite_subset) simp
  then have "card ({path va l} \<union> N) = Suc (card N)" using g(2) by simp
  then have "card U = card U' + card ({path va l} \<union> N) * BASIC_PAGE_SIZE" using N(3) pool_card(2) [OF pool] by simp
  moreover have "{path va l} \<union> N \<subseteq> path va ` {b..<Suc l}" using N(2) b(1) by (fastforce simp: image_iff)
  moreover have "card U \<le> card U' + (Suc l - b) * BASIC_PAGE_SIZE" using C pool_card(2) [OF pool] b(1) by (simp add: Suc_diff_le)
  ultimately show ?thesis unfolding created_def using C g(1) tr um none [OF b(1)] by auto
qed

text \<open>One level where a table has to be created; \<open>IH\<close> is the walk through the levels below.\<close>

lemma get_create_new:
  assumes h: "M + hhdm \<le> USIZE_LIM" "0 < hhdm" and b: "b \<le> l" "Suc l \<le> 3"
    and wf: "pt_wf hhdm t root (U \<union> D)" and pmm: "pmm_free_bytes L M (pg_pmm t) U"
    and w: "walk hhdm t root (path va (Suc l)) = Some p" and old: "tbl_read t p (next_level_index va (Suc l)) = Some 0"
    and room: "(Suc l - b) * BASIC_PAGE_SIZE \<le> card U" and dis: "D \<inter> U = {}"
    and IH: "\<And>t U p. pt_wf hhdm t root (U \<union> D) \<Longrightarrow> pmm_free_bytes L M (pg_pmm t) U \<Longrightarrow> walk hhdm t root (path va l) = Some p
      \<Longrightarrow> way_clear hhdm t root va b l \<Longrightarrow> (l - b) * BASIC_PAGE_SIZE \<le> card U \<Longrightarrow> D \<inter> U = {}
      \<Longrightarrow> \<exists>p' t' U'. get_create_loop hhdm t p va (rev [Suc b..<Suc l]) = Some (p', t') \<and> created L M hhdm root D va b l t U p' t' U'"
  shows "\<exists>p' t' U'. get_create_loop hhdm t p va (rev [Suc b..<Suc (Suc l)]) = Some (p', t') \<and> created L M hhdm root D va b (Suc l) t U p' t' U'"
proof -
  let ?i = "next_level_index va (Suc l)"
  have len: "length (path va (Suc l)) \<le> 2" by (simp add: path_simps)
  have room': "Suc (l - b) * BASIC_PAGE_SIZE \<le> card U" using room b(1) by (simp add: Suc_diff_le)
  then have "U \<noteq> {}" by (auto simp: BASIC_PAGE_SIZE_def)
  obtain t1 pa where t1:
    "(do { t \<leftarrow> tbl_write t p ?i (entry_set_flags 0 (set_read_write (set_present (entry_get_flags 0) True) True));
       ((_, phys_addr), t) \<leftarrow> page_table_new hhdm t;
       e \<leftarrow> tbl_read t p ?i;
       e \<leftarrow> entry_set_addr e phys_addr Size4KB;
       tbl_write t p ?i e }) = Some t1"
    and pa: "page pa \<subseteq> U" "pmm_free_bytes L M (pg_pmm t1) (U - page pa)" and wf1: "pt_wf hhdm t1 root (U - page pa \<union> D)"
    and tr: "\<And>va. translate hhdm t1 root va = translate hhdm t root va" and um: "\<And>va lc ec. ends hhdm t root va lc ec \<Longrightarrow> ends hhdm t1 root va lc ec"
    and wk: "\<And>js. length js \<le> 4 \<Longrightarrow> walk hhdm t1 root js = (if js = path va (Suc l) @ [?i] then Some (pa + hhdm) else walk hhdm t root js)"
    and rd: "\<And>q k. tbl_read t1 q k = (if q = pa + hhdm then if k < ENTRIES_PER_TABLE then Some 0 else None
      else if q = p \<and> k = ?i then Some (new_table_entry pa) else tbl_read t q k)"
    and ent: "entry_addr 12 (new_table_entry pa) = pa" "is_table (new_table_entry pa)"
    by (rule create_step [OF wf pmm \<open>U \<noteq> {}\<close> dis h w len old], rule that)
  have rd0: "k < ENTRIES_PER_TABLE \<Longrightarrow> tbl_read t1 (pa + hhdm) k = Some 0" for k by (simp add: rd)
  note below = new_table_below [OF wk rd0 b(2)]
  have "(l - b) * BASIC_PAGE_SIZE \<le> card (U - page pa)" "D \<inter> (U - page pa) = {}" using room' dis pool_card(2) [OF pmm pa(1)] by auto
  from IH [OF wf1 pa(2) below(1,3) this] obtain p' t' U' where
    c: "get_create_loop hhdm t1 (pa + hhdm) va (rev [Suc b..<Suc l]) = Some (p', t')" "created L M hhdm root D va b l t1 (U - page pa) p' t' U'" by blast
  have "p \<noteq> pa + hhdm" using pt_wfD(4) [OF wf w] len pa(1) page_self [of pa] by force
  then have r1: "tbl_read t1 p ?i = Some (new_table_entry pa)" by (simp add: rd)
  have nxt: "next_level_table hhdm (new_table_entry pa) = Some (pa + hhdm)"
    using pt_wfD(1,2) [OF wf1 below(1)] ent(1) by (simp add: next_level_table_eq path_simps)
  have np: "\<not> get_present (entry_get_flags 0)" by (simp add: flag_bits)
  have "rev [Suc b..<Suc (Suc l)] = Suc l # rev [Suc b..<Suc l]" using b by simp
  then have "get_create_loop hhdm t p va (rev [Suc b..<Suc (Suc l)]) = Some (p', t')"
    using old np t1 r1 nxt c(1) by (simp only: get_create_loop.simps Let_def) simp
  moreover have "b = l \<Longrightarrow> p' = pa + hhdm" using c(1) by simp
  ultimately show ?thesis using created_new [OF c(2) _ b pmm pa(1) w old tr um wk rd0] by blast
qed

lemma get_create_loop_created:
  assumes h: "M + hhdm \<le> USIZE_LIM" "0 < hhdm" and "b \<le> l" and "l \<le> 3"
    and wf: "pt_wf hhdm t root (U \<union> D)" and pmm: "pmm_free_bytes L M (pg_pmm t) U"
    and w: "walk hhdm t root (path va l) = Some p" and clear: "way_clear hhdm t root va b l"
    and room: "(l - b) * BASIC_PAGE_SIZE \<le> card U" and dis: "D \<inter> U = {}"
  shows "\<exists>p' t' U'. get_create_loop hhdm t p va (rev [Suc b..<Suc l]) = Some (p', t') \<and> created L M hhdm root D va b l t U p' t' U'"
  using assms(3-)
proof (induction l arbitrary: t U p)
  case 0
  then show ?case using created_refl [of hhdm t root U D L M va b p] by auto
next
  case (Suc l)
  show ?case
  proof (cases "b = Suc l")
    case True
    then show ?thesis using Suc.prems created_refl [of hhdm t root U D L M va b p] by auto
  next
    case False
    then have b: "b \<le> l" "Suc l \<le> 3" "l \<le> 3" using Suc.prems by simp_all
    have levels: "rev [Suc b..<Suc (Suc l)] = Suc l # rev [Suc b..<Suc l]" using b by simp
    let ?i = "next_level_index va (Suc l)"
    from walk_step [OF Suc.prems(3) b(2) Suc.prems(5)] obtain e where e: "tbl_read t p ?i = Some e"
      "is_table e \<Longrightarrow> walk hhdm t root (path va l) = Some (entry_addr 12 e + hhdm) \<and> next_level_table hhdm e = Some (entry_addr 12 e + hhdm)"
      by (metis diff_Suc_1)
    have "is_table e \<or> e = 0" using Suc.prems(6) b e(1) Suc.prems(5) unfolding way_clear_def by (meson le_imp_less_Suc order_refl)
    then show ?thesis
    proof
      assume tab: "is_table e"
      have cl: "way_clear hhdm t root va b l" using Suc.prems(6) unfolding way_clear_def by (meson le_SucI)
      have rm: "(l - b) * BASIC_PAGE_SIZE \<le> card U"
        using Suc.prems(7) by (meson diff_le_mono le_SucI le_trans mult_le_mono1 order_refl)
      from Suc.IH [OF b(1,3) Suc.prems(3,4) conjunct1 [OF e(2) [OF tab]] cl rm Suc.prems(8)] obtain p' t' U' where
        IH: "get_create_loop hhdm t (entry_addr 12 e + hhdm) va (rev [Suc b..<Suc l]) = Some (p', t')" "created L M hhdm root D va b l t U p' t' U'" by blast
      have "get_present (entry_get_flags e)" using tab by (simp add: flag_bits is_table_def)
      then have "get_create_loop hhdm t p va (rev [Suc b..<Suc (Suc l)]) = Some (p', t')"
        unfolding levels using e tab IH(1) by (simp only: get_create_loop.simps Let_def) simp
      with created_Suc [OF IH(2)] show ?thesis by blast
    next
      assume zero: "e = 0"
      show ?thesis by (rule get_create_new [OF h b(1,2) Suc.prems(3-5) e(1) [unfolded zero] Suc.prems(7,8) Suc.IH [OF b(1,3)]])
    qed
  qed
qed

subsection \<open>Addresses as digits\<close>

text \<open>Only the low 48 bits of an address take part in the walk.\<close>

definition vdig :: "nat \<Rightarrow> nat \<Rightarrow> nat" where
  "vdig va l = (va mod 2 ^ 48) div 2 ^ (12 + 9 * l)"

lemma vdig_Suc: "vdig va (Suc l) = vdig va l div 512"
  by (simp add: vdig_def div_mult2_eq [symmetric] power_add mult.commute)

lemma vdig_4: "vdig va 4 = 0"
  by (simp add: vdig_def)

lemma next_level_index_vdig:
  assumes "va < USIZE_LIM" and "l \<le> 3"
  shows "next_level_index va l = vdig va l mod 512"
proof -
  have m: "(0x1FF :: u64) = mask 9" by (simp add: mask_eq_exp_minus_1)
  have "next_level_index va l = take_bit 9 (drop_bit (12 + 9 * l) va)"
    using assms(1) by (simp add: next_level_index_def m take_bit_eq_mask [symmetric] unsigned_take_bit_eq
        unsigned_drop_bit_eq unat_of_nat_u64 mult.commute)
      (simp add: USIZE_LIM_def take_bit_nat_eq_self)
  also have "\<dots> = take_bit 9 (drop_bit (12 + 9 * l) (take_bit 48 va))"
    using assms(2) by (intro bit_eqI) (auto simp: bit_simps)
  finally show ?thesis by (simp add: vdig_def take_bit_eq_mod drop_bit_eq_div)
qed

lemma path_eq_iff:
  assumes "va < USIZE_LIM" and "va' < USIZE_LIM" and "l \<le> 3"
  shows "path va' l = path va l \<longleftrightarrow> vdig va' (Suc l) = vdig va (Suc l)"
  using assms(3)
proof (induction "3 - l" arbitrary: l)
  case 0
  then have "l = 3" by simp
  then show ?case using vdig_4 [of va] vdig_4 [of va'] by (simp add: path_simps)
next
  case (Suc d)
  then have l: "l < 3" and IH: "path va' (Suc l) = path va (Suc l) \<longleftrightarrow> vdig va' (Suc (Suc l)) = vdig va (Suc (Suc l))"
    by simp_all
  have "path va' l = path va l \<longleftrightarrow> vdig va' (Suc l) div 512 = vdig va (Suc l) div 512 \<and> vdig va' (Suc l) mod 512 = vdig va (Suc l) mod 512"
    using l IH next_level_index_vdig [OF assms(1)] next_level_index_vdig [OF assms(2)] by (simp add: path_simps vdig_Suc)
  also have "\<dots> \<longleftrightarrow> vdig va' (Suc l) = vdig va (Suc l)" by (metis div_mult_mod_eq)
  finally show ?case .
qed

lemma digit_add: "b = a + k \<Longrightarrow> a mod 512 + k < 512 \<Longrightarrow> b div 512 = a div 512 \<and> b mod 512 = a mod 512 + k"
  for a b k :: nat
proof -
  assume "b = a + k" and r: "a mod 512 + k < 512"
  then have "b = (a mod 512 + k) + a div 512 * 512" by simp
  then show ?thesis using r by (simp only: div_mult_self1 mod_mult_self1 div_less mod_less) simp
qed

lemma in_run_iff:
  assumes "va < USIZE_LIM" and "va' < USIZE_LIM" and "l \<le> 3" and run: "next_level_index va l + n \<le> 512"
  shows "path va' l = path va l \<and> (\<exists>k < n. next_level_index va' l = next_level_index va l + k \<and> P k)
    \<longleftrightarrow> (\<exists>k < n. vdig va' l = vdig va l + k \<and> P k)"
proof -
  have i: "next_level_index va l = vdig va l mod 512" "next_level_index va' l = vdig va' l mod 512"
    using next_level_index_vdig assms(1-3) by simp_all
  have "(vdig va' l div 512 = vdig va l div 512 \<and> vdig va' l mod 512 = vdig va l mod 512 + k) \<longleftrightarrow> vdig va' l = vdig va l + k"
    if "k < n" for k
  proof
    assume "vdig va' l = vdig va l + k"
    moreover have "vdig va l mod 512 + k < 512" using run i that by simp
    ultimately show "vdig va' l div 512 = vdig va l div 512 \<and> vdig va' l mod 512 = vdig va l mod 512 + k"
      by (rule digit_add)
  qed (metis add.assoc div_mult_mod_eq)
  then show ?thesis using path_eq_iff [OF assms(1-3)] by (auto simp: vdig_Suc i)
qed

subsection \<open>Mapping\<close>

definition flags_ok :: "PageSize \<Rightarrow> Flags \<Rightarrow> bool" where
  "flags_ok ps f \<longleftrightarrow> (\<forall>k. bit f k \<longrightarrow> k < 12 \<and> (ps \<noteq> Size4KB \<longrightarrow> k \<noteq> 7))"

text \<open>The entry for a page: the flags asked for, the present and last-entry marks and, for a large
  page, the page-size bit.\<close>

definition page_entry :: "PageSize \<Rightarrow> Flags \<Rightarrow> nat \<Rightarrow> Entry \<Rightarrow> bool" where
  "page_entry ps f pa e \<longleftrightarrow> entry_addr (offset_bit_count ps) e = pa
     \<and> (\<forall>k < 12. bit e k \<longleftrightarrow> k = 0 \<or> k = 10 \<or> (k = 7 \<and> ps \<noteq> Size4KB) \<or> bit f k)"

lemma entry_map_ok:
  assumes wf: "entry_wf (bottom_paging_level ps) e0" and absent: "\<not> bit e0 0"
    and pa: "page_size_size ps dvd pa" "pa < USIZE_LIM" and fl: "flags_ok ps f"
  obtains e where "entry_map e0 pa f ps = Some (Ok (), e)" and "\<not> is_table e" and "entry_wf (bottom_paging_level ps) e"
    and "bit e 0" and "page_entry ps f pa e"
proof -
  let ?k = "offset_bit_count ps"
  define g where "g = set_last_entry (set_present f True) True OR flags_of_page_size ps"
  define e where "e = entry_set_flags ((e0 AND mask ?k) OR of_nat pa) g"
  have low: "bit pa n \<Longrightarrow> ?k \<le> n" for n
    using pa(1) aligned_low_bits [of ?k pa n] by (simp add: page_size_eq)
  have k12: "12 \<le> ?k" "?k < 64" by (cases ps; simp)+
  have join: "flags_join (set_last_entry (set_present f True) True) (flags_of_page_size ps) = Some g"
    using fl by (auto simp: flags_join_bits flag_bits flags_ok_def g_def)
  have mid: "\<not> bit e0 n" if "12 \<le> n" "n < ?k" for n
    using wf absent that by (auto simp: entry_wf_def is_table_def offset_bits_level)
  have fhi: "\<not> bit f n" if "12 \<le> n" for n using fl that by (auto simp: flags_ok_def not_le)
  have bits: "bit e n \<longleftrightarrow> n < 64 \<and> (if n < 12 then n = 0 \<or> n = 10 \<or> (n = 7 \<and> ps \<noteq> Size4KB) \<or> bit f n else bit pa n)" for n
    using low [of n] mid [of n] fhi [of n] k12 bit_u64_lt [of f n]
    by (auto simp: e_def g_def flag_bits bit_simps not_less)
  have addr: "entry_addr ?k e = pa"
    using pa k12 by (intro entry_addr_bits) (auto simp: page_size_eq bits bit_simps)
  have nt: "\<not> is_table e" by (simp add: is_table_def bits)
  have "\<not> bit e n" if "12 \<le> n" "n < 12 + 9 * bottom_paging_level ps" for n
    using that low [of n] by (auto simp: bits offset_bits_level)
  moreover have "bit e 10" "ps \<noteq> Size4KB \<longrightarrow> bit e 7" by (simp_all add: bits)
  ultimately have "entry_wf (bottom_paging_level ps) e"
    using nt by (cases ps) (auto simp: entry_wf_def)
  moreover have "entry_map e0 pa f ps = Some (Ok (), e)"
    using absent join by (simp add: entry_map_def flag_bits entry_set_addr_Some [OF pa(1)] e_def)
  ultimately show ?thesis
    using nt addr k12 by (intro that [of e]) (auto simp: bits page_entry_def)
qed

lemma map_entries_ok:
  assumes "pt_wf hhdm t root U" and "walk hhdm t root is = Some p" and l: "l = bottom_paging_level ps" "length is = 3 - l"
    and "distinct ks" and "\<forall>k \<in> set ks. \<exists>e. tbl_read t p (j + k) = Some e \<and> \<not> bit e 0"
    and "\<forall>k \<in> set ks. pa + k * page_size_size ps < USIZE_LIM" and al: "page_size_size ps dvd pa" and fl: "flags_ok ps f"
  shows "\<exists>t'. map_entries t p j ks pa ps f = Some (Ok (), t') \<and> pt_wf hhdm t' root U \<and> pg_pmm t' = pg_pmm t
    \<and> (\<forall>js. walk hhdm t' root js = walk hhdm t root js)
    \<and> (\<forall>k \<in> set ks. \<exists>e. tbl_read t' p (j + k) = Some e \<and> page_entry ps f (pa + k * page_size_size ps) e)
    \<and> (\<forall>q k. \<not> (q = p \<and> k \<in> (+) j ` set ks) \<longrightarrow> tbl_read t' q k = tbl_read t q k)
    \<and> (\<forall>va. translate hhdm t' root va = (if path va l = is \<and> (\<exists>k \<in> set ks. next_level_index va l = j + k)
         then Some (Some (pa + (next_level_index va l - j) * page_size_size ps)) else translate hhdm t root va))
    \<and> (\<forall>va lc ec. ends hhdm t root va lc ec \<and> \<not> (path va l = is \<and> (\<exists>k \<in> set ks. next_level_index va l = j + k)) \<longrightarrow> ends hhdm t' root va lc ec)"
  using assms(1,2,5,6,7)
proof (induction ks arbitrary: t)
  case (Cons k ks)
  let ?pa = "pa + k * page_size_size ps"
  have l2: "l \<le> 3" "length is \<le> 3" "3 - length is = l" using l by (cases ps; simp)+
  from Cons.prems(4) obtain e0 where e0: "tbl_read t p (j + k) = Some e0" "\<not> bit e0 0" by auto
  have ew: "entry_wf (bottom_paging_level ps) e0" using pt_wfD(6) [OF Cons.prems(1,2) l2(2) e0(1)] l2 l by simp
  have pa: "page_size_size ps dvd ?pa" "?pa < USIZE_LIM" "k * page_size_size ps < USIZE_LIM" using al Cons.prems(5) by auto
  from entry_map_ok [OF ew e0(2) pa(1,2) fl] obtain e where e: "entry_map e0 ?pa f ps = Some (Ok (), e)" "\<not> is_table e"
    "entry_wf l e" "bit e 0" "page_entry ps f ?pa e" unfolding l by metis
  have nt0: "\<not> is_table e0" using e0(2) by (simp add: is_table_def)
  from tbl_write_Some [OF e0(1), of e] obtain t1 where t1: "tbl_write t p (j + k) e = Some t1" "pg_pmm t1 = pg_pmm t"
    "\<And>q i. tbl_read t1 q i = (if q = p \<and> i = j + k then Some e else tbl_read t q i)"
    "\<And>q. map_option length (pg_tables t1 q) = map_option length (pg_tables t q)" by blast
  note upd = translate_leaf_update [OF Cons.prems(1,2) l2(1) l(2) e0(1) nt0 e(2,3) t1(3,4)]
  have w1: "walk hhdm t1 root is = Some p" using upd(2) Cons.prems(2) by simp
  have ks: "k \<notin> set ks" "distinct ks" using Cons.prems(3) by simp_all
  have ents: "\<forall>k \<in> set ks. \<exists>e. tbl_read t1 p (j + k) = Some e \<and> \<not> bit e 0"
    using Cons.prems(4) ks(1) by (auto simp: t1(3))
  from Cons.IH [OF upd(1) w1 ks(2) ents] Cons.prems(5) obtain t' where t':
    "map_entries t1 p j ks pa ps f = Some (Ok (), t')" "pt_wf hhdm t' root U" "pg_pmm t' = pg_pmm t1"
    "\<forall>js. walk hhdm t' root js = walk hhdm t1 root js"
    "\<forall>k \<in> set ks. \<exists>e. tbl_read t' p (j + k) = Some e \<and> page_entry ps f (pa + k * page_size_size ps) e"
    "\<forall>q k. \<not> (q = p \<and> k \<in> (+) j ` set ks) \<longrightarrow> tbl_read t' q k = tbl_read t1 q k"
    "\<forall>va. translate hhdm t' root va = (if path va l = is \<and> (\<exists>k \<in> set ks. next_level_index va l = j + k)
         then Some (Some (pa + (next_level_index va l - j) * page_size_size ps)) else translate hhdm t1 root va)"
    "\<forall>va lc ec. ends hhdm t1 root va lc ec \<and> \<not> (path va l = is \<and> (\<exists>k \<in> set ks. next_level_index va l = j + k)) \<longrightarrow> ends hhdm t' root va lc ec" by auto
  have addr: "entry_addr (12 + 9 * l) e = ?pa" using e(5) by (simp add: page_entry_def offset_bits_level l)
  have "map_entries t p j (k # ks) pa ps f = Some (Ok (), t')"
    using pa e0 e(1) t1(1) t'(1) by (simp add: umul_ok addr_add_def uadd_ok)
  moreover have "translate hhdm t' root va = (if path va l = is \<and> (\<exists>k \<in> set (k # ks). next_level_index va l = j + k)
         then Some (Some (pa + (next_level_index va l - j) * page_size_size ps)) else translate hhdm t root va)" for va
    using t'(7) upd(3) [of va] addr e(4) by auto
  moreover have "ends hhdm t' root va lc ec" if "ends hhdm t root va lc ec" "\<not> (path va l = is \<and> (\<exists>k \<in> set (k # ks). next_level_index va l = j + k))" for va lc ec
  proof -
    have "\<not> (path va l = is \<and> next_level_index va l = j + k)" using that(2) by auto
    from upd(4) [OF this that(1)] t'(8) that(2) show ?thesis by auto
  qed
  moreover have "\<exists>e. tbl_read t' p (j + k) = Some e \<and> page_entry ps f ?pa e"
  proof -
    have "j + k \<notin> (+) j ` set ks" using ks(1) by auto
    with t'(6) have "tbl_read t' p (j + k) = Some e" by (simp add: t1(3))
    with e(5) show ?thesis by blast
  qed
  ultimately show ?case using t' t1 upd(2) by (auto simp: image_iff)
qed simp

subsection \<open>Unmapping\<close>

lemma entry_release_ok:
  assumes "entry_wf l e" and "bit e 0" and "bit e 10" and "\<not> bit e 9"
  obtains e' where "entry_release t e ps = Some (Ok (), e', t)" and "\<not> is_table e'" and "entry_wf l e'" and "\<not> bit e' 0"
proof -
  define e' where "e' = entry_set_flags e (set_present (entry_get_flags e) False)"
  have bits: "bit e' n \<longleftrightarrow> n \<noteq> 0 \<and> bit e n" for n by (auto simp: e'_def flag_bits)
  have "entry_wf l e'" using assms by (auto simp: entry_wf_def is_table_def bits)
  moreover have "entry_release t e ps = Some (Ok (), e', t)"
    using assms by (simp add: entry_release_def flag_bits Let_def e'_def)
  ultimately show ?thesis by (intro that [of e']) (simp_all add: bits is_table_def)
qed

lemma unmap_entries_ok:
  assumes "pt_wf hhdm t root U" and "walk hhdm t root is = Some p" and l: "l \<le> 3" "length is = 3 - l"
    and "distinct ks" and "\<forall>k \<in> set ks. \<exists>e. tbl_read t p (j + k) = Some e \<and> bit e 0 \<and> bit e 10 \<and> \<not> bit e 9"
  shows "\<exists>t'. unmap_entries t p j ks ps = Some (Ok (), t') \<and> pt_wf hhdm t' root U \<and> pg_pmm t' = pg_pmm t
    \<and> (\<forall>va. translate hhdm t' root va = (if path va l = is \<and> (\<exists>k \<in> set ks. next_level_index va l = j + k)
         then Some None else translate hhdm t root va))
    \<and> (\<forall>va lc ec. ends hhdm t root va lc ec \<and> \<not> (path va l = is \<and> (\<exists>k \<in> set ks. next_level_index va l = j + k)) \<longrightarrow> ends hhdm t' root va lc ec)"
  using assms(1,2,5,6)
proof (induction ks arbitrary: t)
  case (Cons k ks)
  have l2: "length is \<le> 3" "3 - length is = l" using l by simp_all
  from Cons.prems(4) obtain e0 where e0: "tbl_read t p (j + k) = Some e0" "bit e0 0" "bit e0 10" "\<not> bit e0 9" by auto
  have ew: "entry_wf l e0" using pt_wfD(6) [OF Cons.prems(1,2) l2(1) e0(1)] l2 by simp
  from entry_release_ok [OF ew e0(2-4)] obtain e where e: "entry_release t e0 ps = Some (Ok (), e, t)" "\<not> is_table e"
    "entry_wf l e" "\<not> bit e 0" by metis
  have nt0: "\<not> is_table e0" using e0(3) by (simp add: is_table_def)
  from tbl_write_Some [OF e0(1), of e] obtain t1 where t1: "tbl_write t p (j + k) e = Some t1" "pg_pmm t1 = pg_pmm t"
    "\<And>q i. tbl_read t1 q i = (if q = p \<and> i = j + k then Some e else tbl_read t q i)"
    "\<And>q. map_option length (pg_tables t1 q) = map_option length (pg_tables t q)" by blast
  note upd = translate_leaf_update [OF Cons.prems(1,2) l e0(1) nt0 e(2,3) t1(3,4)]
  have w1: "walk hhdm t1 root is = Some p" using upd(2) Cons.prems(2) by simp
  have ks: "k \<notin> set ks" "distinct ks" using Cons.prems(3) by simp_all
  have ents: "\<forall>k \<in> set ks. \<exists>e. tbl_read t1 p (j + k) = Some e \<and> bit e 0 \<and> bit e 10 \<and> \<not> bit e 9"
    using Cons.prems(4) ks(1) by (auto simp: t1(3))
  from Cons.IH [OF upd(1) w1 ks(2) ents] obtain t' where t':
    "unmap_entries t1 p j ks ps = Some (Ok (), t')" "pt_wf hhdm t' root U" "pg_pmm t' = pg_pmm t1"
    "\<forall>va. translate hhdm t' root va = (if path va l = is \<and> (\<exists>k \<in> set ks. next_level_index va l = j + k)
         then Some None else translate hhdm t1 root va)"
    "\<forall>va lc ec. ends hhdm t1 root va lc ec \<and> \<not> (path va l = is \<and> (\<exists>k \<in> set ks. next_level_index va l = j + k)) \<longrightarrow> ends hhdm t' root va lc ec" by auto
  have "unmap_entries t p j (k # ks) ps = Some (Ok (), t')"
    using e0(1) e(1) t1(1) t'(1) by simp
  moreover have "translate hhdm t' root va = (if path va l = is \<and> (\<exists>k \<in> set (k # ks). next_level_index va l = j + k)
         then Some None else translate hhdm t root va)" for va
    using t'(4) upd(3) [of va] e(4) by auto
  moreover have "ends hhdm t' root va lc ec" if "ends hhdm t root va lc ec" "\<not> (path va l = is \<and> (\<exists>k \<in> set (k # ks). next_level_index va l = j + k))" for va lc ec
  proof -
    have "\<not> (path va l = is \<and> next_level_index va l = j + k)" using that(2) by auto
    from upd(4) [OF this that(1)] t'(5) that(2) show ?thesis by auto
  qed
  ultimately show ?case using t' t1 by auto
qed simp

lemma get_table_loop_spec:
  assumes wf: "pt_wf hhdm t root U" and "b \<le> l" and "l \<le> 3" and "walk hhdm t root (path va l) = Some p"
    and w: "walk hhdm t root (path va b) = Some p'"
  shows "get_table_loop hhdm t p va (rev [Suc b..<Suc l]) = Some (Some p')"
  using assms(2-4)
proof (induction l arbitrary: p)
  case (Suc l)
  show ?case
  proof (cases "b = Suc l")
    case True
    then show ?thesis using Suc.prems w by simp
  next
    case False
    then have b: "b \<le> l" "b < Suc l" using Suc.prems by simp_all
    have levels: "rev [Suc b..<Suc (Suc l)] = Suc l # rev [Suc b..<Suc l]" using b by simp
    from walk_step [OF wf Suc.prems(2,3)] obtain e where e: "tbl_read t p (next_level_index va (Suc l)) = Some e"
      "is_table e \<Longrightarrow> walk hhdm t root (path va l) = Some (entry_addr 12 e + hhdm) \<and> next_level_table hhdm e = Some (entry_addr 12 e + hhdm)"
      by (metis diff_Suc_1)
    have tab: "is_table e"
    proof (rule ccontr)
      assume "\<not> is_table e"
      moreover obtain rest where "path va b = path va (Suc l) @ next_level_index va (Suc l) # rest"
        using path_split [OF b(2) Suc.prems(2)] by blast
      ultimately have "walk hhdm t root (path va b) = None" using Suc.prems(3) e(1) by (simp add: walk_append)
      with w show False by simp
    qed
    then have "get_present (entry_get_flags e)" by (simp add: flag_bits is_table_def)
    then show ?thesis
      unfolding levels using e tab Suc.IH [OF b(1)] Suc.prems(2) by (simp only: get_table_loop.simps Let_def) simp
  qed
qed (use w in simp)

subsection \<open>Properties\<close>

lemma digits_in_run:
  assumes "va < USIZE_LIM" and "va' < USIZE_LIM" and "l \<le> 3" and run: "next_level_index va l + n \<le> ENTRIES_PER_TABLE"
  shows "(path va' l = path va l \<and> (\<exists>k \<in> set [0..<n]. next_level_index va' l = next_level_index va l + k)) \<longleftrightarrow> (\<exists>k < n. vdig va' l = vdig va l + k)"
    and "k < n \<Longrightarrow> vdig va' l = vdig va l + k \<Longrightarrow> next_level_index va' l - next_level_index va l = vdig va' l - vdig va l"
proof -
  have "next_level_index va l + n \<le> 512" using run by (simp add: ENTRIES_PER_TABLE_def)
  note iff = in_run_iff [OF assms(1-3) this]
  show "(path va' l = path va l \<and> (\<exists>k \<in> set [0..<n]. next_level_index va' l = next_level_index va l + k)) \<longleftrightarrow> (\<exists>k < n. vdig va' l = vdig va l + k)"
    using iff [of "\<lambda>_. True"] by auto
  assume "k < n" "vdig va' l = vdig va l + k"
  with iff [of "\<lambda>j. j = k"] show "next_level_index va' l - next_level_index va l = vdig va' l - vdig va l" by auto
qed

lemma run_bound: "pa + n * page_size_size ps \<le> USIZE_LIM \<Longrightarrow> k < n \<Longrightarrow> pa + k * page_size_size ps < USIZE_LIM"
proof -
  assume n: "pa + n * page_size_size ps \<le> USIZE_LIM" and "k < n"
  then have "Suc k * page_size_size ps \<le> n * page_size_size ps" by (intro mult_le_mono1) simp
  then have "page_size_size ps + k * page_size_size ps \<le> n * page_size_size ps" by simp
  then show ?thesis using n page_size_pos [of ps] by linarith
qed

lemma map_pages_grows:
  assumes wf: "pt_wf hhdm t root (U \<union> D)" and pmm: "pmm_free_bytes L M (pg_pmm t) U" and dis: "D \<inter> U = {}"
    and h: "M + hhdm \<le> USIZE_LIM" "0 < hhdm" and l: "l = bottom_paging_level ps"
    and va: "page_size_size ps dvd va" "va < USIZE_LIM" and pa: "page_size_size ps dvd pa" "pa + n * page_size_size ps \<le> USIZE_LIM"
    and run: "next_level_index va l + n \<le> ENTRIES_PER_TABLE" and fl: "flags_ok ps f"
    and clear: "way_clear hhdm t root va l 3" and room: "(3 - l) * BASIC_PAGE_SIZE \<le> card U"
    and absent: "\<forall>k < n. \<forall>p e. walk hhdm t root (path va l) = Some p \<and> tbl_read t p (next_level_index va l + k) = Some e \<longrightarrow> \<not> bit e 0"
  shows "\<exists>t' U' p. map_pages hhdm t root va pa n ps f = Some (Ok (), t') \<and> pt_wf hhdm t' root (U' \<union> D)
    \<and> pmm_free_bytes L M (pg_pmm t') U' \<and> U' \<subseteq> U \<and> card U \<le> card U' + (3 - l) * BASIC_PAGE_SIZE
    \<and> (\<forall>va' < USIZE_LIM. \<forall>lc ec. ends hhdm t root va' lc ec \<and> \<not> (\<exists>k < n. vdig va' l = vdig va l + k) \<longrightarrow> ends hhdm t' root va' lc ec) \<and> walk hhdm t' root (path va l) = Some p
    \<and> (\<forall>k < n. \<exists>e. tbl_read t' p (next_level_index va l + k) = Some e \<and> page_entry ps f (pa + k * page_size_size ps) e)
    \<and> (\<forall>va' < USIZE_LIM. translate hhdm t' root va' =
        (if \<exists>k < n. vdig va' l = vdig va l + k then Some (Some (pa + (vdig va' l - vdig va l) * page_size_size ps))
         else translate hhdm t root va'))
    \<and> (\<exists>N. grown hhdm t t' root N \<and> N \<subseteq> path va ` {l..<3} \<and> card U = card U' + card N * BASIC_PAGE_SIZE)"
proof -
  let ?i = "next_level_index va l"
  have l3: "l \<le> 3" using l by (cases ps) simp_all
  have levels: "[Suc l..<Suc MAX_BOTTOM_PAGING_LEVEL] = [Suc l..<Suc 3]" by (simp add: MAX_BOTTOM_PAGING_LEVEL_def)
  from get_create_loop_created [OF h l3 order_refl wf pmm root_walk clear room dis] obtain p t1 U1 where
    c: "get_create_loop hhdm t root va (rev [Suc l..<Suc 3]) = Some (p, t1)" "created L M hhdm root D va l 3 t U p t1 U1" by blast
  note C = c(2) [unfolded created_def]
  have w1: "pt_wf hhdm t1 root (U1 \<union> D)" "walk hhdm t1 root (path va l) = Some p" using C by simp_all
  have plen: "length (path va l) = 3 - l" by (simp add: path_simps)
  have ents: "\<forall>k \<in> set [0..<n]. \<exists>e. tbl_read t1 p (?i + k) = Some e \<and> \<not> bit e 0"
  proof
    fix k assume "k \<in> set [0..<n]"
    then have k: "k < n" "?i + k < ENTRIES_PER_TABLE" using run by simp_all
    from pt_wfD(5) [OF w1 _ k(2)] plen obtain e where "tbl_read t1 p (?i + k) = Some e" by auto
    moreover then have "\<not> bit e 0" using C k absent by (auto split: if_splits)
    ultimately show "\<exists>e. tbl_read t1 p (?i + k) = Some e \<and> \<not> bit e 0" by blast
  qed
  have bound: "\<forall>k \<in> set [0..<n]. pa + k * page_size_size ps < USIZE_LIM" using run_bound [OF pa(2)] by simp
  from map_entries_ok [OF w1 l plen distinct_upt ents bound pa(1) fl] obtain t' where
    m: "map_entries t1 p ?i [0..<n] pa ps f = Some (Ok (), t')" "pt_wf hhdm t' root (U1 \<union> D)" "pg_pmm t' = pg_pmm t1"
    "\<forall>js. walk hhdm t' root js = walk hhdm t1 root js"
    "\<forall>k \<in> set [0..<n]. \<exists>e. tbl_read t' p (?i + k) = Some e \<and> page_entry ps f (pa + k * page_size_size ps) e"
    "\<forall>va'. translate hhdm t' root va' = (if path va' l = path va l \<and> (\<exists>k \<in> set [0..<n]. next_level_index va' l = ?i + k)
         then Some (Some (pa + (next_level_index va' l - ?i) * page_size_size ps)) else translate hhdm t1 root va')"
    "\<forall>va' lc ec. ends hhdm t1 root va' lc ec \<and> \<not> (path va' l = path va l \<and> (\<exists>k \<in> set [0..<n]. next_level_index va' l = ?i + k)) \<longrightarrow> ends hhdm t' root va' lc ec"
    by blast
  have u: "uadd ?i n = Some (?i + n)" using run by (simp add: ENTRIES_PER_TABLE_def USIZE_LIM_def)
  have g: "get_create_table_range hhdm t root va ps = Some (p, t1)"
    using va(1) c(1) unfolding get_create_table_range_def levels l [symmetric] by (simp del: upt_Suc)
  have mp: "map_pages hhdm t root va pa n ps f = Some (Ok (), t')"
    using va(1) pa(1) run m(1) by (simp add: map_pages_def g u l [symmetric] Let_def)
  have tr: "translate hhdm t' root va' = (if \<exists>k < n. vdig va' l = vdig va l + k
      then Some (Some (pa + (vdig va' l - vdig va l) * page_size_size ps)) else translate hhdm t root va')" if "va' < USIZE_LIM" for va'
    using m(6) C digits_in_run [OF va(2) that l3 run] by auto
  have en: "ends hhdm t' root va' lc ec" if "va' < USIZE_LIM" "ends hhdm t root va' lc ec" "\<not> (\<exists>k < n. vdig va' l = vdig va l + k)" for va' lc ec
    using m(7) C that digits_in_run(1) [OF va(2) that(1) l3 run] by blast
  have gr: "\<exists>N. grown hhdm t t' root N \<and> N \<subseteq> path va ` {l..<3} \<and> card U = card U1 + card N * BASIC_PAGE_SIZE"
    using C m(4) unfolding grown_def by simp
  show ?thesis
    using mp m(2-5) C tr en gr by (intro exI [of _ t'] exI [of _ U1] exI [of _ p]) auto
qed

text \<open>The same without the account of the new tables.\<close>

lemma map_pages_ok:
  assumes wf: "pt_wf hhdm t root (U \<union> D)" and pmm: "pmm_free_bytes L M (pg_pmm t) U" and dis: "D \<inter> U = {}"
    and h: "M + hhdm \<le> USIZE_LIM" "0 < hhdm" and l: "l = bottom_paging_level ps"
    and va: "page_size_size ps dvd va" "va < USIZE_LIM" and pa: "page_size_size ps dvd pa" "pa + n * page_size_size ps \<le> USIZE_LIM"
    and run: "next_level_index va l + n \<le> ENTRIES_PER_TABLE" and fl: "flags_ok ps f"
    and clear: "way_clear hhdm t root va l 3" and room: "(3 - l) * BASIC_PAGE_SIZE \<le> card U"
    and absent: "\<forall>k < n. \<forall>p e. walk hhdm t root (path va l) = Some p \<and> tbl_read t p (next_level_index va l + k) = Some e \<longrightarrow> \<not> bit e 0"
  shows "\<exists>t' U' p. map_pages hhdm t root va pa n ps f = Some (Ok (), t') \<and> pt_wf hhdm t' root (U' \<union> D)
    \<and> pmm_free_bytes L M (pg_pmm t') U' \<and> U' \<subseteq> U \<and> card U \<le> card U' + (3 - l) * BASIC_PAGE_SIZE
    \<and> (\<forall>va' < USIZE_LIM. \<forall>lc ec. ends hhdm t root va' lc ec \<and> \<not> (\<exists>k < n. vdig va' l = vdig va l + k) \<longrightarrow> ends hhdm t' root va' lc ec) \<and> walk hhdm t' root (path va l) = Some p
    \<and> (\<forall>k < n. \<exists>e. tbl_read t' p (next_level_index va l + k) = Some e \<and> page_entry ps f (pa + k * page_size_size ps) e)
    \<and> (\<forall>va' < USIZE_LIM. translate hhdm t' root va' =
        (if \<exists>k < n. vdig va' l = vdig va l + k then Some (Some (pa + (vdig va' l - vdig va l) * page_size_size ps))
         else translate hhdm t root va'))"
  using map_pages_grows [OF wf pmm dis h l va pa run fl clear room absent] by blast

lemma unmap_pages_ok:
  assumes wf: "pt_wf hhdm t root U" and l: "l = bottom_paging_level ps"
    and va: "page_size_size ps dvd va" "va < USIZE_LIM" and run: "next_level_index va l + n \<le> ENTRIES_PER_TABLE"
    and w: "walk hhdm t root (path va l) = Some p"
    and ents: "\<forall>k < n. \<exists>e. tbl_read t p (next_level_index va l + k) = Some e \<and> bit e 0 \<and> bit e 10 \<and> \<not> bit e 9"
  shows "\<exists>t'. unmap_pages hhdm t root va n ps = Some (Ok (), t') \<and> pt_wf hhdm t' root U \<and> pg_pmm t' = pg_pmm t
    \<and> (\<forall>va' < USIZE_LIM. translate hhdm t' root va' =
        (if \<exists>k < n. vdig va' l = vdig va l + k then Some None else translate hhdm t root va'))
    \<and> (\<forall>va' < USIZE_LIM. \<forall>lc ec. ends hhdm t root va' lc ec \<and> \<not> (\<exists>k < n. vdig va' l = vdig va l + k) \<longrightarrow> ends hhdm t' root va' lc ec)"
proof -
  let ?i = "next_level_index va l"
  have l3: "l \<le> 3" using l by (cases ps) simp_all
  have levels: "[Suc l..<Suc MAX_BOTTOM_PAGING_LEVEL] = [Suc l..<Suc 3]" by (simp add: MAX_BOTTOM_PAGING_LEVEL_def)
  have plen: "length (path va l) = 3 - l" by (simp add: path_simps)
  have "\<forall>k \<in> set [0..<n]. \<exists>e. tbl_read t p (?i + k) = Some e \<and> bit e 0 \<and> bit e 10 \<and> \<not> bit e 9" using ents by simp
  from unmap_entries_ok [OF wf w l3 plen distinct_upt this] obtain t' where
    m: "unmap_entries t p ?i [0..<n] ps = Some (Ok (), t')" "pt_wf hhdm t' root U" "pg_pmm t' = pg_pmm t"
    "\<forall>va'. translate hhdm t' root va' = (if path va' l = path va l \<and> (\<exists>k \<in> set [0..<n]. next_level_index va' l = ?i + k)
         then Some None else translate hhdm t root va')"
    "\<forall>va' lc ec. ends hhdm t root va' lc ec \<and> \<not> (path va' l = path va l \<and> (\<exists>k \<in> set [0..<n]. next_level_index va' l = ?i + k)) \<longrightarrow> ends hhdm t' root va' lc ec"
    by blast
  have "get_table_loop hhdm t root va (rev [Suc l..<Suc 3]) = Some (Some p)"
    by (rule get_table_loop_spec [OF wf l3 order_refl root_walk w])
  then have g: "get_table_range hhdm t root va ps = Some (Some p)"
    using va(1) unfolding get_table_range_def levels l [symmetric] by (simp del: upt_Suc)
  have u: "uadd ?i n = Some (?i + n)" using run by (simp add: ENTRIES_PER_TABLE_def USIZE_LIM_def)
  have um: "unmap_pages hhdm t root va n ps = Some (Ok (), t')"
    using va(1) run m(1) by (simp add: unmap_pages_def g u l [symmetric] Let_def)
  have iff: "(path va' l = path va l \<and> (\<exists>k \<in> set [0..<n]. next_level_index va' l = ?i + k)) \<longleftrightarrow> (\<exists>k < n. vdig va' l = vdig va l + k)"
    if "va' < USIZE_LIM" for va'
  proof -
    have run': "?i + n \<le> 512" using run by (simp add: ENTRIES_PER_TABLE_def)
    show ?thesis using in_run_iff [OF va(2) that l3 run', of "\<lambda>_. True"] by auto
  qed
  have "translate hhdm t' root va' = (if \<exists>k < n. vdig va' l = vdig va l + k then Some None else translate hhdm t root va')"
    if "va' < USIZE_LIM" for va' using m(4) iff [OF that] by simp
  moreover have "ends hhdm t' root va' lc ec"
    if "va' < USIZE_LIM" "ends hhdm t root va' lc ec" "\<not> (\<exists>k < n. vdig va' l = vdig va l + k)" for va' lc ec
    using m(5) iff [OF that(1)] that(2,3) by blast
  ultimately show ?thesis using um m(2,3) by blast
qed

text \<open>C5: Mapping a run of pages inside one table, with a free way down, never panics and succeeds:
  it takes page frames only for missing tables, keeps the tree of tables well formed (so that
  the processor's reading of every entry agrees with the code's), makes exactly the pages of the
  run translate to the consecutive frames given, and changes the translation of no other
  address.  Unmapping the run afterwards makes exactly its pages untranslated again and takes
  or gives no frames.\<close>
theorem page_table_map_unmap:
  assumes "pt_wf hhdm t root (U \<union> D)" and "pmm_free_bytes L M (pg_pmm t) U" and "D \<inter> U = {}"
    and "M + hhdm \<le> USIZE_LIM" and "0 < hhdm" and "l = bottom_paging_level ps"
    and "page_size_size ps dvd va" and "va < USIZE_LIM" and "page_size_size ps dvd pa" and "pa + n * page_size_size ps \<le> USIZE_LIM"
    and "next_level_index va l + n \<le> ENTRIES_PER_TABLE" and "flags_ok ps f" and "\<not> get_allocated f"
    and "way_clear hhdm t root va l 3" and "(3 - l) * BASIC_PAGE_SIZE \<le> card U"
    and "\<forall>k < n. \<forall>p e. walk hhdm t root (path va l) = Some p \<and> tbl_read t p (next_level_index va l + k) = Some e \<longrightarrow> \<not> bit e 0"
  shows "\<exists>t1 t2 U1. map_pages hhdm t root va pa n ps f = Some (Ok (), t1) \<and> pt_wf hhdm t1 root (U1 \<union> D)
    \<and> pmm_free_bytes L M (pg_pmm t1) U1 \<and> U1 \<subseteq> U
    \<and> (\<forall>va' < USIZE_LIM. translate hhdm t1 root va' =
        (if \<exists>k < n. vdig va' l = vdig va l + k then Some (Some (pa + (vdig va' l - vdig va l) * page_size_size ps))
         else translate hhdm t root va'))
    \<and> unmap_pages hhdm t1 root va n ps = Some (Ok (), t2) \<and> pt_wf hhdm t2 root (U1 \<union> D) \<and> pg_pmm t2 = pg_pmm t1
    \<and> (\<forall>va' < USIZE_LIM. translate hhdm t2 root va' =
        (if \<exists>k < n. vdig va' l = vdig va l + k then Some None else translate hhdm t root va'))"
proof -
  from map_pages_ok [OF assms(1-12,14-)] obtain t1 U1 p where m: "map_pages hhdm t root va pa n ps f = Some (Ok (), t1)"
    "pt_wf hhdm t1 root (U1 \<union> D)" "pmm_free_bytes L M (pg_pmm t1) U1" "U1 \<subseteq> U" "walk hhdm t1 root (path va l) = Some p"
    "\<forall>k < n. \<exists>e. tbl_read t1 p (next_level_index va l + k) = Some e \<and> page_entry ps f (pa + k * page_size_size ps) e"
    "\<forall>va' < USIZE_LIM. translate hhdm t1 root va' =
        (if \<exists>k < n. vdig va' l = vdig va l + k then Some (Some (pa + (vdig va' l - vdig va l) * page_size_size ps))
         else translate hhdm t root va')" by blast
  have "\<not> bit f 9" using assms(13) by (simp add: flag_bits)
  then have "\<forall>k < n. \<exists>e. tbl_read t1 p (next_level_index va l + k) = Some e \<and> bit e 0 \<and> bit e 10 \<and> \<not> bit e 9"
    using m(6) by (fastforce simp: page_entry_def)
  from unmap_pages_ok [OF m(2) assms(6,7,8,11) m(5) this] obtain t2 where u: "unmap_pages hhdm t1 root va n ps = Some (Ok (), t2)"
    "pt_wf hhdm t2 root (U1 \<union> D)" "pg_pmm t2 = pg_pmm t1"
    "\<forall>va' < USIZE_LIM. translate hhdm t2 root va' = (if \<exists>k < n. vdig va' l = vdig va l + k then Some None else translate hhdm t1 root va')"
    by blast
  have "\<forall>va' < USIZE_LIM. translate hhdm t2 root va' = (if \<exists>k < n. vdig va' l = vdig va l + k then Some None else translate hhdm t root va')"
    using m(7) u(4) by auto
  then show ?thesis using m(1-4,7) u(1-3) by blast
qed

text \<open>A fresh top-level table.\<close>

lemma fresh_root_walk:
  assumes "pg_tables t root = Some (replicate ENTRIES_PER_TABLE 0)"
  shows "walk hhdm t root is = (if is = [] then Some root else None)"
    and "tbl_read t root i = (if i < ENTRIES_PER_TABLE then Some 0 else None)"
proof -
  show r: "tbl_read t root i = (if i < ENTRIES_PER_TABLE then Some 0 else None)" for i
    using assms by (simp add: tbl_read_def idx_def)
  show "walk hhdm t root is = (if is = [] then Some root else None)" by (cases "is") (simp_all add: r is_table_def)
qed

lemma fresh_root_wf:
  assumes tab: "pg_tables t root = Some (replicate ENTRIES_PER_TABLE 0)"
    and root: "root < USIZE_LIM" "0 < root" "hhdm \<le> root" "page (root - hhdm) \<inter> U = {}"
  shows "pt_wf hhdm t root U" and "way_clear hhdm t root va b l" and "translate hhdm t root va = Some None"
proof -
  note w = fresh_root_walk [OF tab]
  show wf: "pt_wf hhdm t root U"
    unfolding pt_wf_iff using root tab by (auto simp: w has_table_def entry_wf_def split: if_splits)
  show "way_clear hhdm t root va b l" by (auto simp: way_clear_def w split: if_splits)
  have "leaf hhdm t root va 3 0"
    using next_level_index_lt by (simp add: leaf_def w path_simps is_table_def)
  from translate_leaf [OF wf this] show "translate hhdm t root va = Some None" by simp
qed

theorem page_table_map_unmap_witness:
  "\<exists>t t1 t2. map_pages 0x100000 t 0x108000 0x5000 0x7000 2 Size4KB (set_read_write flags_new True) = Some (Ok (), t1)
    \<and> translate 0x100000 t 0x108000 0x6000 = Some None
    \<and> translate 0x100000 t1 0x108000 0x6000 = Some (Some 0x8000)
    \<and> unmap_pages 0x100000 t1 0x108000 0x5000 2 Size4KB = Some (Ok (), t2)
    \<and> translate 0x100000 t2 0x108000 0x6000 = Some None"
proof -
  obtain h b F where ok: "pmm_ok 3 0x4000 h b F" and F: "bytes F = blk 2 0" using pmm_demo by blast
  define t where "t = \<lparr> pg_tables = [0x108000 \<mapsto> replicate ENTRIES_PER_TABLE 0], pg_pmm = (h, b) \<rparr>"
  have pm: "pmm_free_bytes 3 0x4000 (pg_pmm t) (blk 2 0)"
    using ok F by (auto simp: t_def pmm_free_bytes_def)
  have blk: "blk 2 0 = {..<0x4000}" by (auto simp: blk_def bsz_def BASIC_PAGE_SIZE_def)
  have tab: "pg_tables t 0x108000 = Some (replicate ENTRIES_PER_TABLE 0)" by (simp add: t_def)
  have "page (0x108000 - 0x100000) \<inter> blk 2 0 = {}" by (auto simp: blk page_def BASIC_PAGE_SIZE_def)
  note fr = fresh_root_wf [OF tab _ _ _ this] fresh_root_walk [OF tab, of "0x100000"]
  have idx: "next_level_index 0x5000 0 = 5" "vdig 0x5000 0 = 5" "vdig 0x6000 0 = 6"
    by (simp_all add: next_level_index_vdig USIZE_LIM_def vdig_def)
  have fl: "flags_ok Size4KB (set_read_write flags_new True)" "\<not> get_allocated (set_read_write flags_new True)"
    by (auto simp: flags_ok_def flag_bits flags_new_def FLAGS_NONE_def)
  have side: "(0x4000 :: nat) + 0x100000 \<le> USIZE_LIM" "(0 :: nat) < 0x100000" "0 = bottom_paging_level Size4KB"
    "page_size_size Size4KB dvd 0x5000" "(0x5000 :: nat) < USIZE_LIM" "page_size_size Size4KB dvd 0x7000"
    "0x7000 + 2 * page_size_size Size4KB \<le> USIZE_LIM" "next_level_index 0x5000 0 + 2 \<le> ENTRIES_PER_TABLE"
    by (simp_all add: USIZE_LIM_def ENTRIES_PER_TABLE_def idx)
  have wf: "pt_wf 0x100000 t 0x108000 (blk 2 0)" "way_clear 0x100000 t 0x108000 0x5000 0 3"
    by (rule fr(1); simp add: USIZE_LIM_def) (rule fr(2); simp add: USIZE_LIM_def)
  have room: "(3 - 0) * BASIC_PAGE_SIZE \<le> card (blk 2 0)" by (simp add: blk BASIC_PAGE_SIZE_def)
  have abs: "\<forall>k < 2. \<forall>p e. walk 0x100000 t 0x108000 (path 0x5000 0) = Some p \<and> tbl_read t p (next_level_index 0x5000 0 + k) = Some e \<longrightarrow> \<not> bit e 0"
  proof -
    have "length (path 0x5000 0) = 3" by (simp add: path_simps)
    then have "path 0x5000 0 \<noteq> []" by auto
    then show ?thesis by (simp add: fr(4))
  qed
  obtain t1 t2 U1 where mp: "map_pages 0x100000 t 0x108000 0x5000 0x7000 2 Size4KB (set_read_write flags_new True) = Some (Ok (), t1)"
    and tr1: "\<forall>va' < USIZE_LIM. translate 0x100000 t1 0x108000 va' = (if \<exists>k < 2. vdig va' 0 = vdig 0x5000 0 + k
         then Some (Some (0x7000 + (vdig va' 0 - vdig 0x5000 0) * page_size_size Size4KB)) else translate 0x100000 t 0x108000 va')"
    and um: "unmap_pages 0x100000 t1 0x108000 0x5000 2 Size4KB = Some (Ok (), t2)"
    and tr2: "\<forall>va' < USIZE_LIM. translate 0x100000 t2 0x108000 va' = (if \<exists>k < 2. vdig va' 0 = vdig 0x5000 0 + k then Some None else translate 0x100000 t 0x108000 va')"
    using page_table_map_unmap [where D = "{}", simplified, OF wf(1) pm side fl wf(2) room abs] by blast
  have six: "(0x6000::nat) < USIZE_LIM" "\<exists>k < 2. vdig 0x6000 0 = vdig 0x5000 0 + k"
    by (simp add: USIZE_LIM_def, intro exI [of _ "1::nat"], simp add: idx)
  have "translate 0x100000 t 0x108000 0x6000 = Some None" using fr(3) by (simp add: USIZE_LIM_def)
  moreover have "translate 0x100000 t1 0x108000 0x6000 = Some (Some 0x8000)"
    using tr1 [rule_format, OF six(1), unfolded if_P [OF six(2)]] by (simp add: idx)
  moreover have "translate 0x100000 t2 0x108000 0x6000 = Some None"
    using tr2 [rule_format, OF six(1), unfolded if_P [OF six(2)]] .
  ultimately show ?thesis using mp um by blast
qed

subsection \<open>Limits of the flag layout\<close>

text \<open>The flags \<open>map_in_entry\<close> carries from page to page for a write-combining region.\<close>

definition wc_flags :: "PageSize list \<Rightarrow> Flags" where
  "wc_flags pss = fold (\<lambda>ps f. set_pat f WriteCombining ps) pss (set_read_write flags_new True)"

lemma wc_flags_bits:
  "bit (wc_flags [Size2MB]) k \<longleftrightarrow> k = 1 \<or> k = 12"
  "bit (wc_flags [Size4KB, Size2MB]) k \<longleftrightarrow> k = 1 \<or> k = 7 \<or> k = 12"
  "bit (wc_flags [Size2MB, Size4KB]) k \<longleftrightarrow> k = 1 \<or> k = 7 \<or> k = 12"
  by (simp_all add: wc_flags_def set_pat_bits flag_bits flags_new_def FLAGS_NONE_def bit_numeral_rec bit_Suc_0_iff)

lemma bit_4096: "bit (4096 :: nat) n \<longleftrightarrow> n = 12" "bit (4096 :: int) n \<longleftrightarrow> n = 12"
proof -
  have "(4096 :: nat) = 2 ^ 12" "(4096 :: int) = 2 ^ 12" by simp_all
  then show "bit (4096 :: nat) n \<longleftrightarrow> n = 12" "bit (4096 :: int) n \<longleftrightarrow> n = 12" by (simp_all only: bit_exp_iff) auto
qed

text \<open>The PAT flag of large pages lies inside the bits that the code treats as address.  A
  write-combining 2 MB page can be mapped but reading its address back panics; and since
  \<open>map_in_entry\<close> keeps the flags of the previous page, a region that goes from 4 KB to 2 MB pages
  fails with invalid flags, and in a region that goes from 2 MB to 4 KB pages an even frame is
  mapped to the next one.\<close>
theorem large_page_pat:
  assumes "page_size_size Size2MB dvd pa" and "page_size_size Size4KB dvd qa" and "\<not> bit qa 12"
    and "pa < USIZE_LIM" and "qa < USIZE_LIM"
  shows "(\<exists>e. entry_map 0 pa (wc_flags [Size2MB]) Size2MB = Some (Ok (), e) \<and> entry_get_addr e Size2MB = None)
    \<and> (\<exists>e. entry_map 0 pa (wc_flags [Size4KB, Size2MB]) Size2MB = Some (Err InvalidFlags, e))
    \<and> (\<exists>e. entry_map 0 qa (wc_flags [Size2MB, Size4KB]) Size4KB = Some (Ok (), e) \<and> entry_get_addr e Size4KB = Some (qa + 4096))"
proof (intro conjI)
  let ?g = "\<lambda>f ps. set_last_entry (set_present f True) True OR flags_of_page_size ps"
  have np: "\<not> get_present (entry_get_flags 0)" by (simp add: flag_bits)
  have j1: "flags_join (set_last_entry (set_present (wc_flags [Size2MB]) True) True) (flags_of_page_size Size2MB)
      = Some (?g (wc_flags [Size2MB]) Size2MB)"
    by (auto simp: flags_join_bits flag_bits wc_flags_bits)
  have "bit (entry_set_flags ((0 AND mask (offset_bit_count Size2MB)) OR of_nat pa) (?g (wc_flags [Size2MB]) Size2MB)) 12"
    by (simp add: flag_bits bit_simps wc_flags_bits)
  then have "entry_get_addr (entry_set_flags ((0 AND mask (offset_bit_count Size2MB)) OR of_nat pa) (?g (wc_flags [Size2MB]) Size2MB)) Size2MB = None"
    unfolding entry_get_addr_eq by (intro if_P exI [of _ 12]) simp
  with j1 np show "\<exists>e. entry_map 0 pa (wc_flags [Size2MB]) Size2MB = Some (Ok (), e) \<and> entry_get_addr e Size2MB = None"
    by (simp add: entry_map_def entry_set_addr_Some [OF assms(1)])
  have "flags_join (set_last_entry (set_present (wc_flags [Size4KB, Size2MB]) True) True) (flags_of_page_size Size2MB) = None"
    by (auto simp: flags_join_bits flag_bits wc_flags_bits)
  with np show "\<exists>e. entry_map 0 pa (wc_flags [Size4KB, Size2MB]) Size2MB = Some (Err InvalidFlags, e)"
    by (simp add: entry_map_def entry_set_addr_Some [OF assms(1)])
  have j3: "flags_join (set_last_entry (set_present (wc_flags [Size2MB, Size4KB]) True) True) (flags_of_page_size Size4KB)
      = Some (?g (wc_flags [Size2MB, Size4KB]) Size4KB)"
    by (auto simp: flags_join_bits flag_bits)
  define e where "e = entry_set_flags ((0 AND mask 12) OR of_nat qa) (?g (wc_flags [Size2MB, Size4KB]) Size4KB)"
  have or: "qa + 4096 = qa OR push_bit 12 1"
    using disjunctive_add_eq_or [of qa "push_bit 12 1"] assms(3) [unfolded bit_iff_and_push_bit_not_eq_0] by simp
  have "qa + 4096 < USIZE_LIM"
  proof -
    have "take_bit 64 (qa OR push_bit 12 1) = qa OR push_bit 12 1"
      using assms(5) by (simp add: take_bit_or USIZE_LIM_def take_bit_nat_eq_self)
    then show ?thesis unfolding or USIZE_LIM_def by (metis take_bit_nat_less_exp)
  qed
  moreover have "2 ^ 12 dvd qa + 4096" using assms(2) by (simp add: dvd_add)
  moreover have "bit e n \<longleftrightarrow> bit (of_nat (qa + 4096) :: u64) n" if "12 \<le> n" for n
    unfolding or using that by (auto simp: e_def flag_bits bit_simps wc_flags_bits bit_4096)
  ultimately have "entry_addr 12 e = qa + 4096" by (intro entry_addr_bits)
  then have "entry_get_addr e Size4KB = Some (qa + 4096)" by (simp add: entry_get_addr_eq)
  with j3 np show "\<exists>e. entry_map 0 qa (wc_flags [Size2MB, Size4KB]) Size4KB = Some (Ok (), e) \<and> entry_get_addr e Size4KB = Some (qa + 4096)"
    by (simp add: entry_map_def entry_set_addr_Some [OF assms(2)] e_def)
qed

theorem large_page_pat_witness:
  "\<exists>e. entry_map 0 0x200000 (wc_flags [Size2MB]) Size2MB = Some (Ok (), e) \<and> entry_get_addr e Size2MB = None"
proof -
  have "\<not> bit (0x400000 :: nat) 12" by (simp add: bit_numeral_rec)
  from large_page_pat [OF _ _ this, of "0x200000"] show ?thesis by (simp add: USIZE_LIM_def)
qed

subsection \<open>Remains of large pages\<close>

text \<open>Both loops follow the tables of the tree down to a level.\<close>

lemma walk_up:
  assumes wf: "pt_wf hhdm t root U" and l: "l < 3" and w: "walk hhdm t root (path va l) = Some p"
  obtains q e where "walk hhdm t root (path va (Suc l)) = Some q" and "tbl_read t q (next_level_index va (Suc l)) = Some e"
    and "is_table e" and "next_level_table hhdm e = Some p"
proof -
  have "path va l = path va (Suc l) @ [next_level_index va (Suc l)]" using path_simps(2) l by simp
  with w obtain q e where q: "walk hhdm t root (path va (Suc l)) = Some q" "tbl_read t q (next_level_index va (Suc l)) = Some e"
    "is_table e" "p = entry_addr 12 e + hhdm" by (metis walk_snoc)
  have "Suc l \<le> 3" using l by simp
  from walk_step [OF wf this q(1)] q have "next_level_table hhdm e = Some p" by (metis option.inject)
  with q show ?thesis using that by blast
qed

lemma get_entry_follow:
  assumes wf: "pt_wf hhdm t root U" and "l \<le> 3" and "walk hhdm t root (path va l) = Some p"
    and "\<forall>k q. l < k \<and> k \<le> 3 \<and> walk hhdm t root (path va k) = Some q \<longrightarrow> tbl_read t' q (next_level_index va k) = tbl_read t q (next_level_index va k)"
  shows "get_entry_loop hhdm t' root va (rev [0..<Suc 3]) = get_entry_loop hhdm t' p va (rev [0..<Suc l])"
  using assms(2-)
proof (induction "3 - l" arbitrary: l p)
  case 0
  then show ?case by (simp add: path_simps)
next
  case (Suc d)
  then have l: "l < 3" "d = 3 - Suc l" "Suc l \<le> 3" by simp_all
  from walk_up [OF wf l(1) Suc.prems(2)] obtain q e where q: "walk hhdm t root (path va (Suc l)) = Some q"
    "tbl_read t q (next_level_index va (Suc l)) = Some e" "is_table e" "next_level_table hhdm e = Some p" by blast
  have r: "rev [0..<Suc (Suc l)] = Suc l # rev [0..<Suc l]" by simp
  have "tbl_read t' q (next_level_index va (Suc l)) = Some e" using Suc.prems(3) q l(3) by simp
  moreover have "\<not> get_last_entry (entry_get_flags e)" "get_present (entry_get_flags e)" using q(3) by (auto simp: flag_bits is_table_def)
  ultimately have "get_entry_loop hhdm t' q va (rev [0..<Suc (Suc l)]) = get_entry_loop hhdm t' p va (rev [0..<Suc l])"
    unfolding r using q(4) by (simp only: get_entry_loop.simps Let_def) simp
  moreover have "get_entry_loop hhdm t' root va (rev [0..<Suc 3]) = get_entry_loop hhdm t' q va (rev [0..<Suc (Suc l)])"
    by (rule Suc.hyps(1) [OF l(2,3) q(1)]) (use Suc.prems(3) in auto)
  ultimately show ?case by simp
qed

lemma get_create_follow:
  assumes wf: "pt_wf hhdm t root U" and "l \<le> 3" and "b \<le> l" and "walk hhdm t root (path va l) = Some p"
  shows "get_create_loop hhdm t root va (rev [Suc b..<Suc 3]) = get_create_loop hhdm t p va (rev [Suc b..<Suc l])"
  using assms(2-)
proof (induction "3 - l" arbitrary: l p)
  case 0
  then show ?case by (simp add: path_simps)
next
  case (Suc d)
  then have l: "l < 3" "d = 3 - Suc l" "Suc l \<le> 3" "b \<le> Suc l" by simp_all
  from walk_up [OF wf l(1) Suc.prems(3)] obtain q e where q: "walk hhdm t root (path va (Suc l)) = Some q"
    "tbl_read t q (next_level_index va (Suc l)) = Some e" "is_table e" "next_level_table hhdm e = Some p" by blast
  have r: "rev [Suc b..<Suc (Suc l)] = Suc l # rev [Suc b..<Suc l]" using Suc.prems(2) by simp
  have "get_present (entry_get_flags e)" using q(3) by (auto simp: flag_bits is_table_def)
  then have "get_create_loop hhdm t q va (rev [Suc b..<Suc (Suc l)]) = get_create_loop hhdm t p va (rev [Suc b..<Suc l])"
    unfolding r using q(2,4) by (simp only: get_create_loop.simps Let_def) simp
  moreover have "get_create_loop hhdm t root va (rev [Suc b..<Suc 3]) = get_create_loop hhdm t q va (rev [Suc b..<Suc (Suc l)])"
    by (rule Suc.hyps(1) [OF l(2-4) q(1)])
  ultimately show ?case by simp
qed

lemma remap_create:
  assumes wf: "pt_wf hhdm t root U" and pmm: "pmm_free_bytes L M (pg_pmm t) U" and "U \<noteq> {}"
    and h: "M + hhdm \<le> USIZE_LIM" "0 < hhdm" and w: "walk hhdm t root (path va 1) = Some p"
    and e: "tbl_read t p (next_level_index va 1) = Some e" "bit e 10" "\<not> bit e 0"
  obtains t' pa e' where "get_create_loop hhdm t root va (rev [Suc 0..<Suc 3]) = Some (pa + hhdm, t')"
    and "page pa \<subseteq> U" and "bit e' 0" and "bit e' 10" and "entry_addr 12 e' = pa"
    and "\<And>q k. tbl_read t' q k = (if q = pa + hhdm then if k < ENTRIES_PER_TABLE then Some 0 else None
        else if q = p \<and> k = next_level_index va 1 then Some e' else tbl_read t q k)"
proof -
  let ?i = "next_level_index va 1"
  define e1 where "e1 = entry_set_flags e (set_read_write (set_present (entry_get_flags e) True) True)"
  from tbl_write_Some [OF e(1), of e1] obtain t1 where t1: "tbl_write t p ?i e1 = Some t1" "pg_pmm t1 = pg_pmm t"
    "\<And>q k. tbl_read t1 q k = (if q = p \<and> k = ?i then Some e1 else tbl_read t q k)"
    "\<And>q. map_option length (pg_tables t1 q) = map_option length (pg_tables t q)" by blast
  have pmm1: "pmm_free_bytes L M (pg_pmm t1) U" using pmm t1(2) by simp
  from page_table_new_ok [OF pmm1 \<open>U \<noteq> {}\<close> h] obtain pa t2 where
    t2: "page_table_new hhdm t1 = Some ((pa + hhdm, pa), t2)" "BASIC_PAGE_SIZE dvd pa" "page pa \<subseteq> U" "pa + hhdm < USIZE_LIM"
    "\<And>q k. tbl_read t2 q k = (if q = pa + hhdm then if k < ENTRIES_PER_TABLE then Some 0 else None else tbl_read t1 q k)" by metis
  have "length (path va 1) \<le> 3" by (simp add: path_simps)
  from pt_wfD(4) [OF wf w this] have pne: "p \<noteq> pa + hhdm" using t2(3) page_self [of pa] by force
  then have r2: "tbl_read t2 p ?i = Some e1" by (simp add: t2(5) t1(3))
  define e2 where "e2 = (e1 AND mask 12) OR of_nat pa"
  have sa: "entry_set_addr e1 pa Size4KB = Some e2"
    using entry_set_addr_Some [of Size4KB pa e1] t2(2) by (simp add: BASIC_PAGE_SIZE_def e2_def)
  from tbl_write_Some [OF r2, of e2] obtain t3 where t3: "tbl_write t2 p ?i e2 = Some t3"
    "\<And>q k. tbl_read t3 q k = (if q = p \<and> k = ?i then Some e2 else tbl_read t2 q k)" by metis
  have al: "2 ^ 12 dvd pa" using t2(2) by (simp add: BASIC_PAGE_SIZE_def)
  have addr: "entry_addr 12 e2 = pa"
    using t2(4) al by (intro entry_addr_bits) (auto simp: e2_def bit_simps)
  have e2b: "bit e2 0" "bit e2 10" using e(2) by (simp_all add: e2_def e1_def bit_simps flag_bits)
  have np: "\<not> get_present (entry_get_flags e)" using e(3) by (simp add: flag_bits)
  have nx: "next_level_table hhdm e2 = Some (pa + hhdm)" using t2(4) h(2) by (simp add: next_level_table_eq addr)
  have "get_create_loop hhdm t root va (rev [Suc 0..<Suc 3]) = get_create_loop hhdm t p va (rev [Suc 0..<Suc 1])"
    by (rule get_create_follow [OF wf _ _ w]) simp_all
  also have "\<dots> = Some (pa + hhdm, t3)"
    using e(1) np t1(1) t2(1) r2 sa t3 nx pne by (simp add: e1_def Let_def)
  finally have "get_create_loop hhdm t root va (rev [Suc 0..<Suc 3]) = Some (pa + hhdm, t3)" .
  moreover have "tbl_read t3 q k = (if q = pa + hhdm then if k < ENTRIES_PER_TABLE then Some 0 else None
        else if q = p \<and> k = ?i then Some e2 else tbl_read t q k)" for q k
    using pne by (simp add: t3(2) t2(5) t1(3))
  ultimately show ?thesis using that t2(3) e2b addr by blast
qed

lemma entry_addr_2mb:
  assumes "entry_get_addr e Size2MB = Some a"
  shows "a = entry_addr 12 e"
proof -
  have mid: "\<And>k. 12 \<le> k \<Longrightarrow> k < 21 \<Longrightarrow> \<not> bit e k" and a: "a = entry_addr 21 e"
    using assms by (auto simp: entry_get_addr_eq split: if_splits)
  have "e AND NOT (mask 21) = e AND NOT (mask 12)"
  proof (rule bit_eqI)
    fix n
    show "bit (e AND NOT (mask 21)) n = bit (e AND NOT (mask 12)) n"
      using mid [of n] by (cases "n < 21"; cases "12 \<le> n") (auto simp: bit_simps)
  qed
  then show ?thesis by (simp add: a entry_addr_def)
qed

text \<open>Unmapping a 2 MB page leaves its last-entry and page-size marks behind, and a later
  mapping of a 4 KB page at the same address reuses the entry for a table without clearing them:
  the mapping reports success, but the address does not translate to the frame (the walk stops
  at the reused entry, and reading it panics or yields the new table).\<close>
theorem remap_after_large_page:
  assumes "pt_wf hhdm t root U" and "pmm_free_bytes L M (pg_pmm t) U" and "U \<noteq> {}"
    and "M + hhdm \<le> USIZE_LIM" and "0 < hhdm" and "page_size_size Size4KB dvd va" and "page_size_size Size4KB dvd pa"
    and "pa < USIZE_LIM" and "flags_ok Size4KB f"
    and "leaf hhdm t root va 1 e" and "bit e 10" and "\<not> bit e 0" and "pa \<notin> U"
  shows "\<exists>t'. map_pages hhdm t root va pa 1 Size4KB f = Some (Ok (), t') \<and> translate hhdm t' root va \<noteq> Some (Some pa)"
proof -
  let ?i = "next_level_index va 1" and ?j = "next_level_index va 0"
  from assms(10) obtain p where w: "walk hhdm t root (path va 1) = Some p" and e: "tbl_read t p ?i = Some e"
    by (auto simp: leaf_def)
  obtain t1 n e' where c: "get_create_loop hhdm t root va (rev [Suc 0..<Suc 3]) = Some (n + hhdm, t1)"
    and n: "page n \<subseteq> U" and e': "bit e' 0" "bit e' 10" "entry_addr 12 e' = n"
    and rd: "\<And>q k. tbl_read t1 q k = (if q = n + hhdm then if k < ENTRIES_PER_TABLE then Some 0 else None
        else if q = p \<and> k = ?i then Some e' else tbl_read t q k)"
    by (rule remap_create [OF assms(1-5) w e assms(11,12)], rule that)
  have j: "?j < ENTRIES_PER_TABLE" by (rule next_level_index_lt)
  have r0: "tbl_read t1 (n + hhdm) ?j = Some 0" using j by (simp add: rd)
  have "entry_wf (bottom_paging_level Size4KB) 0" by (simp add: entry_wf_def is_table_def)
  from entry_map_ok [OF this _ assms(7,8,9)] obtain e0 where e0: "entry_map 0 pa f Size4KB = Some (Ok (), e0)" by auto
  from tbl_write_Some [OF r0, of e0] obtain t2 where t2: "tbl_write t1 (n + hhdm) ?j e0 = Some t2"
    "\<And>q k. tbl_read t2 q k = (if q = n + hhdm \<and> k = ?j then Some e0 else tbl_read t1 q k)" by metis
  have "get_create_table_range hhdm t root va Size4KB = Some (n + hhdm, t1)"
    using c assms(6) unfolding get_create_table_range_def MAX_BOTTOM_PAGING_LEVEL_def by (simp del: upt_Suc)
  moreover have u: "uadd ?j 1 = Some (?j + 1)" using j by (simp add: ENTRIES_PER_TABLE_def USIZE_LIM_def)
  ultimately have mp: "map_pages hhdm t root va pa 1 Size4KB f = Some (Ok (), t2)"
    using assms(6-8) r0 e0 t2(1) j by (simp add: map_pages_def umul_def addr_add_def USIZE_LIM_def uadd_def)
  have len: "length (path va k) \<le> 3" for k by (simp add: path_simps)
  have fresh: "q \<noteq> n + hhdm" if "walk hhdm t root (path va k) = Some q" for k q
    using pt_wfD(4) [OF assms(1) that len] n page_self [of n] by force
  have "tbl_read t2 q (next_level_index va k) = tbl_read t q (next_level_index va k)"
    if k: "1 < k \<and> k \<le> 3 \<and> walk hhdm t root (path va k) = Some q" for k q
  proof -
    have "q \<noteq> p"
    proof
      assume "q = p"
      then have "path va k = path va 1" using pt_wfD(7) [OF assms(1) w len len] k by simp
      then have "3 - k = 3 - 1" using path_simps(3) [of va k] path_simps(3) [of va 1] by metis
      then show False using k by arith
    qed
    moreover have "q \<noteq> n + hhdm" using fresh k by blast
    ultimately show ?thesis by (simp add: t2(2) rd)
  qed
  then have "get_entry_loop hhdm t2 root va (rev [0..<Suc 3]) = get_entry_loop hhdm t2 p va (rev [0..<Suc 1])"
    by (intro get_entry_follow [OF assms(1) _ w]) simp_all
  moreover have r1: "tbl_read t2 p ?i = Some e'" using fresh [OF w] by (simp add: t2(2) rd)
  ultimately have "get_entry hhdm t2 root va = Some (Some (p, ?i, Size2MB))"
    using e'(2) unfolding get_entry_def MAX_BOTTOM_PAGING_LEVEL_def
    by (simp add: flag_bits from_bottom_paging_level_def Let_def)
  then have tr: "translate hhdm t2 root va = Option.bind (entry_get_addr e' Size2MB) (\<lambda>a. Some (Some a))"
    using r1 e'(1) by (simp add: translate_def flag_bits Let_def)
  have "translate hhdm t2 root va \<noteq> Some (Some pa)"
  proof
    assume "translate hhdm t2 root va = Some (Some pa)"
    then have "entry_get_addr e' Size2MB = Some pa" by (simp add: tr bind_eq_Some_conv)
    then have "pa = n" using entry_addr_2mb e'(3) by blast
    then show False using n assms(13) page_self [of n] by blast
  qed
  with mp show ?thesis by blast
qed

text \<open>Tables in which a 2 MB page at address 0 was mapped and unmapped.\<close>

definition stale_tables :: "nodes \<times> BuddyAllocator \<Rightarrow> Paging" where
  "stale_tables m = \<lparr> pg_tables = [0x108000 \<mapsto> (replicate ENTRIES_PER_TABLE 0)[0 := 0x9003],
     0x109000 \<mapsto> (replicate ENTRIES_PER_TABLE 0)[0 := 0xA003], 0x10A000 \<mapsto> (replicate ENTRIES_PER_TABLE 0)[0 := 0x200482]], pg_pmm = m \<rparr>"

lemma stale_bits:
  "is_table 0x9003" "is_table 0xA003" "\<not> is_table 0x200482" "\<not> bit (0x9003 :: u64) 7" "\<not> bit (0xA003 :: u64) 7"
  "bit (0x200482 :: u64) 7" "bit (0x200482 :: u64) 10" "\<not> bit (0x200482 :: u64) 0"
  "entry_addr 12 0x9003 = 0x9000" "entry_addr 12 0xA003 = 0xA000"
  by (simp_all add: is_table_def entry_addr_def bit_numeral_rec mask_eq_exp_minus_1)

lemma stale_read:
  "tbl_read (stale_tables m) 0x108000 i = (if i < ENTRIES_PER_TABLE then Some (if i = 0 then 0x9003 else 0) else None)"
  "tbl_read (stale_tables m) 0x109000 i = (if i < ENTRIES_PER_TABLE then Some (if i = 0 then 0xA003 else 0) else None)"
  "tbl_read (stale_tables m) 0x10A000 i = (if i < ENTRIES_PER_TABLE then Some (if i = 0 then 0x200482 else 0) else None)"
  by (auto simp: tbl_read_def stale_tables_def idx_def nth_list_update ENTRIES_PER_TABLE_def)

lemma stale_walk:
  "walk 0x100000 (stale_tables m) 0x108000 is = Some p \<longleftrightarrow>
     (is, p) \<in> {([], 0x108000), ([0], 0x109000), ([0, 0], 0x10A000)}"
proof -
  have z: "\<not> is_table 0" by (simp add: is_table_def)
  have w2: "walk 0x100000 (stale_tables m) 0x10A000 js = Some p \<longleftrightarrow> js = [] \<and> p = 0x10A000" for js
    using z by (cases js) (auto simp: stale_read stale_bits)
  have w1: "walk 0x100000 (stale_tables m) 0x109000 js = Some p \<longleftrightarrow> (js, p) \<in> {([], 0x109000), ([0], 0x10A000)}" for js
    using z w2 by (cases js) (auto simp: stale_read stale_bits ENTRIES_PER_TABLE_def)
  show ?thesis using z w1 by (cases "is") (auto simp: stale_read stale_bits ENTRIES_PER_TABLE_def)
qed

lemma stale_wf: "pt_wf 0x100000 (stale_tables m) 0x108000 (blk 2 0)"
proof -
  have blk: "blk 2 0 = {..<0x4000}" by (auto simp: blk_def bsz_def BASIC_PAGE_SIZE_def)
  have mid: "\<not> bit (0x200482 :: u64) k" if "12 \<le> k" "k < 21" for k
  proof -
    from that have "k \<in> {12, 13, 14, 15, 16, 17, 18, 19, 20}" by auto
    then show ?thesis by (auto simp: bit_numeral_rec)
  qed
  have tab: "has_table (stale_tables m) 0x108000" "has_table (stale_tables m) 0x109000" "has_table (stale_tables m) 0x10A000"
    by (simp_all add: has_table_def stale_tables_def)
  have z: "entry_wf l 0" for l by (simp add: entry_wf_def is_table_def)
  have "entry_wf 3 0x9003" "entry_wf 2 0xA003" "entry_wf 1 0x200482"
    using mid by (simp_all add: entry_wf_def stale_bits)
  with z tab show ?thesis
    unfolding pt_wf_iff stale_walk
    by (auto simp: USIZE_LIM_def page_def BASIC_PAGE_SIZE_def blk stale_read split: if_splits)
qed

theorem remap_after_large_page_witness:
  "\<exists>m t'. map_pages 0x100000 (stale_tables m) 0x108000 0 0x7000 1 Size4KB flags_new = Some (Ok (), t')
    \<and> translate 0x100000 t' 0x108000 0 \<noteq> Some (Some 0x7000)"
proof -
  obtain h b F where ok: "pmm_ok 3 0x4000 h b F" and F: "bytes F = blk 2 0" using pmm_demo by blast
  then have pm: "pmm_free_bytes 3 0x4000 (pg_pmm (stale_tables (h, b))) (blk 2 0)"
    by (auto simp: stale_tables_def pmm_free_bytes_def)
  have blk: "blk 2 0 = {..<0x4000}" by (auto simp: blk_def bsz_def BASIC_PAGE_SIZE_def)
  have idx: "next_level_index 0 l = 0" for l by (simp add: next_level_index_def)
  have "leaf 0x100000 (stale_tables (h, b)) 0x108000 0 1 0x200482"
  proof -
    have "path 0 1 = [0, 0]" by (simp add: path_def idx upt_rec)
    then have "walk 0x100000 (stale_tables (h, b)) 0x108000 (path 0 1) = Some 0x10A000" by (simp only: stale_walk) simp
    moreover have "tbl_read (stale_tables (h, b)) 0x10A000 (next_level_index 0 1) = Some 0x200482"
      by (simp add: stale_read idx ENTRIES_PER_TABLE_def)
    ultimately show ?thesis using stale_bits(3) unfolding leaf_def by simp
  qed
  moreover have "flags_ok Size4KB flags_new" by (simp add: flags_ok_def flags_new_def FLAGS_NONE_def)
  moreover have "blk 2 0 \<noteq> {}" unfolding blk by (metis lessThan_iff empty_iff zero_less_numeral)
  ultimately have "\<exists>t'. map_pages 0x100000 (stale_tables (h, b)) 0x108000 0 0x7000 1 Size4KB flags_new = Some (Ok (), t')
    \<and> translate 0x100000 t' 0x108000 0 \<noteq> Some (Some 0x7000)"
    using remap_after_large_page [OF stale_wf pm, of 0 "0x7000" flags_new "0x200482"] stale_bits(7,8)
    by (simp add: blk USIZE_LIM_def)
  then show ?thesis by blast
qed

end
