(* ===== verification/Paging_Manager.thy ===== *)
theory Paging_Manager
  imports Id_Alloc Page_Table
begin

text \<open>
  The virtual address allocator of \<open>kernel/src/mem/vaa.rs\<close>, the generic operations of the
  \<open>PagingManager\<close> trait in \<open>kernel/src/mem/paging.rs\<close> and their x86-64 instance in
  \<open>kernel/src/arch/x86_64/mod.rs\<close>.  The state joins the page tables (with the physical memory
  manager) and the address allocator; \<open>pml\<close> is the address of the top-level table that
  \<open>get_pml\<close> computes from the CR3 register.
\<close>

subsection \<open>The virtual address allocator\<close>

record VirtualAddressAllocator =
  vaa_hander :: IdHander

definition MIN_MEM_SPAN :: usize where
  "MIN_MEM_SPAN = 8 * 0x1000 * 0x1000 * 0x1000 * 0x1000"

definition vaa_new :: "usize \<Rightarrow> VirtAddr \<Rightarrow> VirtualAddressAllocator option" where
  "vaa_new hhdm start_addr = do {
     _ \<leftarrow> ensure (start_addr mod page_size_size Size4KB = 0);
     span \<leftarrow> usub hhdm start_addr;
     _ \<leftarrow> ensure (MIN_MEM_SPAN \<le> span);
     let start_id = Id (start_addr div page_size_size Size4KB);
     Some \<lparr> vaa_hander = id_hander_new_starting_from start_id MAX_ID \<rparr> }"

definition vaa_uninit :: VirtualAddressAllocator where
  "vaa_uninit = \<lparr> vaa_hander = id_hander_new (Id 1000) \<rparr>"

text \<open>\<open><*const ()>::align_offset\<close>: the pointee has size 0, so stepping never aligns the pointer; the
  result is 0 when it is aligned and \<open>usize::MAX\<close> otherwise.  It panics unless the alignment is a
  power of two.\<close>

definition align_offset_unit :: "usize \<Rightarrow> usize \<Rightarrow> usize option" where
  "align_offset_unit addr align = do {
     _ \<leftarrow> ensure (is_power_of_two align);
     Some (if addr mod align = 0 then 0 else USIZE_LIM - 1) }"

definition vaa_handout :: "VirtualAddressAllocator \<Rightarrow> usize \<Rightarrow> usize \<Rightarrow> (VirtAddr \<times> VirtualAddressAllocator) option" where
  "vaa_handout v n_pages align = do {
     let next = id_val (id_hander_peek_next (vaa_hander v));
     skip \<leftarrow> align_offset_unit next align;
     n \<leftarrow> uadd skip n_pages;
     (page_id, h) \<leftarrow> id_hander_handout_and_skip (vaa_hander v) n;
     page_id \<leftarrow> page_id;
     addr \<leftarrow> umul (id_val page_id) (page_size_size Size4KB);
     Some (addr, v \<lparr> vaa_hander := h \<rparr>) }"

text \<open>\<open>init_vaa_from_limine\<close>: allocation starts at the end of the last entry of the memory map.\<close>

definition init_vaa_from_limine :: "usize \<Rightarrow> MemEntry list \<Rightarrow> VirtualAddressAllocator option" where
  "init_vaa_from_limine hhdm mem_map = do {
     last_entry \<leftarrow> (if mem_map = [] then None else Some (last mem_map));
     addr \<leftarrow> uadd (me_base last_entry) (me_length last_entry);
     vaa_new hhdm addr }"

subsection \<open>The paging manager\<close>

record KernelMem =
  km_vaa :: VirtualAddressAllocator
  km_paging :: Paging

definition map_pages_to :: "usize \<Rightarrow> VirtAddr \<Rightarrow> KernelMem \<Rightarrow> PhysAddr \<Rightarrow> VirtAddr \<Rightarrow> usize \<Rightarrow> Flags \<Rightarrow> PageSize
    \<Rightarrow> ((PagingError + unit) \<times> KernelMem) option" where
  "map_pages_to hhdm pml k phys_addr virt_addr n_pages flags ps = do {
     (r, t) \<leftarrow> map_pages hhdm (km_paging k) pml virt_addr phys_addr n_pages ps flags;
     Some (r, k \<lparr> km_paging := t \<rparr>) }"

definition manager_unmap_pages :: "usize \<Rightarrow> VirtAddr \<Rightarrow> KernelMem \<Rightarrow> VirtAddr \<Rightarrow> usize \<Rightarrow> PageSize
    \<Rightarrow> ((PagingError + unit) \<times> KernelMem) option" where
  "manager_unmap_pages hhdm pml k virt_addr page_count ps = do {
     (r, t) \<leftarrow> unmap_pages hhdm (km_paging k) pml virt_addr page_count ps;
     Some (r, k \<lparr> km_paging := t \<rparr>) }"

definition manager_translate :: "usize \<Rightarrow> VirtAddr \<Rightarrow> KernelMem \<Rightarrow> VirtAddr \<Rightarrow> PhysAddr option option" where
  "manager_translate hhdm pml k virt_addr = translate hhdm (km_paging k) pml virt_addr"

fun allocate_pages_loop :: "usize \<Rightarrow> VirtAddr \<Rightarrow> KernelMem \<Rightarrow> VirtAddr \<Rightarrow> nat list \<Rightarrow> usize \<Rightarrow> Flags \<Rightarrow> PageSize
    \<Rightarrow> ((PagingError + unit) \<times> KernelMem) option" where
  "allocate_pages_loop hhdm pml k base_virt_addr [] basic_page_count flags ps = Some (Ok (), k)"
| "allocate_pages_loop hhdm pml k base_virt_addr (i # is) basic_page_count flags ps = do {
     off \<leftarrow> umul i (page_size_size ps);
     virt_addr \<leftarrow> addr_add base_virt_addr off;
     let m = pg_pmm (km_paging k);
     (r, m) \<leftarrow> buddy_allocate (fst m) (snd m) 1 basic_page_count;
     phys_addr \<leftarrow> unwrap_ok r;
     let k = k \<lparr> km_paging := (km_paging k) \<lparr> pg_pmm := m \<rparr> \<rparr>;
     (r, k) \<leftarrow> map_pages_to hhdm pml k phys_addr virt_addr 1 flags ps;
     (case r of
        Inl e \<Rightarrow> Some (Err e, k)
      | Inr _ \<Rightarrow> allocate_pages_loop hhdm pml k base_virt_addr is basic_page_count flags ps) }"

definition allocate_pages :: "usize \<Rightarrow> VirtAddr \<Rightarrow> KernelMem \<Rightarrow> usize \<Rightarrow> Flags \<Rightarrow> PageSize
    \<Rightarrow> ((PagingError + nat) \<times> KernelMem) option" where
  "allocate_pages hhdm pml k page_count flags ps = do {
     (base_virt_addr, v) \<leftarrow> vaa_handout (km_vaa k) page_count (page_alignment ps);
     let k = k \<lparr> km_vaa := v \<rparr>;
     let basic_page_count = to_default_page_count ps;
     (r, k) \<leftarrow> allocate_pages_loop hhdm pml k base_virt_addr [0..<page_count] basic_page_count flags ps;
     (case r of
        Inl e \<Rightarrow> Some (Err e, k)
      | Inr _ \<Rightarrow> do {
          _ \<leftarrow> ensure (base_virt_addr \<noteq> 0);
          Some (Ok base_virt_addr, k) }) }"

fun free_pages_loop :: "usize \<Rightarrow> VirtAddr \<Rightarrow> KernelMem \<Rightarrow> VirtAddr \<Rightarrow> nat list \<Rightarrow> usize \<Rightarrow> PageSize
    \<Rightarrow> ((PagingError + unit) \<times> KernelMem) option" where
  "free_pages_loop hhdm pml k virt_addr [] n_pages ps = Some (Ok (), k)"
| "free_pages_loop hhdm pml k virt_addr (i # is) n_pages ps = do {
     off \<leftarrow> umul i (page_size_size ps);
     addr \<leftarrow> addr_add virt_addr off;
     tr \<leftarrow> manager_translate hhdm pml k virt_addr;
     (case tr of
        None \<Rightarrow> Some (Err PageNotPresent, k)
      | Some phys_addr \<Rightarrow> do {
          (r, k) \<leftarrow> manager_unmap_pages hhdm pml k addr n_pages ps;
          (case r of
             Inl e \<Rightarrow> Some (Err e, k)
           | Inr _ \<Rightarrow> do {
               let m = pg_pmm (km_paging k);
               (r, m) \<leftarrow> buddy_free (fst m) (snd m) phys_addr (to_default_page_count ps);
               let k = k \<lparr> km_paging := (km_paging k) \<lparr> pg_pmm := m \<rparr> \<rparr>;
               (case r of
                  Inl _ \<Rightarrow> Some (Err PageNotPresent, k)
                | Inr _ \<Rightarrow> free_pages_loop hhdm pml k virt_addr is n_pages ps) }) }) }"

definition free_pages :: "usize \<Rightarrow> VirtAddr \<Rightarrow> KernelMem \<Rightarrow> nat \<Rightarrow> usize \<Rightarrow> PageSize \<Rightarrow> ((PagingError + unit) \<times> KernelMem) option" where
  "free_pages hhdm pml k ptr n_pages ps = free_pages_loop hhdm pml k ptr [0..<n_pages] n_pages ps"

text \<open>\<open>PagingManager::map_pages\<close>: maps given frames at a fresh address.  One page of address space is
  reserved, whatever the number of pages.\<close>

definition manager_map_pages :: "usize \<Rightarrow> VirtAddr \<Rightarrow> KernelMem \<Rightarrow> PhysAddr \<Rightarrow> usize \<Rightarrow> Flags \<Rightarrow> PageSize
    \<Rightarrow> ((PagingError + nat) \<times> KernelMem) option" where
  "manager_map_pages hhdm pml k phys_addr page_count flags ps = do {
     (virt_addr, v) \<leftarrow> vaa_handout (km_vaa k) 1 (page_alignment ps);
     let k = k \<lparr> km_vaa := v \<rparr>;
     (r, k) \<leftarrow> map_pages_to hhdm pml k phys_addr virt_addr page_count flags ps;
     (case r of
        Inl e \<Rightarrow> Some (Err e, k)
      | Inr _ \<Rightarrow> Some (Ok virt_addr, k)) }"

subsection \<open>Setting up the kernel's page tables\<close>

text \<open>\<open>init_from_limine\<close> up to the switch of CR3; \<open>fb\<close> is the build feature \<open>framebuffer\<close>.\<close>

definition map_mem_entry :: "bool \<Rightarrow> usize \<Rightarrow> VirtAddr \<Rightarrow> PhysAddr \<Rightarrow> VirtAddr \<Rightarrow> Paging \<Rightarrow> MemEntry \<Rightarrow> Paging option" where
  "map_mem_entry fb hhdm kernel_virt kernel_phys new_pml t e =
     (case me_type e of
        EXECUTABLE_AND_MODULES \<Rightarrow>
          map_in_entry hhdm t kernel_virt kernel_phys (me_length e) new_pml (set_read_write flags_new True) None
      | ACPI_RECLAIMABLE \<Rightarrow> do {
          v \<leftarrow> add_hhdm_offset hhdm (me_base e);
          map_in_entry hhdm t v (me_base e) (me_length e) new_pml (set_read_write flags_new True) None }
      | BOOTLOADER_RECLAIMABLE \<Rightarrow> do {
          v \<leftarrow> add_hhdm_offset hhdm (me_base e);
          map_in_entry hhdm t v (me_base e) (me_length e) new_pml (set_read_write flags_new True) None }
      | USABLE \<Rightarrow> do {
          v \<leftarrow> add_hhdm_offset hhdm (me_base e);
          map_in_entry hhdm t v (me_base e) (me_length e) new_pml (set_read_write flags_new True) None }
      | FRAMEBUFFER \<Rightarrow>
          if fb then do {
            v \<leftarrow> add_hhdm_offset hhdm (me_base e);
            map_in_entry hhdm t v (me_base e) (me_length e) new_pml (set_read_write flags_new True) (Some WriteCombining) }
          else Some t
      | _ \<Rightarrow> Some t)"

fun map_mem_entries :: "bool \<Rightarrow> usize \<Rightarrow> VirtAddr \<Rightarrow> PhysAddr \<Rightarrow> VirtAddr \<Rightarrow> Paging \<Rightarrow> MemEntry list \<Rightarrow> Paging option" where
  "map_mem_entries fb hhdm kernel_virt kernel_phys new_pml t [] = Some t"
| "map_mem_entries fb hhdm kernel_virt kernel_phys new_pml t (e # es) = do {
     t \<leftarrow> map_mem_entry fb hhdm kernel_virt kernel_phys new_pml t e;
     map_mem_entries fb hhdm kernel_virt kernel_phys new_pml t es }"

definition paging_init_from_limine :: "bool \<Rightarrow> usize \<Rightarrow> Paging \<Rightarrow> MemEntry list \<Rightarrow> VirtAddr \<Rightarrow> PhysAddr \<Rightarrow> MemEntry
    \<Rightarrow> ((VirtAddr \<times> PhysAddr) \<times> Paging) option" where
  "paging_init_from_limine fb hhdm t mem_map kernel_virt kernel_phys used_by_pmm = do {
     ((new_pml, new_pml_addr), t) \<leftarrow> page_table_new hhdm t;
     v \<leftarrow> add_hhdm_offset hhdm (me_base used_by_pmm);
     t \<leftarrow> map_in_entry hhdm t v (me_base used_by_pmm) (me_length used_by_pmm) new_pml (set_read_write flags_new True) None;
     t \<leftarrow> map_mem_entries fb hhdm kernel_virt kernel_phys new_pml t
            (filter (\<lambda>e. me_base e \<noteq> me_base used_by_pmm) mem_map);
     Some ((new_pml, new_pml_addr), t) }"

subsection \<open>The mapped pages\<close>

text \<open>The abstract state: \<open>P\<close> maps the address of each allocated page to its frame, \<open>U\<close> is the set of free
  bytes of physical memory, and \<open>R\<close> the set of page numbers that can still be mapped.\<close>

definition frames :: "(nat \<rightharpoonup> nat) \<Rightarrow> nat set" where
  "frames P = \<Union> (page ` ran P)"

definition page_leaf :: "usize \<Rightarrow> Paging \<Rightarrow> VirtAddr \<Rightarrow> nat \<Rightarrow> nat \<Rightarrow> bool" where
  "page_leaf hhdm t pml va pa \<longleftrightarrow>
     (\<exists>e. ends hhdm t pml va 0 e \<and> bit e 0 \<and> bit e 10 \<and> \<not> bit e 9 \<and> entry_addr 12 e = pa)"

definition mem_inv :: "nat \<Rightarrow> nat \<Rightarrow> usize \<Rightarrow> VirtAddr \<Rightarrow> Paging \<Rightarrow> (nat \<rightharpoonup> nat) \<Rightarrow> nat set \<Rightarrow> nat set \<Rightarrow> bool" where
  "mem_inv L M hhdm pml t P U R \<longleftrightarrow>
     pt_wf hhdm t pml (U \<union> frames P) \<and> pmm_free_bytes L M (pg_pmm t) U \<and> M + hhdm \<le> USIZE_LIM \<and> 0 < hhdm
     \<and> frames P \<inter> U = {} \<and> inj_on P (dom P)
     \<and> (\<forall>va pa. P va = Some pa \<longrightarrow> BASIC_PAGE_SIZE dvd va \<and> va < 2 ^ 48 \<and> va div BASIC_PAGE_SIZE \<notin> R
          \<and> BASIC_PAGE_SIZE dvd pa \<and> pa + BASIC_PAGE_SIZE \<le> M \<and> page_leaf hhdm t pml va pa)
     \<and> (\<forall>n \<in> R. 0 < n \<and> n < 2 ^ 36 \<and> unmapped hhdm t pml (n * BASIC_PAGE_SIZE))"

lemma mem_invD:
  assumes "mem_inv L M hhdm pml t P U R"
  shows "pt_wf hhdm t pml (U \<union> frames P)" and "pmm_free_bytes L M (pg_pmm t) U" and "M + hhdm \<le> USIZE_LIM" and "0 < hhdm"
    and "frames P \<inter> U = {}" and "inj_on P (dom P)"
    and "P va = Some pa \<Longrightarrow> BASIC_PAGE_SIZE dvd va \<and> va < 2 ^ 48 \<and> va div BASIC_PAGE_SIZE \<notin> R
          \<and> BASIC_PAGE_SIZE dvd pa \<and> pa + BASIC_PAGE_SIZE \<le> M \<and> page_leaf hhdm t pml va pa"
    and "n \<in> R \<Longrightarrow> 0 < n \<and> n < 2 ^ 36 \<and> unmapped hhdm t pml (n * BASIC_PAGE_SIZE)"
  using assms unfolding mem_inv_def by blast+

text \<open>An unmapped address has a free way down and no present entry.\<close>

lemma unmapped_clear:
  assumes "unmapped hhdm t pml va"
  shows "way_clear hhdm t pml va b 3"
    and "walk hhdm t pml (path va 0) = Some p \<Longrightarrow> tbl_read t p (next_level_index va 0) = Some e \<Longrightarrow> \<not> bit e 0"
proof -
  from assms obtain l where l: "leaf hhdm t pml va l 0" by (auto simp: ends_def)
  have uniq: "is_table e \<or> e = 0" if "k \<le> 3" "walk hhdm t pml (path va k) = Some p" "tbl_read t p (next_level_index va k) = Some e" for k p e
  proof (rule disjCI)
    assume "e \<noteq> 0"
    show "is_table e"
    proof (rule ccontr)
      assume "\<not> is_table e"
      with that have "leaf hhdm t pml va k e" by (auto simp: leaf_def)
      from leaf_unique(2) [OF l this] \<open>e \<noteq> 0\<close> show False by simp
    qed
  qed
  then show "way_clear hhdm t pml va b 3" by (auto simp: way_clear_def)
  assume w: "walk hhdm t pml (path va 0) = Some p" "tbl_read t p (next_level_index va 0) = Some e"
  from l obtain q where q: "l \<le> 3" "walk hhdm t pml (path va l) = Some q" "tbl_read t q (next_level_index va l) = Some 0"
    by (auto simp: leaf_def)
  have "l = 0"
  proof (rule ccontr)
    assume "l \<noteq> 0"
    then obtain rest where rest: "path va 0 = path va l @ next_level_index va l # rest" using path_split q(1) by blast
    have "walk hhdm t pml (path va 0) = None" unfolding rest using q by (simp add: walk_append is_table_def)
    with w(1) show False by simp
  qed
  with q w show "\<not> bit e 0" by simp
qed

lemma vdig_page:
  assumes "va < 2 ^ 48"
  shows "vdig va 0 = va div BASIC_PAGE_SIZE"
  using assms by (simp add: vdig_def BASIC_PAGE_SIZE_def)

lemma page_digit_ne:
  assumes "va < 2 ^ 48" "va' < 2 ^ 48" and "BASIC_PAGE_SIZE dvd va" "BASIC_PAGE_SIZE dvd va'" and "va \<noteq> va'"
  shows "vdig va 0 \<noteq> vdig va' 0"
  using assms vdig_page by (metis dvd_div_mult_self)

lemma page_leaf_translate:
  assumes "pt_wf hhdm t pml U" and "page_leaf hhdm t pml va pa"
  shows "translate hhdm t pml va = Some (Some pa)"
proof -
  from assms(2) obtain e where e: "leaf hhdm t pml va 0 e" "bit e 0" "entry_addr 12 e = pa"
    by (auto simp: page_leaf_def ends_def split: if_splits)
  from translate_leaf [OF assms(1) e(1)] e show ?thesis by simp
qed

text \<open>Only the tables matter for walks and translations.\<close>

lemma walk_pmm [simp]: "walk hhdm (t \<lparr> pg_pmm := m \<rparr>) p is = walk hhdm t p is"
  by (induction "is" arbitrary: p) (auto simp: tbl_read_def split: option.splits)

lemma leaf_pmm [simp]: "leaf hhdm (t \<lparr> pg_pmm := m \<rparr>) root va l e = leaf hhdm t root va l e"
  by (simp add: leaf_def tbl_read_def)

lemma tables_pmm [simp]:
  "ends hhdm (t \<lparr> pg_pmm := m \<rparr>) root va l e = ends hhdm t root va l e"
  "page_leaf hhdm (t \<lparr> pg_pmm := m \<rparr>) root va pa = page_leaf hhdm t root va pa"
  "pt_wf hhdm (t \<lparr> pg_pmm := m \<rparr>) root U = pt_wf hhdm t root U"
  by (simp_all add: ends_def page_leaf_def pt_wf_def)

lemma translate_pmm:
  assumes "pt_wf hhdm t root U"
  shows "translate hhdm (t \<lparr> pg_pmm := m \<rparr>) root va = translate hhdm t root va"
proof -
  from leaf_ex [OF assms, of va] obtain l e where l: "leaf hhdm t root va l e" by blast
  then have "leaf hhdm (t \<lparr> pg_pmm := m \<rparr>) root va l e" by simp
  from translate_leaf [OF _ this] translate_leaf [OF assms l] assms show ?thesis by simp
qed

lemma free_frame:
  assumes inv: "mem_inv L M hhdm pml t P U R" and wf: "pt_wf hhdm t pml (U \<union> page pa \<union> frames P)"
    and pa: "BASIC_PAGE_SIZE dvd pa" "pa + BASIC_PAGE_SIZE \<le> M" "page pa \<inter> U = {}" "page pa \<inter> frames P = {}"
  obtains m where "buddy_free (fst (pg_pmm t)) (snd (pg_pmm t)) pa 1 = Some (Ok (), m)"
    and "mem_inv L M hhdm pml (t \<lparr> pg_pmm := m \<rparr>) P (U \<union> page pa) R"
proof -
  note I = mem_invD [OF inv]
  from pmm.free_ok [OF I(2) pa(1-3)] obtain m where m: "pmm_free_page (pg_pmm t) pa = Some (Ok (), m)" "pmm_free_bytes L M m (U \<union> page pa)" by blast
  have "mem_inv L M hhdm pml (t \<lparr> pg_pmm := m \<rparr>) P (U \<union> page pa) R"
    using inv wf m(2) pa(4) unfolding mem_inv_def by auto
  with m(1) show ?thesis using that unfolding pmm_free_page_def by blast
qed

text \<open>One page: a given frame is mapped at an unmapped address.  \<open>F\<close> is any set of bytes without tables that is kept apart
  from the free memory, such as the frames in use.\<close>

lemma map_given_frame:
  assumes wf: "pt_wf hhdm t pml (U \<union> F)" and pmm: "pmm_free_bytes L M (pg_pmm t) U" and lim: "M + hhdm \<le> USIZE_LIM" "0 < hhdm"
    and dis: "F \<inter> U = {}" and n: "n < 2 ^ 36" and un: "unmapped hhdm t pml (n * BASIC_PAGE_SIZE)" and room: "3 * BASIC_PAGE_SIZE \<le> card U"
    and pa: "BASIC_PAGE_SIZE dvd pa" "pa + BASIC_PAGE_SIZE \<le> USIZE_LIM" and f: "flags_ok Size4KB f" "\<not> get_allocated f"
  obtains t' U' where "map_pages hhdm t pml (n * BASIC_PAGE_SIZE) pa 1 Size4KB f = Some (Ok (), t')"
    and "pt_wf hhdm t' pml (U' \<union> F)" and "pmm_free_bytes L M (pg_pmm t') U'" and "U' \<subseteq> U"
    and "card U \<le> card U' + 3 * BASIC_PAGE_SIZE" and "page_leaf hhdm t' pml (n * BASIC_PAGE_SIZE) pa"
    and "\<And>va' lc ec. va' < 2 ^ 48 \<Longrightarrow> BASIC_PAGE_SIZE dvd va' \<Longrightarrow> va' \<noteq> n * BASIC_PAGE_SIZE \<Longrightarrow> ends hhdm t pml va' lc ec
      \<Longrightarrow> ends hhdm t' pml va' lc ec"
proof -
  let ?va = "n * BASIC_PAGE_SIZE"
  have va: "?va < 2 ^ 48" "?va < USIZE_LIM" using n by (simp_all add: BASIC_PAGE_SIZE_def USIZE_LIM_def)
  have clear: "way_clear hhdm t pml ?va 0 3" by (rule unmapped_clear [OF un])
  have absent: "\<forall>k < 1. \<forall>p e. walk hhdm t pml (path ?va 0) = Some p \<and> tbl_read t p (next_level_index ?va 0 + k) = Some e \<longrightarrow> \<not> bit e 0"
    using unmapped_clear(2) [OF un] by auto
  have card1: "(3 - 0) * BASIC_PAGE_SIZE \<le> card U" using room by simp
  have lv: "0 = bottom_paging_level Size4KB" by simp
  have al: "page_size_size Size4KB dvd ?va" "page_size_size Size4KB dvd pa" "pa + 1 * page_size_size Size4KB \<le> USIZE_LIM"
    using pa by (simp_all add: BASIC_PAGE_SIZE_def)
  have run: "next_level_index ?va 0 + 1 \<le> ENTRIES_PER_TABLE" using next_level_index_lt [of ?va 0] by simp
  from map_pages_ok [OF wf pmm dis lim lv al(1) va(2) al(2,3) run f(1) clear card1 absent]
  obtain t' U' p where m: "map_pages hhdm t pml ?va pa 1 Size4KB f = Some (Ok (), t')"
    "pt_wf hhdm t' pml (U' \<union> F)" "pmm_free_bytes L M (pg_pmm t') U'" "U' \<subseteq> U"
    "card U \<le> card U' + 3 * BASIC_PAGE_SIZE"
    "\<forall>va' < USIZE_LIM. \<forall>lc ec. ends hhdm t pml va' lc ec \<and> \<not> (\<exists>k < 1. vdig va' 0 = vdig ?va 0 + k) \<longrightarrow> ends hhdm t' pml va' lc ec"
    "walk hhdm t' pml (path ?va 0) = Some p"
    "\<forall>k < 1. \<exists>e. tbl_read t' p (next_level_index ?va 0 + k) = Some e \<and> page_entry Size4KB f (pa + k * page_size_size Size4KB) e"
    by (auto simp del: page_size_size.simps)
  have keep: "ends hhdm t' pml va' lc ec" if "va' < 2 ^ 48" "BASIC_PAGE_SIZE dvd va'" "va' \<noteq> ?va" "ends hhdm t pml va' lc ec" for va' lc ec
    using m(6) page_digit_ne [OF that(1) va(1) that(2) _ that(3)] that(1,4) by (auto simp: USIZE_LIM_def)
  from m(8) obtain e where e: "tbl_read t' p (next_level_index ?va 0) = Some e" "page_entry Size4KB f pa e" by auto
  have bits: "bit e 0" "bit e 10" "\<not> bit e 9" "entry_addr 12 e = pa"
    using e(2) f(2) by (auto simp: page_entry_def flag_bits)
  then have "leaf hhdm t' pml ?va 0 e" using e(1) m(7) by (auto simp: leaf_def is_table_def)
  moreover have "e \<noteq> 0" using bits(1) by auto
  ultimately have "page_leaf hhdm t' pml ?va pa" using bits unfolding page_leaf_def ends_def by metis
  from that [OF m(1-5) this keep] show ?thesis .
qed

text \<open>A frame is taken and mapped.\<close>

lemma mem_inv_free_page:
  assumes "mem_inv L M hhdm pml t P U R" and "n \<in> R"
  shows "P (n * BASIC_PAGE_SIZE) = None"
proof (cases "P (n * BASIC_PAGE_SIZE)")
  case (Some q)
  from mem_invD(7) [OF assms(1) this] assms(2) show ?thesis by (simp add: BASIC_PAGE_SIZE_def)
qed

text \<open>The map gains a page with a frame of its own.\<close>

lemma mem_inv_insert:
  assumes inv: "mem_inv L M hhdm pml t P U R" and n: "n \<in> R" and va: "va = n * BASIC_PAGE_SIZE"
    and pa: "BASIC_PAGE_SIZE dvd pa" "page pa \<subseteq> U" "pa + BASIC_PAGE_SIZE \<le> M"
    and wf: "pt_wf hhdm t' pml (U' \<union> (page pa \<union> frames P))" and pmm: "pmm_free_bytes L M (pg_pmm t') U'" "U' \<subseteq> U - page pa"
    and lf: "page_leaf hhdm t' pml va pa"
    and keep: "\<And>va' lc ec. va' < 2 ^ 48 \<Longrightarrow> BASIC_PAGE_SIZE dvd va' \<Longrightarrow> va' \<noteq> va \<Longrightarrow> ends hhdm t pml va' lc ec \<Longrightarrow> ends hhdm t' pml va' lc ec"
  shows "mem_inv L M hhdm pml t' (P(va \<mapsto> pa)) U' (R - {n})"
proof -
  note I = mem_invD [OF inv]
  have P_va: "P va = None" unfolding va by (rule mem_inv_free_page [OF inv n])
  have old: "va' \<noteq> va \<and> page_leaf hhdm t' pml va' pa'" if "P va' = Some pa'" for va' pa'
  proof -
    from P_va that have ne: "va' \<noteq> va" by auto
    with I(7) [OF that] keep [of va'] show ?thesis unfolding page_leaf_def by blast
  qed
  have ran: "ran (P(va \<mapsto> pa)) = insert pa (ran P)" using P_va by simp
  then have fr: "frames (P(va \<mapsto> pa)) = page pa \<union> frames P" by (simp add: frames_def)
  have "pa \<notin> ran P" using I(5) pa(2) page_self [of pa] by (auto simp: frames_def)
  then have inj: "inj_on (P(va \<mapsto> pa)) (dom (P(va \<mapsto> pa)))"
    using I(6) P_va by (auto simp: inj_on_def ran_def)
  show ?thesis
    unfolding mem_inv_def fr
  proof (intro conjI inj wf pmm(1) I(3,4) allI impI ballI)
    show "(page pa \<union> frames P) \<inter> U' = {}" using I(5) pmm(2) by blast
    fix k assume "k \<in> R - {n}"
    then have k: "k \<in> R" "k * BASIC_PAGE_SIZE \<noteq> va" by (simp_all add: va BASIC_PAGE_SIZE_def)
    note R = I(8) [OF k(1)]
    from R show "0 < k" "k < 2 ^ 36" by simp_all
    from R have "k * BASIC_PAGE_SIZE < 2 ^ 48" by (simp add: BASIC_PAGE_SIZE_def)
    from keep [OF this dvd_triv_right k(2)] I(8) [OF k(1)] show "unmapped hhdm t' pml (k * BASIC_PAGE_SIZE)" by blast
  next
    fix va' pa' assume "(P(va \<mapsto> pa)) va' = Some pa'"
    then consider "va' = va" "pa' = pa" | "P va' = Some pa'" by (cases "va' = va") simp_all
    then have "BASIC_PAGE_SIZE dvd va' \<and> va' < 2 ^ 48 \<and> va' div BASIC_PAGE_SIZE \<notin> R - {n}
          \<and> BASIC_PAGE_SIZE dvd pa' \<and> pa' + BASIC_PAGE_SIZE \<le> M \<and> page_leaf hhdm t' pml va' pa'"
    proof cases
      case 1
      then show ?thesis using I(8) [OF n] pa lf by (simp add: va BASIC_PAGE_SIZE_def)
    next
      case 2
      from I(7) [OF 2] old [OF 2] show ?thesis by blast
    qed
    then show "BASIC_PAGE_SIZE dvd va'" "va' < 2 ^ 48" "va' div BASIC_PAGE_SIZE \<notin> R - {n}"
      "BASIC_PAGE_SIZE dvd pa'" "pa' + BASIC_PAGE_SIZE \<le> M" "page_leaf hhdm t' pml va' pa'" by blast+
  qed
qed

lemma map_fresh_frame:
  assumes inv: "mem_inv L M hhdm pml t P U R" and n: "n \<in> R" and room: "4 * BASIC_PAGE_SIZE \<le> card U" and f: "flags_ok Size4KB f" "\<not> get_allocated f"
  obtains pa m t' U' where "buddy_allocate (fst (pg_pmm t)) (snd (pg_pmm t)) 1 1 = Some (Ok pa, m)"
    and "map_pages hhdm (t \<lparr> pg_pmm := m \<rparr>) pml (n * BASIC_PAGE_SIZE) pa 1 Size4KB f = Some (Ok (), t')"
    and "mem_inv L M hhdm pml t' (P(n * BASIC_PAGE_SIZE \<mapsto> pa)) U' (R - {n})" and "page pa \<subseteq> U" and "U' \<subseteq> U - page pa"
    and "card U \<le> card U' + 4 * BASIC_PAGE_SIZE"
proof -
  note I = mem_invD [OF inv]
  let ?va = "n * BASIC_PAGE_SIZE"
  have "U \<noteq> {}" using room by (auto simp: BASIC_PAGE_SIZE_def)
  from pmm.alloc_some [OF I(2) this] obtain pa m where
    a: "pmm_alloc_page (pg_pmm t) = Some (Ok pa, m)" "BASIC_PAGE_SIZE dvd pa" "page pa \<subseteq> U" "pmm_free_bytes L M m (U - page pa)" by blast
  define t1 where "t1 = t \<lparr> pg_pmm := m \<rparr>"
  have wf1: "pt_wf hhdm t1 pml (U - page pa \<union> (page pa \<union> frames P))"
    using I(1) a(3) by (simp add: t1_def Un_absorb2 Un_assoc [symmetric])
  have ends1: "ends hhdm t1 pml va lc ec = ends hhdm t pml va lc ec" for va lc ec by (simp add: t1_def)
  from I(8) [OF n] have n': "0 < n" "n < 2 ^ 36" and un: "unmapped hhdm t1 pml ?va" by (auto simp: ends1)
  have card1: "3 * BASIC_PAGE_SIZE \<le> card (U - page pa)" using pool_card(2) [OF I(2) a(3)] room by simp
  have pal: "pa + BASIC_PAGE_SIZE \<le> M" by (rule pmm_page_bounds [OF I(2) a(3)])
  then have pal2: "pa + BASIC_PAGE_SIZE \<le> USIZE_LIM" using I(3) by simp
  have dis1: "(page pa \<union> frames P) \<inter> (U - page pa) = {}" using I(5) by auto
  have pmm1: "pmm_free_bytes L M (pg_pmm t1) (U - page pa)" using a(4) by (simp add: t1_def)
  obtain t' U' where m: "map_pages hhdm t1 pml ?va pa 1 Size4KB f = Some (Ok (), t')"
    "pt_wf hhdm t' pml (U' \<union> (page pa \<union> frames P))" "pmm_free_bytes L M (pg_pmm t') U'" "U' \<subseteq> U - page pa"
    "card (U - page pa) \<le> card U' + 3 * BASIC_PAGE_SIZE" and leaf_va: "page_leaf hhdm t' pml ?va pa"
    and keep1: "\<And>va' lc ec. va' < 2 ^ 48 \<Longrightarrow> BASIC_PAGE_SIZE dvd va' \<Longrightarrow> va' \<noteq> ?va \<Longrightarrow> ends hhdm t1 pml va' lc ec \<Longrightarrow> ends hhdm t' pml va' lc ec"
    by (rule map_given_frame [OF wf1 pmm1 I(3,4) dis1 n'(2) un card1 a(2) pal2 f]) (rule that)
  have "mem_inv L M hhdm pml t' (P(?va \<mapsto> pa)) U' (R - {n})"
    by (rule mem_inv_insert [OF inv n refl a(2,3) pal m(2,3,4) leaf_va]) (use keep1 in \<open>simp add: ends1\<close>)
  moreover have "card U \<le> card U' + 4 * BASIC_PAGE_SIZE" using m(5) pool_card(2) [OF I(2) a(3)] by simp
  ultimately show ?thesis using a(1,3) m(1,4) that unfolding t1_def pmm_alloc_page_def by blast
qed

text \<open>A run of pages is removed from the tables.\<close>

lemma unmap_leaf_run:
  assumes wf: "pt_wf hhdm t pml V" and va: "BASIC_PAGE_SIZE dvd va"
    and own: "\<And>i. i < n \<Longrightarrow> \<exists>pa. page_leaf hhdm t pml (va + i * BASIC_PAGE_SIZE) pa" and lim: "\<And>i. i < n \<Longrightarrow> va + i * BASIC_PAGE_SIZE < 2 ^ 48"
    and run: "next_level_index va 0 + n \<le> ENTRIES_PER_TABLE" and "0 < n"
  obtains t' where "unmap_pages hhdm t pml va n Size4KB = Some (Ok (), t')" and "pg_pmm t' = pg_pmm t" and "pt_wf hhdm t' pml V"
    and "\<And>i. i < n \<Longrightarrow> translate hhdm t' pml (va + i * BASIC_PAGE_SIZE) = Some None"
    and "\<And>va' lc ec. va' < 2 ^ 48 \<Longrightarrow> BASIC_PAGE_SIZE dvd va' \<Longrightarrow> va' \<notin> {va + i * BASIC_PAGE_SIZE | i. i < n}
      \<Longrightarrow> ends hhdm t pml va' lc ec \<Longrightarrow> ends hhdm t' pml va' lc ec"
proof -
  define S where "S = {va + i * BASIC_PAGE_SIZE | i. i < n}"
  from lim [OF \<open>0 < n\<close>] have va48: "va < 2 ^ 48" "va < USIZE_LIM" by (simp_all add: USIZE_LIM_def)
  have dig: "vdig (va + i * BASIC_PAGE_SIZE) 0 = vdig va 0 + i" if "i < n" for i
    using lim [OF that] va48 by (simp add: vdig_page BASIC_PAGE_SIZE_def)
  have run': "next_level_index va 0 + n \<le> 512" using run by (simp add: ENTRIES_PER_TABLE_def)
  have leafs: "\<exists>p e. walk hhdm t pml (path va 0) = Some p \<and> tbl_read t p (next_level_index va 0 + i) = Some e \<and> bit e 0 \<and> bit e 10 \<and> \<not> bit e 9"
    if i: "i < n" for i
  proof -
    let ?v = "va + i * BASIC_PAGE_SIZE"
    have v: "?v < USIZE_LIM" using lim [OF i] by (simp add: USIZE_LIM_def)
    from own [OF i] obtain e where e: "ends hhdm t pml ?v 0 e" "bit e 0" "bit e 10" "\<not> bit e 9" by (auto simp: page_leaf_def)
    then have "leaf hhdm t pml ?v 0 e" by (auto simp: ends_def split: if_splits)
    moreover have "path ?v 0 = path va 0 \<and> (\<exists>k < n. next_level_index ?v 0 = next_level_index va 0 + k \<and> k = i)"
      using in_run_iff [OF va48(2) v _ run', of "\<lambda>k. k = i"] dig [OF i] i by auto
    ultimately show ?thesis using e by (auto simp: leaf_def)
  qed
  from leafs [OF \<open>0 < n\<close>] obtain p where p: "walk hhdm t pml (path va 0) = Some p" by blast
  have ents: "\<forall>k < n. \<exists>e. tbl_read t p (next_level_index va 0 + k) = Some e \<and> bit e 0 \<and> bit e 10 \<and> \<not> bit e 9"
    using leafs p by fastforce
  have al: "0 = bottom_paging_level Size4KB" "page_size_size Size4KB dvd va" using va by (simp_all add: BASIC_PAGE_SIZE_def)
  from unmap_pages_ok [OF wf al va48(2) run p ents] obtain t' where
    u: "unmap_pages hhdm t pml va n Size4KB = Some (Ok (), t')" "pt_wf hhdm t' pml V" "pg_pmm t' = pg_pmm t"
    "\<forall>va' < USIZE_LIM. translate hhdm t' pml va' = (if \<exists>k < n. vdig va' 0 = vdig va 0 + k then Some None else translate hhdm t pml va')"
    "\<forall>va' < USIZE_LIM. \<forall>lc ec. ends hhdm t pml va' lc ec \<and> \<not> (\<exists>k < n. vdig va' 0 = vdig va 0 + k) \<longrightarrow> ends hhdm t' pml va' lc ec"
    by blast
  have keep: "ends hhdm t' pml va' lc ec" if "va' < 2 ^ 48" "BASIC_PAGE_SIZE dvd va'" "va' \<notin> S" "ends hhdm t pml va' lc ec" for va' lc ec
  proof -
    have "vdig va' 0 \<noteq> vdig va 0 + k" if "k < n" for k
      using page_digit_ne [OF \<open>va' < 2 ^ 48\<close> lim [OF that] \<open>BASIC_PAGE_SIZE dvd va'\<close>] va \<open>va' \<notin> S\<close> that dig [OF that] by (auto simp: S_def)
    moreover have "va' < USIZE_LIM" using that(1) by (simp add: USIZE_LIM_def)
    ultimately show ?thesis using u(5) that(4) by blast
  qed
  have "translate hhdm t' pml (va + i * BASIC_PAGE_SIZE) = Some None" if "i < n" for i
    using u(4) dig [OF that] lim [OF that] that by (auto simp: USIZE_LIM_def)
  from that [OF u(1,3,2) this keep] show ?thesis by (simp add: S_def)
qed

text \<open>The frames of the pages are lent out no more, but not free either.\<close>

lemma unmap_run:
  assumes inv: "mem_inv L M hhdm pml t P U R" and va: "BASIC_PAGE_SIZE dvd va"
    and own: "\<And>i. i < n \<Longrightarrow> va + i * BASIC_PAGE_SIZE \<in> dom P" and run: "next_level_index va 0 + n \<le> ENTRIES_PER_TABLE" and "0 < n"
  obtains t' where "unmap_pages hhdm t pml va n Size4KB = Some (Ok (), t')" and "pg_pmm t' = pg_pmm t"
    and "mem_inv L M hhdm pml t' (P |` (- {va + i * BASIC_PAGE_SIZE | i. i < n})) U R"
    and "pt_wf hhdm t' pml (U \<union> frames P)" and "\<And>i. i < n \<Longrightarrow> translate hhdm t' pml (va + i * BASIC_PAGE_SIZE) = Some None"
proof -
  note I = mem_invD [OF inv]
  define S where "S = {va + i * BASIC_PAGE_SIZE | i. i < n}"
  have own': "\<exists>pa. P (va + i * BASIC_PAGE_SIZE) = Some pa" if "i < n" for i using own [OF that] by blast
  have lim: "va + i * BASIC_PAGE_SIZE < 2 ^ 48" if "i < n" for i using own' [OF that] I(7) by blast
  have leafs: "\<exists>pa. page_leaf hhdm t pml (va + i * BASIC_PAGE_SIZE) pa" if "i < n" for i using own' [OF that] I(7) by blast
  obtain t' where u: "unmap_pages hhdm t pml va n Size4KB = Some (Ok (), t')" "pg_pmm t' = pg_pmm t" "pt_wf hhdm t' pml (U \<union> frames P)"
    and none: "\<And>i. i < n \<Longrightarrow> translate hhdm t' pml (va + i * BASIC_PAGE_SIZE) = Some None"
    and keep: "\<And>va' lc ec. va' < 2 ^ 48 \<Longrightarrow> BASIC_PAGE_SIZE dvd va' \<Longrightarrow> va' \<notin> {va + i * BASIC_PAGE_SIZE | i. i < n} \<Longrightarrow> ends hhdm t pml va' lc ec \<Longrightarrow> ends hhdm t' pml va' lc ec"
    by (rule unmap_leaf_run [OF I(1) va leafs lim run \<open>0 < n\<close>]) (assumption, assumption, rule that)
  note keep = keep [folded S_def]
  have sub: "ran (P |` (- S)) \<subseteq> ran P" by (auto simp: ran_def restrict_map_def)
  then have frs: "frames (P |` (- S)) \<subseteq> frames P" by (auto simp: frames_def)
  have wf': "pt_wf hhdm t' pml (U \<union> frames (P |` (- S)))" using u(3) frs unfolding pt_wf_def by blast
  have "mem_inv L M hhdm pml t' (P |` (- S)) U R"
    unfolding mem_inv_def
  proof (intro conjI wf' I(3,4) allI impI ballI)
    show "pmm_free_bytes L M (pg_pmm t') U" using I(2) u(2) by simp
    show "frames (P |` (- S)) \<inter> U = {}" using frs I(5) by blast
    show "inj_on (P |` (- S)) (dom (P |` (- S)))" using I(6) unfolding inj_on_def restrict_map_def by (auto simp: dom_def split: if_splits)
    fix k assume k: "k \<in> R"
    from I(8) [OF k] show "0 < k" "k < 2 ^ 36" by blast+
    then have k48: "k * BASIC_PAGE_SIZE < 2 ^ 48" by (simp add: BASIC_PAGE_SIZE_def)
    have "k * BASIC_PAGE_SIZE \<notin> S"
    proof
      assume "k * BASIC_PAGE_SIZE \<in> S"
      then obtain i where i: "i < n" "k * BASIC_PAGE_SIZE = va + i * BASIC_PAGE_SIZE" by (auto simp: S_def)
      from own' [OF i(1)] obtain pa where "P (k * BASIC_PAGE_SIZE) = Some pa" unfolding i(2) ..
      from I(7) [OF this] k show False by (simp add: BASIC_PAGE_SIZE_def)
    qed
    from keep [OF k48 dvd_triv_right this] I(8) [OF k] show "unmapped hhdm t' pml (k * BASIC_PAGE_SIZE)" by blast
  next
    fix va' pa' assume "(P |` (- S)) va' = Some pa'"
    then have P: "P va' = Some pa'" "va' \<notin> S" by (auto simp: restrict_map_def split: if_splits)
    from I(7) [OF P(1)] keep [of va', OF _ _ P(2)] show "BASIC_PAGE_SIZE dvd va'" "va' < 2 ^ 48" "va' div BASIC_PAGE_SIZE \<notin> R"
      "BASIC_PAGE_SIZE dvd pa'" "pa' + BASIC_PAGE_SIZE \<le> M" "page_leaf hhdm t' pml va' pa'" unfolding page_leaf_def by blast+
  qed
  then show ?thesis using u(1-3) none that unfolding S_def by blast
qed

subsection \<open>The operations on the abstract state\<close>

definition vaa_next :: "KernelMem \<Rightarrow> nat" where
  "vaa_next k = id_val (hander_next (vaa_hander (km_vaa k)))"

text \<open>The page numbers from the next one to be handed out up to \<open>lim\<close> are unmapped.\<close>

definition km_ok :: "nat \<Rightarrow> nat \<Rightarrow> usize \<Rightarrow> VirtAddr \<Rightarrow> nat \<Rightarrow> KernelMem \<Rightarrow> (nat \<rightharpoonup> nat) \<Rightarrow> nat set \<Rightarrow> bool" where
  "km_ok L M hhdm pml lim k P U \<longleftrightarrow>
     mem_inv L M hhdm pml (km_paging k) P U {vaa_next k..<lim} \<and> lim \<le> id_val (hander_max (vaa_hander (km_vaa k))) \<and> lim \<le> 2 ^ 36"

lemma km_translate:
  assumes "km_ok L M hhdm pml lim k P U" and "P va = Some pa"
  shows "manager_translate hhdm pml k va = Some (Some pa)"
proof -
  from assms(1) have inv: "mem_inv L M hhdm pml (km_paging k) P U {vaa_next k..<lim}" by (simp add: km_ok_def)
  note I = mem_invD [OF inv]
  from page_leaf_translate [OF I(1)] I(7) [OF assms(2)] show ?thesis by (auto simp: manager_translate_def)
qed

lemma align_offset_unit_1: "align_offset_unit n (Suc 0) = Some 0"
  unfolding align_offset_unit_def is_power_of_two_iff by (simp add: exI [of _ 0])

lemma vaa_handout_4k:
  assumes "vaa_next k + n \<le> lim" and "lim \<le> id_val (hander_max (vaa_hander (km_vaa k)))" and "lim \<le> 2 ^ 36"
  obtains v where "vaa_handout (km_vaa k) n (page_alignment Size4KB) = Some (vaa_next k * BASIC_PAGE_SIZE, v)"
    and "id_val (hander_next (vaa_hander v)) = vaa_next k + n" and "hander_max (vaa_hander v) = hander_max (vaa_hander (km_vaa k))"
proof -
  have al: "page_alignment Size4KB = Suc 0" by (simp add: page_alignment_def)
  have "vaa_next k + n < USIZE_LIM" "vaa_next k * 4096 < USIZE_LIM" "n < USIZE_LIM"
    using assms by (simp_all add: USIZE_LIM_def)
  then show ?thesis
    using assms
    by (intro that [of "(km_vaa k) \<lparr> vaa_hander := (vaa_hander (km_vaa k)) \<lparr> hander_next := Id (vaa_next k + n) \<rparr> \<rparr>"]) (auto simp: al vaa_handout_def align_offset_unit_1 id_hander_peek_next_def id_hander_handout_and_skip_def
        vaa_next_def Let_def uadd_ok umul_ok BASIC_PAGE_SIZE_def)
qed

lemma allocate_pages_loop_ok:
  assumes f: "flags_ok Size4KB f" "\<not> get_allocated f"
  shows "mem_inv L M hhdm pml (km_paging k) P U R \<Longrightarrow> distinct is \<Longrightarrow> (+) b ` set is \<subseteq> R \<Longrightarrow> 4 * length is * BASIC_PAGE_SIZE \<le> card U \<Longrightarrow>
    \<exists>k' P' U'. allocate_pages_loop hhdm pml k (b * BASIC_PAGE_SIZE) is 1 f Size4KB = Some (Ok (), k') \<and> km_vaa k' = km_vaa k
      \<and> mem_inv L M hhdm pml (km_paging k') P' U' (R - (+) b ` set is)
      \<and> dom P' = dom P \<union> (\<lambda>i. (b + i) * BASIC_PAGE_SIZE) ` set is \<and> P' |` dom P = P
      \<and> U' \<subseteq> U \<and> frames P' \<subseteq> frames P \<union> U \<and> card U \<le> card U' + 4 * length is * BASIC_PAGE_SIZE"
proof (induction "is" arbitrary: k P U R)
  case Nil
  moreover have "P |` dom P = P" by (rule ext) (simp add: restrict_map_def domIff)
  ultimately show ?case by (auto intro!: exI [of _ P] exI [of _ U])
next
  case (Cons i "is")
  let ?va = "(b + i) * BASIC_PAGE_SIZE"
  have n: "b + i \<in> R" and room: "4 * BASIC_PAGE_SIZE \<le> card U"
    using Cons.prems(3,4) by (auto simp: BASIC_PAGE_SIZE_def)
  from map_fresh_frame [OF Cons.prems(1) n room f] obtain pa m t' U1 where
    st: "buddy_allocate (fst (pg_pmm (km_paging k))) (snd (pg_pmm (km_paging k))) 1 1 = Some (Ok pa, m)"
    "map_pages hhdm ((km_paging k) \<lparr> pg_pmm := m \<rparr>) pml ?va pa 1 Size4KB f = Some (Ok (), t')"
    "mem_inv L M hhdm pml t' (P(?va \<mapsto> pa)) U1 (R - {b + i})" "page pa \<subseteq> U" "U1 \<subseteq> U - page pa"
    "card U \<le> card U1 + 4 * BASIC_PAGE_SIZE" by metis
  define k1 where "k1 = k \<lparr> km_paging := t' \<rparr>"
  have inv1: "mem_inv L M hhdm pml (km_paging k1) (P(?va \<mapsto> pa)) U1 (R - {b + i})" using st(3) by (simp add: k1_def)
  have is1: "distinct is" "(+) b ` set is \<subseteq> R - {b + i}" "4 * length is * BASIC_PAGE_SIZE \<le> card U1"
    using Cons.prems(2-4) st(6) by (auto simp: BASIC_PAGE_SIZE_def)
  from Cons.IH [OF inv1 is1] obtain k' P' U' where r:
    "allocate_pages_loop hhdm pml k1 (b * BASIC_PAGE_SIZE) is 1 f Size4KB = Some (Ok (), k')" "km_vaa k' = km_vaa k1"
    "mem_inv L M hhdm pml (km_paging k') P' U' (R - {b + i} - (+) b ` set is)"
    "dom P' = dom (P(?va \<mapsto> pa)) \<union> (\<lambda>i. (b + i) * BASIC_PAGE_SIZE) ` set is" "P' |` dom (P(?va \<mapsto> pa)) = P(?va \<mapsto> pa)"
    "U' \<subseteq> U1" "frames P' \<subseteq> frames (P(?va \<mapsto> pa)) \<union> U1" "card U1 \<le> card U' + 4 * length is * BASIC_PAGE_SIZE" by blast
  have "P ?va = None" by (rule mem_inv_free_page [OF Cons.prems(1) n])
  then have res: "P' |` dom P = P"
  proof (intro ext)
    fix x
    show "(P' |` dom P) x = P x"
      using fun_cong [OF r(5), of x] \<open>P ?va = None\<close> by (cases "P x") (auto simp: restrict_map_def split: if_splits)
  qed
  have fr: "frames (P(?va \<mapsto> pa)) = page pa \<union> frames P" using \<open>P ?va = None\<close> by (simp add: frames_def)
  have "b + i < 2 ^ 36" using mem_invD(8) [OF Cons.prems(1) n] by blast
  then have u: "umul i 4096 = Some (i * BASIC_PAGE_SIZE)" "addr_add (b * BASIC_PAGE_SIZE) (i * BASIC_PAGE_SIZE) = Some ?va"
    by (simp_all add: BASIC_PAGE_SIZE_def USIZE_LIM_def addr_add_def)
  have run: "allocate_pages_loop hhdm pml k (b * BASIC_PAGE_SIZE) (i # is) 1 f Size4KB = Some (Ok (), k')"
    using r(1) st(1,2) by (simp add: u unwrap_ok_def map_pages_to_def Let_def k1_def)
  have R: "R - {b + i} - (+) b ` set is = R - (+) b ` set (i # is)" by auto
  show ?case
  proof (intro exI conjI)
    show "allocate_pages_loop hhdm pml k (b * BASIC_PAGE_SIZE) (i # is) 1 f Size4KB = Some (Ok (), k')" by (rule run)
    show "mem_inv L M hhdm pml (km_paging k') P' U' (R - (+) b ` set (i # is))" using r(3) unfolding R .
    show "frames P' \<subseteq> frames P \<union> U" using r(7) st(4,5) unfolding fr by blast
    show "P' |` dom P = P" by (rule res)
    show "card U \<le> card U' + 4 * length (i # is) * BASIC_PAGE_SIZE" using r(8) st(6) by (simp add: BASIC_PAGE_SIZE_def)
  qed (use r st in \<open>auto simp: k1_def\<close>)
qed

text \<open>A small state: \<open>2 ^ n\<close> free frames, an empty top-level table, and page numbers from 16 on to hand out.\<close>

lemma km_demo_at:
  assumes n: "n \<le> 16" and lim: "lim \<le> 2 ^ 36"
  shows "\<exists>k. km_ok (Suc n) (bsz n) 0x100000 (0x100000 + bsz n) lim k Map.empty {..<bsz n} \<and> vaa_next k = 16"
proof -
  let ?h = "\<lambda>_. Some \<lparr> dn_data = 0, dn_next = None, dn_prev = None \<rparr> :: nat DNode option" and ?pml = "0x100000 + bsz n"
  have M: "bsz n = 2 ^ n * 4096" by (simp add: bsz_def power_add)
  have "(2 :: nat) ^ n \<le> 2 ^ 16" using n by (intro power_increasing) simp_all
  then have M': "bsz n \<le> 2 ^ 28" by (simp add: M)
  then have small: "[0..<2 ^ n + 2 + n + 1] \<noteq> []" "2 ^ n + 2 + n + 1 < USIZE_LIM" using n by (simp_all add: M USIZE_LIM_def)
  obtain h :: nodes and fl where l: "linked_list h fl [0..<2 ^ n + 2 + n + 1]"
    using push_nodes_spec [OF linked_list_new [of ?h], of "[0..<2 ^ n + 2 + n + 1]"] small by (auto simp del: upt_Suc)
  have "mem_limits (Suc n) (bsz n)" using n by (simp add: mem_limits_def bsz_def)
  from pmm_ok_fresh [OF l this] have ok: "pmm_ok (Suc n) (bsz n) h \<lparr> ba_zones = create_zones (Suc n), ba_freelist = fl \<rparr> {}"
    by (simp add: BASIC_PAGE_SIZE_def M del: upt_Suc)
  from pmm_free [OF ok, of "2 ^ n" 0] obtain h1 b1 F where F: "pmm_ok (Suc n) (bsz n) h1 b1 F" "bytes F = blk n 0" by auto
  define t where "t = \<lparr> pg_tables = [?pml \<mapsto> replicate ENTRIES_PER_TABLE 0], pg_pmm = (h1, b1) \<rparr>"
  have blk: "blk n 0 = {..<bsz n}" by (auto simp: blk_def)
  have pm: "pmm_free_bytes (Suc n) (bsz n) (pg_pmm t) {..<bsz n}" using F blk by (auto simp: t_def pmm_free_bytes_def)
  have tab: "pg_tables t ?pml = Some (replicate ENTRIES_PER_TABLE 0)" by (simp add: t_def)
  have "page (?pml - 0x100000) \<inter> {..<bsz n} = {}" by (auto simp: page_def)
  from fresh_root_wf(1) [OF tab _ _ _ this] have wf: "pt_wf 0x100000 t ?pml {..<bsz n}" using M' by (simp add: USIZE_LIM_def)
  have "leaf 0x100000 t ?pml va 3 0" for va
    using next_level_index_lt fresh_root_walk [OF tab] by (simp add: leaf_def path_simps is_table_def)
  then have un: "unmapped 0x100000 t ?pml va" for va by (auto simp: ends_def)
  define k where "k = \<lparr> km_vaa = \<lparr> vaa_hander = id_hander_new_starting_from (Id 16) MAX_ID \<rparr>, km_paging = t \<rparr>"
  have "mem_inv (Suc n) (bsz n) 0x100000 ?pml t Map.empty {..<bsz n} {16..<lim}"
    unfolding mem_inv_def using wf pm un M' lim by (auto simp: frames_def USIZE_LIM_def)
  then show ?thesis
    using lim by (intro exI [of _ k]) (simp add: km_ok_def vaa_next_def k_def id_hander_new_starting_from_def MAX_ID_def USIZE_LIM_def)
qed

lemma km_demo:
  "\<exists>k. km_ok 4 0x8000 0x100000 0x108000 32 k Map.empty {..<0x8000} \<and> vaa_next k = 16"
  using km_demo_at [of 3 32] by (simp add: bsz_def)

lemma flags_rw: "flags_ok Size4KB (set_read_write flags_new True)" "\<not> get_allocated (set_read_write flags_new True)"
  by (auto simp: flags_ok_def flag_bits flags_new_def FLAGS_NONE_def)

lemma km_demo_pages:
  "\<exists>k P U pa qa. km_ok 4 0x8000 0x100000 0x108000 32 k P U \<and> dom P = {0x10000, 0x11000} \<and> P 0x10000 = Some pa \<and> P 0x11000 = Some qa"
proof -
  obtain k where k: "km_ok 4 0x8000 0x100000 0x108000 32 k Map.empty {..<0x8000}" "vaa_next k = 16" using km_demo by blast
  then have inv: "mem_inv 4 0x8000 0x100000 0x108000 (km_paging k) Map.empty {..<0x8000} {16..<32}"
    and lim: "32 \<le> id_val (hander_max (vaa_hander (km_vaa k)))" by (auto simp: km_ok_def)
  have side: "distinct [0, 1::nat]" "(+) 16 ` set [0, 1] \<subseteq> {16..<32 :: nat}" "4 * length [0, 1::nat] * BASIC_PAGE_SIZE \<le> card {..<0x8000 :: nat}"
    by (simp_all add: BASIC_PAGE_SIZE_def)
  from allocate_pages_loop_ok [OF flags_rw inv side] obtain k' :: KernelMem and P' U' where r: "km_vaa k' = km_vaa k"
    "mem_inv 4 0x8000 0x100000 0x108000 (km_paging k') P' U' ({16..<32} - (+) 16 ` set [0, 1])"
    "dom P' = dom (Map.empty :: nat \<rightharpoonup> nat) \<union> (\<lambda>i. (16 + i) * BASIC_PAGE_SIZE) ` set [0, 1]" by blast
  have d: "dom P' = {0x10000, 0x11000}" using r(3) by (simp add: BASIC_PAGE_SIZE_def insert_commute)
  then obtain pa qa where "P' 0x10000 = Some pa" "P' 0x11000 = Some qa" by blast
  moreover define k1 where "k1 = k' \<lparr> km_vaa := (km_vaa k') \<lparr> vaa_hander := (vaa_hander (km_vaa k')) \<lparr> hander_next := Id 18 \<rparr> \<rparr> \<rparr>"
  moreover have "{16..<32} - (+) 16 ` set [0, 1] = {18..<32 :: nat}" by auto
  ultimately have "km_ok 4 0x8000 0x100000 0x108000 32 k1 P' U'"
    using r(1,2) lim by (simp add: km_ok_def vaa_next_def k1_def)
  then show ?thesis using d \<open>P' 0x10000 = Some pa\<close> \<open>P' 0x11000 = Some qa\<close> by blast
qed

lemma new_pages_eq:
  "(\<lambda>i. (b + i) * BASIC_PAGE_SIZE) ` {0..<n} = {b * BASIC_PAGE_SIZE + i * BASIC_PAGE_SIZE | i. i < n}"
  by (auto simp: algebra_simps image_def)

lemma allocate_pages_core:
  assumes "km_ok L M hhdm pml lim k P U" and "0 < n" and "vaa_next k + n \<le> lim" and "4 * n * BASIC_PAGE_SIZE \<le> card U"
    and "flags_ok Size4KB f" and "\<not> get_allocated f"
  shows "\<exists>va k' P' U'. allocate_pages hhdm pml k n f Size4KB = Some (Ok va, k') \<and> va = vaa_next k * BASIC_PAGE_SIZE
    \<and> km_ok L M hhdm pml lim k' P' U' \<and> vaa_next k' = vaa_next k + n
    \<and> dom P' = dom P \<union> {va + i * BASIC_PAGE_SIZE | i. i < n} \<and> dom P \<inter> {va + i * BASIC_PAGE_SIZE | i. i < n} = {}
    \<and> P' |` dom P = P \<and> frames P' \<subseteq> frames P \<union> U \<and> U' \<subseteq> U - frames P'
    \<and> card U \<le> card U' + 4 * n * BASIC_PAGE_SIZE
    \<and> (\<forall>i < n. manager_translate hhdm pml k' (va + i * BASIC_PAGE_SIZE) = Some (P' (va + i * BASIC_PAGE_SIZE)))"
proof -
  let ?b = "vaa_next k"
  from assms(1) have inv: "mem_inv L M hhdm pml (km_paging k) P U {?b..<lim}" and lim: "lim \<le> id_val (hander_max (vaa_hander (km_vaa k)))" "lim \<le> 2 ^ 36"
    by (auto simp: km_ok_def)
  from vaa_handout_4k [OF assms(3) lim] obtain v where
    v: "vaa_handout (km_vaa k) n (page_alignment Size4KB) = Some (?b * BASIC_PAGE_SIZE, v)"
    "id_val (hander_next (vaa_hander v)) = ?b + n" "hander_max (vaa_hander v) = hander_max (vaa_hander (km_vaa k))" by blast
  define k1 where "k1 = k \<lparr> km_vaa := v \<rparr>"
  have inv1: "mem_inv L M hhdm pml (km_paging k1) P U {?b..<lim}" using inv by (simp add: k1_def)
  have is1: "distinct [0..<n]" "(+) ?b ` set [0..<n] \<subseteq> {?b..<lim}" "4 * length [0..<n] * BASIC_PAGE_SIZE \<le> card U"
    using assms(3,4) by auto
  from allocate_pages_loop_ok [OF assms(5,6) inv1 is1] obtain k' P' U' where r:
    "allocate_pages_loop hhdm pml k1 (?b * BASIC_PAGE_SIZE) [0..<n] 1 f Size4KB = Some (Ok (), k')" "km_vaa k' = v"
    "mem_inv L M hhdm pml (km_paging k') P' U' ({?b..<lim} - (+) ?b ` set [0..<n])"
    "dom P' = dom P \<union> (\<lambda>i. (?b + i) * BASIC_PAGE_SIZE) ` {0..<n}" "P' |` dom P = P" "U' \<subseteq> U" "frames P' \<subseteq> frames P \<union> U"
    "card U \<le> card U' + 4 * n * BASIC_PAGE_SIZE" by (auto simp: k1_def)
  have R: "{?b..<lim} - (+) ?b ` set [0..<n] = {?b + n..<lim}"
    unfolding set_upt image_add_atLeastLessThan by auto
  have b0: "0 < ?b" using mem_invD(8) [OF inv, of ?b] assms(2,3) by simp
  have next': "vaa_next k' = ?b + n" using r(2) v(2) by (simp add: vaa_next_def)
  have ok': "km_ok L M hhdm pml lim k' P' U'"
    using r(2,3) v(3) lim unfolding R by (simp add: km_ok_def next')
  have alloc: "allocate_pages hhdm pml k n f Size4KB = Some (Ok (?b * BASIC_PAGE_SIZE), k')"
    using v(1) r(1) b0 by (simp add: allocate_pages_def k1_def to_default_page_count_def Let_def BASIC_PAGE_SIZE_def)
  have fresh: "dom P \<inter> (\<lambda>i. (?b + i) * BASIC_PAGE_SIZE) ` {0..<n} = {}"
  proof -
    have "x \<noteq> (?b + i) * BASIC_PAGE_SIZE" if "P x = Some q" "i < n" for x q i
      using mem_invD(7) [OF inv that(1)] that(2) assms(3) by (auto simp: BASIC_PAGE_SIZE_def)
    then show ?thesis by fastforce
  qed
  have tr: "manager_translate hhdm pml k' (?b * BASIC_PAGE_SIZE + i * BASIC_PAGE_SIZE) = Some (P' (?b * BASIC_PAGE_SIZE + i * BASIC_PAGE_SIZE))"
    if "i < n" for i
  proof -
    have "?b * BASIC_PAGE_SIZE + i * BASIC_PAGE_SIZE \<in> dom P'" using r(4) that unfolding new_pages_eq by blast
    then show ?thesis using km_translate [OF ok'] by force
  qed
  show ?thesis
    using alloc ok' next' r(4-8) fresh tr mem_invD(5) [OF r(3)] unfolding new_pages_eq
    by (intro exI [of _ "?b * BASIC_PAGE_SIZE"] exI [of _ k'] exI [of _ P'] exI [of _ U']) auto
qed

lemma allocate_one_page:
  assumes "km_ok L M hhdm pml lim k P U" and "vaa_next k + 1 \<le> lim" and "4 * BASIC_PAGE_SIZE \<le> card U"
    and "flags_ok Size4KB f" and "\<not> get_allocated f"
  shows "\<exists>k' pa U'. allocate_pages hhdm pml k 1 f Size4KB = Some (Ok (vaa_next k * BASIC_PAGE_SIZE), k') \<and> vaa_next k * BASIC_PAGE_SIZE \<notin> dom P
    \<and> 0 < vaa_next k \<and> vaa_next k < 2 ^ 36 \<and> km_ok L M hhdm pml lim k' (P(vaa_next k * BASIC_PAGE_SIZE \<mapsto> pa)) U'
    \<and> vaa_next k' = vaa_next k + 1 \<and> card U \<le> card U' + 4 * BASIC_PAGE_SIZE"
proof -
  let ?va = "vaa_next k * BASIC_PAGE_SIZE"
  have S: "{?va + i * BASIC_PAGE_SIZE | i. i < 1} = {?va}" by auto
  have "4 * 1 * BASIC_PAGE_SIZE \<le> card U" using assms(3) by simp
  from allocate_pages_core [OF assms(1) zero_less_one assms(2) this assms(4,5)] obtain k' P' U' where
    a: "allocate_pages hhdm pml k 1 f Size4KB = Some (Ok ?va, k')" "km_ok L M hhdm pml lim k' P' U'" "vaa_next k' = vaa_next k + 1"
    "dom P' = dom P \<union> {?va}" "dom P \<inter> {?va} = {}" "P' |` dom P = P" "card U \<le> card U' + 4 * BASIC_PAGE_SIZE"
    unfolding S by auto
  from a(4) obtain pa where "P' ?va = Some pa" by blast
  have "P' = P(?va \<mapsto> pa)"
  proof (rule ext)
    fix x
    show "P' x = (P(?va \<mapsto> pa)) x"
      using fun_cong [OF a(6), of x] a(4) \<open>P' ?va = Some pa\<close> by (cases "x \<in> dom P'") (auto simp: restrict_map_def dom_def split: if_splits)
  qed
  moreover have "0 < vaa_next k" "vaa_next k < 2 ^ 36"
    using assms(1,2) mem_invD(8) [of L M hhdm pml "km_paging k" P U "{vaa_next k..<lim}" "vaa_next k"] by (auto simp: km_ok_def)
  ultimately show ?thesis using a by blast
qed

text \<open>C10: With four free frames for every page asked for (the page and, at worst, three tables),
  \<open>allocate_pages\<close> of 4 KB pages never panics or fails.  It returns the start of a run of
  addresses that were never handed out before, backs every page of it with a frame of its own
  taken from the free memory, and leaves the page and frame of every other allocation as they were.\<close>
theorem allocate_pages_correct:
  assumes "km_ok L M hhdm pml lim k P U" and "0 < n" and "vaa_next k + n \<le> lim" and "4 * n * BASIC_PAGE_SIZE \<le> card U"
    and "flags_ok Size4KB f" and "\<not> get_allocated f"
  shows "\<exists>va k' P' U'. allocate_pages hhdm pml k n f Size4KB = Some (Ok va, k') \<and> va = vaa_next k * BASIC_PAGE_SIZE
    \<and> km_ok L M hhdm pml lim k' P' U' \<and> vaa_next k' = vaa_next k + n
    \<and> dom P' = dom P \<union> {va + i * BASIC_PAGE_SIZE | i. i < n} \<and> dom P \<inter> {va + i * BASIC_PAGE_SIZE | i. i < n} = {}
    \<and> P' |` dom P = P \<and> frames P' \<subseteq> frames P \<union> U \<and> U' \<subseteq> U - frames P'
    \<and> (\<forall>i < n. manager_translate hhdm pml k' (va + i * BASIC_PAGE_SIZE) = Some (P' (va + i * BASIC_PAGE_SIZE)))"
  using allocate_pages_core [OF assms] by blast

theorem allocate_pages_correct_witness:
  "\<exists>k k' pa. allocate_pages 0x100000 0x108000 k 2 (set_read_write flags_new True) Size4KB = Some (Ok 0x10000, k')
    \<and> manager_translate 0x100000 0x108000 k' 0x11000 = Some (Some pa)"
proof -
  obtain k where k: "km_ok 4 0x8000 0x100000 0x108000 32 k Map.empty {..<0x8000}" "vaa_next k = 16" using km_demo by blast
  have side: "(0::nat) < 2" "vaa_next k + 2 \<le> 32" "4 * 2 * BASIC_PAGE_SIZE \<le> card {..<0x8000 :: nat}"
    using k(2) by (simp_all add: BASIC_PAGE_SIZE_def)
  obtain k' P' where a: "allocate_pages 0x100000 0x108000 k 2 (set_read_write flags_new True) Size4KB = Some (Ok 0x10000, k')"
    "dom P' = {0x10000 + i * BASIC_PAGE_SIZE | i. i < 2}"
    "\<forall>i < 2. manager_translate 0x100000 0x108000 k' (0x10000 + i * BASIC_PAGE_SIZE) = Some (P' (0x10000 + i * BASIC_PAGE_SIZE))"
    using allocate_pages_correct [OF k(1) side flags_rw] k(2) by (auto simp: BASIC_PAGE_SIZE_def)
  have "0x10000 + 1 * BASIC_PAGE_SIZE \<in> dom P'" unfolding a(2) by (intro CollectI exI [of _ 1]) simp
  with a(3) have "\<exists>pa. manager_translate 0x100000 0x108000 k' 0x11000 = Some (Some pa)"
    by (force simp: BASIC_PAGE_SIZE_def dest: spec [of _ 1])
  with a(1) show ?thesis by blast
qed

text \<open>The first round of the loop of \<open>free_pages\<close>: all pages are removed from the tables, the frame of
  the first goes back.\<close>

lemma free_first_round:
  assumes ok: "km_ok L M hhdm pml lim k P U" and n: "0 < n" and own: "\<And>i. i < n \<Longrightarrow> va + i * BASIC_PAGE_SIZE \<in> dom P"
    and run: "next_level_index va 0 + n \<le> ENTRIES_PER_TABLE" and pa: "P va = Some pa"
  obtains k' where "free_pages_loop hhdm pml k va (0 # js) n Size4KB = free_pages_loop hhdm pml k' va js n Size4KB"
    and "km_ok L M hhdm pml lim k' (P |` (- {va + i * BASIC_PAGE_SIZE | i. i < n})) (U \<union> page pa)" and "page pa \<inter> U = {}"
    and "vaa_next k' = vaa_next k" and "\<forall>i < n. manager_translate hhdm pml k' (va + i * BASIC_PAGE_SIZE) = Some None"
proof -
  let ?P = "P |` (- {va + i * BASIC_PAGE_SIZE | i. i < n})"
  from ok have inv: "mem_inv L M hhdm pml (km_paging k) P U {vaa_next k..<lim}" by (simp add: km_ok_def)
  note I = mem_invD [OF inv]
  have va: "BASIC_PAGE_SIZE dvd va" "va < 2 ^ 48" and pa': "BASIC_PAGE_SIZE dvd pa" "pa + BASIC_PAGE_SIZE \<le> M" using I(7) [OF pa] by simp_all
  have sub: "page pa \<subseteq> frames P" using pa by (auto simp: frames_def ran_def)
  from unmap_run [OF inv va(1) own run n] obtain t' where u: "unmap_pages hhdm (km_paging k) pml va n Size4KB = Some (Ok (), t')"
    "pg_pmm t' = pg_pmm (km_paging k)" "mem_inv L M hhdm pml t' ?P U {vaa_next k..<lim}" "pt_wf hhdm t' pml (U \<union> frames P)"
    "\<And>i. i < n \<Longrightarrow> translate hhdm t' pml (va + i * BASIC_PAGE_SIZE) = Some None" by blast
  have fr: "frames ?P \<subseteq> frames P" by (auto simp: frames_def ran_def restrict_map_def split: if_splits)
  have apart: "page pa \<inter> frames ?P = {}"
  proof -
    have "page pa \<inter> page q = {}" if q: "?P w = Some q" for w q
    proof -
      have w: "P w = Some q" "w \<noteq> va" using q n by (auto simp: restrict_map_def split: if_splits)
      then have "q \<noteq> pa" using inj_onD [OF I(6), of va w] pa by auto
      then show ?thesis using page_disjoint [OF pa'(1)] I(7) [OF w(1)] by blast
    qed
    then show ?thesis by (auto simp: frames_def ran_def)
  qed
  have dis: "page pa \<inter> U = {}" using sub I(5) by blast
  have wf2: "pt_wf hhdm t' pml (U \<union> page pa \<union> frames ?P)" using u(4) sub fr unfolding pt_wf_def by blast
  from free_frame [OF u(3) wf2 pa' dis apart] obtain m where
    m: "buddy_free (fst (pg_pmm t')) (snd (pg_pmm t')) pa 1 = Some (Ok (), m)"
    "mem_inv L M hhdm pml (t' \<lparr> pg_pmm := m \<rparr>) ?P (U \<union> page pa) {vaa_next k..<lim}" by blast
  define k' where "k' = k \<lparr> km_paging := t' \<lparr> pg_pmm := m \<rparr> \<rparr>"
  have tr: "manager_translate hhdm pml k va = Some (Some pa)" by (rule km_translate [OF ok pa])
  have add: "addr_add va 0 = Some va" using va(2) by (simp add: addr_add_def USIZE_LIM_def)
  have "free_pages_loop hhdm pml k va (0 # js) n Size4KB = free_pages_loop hhdm pml k' va js n Size4KB"
    using m(1) u(1) by (simp add: umul_ok USIZE_LIM_def add tr manager_unmap_pages_def k'_def Let_def to_default_page_count_def)
  moreover have "vaa_next k' = vaa_next k" by (simp add: vaa_next_def k'_def)
  moreover then have "km_ok L M hhdm pml lim k' ?P (U \<union> page pa)" using ok m(2) by (simp add: km_ok_def k'_def)
  moreover have "manager_translate hhdm pml k' (va + i * BASIC_PAGE_SIZE) = Some None" if "i < n" for i
    using u(5) [OF that] translate_pmm [OF u(4)] by (simp add: manager_translate_def k'_def)
  ultimately show ?thesis using that dis by blast
qed

text \<open>C11: Freeing one 4 KB page never panics or fails: the page no longer translates, exactly its frame
  goes back to the free memory, and every other allocation stays as it is.\<close>
theorem free_page_correct:
  assumes "km_ok L M hhdm pml lim k P U" and "P va = Some pa"
  shows "\<exists>k'. free_pages hhdm pml k va 1 Size4KB = Some (Ok (), k') \<and> km_ok L M hhdm pml lim k' (P(va := None)) (U \<union> page pa)
    \<and> page pa \<inter> U = {} \<and> vaa_next k' = vaa_next k \<and> manager_translate hhdm pml k' va = Some None"
proof -
  have S: "{va + i * BASIC_PAGE_SIZE | i. i < 1} = {va}" by auto
  have run: "next_level_index va 0 + 1 \<le> ENTRIES_PER_TABLE" using next_level_index_lt [of va 0] by simp
  have own: "\<And>i. i < 1 \<Longrightarrow> va + i * BASIC_PAGE_SIZE \<in> dom P" using assms(2) by auto
  obtain k' where "free_pages_loop hhdm pml k va [0] 1 Size4KB = free_pages_loop hhdm pml k' va [] 1 Size4KB"
    "km_ok L M hhdm pml lim k' (P |` (- {va})) (U \<union> page pa)" "page pa \<inter> U = {}" "vaa_next k' = vaa_next k"
    "\<forall>i < 1. manager_translate hhdm pml k' (va + i * BASIC_PAGE_SIZE) = Some None"
    by (rule free_first_round [OF assms(1) zero_less_one own run assms(2), unfolded S, of "[]"]) blast
  moreover have "P |` (- {va}) = P(va := None)" by (auto simp: restrict_map_def)
  ultimately show ?thesis by (auto simp: free_pages_def)
qed

theorem free_page_correct_witness:
  "\<exists>k k'. (\<exists>pa. manager_translate 0x100000 0x108000 k 0x10000 = Some (Some pa))
    \<and> free_pages 0x100000 0x108000 k 0x10000 1 Size4KB = Some (Ok (), k')
    \<and> manager_translate 0x100000 0x108000 k' 0x10000 = Some None"
proof -
  obtain k P U pa where k: "km_ok 4 0x8000 0x100000 0x108000 32 k P U" "P 0x10000 = Some pa" using km_demo_pages by blast
  from free_page_correct [OF k] km_translate [OF k] show ?thesis by blast
qed

text \<open>C33: Freeing two or more pages with one call, all in one page table, fails: the first round of the loop removes all of them
  from the tables and frees the frame of the first, and the second round, which translates the first
  address again, reports \<open>PageNotPresent\<close>.  The frames of the remaining pages are lost: no address
  translates to them and they are not free.\<close>
theorem free_pages_leaks:
  assumes "km_ok L M hhdm pml lim k P U" and "1 < n" and "\<forall>i < n. va + i * BASIC_PAGE_SIZE \<in> dom P"
    and "next_level_index va 0 + n \<le> ENTRIES_PER_TABLE" and "P va = Some pa"
  shows "\<exists>k'. free_pages hhdm pml k va n Size4KB = Some (Err PageNotPresent, k')
    \<and> km_ok L M hhdm pml lim k' (P |` (- {va + i * BASIC_PAGE_SIZE | i. i < n})) (U \<union> page pa)
    \<and> (\<forall>i < n. manager_translate hhdm pml k' (va + i * BASIC_PAGE_SIZE) = Some None)
    \<and> (\<forall>i q. 0 < i \<and> i < n \<and> P (va + i * BASIC_PAGE_SIZE) = Some q \<longrightarrow> page q \<inter> (U \<union> page pa) = {})"
proof -
  from assms(1) have inv: "mem_inv L M hhdm pml (km_paging k) P U {vaa_next k..<lim}" by (simp add: km_ok_def)
  note I = mem_invD [OF inv]
  have n: "0 < n" using assms(2) by simp
  have upt: "[0..<n] = 0 # 1 # [2..<n]" using assms(2) by (simp add: upt_conv_Cons numeral_2_eq_2)
  have own: "\<And>i. i < n \<Longrightarrow> va + i * BASIC_PAGE_SIZE \<in> dom P" using assms(3) by blast
  obtain k' where k': "free_pages_loop hhdm pml k va (0 # 1 # [2..<n]) n Size4KB = free_pages_loop hhdm pml k' va (1 # [2..<n]) n Size4KB"
    "km_ok L M hhdm pml lim k' (P |` (- {va + i * BASIC_PAGE_SIZE | i. i < n})) (U \<union> page pa)"
    "\<forall>i < n. manager_translate hhdm pml k' (va + i * BASIC_PAGE_SIZE) = Some None"
    by (rule free_first_round [OF assms(1) n own assms(4,5), of "1 # [2..<n]"]) blast
  have va: "va < 2 ^ 48" using I(7) [OF assms(5)] by blast
  have "free_pages_loop hhdm pml k' va (1 # [2..<n]) n Size4KB = Some (Err PageNotPresent, k')"
    using spec [OF k'(3), of 0] n va by (simp add: umul_ok uadd_ok addr_add_def USIZE_LIM_def)
  then have "free_pages hhdm pml k va n Size4KB = Some (Err PageNotPresent, k')" using k'(1) by (simp only: free_pages_def upt)
  moreover have "page q \<inter> (U \<union> page pa) = {}" if "0 < i" "i < n" "P (va + i * BASIC_PAGE_SIZE) = Some q" for i q
  proof -
    have "va + i * BASIC_PAGE_SIZE \<noteq> va" using that(1) by (simp add: BASIC_PAGE_SIZE_def)
    then have "q \<noteq> pa" using inj_onD [OF I(6), of va "va + i * BASIC_PAGE_SIZE"] that(3) assms(5) by auto
    then have "page q \<inter> page pa = {}" using page_disjoint I(7) [OF that(3)] I(7) [OF assms(5)] by blast
    moreover have "page q \<subseteq> frames P" using that(3) by (auto simp: frames_def ran_def)
    ultimately show ?thesis using I(5) by blast
  qed
  ultimately show ?thesis using k'(2,3) by blast
qed

theorem free_pages_leaks_witness:
  "\<exists>k k'. (\<exists>qa. manager_translate 0x100000 0x108000 k 0x11000 = Some (Some qa))
    \<and> free_pages 0x100000 0x108000 k 0x10000 2 Size4KB = Some (Err PageNotPresent, k')
    \<and> manager_translate 0x100000 0x108000 k' 0x11000 = Some None"
proof -
  obtain k P U pa qa where k: "km_ok 4 0x8000 0x100000 0x108000 32 k P U" "dom P = {0x10000, 0x11000}"
    "P 0x10000 = Some pa" "P 0x11000 = Some qa" using km_demo_pages by blast
  have own: "\<forall>i < 2. 0x10000 + i * BASIC_PAGE_SIZE \<in> dom P" unfolding k(2) by (auto simp: BASIC_PAGE_SIZE_def less_2_cases_iff)
  have idx: "next_level_index 0x10000 0 + 2 \<le> ENTRIES_PER_TABLE"
    by (simp add: next_level_index_vdig USIZE_LIM_def vdig_def ENTRIES_PER_TABLE_def)
  from free_pages_leaks [OF k(1) _ own idx k(3)] obtain k' where
    k': "free_pages 0x100000 0x108000 k 0x10000 2 Size4KB = Some (Err PageNotPresent, k')"
    "\<forall>i < 2. manager_translate 0x100000 0x108000 k' (0x10000 + i * BASIC_PAGE_SIZE) = Some None" by auto
  from k'(2) have "manager_translate 0x100000 0x108000 k' 0x11000 = Some None"
    by (force simp: BASIC_PAGE_SIZE_def dest: spec [of _ 1])
  with k'(1) km_translate [OF k(1,4)] show ?thesis by blast
qed

text \<open>Pages larger than 4 KB: whenever the next page number is not a multiple of the alignment, the skip
  is \<open>usize::MAX\<close> and adding the page count overflows.\<close>

lemma vaa_handout_unaligned:
  assumes "0 < n" and "id_val (hander_next (vaa_hander v)) mod a \<noteq> 0"
  shows "vaa_handout v n a = None"
proof -
  have "uadd (USIZE_LIM - 1) n = None" using assms(1) by (auto simp: uadd_def USIZE_LIM_def)
  then show ?thesis using assms(2)
    by (cases "is_power_of_two a") (auto simp: vaa_handout_def align_offset_unit_def id_hander_peek_next_def ensure_def Let_def)
qed

lemma allocate_large_page_panics:
  assumes "0 < n" and "vaa_next k mod 512 \<noteq> 0"
  shows "allocate_pages hhdm pml k n f Size2MB = None"
  using vaa_handout_unaligned [OF assms(1), of "km_vaa k" "page_alignment Size2MB"] assms(2)
  by (simp add: allocate_pages_def vaa_next_def page_alignment_def)

end
