(* ===== verification/Kernel_Heap.thy ===== *)
theory Kernel_Heap
  imports Heap Paging_Manager
begin

text \<open>
  The heap of \<open>slab/src/heap.rs\<close> on top of the kernel's paging: the functions \<open>allocate_pages\<close> and
  \<open>free_pages\<close> at the end of \<open>slab/src/internal.rs\<close>, through which every slab gets its page from the
  paging manager, and what the composition guarantees.
\<close>

definition slab_allocate_pages :: "usize \<Rightarrow> VirtAddr \<Rightarrow> KernelMem \<Rightarrow> usize \<Rightarrow> ((PagingError + nat) \<times> KernelMem) option" where
  "slab_allocate_pages hhdm pml k pages_per_slab =
     allocate_pages hhdm pml k pages_per_slab (set_read_write flags_new True) Size4KB"

definition slab_free_pages :: "usize \<Rightarrow> VirtAddr \<Rightarrow> KernelMem \<Rightarrow> nat \<Rightarrow> usize \<Rightarrow> ((PagingError + unit) \<times> KernelMem) option" where
  "slab_free_pages hhdm pml k ptr pages_per_slab = free_pages hhdm pml k ptr pages_per_slab Size4KB"

text \<open>The kernel's memory as a page source: the pages handed out are those with a frame, and each of the
  \<open>n\<close> further requests has an address and four frames.\<close>

definition kernel_source_ok :: "nat \<Rightarrow> nat \<Rightarrow> usize \<Rightarrow> VirtAddr \<Rightarrow> nat \<Rightarrow> KernelMem \<Rightarrow> nat set \<Rightarrow> nat \<Rightarrow> bool" where
  "kernel_source_ok L M hhdm pml lim k A n \<longleftrightarrow>
     (\<exists>P U. km_ok L M hhdm pml lim k P U \<and> A = dom P \<and> vaa_next k + n \<le> lim \<and> 4 * n * BASIC_PAGE_SIZE \<le> card U)"

interpretation kernel_pages: page_source "slab_allocate_pages hhdm pml" "kernel_source_ok L M hhdm pml lim" for hhdm pml L M lim
proof unfold_locales
  fix k A n
  assume "kernel_source_ok L M hhdm pml lim k A (Suc n)"
  then obtain P U where k: "km_ok L M hhdm pml lim k P U" "A = dom P" "vaa_next k + Suc n \<le> lim" "4 * Suc n * BASIC_PAGE_SIZE \<le> card U"
    by (auto simp: kernel_source_ok_def)
  then show "kernel_source_ok L M hhdm pml lim k A n" by (fastforce simp: kernel_source_ok_def BASIC_PAGE_SIZE_def)
  let ?va = "vaa_next k * BASIC_PAGE_SIZE"
  have one: "vaa_next k + 1 \<le> lim" "4 * BASIC_PAGE_SIZE \<le> card U" using k(3,4) by (simp_all add: BASIC_PAGE_SIZE_def)
  from allocate_one_page [OF k(1) one flags_rw] obtain k' pa U' where
    a: "allocate_pages hhdm pml k 1 (set_read_write flags_new True) Size4KB = Some (Ok ?va, k')" "?va \<notin> dom P" "0 < vaa_next k" "vaa_next k < 2 ^ 36"
    "km_ok L M hhdm pml lim k' (P(?va \<mapsto> pa)) U'" "vaa_next k' = vaa_next k + 1" "card U \<le> card U' + 4 * BASIC_PAGE_SIZE" by blast
  have "page_ok ?va" using a(3,4) by (simp add: page_ok_def PAGE_SIZE_def BASIC_PAGE_SIZE_def USIZE_LIM_def)
  moreover have "kernel_source_ok L M hhdm pml lim k' (insert ?va A) n"
    unfolding kernel_source_ok_def using a(5-7) k(2-4) by (intro exI [of _ "P(?va \<mapsto> pa)"] exI [of _ U']) (simp add: BASIC_PAGE_SIZE_def)
  ultimately show "\<exists>b k'. slab_allocate_pages hhdm pml k 1 = Some (Ok b, k') \<and> page_ok b \<and> b \<notin> A \<and> kernel_source_ok L M hhdm pml lim k' (insert b A) n"
    using a(1,2) k(2) unfolding slab_allocate_pages_def by blast
qed

text \<open>C9: Any sequence of heap allocations of at most 2048 bytes each succeeds while the kernel has an
  address and four frames left for each: no call returns null or panics.  The blocks are aligned and
  large enough, no two of them overlap, none overlaps a block that was live before, and every
  block lies inside a page that the page tables map to a frame of its own.\<close>
theorem kernel_heap_allocations:
  assumes "heap_ok h" and "km_ok L M hhdm pml lim k P U" and "heap_pages h \<subseteq> dom P"
    and "vaa_next k + length ls \<le> lim" and "4 * length ls * BASIC_PAGE_SIZE \<le> card U"
    and "\<forall>l \<in> set ls. is_power_of_two (ly_align l) \<and> ly_align l \<le> 2048 \<and> ly_size (pad_to_align l) \<le> 2048"
  shows "\<exists>ps h' k' P' U'. heap_alloc_all (slab_allocate_pages hhdm pml) h k ls = Some (ps, h', k') \<and> length ps = length ls
    \<and> heap_ok h' \<and> km_ok L M hhdm pml lim k' P' U' \<and> heap_pages h' \<subseteq> dom P'
    \<and> (\<forall>i < length ls. ps ! i \<noteq> 0 \<and> ly_align (ls ! i) dvd ps ! i
         \<and> (\<forall>j < length ls. i \<noteq> j \<longrightarrow> ps ! i + ly_size (ls ! i) \<le> ps ! j \<or> ps ! j + ly_size (ls ! j) \<le> ps ! i)
         \<and> (\<forall>(q, n) \<in> heap_live h. ps ! i + ly_size (ls ! i) \<le> q \<or> q + n \<le> ps ! i)
         \<and> (\<exists>va pa. va \<le> ps ! i \<and> ps ! i + ly_size (ls ! i) \<le> va + BASIC_PAGE_SIZE \<and> P' va = Some pa
              \<and> manager_translate hhdm pml k' va = Some (Some pa)))"
proof -
  have src: "kernel_source_ok L M hhdm pml lim k (dom P) (length ls + 0)" using assms(2,4,5) by (auto simp: kernel_source_ok_def)
  from kernel_pages.alloc_all [OF assms(1,3) src assms(6)] obtain bs h' k' A' where
    a: "heap_alloc_all (slab_allocate_pages hhdm pml) h k ls = Some (map fst bs, h', k')" "heap_ok h'" "heap_pages h' \<subseteq> A'"
    "kernel_source_ok L M hhdm pml lim k' A' 0" "distinct bs" "heap_live h' = set bs \<union> heap_live h" "set bs \<inter> heap_live h = {}"
    and l2: "list_all2 (\<lambda>l b. fst b \<noteq> 0 \<and> ly_align l dvd fst b \<and> ly_size l \<le> snd b \<and> (\<exists>a \<in> A'. a \<le> fst b \<and> fst b + snd b \<le> a + PAGE_SIZE)) ls bs"
    by blast
  from a(4) obtain P' U' where k': "km_ok L M hhdm pml lim k' P' U'" "A' = dom P'" by (auto simp: kernel_source_ok_def)
  have len: "length bs = length ls" using l2 by (simp add: list_all2_lengthD)
  have each: "fst (bs ! i) \<noteq> 0 \<and> ly_align (ls ! i) dvd fst (bs ! i) \<and> ly_size (ls ! i) \<le> snd (bs ! i)
      \<and> (\<exists>a \<in> A'. a \<le> fst (bs ! i) \<and> fst (bs ! i) + snd (bs ! i) \<le> a + PAGE_SIZE)" if "i < length ls" for i
    using list_all2_nthD [OF l2 that] .
  have live: "bs ! i \<in> heap_live h'" if "i < length ls" for i using that len a(6) by auto
  have apart: "fst b + snd b \<le> fst c \<or> fst c + snd c \<le> fst b" if "b \<in> heap_live h'" "c \<in> heap_live h'" "b \<noteq> c" for b c
    using heap_live_apart [OF a(2), of "fst b" "snd b" "fst c" "snd c"] that by simp
  have pair: "fst (bs ! i) + ly_size (ls ! i) \<le> fst (bs ! j) \<or> fst (bs ! j) + ly_size (ls ! j) \<le> fst (bs ! i)"
    if "i < length ls" "j < length ls" "i \<noteq> j" for i j
  proof -
    have "bs ! i \<noteq> bs ! j" using a(5) that len by (simp add: nth_eq_iff_index_eq)
    from apart [OF live [OF that(1)] live [OF that(2)] this] each [OF that(1)] each [OF that(2)] show ?thesis by linarith
  qed
  have old: "\<forall>(q, n) \<in> heap_live h. fst (bs ! i) + ly_size (ls ! i) \<le> q \<or> q + n \<le> fst (bs ! i)" if "i < length ls" for i
  proof
    fix b assume b: "b \<in> heap_live h"
    have "bs ! i \<in> set bs" using that len by simp
    then have "bs ! i \<noteq> b" using a(7) b by blast
    moreover have "b \<in> heap_live h'" using a(6) b by blast
    ultimately have "fst (bs ! i) + snd (bs ! i) \<le> fst b \<or> fst b + snd b \<le> fst (bs ! i)" using apart [OF live [OF that]] by blast
    then show "case b of (q, n) \<Rightarrow> fst (bs ! i) + ly_size (ls ! i) \<le> q \<or> q + n \<le> fst (bs ! i)"
      using each [OF that] by (cases b) auto
  qed
  have page: "\<exists>va pa. va \<le> fst (bs ! i) \<and> fst (bs ! i) + ly_size (ls ! i) \<le> va + BASIC_PAGE_SIZE \<and> P' va = Some pa
      \<and> manager_translate hhdm pml k' va = Some (Some pa)" if "i < length ls" for i
  proof -
    from each [OF that] k'(2) obtain va pa where "P' va = Some pa" "va \<le> fst (bs ! i)" "fst (bs ! i) + ly_size (ls ! i) \<le> va + BASIC_PAGE_SIZE"
      by (auto simp: PAGE_SIZE_def BASIC_PAGE_SIZE_def)
    then show ?thesis using km_translate [OF k'(1)] by blast
  qed
  have "length (map fst bs) = length ls" "heap_pages h' \<subseteq> dom P'" using len a(3) k'(2) by simp_all
  moreover have "map fst bs ! i = fst (bs ! i)" if "i < length ls" for i using that len by simp
  ultimately show ?thesis
    using a(1,2) k'(1) each pair old page
    by (intro exI [of _ "map fst bs"] exI [of _ h'] exI [of _ k'] exI [of _ P'] exI [of _ U'] conjI allI impI) simp_all
qed

theorem kernel_heap_allocations_witness:
  "\<exists>h k p q h' k'. heap_new = Some h
    \<and> heap_alloc_all (slab_allocate_pages 0x100000 0x108000) h k [\<lparr> ly_size = 100, ly_align = 8 \<rparr>, \<lparr> ly_size = 24, ly_align = 8 \<rparr>] = Some ([p, q], h', k')
    \<and> p \<noteq> 0 \<and> q \<noteq> 0 \<and> (p + 100 \<le> q \<or> q + 24 \<le> p)"
proof -
  let ?ls = "[\<lparr> ly_size = 100, ly_align = 8 \<rparr>, \<lparr> ly_size = 24, ly_align = 8 \<rparr>]"
  obtain h where h: "heap_new = Some h" "heap_ok h" "heap_pages h = {}" using heap_new_ok by metis
  obtain k where k: "km_ok 4 0x8000 0x100000 0x108000 32 k Map.empty {..<0x8000}" "vaa_next k = 16" using km_demo by blast
  have p8: "is_power_of_two 8" using is_power_of_two_pow2 [of 3] by simp
  have side: "heap_pages h \<subseteq> dom (Map.empty :: nat \<rightharpoonup> nat)" "vaa_next k + length ?ls \<le> 32" "4 * length ?ls * BASIC_PAGE_SIZE \<le> card {..<0x8000 :: nat}"
    "\<forall>l \<in> set ?ls. is_power_of_two (ly_align l) \<and> ly_align l \<le> 2048 \<and> ly_size (pad_to_align l) \<le> 2048"
    using h(3) k(2) p8 by (simp_all add: BASIC_PAGE_SIZE_def pad_to_align_def div_ceil_def)
  from kernel_heap_allocations [OF h(2) k(1) side] obtain ps h' k' where
    r: "heap_alloc_all (slab_allocate_pages 0x100000 0x108000) h k ?ls = Some (ps, h', k')" "length ps = 2"
    "\<forall>i < 2. ps ! i \<noteq> 0 \<and> (\<forall>j < 2. i \<noteq> j \<longrightarrow> ps ! i + ly_size (?ls ! i) \<le> ps ! j \<or> ps ! j + ly_size (?ls ! j) \<le> ps ! i)"
    by (auto simp: numeral_2_eq_2)
  from r(2) obtain p q where pq: "ps = [p, q]" by (auto simp: length_Suc_conv numeral_2_eq_2)
  have "p \<noteq> 0" "q \<noteq> 0" "p + 100 \<le> q \<or> q + 24 \<le> p"
    using spec [OF r(3), of 0] spec [OF r(3), of 1] by (auto simp: pq dest: spec [of _ 1])
  with r(1) h(1) pq show ?thesis by blast
qed

end
