(* ===== verification/Bitfield.thy ===== *)
theory Bitfield
  imports Prelude
begin

text \<open>
  Register and descriptor words.  The code declares them with the attribute \<open>#[bitfield]\<close>: the fields of
  the struct follow one another from bit 0 upwards, each with the width of its type (\<open>B1\<close> to \<open>B64\<close>), and
  every field has a getter and a setter, which panics when the value does not fit the width.
  Here the declaration is the list of field names and widths.
\<close>

unbundle bit_operations_syntax

type_synonym bit_layout = "(string \<times> nat) list"

fun field_at :: "bit_layout \<Rightarrow> string \<Rightarrow> nat \<Rightarrow> (nat \<times> nat) option" where
  "field_at [] f k = None"
| "field_at ((g, n) # ly) f k = (if g = f then Some (k, n) else field_at ly f (k + n))"

definition layout_bits :: "bit_layout \<Rightarrow> nat" where
  "layout_bits ly = sum_list (map snd ly)"

text \<open>What the attribute checks when the program is compiled: the widths add up to the declared number
  of bits.  Field names of a struct are distinct.\<close>

definition layout_wf :: "nat \<Rightarrow> bit_layout \<Rightarrow> bool" where
  "layout_wf n ly \<longleftrightarrow> layout_bits ly = n \<and> distinct (map fst ly) \<and> list_all (\<lambda>(_, w). 0 < w) ly"

definition bf_get :: "bit_layout \<Rightarrow> string \<Rightarrow> 'a::len word \<Rightarrow> 'a word" where
  "bf_get ly f w = (case field_at ly f 0 of Some (k, n) \<Rightarrow> take_bit n (drop_bit k w) | None \<Rightarrow> 0)"

definition bf_set :: "bit_layout \<Rightarrow> string \<Rightarrow> 'a word \<Rightarrow> 'a::len word \<Rightarrow> 'a word option" where
  "bf_set ly f v w = (case field_at ly f 0 of
     Some (k, n) \<Rightarrow> if take_bit n v = v then Some (w AND NOT (push_bit k (mask n)) OR push_bit k v) else None
   | None \<Rightarrow> None)"

lemma field_at_bounds:
  "field_at ly f b0 = Some (k, n) \<Longrightarrow> b0 \<le> k \<and> k + n \<le> b0 + layout_bits ly"
  by (induction ly f b0 rule: field_at.induct) (auto simp: layout_bits_def split: if_splits)

lemma field_at_apart:
  assumes "field_at ly f b0 = Some (k, n)" and "field_at ly g b0 = Some (j, m)" and "f \<noteq> g"
  shows "k + n \<le> j \<or> j + m \<le> k"
  using assms
proof (induction ly f b0 arbitrary: k n j m rule: field_at.induct)
  case (2 h i ly f b0)
  show ?case
  proof (cases "h = f")
    case True
    then show ?thesis using 2(2-) field_at_bounds [of ly g "b0 + i"] by auto
  next
    case False
    then show ?thesis using 2 field_at_bounds [of ly f "b0 + i"] by (auto split: if_splits)
  qed
qed simp

lemma field_at_member:
  assumes "distinct (map fst ly)" and "(f, n) \<in> set ly"
  shows "\<exists>k. field_at ly f b0 = Some (k, n)"
  using assms by (induction ly f b0 rule: field_at.induct) (auto simp: rev_image_eqI)

lemma bit_bf_set:
  fixes w :: "'a::len word"
  assumes "bf_set ly f v w = Some w'" and "field_at ly f 0 = Some (k, n)"
  shows "bit w' i \<longleftrightarrow> i < LENGTH('a) \<and> (if k \<le> i \<and> i < k + n then bit v (i - k) else bit w i)"
proof -
  from assms have v: "take_bit n v = v" and w': "w' = w AND NOT (push_bit k (mask n)) OR push_bit k v"
    by (auto simp: bf_set_def split: if_splits)
  from v have "bit v (i - k) \<Longrightarrow> i - k < n" by (metis bit_take_bit_iff)
  then show ?thesis unfolding w' by (auto simp: bit_simps dest: bit_imp_le_length)
qed

lemma bit_bf_get:
  assumes "field_at ly f 0 = Some (k, n)"
  shows "bit (bf_get ly f w) i \<longleftrightarrow> i < n \<and> bit w (k + i)"
  using assms by (auto simp: bf_get_def bit_simps)

lemma bf_get_set_same:
  fixes w :: "'a::len word"
  assumes "bf_set ly f v w = Some w'" and "layout_bits ly \<le> LENGTH('a)"
  shows "bf_get ly f w' = v"
proof -
  from assms(1) obtain k n where f: "field_at ly f 0 = Some (k, n)" and v: "take_bit n v = v"
    by (auto simp: bf_set_def split: if_splits option.splits)
  have "k + n \<le> LENGTH('a)" using field_at_bounds [OF f] assms(2) by simp
  moreover have "bit v j \<Longrightarrow> j < n" for j using v by (metis bit_take_bit_iff)
  ultimately show ?thesis
    by (intro bit_eqI) (auto simp: bit_bf_get [OF f] bit_bf_set [OF assms(1) f])
qed

lemma bf_get_set_other:
  assumes "bf_set ly f v w = Some w'" and "g \<noteq> f"
  shows "bf_get ly g w' = bf_get ly g w"
proof (cases "field_at ly g 0")
  case (Some jm)
  then obtain j m where g: "field_at ly g 0 = Some (j, m)" by (cases jm) simp
  from assms(1) obtain k n where f: "field_at ly f 0 = Some (k, n)"
    by (auto simp: bf_set_def split: if_splits option.splits)
  have "k + n \<le> j \<or> j + m \<le> k" using field_at_apart [OF f g] assms(2) by blast
  then show ?thesis
    by (intro bit_eqI) (auto simp: bit_bf_get [OF g] bit_bf_set [OF assms(1) f] dest: bit_imp_le_length)
qed (simp add: bf_get_def)

lemma bf_set_fits:
  assumes "field_at ly f 0 = Some (k, n)" and "take_bit n v = v"
  obtains w' where "bf_set ly f v w = Some w'"
  using assms by (simp add: bf_set_def)

lemma bf_set_typed:
  fixes w v :: "'a::len word"
  assumes "layout_wf LENGTH('a) ly" and "(f, n) \<in> set ly" and "take_bit n v = v"
  obtains w' where "bf_set ly f v w = Some w'" and "\<forall>g. bf_get ly g w' = (if g = f then v else bf_get ly g w)"
proof -
  obtain k where "field_at ly f 0 = Some (k, n)" using field_at_member [of ly f n] assms(1,2) by (auto simp: layout_wf_def)
  from bf_set_fits [OF this assms(3)] obtain w' where "bf_set ly f v w = Some w'" .
  then show ?thesis using that bf_get_set_same [of ly f v w w'] bf_get_set_other [of ly f v w w'] assms(1) by (auto simp: layout_wf_def)
qed

lemma unat_drop_bit: "unat (drop_bit n w) = unat w div 2 ^ n" for w :: "'a::len word"
  by (metis drop_bit_eq_div unat_drop_bit_eq)

text \<open>Checked arithmetic on \<open>u32\<close> values kept as natural numbers.\<close>

definition checked_u32 :: "nat \<Rightarrow> nat option" where
  "checked_u32 n = (if n < 2 ^ 32 then Some n else None)"

lemma bit_pow2_word: "bit (2 ^ k :: 'a::len word) n \<longleftrightarrow> n = k \<and> k < LENGTH('a)"
  by (auto simp: bit_exp_iff)

lemma flag_bit: "drop_bit k (w AND 2 ^ k) = of_bool (bit w k)" for w :: "'a::len word"
  by (rule bit_eqI) (auto simp: bit_simps bit_pow2_word dest: bit_imp_le_length)

lemma ucast_fits: "LENGTH('b) \<le> n \<Longrightarrow> take_bit n (ucast v :: 'a::len word) = ucast v" for v :: "'b::len word"
  by (rule bit_eqI) (auto simp: bit_simps dest: bit_imp_le_length)

text \<open>A field is zero when its bits are.\<close>

lemma bf_get_zero_iff:
  assumes "field_at ly f 0 = Some (k, n)"
  shows "bf_get ly f w = 0 \<longleftrightarrow> (\<forall>i \<in> {k..<k + n}. \<not> bit w i)"
proof
  assume z: "bf_get ly f w = 0"
  show "\<forall>i \<in> {k..<k + n}. \<not> bit w i"
  proof
    fix i assume i: "i \<in> {k..<k + n}"
    then have "bit (bf_get ly f w) (i - k) \<longleftrightarrow> bit w i" by (auto simp: bit_bf_get [OF assms])
    with z show "\<not> bit w i" by simp
  qed
next
  assume "\<forall>i \<in> {k..<k + n}. \<not> bit w i"
  then show "bf_get ly f w = 0" by (intro bit_word_eqI) (simp add: bit_bf_get [OF assms])
qed

lemma bf_get_flag_iff: "field_at ly f 0 = Some (k, 1) \<Longrightarrow> bf_get ly f w = 0 \<longleftrightarrow> \<not> bit w k"
  by (simp add: bf_get_zero_iff atLeastLessThan_singleton)

lemma and_push_bit_1: "w AND push_bit k 1 \<noteq> 0 \<longleftrightarrow> bit w k" for w :: "'a::len word"
  by (simp add: push_bit_eq_mult and_exp_eq_0_iff_not_bit)

lemmas bf_get_set = bf_get_set_same bf_get_set_other

end
