(* ===== verification/Cpu.thy ===== *)
theory Cpu
  imports Bitfield Mem_Addr
begin

text \<open>
  The registers of a processor: \<open>kernel/src/arch/x86_64/cpu\<close> (control, debug and model-specific registers,
  RFLAGS), the segment registers of \<open>gdt.rs\<close> and the vendor check of \<open>arch/x86_64/mod.rs\<close>.  The
  assembly wrappers read and write a field of the record of registers; what a write does beyond storing
  the value (switching the address space, flushing the TLB) is outside the model.  CPUID is an argument.
\<close>

subsection \<open>Register layouts\<close>

definition Rflags_layout :: bit_layout where
  "Rflags_layout = [(''cf'', 1), (''reserved_mbo'', 1), (''pf'', 1), (''reserved_mbz_0'', 1), (''af'', 1),
     (''reserved_mbz_1'', 1), (''zf'', 1), (''sf'', 1), (''tf'', 1), (''if_enable'', 1), (''df'', 1),
     (''of'', 1), (''iopl'', 2), (''nt'', 1), (''reserved_mbz_2'', 1), (''rf'', 1), (''vm'', 1),
     (''ac'', 1), (''vif'', 1), (''vip'', 1), (''id'', 1), (''reserved_mbz_3'', 42)]"

definition Cr0_layout :: bit_layout where
  "Cr0_layout = [(''pe'', 1), (''mp'', 1), (''em'', 1), (''ts'', 1), (''et'', 1), (''ne'', 1),
     (''reserved_mbz_0'', 10), (''wp'', 1), (''reserved_mbz_1'', 1), (''am'', 1),
     (''reserved_mbz_2'', 10), (''nw'', 1), (''cd'', 1), (''pg'', 1), (''reserved_mbz_3'', 32)]"

definition Cr3_layout :: bit_layout where
  "Cr3_layout = [(''reserved_mbz_0'', 3), (''pwt'', 1), (''pcd'', 1), (''reserved_mbz_1'', 7), (''top_pml'', 52)]"

definition Cr4_layout :: bit_layout where
  "Cr4_layout = [(''vme'', 1), (''pvi'', 1), (''tsd'', 1), (''de'', 1), (''pse'', 1), (''pae'', 1), (''mce'', 1),
     (''pge'', 1), (''pce'', 1), (''osfxsr'', 1), (''osxmmexcpt'', 1), (''umip'', 1), (''la57'', 1),
     (''vmxe'', 1), (''smxe'', 1), (''reserved_mbz_0'', 1), (''fsgsbase'', 1), (''pcide'', 1),
     (''osxsave'', 1), (''reserved_mbz_1'', 1), (''smep'', 1), (''smap'', 1), (''pke'', 1), (''cet'', 1),
     (''pks'', 1), (''reserved_mbz_2'', 39)]"

definition AmdDr6_layout :: bit_layout where
  "AmdDr6_layout = [(''bd0'', 1), (''bd1'', 1), (''bd2'', 1), (''bd3'', 1), (''reserved_mbo_0'', 7), (''bld'', 1),
     (''reserved_mbz_0'', 1), (''bd'', 1), (''bs'', 1), (''bt'', 1), (''reserved_mbo_1'', 16),
     (''reserved_mbz_1'', 32)]"

definition AmdDr7_layout :: bit_layout where
  "AmdDr7_layout = [(''l0'', 1), (''g0'', 1), (''l1'', 1), (''g1'', 1), (''l2'', 1), (''g2'', 1), (''l3'', 1),
     (''g3'', 1), (''le'', 1), (''ge'', 1), (''reserved_mbo'', 1), (''reserved_mbz_0'', 2), (''gd'', 1),
     (''reserved_mbz_1'', 2), (''ttt_0'', 2), (''lb_0'', 2), (''ttt_1'', 2), (''lb_1'', 2),
     (''ttt_2'', 2), (''lb_2'', 2), (''ttt_3'', 2), (''lb_3'', 2), (''reserved_mbz_2'', 32)]"

subsection \<open>The register file\<close>

record DescriptorTablePtr =
  dt_limit :: u16
  dt_base :: u64

record Cpu =
  r_rflags :: u64
  r_cr0 :: u64
  r_cr2 :: u64
  r_cr3 :: u64
  r_cr4 :: u64
  r_dr0 :: u64
  r_dr1 :: u64
  r_dr2 :: u64
  r_dr3 :: u64
  r_dr6 :: u64
  r_dr7 :: u64
  r_rsp :: usize
  r_cs :: u16
  r_ds :: u16
  r_ss :: u16
  r_es :: u16
  r_fs :: u16
  r_gs :: u16
  r_gdtr :: DescriptorTablePtr
  r_idtr :: DescriptorTablePtr
  r_msr :: "u32 \<Rightarrow> u64"

text \<open>The trait \<open>Register\<close>.  \<open>CR2\<close> and AMD's \<open>DR6\<close> cannot be written: the method panics.\<close>

definition Dr0_read :: "Cpu \<Rightarrow> u64" where "Dr0_read c = r_dr0 c"
definition Dr0_write :: "u64 \<Rightarrow> Cpu \<Rightarrow> Cpu option" where "Dr0_write v c = Some (c \<lparr> r_dr0 := v \<rparr>)"
definition Dr1_read :: "Cpu \<Rightarrow> u64" where "Dr1_read c = r_dr1 c"
definition Dr1_write :: "u64 \<Rightarrow> Cpu \<Rightarrow> Cpu option" where "Dr1_write v c = Some (c \<lparr> r_dr1 := v \<rparr>)"
definition Dr2_read :: "Cpu \<Rightarrow> u64" where "Dr2_read c = r_dr2 c"
definition Dr2_write :: "u64 \<Rightarrow> Cpu \<Rightarrow> Cpu option" where "Dr2_write v c = Some (c \<lparr> r_dr2 := v \<rparr>)"
definition Dr3_read :: "Cpu \<Rightarrow> u64" where "Dr3_read c = r_dr3 c"
definition Dr3_write :: "u64 \<Rightarrow> Cpu \<Rightarrow> Cpu option" where "Dr3_write v c = Some (c \<lparr> r_dr3 := v \<rparr>)"
definition AmdDr6_read :: "Cpu \<Rightarrow> u64" where "AmdDr6_read c = r_dr6 c"
definition AmdDr6_write :: "u64 \<Rightarrow> Cpu \<Rightarrow> Cpu option" where "AmdDr6_write v c = None"
definition AmdDr7_read :: "Cpu \<Rightarrow> u64" where "AmdDr7_read c = r_dr7 c"
definition AmdDr7_write :: "u64 \<Rightarrow> Cpu \<Rightarrow> Cpu option" where "AmdDr7_write v c = Some (c \<lparr> r_dr7 := v \<rparr>)"
definition Rflags_read :: "Cpu \<Rightarrow> u64" where "Rflags_read c = r_rflags c"
definition Rflags_write :: "u64 \<Rightarrow> Cpu \<Rightarrow> Cpu option" where "Rflags_write v c = Some (c \<lparr> r_rflags := v \<rparr>)"
definition Cr0_read :: "Cpu \<Rightarrow> u64" where "Cr0_read c = r_cr0 c"
definition Cr0_write :: "u64 \<Rightarrow> Cpu \<Rightarrow> Cpu option" where "Cr0_write v c = Some (c \<lparr> r_cr0 := v \<rparr>)"
definition Cr2_read :: "Cpu \<Rightarrow> u64" where "Cr2_read c = r_cr2 c"
definition Cr2_write :: "u64 \<Rightarrow> Cpu \<Rightarrow> Cpu option" where "Cr2_write v c = None"
definition Cr3_read :: "Cpu \<Rightarrow> u64" where "Cr3_read c = r_cr3 c"
definition Cr3_write :: "u64 \<Rightarrow> Cpu \<Rightarrow> Cpu option" where "Cr3_write v c = Some (c \<lparr> r_cr3 := v \<rparr>)"
definition Cr4_read :: "Cpu \<Rightarrow> u64" where "Cr4_read c = r_cr4 c"
definition Cr4_write :: "u64 \<Rightarrow> Cpu \<Rightarrow> Cpu option" where "Cr4_write v c = Some (c \<lparr> r_cr4 := v \<rparr>)"
definition Cs_read :: "Cpu \<Rightarrow> u16" where "Cs_read c = r_cs c"
definition Cs_write :: "u16 \<Rightarrow> Cpu \<Rightarrow> Cpu option" where "Cs_write v c = Some (c \<lparr> r_cs := v \<rparr>)"
definition Ds_read :: "Cpu \<Rightarrow> u16" where "Ds_read c = r_ds c"
definition Ds_write :: "u16 \<Rightarrow> Cpu \<Rightarrow> Cpu option" where "Ds_write v c = Some (c \<lparr> r_ds := v \<rparr>)"
definition Gs_read :: "Cpu \<Rightarrow> u16" where "Gs_read c = r_gs c"
definition Gs_write :: "u16 \<Rightarrow> Cpu \<Rightarrow> Cpu option" where "Gs_write v c = Some (c \<lparr> r_gs := v \<rparr>)"
definition Fs_read :: "Cpu \<Rightarrow> u16" where "Fs_read c = r_fs c"
definition Fs_write :: "u16 \<Rightarrow> Cpu \<Rightarrow> Cpu option" where "Fs_write v c = Some (c \<lparr> r_fs := v \<rparr>)"
definition Es_read :: "Cpu \<Rightarrow> u16" where "Es_read c = r_es c"
definition Es_write :: "u16 \<Rightarrow> Cpu \<Rightarrow> Cpu option" where "Es_write v c = Some (c \<lparr> r_es := v \<rparr>)"
definition Ss_read :: "Cpu \<Rightarrow> u16" where "Ss_read c = r_ss c"
definition Ss_write :: "u16 \<Rightarrow> Cpu \<Rightarrow> Cpu option" where "Ss_write v c = Some (c \<lparr> r_ss := v \<rparr>)"

text \<open>The port instructions.  A trace lists the accesses to ports, oldest first; \<open>dev t p\<close> is what the device behind port \<open>p\<close> answers after
  the accesses \<open>t\<close>.\<close>

datatype PortAccess = Out8 u16 u8 | Out32 u16 u32 | In8 u16 | In32 u16

type_synonym port_trace = "PortAccess list"

definition cpu_outb_32 :: "u16 \<Rightarrow> u32 \<Rightarrow> port_trace \<Rightarrow> port_trace" where
  "cpu_outb_32 port v t = t @ [Out32 port v]"

definition cpu_outb_8 :: "u16 \<Rightarrow> u8 \<Rightarrow> port_trace \<Rightarrow> port_trace" where
  "cpu_outb_8 port v t = t @ [Out8 port v]"

definition cpu_inb_32 :: "(port_trace \<Rightarrow> u16 \<Rightarrow> u32) \<Rightarrow> u16 \<Rightarrow> port_trace \<Rightarrow> u32 \<times> port_trace" where
  "cpu_inb_32 dev port t = (dev t port, t @ [In32 port])"

definition cpu_inb_8 :: "(port_trace \<Rightarrow> u16 \<Rightarrow> u8) \<Rightarrow> u16 \<Rightarrow> port_trace \<Rightarrow> u8 \<times> port_trace" where
  "cpu_inb_8 dev port t = (dev t port, t @ [In8 port])"

definition cli :: "Cpu \<Rightarrow> Cpu option" where
  "cli c = do { f \<leftarrow> bf_set Rflags_layout ''if_enable'' 0 (r_rflags c); Some (c \<lparr> r_rflags := f \<rparr>) }"

definition sti :: "Cpu \<Rightarrow> Cpu option" where
  "sti c = do { f \<leftarrow> bf_set Rflags_layout ''if_enable'' 1 (r_rflags c); Some (c \<lparr> r_rflags := f \<rparr>) }"

definition read_rsp :: "Cpu \<Rightarrow> usize" where
  "read_rsp c = r_rsp c"

definition write_rsp :: "VirtAddr \<Rightarrow> Cpu \<Rightarrow> Cpu" where
  "write_rsp addr c = c \<lparr> r_rsp := addr \<rparr>"

subsection \<open>Model-specific registers\<close>

datatype IntelMsr = Ia32ApicBase | Ia32FeatureControl | Ia32VmxBasic | Ia32Pat

datatype AmdMsr = Efer | VmCr | VmHsavePa

fun intel_msr_address :: "IntelMsr \<Rightarrow> u32" where
  "intel_msr_address Ia32ApicBase = 0x1B"
| "intel_msr_address Ia32FeatureControl = 0x3A"
| "intel_msr_address Ia32VmxBasic = 0x480"
| "intel_msr_address Ia32Pat = 0x277"

fun amd_msr_address :: "AmdMsr \<Rightarrow> u32" where
  "amd_msr_address Efer = 0xC0000080"
| "amd_msr_address VmCr = 0xC0010114"
| "amd_msr_address VmHsavePa = 0xC0010117"

definition EFER_SCE :: u64 where "EFER_SCE = push_bit 0 1"
definition EFER_LME :: u64 where "EFER_LME = push_bit 8 1"
definition EFER_LMA :: u64 where "EFER_LMA = push_bit 10 1"
definition EFER_NX :: u64 where "EFER_NX = push_bit 11 1"
definition EFER_SVM :: u64 where "EFER_SVM = push_bit 12 1"
definition EFER_LMSLE :: u64 where "EFER_LMSLE = push_bit 13 1"
definition EFER_FFXSR :: u64 where "EFER_FFXSR = push_bit 14 1"
definition EFER_TCE :: u64 where "EFER_TCE = push_bit 15 1"
definition EFER_MCOMMIT :: u64 where "EFER_MCOMMIT = push_bit 16 1"
definition EFER_INTWB :: u64 where "EFER_INTWB = push_bit 17 1"
definition EFER_UAIE :: u64 where "EFER_UAIE = push_bit 18 1"
definition EFER_AIBRSE :: u64 where "EFER_AIBRSE = push_bit 19 1"
definition EFER_ALL :: u64 where
  "EFER_ALL = EFER_SCE OR EFER_LME OR EFER_LMA OR EFER_NX OR EFER_SVM OR EFER_LMSLE OR EFER_FFXSR OR EFER_TCE OR EFER_MCOMMIT OR EFER_INTWB OR EFER_UAIE OR EFER_AIBRSE"

record MsrData =
  msr_low :: u32
  msr_high :: u32

definition u64_of_msr :: "MsrData \<Rightarrow> u64" where
  "u64_of_msr d = push_bit 32 (ucast (msr_high d)) OR ucast (msr_low d)"

definition msr_of_u64 :: "u64 \<Rightarrow> MsrData" where
  "msr_of_u64 v = \<lparr> msr_low = ucast v, msr_high = ucast (drop_bit 32 v) \<rparr>"

definition rdmsr :: "u32 \<Rightarrow> Cpu \<Rightarrow> MsrData" where
  "rdmsr a c = msr_of_u64 (r_msr c a)"

definition wrmsr :: "u32 \<Rightarrow> MsrData \<Rightarrow> Cpu \<Rightarrow> Cpu" where
  "wrmsr a d c = c \<lparr> r_msr := (r_msr c)(a := u64_of_msr d) \<rparr>"

subsection \<open>CPUID and the vendor\<close>

record CpuidResult =
  cpuid_eax :: u32
  cpuid_ebx :: u32
  cpuid_ecx :: u32
  cpuid_edx :: u32

type_synonym cpuid = "u32 \<Rightarrow> u32 \<Rightarrow> CpuidResult"

datatype CpuVendor = Amd | Intel | InvalidVendor

fun u32_from_le_bytes :: "string \<Rightarrow> u32" where
  "u32_from_le_bytes [] = 0"
| "u32_from_le_bytes (b # bs) = of_char b OR push_bit 8 (u32_from_le_bytes bs)"

definition INTEL_STRING :: "u32 \<times> u32 \<times> u32" where
  "INTEL_STRING = (u32_from_le_bytes ''Genu'', u32_from_le_bytes ''ineI'', u32_from_le_bytes ''ntel'')"

definition AMD_STRING :: "u32 \<times> u32 \<times> u32" where
  "AMD_STRING = (u32_from_le_bytes ''Auth'', u32_from_le_bytes ''enti'', u32_from_le_bytes ''cAMD'')"

definition find_cpu_vendor :: "cpuid \<Rightarrow> CpuVendor FastLazyStatic \<Rightarrow> CpuVendor FastLazyStatic option" where
  "find_cpu_vendor cpuid CPU_VENDOR = do {
     _ \<leftarrow> ensure (fls_get CPU_VENDOR = InvalidVendor);
     let res = cpuid 0 0;
     let s = (cpuid_ebx res, cpuid_edx res, cpuid_ecx res);
     if s = INTEL_STRING then Some (fls_set CPU_VENDOR Intel)
     else if s = AMD_STRING then Some (fls_set CPU_VENDOR Amd)
     else None }"

subsection \<open>Lemmas\<close>

lemma u64_of_msr_of_u64 [simp]: "u64_of_msr (msr_of_u64 v) = v"
  by (rule bit_eqI) (auto simp: u64_of_msr_def msr_of_u64_def bit_simps)

lemma msr_of_u64_of_msr [simp]: "msr_of_u64 (u64_of_msr d) = d"
proof -
  have "msr_low (msr_of_u64 (u64_of_msr d)) = msr_low d" "msr_high (msr_of_u64 (u64_of_msr d)) = msr_high d"
    by (rule bit_eqI; auto simp: u64_of_msr_def msr_of_u64_def bit_simps dest: bit_imp_le_length)+
  then show ?thesis by simp
qed

lemma rdmsr_wrmsr: "rdmsr a (wrmsr b d c) = (if a = b then d else rdmsr a c)"
  by (simp add: rdmsr_def wrmsr_def)

lemma vendor_strings: "INTEL_STRING \<noteq> AMD_STRING"
  by (simp add: INTEL_STRING_def AMD_STRING_def)

text \<open>A processor whose code segment is selector 0x28, for examples.\<close>

definition demo_cpu :: Cpu where
  "demo_cpu = \<lparr> r_rflags = 2, r_cr0 = 0, r_cr2 = 0, r_cr3 = 0, r_cr4 = 0, r_dr0 = 0, r_dr1 = 0, r_dr2 = 0, r_dr3 = 0, r_dr6 = 0, r_dr7 = 0,
     r_rsp = 0, r_cs = 0x28, r_ds = 0, r_ss = 0, r_es = 0, r_fs = 0, r_gs = 0, r_gdtr = \<lparr> dt_limit = 0, dt_base = 0 \<rparr>,
     r_idtr = \<lparr> dt_limit = 0, dt_base = 0 \<rparr>, r_msr = (\<lambda>_. 0) \<rparr>"

end
