(* ===== verification/Gdt.thy ===== *)
theory Gdt
  imports Cpu
begin

text \<open>
  \<open>kernel/src/arch/x86_64/gdt.rs\<close>: segment descriptors and selectors, and the reading of a full selector
  from the descriptor table.  The segment registers are in theory \<open>Cpu\<close>.
\<close>

definition SegmentDescriptor_layout :: bit_layout where
  "SegmentDescriptor_layout = [(''limit_0'', 16), (''base_0'', 24), (''access'', 8), (''limit_1'', 4), (''flags'', 4),
     (''base_1'', 8)]"

definition SegmentSelector_layout :: bit_layout where
  "SegmentSelector_layout = [(''rpl'', 2), (''gdt'', 1), (''index'', 13)]"

type_synonym SegmentDescriptor = u64
type_synonym SegmentSelector = u16

record FullSegmentSelector =
  fs_selector :: SegmentSelector
  fs_attributes :: u16
  fs_limit :: u32
  fs_base :: u64

text \<open>The table has six segments.\<close>

type_synonym Gdt = "SegmentDescriptor list"

definition ACCESS_A :: u8 where "ACCESS_A = push_bit 0 1"
definition ACCESS_RW :: u8 where "ACCESS_RW = push_bit 1 1"
definition ACCESS_DC :: u8 where "ACCESS_DC = push_bit 2 1"
definition ACCESS_E :: u8 where "ACCESS_E = push_bit 3 1"
definition ACCESS_S :: u8 where "ACCESS_S = push_bit 4 1"
definition ACCESS_DPL_3 :: u8 where "ACCESS_DPL_3 = push_bit 5 3"
definition ACCESS_DPL_2 :: u8 where "ACCESS_DPL_2 = push_bit 5 2"
definition ACCESS_DPL_1 :: u8 where "ACCESS_DPL_1 = push_bit 5 1"
definition ACCESS_P :: u8 where "ACCESS_P = push_bit 7 1"
definition SEG_FLAGS_G :: u8 where "SEG_FLAGS_G = push_bit (4 + 1) 1"
definition SEG_FLAGS_DB :: u8 where "SEG_FLAGS_DB = push_bit (4 + 2) 1"
definition SEG_FLAGS_L :: u8 where "SEG_FLAGS_L = push_bit (4 + 3) 1"

definition get_base :: "SegmentDescriptor \<Rightarrow> u32" where
  "get_base d = push_bit 24 (ucast (bf_get SegmentDescriptor_layout ''base_1'' d))
     OR ucast (bf_get SegmentDescriptor_layout ''base_0'' d)"

definition get_limit :: "SegmentDescriptor \<Rightarrow> u32" where
  "get_limit d = push_bit 16 (ucast (bf_get SegmentDescriptor_layout ''limit_1'' d))
     OR ucast (bf_get SegmentDescriptor_layout ''limit_0'' d)"

definition read_gdtr :: "Cpu \<Rightarrow> DescriptorTablePtr" where
  "read_gdtr c = r_gdtr c"

definition gdt_index :: "Gdt \<Rightarrow> SegmentSelector \<Rightarrow> SegmentDescriptor option" where
  "gdt_index g sel = do {
     let i = unat (drop_bit 3 (bf_get SegmentSelector_layout ''index'' sel));
     _ \<leftarrow> ensure (i \<le> 5);
     idx g i }"

definition read_full_selector :: "Gdt \<Rightarrow> SegmentSelector \<Rightarrow> FullSegmentSelector option" where
  "read_full_selector g sel = do {
     descriptor \<leftarrow> gdt_index g sel;
     Some \<lparr> fs_selector = sel,
            fs_attributes = ucast (bf_get SegmentDescriptor_layout ''access'' descriptor),
            fs_limit = get_limit descriptor,
            fs_base = ucast (get_base descriptor) \<rparr> }"

definition full_selector_of_table :: "DescriptorTablePtr \<Rightarrow> FullSegmentSelector" where
  "full_selector_of_table p = \<lparr> fs_selector = 0, fs_attributes = 0, fs_limit = ucast (dt_limit p), fs_base = dt_base p \<rparr>"

subsection \<open>Lemmas\<close>

lemma segment_fields:
  "field_at SegmentDescriptor_layout ''limit_0'' 0 = Some (0, 16)" "field_at SegmentDescriptor_layout ''base_0'' 0 = Some (16, 24)"
  "field_at SegmentDescriptor_layout ''access'' 0 = Some (40, 8)" "field_at SegmentDescriptor_layout ''limit_1'' 0 = Some (48, 4)"
  "field_at SegmentDescriptor_layout ''base_1'' 0 = Some (56, 8)" "field_at SegmentSelector_layout ''index'' 0 = Some (3, 13)"
  by (simp_all add: SegmentDescriptor_layout_def SegmentSelector_layout_def)

text \<open>Base and limit are put together as the processor does it.\<close>

lemma get_base_bits: "bit (get_base d) i \<longleftrightarrow> i < 32 \<and> (if i < 24 then bit d (16 + i) else bit d (32 + i))"
proof -
  have "24 \<le> i \<Longrightarrow> 56 + (i - 24) = 32 + i" by simp
  then show ?thesis by (auto simp: get_base_def bit_simps bit_bf_get segment_fields)
qed

lemma get_limit_bits: "bit (get_limit d) i \<longleftrightarrow> i < 20 \<and> (if i < 16 then bit d i else bit d (32 + i))"
proof -
  have "16 \<le> i \<Longrightarrow> 48 + (i - 16) = 32 + i" by simp
  then show ?thesis by (auto simp: get_limit_def bit_simps bit_bf_get segment_fields)
qed

lemma selector_index:
  fixes sel :: SegmentSelector
  shows "bf_get SegmentSelector_layout ''index'' sel = drop_bit 3 sel"
  by (rule bit_eqI) (auto simp: bit_bf_get segment_fields bit_simps dest: bit_imp_le_length)

lemma gdt_index_eq:
  "gdt_index g sel = (if unat sel div 64 \<le> 5 then idx g (unat sel div 64) else None)"
  by (simp add: gdt_index_def ensure_def selector_index unat_drop_bit div_mult2_eq [symmetric])

text \<open>The descriptor that is read for a selector is not the one the selector names: the index is taken
  from the selector (bits 3 to 15) and shifted by three once more.  For every selector of a table of
  six segments it is the null descriptor.\<close>
theorem full_selector_wrong_segment:
  assumes "length g = 6" and "unat sel div 8 < 6"
  shows "gdt_index g sel = Some (g ! 0)"
    and "read_full_selector g sel = Some \<lparr> fs_selector = sel,
            fs_attributes = ucast (bf_get SegmentDescriptor_layout ''access'' (g ! 0)),
            fs_limit = get_limit (g ! 0), fs_base = ucast (get_base (g ! 0)) \<rparr>"
proof -
  have "unat sel div 64 = 0" using assms(2) by simp
  then show i: "gdt_index g sel = Some (g ! 0)" using assms(1) by (simp add: gdt_index_eq)
  show "read_full_selector g sel = Some \<lparr> fs_selector = sel,
            fs_attributes = ucast (bf_get SegmentDescriptor_layout ''access'' (g ! 0)),
            fs_limit = get_limit (g ! 0), fs_base = ucast (get_base (g ! 0)) \<rparr>"
    by (simp add: read_full_selector_def i)
qed

theorem full_selector_wrong_segment_witness:
  "gdt_index [0, 1, 2, 3, 4, 5] 0x28 = Some 0"
  using full_selector_wrong_segment(1) [of "[0, 1, 2, 3, 4, 5]" "0x28"] by simp

end
