(* ===== verification/Apic.thy ===== *)
theory Apic
  imports Bitfield
begin

text \<open>
  \<open>kernel/src/arch/x86_64/apic/mod.rs\<close>: the encodings shared by the I/O APIC and the local APIC.
\<close>

datatype DeliveryMode = Fixed | LowestPriority | Smi | Nmi | Init | StartUp | ExtInt

datatype PinPolarity = ActiveHigh | ActiveLow

datatype TriggerMode = EdgeTriggered | LevelTriggered

datatype Level = Deassert | Assert

datatype Destination = Physical u8 | Logical u8

datatype DestinationShorthand = NoShorthand | SelfDestination | AllIncludingSelf | AllExcludingSelf

datatype SharedFlags = HighEdge | HighLevel | LowEdge | LowLevel

fun delivery_mode_value :: "DeliveryMode \<Rightarrow> u8" where
  "delivery_mode_value Fixed = 0"
| "delivery_mode_value LowestPriority = 1"
| "delivery_mode_value Smi = 2"
| "delivery_mode_value Nmi = 4"
| "delivery_mode_value Init = 5"
| "delivery_mode_value StartUp = 6"
| "delivery_mode_value ExtInt = 7"

fun pin_polarity_value :: "PinPolarity \<Rightarrow> u8" where
  "pin_polarity_value ActiveHigh = 0"
| "pin_polarity_value ActiveLow = 1"

fun trigger_mode_value :: "TriggerMode \<Rightarrow> u8" where
  "trigger_mode_value EdgeTriggered = 0"
| "trigger_mode_value LevelTriggered = 1"

fun level_value :: "Level \<Rightarrow> u8" where
  "level_value Deassert = 0"
| "level_value Assert = 1"

fun destination_shorthand_value :: "DestinationShorthand \<Rightarrow> u8" where
  "destination_shorthand_value NoShorthand = 0"
| "destination_shorthand_value SelfDestination = 1"
| "destination_shorthand_value AllIncludingSelf = 2"
| "destination_shorthand_value AllExcludingSelf = 3"

fun shared_flags_value :: "SharedFlags \<Rightarrow> u16" where
  "shared_flags_value HighEdge = 0"
| "shared_flags_value HighLevel = 2"
| "shared_flags_value LowEdge = 8"
| "shared_flags_value LowLevel = 2 OR 8"

definition PHYSICAL_MODE :: u8 where "PHYSICAL_MODE = 0"
definition LOGICAL_MODE :: u8 where "LOGICAL_MODE = 1"

definition destination_new :: "u8 \<Rightarrow> bool \<Rightarrow> unit + Destination" where
  "destination_new dest is_logical =
     (if is_logical then if dest AND 0x0F \<noteq> 0 then Err () else Ok (Logical dest)
      else Ok (Physical dest))"

fun destination_get :: "Destination \<Rightarrow> u8 \<times> u8" where
  "destination_get (Physical dest) = (PHYSICAL_MODE, dest)"
| "destination_get (Logical dest) = (LOGICAL_MODE, dest)"

definition trigger_mode_try_from :: "u16 \<Rightarrow> unit + TriggerMode" where
  "trigger_mode_try_from v =
     (if v = 1 \<or> v = 0 then Ok EdgeTriggered else if v = 3 then Ok LevelTriggered else Err ())"

definition pin_polarity_try_from :: "u16 \<Rightarrow> unit + PinPolarity" where
  "pin_polarity_try_from v =
     (if v = 1 then Ok ActiveHigh else if v = 3 \<or> v = 0 then Ok ActiveLow else Err ())"

definition shared_flags_try_from :: "u16 \<Rightarrow> unit + SharedFlags" where
  "shared_flags_try_from v =
     (if v = 0 then Ok HighEdge else if v = 2 then Ok HighLevel else if v = 8 then Ok LowEdge
      else if v = (8 OR 2) then Ok LowLevel else Err ())"

lemma shared_flags_round_trip: "shared_flags_try_from (shared_flags_value f) = Ok f"
  by (cases f) (simp_all add: shared_flags_try_from_def)

end
