(* ===== verification/Ioapic.thy ===== *)
theory Ioapic
  imports Apic Cpu Id_Alloc Paging_Manager
begin

text \<open>
  \<open>kernel/src/arch/x86_64/apic/ioapic.rs\<close>: the I/O APICs with their redirection tables, the IRQ overrides
  and the IRQ allocator.  The device is outside the program: \<open>rd\<close> and \<open>wr\<close> are its memory-mapped
  reads and writes, on a state of its own.  Global system interrupts and register indices are \<open>u32\<close>
  values, kept as natural numbers with checked arithmetic.
\<close>

datatype IoApicError = InvalidGsi | IdtError

record IrqOverride =
  ov_irq :: u8
  ov_gsi :: nat

record IoApic =
  io_sel :: MmioArea
  io_win :: MmioArea
  gsi_base :: nat
  gsi_count :: nat
  ioapic_apic_id :: u8

definition RedirectionEntry_layout :: bit_layout where
  "RedirectionEntry_layout = [(''vector'', 8), (''delivery_mode'', 3), (''destination_mode'', 1), (''delivery_status'', 1),
     (''pin_polarity'', 1), (''remote_irr'', 1), (''trigger_mode'', 1), (''mask'', 1), (''reserved'', 39),
     (''destination'', 8)]"

type_synonym RedirectionEntry = u64

definition APIC_ID :: nat where "APIC_ID = 0"
definition APIC_VERSION :: nat where "APIC_VERSION = 1"
definition APIC_ARBITRATION :: nat where "APIC_ARBITRATION = 2"
definition APIC_REDIRACTION_TABLE_BASE :: nat where "APIC_REDIRACTION_TABLE_BASE = 0x10"
definition OFFSET_FROM_SEL_TO_WIN :: usize where "OFFSET_FROM_SEL_TO_WIN = 0x10"

definition red_tbl_to_index :: "nat \<Rightarrow> nat option" where
  "red_tbl_to_index irq_index = do {
     n \<leftarrow> checked_u32 (irq_index * 2);
     checked_u32 (n + APIC_REDIRACTION_TABLE_BASE) }"

definition get_low :: "RedirectionEntry \<Rightarrow> u32" where
  "get_low e = ucast (e AND 0xFFFFFFFF)"

definition get_high :: "RedirectionEntry \<Rightarrow> u32" where
  "get_high e = ucast (drop_bit 32 e AND 0xFFFFFFFF)"

type_synonym 'd mmio_rd = "'d \<Rightarrow> usize \<Rightarrow> u32"
type_synonym 'd mmio_wr = "'d \<Rightarrow> usize \<Rightarrow> u32 \<Rightarrow> 'd"

definition ioapic_new :: "'d mmio_rd \<Rightarrow> 'd mmio_wr \<Rightarrow> 'd \<Rightarrow> usize \<Rightarrow> nat \<Rightarrow> u8 \<Rightarrow> (IoApic \<times> 'd) option" where
  "ioapic_new rd wr d base gsi apic_id = do {
     let sel = mmio_new base;
     let win = mmio_new (base + OFFSET_FROM_SEL_TO_WIN);
     let d = mmio_cell_write wr d sel (of_nat APIC_VERSION);
     let version = mmio_cell_read rd d win;
     let max_gsi = unat (drop_bit 16 version AND 0xFF);
     _ \<leftarrow> ensure (0 < max_gsi \<and> max_gsi < 256);
     n \<leftarrow> checked_u32 (max_gsi + 1);
     Some (\<lparr> io_sel = sel, io_win = win, gsi_base = gsi, gsi_count = n, ioapic_apic_id = apic_id \<rparr>, d) }"

definition read_redirection_entry :: "'d mmio_rd \<Rightarrow> 'd mmio_wr \<Rightarrow> IoApic \<Rightarrow> 'd \<Rightarrow> nat \<Rightarrow> (RedirectionEntry \<times> 'd) option" where
  "read_redirection_entry rd wr io d offset = do {
     let d = mmio_cell_write wr d (io_sel io) (of_nat offset);
     let raw = (ucast (mmio_cell_read rd d (io_win io)) :: u64);
     one \<leftarrow> red_tbl_to_index 1;
     offset' \<leftarrow> checked_u32 (offset + one);
     let d = mmio_cell_write wr d (io_sel io) (of_nat offset');
     let raw = raw OR push_bit 32 (ucast (mmio_cell_read rd d (io_win io)));
     Some (raw, d) }"

definition write_redirection_entry :: "'d mmio_wr \<Rightarrow> IoApic \<Rightarrow> 'd \<Rightarrow> nat \<Rightarrow> RedirectionEntry \<Rightarrow> 'd option" where
  "write_redirection_entry wr io d offset e = do {
     let d = mmio_cell_write wr d (io_sel io) (of_nat offset);
     let d = mmio_cell_write wr d (io_win io) (get_low e);
     one \<leftarrow> red_tbl_to_index 1;
     offset' \<leftarrow> checked_u32 (offset + one);
     let d = mmio_cell_write wr d (io_sel io) (of_nat offset');
     Some (mmio_cell_write wr d (io_win io) (get_high e)) }"

text \<open>The statics of the module, with the device.\<close>

record 'd IoApics =
  ia_ioapics :: "IoApic list"
  ia_overrides :: "IrqOverride list"
  ia_irq_allocator :: IdTracker
  ia_dev :: 'd

definition mask_off_pic :: "port_trace \<Rightarrow> port_trace" where
  "mask_off_pic t = (let t = cpu_outb_8 0x21 0xff t in cpu_outb_8 0xa1 0xff t)"

definition ioapic_add :: "usize \<Rightarrow> VirtAddr \<Rightarrow> 'd mmio_rd \<Rightarrow> 'd mmio_wr \<Rightarrow> KernelMem \<Rightarrow> 'd IoApics \<Rightarrow> PhysAddr \<Rightarrow> nat \<Rightarrow> u8
    \<Rightarrow> (KernelMem \<times> 'd IoApics) option" where
  "ioapic_add hhdm pml rd wr k s phys_addr gsi apic_id = do {
     (r, k) \<leftarrow> manager_map_pages hhdm pml k phys_addr 1 (set_read_write flags_new True) Size4KB;
     ptr \<leftarrow> unwrap_ok r;
     (io, d) \<leftarrow> ioapic_new rd wr (ia_dev s) ptr gsi apic_id;
     Some (k, s \<lparr> ia_ioapics := ia_ioapics s @ [io], ia_dev := d \<rparr>) }"

fun sum_gsi_counts :: "usize \<Rightarrow> IoApic list \<Rightarrow> usize option" where
  "sum_gsi_counts acc [] = Some acc"
| "sum_gsi_counts acc (io # ios) = do { n \<leftarrow> uadd acc (gsi_count io); sum_gsi_counts n ios }"

definition init_irq_allocator :: "'d IoApics \<Rightarrow> 'd IoApics option" where
  "init_irq_allocator s = do {
     n \<leftarrow> sum_gsi_counts 0 (ia_ioapics s);
     m \<leftarrow> usub n 1;
     t \<leftarrow> id_tracker_new (Id 0) (Id m);
     Some (s \<lparr> ia_irq_allocator := t \<rparr>) }"

definition allocate_irq_at :: "'d IoApics \<Rightarrow> u8 \<Rightarrow> ((IdTrackerError + unit) \<times> 'd IoApics) option" where
  "allocate_irq_at s irq = do {
     (r, t) \<leftarrow> id_tracker_allocate_at (ia_irq_allocator s) (Id (unat irq));
     Some (r, s \<lparr> ia_irq_allocator := t \<rparr>) }"

definition irq_to_gsi :: "IrqOverride list \<Rightarrow> u8 \<Rightarrow> nat" where
  "irq_to_gsi ovs irq = (case find (\<lambda>v. ov_irq v = irq) ovs of Some v \<Rightarrow> ov_gsi v | None \<Rightarrow> unat irq)"

definition gsi_to_irq :: "IrqOverride list \<Rightarrow> nat \<Rightarrow> u8" where
  "gsi_to_irq ovs gsi = (case find (\<lambda>v. ov_gsi v = gsi) ovs of Some v \<Rightarrow> ov_irq v | None \<Rightarrow> of_nat gsi)"

fun find_ioapic :: "IoApic list \<Rightarrow> nat \<Rightarrow> IoApic option option" where
  "find_ioapic [] gsi = Some None"
| "find_ioapic (io # ios) gsi =
     (if gsi_base io \<le> gsi then do {
        e \<leftarrow> checked_u32 (gsi_base io + gsi_count io);
        if gsi < e then Some (Some io) else find_ioapic ios gsi }
      else find_ioapic ios gsi)"

definition map_irq_to_vector :: "'d mmio_rd \<Rightarrow> 'd mmio_wr \<Rightarrow> 'd IoApics \<Rightarrow> u8 \<Rightarrow> u8 \<Rightarrow> ((IoApicError + unit) \<times> 'd IoApics) option" where
  "map_irq_to_vector rd wr s vector irq = do {
     let gsi = irq_to_gsi (ia_overrides s) irq;
     found \<leftarrow> find_ioapic (ia_ioapics s) gsi;
     (case found of
        None \<Rightarrow> Some (Err InvalidGsi, s)
      | Some io \<Rightarrow> do {
          offset \<leftarrow> red_tbl_to_index (gsi - gsi_base io);
          (e, d) \<leftarrow> read_redirection_entry rd wr io (ia_dev s) offset;
          e \<leftarrow> bf_set RedirectionEntry_layout ''vector'' (ucast vector) e;
          e \<leftarrow> bf_set RedirectionEntry_layout ''mask'' 1 e;
          d \<leftarrow> write_redirection_entry wr io d offset e;
          Some (Ok (), s \<lparr> ia_dev := d \<rparr>) }) }"

definition override_irq :: "'d mmio_rd \<Rightarrow> 'd mmio_wr \<Rightarrow> 'd IoApics \<Rightarrow> u8 \<Rightarrow> nat \<Rightarrow> u16 \<Rightarrow> DeliveryMode option \<Rightarrow> 'd IoApics option" where
  "override_irq rd wr s irq gsi flags delivery_mode = do {
     found \<leftarrow> find_ioapic (ia_ioapics s) gsi;
     io \<leftarrow> found;
     offset \<leftarrow> red_tbl_to_index (gsi - gsi_base io);
     (e, d) \<leftarrow> read_redirection_entry rd wr io (ia_dev s) offset;
     e \<leftarrow> bf_set RedirectionEntry_layout ''pin_polarity'' (ucast (drop_bit 1 (flags AND 2))) e;
     e \<leftarrow> bf_set RedirectionEntry_layout ''trigger_mode'' (ucast (drop_bit 3 (flags AND 8))) e;
     e \<leftarrow> bf_set RedirectionEntry_layout ''destination_mode'' (ucast PHYSICAL_MODE) e;
     e \<leftarrow> bf_set RedirectionEntry_layout ''destination'' (ucast (ioapic_apic_id io)) e;
     e \<leftarrow> (case delivery_mode of
            Some m \<Rightarrow> bf_set RedirectionEntry_layout ''delivery_mode'' (ucast (delivery_mode_value m)) e
          | None \<Rightarrow> Some e);
     d \<leftarrow> write_redirection_entry wr io d offset e;
     Some (s \<lparr> ia_dev := d, ia_overrides := ia_overrides s @ [\<lparr> ov_irq = irq, ov_gsi = gsi \<rparr>] \<rparr>) }"

definition set_disabled :: "'d mmio_rd \<Rightarrow> 'd mmio_wr \<Rightarrow> 'd IoApics \<Rightarrow> u8 \<Rightarrow> bool \<Rightarrow> ((IoApicError + unit) \<times> 'd IoApics) option" where
  "set_disabled rd wr s irq status = do {
     let gsi = irq_to_gsi (ia_overrides s) irq;
     found \<leftarrow> find_ioapic (ia_ioapics s) gsi;
     (case found of
        None \<Rightarrow> Some (Err InvalidGsi, s)
      | Some io \<Rightarrow> do {
          offset \<leftarrow> red_tbl_to_index (gsi - gsi_base io);
          (e, d) \<leftarrow> read_redirection_entry rd wr io (ia_dev s) offset;
          e \<leftarrow> bf_set RedirectionEntry_layout ''mask'' (if status then 1 else 0) e;
          d \<leftarrow> write_redirection_entry wr io d offset e;
          Some (Ok (), s \<lparr> ia_dev := d \<rparr>) }) }"

subsection \<open>The device\<close>

text \<open>What the hardware documentation promises of the select and window registers: a write to the first
  selects a register, the second reads and writes the selected one, and the I/O APICs at different
  addresses are independent.  \<open>sel d b\<close> and \<open>reg d b\<close> are the selection and the registers of the I/O APIC
  at \<open>b\<close>.  The registers are plain storage here: that the hardware ignores writes to the status bits 12 and 14 of
  a redirection entry, and that only the low eight bits of the selection count, is not expressed.\<close>

definition ioapic_device :: "'d mmio_rd \<Rightarrow> 'd mmio_wr \<Rightarrow> ('d \<Rightarrow> nat \<Rightarrow> u32) \<Rightarrow> ('d \<Rightarrow> nat \<Rightarrow> u32 \<Rightarrow> u32) \<Rightarrow> nat set \<Rightarrow> bool" where
  "ioapic_device rd wr sel reg B \<longleftrightarrow> (\<forall>b \<in> B. \<forall>d v.
     sel (wr d b v) = (sel d)(b := v) \<and> reg (wr d b v) = reg d
     \<and> rd d (b + 0x10) = reg d b (sel d b)
     \<and> sel (wr d (b + 0x10) v) = sel d \<and> reg (wr d (b + 0x10) v) = (reg d)(b := (reg d b)(sel d b := v)))"

definition ioapics_ok :: "nat set \<Rightarrow> IoApic list \<Rightarrow> bool" where
  "ioapics_ok B ios \<longleftrightarrow> (\<forall>io \<in> set ios. mmio_base (io_sel io) \<in> B \<and> mmio_base (io_win io) = mmio_base (io_sel io) + 0x10
     \<and> gsi_base io + gsi_count io < 2 ^ 32 \<and> gsi_count io \<le> 256)"

definition serves :: "IoApic \<Rightarrow> nat \<Rightarrow> bool" where
  "serves io gsi \<longleftrightarrow> gsi_base io \<le> gsi \<and> gsi < gsi_base io + gsi_count io"

lemma find_ioapic_spec:
  assumes "ioapics_ok B ios"
  shows "find_ioapic ios gsi = Some (find (\<lambda>io. serves io gsi) ios)"
  using assms by (induction ios) (auto simp: ioapics_ok_def serves_def checked_u32_def)

lemma red_tbl_index:
  assumes "n \<le> 256"
  shows "red_tbl_to_index n = Some (2 * n + 0x10)"
  using assms by (simp add: red_tbl_to_index_def checked_u32_def APIC_REDIRACTION_TABLE_BASE_def)

lemma redirection_fields:
  "field_at RedirectionEntry_layout ''vector'' 0 = Some (0, 8)" "field_at RedirectionEntry_layout ''delivery_mode'' 0 = Some (8, 3)"
  "field_at RedirectionEntry_layout ''destination_mode'' 0 = Some (11, 1)" "field_at RedirectionEntry_layout ''pin_polarity'' 0 = Some (13, 1)"
  "field_at RedirectionEntry_layout ''trigger_mode'' 0 = Some (15, 1)" "field_at RedirectionEntry_layout ''mask'' 0 = Some (16, 1)"
  "field_at RedirectionEntry_layout ''destination'' 0 = Some (56, 8)"
  by (simp_all add: RedirectionEntry_layout_def)

lemma bit_get_low: "bit (get_low e) i \<longleftrightarrow> i < 32 \<and> bit e i"
proof -
  have m: "(0xFFFFFFFF :: u64) = mask 32" by (simp add: mask_eq_exp_minus_1)
  show ?thesis unfolding get_low_def m by (auto simp: bit_simps)
qed

lemma bit_get_high: "bit (get_high e) i \<longleftrightarrow> i < 32 \<and> bit e (32 + i)"
proof -
  have m: "(0xFFFFFFFF :: u64) = mask 32" by (simp add: mask_eq_exp_minus_1)
  show ?thesis unfolding get_high_def m by (auto simp: bit_simps)
qed

text \<open>One entry as the code reads it: the low half is register \<open>i\<close>, the high half register \<open>i + 0x12\<close>.\<close>

definition entry_of :: "(u32 \<Rightarrow> u32) \<Rightarrow> nat \<Rightarrow> RedirectionEntry" where
  "entry_of r i = ucast (r (of_nat i)) OR push_bit 32 (ucast (r (of_nat (i + 0x12))))"

lemma entry_of_halves: "get_low (entry_of r i) = r (of_nat i)" "get_high (entry_of r i) = r (of_nat (i + 0x12))"
  by (rule bit_eqI; auto simp: bit_get_low bit_get_high entry_of_def bit_simps dest: bit_imp_le_length)+

lemma read_redirection_spec:
  assumes dev: "ioapic_device rd wr sel reg B" and io: "mmio_base (io_sel io) = b" "mmio_base (io_win io) = b + 0x10" "b \<in> B" and i: "i + 0x12 < 2 ^ 32"
  obtains d' where "read_redirection_entry rd wr io d i = Some (entry_of (reg d b) i, d')" and "reg d' = reg d"
proof -
  define d1 where "d1 = wr d b (of_nat i)"
  define d2 where "d2 = wr d1 b (of_nat (i + 0x12))"
  have s: "sel d1 = (sel d)(b := of_nat i)" "reg d1 = reg d" "sel d2 = (sel d1)(b := of_nat (i + 0x12))" "reg d2 = reg d"
    using dev io(3) by (auto simp: ioapic_device_def d1_def d2_def)
  have r: "rd d1 (b + 0x10) = reg d b (of_nat i)" "rd d2 (b + 0x10) = reg d b (of_nat (i + 0x12))"
    using dev io(3) s by (auto simp: ioapic_device_def)
  have "read_redirection_entry rd wr io d i = Some (entry_of (reg d b) i, d2)"
    unfolding read_redirection_entry_def mmio_cell_write_def mmio_cell_read_def io(1,2)
    using i r [unfolded d2_def d1_def] by (simp add: red_tbl_index checked_u32_def Let_def entry_of_def d2_def d1_def)
  then show ?thesis using s(4) that by blast
qed

lemma write_redirection_spec:
  assumes dev: "ioapic_device rd wr sel reg B" and io: "mmio_base (io_sel io) = b" "mmio_base (io_win io) = b + 0x10" "b \<in> B" and i: "i + 0x12 < 2 ^ 32"
  obtains d' where "write_redirection_entry wr io d i e = Some d'"
    and "reg d' = (reg d)(b := (reg d b)(of_nat i := get_low e, of_nat (i + 0x12) := get_high e))"
proof -
  define d1 where "d1 = wr d b (of_nat i)"
  define d2 where "d2 = wr d1 (b + 0x10) (get_low e)"
  define d3 where "d3 = wr d2 b (of_nat (i + 0x12))"
  define d4 where "d4 = wr d3 (b + 0x10) (get_high e)"
  have "sel d1 = (sel d)(b := of_nat i)" "reg d1 = reg d" using dev io(3) by (auto simp: ioapic_device_def d1_def)
  then have s2: "reg d2 = (reg d)(b := (reg d b)(of_nat i := get_low e))" using dev io(3) by (auto simp: ioapic_device_def d2_def)
  then have "sel d3 = (sel d2)(b := of_nat (i + 0x12))" "reg d3 = reg d2" using dev io(3) by (auto simp: ioapic_device_def d3_def)
  then have "reg d4 = (reg d3)(b := (reg d3 b)(of_nat (i + 0x12) := get_high e))" using dev io(3) by (auto simp: ioapic_device_def d4_def)
  with s2 \<open>reg d3 = reg d2\<close> have "reg d4 = (reg d)(b := (reg d b)(of_nat i := get_low e, of_nat (i + 0x12) := get_high e))" by simp
  moreover have "write_redirection_entry wr io d i e = Some d4"
    using i unfolding write_redirection_entry_def mmio_cell_write_def io(1,2)
    by (simp add: red_tbl_index checked_u32_def Let_def d1_def d2_def d3_def d4_def)
  ultimately show ?thesis using that by blast
qed

subsection \<open>Operations on the redirection table\<close>

text \<open>Register of the low half of the entry for an interrupt.\<close>

definition entry_index :: "IoApic \<Rightarrow> nat \<Rightarrow> nat" where
  "entry_index io gsi = 2 * (gsi - gsi_base io) + 0x10"

lemma index_ne: "(of_nat i :: u32) \<noteq> of_nat (i + 0x12)"
  by simp

lemma found_ioapic:
  assumes "ioapics_ok B ios" and "find (\<lambda>io. serves io gsi) ios = Some io"
  shows "mmio_base (io_sel io) \<in> B" and "mmio_base (io_win io) = mmio_base (io_sel io) + 0x10"
    and "red_tbl_to_index (gsi - gsi_base io) = Some (entry_index io gsi)" and "entry_index io gsi + 0x12 < 2 ^ 32"
proof -
  have io: "io \<in> set ios" "serves io gsi" using assms(2) by (auto simp: find_Some_iff)
  then show "mmio_base (io_sel io) \<in> B" "mmio_base (io_win io) = mmio_base (io_sel io) + 0x10"
    using assms(1) by (auto simp: ioapics_ok_def)
  have "gsi - gsi_base io \<le> 256" using io assms(1) by (force simp: ioapics_ok_def serves_def)
  then show "red_tbl_to_index (gsi - gsi_base io) = Some (entry_index io gsi)" "entry_index io gsi + 0x12 < 2 ^ 32"
    by (simp_all add: red_tbl_index entry_index_def)
qed

text \<open>A change of the low half leaves every other register as it is.\<close>

lemma low_half_update:
  assumes "\<And>i. 32 \<le> i \<Longrightarrow> bit e i \<longleftrightarrow> bit (entry_of r j) i"
  shows "r(of_nat j := get_low e, of_nat (j + 0x12) := get_high e) = r(of_nat j := get_low e)"
proof -
  have "get_high e = get_high (entry_of r j)"
    by (rule bit_eqI) (use assms in \<open>auto simp: bit_get_high\<close>)
  then show ?thesis using index_ne [of j] by (auto simp: entry_of_halves(2) simp del: of_nat_add)
qed

lemma bit_entry_low: "i < 32 \<Longrightarrow> bit (entry_of r j) i \<longleftrightarrow> bit (r (of_nat j)) i"
  by (auto simp: entry_of_def bit_simps)

lemma entry_rmw:
  assumes dev: "ioapic_device rd wr sel reg B" and ok: "ioapics_ok B ios" and find: "find (\<lambda>io. serves io gsi) ios = Some io"
  obtains d1 where "read_redirection_entry rd wr io d (entry_index io gsi) = Some (entry_of (reg d (mmio_base (io_sel io))) (entry_index io gsi), d1)"
    and "\<forall>e. \<exists>d2. write_redirection_entry wr io d1 (entry_index io gsi) e = Some d2
        \<and> reg d2 = (reg d)(mmio_base (io_sel io) := (reg d (mmio_base (io_sel io)))
            (of_nat (entry_index io gsi) := get_low e, of_nat (entry_index io gsi + 0x12) := get_high e))"
proof -
  note io = found_ioapic [OF ok find]
  from read_redirection_spec [OF dev refl io(2,1,4)] obtain d1 where
    d1: "read_redirection_entry rd wr io d (entry_index io gsi) = Some (entry_of (reg d (mmio_base (io_sel io))) (entry_index io gsi), d1)"
    "reg d1 = reg d" by blast
  moreover have "\<exists>d2. write_redirection_entry wr io d1 (entry_index io gsi) e = Some d2
        \<and> reg d2 = (reg d1)(mmio_base (io_sel io) := (reg d1 (mmio_base (io_sel io)))
            (of_nat (entry_index io gsi) := get_low e, of_nat (entry_index io gsi + 0x12) := get_high e))" for e
    using write_redirection_spec [OF dev refl io(2,1,4), of d1 e] by blast
  ultimately show ?thesis using that by metis
qed

lemma map_irq_spec:
  assumes dev: "ioapic_device rd wr sel reg B" and ok: "ioapics_ok B (ia_ioapics s)"
    and gsi: "gsi = irq_to_gsi (ia_overrides s) irq" and find: "find (\<lambda>io. serves io gsi) (ia_ioapics s) = Some io"
  obtains d w where "map_irq_to_vector rd wr s vector irq = Some (Ok (), s \<lparr> ia_dev := d \<rparr>)"
    and "reg d = (reg (ia_dev s))(mmio_base (io_sel io) := (reg (ia_dev s) (mmio_base (io_sel io)))(of_nat (entry_index io gsi) := w))"
    and "\<forall>n < 32. bit w n \<longleftrightarrow> (if n < 8 then bit vector n
        else n = 16 \<or> bit (reg (ia_dev s) (mmio_base (io_sel io)) (of_nat (entry_index io gsi))) n)"
proof -
  let ?b = "mmio_base (io_sel io)" and ?i = "entry_index io gsi"
  note io = found_ioapic [OF ok find]
  obtain d1 where d1: "read_redirection_entry rd wr io (ia_dev s) ?i = Some (entry_of (reg (ia_dev s) ?b) ?i, d1)"
    and wr: "\<forall>e. \<exists>d2. write_redirection_entry wr io d1 ?i e = Some d2
        \<and> reg d2 = (reg (ia_dev s))(?b := (reg (ia_dev s) ?b)(of_nat ?i := get_low e, of_nat (?i + 0x12) := get_high e))"
    using entry_rmw [OF dev ok find, of "ia_dev s"] by blast
  let ?e = "entry_of (reg (ia_dev s) ?b) ?i"
  have "take_bit 8 (ucast vector :: u64) = ucast vector" by (rule bit_eqI) (auto simp: bit_simps dest: bit_imp_le_length)
  then obtain e1 where e1: "bf_set RedirectionEntry_layout ''vector'' (ucast vector) ?e = Some e1"
    using bf_set_fits redirection_fields(1) by blast
  obtain e2 where e2: "bf_set RedirectionEntry_layout ''mask'' 1 e1 = Some e2"
    using bf_set_fits [OF redirection_fields(6), of 1] by auto
  have bits: "bit e2 n \<longleftrightarrow> n < 64 \<and> (if n < 8 then bit vector n else n = 16 \<or> bit ?e n)" for n
    by (auto simp: bit_bf_set [OF e2 redirection_fields(6)] bit_bf_set [OF e1 redirection_fields(1)] bit_simps)
  have hi: "bit e2 i \<longleftrightarrow> bit ?e i" if "32 \<le> i" for i using that bits [of i] by (auto dest: bit_imp_le_length)
  from spec [OF wr, of e2] obtain d2 where d2: "write_redirection_entry wr io d1 ?i e2 = Some d2"
    "reg d2 = (reg (ia_dev s))(?b := (reg (ia_dev s) ?b)(of_nat ?i := get_low e2, of_nat (?i + 0x12) := get_high e2))" by blast
  have "reg d2 = (reg (ia_dev s))(?b := (reg (ia_dev s) ?b)(of_nat ?i := get_low e2))"
    using d2(2) low_half_update [OF hi] by (simp only:)
  moreover have "map_irq_to_vector rd wr s vector irq = Some (Ok (), s \<lparr> ia_dev := d2 \<rparr>)"
    using d1 e1 e2 d2(1) io(3) by (simp add: map_irq_to_vector_def gsi [symmetric] find_ioapic_spec [OF ok] find)
  moreover have "\<forall>n < 32. bit (get_low e2) n \<longleftrightarrow> (if n < 8 then bit vector n else n = 16 \<or> bit (reg (ia_dev s) ?b (of_nat ?i)) n)"
    by (auto simp: bit_get_low bits bit_entry_low)
  ultimately show ?thesis using that by blast
qed

lemma set_disabled_spec:
  assumes dev: "ioapic_device rd wr sel reg B" and ok: "ioapics_ok B (ia_ioapics s)"
    and gsi: "gsi = irq_to_gsi (ia_overrides s) irq" and find: "find (\<lambda>io. serves io gsi) (ia_ioapics s) = Some io"
  obtains d w where "set_disabled rd wr s irq status = Some (Ok (), s \<lparr> ia_dev := d \<rparr>)"
    and "reg d = (reg (ia_dev s))(mmio_base (io_sel io) := (reg (ia_dev s) (mmio_base (io_sel io)))(of_nat (entry_index io gsi) := w))"
    and "\<forall>n < 32. bit w n \<longleftrightarrow> (if n = 16 then status else bit (reg (ia_dev s) (mmio_base (io_sel io)) (of_nat (entry_index io gsi))) n)"
proof -
  let ?b = "mmio_base (io_sel io)" and ?i = "entry_index io gsi"
  note io = found_ioapic [OF ok find]
  obtain d1 where d1: "read_redirection_entry rd wr io (ia_dev s) ?i = Some (entry_of (reg (ia_dev s) ?b) ?i, d1)"
    and wr: "\<forall>e. \<exists>d2. write_redirection_entry wr io d1 ?i e = Some d2
        \<and> reg d2 = (reg (ia_dev s))(?b := (reg (ia_dev s) ?b)(of_nat ?i := get_low e, of_nat (?i + 0x12) := get_high e))"
    using entry_rmw [OF dev ok find, of "ia_dev s"] by blast
  let ?e = "entry_of (reg (ia_dev s) ?b) ?i"
  obtain e2 where e2: "bf_set RedirectionEntry_layout ''mask'' (if status then 1 else 0) ?e = Some e2"
    by (cases status) (auto simp: bf_set_def redirection_fields)
  have bits: "bit e2 n \<longleftrightarrow> n < 64 \<and> (if n = 16 then status else bit ?e n)" for n
    by (auto simp: bit_bf_set [OF e2 redirection_fields(6)] bit_simps)
  have hi: "bit e2 i \<longleftrightarrow> bit ?e i" if "32 \<le> i" for i using that bits [of i] by (auto dest: bit_imp_le_length)
  from spec [OF wr, of e2] obtain d2 where d2: "write_redirection_entry wr io d1 ?i e2 = Some d2"
    "reg d2 = (reg (ia_dev s))(?b := (reg (ia_dev s) ?b)(of_nat ?i := get_low e2, of_nat (?i + 0x12) := get_high e2))" by blast
  have "reg d2 = (reg (ia_dev s))(?b := (reg (ia_dev s) ?b)(of_nat ?i := get_low e2))"
    using d2(2) low_half_update [OF hi] by (simp only:)
  moreover have "set_disabled rd wr s irq status = Some (Ok (), s \<lparr> ia_dev := d2 \<rparr>)"
    using d1 e2 d2(1) io(3) by (simp add: set_disabled_def gsi [symmetric] find_ioapic_spec [OF ok] find)
  moreover have "\<forall>n < 32. bit (get_low e2) n \<longleftrightarrow> (if n = 16 then status else bit (reg (ia_dev s) ?b (of_nat ?i)) n)"
    by (auto simp: bit_get_low bits bit_entry_low)
  ultimately show ?thesis using that by blast
qed

subsection \<open>The writes to the window\<close>

text \<open>An observation of the device that records the writes to the window of the I/O APIC at \<open>b\<close>, each with the selected register.\<close>

definition window_log :: "'d mmio_wr \<Rightarrow> ('d \<Rightarrow> nat \<Rightarrow> u32) \<Rightarrow> ('d \<Rightarrow> (u32 \<times> u32) list) \<Rightarrow> nat \<Rightarrow> bool" where
  "window_log wr sel hist b \<longleftrightarrow> (\<forall>d a v. hist (wr d a v) = (if a = b + 0x10 then hist d @ [(sel d b, v)] else hist d))"

lemma ioapics_dev_inject: "s \<lparr> ia_dev := d \<rparr> = s \<lparr> ia_dev := d' \<rparr> \<longleftrightarrow> d = d'" for s :: "'d IoApics"
  by (cases s) simp

lemma read_redirection_log:
  assumes "window_log wr sel hist b" and "mmio_base (io_sel io) = b" and "read_redirection_entry rd wr io d i = Some (e, d')"
  shows "hist d' = hist d"
  using assms by (auto simp: window_log_def read_redirection_entry_def mmio_cell_write_def Let_def split: Option.bind_splits)

lemma write_redirection_log:
  assumes dev: "ioapic_device rd wr sel reg B" and log: "window_log wr sel hist b" and io: "mmio_base (io_sel io) = b" "mmio_base (io_win io) = b + 0x10" "b \<in> B"
    and i: "i + 0x12 < 2 ^ 32" and w: "write_redirection_entry wr io d i e = Some d'"
  shows "hist d' = hist d @ [(of_nat i, reg d' b (of_nat i)), (of_nat (i + 0x12), reg d' b (of_nat (i + 0x12)))]"
proof -
  define d1 where "d1 = wr d b (of_nat i)"
  define d2 where "d2 = wr d1 (b + 0x10) (get_low e)"
  define d3 where "d3 = wr d2 b (of_nat (i + 0x12))"
  have d': "d' = wr d3 (b + 0x10) (get_high e)"
    using w i unfolding write_redirection_entry_def mmio_cell_write_def io(1,2)
    by (simp add: red_tbl_index checked_u32_def Let_def d1_def d2_def d3_def)
  have s: "sel d1 b = of_nat i" "sel d3 b = of_nat (i + 0x12)" using dev io(3) by (auto simp: ioapic_device_def d1_def d3_def)
  have "hist d' = hist d @ [(of_nat i, get_low e), (of_nat (i + 0x12), get_high e)]"
    using log s by (simp add: window_log_def d' d3_def d2_def d1_def del: of_nat_add)
  moreover obtain d4 where "write_redirection_entry wr io d i e = Some d4"
    "reg d4 = (reg d)(b := (reg d b)(of_nat i := get_low e, of_nat (i + 0x12) := get_high e))"
    by (rule write_redirection_spec [OF dev io i]) (rule that)
  ultimately show ?thesis using w index_ne [of i] by (simp del: of_nat_add)
qed

lemma rmw_log:
  assumes dev: "ioapic_device rd wr sel reg B" and log: "window_log wr sel hist b" and ok: "ioapics_ok B (ia_ioapics s)"
    and gsi: "gsi = irq_to_gsi (ia_overrides s) irq" and find: "find (\<lambda>io. serves io gsi) (ia_ioapics s) = Some io" and b: "b = mmio_base (io_sel io)"
    and reg: "reg d = (reg (ia_dev s))(b := (reg (ia_dev s) b)(of_nat (entry_index io gsi) := w))"
    and run: "set_disabled rd wr s irq status = Some (Ok (), s \<lparr> ia_dev := d \<rparr>) \<or> map_irq_to_vector rd wr s vector irq = Some (Ok (), s \<lparr> ia_dev := d \<rparr>)"
  shows "hist d = hist (ia_dev s) @ [(of_nat (entry_index io gsi), w), (of_nat (entry_index io gsi + 0x12), reg (ia_dev s) b (of_nat (entry_index io gsi + 0x12)))]"
proof -
  note io = found_ioapic [OF ok find]
  from run obtain d1 e0 e where r: "read_redirection_entry rd wr io (ia_dev s) (entry_index io gsi) = Some (e0, d1)"
    and x: "write_redirection_entry wr io d1 (entry_index io gsi) e = Some d"
    by (auto simp: set_disabled_def map_irq_to_vector_def gsi [symmetric] find_ioapic_spec [OF ok] find io(3) ioapics_dev_inject split: Option.bind_splits)
  have "hist d1 = hist (ia_dev s)" by (rule read_redirection_log [OF log b [symmetric] r])
  with write_redirection_log [OF dev log b [symmetric] _ _ io(4) x] io(1,2) b index_ne [of "entry_index io gsi"] reg show ?thesis
    by (simp del: of_nat_add)
qed

text \<open>Any device can be observed in this way.\<close>

definition logged_rd :: "'d mmio_rd \<Rightarrow> ('d \<times> (u32 \<times> u32) list) mmio_rd" where
  "logged_rd rd d a = rd (fst d) a"

definition logged_wr :: "'d mmio_wr \<Rightarrow> ('d \<Rightarrow> nat \<Rightarrow> u32) \<Rightarrow> nat \<Rightarrow> ('d \<times> (u32 \<times> u32) list) mmio_wr" where
  "logged_wr wr sel b d a v = (wr (fst d) a v, if a = b + 0x10 then snd d @ [(sel (fst d) b, v)] else snd d)"

lemma logged_device:
  assumes "ioapic_device rd wr sel reg B"
  shows "ioapic_device (logged_rd rd) (logged_wr wr sel b) (sel \<circ> fst) (reg \<circ> fst) B" and "window_log (logged_wr wr sel b) (sel \<circ> fst) snd b"
  using assms by (simp_all add: ioapic_device_def logged_rd_def logged_wr_def window_log_def)

lemma invalid_gsi:
  assumes "ioapics_ok B (ia_ioapics s)" and "find (\<lambda>io. serves io (irq_to_gsi (ia_overrides s) irq)) (ia_ioapics s) = None"
  shows "map_irq_to_vector rd wr s vector irq = Some (Err InvalidGsi, s)" and "set_disabled rd wr s irq status = Some (Err InvalidGsi, s)"
  using find_ioapic_spec [OF assms(1)] assms(2) by (simp_all add: map_irq_to_vector_def set_disabled_def)

subsection \<open>A device\<close>

text \<open>One I/O APIC at \<open>0x1000\<close> as the documentation describes it: the pair of selection and registers.\<close>

type_synonym demo_ioapic = "(nat \<Rightarrow> u32) \<times> (nat \<Rightarrow> u32 \<Rightarrow> u32)"

definition demo_rd :: "demo_ioapic mmio_rd" where
  "demo_rd d a = snd d (a - 0x10) (fst d (a - 0x10))"

definition demo_wr :: "demo_ioapic mmio_wr" where
  "demo_wr d a v = (if a = 0x1000 then ((fst d)(a := v), snd d)
     else (fst d, (snd d)(a - 0x10 := (snd d (a - 0x10))(fst d (a - 0x10) := v))))"

definition demo_io :: IoApic where
  "demo_io = \<lparr> io_sel = mmio_new 0x1000, io_win = mmio_new 0x1010, gsi_base = 0, gsi_count = 24, ioapic_apic_id = 1 \<rparr>"

definition demo_ioapics :: "demo_ioapic IoApics" where
  "demo_ioapics = \<lparr> ia_ioapics = [demo_io], ia_overrides = [], ia_irq_allocator = id_tracker_uninit, ia_dev = (\<lambda>_. 0, \<lambda>_ _. 0) \<rparr>"

lemma demo_device: "ioapic_device demo_rd demo_wr fst snd {0x1000}"
  by (simp add: ioapic_device_def demo_rd_def demo_wr_def)

lemma demo_ioapics_ok: "ioapics_ok {0x1000} (ia_ioapics demo_ioapics)"
  by (simp add: ioapics_ok_def demo_ioapics_def demo_io_def mmio_new_def)

lemma demo_find: "gsi < 24 \<Longrightarrow> find (\<lambda>io. serves io gsi) (ia_ioapics demo_ioapics) = Some demo_io"
  by (simp add: demo_ioapics_def serves_def demo_io_def)

subsection \<open>Properties\<close>

text \<open>The entry that an override writes: polarity and trigger mode of the flags, physical destination mode, and the destination.\<close>

lemma override_entry:
  fixes e0 :: u64
  obtains e1 e2 e3 e4 e5 where "bf_set RedirectionEntry_layout ''pin_polarity'' (ucast (drop_bit 1 (flags AND 2))) e0 = Some e1"
    and "bf_set RedirectionEntry_layout ''trigger_mode'' (ucast (drop_bit 3 (flags AND 8))) e1 = Some e2"
    and "bf_set RedirectionEntry_layout ''destination_mode'' (ucast PHYSICAL_MODE) e2 = Some e3"
    and "bf_set RedirectionEntry_layout ''destination'' (ucast (dest :: u8)) e3 = Some e4"
    and "(case mode of Some m \<Rightarrow> bf_set RedirectionEntry_layout ''delivery_mode'' (ucast (delivery_mode_value m)) e4 | None \<Rightarrow> Some e4) = Some e5"
    and "\<And>n. bit e5 n \<longleftrightarrow> n < 64 \<and> (if 8 \<le> n \<and> n < 11 \<and> mode \<noteq> None then bit (delivery_mode_value (the mode)) (n - 8)
      else if n = 13 then bit (flags :: u16) 1 else if n = 15 then bit flags 3 else if n = 11 then False else if 56 \<le> n then bit dest (n - 56) else bit e0 n)"
proof -
  let ?L = RedirectionEntry_layout
  have pol: "drop_bit 1 (flags AND 2) = of_bool (bit flags 1)" "drop_bit 3 (flags AND 8) = of_bool (bit flags 3)"
    using flag_bit [of 1 flags] flag_bit [of 3 flags] by simp_all
  have fits: "take_bit 1 (ucast (drop_bit 1 (flags AND 2)) :: u64) = ucast (drop_bit 1 (flags AND 2))"
    "take_bit 1 (ucast (drop_bit 3 (flags AND 8)) :: u64) = ucast (drop_bit 3 (flags AND 8))"
    "take_bit 1 (ucast PHYSICAL_MODE :: u64) = ucast PHYSICAL_MODE" "take_bit 8 (ucast (dest) :: u64) = ucast (dest)"
    unfolding pol by (auto simp: bit_eq_iff bit_simps PHYSICAL_MODE_def dest: bit_imp_le_length)
  from bf_set_fits [OF redirection_fields(4) fits(1)] obtain e1 where
    e1: "bf_set ?L ''pin_polarity'' (ucast (drop_bit 1 (flags AND 2))) e0 = Some e1" by blast
  from bf_set_fits [OF redirection_fields(5) fits(2)] obtain e2 where
    e2: "bf_set ?L ''trigger_mode'' (ucast (drop_bit 3 (flags AND 8))) e1 = Some e2" by blast
  from bf_set_fits [OF redirection_fields(3) fits(3)] obtain e3 where
    e3: "bf_set ?L ''destination_mode'' (ucast PHYSICAL_MODE) e2 = Some e3" by blast
  from bf_set_fits [OF redirection_fields(7) fits(4)] obtain e4 where
    e4: "bf_set ?L ''destination'' (ucast (dest)) e3 = Some e4" by blast
  have fit5: "take_bit 3 (ucast (delivery_mode_value m) :: u64) = ucast (delivery_mode_value m)" for m
    by (cases m) simp_all
  obtain e5 where e5: "(case mode of Some m \<Rightarrow> bf_set ?L ''delivery_mode'' (ucast (delivery_mode_value m)) e4 | None \<Rightarrow> Some e4) = Some e5"
    by (cases mode) (auto simp: bf_set_def redirection_fields fit5)
  have b5: "bit e5 n \<longleftrightarrow> n < 64 \<and> (if 8 \<le> n \<and> n < 11 \<and> mode \<noteq> None then bit (delivery_mode_value (the mode)) (n - 8) else bit e4 n)" for n
  proof (cases mode)
    case (Some m)
    then have "bf_set ?L ''delivery_mode'' (ucast (delivery_mode_value m)) e4 = Some e5" using e5 by simp
    from bit_bf_set [OF this redirection_fields(2), of n] Some show ?thesis by (simp add: bit_simps) linarith
  qed (use e5 in \<open>auto dest: bit_imp_le_length\<close>)
  have bits: "bit e4 n \<longleftrightarrow> n < 64 \<and> (if n = 13 then bit flags 1 else if n = 15 then bit flags 3 else if n = 11 then False
      else if 56 \<le> n then bit (dest) (n - 56) else bit e0 n)" for n
    by (auto simp: bit_bf_set [OF e4 redirection_fields(7)] bit_bf_set [OF e3 redirection_fields(3)] bit_bf_set [OF e2 redirection_fields(5)]
        bit_bf_set [OF e1 redirection_fields(4)] pol bit_simps PHYSICAL_MODE_def)
  show ?thesis
  proof (rule that [OF e1 e2 e3 e4 e5])
    show "bit e5 n \<longleftrightarrow> n < 64 \<and> (if 8 \<le> n \<and> n < 11 \<and> mode \<noteq> None then bit (delivery_mode_value (the mode)) (n - 8)
      else if n = 13 then bit flags 1 else if n = 15 then bit flags 3 else if n = 11 then False else if 56 \<le> n then bit dest (n - 56) else bit e0 n)" for n
      using b5 [of n] bits [of n] by auto
  qed
qed

text \<open>C36: Recording an override never panics for an interrupt that some I/O APIC serves.  Polarity, trigger,
  destination mode and delivery mode go to the entry of the interrupt, but the destination does not: the
  code takes the register \<open>i + 0x12\<close> for the high half of the entry at \<open>i\<close>, so the high half (register
  \<open>i + 1\<close>) keeps its old destination and the APIC ID lands in the low half of the entry nine further on.  The device is any with
  plain registers (\<open>ioapic_device\<close>): hardware that ignores writes to read-only bits of that entry is not expressed.\<close>
theorem override_irq_misplaces_destination:
  assumes "ioapic_device rd wr sel reg B" and "ioapics_ok B (ia_ioapics s)" and "find (\<lambda>io. serves io gsi) (ia_ioapics s) = Some io"
    and "b = mmio_base (io_sel io)" and "i = entry_index io gsi"
  shows "\<exists>d lo hi. override_irq rd wr s irq gsi flags mode
        = Some (s \<lparr> ia_dev := d, ia_overrides := ia_overrides s @ [\<lparr> ov_irq = irq, ov_gsi = gsi \<rparr>] \<rparr>)
    \<and> reg d = (reg (ia_dev s))(b := (reg (ia_dev s) b)(of_nat i := lo, of_nat (i + 0x12) := hi))
    \<and> (\<forall>n < 32. bit lo n \<longleftrightarrow> (if n = 13 then bit flags 1 else if n = 15 then bit flags 3 else if n = 11 then False
         else if 8 \<le> n \<and> n < 11 \<and> mode \<noteq> None then bit (delivery_mode_value (the mode)) (n - 8)
         else bit (reg (ia_dev s) b (of_nat i)) n))
    \<and> (\<forall>n < 32. bit hi n \<longleftrightarrow> (if 24 \<le> n then bit (ioapic_apic_id io) (n - 24) else bit (reg (ia_dev s) b (of_nat (i + 0x12))) n))
    \<and> reg d b (of_nat (i + 1)) = reg (ia_dev s) b (of_nat (i + 1)) \<and> i + 0x12 = entry_index io (gsi + 9)"
proof -
  note io = found_ioapic [OF assms(2,3)]
  obtain d1 where d1: "read_redirection_entry rd wr io (ia_dev s) i = Some (entry_of (reg (ia_dev s) b) i, d1)"
    and wr: "\<forall>e. \<exists>d2. write_redirection_entry wr io d1 i e = Some d2
        \<and> reg d2 = (reg (ia_dev s))(b := (reg (ia_dev s) b)(of_nat i := get_low e, of_nat (i + 0x12) := get_high e))"
    using entry_rmw [OF assms(1-3), of "ia_dev s"] unfolding assms(4,5) by blast
  let ?e = "entry_of (reg (ia_dev s) b) i"
  obtain e1 e2 e3 e4 e5 where e1: "bf_set RedirectionEntry_layout ''pin_polarity'' (ucast (drop_bit 1 (flags AND 2))) ?e = Some e1"
    and e2: "bf_set RedirectionEntry_layout ''trigger_mode'' (ucast (drop_bit 3 (flags AND 8))) e1 = Some e2"
    and e3: "bf_set RedirectionEntry_layout ''destination_mode'' (ucast PHYSICAL_MODE) e2 = Some e3"
    and e4: "bf_set RedirectionEntry_layout ''destination'' (ucast (ioapic_apic_id io)) e3 = Some e4"
    and e5: "(case mode of Some m \<Rightarrow> bf_set RedirectionEntry_layout ''delivery_mode'' (ucast (delivery_mode_value m)) e4 | None \<Rightarrow> Some e4) = Some e5"
    and bits: "\<And>n. bit e5 n \<longleftrightarrow> n < 64 \<and> (if 8 \<le> n \<and> n < 11 \<and> mode \<noteq> None then bit (delivery_mode_value (the mode)) (n - 8)
      else if n = 13 then bit flags 1 else if n = 15 then bit flags 3 else if n = 11 then False else if 56 \<le> n then bit (ioapic_apic_id io) (n - 56) else bit ?e n)"
    by (rule override_entry [of flags ?e "ioapic_apic_id io" mode]) (rule that)
  from spec [OF wr, of e5] obtain d2 where d2: "write_redirection_entry wr io d1 i e5 = Some d2"
    "reg d2 = (reg (ia_dev s))(b := (reg (ia_dev s) b)(of_nat i := get_low e5, of_nat (i + 0x12) := get_high e5))" by blast
  have ov: "override_irq rd wr s irq gsi flags mode = Some (s \<lparr> ia_dev := d2, ia_overrides := ia_overrides s @ [\<lparr> ov_irq = irq, ov_gsi = gsi \<rparr>] \<rparr>)"
    using d1 e1 e2 e3 e4 e5 d2(1) io(3)
    by (simp add: override_irq_def find_ioapic_spec [OF assms(2)] assms(3) assms(5) [symmetric])
  have lo: "\<forall>n < 32. bit (get_low e5) n \<longleftrightarrow> (if n = 13 then bit flags 1 else if n = 15 then bit flags 3 else if n = 11 then False
         else if 8 \<le> n \<and> n < 11 \<and> mode \<noteq> None then bit (delivery_mode_value (the mode)) (n - 8)
         else bit (reg (ia_dev s) b (of_nat i)) n)"
    by (auto simp: bit_get_low bits bit_entry_low)
  have hi: "\<forall>n < 32. bit (get_high e5) n \<longleftrightarrow> (if 24 \<le> n then bit (ioapic_apic_id io) (n - 24) else bit (reg (ia_dev s) b (of_nat (i + 0x12))) n)"
    by (auto simp: bit_get_high bits entry_of_def bit_simps dest: bit_imp_le_length)
  have "reg d2 b (of_nat (i + 1)) = reg (ia_dev s) b (of_nat (i + 1))" unfolding d2(2) by simp
  moreover have "i + 0x12 = entry_index io (gsi + 9)"
    using assms(3,5) by (auto simp: entry_index_def find_Some_iff serves_def)
  ultimately show ?thesis using ov d2(2) lo hi by blast
qed

theorem override_irq_misplaces_destination_witness:
  "\<exists>d. override_irq demo_rd demo_wr demo_ioapics 0 2 0 None
      = Some (demo_ioapics \<lparr> ia_dev := d, ia_overrides := [\<lparr> ov_irq = 0, ov_gsi = 2 \<rparr>] \<rparr>)
    \<and> snd d 0x1000 0x15 = 0 \<and> bit (snd d 0x1000 0x26) 24"
proof -
  have b: "0x1000 = mmio_base (io_sel demo_io)" "0x14 = entry_index demo_io 2"
    by (simp_all add: demo_io_def mmio_new_def entry_index_def)
  have ov: "ia_overrides demo_ioapics = []" "snd (ia_dev demo_ioapics) = (\<lambda>_ _. 0)" by (simp_all add: demo_ioapics_def)
  have idm: "bit (ioapic_apic_id demo_io) 0" by (simp add: demo_io_def)
  from override_irq_misplaces_destination [OF demo_device demo_ioapics_ok demo_find b, of 0 0 None] obtain d lo hi where
    d: "override_irq demo_rd demo_wr demo_ioapics 0 2 0 None
      = Some (demo_ioapics \<lparr> ia_dev := d, ia_overrides := ia_overrides demo_ioapics @ [\<lparr> ov_irq = 0, ov_gsi = 2 \<rparr>] \<rparr>)"
    "snd d = (snd (ia_dev demo_ioapics))(0x1000 := (snd (ia_dev demo_ioapics) 0x1000)(of_nat 0x14 := lo, of_nat (0x14 + 0x12) := hi))"
    "\<forall>n < 32. bit hi n \<longleftrightarrow> (if 24 \<le> n then bit (ioapic_apic_id demo_io) (n - 24) else bit (snd (ia_dev demo_ioapics) 0x1000 (of_nat (0x14 + 0x12))) n)"
    by auto
  have "bit hi 24" using spec [OF d(3), of 24] idm by simp
  with d(1,2) show ?thesis by (intro exI [of _ d]) (simp add: ov)
qed

text \<open>The maps between IRQs and global system interrupts are inverse to each other for every IRQ that has
  an override, or whose number no override uses as its target, as long as overrides name
  each IRQ and each interrupt at most once.\<close>
theorem irq_gsi_round_trip:
  assumes "distinct (map ov_irq ovs)" and "distinct (map ov_gsi ovs)"
    and "irq \<in> set (map ov_irq ovs) \<or> unat irq \<notin> set (map ov_gsi ovs)"
  shows "gsi_to_irq ovs (irq_to_gsi ovs irq) = irq"
proof (cases "find (\<lambda>v. ov_irq v = irq) ovs")
  case None
  then have "irq \<notin> set (map ov_irq ovs)" by (auto simp: find_None_iff)
  with assms(3) have "find (\<lambda>v. ov_gsi v = unat irq) ovs = None" unfolding find_None_iff by (metis in_set_conv_nth length_map nth_map)
  with None show ?thesis by (simp add: irq_to_gsi_def gsi_to_irq_def)
next
  case (Some v)
  then have v: "v \<in> set ovs" "ov_irq v = irq" by (auto simp: find_Some_iff)
  obtain u where u: "find (\<lambda>u. ov_gsi u = ov_gsi v) ovs = Some u"
    using v(1) by (cases "find (\<lambda>u. ov_gsi u = ov_gsi v) ovs") (auto simp: find_None_iff)
  then have "u \<in> set ovs" "ov_gsi u = ov_gsi v" by (auto simp: find_Some_iff)
  with v(1) assms(2) have "u = v" by (auto simp: distinct_map inj_on_def)
  with Some u v show ?thesis by (simp add: irq_to_gsi_def gsi_to_irq_def)
qed

theorem irq_gsi_round_trip_witness:
  "gsi_to_irq [\<lparr> ov_irq = 0, ov_gsi = 2 \<rparr>] (irq_to_gsi [\<lparr> ov_irq = 0, ov_gsi = 2 \<rparr>] 0) = 0"
  by (rule irq_gsi_round_trip) simp_all

end
