(* ===== verification/Interrupts.thy ===== *)
theory Interrupts
  imports Gdt Ioapic
begin

text \<open>
  \<open>kernel/src/arch/x86_64/interrupts.rs\<close>: the interrupt descriptor table, the installation of handlers and
  the registration of an IRQ, which joins the table and the I/O APIC.  The addresses of the handlers are
  symbols of the assembly stubs and arguments here.
\<close>

definition IDT_ENTRIES_NUM :: usize where
  "IDT_ENTRIES_NUM = 256"

definition GENERIC_ISR_VECTOR :: u8 where
  "GENERIC_ISR_VECTOR = 255"

definition GateDescriptor_layout :: bit_layout where
  "GateDescriptor_layout = [(''offset_0'', 16), (''segment_selector'', 16), (''ist'', 3), (''reserved_0'', 5),
     (''gate_type'', 4), (''zero'', 1), (''dpl'', 2), (''present'', 1), (''offset_1'', 16),
     (''offset_2'', 32), (''reserved_1'', 32)]"

type_synonym GateDescriptor = "128 word"
type_synonym Idt = "GateDescriptor list"

datatype GateType = InterruptGate | TrapGate
datatype Dpl = KernelDpl | UserDpl
datatype Present = NotPresent | IsPresent

fun gate_type_value :: "GateType \<Rightarrow> 128 word" where
  "gate_type_value InterruptGate = 0xE"
| "gate_type_value TrapGate = 0xF"

fun dpl_value :: "Dpl \<Rightarrow> 128 word" where
  "dpl_value KernelDpl = 0"
| "dpl_value UserDpl = 3"

fun present_value :: "Present \<Rightarrow> 128 word" where
  "present_value NotPresent = 0"
| "present_value IsPresent = 1"

text \<open>The casts \<open>offset as u16\<close>, \<open>(offset >> 16) as u16\<close> and \<open>(offset >> 32) as u32\<close>.\<close>

definition gate_install :: "GateDescriptor \<Rightarrow> u64 \<Rightarrow> SegmentSelector \<Rightarrow> u8 \<Rightarrow> GateType \<Rightarrow> Dpl \<Rightarrow> Present \<Rightarrow> GateDescriptor option" where
  "gate_install g offset segment_selector ist gate_type dpl present = do {
     g \<leftarrow> bf_set GateDescriptor_layout ''offset_0'' (ucast (ucast offset :: u16)) g;
     g \<leftarrow> bf_set GateDescriptor_layout ''segment_selector'' (ucast segment_selector) g;
     g \<leftarrow> bf_set GateDescriptor_layout ''ist'' (ucast ist) g;
     g \<leftarrow> bf_set GateDescriptor_layout ''gate_type'' (gate_type_value gate_type) g;
     g \<leftarrow> bf_set GateDescriptor_layout ''dpl'' (dpl_value dpl) g;
     g \<leftarrow> bf_set GateDescriptor_layout ''present'' (present_value present) g;
     g \<leftarrow> bf_set GateDescriptor_layout ''offset_1'' (ucast (ucast (drop_bit 16 offset) :: u16)) g;
     bf_set GateDescriptor_layout ''offset_2'' (ucast (ucast (drop_bit 32 offset) :: u32)) g }"

definition idt_new :: Idt where
  "idt_new = replicate IDT_ENTRIES_NUM 0"

fun install_exceptions :: "(nat \<Rightarrow> u64) \<Rightarrow> SegmentSelector \<Rightarrow> nat list \<Rightarrow> Idt \<Rightarrow> Idt option" where
  "install_exceptions stub cs [] idt = Some idt"
| "install_exceptions stub cs (i # is) idt = do {
     g \<leftarrow> idx idt i;
     g \<leftarrow> gate_install g (stub i) cs 0 TrapGate KernelDpl IsPresent;
     install_exceptions stub cs is (idt[i := g]) }"

definition install_exception_isrs :: "(nat \<Rightarrow> u64) \<Rightarrow> u64 \<Rightarrow> Cpu \<Rightarrow> Idt \<Rightarrow> Idt option" where
  "install_exception_isrs stub generic_stub c idt = do {
     let cs = Cs_read c;
     idt \<leftarrow> install_exceptions stub cs [0..<32] idt;
     g \<leftarrow> idx idt (unat GENERIC_ISR_VECTOR);
     g \<leftarrow> gate_install g generic_stub cs 0 InterruptGate KernelDpl IsPresent;
     Some (idt[unat GENERIC_ISR_VECTOR := g]) }"

text \<open>\<open>size_of::<Idt>()\<close> is 256 times 16 bytes.\<close>

definition idt_load :: "u64 \<Rightarrow> Cpu \<Rightarrow> Cpu" where
  "idt_load idt_addr c = c \<lparr> r_idtr := \<lparr> dt_limit = of_nat (IDT_ENTRIES_NUM * 16 - 1), dt_base = idt_addr \<rparr> \<rparr>"

definition read_idtr :: "Cpu \<Rightarrow> DescriptorTablePtr" where
  "read_idtr c = r_idtr c"

definition idt_init :: "(nat \<Rightarrow> u64) \<Rightarrow> u64 \<Rightarrow> u64 \<Rightarrow> Cpu \<Rightarrow> Idt \<Rightarrow> (Cpu \<times> Idt) option" where
  "idt_init stub generic_stub idt_addr c idt = do {
     c \<leftarrow> cli c;
     idt \<leftarrow> install_exception_isrs stub generic_stub c idt;
     c \<leftarrow> sti (idt_load idt_addr c);
     Some (c, idt) }"

definition install_isr :: "Idt \<Rightarrow> u64 \<Rightarrow> SegmentSelector \<Rightarrow> u8 \<Rightarrow> GateType \<Rightarrow> Dpl \<Rightarrow> Present \<Rightarrow> (u8 \<times> Idt) option" where
  "install_isr idt isr_stub segment_selector ist_field gate_type dpl present = do {
     entry_number \<leftarrow> find_idx (\<lambda>g. bf_get GateDescriptor_layout ''present'' g = present_value NotPresent) idt;
     g \<leftarrow> gate_install (idt ! entry_number) isr_stub segment_selector ist_field gate_type dpl present;
     Some (of_nat entry_number, idt[entry_number := g]) }"

definition register_irq :: "'d mmio_rd \<Rightarrow> 'd mmio_wr \<Rightarrow> Cpu \<Rightarrow> 'd IoApics \<Rightarrow> Idt \<Rightarrow> u8 \<Rightarrow> u64 \<Rightarrow> ('d IoApics \<times> Idt) option" where
  "register_irq rd wr c s idt irq isr_stub = do {
     (r, s) \<leftarrow> set_disabled rd wr s irq True;
     _ \<leftarrow> unwrap_ok r;
     (vector, idt) \<leftarrow> install_isr idt isr_stub (Cs_read c) 0 InterruptGate KernelDpl IsPresent;
     (r, s) \<leftarrow> map_irq_to_vector rd wr s vector irq;
     _ \<leftarrow> unwrap_ok r;
     (r, s) \<leftarrow> set_disabled rd wr s irq False;
     _ \<leftarrow> unwrap_ok r;
     Some (s, idt) }"

subsection \<open>Gates\<close>

text \<open>What the processor reads from a gate.\<close>

definition gate_offset :: "GateDescriptor \<Rightarrow> u64" where
  "gate_offset g = ucast (bf_get GateDescriptor_layout ''offset_0'' g)
     OR push_bit 16 (ucast (bf_get GateDescriptor_layout ''offset_1'' g))
     OR push_bit 32 (ucast (bf_get GateDescriptor_layout ''offset_2'' g))"

definition gate_present :: "GateDescriptor \<Rightarrow> bool" where
  "gate_present g \<longleftrightarrow> bf_get GateDescriptor_layout ''present'' g \<noteq> 0"

definition gate_for :: "u64 \<Rightarrow> SegmentSelector \<Rightarrow> GateType \<Rightarrow> GateDescriptor \<Rightarrow> bool" where
  "gate_for offset cs ty g \<longleftrightarrow> gate_present g \<and> gate_offset g = offset
     \<and> bf_get GateDescriptor_layout ''segment_selector'' g = ucast cs
     \<and> bf_get GateDescriptor_layout ''gate_type'' g = gate_type_value ty
     \<and> bf_get GateDescriptor_layout ''dpl'' g = 0 \<and> bf_get GateDescriptor_layout ''ist'' g = 0"

lemma gate_fields:
  "field_at GateDescriptor_layout ''offset_0'' 0 = Some (0, 16)" "field_at GateDescriptor_layout ''segment_selector'' 0 = Some (16, 16)"
  "field_at GateDescriptor_layout ''ist'' 0 = Some (32, 3)" "field_at GateDescriptor_layout ''gate_type'' 0 = Some (40, 4)"
  "field_at GateDescriptor_layout ''dpl'' 0 = Some (45, 2)" "field_at GateDescriptor_layout ''present'' 0 = Some (47, 1)"
  "field_at GateDescriptor_layout ''offset_1'' 0 = Some (48, 16)" "field_at GateDescriptor_layout ''offset_2'' 0 = Some (64, 32)"
  "layout_bits GateDescriptor_layout = 128"
  by (simp_all add: GateDescriptor_layout_def layout_bits_def)

lemma gate_install_ok:
  obtains g' where "gate_install g offset cs 0 ty KernelDpl IsPresent = Some g'" and "gate_for offset cs ty g'"
proof -
  let ?L = GateDescriptor_layout
  have ty: "take_bit 4 (gate_type_value ty) = gate_type_value ty" by (cases ty) simp_all
  obtain g1 where g1: "bf_set ?L ''offset_0'' (ucast (ucast offset :: u16)) g = Some g1"
    by (auto simp: bf_set_def gate_fields ucast_fits ty)
  obtain g2 where g2: "bf_set ?L ''segment_selector'' (ucast cs) g1 = Some g2"
    by (auto simp: bf_set_def gate_fields ucast_fits ty)
  obtain g3 where g3: "bf_set ?L ''ist'' (ucast (0 :: u8)) g2 = Some g3"
    by (auto simp: bf_set_def gate_fields ucast_fits ty)
  obtain g4 where g4: "bf_set ?L ''gate_type'' (gate_type_value ty) g3 = Some g4"
    by (auto simp: bf_set_def gate_fields ucast_fits ty)
  obtain g5 where g5: "bf_set ?L ''dpl'' (dpl_value KernelDpl) g4 = Some g5"
    by (auto simp: bf_set_def gate_fields ucast_fits ty)
  obtain g6 where g6: "bf_set ?L ''present'' (present_value IsPresent) g5 = Some g6"
    by (auto simp: bf_set_def gate_fields ucast_fits ty)
  obtain g7 where g7: "bf_set ?L ''offset_1'' (ucast (ucast (drop_bit 16 offset) :: u16)) g6 = Some g7"
    by (auto simp: bf_set_def gate_fields ucast_fits ty)
  obtain g8 where g8: "bf_set ?L ''offset_2'' (ucast (ucast (drop_bit 32 offset) :: u32)) g7 = Some g8"
    by (auto simp: bf_set_def gate_fields ucast_fits ty)
  note other = bf_get_set_other [OF g8] bf_get_set_other [OF g7] bf_get_set_other [OF g6] bf_get_set_other [OF g5]
    bf_get_set_other [OF g4] bf_get_set_other [OF g3] bf_get_set_other [OF g2] bf_get_set_other [OF g1]
  note same = bf_get_set_same [OF g8] bf_get_set_same [OF g7] bf_get_set_same [OF g6] bf_get_set_same [OF g5]
    bf_get_set_same [OF g4] bf_get_set_same [OF g3] bf_get_set_same [OF g2] bf_get_set_same [OF g1]
  have "gate_offset g8 = offset"
  proof (rule bit_eqI)
    fix n assume "possible_bit TYPE(u64) n"
    then show "bit (gate_offset g8) n \<longleftrightarrow> bit offset n"
      by (cases "n < 32"; cases "n < 16") (auto simp: gate_offset_def other same gate_fields(9) bit_simps)
  qed
  then have "gate_for offset cs ty g8"
    by (simp add: gate_for_def gate_present_def other same gate_fields(9))
  moreover have "gate_install g offset cs 0 ty KernelDpl IsPresent = Some g8"
    unfolding gate_install_def using g1 g2 g3 g4 g5 g6 g7 g8 by simp
  ultimately show ?thesis using that by blast
qed

subsection \<open>The table\<close>

lemma install_exceptions_ok:
  assumes "distinct is" and "\<forall>i \<in> set is. i < length idt"
  shows "\<exists>idt'. install_exceptions stub cs is idt = Some idt' \<and> length idt' = length idt
    \<and> (\<forall>i \<in> set is. gate_for (stub i) cs TrapGate (idt' ! i)) \<and> (\<forall>i. i \<notin> set is \<longrightarrow> idt' ! i = idt ! i)"
  using assms
proof (induction "is" arbitrary: idt)
  case (Cons i "is")
  obtain g where g: "gate_install (idt ! i) (stub i) cs 0 TrapGate KernelDpl IsPresent = Some g" "gate_for (stub i) cs TrapGate g"
    by (rule gate_install_ok)
  from Cons.IH [of "idt[i := g]"] Cons.prems obtain idt' where
    r: "install_exceptions stub cs is (idt[i := g]) = Some idt'" "length idt' = length idt"
    "\<forall>j \<in> set is. gate_for (stub j) cs TrapGate (idt' ! j)" "\<forall>j. j \<notin> set is \<longrightarrow> idt' ! j = idt[i := g] ! j" by auto
  then show ?case using g Cons.prems by (intro exI [of _ idt']) (auto simp: idx_def)
qed simp

lemma gate_0 [simp]: "\<not> gate_present 0"
  by (simp add: gate_present_def bf_get_def gate_fields)

lemma rflags_if: "field_at Rflags_layout ''if_enable'' 0 = Some (9, 1)"
  by (simp add: Rflags_layout_def)

lemma idt_init_ok:
  obtains c' idt' where "idt_init stub generic_stub idt_addr c idt_new = Some (c', idt')" and "length idt' = 256"
    and "\<forall>i < 32. gate_for (stub i) (Cs_read c) TrapGate (idt' ! i)" and "gate_for generic_stub (Cs_read c) InterruptGate (idt' ! 255)"
    and "\<forall>i. 32 \<le> i \<and> i < 255 \<longrightarrow> \<not> gate_present (idt' ! i)"
    and "r_idtr c' = \<lparr> dt_limit = 4095, dt_base = idt_addr \<rparr>" and "bit (r_rflags c') 9" and "Cs_read c' = Cs_read c"
proof -
  obtain f1 where f1: "bf_set Rflags_layout ''if_enable'' 0 (r_rflags c) = Some f1" by (simp add: bf_set_def rflags_if)
  obtain f2 where f2: "bf_set Rflags_layout ''if_enable'' 1 f1 = Some f2" by (simp add: bf_set_def rflags_if)
  let ?cs = "Cs_read c"
  have "\<forall>i \<in> set [0..<32]. i < length idt_new" by (simp add: idt_new_def IDT_ENTRIES_NUM_def)
  from install_exceptions_ok [OF distinct_upt this, of stub ?cs] obtain idt1 where
    i1: "install_exceptions stub ?cs [0..<32] idt_new = Some idt1" "length idt1 = 256" "\<forall>i < 32. gate_for (stub i) ?cs TrapGate (idt1 ! i)"
    "\<forall>i. i \<ge> 32 \<longrightarrow> idt1 ! i = idt_new ! i" by (auto simp: idt_new_def IDT_ENTRIES_NUM_def)
  obtain g where g: "gate_install (idt1 ! 255) generic_stub ?cs 0 InterruptGate KernelDpl IsPresent = Some g"
    "gate_for generic_stub ?cs InterruptGate g" by (rule gate_install_ok)
  define c' where "c' = c \<lparr> r_rflags := f2, r_idtr := \<lparr> dt_limit = 4095, dt_base = idt_addr \<rparr> \<rparr>"
  have cs1: "Cs_read (c \<lparr> r_rflags := f1 \<rparr>) = ?cs" by (simp add: Cs_read_def)
  have "install_exception_isrs stub generic_stub (c \<lparr> r_rflags := f1 \<rparr>) idt_new = Some (idt1[255 := g])"
    using i1(2) g(1) by (simp add: install_exception_isrs_def cs1 i1(1) GENERIC_ISR_VECTOR_def idx_def)
  then have init: "idt_init stub generic_stub idt_addr c idt_new = Some (c', idt1[255 := g])"
    using f1 f2 by (simp add: idt_init_def cli_def sti_def idt_load_def IDT_ENTRIES_NUM_def c'_def)
  show ?thesis
  proof (rule that [OF init])
    show "\<forall>i. 32 \<le> i \<and> i < 255 \<longrightarrow> \<not> gate_present (idt1[255 := g] ! i)"
      using i1(4) by (auto simp: idt_new_def IDT_ENTRIES_NUM_def)
    show "bit (r_rflags c') 9" using bit_bf_set [OF f2 rflags_if, of 9] by (simp add: c'_def)
  qed (use i1 g in \<open>auto simp: c'_def Cs_read_def\<close>)
qed

lemma install_isr_ok:
  assumes "i < length idt" and "\<not> gate_present (idt ! i)" and "\<forall>j < i. gate_present (idt ! j)"
  obtains g where "install_isr idt stub cs 0 ty KernelDpl IsPresent = Some (of_nat i, idt[i := g])" and "gate_for stub cs ty g"
proof -
  have "find_idx (\<lambda>g. bf_get GateDescriptor_layout ''present'' g = present_value NotPresent) idt = Some i"
    using assms by (simp add: find_idx_Some gate_present_def)
  moreover obtain g where "gate_install (idt ! i) stub cs 0 ty KernelDpl IsPresent = Some g" "gate_for stub cs ty g"
    by (rule gate_install_ok)
  ultimately show ?thesis by (intro that) (simp_all add: install_isr_def)
qed

text \<open>A sequence of installations.\<close>

fun install_isr_all :: "Idt \<Rightarrow> SegmentSelector \<Rightarrow> u64 list \<Rightarrow> (u8 list \<times> Idt) option" where
  "install_isr_all idt cs [] = Some ([], idt)"
| "install_isr_all idt cs (h # hs) = do {
     (v, idt) \<leftarrow> install_isr idt h cs 0 InterruptGate KernelDpl IsPresent;
     (vs, idt) \<leftarrow> install_isr_all idt cs hs;
     Some (v # vs, idt) }"

lemma install_isr_full:
  assumes "\<forall>g \<in> set idt. gate_present g"
  shows "install_isr idt stub cs ist ty dpl pr = None"
proof -
  have "find_idx (\<lambda>g. bf_get GateDescriptor_layout ''present'' g = present_value NotPresent) idt = None"
    using assms by (simp add: find_idx_None gate_present_def)
  then show ?thesis by (simp add: install_isr_def)
qed

lemma install_isr_all_ok:
  assumes "length idt = 256" and "\<forall>i < k. gate_present (idt ! i)" and "\<forall>i. k \<le> i \<and> i < 255 \<longrightarrow> \<not> gate_present (idt ! i)"
    and "gate_present (idt ! 255)" and "k \<le> 255"
  shows "if k + length hs \<le> 255
    then \<exists>idt'. install_isr_all idt cs hs = Some (map of_nat [k..<k + length hs], idt') \<and> length idt' = 256
      \<and> (\<forall>i < length hs. gate_for (hs ! i) cs InterruptGate (idt' ! (k + i))) \<and> (\<forall>i. i < k \<or> k + length hs \<le> i \<longrightarrow> idt' ! i = idt ! i)
    else install_isr_all idt cs hs = None"
  using assms
proof (induction hs arbitrary: idt k)
  case (Cons h hs)
  show ?case
  proof (cases "k = 255")
    case True
    have "\<forall>g \<in> set idt. gate_present g"
    proof
      fix g assume "g \<in> set idt"
      then obtain i where "i < 256" "g = idt ! i" using Cons.prems(1) by (auto simp: in_set_conv_nth)
      then show "gate_present g" using Cons.prems(2,4) True by (cases "i = 255") auto
    qed
    then show ?thesis using True by (simp add: install_isr_full)
  next
    case False
    then have k: "k < length idt" "\<not> gate_present (idt ! k)" "Suc k \<le> 255" using Cons.prems by auto
    from install_isr_ok [OF k(1,2) Cons.prems(2), of h cs InterruptGate] obtain g where
      g: "install_isr idt h cs 0 InterruptGate KernelDpl IsPresent = Some (of_nat k, idt[k := g])" "gate_for h cs InterruptGate g" by blast
    have pre: "length (idt[k := g]) = 256" "\<forall>i < Suc k. gate_present (idt[k := g] ! i)"
      "\<forall>i. Suc k \<le> i \<and> i < 255 \<longrightarrow> \<not> gate_present (idt[k := g] ! i)" "gate_present (idt[k := g] ! 255)"
      using Cons.prems k g(2) by (auto simp: gate_for_def less_Suc_eq)
    show ?thesis
    proof (cases "Suc k + length hs \<le> 255")
      case True
      with Cons.IH [OF pre k(3)] obtain idt' where
        r: "install_isr_all (idt[k := g]) cs hs = Some (map of_nat [Suc k..<Suc k + length hs], idt')" "length idt' = 256"
        "\<forall>i < length hs. gate_for (hs ! i) cs InterruptGate (idt' ! (Suc k + i))"
        "\<forall>i. i < Suc k \<or> Suc k + length hs \<le> i \<longrightarrow> idt' ! i = idt[k := g] ! i" by auto
      have "gate_for ((h # hs) ! i) cs InterruptGate (idt' ! (k + i))" if "i < length (h # hs)" for i
        using that r(3,4) g(2) k(1) by (cases i) auto
      moreover have "[k..<k + length (h # hs)] = k # [Suc k..<Suc k + length hs]" by (simp add: upt_conv_Cons del: upt_Suc)
      moreover have "\<forall>i. i < k \<or> k + length (h # hs) \<le> i \<longrightarrow> idt' ! i = idt ! i" using r(4) by auto
      moreover have "install_isr_all idt cs (h # hs) = Some (map of_nat (k # [Suc k..<Suc k + length hs]), idt')" using g(1) r(1) by simp
      ultimately show ?thesis using True r(2) by (intro iffD2 [OF if_P] exI [of _ idt']) simp_all
    next
      case False
      with Cons.IH [OF pre k(3)] show ?thesis using g(1) by simp
    qed
  qed
qed auto

lemma install_isr_all_fits:
  assumes "length idt = 256" and "\<forall>i < k. gate_present (idt ! i)" and "\<forall>i. k \<le> i \<and> i < 255 \<longrightarrow> \<not> gate_present (idt ! i)"
    and "gate_present (idt ! 255)" and "k \<le> 255" and "k + length hs \<le> 255"
  obtains idt' where "install_isr_all idt cs hs = Some (map of_nat [k..<k + length hs], idt')"
    and "\<And>i. i < length hs \<Longrightarrow> gate_for (hs ! i) cs InterruptGate (idt' ! (k + i))"
    and "\<And>i. i < k \<or> k + length hs \<le> i \<Longrightarrow> idt' ! i = idt ! i"
  using install_isr_all_ok [OF assms(1-5), of hs cs] assms(6) that by (simp only: if_True) blast

text \<open>After initialisation, handlers are installed at the vectors 32, 33, \<open>\<dots>\<close> in the order of the calls,
  up to 254; every gate leads to its handler with the kernel's code segment, and the gates of the 32
  exceptions and of the generic vector 255 stay as initialised.  The call after the last free vector
  panics.\<close>
theorem idt_vectors_in_order:
  "\<exists>c' idt. idt_init stub generic_stub idt_addr c idt_new = Some (c', idt)
    \<and> (if length hs \<le> 223
       then \<exists>idt'. install_isr_all idt (Cs_read c') hs = Some (map of_nat [32..<32 + length hs], idt')
         \<and> (\<forall>i < length hs. gate_for (hs ! i) (Cs_read c) InterruptGate (idt' ! (32 + i)))
         \<and> (\<forall>i < 32. gate_for (stub i) (Cs_read c) TrapGate (idt' ! i)) \<and> gate_for generic_stub (Cs_read c) InterruptGate (idt' ! 255)
       else install_isr_all idt (Cs_read c') hs = None)"
proof -
  obtain c' idt where
    i: "idt_init stub generic_stub idt_addr c idt_new = Some (c', idt)" "length idt = 256"
    "\<forall>i < 32. gate_for (stub i) (Cs_read c) TrapGate (idt ! i)" "gate_for generic_stub (Cs_read c) InterruptGate (idt ! 255)"
    "\<forall>i. 32 \<le> i \<and> i < 255 \<longrightarrow> \<not> gate_present (idt ! i)" "r_idtr c' = \<lparr> dt_limit = 4095, dt_base = idt_addr \<rparr>"
    "bit (r_rflags c') 9" "Cs_read c' = Cs_read c" by (rule idt_init_ok)
  have "\<forall>i < 32. gate_present (idt ! i)" "gate_present (idt ! 255)" "32 \<le> (255::nat)" using i(3,4) by (auto simp: gate_for_def)
  note pre = this
  have "if length hs \<le> 223
       then \<exists>idt'. install_isr_all idt (Cs_read c') hs = Some (map of_nat [32..<32 + length hs], idt')
         \<and> (\<forall>i < length hs. gate_for (hs ! i) (Cs_read c) InterruptGate (idt' ! (32 + i)))
         \<and> (\<forall>i < 32. gate_for (stub i) (Cs_read c) TrapGate (idt' ! i)) \<and> gate_for generic_stub (Cs_read c) InterruptGate (idt' ! 255)
       else install_isr_all idt (Cs_read c') hs = None"
  proof (cases "length hs \<le> 223")
    case True
    then have le: "32 + length hs \<le> 255" by simp
    obtain idt' where r: "install_isr_all idt (Cs_read c') hs = Some (map of_nat [32..<32 + length hs], idt')"
      "\<And>i. i < length hs \<Longrightarrow> gate_for (hs ! i) (Cs_read c') InterruptGate (idt' ! (32 + i))" "\<And>i. i < 32 \<or> 32 + length hs \<le> i \<Longrightarrow> idt' ! i = idt ! i"
      by (rule install_isr_all_fits [OF i(2) pre(1) i(5) pre(2,3) le, of "Cs_read c'"]) (rule that)
    have "idt' ! 255 = idt ! 255" "\<forall>i < 32. idt' ! i = idt ! i" using r(3) le by simp_all
    then show ?thesis unfolding if_P [OF True] using r(1,2) i(3,4,8) by (intro exI [of _ idt']) simp
  next
    case False
    then have "\<not> 32 + length hs \<le> 255" by simp
    with install_isr_all_ok [OF i(2) pre(1) i(5) pre(2,3), of hs "Cs_read c'"] show ?thesis unfolding if_not_P [OF False] by (simp only: if_False)
  qed
  with i(1) show ?thesis by blast
qed

theorem idt_vectors_in_order_witness:
  "\<exists>c' idt idt'. idt_init (\<lambda>i. 0x100 * of_nat i) 0x9000 0x8000 demo_cpu idt_new = Some (c', idt)
     \<and> install_isr_all idt (Cs_read c') [0xA000, 0xB000] = Some ([32, 33], idt')
     \<and> gate_for 0xB000 0x28 InterruptGate (idt' ! 33)"
proof -
  have "[32..<34] = [32, 33 :: nat]" by (simp add: upt_conv_Cons)
  moreover from idt_vectors_in_order [of "\<lambda>i. 0x100 * of_nat i" "0x9000" "0x8000" demo_cpu "[0xA000, 0xB000]"]
  obtain c' idt idt' where "idt_init (\<lambda>i. 0x100 * of_nat i) 0x9000 0x8000 demo_cpu idt_new = Some (c', idt)"
    and "install_isr_all idt (Cs_read c') [0xA000, 0xB000] = Some (map of_nat [32..<34], idt')"
    and "\<forall>i < 2. gate_for ([0xA000, 0xB000] ! i) (Cs_read demo_cpu) InterruptGate (idt' ! (32 + i))"
    by (auto simp del: upt_Suc install_isr_all.simps)
  moreover from this(3) have "gate_for 0xB000 0x28 InterruptGate (idt' ! 33)" by (auto simp: Cs_read_def demo_cpu_def dest: spec [of _ 1])
  ultimately show ?thesis by (intro exI [of _ c'] exI [of _ idt] exI [of _ idt']) simp
qed

text \<open>The three changes of the redirection entry, one after the other: masked, led to the vector, unmasked.\<close>

lemma register_irq_steps:
  assumes "ioapic_device rd wr sel reg B" and "ioapics_ok B (ia_ioapics s)"
    and "gsi = irq_to_gsi (ia_overrides s) irq" and "find (\<lambda>io. serves io gsi) (ia_ioapics s) = Some io" and "b = mmio_base (io_sel io)"
    and "i < length idt" and "\<not> gate_present (idt ! i)" and "\<forall>j < i. gate_present (idt ! j)"
  defines "k \<equiv> of_nat (entry_index io gsi) :: u32"
  obtains d1 w1 d2 w2 d w g where "register_irq rd wr c s idt irq isr_stub = Some (s \<lparr> ia_dev := d \<rparr>, idt[i := g])"
    and "gate_for isr_stub (Cs_read c) InterruptGate g"
    and "set_disabled rd wr s irq True = Some (Ok (), s \<lparr> ia_dev := d1 \<rparr>)" and "reg d1 = (reg (ia_dev s))(b := (reg (ia_dev s) b)(k := w1))"
    and "\<forall>n < 32. bit w1 n \<longleftrightarrow> n = 16 \<or> bit (reg (ia_dev s) b k) n"
    and "map_irq_to_vector rd wr (s \<lparr> ia_dev := d1 \<rparr>) (of_nat i) irq = Some (Ok (), s \<lparr> ia_dev := d2 \<rparr>)" and "reg d2 = (reg d1)(b := (reg d1 b)(k := w2))"
    and "\<forall>n < 32. bit w2 n \<longleftrightarrow> (if n < 8 then bit i n else n = 16 \<or> bit (reg (ia_dev s) b k) n)"
    and "set_disabled rd wr (s \<lparr> ia_dev := d2 \<rparr>) irq False = Some (Ok (), s \<lparr> ia_dev := d \<rparr>)" and "reg d = (reg d2)(b := (reg d2 b)(k := w))"
    and "\<forall>n < 32. bit w n \<longleftrightarrow> (if n < 8 then bit i n else n \<noteq> 16 \<and> bit (reg (ia_dev s) b k) n)"
proof -
  from set_disabled_spec [OF assms(1-4)] obtain d1 w1 where
    d1: "set_disabled rd wr s irq True = Some (Ok (), s \<lparr> ia_dev := d1 \<rparr>)" "reg d1 = (reg (ia_dev s))(b := (reg (ia_dev s) b)(k := w1))"
    "\<forall>n < 32. bit w1 n \<longleftrightarrow> (if n = 16 then True else bit (reg (ia_dev s) b k) n)" unfolding assms(5) k_def by metis
  let ?s1 = "s \<lparr> ia_dev := d1 \<rparr>"
  from install_isr_ok [OF assms(6-8), of isr_stub "Cs_read c" InterruptGate] obtain g where
    g: "install_isr idt isr_stub (Cs_read c) 0 InterruptGate KernelDpl IsPresent = Some (of_nat i, idt[i := g])"
    "gate_for isr_stub (Cs_read c) InterruptGate g" by blast
  have s1: "ioapics_ok B (ia_ioapics ?s1)" "gsi = irq_to_gsi (ia_overrides ?s1) irq" "find (\<lambda>io. serves io gsi) (ia_ioapics ?s1) = Some io"
    using assms(2-4) by simp_all
  from map_irq_spec [OF assms(1) s1, of "of_nat i"] obtain d2 w2 where
    d2: "map_irq_to_vector rd wr ?s1 (of_nat i) irq = Some (Ok (), ?s1 \<lparr> ia_dev := d2 \<rparr>)" "reg d2 = (reg (ia_dev ?s1))(b := (reg (ia_dev ?s1) b)(k := w2))"
    "\<forall>n < 32. bit w2 n \<longleftrightarrow> (if n < 8 then bit (of_nat i :: u8) n else n = 16 \<or> bit (reg (ia_dev ?s1) b k) n)" unfolding assms(5) k_def by metis
  let ?s2 = "?s1 \<lparr> ia_dev := d2 \<rparr>"
  have s2: "ioapics_ok B (ia_ioapics ?s2)" "gsi = irq_to_gsi (ia_overrides ?s2) irq" "find (\<lambda>io. serves io gsi) (ia_ioapics ?s2) = Some io"
    using assms(2-4) by simp_all
  from set_disabled_spec [OF assms(1) s2, of False] obtain d3 w3 where
    d3: "set_disabled rd wr ?s2 irq False = Some (Ok (), ?s2 \<lparr> ia_dev := d3 \<rparr>)" "reg d3 = (reg (ia_dev ?s2))(b := (reg (ia_dev ?s2) b)(k := w3))"
    "\<forall>n < 32. bit w3 n \<longleftrightarrow> (if n = 16 then False else bit (reg (ia_dev ?s2) b k) n)" unfolding assms(5) k_def by metis
  have w2: "\<forall>n < 32. bit w2 n \<longleftrightarrow> (if n < 8 then bit i n else n = 16 \<or> bit (reg (ia_dev s) b k) n)"
    using d2(3) d1(2,3) by (auto simp: bit_simps)
  have w3: "\<forall>n < 32. bit w3 n \<longleftrightarrow> (if n < 8 then bit i n else n \<noteq> 16 \<and> bit (reg (ia_dev s) b k) n)"
    using d3(3) d2(2) w2 by auto
  show ?thesis
    by (rule that [of d3 g d1 w1 d2 w2 w3]) (use d1 g d2 d3 w2 w3 in \<open>simp_all add: register_irq_def\<close>)
qed

lemma register_irq_spec:
  assumes "ioapic_device rd wr sel reg B" and "ioapics_ok B (ia_ioapics s)"
    and "gsi = irq_to_gsi (ia_overrides s) irq" and "find (\<lambda>io. serves io gsi) (ia_ioapics s) = Some io" and "b = mmio_base (io_sel io)"
    and "i < length idt" and "\<not> gate_present (idt ! i)" and "\<forall>j < i. gate_present (idt ! j)"
  shows "\<exists>d g w. register_irq rd wr c s idt irq isr_stub = Some (s \<lparr> ia_dev := d \<rparr>, idt[i := g])
    \<and> gate_for isr_stub (Cs_read c) InterruptGate g
    \<and> reg d = (reg (ia_dev s))(b := (reg (ia_dev s) b)(of_nat (entry_index io gsi) := w))
    \<and> (\<forall>n < 32. bit w n \<longleftrightarrow> (if n < 8 then bit i n else n \<noteq> 16 \<and> bit (reg (ia_dev s) b (of_nat (entry_index io gsi))) n))"
  by (rule register_irq_steps [OF assms, of c isr_stub]) (intro exI conjI, assumption+, simp, assumption)

text \<open>C23: Registering an IRQ never panics while a vector is free and some I/O APIC serves the interrupt.  The
  first free gate leads to the handler, the redirection entry of the interrupt carries exactly that
  vector and is unmasked, and no other gate and no other register of any I/O APIC changes.  The window of the I/O APIC is written in this order: the
  entry as it was, but masked; the entry masked and with the new vector; the entry with the new vector and unmasked - so that the
  vector changes only while the interrupt is masked.  Each write of the low half is followed by one of the register the code takes for the high half, with the value it has.
  The device is any with plain registers, \<open>hist\<close> any observation of it that records the writes to the window.\<close>
theorem register_irq_correct:
  assumes "ioapic_device rd wr sel reg B" and "ioapics_ok B (ia_ioapics s)"
    and "gsi = irq_to_gsi (ia_overrides s) irq" and "find (\<lambda>io. serves io gsi) (ia_ioapics s) = Some io" and "b = mmio_base (io_sel io)"
    and "i < length idt" and "\<not> gate_present (idt ! i)" and "\<forall>j < i. gate_present (idt ! j)"
    and "window_log wr sel hist b"
  shows "\<exists>d g w1 w2 w. register_irq rd wr c s idt irq isr_stub = Some (s \<lparr> ia_dev := d \<rparr>, idt[i := g])
    \<and> gate_for isr_stub (Cs_read c) InterruptGate g
    \<and> reg d = (reg (ia_dev s))(b := (reg (ia_dev s) b)(of_nat (entry_index io gsi) := w))
    \<and> hist d = hist (ia_dev s) @ concat (map (\<lambda>v. [(of_nat (entry_index io gsi), v),
          (of_nat (entry_index io gsi + 0x12), reg (ia_dev s) b (of_nat (entry_index io gsi + 0x12)))]) [w1, w2, w])
    \<and> (\<forall>n < 32. bit w1 n \<longleftrightarrow> n = 16 \<or> bit (reg (ia_dev s) b (of_nat (entry_index io gsi))) n)
    \<and> (\<forall>n < 32. bit w2 n \<longleftrightarrow> (if n < 8 then bit i n else n = 16 \<or> bit (reg (ia_dev s) b (of_nat (entry_index io gsi))) n))
    \<and> (\<forall>n < 32. bit w n \<longleftrightarrow> (if n < 8 then bit i n else n \<noteq> 16 \<and> bit (reg (ia_dev s) b (of_nat (entry_index io gsi))) n))"
proof -
  let ?k = "of_nat (entry_index io gsi) :: u32" and ?h = "of_nat (entry_index io gsi + 0x12) :: u32"
  obtain d1 w1 d2 w2 d w g where r: "register_irq rd wr c s idt irq isr_stub = Some (s \<lparr> ia_dev := d \<rparr>, idt[i := g])"
    and g: "gate_for isr_stub (Cs_read c) InterruptGate g"
    and s1: "set_disabled rd wr s irq True = Some (Ok (), s \<lparr> ia_dev := d1 \<rparr>)" "reg d1 = (reg (ia_dev s))(b := (reg (ia_dev s) b)(?k := w1))"
    and w1: "\<forall>n < 32. bit w1 n \<longleftrightarrow> n = 16 \<or> bit (reg (ia_dev s) b ?k) n"
    and s2: "map_irq_to_vector rd wr (s \<lparr> ia_dev := d1 \<rparr>) (of_nat i) irq = Some (Ok (), s \<lparr> ia_dev := d2 \<rparr>)" "reg d2 = (reg d1)(b := (reg d1 b)(?k := w2))"
    and w2: "\<forall>n < 32. bit w2 n \<longleftrightarrow> (if n < 8 then bit i n else n = 16 \<or> bit (reg (ia_dev s) b ?k) n)"
    and s3: "set_disabled rd wr (s \<lparr> ia_dev := d2 \<rparr>) irq False = Some (Ok (), s \<lparr> ia_dev := d \<rparr>)" "reg d = (reg d2)(b := (reg d2 b)(?k := w))"
    and w: "\<forall>n < 32. bit w n \<longleftrightarrow> (if n < 8 then bit i n else n \<noteq> 16 \<and> bit (reg (ia_dev s) b ?k) n)"
    by (rule register_irq_steps [OF assms(1-8), of c isr_stub]) (rule that)
  note log = rmw_log [OF assms(1,9)]
  have h1: "hist d1 = hist (ia_dev s) @ [(?k, w1), (?h, reg (ia_dev s) b ?h)]"
    by (rule log [OF assms(2-5) s1(2) disjI1 [OF s1(1)]])
  let ?s1 = "s \<lparr> ia_dev := d1 \<rparr>" and ?s2 = "s \<lparr> ia_dev := d2 \<rparr>"
  have h2: "hist d2 = hist (ia_dev ?s1) @ [(?k, w2), (?h, reg (ia_dev ?s1) b ?h)]"
    by (rule log [where s = ?s1 and irq = irq and vector = "of_nat i"]) (use assms(2-5) s2 in simp_all)
  have h3: "hist d = hist (ia_dev ?s2) @ [(?k, w), (?h, reg (ia_dev ?s2) b ?h)]"
    by (rule log [where s = ?s2 and irq = irq and status = False]) (use assms(2-5) s3 in simp_all)
  have "hist d = hist (ia_dev s) @ concat (map (\<lambda>v. [(?k, v), (?h, reg (ia_dev s) b ?h)]) [w1, w2, w])"
    using h1 h2 h3 s1(2) s2(2) index_ne [of "entry_index io gsi"] by (simp del: of_nat_add)
  moreover have "reg d = (reg (ia_dev s))(b := (reg (ia_dev s) b)(?k := w))" using s1(2) s2(2) s3(2) by simp
  ultimately show ?thesis using r g w1 w2 w by blast
qed

text \<open>IRQ 4 of the example device, observed: its entry is masked, led to vector 0 and unmasked.\<close>

theorem register_irq_correct_witness:
  "\<exists>d idt h. register_irq (logged_rd demo_rd) (logged_wr demo_wr fst 0x1000) demo_cpu
        \<lparr> ia_ioapics = [demo_io], ia_overrides = [], ia_irq_allocator = id_tracker_uninit, ia_dev = ((\<lambda>_. 0, \<lambda>_ _. 0x40), []) \<rparr>
        (replicate 256 0) 4 0xFFFF800000001000
      = Some (\<lparr> ia_ioapics = [demo_io], ia_overrides = [], ia_irq_allocator = id_tracker_uninit, ia_dev = d \<rparr>, idt)
    \<and> gate_offset (idt ! 0) = 0xFFFF800000001000 \<and> snd d = [(0x18, 0x10040), (0x2A, 0x40), (0x18, 0x10000), (0x2A, 0x40), (0x18, 0), (0x2A, 0x40)]"
proof -
  let ?s = "\<lparr> ia_ioapics = [demo_io], ia_overrides = [], ia_irq_allocator = id_tracker_uninit, ia_dev = ((\<lambda>_. 0, \<lambda>_ _. 0x40), []) \<rparr>
    :: (demo_ioapic \<times> (u32 \<times> u32) list) IoApics"
  note dev = logged_device [OF demo_device, of "0x1000"]
  have ok: "ioapics_ok {0x1000} (ia_ioapics ?s)" using demo_ioapics_ok by (simp add: demo_ioapics_def)
  have f: "find (\<lambda>io. serves io 4) (ia_ioapics ?s) = Some demo_io" using demo_find [of 4] by (simp add: demo_ioapics_def)
  have b: "0x1000 = mmio_base (io_sel demo_io)" by (simp add: demo_io_def mmio_new_def)
  have gsi: "4 = irq_to_gsi (ia_overrides ?s) 4" by (simp add: irq_to_gsi_def)
  have idx: "of_nat (entry_index demo_io 4) = (0x18 :: u32)" "of_nat (entry_index demo_io 4 + 0x12) = (0x2A :: u32)"
    by (simp_all add: entry_index_def demo_io_def)
  obtain d g w1 w2 w where
    r: "register_irq (logged_rd demo_rd) (logged_wr demo_wr fst 0x1000) demo_cpu ?s (replicate 256 0) 4 0xFFFF800000001000
        = Some (?s \<lparr> ia_dev := d \<rparr>, (replicate 256 0)[0 := g])" "gate_for 0xFFFF800000001000 (Cs_read demo_cpu) InterruptGate g"
    and h: "snd d = concat (map (\<lambda>v. [(0x18, v), (0x2A, 0x40)]) [w1, w2, w])"
    and w: "\<forall>n < 32. bit w1 n \<longleftrightarrow> n = 16 \<or> bit (0x40 :: u32) n" "\<forall>n < 32. bit w2 n \<longleftrightarrow> (if n < 8 then bit (0 :: nat) n else n = 16 \<or> bit (0x40 :: u32) n)"
      "\<forall>n < 32. bit w n \<longleftrightarrow> (if n < 8 then bit (0 :: nat) n else n \<noteq> 16 \<and> bit (0x40 :: u32) n)"
    using register_irq_correct [OF dev(1) ok gsi f b _ _ _ dev(2), of 0 "replicate 256 0" demo_cpu "0xFFFF800000001000"]
    unfolding idx by (auto simp: gate_present_def bf_get_def GateDescriptor_layout_def simp del: bit_0_eq)
  have b6: "bit (0x40 :: u32) n \<longleftrightarrow> n = 6" if "n < 32" for n using that by (auto simp: less_Suc_eq numeral_eq_Suc)
  have b16: "bit (0x10000 :: u32) n \<longleftrightarrow> n = 16" "bit (0x10040 :: u32) n \<longleftrightarrow> n = 16 \<or> n = 6" if "n < 32" for n
    using that by (auto simp: less_Suc_eq numeral_eq_Suc)
  have ext: "x = y" if "\<forall>n < 32. bit x n \<longleftrightarrow> bit y n" for x y :: u32 by (rule bit_word_eqI) (use that in simp)
  have "w1 = 0x10040" "w2 = 0x10000" "w = 0" by (rule ext; use w b6 b16 in auto)+
  with r h show ?thesis by (intro exI [of _ d] exI [of _ "(replicate 256 0)[0 := g]"]) (simp add: gate_for_def)
qed

end
