(* ===== verification/Paging_Init.thy ===== *)
theory Paging_Init
  imports Cpu Paging_Manager
begin

text \<open>
  The end of paging initialisation in \<open>kernel/src/arch/x86_64/paging/mod.rs\<close>: feature checks, the page
  attribute table, the no-execute and global-page bits, and the switch of CR3; and \<open>get_pml\<close>, through which
  every later operation finds the top-level table.
\<close>

definition get_pml :: "usize \<Rightarrow> Cpu \<Rightarrow> VirtAddr option" where
  "get_pml hhdm c = do {
     let phys_addr = unat (push_bit 12 (bf_get Cr3_layout ''top_pml'' (Cr3_read c)));
     p \<leftarrow> add_hhdm_offset hhdm phys_addr;
     _ \<leftarrow> ensure (p \<noteq> 0);
     Some p }"

definition check_pge_support :: "cpuid \<Rightarrow> unit option" where
  "check_pge_support cpuid = ensure (cpuid_edx (cpuid 1 0) AND push_bit 12 1 \<noteq> 0)"

definition check_nx_support :: "cpuid \<Rightarrow> unit option" where
  "check_nx_support cpuid = ensure (cpuid_edx (cpuid 0x80000001 0) AND push_bit 20 1 \<noteq> 0)"

definition enable_nx :: "cpuid \<Rightarrow> Cpu \<Rightarrow> Cpu option" where
  "enable_nx cpuid c = do {
     _ \<leftarrow> check_nx_support cpuid;
     let efer = u64_of_msr (rdmsr (amd_msr_address Efer) c);
     let efer = efer OR EFER_NX;
     Some (wrmsr (amd_msr_address Efer) (msr_of_u64 efer) c) }"

text \<open>\<open>setup_pat\<close> on the register: each of its six assignments reads and writes \<open>IA32_PAT\<close>.\<close>

definition cpu_setup_pat :: "cpuid \<Rightarrow> Cpu \<Rightarrow> Cpu option" where
  "cpu_setup_pat cpuid c = do {
     pat \<leftarrow> setup_pat (cpuid_edx (cpuid 1 0)) (u64_of_msr (rdmsr (intel_msr_address Ia32Pat) c));
     Some (wrmsr (intel_msr_address Ia32Pat) (msr_of_u64 pat) c) }"

definition finalize_init :: "cpuid \<Rightarrow> PhysAddr \<Rightarrow> Cpu \<Rightarrow> Cpu option" where
  "finalize_init cpuid pml_phys_addr c = do {
     _ \<leftarrow> check_pge_support cpuid;
     c \<leftarrow> cpu_setup_pat cpuid c;
     c \<leftarrow> enable_nx cpuid c;
     cr4 \<leftarrow> bf_set Cr4_layout ''pge'' 1 (Cr4_read c);
     c \<leftarrow> Cr4_write cr4 c;
     cr3 \<leftarrow> bf_set Cr3_layout ''top_pml'' (drop_bit 12 (of_nat pml_phys_addr)) (Cr3_read c);
     Cr3_write cr3 c }"

definition init_paging :: "bool \<Rightarrow> cpuid \<Rightarrow> usize \<Rightarrow> Cpu \<Rightarrow> Paging \<Rightarrow> MemEntry list \<Rightarrow> VirtAddr \<Rightarrow> PhysAddr \<Rightarrow> MemEntry
    \<Rightarrow> (Cpu \<times> Paging) option" where
  "init_paging fb cpuid hhdm c t mem_map kernel_virt kernel_phys used_by_pmm = do {
     ((_, new_pml_addr), t) \<leftarrow> paging_init_from_limine fb hhdm t mem_map kernel_virt kernel_phys used_by_pmm;
     c \<leftarrow> finalize_init cpuid new_pml_addr c;
     Some (c, t) }"

subsection \<open>Lemmas\<close>

lemma cr_fields:
  "field_at Cr3_layout ''top_pml'' 0 = Some (12, 52)" "field_at Cr4_layout ''pge'' 0 = Some (7, 1)"
  by (simp_all add: Cr3_layout_def Cr4_layout_def)

text \<open>The features that are checked.  The check that is meant for global pages looks at bit 12 of the feature word,
  which reports memory type range registers; global pages are bit 13 (\<open>pge_check_reads_mtrr\<close>).\<close>

definition paging_supported :: "cpuid \<Rightarrow> bool" where
  "paging_supported cpuid \<longleftrightarrow> bit (cpuid_edx (cpuid 1 0)) 12 \<and> bit (cpuid_edx (cpuid 1 0)) 16 \<and> bit (cpuid_edx (cpuid 0x80000001 0)) 20"

lemma edx_bit: "(w AND push_bit k 1 \<noteq> 0) \<longleftrightarrow> bit w k" for w :: u32
proof -
  have "push_bit k 1 = (2 ^ k :: u32)" by (simp add: push_bit_eq_mult)
  then show ?thesis by (simp add: and_exp_eq_0_iff_not_bit)
qed

lemma checks:
  "check_pge_support cpuid = (if bit (cpuid_edx (cpuid 1 0)) 12 then Some () else None)"
  "check_nx_support cpuid = (if bit (cpuid_edx (cpuid 0x80000001 0)) 20 then Some () else None)"
  "(\<exists>p. setup_pat edx pat = Some p) \<longleftrightarrow> bit edx 16"
  using edx_bit [of "cpuid_edx (cpuid 1 0)" 12] edx_bit [of "cpuid_edx (cpuid 0x80000001 0)" 20] edx_bit [of edx 16]
  by (auto simp: check_pge_support_def check_nx_support_def setup_pat_def check_pat_support_def ensure_def)

text \<open>The register of the page attribute table, bit by bit: the lower three bits of the bytes 0 to 5 become the types
  write-back (6), write-through (4), uncached (7), uncacheable (0), write-combining (1) and write-protected (5).\<close>

definition pat_types :: "nat list" where
  "pat_types = [6, 4, 7, 0, 1, 5]"

lemma bit_pat_entry_set:
  assumes "r < 8" and "q < 8"
  shows "bit (pat_entry_set pat e ty) (8 * q + r) \<longleftrightarrow>
    (if q = pat_entry_value e \<and> r < 3 then bit (pat_type_value ty) r else bit pat (8 * q + r))"
proof -
  have v: "bit (pat_type_value ty) k \<Longrightarrow> k < 3" for k using bit_small pat_values(1) by blast
  have e: "pat_entry_value e * 8 \<le> 8 * q + r \<and> 8 * q + r - pat_entry_value e * 8 < 3 \<longleftrightarrow> q = pat_entry_value e \<and> r < 3"
    using assms(1) by (auto, arith+)
  show ?thesis
    using e v [of "8 * q + r - pat_entry_value e * 8"] assms
    by (auto simp: pat_entry_set_def Let_def SHIFTING_SIZE_def bit_simps bit_7)
qed

lemma setup_pat_bits:
  assumes "setup_pat edx pat = Some pat'" and "n < 64"
  shows "bit pat' n \<longleftrightarrow> (if n div 8 < 6 \<and> n mod 8 < 3 then bit (pat_types ! (n div 8)) (n mod 8) else bit pat n)"
proof -
  define q r where "q = n div 8" and "r = n mod 8"
  have n: "n = 8 * q + r" "r < 8" "q < 8" using assms(2) by (auto simp: q_def r_def)
  have "pat' = pat_entry_set (pat_entry_set (pat_entry_set (pat_entry_set (pat_entry_set (pat_entry_set
      pat Pat0 WriteBack) Pat1 WriteThrough) Pat2 Uncached) Pat3 Uncacheable) Pat4 WriteCombining) Pat5 WriteProtected"
    using assms(1) by (auto simp: setup_pat_def Let_def split: Option.bind_splits)
  then have step: "bit pat' (8 * q + r) \<longleftrightarrow> (if q = 5 \<and> r < 3 then bit (5 :: nat) r else if q = 4 \<and> r < 3 then bit (1 :: nat) r
      else if q = 3 \<and> r < 3 then bit (0 :: nat) r else if q = 2 \<and> r < 3 then bit (7 :: nat) r
      else if q = 1 \<and> r < 3 then bit (4 :: nat) r else if q = 0 \<and> r < 3 then bit (6 :: nat) r else bit pat (8 * q + r))"
    by (simp only: bit_pat_entry_set [OF n(2,3)] pat_entry_value.simps pat_type_value.simps)
  have "q \<in> {0, 1, 2, 3, 4, 5} \<or> 6 \<le> q" by auto
  then have "bit pat' (8 * q + r) \<longleftrightarrow> (if q < 6 \<and> r < 3 then bit (pat_types ! q) r else bit pat (8 * q + r))"
    unfolding step by (elim disjE insertE) (simp_all add: pat_types_def)
  then show ?thesis by (simp add: q_def r_def)
qed

lemma aligned_frame:
  assumes "4096 dvd pml"
  shows "push_bit 12 (drop_bit 12 (of_nat pml :: u64)) = of_nat pml" and "take_bit 52 (drop_bit 12 (of_nat pml :: u64)) = drop_bit 12 (of_nat pml)"
proof -
  have "2 ^ 12 dvd pml" using assms by simp
  from aligned_low_bits [OF this] have "bit pml n \<Longrightarrow> 12 \<le> n" for n .
  then show "push_bit 12 (drop_bit 12 (of_nat pml :: u64)) = of_nat pml"
    by (intro bit_eqI) (auto simp: bit_simps)
  show "take_bit 52 (drop_bit 12 (of_nat pml :: u64)) = drop_bit 12 (of_nat pml)"
    by (rule bit_eqI) (auto simp: bit_simps dest: bit_imp_le_length)
qed

lemma finalize_init_spec:
  assumes "4096 dvd pml" and "pml + hhdm < USIZE_LIM" and "0 < hhdm"
  shows "if paging_supported cpuid
    then \<exists>c' pat. finalize_init cpuid pml c = Some c' \<and> get_pml hhdm c' = Some (pml + hhdm)
      \<and> (\<forall>n < 12. bit (r_cr3 c') n = bit (r_cr3 c) n) \<and> (\<forall>n < 64. bit (r_cr4 c') n = (n = 7 \<or> bit (r_cr4 c) n))
      \<and> setup_pat (cpuid_edx (cpuid 1 0)) (r_msr c 0x277) = Some pat
      \<and> r_msr c' = (r_msr c)(0x277 := pat, 0xC0000080 := r_msr c 0xC0000080 OR push_bit 11 1)
      \<and> r_cr0 c' = r_cr0 c \<and> r_rflags c' = r_rflags c
    else finalize_init cpuid pml c = None"
proof (cases "paging_supported cpuid")
  case True
  then obtain pat where pat: "setup_pat (cpuid_edx (cpuid 1 0)) (r_msr c 0x277) = Some pat"
    using checks(3) by (auto simp: paging_supported_def)
  obtain cr4 where cr4: "bf_set Cr4_layout ''pge'' 1 (r_cr4 c) = Some cr4" by (simp add: bf_set_def cr_fields)
  obtain cr3 where cr3: "bf_set Cr3_layout ''top_pml'' (drop_bit 12 (of_nat pml)) (r_cr3 c) = Some cr3"
    using aligned_frame(2) [OF assms(1)] by (simp add: bf_set_def cr_fields)
  define c' where "c' = c \<lparr> r_msr := (r_msr c)(0x277 := pat, 0xC0000080 := r_msr c 0xC0000080 OR push_bit 11 1), r_cr4 := cr4, r_cr3 := cr3 \<rparr>"
  have fin: "finalize_init cpuid pml c = Some c'"
    using True cr4 cr3 pat
    by (simp add: finalize_init_def checks(1,2) cpu_setup_pat_def enable_nx_def paging_supported_def rdmsr_def wrmsr_def EFER_NX_def
        Cr4_read_def Cr4_write_def Cr3_read_def Cr3_write_def c'_def)
  have "bf_get Cr3_layout ''top_pml'' cr3 = drop_bit 12 (of_nat pml)"
    by (rule bf_get_set_same [OF cr3]) (simp add: Cr3_layout_def layout_bits_def)
  then have "get_pml hhdm c' = Some (pml + hhdm)"
    using assms(2,3) by (simp add: get_pml_def Cr3_read_def c'_def aligned_frame(1) [OF assms(1)] unat_of_nat_u64 add_hhdm_offset_def uadd_ok)
  moreover have "\<forall>n < 12. bit cr3 n = bit (r_cr3 c) n" "\<forall>n < 64. bit cr4 n = (n = 7 \<or> bit (r_cr4 c) n)"
    by (auto simp: bit_bf_set [OF cr3 cr_fields(1)] bit_bf_set [OF cr4 cr_fields(2)])
  ultimately show ?thesis
    using True fin pat by (intro iffD2 [OF if_P [OF True]] exI [of _ c'] exI [of _ pat]) (simp add: c'_def)
next
  case False
  moreover have "setup_pat (cpuid_edx (cpuid 1 0)) p = None" if "\<not> bit (cpuid_edx (cpuid 1 0)) 16" for p
    using checks(3) [of "cpuid_edx (cpuid 1 0)" p] that by (cases "setup_pat (cpuid_edx (cpuid 1 0)) p") auto
  ultimately show ?thesis
    by (auto simp: paging_supported_def finalize_init_def checks(1,2) cpu_setup_pat_def enable_nx_def split: Option.bind_splits)
qed


text \<open>A processor that reports no global pages (bit 13) but memory type range registers (bit 12) passes the
  check for global pages.\<close>

lemma pge_check_reads_mtrr:
  "check_pge_support (\<lambda>_ _. \<lparr> cpuid_eax = 0, cpuid_ebx = 0, cpuid_ecx = 0, cpuid_edx = push_bit 12 1 \<rparr>) = Some ()"
  "check_pge_support (\<lambda>_ _. \<lparr> cpuid_eax = 0, cpuid_ebx = 0, cpuid_ecx = 0, cpuid_edx = push_bit 13 1 \<rparr>) = None"
  by (simp_all add: check_pge_support_def)


end
