(* ===== verification/Hpet.thy ===== *)
theory Hpet
  imports Interrupts
begin

text \<open>
  \<open>drivers/src/timer/hpet.rs\<close> and the timer interface of \<open>drivers/src/timer/mod.rs\<close>: the high precision event timer.
  \<open>hrd\<close> and \<open>hwr\<close> are the 64-bit memory-mapped accesses to it.  A \<open>Duration\<close> is its number of nanoseconds.
\<close>

type_synonym Duration = nat

definition PIT_IRQ :: u8 where "PIT_IRQ = 0"
definition RTC_IRQ :: u8 where "RTC_IRQ = 8"

datatype TimerError = InvalidTimePeriod | NoTimerAvailable | UnsupportedTimerMode | InvalidTimerFlags | TimerIdtError | IrqError

datatype InterruptRoutingMode = NormalRouting | LegacyRouting

datatype HpetTriggerMode = HpetEdgeTriggered | HpetLevelTriggered

datatype HpetTimerMode = HpetOneShot | HpetPeriodic

text \<open>\<open>DeliveryMode\<close>: an interrupt with its handler, or a message with its 64-bit route.\<close>

datatype HpetDeliveryMode = HpetInterrupt u64 HpetTriggerMode | HpetFsb u64

record AdditionalConfig =
  receive_interrupts :: bool
  delivery_mode :: HpetDeliveryMode

fun routing_mode_value :: "InterruptRoutingMode \<Rightarrow> u64" where
  "routing_mode_value NormalRouting = 0"
| "routing_mode_value LegacyRouting = 1"

fun hpet_trigger_value :: "HpetTriggerMode \<Rightarrow> u64" where
  "hpet_trigger_value HpetEdgeTriggered = 0"
| "hpet_trigger_value HpetLevelTriggered = 1"

fun hpet_timer_mode_value :: "HpetTimerMode \<Rightarrow> u64" where
  "hpet_timer_mode_value HpetOneShot = 0"
| "hpet_timer_mode_value HpetPeriodic = 1"

definition GeneralCapabilities_layout :: bit_layout where
  "GeneralCapabilities_layout = [(''rev_id'', 8), (''num_tim_cap'', 5), (''count_size_cap'', 1), (''reserved'', 1),
     (''leg_route_cap'', 1), (''vendor_id'', 16), (''counter_clock_period'', 32)]"

definition GeneralConfiguration_layout :: bit_layout where
  "GeneralConfiguration_layout = [(''enable'', 1), (''legacy_route'', 1), (''reserved1'', 62)]"

definition TimerConfiguration_layout :: bit_layout where
  "TimerConfiguration_layout = [(''reserved0'', 1), (''int_type'', 1), (''int_enable'', 1), (''timer_type'', 1),
     (''periodic_int_capable'', 1), (''size_capable'', 1), (''value_set'', 1), (''reserved1'', 1), (''timer_32bit_mode'', 1),
     (''int_route'', 5), (''fsb_int_enable'', 1), (''fsb_int_delivery'', 1), (''reserved2'', 16), (''int_route_cap'', 32)]"

definition FsbInterruptRoute_layout :: bit_layout where
  "FsbInterruptRoute_layout = [(''fsb_int_val'', 32), (''fsb_int_addr'', 32)]"

record HpetTimer =
  ht_area :: MmioArea
  ht_id :: Id
  ht_size_64_bits :: bool

record Hpet =
  hp_area :: MmioArea
  main_clock_period :: u64
  minimum_tick :: u16
  timer_ids :: IdTracker
  int_routing_mode :: InterruptRoutingMode
  hp_size_64_bits :: bool

definition NANO_TO_FEMTOSEC :: nat where "NANO_TO_FEMTOSEC = 1000000"

definition GENERAL_CAPABILITIES :: usize where "GENERAL_CAPABILITIES = 0"
definition GENERAL_CONFIGURATION :: usize where "GENERAL_CONFIGURATION = 0x10"
definition GENERAL_INTERRUPT_STATUS :: usize where "GENERAL_INTERRUPT_STATUS = 0x20"
definition MAIN_COUNTER_VALUE :: usize where "MAIN_COUNTER_VALUE = 0xF0"

definition MAX_TIMER_AMOUNT :: nat where "MAX_TIMER_AMOUNT = 32"

type_synonym 'h mmio_rd64 = "'h \<Rightarrow> usize \<Rightarrow> u64"
type_synonym 'h mmio_wr64 = "'h \<Rightarrow> usize \<Rightarrow> u64 \<Rightarrow> 'h"

text \<open>The state the driver works on: the device, the static \<open>HPET\<close>, and the interrupt side.\<close>

record ('h, 'd) TimerSystem =
  ts_dev :: 'h
  ts_hpet :: Hpet
  ts_ioapics :: "'d IoApics"
  ts_idt :: Idt

subsection \<open>The HPET\<close>

definition checked_u128 :: "nat \<Rightarrow> nat option" where
  "checked_u128 n = (if n < 2 ^ 128 then Some n else None)"

definition checked_add_u64 :: "u64 \<Rightarrow> u64 \<Rightarrow> u64 option" where
  "checked_add_u64 a b = (if unat a + unat b < 2 ^ 64 then Some (a + b) else None)"

definition time_to_cycles :: "Hpet \<Rightarrow> Duration \<Rightarrow> u64 option" where
  "time_to_cycles h time = do {
     time_femtosec \<leftarrow> checked_u128 (time * NANO_TO_FEMTOSEC);
     _ \<leftarrow> ensure (main_clock_period h \<noteq> 0);
     let remainder = time_femtosec mod unat (main_clock_period h);
     adjusted_time \<leftarrow> (if remainder \<noteq> 0 then checked_u128 (time_femtosec + (unat (main_clock_period h) - remainder))
                       else Some time_femtosec);
     Some (of_nat (adjusted_time div unat (main_clock_period h))) }"

definition set_interrupt_routing :: "'h mmio_rd64 \<Rightarrow> 'h mmio_wr64 \<Rightarrow> 'h \<Rightarrow> Hpet \<Rightarrow> InterruptRoutingMode \<Rightarrow> 'h option" where
  "set_interrupt_routing hrd hwr d h mode = do {
     let capabilities = mmio_read hrd d (hp_area h) GENERAL_CAPABILITIES;
     _ \<leftarrow> ensure (mode = LegacyRouting \<longrightarrow> bf_get GeneralCapabilities_layout ''leg_route_cap'' capabilities = 1);
     let config = mmio_read hrd d (hp_area h) GENERAL_CONFIGURATION;
     config \<leftarrow> bf_set GeneralConfiguration_layout ''legacy_route'' (routing_mode_value mode) config;
     Some (mmio_write hwr d (hp_area h) GENERAL_CONFIGURATION config) }"

definition hpet_new :: "'h mmio_rd64 \<Rightarrow> 'h \<Rightarrow> usize \<Rightarrow> u16 \<Rightarrow> InterruptRoutingMode \<Rightarrow> Hpet option" where
  "hpet_new hrd d base tick mode = do {
     let h = \<lparr> hp_area = mmio_new base, main_clock_period = 0, minimum_tick = tick, timer_ids = id_tracker_uninit,
               int_routing_mode = mode, hp_size_64_bits = False \<rparr>;
     let capabilities = mmio_read hrd d (hp_area h) GENERAL_CAPABILITIES;
     _ \<leftarrow> ensure (bf_get GeneralCapabilities_layout ''rev_id'' capabilities \<noteq> 0);
     _ \<leftarrow> ensure (bf_get GeneralCapabilities_layout ''counter_clock_period'' capabilities < 0x05F5E100);
     let h = (if bf_get GeneralCapabilities_layout ''count_size_cap'' capabilities = 1 then h \<lparr> hp_size_64_bits := True \<rparr> else h);
     let h = h \<lparr> main_clock_period := bf_get GeneralCapabilities_layout ''counter_clock_period'' capabilities \<rparr>;
     let max_timer_index = unat (bf_get GeneralCapabilities_layout ''num_tim_cap'' capabilities);
     _ \<leftarrow> ensure (max_timer_index < MAX_TIMER_AMOUNT);
     ids \<leftarrow> id_tracker_new (Id 0) (Id max_timer_index);
     Some (h \<lparr> timer_ids := ids \<rparr>) }"

definition hpet_set_disabled :: "'h mmio_rd64 \<Rightarrow> 'h mmio_wr64 \<Rightarrow> 'h \<Rightarrow> Hpet \<Rightarrow> bool \<Rightarrow> 'h option" where
  "hpet_set_disabled hrd hwr d h state = do {
     let config = mmio_read hrd d (hp_area h) GENERAL_CONFIGURATION;
     config \<leftarrow> bf_set GeneralConfiguration_layout ''enable'' (if \<not> state then 1 else 0) config;
     Some (mmio_write hwr d (hp_area h) GENERAL_CONFIGURATION config) }"

definition hpet_init :: "'h mmio_rd64 \<Rightarrow> 'h mmio_wr64 \<Rightarrow> ('h, 'd) TimerSystem \<Rightarrow> usize \<Rightarrow> u16 \<Rightarrow> InterruptRoutingMode
    \<Rightarrow> ('h, 'd) TimerSystem option" where
  "hpet_init hrd hwr s base tick mode = do {
     h \<leftarrow> hpet_new hrd (ts_dev s) base tick mode;
     d \<leftarrow> hpet_set_disabled hrd hwr (ts_dev s) h True;
     d \<leftarrow> set_interrupt_routing hrd hwr d h mode;
     let d = mmio_write hwr d (hp_area h) MAIN_COUNTER_VALUE 0;
     d \<leftarrow> hpet_set_disabled hrd hwr d h False;
     Some (s \<lparr> ts_hpet := h, ts_dev := d \<rparr>) }"

subsection \<open>Its timers\<close>

definition config_reg_offset :: "HpetTimer \<Rightarrow> usize" where
  "config_reg_offset t = 0x100 + 0x20 * id_val (ht_id t)"

definition comparator_reg_offset :: "HpetTimer \<Rightarrow> usize" where
  "comparator_reg_offset t = 0x108 + 0x20 * id_val (ht_id t)"

definition fsb_interrupt_route_reg_offset :: "HpetTimer \<Rightarrow> usize" where
  "fsb_interrupt_route_reg_offset t = 0x110 + 0x20 * id_val (ht_id t)"

definition hpet_timer_new :: "'h mmio_rd64 \<Rightarrow> ('h, 'd) TimerSystem \<Rightarrow> ((TimerError + HpetTimer) \<times> ('h, 'd) TimerSystem) option" where
  "hpet_timer_new hrd s = do {
     let base = mmio_base (hp_area (ts_hpet s));
     (r, ids) \<leftarrow> id_tracker_allocate (timer_ids (ts_hpet s));
     let s = s \<lparr> ts_hpet := ts_hpet s \<lparr> timer_ids := ids \<rparr> \<rparr>;
     (case r of
        Inl _ \<Rightarrow> Some (Err NoTimerAvailable, s)
      | Inr ident \<Rightarrow> do {
          let t = \<lparr> ht_area = mmio_new base, ht_id = ident, ht_size_64_bits = False \<rparr>;
          let config = mmio_read hrd (ts_dev s) (ht_area t) (config_reg_offset t);
          Some (Ok (t \<lparr> ht_size_64_bits := bf_get TimerConfiguration_layout ''size_capable'' config = 1 \<rparr>), s) }) }"

text \<open>The search \<open>(0..32).find(|i| bitmap & (1 << i) != 0 && allocate_irq_at(i).is_ok())\<close>, whose test takes the line.\<close>

fun find_gsi :: "u64 \<Rightarrow> nat list \<Rightarrow> 'd IoApics \<Rightarrow> (nat option \<times> 'd IoApics) option" where
  "find_gsi gsi_bitmap [] s = Some (None, s)"
| "find_gsi gsi_bitmap (i # is) s =
     (if gsi_bitmap AND push_bit i 1 \<noteq> 0 then do {
        (r, s) \<leftarrow> allocate_irq_at s (of_nat i);
        (case r of Inr _ \<Rightarrow> Some (Some i, s) | Inl _ \<Rightarrow> find_gsi gsi_bitmap is s) }
      else find_gsi gsi_bitmap is s)"

definition choose_irq :: "InterruptRoutingMode \<Rightarrow> Id \<Rightarrow> u64 \<Rightarrow> 'd IoApics \<Rightarrow> ((TimerError + u8) \<times> 'd IoApics) option" where
  "choose_irq mode ident config s =
     (if mode = LegacyRouting \<and> ident = Id 0 then do {
        (r, s) \<leftarrow> allocate_irq_at s PIT_IRQ;
        Some (case r of Inl _ \<Rightarrow> Err IrqError | Inr _ \<Rightarrow> Ok PIT_IRQ, s) }
      else if mode = LegacyRouting \<and> ident = Id 1 then do {
        (r, s) \<leftarrow> allocate_irq_at s RTC_IRQ;
        Some (case r of Inl _ \<Rightarrow> Err IrqError | Inr _ \<Rightarrow> Ok RTC_IRQ, s) }
      else do {
        let gsi_bitmap = bf_get TimerConfiguration_layout ''int_route_cap'' config;
        (r, s) \<leftarrow> find_gsi gsi_bitmap [0..<32] s;
        Some (case r of None \<Rightarrow> Err IrqError | Some gsi \<Rightarrow> Ok (gsi_to_irq (ia_overrides s) gsi), s) })"

definition config_delivery_mode :: "'h mmio_wr64 \<Rightarrow> 'd mmio_rd \<Rightarrow> 'd mmio_wr \<Rightarrow> Cpu \<Rightarrow> ('h, 'd) TimerSystem \<Rightarrow> HpetTimer
    \<Rightarrow> u64 \<Rightarrow> HpetDeliveryMode \<Rightarrow> ((TimerError + u64) \<times> ('h, 'd) TimerSystem) option" where
  "config_delivery_mode hwr rd wr c s t config mode = (case mode of
     HpetFsb fsb_info \<Rightarrow>
       if bf_get TimerConfiguration_layout ''fsb_int_delivery'' config \<noteq> 1 then Some (Err InvalidTimerFlags, s)
       else do {
         config \<leftarrow> bf_set TimerConfiguration_layout ''fsb_int_enable'' 1 config;
         config \<leftarrow> bf_set TimerConfiguration_layout ''int_type'' (hpet_trigger_value HpetEdgeTriggered) config;
         let d = mmio_write hwr (ts_dev s) (ht_area t) (fsb_interrupt_route_reg_offset t) fsb_info;
         Some (Ok config, s \<lparr> ts_dev := d \<rparr>) }
   | HpetInterrupt isr_stub int_type \<Rightarrow> do {
       (r, ios) \<leftarrow> choose_irq (int_routing_mode (ts_hpet s)) (ht_id t) config (ts_ioapics s);
       let s = s \<lparr> ts_ioapics := ios \<rparr>;
       (case r of
          Inl e \<Rightarrow> Some (Err e, s)
        | Inr irq \<Rightarrow> do {
            (ios, idt) \<leftarrow> register_irq rd wr c (ts_ioapics s) (ts_idt s) irq isr_stub;
            let s = s \<lparr> ts_ioapics := ios, ts_idt := idt \<rparr>;
            config \<leftarrow> bf_set TimerConfiguration_layout ''fsb_int_enable'' 0 config;
            config \<leftarrow> bf_set TimerConfiguration_layout ''int_type'' (hpet_trigger_value int_type) config;
            Some (Ok config, s) }) })"

definition hpet_timer_configure :: "'h mmio_rd64 \<Rightarrow> 'h mmio_wr64 \<Rightarrow> 'd mmio_rd \<Rightarrow> 'd mmio_wr \<Rightarrow> Cpu \<Rightarrow> ('h, 'd) TimerSystem
    \<Rightarrow> HpetTimer \<Rightarrow> Duration \<Rightarrow> HpetTimerMode \<Rightarrow> AdditionalConfig \<Rightarrow> ((TimerError + u64) \<times> ('h, 'd) TimerSystem) option" where
  "hpet_timer_configure hrd hwr rd wr c s t time timer_mode additional_config = do {
     let config = mmio_read hrd (ts_dev s) (ht_area t) (config_reg_offset t);
     if timer_mode = HpetPeriodic \<and> bf_get TimerConfiguration_layout ''periodic_int_capable'' config = 0
     then Some (Err UnsupportedTimerMode, s)
     else do {
       cycles_delta \<leftarrow> time_to_cycles (ts_hpet s) time;
       target_cycles \<leftarrow> checked_add_u64 (mmio_read hrd (ts_dev s) (hp_area (ts_hpet s)) MAIN_COUNTER_VALUE) cycles_delta;
       (r, s) \<leftarrow> config_delivery_mode hwr rd wr c s t config (delivery_mode additional_config);
       (case r of
          Inl e \<Rightarrow> Some (Err e, s)
        | Inr config \<Rightarrow> do {
            config \<leftarrow> bf_set TimerConfiguration_layout ''timer_32bit_mode'' 0 config;
            config \<leftarrow> bf_set TimerConfiguration_layout ''timer_type'' (hpet_timer_mode_value timer_mode) config;
            config \<leftarrow> bf_set TimerConfiguration_layout ''int_enable'' (if receive_interrupts additional_config then 1 else 0) config;
            (case timer_mode of
               HpetPeriodic \<Rightarrow> do {
                 config \<leftarrow> bf_set TimerConfiguration_layout ''value_set'' 1 config;
                 let d = mmio_write hwr (ts_dev s) (ht_area t) (config_reg_offset t) config;
                 let d = mmio_write hwr d (ht_area t) (comparator_reg_offset t) target_cycles;
                 let d = mmio_write hwr d (ht_area t) (comparator_reg_offset t) cycles_delta;
                 Some (Ok cycles_delta, s \<lparr> ts_dev := d \<rparr>) }
             | HpetOneShot \<Rightarrow> do {
                 let d = mmio_write hwr (ts_dev s) (ht_area t) (config_reg_offset t) config;
                 let d = mmio_write hwr d (ht_area t) (comparator_reg_offset t) target_cycles;
                 Some (Ok cycles_delta, s \<lparr> ts_dev := d \<rparr>) }) }) } }"

definition hpet_timer_set_disabled :: "'h mmio_rd64 \<Rightarrow> 'h mmio_wr64 \<Rightarrow> 'h \<Rightarrow> HpetTimer \<Rightarrow> bool \<Rightarrow> 'h option" where
  "hpet_timer_set_disabled hrd hwr d t state = do {
     let config = mmio_read hrd d (ht_area t) (config_reg_offset t);
     config \<leftarrow> bf_set TimerConfiguration_layout ''int_enable'' (if \<not> state then 1 else 0) config;
     Some (mmio_write hwr d (ht_area t) (config_reg_offset t) config) }"

text \<open>\<open>1 << id\<close> is an \<open>u64\<close>; a shift by 64 or more panics.\<close>

definition get_status :: "'h mmio_rd64 \<Rightarrow> 'h mmio_wr64 \<Rightarrow> 'h \<Rightarrow> HpetTimer \<Rightarrow> (bool \<times> 'h) option" where
  "get_status hrd hwr d t = do {
     _ \<leftarrow> ensure (id_val (ht_id t) < 64);
     let v = mmio_read hrd d (ht_area t) GENERAL_INTERRUPT_STATUS AND push_bit (id_val (ht_id t)) 1;
     if v \<noteq> 0 then Some (True, mmio_write hwr d (ht_area t) GENERAL_INTERRUPT_STATUS v)
     else Some (False, d) }"

definition read_main_counter :: "'h mmio_rd64 \<Rightarrow> 'h \<Rightarrow> HpetTimer \<Rightarrow> u64" where
  "read_main_counter hrd d t = mmio_read hrd d (ht_area t) MAIN_COUNTER_VALUE"

text \<open>\<open>SpinLockable::custom_unlock\<close>: the timer is disabled and its number returned.\<close>

definition hpet_timer_custom_unlock :: "'h mmio_rd64 \<Rightarrow> 'h mmio_wr64 \<Rightarrow> ('h, 'd) TimerSystem \<Rightarrow> HpetTimer \<Rightarrow> ('h, 'd) TimerSystem option" where
  "hpet_timer_custom_unlock hrd hwr s t = do {
     d \<leftarrow> hpet_timer_set_disabled hrd hwr (ts_dev s) t True;
     (r, ids) \<leftarrow> id_tracker_free (timer_ids (ts_hpet s)) (ht_id t);
     _ \<leftarrow> unwrap_ok r;
     Some (s \<lparr> ts_dev := d, ts_hpet := ts_hpet s \<lparr> timer_ids := ids \<rparr> \<rparr>) }"

subsection \<open>Clock cycles\<close>

lemma ceil_div:
  fixes n p :: nat
  assumes "0 < p"
  defines "c \<equiv> (if n mod p \<noteq> 0 then n + (p - n mod p) else n) div p"
  shows "n \<le> c * p" and "c * p < n + p"
proof -
  define q r where "q = n div p" and "r = n mod p"
  have n: "n = q * p + r" and r: "r < p" using assms(1) by (simp_all add: q_def r_def)
  have "c = (if r \<noteq> 0 then q + 1 else q)"
  proof (cases "r = 0")
    case True
    then show ?thesis using assms(1) n by (simp add: c_def r_def [symmetric])
  next
    case False
    then have "n + (p - r) = (q + 1) * p" using n r by (simp add: algebra_simps)
    then show ?thesis using False assms(1) by (simp add: c_def r_def [symmetric])
  qed
  then show "n \<le> c * p" "c * p < n + p" using n r by (auto simp: algebra_simps)
qed

text \<open>C37: The conversion of a time to cycles of the main counter panics only for a clock period of zero.  For every duration
  the number of cycles is the least that covers the time, rounded up to a full clock period, and the result
  is that number as long as it fits 64 bits; longer times are reduced modulo \<open>2 ^ 64\<close>.\<close>

theorem time_to_cycles_rounds_up:
  assumes "time < 2 ^ 64 * 10 ^ 9"
  shows "time_to_cycles h time =
      (if main_clock_period h = 0 then None
       else Some (of_nat (LEAST c. time * 10 ^ 6 \<le> c * unat (main_clock_period h))))
    \<and> (main_clock_period h \<noteq> 0 \<and> time * 10 ^ 6 \<le> (2 ^ 64 - 1) * unat (main_clock_period h) \<longrightarrow>
         (\<exists>cycles. time_to_cycles h time = Some cycles \<and> time * 10 ^ 6 \<le> unat cycles * unat (main_clock_period h)
            \<and> unat cycles * unat (main_clock_period h) < time * 10 ^ 6 + unat (main_clock_period h)))"
proof (cases "main_clock_period h = 0")
  case True
  then show ?thesis by (simp add: time_to_cycles_def)
next
  case False
  let ?p = "unat (main_clock_period h)" and ?n = "time * 10 ^ 6"
  define c where "c = (if ?n mod ?p \<noteq> 0 then ?n + (?p - ?n mod ?p) else ?n) div ?p"
  have p: "0 < ?p" using False by (simp add: unat_gt_0)
  have "?p < 2 ^ 64" using unsigned_less [of "main_clock_period h", where ?'a = nat] by simp
  then have "?n + (?p - ?n mod ?p) < 2 ^ 128" "?n < 2 ^ 128" using assms by simp_all
  then have val: "time_to_cycles h time = Some (of_nat c)"
    using False by (simp add: time_to_cycles_def NANO_TO_FEMTOSEC_def checked_u128_def c_def Let_def)
  note bounds = ceil_div [OF p, of ?n, folded c_def]
  have least: "(LEAST c. ?n \<le> c * ?p) = c"
  proof (rule Least_equality)
    show "?n \<le> c * ?p" by (rule bounds(1))
    fix y assume "?n \<le> y * ?p"
    with bounds(2) have "c * ?p < (y + 1) * ?p" by simp
    then show "c \<le> y" using p by (metis Suc_eq_plus1 less_Suc_eq_le mult_less_cancel2)
  qed
  have "\<exists>cycles. time_to_cycles h time = Some cycles \<and> ?n \<le> unat cycles * ?p \<and> unat cycles * ?p < ?n + ?p"
    if "?n \<le> (2 ^ 64 - 1) * ?p"
  proof -
    have "(2 ^ 64 - 1) * ?p + ?p = 2 ^ 64 * ?p" by simp
    with bounds(2) that have "c * ?p < 2 ^ 64 * ?p" by linarith
    then have "c < 2 ^ 64" by simp
    then have "unat (of_nat c :: u64) = c" by (simp add: unsigned_of_nat take_bit_nat_eq_self)
    with val bounds show ?thesis by auto
  qed
  with val least False show ?thesis by (simp only: if_False) blast
qed

theorem time_to_cycles_rounds_up_witness:
  "\<exists>h. main_clock_period h = 69841279 \<and> time_to_cycles h 1000000 = Some 14319 \<and> 1000000 * 10 ^ 6 \<le> 14319 * (69841279 :: nat)"
proof -
  let ?h = "\<lparr> hp_area = mmio_new 0, main_clock_period = 69841279, minimum_tick = 0, timer_ids = id_tracker_uninit,
     int_routing_mode = LegacyRouting, hp_size_64_bits = True \<rparr>"
  from time_to_cycles_rounds_up [of 1000000 ?h] obtain cycles where
    "time_to_cycles ?h 1000000 = Some cycles" "1000000 * 10 ^ 6 \<le> unat cycles * 69841279" "unat cycles * 69841279 < 1000000 * 10 ^ 6 + 69841279"
    by auto
  moreover from this(2,3) have "unat cycles = 14319" by simp
  then have "cycles = 14319" by (simp add: word_unat_eq_iff)
  ultimately show ?thesis by (intro exI [of _ ?h]) simp
qed

subsection \<open>The interrupt line of a timer\<close>

text \<open>The line a timer takes from the lines that are free, \<open>None\<close> when there is none.\<close>

definition legacy_timer :: "InterruptRoutingMode \<Rightarrow> Id \<Rightarrow> bool" where
  "legacy_timer mode ident \<longleftrightarrow> mode = LegacyRouting \<and> (ident = Id 0 \<or> ident = Id 1)"

definition timer_line :: "InterruptRoutingMode \<Rightarrow> Id \<Rightarrow> u64 \<Rightarrow> Id set \<Rightarrow> nat option" where
  "timer_line mode ident config free =
     (if legacy_timer mode ident
      then let line = (if ident = Id 0 then 0 else 8) in if Id line \<in> free then Some line else None
      else find (\<lambda>i. bit (bf_get TimerConfiguration_layout ''int_route_cap'' config) i \<and> Id i \<in> free) [0..<32])"

definition timer_irq :: "InterruptRoutingMode \<Rightarrow> Id \<Rightarrow> IrqOverride list \<Rightarrow> nat \<Rightarrow> u8" where
  "timer_irq mode ident ovs line = (if legacy_timer mode ident then of_nat line else gsi_to_irq ovs line)"

abbreviation free_lines :: "'d IoApics \<Rightarrow> Id set" where
  "free_lines s \<equiv> tracker_pool (ia_irq_allocator s) - tracker_taken (ia_irq_allocator s)"

lemma allocate_irq_at_spec:
  assumes "tracker_wf (ia_irq_allocator s)" and "n < 256"
  obtains r tr where "allocate_irq_at s (of_nat n) = Some (r, s \<lparr> ia_irq_allocator := tr \<rparr>)"
    and "tracker_wf tr" and "tracker_pool tr = tracker_pool (ia_irq_allocator s)"
    and "(\<exists>u. r = Ok u) \<longleftrightarrow> Id n \<in> free_lines s"
    and "tracker_taken tr = tracker_taken (ia_irq_allocator s) \<union> (if Id n \<in> free_lines s then {Id n} else {})"
proof -
  have "unat (of_nat n :: u8) = n" using assms(2) by (simp add: unsigned_of_nat take_bit_nat_eq_self)
  moreover obtain r tr where "id_tracker_allocate_at (ia_irq_allocator s) (Id n) = Some (r, tr)" "tracker_wf tr"
    "tracker_pool tr = tracker_pool (ia_irq_allocator s)"
    "(r, tracker_taken tr) = spec_allocate_at (tracker_pool (ia_irq_allocator s)) (tracker_taken (ia_irq_allocator s)) (Id n)"
    using id_tracker_allocate_at_spec [OF assms(1)] by blast
  ultimately show ?thesis
    by (intro that [of r tr]) (auto simp: allocate_irq_at_def spec_allocate_at_def split: if_splits)
qed

lemma find_gsi_spec:
  assumes "tracker_wf (ia_irq_allocator s)" and "\<forall>i \<in> set is. i < 64"
  shows "\<exists>tr. find_gsi cap is s = Some (find (\<lambda>i. bit cap i \<and> Id i \<in> free_lines s) is, s \<lparr> ia_irq_allocator := tr \<rparr>)
    \<and> tracker_wf tr \<and> tracker_pool tr = tracker_pool (ia_irq_allocator s)
    \<and> tracker_taken tr = tracker_taken (ia_irq_allocator s)
        \<union> (case find (\<lambda>i. bit cap i \<and> Id i \<in> free_lines s) is of None \<Rightarrow> {} | Some i \<Rightarrow> {Id i})"
  using assms
proof (induction "is" arbitrary: s)
  case Nil
  then show ?case by (intro exI [of _ "ia_irq_allocator s"]) simp
next
  case (Cons i js)
  have bit: "(cap AND push_bit i 1 \<noteq> 0) \<longleftrightarrow> bit cap i"
    by (metis and_exp_eq_0_iff_not_bit mult_1 push_bit_eq_mult)
  show ?case
  proof (cases "bit cap i")
    case True
    have "i < 256" using Cons.prems(2) by simp
    from Cons.prems(1) this obtain r tr where a: "allocate_irq_at s (of_nat i) = Some (r, s \<lparr> ia_irq_allocator := tr \<rparr>)" "tracker_wf tr"
      "tracker_pool tr = tracker_pool (ia_irq_allocator s)" "(\<exists>u. r = Ok u) \<longleftrightarrow> Id i \<in> free_lines s"
      "tracker_taken tr = tracker_taken (ia_irq_allocator s) \<union> (if Id i \<in> free_lines s then {Id i} else {})"
      by (rule allocate_irq_at_spec)
    show ?thesis
    proof (cases "Id i \<in> free_lines s")
      case free: True
      with a(4) obtain u where "r = Ok u" by blast
      with a free True bit show ?thesis by (intro exI [of _ tr]) simp
    next
      case False
      with a(4) obtain e where r: "r = Err e" by (cases r) auto
      let ?s = "s \<lparr> ia_irq_allocator := tr \<rparr>"
      have taken: "tracker_taken tr = tracker_taken (ia_irq_allocator s)" using a(5) unfolding if_not_P [OF False] by simp
      have same: "free_lines ?s = free_lines s" using a(3) taken by simp
      have "find_gsi cap (i # js) s = find_gsi cap js ?s" using True bit a(1) r by simp
      moreover have "find (\<lambda>i. bit cap i \<and> Id i \<in> free_lines s) (i # js) = find (\<lambda>i. bit cap i \<and> Id i \<in> free_lines s) js"
        using False by auto
      moreover have "tracker_wf (ia_irq_allocator ?s)" "\<forall>i \<in> set js. i < 64" using a(2) Cons.prems(2) by simp_all
      note Cons.IH [OF this, unfolded same]
      moreover have "tracker_pool (ia_irq_allocator ?s) = tracker_pool (ia_irq_allocator s)"
        "tracker_taken (ia_irq_allocator ?s) = tracker_taken (ia_irq_allocator s)" using a(3) taken by simp_all
      ultimately show ?thesis by simp
    qed
  next
    case False
    then show ?thesis using Cons.IH [of s] Cons.prems bit by simp
  qed
qed

lemma choose_irq_spec:
  assumes wf: "tracker_wf (ia_irq_allocator s)"
  obtains tr where "choose_irq mode ident config s =
      Some (case timer_line mode ident config (free_lines s) of
              None \<Rightarrow> Err IrqError | Some n \<Rightarrow> Ok (timer_irq mode ident (ia_overrides s) n), s \<lparr> ia_irq_allocator := tr \<rparr>)"
    and "tracker_wf tr" and "tracker_pool tr = tracker_pool (ia_irq_allocator s)"
    and "tracker_taken tr = tracker_taken (ia_irq_allocator s)
        \<union> (case timer_line mode ident config (free_lines s) of None \<Rightarrow> {} | Some i \<Rightarrow> {Id i})"
proof (cases "legacy_timer mode ident")
  case True
  define line :: nat where "line = (if ident = Id 0 then 0 else 8)"
  have "line < 256" by (simp add: line_def)
  with wf obtain r tr where a: "allocate_irq_at s (of_nat line) = Some (r, s \<lparr> ia_irq_allocator := tr \<rparr>)" "tracker_wf tr"
      "tracker_pool tr = tracker_pool (ia_irq_allocator s)" "(\<exists>u. r = Ok u) \<longleftrightarrow> Id line \<in> free_lines s"
      "tracker_taken tr = tracker_taken (ia_irq_allocator s) \<union> (if Id line \<in> free_lines s then {Id line} else {})"
    by (rule allocate_irq_at_spec)
  have l: "timer_line mode ident config (free_lines s) = (if Id line \<in> free_lines s then Some line else None)"
    using True by (simp add: timer_line_def line_def Let_def)
  have "choose_irq mode ident config s =
      Some (case timer_line mode ident config (free_lines s) of
              None \<Rightarrow> Err IrqError | Some n \<Rightarrow> Ok (timer_irq mode ident (ia_overrides s) n), s \<lparr> ia_irq_allocator := tr \<rparr>)"
    using True a(1,4) unfolding l
    by (cases r) (auto simp: choose_irq_def legacy_timer_def timer_irq_def line_def PIT_IRQ_def RTC_IRQ_def)
  with a l show ?thesis by (intro that [of tr]) simp_all
next
  case False
  let ?cap = "bf_get TimerConfiguration_layout ''int_route_cap'' config"
  obtain tr where "find_gsi ?cap [0..<32] s = Some (find (\<lambda>i. bit ?cap i \<and> Id i \<in> free_lines s) [0..<32], s \<lparr> ia_irq_allocator := tr \<rparr>)"
    "tracker_wf tr" "tracker_pool tr = tracker_pool (ia_irq_allocator s)"
    "tracker_taken tr = tracker_taken (ia_irq_allocator s)
        \<union> (case find (\<lambda>i. bit ?cap i \<and> Id i \<in> free_lines s) [0..<32] of None \<Rightarrow> {} | Some i \<Rightarrow> {Id i})"
    using find_gsi_spec [OF wf, of "[0..<32]" ?cap] by (auto simp del: upt_Suc)
  moreover have "timer_line mode ident config (free_lines s) = find (\<lambda>i. bit ?cap i \<and> Id i \<in> free_lines s) [0..<32]"
    using False by (simp add: timer_line_def)
  moreover have "choose_irq mode ident config s = do { (r, s) \<leftarrow> find_gsi ?cap [0..<32] s;
        Some (case r of None \<Rightarrow> Err IrqError | Some gsi \<Rightarrow> Ok (gsi_to_irq (ia_overrides s) gsi), s) }"
    using False by (auto simp: choose_irq_def legacy_timer_def)
  ultimately show ?thesis using False
    by (intro that [of tr]) (simp_all add: timer_irq_def split: option.split)
qed

subsection \<open>Configuring a timer\<close>

lemma TimerConfiguration_wf: "layout_wf LENGTH(64) TimerConfiguration_layout"
  by (simp add: TimerConfiguration_layout_def layout_wf_def layout_bits_def)

lemma flag_values_fit:
  "take_bit 1 (if b then 1 else 0 :: u64) = (if b then 1 else 0)" "take_bit 1 (1 :: u64) = 1"
  "take_bit 1 (hpet_trigger_value t) = hpet_trigger_value t" "take_bit 1 (hpet_timer_mode_value m) = hpet_timer_mode_value m"
  by (cases t; cases m; simp)+

lemma timer_field:
  fixes v w :: u64
  assumes "f \<in> {''fsb_int_enable'', ''int_type'', ''timer_32bit_mode'', ''timer_type'', ''int_enable'', ''value_set''}" and "take_bit 1 v = v"
  obtains w' where "bf_set TimerConfiguration_layout f v w = Some w'"
    and "\<forall>g. bf_get TimerConfiguration_layout g w' = (if g = f then v else bf_get TimerConfiguration_layout g w)"
proof -
  have "(f, 1) \<in> set TimerConfiguration_layout" using assms(1) by (auto simp: TimerConfiguration_layout_def)
  from bf_set_typed [OF TimerConfiguration_wf this assms(2), of w] show ?thesis using that by blast
qed

text \<open>The configuration word of a timer that delivers interrupts: what changes from the word it had.\<close>

definition timer_programmed :: "HpetTriggerMode \<Rightarrow> HpetTimerMode \<Rightarrow> bool \<Rightarrow> u64 \<Rightarrow> u64 \<Rightarrow> bool" where
  "timer_programmed trigger mode receive old new \<longleftrightarrow> (\<forall>f. bf_get TimerConfiguration_layout f new =
     (if f = ''fsb_int_enable'' then 0 else if f = ''int_type'' then hpet_trigger_value trigger
      else if f = ''timer_32bit_mode'' then 0 else if f = ''timer_type'' then hpet_timer_mode_value mode
      else if f = ''int_enable'' then if receive then 1 else 0
      else if f = ''value_set'' \<and> mode = HpetPeriodic then 1 else bf_get TimerConfiguration_layout f old))"

text \<open>The words \<open>configure\<close> goes through, in its order.\<close>

lemma timer_words:
  obtains w1 w2 w3 w4 w5 where
    "bf_set TimerConfiguration_layout ''fsb_int_enable'' 0 w0 = Some w1"
    "bf_set TimerConfiguration_layout ''int_type'' (hpet_trigger_value trigger) w1 = Some w2"
    "bf_set TimerConfiguration_layout ''timer_32bit_mode'' 0 w2 = Some w3"
    "bf_set TimerConfiguration_layout ''timer_type'' (hpet_timer_mode_value mode) w3 = Some w4"
    "bf_set TimerConfiguration_layout ''int_enable'' (if receive then 1 else 0) w4 = Some w5"
    "mode = HpetOneShot \<longrightarrow> timer_programmed trigger mode receive w0 w5"
    "\<exists>w6. bf_set TimerConfiguration_layout ''value_set'' 1 w5 = Some w6 \<and> (mode = HpetPeriodic \<longrightarrow> timer_programmed trigger mode receive w0 w6)"
proof -
  let ?get = "bf_get TimerConfiguration_layout"
  obtain w1 where w1: "bf_set TimerConfiguration_layout ''fsb_int_enable'' 0 w0 = Some w1"
    "\<forall>g. ?get g w1 = (if g = ''fsb_int_enable'' then 0 else ?get g w0)"
    by (rule timer_field [OF _ take_bit_of_0, of "''fsb_int_enable''" w0]) (simp, rule that)
  obtain w2 where w2: "bf_set TimerConfiguration_layout ''int_type'' (hpet_trigger_value trigger) w1 = Some w2"
    "\<forall>g. ?get g w2 = (if g = ''int_type'' then hpet_trigger_value trigger else ?get g w1)"
    by (rule timer_field [OF _ flag_values_fit(3), of "''int_type''" trigger w1]) (simp, rule that)
  obtain w3 where w3: "bf_set TimerConfiguration_layout ''timer_32bit_mode'' 0 w2 = Some w3"
    "\<forall>g. ?get g w3 = (if g = ''timer_32bit_mode'' then 0 else ?get g w2)"
    by (rule timer_field [OF _ take_bit_of_0, of "''timer_32bit_mode''" w2]) (simp, rule that)
  obtain w4 where w4: "bf_set TimerConfiguration_layout ''timer_type'' (hpet_timer_mode_value mode) w3 = Some w4"
    "\<forall>g. ?get g w4 = (if g = ''timer_type'' then hpet_timer_mode_value mode else ?get g w3)"
    by (rule timer_field [OF _ flag_values_fit(4), of "''timer_type''" mode w3]) (simp, rule that)
  obtain w5 where w5: "bf_set TimerConfiguration_layout ''int_enable'' (if receive then 1 else 0) w4 = Some w5"
    "\<forall>g. ?get g w5 = (if g = ''int_enable'' then if receive then 1 else 0 else ?get g w4)"
    by (rule timer_field [OF _ flag_values_fit(1), of "''int_enable''" receive w4]) (simp, rule that)
  obtain w6 where w6: "bf_set TimerConfiguration_layout ''value_set'' 1 w5 = Some w6"
    "\<forall>g. ?get g w6 = (if g = ''value_set'' then 1 else ?get g w5)"
    by (rule timer_field [OF _ flag_values_fit(2), of "''value_set''" w5]) (simp, rule that)
  have "mode = HpetOneShot \<longrightarrow> timer_programmed trigger mode receive w0 w5"
    by (simp add: timer_programmed_def w1(2) w2(2) w3(2) w4(2) w5(2))
  moreover have "mode = HpetPeriodic \<longrightarrow> timer_programmed trigger mode receive w0 w6"
    by (simp add: timer_programmed_def w1(2) w2(2) w3(2) w4(2) w5(2) w6(2))
  ultimately show ?thesis using that [OF w1(1) w2(1) w3(1) w4(1) w5(1)] w6(1) by blast
qed


text \<open>Where the registers of a timer are, and what \<open>configure\<close> writes to them.\<close>

definition timer_writes :: "'h mmio_wr64 \<Rightarrow> HpetTimer \<Rightarrow> HpetTimerMode \<Rightarrow> u64 \<Rightarrow> u64 \<Rightarrow> u64 \<Rightarrow> 'h \<Rightarrow> 'h" where
  "timer_writes hwr t mode config target delta d =
     (let base = mmio_base (ht_area t) + 0x20 * id_val (ht_id t);
          d = hwr (hwr d (base + 0x100) config) (base + 0x108) target
      in if mode = HpetPeriodic then hwr d (base + 0x108) delta else d)"

lemma configure_finish:
  assumes cap: "mode = HpetPeriodic \<longrightarrow> bf_get TimerConfiguration_layout ''periodic_int_capable'' w0 \<noteq> 0"
    and w0: "w0 = mmio_read hrd (ts_dev s) (ht_area t) (config_reg_offset t)"
    and delta: "time_to_cycles (ts_hpet s) time = Some delta"
    and target: "checked_add_u64 (mmio_read hrd (ts_dev s) (hp_area (ts_hpet s)) MAIN_COUNTER_VALUE) delta = Some target"
    and ac: "delivery_mode ac = HpetInterrupt stub trigger"
    and irq: "choose_irq (int_routing_mode (ts_hpet s)) (ht_id t) w0 (ts_ioapics s) = Some (Ok irq, ios)"
    and reg: "register_irq rd wr c ios (ts_idt s) irq stub = Some (ios', idt')"
  obtains config where
    "hpet_timer_configure hrd hwr rd wr c s t time mode ac = Some (Ok delta, s \<lparr> ts_ioapics := ios', ts_idt := idt',
       ts_dev := timer_writes hwr t mode config target delta (ts_dev s) \<rparr>)"
    and "timer_programmed trigger mode (receive_interrupts ac) w0 config"
proof -
  obtain w1 w2 w3 w4 w5 where w:
    "bf_set TimerConfiguration_layout ''fsb_int_enable'' 0 w0 = Some w1"
    "bf_set TimerConfiguration_layout ''int_type'' (hpet_trigger_value trigger) w1 = Some w2"
    "bf_set TimerConfiguration_layout ''timer_32bit_mode'' 0 w2 = Some w3"
    "bf_set TimerConfiguration_layout ''timer_type'' (hpet_timer_mode_value mode) w3 = Some w4"
    "bf_set TimerConfiguration_layout ''int_enable'' (if receive_interrupts ac then 1 else 0) w4 = Some w5"
    and one: "mode = HpetOneShot \<longrightarrow> timer_programmed trigger mode (receive_interrupts ac) w0 w5"
    and per: "\<exists>w6. bf_set TimerConfiguration_layout ''value_set'' 1 w5 = Some w6
        \<and> (mode = HpetPeriodic \<longrightarrow> timer_programmed trigger mode (receive_interrupts ac) w0 w6)"
    by (rule timer_words)
  obtain w6 where w6: "bf_set TimerConfiguration_layout ''value_set'' 1 w5 = Some w6"
    "mode = HpetPeriodic \<longrightarrow> timer_programmed trigger mode (receive_interrupts ac) w0 w6" using per by blast
  let ?s1 = "s \<lparr> ts_ioapics := ios', ts_idt := idt' \<rparr>"
  have deliver: "config_delivery_mode hwr rd wr c s t w0 (delivery_mode ac) = Some (Ok w2, ?s1)"
    unfolding ac using irq reg w(1,2) by (simp add: config_delivery_mode_def)
  have notcap: "\<not> (mode = HpetPeriodic \<and> bf_get TimerConfiguration_layout ''periodic_int_capable'' w0 = 0)" using cap by blast
  note pre = if_not_P [OF notcap] Let_def w0 [symmetric] delta target
  define config where "config = (if mode = HpetPeriodic then w6 else w5)"
  have "hpet_timer_configure hrd hwr rd wr c s t time mode ac = Some (Ok delta, s \<lparr> ts_ioapics := ios', ts_idt := idt',
       ts_dev := timer_writes hwr t mode config target delta (ts_dev s) \<rparr>)"
    unfolding hpet_timer_configure_def pre using deliver w(3-5) w6(1) target
    by (cases mode) (simp_all add: mmio_write_def config_reg_offset_def comparator_reg_offset_def timer_writes_def config_def algebra_simps)
  moreover have "timer_programmed trigger mode (receive_interrupts ac) w0 config"
    using one w6(2) by (cases mode) (simp_all add: config_def)
  ultimately show ?thesis by (rule that)
qed

text \<open>C21: Configuring a timer for interrupts, on every branch.  A periodic timer is refused when the hardware cannot
  repeat; otherwise the timer takes its line (0 or 8 for the two legacy timers, else the first free line among those its
  route capability allows) and fails with \<open>IrqError\<close>, with nothing taken and no register written, when there is none.  With a line, the
  handler is installed in the first free gate, the redirection entry of the interrupt points to its vector and is unmasked, the line is
  recorded as taken, and the timer's registers are written: the configuration, then the counter's value plus the delay as the
  comparator, then for a periodic timer the period.  The number of cycles is returned.\<close>

theorem hpet_configure_correct:
  assumes dev: "ioapic_device rd wr sel reg B" and ios: "ioapics_ok B (ia_ioapics (ts_ioapics s))"
    and wf: "tracker_wf (ia_irq_allocator (ts_ioapics s))"
    and delta: "time_to_cycles (ts_hpet s) time = Some delta"
    and target: "checked_add_u64 (mmio_read hrd (ts_dev s) (hp_area (ts_hpet s)) MAIN_COUNTER_VALUE) delta = Some target"
    and ac: "delivery_mode ac = HpetInterrupt stub trigger"
    and gate: "i < length (ts_idt s)" "\<not> gate_present (ts_idt s ! i)" "\<forall>j < i. gate_present (ts_idt s ! j)"
    and old: "old = mmio_read hrd (ts_dev s) (ht_area t) (config_reg_offset t)"
    and line: "line = timer_line (int_routing_mode (ts_hpet s)) (ht_id t) old (free_lines (ts_ioapics s))"
    and serve: "\<And>n. line = Some n \<Longrightarrow> find (\<lambda>io. serves io (irq_to_gsi (ia_overrides (ts_ioapics s))
          (timer_irq (int_routing_mode (ts_hpet s)) (ht_id t) (ia_overrides (ts_ioapics s)) n))) (ia_ioapics (ts_ioapics s)) = Some io"
  shows "if mode = HpetPeriodic \<and> bf_get TimerConfiguration_layout ''periodic_int_capable'' old = 0
    then hpet_timer_configure hrd hwr rd wr c s t time mode ac = Some (Err UnsupportedTimerMode, s)
    else \<exists>tr. tracker_wf tr \<and> tracker_pool tr = tracker_pool (ia_irq_allocator (ts_ioapics s)) \<and> (case line of
        None \<Rightarrow> tracker_taken tr = tracker_taken (ia_irq_allocator (ts_ioapics s))
          \<and> hpet_timer_configure hrd hwr rd wr c s t time mode ac = Some (Err IrqError, s \<lparr> ts_ioapics := ts_ioapics s \<lparr> ia_irq_allocator := tr \<rparr> \<rparr>)
      | Some n \<Rightarrow> tracker_taken tr = insert (Id n) (tracker_taken (ia_irq_allocator (ts_ioapics s)))
          \<and> (\<exists>config d g w. hpet_timer_configure hrd hwr rd wr c s t time mode ac = Some (Ok delta,
              s \<lparr> ts_ioapics := ts_ioapics s \<lparr> ia_irq_allocator := tr, ia_dev := d \<rparr>, ts_idt := (ts_idt s)[i := g],
                  ts_dev := timer_writes hwr t mode config target delta (ts_dev s) \<rparr>)
            \<and> timer_programmed trigger mode (receive_interrupts ac) old config
            \<and> gate_for stub (Cs_read c) InterruptGate g
            \<and> (let b = mmio_base (io_sel io); k = of_nat (entry_index io (irq_to_gsi (ia_overrides (ts_ioapics s))
                    (timer_irq (int_routing_mode (ts_hpet s)) (ht_id t) (ia_overrides (ts_ioapics s)) n))) :: u32;
                   before = reg (ia_dev (ts_ioapics s))
               in reg d = before(b := (before b)(k := w))
                  \<and> (\<forall>m < 32. bit w m \<longleftrightarrow> (if m < 8 then bit i m else m \<noteq> 16 \<and> bit (before b k) m)))))"
proof (cases "mode = HpetPeriodic \<and> bf_get TimerConfiguration_layout ''periodic_int_capable'' old = 0")
  case True
  then show ?thesis by (simp add: hpet_timer_configure_def old)
next
  case False
  let ?mode = "int_routing_mode (ts_hpet s)" and ?ios = "ts_ioapics s"
  obtain tr where tr: "choose_irq ?mode (ht_id t) old ?ios = Some (case line of
              None \<Rightarrow> Err IrqError | Some n \<Rightarrow> Ok (timer_irq ?mode (ht_id t) (ia_overrides ?ios) n), ?ios \<lparr> ia_irq_allocator := tr \<rparr>)"
    "tracker_wf tr" "tracker_pool tr = tracker_pool (ia_irq_allocator ?ios)"
    "tracker_taken tr = tracker_taken (ia_irq_allocator ?ios) \<union> (case line of None \<Rightarrow> {} | Some i \<Rightarrow> {Id i})"
    using choose_irq_spec [OF wf, of ?mode "ht_id t" old] unfolding line by blast
  show ?thesis
  proof (cases line)
    case None
    have "config_delivery_mode hwr rd wr c s t old (delivery_mode ac) = Some (Err IrqError, s \<lparr> ts_ioapics := ?ios \<lparr> ia_irq_allocator := tr \<rparr> \<rparr>)"
      unfolding ac using tr(1) None by (simp add: config_delivery_mode_def)
    then have "hpet_timer_configure hrd hwr rd wr c s t time mode ac = Some (Err IrqError, s \<lparr> ts_ioapics := ?ios \<lparr> ia_irq_allocator := tr \<rparr> \<rparr>)"
      unfolding hpet_timer_configure_def Let_def old [symmetric] if_not_P [OF False] delta using target by simp
    then show ?thesis unfolding if_not_P [OF False] using tr(2-4) None by auto
  next
    case (Some n)
    let ?irq = "timer_irq ?mode (ht_id t) (ia_overrides ?ios) n"
    let ?ios1 = "?ios \<lparr> ia_irq_allocator := tr \<rparr>"
    have s1: "ioapics_ok B (ia_ioapics ?ios1)" "irq_to_gsi (ia_overrides ?ios) ?irq = irq_to_gsi (ia_overrides ?ios1) ?irq"
      "find (\<lambda>io. serves io (irq_to_gsi (ia_overrides ?ios) ?irq)) (ia_ioapics ?ios1) = Some io"
      using ios serve [OF Some] by simp_all
    from register_irq_spec [OF dev s1 refl gate, of c stub] obtain d g w where
      r: "register_irq rd wr c ?ios1 (ts_idt s) ?irq stub = Some (?ios1 \<lparr> ia_dev := d \<rparr>, (ts_idt s)[i := g])"
      "gate_for stub (Cs_read c) InterruptGate g"
      "reg d = (reg (ia_dev ?ios1))(mmio_base (io_sel io) := (reg (ia_dev ?ios1) (mmio_base (io_sel io)))
          (of_nat (entry_index io (irq_to_gsi (ia_overrides ?ios) ?irq)) := w))"
      "\<forall>m < 32. bit w m \<longleftrightarrow> (if m < 8 then bit i m else m \<noteq> 16
          \<and> bit (reg (ia_dev ?ios1) (mmio_base (io_sel io)) (of_nat (entry_index io (irq_to_gsi (ia_overrides ?ios) ?irq)))) m)" by blast
    have irq: "choose_irq ?mode (ht_id t) old ?ios = Some (Ok ?irq, ?ios1)" using tr(1) Some by simp
    have cap: "mode = HpetPeriodic \<longrightarrow> bf_get TimerConfiguration_layout ''periodic_int_capable'' old \<noteq> 0" using False by blast
    obtain config where config: "hpet_timer_configure hrd hwr rd wr c s t time mode ac = Some (Ok delta,
        s \<lparr> ts_ioapics := ?ios1 \<lparr> ia_dev := d \<rparr>, ts_idt := (ts_idt s)[i := g], ts_dev := timer_writes hwr t mode config target delta (ts_dev s) \<rparr>)"
      "timer_programmed trigger mode (receive_interrupts ac) old config"
      by (rule configure_finish [OF cap old delta target ac irq r(1)])
    have "tracker_taken tr = insert (Id n) (tracker_taken (ia_irq_allocator ?ios))" using tr(4) Some by simp
    then show ?thesis unfolding if_not_P [OF False] Some option.case Let_def
      using tr(2,3) config r(2-4) by (intro exI [of _ tr] conjI exI [of _ config] exI [of _ d] exI [of _ g] exI [of _ w]) simp_all
  qed
qed


definition demo_hpet :: Hpet where
  "demo_hpet = \<lparr> hp_area = mmio_new 0, main_clock_period = 10000000, minimum_tick = 0, timer_ids = id_tracker_uninit,
     int_routing_mode = LegacyRouting, hp_size_64_bits = True \<rparr>"

definition demo_timers :: "IdTracker \<Rightarrow> (usize \<Rightarrow> u64, demo_ioapic) TimerSystem" where
  "demo_timers irqs = \<lparr> ts_dev = (\<lambda>a. if a = 0xF0 then 5 else 0), ts_hpet = demo_hpet,
     ts_ioapics = demo_ioapics \<lparr> ia_irq_allocator := irqs \<rparr>, ts_idt = replicate 256 0 \<rparr>"

definition demo_timer :: HpetTimer where
  "demo_timer = \<lparr> ht_area = mmio_new 0, ht_id = Id 0, ht_size_64_bits = True \<rparr>"

theorem hpet_configure_correct_witness:
  "\<exists>irqs s'. hpet_timer_configure (\<lambda>d a. d a) (\<lambda>d a v. d(a := v)) demo_rd demo_wr demo_cpu (demo_timers irqs) demo_timer 1000 HpetOneShot
       \<lparr> receive_interrupts = True, delivery_mode = HpetInterrupt 0xFFFF800000001000 HpetEdgeTriggered \<rparr> = Some (Ok 100, s')
     \<and> tracker_taken (ia_irq_allocator (ts_ioapics s')) = {Id 0} \<and> ts_dev s' 0x108 = 105"
proof -
  obtain irqs where irqs: "tracker_wf irqs" "tracker_pool irqs = {Id 0..Id 23}" "tracker_taken irqs = {}"
    using id_tracker_new_spec [of "Id 0" "Id 23"] by (auto simp: USIZE_LIM_def)
  let ?s = "demo_timers irqs" and ?ac = "\<lparr> receive_interrupts = True, delivery_mode = HpetInterrupt 0xFFFF800000001000 HpetEdgeTriggered \<rparr>"
  have delta: "time_to_cycles (ts_hpet ?s) 1000 = Some 100"
    by (simp add: demo_timers_def demo_hpet_def time_to_cycles_def NANO_TO_FEMTOSEC_def checked_u128_def)
  have target: "checked_add_u64 (mmio_read (\<lambda>d a. d a) (ts_dev ?s) (hp_area (ts_hpet ?s)) MAIN_COUNTER_VALUE) 100 = Some 105"
    by (simp add: demo_timers_def demo_hpet_def checked_add_u64_def mmio_read_def mmio_new_def MAIN_COUNTER_VALUE_def)
  have wf: "tracker_wf (ia_irq_allocator (ts_ioapics ?s))" using irqs(1) by (simp add: demo_timers_def)
  have ok: "ioapics_ok {0x1000} (ia_ioapics (ts_ioapics ?s))" using demo_ioapics_ok by (simp add: demo_timers_def)
  have idt: "0 < length (ts_idt ?s)" "\<not> gate_present (ts_idt ?s ! 0)" "\<forall>j < 0. gate_present (ts_idt ?s ! j)"
    by (simp_all add: demo_timers_def gate_present_def bf_get_def GateDescriptor_layout_def)
  have "Some 0 = timer_line (int_routing_mode (ts_hpet ?s)) (ht_id demo_timer) (mmio_read (\<lambda>d a. d a) (ts_dev ?s) (ht_area demo_timer) (config_reg_offset demo_timer))
      (free_lines (ts_ioapics ?s))"
    using irqs(2,3) by (simp add: timer_line_def legacy_timer_def demo_timers_def demo_timer_def demo_hpet_def Id_order)
  note line = this
  have serve: "find (\<lambda>io. serves io (irq_to_gsi (ia_overrides (ts_ioapics ?s)) (timer_irq (int_routing_mode (ts_hpet ?s)) (ht_id demo_timer)
      (ia_overrides (ts_ioapics ?s)) n))) (ia_ioapics (ts_ioapics ?s)) = Some demo_io" if "Some 0 = Some n" for n
    using that demo_find [of 0] by (simp add: timer_irq_def legacy_timer_def demo_timers_def demo_timer_def demo_hpet_def irq_to_gsi_def demo_ioapics_def)
  have ac: "delivery_mode ?ac = HpetInterrupt 0xFFFF800000001000 HpetEdgeTriggered" by simp
  from hpet_configure_correct [OF demo_device ok wf delta target ac idt refl line serve, of HpetOneShot "\<lambda>d a v. d(a := v)" demo_cpu]
  obtain tr config d g where "tracker_taken tr = insert (Id 0) (tracker_taken (ia_irq_allocator (ts_ioapics ?s)))"
    and r: "hpet_timer_configure (\<lambda>d a. d a) (\<lambda>d a v. d(a := v)) demo_rd demo_wr demo_cpu ?s demo_timer 1000 HpetOneShot ?ac = Some (Ok 100,
              ?s \<lparr> ts_ioapics := ts_ioapics ?s \<lparr> ia_irq_allocator := tr, ia_dev := d \<rparr>, ts_idt := (ts_idt ?s)[0 := g],
                  ts_dev := timer_writes (\<lambda>d a v. d(a := v)) demo_timer HpetOneShot config 105 100 (ts_dev ?s) \<rparr>)"
    by (simp only: HpetTimerMode.distinct simp_thms if_False option.case) blast
  then have taken: "tracker_taken tr = {Id 0}" using irqs(3) by (simp add: demo_timers_def)
  show ?thesis
    by (intro exI [of _ irqs] exI conjI, rule r) (simp_all add: taken timer_writes_def demo_timer_def mmio_new_def)
qed

text \<open>Legacy timers are recorded under their IRQ, all others under their global system interrupt, in the same
  allocator.  With the usual override of IRQ 0 to interrupt 2, timer 0 takes line 0 and a later timer that may use interrupt 2 takes line 2,
  and both are registered for IRQ 0: the second handler replaces the first.\<close>

lemma timers_share_irq:
  assumes "Id 0 \<in> free" and "Id 2 \<in> free" and "find (\<lambda>v. ov_gsi v = 2) ovs = Some v" and "ov_irq v = 0"
    and "bf_get TimerConfiguration_layout ''int_route_cap'' config = 4"
  shows "timer_line LegacyRouting (Id 0) config' free = Some 0" and "timer_irq LegacyRouting (Id 0) ovs 0 = 0"
    and "timer_line LegacyRouting (Id 2) config (free - {Id 0}) = Some 2" and "timer_irq LegacyRouting (Id 2) ovs 2 = 0"
proof -
  have "[0..<32] = [0, 1] @ 2 # [3..<32 :: nat]" by (simp add: upt_conv_Cons)
  moreover have "\<not> bit (4 :: u64) 0" "\<not> bit (4 :: u64) 1" "bit (4 :: u64) 2" by simp_all
  ultimately show "timer_line LegacyRouting (Id 2) config (free - {Id 0}) = Some 2"
    using assms(2,5) by (simp add: timer_line_def legacy_timer_def del: upt_Suc)
qed (use assms in \<open>simp_all add: timer_line_def timer_irq_def legacy_timer_def gsi_to_irq_def\<close>)

subsection \<open>Ownership of the timers\<close>

text \<open>The life of the HPET and its timers.  It is initialised; timers are taken, configured and disabled; a timer that
  lives in a \<open>SpinLock\<close> runs \<open>custom_unlock\<close> whenever a guard of it is dropped and lives on
  (\<open>spinlock.rs\<close>); and a timer that is dropped changes nothing, since \<open>HpetTimer\<close> has no \<open>Drop\<close>.  The state carries the
  timers that are alive, and whether a guard of a timer has ever been dropped.\<close>

inductive timers_run :: "'h mmio_rd64 \<Rightarrow> 'h mmio_wr64 \<Rightarrow> 'd mmio_rd \<Rightarrow> 'd mmio_wr \<Rightarrow> ('h, 'd) TimerSystem \<Rightarrow> HpetTimer list \<Rightarrow> bool \<Rightarrow> bool"
  for hrd hwr rd wr where
  init: "hpet_init hrd hwr s base tick mode = Some s' \<Longrightarrow> timers_run hrd hwr rd wr s' [] False"
| take: "timers_run hrd hwr rd wr s ts g \<Longrightarrow> hpet_timer_new hrd s = Some (Ok t, s') \<Longrightarrow> timers_run hrd hwr rd wr s' (t # ts) g"
| refused: "timers_run hrd hwr rd wr s ts g \<Longrightarrow> hpet_timer_new hrd s = Some (Err e, s') \<Longrightarrow> timers_run hrd hwr rd wr s' ts g"
| configure: "timers_run hrd hwr rd wr s ts g \<Longrightarrow> t \<in> set ts \<Longrightarrow> hpet_timer_configure hrd hwr rd wr c s t time mode ac = Some (r, s')
    \<Longrightarrow> timers_run hrd hwr rd wr s' ts g"
| disable: "timers_run hrd hwr rd wr s ts g \<Longrightarrow> t \<in> set ts \<Longrightarrow> hpet_timer_set_disabled hrd hwr (ts_dev s) t b = Some d
    \<Longrightarrow> timers_run hrd hwr rd wr (s \<lparr> ts_dev := d \<rparr>) ts g"
| unlock: "timers_run hrd hwr rd wr s ts g \<Longrightarrow> t \<in> set ts \<Longrightarrow> hpet_timer_custom_unlock hrd hwr s t = Some s'
    \<Longrightarrow> timers_run hrd hwr rd wr s' ts True"
| discard: "timers_run hrd hwr rd wr s (ts @ t # us) g \<Longrightarrow> timers_run hrd hwr rd wr s (ts @ us) g"

text \<open>What always holds of the identifiers, and what holds until a guard is dropped: the live timers have identifiers of
  their own, recorded as taken, and the identifiers are handed out from 0 upwards.\<close>

definition timers_inv :: "Hpet \<Rightarrow> HpetTimer list \<Rightarrow> bool" where
  "timers_inv h ts \<longleftrightarrow> tracker_wf (timer_ids h) \<and> tracker_pool (timer_ids h) \<subseteq> {Id 0..Id 31}
     \<and> (\<forall>t \<in> set ts. ht_area t = hp_area h \<and> ht_id t \<in> tracker_pool (timer_ids h))"

definition timers_own :: "Hpet \<Rightarrow> HpetTimer list \<Rightarrow> bool" where
  "timers_own h ts \<longleftrightarrow> distinct (map ht_id ts) \<and> set (map ht_id ts) \<subseteq> tracker_taken (timer_ids h)
     \<and> (\<forall>i \<in> tracker_taken (timer_ids h). \<forall>j \<in> tracker_pool (timer_ids h). j \<le> i \<longrightarrow> j \<in> tracker_taken (timer_ids h))"

lemma num_tim_bound: "unat (bf_get GeneralCapabilities_layout ''num_tim_cap'' w) < 32" for w :: u64
proof -
  have "field_at GeneralCapabilities_layout ''num_tim_cap'' 0 = Some (8, 5)" by (simp add: GeneralCapabilities_layout_def)
  then show ?thesis using take_bit_nat_less_exp [of 5 "unat (drop_bit 8 w)"] by (simp add: bf_get_def unsigned_take_bit_eq)
qed

lemma hpet_new_ok:
  assumes "hpet_new hrd d base tick mode = Some h"
  shows "timers_inv h [] \<and> tracker_taken (timer_ids h) = {} \<and> tracker_pool (timer_ids h) = {Id 0..Id (unat (bf_get GeneralCapabilities_layout ''num_tim_cap''
    (mmio_read hrd d (mmio_new base) GENERAL_CAPABILITIES)))}"
proof -
  let ?n = "unat (bf_get GeneralCapabilities_layout ''num_tim_cap'' (mmio_read hrd d (mmio_new base) GENERAL_CAPABILITIES))"
  from assms obtain ids where ids: "id_tracker_new (Id 0) (Id ?n) = Some ids" and "timer_ids h = ids"
    by (auto simp: hpet_new_def Let_def split: Option.bind_splits)
  moreover have "?n < 32" by (rule num_tim_bound)
  moreover from this have "\<exists>t. id_tracker_new (Id 0) (Id ?n) = Some t \<and> tracker_wf t \<and> tracker_pool t = {Id 0..Id ?n} \<and> tracker_taken t = {}"
    by (intro id_tracker_new_spec) (simp_all add: USIZE_LIM_def)
  ultimately have "tracker_wf ids" "tracker_pool ids = {Id 0..Id ?n}" "tracker_taken ids = {}" "timer_ids h = ids" by simp_all
  then show ?thesis using \<open>?n < 32\<close> by (auto simp: timers_inv_def Id_order)
qed

lemma hpet_timer_new_spec:
  assumes ok: "timers_inv (ts_hpet s) ts"
  defines "pool \<equiv> tracker_pool (timer_ids (ts_hpet s))" and "taken \<equiv> tracker_taken (timer_ids (ts_hpet s))"
  shows "if pool \<subseteq> taken
    then \<exists>s'. hpet_timer_new hrd s = Some (Err NoTimerAvailable, s') \<and> timers_inv (ts_hpet s') ts
      \<and> tracker_pool (timer_ids (ts_hpet s')) = pool \<and> tracker_taken (timer_ids (ts_hpet s')) = taken
    else \<exists>t s'. hpet_timer_new hrd s = Some (Ok t, s') \<and> timers_inv (ts_hpet s') (t # ts) \<and> ht_id t \<in> pool - taken
      \<and> (\<forall>i \<in> pool - taken. ht_id t \<le> i) \<and> ht_area t = hp_area (ts_hpet s)
      \<and> tracker_pool (timer_ids (ts_hpet s')) = pool \<and> tracker_taken (timer_ids (ts_hpet s')) = insert (ht_id t) taken"
proof -
  let ?ids = "timer_ids (ts_hpet s)"
  have wf: "tracker_wf ?ids" using ok by (simp add: timers_inv_def)
  obtain r ids where a: "id_tracker_allocate ?ids = Some (r, ids)" "tracker_wf ids" "tracker_pool ids = tracker_pool ?ids"
    "spec_allocate (tracker_pool ?ids) (tracker_taken ?ids) r (tracker_taken ids)" using id_tracker_allocate_spec [OF wf] by blast
  show ?thesis
  proof (cases "pool \<subseteq> taken")
    case True
    with a(4) have "r = Err OutOfIds" "tracker_taken ids = taken" by (simp_all add: spec_allocate_def pool_def taken_def)
    with a(1-3) ok True show ?thesis by (simp add: hpet_timer_new_def timers_inv_def pool_def)
  next
    case False
    with a(4) obtain x where "r = Ok x" "x \<in> pool - taken" "tracker_taken ids = insert x taken" "\<forall>i \<in> pool - taken. x \<le> i"
      by (auto simp: spec_allocate_def pool_def taken_def)
    with a(1-3) ok False show ?thesis by (simp add: hpet_timer_new_def timers_inv_def pool_def mmio_new_def Let_def)
  qed
qed

lemma hpet_timer_set_disabled_ok: "\<exists>d'. hpet_timer_set_disabled hrd hwr d t b = Some d'"
proof -
  obtain w where "bf_set TimerConfiguration_layout ''int_enable'' (if \<not> b then 1 else 0) (mmio_read hrd d (ht_area t) (config_reg_offset t)) = Some w"
    by (rule timer_field [OF _ flag_values_fit(1), of "''int_enable''" "\<not> b"]) (simp, rule that)
  then show ?thesis by (simp add: hpet_timer_set_disabled_def)
qed

lemma custom_unlock_spec:
  assumes ok: "timers_inv (ts_hpet s) ts" and t: "t \<in> set ts"
  defines "ids \<equiv> timer_ids (ts_hpet s)"
  shows "if ht_id t \<in> tracker_taken ids
    then \<exists>s'. hpet_timer_custom_unlock hrd hwr s t = Some s' \<and> timers_inv (ts_hpet s') ts \<and> hp_area (ts_hpet s') = hp_area (ts_hpet s)
      \<and> tracker_pool (timer_ids (ts_hpet s')) = tracker_pool ids \<and> tracker_taken (timer_ids (ts_hpet s')) = tracker_taken ids - {ht_id t}
    else hpet_timer_custom_unlock hrd hwr s t = None"
proof -
  have wf: "tracker_wf ids" and p: "ht_id t \<in> tracker_pool ids" using ok t by (simp_all add: timers_inv_def ids_def)
  obtain r ids' where a: "id_tracker_free ids (ht_id t) = Some (r, ids')" "tracker_wf ids'" "tracker_pool ids' = tracker_pool ids"
    "(r, tracker_taken ids') = spec_free (tracker_pool ids) (tracker_taken ids) (ht_id t)" using id_tracker_free_spec [OF wf] by blast
  obtain d where d: "hpet_timer_set_disabled hrd hwr (ts_dev s) t True = Some d" using hpet_timer_set_disabled_ok [of hrd hwr "ts_dev s" t True] by blast
  show ?thesis
  proof (cases "ht_id t \<in> tracker_taken ids")
    case True
    with a(4) p have r: "r = Ok ()" "tracker_taken ids' = tracker_taken ids - {ht_id t}" by (simp_all add: spec_free_def)
    with a(1) d have "hpet_timer_custom_unlock hrd hwr s t = Some (s \<lparr> ts_dev := d, ts_hpet := ts_hpet s \<lparr> timer_ids := ids' \<rparr> \<rparr>)"
      by (simp add: hpet_timer_custom_unlock_def ids_def)
    with True r(2) a(2,3) ok show ?thesis by (auto simp: timers_inv_def ids_def)
  next
    case False
    with a(4) p have "r = Err IdAlreadyFree" by (simp add: spec_free_def)
    with a(1) d False show ?thesis by (simp add: hpet_timer_custom_unlock_def ids_def)
  qed
qed

lemma config_delivery_keeps: "config_delivery_mode hwr rd wr c s t w m = Some (r, s') \<Longrightarrow> ts_hpet s' = ts_hpet s"
  by (auto simp: config_delivery_mode_def Let_def split: HpetDeliveryMode.splits if_splits Option.bind_splits sum.splits prod.splits)

lemma configure_keeps:
  assumes "hpet_timer_configure hrd hwr rd wr c s t time mode ac = Some (r, s')"
  shows "ts_hpet s' = ts_hpet s"
  using assms unfolding hpet_timer_configure_def Let_def
  by (auto dest!: config_delivery_keeps split: if_splits Option.bind_splits sum.splits HpetTimerMode.splits)

lemma timers_inv_sub: "timers_inv h ts \<Longrightarrow> set us \<subseteq> set ts \<Longrightarrow> timers_inv h us"
  by (auto simp: timers_inv_def)

lemma timers_run_inv: "timers_run hrd hwr rd wr s ts g \<Longrightarrow> timers_inv (ts_hpet s) ts \<and> (\<not> g \<longrightarrow> timers_own (ts_hpet s) ts)"
proof (induction rule: timers_run.induct)
  case (init s base tick mode s')
  then obtain h d where h: "hpet_new hrd (ts_dev s) base tick mode = Some h" "s' = s \<lparr> ts_hpet := h, ts_dev := d \<rparr>"
    by (auto simp: hpet_init_def Let_def split: Option.bind_splits)
  with hpet_new_ok [OF h(1)] show ?case by (simp add: timers_own_def)
next
  case (take s ts g t s')
  then have inv: "timers_inv (ts_hpet s) ts" by simp
  from hpet_timer_new_spec [OF inv, of hrd] take have
    n: "timers_inv (ts_hpet s') (t # ts)" "ht_id t \<in> tracker_pool (timer_ids (ts_hpet s)) - tracker_taken (timer_ids (ts_hpet s))"
      "\<forall>i \<in> tracker_pool (timer_ids (ts_hpet s)) - tracker_taken (timer_ids (ts_hpet s)). ht_id t \<le> i"
      "tracker_pool (timer_ids (ts_hpet s')) = tracker_pool (timer_ids (ts_hpet s))"
      "tracker_taken (timer_ids (ts_hpet s')) = insert (ht_id t) (tracker_taken (timer_ids (ts_hpet s)))"
    by (simp_all split: if_splits)
  have "timers_own (ts_hpet s') (t # ts)" if "\<not> g"
    using take.IH that n(2-) unfolding timers_own_def
    by (auto dest: order_antisym)
  with n(1) show ?case by simp
next
  case (refused s ts g e s')
  then show ?case using hpet_timer_new_spec [of s ts hrd] by (auto simp: timers_own_def split: if_splits)
next
  case (unlock s ts g t s')
  then show ?case using custom_unlock_spec [of s ts t hrd hwr] by (auto split: if_splits)
next
  case (discard s ts t us g)
  then show ?case by (auto intro: timers_inv_sub simp: timers_own_def)
qed (auto dest: configure_keeps)

lemma timer_registers_apart:
  assumes "ht_area t = ht_area u" and "ht_id t \<noteq> ht_id u"
  shows "mmio_base (ht_area t) + config_reg_offset t + 0x20 \<le> mmio_base (ht_area u) + config_reg_offset u
       \<or> mmio_base (ht_area u) + config_reg_offset u + 0x20 \<le> mmio_base (ht_area t) + config_reg_offset t"
proof -
  from assms(2) have "id_val (ht_id t) < id_val (ht_id u) \<or> id_val (ht_id u) < id_val (ht_id t)" by (metis Id.expand linorder_neqE_nat)
  with assms(1) show ?thesis by (auto simp: config_reg_offset_def)
qed

text \<open>The first dropped guard: the next timer is the one that was unlocked.\<close>

lemma unlock_then_new:
  assumes inv: "timers_inv (ts_hpet s) ts" and own: "timers_own (ts_hpet s) ts" and t: "t \<in> set ts"
  shows "\<exists>s1 u s2 s3. hpet_timer_custom_unlock hrd hwr s t = Some s1 \<and> hpet_timer_new hrd s1 = Some (Ok u, s2)
    \<and> ht_id u = ht_id t \<and> ht_area u = ht_area t
    \<and> hpet_timer_custom_unlock hrd hwr s2 t = Some s3 \<and> ht_id u \<notin> tracker_taken (timer_ids (ts_hpet s3))"
proof -
  let ?p = "tracker_pool (timer_ids (ts_hpet s))" and ?t = "tracker_taken (timer_ids (ts_hpet s))"
  have tt: "ht_id t \<in> ?t" "ht_id t \<in> ?p" "ht_area t = hp_area (ts_hpet s)" using own inv t by (auto simp: timers_own_def timers_inv_def)
  from custom_unlock_spec [OF inv t, of hrd hwr] tt(1) obtain s1 where
    s1: "hpet_timer_custom_unlock hrd hwr s t = Some s1" "timers_inv (ts_hpet s1) ts" "hp_area (ts_hpet s1) = hp_area (ts_hpet s)"
      "tracker_pool (timer_ids (ts_hpet s1)) = ?p" "tracker_taken (timer_ids (ts_hpet s1)) = ?t - {ht_id t}" by auto
  have "\<not> ?p \<subseteq> ?t - {ht_id t}" using tt(2) by auto
  with hpet_timer_new_spec [OF s1(2), of hrd] s1 obtain u s2 where
    u: "hpet_timer_new hrd s1 = Some (Ok u, s2)" "timers_inv (ts_hpet s2) (u # ts)" "ht_id u \<in> ?p - (?t - {ht_id t})"
      "\<forall>i \<in> ?p - (?t - {ht_id t}). ht_id u \<le> i" "ht_area u = hp_area (ts_hpet s)"
      "tracker_taken (timer_ids (ts_hpet s2)) = insert (ht_id u) (?t - {ht_id t})" by auto
  from u(4) tt have "ht_id u \<le> ht_id t" by auto
  with own u(3) tt(1) have eq: "ht_id u = ht_id t" by (auto simp: timers_own_def)
  from t have "t \<in> set (u # ts)" by simp
  from custom_unlock_spec [OF u(2) this, of hrd hwr] u(6) eq obtain s3 where
    "hpet_timer_custom_unlock hrd hwr s2 t = Some s3" "ht_id u \<notin> tracker_taken (timer_ids (ts_hpet s3))" by auto
  with s1(1) u(1,5) eq tt(3) show ?thesis by auto
qed

text \<open>C22: In every run of the HPET - timers are taken, configured, disabled, unlocked and dropped in any order - the identifiers of
  the live timers belong to the HPET and are below 32, and taking a timer never panics: it gives a timer whose identifier was recorded as free, or fails when
  all are recorded as taken.  As long as no lock guard of a timer has been dropped, the live timers have distinct identifiers, all recorded as
  taken, so that no two of them share a register; disabling one never panics.  The first dropped guard ends this: \<open>custom_unlock\<close> returns the
  identifier although the timer lives on, the very next timer gets the same identifier and with it the same
  registers, and when a guard of the first is dropped again, the identifier of the second is returned.\<close>

theorem timers_exclusive:
  assumes "timers_run hrd hwr rd wr s ts g"
  shows "timers_inv (ts_hpet s) ts
    \<and> (if tracker_pool (timer_ids (ts_hpet s)) \<subseteq> tracker_taken (timer_ids (ts_hpet s))
       then \<exists>s'. hpet_timer_new hrd s = Some (Err NoTimerAvailable, s')
       else \<exists>t s'. hpet_timer_new hrd s = Some (Ok t, s') \<and> ht_id t \<notin> tracker_taken (timer_ids (ts_hpet s)))
    \<and> (\<not> g \<longrightarrow> distinct (map ht_id ts) \<and> set (map ht_id ts) \<subseteq> tracker_taken (timer_ids (ts_hpet s))
        \<and> (\<forall>t \<in> set ts. \<forall>u \<in> set ts. t \<noteq> u \<longrightarrow>
             mmio_base (ht_area t) + config_reg_offset t + 0x20 \<le> mmio_base (ht_area u) + config_reg_offset u
           \<or> mmio_base (ht_area u) + config_reg_offset u + 0x20 \<le> mmio_base (ht_area t) + config_reg_offset t)
        \<and> (\<forall>t \<in> set ts. hpet_timer_set_disabled hrd hwr (ts_dev s) t b \<noteq> None
            \<and> (\<exists>s1 u s2 s3. hpet_timer_custom_unlock hrd hwr s t = Some s1 \<and> hpet_timer_new hrd s1 = Some (Ok u, s2)
                \<and> ht_id u = ht_id t \<and> ht_area u = ht_area t
                \<and> hpet_timer_custom_unlock hrd hwr s2 t = Some s3 \<and> ht_id u \<notin> tracker_taken (timer_ids (ts_hpet s3)))))"
proof -
  from timers_run_inv [OF assms] have inv: "timers_inv (ts_hpet s) ts" and own: "\<not> g \<Longrightarrow> timers_own (ts_hpet s) ts" by blast+
  have new: "if tracker_pool (timer_ids (ts_hpet s)) \<subseteq> tracker_taken (timer_ids (ts_hpet s))
       then \<exists>s'. hpet_timer_new hrd s = Some (Err NoTimerAvailable, s')
       else \<exists>t s'. hpet_timer_new hrd s = Some (Ok t, s') \<and> ht_id t \<notin> tracker_taken (timer_ids (ts_hpet s))"
    using hpet_timer_new_spec [OF inv, of hrd] by (auto split: if_splits)
  have dis: "hpet_timer_set_disabled hrd hwr (ts_dev s) t b \<noteq> None" for t
    using hpet_timer_set_disabled_ok [of hrd hwr "ts_dev s" t b] by blast
  have apart: "mmio_base (ht_area t) + config_reg_offset t + 0x20 \<le> mmio_base (ht_area u) + config_reg_offset u
         \<or> mmio_base (ht_area u) + config_reg_offset u + 0x20 \<le> mmio_base (ht_area t) + config_reg_offset t"
    if "\<not> g" "t \<in> set ts" "u \<in> set ts" "t \<noteq> u" for t u
    by (rule timer_registers_apart) (use that own inv in \<open>auto simp: timers_inv_def timers_own_def distinct_map inj_on_def\<close>)
  have "distinct (map ht_id ts) \<and> set (map ht_id ts) \<subseteq> tracker_taken (timer_ids (ts_hpet s))" if "\<not> g"
    using own [OF that] by (simp add: timers_own_def)
  with inv new dis apart unlock_then_new [OF inv own] show ?thesis by blast
qed

text \<open>Two timers of an HPET with three; the first is then unlocked and taken a second time.\<close>

theorem timers_exclusive_witness:
  "\<exists>s t u. timers_run (\<lambda>d a. d a) (\<lambda>d a v. d(a := v)) demo_rd demo_wr (s :: (usize \<Rightarrow> u64, demo_ioapic) TimerSystem) [u, t] False \<and> ht_id t \<noteq> ht_id u
    \<and> (\<exists>s' v. timers_run (\<lambda>d a. d a) (\<lambda>d a v. d(a := v)) demo_rd demo_wr s' [v, u, t] True \<and> ht_id v = ht_id t)"
proof -
  let ?hrd = "\<lambda>d a. d a :: u64" and ?hwr = "\<lambda>d a v. d(a := v) :: usize \<Rightarrow> u64"
  define s0 :: "(usize \<Rightarrow> u64, demo_ioapic) TimerSystem" where
    "s0 = demo_timers id_tracker_uninit \<lparr> ts_dev := (\<lambda>a. if a = 0 then 0x009896808086A201 else 0) \<rparr>"
  have cap: "mmio_read ?hrd (ts_dev s0) (mmio_new 0) GENERAL_CAPABILITIES = 0x009896808086A201"
    by (simp add: s0_def mmio_read_def mmio_new_def GENERAL_CAPABILITIES_def)
  obtain h where h: "hpet_new ?hrd (ts_dev s0) 0 0 NormalRouting = Some h"
    using id_tracker_new_spec [of "Id 0" "Id 2"]
    by (auto simp: hpet_new_def Let_def cap bf_get_def GeneralCapabilities_layout_def MAX_TIMER_AMOUNT_def USIZE_LIM_def)
  have "hpet_set_disabled ?hrd ?hwr d h b \<noteq> None" "set_interrupt_routing ?hrd ?hwr d h NormalRouting \<noteq> None" for d b
    by (simp_all add: hpet_set_disabled_def set_interrupt_routing_def bf_set_def GeneralConfiguration_layout_def)
  then obtain d1 d2 d3 where "hpet_set_disabled ?hrd ?hwr (ts_dev s0) h True = Some d1" "set_interrupt_routing ?hrd ?hwr d1 h NormalRouting = Some d2"
    "hpet_set_disabled ?hrd ?hwr (mmio_write ?hwr d2 (hp_area h) MAIN_COUNTER_VALUE 0) h False = Some d3" by (meson not_None_eq)
  with h have s1: "hpet_init ?hrd ?hwr s0 0 0 NormalRouting = Some (s0 \<lparr> ts_hpet := h, ts_dev := d3 \<rparr>)" (is "_ = Some ?s1")
    by (simp add: hpet_init_def)
  have h0: "tracker_pool (timer_ids h) = {Id 0..Id 2}" "tracker_taken (timer_ids h) = {}"
    using hpet_new_ok [OF h] by (simp_all add: cap bf_get_def GeneralCapabilities_layout_def)
  have run1: "timers_run ?hrd ?hwr demo_rd demo_wr ?s1 [] False" by (rule timers_run.init [OF s1])
  have "timers_inv (ts_hpet ?s1) []" using timers_exclusive [OF run1, of True] by blast
  from hpet_timer_new_spec [OF this, of ?hrd] h0 obtain t s2 where t: "hpet_timer_new ?hrd ?s1 = Some (Ok t, s2)"
    "tracker_pool (timer_ids (ts_hpet s2)) = {Id 0..Id 2}" "tracker_taken (timer_ids (ts_hpet s2)) = {ht_id t}"
    by (auto simp: Id_order split: if_splits)
  have run2: "timers_run ?hrd ?hwr demo_rd demo_wr s2 [t] False" by (rule timers_run.take [OF run1 t(1)])
  have "Id 0 \<in> {Id 0..Id 2}" "Id 1 \<in> {Id 0..Id 2}" by (simp_all add: Id_order)
  then have "\<not> {Id 0..Id 2} \<subseteq> {ht_id t}" by (metis Id.inject singletonD subsetD zero_neq_one)
  with timers_exclusive [OF run2, of True] t(2,3) obtain u s3 where u: "hpet_timer_new ?hrd s2 = Some (Ok u, s3)" "ht_id u \<noteq> ht_id t"
    by (auto split: if_splits)
  have run3: "timers_run ?hrd ?hwr demo_rd demo_wr s3 [u, t] False" by (rule timers_run.take [OF run2 u(1)])
  with timers_exclusive [OF run3, of True] obtain s4 v s5 where
    v: "hpet_timer_custom_unlock ?hrd ?hwr s3 t = Some s4" "hpet_timer_new ?hrd s4 = Some (Ok v, s5)" "ht_id v = ht_id t" by auto
  have "timers_run ?hrd ?hwr demo_rd demo_wr s4 [u, t] True" by (rule timers_run.unlock [OF run3 _ v(1)]) simp
  then have "timers_run ?hrd ?hwr demo_rd demo_wr s5 [v, u, t] True" by (rule timers_run.take [OF _ v(2)])
  with run3 u(2) v(3) show ?thesis by metis
qed

end
