(* ===== verification/Lapic.thy ===== *)
theory Lapic
  imports Apic Cpu Paging_Manager
begin

text \<open>
  \<open>kernel/src/arch/x86_64/apic/lapic.rs\<close>: the local APICs.  As for the I/O APIC, \<open>rd\<close> and \<open>wr\<close> are the
  memory-mapped accesses to the device.
\<close>

subsection \<open>Registers\<close>

datatype WriteableRegs =
    W_Id | W_TaskPriority | W_EndOfInterrupt | W_LogicalDestination | W_DestinationFormat |
    W_SpuriousInterruptVector | W_ErrorStatus | W_LvtCmci | W_InterruptCommand0 |
    W_InterruptCommand1 | W_LvtTimer | W_LvtThermal | W_LvtPerformance | W_LvtLint0 | W_LvtLint1 |
    W_LvtError | W_TimerInitialCount | W_TimerDivideConfig

fun writeable_offset :: "WriteableRegs \<Rightarrow> usize" where
  "writeable_offset W_Id = 0x20"
| "writeable_offset W_TaskPriority = 0x80"
| "writeable_offset W_EndOfInterrupt = 0xB0"
| "writeable_offset W_LogicalDestination = 0xD0"
| "writeable_offset W_DestinationFormat = 0xE0"
| "writeable_offset W_SpuriousInterruptVector = 0xF0"
| "writeable_offset W_ErrorStatus = 0x280"
| "writeable_offset W_LvtCmci = 0x2F0"
| "writeable_offset W_InterruptCommand0 = 0x300"
| "writeable_offset W_InterruptCommand1 = 0x310"
| "writeable_offset W_LvtTimer = 0x320"
| "writeable_offset W_LvtThermal = 0x330"
| "writeable_offset W_LvtPerformance = 0x340"
| "writeable_offset W_LvtLint0 = 0x350"
| "writeable_offset W_LvtLint1 = 0x360"
| "writeable_offset W_LvtError = 0x370"
| "writeable_offset W_TimerInitialCount = 0x380"
| "writeable_offset W_TimerDivideConfig = 0x3E0"

datatype ReadableRegs =
    R_Id | R_Version | R_TaskPriority | R_ArbitrationPriority | R_ProcessorPriority | R_RemoteRead |
    R_LogicalDestination | R_DestinationFormat | R_SpuriousInterruptVector | R_InService0 |
    R_InService1 | R_InService2 | R_InService3 | R_InService4 | R_InService5 | R_InService6 |
    R_InService7 | R_TriggerMode0 | R_TriggerMode1 | R_TriggerMode2 | R_TriggerMode3 |
    R_TriggerMode4 | R_TriggerMode5 | R_TriggerMode6 | R_TriggerMode7 | R_InterruptRequest0 |
    R_InterruptRequest1 | R_InterruptRequest2 | R_InterruptRequest3 | R_InterruptRequest4 |
    R_InterruptRequest5 | R_InterruptRequest6 | R_InterruptRequest7 | R_ErrorStatus | R_LvtCmci |
    R_InterruptCommand0 | R_InterruptCommand1 | R_LvtTimer | R_LvtThermal | R_LvtPerformance |
    R_LvtLint0 | R_LvtLint1 | R_LvtError | R_TimerInitialCount | R_TimerCurrentCount |
    R_TimerDivideConfig

fun readable_offset :: "ReadableRegs \<Rightarrow> usize" where
  "readable_offset R_Id = 0x20"
| "readable_offset R_Version = 0x30"
| "readable_offset R_TaskPriority = 0x80"
| "readable_offset R_ArbitrationPriority = 0x90"
| "readable_offset R_ProcessorPriority = 0xA0"
| "readable_offset R_RemoteRead = 0xC0"
| "readable_offset R_LogicalDestination = 0xD0"
| "readable_offset R_DestinationFormat = 0xE0"
| "readable_offset R_SpuriousInterruptVector = 0xF0"
| "readable_offset R_InService0 = 0x100"
| "readable_offset R_InService1 = 0x110"
| "readable_offset R_InService2 = 0x120"
| "readable_offset R_InService3 = 0x130"
| "readable_offset R_InService4 = 0x140"
| "readable_offset R_InService5 = 0x150"
| "readable_offset R_InService6 = 0x160"
| "readable_offset R_InService7 = 0x170"
| "readable_offset R_TriggerMode0 = 0x180"
| "readable_offset R_TriggerMode1 = 0x190"
| "readable_offset R_TriggerMode2 = 0x1A0"
| "readable_offset R_TriggerMode3 = 0x1B0"
| "readable_offset R_TriggerMode4 = 0x1C0"
| "readable_offset R_TriggerMode5 = 0x1D0"
| "readable_offset R_TriggerMode6 = 0x1E0"
| "readable_offset R_TriggerMode7 = 0x1F0"
| "readable_offset R_InterruptRequest0 = 0x200"
| "readable_offset R_InterruptRequest1 = 0x210"
| "readable_offset R_InterruptRequest2 = 0x220"
| "readable_offset R_InterruptRequest3 = 0x230"
| "readable_offset R_InterruptRequest4 = 0x240"
| "readable_offset R_InterruptRequest5 = 0x250"
| "readable_offset R_InterruptRequest6 = 0x260"
| "readable_offset R_InterruptRequest7 = 0x270"
| "readable_offset R_ErrorStatus = 0x280"
| "readable_offset R_LvtCmci = 0x2F0"
| "readable_offset R_InterruptCommand0 = 0x300"
| "readable_offset R_InterruptCommand1 = 0x310"
| "readable_offset R_LvtTimer = 0x320"
| "readable_offset R_LvtThermal = 0x330"
| "readable_offset R_LvtPerformance = 0x340"
| "readable_offset R_LvtLint0 = 0x350"
| "readable_offset R_LvtLint1 = 0x360"
| "readable_offset R_LvtError = 0x370"
| "readable_offset R_TimerInitialCount = 0x380"
| "readable_offset R_TimerCurrentCount = 0x390"
| "readable_offset R_TimerDivideConfig = 0x3E0"

datatype TimerDivisor = Div2 | Div4 | Div8 | Div16 | Div32 | Div64 | Div128 | Div1

fun timer_divisor_value :: "TimerDivisor \<Rightarrow> u8" where
  "timer_divisor_value Div2 = 0"
| "timer_divisor_value Div4 = 1"
| "timer_divisor_value Div8 = 2"
| "timer_divisor_value Div16 = 3"
| "timer_divisor_value Div32 = 4"
| "timer_divisor_value Div64 = 5"
| "timer_divisor_value Div128 = 6"
| "timer_divisor_value Div1 = 7"

datatype TimerMode = OneShot | Periodic | Tsc | TimerReserved

fun timer_mode_value :: "TimerMode \<Rightarrow> u16" where
  "timer_mode_value OneShot = 0"
| "timer_mode_value Periodic = 1"
| "timer_mode_value Tsc = 2"
| "timer_mode_value TimerReserved = 3"

datatype ApicFlags = ApicEnabled | OnlineCapable

definition apic_flags_try_from :: "u32 \<Rightarrow> unit + ApicFlags" where
  "apic_flags_try_from v = (if v = 0 then Ok ApicEnabled else if v = 1 then Ok OnlineCapable else Err ())"

datatype DeliveryStatus = Idle | SendPending

definition LvtReg_layout :: bit_layout where
  "LvtReg_layout = [(''vector'', 8), (''delivery_mode'', 3), (''reserved'', 1), (''delivery_status'', 1),
     (''pin_polarity'', 1), (''remote_irr'', 1), (''trigger_mode'', 1), (''mask'', 1),
     (''reserved2'', 15)]"

record LocalApic =
  la_area :: MmioArea
  acpi_processor_id :: u32
  la_apic_id :: u32

type_synonym 'd mmio_rd32 = "'d \<Rightarrow> usize \<Rightarrow> u32"
type_synonym 'd mmio_wr32 = "'d \<Rightarrow> usize \<Rightarrow> u32 \<Rightarrow> 'd"

definition lapic_read :: "'d mmio_rd32 \<Rightarrow> 'd \<Rightarrow> LocalApic \<Rightarrow> ReadableRegs \<Rightarrow> u32" where
  "lapic_read rd d a r = mmio_read rd d (la_area a) (readable_offset r)"

definition lapic_write :: "'d mmio_wr32 \<Rightarrow> 'd \<Rightarrow> LocalApic \<Rightarrow> WriteableRegs \<Rightarrow> u32 \<Rightarrow> 'd" where
  "lapic_write wr d a r v = mmio_write wr d (la_area a) (writeable_offset r) v"

subsection \<open>Operations\<close>

definition lapic_check_support :: "cpuid \<Rightarrow> unit option" where
  "lapic_check_support cpuid = ensure (cpuid_edx (cpuid 1 0) AND push_bit 9 1 \<noteq> 0)"

definition hardware_enable :: "cpuid \<Rightarrow> Cpu \<Rightarrow> Cpu option" where
  "hardware_enable cpuid c = do {
     _ \<leftarrow> lapic_check_support cpuid;
     let v = rdmsr (intel_msr_address Ia32ApicBase) c;
     let v = v \<lparr> msr_low := msr_low v OR push_bit 11 1 \<rparr>;
     Some (wrmsr (intel_msr_address Ia32ApicBase) v c) }"

definition lapic_new :: "cpuid \<Rightarrow> 'd mmio_wr32 \<Rightarrow> Cpu \<Rightarrow> 'd \<Rightarrow> usize \<Rightarrow> u32 \<Rightarrow> u32 \<Rightarrow> (LocalApic \<times> Cpu \<times> 'd) option" where
  "lapic_new cpuid wr c d base processor_id apic_id = do {
     let apic = \<lparr> la_area = mmio_new base, acpi_processor_id = processor_id, la_apic_id = apic_id \<rparr>;
     c \<leftarrow> hardware_enable cpuid c;
     let d = lapic_write wr d apic W_SpuriousInterruptVector 0x1FF;
     let d = lapic_write wr d apic W_TaskPriority 0;
     Some (apic, c, d) }"

text \<open>The two registers of \<open>setup_lvts\<close>, as readable and as writeable registers (the code transmutes one enum
  into the other, whose discriminants agree).\<close>

definition lint_regs :: "u8 \<Rightarrow> ((ReadableRegs \<times> WriteableRegs) \<times> (ReadableRegs \<times> WriteableRegs)) option" where
  "lint_regs nmi_lint =
     (if nmi_lint = 0 then Some ((R_LvtLint0, W_LvtLint0), (R_LvtLint1, W_LvtLint1))
      else if nmi_lint = 1 then Some ((R_LvtLint1, W_LvtLint1), (R_LvtLint0, W_LvtLint0))
      else None)"

definition nmi_lint_entry :: "PinPolarity \<Rightarrow> TriggerMode \<Rightarrow> u32 \<Rightarrow> u32 option" where
  "nmi_lint_entry polarity trigger e = do {
     e \<leftarrow> bf_set LvtReg_layout ''delivery_mode'' (ucast (delivery_mode_value Nmi)) e;
     e \<leftarrow> bf_set LvtReg_layout ''trigger_mode'' (ucast (trigger_mode_value trigger)) e;
     e \<leftarrow> bf_set LvtReg_layout ''pin_polarity'' (ucast (pin_polarity_value polarity)) e;
     bf_set LvtReg_layout ''mask'' 0 e }"

definition ext_int_lint_entry :: "u32 \<Rightarrow> u32 option" where
  "ext_int_lint_entry e = do {
     e \<leftarrow> bf_set LvtReg_layout ''delivery_mode'' (ucast (delivery_mode_value ExtInt)) e;
     e \<leftarrow> bf_set LvtReg_layout ''trigger_mode'' (ucast (trigger_mode_value EdgeTriggered)) e;
     bf_set LvtReg_layout ''mask'' 0 e }"

definition setup_lvts :: "'d mmio_rd32 \<Rightarrow> 'd mmio_wr32 \<Rightarrow> 'd \<Rightarrow> LocalApic \<Rightarrow> u8 \<Rightarrow> PinPolarity \<Rightarrow> TriggerMode \<Rightarrow> 'd option" where
  "setup_lvts rd wr d a nmi_lint polarity trigger = do {
     ((nmi_r, nmi_w), (ext_r, ext_w)) \<leftarrow> lint_regs nmi_lint;
     let nmi = lapic_read rd d a nmi_r;
     let ext = lapic_read rd d a ext_r;
     nmi \<leftarrow> nmi_lint_entry polarity trigger nmi;
     ext \<leftarrow> ext_int_lint_entry ext;
     error \<leftarrow> bf_set LvtReg_layout ''mask'' 0 (lapic_read rd d a R_LvtError);
     let d = lapic_write wr d a nmi_w nmi;
     let d = lapic_write wr d a ext_w ext;
     Some (lapic_write wr d a W_LvtError error) }"

definition read_errors :: "'d mmio_rd32 \<Rightarrow> 'd mmio_wr32 \<Rightarrow> 'd \<Rightarrow> LocalApic \<Rightarrow> u32 \<times> 'd" where
  "read_errors rd wr d a = (let d = lapic_write wr d a W_ErrorStatus 0 in (lapic_read rd d a R_ErrorStatus, d))"

fun timer_divisor_of :: "nat \<Rightarrow> TimerDivisor option" where
  "timer_divisor_of n = find (\<lambda>t. unat (timer_divisor_value t) = n) [Div2, Div4, Div8, Div16, Div32, Div64, Div128, Div1]"

text \<open>\<open>transmute(pow as u8)\<close>: the value is at most 7, so that it is a divisor.\<close>

definition get_timer_divide_config :: "'d mmio_rd32 \<Rightarrow> 'd \<Rightarrow> LocalApic \<Rightarrow> TimerDivisor option" where
  "get_timer_divide_config rd d a =
     (let ret = lapic_read rd d a R_TimerDivideConfig; pow = drop_bit 1 (ret AND 8) OR (ret AND 3)
      in timer_divisor_of (unat (ucast pow :: u8)))"

definition set_timer_divider_config :: "'d mmio_wr32 \<Rightarrow> 'd \<Rightarrow> LocalApic \<Rightarrow> TimerDivisor \<Rightarrow> 'd" where
  "set_timer_divider_config wr d a divider =
     (let v = (ucast (timer_divisor_value divider) AND 3) OR push_bit 1 (ucast (timer_divisor_value divider))
      in lapic_write wr d a W_TimerDivideConfig v)"

definition config_timer :: "'d mmio_rd32 \<Rightarrow> 'd mmio_wr32 \<Rightarrow> 'd \<Rightarrow> LocalApic \<Rightarrow> u32 \<Rightarrow> TimerMode \<Rightarrow> 'd option" where
  "config_timer rd wr d a cycle_count timer_mode = do {
     lvtt \<leftarrow> bf_set LvtReg_layout ''reserved2'' (ucast (timer_mode_value timer_mode)) (lapic_read rd d a R_LvtTimer);
     let d = lapic_write wr d a W_LvtTimer lvtt;
     Some (lapic_write wr d a W_TimerInitialCount cycle_count) }"

definition set_timer_disabled :: "'d mmio_rd32 \<Rightarrow> 'd mmio_wr32 \<Rightarrow> 'd \<Rightarrow> LocalApic \<Rightarrow> bool \<Rightarrow> 'd option" where
  "set_timer_disabled rd wr d a disable = do {
     lvtt \<leftarrow> bf_set LvtReg_layout ''mask'' (if disable then 1 else 0) (lapic_read rd d a R_LvtTimer);
     Some (lapic_write wr d a W_LvtTimer lvtt) }"

definition read_current_timer_count :: "'d mmio_rd32 \<Rightarrow> 'd \<Rightarrow> LocalApic \<Rightarrow> u32" where
  "read_current_timer_count rd d a = lapic_read rd d a R_TimerCurrentCount"

definition read_initial_timer_count :: "'d mmio_rd32 \<Rightarrow> 'd \<Rightarrow> LocalApic \<Rightarrow> u32" where
  "read_initial_timer_count rd d a = lapic_read rd d a R_TimerInitialCount"

definition send_ipi :: "'d mmio_wr32 \<Rightarrow> 'd \<Rightarrow> LocalApic \<Rightarrow> u8 \<Rightarrow> DeliveryMode \<Rightarrow> Destination \<Rightarrow> Level \<Rightarrow> TriggerMode \<Rightarrow> DestinationShorthand \<Rightarrow> 'd" where
  "send_ipi wr d a vector delivery_mode destination level trigger_mode shorthand =
     (let destination = destination_get destination;
          d = lapic_write wr d a W_InterruptCommand1 (push_bit 24 (ucast (snd destination)));
          lower_part_data = ucast vector OR push_bit 8 (ucast (delivery_mode_value delivery_mode))
            OR push_bit 11 (ucast (fst destination)) OR push_bit 14 (ucast (level_value level))
            OR push_bit 15 (ucast (trigger_mode_value trigger_mode))
            OR push_bit 18 (ucast (destination_shorthand_value shorthand))
      in lapic_write wr d a W_InterruptCommand0 lower_part_data)"

definition ipi_status :: "'d mmio_rd32 \<Rightarrow> 'd \<Rightarrow> LocalApic \<Rightarrow> DeliveryStatus" where
  "ipi_status rd d a = (if lapic_read rd d a R_InterruptCommand0 AND push_bit 12 1 = 0 then Idle else SendPending)"

definition signal_eoi :: "'d mmio_wr32 \<Rightarrow> 'd \<Rightarrow> LocalApic \<Rightarrow> 'd" where
  "signal_eoi wr d a = lapic_write wr d a W_EndOfInterrupt 0"

definition get_this_apic_id :: "cpuid \<Rightarrow> u32" where
  "get_this_apic_id cpuid = drop_bit 24 (cpuid_ebx (cpuid 1 0)) AND 0xFF"

definition get_apic :: "LocalApic list \<Rightarrow> u32 \<Rightarrow> LocalApic option" where
  "get_apic lapics apic_id = find (\<lambda>l. la_apic_id l = apic_id) lapics"

text \<open>The handler for the generic interrupt vector, in \<open>event.rs\<close>.\<close>

definition generic_irq_isr :: "cpuid \<Rightarrow> 'd mmio_wr32 \<Rightarrow> 'd \<Rightarrow> LocalApic list \<Rightarrow> 'd option" where
  "generic_irq_isr cpuid wr d lapics = do {
     lapic \<leftarrow> get_apic lapics (get_this_apic_id cpuid);
     Some (signal_eoi wr d lapic) }"

definition lapic_add :: "usize \<Rightarrow> VirtAddr \<Rightarrow> cpuid \<Rightarrow> 'd mmio_wr32 \<Rightarrow> KernelMem \<Rightarrow> Cpu \<Rightarrow> 'd \<Rightarrow> LocalApic list \<Rightarrow> PhysAddr \<Rightarrow> u32 \<Rightarrow> u32 \<Rightarrow> u32
    \<Rightarrow> (KernelMem \<times> Cpu \<times> 'd \<times> LocalApic list) option" where
  "lapic_add hhdm pml cpuid wr k c d lapics base processor_id apic_id flags =
     (if flags AND 1 \<noteq> 1 \<and> flags AND 2 \<noteq> 2 then Some (k, c, d, lapics)
      else do {
        (r, k) \<leftarrow> manager_map_pages hhdm pml k base 1 (set_read_write flags_new True) Size4KB;
        ptr \<leftarrow> unwrap_ok r;
        (apic, c, d) \<leftarrow> lapic_new cpuid wr c d ptr processor_id apic_id;
        Some (k, c, d, lapics @ [apic]) })"

definition ALL_PROCESSORS_ID :: u32 where
  "ALL_PROCESSORS_ID = 0xFF"

text \<open>The two loops of \<open>config_lints\<close>; the flags are decoded anew for every APIC that is configured.\<close>

fun config_lints :: "'d mmio_rd32 \<Rightarrow> 'd mmio_wr32 \<Rightarrow> 'd \<Rightarrow> LocalApic list \<Rightarrow> u32 \<Rightarrow> u8 \<Rightarrow> u16 \<Rightarrow> 'd option" where
  "config_lints rd wr d [] processor_id lint flags = Some d"
| "config_lints rd wr d (a # as) processor_id lint flags =
     (if processor_id = ALL_PROCESSORS_ID \<or> acpi_processor_id a = processor_id then do {
        polarity \<leftarrow> unwrap_ok (pin_polarity_try_from (flags AND 3));
        trigger \<leftarrow> unwrap_ok (trigger_mode_try_from (drop_bit 2 flags AND 3));
        d \<leftarrow> setup_lvts rd wr d a lint polarity trigger;
        config_lints rd wr d as processor_id lint flags }
      else config_lints rd wr d as processor_id lint flags)"

definition override_base :: "LocalApic list \<Rightarrow> usize \<Rightarrow> LocalApic list" where
  "override_base lapics base = map (\<lambda>a. a \<lparr> la_area := mmio_change_base (la_area a) base \<rparr>) lapics"

subsection \<open>Inter-processor interrupts\<close>

lemma mode_values_fit:
  "take_bit 3 (ucast (delivery_mode_value m) :: u32) = ucast (delivery_mode_value m)"
  "take_bit 1 (ucast (trigger_mode_value t) :: u32) = ucast (trigger_mode_value t)"
  "take_bit 1 (ucast (pin_polarity_value p) :: u32) = ucast (pin_polarity_value p)"
  by (cases m; simp) (cases t; simp; fail | cases p; simp)+

text \<open>The fields of the interrupt command register, as the processor's manual has them.\<close>

definition icr_low_fields :: bit_layout where
  "icr_low_fields = [(''vector'', 8), (''delivery_mode'', 3), (''destination_mode'', 1), (''delivery_status'', 1),
     (''reserved'', 1), (''level'', 1), (''trigger_mode'', 1), (''reserved2'', 2), (''shorthand'', 2), (''reserved3'', 12)]"

lemma bf_get_eqI:
  assumes "field_at ly f 0 = Some (k, n)" and "take_bit n v = v" and "\<And>j. j < n \<Longrightarrow> bit w (k + j) = bit v j"
  shows "bf_get ly f w = v"
  using assms bit_take_bit_iff [of n v] by (intro bit_eqI) (auto simp: bit_bf_get)

lemma icr_low_decodes:
  fixes v m x l t h :: u32
  assumes fits: "take_bit 8 v = v" "take_bit 3 m = m" "take_bit 1 x = x" "take_bit 1 l = l" "take_bit 1 t = t" "take_bit 2 h = h"
  defines "w \<equiv> v OR push_bit 8 m OR push_bit 11 x OR push_bit 14 l OR push_bit 15 t OR push_bit 18 h"
  shows "bf_get icr_low_fields ''vector'' w = v" "bf_get icr_low_fields ''delivery_mode'' w = m"
    "bf_get icr_low_fields ''destination_mode'' w = x" "bf_get icr_low_fields ''level'' w = l"
    "bf_get icr_low_fields ''trigger_mode'' w = t" "bf_get icr_low_fields ''shorthand'' w = h"
    "bf_get icr_low_fields ''delivery_status'' w = 0"
proof -
  have nb: "8 \<le> i \<Longrightarrow> \<not> bit v i" "3 \<le> i \<Longrightarrow> \<not> bit m i" "1 \<le> i \<Longrightarrow> \<not> bit x i" "1 \<le> i \<Longrightarrow> \<not> bit l i"
    "1 \<le> i \<Longrightarrow> \<not> bit t i" "2 \<le> i \<Longrightarrow> \<not> bit h i" for i
    using fits by (metis bit_take_bit_iff linorder_not_le)+
  note d = bit_simps nb w_def
  have "field_at icr_low_fields ''vector'' 0 = Some (0, 8)" "field_at icr_low_fields ''delivery_mode'' 0 = Some (8, 3)"
    "field_at icr_low_fields ''destination_mode'' 0 = Some (11, 1)" "field_at icr_low_fields ''level'' 0 = Some (14, 1)"
    "field_at icr_low_fields ''trigger_mode'' 0 = Some (15, 1)" "field_at icr_low_fields ''shorthand'' 0 = Some (18, 2)"
    "field_at icr_low_fields ''delivery_status'' 0 = Some (12, 1)"
    by (simp_all add: icr_low_fields_def)
  note f = this [THEN bf_get_eqI]
  show "bf_get icr_low_fields ''vector'' w = v" by (rule f(1) [OF fits(1)]) (simp add: d)
  show "bf_get icr_low_fields ''delivery_mode'' w = m" by (rule f(2) [OF fits(2)]) (simp add: d)
  show "bf_get icr_low_fields ''destination_mode'' w = x" by (rule f(3) [OF fits(3)]) (simp add: d)
  show "bf_get icr_low_fields ''level'' w = l" by (rule f(4) [OF fits(4)]) (simp add: d)
  show "bf_get icr_low_fields ''trigger_mode'' w = t" by (rule f(5) [OF fits(5)]) (simp add: d)
  show "bf_get icr_low_fields ''shorthand'' w = h" by (rule f(6) [OF fits(6)]) (simp add: d)
  show "bf_get icr_low_fields ''delivery_status'' w = 0" by (rule f(7)) (simp_all add: d)
qed

text \<open>sending an inter-processor interrupt writes the destination into the upper half of the command register first,
  and then the lower half, whose every field reads back as the argument it was built from; no argument spills into the
  field of another.  The write of the lower half comes last, since it is the one that sends the interrupt.\<close>

theorem send_ipi_command:
  "\<exists>high low. send_ipi wr d a vector mode destination level trigger shorthand
       = wr (wr d (mmio_base (la_area a) + 0x310) high) (mmio_base (la_area a) + 0x300) low
     \<and> unat high = (case destination of Physical n \<Rightarrow> unat n | Logical n \<Rightarrow> unat n) * 2 ^ 24
     \<and> bf_get icr_low_fields ''vector'' low = ucast vector
     \<and> bf_get icr_low_fields ''delivery_mode'' low = ucast (delivery_mode_value mode)
     \<and> bf_get icr_low_fields ''destination_mode'' low = (case destination of Physical n \<Rightarrow> 0 | Logical n \<Rightarrow> 1)
     \<and> bf_get icr_low_fields ''level'' low = ucast (level_value level)
     \<and> bf_get icr_low_fields ''trigger_mode'' low = ucast (trigger_mode_value trigger)
     \<and> bf_get icr_low_fields ''shorthand'' low = ucast (destination_shorthand_value shorthand)
     \<and> bf_get icr_low_fields ''delivery_status'' low = 0"
proof -
  let ?low = "ucast vector OR push_bit 8 (ucast (delivery_mode_value mode)) OR push_bit 11 (ucast (fst (destination_get destination)))
    OR push_bit 14 (ucast (level_value level)) OR push_bit 15 (ucast (trigger_mode_value trigger))
    OR push_bit 18 (ucast (destination_shorthand_value shorthand)) :: u32"
  let ?high = "push_bit 24 (ucast (snd (destination_get destination))) :: u32"
  have f1: "take_bit 8 (ucast vector :: u32) = ucast vector" by (simp add: ucast_fits)
  have f2: "take_bit 1 (ucast (fst (destination_get destination)) :: u32) = ucast (fst (destination_get destination))"
    by (cases destination) (simp_all add: PHYSICAL_MODE_def LOGICAL_MODE_def)
  have f3: "take_bit 1 (ucast (level_value level) :: u32) = ucast (level_value level)" by (cases level) simp_all
  have f4: "take_bit 2 (ucast (destination_shorthand_value shorthand) :: u32) = ucast (destination_shorthand_value shorthand)"
    by (cases shorthand) simp_all
  note low = icr_low_decodes [OF f1 mode_values_fit(1) f2 f3 mode_values_fit(2) f4, of mode trigger]
  have shift: "unat (push_bit 24 (ucast n :: u32)) = unat n * 2 ^ 24" for n :: u8
    using unsigned_less [of n, where ?'a = nat]
    by (simp add: push_bit_eq_mult unat_word_ariths unsigned_ucast_eq take_bit_nat_eq_self)
  show ?thesis
    apply (rule exI [of _ ?high], rule exI [of _ ?low])
    unfolding low by (cases destination) (simp_all add: send_ipi_def lapic_write_def mmio_write_def shift PHYSICAL_MODE_def LOGICAL_MODE_def Let_def)
qed


subsection \<open>Device registers that hold what is written to them\<close>

text \<open>The local vector table and the divide configuration register read back what was last written; the predicate
  says so of the addresses in \<open>A\<close>, and that a write to them changes no other register.\<close>

definition register_file :: "'d mmio_rd32 \<Rightarrow> 'd mmio_wr32 \<Rightarrow> usize set \<Rightarrow> bool" where
  "register_file rd wr A \<longleftrightarrow> (\<forall>x \<in> A. \<forall>d v y. rd (wr d x v) y = (if y = x then v else rd d y))"

lemma register_file_read: "register_file rd wr A \<Longrightarrow> x \<in> A \<Longrightarrow> rd (wr d x v) y = (if y = x then v else rd d y)"
  by (simp add: register_file_def)

text \<open>the divisor read back from the timer after it was set.  The divisors by 4 and by 64 do not come back:
  the setter shifts the whole value left instead of its third bit only, so that bit 0 of the value lands in bit 1 too.\<close>

theorem timer_divider_read_back:
  assumes "register_file rd wr A" and "mmio_base (la_area a) + 0x3E0 \<in> A"
  shows "get_timer_divide_config rd (set_timer_divider_config wr d a divider) a
    = Some (case divider of Div4 \<Rightarrow> Div16 | Div64 \<Rightarrow> Div1 | _ \<Rightarrow> divider)"
  using register_file_read [OF assms]
  by (cases divider) (simp_all add: get_timer_divide_config_def set_timer_divider_config_def lapic_read_def lapic_write_def
      mmio_read_def mmio_write_def Let_def)

definition flat_rd :: "(usize \<Rightarrow> u32) \<Rightarrow> usize \<Rightarrow> u32" where
  "flat_rd d x = d x"

definition flat_wr :: "(usize \<Rightarrow> u32) \<Rightarrow> usize \<Rightarrow> u32 \<Rightarrow> (usize \<Rightarrow> u32)" where
  "flat_wr d x v = d(x := v)"

lemma flat_register_file: "register_file flat_rd flat_wr A"
  by (simp add: register_file_def flat_rd_def flat_wr_def)

definition demo_lapic :: "usize \<Rightarrow> u32 \<Rightarrow> LocalApic" where
  "demo_lapic base i = \<lparr> la_area = mmio_new base, acpi_processor_id = i, la_apic_id = i \<rparr>"

theorem timer_divider_read_back_witness:
  "get_timer_divide_config flat_rd (set_timer_divider_config flat_wr (\<lambda>_. 0) (demo_lapic 0x1000 0) Div64) (demo_lapic 0x1000 0) = Some Div1"
  using timer_divider_read_back [OF flat_register_file, of "demo_lapic 0x1000 0" UNIV "\<lambda>_. 0" Div64] by simp


subsection \<open>Configuring the local interrupt pins\<close>

definition lint_offset :: "u8 \<Rightarrow> usize" where
  "lint_offset lint = (if lint = 0 then 0x350 else 0x360)"

definition lvt_area :: "LocalApic \<Rightarrow> usize set" where
  "lvt_area a = (\<lambda>off. mmio_base (la_area a) + off) ` {0x350, 0x360, 0x370}"

text \<open>\<open>add\<close> maps the same physical page for every local APIC, at a new virtual address each time, and the comment on \<open>LocalApic\<close>
  says that their addresses are the same.  So the registers are cells of the physical address space: \<open>phys x\<close> is the
  cell behind the virtual address \<open>x\<close>, addresses of the same cell read the same, and a write through one of the addresses \<open>A\<close>
  changes exactly its cell.  \<open>lapic_at phys pb a\<close> says that the area of \<open>a\<close> maps the registers at \<open>pb\<close>.\<close>

definition shared_registers :: "'d mmio_rd32 \<Rightarrow> 'd mmio_wr32 \<Rightarrow> (usize \<Rightarrow> nat) \<Rightarrow> usize set \<Rightarrow> bool" where
  "shared_registers rd wr phys A \<longleftrightarrow> (\<forall>x \<in> A. \<forall>d v y. rd (wr d x v) y = (if phys y = phys x then v else rd d y))
     \<and> (\<forall>d x y. phys x = phys y \<longrightarrow> rd d x = rd d y)"

definition lvt_cells :: "nat \<Rightarrow> nat set" where
  "lvt_cells pb = {pb + 0x350, pb + 0x360, pb + 0x370}"

definition lapic_at :: "(usize \<Rightarrow> nat) \<Rightarrow> nat \<Rightarrow> LocalApic \<Rightarrow> bool" where
  "lapic_at phys pb a \<longleftrightarrow> (\<forall>off \<in> {0x350, 0x360, 0x370}. phys (mmio_base (la_area a) + off) = pb + off)"

text \<open>What the configuration asks of one APIC: the given pin delivers non-maskable interrupts with the given polarity and
  trigger mode, the other one external interrupts, edge triggered; they and the error entry are unmasked, and keep the
  rest of what they held in \<open>d\<close>.\<close>

definition lints_configured :: "'d mmio_rd32 \<Rightarrow> 'd \<Rightarrow> 'd \<Rightarrow> LocalApic \<Rightarrow> u8 \<Rightarrow> PinPolarity \<Rightarrow> TriggerMode \<Rightarrow> bool" where
  "lints_configured rd d d' a lint polarity trigger \<longleftrightarrow>
     (let nmi = mmio_base (la_area a) + lint_offset lint; ext = mmio_base (la_area a) + lint_offset (1 - lint);
          err = mmio_base (la_area a) + 0x370
      in (\<forall>f. bf_get LvtReg_layout f (rd d' nmi) =
            (if f = ''delivery_mode'' then ucast (delivery_mode_value Nmi)
             else if f = ''trigger_mode'' then ucast (trigger_mode_value trigger)
             else if f = ''pin_polarity'' then ucast (pin_polarity_value polarity)
             else if f = ''mask'' then 0 else bf_get LvtReg_layout f (rd d nmi)))
       \<and> (\<forall>f. bf_get LvtReg_layout f (rd d' ext) =
            (if f = ''delivery_mode'' then ucast (delivery_mode_value ExtInt)
             else if f = ''trigger_mode'' then 0
             else if f = ''mask'' then 0 else bf_get LvtReg_layout f (rd d ext)))
       \<and> (\<forall>f. bf_get LvtReg_layout f (rd d' err) = (if f = ''mask'' then 0 else bf_get LvtReg_layout f (rd d err))))"

lemma shared_write: "shared_registers rd wr phys A \<Longrightarrow> x \<in> A \<Longrightarrow> rd (wr d x v) y = (if phys y = phys x then v else rd d y)"
  unfolding shared_registers_def by blast

lemma shared_read: "shared_registers rd wr phys A \<Longrightarrow> phys x = phys y \<Longrightarrow> rd d x = rd d y"
  unfolding shared_registers_def by blast

lemma LvtReg_wf: "layout_wf LENGTH(32) LvtReg_layout"
  by (simp add: LvtReg_layout_def layout_wf_def layout_bits_def)

lemma LvtReg_fields: "(''mask'', 1) \<in> set LvtReg_layout" "(''delivery_mode'', 3) \<in> set LvtReg_layout"
  "(''trigger_mode'', 1) \<in> set LvtReg_layout" "(''pin_polarity'', 1) \<in> set LvtReg_layout"
  by (simp_all add: LvtReg_layout_def)

lemmas lvt_set = bf_set_typed [OF LvtReg_wf LvtReg_fields(1) take_bit_of_0] bf_set_typed [OF LvtReg_wf LvtReg_fields(2) mode_values_fit(1)]
  bf_set_typed [OF LvtReg_wf LvtReg_fields(3) mode_values_fit(2)] bf_set_typed [OF LvtReg_wf LvtReg_fields(4) mode_values_fit(3)]

lemma nmi_entry:
  obtains e' where "nmi_lint_entry polarity trigger e = Some e'"
    and "\<forall>f. bf_get LvtReg_layout f e' =
            (if f = ''delivery_mode'' then ucast (delivery_mode_value Nmi)
             else if f = ''trigger_mode'' then ucast (trigger_mode_value trigger)
             else if f = ''pin_polarity'' then ucast (pin_polarity_value polarity)
             else if f = ''mask'' then 0 else bf_get LvtReg_layout f e)"
proof -
  obtain e1 where e1: "bf_set LvtReg_layout ''delivery_mode'' (ucast (delivery_mode_value Nmi)) e = Some e1"
    "\<forall>g. bf_get LvtReg_layout g e1 = (if g = ''delivery_mode'' then ucast (delivery_mode_value Nmi) else bf_get LvtReg_layout g e)"
    by (rule lvt_set(2))
  obtain e2 where e2: "bf_set LvtReg_layout ''trigger_mode'' (ucast (trigger_mode_value trigger)) e1 = Some e2"
    "\<forall>g. bf_get LvtReg_layout g e2 = (if g = ''trigger_mode'' then ucast (trigger_mode_value trigger) else bf_get LvtReg_layout g e1)"
    by (rule lvt_set(3))
  obtain e3 where e3: "bf_set LvtReg_layout ''pin_polarity'' (ucast (pin_polarity_value polarity)) e2 = Some e3"
    "\<forall>g. bf_get LvtReg_layout g e3 = (if g = ''pin_polarity'' then ucast (pin_polarity_value polarity) else bf_get LvtReg_layout g e2)"
    by (rule lvt_set(4))
  obtain e4 where e4: "bf_set LvtReg_layout ''mask'' 0 e3 = Some e4"
    "\<forall>g. bf_get LvtReg_layout g e4 = (if g = ''mask'' then 0 else bf_get LvtReg_layout g e3)"
    by (rule lvt_set(1))
  have "nmi_lint_entry polarity trigger e = Some e4" using e1(1) e2(1) e3(1) e4(1) by (simp add: nmi_lint_entry_def)
  moreover have "\<forall>f. bf_get LvtReg_layout f e4 =
            (if f = ''delivery_mode'' then ucast (delivery_mode_value Nmi)
             else if f = ''trigger_mode'' then ucast (trigger_mode_value trigger)
             else if f = ''pin_polarity'' then ucast (pin_polarity_value polarity)
             else if f = ''mask'' then 0 else bf_get LvtReg_layout f e)"
    using e1(2) e2(2) e3(2) e4(2) by simp
  ultimately show ?thesis by (rule that)
qed

lemma ext_int_entry:
  obtains e' where "ext_int_lint_entry e = Some e'"
    and "\<forall>f. bf_get LvtReg_layout f e' =
            (if f = ''delivery_mode'' then ucast (delivery_mode_value ExtInt)
             else if f = ''trigger_mode'' then 0
             else if f = ''mask'' then 0 else bf_get LvtReg_layout f e)"
proof -
  obtain e1 where e1: "bf_set LvtReg_layout ''delivery_mode'' (ucast (delivery_mode_value ExtInt)) e = Some e1"
    "\<forall>g. bf_get LvtReg_layout g e1 = (if g = ''delivery_mode'' then ucast (delivery_mode_value ExtInt) else bf_get LvtReg_layout g e)"
    by (rule lvt_set(2))
  obtain e2 where e2: "bf_set LvtReg_layout ''trigger_mode'' (ucast (trigger_mode_value EdgeTriggered)) e1 = Some e2"
    "\<forall>g. bf_get LvtReg_layout g e2 = (if g = ''trigger_mode'' then ucast (trigger_mode_value EdgeTriggered) else bf_get LvtReg_layout g e1)"
    by (rule lvt_set(3))
  obtain e3 where e3: "bf_set LvtReg_layout ''mask'' 0 e2 = Some e3"
    "\<forall>g. bf_get LvtReg_layout g e3 = (if g = ''mask'' then 0 else bf_get LvtReg_layout g e2)"
    by (rule lvt_set(1))
  have "ext_int_lint_entry e = Some e3" using e1(1) e2(1) e3(1) by (simp add: ext_int_lint_entry_def)
  moreover have "\<forall>f. bf_get LvtReg_layout f e3 =
            (if f = ''delivery_mode'' then ucast (delivery_mode_value ExtInt)
             else if f = ''trigger_mode'' then 0
             else if f = ''mask'' then 0 else bf_get LvtReg_layout f e)"
    using e1(2) e2(2) e3(2) by simp
  ultimately show ?thesis by (rule that)
qed


text \<open>One APIC.\<close>

lemma setup_lvts_spec:
  assumes regs: "shared_registers rd wr phys A" and area: "lvt_area a \<subseteq> A" and at: "lapic_at phys pb a" and lint: "lint = 0 \<or> lint = 1"
  obtains d' where "setup_lvts rd wr d a lint polarity trigger = Some d'"
    and "lints_configured rd d d' a lint polarity trigger"
    and "\<forall>x. phys x \<notin> lvt_cells pb \<longrightarrow> rd d' x = rd d x"
proof -
  define b where "b = mmio_base (la_area a)"
  define nmi ext where "nmi = b + lint_offset lint" and "ext = b + lint_offset (1 - lint)"
  have off: "lvt_area a = {nmi, ext, b + 0x370}" and cells: "lvt_cells pb = {phys nmi, phys ext, phys (b + 0x370)}"
    and apart: "phys nmi \<noteq> phys ext" "phys nmi \<noteq> phys (b + 0x370)" "phys ext \<noteq> phys (b + 0x370)"
    using lint at by (auto simp: nmi_def ext_def lint_offset_def lvt_area_def b_def lapic_at_def lvt_cells_def)
  obtain r w r' w' where lr: "lint_regs lint = Some ((r, w), (r', w'))"
    and off2: "readable_offset r = lint_offset lint" "writeable_offset w = lint_offset lint"
      "readable_offset r' = lint_offset (1 - lint)" "writeable_offset w' = lint_offset (1 - lint)"
    using lint by (auto simp: lint_regs_def lint_offset_def)
  obtain e1 where e1: "nmi_lint_entry polarity trigger (rd d nmi) = Some e1" and n: "\<forall>f. bf_get LvtReg_layout f e1 =
            (if f = ''delivery_mode'' then ucast (delivery_mode_value Nmi)
             else if f = ''trigger_mode'' then ucast (trigger_mode_value trigger)
             else if f = ''pin_polarity'' then ucast (pin_polarity_value polarity)
             else if f = ''mask'' then 0 else bf_get LvtReg_layout f (rd d nmi))" by (rule nmi_entry)
  obtain e2 where e2: "ext_int_lint_entry (rd d ext) = Some e2" and x: "\<forall>f. bf_get LvtReg_layout f e2 =
            (if f = ''delivery_mode'' then ucast (delivery_mode_value ExtInt) else if f = ''trigger_mode'' then 0
             else if f = ''mask'' then 0 else bf_get LvtReg_layout f (rd d ext))" by (rule ext_int_entry)
  obtain e3 where e3: "bf_set LvtReg_layout ''mask'' 0 (rd d (b + 0x370)) = Some e3" and m: "\<forall>g. bf_get LvtReg_layout g e3 =
            (if g = ''mask'' then 0 else bf_get LvtReg_layout g (rd d (b + 0x370)))"
    by (rule lvt_set(1))
  define d' where "d' = wr (wr (wr d nmi e1) ext e2) (b + 0x370) e3"
  have rd: "rd d' y = (if phys y = phys (b + 0x370) then e3 else if phys y = phys ext then e2 else if phys y = phys nmi then e1 else rd d y)" for y
    using area by (simp add: d'_def off shared_write [OF regs])
  have "setup_lvts rd wr d a lint polarity trigger = Some d'"
    using e1 e2 e3 by (simp add: setup_lvts_def lr lapic_read_def lapic_write_def mmio_read_def mmio_write_def off2 d'_def
        nmi_def ext_def b_def Let_def)
  moreover have "lints_configured rd d d' a lint polarity trigger"
    unfolding lints_configured_def Let_def b_def [symmetric] nmi_def [symmetric] ext_def [symmetric]
    using n x m apart by (simp add: rd)
  moreover have "\<forall>y. phys y \<notin> lvt_cells pb \<longrightarrow> rd d' y = rd d y" by (simp add: cells rd)
  ultimately show ?thesis by (rule that)
qed

text \<open>The configuration is a statement about the cells, and is the same through the area of any APIC; it can be repeated.\<close>

lemma lints_configured_alias:
  assumes "shared_registers rd wr phys A" and "lapic_at phys pb a" and "lapic_at phys pb c" and "lints_configured rd d d' a lint polarity trigger"
  shows "lints_configured rd d d' c lint polarity trigger"
proof -
  have "rd e (mmio_base (la_area a) + off) = rd e (mmio_base (la_area c) + off)" if "off \<in> {0x350, 0x360, 0x370}" for e off
    by (rule shared_read [OF assms(1)]) (use assms(2,3) that in \<open>auto simp: lapic_at_def\<close>)
  then have "rd e (mmio_base (la_area a) + lint_offset l) = rd e (mmio_base (la_area c) + lint_offset l)"
    "rd e (mmio_base (la_area a) + 0x370) = rd e (mmio_base (la_area c) + 0x370)" for e l
    by (simp_all add: lint_offset_def)
  with assms(4) show ?thesis by (simp add: lints_configured_def Let_def)
qed

lemma lints_configured_trans:
  "lints_configured rd d d1 a lint polarity trigger \<Longrightarrow> lints_configured rd d1 d' a lint polarity trigger
    \<Longrightarrow> lints_configured rd d d' a lint polarity trigger"
  by (simp add: lints_configured_def Let_def)

definition lint_target :: "u32 \<Rightarrow> LocalApic \<Rightarrow> bool" where
  "lint_target processor_id a \<longleftrightarrow> processor_id = 0xFF \<or> acpi_processor_id a = processor_id"

lemma config_lints_spec:
  assumes regs: "shared_registers rd wr phys A" and areas: "\<forall>a \<in> set lapics. lvt_area a \<subseteq> A \<and> lapic_at phys pb a" and lint: "lint = 0 \<or> lint = 1"
    and flags: "pin_polarity_try_from (flags AND 3) = Ok polarity" "trigger_mode_try_from (drop_bit 2 flags AND 3) = Ok trigger"
  shows "\<exists>d'. config_lints rd wr d lapics processor_id lint flags = Some d'
    \<and> (if list_ex (lint_target processor_id) lapics then \<forall>c. lapic_at phys pb c \<longrightarrow> lints_configured rd d d' c lint polarity trigger else d' = d)
    \<and> (\<forall>x. phys x \<notin> lvt_cells pb \<longrightarrow> rd d' x = rd d x)"
  using areas
proof (induction lapics arbitrary: d)
  case (Cons a as)
  then have pre: "\<forall>a \<in> set as. lvt_area a \<subseteq> A \<and> lapic_at phys pb a" and a: "lvt_area a \<subseteq> A" "lapic_at phys pb a" by auto
  show ?case
  proof (cases "lint_target processor_id a")
    case True
    obtain d1 where d1: "setup_lvts rd wr d a lint polarity trigger = Some d1" "lints_configured rd d d1 a lint polarity trigger"
      "\<forall>x. phys x \<notin> lvt_cells pb \<longrightarrow> rd d1 x = rd d x"
      by (rule setup_lvts_spec [OF regs a lint])
    from Cons.IH [OF pre, of d1] obtain d' where d': "config_lints rd wr d1 as processor_id lint flags = Some d'"
      "if list_ex (lint_target processor_id) as then \<forall>c. lapic_at phys pb c \<longrightarrow> lints_configured rd d1 d' c lint polarity trigger else d' = d1"
      "\<forall>x. phys x \<notin> lvt_cells pb \<longrightarrow> rd d' x = rd d1 x" by blast
    have "lints_configured rd d d' c lint polarity trigger" if "lapic_at phys pb c" for c
      using lints_configured_alias [OF regs a(2) that d1(2)] d'(2) that by (auto intro: lints_configured_trans split: if_splits)
    moreover have "config_lints rd wr d (a # as) processor_id lint flags = Some d'"
      using True d1(1) d'(1) by (simp add: lint_target_def ALL_PROCESSORS_ID_def flags)
    ultimately show ?thesis using True d'(3) d1(3) by simp
  next
    case False
    then show ?thesis using Cons.IH [OF pre, of d] by (auto simp: lint_target_def ALL_PROCESSORS_ID_def)
  qed
qed simp

text \<open>C34: Configuring the interrupt pins, with all local APICs in the list mapping the same registers, as the code sets them up: they
  are the registers of the processor that executes the code.  With a pin number 0 or 1 and flags whose both fields have a meaning it returns.  When an APIC of the
  list belongs to the named processor (any, for the number 0xFF), then, seen through the area of any of the APICs, the given pin delivers non-maskable interrupts, with the polarity and
  trigger mode of the flags, the other pin external interrupts, and errors are reported - for the executing processor,
  whichever processor was named; when none does, nothing changes.  No other register ever changes.  With another pin number, or a field 0b10, it panics
  exactly when there is an APIC to configure.\<close>

theorem config_lints_correct:
  assumes "shared_registers rd wr phys A" and "\<forall>a \<in> set lapics. lvt_area a \<subseteq> A \<and> lapic_at phys pb a"
  shows "case (pin_polarity_try_from (flags AND 3), trigger_mode_try_from (drop_bit 2 flags AND 3)) of
      (Ok polarity, Ok trigger) \<Rightarrow>
        if lint = 0 \<or> lint = 1 then
          \<exists>d'. config_lints rd wr d lapics processor_id lint flags = Some d'
            \<and> (if list_ex (lint_target processor_id) lapics then \<forall>a \<in> set lapics. lints_configured rd d d' a lint polarity trigger else d' = d)
            \<and> (\<forall>x. phys x \<notin> lvt_cells pb \<longrightarrow> rd d' x = rd d x)
        else config_lints rd wr d lapics processor_id lint flags = (if list_ex (lint_target processor_id) lapics then None else Some d)
    | _ \<Rightarrow> config_lints rd wr d lapics processor_id lint flags = (if list_ex (lint_target processor_id) lapics then None else Some d)"
proof -
  let ?p = "pin_polarity_try_from (flags AND 3)" and ?t = "trigger_mode_try_from (drop_bit 2 flags AND 3)"
  have panic: "config_lints rd wr d lapics processor_id lint flags = (if list_ex (lint_target processor_id) lapics then None else Some d)"
    if "(\<exists>e. ?p = Err e) \<or> (\<exists>e. ?t = Err e) \<or> \<not> (lint = 0 \<or> lint = 1)" for d
    using that by (induction lapics arbitrary: d)
      (auto simp: lint_target_def ALL_PROCESSORS_ID_def setup_lvts_def lint_regs_def split: sum.splits Option.bind_splits)
  show ?thesis
  proof (cases "\<exists>polarity trigger. ?p = Ok polarity \<and> ?t = Ok trigger \<and> (lint = 0 \<or> lint = 1)")
    case True
    then obtain polarity trigger where ok: "?p = Ok polarity" "?t = Ok trigger" and lint: "lint = 0 \<or> lint = 1" by blast
    with config_lints_spec [OF assms lint ok, of d processor_id] assms(2) show ?thesis
      by (cases "list_ex (lint_target processor_id) lapics") (auto simp del: config_lints.simps)
  next
    case False
    then have "(\<exists>e. ?p = Err e) \<or> (\<exists>e. ?t = Err e) \<or> \<not> (lint = 0 \<or> lint = 1)" by (metis sum.exhaust)
    from panic [OF this] have "config_lints rd wr d lapics processor_id lint flags = (if list_ex (lint_target processor_id) lapics then None else Some d)" .
    with False show ?thesis by (fastforce split: sum.splits simp del: config_lints.simps)
  qed
qed

text \<open>Two local APICs, mapped at 0x1000 and 0x2000, over the same registers at 0: naming the processor of the second configures what the first reads.\<close>

theorem config_lints_correct_witness:
  "\<exists>d'. config_lints (\<lambda>d x. d (x mod 0x1000)) (\<lambda>d x v. d(x mod 0x1000 := v)) (\<lambda>_. 0x10000) [demo_lapic 0x1000 0, demo_lapic 0x2000 1] 1 1 0xD = Some d'
     \<and> lints_configured (\<lambda>d x. d (x mod 0x1000)) (\<lambda>_. 0x10000) d' (demo_lapic 0x2000 1) 1 ActiveHigh LevelTriggered
     \<and> lints_configured (\<lambda>d x. d (x mod 0x1000)) (\<lambda>_. 0x10000) d' (demo_lapic 0x1000 0) 1 ActiveHigh LevelTriggered \<and> d' 0x320 = 0x10000"
proof -
  let ?rd = "\<lambda>d x. d (x mod 0x1000) :: u32" and ?wr = "\<lambda>d x v. d(x mod 0x1000 := v) :: nat \<Rightarrow> u32"
  let ?a = "demo_lapic 0x1000 0" and ?b = "demo_lapic 0x2000 1"
  have regs: "shared_registers ?rd ?wr (\<lambda>x. x mod 0x1000) UNIV" by (simp add: shared_registers_def)
  have at: "\<forall>a \<in> set [?a, ?b]. lvt_area a \<subseteq> UNIV \<and> lapic_at (\<lambda>x. x mod 0x1000) 0 a"
    by (simp add: lapic_at_def demo_lapic_def mmio_new_def)
  have "list_ex (lint_target 1) [?a, ?b]" by (simp add: lint_target_def demo_lapic_def)
  with config_lints_correct [OF regs at, where flags = "0xD" and lint = 1 and d = "\<lambda>_. 0x10000" and processor_id = 1]
  obtain d' where d': "config_lints ?rd ?wr (\<lambda>_. 0x10000) [?a, ?b] 1 1 0xD = Some d'"
    "\<forall>a \<in> set [?a, ?b]. lints_configured ?rd (\<lambda>_. 0x10000) d' a 1 ActiveHigh LevelTriggered"
    and keep: "\<forall>x. x mod 0x1000 \<notin> lvt_cells 0 \<longrightarrow> d' (x mod 0x1000) = 0x10000"
    by (auto simp: pin_polarity_try_from_def trigger_mode_try_from_def simp del: config_lints.simps)
  from spec [OF keep, of "0x320"] have "d' 0x320 = 0x10000" by (simp add: lvt_cells_def)
  with d' show ?thesis by auto
qed

end
