(* ===== verification/Apic_Timer.thy ===== *)
theory Apic_Timer
  imports Hpet Lapic
begin

text \<open>
  \<open>drivers/src/timer/apic.rs\<close>: the timer of the local APIC.  Its frequency is read from \<open>CPUID\<close> or measured against
  the HPET.  \<open>wait\<close> is what the two devices do while the code spins between two reads of the counter.
\<close>

record ApicTimer =
  base_frequency :: nat
  tsc_deadline_supported :: bool
  at_apic_id :: u32

partial_function (option) poll_counter :: "'h mmio_rd64 \<Rightarrow> ('h \<times> 'l \<Rightarrow> 'h \<times> 'l) \<Rightarrow> HpetTimer \<Rightarrow> u64 \<Rightarrow> 'h \<times> 'l \<Rightarrow> ('h \<times> 'l) option" where
  "poll_counter hrd wait t ticks x =
     (let x = wait x in if ticks \<le> read_main_counter hrd (fst x) t then Some x else poll_counter hrd wait t ticks x)"

definition find_base_frequency :: "cpuid \<Rightarrow> 'h mmio_rd64 \<Rightarrow> 'h mmio_wr64 \<Rightarrow> 'd mmio_rd \<Rightarrow> 'd mmio_wr \<Rightarrow> 'l mmio_rd32 \<Rightarrow> 'l mmio_wr32
    \<Rightarrow> ('h \<times> 'l \<Rightarrow> 'h \<times> 'l) \<Rightarrow> u64 \<Rightarrow> Cpu \<Rightarrow> LocalApic list \<Rightarrow> u32 \<Rightarrow> ('h, 'd) TimerSystem \<Rightarrow> 'l \<Rightarrow> (nat \<times> ('h, 'd) TimerSystem \<times> 'l) option" where
  "find_base_frequency cpuid hrd hwr rd wr lrd lwr wait generic_stub c lapics apic_id s ld =
     (let res = cpuid 0x15 0 in
      if cpuid_ecx res \<noteq> 0 \<and> cpuid_ebx res \<noteq> 0 then Some (unat (cpuid_ecx res), s, ld)
      else do {
        (r, s) \<leftarrow> hpet_timer_new hrd s;
        t \<leftarrow> unwrap_ok r;
        ticks \<leftarrow> time_to_cycles (ts_hpet s) (1000 * 1000000);
        apic \<leftarrow> get_apic lapics apic_id;
        let ld = set_timer_divider_config lwr ld apic Div1;
        ld \<leftarrow> config_timer lrd lwr ld apic 0xFFFFFFFF OneShot;
        (r, s) \<leftarrow> hpet_timer_configure hrd hwr rd wr c s t (5000 * 1000000000) HpetOneShot
          \<lparr> receive_interrupts = False, delivery_mode = HpetInterrupt generic_stub HpetEdgeTriggered \<rparr>;
        _ \<leftarrow> unwrap_ok r;
        ld \<leftarrow> set_timer_disabled lrd lwr ld apic False;
        (hd, ld) \<leftarrow> poll_counter hrd wait t ticks (ts_dev s, ld);
        ld \<leftarrow> set_timer_disabled lrd lwr ld apic True;
        hd \<leftarrow> hpet_timer_set_disabled hrd hwr hd t True;
        let ticks_delta = 0xFFFFFFFF - unat (read_current_timer_count lrd ld apic);
        Some (ticks_delta div 1000000, s \<lparr> ts_dev := hd \<rparr>, ld) })"

definition apic_timer_new :: "cpuid \<Rightarrow> 'h mmio_rd64 \<Rightarrow> 'h mmio_wr64 \<Rightarrow> 'd mmio_rd \<Rightarrow> 'd mmio_wr \<Rightarrow> 'l mmio_rd32 \<Rightarrow> 'l mmio_wr32
    \<Rightarrow> ('h \<times> 'l \<Rightarrow> 'h \<times> 'l) \<Rightarrow> u64 \<Rightarrow> Cpu \<Rightarrow> LocalApic list \<Rightarrow> ('h, 'd) TimerSystem \<Rightarrow> 'l \<Rightarrow> (ApicTimer \<times> ('h, 'd) TimerSystem \<times> 'l) option" where
  "apic_timer_new cpuid hrd hwr rd wr lrd lwr wait generic_stub c lapics s ld = do {
     let apic_id = get_this_apic_id cpuid;
     (f, s, ld) \<leftarrow> find_base_frequency cpuid hrd hwr rd wr lrd lwr wait generic_stub c lapics apic_id s ld;
     let res = cpuid 1 0;
     Some (\<lparr> base_frequency = f, tsc_deadline_supported = (drop_bit 24 (cpuid_ecx res) AND 1 = 1), at_apic_id = apic_id \<rparr>, s, ld) }"

text \<open>\<open>(self.base_frequency * 1_000_000) / time.as_micros() as u32\<close> in \<open>u32\<close>: the product is checked, the
  microseconds are truncated, and a divisor of zero panics.\<close>

definition time_to_ticks :: "ApicTimer \<Rightarrow> Duration \<Rightarrow> nat option" where
  "time_to_ticks a time = do {
     n \<leftarrow> checked_u32 (base_frequency a * 1000000);
     let micros = (time div 1000) mod 2 ^ 32;
     _ \<leftarrow> ensure (micros \<noteq> 0);
     Some (n div micros) }"

definition apic_timer_configure :: "'l mmio_rd32 \<Rightarrow> 'l mmio_wr32 \<Rightarrow> LocalApic list \<Rightarrow> 'l \<Rightarrow> ApicTimer \<Rightarrow> Duration \<Rightarrow> TimerMode
    \<Rightarrow> ((TimerError + u64) \<times> 'l) option" where
  "apic_timer_configure lrd lwr lapics ld a time timer_mode =
     (if timer_mode = TimerReserved \<or> (timer_mode = Tsc \<and> \<not> tsc_deadline_supported a) then Some (Err UnsupportedTimerMode, ld)
      else do {
        ticks \<leftarrow> time_to_ticks a time;
        apic \<leftarrow> get_apic lapics (at_apic_id a);
        ld \<leftarrow> config_timer lrd lwr ld apic (of_nat ticks) timer_mode;
        ld \<leftarrow> set_timer_disabled lrd lwr ld apic False;
        Some (Ok (of_nat ticks), ld) })"

definition apic_timer_set_disabled :: "'l mmio_rd32 \<Rightarrow> 'l mmio_wr32 \<Rightarrow> LocalApic list \<Rightarrow> 'l \<Rightarrow> ApicTimer \<Rightarrow> bool \<Rightarrow> 'l option" where
  "apic_timer_set_disabled lrd lwr lapics ld a disable = do {
     apic \<leftarrow> get_apic lapics (at_apic_id a);
     set_timer_disabled lrd lwr ld apic disable }"

subsection \<open>The polling loop\<close>

text \<open>The loop returns as soon as the counter has reached the mark, after at least one wait; it returns if that
  ever happens.\<close>

lemma poll_counter_returns:
  assumes "ticks \<le> read_main_counter hrd (fst ((wait ^^ Suc n) x)) t"
    and "\<And>m. m < n \<Longrightarrow> \<not> ticks \<le> read_main_counter hrd (fst ((wait ^^ Suc m) x)) t"
  shows "poll_counter hrd wait t ticks x = Some ((wait ^^ Suc n) x)"
  using assms
proof (induction n arbitrary: x)
  case 0
  then show ?case by (subst poll_counter.simps) (simp add: Let_def)
next
  case (Suc n)
  have step: "(wait ^^ Suc m) (wait x) = (wait ^^ Suc (Suc m)) x" for m
    by (metis comp_apply funpow_Suc_right)
  have "poll_counter hrd wait t ticks (wait x) = Some ((wait ^^ Suc n) (wait x))"
    using Suc.prems by (intro Suc.IH) (simp_all only: step, auto)
  moreover have "\<not> ticks \<le> read_main_counter hrd (fst (wait x)) t" using Suc.prems(2) [of 0] by simp
  ultimately show ?case unfolding step by (subst poll_counter.simps) (simp add: Let_def)
qed

lemma poll_counter_reaches:
  assumes "poll_counter hrd wait t ticks x = Some y"
  shows "ticks \<le> read_main_counter hrd (fst y) t"
proof -
  have "case ((((hrd, wait), t), ticks), x) of ((((hrd, wait), t), ticks), x) \<Rightarrow> ticks \<le> read_main_counter hrd (fst y) t"
    using poll_counter.raw_induct [of "\<lambda>hrd wait t ticks x y. ticks \<le> read_main_counter hrd (fst y) t" "((((hrd, wait), t), ticks), x)" y] assms
    by (fastforce simp: Let_def split: if_splits)
  then show ?thesis by simp
qed

subsection \<open>Configuring the timer\<close>

lemma timer_mode_fits: "take_bit 15 (ucast (timer_mode_value m) :: u32) = ucast (timer_mode_value m)"
  by (cases m) simp_all

lemma LvtReg_reserved2: "(''reserved2'', 15) \<in> set LvtReg_layout"
  by (simp add: LvtReg_layout_def)

text \<open>Starting the timer of the local APIC.  Reserved modes, and deadline mode without support, are refused and change nothing.  Otherwise,
  when the computation of the ticks succeeds and the APIC exists, the initial count holds the ticks, the timer's vector entry has the mode and
  is unmasked with its other fields kept, no other register changes, and the ticks are returned.\<close>

theorem apic_timer_configure_correct:
  assumes regs: "register_file lrd lwr A" and addr: "b + 0x320 \<in> A" "b + 0x380 \<in> A"
    and apic: "get_apic lapics (at_apic_id a) = Some apic" "b = mmio_base (la_area apic)"
  shows "if mode = TimerReserved \<or> mode = Tsc \<and> \<not> tsc_deadline_supported a
    then apic_timer_configure lrd lwr lapics ld a time mode = Some (Err UnsupportedTimerMode, ld)
    else case time_to_ticks a time of
        None \<Rightarrow> apic_timer_configure lrd lwr lapics ld a time mode = None
      | Some ticks \<Rightarrow> \<exists>ld'. apic_timer_configure lrd lwr lapics ld a time mode = Some (Ok (of_nat ticks), ld')
          \<and> lrd ld' (b + 0x380) = of_nat ticks
          \<and> (\<forall>f. bf_get LvtReg_layout f (lrd ld' (b + 0x320)) =
                (if f = ''reserved2'' then ucast (timer_mode_value mode) else if f = ''mask'' then 0
                 else bf_get LvtReg_layout f (lrd ld (b + 0x320))))
          \<and> (\<forall>x. x \<noteq> b + 0x320 \<and> x \<noteq> b + 0x380 \<longrightarrow> lrd ld' x = lrd ld x)"
proof (cases "mode = TimerReserved \<or> mode = Tsc \<and> \<not> tsc_deadline_supported a")
  case True
  then show ?thesis by (simp add: apic_timer_configure_def)
next
  case False
  show ?thesis
  proof (cases "time_to_ticks a time")
    case None
    then show ?thesis unfolding if_not_P [OF False] by (simp add: apic_timer_configure_def if_not_P [OF False])
  next
    case (Some ticks)
    obtain w1 where w1: "bf_set LvtReg_layout ''reserved2'' (ucast (timer_mode_value mode)) (lrd ld (b + 0x320)) = Some w1"
      "\<forall>g. bf_get LvtReg_layout g w1 = (if g = ''reserved2'' then ucast (timer_mode_value mode) else bf_get LvtReg_layout g (lrd ld (b + 0x320)))"
      by (rule bf_set_typed [OF LvtReg_wf LvtReg_reserved2 timer_mode_fits])
    obtain w2 where w2: "bf_set LvtReg_layout ''mask'' 0 w1 = Some w2"
      "\<forall>g. bf_get LvtReg_layout g w2 = (if g = ''mask'' then 0 else bf_get LvtReg_layout g w1)"
      by (rule lvt_set(1))
    define ld1 where "ld1 = lwr (lwr ld (b + 0x320) w1) (b + 0x380) (of_nat ticks)"
    define ld2 where "ld2 = lwr ld1 (b + 0x320) w2"
    have rd1: "lrd ld1 x = (if x = b + 0x380 then of_nat ticks else if x = b + 0x320 then w1 else lrd ld x)" for x
      using register_file_read [OF regs] addr by (simp add: ld1_def)
    have rd2: "lrd ld2 x = (if x = b + 0x320 then w2 else if x = b + 0x380 then of_nat ticks else lrd ld x)" for x
      using register_file_read [OF regs] addr by (simp add: ld2_def rd1)
    have "config_timer lrd lwr ld apic (of_nat ticks) mode = Some ld1"
      using w1(1) by (simp add: config_timer_def lapic_read_def lapic_write_def mmio_read_def mmio_write_def apic(2) ld1_def)
    moreover have "set_timer_disabled lrd lwr ld1 apic False = Some ld2"
      using w2(1) rd1 by (simp add: set_timer_disabled_def lapic_read_def lapic_write_def mmio_read_def mmio_write_def apic(2) ld2_def)
    ultimately have "apic_timer_configure lrd lwr lapics ld a time mode = Some (Ok (of_nat ticks), ld2)"
      unfolding apic_timer_configure_def if_not_P [OF False] by (simp add: Some apic(1))
    moreover have "\<forall>f. bf_get LvtReg_layout f w2 = (if f = ''reserved2'' then ucast (timer_mode_value mode) else if f = ''mask'' then 0
                 else bf_get LvtReg_layout f (lrd ld (b + 0x320)))"
      by (simp add: w1(2) w2(2))
    ultimately show ?thesis unfolding if_not_P [OF False] Some option.case by (intro exI [of _ ld2]) (simp add: rd2)
  qed
qed

theorem apic_timer_configure_correct_witness:
  "\<exists>ld'. apic_timer_configure flat_rd flat_wr [demo_lapic 0x1000 0] (\<lambda>_. 0) \<lparr> base_frequency = 100, tsc_deadline_supported = False, at_apic_id = 0 \<rparr>
       1000000 Periodic = Some (Ok 100000, ld') \<and> flat_rd ld' 0x1380 = 100000"
proof -
  let ?a = "\<lparr> base_frequency = 100, tsc_deadline_supported = False, at_apic_id = 0 \<rparr>"
  have "time_to_ticks ?a 1000000 = Some 100000" by (simp add: time_to_ticks_def checked_u32_def)
  moreover have "get_apic [demo_lapic 0x1000 0] (at_apic_id ?a) = Some (demo_lapic 0x1000 0)" by (simp add: get_apic_def demo_lapic_def)
  moreover have "0x1000 = mmio_base (la_area (demo_lapic 0x1000 0))" by (simp add: demo_lapic_def mmio_new_def)
  ultimately show ?thesis
    using apic_timer_configure_correct [OF flat_register_file, of "0x1000" UNIV "[demo_lapic 0x1000 0]" ?a "demo_lapic 0x1000 0" Periodic "\<lambda>_. 0" 1000000]
    by auto
qed

text \<open>The number of ticks for a delay shrinks when the delay grows: the frequency is divided by the delay instead of
  multiplied.  A delay below one microsecond, or of a multiple of \<open>2 ^ 32\<close> microseconds, panics, and so does every delay when the
  frequency is 4295 or more, as it is whenever \<open>CPUID\<close> reports it, in Hz, while the field is meant in MHz.\<close>

theorem time_to_ticks_inverse:
  "(base_frequency a < 4295 \<longrightarrow> (case time_to_ticks a time of
        None \<Rightarrow> (time div 1000) mod 2 ^ 32 = 0
      | Some n \<Rightarrow> n * ((time div 1000) mod 2 ^ 32) \<le> base_frequency a * 1000000))
   \<and> (4295 \<le> base_frequency a \<longrightarrow> time_to_ticks a time = None)
   \<and> (base_frequency a < 4295 \<and> 1000 \<le> time \<and> time \<le> time' \<and> time' < 1000 * 2 ^ 32 \<longrightarrow>
        (\<exists>n n'. time_to_ticks a time = Some n \<and> time_to_ticks a time' = Some n' \<and> n' \<le> n))"
proof -
  have conv: "time_to_ticks a t = (if 4295 \<le> base_frequency a \<or> (t div 1000) mod 2 ^ 32 = 0 then None
      else Some (base_frequency a * 1000000 div ((t div 1000) mod 2 ^ 32)))" for t
    by (simp add: time_to_ticks_def checked_u32_def Let_def)
  have mono: "\<exists>n n'. time_to_ticks a time = Some n \<and> time_to_ticks a time' = Some n' \<and> n' \<le> n"
    if "base_frequency a < 4295" "1000 \<le> time" "time \<le> time'" "time' < 1000 * 2 ^ 32"
  proof -
    have "time div 1000 \<le> time' div 1000" "0 < time div 1000" "time' div 1000 < 2 ^ 32"
      using that by (simp_all add: div_le_mono div_greater_zero_iff less_mult_imp_div_less)
    then show ?thesis using that(1) unfolding conv by (simp add: div_le_mono2)
  qed
  have "case time_to_ticks a time of None \<Rightarrow> (time div 1000) mod 2 ^ 32 = 0
      | Some n \<Rightarrow> n * ((time div 1000) mod 2 ^ 32) \<le> base_frequency a * 1000000" if "base_frequency a < 4295"
    using that by (simp add: conv div_times_less_eq_dividend)
  moreover have "time_to_ticks a time = None" if "4295 \<le> base_frequency a" using that by (simp add: conv)
  ultimately show ?thesis using mono by blast
qed

theorem time_to_ticks_inverse_witness:
  "time_to_ticks \<lparr> base_frequency = 100, tsc_deadline_supported = False, at_apic_id = 0 \<rparr> 1000000 = Some 100000
   \<and> time_to_ticks \<lparr> base_frequency = 100, tsc_deadline_supported = False, at_apic_id = 0 \<rparr> 1000000000 = Some 100
   \<and> (\<exists>n n'. time_to_ticks \<lparr> base_frequency = 100, tsc_deadline_supported = False, at_apic_id = 0 \<rparr> 1000000 = Some n
        \<and> time_to_ticks \<lparr> base_frequency = 100, tsc_deadline_supported = False, at_apic_id = 0 \<rparr> 1000000000 = Some n' \<and> n' \<le> n)"
proof -
  let ?a = "\<lparr> base_frequency = 100, tsc_deadline_supported = False, at_apic_id = 0 \<rparr>"
  have "time_to_ticks ?a 1000000 = Some 100000" "time_to_ticks ?a 1000000000 = Some 100"
    by (simp_all add: time_to_ticks_def checked_u32_def)
  then show ?thesis using time_to_ticks_inverse [of ?a 1000000 1000000000] by simp
qed

end
