(* ===== verification/Struct_Layout.thy ===== *)
theory Struct_Layout
  imports Bitfield
begin

text \<open>
  Structs in memory, as the \<open>repr(C)\<close> and \<open>repr(C, packed)\<close> structs of the kernel lay them out: a list of fields with
  their number of bytes, the bytes of given field values, and the field found at an offset.
\<close>

text \<open>Integers are stored with their low byte first.\<close>

fun le_value :: "u8 list \<Rightarrow> nat" where
  "le_value [] = 0"
| "le_value (b # bs) = unat b + 256 * le_value bs"

fun le_bytes :: "nat \<Rightarrow> nat \<Rightarrow> u8 list" where
  "le_bytes 0 v = []"
| "le_bytes (Suc n) v = of_nat v # le_bytes n (v div 256)"

lemma le_bytes_numeral: "le_bytes (numeral m) v = of_nat v # le_bytes (pred_numeral m) (v div 256)"
  by (subst numeral_eq_Suc) (rule le_bytes.simps(2))

text \<open>The fields of a struct with their number of bytes, in order and without padding: the structs are packed, or their
  fields are aligned as they are.\<close>

type_synonym struct_layout = "(string \<times> nat) list"

definition size_of :: "struct_layout \<Rightarrow> nat" where
  "size_of ly = sum_list (map snd ly)"

text \<open>The bytes of a struct with given field values.\<close>

definition struct_bytes :: "struct_layout \<Rightarrow> (string \<Rightarrow> nat) \<Rightarrow> u8 list" where
  "struct_bytes ly v = concat (map (\<lambda>(f, n). le_bytes n (v f)) ly)"

lemma length_le_bytes [simp]: "length (le_bytes n v) = n"
  by (induction n arbitrary: v) simp_all

lemma le_value_bytes: "le_value (le_bytes n v) = v mod 256 ^ n"
proof (induction n arbitrary: v)
  case (Suc n)
  have "unat (of_nat v :: u8) = v mod 256" by (simp add: unsigned_of_nat take_bit_eq_mod)
  with Suc show ?case by (simp add: mod_mult2_eq)
qed simp

lemma le_value_bytes_eq: "v < 256 ^ n \<Longrightarrow> le_value (le_bytes n v) = v"
  by (simp add: le_value_bytes)

lemma le_bytes_value: "length bs = n \<Longrightarrow> le_bytes n (le_value bs) = bs"
proof (induction bs arbitrary: n)
  case (Cons b bs)
  have z: "(256 :: u8) = 0" by simp
  have "of_nat (unat b + 256 * le_value bs) = b" by (simp add: z)
  moreover have "(unat b + 256 * le_value bs) div 256 = le_value bs" using unsigned_less [of b, where ?'a = nat] by simp
  ultimately show ?case using Cons by (cases n) simp_all
qed simp

lemma length_struct_bytes: "length (struct_bytes ly v) = size_of ly"
  by (induction ly) (auto simp: struct_bytes_def size_of_def)

lemma size_of_append: "size_of (ly @ ly') = size_of ly + size_of ly'"
  by (simp add: size_of_def)

lemma struct_bytes_append: "struct_bytes (ly @ ly') v = struct_bytes ly v @ struct_bytes ly' v"
  by (simp add: struct_bytes_def)

lemma struct_field:
  "field_at ly f b0 = Some (k, n) \<Longrightarrow> take n (drop (k - b0) (struct_bytes ly v @ bs)) = le_bytes n (v f) \<and> b0 \<le> k \<and> k - b0 + n \<le> size_of ly"
proof (induction ly f b0 rule: field_at.induct)
  case (2 g m ly f b0)
  show ?case
  proof (cases "g = f")
    case True
    with 2 show ?thesis by (auto simp: struct_bytes_def size_of_def)
  next
    case False
    then have fld: "field_at ly f (b0 + m) = Some (k, n)" using 2(2) by simp
    from 2(1) [OF False fld] have IH: "take n (drop (k - (b0 + m)) (struct_bytes ly v @ bs)) = le_bytes n (v f)" "b0 + m \<le> k" "k - (b0 + m) + n \<le> size_of ly"
      by blast+
    have "drop (k - b0) (struct_bytes ((g, m) # ly) v @ bs) = drop (k - (b0 + m)) (struct_bytes ly v @ bs)"
      using IH(2) by (simp add: struct_bytes_def)
    then show ?thesis using IH by (simp add: size_of_def del: take_append drop_append)
  qed
qed simp

lemma field_at_set: "field_at ly f b0 = Some (k, n) \<Longrightarrow> (f, n) \<in> set ly"
  by (induction ly f b0 rule: field_at.induct) (auto split: if_splits)

text \<open>Offsets and lengths of several fields of a layout with distinct names, checked in one pass over it.\<close>

fun offsets_ok :: "(string \<times> nat) list \<Rightarrow> nat \<Rightarrow> (string \<times> nat \<times> nat) list \<Rightarrow> bool" where
  "offsets_ok ly k [] = True"
| "offsets_ok [] k (x # xs) = False"
| "offsets_ok ((g, n) # ly) k ((f, j, m) # xs) =
     (if g = f then j = k \<and> m = n \<and> offsets_ok ly (k + n) xs else offsets_ok ly (k + n) ((f, j, m) # xs))"

lemma offsets_ok_field_at:
  "offsets_ok ly k xs \<Longrightarrow> distinct (map fst ly) \<Longrightarrow> (f, j, m) \<in> set xs \<Longrightarrow> field_at ly f k = Some (j, m)"
proof (induction ly k xs rule: offsets_ok.induct)
  case (3 g n ly k h i l xs)
  have name: "h' \<noteq> g" if "field_at ly h' (k + n) = Some (j, m)" for h'
    using field_at_set [OF that] 3(4) by force
  have later: "field_at ((g, n) # ly) f k = Some (j, m)" if "field_at ly f (k + n) = Some (j, m)"
    using that name [OF that] by auto
  show ?case
  proof (cases "g = h \<and> f = h \<and> i = j \<and> l = m")
    case True
    with 3 show ?thesis by simp
  next
    case False
    with 3 have "field_at ly f (k + n) = Some (j, m)" by (auto split: if_splits)
    then show ?thesis by (rule later)
  qed
qed simp_all

lemma offsets_ok_all:
  "offsets_ok ly 0 xs \<Longrightarrow> distinct (map fst ly) \<Longrightarrow> list_all (\<lambda>(f, j, m). field_at ly f 0 = Some (j, m)) xs"
  using offsets_ok_field_at [of ly 0 xs] by (auto simp: list_all_iff)

end
