(* ===== verification/Pcie.thy ===== *)
theory Pcie
  imports Paging_Manager
begin

text \<open>
  The PCI Express bus (\<open>drivers/src/bus/pcie.rs\<close>): the register offsets of the three header types, the
  address of a function in the memory-mapped configuration space, and the scan of all segment groups, which maps the
  page of every function it probes and unmaps it again when no function answers.  The configuration space is a parameter,
  the 32-bit register at every physical address; a read goes through the page tables, and a read of a page that is not
  mapped is a fault, modelled as \<open>None\<close>.  The heap memory of the vector of devices is not part of the state.
\<close>

subsection \<open>Headers\<close>

datatype StandardHeader = DeviceVendorId | StatusCommand | ClassRevision | BistHeaderLatencyCache | Bar0 | Bar1 | Bar2 | Bar3 | Bar4 | Bar5
  | CardbusPointer | SubsystemId | ExpansionRomBase | CapabilitiesPointer | HeaderReserved | InterruptInfo

fun standard_header_offset :: "StandardHeader \<Rightarrow> usize" where
  "standard_header_offset DeviceVendorId = 0x00"
| "standard_header_offset StatusCommand = 0x04"
| "standard_header_offset ClassRevision = 0x08"
| "standard_header_offset BistHeaderLatencyCache = 0x0C"
| "standard_header_offset Bar0 = 0x10"
| "standard_header_offset Bar1 = 0x14"
| "standard_header_offset Bar2 = 0x18"
| "standard_header_offset Bar3 = 0x1C"
| "standard_header_offset Bar4 = 0x20"
| "standard_header_offset Bar5 = 0x24"
| "standard_header_offset CardbusPointer = 0x28"
| "standard_header_offset SubsystemId = 0x2C"
| "standard_header_offset ExpansionRomBase = 0x30"
| "standard_header_offset CapabilitiesPointer = 0x34"
| "standard_header_offset HeaderReserved = 0x38"
| "standard_header_offset InterruptInfo = 0x3C"

datatype PciToPciHeader = BridgeDeviceVendorId | BridgeStatusCommand | BridgeClassRevision | BridgeBistHeaderLatencyCache
  | BridgeBar0 | BridgeBar1 | BridgeBusNumbers | SecondaryStatusIo | MemoryBase | PrefetchableMemoryBase | PrefetchableBaseUpper
  | PrefetchableLimitUpper | IoBaseUpper | BridgeCapabilitiesPointer | BridgeExpansionRomBase | BridgeControlInterrupt

fun pci_to_pci_header_offset :: "PciToPciHeader \<Rightarrow> usize" where
  "pci_to_pci_header_offset BridgeDeviceVendorId = 0x00"
| "pci_to_pci_header_offset BridgeStatusCommand = 0x04"
| "pci_to_pci_header_offset BridgeClassRevision = 0x08"
| "pci_to_pci_header_offset BridgeBistHeaderLatencyCache = 0x0C"
| "pci_to_pci_header_offset BridgeBar0 = 0x10"
| "pci_to_pci_header_offset BridgeBar1 = 0x14"
| "pci_to_pci_header_offset BridgeBusNumbers = 0x18"
| "pci_to_pci_header_offset SecondaryStatusIo = 0x1C"
| "pci_to_pci_header_offset MemoryBase = 0x20"
| "pci_to_pci_header_offset PrefetchableMemoryBase = 0x24"
| "pci_to_pci_header_offset PrefetchableBaseUpper = 0x28"
| "pci_to_pci_header_offset PrefetchableLimitUpper = 0x2C"
| "pci_to_pci_header_offset IoBaseUpper = 0x30"
| "pci_to_pci_header_offset BridgeCapabilitiesPointer = 0x34"
| "pci_to_pci_header_offset BridgeExpansionRomBase = 0x38"
| "pci_to_pci_header_offset BridgeControlInterrupt = 0x3C"

datatype PciToCardbusHeader = CardbusDeviceVendorId | CardbusStatusCommand | CardbusClassRevision | CardbusBistHeaderLatencyCache
  | CardbusSocketBase | SecondaryStatusCapabilities | CardbusBusNumbers | MemoryBase0 | MemoryLimit0 | MemoryBase1 | MemoryLimit1
  | IoBase0 | IoLimit0 | IoBase1 | IoLimit1 | CardbusBridgeControlInterrupt | CardbusSubsystemId | PcCardLegacyBase

fun pci_to_cardbus_header_offset :: "PciToCardbusHeader \<Rightarrow> usize" where
  "pci_to_cardbus_header_offset CardbusDeviceVendorId = 0x00"
| "pci_to_cardbus_header_offset CardbusStatusCommand = 0x04"
| "pci_to_cardbus_header_offset CardbusClassRevision = 0x08"
| "pci_to_cardbus_header_offset CardbusBistHeaderLatencyCache = 0x0C"
| "pci_to_cardbus_header_offset CardbusSocketBase = 0x10"
| "pci_to_cardbus_header_offset SecondaryStatusCapabilities = 0x14"
| "pci_to_cardbus_header_offset CardbusBusNumbers = 0x18"
| "pci_to_cardbus_header_offset MemoryBase0 = 0x1C"
| "pci_to_cardbus_header_offset MemoryLimit0 = 0x20"
| "pci_to_cardbus_header_offset MemoryBase1 = 0x24"
| "pci_to_cardbus_header_offset MemoryLimit1 = 0x28"
| "pci_to_cardbus_header_offset IoBase0 = 0x2C"
| "pci_to_cardbus_header_offset IoLimit0 = 0x30"
| "pci_to_cardbus_header_offset IoBase1 = 0x34"
| "pci_to_cardbus_header_offset IoLimit1 = 0x38"
| "pci_to_cardbus_header_offset CardbusBridgeControlInterrupt = 0x3C"
| "pci_to_cardbus_header_offset CardbusSubsystemId = 0x40"
| "pci_to_cardbus_header_offset PcCardLegacyBase = 0x44"

subsection \<open>Discovery\<close>

definition VENDOR_ID_INVALID :: u16 where "VENDOR_ID_INVALID = 0xFFFF"

record ConfigSpace =
  cs_base_address :: u64
  cs_segment_group_number :: u16
  cs_start_bus_number :: u8
  cs_end_bus_number :: u8
  cs_reserved :: u32

record PcieDevice =
  config_space :: MmioArea

record PcieManager =
  devices :: "PcieDevice list"

definition pcie_manager_new :: PcieManager where
  "pcie_manager_new = \<lparr> devices = [] \<rparr>"

definition pcie_device_new :: "MmioArea \<Rightarrow> PcieDevice" where
  "pcie_device_new cs = \<lparr> config_space = cs \<rparr>"

definition get_base_address :: "u8 \<Rightarrow> u8 \<Rightarrow> u8 \<Rightarrow> u64 \<Rightarrow> PhysAddr option" where
  "get_base_address bus dev fn base =
     uadd (unat base) (push_bit 20 (unat bus) OR push_bit 15 (unat dev) OR push_bit 12 (unat fn))"

text \<open>A read of a device register: the page of the area is translated, and the register at the offset is read.\<close>

definition config_read :: "usize \<Rightarrow> VirtAddr \<Rightarrow> (PhysAddr \<Rightarrow> u32) \<Rightarrow> KernelMem \<Rightarrow> MmioArea \<Rightarrow> usize \<Rightarrow> u32 option" where
  "config_read hhdm pml cfg k area off = do {
     tr \<leftarrow> manager_translate hhdm pml k (mmio_base area);
     p \<leftarrow> tr;
     Some (cfg (p + off)) }"

definition config_flags :: Flags where
  "config_flags = set_pat (set_read_write flags_new True) WriteThrough Size4KB"

definition check_device :: "usize \<Rightarrow> VirtAddr \<Rightarrow> (PhysAddr \<Rightarrow> u32) \<Rightarrow> KernelMem \<Rightarrow> u8 \<Rightarrow> u8 \<Rightarrow> u8 \<Rightarrow> u64
    \<Rightarrow> (MmioArea option \<times> KernelMem) option" where
  "check_device hhdm pml cfg k bus dev fn segment_group_base = do {
     phys_addr \<leftarrow> get_base_address bus dev fn segment_group_base;
     (r, k) \<leftarrow> manager_map_pages hhdm pml k phys_addr 1 config_flags Size4KB;
     p \<leftarrow> unwrap_ok r;
     let cs = mmio_new p;
     v \<leftarrow> config_read hhdm pml cfg k cs (standard_header_offset DeviceVendorId);
     (if v AND 0xffff = ucast VENDOR_ID_INVALID then do {
        (r, k) \<leftarrow> manager_unmap_pages hhdm pml k (mmio_base cs) 1 Size4KB;
        _ \<leftarrow> unwrap_ok r;
        Some (None, k) }
      else Some (Some cs, k)) }"

fun discover_functions :: "usize \<Rightarrow> VirtAddr \<Rightarrow> (PhysAddr \<Rightarrow> u32) \<Rightarrow> u8 \<Rightarrow> u8 \<Rightarrow> u64 \<Rightarrow> u8 list \<Rightarrow> PcieManager \<Rightarrow> KernelMem
    \<Rightarrow> (PcieManager \<times> KernelMem) option" where
  "discover_functions hhdm pml cfg bus dev base [] m k = Some (m, k)"
| "discover_functions hhdm pml cfg bus dev base (fn # fns) m k = do {
     (r, k) \<leftarrow> check_device hhdm pml cfg k bus dev fn base;
     (case r of
        Some cs \<Rightarrow> discover_functions hhdm pml cfg bus dev base fns (m \<lparr> devices := devices m @ [pcie_device_new cs] \<rparr>) k
      | None \<Rightarrow> discover_functions hhdm pml cfg bus dev base fns m k) }"

definition discover_device_functions :: "usize \<Rightarrow> VirtAddr \<Rightarrow> (PhysAddr \<Rightarrow> u32) \<Rightarrow> PcieManager \<Rightarrow> KernelMem \<Rightarrow> u8 \<Rightarrow> u8 \<Rightarrow> ConfigSpace
    \<Rightarrow> (PcieManager \<times> KernelMem) option" where
  "discover_device_functions hhdm pml cfg m k bus dev segment_group = do {
     (r, k) \<leftarrow> check_device hhdm pml cfg k bus dev 0 (cs_base_address segment_group);
     (case r of
        None \<Rightarrow> Some (m, k)
      | Some cs \<Rightarrow> do {
          let m = m \<lparr> devices := devices m @ [pcie_device_new cs] \<rparr>;
          v \<leftarrow> config_read hhdm pml cfg k (config_space (last (devices m))) (standard_header_offset BistHeaderLatencyCache);
          let header_type = drop_bit 16 v AND 0xff;
          (if header_type AND 0x80 \<noteq> 0
           then discover_functions hhdm pml cfg bus dev (cs_base_address segment_group) (map of_nat [1..<8]) m k
           else Some (m, k)) }) }"

fun discover_devices :: "usize \<Rightarrow> VirtAddr \<Rightarrow> (PhysAddr \<Rightarrow> u32) \<Rightarrow> ConfigSpace \<Rightarrow> (u8 \<times> u8) list \<Rightarrow> PcieManager \<Rightarrow> KernelMem
    \<Rightarrow> (PcieManager \<times> KernelMem) option" where
  "discover_devices hhdm pml cfg g [] m k = Some (m, k)"
| "discover_devices hhdm pml cfg g ((bus, dev) # ds) m k = do {
     (m, k) \<leftarrow> discover_device_functions hhdm pml cfg m k bus dev g;
     discover_devices hhdm pml cfg g ds m k }"

text \<open>The buses and devices of a segment group, in the order of the two nested loops.\<close>

definition bus_devices :: "ConfigSpace \<Rightarrow> (u8 \<times> u8) list" where
  "bus_devices g = List.product (map of_nat [unat (cs_start_bus_number g)..<Suc (unat (cs_end_bus_number g))]) (map of_nat [0..<32])"

fun brute_force_discover :: "usize \<Rightarrow> VirtAddr \<Rightarrow> (PhysAddr \<Rightarrow> u32) \<Rightarrow> ConfigSpace list \<Rightarrow> PcieManager \<Rightarrow> KernelMem
    \<Rightarrow> (PcieManager \<times> KernelMem) option" where
  "brute_force_discover hhdm pml cfg [] m k = Some (m, k)"
| "brute_force_discover hhdm pml cfg (g # gs) m k = do {
     (m, k) \<leftarrow> discover_devices hhdm pml cfg g (bus_devices g) m k;
     brute_force_discover hhdm pml cfg gs m k }"

text \<open>The messages logged for the devices with a known driver.\<close>

fun load_drivers_loop :: "usize \<Rightarrow> VirtAddr \<Rightarrow> (PhysAddr \<Rightarrow> u32) \<Rightarrow> KernelMem \<Rightarrow> PcieDevice list \<Rightarrow> string list option" where
  "load_drivers_loop hhdm pml cfg k [] = Some []"
| "load_drivers_loop hhdm pml cfg k (d # ds) = do {
     v \<leftarrow> config_read hhdm pml cfg k (config_space d) (standard_header_offset ClassRevision);
     let class_code = drop_bit 24 v;
     let subclass = drop_bit 16 v AND 0xff;
     let prog_if = drop_bit 8 v AND 0xff;
     log \<leftarrow> load_drivers_loop hhdm pml cfg k ds;
     Some ((if (class_code, subclass, prog_if) = (0x1, 0x8, 0x2) then [''Found NVMe''] else []) @ log) }"

definition load_device_drivers :: "usize \<Rightarrow> VirtAddr \<Rightarrow> (PhysAddr \<Rightarrow> u32) \<Rightarrow> KernelMem \<Rightarrow> PcieManager \<Rightarrow> string list option" where
  "load_device_drivers hhdm pml cfg k m = load_drivers_loop hhdm pml cfg k (devices m)"

definition pcie_manager_init :: "usize \<Rightarrow> VirtAddr \<Rightarrow> (PhysAddr \<Rightarrow> u32) \<Rightarrow> ConfigSpace list \<Rightarrow> PcieManager \<Rightarrow> KernelMem
    \<Rightarrow> ((unit + unit) \<times> string list \<times> PcieManager \<times> KernelMem) option" where
  "pcie_manager_init hhdm pml cfg segment_groups m k = do {
     (m, k) \<leftarrow> brute_force_discover hhdm pml cfg segment_groups m k;
     log \<leftarrow> load_device_drivers hhdm pml cfg k m;
     Some (Ok (), log, m, k) }"

definition pcie_device_drop :: "usize \<Rightarrow> VirtAddr \<Rightarrow> KernelMem \<Rightarrow> PcieDevice \<Rightarrow> KernelMem option" where
  "pcie_device_drop hhdm pml k d = do {
     (r, k) \<leftarrow> manager_unmap_pages hhdm pml k (mmio_base (config_space d)) 1 Size4KB;
     _ \<leftarrow> unwrap_ok r;
     Some k }"

subsection \<open>The scan as a specification\<close>

text \<open>The functions that answer, in the order of the scan: function 0 of every device and, when its header says so,
  functions 1 to 7.\<close>

definition ecam :: "ConfigSpace \<Rightarrow> u8 \<Rightarrow> u8 \<Rightarrow> nat \<Rightarrow> PhysAddr" where
  "ecam g bus dev n = unat (cs_base_address g) + unat bus * 0x100000 + unat dev * 0x8000 + n * BASIC_PAGE_SIZE"

definition answers :: "(PhysAddr \<Rightarrow> u32) \<Rightarrow> PhysAddr \<Rightarrow> bool" where
  "answers cfg p \<longleftrightarrow> take_bit 16 (cfg p) \<noteq> 0xFFFF"

definition multi_function :: "(PhysAddr \<Rightarrow> u32) \<Rightarrow> PhysAddr \<Rightarrow> bool" where
  "multi_function cfg p \<longleftrightarrow> answers cfg p \<and> bit (cfg (p + 0xC)) 23"

definition probed :: "(PhysAddr \<Rightarrow> u32) \<Rightarrow> ConfigSpace \<Rightarrow> u8 \<times> u8 \<Rightarrow> PhysAddr list" where
  "probed cfg g d = map (ecam g (fst d) (snd d)) [0..<(if multi_function cfg (ecam g (fst d) (snd d) 0) then 8 else 1)]"

definition all_probed :: "(PhysAddr \<Rightarrow> u32) \<Rightarrow> ConfigSpace list \<Rightarrow> PhysAddr list" where
  "all_probed cfg gs = concat (map (\<lambda>g. concat (map (probed cfg g) (bus_devices g))) gs)"

subsection \<open>One page of device registers\<close>

text \<open>The state during the scan: \<open>D\<close> maps page addresses to what is mapped there, \<open>F\<close> is a set of bytes
  without tables that is kept apart from the free memory \<open>U\<close> (the frames of the kernel's own pages).  The page
  numbers from \<open>n0\<close> on that are not in \<open>D\<close> do not translate.\<close>

definition absent :: "usize \<Rightarrow> Paging \<Rightarrow> VirtAddr \<Rightarrow> nat \<Rightarrow> bool" where
  "absent hhdm t pml va \<longleftrightarrow> (\<exists>l e. ends hhdm t pml va l e \<and> \<not> bit e 0)"

definition scan_ok :: "nat \<Rightarrow> nat \<Rightarrow> usize \<Rightarrow> VirtAddr \<Rightarrow> nat \<Rightarrow> nat \<Rightarrow> nat set \<Rightarrow> KernelMem \<Rightarrow> (nat \<rightharpoonup> nat) \<Rightarrow> nat set \<Rightarrow> bool" where
  "scan_ok L M hhdm pml n0 lim F k D U \<longleftrightarrow>
     pt_wf hhdm (km_paging k) pml (U \<union> F) \<and> pmm_free_bytes L M (pg_pmm (km_paging k)) U \<and> M + hhdm \<le> USIZE_LIM \<and> 0 < hhdm \<and> F \<inter> U = {}
     \<and> lim \<le> id_val (hander_max (vaa_hander (km_vaa k))) \<and> lim \<le> 2 ^ 36 \<and> n0 \<le> vaa_next k \<and> vaa_next k \<le> lim
     \<and> (\<forall>va pa. D va = Some pa \<longrightarrow> BASIC_PAGE_SIZE dvd va \<and> va < 2 ^ 48 \<and> va div BASIC_PAGE_SIZE \<notin> {vaa_next k..<lim} \<and> page_leaf hhdm (km_paging k) pml va pa)
     \<and> (\<forall>n \<in> {vaa_next k..<lim}. unmapped hhdm (km_paging k) pml (n * BASIC_PAGE_SIZE))
     \<and> (\<forall>n \<in> {n0..<vaa_next k}. n * BASIC_PAGE_SIZE \<notin> dom D \<longrightarrow> absent hhdm (km_paging k) pml (n * BASIC_PAGE_SIZE))"

lemma scan_okD:
  assumes "scan_ok L M hhdm pml n0 lim F k D U"
  shows "pt_wf hhdm (km_paging k) pml (U \<union> F)" and "pmm_free_bytes L M (pg_pmm (km_paging k)) U" and "M + hhdm \<le> USIZE_LIM" and "0 < hhdm"
    and "F \<inter> U = {}" and "lim \<le> id_val (hander_max (vaa_hander (km_vaa k)))" and "lim \<le> 2 ^ 36" and "n0 \<le> vaa_next k"
    and "D va = Some pa \<Longrightarrow> BASIC_PAGE_SIZE dvd va \<and> va < 2 ^ 48 \<and> va div BASIC_PAGE_SIZE \<notin> {vaa_next k..<lim} \<and> page_leaf hhdm (km_paging k) pml va pa"
    and "vaa_next k \<le> n \<Longrightarrow> n < lim \<Longrightarrow> unmapped hhdm (km_paging k) pml (n * BASIC_PAGE_SIZE)"
    and "n0 \<le> n \<Longrightarrow> n < vaa_next k \<Longrightarrow> n * BASIC_PAGE_SIZE \<notin> dom D \<Longrightarrow> absent hhdm (km_paging k) pml (n * BASIC_PAGE_SIZE)"
    and "vaa_next k \<le> lim"
  using assms unfolding scan_ok_def by auto

text \<open>The kernel with its allocated pages is such a state.\<close>

lemma scan_ok_of_km:
  assumes "km_ok L M hhdm pml lim k P U" and "vaa_next k \<le> lim"
  shows "scan_ok L M hhdm pml (vaa_next k) lim (frames P) k P U"
proof -
  from assms(1) have inv: "mem_inv L M hhdm pml (km_paging k) P U {vaa_next k..<lim}"
    and lim: "lim \<le> id_val (hander_max (vaa_hander (km_vaa k)))" "lim \<le> 2 ^ 36" by (auto simp: km_ok_def)
  note I = mem_invD [OF inv]
  show ?thesis unfolding scan_ok_def
  proof (intro conjI I(1-5) lim order_refl assms(2) allI impI ballI)
    fix va pa assume "P va = Some pa"
    from I(7) [OF this] show "BASIC_PAGE_SIZE dvd va" "va < 2 ^ 48" "va div BASIC_PAGE_SIZE \<notin> {vaa_next k..<lim}" "page_leaf hhdm (km_paging k) pml va pa"
      by simp_all
  next
    fix n assume "n \<in> {vaa_next k..<lim}"
    from I(8) [OF this] show "unmapped hhdm (km_paging k) pml (n * BASIC_PAGE_SIZE)" by blast
  qed simp
qed

lemma absent_translate:
  assumes "pt_wf hhdm t pml V"
  shows "absent hhdm t pml va \<longleftrightarrow> translate hhdm t pml va = Some None"
proof -
  obtain l e where le: "leaf hhdm t pml va l e" by (rule leaf_ex [OF assms])
  from translate_leaf [OF assms le] have tr: "translate hhdm t pml va = Some None \<longleftrightarrow> \<not> bit e 0" by simp
  have "absent hhdm t pml va \<longleftrightarrow> \<not> bit e 0"
  proof
    assume "absent hhdm t pml va"
    then obtain l' e' where e': "ends hhdm t pml va l' e'" "\<not> bit e' 0" by (auto simp: absent_def)
    then obtain l'' where "leaf hhdm t pml va l'' e'" by (auto simp: ends_def split: if_splits)
    from leaf_unique(2) [OF le this] e' show "\<not> bit e 0" by simp
  next
    assume "\<not> bit e 0"
    then show "absent hhdm t pml va" using le unfolding absent_def ends_def by (metis (full_types))
  qed
  with tr show ?thesis by blast
qed

lemma scan_translate:
  assumes "scan_ok L M hhdm pml n0 lim F k D U"
  shows "D va = Some pa \<Longrightarrow> manager_translate hhdm pml k va = Some (Some pa)"
    and "n0 \<le> n \<Longrightarrow> n < vaa_next k \<Longrightarrow> n * BASIC_PAGE_SIZE \<notin> dom D \<Longrightarrow> manager_translate hhdm pml k (n * BASIC_PAGE_SIZE) = Some None"
  using page_leaf_translate [OF scan_okD(1) [OF assms]] scan_okD(9,11) [OF assms] absent_translate [OF scan_okD(1) [OF assms]]
  by (auto simp: manager_translate_def)

lemma manager_map_page:
  assumes ok: "scan_ok L M hhdm pml n0 lim F k D U" and room: "vaa_next k < lim" "3 * BASIC_PAGE_SIZE \<le> card U"
    and pa: "BASIC_PAGE_SIZE dvd pa" "pa + BASIC_PAGE_SIZE \<le> USIZE_LIM" and f: "flags_ok Size4KB f" "\<not> get_allocated f"
  obtains k' U' where "manager_map_pages hhdm pml k pa 1 f Size4KB = Some (Ok (vaa_next k * BASIC_PAGE_SIZE), k')"
    and "vaa_next k' = vaa_next k + 1" and "scan_ok L M hhdm pml n0 lim F k' (D(vaa_next k * BASIC_PAGE_SIZE \<mapsto> pa)) U'"
    and "card U \<le> card U' + 3 * BASIC_PAGE_SIZE" and "vaa_next k * BASIC_PAGE_SIZE \<notin> dom D"
proof -
  note S = scan_okD [OF ok]
  let ?n = "vaa_next k"
  let ?va = "?n * BASIC_PAGE_SIZE"
  have n: "?n < 2 ^ 36" "?n + 1 \<le> lim" using room(1) S(7) by simp_all
  from vaa_handout_4k [OF n(2) S(6,7)] obtain v where v: "vaa_handout (km_vaa k) 1 (page_alignment Size4KB) = Some (?va, v)"
    "id_val (hander_next (vaa_hander v)) = ?n + 1" "hander_max (vaa_hander v) = hander_max (vaa_hander (km_vaa k))" by blast
  obtain t' U' where m: "map_pages hhdm (km_paging k) pml ?va pa 1 Size4KB f = Some (Ok (), t')" "pt_wf hhdm t' pml (U' \<union> F)"
    "pmm_free_bytes L M (pg_pmm t') U'" "U' \<subseteq> U" "card U \<le> card U' + 3 * BASIC_PAGE_SIZE" "page_leaf hhdm t' pml ?va pa"
    and keep: "\<And>va' lc ec. va' < 2 ^ 48 \<Longrightarrow> BASIC_PAGE_SIZE dvd va' \<Longrightarrow> va' \<noteq> ?va \<Longrightarrow> ends hhdm (km_paging k) pml va' lc ec \<Longrightarrow> ends hhdm t' pml va' lc ec"
    by (rule map_given_frame [OF S(1-5) n(1) S(10) [OF order_refl room(1)] room(2) pa f]) (rule that)
  define k' where "k' = k \<lparr> km_vaa := v, km_paging := t' \<rparr>"
  have k': "km_paging k' = t'" "km_vaa k' = v" "vaa_next k' = ?n + 1" using v(2) by (simp_all add: k'_def vaa_next_def)
  have va: "?va < 2 ^ 48" using n(1) by (simp add: BASIC_PAGE_SIZE_def)
  have notin: "?va \<notin> dom D"
  proof
    assume "?va \<in> dom D"
    then obtain q where "D ?va = Some q" by blast
    from S(9) [OF this] room(1) show False by (simp add: BASIC_PAGE_SIZE_def)
  qed
  have page48: "q * BASIC_PAGE_SIZE < 2 ^ 48" if "q < lim" for q using that S(7) by (simp add: BASIC_PAGE_SIZE_def)
  have "scan_ok L M hhdm pml n0 lim F k' (D(?va \<mapsto> pa)) U'"
    unfolding scan_ok_def k'(1,2,3) v(3)
  proof (intro conjI m(2,3) S(3,4,6,7) allI impI ballI)
    show "F \<inter> U' = {}" using S(5) m(4) by blast
    show "n0 \<le> ?n + 1" "?n + 1 \<le> lim" using S(8) n(2) by simp_all
  next
    fix va' pa' assume D: "(D(?va \<mapsto> pa)) va' = Some pa'"
    show "BASIC_PAGE_SIZE dvd va'" "va' < 2 ^ 48" "va' div BASIC_PAGE_SIZE \<notin> {?n + 1..<lim}" "page_leaf hhdm t' pml va' pa'"
      using D va m(6) S(9) [of va' pa'] keep [of va'] by (auto simp: BASIC_PAGE_SIZE_def page_leaf_def split: if_splits)
  next
    fix q assume q: "q \<in> {?n + 1..<lim}"
    then show "unmapped hhdm t' pml (q * BASIC_PAGE_SIZE)"
      by (intro keep page48 S(10)) (auto simp: BASIC_PAGE_SIZE_def)
  next
    fix q assume q: "q \<in> {n0..<?n + 1}" "q * BASIC_PAGE_SIZE \<notin> dom (D(?va \<mapsto> pa))"
    then have "q \<noteq> ?n" by auto
    with q have "q < ?n" "absent hhdm (km_paging k) pml (q * BASIC_PAGE_SIZE)" using S(11) [of q] by auto
    then show "absent hhdm t' pml (q * BASIC_PAGE_SIZE)"
      unfolding absent_def using keep [of "q * BASIC_PAGE_SIZE"] page48 [of q] room(1) by (auto simp: BASIC_PAGE_SIZE_def)
  qed
  moreover have "manager_map_pages hhdm pml k pa 1 f Size4KB = Some (Ok ?va, k')"
    using v(1) m(1) by (simp add: manager_map_pages_def map_pages_to_def k'_def Let_def)
  ultimately show ?thesis using that k'(3) m(5) notin by blast
qed

lemma manager_unmap_page:
  assumes ok: "scan_ok L M hhdm pml n0 lim F k D U" and D: "D va = Some pa"
  obtains k' where "manager_unmap_pages hhdm pml k va 1 Size4KB = Some (Ok (), k')" and "vaa_next k' = vaa_next k"
    and "scan_ok L M hhdm pml n0 lim F k' (D(va := None)) U" and "manager_translate hhdm pml k' va = Some None"
proof -
  note S = scan_okD [OF ok]
  note D' = S(9) [OF D]
  from D' have va: "BASIC_PAGE_SIZE dvd va" "va < 2 ^ 48" by simp_all
  have run: "next_level_index va 0 + 1 \<le> ENTRIES_PER_TABLE" using next_level_index_lt [of va 0] by simp
  obtain t' where u: "unmap_pages hhdm (km_paging k) pml va 1 Size4KB = Some (Ok (), t')" "pg_pmm t' = pg_pmm (km_paging k)"
      "pt_wf hhdm t' pml (U \<union> F)" and gone: "\<And>i. i < 1 \<Longrightarrow> translate hhdm t' pml (va + i * BASIC_PAGE_SIZE) = Some None"
    and keep0: "\<And>va' lc ec. va' < 2 ^ 48 \<Longrightarrow> BASIC_PAGE_SIZE dvd va' \<Longrightarrow> va' \<notin> {va + i * BASIC_PAGE_SIZE | i. i < 1}
      \<Longrightarrow> ends hhdm (km_paging k) pml va' lc ec \<Longrightarrow> ends hhdm t' pml va' lc ec"
  proof (rule unmap_leaf_run [OF S(1) va(1) _ _ run zero_less_one])
    fix i :: nat assume "i < 1"
    then show "\<exists>pa. page_leaf hhdm (km_paging k) pml (va + i * BASIC_PAGE_SIZE) pa" "va + i * BASIC_PAGE_SIZE < 2 ^ 48" using D' by auto
  qed (rule that)
  have keep: "ends hhdm t' pml va' lc ec" if "va' < 2 ^ 48" "BASIC_PAGE_SIZE dvd va'" "va' \<noteq> va" "ends hhdm (km_paging k) pml va' lc ec" for va' lc ec
    by (rule keep0) (use that in auto)
  from gone [of 0] have va_gone: "translate hhdm t' pml va = Some None" by simp
  define k' where "k' = k \<lparr> km_paging := t' \<rparr>"
  have k': "km_paging k' = t'" "km_vaa k' = km_vaa k" "vaa_next k' = vaa_next k" by (simp_all add: k'_def vaa_next_def)
  have page48: "q * BASIC_PAGE_SIZE < 2 ^ 48" if "q < 2 ^ 36" for q using that by (simp add: BASIC_PAGE_SIZE_def)
  have "scan_ok L M hhdm pml n0 lim F k' (D(va := None)) U"
    unfolding scan_ok_def k'
  proof (intro conjI u(3) S(3-8,12) allI impI ballI)
    show "pmm_free_bytes L M (pg_pmm t') U" using S(2) u(2) by simp
  next
    fix va' pa' assume "(D(va := None)) va' = Some pa'"
    then have "D va' = Some pa'" "va' \<noteq> va" by (simp_all split: if_splits)
    with S(9) [of va' pa'] keep [of va']
    show "BASIC_PAGE_SIZE dvd va'" "va' < 2 ^ 48" "va' div BASIC_PAGE_SIZE \<notin> {vaa_next k..<lim}" "page_leaf hhdm t' pml va' pa'"
      by (auto simp: page_leaf_def)
  next
    fix q assume q: "q \<in> {vaa_next k..<lim}"
    moreover have "q * BASIC_PAGE_SIZE \<noteq> va" using D' q by (auto simp: BASIC_PAGE_SIZE_def)
    ultimately show "unmapped hhdm t' pml (q * BASIC_PAGE_SIZE)" using S(7) by (intro keep page48 S(10)) auto
  next
    fix q assume q: "q \<in> {n0..<vaa_next k}" "q * BASIC_PAGE_SIZE \<notin> dom (D(va := None))"
    show "absent hhdm t' pml (q * BASIC_PAGE_SIZE)"
    proof (cases "q * BASIC_PAGE_SIZE = va")
      case True
      then show ?thesis using va_gone absent_translate [OF u(3)] by simp
    next
      case False
      then have "absent hhdm (km_paging k) pml (q * BASIC_PAGE_SIZE)" using S(11) [of q] q by auto
      moreover have "q * BASIC_PAGE_SIZE < 2 ^ 48" using page48 [of q] q(1) S(7,12) by simp
      ultimately show ?thesis using keep [of "q * BASIC_PAGE_SIZE"] False by (auto simp: absent_def)
    qed
  qed
  then show ?thesis using that k'(3) u(1) va_gone by (simp add: manager_unmap_pages_def k'_def manager_translate_def)
qed

subsection \<open>Probing functions\<close>

lemma config_flags_ok: "flags_ok Size4KB config_flags" "\<not> get_allocated config_flags"
  by (auto simp: config_flags_def flags_ok_def flag_bits flags_new_def FLAGS_NONE_def set_pat_bits bit_numeral_rec split: if_splits)

text \<open>A segment group whose functions all have an address.\<close>

definition group_ok :: "ConfigSpace \<Rightarrow> bool" where
  "group_ok g \<longleftrightarrow> BASIC_PAGE_SIZE dvd unat (cs_base_address g) \<and> unat (cs_base_address g) + 0x10000000 \<le> USIZE_LIM"

lemma or_fields:
  fixes a b c :: nat
  assumes "b < 32" and "c < 8"
  shows "push_bit 20 a OR push_bit 15 b OR push_bit 12 c = a * 0x100000 + b * 0x8000 + c * 0x1000"
proof -
  have lim: "n < 5" if "bit b n" for n using take_bit_nat_eq_self_iff [of 5 b] assms(1) that bit_take_bit_iff [of 5 b n] by simp
  have limc: "n < 3" if "bit c n" for n using take_bit_nat_eq_self_iff [of 3 c] assms(2) that bit_take_bit_iff [of 3 c n] by simp
  have bc: "push_bit 15 b AND push_bit 12 c = 0"
    by (rule bit_eqI) (auto simp: bit_and_iff bit_push_bit_iff dest: limc)
  have "push_bit 20 a AND (push_bit 15 b OR push_bit 12 c) = 0"
    by (rule bit_eqI) (auto simp: bit_and_iff bit_or_iff bit_push_bit_iff dest: limc lim)
  with bc show ?thesis by (simp add: disjunctive_add_eq_or [symmetric] push_bit_eq_mult)
qed

lemma get_base_address_ecam:
  assumes "group_ok g" and "unat dev < 32" and "n < 8"
  shows "get_base_address bus dev (of_nat n) (cs_base_address g) = Some (ecam g bus dev n)"
    and "BASIC_PAGE_SIZE dvd ecam g bus dev n" and "ecam g bus dev n + BASIC_PAGE_SIZE \<le> USIZE_LIM"
proof -
  have n: "unat (of_nat n :: u8) = n" using assms(3) by (simp add: unsigned_of_nat take_bit_nat_eq_self)
  have "unat bus < 256" using unsigned_less [of bus] by simp
  with assms have lim: "ecam g bus dev n + BASIC_PAGE_SIZE \<le> unat (cs_base_address g) + 0x10000000"
    by (simp add: ecam_def BASIC_PAGE_SIZE_def)
  then show "ecam g bus dev n + BASIC_PAGE_SIZE \<le> USIZE_LIM" using assms(1) by (simp add: group_ok_def)
  then show "get_base_address bus dev (of_nat n) (cs_base_address g) = Some (ecam g bus dev n)"
    using or_fields [OF assms(2,3)] by (simp add: get_base_address_def n ecam_def BASIC_PAGE_SIZE_def uadd_ok)
  have "BASIC_PAGE_SIZE dvd unat bus * 0x100000" "BASIC_PAGE_SIZE dvd unat dev * 0x8000"
    by (simp_all add: BASIC_PAGE_SIZE_def dvd_mult)
  then show "BASIC_PAGE_SIZE dvd ecam g bus dev n" using assms(1) unfolding ecam_def group_ok_def by (intro dvd_add dvd_triv_right) simp_all
qed

text \<open>Probing one function takes one page number; the page stays mapped exactly when the function answers.\<close>

lemma check_device_spec:
  assumes ok: "scan_ok L M hhdm pml n0 lim F k D U" and room: "vaa_next k < lim" "3 * BASIC_PAGE_SIZE \<le> card U"
    and g: "group_ok g" and dev: "unat dev < 32" and n: "n < 8"
  obtains k' U' where "check_device hhdm pml cfg k bus dev (of_nat n) (cs_base_address g) =
        Some (if answers cfg (ecam g bus dev n) then Some (mmio_new (vaa_next k * BASIC_PAGE_SIZE)) else None, k')"
    and "vaa_next k' = vaa_next k + 1" and "card U \<le> card U' + 3 * BASIC_PAGE_SIZE"
    and "scan_ok L M hhdm pml n0 lim F k' (if answers cfg (ecam g bus dev n) then D(vaa_next k * BASIC_PAGE_SIZE \<mapsto> ecam g bus dev n) else D) U'"
proof -
  let ?va = "vaa_next k * BASIC_PAGE_SIZE" and ?pa = "ecam g bus dev n"
  note addr = get_base_address_ecam [OF g dev n, of bus]
  obtain k1 U1 where m: "manager_map_pages hhdm pml k ?pa 1 config_flags Size4KB = Some (Ok ?va, k1)" "vaa_next k1 = vaa_next k + 1"
    "scan_ok L M hhdm pml n0 lim F k1 (D(?va \<mapsto> ?pa)) U1" "card U \<le> card U1 + 3 * BASIC_PAGE_SIZE" "?va \<notin> dom D"
    by (rule manager_map_page [OF ok room addr(2,3) config_flags_ok]) (rule that)
  have D: "(D(?va \<mapsto> ?pa)) ?va = Some ?pa" by simp
  from scan_translate(1) [OF m(3) D] have rd: "config_read hhdm pml cfg k1 (mmio_new ?va) 0 = Some (cfg ?pa)"
    by (simp add: config_read_def mmio_new_def)
  have ans: "cfg ?pa AND 0xffff = ucast VENDOR_ID_INVALID \<longleftrightarrow> \<not> answers cfg ?pa"
    using take_bit_eq_mask [of 16 "cfg ?pa"] by (simp add: answers_def VENDOR_ID_INVALID_def mask_eq_exp_minus_1)
  show ?thesis
  proof (cases "answers cfg ?pa")
    case True
    with m(1) rd ans have "check_device hhdm pml cfg k bus dev (of_nat n) (cs_base_address g) = Some (Some (mmio_new ?va), k1)"
      by (simp add: check_device_def addr(1))
    with True m show ?thesis using that [of k1 U1] by simp
  next
    case False
    obtain k2 where u: "manager_unmap_pages hhdm pml k1 ?va 1 Size4KB = Some (Ok (), k2)" "vaa_next k2 = vaa_next k1"
      "scan_ok L M hhdm pml n0 lim F k2 ((D(?va \<mapsto> ?pa))(?va := None)) U1"
      by (rule manager_unmap_page [OF m(3) D]) (rule that)
    moreover have "(D(?va \<mapsto> ?pa))(?va := None) = D" using m(5) by (auto simp: fun_eq_iff)
    moreover from False m(1) rd ans u(1) have "check_device hhdm pml cfg k bus dev (of_nat n) (cs_base_address g) = Some (None, k2)"
      by (simp add: check_device_def addr(1) mmio_new_def)
    ultimately show ?thesis using that [of k2 U1] False m(2,4) by simp
  qed
qed

subsection \<open>The whole scan\<close>

text \<open>What probing the addresses \<open>ps\<close> in this order does: every function that answers is added to the devices, each with a
  page of its own.\<close>

definition scanned :: "(PhysAddr \<Rightarrow> u32) \<Rightarrow> nat \<Rightarrow> nat \<Rightarrow> usize \<Rightarrow> VirtAddr \<Rightarrow> nat \<Rightarrow> nat \<Rightarrow> nat set \<Rightarrow> PhysAddr list
    \<Rightarrow> PcieManager \<times> KernelMem \<times> (nat \<rightharpoonup> nat) \<times> nat set \<Rightarrow> PcieManager \<times> KernelMem \<times> (nat \<rightharpoonup> nat) \<times> nat set \<Rightarrow> bool" where
  "scanned cfg L M hhdm pml n0 lim F ps = (\<lambda>(m, k, D, U) (m', k', D', U').
     \<exists>vas. devices m' = devices m @ map (pcie_device_new \<circ> mmio_new) vas \<and> D' = D(vas [\<mapsto>] filter (answers cfg) ps)
       \<and> length vas = length (filter (answers cfg) ps) \<and> distinct vas
       \<and> set vas \<subseteq> (\<lambda>n. n * BASIC_PAGE_SIZE) ` {vaa_next k..<vaa_next k'}
       \<and> vaa_next k' = vaa_next k + length ps \<and> card U \<le> card U' + 3 * length ps * BASIC_PAGE_SIZE
       \<and> scan_ok L M hhdm pml n0 lim F k' D' U')"

lemma scanned_Nil: "scan_ok L M hhdm pml n0 lim F k D U \<Longrightarrow> scanned cfg L M hhdm pml n0 lim F [] (m, k, D, U) (m, k, D, U)"
  by (simp add: scanned_def)

lemma scanned_ok: "scanned cfg L M hhdm pml n0 lim F ps s (m', k', D', U') \<Longrightarrow> scan_ok L M hhdm pml n0 lim F k' D' U'"
  by (auto simp: scanned_def split: prod.splits)

lemma scanned_room:
  assumes "scanned cfg L M hhdm pml n0 lim F ps (m, k, D, U) (m', k', D', U')"
    and "vaa_next k + length (ps @ qs) \<le> lim" and "3 * length (ps @ qs) * BASIC_PAGE_SIZE \<le> card U"
  shows "vaa_next k' + length qs \<le> lim" and "3 * length qs * BASIC_PAGE_SIZE \<le> card U'"
  using assms by (auto simp: scanned_def algebra_simps)

lemma map_upds_append:
  "length xs = length ys \<Longrightarrow> m(xs @ xs' [\<mapsto>] ys @ ys') = (m(xs [\<mapsto>] ys))(xs' [\<mapsto>] ys')"
  by (simp add: map_upds_def)

lemma scanned_append:
  assumes "scanned cfg L M hhdm pml n0 lim F ps (m, k, D, U) (m', k', D', U')"
    and "scanned cfg L M hhdm pml n0 lim F qs (m', k', D', U') (m'', k'', D'', U'')"
  shows "scanned cfg L M hhdm pml n0 lim F (ps @ qs) (m, k, D, U) (m'', k'', D'', U'')"
proof -
  from assms(1) obtain v where v: "devices m' = devices m @ map (pcie_device_new \<circ> mmio_new) v" "D' = D(v [\<mapsto>] filter (answers cfg) ps)"
    "length v = length (filter (answers cfg) ps)" "distinct v" "set v \<subseteq> (\<lambda>n. n * BASIC_PAGE_SIZE) ` {vaa_next k..<vaa_next k'}"
    "vaa_next k' = vaa_next k + length ps" "card U \<le> card U' + 3 * length ps * BASIC_PAGE_SIZE" by (auto simp: scanned_def)
  from assms(2) obtain w where w: "devices m'' = devices m' @ map (pcie_device_new \<circ> mmio_new) w" "D'' = D'(w [\<mapsto>] filter (answers cfg) qs)"
    "length w = length (filter (answers cfg) qs)" "distinct w" "set w \<subseteq> (\<lambda>n. n * BASIC_PAGE_SIZE) ` {vaa_next k'..<vaa_next k''}"
    "vaa_next k'' = vaa_next k' + length qs" "card U' \<le> card U'' + 3 * length qs * BASIC_PAGE_SIZE"
    "scan_ok L M hhdm pml n0 lim F k'' D'' U''" by (auto simp: scanned_def)
  have "set v \<inter> set w = {}" using v(5) w(5) by (force simp: BASIC_PAGE_SIZE_def)
  moreover have "set (v @ w) \<subseteq> (\<lambda>n. n * BASIC_PAGE_SIZE) ` {vaa_next k..<vaa_next k''}"
    using v(5,6) w(5,6) by fastforce
  moreover have "card U \<le> card U'' + 3 * length (ps @ qs) * BASIC_PAGE_SIZE" using v(7) w(7) by (simp add: algebra_simps)
  ultimately show ?thesis
    using v w unfolding scanned_def by (auto intro!: exI [of _ "v @ w"] simp: map_upds_append)
qed

lemma scanned_one:
  assumes ok: "scan_ok L M hhdm pml n0 lim F k D U" and room: "vaa_next k < lim" "3 * BASIC_PAGE_SIZE \<le> card U"
    and g: "group_ok g" and dev: "unat dev < 32" and n: "n < 8"
  obtains m' k' D' U' r where "check_device hhdm pml cfg k bus dev (of_nat n) (cs_base_address g) = Some (r, k')"
    and "(r \<noteq> None) = answers cfg (ecam g bus dev n)"
    and "m' = (case r of Some cs \<Rightarrow> m \<lparr> devices := devices m @ [pcie_device_new cs] \<rparr> | None \<Rightarrow> m)"
    and "scanned cfg L M hhdm pml n0 lim F [ecam g bus dev n] (m, k, D, U) (m', k', D', U')"
    and "\<And>cs off. r = Some cs \<Longrightarrow> config_read hhdm pml cfg k' cs off = Some (cfg (ecam g bus dev n + off))"
proof -
  let ?va = "vaa_next k * BASIC_PAGE_SIZE" and ?pa = "ecam g bus dev n"
  obtain k' U' where c: "check_device hhdm pml cfg k bus dev (of_nat n) (cs_base_address g) =
        Some (if answers cfg ?pa then Some (mmio_new ?va) else None, k')" "vaa_next k' = vaa_next k + 1"
    "card U \<le> card U' + 3 * BASIC_PAGE_SIZE"
    "scan_ok L M hhdm pml n0 lim F k' (if answers cfg ?pa then D(?va \<mapsto> ?pa) else D) U'"
    by (rule check_device_spec [OF ok room g dev n]) (rule that)
  show ?thesis
  proof (cases "answers cfg ?pa")
    case True
    with c(4) have ok': "scan_ok L M hhdm pml n0 lim F k' (D(?va \<mapsto> ?pa)) U'" by simp
    let ?m = "m \<lparr> devices := devices m @ [pcie_device_new (mmio_new ?va)] \<rparr>"
    from scan_translate(1) [OF ok', of ?va ?pa] have "config_read hhdm pml cfg k' (mmio_new ?va) off = Some (cfg (?pa + off))" for off
      by (simp add: config_read_def mmio_new_def)
    moreover have "scanned cfg L M hhdm pml n0 lim F [?pa] (m, k, D, U) (?m, k', D(?va \<mapsto> ?pa), U')"
      using True c(2,3) ok' by (auto simp: scanned_def intro!: exI [of _ "[?va]"])
    ultimately show ?thesis using True c(1) by (intro that [of "Some (mmio_new ?va)" k']) auto
  next
    case False
    with c have "scanned cfg L M hhdm pml n0 lim F [?pa] (m, k, D, U) (m, k', D, U')" by (simp add: scanned_def)
    with False c(1) show ?thesis by (intro that [of None k']) auto
  qed
qed

lemma discover_functions_spec:
  assumes g: "group_ok g" and dev: "unat dev < 32"
  shows "list_all (\<lambda>n. n < 8) ns \<Longrightarrow> scan_ok L M hhdm pml n0 lim F k D U \<Longrightarrow> vaa_next k + length ns \<le> lim \<Longrightarrow> 3 * length ns * BASIC_PAGE_SIZE \<le> card U
    \<Longrightarrow> \<exists>m' k' D' U'. discover_functions hhdm pml cfg bus dev (cs_base_address g) (map of_nat ns) m k = Some (m', k')
      \<and> scanned cfg L M hhdm pml n0 lim F (map (ecam g bus dev) ns) (m, k, D, U) (m', k', D', U')"
proof (induction ns arbitrary: m k D U)
  case Nil
  then show ?case using scanned_Nil by fastforce
next
  case (Cons n ns)
  have pre: "vaa_next k < lim" "3 * BASIC_PAGE_SIZE \<le> card U" "n < 8" "list_all (\<lambda>n. n < 8) ns" using Cons.prems by (simp_all add: BASIC_PAGE_SIZE_def)
  obtain m1 k1 D1 U1 r where c: "check_device hhdm pml cfg k bus dev (of_nat n) (cs_base_address g) = Some (r, k1)"
    "m1 = (case r of Some cs \<Rightarrow> m \<lparr> devices := devices m @ [pcie_device_new cs] \<rparr> | None \<Rightarrow> m)"
    and sc: "scanned cfg L M hhdm pml n0 lim F [ecam g bus dev n] (m, k, D, U) (m1, k1, D1, U1)"
    by (rule scanned_one [OF Cons.prems(2) pre(1,2) g dev pre(3)]) (rule that)
  have "vaa_next k1 + length ns \<le> lim" "3 * length ns * BASIC_PAGE_SIZE \<le> card U1" 
    using scanned_room [OF sc, of "map (ecam g bus dev) ns"] Cons.prems(3,4) by simp_all
  from Cons.IH [OF pre(4) scanned_ok [OF sc] this, of m1] obtain m' k' D' U' where
    r: "discover_functions hhdm pml cfg bus dev (cs_base_address g) (map of_nat ns) m1 k1 = Some (m', k')"
    "scanned cfg L M hhdm pml n0 lim F (map (ecam g bus dev) ns) (m1, k1, D1, U1) (m', k', D', U')" by blast
  have "discover_functions hhdm pml cfg bus dev (cs_base_address g) (map of_nat (n # ns)) m k = Some (m', k')"
    using c r(1) by (cases r) simp_all
  with scanned_append [OF sc r(2)] show ?case by auto
qed

lemma header_bit: "(drop_bit 16 v AND 0xff) AND 0x80 = 0 \<longleftrightarrow> \<not> bit v 23" for v :: u32
proof -
  have "(drop_bit 16 v AND 0xff) AND 0x80 = drop_bit 16 v AND push_bit 7 1" by (simp add: and.assoc)
  then show ?thesis using bit_iff_and_push_bit_not_eq_0 [of "drop_bit 16 v" 7] by (simp add: bit_drop_bit_eq)
qed

lemma discover_device_spec:
  assumes ok: "scan_ok L M hhdm pml n0 lim F k D U" and g: "group_ok g" and dev: "unat (snd d) < 32"
    and room: "vaa_next k + length (probed cfg g d) \<le> lim" "3 * length (probed cfg g d) * BASIC_PAGE_SIZE \<le> card U"
  shows "\<exists>m' k' D' U'. discover_device_functions hhdm pml cfg m k (fst d) (snd d) g = Some (m', k')
      \<and> scanned cfg L M hhdm pml n0 lim F (probed cfg g d) (m, k, D, U) (m', k', D', U')"
proof -
  obtain bus dev where d: "d = (bus, dev)" by (cases d)
  let ?p = "ecam g bus dev"
  have dev': "unat dev < 32" and zero: "(0 :: nat) < 8" using dev d by simp_all
  have pre: "vaa_next k < lim" "3 * BASIC_PAGE_SIZE \<le> card U" using room by (simp_all add: probed_def split: if_splits)
  obtain m1 k1 D1 U1 r where c: "check_device hhdm pml cfg k bus dev (of_nat 0) (cs_base_address g) = Some (r, k1)"
    "(r \<noteq> None) = answers cfg (?p 0)" "m1 = (case r of Some cs \<Rightarrow> m \<lparr> devices := devices m @ [pcie_device_new cs] \<rparr> | None \<Rightarrow> m)"
    and sc: "scanned cfg L M hhdm pml n0 lim F [?p 0] (m, k, D, U) (m1, k1, D1, U1)"
    and rd: "\<And>cs off. r = Some cs \<Longrightarrow> config_read hhdm pml cfg k1 cs off = Some (cfg (?p 0 + off))"
    by (rule scanned_one [OF ok pre g dev' zero]) (rule that)
  show ?thesis
  proof (cases "multi_function cfg (?p 0)")
    case True
    then obtain cs where cs: "r = Some cs" using c(2) by (auto simp: multi_function_def)
    have ps: "probed cfg g d = [?p 0] @ map ?p [1..<8]" using True by (simp add: probed_def d upt_rec)
    then have "vaa_next k1 + length [1..<8] \<le> lim" "3 * length [1..<8] * BASIC_PAGE_SIZE \<le> card U1"
      using scanned_room [OF sc, of "map ?p [1..<8]"] room by simp_all
    from discover_functions_spec [OF g _ _ scanned_ok [OF sc] this, of dev cfg bus m1] obtain m' k' D' U' where
      f: "discover_functions hhdm pml cfg bus dev (cs_base_address g) (map of_nat [1..<8]) m1 k1 = Some (m', k')"
      "scanned cfg L M hhdm pml n0 lim F (map ?p [1..<8]) (m1, k1, D1, U1) (m', k', D', U')" using dev d by (auto simp: list_all_iff)
    with True c cs rd have "discover_device_functions hhdm pml cfg m k bus dev g = Some (m', k')"
      by (simp add: discover_device_functions_def pcie_device_new_def header_bit multi_function_def)
    with scanned_append [OF sc f(2)] show ?thesis unfolding ps by (auto simp: d)
  next
    case False
    then have ps: "probed cfg g d = [?p 0]" by (simp add: probed_def d)
    have "discover_device_functions hhdm pml cfg m k bus dev g = Some (m1, k1)"
      using c rd False by (cases r) (auto simp: discover_device_functions_def pcie_device_new_def header_bit multi_function_def)
    with sc show ?thesis unfolding ps by (auto simp: d)
  qed
qed

lemma bus_devices_dev: "d \<in> set (bus_devices g) \<Longrightarrow> unat (snd d) < 32"
  by (auto simp: bus_devices_def unsigned_of_nat take_bit_nat_eq_self)

lemma discover_devices_spec:
  assumes g: "group_ok g"
  shows "\<forall>d \<in> set ds. unat (snd d) < 32 \<Longrightarrow> scan_ok L M hhdm pml n0 lim F k D U \<Longrightarrow> vaa_next k + length (concat (map (probed cfg g) ds)) \<le> lim
    \<Longrightarrow> 3 * length (concat (map (probed cfg g) ds)) * BASIC_PAGE_SIZE \<le> card U
    \<Longrightarrow> \<exists>m' k' D' U'. discover_devices hhdm pml cfg g ds m k = Some (m', k')
      \<and> scanned cfg L M hhdm pml n0 lim F (concat (map (probed cfg g) ds)) (m, k, D, U) (m', k', D', U')"
proof (induction ds arbitrary: m k D U)
  case Nil
  then show ?case using scanned_Nil by fastforce
next
  case (Cons d ds)
  let ?rest = "concat (map (probed cfg g) ds)"
  have room: "vaa_next k + length (probed cfg g d @ ?rest) \<le> lim" "3 * length (probed cfg g d @ ?rest) * BASIC_PAGE_SIZE \<le> card U"
    using Cons.prems(3,4) by simp_all
  then have here: "vaa_next k + length (probed cfg g d) \<le> lim" "3 * length (probed cfg g d) * BASIC_PAGE_SIZE \<le> card U"
    by (simp_all add: algebra_simps)
  from discover_device_spec [OF Cons.prems(2) g _ here, of m] Cons.prems(1) obtain m1 k1 D1 U1 where
    one: "discover_device_functions hhdm pml cfg m k (fst d) (snd d) g = Some (m1, k1)"
    "scanned cfg L M hhdm pml n0 lim F (probed cfg g d) (m, k, D, U) (m1, k1, D1, U1)" by auto
  from Cons.IH [OF _ scanned_ok [OF one(2)] scanned_room [OF one(2) room], of m1] Cons.prems(1) obtain m' k' D' U' where
    rest: "discover_devices hhdm pml cfg g ds m1 k1 = Some (m', k')"
    "scanned cfg L M hhdm pml n0 lim F ?rest (m1, k1, D1, U1) (m', k', D', U')" by auto
  have "discover_devices hhdm pml cfg g (d # ds) m k = Some (m', k')" using one(1) rest(1) by (cases d) simp
  with scanned_append [OF one(2) rest(2)] show ?case by auto
qed

lemma brute_force_spec:
  "list_all group_ok gs \<Longrightarrow> scan_ok L M hhdm pml n0 lim F k D U \<Longrightarrow> vaa_next k + length (all_probed cfg gs) \<le> lim
    \<Longrightarrow> 3 * length (all_probed cfg gs) * BASIC_PAGE_SIZE \<le> card U
    \<Longrightarrow> \<exists>m' k' D' U'. brute_force_discover hhdm pml cfg gs m k = Some (m', k')
      \<and> scanned cfg L M hhdm pml n0 lim F (all_probed cfg gs) (m, k, D, U) (m', k', D', U')"
proof (induction gs arbitrary: m k D U)
  case Nil
  then show ?case using scanned_Nil by (fastforce simp: all_probed_def)
next
  case (Cons g gs)
  let ?one = "concat (map (probed cfg g) (bus_devices g))"
  have split: "all_probed cfg (g # gs) = ?one @ all_probed cfg gs" by (simp add: all_probed_def)
  note room = Cons.prems(3,4) [unfolded split]
  then have here: "vaa_next k + length ?one \<le> lim" "3 * length ?one * BASIC_PAGE_SIZE \<le> card U"
    by (simp_all add: algebra_simps)
  have g: "group_ok g" "list_all group_ok gs" using Cons.prems(1) by simp_all
  from discover_devices_spec [OF g(1) _ Cons.prems(2) here, of m] bus_devices_dev obtain m1 k1 D1 U1 where
    one: "discover_devices hhdm pml cfg g (bus_devices g) m k = Some (m1, k1)"
    "scanned cfg L M hhdm pml n0 lim F ?one (m, k, D, U) (m1, k1, D1, U1)" by blast
  from Cons.IH [OF g(2) scanned_ok [OF one(2)] scanned_room [OF one(2) room], of m1] obtain m' k' D' U' where
    rest: "brute_force_discover hhdm pml cfg gs m1 k1 = Some (m', k')"
    "scanned cfg L M hhdm pml n0 lim F (all_probed cfg gs) (m1, k1, D1, U1) (m', k', D', U')" by blast
  have "brute_force_discover hhdm pml cfg (g # gs) m k = Some (m', k')" using one(1) rest(1) by simp
  with scanned_append [OF one(2) rest(2)] show ?case unfolding split by blast
qed

lemma map_upds_nth:
  assumes "length xs = length ys" and "distinct xs"
  shows "i < length xs \<Longrightarrow> (m(xs [\<mapsto>] ys)) (xs ! i) = Some (ys ! i)" and "x \<notin> set xs \<Longrightarrow> (m(xs [\<mapsto>] ys)) x = m x"
proof -
  show "x \<notin> set xs \<Longrightarrow> (m(xs [\<mapsto>] ys)) x = m x" by simp
  assume i: "i < length xs"
  have "map_of (rev (zip xs ys)) (xs ! i) = Some (ys ! i)"
  proof (rule map_of_is_SomeI)
    show "distinct (map fst (rev (zip xs ys)))" using assms by (simp add: rev_map [symmetric])
    show "(xs ! i, ys ! i) \<in> set (rev (zip xs ys))" using i assms(1) by (auto simp: set_zip)
  qed
  then show "(m(xs [\<mapsto>] ys)) (xs ! i) = Some (ys ! i)" by (simp add: map_upds_def map_add_def)
qed

text \<open>Class 1, subclass 8, programming interface 2.\<close>

definition nvme :: "(PhysAddr \<Rightarrow> u32) \<Rightarrow> PhysAddr \<Rightarrow> bool" where
  "nvme cfg p \<longleftrightarrow> drop_bit 8 (cfg (p + 8)) = 0x010802"

lemma class_code: "(drop_bit 24 v, drop_bit 16 v AND 0xff, drop_bit 8 v AND 0xff) = (0x1, 0x8, 0x2) \<longleftrightarrow> drop_bit 8 v = 0x010802" for v :: u32
proof -
  have m: "w AND 0xff = take_bit 8 w" for w :: u32 by (simp add: take_bit_eq_mask mask_eq_exp_minus_1)
  have "drop_bit 8 v = 0x010802" if "drop_bit 24 v = 1" "take_bit 8 (drop_bit 16 v) = 8" "take_bit 8 (drop_bit 8 v) = 2"
  proof -
    have "drop_bit 8 v = take_bit 8 (drop_bit 8 v) OR push_bit 8 (take_bit 8 (drop_bit 16 v)) OR push_bit 16 (drop_bit 24 v)"
    proof (rule bit_word_eqI)
      fix n assume "n < LENGTH(32)"
      have "24 + (n - 16) = 8 + n" if "16 \<le> n" using that by simp
      moreover have "16 + (n - 8) = 8 + n" if "8 \<le> n" using that by simp
      ultimately show "bit (drop_bit 8 v) n = bit (take_bit 8 (drop_bit 8 v) OR push_bit 8 (take_bit 8 (drop_bit 16 v)) OR push_bit 16 (drop_bit 24 v)) n"
        by (cases "n < 8"; cases "n < 16") (auto simp: bit_simps dest: bit_imp_le_length)
    qed
    then show ?thesis unfolding that by simp
  qed
  moreover have "drop_bit 24 v = 1" "take_bit 8 (drop_bit 16 v) = 8" "take_bit 8 (drop_bit 8 v) = 2" if d: "drop_bit 8 v = 0x010802"
  proof -
    have "drop_bit 24 v = drop_bit 16 (drop_bit 8 v)" "drop_bit 16 v = drop_bit 8 (drop_bit 8 v)" by (simp_all add: drop_bit_drop_bit)
    then show "drop_bit 24 v = 1" "take_bit 8 (drop_bit 16 v) = 8" "take_bit 8 (drop_bit 8 v) = 2" unfolding d by simp_all
  qed
  ultimately show ?thesis unfolding m prod.inject by blast
qed

lemma load_drivers_spec:
  assumes "scan_ok L M hhdm pml n0 lim F k D U" and "length vas = length pas" and "\<forall>i < length vas. D (vas ! i) = Some (pas ! i)"
  shows "load_drivers_loop hhdm pml cfg k (map (pcie_device_new \<circ> mmio_new) vas) = Some (map (\<lambda>_. ''Found NVMe'') (filter (nvme cfg) pas))"
  using assms(2,3)
proof (induction vas pas rule: list_induct2)
  case (Cons va vas pa pas)
  have "D va = Some pa" using Cons.prems by force
  from scan_translate(1) [OF assms(1) this] have rd: "config_read hhdm pml cfg k (mmio_new va) off = Some (cfg (pa + off))" for off
    by (simp add: config_read_def mmio_new_def)
  have "\<forall>i < length vas. D (vas ! i) = Some (pas ! i)" using Cons.prems by force
  with Cons.IH show ?case using class_code [of "cfg (pa + 8)"] by (auto simp: pcie_device_new_def rd nvme_def Let_def simp del: prod.inject)
qed simp

text \<open>C19: The scan of the bus.  Given address space and three free frames (for page tables) for every function it probes, the
  initialisation never panics.  The devices it records are exactly the functions that answer, in the order of segment group,
  bus, device and function, where functions 1 to 7 are looked at only when function 0 answers and is marked as multi-function; the
  configuration page of each translates to the address of its function in the memory-mapped configuration space, no two share a page, the
  pages of the functions that did not answer are unmapped again, every page mapped before still translates as it did, and one message is logged for every
  NVMe controller.\<close>

theorem pcie_init_correct:
  assumes "km_ok L M hhdm pml lim k P U" and "list_all group_ok gs"
    and "vaa_next k + length (all_probed cfg gs) \<le> lim" and "3 * length (all_probed cfg gs) * BASIC_PAGE_SIZE \<le> card U"
  defines "found \<equiv> filter (answers cfg) (all_probed cfg gs)"
  shows "\<exists>m' k' vas. pcie_manager_init hhdm pml cfg gs pcie_manager_new k =
        Some (Ok (), map (\<lambda>_. ''Found NVMe'') (filter (nvme cfg) found), m', k')
      \<and> devices m' = map (pcie_device_new \<circ> mmio_new) vas \<and> length vas = length found \<and> distinct vas
      \<and> (\<forall>i < length vas. manager_translate hhdm pml k' (vas ! i) = Some (Some (found ! i)))
      \<and> vaa_next k' = vaa_next k + length (all_probed cfg gs)
      \<and> (\<forall>n \<in> {vaa_next k..<vaa_next k'}. n * BASIC_PAGE_SIZE \<notin> set vas \<longrightarrow> manager_translate hhdm pml k' (n * BASIC_PAGE_SIZE) = Some None)
      \<and> (\<forall>va pa. P va = Some pa \<longrightarrow> manager_translate hhdm pml k' va = Some (Some pa))"
proof -
  have ok: "scan_ok L M hhdm pml (vaa_next k) lim (frames P) k P U" by (rule scan_ok_of_km [OF assms(1)]) (use assms(3) in simp)
  from brute_force_spec [OF assms(2) ok assms(3,4), of pcie_manager_new] obtain m' k' D' U' where
    b: "brute_force_discover hhdm pml cfg gs pcie_manager_new k = Some (m', k')"
    and sc: "scanned cfg L M hhdm pml (vaa_next k) lim (frames P) (all_probed cfg gs) (pcie_manager_new, k, P, U) (m', k', D', U')" by blast
  from sc obtain vas where v: "devices m' = map (pcie_device_new \<circ> mmio_new) vas" "D' = P(vas [\<mapsto>] found)" "length vas = length found" "distinct vas"
    "set vas \<subseteq> (\<lambda>n. n * BASIC_PAGE_SIZE) ` {vaa_next k..<vaa_next k'}" "vaa_next k' = vaa_next k + length (all_probed cfg gs)"
    "scan_ok L M hhdm pml (vaa_next k) lim (frames P) k' D' U'" by (auto simp: scanned_def pcie_manager_new_def found_def)
  have D': "D' (vas ! i) = Some (found ! i)" if "i < length vas" for i using map_upds_nth(1) [OF v(3,4) that] v(2) by simp
  have old: "va \<notin> (\<lambda>n. n * BASIC_PAGE_SIZE) ` {vaa_next k..<vaa_next k'}" if "P va = Some pa" for va pa
    using scan_okD(9) [OF ok that] v(6) assms(3) by (auto simp: BASIC_PAGE_SIZE_def)
  have P: "D' va = Some pa" if "P va = Some pa" for va pa
  proof -
    have "va \<notin> set vas" using old [OF that] v(5) by blast
    from map_upds_nth(2) [OF v(3,4) this, of P] show ?thesis using that v(2) by simp
  qed
  have gone: "manager_translate hhdm pml k' (n * BASIC_PAGE_SIZE) = Some None"
    if "n \<in> {vaa_next k..<vaa_next k'}" "n * BASIC_PAGE_SIZE \<notin> set vas" for n
  proof (rule scan_translate(2) [OF v(7)])
    have "P (n * BASIC_PAGE_SIZE) = None" using old [of "n * BASIC_PAGE_SIZE"] that(1) by (cases "P (n * BASIC_PAGE_SIZE)") blast+
    then have "D' (n * BASIC_PAGE_SIZE) = None" using map_upds_nth(2) [OF v(3,4) that(2), of P] v(2) by simp
    then show "n * BASIC_PAGE_SIZE \<notin> dom D'" by (simp add: domIff)
  qed (use that in auto)
  have "pcie_manager_init hhdm pml cfg gs pcie_manager_new k = Some (Ok (), map (\<lambda>_. ''Found NVMe'') (filter (nvme cfg) found), m', k')"
    using b load_drivers_spec [OF v(7,3)] D' v(1) by (simp add: pcie_manager_init_def load_device_drivers_def)
  then show ?thesis using v(1,3,4,6) D' P gone scan_translate(1) [OF v(7)] by blast
qed

text \<open>Dropping a device unmaps its page and nothing else.\<close>

lemma pcie_device_drop_spec:
  assumes "scan_ok L M hhdm pml n0 lim F k D U" and "D (mmio_base (config_space d)) = Some pa"
  shows "\<exists>k'. pcie_device_drop hhdm pml k d = Some k' \<and> scan_ok L M hhdm pml n0 lim F k' (D(mmio_base (config_space d) := None)) U
    \<and> manager_translate hhdm pml k' (mmio_base (config_space d)) = Some None"
proof -
  obtain k' where "manager_unmap_pages hhdm pml k (mmio_base (config_space d)) 1 Size4KB = Some (Ok (), k')"
    "scan_ok L M hhdm pml n0 lim F k' (D(mmio_base (config_space d) := None)) U"
    "manager_translate hhdm pml k' (mmio_base (config_space d)) = Some None"
    by (rule manager_unmap_page [OF assms]) (rule that)
  then show ?thesis by (simp add: pcie_device_drop_def)
qed

text \<open>One bus with an NVMe controller as device 3.\<close>

definition demo_group :: ConfigSpace where
  "demo_group = \<lparr> cs_base_address = 0x20000000, cs_segment_group_number = 0, cs_start_bus_number = 0, cs_end_bus_number = 0, cs_reserved = 0 \<rparr>"

definition demo_cfg :: "PhysAddr \<Rightarrow> u32" where
  "demo_cfg p = (if p = 0x20018000 then 0x8086 else if p = 0x20018008 then 0x01080200 else if p = 0x2001800C then 0 else 0xFFFFFFFF)"

lemma demo_answers: "answers demo_cfg p \<longleftrightarrow> p \<in> {0x20018000, 0x20018008, 0x2001800C}" "\<not> multi_function demo_cfg (0x20000000 + d * 0x8000)"
  by (auto simp: answers_def multi_function_def demo_cfg_def)

lemma demo_probed: "all_probed demo_cfg [demo_group] = map (\<lambda>d. 0x20000000 + d * 0x8000) [0..<32]"
proof -
  have b: "bus_devices demo_group = map (\<lambda>d. (0, of_nat d)) [0..<32]" by (simp add: bus_devices_def demo_group_def upt_rec)
  have p: "probed demo_cfg demo_group (0, of_nat d) = [0x20000000 + d * 0x8000]" if "d < 32" for d
    using that by (simp add: probed_def demo_answers(2) ecam_def demo_group_def unsigned_of_nat take_bit_nat_eq_self)
  have "map (\<lambda>d. probed demo_cfg demo_group (0, of_nat d)) [0..<32] = map (\<lambda>d. [0x20000000 + d * 0x8000]) [0..<32]"
    by (rule map_cong) (simp_all add: p)
  then have "concat (map (\<lambda>d. probed demo_cfg demo_group (0, of_nat d)) [0..<32]) = map (\<lambda>d. 0x20000000 + d * 0x8000) [0..<32]"
    by (simp only: concat_map_singleton)
  then show ?thesis by (simp add: all_probed_def b comp_def)
qed

lemma demo_scan:
  "length (all_probed demo_cfg [demo_group]) = 32" "filter (answers demo_cfg) (all_probed demo_cfg [demo_group]) = [0x20018000]"
  "nvme demo_cfg 0x20018000" "group_ok demo_group"
  unfolding demo_probed
  by (simp_all add: demo_answers(1) upt_rec nvme_def demo_cfg_def group_ok_def demo_group_def BASIC_PAGE_SIZE_def USIZE_LIM_def)

theorem pcie_init_correct_witness:
  "\<exists>k m' k' va. pcie_manager_init 0x100000 0x180000 demo_cfg [demo_group] pcie_manager_new k = Some (Ok (), [''Found NVMe''], m', k')
     \<and> devices m' = [pcie_device_new (mmio_new va)] \<and> manager_translate 0x100000 0x180000 k' va = Some (Some 0x20018000)"
proof -
  obtain k where k: "km_ok 8 0x80000 0x100000 0x180000 64 k Map.empty {..<0x80000}" "vaa_next k = 16"
    using km_demo_at [of 7 64] by (auto simp: bsz_def)
  have g: "list_all group_ok [demo_group]" by (simp add: demo_scan)
  have room: "vaa_next k + length (all_probed demo_cfg [demo_group]) \<le> 64"
    "3 * length (all_probed demo_cfg [demo_group]) * BASIC_PAGE_SIZE \<le> card {..<0x80000 :: nat}"
    by (simp_all add: k(2) demo_scan(1) BASIC_PAGE_SIZE_def)
  from pcie_init_correct [OF k(1) g room] obtain m' k' vas where
    r: "pcie_manager_init 0x100000 0x180000 demo_cfg [demo_group] pcie_manager_new k = Some (Ok (), [''Found NVMe''], m', k')"
    "devices m' = map (pcie_device_new \<circ> mmio_new) vas" "length vas = 1"
    "\<forall>i < length vas. manager_translate 0x100000 0x180000 k' (vas ! i) = Some (Some ([0x20018000] ! i))"
    unfolding demo_scan(2) by (auto simp: demo_scan(3))
  from r(3) obtain va where va: "vas = [va]" by (auto simp: length_Suc_conv)
  from r(4) have "manager_translate 0x100000 0x180000 k' va = Some (Some 0x20018000)" by (simp add: va)
  with r(1,2) show ?thesis by (auto simp: va)
qed

end
