(* ===== verification/Acpi_Tables.thy ===== *)
theory Acpi_Tables
  imports Struct_Layout Pcie Hpet Lapic
begin

text \<open>
  The tables of the firmware (\<open>boot/src/acpi/mod.rs\<close>, \<open>madt.rs\<close>): the layout of the structs, reads through the page
  tables, checksums, and the table of the interrupt controllers (MADT), whose entries configure the local APICs and I/O APICs.
  The firmware's tables are a parameter, the byte at every physical address; they lie in memory the kernel never hands out and do
  not change.  A read of a virtual address that is not mapped is a fault, modelled as \<open>None\<close>.  The logger is not modelled.
\<close>

subsection \<open>The machine\<close>

text \<open>What the code runs on: the kernel's page tables, the contents of memory and of the configuration space, and the
  registers of the devices.\<close>

record ('h, 'd, 'l) Platform =
  pf_hhdm :: usize
  pf_pml :: VirtAddr
  pf_mem :: "PhysAddr \<Rightarrow> u8"
  pf_cfg :: "PhysAddr \<Rightarrow> u32"
  pf_cpuid :: cpuid
  pf_hpet_rd :: "'h mmio_rd64"
  pf_hpet_wr :: "'h mmio_wr64"
  pf_ioapic_rd :: "'d mmio_rd"
  pf_ioapic_wr :: "'d mmio_wr"
  pf_lapic_rd :: "'l mmio_rd32"
  pf_lapic_wr :: "'l mmio_wr32"

text \<open>What the tables configure.  \<open>sys_ports\<close> lists the accesses to I/O ports.\<close>

record ('h, 'd, 'l) System =
  sys_km :: KernelMem
  sys_cpu :: Cpu
  sys_lapics :: "LocalApic list"
  sys_lapic_dev :: 'l
  sys_timers :: "('h, 'd) TimerSystem"
  sys_pcie :: PcieManager
  sys_ports :: port_trace

definition sys_ioapics :: "('h, 'd, 'l) System \<Rightarrow> 'd IoApics" where
  "sys_ioapics s = ts_ioapics (sys_timers s)"

definition sys_set_ioapics :: "'d IoApics \<Rightarrow> ('h, 'd, 'l) System \<Rightarrow> ('h, 'd, 'l) System" where
  "sys_set_ioapics a s = s \<lparr> sys_timers := (sys_timers s) \<lparr> ts_ioapics := a \<rparr> \<rparr>"

subsection \<open>Reading structs\<close>

definition read_byte :: "('h, 'd, 'l) Platform \<Rightarrow> KernelMem \<Rightarrow> VirtAddr \<Rightarrow> u8 option" where
  "read_byte P k va = do {
     tr \<leftarrow> manager_translate (pf_hhdm P) (pf_pml P) k (va - va mod BASIC_PAGE_SIZE);
     p \<leftarrow> tr;
     Some (pf_mem P (p + va mod BASIC_PAGE_SIZE)) }"

fun read_bytes :: "('h, 'd, 'l) Platform \<Rightarrow> KernelMem \<Rightarrow> VirtAddr \<Rightarrow> nat \<Rightarrow> u8 list option" where
  "read_bytes P k va 0 = Some []"
| "read_bytes P k va (Suc n) = do {
     b \<leftarrow> read_byte P k va;
     bs \<leftarrow> read_bytes P k (va + 1) n;
     Some (b # bs) }"

definition field_of :: "('h, 'd, 'l) Platform \<Rightarrow> KernelMem \<Rightarrow> struct_layout \<Rightarrow> VirtAddr \<Rightarrow> string \<Rightarrow> nat option" where
  "field_of P k ly va f = do {
     (off, n) \<leftarrow> field_at ly f 0;
     bs \<leftarrow> read_bytes P k (va + off) n;
     Some (le_value bs) }"

definition SdtHeader :: struct_layout where
  "SdtHeader = [(''signature'', 4), (''length'', 4), (''revision'', 1), (''checksum'', 1), (''oem_id'', 6), (''oem_table_id'', 8),
     (''oem_revision'', 4), (''creator_id'', 4), (''creator_revision'', 4)]"

definition Gas :: struct_layout where
  "Gas = [(''space_id'', 1), (''register_bit_width'', 1), (''register_bit_offset'', 1), (''_reserved'', 1), (''addr'', 8)]"

datatype AcpiError = InvalidChecksum

text \<open>\<open>T::SIGNATURE\<close> of a table.\<close>

definition signature_bytes :: "string \<Rightarrow> u8 list" where
  "signature_bytes s = map (\<lambda>c. of_nat (of_char c)) s"

definition sdt_entry_count :: "('h, 'd, 'l) Platform \<Rightarrow> KernelMem \<Rightarrow> VirtAddr \<Rightarrow> nat \<Rightarrow> usize option" where
  "sdt_entry_count P k va n = do {
     len \<leftarrow> field_of P k SdtHeader va ''length'';
     bytes_count \<leftarrow> usub len (size_of SdtHeader);
     _ \<leftarrow> ensure (bytes_count mod n = 0);
     Some (bytes_count div n) }"

definition validate_checksum :: "('h, 'd, 'l) Platform \<Rightarrow> KernelMem \<Rightarrow> VirtAddr \<Rightarrow> (AcpiError + unit) option" where
  "validate_checksum P k va = do {
     len \<leftarrow> field_of P k SdtHeader va ''length'';
     bs \<leftarrow> read_bytes P k va len;
     let sum = fold (\<lambda>x acc. acc + unat x) bs 0;
     Some (if sum mod 0x100 \<noteq> 0 then Err InvalidChecksum else Ok ()) }"

subsection \<open>The MADT\<close>

definition LOCAL_APIC :: nat where "LOCAL_APIC = 0"
definition IO_APIC :: nat where "IO_APIC = 1"
definition IO_APIC_ISO :: nat where "IO_APIC_ISO = 2"
definition IO_APIC_NMI_ISO :: nat where "IO_APIC_NMI_ISO = 3"
definition LOCAL_APIC_NMI :: nat where "LOCAL_APIC_NMI = 4"
definition LOCAL_APIC_ADDR_OVERRIDE :: nat where "LOCAL_APIC_ADDR_OVERRIDE = 5"
definition PROCESSOR_LOCAL_X2APIC :: nat where "PROCESSOR_LOCAL_X2APIC = 9"

lemmas entry_types = LOCAL_APIC_def IO_APIC_def IO_APIC_ISO_def IO_APIC_NMI_ISO_def LOCAL_APIC_NMI_def LOCAL_APIC_ADDR_OVERRIDE_def
  PROCESSOR_LOCAL_X2APIC_def

definition EntryHeader :: struct_layout where
  "EntryHeader = [(''entry_type'', 1), (''length'', 1)]"

definition LocalApicEntry :: struct_layout where
  "LocalApicEntry = EntryHeader @ [(''acpi_processor_id'', 1), (''apic_id'', 1), (''flags'', 4)]"

definition IoApicEntry :: struct_layout where
  "IoApicEntry = EntryHeader @ [(''io_apic_id'', 1), (''_reserved'', 1), (''io_apic_addr'', 4), (''gsi_base'', 4)]"

definition IoApicIsoEntry :: struct_layout where
  "IoApicIsoEntry = EntryHeader @ [(''bus_source'', 1), (''irq_source'', 1), (''gsi'', 4), (''flags'', 2)]"

definition IoApicNmiIsoEntry :: struct_layout where
  "IoApicNmiIsoEntry = EntryHeader @ [(''nmi_source'', 1), (''_reserved'', 1), (''flags'', 2), (''gsi'', 4)]"

definition LocalApicNmiEntry :: struct_layout where
  "LocalApicNmiEntry = EntryHeader @ [(''acpi_processor_id'', 1), (''flags'', 2), (''lint'', 1)]"

definition LocalApicAddrOverrideEntry :: struct_layout where
  "LocalApicAddrOverrideEntry = EntryHeader @ [(''_reserved'', 2), (''local_apic_phys_addr'', 8)]"

definition ProcessorLocalx2ApicEntry :: struct_layout where
  "ProcessorLocalx2ApicEntry = EntryHeader @ [(''_reserved'', 2), (''x2apic_id'', 4), (''flags'', 4), (''processor_acpi_id'', 4)]"

definition Madt :: struct_layout where
  "Madt = SdtHeader @ [(''local_apic_addr'', 4), (''flags'', 4)]"

definition OFFSET_TO_ENTRIES :: usize where "OFFSET_TO_ENTRIES = 0x2c"

text \<open>The calls of \<open>parse\<close> with their arguments; the address of the local APICs is a field of the MADT.\<close>

definition sys_lapic_add :: "('h, 'd, 'l) Platform \<Rightarrow> nat \<Rightarrow> nat \<Rightarrow> nat \<Rightarrow> nat \<Rightarrow> ('h, 'd, 'l) System \<Rightarrow> ('h, 'd, 'l) System option" where
  "sys_lapic_add P base processor_id apic_id flags s = do {
     (k, c, d, lapics) \<leftarrow> lapic_add (pf_hhdm P) (pf_pml P) (pf_cpuid P) (pf_lapic_wr P) (sys_km s) (sys_cpu s) (sys_lapic_dev s) (sys_lapics s)
        base (of_nat processor_id) (of_nat apic_id) (of_nat flags);
     Some (s \<lparr> sys_km := k, sys_cpu := c, sys_lapic_dev := d, sys_lapics := lapics \<rparr>) }"

definition sys_ioapic_add :: "('h, 'd, 'l) Platform \<Rightarrow> nat \<Rightarrow> nat \<Rightarrow> nat \<Rightarrow> ('h, 'd, 'l) System \<Rightarrow> ('h, 'd, 'l) System option" where
  "sys_ioapic_add P addr gsi apic_id s = do {
     (k, a) \<leftarrow> ioapic_add (pf_hhdm P) (pf_pml P) (pf_ioapic_rd P) (pf_ioapic_wr P) (sys_km s) (sys_ioapics s) addr gsi (of_nat apic_id);
     Some (sys_set_ioapics a (s \<lparr> sys_km := k \<rparr>)) }"

definition sys_override_irq :: "('h, 'd, 'l) Platform \<Rightarrow> nat \<Rightarrow> nat \<Rightarrow> nat \<Rightarrow> DeliveryMode option \<Rightarrow> ('h, 'd, 'l) System \<Rightarrow> ('h, 'd, 'l) System option" where
  "sys_override_irq P irq gsi flags mode s = do {
     a \<leftarrow> override_irq (pf_ioapic_rd P) (pf_ioapic_wr P) (sys_ioapics s) (of_nat irq) gsi (of_nat flags) mode;
     Some (sys_set_ioapics a s) }"

definition sys_config_lints :: "('h, 'd, 'l) Platform \<Rightarrow> nat \<Rightarrow> nat \<Rightarrow> nat \<Rightarrow> ('h, 'd, 'l) System \<Rightarrow> ('h, 'd, 'l) System option" where
  "sys_config_lints P processor_id lint flags s = do {
     d \<leftarrow> config_lints (pf_lapic_rd P) (pf_lapic_wr P) (sys_lapic_dev s) (sys_lapics s) (of_nat processor_id) (of_nat lint) (of_nat flags);
     Some (s \<lparr> sys_lapic_dev := d \<rparr>) }"

definition sys_override_base :: "('h, 'd, 'l) Platform \<Rightarrow> nat \<Rightarrow> ('h, 'd, 'l) System \<Rightarrow> ('h, 'd, 'l) System option" where
  "sys_override_base P addr s = do {
     (r, k) \<leftarrow> manager_map_pages (pf_hhdm P) (pf_pml P) (sys_km s) addr 1 (set_read_write flags_new True) Size4KB;
     p \<leftarrow> unwrap_ok r;
     Some (s \<lparr> sys_km := k, sys_lapics := override_base (sys_lapics s) p \<rparr>) }"

definition madt_entry :: "('h, 'd, 'l) Platform \<Rightarrow> VirtAddr \<Rightarrow> VirtAddr \<Rightarrow> ('h, 'd, 'l) System \<Rightarrow> ('h, 'd, 'l) System option" where
  "madt_entry P madt entry s = do {
     entry_type \<leftarrow> field_of P (sys_km s) EntryHeader entry ''entry_type'';
     (if entry_type = LOCAL_APIC then do {
        base \<leftarrow> field_of P (sys_km s) Madt madt ''local_apic_addr'';
        processor_id \<leftarrow> field_of P (sys_km s) LocalApicEntry entry ''acpi_processor_id'';
        apic_id \<leftarrow> field_of P (sys_km s) LocalApicEntry entry ''apic_id'';
        flags \<leftarrow> field_of P (sys_km s) LocalApicEntry entry ''flags'';
        sys_lapic_add P base processor_id apic_id flags s }
      else if entry_type = IO_APIC then do {
        addr \<leftarrow> field_of P (sys_km s) IoApicEntry entry ''io_apic_addr'';
        gsi \<leftarrow> field_of P (sys_km s) IoApicEntry entry ''gsi_base'';
        apic_id \<leftarrow> field_of P (sys_km s) IoApicEntry entry ''io_apic_id'';
        sys_ioapic_add P addr gsi apic_id s }
      else if entry_type = IO_APIC_ISO then do {
        irq \<leftarrow> field_of P (sys_km s) IoApicIsoEntry entry ''irq_source'';
        gsi \<leftarrow> field_of P (sys_km s) IoApicIsoEntry entry ''gsi'';
        flags \<leftarrow> field_of P (sys_km s) IoApicIsoEntry entry ''flags'';
        sys_override_irq P irq gsi flags None s }
      else if entry_type = IO_APIC_NMI_ISO then do {
        irq \<leftarrow> field_of P (sys_km s) IoApicNmiIsoEntry entry ''nmi_source'';
        gsi \<leftarrow> field_of P (sys_km s) IoApicNmiIsoEntry entry ''gsi'';
        flags \<leftarrow> field_of P (sys_km s) IoApicNmiIsoEntry entry ''flags'';
        sys_override_irq P irq gsi flags (Some Nmi) s }
      else if entry_type = LOCAL_APIC_NMI then do {
        processor_id \<leftarrow> field_of P (sys_km s) LocalApicNmiEntry entry ''acpi_processor_id'';
        lint \<leftarrow> field_of P (sys_km s) LocalApicNmiEntry entry ''lint'';
        flags \<leftarrow> field_of P (sys_km s) LocalApicNmiEntry entry ''flags'';
        sys_config_lints P processor_id lint flags s }
      else if entry_type = LOCAL_APIC_ADDR_OVERRIDE then do {
        addr \<leftarrow> field_of P (sys_km s) LocalApicAddrOverrideEntry entry ''local_apic_phys_addr'';
        sys_override_base P addr s }
      else if entry_type = PROCESSOR_LOCAL_X2APIC then do {
        base \<leftarrow> field_of P (sys_km s) Madt madt ''local_apic_addr'';
        processor_id \<leftarrow> field_of P (sys_km s) ProcessorLocalx2ApicEntry entry ''processor_acpi_id'';
        apic_id \<leftarrow> field_of P (sys_km s) ProcessorLocalx2ApicEntry entry ''x2apic_id'';
        flags \<leftarrow> field_of P (sys_km s) ProcessorLocalx2ApicEntry entry ''flags'';
        sys_lapic_add P base processor_id apic_id flags s }
      else Some s) }"

text \<open>The loop over the entries.  It does not return when an entry has length 0.\<close>

partial_function (option) madt_loop :: "('h, 'd, 'l) Platform \<Rightarrow> VirtAddr \<Rightarrow> VirtAddr \<Rightarrow> usize \<Rightarrow> ('h, 'd, 'l) System \<Rightarrow> ('h, 'd, 'l) System option" where
  "madt_loop P madt p len s =
     (if len = 0 then Some s
      else do {
        n \<leftarrow> field_of P (sys_km s) EntryHeader p ''length'';
        len' \<leftarrow> usub len n;
        s \<leftarrow> madt_entry P madt p s;
        madt_loop P madt (p + n) len' s })"

definition madt_parse :: "('h, 'd, 'l) Platform \<Rightarrow> VirtAddr \<Rightarrow> ('h, 'd, 'l) System \<Rightarrow> ((AcpiError + unit) \<times> ('h, 'd, 'l) System) option" where
  "madt_parse P madt s = do {
     r \<leftarrow> validate_checksum P (sys_km s) madt;
     (case r of
        Inl e \<Rightarrow> Some (Err e, s)
      | Inr _ \<Rightarrow> do {
          let s = s \<lparr> sys_ports := mask_off_pic (sys_ports s) \<rparr>;
          length \<leftarrow> field_of P (sys_km s) SdtHeader madt ''length'';
          len \<leftarrow> usub length OFFSET_TO_ENTRIES;
          s \<leftarrow> madt_loop P madt (madt + OFFSET_TO_ENTRIES) len s;
          a \<leftarrow> init_irq_allocator (sys_ioapics s);
          Some (Ok (), sys_set_ioapics a s) }) }"

subsection \<open>Bytes in memory\<close>

definition bytes_at :: "('h, 'd, 'l) Platform \<Rightarrow> KernelMem \<Rightarrow> VirtAddr \<Rightarrow> u8 list \<Rightarrow> bool" where
  "bytes_at P k va bs \<longleftrightarrow> (\<forall>i < length bs. read_byte P k (va + i) = Some (bs ! i))"

lemma bytes_at_append: "bytes_at P k va (xs @ ys) \<longleftrightarrow> bytes_at P k va xs \<and> bytes_at P k (va + length xs) ys"
proof -
  have "(\<forall>i < length xs + length ys. read_byte P k (va + i) = Some ((xs @ ys) ! i)) \<longleftrightarrow>
      (\<forall>i < length xs. read_byte P k (va + i) = Some (xs ! i)) \<and> (\<forall>i < length ys. read_byte P k (va + length xs + i) = Some (ys ! i))"
    (is "?l \<longleftrightarrow> ?r")
  proof
    assume l: ?l
    show ?r
    proof (intro conjI allI impI)
      fix i assume "i < length xs"
      with l [rule_format, of i] show "read_byte P k (va + i) = Some (xs ! i)" by (simp add: nth_append)
    next
      fix i assume "i < length ys"
      with l [rule_format, of "length xs + i"] show "read_byte P k (va + length xs + i) = Some (ys ! i)" by (simp add: add.assoc)
    qed
  next
    assume r: ?r
    show ?l
    proof (intro allI impI)
      fix i assume "i < length xs + length ys"
      with r conjunct2 [OF r, rule_format, of "i - length xs"] show "read_byte P k (va + i) = Some ((xs @ ys) ! i)"
        by (cases "i < length xs") (auto simp: nth_append)
    qed
  qed
  then show ?thesis by (simp add: bytes_at_def)
qed

lemma read_bytes_at:
  assumes "bytes_at P k va bs"
  shows "read_bytes P k va (length bs) = Some bs"
  using assms
proof (induction bs arbitrary: va)
  case (Cons b bs)
  then have "read_byte P k va = Some b" "bytes_at P k (va + 1) bs"
    using bytes_at_append [of P k va "[b]" bs] by (auto simp: bytes_at_def)
  with Cons.IH show ?case by simp
qed simp

lemma read_bytes_part:
  assumes "bytes_at P k va bs" and "off + n \<le> length bs"
  shows "read_bytes P k (va + off) n = Some (take n (drop off bs))"
proof -
  have "bytes_at P k va (take off bs @ take n (drop off bs) @ drop n (drop off bs))" using assms(1) by (simp only: append_take_drop_id)
  then have "bytes_at P k (va + length (take off bs)) (take n (drop off bs))" unfolding bytes_at_append by blast
  from read_bytes_at [OF this] show ?thesis using assms(2) by (simp add: min_absorb2)
qed

text \<open>A field of a struct that lies in memory reads as its value.\<close>

lemma field_of_struct:
  assumes "bytes_at P k va (struct_bytes ly v @ bs)" and "field_at ly f 0 = Some (off, n)" and "v f < 256 ^ n"
  shows "field_of P k ly va f = Some (v f)"
proof -
  note sf = struct_field [OF assms(2), of v bs]
  then have "off + n \<le> length (struct_bytes ly v @ bs)" by (simp add: length_struct_bytes)
  from read_bytes_part [OF assms(1) this] sf show ?thesis
    using assms(2,3) by (simp add: field_of_def le_value_bytes)
qed

text \<open>A table that lies in one page, with the page mapped.\<close>

definition phys_bytes :: "('h, 'd, 'l) Platform \<Rightarrow> PhysAddr \<Rightarrow> u8 list \<Rightarrow> bool" where
  "phys_bytes P pa bs \<longleftrightarrow> (\<forall>i < length bs. pf_mem P (pa + i) = bs ! i)"

definition page_map :: "(nat \<rightharpoonup> nat) \<Rightarrow> VirtAddr \<Rightarrow> PhysAddr \<Rightarrow> nat \<Rightarrow> bool" where
  "page_map D va pa n \<longleftrightarrow> D (va - va mod BASIC_PAGE_SIZE) = Some (pa - pa mod BASIC_PAGE_SIZE) \<and> va mod BASIC_PAGE_SIZE = pa mod BASIC_PAGE_SIZE
     \<and> pa mod BASIC_PAGE_SIZE + n \<le> BASIC_PAGE_SIZE"

lemma page_map_mono: "page_map D va pa n \<Longrightarrow> D \<subseteq>\<^sub>m D' \<Longrightarrow> page_map D' va pa n"
  by (auto simp: page_map_def map_le_def dom_def)

lemma bytes_at_page:
  assumes ok: "scan_ok L M (pf_hhdm P) (pf_pml P) n0 lim F k D U" and pm: "page_map D va pa (length bs)" and bs: "phys_bytes P pa bs"
  shows "bytes_at P k va bs"
  unfolding bytes_at_def
proof (intro allI impI)
  fix i assume i: "i < length bs"
  let ?B = BASIC_PAGE_SIZE
  have B: "0 < ?B" by (simp add: BASIC_PAGE_SIZE_def)
  have va: "va mod ?B = pa mod ?B" and len: "pa mod ?B + length bs \<le> ?B" and D: "D (va - va mod ?B) = Some (pa - pa mod ?B)"
    using pm by (auto simp: page_map_def)
  have "va + i = (va - va mod ?B) + (va mod ?B + i)" by simp
  moreover have "?B dvd va - va mod ?B" by (rule dvd_minus_mod)
  ultimately have "(va + i) mod ?B = (va mod ?B + i) mod ?B" by (metis mod_add_left_eq)
  also have "\<dots> = va mod ?B + i" using len i va by simp
  finally have m: "(va + i) mod ?B = pa mod ?B + i" using va by simp
  then have b: "va + i - (pa mod ?B + i) = va - va mod ?B" using va by simp
  have "pa - pa mod ?B + (pa mod ?B + i) = pa + i" by simp
  then show "read_byte P k (va + i) = Some (bs ! i)"
    using scan_translate(1) [OF ok D] bs i unfolding read_byte_def m b by (simp add: phys_bytes_def)
qed

subsection \<open>The MADT as a list of entries\<close>

datatype MadtEntry =
    MLapic u8 u8 u32
  | MIoApic u8 u32 u32
  | MIso u8 u8 u32 u16
  | MNmiIso u8 u16 u32
  | MLapicNmi u8 u16 u8
  | MAddrOverride u64
  | MX2Apic u32 u32 u32
  | MOther u8 "u8 list"

fun entry_layout :: "MadtEntry \<Rightarrow> struct_layout" where
  "entry_layout (MLapic _ _ _) = LocalApicEntry"
| "entry_layout (MIoApic _ _ _) = IoApicEntry"
| "entry_layout (MIso _ _ _ _) = IoApicIsoEntry"
| "entry_layout (MNmiIso _ _ _) = IoApicNmiIsoEntry"
| "entry_layout (MLapicNmi _ _ _) = LocalApicNmiEntry"
| "entry_layout (MAddrOverride _) = LocalApicAddrOverrideEntry"
| "entry_layout (MX2Apic _ _ _) = ProcessorLocalx2ApicEntry"
| "entry_layout (MOther _ _) = EntryHeader"

fun entry_payload :: "MadtEntry \<Rightarrow> u8 list" where
  "entry_payload (MOther _ bs) = bs"
| "entry_payload _ = []"

fun entry_values :: "MadtEntry \<Rightarrow> string \<Rightarrow> nat" where
  "entry_values (MLapic p a f) = (\<lambda>_. 0)(''entry_type'' := 0, ''acpi_processor_id'' := unat p, ''apic_id'' := unat a, ''flags'' := unat f)"
| "entry_values (MIoApic i a g) = (\<lambda>_. 0)(''entry_type'' := 1, ''io_apic_id'' := unat i, ''io_apic_addr'' := unat a, ''gsi_base'' := unat g)"
| "entry_values (MIso b i g f) = (\<lambda>_. 0)(''entry_type'' := 2, ''bus_source'' := unat b, ''irq_source'' := unat i, ''gsi'' := unat g, ''flags'' := unat f)"
| "entry_values (MNmiIso i f g) = (\<lambda>_. 0)(''entry_type'' := 3, ''nmi_source'' := unat i, ''flags'' := unat f, ''gsi'' := unat g)"
| "entry_values (MLapicNmi p f l) = (\<lambda>_. 0)(''entry_type'' := 4, ''acpi_processor_id'' := unat p, ''flags'' := unat f, ''lint'' := unat l)"
| "entry_values (MAddrOverride a) = (\<lambda>_. 0)(''entry_type'' := 5, ''local_apic_phys_addr'' := unat a)"
| "entry_values (MX2Apic a f p) = (\<lambda>_. 0)(''entry_type'' := 9, ''x2apic_id'' := unat a, ''flags'' := unat f, ''processor_acpi_id'' := unat p)"
| "entry_values (MOther t _) = (\<lambda>_. 0)(''entry_type'' := unat t)"

definition entry_length :: "MadtEntry \<Rightarrow> nat" where
  "entry_length e = size_of (entry_layout e) + length (entry_payload e)"

definition entry_bytes :: "MadtEntry \<Rightarrow> u8 list" where
  "entry_bytes e = struct_bytes (entry_layout e) ((entry_values e)(''length'' := entry_length e)) @ entry_payload e"

text \<open>Entries the firmware can build: an unknown entry has another type and fits its length byte; addresses of registers
  are page-aligned.\<close>

fun entry_ok :: "MadtEntry \<Rightarrow> bool" where
  "entry_ok (MOther t bs) \<longleftrightarrow> unat t \<notin> {0, 1, 2, 3, 4, 5, 9} \<and> length bs < 254"
| "entry_ok (MIoApic _ a _) \<longleftrightarrow> BASIC_PAGE_SIZE dvd unat a"
| "entry_ok (MAddrOverride a) \<longleftrightarrow> BASIC_PAGE_SIZE dvd unat a \<and> unat a + BASIC_PAGE_SIZE \<le> USIZE_LIM"
| "entry_ok _ \<longleftrightarrow> True"

text \<open>What an entry asks for.\<close>

fun apply_entry :: "('h, 'd, 'l) Platform \<Rightarrow> nat \<Rightarrow> MadtEntry \<Rightarrow> ('h, 'd, 'l) System \<Rightarrow> ('h, 'd, 'l) System option" where
  "apply_entry P base (MLapic p a f) s = sys_lapic_add P base (unat p) (unat a) (unat f) s"
| "apply_entry P base (MIoApic i a g) s = sys_ioapic_add P (unat a) (unat g) (unat i) s"
| "apply_entry P base (MIso b i g f) s = sys_override_irq P (unat i) (unat g) (unat f) None s"
| "apply_entry P base (MNmiIso i f g) s = sys_override_irq P (unat i) (unat g) (unat f) (Some Nmi) s"
| "apply_entry P base (MLapicNmi p f l) s = sys_config_lints P (unat p) (unat l) (unat f) s"
| "apply_entry P base (MAddrOverride a) s = sys_override_base P (unat a) s"
| "apply_entry P base (MX2Apic a f p) s = sys_lapic_add P base (unat p) (unat a) (unat f) s"
| "apply_entry P base (MOther _ _) s = Some s"

fun apply_entries :: "('h, 'd, 'l) Platform \<Rightarrow> nat \<Rightarrow> MadtEntry list \<Rightarrow> ('h, 'd, 'l) System \<Rightarrow> ('h, 'd, 'l) System option" where
  "apply_entries P base [] s = Some s"
| "apply_entries P base (e # es) s = do { s \<leftarrow> apply_entry P base e s; apply_entries P base es s }"

lemmas entry_layouts = EntryHeader_def LocalApicEntry_def IoApicEntry_def IoApicIsoEntry_def IoApicNmiIsoEntry_def LocalApicNmiEntry_def
  LocalApicAddrOverrideEntry_def ProcessorLocalx2ApicEntry_def

lemma length_entry_bytes: "length (entry_bytes e) = entry_length e"
  by (simp add: entry_bytes_def entry_length_def length_struct_bytes)

lemma entry_length_bounds: "entry_ok e \<Longrightarrow> 2 \<le> entry_length e \<and> entry_length e < 256"
  by (cases e) (simp_all add: entry_length_def size_of_def entry_layouts)

lemma entry_header: "\<exists>ly. entry_layout e = EntryHeader @ ly"
  by (cases e) (auto simp: entry_layouts)

lemma entry_type_less: "entry_values e ''entry_type'' < 256"
  using unsigned_less [where 'b = 8 and ?'a = nat] by (cases e) simp_all

text \<open>The fields the loop reads of every entry.\<close>

lemma entry_header_fields:
  assumes at: "bytes_at P k va (entry_bytes e @ bs)" and ok: "entry_ok e"
  shows "field_of P k EntryHeader va ''entry_type'' = Some (entry_values e ''entry_type'')"
    and "field_of P k EntryHeader va ''length'' = Some (entry_length e)"
proof -
  let ?v = "(entry_values e)(''length'' := entry_length e)"
  obtain ly where "entry_layout e = EntryHeader @ ly" using entry_header by blast
  with at have at': "bytes_at P k va (struct_bytes EntryHeader ?v @ struct_bytes ly ?v @ entry_payload e @ bs)"
    by (simp add: entry_bytes_def struct_bytes_append)
  from field_of_struct [OF at', of "''entry_type''"] show "field_of P k EntryHeader va ''entry_type'' = Some (entry_values e ''entry_type'')"
    using entry_type_less [of e] by (simp add: EntryHeader_def)
  from field_of_struct [OF at', of "''length''"] show "field_of P k EntryHeader va ''length'' = Some (entry_length e)"
    using entry_length_bounds [OF ok] by (simp add: EntryHeader_def)
qed

lemma entry_values_fit:
  assumes "field_at (entry_layout e) f 0 = Some (off, n)" and "f \<noteq> ''length''"
  shows "entry_values e f < 256 ^ n"
proof -
  have w: "unat x < 256" "unat y < 65536" "unat z < 4294967296" "unat u < 18446744073709551616" for x :: u8 and y :: u16 and z :: u32 and u :: u64
    using unsigned_less [of x, where ?'a = nat] unsigned_less [of y, where ?'a = nat] unsigned_less [of z, where ?'a = nat]
      unsigned_less [of u, where ?'a = nat] by simp_all
  have "list_all (\<lambda>(g, m). g = ''length'' \<or> entry_values e g < 256 ^ m) (entry_layout e)"
    by (cases e) (simp_all add: entry_layouts w)
  with field_at_set [OF assms(1)] assms(2) show ?thesis by (auto simp: list_all_iff)
qed

lemma entry_field:
  assumes at: "bytes_at P k va (entry_bytes e @ bs)" and f: "field_at (entry_layout e) f 0 \<noteq> None" "f \<noteq> ''length''"
  shows "field_of P k (entry_layout e) va f = Some (entry_values e f)"
proof -
  from f(1) obtain off n where n: "field_at (entry_layout e) f 0 = Some (off, n)" by auto
  from at have "bytes_at P k va (struct_bytes (entry_layout e) ((entry_values e)(''length'' := entry_length e)) @ entry_payload e @ bs)"
    by (simp add: entry_bytes_def)
  from field_of_struct [OF this n] f(2) entry_values_fit [OF n f(2)] show ?thesis by simp
qed

lemma known_fields:
  "field_at LocalApicEntry ''acpi_processor_id'' 0 \<noteq> None" "field_at LocalApicEntry ''apic_id'' 0 \<noteq> None" "field_at LocalApicEntry ''flags'' 0 \<noteq> None"
  "field_at IoApicEntry ''io_apic_id'' 0 \<noteq> None" "field_at IoApicEntry ''io_apic_addr'' 0 \<noteq> None" "field_at IoApicEntry ''gsi_base'' 0 \<noteq> None"
  "field_at IoApicIsoEntry ''irq_source'' 0 \<noteq> None" "field_at IoApicIsoEntry ''gsi'' 0 \<noteq> None" "field_at IoApicIsoEntry ''flags'' 0 \<noteq> None"
  "field_at IoApicNmiIsoEntry ''nmi_source'' 0 \<noteq> None" "field_at IoApicNmiIsoEntry ''gsi'' 0 \<noteq> None" "field_at IoApicNmiIsoEntry ''flags'' 0 \<noteq> None"
  "field_at LocalApicNmiEntry ''acpi_processor_id'' 0 \<noteq> None" "field_at LocalApicNmiEntry ''lint'' 0 \<noteq> None" "field_at LocalApicNmiEntry ''flags'' 0 \<noteq> None"
  "field_at LocalApicAddrOverrideEntry ''local_apic_phys_addr'' 0 \<noteq> None" "field_at ProcessorLocalx2ApicEntry ''x2apic_id'' 0 \<noteq> None"
  "field_at ProcessorLocalx2ApicEntry ''flags'' 0 \<noteq> None" "field_at ProcessorLocalx2ApicEntry ''processor_acpi_id'' 0 \<noteq> None"
  by (simp_all add: entry_layouts)

text \<open>One round of the loop.\<close>

lemma madt_entry_apply:
  assumes at: "bytes_at P (sys_km s) va (entry_bytes e @ bs)" and ok: "entry_ok e"
    and base: "field_of P (sys_km s) Madt madt ''local_apic_addr'' = Some base"
  shows "madt_entry P madt va s = apply_entry P base e s"
proof -
  note hd = entry_header_fields(1) [OF at ok]
  show ?thesis
  proof (cases e)
    case (MLapic p a f)
    with hd base show ?thesis by (simp add: madt_entry_def entry_types known_fields entry_field [OF at [unfolded MLapic], unfolded entry_layout.simps])
  next
    case (MIoApic i a g)
    with hd base show ?thesis by (simp add: madt_entry_def entry_types known_fields entry_field [OF at [unfolded MIoApic], unfolded entry_layout.simps])
  next
    case (MIso b i g f)
    with hd base show ?thesis by (simp add: madt_entry_def entry_types known_fields entry_field [OF at [unfolded MIso], unfolded entry_layout.simps])
  next
    case (MNmiIso i f g)
    with hd base show ?thesis by (simp add: madt_entry_def entry_types known_fields entry_field [OF at [unfolded MNmiIso], unfolded entry_layout.simps])
  next
    case (MLapicNmi p f l)
    with hd base show ?thesis by (simp add: madt_entry_def entry_types known_fields entry_field [OF at [unfolded MLapicNmi], unfolded entry_layout.simps])
  next
    case (MAddrOverride a)
    with hd base show ?thesis by (simp add: madt_entry_def entry_types known_fields entry_field [OF at [unfolded MAddrOverride], unfolded entry_layout.simps])
  next
    case (MX2Apic a f p)
    with hd base show ?thesis by (simp add: madt_entry_def entry_types known_fields entry_field [OF at [unfolded MX2Apic], unfolded entry_layout.simps])
  next
    case (MOther t xs)
    with hd ok show ?thesis by (auto simp: madt_entry_def entry_types)
  qed
qed

subsection \<open>Tables stay readable\<close>

text \<open>A step that takes at most \<open>n\<close> pages of address space and the frames of their tables, and keeps what is mapped.\<close>

definition kept :: "nat \<Rightarrow> nat \<Rightarrow> usize \<Rightarrow> VirtAddr \<Rightarrow> nat \<Rightarrow> nat \<Rightarrow> nat set \<Rightarrow> nat \<Rightarrow> KernelMem \<Rightarrow> (nat \<rightharpoonup> nat) \<Rightarrow> nat set \<Rightarrow> KernelMem \<Rightarrow> bool" where
  "kept L M hhdm pml n0 lim F n k D U k' \<longleftrightarrow> (\<exists>D' U'. scan_ok L M hhdm pml n0 lim F k' D' U' \<and> D \<subseteq>\<^sub>m D'
     \<and> vaa_next k' \<le> vaa_next k + n \<and> card U \<le> card U' + 3 * n * BASIC_PAGE_SIZE)"

lemma kept_refl: "scan_ok L M hhdm pml n0 lim F k D U \<Longrightarrow> kept L M hhdm pml n0 lim F n k D U k"
  unfolding kept_def by (intro exI [of _ D] exI [of _ U]) simp

lemma kept_map:
  assumes ok: "scan_ok L M hhdm pml n0 lim F k D U" and room: "vaa_next k < lim" "3 * BASIC_PAGE_SIZE \<le> card U"
    and pa: "BASIC_PAGE_SIZE dvd pa" "pa + BASIC_PAGE_SIZE \<le> USIZE_LIM" and f: "flags_ok Size4KB f" "\<not> get_allocated f"
    and m: "manager_map_pages hhdm pml k pa 1 f Size4KB = Some (r, k')"
  shows "r = Ok (vaa_next k * BASIC_PAGE_SIZE)" and "kept L M hhdm pml n0 lim F 1 k D U k'"
    and "\<exists>D' U'. scan_ok L M hhdm pml n0 lim F k' D' U' \<and> D' = D(vaa_next k * BASIC_PAGE_SIZE \<mapsto> pa) \<and> D \<subseteq>\<^sub>m D'
      \<and> vaa_next k' = vaa_next k + 1 \<and> card U \<le> card U' + 3 * BASIC_PAGE_SIZE"
proof -
  obtain k1 U1 where k1: "manager_map_pages hhdm pml k pa 1 f Size4KB = Some (Ok (vaa_next k * BASIC_PAGE_SIZE), k1)"
    "vaa_next k1 = vaa_next k + 1" "scan_ok L M hhdm pml n0 lim F k1 (D(vaa_next k * BASIC_PAGE_SIZE \<mapsto> pa)) U1"
    "card U \<le> card U1 + 3 * BASIC_PAGE_SIZE" "vaa_next k * BASIC_PAGE_SIZE \<notin> dom D"
    by (rule manager_map_page [OF ok room pa f]) (rule that)
  with m have "r = Ok (vaa_next k * BASIC_PAGE_SIZE)" "k' = k1" by simp_all
  then show "r = Ok (vaa_next k * BASIC_PAGE_SIZE)" by simp
  have "D \<subseteq>\<^sub>m D(vaa_next k * BASIC_PAGE_SIZE \<mapsto> pa)" using k1(5) by (auto simp: map_le_def)
  with k1 \<open>k' = k1\<close> show all: "\<exists>D' U'. scan_ok L M hhdm pml n0 lim F k' D' U' \<and> D' = D(vaa_next k * BASIC_PAGE_SIZE \<mapsto> pa) \<and> D \<subseteq>\<^sub>m D'
      \<and> vaa_next k' = vaa_next k + 1 \<and> card U \<le> card U' + 3 * BASIC_PAGE_SIZE" by blast
  from all show "kept L M hhdm pml n0 lim F 1 k D U k'" unfolding kept_def by fastforce
qed

lemma apply_entry_kept:
  assumes ok: "scan_ok L M (pf_hhdm P) (pf_pml P) n0 lim F (sys_km s) D U" and room: "vaa_next (sys_km s) < lim" "3 * BASIC_PAGE_SIZE \<le> card U"
    and base: "BASIC_PAGE_SIZE dvd base" "base + BASIC_PAGE_SIZE \<le> USIZE_LIM" and e: "entry_ok e" and s': "apply_entry P base e s = Some s'"
  shows "kept L M (pf_hhdm P) (pf_pml P) n0 lim F 1 (sys_km s) D U (sys_km s')"
proof -
  note same = kept_refl [OF ok, of 1]
  note map = kept_map(2) [OF ok room _ _ flags_rw]
  have lapic: "kept L M (pf_hhdm P) (pf_pml P) n0 lim F 1 (sys_km s) D U (sys_km s')" if "sys_lapic_add P base p a f s = Some s'" for p a f
    using that same map [OF base] by (auto simp: sys_lapic_add_def lapic_add_def split: if_splits Option.bind_splits)
  have small: "unat a + BASIC_PAGE_SIZE \<le> USIZE_LIM" for a :: u32
    using unsigned_less [of a, where ?'a = nat] by (simp add: BASIC_PAGE_SIZE_def USIZE_LIM_def)
  show ?thesis
  proof (cases e)
    case (MIoApic i a g)
    then show ?thesis using s' e map [OF _ small, of a]
      by (auto simp: sys_ioapic_add_def ioapic_add_def sys_set_ioapics_def split: Option.bind_splits)
  next
    case (MAddrOverride a)
    then show ?thesis using s' e map [of "unat a"] by (auto simp: sys_override_base_def split: Option.bind_splits)
  qed (use s' same lapic in \<open>auto simp: sys_override_irq_def sys_config_lints_def sys_set_ioapics_def split: Option.bind_splits\<close>)
qed

text \<open>The MADT in memory: its header, the address of the local APICs and the entries.\<close>

definition madt_bytes :: "(string \<Rightarrow> nat) \<Rightarrow> MadtEntry list \<Rightarrow> u8 list" where
  "madt_bytes v es = struct_bytes Madt (v(''length'' := size_of Madt + sum_list (map entry_length es))) @ concat (map entry_bytes es)"

definition madt_ok :: "(string \<Rightarrow> nat) \<Rightarrow> MadtEntry list \<Rightarrow> bool" where
  "madt_ok v es \<longleftrightarrow> v ''local_apic_addr'' < 2 ^ 32 \<and> BASIC_PAGE_SIZE dvd v ''local_apic_addr'' \<and> list_all entry_ok es"

lemma length_madt_bytes: "length (madt_bytes v es) = size_of Madt + sum_list (map entry_length es)"
  by (simp add: madt_bytes_def length_struct_bytes length_concat length_entry_bytes comp_def)

lemma madt_field:
  assumes "bytes_at P k va (madt_bytes v es)"
  shows "v ''local_apic_addr'' < 2 ^ 32 \<Longrightarrow> field_of P k Madt va ''local_apic_addr'' = Some (v ''local_apic_addr'')"
    and "length (madt_bytes v es) < 2 ^ 32 \<Longrightarrow> field_of P k SdtHeader va ''length'' = Some (length (madt_bytes v es))"
proof -
  let ?v = "v(''length'' := size_of Madt + sum_list (map entry_length es))"
  from assms have at: "bytes_at P k va (struct_bytes Madt ?v @ concat (map entry_bytes es))" by (simp add: madt_bytes_def)
  show "v ''local_apic_addr'' < 2 ^ 32 \<Longrightarrow> field_of P k Madt va ''local_apic_addr'' = Some (v ''local_apic_addr'')"
    using field_of_struct [OF at, of "''local_apic_addr''" 36 4] by (simp add: Madt_def SdtHeader_def)
  from at have "bytes_at P k va (struct_bytes SdtHeader ?v @ struct_bytes [(''local_apic_addr'', 4), (''flags'', 4)] ?v @ concat (map entry_bytes es))"
    by (simp add: Madt_def struct_bytes_append)
  from field_of_struct [OF this, of "''length''" 4 4]
  show "length (madt_bytes v es) < 2 ^ 32 \<Longrightarrow> field_of P k SdtHeader va ''length'' = Some (length (madt_bytes v es))"
    by (simp add: length_madt_bytes SdtHeader_def)
qed

lemma madt_loop_apply:
  assumes ok: "madt_ok v es0" and mem: "phys_bytes P pa (madt_bytes v es0)"
  shows "es0 = done @ es \<Longrightarrow> scan_ok L M (pf_hhdm P) (pf_pml P) n0 lim F (sys_km s) D U \<Longrightarrow> page_map D madt pa (length (madt_bytes v es0))
    \<Longrightarrow> vaa_next (sys_km s) + length es \<le> lim \<Longrightarrow> 3 * length es * BASIC_PAGE_SIZE \<le> card U
    \<Longrightarrow> madt_loop P madt (madt + size_of Madt + sum_list (map entry_length done)) (sum_list (map entry_length es)) s
        = apply_entries P (v ''local_apic_addr'') es s"
proof (induction es arbitrary: "done" s D U)
  case Nil
  then show ?case by (simp add: madt_loop.simps)
next
  case (Cons e es)
  let ?p = "madt + size_of Madt + sum_list (map entry_length done)" and ?base = "v ''local_apic_addr''"
  have base: "?base < 2 ^ 32" "BASIC_PAGE_SIZE dvd ?base" "?base + BASIC_PAGE_SIZE \<le> USIZE_LIM" and e: "entry_ok e"
    using ok Cons.prems(1) by (auto simp: madt_ok_def BASIC_PAGE_SIZE_def USIZE_LIM_def)
  have at: "bytes_at P (sys_km s) madt (madt_bytes v es0)" by (rule bytes_at_page [OF Cons.prems(2,3) mem])
  then have here: "bytes_at P (sys_km s) ?p (entry_bytes e @ concat (map entry_bytes es))"
    unfolding madt_bytes_def Cons.prems(1)
    by (simp add: bytes_at_append length_struct_bytes length_concat length_entry_bytes comp_def add.assoc)
  note len = entry_length_bounds [OF e]
  have sub: "usub (entry_length e + sum_list (map entry_length es)) (entry_length e) = Some (sum_list (map entry_length es))"
    by (simp add: usub_def)
  have unfold: "madt_loop P madt ?p (sum_list (map entry_length (e # es))) s = do {
      s' \<leftarrow> apply_entry P ?base e s; madt_loop P madt (?p + entry_length e) (sum_list (map entry_length es)) s' }"
    using len by (subst madt_loop.simps)
      (simp add: sub entry_header_fields(2) [OF here e] madt_entry_apply [OF here e madt_field(1) [OF at base(1)]])
  show ?case
  proof (cases "apply_entry P ?base e s")
    case None
    with unfold show ?thesis by simp
  next
    case (Some s')
    have room: "vaa_next (sys_km s) < lim" "3 * BASIC_PAGE_SIZE \<le> card U" using Cons.prems(4,5) by (simp_all add: BASIC_PAGE_SIZE_def)
    from apply_entry_kept [OF Cons.prems(2) room base(2,3) e Some] obtain D' U' where k:
      "scan_ok L M (pf_hhdm P) (pf_pml P) n0 lim F (sys_km s') D' U'" "D \<subseteq>\<^sub>m D'" "vaa_next (sys_km s') \<le> vaa_next (sys_km s) + 1"
      "card U \<le> card U' + 3 * BASIC_PAGE_SIZE" by (auto simp: kept_def)
    have es0: "es0 = (done @ [e]) @ es" using Cons.prems(1) by simp
    have room': "vaa_next (sys_km s') + length es \<le> lim" "3 * length es * BASIC_PAGE_SIZE \<le> card U'"
      using k(3,4) Cons.prems(4,5) by (simp_all add: BASIC_PAGE_SIZE_def)
    from Cons.IH [OF es0 k(1) page_map_mono [OF Cons.prems(3) k(2)] room'] unfold Some show ?thesis by (simp add: add.assoc)
  qed
qed

lemma sum_fold: "fold (\<lambda>x acc. acc + f x) xs a = a + sum_list (map f xs)" for a :: nat
  by (induction xs arbitrary: a) simp_all

definition checksum_ok :: "u8 list \<Rightarrow> bool" where
  "checksum_ok bs \<longleftrightarrow> sum_list (map unat bs) mod 256 = 0"

lemma validate_checksum_at:
  assumes "bytes_at P k va bs" and "field_of P k SdtHeader va ''length'' = Some (length bs)"
  shows "validate_checksum P k va = Some (if checksum_ok bs then Ok () else Err InvalidChecksum)"
  using assms by (simp add: validate_checksum_def read_bytes_at sum_fold checksum_ok_def Let_def)

lemma madt_parse_spec:
  assumes "madt_ok v es" and "phys_bytes P pa (madt_bytes v es)" and "page_map D madt pa (length (madt_bytes v es))"
    and "scan_ok L M (pf_hhdm P) (pf_pml P) n0 lim F (sys_km s) D U"
    and "vaa_next (sys_km s) + length es \<le> lim" and "3 * length es * BASIC_PAGE_SIZE \<le> card U"
  shows "madt_parse P madt s = (if checksum_ok (madt_bytes v es) then do {
        s' \<leftarrow> apply_entries P (v ''local_apic_addr'') es (s \<lparr> sys_ports := sys_ports s @ [Out8 0x21 0xFF, Out8 0xA1 0xFF] \<rparr>);
        a \<leftarrow> init_irq_allocator (sys_ioapics s');
        Some (Ok (), sys_set_ioapics a s') }
      else Some (Err InvalidChecksum, s))"
proof -
  let ?s = "s \<lparr> sys_ports := mask_off_pic (sys_ports s) \<rparr>"
  have at: "bytes_at P (sys_km s) madt (madt_bytes v es)" by (rule bytes_at_page [OF assms(4,3,2)])
  have "length (madt_bytes v es) \<le> 4096" using assms(3) by (simp add: page_map_def BASIC_PAGE_SIZE_def)
  then have len: "field_of P (sys_km s) SdtHeader madt ''length'' = Some (length (madt_bytes v es))" by (intro madt_field(2) [OF at]) simp
  have km: "sys_km ?s = sys_km s" by simp
  have "madt_loop P madt (madt + size_of Madt + sum_list (map entry_length [])) (sum_list (map entry_length es)) ?s = apply_entries P (v ''local_apic_addr'') es ?s"
    by (rule madt_loop_apply [OF assms(1,2) _ _ assms(3) _ assms(6)]) (use assms(4,5) in simp_all)
  moreover have "size_of Madt = OFFSET_TO_ENTRIES" by (simp add: size_of_def Madt_def SdtHeader_def OFFSET_TO_ENTRIES_def)
  ultimately show ?thesis
    using len validate_checksum_at [OF at len] by (simp add: madt_parse_def mask_off_pic_def cpu_outb_8_def length_madt_bytes usub_def)
qed

text \<open>C18: Parsing the table of interrupt controllers.  A table that lies in one mapped page, with entries of any kinds in any order, is read
  as exactly these entries: when its bytes do not add up to 0 modulo 256 nothing is done and \<open>InvalidChecksum\<close> is returned; otherwise the old
  interrupt controllers are masked, the entries are carried out one after the other with the values they hold (entries of
  unknown type are skipped), and the IRQ allocator is set up for the I/O APICs found.  The table stays readable while the entries map pages for
  the registers they name.  The loop returns whenever the operations it calls do.  The entries are encoded in the layouts of the code's structs; that of the
  NMI sources of the I/O APICs (type 3) has 10 bytes where the specification has 8.\<close>

theorem madt_parse_correct:
  assumes "madt_ok v es" and "phys_bytes P pa (madt_bytes v es)" and "page_map D madt pa (length (madt_bytes v es))"
    and "scan_ok L M (pf_hhdm P) (pf_pml P) n0 lim F (sys_km s) D U"
    and "vaa_next (sys_km s) + length es \<le> lim" and "3 * length es * BASIC_PAGE_SIZE \<le> card U"
  shows "madt_parse P madt s = (if checksum_ok (madt_bytes v es) then do {
        s' \<leftarrow> apply_entries P (v ''local_apic_addr'') es (s \<lparr> sys_ports := sys_ports s @ [Out8 0x21 0xFF, Out8 0xA1 0xFF] \<rparr>);
        a \<leftarrow> init_irq_allocator (sys_ioapics s');
        Some (Ok (), sys_set_ioapics a s') }
      else Some (Err InvalidChecksum, s))"
  by (rule madt_parse_spec [OF assms])

text \<open>A table with a disabled processor, an entry of unknown type and a setting of the local interrupt pins.\<close>

definition demo_madt_values :: "string \<Rightarrow> nat" where
  "demo_madt_values = (\<lambda>_. 0)(''checksum'' := 64, ''local_apic_addr'' := 0xFEE00000)"

definition demo_madt_entries :: "MadtEntry list" where
  "demo_madt_entries = [MLapic 1 1 0, MOther 0x7F [1, 2, 3], MLapicNmi 0xFF 5 1]"

definition demo_mem :: "PhysAddr \<Rightarrow> u8" where
  "demo_mem p = (let bs = madt_bytes demo_madt_values demo_madt_entries in
     if 0x5000100 \<le> p \<and> p - 0x5000100 < length bs then bs ! (p - 0x5000100) else 0)"

definition demo_platform :: "(PhysAddr \<Rightarrow> u8) \<Rightarrow> (usize \<Rightarrow> u64, demo_ioapic, usize \<Rightarrow> u32) Platform" where
  "demo_platform mem = \<lparr> pf_hhdm = 0x100000, pf_pml = 0x110000, pf_mem = mem, pf_cfg = (\<lambda>_. 0xFFFFFFFF),
     pf_cpuid = (\<lambda>_ _. \<lparr> cpuid_eax = 0, cpuid_ebx = 0, cpuid_ecx = 0, cpuid_edx = 0x200 \<rparr>),
     pf_hpet_rd = (\<lambda>d a. d a), pf_hpet_wr = (\<lambda>d a v. d(a := v)), pf_ioapic_rd = demo_rd, pf_ioapic_wr = demo_wr,
     pf_lapic_rd = (\<lambda>d a. d a), pf_lapic_wr = (\<lambda>d a v. d(a := v)) \<rparr>"

definition demo_system :: "KernelMem \<Rightarrow> (usize \<Rightarrow> u64, demo_ioapic, usize \<Rightarrow> u32) System" where
  "demo_system k = \<lparr> sys_km = k, sys_cpu = demo_cpu, sys_lapics = [], sys_lapic_dev = (\<lambda>_. 0), sys_timers = demo_timers id_tracker_uninit,
     sys_pcie = pcie_manager_new, sys_ports = [] \<rparr>"

lemma demo_madt:
  "madt_ok demo_madt_values demo_madt_entries" "length (madt_bytes demo_madt_values demo_madt_entries) = 63"
  "checksum_ok (madt_bytes demo_madt_values demo_madt_entries)"
  unfolding demo_madt_entries_def demo_madt_values_def
  by (simp_all add: madt_ok_def BASIC_PAGE_SIZE_def length_madt_bytes entry_length_def size_of_def Madt_def SdtHeader_def entry_layouts
      checksum_ok_def madt_bytes_def struct_bytes_def entry_bytes_def le_bytes_numeral)

theorem madt_parse_correct_witness:
  "\<exists>k va s' a. madt_parse (demo_platform demo_mem) va (demo_system k) = Some (Ok (), s') \<and> sys_ports s' = [Out8 0x21 0xFF, Out8 0xA1 0xFF]
     \<and> sys_lapics s' = [] \<and> id_tracker_new (Id 0) (Id 23) = Some a \<and> ia_irq_allocator (sys_ioapics s') = a"
proof -
  obtain k where k: "km_ok 5 0x10000 0x100000 0x110000 32 k Map.empty {..<0x10000}" "vaa_next k = 16"
    using km_demo_at [of 4 32] by (auto simp: bsz_def)
  have ok: "scan_ok 5 0x10000 0x100000 0x110000 16 32 {} k Map.empty {..<0x10000}"
    using scan_ok_of_km [OF k(1)] k(2) by (simp add: frames_def)
  obtain k' U' where m: "scan_ok 5 0x10000 0x100000 0x110000 16 32 {} k' ([0x10000 \<mapsto> 0x5000000]) U'" "vaa_next k' = 17" "0xD000 \<le> card U'"
  proof (rule manager_map_page [OF ok _ _ _ _ flags_rw, of "0x5000000"])
    fix k' U' assume "scan_ok 5 0x10000 0x100000 0x110000 16 32 {} k' ([vaa_next k * BASIC_PAGE_SIZE \<mapsto> 0x5000000]) U'" "vaa_next k' = vaa_next k + 1"
      "card {..<0x10000 :: nat} \<le> card U' + 3 * BASIC_PAGE_SIZE"
    then show thesis using that [of k' U'] k(2) by (simp add: BASIC_PAGE_SIZE_def)
  qed (use k(2) in \<open>simp_all add: BASIC_PAGE_SIZE_def USIZE_LIM_def\<close>)
  let ?P = "demo_platform demo_mem" and ?s = "demo_system k'"
  have mem: "phys_bytes ?P 0x5000100 (madt_bytes demo_madt_values demo_madt_entries)"
    by (simp add: phys_bytes_def demo_platform_def demo_mem_def Let_def)
  have pm: "page_map [0x10000 \<mapsto> 0x5000000] 0x10100 0x5000100 (length (madt_bytes demo_madt_values demo_madt_entries))"
    by (simp add: page_map_def demo_madt(2) BASIC_PAGE_SIZE_def)
  have scan: "scan_ok 5 0x10000 (pf_hhdm ?P) (pf_pml ?P) 16 32 {} (sys_km ?s) [0x10000 \<mapsto> 0x5000000] U'"
    using m(1) by (simp add: demo_platform_def demo_system_def)
  have room: "vaa_next (sys_km ?s) + length demo_madt_entries \<le> 32" "3 * length demo_madt_entries * BASIC_PAGE_SIZE \<le> card U'"
    using m(2,3) by (simp_all add: demo_system_def demo_madt_entries_def BASIC_PAGE_SIZE_def)
  obtain a where a: "id_tracker_new (Id 0) (Id 23) = Some a" using id_tracker_new_spec [of "Id 0" "Id 23"] by (auto simp: USIZE_LIM_def)
  have "apply_entries ?P 0xFEE00000 demo_madt_entries (?s \<lparr> sys_ports := [Out8 0x21 0xFF, Out8 0xA1 0xFF] \<rparr>) = Some (?s \<lparr> sys_ports := [Out8 0x21 0xFF, Out8 0xA1 0xFF] \<rparr>)"
    by (simp add: demo_madt_entries_def sys_lapic_add_def lapic_add_def sys_config_lints_def demo_system_def)
  moreover have "init_irq_allocator (sys_ioapics ?s) = Some ((sys_ioapics ?s) \<lparr> ia_irq_allocator := a \<rparr>)"
    using a by (simp add: init_irq_allocator_def sys_ioapics_def demo_system_def demo_timers_def demo_ioapics_def demo_io_def uadd_ok USIZE_LIM_def usub_def)
  ultimately have "madt_parse ?P 0x10100 ?s = Some (Ok (), sys_set_ioapics ((sys_ioapics ?s) \<lparr> ia_irq_allocator := a \<rparr>)
      (?s \<lparr> sys_ports := [Out8 0x21 0xFF, Out8 0xA1 0xFF] \<rparr>))"
    using madt_parse_correct [OF demo_madt(1) mem pm scan room] demo_madt(3)
    by (simp add: demo_madt_values_def sys_ioapics_def demo_system_def)
  then show ?thesis
    using a by (intro exI [of _ k'] exI [of _ "0x10100"] exI conjI) (auto simp: sys_set_ioapics_def sys_ioapics_def demo_system_def)
qed

text \<open>An entry of length 0 that asks for nothing keeps the loop from returning.\<close>

lemma madt_zero_length_diverges:
  assumes "field_of P (sys_km s) EntryHeader p ''length'' = Some 0" and "madt_entry P madt p s = Some s" and "len \<noteq> 0"
  shows "madt_loop P madt p len s = None"
proof (rule ccontr)
  assume "madt_loop P madt p len s \<noteq> None"
  then obtain r where r: "madt_loop P madt p len s = Some r" by blast
  let ?Q = "\<lambda>((((P, madt), p), len), s) r. \<not> (field_of P (sys_km s) EntryHeader p ''length'' = Some 0 \<and> madt_entry P madt p s = Some s \<and> len \<noteq> 0)"
  have "?Q ((((P, madt), p), len), s) r"
  proof (rule madt_loop.raw_induct [of ?Q])
    fix f and P :: "('a, 'b, 'c) Platform" and madt p len s r
    assume IH: "\<And>P madt p len s r. f P madt p len s = Some r \<Longrightarrow> ?Q ((((P, madt), p), len), s) r"
      and body: "(if len = 0 then Some s else do {
        n \<leftarrow> field_of P (sys_km s) EntryHeader p ''length'';
        len' \<leftarrow> usub len n;
        s \<leftarrow> madt_entry P madt p s;
        f P madt (p + n) len' s }) = Some r"
    have "\<not> (field_of P (sys_km s) EntryHeader p ''length'' = Some 0 \<and> madt_entry P madt p s = Some s \<and> len \<noteq> 0)"
    proof
      assume z: "field_of P (sys_km s) EntryHeader p ''length'' = Some 0 \<and> madt_entry P madt p s = Some s \<and> len \<noteq> 0"
      with body have "f P madt p len s = Some r" by (simp add: usub_def)
      with IH [of P madt p len s r] z show False by simp
    qed
    then show "?Q ((((P, madt), p), len), s) r" by simp
  qed (use r in simp)
  then have "\<not> (field_of P (sys_km s) EntryHeader p ''length'' = Some 0 \<and> madt_entry P madt p s = Some s \<and> len \<noteq> 0)" by simp
  with assms show False by blast
qed

end
