(* ===== verification/Acpi.thy ===== *)
theory Acpi
  imports Acpi_Tables
begin

text \<open>
  The rest of the ACPI tables (\<open>boot/src/acpi/hpet.rs\<close>, \<open>mcfg.rs\<close>, \<open>xsdt.rs\<close>, \<open>rsdp.rs\<close>, \<open>mod.rs\<close>): the table of
  the event timer, the table of the PCI Express segment groups, the root table that lists all tables, and the initialisation that
  starts from the root pointer.  Every table is reached through a page that is mapped for it; only the page in which a table
  starts is mapped.
\<close>

subsection \<open>The table of the event timer\<close>

definition AcpiHpet :: struct_layout where
  "AcpiHpet = SdtHeader @ [(''event_timer_block_id'', 4)] @ Gas @ [(''minimum_tick'', 2), (''page_protection_n_oem_attr'', 1)]"

definition setup_hpet :: "('h, 'd, 'l) Platform \<Rightarrow> VirtAddr \<Rightarrow> ('h, 'd, 'l) System \<Rightarrow> ((AcpiError + unit) \<times> ('h, 'd, 'l) System) option" where
  "setup_hpet P va s = do {
     r \<leftarrow> validate_checksum P (sys_km s) va;
     (case r of
        Inl e \<Rightarrow> Some (Err e, s)
      | Inr _ \<Rightarrow> do {
          phys_addr \<leftarrow> field_of P (sys_km s) AcpiHpet va ''addr'';
          (r, k) \<leftarrow> manager_map_pages (pf_hhdm P) (pf_pml P) (sys_km s) phys_addr 1 (set_read_write flags_new True) Size4KB;
          p \<leftarrow> unwrap_ok r;
          tick \<leftarrow> field_of P k AcpiHpet va ''minimum_tick'';
          t \<leftarrow> hpet_init (pf_hpet_rd P) (pf_hpet_wr P) (sys_timers s) p (of_nat tick) LegacyRouting;
          Some (Ok (), s \<lparr> sys_km := k, sys_timers := t \<rparr>) }) }"

subsection \<open>The table of the segment groups\<close>

definition Mcfg :: struct_layout where
  "Mcfg = SdtHeader @ [(''_reserved'', 8)]"

definition ConfigSpace_layout :: struct_layout where
  "ConfigSpace_layout = [(''base_address'', 8), (''segment_group_number'', 2), (''start_bus_number'', 1), (''end_bus_number'', 1), (''_reserved'', 4)]"

definition determine_entries_count :: "('h, 'd, 'l) Platform \<Rightarrow> KernelMem \<Rightarrow> VirtAddr \<Rightarrow> usize option" where
  "determine_entries_count P k va = do {
     len \<leftarrow> field_of P k SdtHeader va ''length'';
     total_size \<leftarrow> usub len (size_of Mcfg);
     _ \<leftarrow> ensure (total_size mod size_of ConfigSpace_layout = 0);
     Some (total_size div size_of ConfigSpace_layout) }"

text \<open>The slice of the entries.\<close>

definition read_config_space :: "('h, 'd, 'l) Platform \<Rightarrow> KernelMem \<Rightarrow> VirtAddr \<Rightarrow> ConfigSpace option" where
  "read_config_space P k va = do {
     base \<leftarrow> field_of P k ConfigSpace_layout va ''base_address'';
     group \<leftarrow> field_of P k ConfigSpace_layout va ''segment_group_number'';
     first \<leftarrow> field_of P k ConfigSpace_layout va ''start_bus_number'';
     final \<leftarrow> field_of P k ConfigSpace_layout va ''end_bus_number'';
     res \<leftarrow> field_of P k ConfigSpace_layout va ''_reserved'';
     Some \<lparr> cs_base_address = of_nat base, cs_segment_group_number = of_nat group, cs_start_bus_number = of_nat first,
            cs_end_bus_number = of_nat final, cs_reserved = of_nat res \<rparr> }"

fun read_config_spaces :: "('h, 'd, 'l) Platform \<Rightarrow> KernelMem \<Rightarrow> VirtAddr \<Rightarrow> nat \<Rightarrow> ConfigSpace list option" where
  "read_config_spaces P k va 0 = Some []"
| "read_config_spaces P k va (Suc n) = do {
     g \<leftarrow> read_config_space P k va;
     gs \<leftarrow> read_config_spaces P k (va + size_of ConfigSpace_layout) n;
     Some (g # gs) }"

definition mcfg_parse :: "('h, 'd, 'l) Platform \<Rightarrow> VirtAddr \<Rightarrow> ('h, 'd, 'l) System \<Rightarrow> ((AcpiError + unit) \<times> ('h, 'd, 'l) System) option" where
  "mcfg_parse P va s = do {
     r \<leftarrow> validate_checksum P (sys_km s) va;
     (case r of
        Inl e \<Rightarrow> Some (Err e, s)
      | Inr _ \<Rightarrow> do {
          n \<leftarrow> determine_entries_count P (sys_km s) va;
          entries \<leftarrow> read_config_spaces P (sys_km s) (va + size_of Mcfg) n;
          (r, _, m, k) \<leftarrow> pcie_manager_init (pf_hhdm P) (pf_pml P) (pf_cfg P) entries (sys_pcie s) (sys_km s);
          _ \<leftarrow> unwrap_ok r;
          Some (Ok (), s \<lparr> sys_km := k, sys_pcie := m \<rparr>) }) }"

subsection \<open>The root table\<close>

text \<open>The page in which a table starts is mapped; the pointer has the offset of the table in its page.\<close>

definition map_table :: "('h, 'd, 'l) Platform \<Rightarrow> PhysAddr \<Rightarrow> ('h, 'd, 'l) System \<Rightarrow> (VirtAddr \<times> ('h, 'd, 'l) System) option" where
  "map_table P addr s = do {
     let diff = addr mod BASIC_PAGE_SIZE;
     (r, k) \<leftarrow> manager_map_pages (pf_hhdm P) (pf_pml P) (sys_km s) (addr - diff) 1 flags_new Size4KB;
     p \<leftarrow> unwrap_ok r;
     Some (p + diff, s \<lparr> sys_km := k \<rparr>) }"

definition parse_table :: "('h, 'd, 'l) Platform \<Rightarrow> VirtAddr \<Rightarrow> ('h, 'd, 'l) System \<Rightarrow> ((AcpiError + unit) \<times> ('h, 'd, 'l) System) option" where
  "parse_table P entry s = do {
     signature \<leftarrow> read_bytes P (sys_km s) entry 4;
     (if signature = signature_bytes ''APIC'' then madt_parse P entry s
      else if signature = signature_bytes ''HPET'' then setup_hpet P entry s
      else if signature = signature_bytes ''MCFG'' then mcfg_parse P entry s
      else Some (Ok (), s)) }"

fun xsdt_loop :: "('h, 'd, 'l) Platform \<Rightarrow> VirtAddr \<Rightarrow> nat \<Rightarrow> ('h, 'd, 'l) System \<Rightarrow> ((AcpiError + unit) \<times> ('h, 'd, 'l) System) option" where
  "xsdt_loop P p 0 s = Some (Ok (), s)"
| "xsdt_loop P p (Suc n) s = do {
     bs \<leftarrow> read_bytes P (sys_km s) p 8;
     (entry, s) \<leftarrow> map_table P (le_value bs) s;
     (r, s) \<leftarrow> parse_table P entry s;
     (case r of
        Inl e \<Rightarrow> Some (Err e, s)
      | Inr _ \<Rightarrow> xsdt_loop P (p + 8) n s) }"

definition parse_tables :: "('h, 'd, 'l) Platform \<Rightarrow> VirtAddr \<Rightarrow> ('h, 'd, 'l) System \<Rightarrow> ((AcpiError + unit) \<times> ('h, 'd, 'l) System) option" where
  "parse_tables P xsdt s = do {
     r \<leftarrow> validate_checksum P (sys_km s) xsdt;
     (case r of
        Inl e \<Rightarrow> Some (Err e, s)
      | Inr _ \<Rightarrow> do {
          n \<leftarrow> sdt_entry_count P (sys_km s) xsdt 8;
          xsdt_loop P (xsdt + size_of SdtHeader) n s }) }"

subsection \<open>The root pointer\<close>

definition Rsdp :: struct_layout where
  "Rsdp = [(''signature'', 8), (''checksum'', 1), (''oem_id'', 6), (''revision'', 1), (''rsdt_address'', 4)]"

definition Rsdp2 :: struct_layout where
  "Rsdp2 = Rsdp @ [(''length'', 4), (''xsdt_address'', 8), (''extended_checksum'', 1), (''_reserved'', 3)]"

fun sum_bytes :: "('h, 'd, 'l) Platform \<Rightarrow> KernelMem \<Rightarrow> VirtAddr \<Rightarrow> nat list \<Rightarrow> usize \<Rightarrow> usize option" where
  "sum_bytes P k p [] acc = Some acc"
| "sum_bytes P k p (i # is) acc = do {
     b \<leftarrow> read_byte P k (p + i);
     acc \<leftarrow> uadd acc (unat b);
     sum_bytes P k p is acc }"

definition rsdp_validate_checksum :: "('h, 'd, 'l) Platform \<Rightarrow> KernelMem \<Rightarrow> VirtAddr \<Rightarrow> (AcpiError + unit) option" where
  "rsdp_validate_checksum P k va = do {
     acc \<leftarrow> sum_bytes P k va [0..<size_of Rsdp] 0;
     (if acc AND 0xff \<noteq> 0 then Some (Err InvalidChecksum)
      else do {
        acc \<leftarrow> sum_bytes P k (va + size_of Rsdp) [0..<size_of Rsdp2 - size_of Rsdp] 0;
        Some (if acc AND 0xff \<noteq> 0 then Err InvalidChecksum else Ok ()) }) }"

definition get_xsdt :: "('h, 'd, 'l) Platform \<Rightarrow> VirtAddr \<Rightarrow> ('h, 'd, 'l) System \<Rightarrow> (VirtAddr \<times> ('h, 'd, 'l) System) option" where
  "get_xsdt P va s = do {
     addr \<leftarrow> field_of P (sys_km s) Rsdp2 va ''xsdt_address'';
     (p, s) \<leftarrow> map_table P addr s;
     _ \<leftarrow> ensure (p mod 4 = 0);
     Some (p, s) }"

definition acpi_init :: "('h, 'd, 'l) Platform \<Rightarrow> PhysAddr \<Rightarrow> ('h, 'd, 'l) System \<Rightarrow> ((AcpiError + unit) \<times> ('h, 'd, 'l) System) option" where
  "acpi_init P rsdp_addr s = do {
     (rsdp, s) \<leftarrow> map_table P rsdp_addr s;
     r \<leftarrow> rsdp_validate_checksum P (sys_km s) rsdp;
     (case r of
        Inl e \<Rightarrow> Some (Err e, s)
      | Inr _ \<Rightarrow> do {
          (xsdt, s) \<leftarrow> get_xsdt P rsdp s;
          parse_tables P xsdt s }) }"

subsection \<open>The tables as values\<close>

datatype AcpiTable =
    TMadt "string \<Rightarrow> nat" "MadtEntry list"
  | THpet "string \<Rightarrow> nat"
  | TMcfg "string \<Rightarrow> nat" "ConfigSpace list"
  | TOther "string \<Rightarrow> nat" "u8 list"

text \<open>The table of the event timer as the firmware builds it: the specification has one byte more than the code's struct, the number of the
  timer block before the minimum tick.  The code reads the minimum tick at that byte, so it gets the number as the low byte and the low
  byte of the minimum tick as the high byte.\<close>

definition HpetTable :: struct_layout where
  "HpetTable = SdtHeader @ [(''event_timer_block_id'', 4)] @ Gas @ [(''hpet_number'', 1), (''minimum_tick'', 2), (''page_protection_n_oem_attr'', 1)]"

definition hpet_tick_read :: "(string \<Rightarrow> nat) \<Rightarrow> nat" where
  "hpet_tick_read v = v ''hpet_number'' + 256 * (v ''minimum_tick'' mod 256)"

definition signature_value :: "string \<Rightarrow> nat" where
  "signature_value sig = le_value (signature_bytes sig)"

definition config_space_bytes :: "ConfigSpace \<Rightarrow> u8 list" where
  "config_space_bytes g = struct_bytes ConfigSpace_layout ((\<lambda>_. 0)(''base_address'' := unat (cs_base_address g),
     ''segment_group_number'' := unat (cs_segment_group_number g), ''start_bus_number'' := unat (cs_start_bus_number g),
     ''end_bus_number'' := unat (cs_end_bus_number g), ''_reserved'' := unat (cs_reserved g)))"

fun table_bytes :: "AcpiTable \<Rightarrow> u8 list" where
  "table_bytes (TMadt v es) = madt_bytes (v(''signature'' := signature_value ''APIC'')) es"
| "table_bytes (THpet v) = struct_bytes HpetTable (v(''signature'' := signature_value ''HPET'', ''length'' := size_of HpetTable))"
| "table_bytes (TMcfg v gs) = struct_bytes Mcfg (v(''signature'' := signature_value ''MCFG'', ''length'' := size_of Mcfg + 16 * length gs))
     @ concat (map config_space_bytes gs)"
| "table_bytes (TOther v bs) = struct_bytes SdtHeader v @ bs"

fun table_ok :: "AcpiTable \<Rightarrow> bool" where
  "table_ok (TMadt v es) \<longleftrightarrow> madt_ok v es"
| "table_ok (THpet v) \<longleftrightarrow> v ''addr'' + BASIC_PAGE_SIZE \<le> USIZE_LIM \<and> BASIC_PAGE_SIZE dvd v ''addr'' \<and> v ''hpet_number'' < 256"
| "table_ok (TMcfg v gs) \<longleftrightarrow> list_all group_ok gs"
| "table_ok (TOther v bs) \<longleftrightarrow> le_bytes 4 (v ''signature'') \<notin> signature_bytes ` {''APIC'', ''HPET'', ''MCFG''}"

fun is_other :: "AcpiTable \<Rightarrow> bool" where
  "is_other (TOther v bs) \<longleftrightarrow> True"
| "is_other _ \<longleftrightarrow> False"

text \<open>The pages of address space a table takes.\<close>

fun table_pages :: "(PhysAddr \<Rightarrow> u32) \<Rightarrow> AcpiTable \<Rightarrow> nat" where
  "table_pages cfg (TMadt v es) = length es"
| "table_pages cfg (THpet v) = 1"
| "table_pages cfg (TMcfg v gs) = length (all_probed cfg gs)"
| "table_pages cfg (TOther v bs) = 0"

text \<open>What a table asks for.\<close>

fun apply_table :: "('h, 'd, 'l) Platform \<Rightarrow> AcpiTable \<Rightarrow> ('h, 'd, 'l) System \<Rightarrow> ('h, 'd, 'l) System option" where
  "apply_table P (TMadt v es) s = do {
     s \<leftarrow> apply_entries P (v ''local_apic_addr'') es (s \<lparr> sys_ports := sys_ports s @ [Out8 0x21 0xFF, Out8 0xA1 0xFF] \<rparr>);
     a \<leftarrow> init_irq_allocator (sys_ioapics s);
     Some (sys_set_ioapics a s) }"
| "apply_table P (THpet v) s = do {
     (r, k) \<leftarrow> manager_map_pages (pf_hhdm P) (pf_pml P) (sys_km s) (v ''addr'') 1 (set_read_write flags_new True) Size4KB;
     p \<leftarrow> unwrap_ok r;
     t \<leftarrow> hpet_init (pf_hpet_rd P) (pf_hpet_wr P) (sys_timers s) p (of_nat (hpet_tick_read v)) LegacyRouting;
     Some (s \<lparr> sys_km := k, sys_timers := t \<rparr>) }"
| "apply_table P (TMcfg v gs) s = do {
     (_, _, m, k) \<leftarrow> pcie_manager_init (pf_hhdm P) (pf_pml P) (pf_cfg P) gs (sys_pcie s) (sys_km s);
     Some (s \<lparr> sys_km := k, sys_pcie := m \<rparr>) }"
| "apply_table P (TOther v bs) s = Some s"

fun apply_tables :: "('h, 'd, 'l) Platform \<Rightarrow> (PhysAddr \<times> AcpiTable) list \<Rightarrow> ('h, 'd, 'l) System \<Rightarrow> ((AcpiError + unit) \<times> ('h, 'd, 'l) System) option" where
  "apply_tables P [] s = Some (Ok (), s)"
| "apply_tables P ((addr, t) # ts) s = do {
     (_, s) \<leftarrow> map_table P addr s;
     (if checksum_ok (table_bytes t) \<or> is_other t then do {
        s \<leftarrow> apply_table P t s;
        apply_tables P ts s }
      else Some (Err InvalidChecksum, s)) }"

subsection \<open>Reading a table\<close>

lemma sdt_signature:
  assumes "bytes_at P k va (struct_bytes (SdtHeader @ ly) v @ bs)"
  shows "read_bytes P k va 4 = Some (le_bytes 4 (v ''signature''))"
    and "v ''length'' < 2 ^ 32 \<Longrightarrow> field_of P k SdtHeader va ''length'' = Some (v ''length'')"
proof -
  from assms have at: "bytes_at P k va (struct_bytes SdtHeader v @ struct_bytes ly v @ bs)" by (simp add: struct_bytes_append)
  have "field_at SdtHeader ''signature'' 0 = Some (0, 4)" by (simp add: SdtHeader_def)
  from struct_field [OF this, of v "struct_bytes ly v @ bs"] have "take 4 (struct_bytes SdtHeader v @ struct_bytes ly v @ bs) = le_bytes 4 (v ''signature'')" by simp
  moreover have "0 + 4 \<le> length (struct_bytes SdtHeader v @ struct_bytes ly v @ bs)" by (simp add: length_struct_bytes size_of_def SdtHeader_def)
  ultimately show "read_bytes P k va 4 = Some (le_bytes 4 (v ''signature''))" using read_bytes_part [OF at, of 0 4] by simp
  show "v ''length'' < 2 ^ 32 \<Longrightarrow> field_of P k SdtHeader va ''length'' = Some (v ''length'')"
    using field_of_struct [OF at, of "''length''" 4 4] by (simp add: SdtHeader_def)
qed

text \<open>The signatures tell the tables apart.\<close>

lemma signatures:
  "le_bytes 4 (signature_value ''APIC'') = signature_bytes ''APIC''" "le_bytes 4 (signature_value ''HPET'') = signature_bytes ''HPET''"
  "le_bytes 4 (signature_value ''MCFG'') = signature_bytes ''MCFG''"
  "signature_bytes ''HPET'' \<noteq> signature_bytes ''APIC''" "signature_bytes ''MCFG'' \<noteq> signature_bytes ''APIC''" "signature_bytes ''MCFG'' \<noteq> signature_bytes ''HPET''"
  by (simp_all add: signature_value_def le_bytes_numeral signature_bytes_def)

lemma config_space_at:
  assumes "bytes_at P k va (concat (map config_space_bytes gs) @ bs)"
  shows "read_config_spaces P k va (length gs) = Some gs"
  using assms
proof (induction gs arbitrary: va)
  case (Cons g gs)
  let ?v = "(\<lambda>_. 0)(''base_address'' := unat (cs_base_address g), ''segment_group_number'' := unat (cs_segment_group_number g),
     ''start_bus_number'' := unat (cs_start_bus_number g), ''end_bus_number'' := unat (cs_end_bus_number g), ''_reserved'' := unat (cs_reserved g))"
  have at: "bytes_at P k va (struct_bytes ConfigSpace_layout ?v @ concat (map config_space_bytes gs) @ bs)"
    using Cons.prems by (simp add: config_space_bytes_def [of g])
  have w: "unat x < 256" "unat y < 65536" "unat z < 4294967296" "unat u < 18446744073709551616" for x :: u8 and y :: u16 and z :: u32 and u :: u64
    using unsigned_less [of x, where ?'a = nat] unsigned_less [of y, where ?'a = nat] unsigned_less [of z, where ?'a = nat]
      unsigned_less [of u, where ?'a = nat] by simp_all
  have "read_config_space P k va = Some g"
    unfolding read_config_space_def
    using field_of_struct [OF at, of "''base_address''" 0 8] field_of_struct [OF at, of "''segment_group_number''" 8 2]
      field_of_struct [OF at, of "''start_bus_number''" 10 1] field_of_struct [OF at, of "''end_bus_number''" 11 1]
      field_of_struct [OF at, of "''_reserved''" 12 4] w
    by (simp add: ConfigSpace_layout_def)
  moreover have "bytes_at P k (va + size_of ConfigSpace_layout) (concat (map config_space_bytes gs) @ bs)"
    using at by (simp add: bytes_at_append length_struct_bytes)
  ultimately show ?case using Cons.IH by simp
qed simp

lemma validate_at:
  assumes "bytes_at P k va (struct_bytes (SdtHeader @ ly) v @ bs)" and "v ''length'' = length (struct_bytes (SdtHeader @ ly) v @ bs)"
    and "v ''length'' < 2 ^ 32"
  shows "validate_checksum P k va = Some (if checksum_ok (struct_bytes (SdtHeader @ ly) v @ bs) then Ok () else Err InvalidChecksum)"
  by (rule validate_checksum_at [OF assms(1)]) (use sdt_signature(2) [OF assms(1,3)] assms(2) in simp)

text \<open>The two fields the code reads of such a table.\<close>

lemma hpet_fields:
  assumes "bytes_at P k va (table_bytes (THpet v))" and t: "table_ok (THpet v)"
  shows "field_of P k AcpiHpet va ''addr'' = Some (v ''addr'')" and "field_of P k AcpiHpet va ''minimum_tick'' = Some (hpet_tick_read v)"
proof -
  let ?v = "v(''signature'' := signature_value ''HPET'', ''length'' := size_of HpetTable)"
  let ?pre = "SdtHeader @ [(''event_timer_block_id'', 4)] @ Gas"
  let ?rest = "[(''hpet_number'', 1), (''minimum_tick'', 2), (''page_protection_n_oem_attr'', 1)]"
  have "struct_bytes HpetTable w = struct_bytes ?pre w @ struct_bytes ?rest w" for w
    by (simp only: HpetTable_def struct_bytes_append append_assoc)
  then have b: "table_bytes (THpet v) = struct_bytes ?pre ?v @ struct_bytes ?rest ?v" by (simp only: table_bytes.simps)
  have at: "bytes_at P k va (struct_bytes ?pre ?v @ struct_bytes ?rest ?v)" using assms(1) unfolding b .
  have off: "length (struct_bytes ?pre ?v) = 52" by (simp add: length_struct_bytes size_of_def SdtHeader_def Gas_def)
  have "v ''addr'' < 256 ^ 8" using t by (simp add: USIZE_LIM_def BASIC_PAGE_SIZE_def)
  with field_of_struct [OF at, of "''addr''" 44 8] show "field_of P k AcpiHpet va ''addr'' = Some (v ''addr'')"
    by (simp add: field_of_def AcpiHpet_def SdtHeader_def Gas_def)
  have "bytes_at P k (va + 52) (struct_bytes ?rest ?v)" using at off by (simp add: bytes_at_append)
  from read_bytes_part [OF this, of 0 2] have "read_bytes P k (va + 52) 2 = Some [of_nat (v ''hpet_number''), of_nat (v ''minimum_tick'')]"
    by (simp add: struct_bytes_def le_bytes_numeral)
  then show "field_of P k AcpiHpet va ''minimum_tick'' = Some (hpet_tick_read v)"
    using t by (simp add: field_of_def AcpiHpet_def SdtHeader_def Gas_def hpet_tick_read_def unat_of_nat)
qed

text \<open>The tick is read right only when its two bytes and the number of the timer block are all equal.\<close>

lemma hpet_tick_misread:
  assumes "v ''hpet_number'' < 256" and "v ''minimum_tick'' < 2 ^ 16"
  shows "hpet_tick_read v = v ''minimum_tick'' \<longleftrightarrow> v ''hpet_number'' = v ''minimum_tick'' mod 256 \<and> v ''minimum_tick'' div 256 = v ''minimum_tick'' mod 256"
proof -
  let ?t = "v ''minimum_tick''"
  have parts: "hpet_tick_read v mod 256 = v ''hpet_number''" "hpet_tick_read v div 256 = ?t mod 256"
    using assms(1) by (simp_all add: hpet_tick_read_def)
  have "hpet_tick_read v = ?t \<longleftrightarrow> hpet_tick_read v mod 256 = ?t mod 256 \<and> hpet_tick_read v div 256 = ?t div 256"
    by (metis div_mult_mod_eq)
  then show ?thesis unfolding parts by auto
qed

lemma setup_hpet_apply:
  assumes ok: "scan_ok L M (pf_hhdm P) (pf_pml P) n0 lim F (sys_km s) D U" and pm: "page_map D va pa (length (table_bytes (THpet v)))"
    and mem: "phys_bytes P pa (table_bytes (THpet v))" and t: "table_ok (THpet v)"
    and room: "vaa_next (sys_km s) < lim" "3 * BASIC_PAGE_SIZE \<le> card U"
  shows "setup_hpet P va s = (if checksum_ok (table_bytes (THpet v)) then do { s' \<leftarrow> apply_table P (THpet v) s; Some (Ok (), s') }
      else Some (Err InvalidChecksum, s))"
proof -
  let ?v = "v(''signature'' := signature_value ''HPET'', ''length'' := size_of HpetTable)"
  let ?ly = "[(''event_timer_block_id'', 4)] @ Gas @ [(''hpet_number'', 1), (''minimum_tick'', 2), (''page_protection_n_oem_attr'', 1)]"
  have ly: "HpetTable = SdtHeader @ ?ly" by (simp add: HpetTable_def)
  have at: "bytes_at P (sys_km s) va (table_bytes (THpet v))" by (rule bytes_at_page [OF ok pm mem])
  have chk: "validate_checksum P (sys_km s) va = Some (if checksum_ok (table_bytes (THpet v)) then Ok () else Err InvalidChecksum)"
    using validate_at [of P "sys_km s" va ?ly ?v "[]"] at by (simp add: ly [symmetric] length_struct_bytes) (simp add: HpetTable_def size_of_def SdtHeader_def Gas_def)
  have later: "field_of P k AcpiHpet va ''minimum_tick'' = Some (hpet_tick_read v)"
    if m: "manager_map_pages (pf_hhdm P) (pf_pml P) (sys_km s) (v ''addr'') 1 (set_read_write flags_new True) Size4KB = Some (r, k)" for r k
  proof -
    from t have "BASIC_PAGE_SIZE dvd v ''addr''" "v ''addr'' + BASIC_PAGE_SIZE \<le> USIZE_LIM" by simp_all
    from kept_map(3) [OF ok room this flags_rw m] obtain D' U' where "scan_ok L M (pf_hhdm P) (pf_pml P) n0 lim F k D' U'" "D \<subseteq>\<^sub>m D'" by blast
    from hpet_fields(2) [OF bytes_at_page [OF this(1) page_map_mono [OF pm this(2)] mem] t] show ?thesis .
  qed
  show ?thesis
    using chk hpet_fields(1) [OF at t] later
    by (cases "manager_map_pages (pf_hhdm P) (pf_pml P) (sys_km s) (v ''addr'') 1 (set_read_write flags_new True) Size4KB")
      (auto simp: setup_hpet_def bind_assoc)
qed

lemma mcfg_parse_apply:
  assumes at: "bytes_at P (sys_km s) va (table_bytes (TMcfg v gs))" and len: "length (table_bytes (TMcfg v gs)) < 2 ^ 32"
  shows "mcfg_parse P va s = (if checksum_ok (table_bytes (TMcfg v gs)) then do { s' \<leftarrow> apply_table P (TMcfg v gs) s; Some (Ok (), s') }
      else Some (Err InvalidChecksum, s))"
proof -
  let ?v = "v(''signature'' := signature_value ''MCFG'', ''length'' := size_of Mcfg + 16 * length gs)"
  have cs: "length (config_space_bytes g) = 16" for g by (simp add: config_space_bytes_def length_struct_bytes size_of_def ConfigSpace_layout_def)
  then have total: "length (table_bytes (TMcfg v gs)) = size_of Mcfg + 16 * length gs"
    by (simp add: length_struct_bytes length_concat comp_def sum_list_triv)
  have tb: "table_bytes (TMcfg v gs) = struct_bytes (SdtHeader @ [(''_reserved'', 8)]) ?v @ concat (map config_space_bytes gs)"
    by (simp only: table_bytes.simps Mcfg_def)
  note at' = at [unfolded tb]
  have chk: "validate_checksum P (sys_km s) va = Some (if checksum_ok (table_bytes (TMcfg v gs)) then Ok () else Err InvalidChecksum)"
    unfolding tb by (rule validate_at [OF at']) (use total len tb in simp_all)
  have "field_of P (sys_km s) SdtHeader va ''length'' = Some (size_of Mcfg + 16 * length gs)"
    using sdt_signature(2) [OF at'] len total by simp
  then have "determine_entries_count P (sys_km s) va = Some (length gs)"
    by (simp add: determine_entries_count_def usub_def ConfigSpace_layout_def size_of_def)
  moreover have "read_config_spaces P (sys_km s) (va + size_of Mcfg) (length gs) = Some gs"
    by (rule config_space_at [where bs = "[]"]) (use at in \<open>simp add: bytes_at_append length_struct_bytes\<close>)
  moreover have "r = Ok ()" if "pcie_manager_init (pf_hhdm P) (pf_pml P) (pf_cfg P) gs (sys_pcie s) (sys_km s) = Some (r, x)" for r x
    using that by (auto simp: pcie_manager_init_def split: Option.bind_splits)
  ultimately show ?thesis
    using chk by (cases "pcie_manager_init (pf_hhdm P) (pf_pml P) (pf_cfg P) gs (sys_pcie s) (sys_km s)") (auto simp: mcfg_parse_def)
qed

lemma parse_table_apply:
  assumes ok: "scan_ok L M (pf_hhdm P) (pf_pml P) n0 lim F (sys_km s) D U" and pm: "page_map D va pa (length (table_bytes t))"
    and mem: "phys_bytes P pa (table_bytes t)" and t: "table_ok t"
    and room: "vaa_next (sys_km s) + table_pages (pf_cfg P) t \<le> lim" "3 * table_pages (pf_cfg P) t * BASIC_PAGE_SIZE \<le> card U"
  shows "parse_table P va s = (if checksum_ok (table_bytes t) \<or> is_other t then do { s' \<leftarrow> apply_table P t s; Some (Ok (), s') }
      else Some (Err InvalidChecksum, s))"
proof -
  have at: "bytes_at P (sys_km s) va (table_bytes t)" by (rule bytes_at_page [OF ok pm mem])
  have small: "length (table_bytes t) < 2 ^ 32" using pm by (simp add: page_map_def BASIC_PAGE_SIZE_def)
  show ?thesis
  proof (cases t)
    case (TMadt v es)
    let ?v = "v(''signature'' := signature_value ''APIC'')"
    have "madt_ok ?v es" using t by (simp add: TMadt madt_ok_def)
    from madt_parse_spec [OF this, of P pa D va] mem pm ok room
    have "madt_parse P va s = (if checksum_ok (table_bytes t) then do { s' \<leftarrow> apply_table P t s; Some (Ok (), s') } else Some (Err InvalidChecksum, s))"
      by (simp add: TMadt)
    moreover have "read_bytes P (sys_km s) va 4 = Some (signature_bytes ''APIC'')"
      using at sdt_signature(1) [of P "sys_km s" va "[(''local_apic_addr'', 4), (''flags'', 4)]"] by (fastforce simp: TMadt madt_bytes_def Madt_def signatures)
    ultimately show ?thesis by (simp add: parse_table_def TMadt)
  next
    case (THpet v)
    have "read_bytes P (sys_km s) va 4 = Some (signature_bytes ''HPET'')"
      using at sdt_signature(1) [of P "sys_km s" va "[(''event_timer_block_id'', 4)] @ Gas @ [(''hpet_number'', 1), (''minimum_tick'', 2), (''page_protection_n_oem_attr'', 1)]" _ "[]"]
      by (fastforce simp: THpet HpetTable_def signatures)
    with setup_hpet_apply [of L M P n0 lim F s D U va pa v] ok pm mem t room show ?thesis by (simp add: parse_table_def THpet signatures)
  next
    case (TMcfg v gs)
    have "read_bytes P (sys_km s) va 4 = Some (signature_bytes ''MCFG'')"
      using at sdt_signature(1) [of P "sys_km s" va "[(''_reserved'', 8)]"] by (fastforce simp: TMcfg Mcfg_def signatures)
    with mcfg_parse_apply [of P s va v gs] at small show ?thesis by (simp add: parse_table_def TMcfg signatures)
  next
    case (TOther v bs)
    have "read_bytes P (sys_km s) va 4 = Some (le_bytes 4 (v ''signature''))" using at sdt_signature(1) [of P "sys_km s" va "[]" v bs] by (simp add: TOther)
    with t show ?thesis by (auto simp: parse_table_def TOther)
  qed
qed

subsection \<open>What the tables keep\<close>

lemma apply_entries_kept:
  assumes base: "BASIC_PAGE_SIZE dvd base" "base + BASIC_PAGE_SIZE \<le> USIZE_LIM"
  shows "list_all entry_ok es \<Longrightarrow> scan_ok L M (pf_hhdm P) (pf_pml P) n0 lim F (sys_km s) D U \<Longrightarrow> vaa_next (sys_km s) + length es \<le> lim
    \<Longrightarrow> 3 * length es * BASIC_PAGE_SIZE \<le> card U \<Longrightarrow> apply_entries P base es s = Some s'
    \<Longrightarrow> kept L M (pf_hhdm P) (pf_pml P) n0 lim F (length es) (sys_km s) D U (sys_km s')"
proof (induction es arbitrary: s D U)
  case Nil
  then show ?case using kept_refl by fastforce
next
  case (Cons e es)
  from Cons.prems(5) obtain s1 where s1: "apply_entry P base e s = Some s1" "apply_entries P base es s1 = Some s'" by (auto split: Option.bind_splits)
  have room: "vaa_next (sys_km s) < lim" "3 * BASIC_PAGE_SIZE \<le> card U" and e: "entry_ok e" "list_all entry_ok es"
    using Cons.prems(1,3,4) by (simp_all add: BASIC_PAGE_SIZE_def)
  from apply_entry_kept [OF Cons.prems(2) room base e(1) s1(1)] obtain D1 U1 where k:
    "scan_ok L M (pf_hhdm P) (pf_pml P) n0 lim F (sys_km s1) D1 U1" "D \<subseteq>\<^sub>m D1" "vaa_next (sys_km s1) \<le> vaa_next (sys_km s) + 1"
    "card U \<le> card U1 + 3 * BASIC_PAGE_SIZE" by (auto simp: kept_def)
  have room1: "vaa_next (sys_km s1) + length es \<le> lim" "3 * length es * BASIC_PAGE_SIZE \<le> card U1"
    using k(3,4) Cons.prems(3,4) by (simp_all add: BASIC_PAGE_SIZE_def)
  from Cons.IH [OF e(2) k(1) room1 s1(2)] obtain D' U' where
    "scan_ok L M (pf_hhdm P) (pf_pml P) n0 lim F (sys_km s') D' U'" "D1 \<subseteq>\<^sub>m D'" "vaa_next (sys_km s') \<le> vaa_next (sys_km s1) + length es"
    "card U1 \<le> card U' + 3 * length es * BASIC_PAGE_SIZE" by (auto simp: kept_def)
  with k map_le_trans [OF k(2)] show ?case unfolding kept_def
    by (intro exI [of _ D'] exI [of _ U']) (auto simp: BASIC_PAGE_SIZE_def)
qed

lemma pcie_kept:
  assumes ok: "scan_ok L M hhdm pml n0 lim F k D U" and gs: "list_all group_ok gs"
    and room: "vaa_next k + length (all_probed cfg gs) \<le> lim" "3 * length (all_probed cfg gs) * BASIC_PAGE_SIZE \<le> card U"
    and m: "pcie_manager_init hhdm pml cfg gs m k = Some (r, log, m', k')"
  shows "kept L M hhdm pml n0 lim F (length (all_probed cfg gs)) k D U k'"
proof -
  from brute_force_spec [OF gs ok room, of m] obtain m1 k1 D1 U1 where b: "brute_force_discover hhdm pml cfg gs m k = Some (m1, k1)"
    "scanned cfg L M hhdm pml n0 lim F (all_probed cfg gs) (m, k, D, U) (m1, k1, D1, U1)" by blast
  with m have "k' = k1" by (auto simp: pcie_manager_init_def split: Option.bind_splits)
  from b(2) obtain vas where v: "D1 = D(vas [\<mapsto>] filter (answers cfg) (all_probed cfg gs))" "length vas = length (filter (answers cfg) (all_probed cfg gs))"
    "distinct vas" "set vas \<subseteq> (\<lambda>n. n * BASIC_PAGE_SIZE) ` {vaa_next k..<vaa_next k1}" "vaa_next k1 = vaa_next k + length (all_probed cfg gs)"
    "card U \<le> card U1 + 3 * length (all_probed cfg gs) * BASIC_PAGE_SIZE" "scan_ok L M hhdm pml n0 lim F k1 D1 U1"
    by (auto simp: scanned_def)
  have "D \<subseteq>\<^sub>m D1" unfolding map_le_def
  proof
    fix va assume "va \<in> dom D"
    then obtain pa where pa: "D va = Some pa" by blast
    from scan_okD(9) [OF ok pa] v(5) room(1) have "va \<notin> (\<lambda>n. n * BASIC_PAGE_SIZE) ` {vaa_next k..<vaa_next k1}" by (auto simp: BASIC_PAGE_SIZE_def)
    then have "va \<notin> set vas" using v(4) by blast
    from map_upds_nth(2) [OF v(2,3) this, of D] show "D va = D1 va" using v(1) by simp
  qed
  with v \<open>k' = k1\<close> show ?thesis unfolding kept_def by (intro exI [of _ D1] exI [of _ U1]) simp
qed

lemma apply_table_kept:
  assumes ok: "scan_ok L M (pf_hhdm P) (pf_pml P) n0 lim F (sys_km s) D U" and t: "table_ok t" and s': "apply_table P t s = Some s'"
    and room: "vaa_next (sys_km s) + table_pages (pf_cfg P) t \<le> lim" "3 * table_pages (pf_cfg P) t * BASIC_PAGE_SIZE \<le> card U"
  shows "kept L M (pf_hhdm P) (pf_pml P) n0 lim F (table_pages (pf_cfg P) t) (sys_km s) D U (sys_km s')"
proof (cases t)
  case (TMadt v es)
  let ?s = "s \<lparr> sys_ports := sys_ports s @ [Out8 0x21 0xFF, Out8 0xA1 0xFF] \<rparr>"
  from s' obtain s1 where s1: "apply_entries P (v ''local_apic_addr'') es ?s = Some s1" "sys_km s' = sys_km s1"
    by (auto simp: TMadt sys_set_ioapics_def split: Option.bind_splits)
  have base: "BASIC_PAGE_SIZE dvd v ''local_apic_addr''" "v ''local_apic_addr'' + BASIC_PAGE_SIZE \<le> USIZE_LIM" and es: "list_all entry_ok es"
    using t by (auto simp: TMadt madt_ok_def BASIC_PAGE_SIZE_def USIZE_LIM_def)
  from apply_entries_kept [OF base es _ _ _ s1(1), of L M n0 lim F D U] ok room show ?thesis by (simp add: TMadt s1(2))
next
  case (THpet v)
  have room': "vaa_next (sys_km s) < lim" "3 * BASIC_PAGE_SIZE \<le> card U" using room by (simp_all add: THpet)
  show ?thesis using s' t kept_map(2) [OF ok room' _ _ flags_rw, of "v ''addr''"] by (auto simp: THpet split: Option.bind_splits)
next
  case (TMcfg v gs)
  then show ?thesis using s' t pcie_kept [OF ok _ _ _, of gs "pf_cfg P"] room by (auto split: Option.bind_splits)
next
  case (TOther v bs)
  then show ?thesis using s' kept_refl [OF ok] by simp
qed

subsection \<open>The whole initialisation\<close>

lemma flags_new_ok: "flags_ok Size4KB flags_new" "\<not> get_allocated flags_new"
  by (auto simp: flags_ok_def flag_bits flags_new_def FLAGS_NONE_def)

text \<open>Mapping a table makes it readable.\<close>

lemma map_table_ok:
  assumes ok: "scan_ok L M (pf_hhdm P) (pf_pml P) n0 lim F (sys_km s) D U" and room: "vaa_next (sys_km s) < lim" "3 * BASIC_PAGE_SIZE \<le> card U"
    and addr: "addr + BASIC_PAGE_SIZE \<le> USIZE_LIM" "addr mod BASIC_PAGE_SIZE + n \<le> BASIC_PAGE_SIZE"
  obtains s' D' U' va where "map_table P addr s = Some (va, s')" and "scan_ok L M (pf_hhdm P) (pf_pml P) n0 lim F (sys_km s') D' U'" and "D \<subseteq>\<^sub>m D'"
    and "page_map D' va addr n" and "vaa_next (sys_km s') = vaa_next (sys_km s) + 1" and "card U \<le> card U' + 3 * BASIC_PAGE_SIZE"
    and "va = vaa_next (sys_km s) * BASIC_PAGE_SIZE + addr mod BASIC_PAGE_SIZE"
proof -
  let ?diff = "addr mod BASIC_PAGE_SIZE" and ?p = "vaa_next (sys_km s) * BASIC_PAGE_SIZE"
  have pa: "BASIC_PAGE_SIZE dvd addr - ?diff" "addr - ?diff + BASIC_PAGE_SIZE \<le> USIZE_LIM" using addr(1) by (auto intro: dvd_minus_mod)
  obtain k' U' where k: "manager_map_pages (pf_hhdm P) (pf_pml P) (sys_km s) (addr - ?diff) 1 flags_new Size4KB = Some (Ok ?p, k')"
    "vaa_next k' = vaa_next (sys_km s) + 1" "scan_ok L M (pf_hhdm P) (pf_pml P) n0 lim F k' (D(?p \<mapsto> addr - ?diff)) U'"
    "card U \<le> card U' + 3 * BASIC_PAGE_SIZE" "?p \<notin> dom D"
    by (rule manager_map_page [OF ok room pa flags_new_ok]) (rule that)
  have "?diff < BASIC_PAGE_SIZE" by (simp add: BASIC_PAGE_SIZE_def)
  then have m: "(?p + ?diff) mod BASIC_PAGE_SIZE = ?diff" by (simp add: BASIC_PAGE_SIZE_def)
  have "D \<subseteq>\<^sub>m D(?p \<mapsto> addr - ?diff)" using k(5) by (auto simp: map_le_def)
  moreover have "page_map (D(?p \<mapsto> addr - ?diff)) (?p + ?diff) addr n" using addr(2) by (simp add: page_map_def m)
  moreover have "map_table P addr s = Some (?p + ?diff, s \<lparr> sys_km := k' \<rparr>)" using k(1) by (simp add: map_table_def Let_def)
  ultimately show ?thesis using that [of "?p + ?diff" "s \<lparr> sys_km := k' \<rparr>"] k(2-4) by simp
qed

text \<open>A list of tables in memory, each within a page, and the root table that lists their addresses.\<close>

definition tables_in_memory :: "('h, 'd, 'l) Platform \<Rightarrow> (PhysAddr \<times> AcpiTable) list \<Rightarrow> bool" where
  "tables_in_memory P ts \<longleftrightarrow> list_all (\<lambda>(a, t). table_ok t \<and> phys_bytes P a (table_bytes t)
     \<and> a mod BASIC_PAGE_SIZE + length (table_bytes t) \<le> BASIC_PAGE_SIZE \<and> a + BASIC_PAGE_SIZE \<le> USIZE_LIM) ts"

definition tables_pages :: "(PhysAddr \<Rightarrow> u32) \<Rightarrow> (PhysAddr \<times> AcpiTable) list \<Rightarrow> nat" where
  "tables_pages cfg ts = sum_list (map (\<lambda>(a, t). 1 + table_pages cfg t) ts)"

definition xsdt_bytes :: "(string \<Rightarrow> nat) \<Rightarrow> PhysAddr list \<Rightarrow> u8 list" where
  "xsdt_bytes v addrs = struct_bytes SdtHeader (v(''length'' := size_of SdtHeader + 8 * length addrs)) @ concat (map (le_bytes 8) addrs)"

lemma length_xsdt_bytes: "length (xsdt_bytes v addrs) = size_of SdtHeader + 8 * length addrs"
  by (simp add: xsdt_bytes_def length_struct_bytes length_concat comp_def sum_list_triv)

lemma xsdt_loop_apply:
  assumes mem: "phys_bytes P xpa (xsdt_bytes v (map fst ts0))"
  shows "ts0 = done @ ts \<Longrightarrow> tables_in_memory P ts \<Longrightarrow> scan_ok L M (pf_hhdm P) (pf_pml P) n0 lim F (sys_km s) D U
    \<Longrightarrow> page_map D xsdt xpa (length (xsdt_bytes v (map fst ts0)))
    \<Longrightarrow> vaa_next (sys_km s) + tables_pages (pf_cfg P) ts \<le> lim \<Longrightarrow> 3 * tables_pages (pf_cfg P) ts * BASIC_PAGE_SIZE \<le> card U
    \<Longrightarrow> xsdt_loop P (xsdt + size_of SdtHeader + 8 * length done) (length ts) s = apply_tables P ts s"
proof (induction ts arbitrary: "done" s D U)
  case (Cons at ts)
  obtain a t where at: "at = (a, t)" by (cases at)
  let ?p = "xsdt + size_of SdtHeader + 8 * length done"
  have t: "table_ok t" "phys_bytes P a (table_bytes t)" "a mod BASIC_PAGE_SIZE + length (table_bytes t) \<le> BASIC_PAGE_SIZE" "a + BASIC_PAGE_SIZE \<le> USIZE_LIM"
    and ts: "tables_in_memory P ts" using Cons.prems(2) by (simp_all add: tables_in_memory_def at)
  have "bytes_at P (sys_km s) xsdt (xsdt_bytes v (map fst ts0))" by (rule bytes_at_page [OF Cons.prems(3,4) mem])
  then have "bytes_at P (sys_km s) ?p (le_bytes 8 a @ concat (map (le_bytes 8) (map fst ts)))"
    unfolding xsdt_bytes_def Cons.prems(1) at
    by (simp add: bytes_at_append length_struct_bytes length_concat comp_def sum_list_triv add.assoc mult.commute)
  from read_bytes_part [OF this, of 0 8] have rd: "read_bytes P (sys_km s) ?p 8 = Some (le_bytes 8 a)" by simp
  have a: "le_value (le_bytes 8 a) = a" using t(4) by (intro le_value_bytes_eq) (simp add: USIZE_LIM_def BASIC_PAGE_SIZE_def)
  let ?n = "table_pages (pf_cfg P) t"
  have pages: "tables_pages (pf_cfg P) (at # ts) = 1 + ?n + tables_pages (pf_cfg P) ts" by (simp add: tables_pages_def at)
  have room: "vaa_next (sys_km s) < lim" "3 * BASIC_PAGE_SIZE \<le> card U" using Cons.prems(5,6) unfolding pages by (simp_all add: BASIC_PAGE_SIZE_def)
  obtain s1 D1 U1 va where m: "map_table P a s = Some (va, s1)" "scan_ok L M (pf_hhdm P) (pf_pml P) n0 lim F (sys_km s1) D1 U1" "D \<subseteq>\<^sub>m D1"
    "page_map D1 va a (length (table_bytes t))" "vaa_next (sys_km s1) = vaa_next (sys_km s) + 1" "card U \<le> card U1 + 3 * BASIC_PAGE_SIZE"
    by (rule map_table_ok [OF Cons.prems(3) room t(4,3)]) (rule that)
  have room1: "vaa_next (sys_km s1) + ?n \<le> lim" "3 * ?n * BASIC_PAGE_SIZE \<le> card U1"
    using Cons.prems(5,6) m(5,6) unfolding pages by (simp_all add: BASIC_PAGE_SIZE_def)
  note parse = parse_table_apply [OF m(2,4) t(2,1) room1]
  have step: "xsdt_loop P ?p (length (at # ts)) s = (do { (r, s2) \<leftarrow> parse_table P va s1;
      case r of Inl e \<Rightarrow> Some (Err e, s2) | Inr _ \<Rightarrow> xsdt_loop P (?p + 8) (length ts) s2 })" by (simp add: rd a m(1))
  show ?case
  proof (cases "(checksum_ok (table_bytes t) \<or> is_other t) \<and> apply_table P t s1 \<noteq> None")
    case False
    then show ?thesis unfolding step by (auto simp: parse m(1) at)
  next
    case True
    then obtain s2 where s2: "apply_table P t s1 = Some s2" by blast
    from apply_table_kept [OF m(2) t(1) s2 room1] obtain D2 U2 where k: "scan_ok L M (pf_hhdm P) (pf_pml P) n0 lim F (sys_km s2) D2 U2" "D1 \<subseteq>\<^sub>m D2"
      "vaa_next (sys_km s2) \<le> vaa_next (sys_km s1) + ?n" "card U1 \<le> card U2 + 3 * ?n * BASIC_PAGE_SIZE" by (auto simp: kept_def)
    have ts0: "ts0 = (done @ [at]) @ ts" using Cons.prems(1) by simp
    have room2: "vaa_next (sys_km s2) + tables_pages (pf_cfg P) ts \<le> lim" "3 * tables_pages (pf_cfg P) ts * BASIC_PAGE_SIZE \<le> card U2"
      using Cons.prems(5,6) m(5,6) k(3,4) unfolding pages by (simp_all add: BASIC_PAGE_SIZE_def)
    have p: "?p + 8 = xsdt + size_of SdtHeader + 8 * length (done @ [at])" by simp
    have "xsdt_loop P (?p + 8) (length ts) s2 = apply_tables P ts s2"
      unfolding p by (rule Cons.IH [OF ts0 ts k(1) page_map_mono [OF page_map_mono [OF Cons.prems(4) m(3)] k(2)] room2])
    then show ?thesis unfolding step using True s2 by (simp add: parse m(1) at)
  qed
qed simp

lemma parse_tables_apply:
  assumes mem: "phys_bytes P xpa (xsdt_bytes v (map fst ts))" and ts: "tables_in_memory P ts"
    and ok: "scan_ok L M (pf_hhdm P) (pf_pml P) n0 lim F (sys_km s) D U" and pm: "page_map D xsdt xpa (length (xsdt_bytes v (map fst ts)))"
    and room: "vaa_next (sys_km s) + tables_pages (pf_cfg P) ts \<le> lim" "3 * tables_pages (pf_cfg P) ts * BASIC_PAGE_SIZE \<le> card U"
  shows "parse_tables P xsdt s = (if checksum_ok (xsdt_bytes v (map fst ts)) then apply_tables P ts s else Some (Err InvalidChecksum, s))"
proof -
  let ?v = "v(''length'' := size_of SdtHeader + 8 * length (map fst ts))"
  have at: "bytes_at P (sys_km s) xsdt (xsdt_bytes v (map fst ts))" by (rule bytes_at_page [OF ok pm mem])
  have tb: "xsdt_bytes v (map fst ts) = struct_bytes (SdtHeader @ []) ?v @ concat (map (le_bytes 8) (map fst ts))"
    by (simp only: xsdt_bytes_def append_Nil2)
  have len: "size_of SdtHeader + 8 * length ts < 2 ^ 32" using pm by (simp add: page_map_def BASIC_PAGE_SIZE_def length_xsdt_bytes)
  have "field_of P (sys_km s) SdtHeader xsdt ''length'' = Some (size_of SdtHeader + 8 * length ts)"
    using sdt_signature(2) [OF at [unfolded tb]] len by simp
  then have "sdt_entry_count P (sys_km s) xsdt 8 = Some (length ts)" and
    "validate_checksum P (sys_km s) xsdt = Some (if checksum_ok (xsdt_bytes v (map fst ts)) then Ok () else Err InvalidChecksum)"
    using validate_checksum_at [OF at] by (simp_all add: sdt_entry_count_def usub_def length_xsdt_bytes)
  with xsdt_loop_apply [OF mem, of "[]" ts, OF _ ts ok pm room] show ?thesis by (simp add: parse_tables_def)
qed

lemma sum_bytes_at:
  assumes "bytes_at P k p bs" and "n = length bs" and "n < 2 ^ 32"
  shows "sum_bytes P k p [0..<n] 0 = Some (sum_list (map unat bs))"
proof -
  have "sum_bytes P k p [i..<n] (sum_list (map unat (take i bs))) = Some (sum_list (map unat bs))" if "i \<le> n" for i
    using that
  proof (induction i rule: inc_induct)
    case base
    then show ?case using assms(2) by simp
  next
    case (step i)
    have i: "i < length bs" using step assms(2) by simp
    have bound: "sum_list (map unat xs) \<le> 255 * length xs" for xs :: "u8 list"
    proof (induction xs)
      case (Cons x xs)
      then show ?case using unsigned_less [of x, where ?'a = nat] by simp
    qed simp
    have "take (Suc i) bs = take i bs @ [bs ! i]" using i by (simp add: take_Suc_conv_app_nth)
    moreover have "sum_list (map unat (take i bs)) + unat (bs ! i) < USIZE_LIM"
      using bound [of "take i bs"] unsigned_less [of "bs ! i", where ?'a = nat] i assms(2,3) by (simp add: USIZE_LIM_def)
    moreover have "read_byte P k (p + i) = Some (bs ! i)" using assms(1) i by (simp add: bytes_at_def)
    moreover have "[i..<n] = i # [Suc i..<n]" using step by (simp add: upt_conv_Cons)
    ultimately show ?case using step.IH by (simp add: uadd_ok)
  qed
  from this [of 0] show ?thesis by simp
qed

lemma mask_ff: "n AND 0xff = 0 \<longleftrightarrow> n mod 256 = 0" for n :: nat
  using take_bit_eq_mask [of 8 n] by (simp add: take_bit_eq_mod mask_eq_exp_minus_1)

lemma rsdp_checksum_at:
  assumes "bytes_at P k va (struct_bytes Rsdp2 v)"
  shows "rsdp_validate_checksum P k va = Some (if checksum_ok (take 20 (struct_bytes Rsdp2 v)) \<and> checksum_ok (drop 20 (struct_bytes Rsdp2 v))
      then Ok () else Err InvalidChecksum)"
proof -
  let ?bs = "struct_bytes Rsdp2 v"
  have len: "length ?bs = 36" "size_of Rsdp2 = 36" "size_of Rsdp = 20" by (simp_all add: length_struct_bytes size_of_def Rsdp2_def Rsdp_def)
  have "bytes_at P k va (take 20 ?bs @ drop 20 ?bs)" using assms by simp
  then have "bytes_at P k va (take 20 ?bs)" "bytes_at P k (va + 20) (drop 20 ?bs)" using len by (simp_all only: bytes_at_append) simp_all
  from sum_bytes_at [OF this(1), of 20] sum_bytes_at [OF this(2), of 16] len show ?thesis
    by (simp add: rsdp_validate_checksum_def mask_ff checksum_ok_def)
qed

lemma acpi_init_spec:
  assumes rsdp: "phys_bytes P rsdp_addr (struct_bytes Rsdp2 r)" "rsdp_addr mod BASIC_PAGE_SIZE + size_of Rsdp2 \<le> BASIC_PAGE_SIZE"
      "rsdp_addr + BASIC_PAGE_SIZE \<le> USIZE_LIM"
    and xsdt: "phys_bytes P xpa (xsdt_bytes v (map fst ts))" "r ''xsdt_address'' = xpa" "4 dvd xpa"
      "xpa mod BASIC_PAGE_SIZE + length (xsdt_bytes v (map fst ts)) \<le> BASIC_PAGE_SIZE" "xpa + BASIC_PAGE_SIZE \<le> USIZE_LIM"
    and ts: "tables_in_memory P ts"
    and ok: "scan_ok L M (pf_hhdm P) (pf_pml P) n0 lim F (sys_km s) D U"
    and room: "vaa_next (sys_km s) + 2 + tables_pages (pf_cfg P) ts \<le> lim" "3 * (2 + tables_pages (pf_cfg P) ts) * BASIC_PAGE_SIZE \<le> card U"
  shows "\<exists>s1 s2. map_table P rsdp_addr s = Some (vaa_next (sys_km s) * BASIC_PAGE_SIZE + rsdp_addr mod BASIC_PAGE_SIZE, s1)
    \<and> map_table P xpa s1 = Some (vaa_next (sys_km s1) * BASIC_PAGE_SIZE + xpa mod BASIC_PAGE_SIZE, s2)
    \<and> acpi_init P rsdp_addr s =
        (if \<not> (checksum_ok (take 20 (struct_bytes Rsdp2 r)) \<and> checksum_ok (drop 20 (struct_bytes Rsdp2 r))) then Some (Err InvalidChecksum, s1)
         else if \<not> checksum_ok (xsdt_bytes v (map fst ts)) then Some (Err InvalidChecksum, s2)
         else apply_tables P ts s2)"
proof -
  have room0: "vaa_next (sys_km s) < lim" "3 * BASIC_PAGE_SIZE \<le> card U" using room by (simp_all add: BASIC_PAGE_SIZE_def)
  have rlen: "rsdp_addr mod BASIC_PAGE_SIZE + length (struct_bytes Rsdp2 r) \<le> BASIC_PAGE_SIZE" using rsdp(2) by (simp add: length_struct_bytes)
  obtain s1 D1 U1 va where m1: "map_table P rsdp_addr s = Some (va, s1)" "scan_ok L M (pf_hhdm P) (pf_pml P) n0 lim F (sys_km s1) D1 U1"
    "page_map D1 va rsdp_addr (length (struct_bytes Rsdp2 r))" "vaa_next (sys_km s1) = vaa_next (sys_km s) + 1" "card U \<le> card U1 + 3 * BASIC_PAGE_SIZE"
    "va = vaa_next (sys_km s) * BASIC_PAGE_SIZE + rsdp_addr mod BASIC_PAGE_SIZE"
    by (rule map_table_ok [OF ok room0 rsdp(3) rlen]) (rule that)
  have room1: "vaa_next (sys_km s1) < lim" "3 * BASIC_PAGE_SIZE \<le> card U1" using room m1(4,5) by (simp_all add: BASIC_PAGE_SIZE_def)
  obtain s2 D2 U2 vx where m2: "map_table P xpa s1 = Some (vx, s2)" "scan_ok L M (pf_hhdm P) (pf_pml P) n0 lim F (sys_km s2) D2 U2"
    "page_map D2 vx xpa (length (xsdt_bytes v (map fst ts)))" "vaa_next (sys_km s2) = vaa_next (sys_km s1) + 1" "card U1 \<le> card U2 + 3 * BASIC_PAGE_SIZE"
    "vx = vaa_next (sys_km s1) * BASIC_PAGE_SIZE + xpa mod BASIC_PAGE_SIZE"
    by (rule map_table_ok [OF m1(2) room1 xsdt(5,4)]) (rule that)
  have room2: "vaa_next (sys_km s2) + tables_pages (pf_cfg P) ts \<le> lim" "3 * tables_pages (pf_cfg P) ts * BASIC_PAGE_SIZE \<le> card U2"
    using room m1(4,5) m2(4,5) by (simp_all add: BASIC_PAGE_SIZE_def)
  have at: "bytes_at P (sys_km s1) va (struct_bytes Rsdp2 r)" by (rule bytes_at_page [OF m1(2,3) rsdp(1)])
  have "r ''xsdt_address'' < 256 ^ 8" using xsdt(2,5) by (simp add: USIZE_LIM_def BASIC_PAGE_SIZE_def)
  with field_of_struct [of P "sys_km s1" va Rsdp2 r "[]" "''xsdt_address''" 24 8] at have "field_of P (sys_km s1) Rsdp2 va ''xsdt_address'' = Some xpa"
    by (simp add: Rsdp2_def Rsdp_def xsdt(2))
  moreover have "vx mod 4 = 0"
  proof -
    have "4 dvd xpa mod BASIC_PAGE_SIZE" by (rule dvd_mod [OF xsdt(3)]) (simp add: BASIC_PAGE_SIZE_def)
    then show ?thesis unfolding m2(6) by (simp add: BASIC_PAGE_SIZE_def mod_eq_0_iff_dvd dvd_add)
  qed
  ultimately have "get_xsdt P va s1 = Some (vx, s2)" using m2(1) by (simp add: get_xsdt_def)
  then have "acpi_init P rsdp_addr s = (if \<not> (checksum_ok (take 20 (struct_bytes Rsdp2 r)) \<and> checksum_ok (drop 20 (struct_bytes Rsdp2 r))) then Some (Err InvalidChecksum, s1)
         else if \<not> checksum_ok (xsdt_bytes v (map fst ts)) then Some (Err InvalidChecksum, s2) else apply_tables P ts s2)"
    using m1(1) rsdp_checksum_at [OF at] parse_tables_apply [OF xsdt(1) ts m2(2,3) room2] by (simp add: acpi_init_def)
  then show ?thesis using m1(1,6) m2(1,6) by blast
qed

text \<open>C17: The initialisation from the firmware's tables, as a whole.  Given a root pointer, a root table and any list of tables, each within one page, and
  address space and frames for the pages they need, the initialisation does exactly this: it maps the root pointer and checks both parts of
  it, maps the root table and checks it, then maps the tables in the order of the root table, carries out what each interrupt controller
  table, event timer table and segment group table asks for, skips all others, and stops with \<open>InvalidChecksum\<close> at
  the first of the three kinds whose bytes do not add up; what the tables before it asked for stays done.  Every
  table is read through its own page while the tables before it have changed the page tables.  The event timer's table has the 56 bytes of its
  specification; the code's struct lacks the byte of the timer block's number, so the minimum tick the driver is given is not the
  table's but \<open>hpet_tick_read\<close>: that number, and the low byte of the tick above it.  Interrupt controller tables hold entries in the code's
  layouts, which for the NMI sources of the I/O APICs (type 3) has 10 bytes where the specification has 8; such a table with an entry of 8 bytes is
  not covered.\<close>

theorem acpi_init_correct:
  assumes rsdp: "phys_bytes P rsdp_addr (struct_bytes Rsdp2 r)" "rsdp_addr mod BASIC_PAGE_SIZE + size_of Rsdp2 \<le> BASIC_PAGE_SIZE"
      "rsdp_addr + BASIC_PAGE_SIZE \<le> USIZE_LIM"
    and xsdt: "phys_bytes P xpa (xsdt_bytes v (map fst ts))" "r ''xsdt_address'' = xpa" "4 dvd xpa"
      "xpa mod BASIC_PAGE_SIZE + length (xsdt_bytes v (map fst ts)) \<le> BASIC_PAGE_SIZE" "xpa + BASIC_PAGE_SIZE \<le> USIZE_LIM"
    and ts: "tables_in_memory P ts"
    and ok: "scan_ok L M (pf_hhdm P) (pf_pml P) n0 lim F (sys_km s) D U"
    and room: "vaa_next (sys_km s) + 2 + tables_pages (pf_cfg P) ts \<le> lim" "3 * (2 + tables_pages (pf_cfg P) ts) * BASIC_PAGE_SIZE \<le> card U"
  shows "\<exists>s1 s2. map_table P rsdp_addr s = Some (vaa_next (sys_km s) * BASIC_PAGE_SIZE + rsdp_addr mod BASIC_PAGE_SIZE, s1)
    \<and> map_table P xpa s1 = Some (vaa_next (sys_km s1) * BASIC_PAGE_SIZE + xpa mod BASIC_PAGE_SIZE, s2)
    \<and> acpi_init P rsdp_addr s =
        (if \<not> (checksum_ok (take 20 (struct_bytes Rsdp2 r)) \<and> checksum_ok (drop 20 (struct_bytes Rsdp2 r))) then Some (Err InvalidChecksum, s1)
         else if \<not> checksum_ok (xsdt_bytes v (map fst ts)) then Some (Err InvalidChecksum, s2)
         else apply_tables P ts s2)"
  by (rule acpi_init_spec [OF assms])

text \<open>An example: a root table that lists an interrupt controller table, the event timer's table as the specification has it (with a
  minimum tick of 128, which the code reads as 32768) and a table of segment groups without groups.\<close>

definition demo_rsdp :: "string \<Rightarrow> nat" where
  "demo_rsdp = (\<lambda>_. 0)(''xsdt_address'' := 0x7000100, ''extended_checksum'' := 248)"

definition demo_xsdt :: "string \<Rightarrow> nat" where
  "demo_xsdt = (\<lambda>_. 0)(''checksum'' := 175)"

definition demo_hpet_table :: "string \<Rightarrow> nat" where
  "demo_hpet_table = (\<lambda>_. 0)(''checksum'' := 73, ''addr'' := 0xFED00000, ''minimum_tick'' := 0x80)"

definition demo_tables :: "(PhysAddr \<times> AcpiTable) list" where
  "demo_tables = [(0x6000000, TMadt (demo_madt_values(''checksum'' := 35)) demo_madt_entries), (0x6000100, THpet demo_hpet_table),
     (0x6000200, TMcfg ((\<lambda>_. 0)(''checksum'' := 183)) [])]"

fun memory_image :: "(PhysAddr \<times> u8 list) list \<Rightarrow> PhysAddr \<Rightarrow> u8" where
  "memory_image [] p = 0"
| "memory_image ((a, bs) # xs) p = (if a \<le> p \<and> p < a + length bs then bs ! (p - a) else memory_image xs p)"

definition demo_image :: "PhysAddr \<Rightarrow> u8" where
  "demo_image = memory_image ((0x7000000, struct_bytes Rsdp2 demo_rsdp) # (0x7000100, xsdt_bytes demo_xsdt (map fst demo_tables))
     # map (\<lambda>(a, t). (a, table_bytes t)) demo_tables)"

lemma demo_lengths: "length (xsdt_bytes demo_xsdt (map fst demo_tables)) = 60" "length (struct_bytes Rsdp2 demo_rsdp) = 36" "size_of Rsdp2 = 36"
  "map (\<lambda>(a, t). length (table_bytes t)) demo_tables = [63, 56, 44]"
  by (simp_all add: length_xsdt_bytes length_struct_bytes size_of_def SdtHeader_def Rsdp2_def Rsdp_def Mcfg_def HpetTable_def Gas_def demo_tables_def
      length_madt_bytes Madt_def demo_madt_entries_def entry_length_def entry_layouts)

lemma demo_checksums:
  "checksum_ok (take 20 (struct_bytes Rsdp2 demo_rsdp))" "checksum_ok (drop 20 (struct_bytes Rsdp2 demo_rsdp))"
  "checksum_ok (xsdt_bytes demo_xsdt (map fst demo_tables))" "list_all (\<lambda>(a, t). checksum_ok (table_bytes t)) demo_tables"
  by (simp_all add: checksum_ok_def struct_bytes_def Rsdp2_def Rsdp_def demo_rsdp_def xsdt_bytes_def demo_xsdt_def demo_tables_def SdtHeader_def Mcfg_def
      HpetTable_def Gas_def demo_hpet_table_def madt_bytes_def Madt_def demo_madt_values_def demo_madt_entries_def entry_bytes_def entry_length_def entry_layouts
      size_of_def le_bytes_numeral signature_value_def signature_bytes_def)

lemma demo_memory:
  fixes P :: "('h, 'd, 'l) Platform"
  assumes "pf_mem P = demo_image"
  shows "phys_bytes P 0x7000000 (struct_bytes Rsdp2 demo_rsdp)" "phys_bytes P 0x7000100 (xsdt_bytes demo_xsdt (map fst demo_tables))"
    and "tables_in_memory P demo_tables"
proof -
  show "phys_bytes P 0x7000000 (struct_bytes Rsdp2 demo_rsdp)" "phys_bytes P 0x7000100 (xsdt_bytes demo_xsdt (map fst demo_tables))"
    using assms demo_lengths(1,2) by (auto simp: phys_bytes_def demo_image_def)
  let ?m = "TMadt (demo_madt_values(''checksum'' := 35)) demo_madt_entries" and ?h = "THpet demo_hpet_table" and ?g = "TMcfg ((\<lambda>_. 0)(''checksum'' := 183)) []"
  have ts: "demo_tables = [(0x6000000, ?m), (0x6000100, ?h), (0x6000200, ?g)]" by (simp add: demo_tables_def)
  have len: "length (table_bytes ?m) = 63" "length (table_bytes ?h) = 56" "length (table_bytes ?g) = 44"
    using demo_lengths(4) unfolding ts by (simp_all del: table_bytes.simps)
  have img: "pf_mem P = memory_image [(0x7000000, struct_bytes Rsdp2 demo_rsdp), (0x7000100, xsdt_bytes demo_xsdt (map fst demo_tables)),
      (0x6000000, table_bytes ?m), (0x6000100, table_bytes ?h), (0x6000200, table_bytes ?g)]"
    using assms by (simp add: demo_image_def ts del: table_bytes.simps)
  have "phys_bytes P 0x6000000 (table_bytes ?m)" "phys_bytes P 0x6000100 (table_bytes ?h)" "phys_bytes P 0x6000200 (table_bytes ?g)"
    using len unfolding phys_bytes_def img by (auto simp del: table_bytes.simps)
  moreover have "table_ok ?m" "table_ok ?h" "table_ok ?g"
    using demo_madt(1) by (simp_all add: madt_ok_def demo_hpet_table_def BASIC_PAGE_SIZE_def USIZE_LIM_def)
  ultimately show "tables_in_memory P demo_tables"
    using len unfolding tables_in_memory_def ts by (simp add: BASIC_PAGE_SIZE_def USIZE_LIM_def del: table_bytes.simps table_ok.simps)
qed

text \<open>An event timer with three timers and a period of ten nanoseconds.\<close>

lemma demo_hpet_init:
  fixes s :: "(usize \<Rightarrow> u64, 'd) TimerSystem"
  assumes "ts_dev s base = 0x009896808086A201"
  obtains h d where "hpet_init (\<lambda>d a. d a) (\<lambda>d a v. d(a := v)) s base tick LegacyRouting = Some (s \<lparr> ts_hpet := h, ts_dev := d \<rparr>)"
    and "Hpet.minimum_tick h = tick" and "main_clock_period h = 10000000" and "hp_area h = mmio_new base"
proof -
  let ?hrd = "\<lambda>d a. d a :: u64" and ?hwr = "\<lambda>d a v. d(a := v) :: usize \<Rightarrow> u64"
  have cap: "mmio_read ?hrd (ts_dev s) (mmio_new base) GENERAL_CAPABILITIES = 0x009896808086A201"
    using assms by (simp add: mmio_read_def mmio_new_def GENERAL_CAPABILITIES_def)
  obtain h where h: "hpet_new ?hrd (ts_dev s) base tick LegacyRouting = Some h" "Hpet.minimum_tick h = tick" "main_clock_period h = 10000000" "hp_area h = mmio_new base"
    using id_tracker_new_spec [of "Id 0" "Id 2"]
    by (auto simp: hpet_new_def Let_def cap bf_get_def GeneralCapabilities_layout_def MAX_TIMER_AMOUNT_def USIZE_LIM_def)
  have dis: "\<exists>d'. hpet_set_disabled ?hrd ?hwr d h b = Some d' \<and> d' base = d base" for d b
    by (simp add: hpet_set_disabled_def bf_set_def GeneralConfiguration_layout_def h(4) mmio_write_def mmio_new_def GENERAL_CONFIGURATION_def)
  have route: "\<exists>d'. set_interrupt_routing ?hrd ?hwr d h LegacyRouting = Some d'" if "d base = 0x009896808086A201" for d
    using that by (simp add: set_interrupt_routing_def bf_set_def bf_get_def GeneralConfiguration_layout_def GeneralCapabilities_layout_def
      h(4) mmio_read_def mmio_new_def GENERAL_CAPABILITIES_def)
  from dis [of "ts_dev s" True] obtain d1 where d1: "hpet_set_disabled ?hrd ?hwr (ts_dev s) h True = Some d1" "d1 base = ts_dev s base" by blast
  from route [of d1] d1(2) assms obtain d2 where d2: "set_interrupt_routing ?hrd ?hwr d1 h LegacyRouting = Some d2" by auto
  from dis [of "mmio_write ?hwr d2 (hp_area h) MAIN_COUNTER_VALUE 0" False] obtain d3 where
    "hpet_set_disabled ?hrd ?hwr (mmio_write ?hwr d2 (hp_area h) MAIN_COUNTER_VALUE 0) h False = Some d3" by blast
  with d1(1) d2 h(1) have "hpet_init ?hrd ?hwr s base tick LegacyRouting = Some (s \<lparr> ts_hpet := h, ts_dev := d3 \<rparr>)" by (simp add: hpet_init_def)
  then show ?thesis using that h(2-4) by blast
qed

lemma map_table_frame: "map_table P a s = Some (va, s') \<Longrightarrow> s' = s \<lparr> sys_km := sys_km s' \<rparr>"
  by (auto simp: map_table_def Let_def split: Option.bind_splits)

lemma map_tables_frame: "map_table P a s = Some (va, s1) \<Longrightarrow> map_table P b s1 = Some (vb, s2) \<Longrightarrow> s2 = s \<lparr> sys_km := sys_km s2 \<rparr>"
  by (auto simp: map_table_def Let_def split: Option.bind_splits)

lemma map_two_tables:
  assumes ok: "scan_ok L M (pf_hhdm P) (pf_pml P) n0 lim F (sys_km s) D U" and room: "vaa_next (sys_km s) + 2 \<le> lim" "6 * BASIC_PAGE_SIZE \<le> card U"
    and m: "map_table P a s = Some (va, s1)" "map_table P b s1 = Some (vb, s2)" and addr: "a + BASIC_PAGE_SIZE \<le> USIZE_LIM" "b + BASIC_PAGE_SIZE \<le> USIZE_LIM"
  obtains D' U' where "scan_ok L M (pf_hhdm P) (pf_pml P) n0 lim F (sys_km s2) D' U'" and "vaa_next (sys_km s2) = vaa_next (sys_km s) + 2"
    and "card U \<le> card U' + 6 * BASIC_PAGE_SIZE"
proof -
  obtain D1 U1 where m1: "scan_ok L M (pf_hhdm P) (pf_pml P) n0 lim F (sys_km s1) D1 U1" "vaa_next (sys_km s1) = vaa_next (sys_km s) + 1"
    "card U \<le> card U1 + 3 * BASIC_PAGE_SIZE"
    by (rule map_table_ok [OF ok, of a 0]) (use that room m(1) addr in \<open>auto simp: BASIC_PAGE_SIZE_def\<close>)
  show thesis by (rule map_table_ok [OF m1(1), of b 0]) (use that room m(2) m1(2,3) addr in \<open>auto simp: BASIC_PAGE_SIZE_def\<close>)
qed

lemma demo_madt_apply:
  fixes s :: "('h, 'd, 'l) System"
  assumes s: "sys_lapics s = []" "ia_ioapics (sys_ioapics s) = [demo_io]"
  obtains a where "apply_table P (TMadt (demo_madt_values(''checksum'' := 35)) demo_madt_entries) s
      = Some (sys_set_ioapics ((sys_ioapics s) \<lparr> ia_irq_allocator := a \<rparr>) (s \<lparr> sys_ports := sys_ports s @ [Out8 0x21 0xFF, Out8 0xA1 0xFF] \<rparr>))"
    and "tracker_pool a = {Id 0..Id 23}"
proof -
  let ?s = "s \<lparr> sys_ports := sys_ports s @ [Out8 0x21 0xFF, Out8 0xA1 0xFF] \<rparr>"
  obtain a where a: "id_tracker_new (Id 0) (Id 23) = Some a" "tracker_pool a = {Id 0..Id 23}"
    using id_tracker_new_spec [of "Id 0" "Id 23"] by (auto simp: USIZE_LIM_def)
  have "apply_entries P 0xFEE00000 demo_madt_entries ?s = Some ?s"
    using s(1) by (simp add: demo_madt_entries_def sys_lapic_add_def lapic_add_def sys_config_lints_def)
  moreover have "init_irq_allocator (sys_ioapics s) = Some ((sys_ioapics s) \<lparr> ia_irq_allocator := a \<rparr>)"
    using a(1) s(2) by (simp add: init_irq_allocator_def demo_io_def uadd_ok USIZE_LIM_def usub_def)
  moreover have "sys_ioapics ?s = sys_ioapics s" by (simp add: sys_ioapics_def)
  ultimately show ?thesis using that a(2) by (simp add: demo_madt_values_def)
qed

lemma demo_hpet_apply:
  fixes P :: "(usize \<Rightarrow> u64, 'd, 'l) Platform"
  assumes P: "pf_hpet_rd P = (\<lambda>d a. d a)" "pf_hpet_wr P = (\<lambda>d a v. d(a := v))"
    and dev: "ts_dev (sys_timers s) (vaa_next (sys_km s) * BASIC_PAGE_SIZE) = 0x009896808086A201"
    and ok: "scan_ok L M (pf_hhdm P) (pf_pml P) n0 lim F (sys_km s) D U" and room: "vaa_next (sys_km s) < lim" "3 * BASIC_PAGE_SIZE \<le> card U"
  obtains k h d D' U' where "apply_table P (THpet demo_hpet_table) s = Some (s \<lparr> sys_km := k, sys_timers := (sys_timers s) \<lparr> ts_hpet := h, ts_dev := d \<rparr> \<rparr>)"
    and "Hpet.minimum_tick h = 0x8000" and "main_clock_period h = 10000000" and "vaa_next k = vaa_next (sys_km s) + 1"
    and "scan_ok L M (pf_hhdm P) (pf_pml P) n0 lim F k D' U'" and "card U \<le> card U' + 3 * BASIC_PAGE_SIZE"
proof -
  obtain k U' where m: "manager_map_pages (pf_hhdm P) (pf_pml P) (sys_km s) 0xFED00000 1 (set_read_write flags_new True) Size4KB
      = Some (Ok (vaa_next (sys_km s) * BASIC_PAGE_SIZE), k)" "vaa_next k = vaa_next (sys_km s) + 1"
    "scan_ok L M (pf_hhdm P) (pf_pml P) n0 lim F k (D(vaa_next (sys_km s) * BASIC_PAGE_SIZE \<mapsto> 0xFED00000)) U'" "card U \<le> card U' + 3 * BASIC_PAGE_SIZE"
    by (rule manager_map_page [OF ok room _ _ flags_rw, of "0xFED00000"]) (use that in \<open>auto simp: BASIC_PAGE_SIZE_def USIZE_LIM_def\<close>)
  from dev obtain h d where h: "hpet_init (\<lambda>d a. d a) (\<lambda>d a v. d(a := v)) (sys_timers s) (vaa_next (sys_km s) * BASIC_PAGE_SIZE) 0x8000 LegacyRouting
      = Some ((sys_timers s) \<lparr> ts_hpet := h, ts_dev := d \<rparr>)" "Hpet.minimum_tick h = 0x8000" "main_clock_period h = 10000000"
    by (rule demo_hpet_init) (rule that)
  from m(1) h(1) have "apply_table P (THpet demo_hpet_table) s = Some (s \<lparr> sys_km := k, sys_timers := (sys_timers s) \<lparr> ts_hpet := h, ts_dev := d \<rparr> \<rparr>)"
    by (simp add: demo_hpet_table_def hpet_tick_read_def P)
  from that [OF this h(2,3) m(2-4)] show ?thesis .
qed

text \<open>The three tables carried out one after the other.\<close>

lemma demo_tables_apply:
  fixes P :: "(usize \<Rightarrow> u64, 'd, 'l) Platform"
  assumes P: "pf_hpet_rd P = (\<lambda>d a. d a)" "pf_hpet_wr P = (\<lambda>d a v. d(a := v))"
    and dev: "\<And>n. ts_dev (sys_timers s) (n * BASIC_PAGE_SIZE) = 0x009896808086A201"
    and s: "sys_lapics s = []" "ia_ioapics (sys_ioapics s) = [demo_io]" "sys_pcie s = pcie_manager_new"
    and ok: "scan_ok L M (pf_hhdm P) (pf_pml P) n0 lim F (sys_km s) D U" and room: "vaa_next (sys_km s) + 4 \<le> lim" "12 * BASIC_PAGE_SIZE \<le> card U"
  obtains s' where "apply_tables P demo_tables s = Some (Ok (), s')" and "vaa_next (sys_km s') = vaa_next (sys_km s) + 4"
    and "sys_ports s' = sys_ports s @ [Out8 0x21 0xFF, Out8 0xA1 0xFF]" and "tracker_pool (ia_irq_allocator (sys_ioapics s')) = {Id 0..Id 23}"
    and "Hpet.minimum_tick (ts_hpet (sys_timers s')) = 0x8000" and "main_clock_period (ts_hpet (sys_timers s')) = 10000000"
proof -
  let ?B = BASIC_PAGE_SIZE
  note lims = USIZE_LIM_def BASIC_PAGE_SIZE_def
  obtain s1 D1 U1 v1 where m1: "map_table P 0x6000000 s = Some (v1, s1)" "scan_ok L M (pf_hhdm P) (pf_pml P) n0 lim F (sys_km s1) D1 U1"
    "vaa_next (sys_km s1) = vaa_next (sys_km s) + 1" "card U \<le> card U1 + 3 * ?B"
    by (rule map_table_ok [OF ok, of "0x6000000" 0]) (use that room in \<open>auto simp: lims\<close>)
  have f1: "sys_lapics s1 = []" "sys_timers s1 = sys_timers s" "sys_ports s1 = sys_ports s" "sys_pcie s1 = pcie_manager_new"
    by (subst map_table_frame [OF m1(1)], simp add: s)+
  then have io1: "ia_ioapics (sys_ioapics s1) = [demo_io]" using s(2) by (simp add: sys_ioapics_def)
  obtain a t1 where t1: "apply_table P (TMadt (demo_madt_values(''checksum'' := 35)) demo_madt_entries) s1 = Some t1" "tracker_pool a = {Id 0..Id 23}"
    "t1 = sys_set_ioapics ((sys_ioapics s1) \<lparr> ia_irq_allocator := a \<rparr>) (s1 \<lparr> sys_ports := sys_ports s1 @ [Out8 0x21 0xFF, Out8 0xA1 0xFF] \<rparr>)"
    by (rule demo_madt_apply [OF f1(1) io1]) (use that in blast)
  have k1: "sys_km t1 = sys_km s1" "ts_dev (sys_timers t1) = ts_dev (sys_timers s)" "ia_irq_allocator (sys_ioapics t1) = a"
    "sys_ports t1 = sys_ports s @ [Out8 0x21 0xFF, Out8 0xA1 0xFF]" "sys_pcie t1 = pcie_manager_new"
    using f1 by (simp_all add: t1(3) sys_set_ioapics_def sys_ioapics_def)
  obtain s2 D2 U2 v2 where m2: "map_table P 0x6000100 t1 = Some (v2, s2)" "scan_ok L M (pf_hhdm P) (pf_pml P) n0 lim F (sys_km s2) D2 U2"
    "vaa_next (sys_km s2) = vaa_next (sys_km s) + 2" "card U \<le> card U2 + 6 * ?B"
    by (rule map_table_ok [OF m1(2) [folded k1(1)], of "0x6000100" 0]) (use that room m1(3,4) k1(1) in \<open>auto simp: lims\<close>)
  have f2: "sys_timers s2 = sys_timers t1" "sys_ports s2 = sys_ports t1" "sys_pcie s2 = sys_pcie t1"
    by (subst map_table_frame [OF m2(1)], simp)+
  have "ts_dev (sys_timers s2) (vaa_next (sys_km s2) * ?B) = 0x009896808086A201" using dev by (simp add: f2(1) k1(2))
  then obtain k3 h d D3 U3 t3 where t3: "apply_table P (THpet demo_hpet_table) s2 = Some t3" "Hpet.minimum_tick h = 0x8000" "main_clock_period h = 10000000"
    "vaa_next k3 = vaa_next (sys_km s2) + 1" "scan_ok L M (pf_hhdm P) (pf_pml P) n0 lim F k3 D3 U3" "card U2 \<le> card U3 + 3 * ?B"
    "t3 = s2 \<lparr> sys_km := k3, sys_timers := (sys_timers s2) \<lparr> ts_hpet := h, ts_dev := d \<rparr> \<rparr>"
    by (rule demo_hpet_apply [OF P _ m2(2)]) (use that room m2(3,4) in \<open>auto simp: lims\<close>)
  have k3: "sys_km t3 = k3" "sys_ports t3 = sys_ports s2" "sys_pcie t3 = sys_pcie s2" "ts_hpet (sys_timers t3) = h" "sys_ioapics t3 = sys_ioapics s2"
    by (simp_all add: t3(7) sys_ioapics_def)
  obtain s4 v4 where m4: "map_table P 0x6000200 t3 = Some (v4, s4)" "vaa_next (sys_km s4) = vaa_next (sys_km s) + 4"
    by (rule map_table_ok [OF t3(5) [folded k3(1)], of "0x6000200" 0]) (use that room m2(3,4) t3(4,6) k3(1) in \<open>auto simp: lims\<close>)
  have f4: "sys_timers s4 = sys_timers t3" "sys_ports s4 = sys_ports t3" "sys_pcie s4 = sys_pcie t3"
    by (subst map_table_frame [OF m4(1)], simp)+
  have "apply_table P (TMcfg ((\<lambda>_. 0)(''checksum'' := 183)) []) s4 = Some (s4 \<lparr> sys_km := sys_km s4, sys_pcie := sys_pcie s4 \<rparr>)"
    by (simp add: f4(3) k3(3) f2(3) k1(5) pcie_manager_init_def load_device_drivers_def pcie_manager_new_def)
  then have "apply_tables P demo_tables s = Some (Ok (), s4 \<lparr> sys_km := sys_km s4, sys_pcie := sys_pcie s4 \<rparr>)"
    using demo_checksums(4) m1(1) t1(1) m2(1) t3(1) m4(1) by (simp add: demo_tables_def del: table_bytes.simps apply_table.simps)
  moreover have "sys_ioapics s4 = sys_ioapics t1" using f4(1) f2(1) k3(5) by (simp add: sys_ioapics_def)
  then have "tracker_pool (ia_irq_allocator (sys_ioapics s4)) = {Id 0..Id 23}" by (simp add: k1(3) t1(2))
  moreover have "ts_hpet (sys_timers s4) = h" by (simp only: f4(1) k3(4))
  moreover have "sys_ports s4 = sys_ports s @ [Out8 0x21 0xFF, Out8 0xA1 0xFF]" by (simp only: f4(2) k3(2) f2(2) k1(4))
  ultimately show ?thesis using that m4(2) t3(2,3) by (simp add: sys_ioapics_def)
qed

theorem acpi_init_correct_witness:
  "\<exists>(P :: (usize \<Rightarrow> u64, demo_ioapic, usize \<Rightarrow> u32) Platform) s s'. acpi_init P 0x7000000 s = Some (Ok (), s')
     \<and> sys_ports s' = [Out8 0x21 0xFF, Out8 0xA1 0xFF] \<and> tracker_pool (ia_irq_allocator (sys_ioapics s')) = {Id 0..Id 23}
     \<and> main_clock_period (ts_hpet (sys_timers s')) = 10000000 \<and> vaa_next (sys_km s') = vaa_next (sys_km s) + 6"
proof -
  obtain k where k: "km_ok 6 0x20000 0x100000 0x120000 64 k Map.empty {..<0x20000}" "vaa_next k = 16"
    using km_demo_at [of 5 64] by (auto simp: bsz_def)
  let ?P = "(demo_platform demo_image) \<lparr> pf_pml := 0x120000 \<rparr>"
  let ?s = "(demo_system k) \<lparr> sys_timers := (demo_timers id_tracker_uninit) \<lparr> ts_dev := (\<lambda>a. if a mod BASIC_PAGE_SIZE = 0 then 0x009896808086A201 else 0) \<rparr> \<rparr>"
  have P: "pf_hhdm ?P = 0x100000" "pf_pml ?P = 0x120000" "pf_mem ?P = demo_image" and s: "sys_km ?s = k" "sys_km (demo_system k) = k"
    by (simp_all add: demo_platform_def demo_system_def)
  have ok: "scan_ok 6 0x20000 (pf_hhdm ?P) (pf_pml ?P) 16 64 {} (sys_km ?s) Map.empty {..<0x20000}"
    using scan_ok_of_km [OF k(1)] k(2) unfolding P s by (simp add: frames_def)
  note mem = demo_memory [OF P(3)]
  have B: "BASIC_PAGE_SIZE = 4096" "USIZE_LIM = 0x10000000000000000" by (simp_all add: BASIC_PAGE_SIZE_def USIZE_LIM_def)
  have pages: "tables_pages (pf_cfg ?P) demo_tables = 7" by (simp add: tables_pages_def demo_tables_def demo_madt_entries_def all_probed_def)
  obtain s1 s2 where i: "map_table ?P 0x7000000 ?s = Some (vaa_next (sys_km ?s) * BASIC_PAGE_SIZE + 0x7000000 mod BASIC_PAGE_SIZE, s1)"
    "map_table ?P 0x7000100 s1 = Some (vaa_next (sys_km s1) * BASIC_PAGE_SIZE + 0x7000100 mod BASIC_PAGE_SIZE, s2)"
    "acpi_init ?P 0x7000000 ?s = apply_tables ?P demo_tables s2"
    using acpi_init_correct [OF mem(1) _ _ mem(2) _ _ _ _ mem(3) ok] demo_checksums(1-3) demo_lengths(1-3)
    unfolding pages s k(2) by (simp add: B demo_rsdp_def) blast
  obtain D2 U2 where m2: "scan_ok 6 0x20000 (pf_hhdm ?P) (pf_pml ?P) 16 64 {} (sys_km s2) D2 U2" "vaa_next (sys_km s2) = 18" "0x1A000 \<le> card U2"
    by (rule map_two_tables [OF ok _ _ i(1,2)]) (use that in \<open>auto simp: s k(2) B\<close>)
  note f = map_tables_frame [OF i(1,2)]
  have dev: "ts_dev (sys_timers s2) (n * BASIC_PAGE_SIZE) = 0x009896808086A201" for n by (subst f) simp
  have hp: "pf_hpet_rd ?P = (\<lambda>d a. d a)" "pf_hpet_wr ?P = (\<lambda>d a v. d(a := v))" by (simp_all add: demo_platform_def)
  have y: "sys_lapics s2 = []" "ia_ioapics (sys_ioapics s2) = [demo_io]" "sys_pcie s2 = pcie_manager_new" and p: "sys_ports s2 = []"
    by (subst f, simp add: sys_ioapics_def demo_system_def demo_timers_def demo_ioapics_def)+
  obtain s' where "apply_tables ?P demo_tables s2 = Some (Ok (), s')" "vaa_next (sys_km s') = vaa_next (sys_km s2) + 4"
    "sys_ports s' = sys_ports s2 @ [Out8 0x21 0xFF, Out8 0xA1 0xFF]" "tracker_pool (ia_irq_allocator (sys_ioapics s')) = {Id 0..Id 23}"
    "main_clock_period (ts_hpet (sys_timers s')) = 10000000"
    by (rule demo_tables_apply [OF hp dev y m2(1)]) (use that m2(2,3) in \<open>simp_all add: B\<close>)
  then show ?thesis using i(3) m2(2) k(2) p s by (intro exI [of _ ?P] exI [of _ ?s] exI [of _ s'] conjI) simp_all
qed

text \<open>Only the page in which a table starts is mapped: a longer table is read beyond it, which faults when the next page of
  address space is not mapped.\<close>

lemma table_crossing_page_faults:
  assumes "field_of P k SdtHeader va ''length'' = Some n" and "BASIC_PAGE_SIZE < va mod BASIC_PAGE_SIZE + n"
    and "manager_translate (pf_hhdm P) (pf_pml P) k (va - va mod BASIC_PAGE_SIZE + BASIC_PAGE_SIZE) = Some None"
  shows "validate_checksum P k va = None"
proof -
  let ?B = BASIC_PAGE_SIZE
  let ?j = "?B - va mod ?B"
  have B: "va mod ?B < ?B" by (simp add: BASIC_PAGE_SIZE_def)
  have fault: "read_bytes P k p m = None" if "j < m" "read_byte P k (p + j) = None" for p m j
    using that
  proof (induction m arbitrary: p j)
    case (Suc m)
    then show ?case using Suc.IH [of "j - 1" "p + 1"] by (cases j) (auto split: Option.bind_splits)
  qed simp
  have next_page: "va + ?j = va - va mod ?B + ?B" using B mod_less_eq_dividend [of va ?B] by linarith
  have "?B dvd va + ?j" unfolding next_page by (intro dvd_add dvd_minus_mod dvd_refl)
  then have "(va + ?j) mod ?B = 0" by simp
  with assms(3) next_page have "read_byte P k (va + ?j) = None" by (simp add: read_byte_def)
  from fault [OF _ this, of n] assms(1,2) B show ?thesis by (simp add: validate_checksum_def)
qed

end
