(* ===== verification/Vmcb.thy ===== *)
theory Vmcb
  imports Gdt Struct_Layout
begin

text \<open>
  The virtual machine control block of \<open>hypervisor/src/svm/mod.rs\<close>: its two areas as records and as memory
  layouts, the intercept vector and the exit codes.  In \<open>InterceptCode\<close> the numbered codes of one kind
  (\<open>Cr0Read\<close> to \<open>Cr15Read\<close>, and so on) are one constructor over the number.
\<close>

subsection \<open>Bit fields\<close>

definition Intercepts_layout :: bit_layout where
  "Intercepts_layout = [(''cr_reads'', 16), (''cr_writes'', 16), (''dr_reads'', 16), (''dr_writes'', 16), (''exceptions'', 32), (''intr'', 1), (''nmi'', 1),
     (''smi'', 1), (''init'', 1), (''virtual_intr'', 1), (''cr0_sel_write'', 1), (''idtr_read'', 1), (''gdtr_read'', 1),
     (''ldtr_read'', 1), (''tr_read'', 1), (''idtr_write'', 1), (''gdtr_write'', 1), (''ldtr_write'', 1), (''tr_write'', 1),
     (''rdtsc'', 1), (''rdpmc'', 1), (''pushf'', 1), (''popf'', 1), (''cpuid'', 1), (''rsm'', 1), (''iret'', 1), (''intn'', 1),
     (''invd'', 1), (''pause'', 1), (''hlt'', 1), (''invlpg'', 1), (''invlpga'', 1), (''ioio_prot'', 1), (''msr_prot'', 1),
     (''task_switch'', 1), (''f_err_freeze'', 1), (''shutdown'', 1), (''vmrun'', 1), (''vmmcall'', 1), (''vmload'', 1), (''vmsave'', 1),
     (''stgi'', 1), (''clgi'', 1), (''skinit'', 1), (''rdtscp'', 1), (''icebp'', 1), (''wbinvd'', 1), (''monitor'', 1), (''mwait'', 1),
     (''mwait_conditional'', 1), (''xsetbv'', 1), (''rdpru'', 1), (''efer_write'', 1), (''cr_writes_foo'', 16), (''invlpgb_all'', 1),
     (''invlpgb_illegal'', 1), (''invpcid'', 1), (''mcommit'', 1), (''tlbsync'', 1), (''bus_lock'', 1), (''idle_hlt'', 1),
     (''reserved'', 25)]"

definition ExitIntInfo_layout :: bit_layout where
  "ExitIntInfo_layout = [(''vector'', 8), (''typ'', 3), (''error_code_valid'', 1), (''reserved'', 19), (''valid'', 1), (''error_code'', 32)]"

definition SvmFlags_layout :: bit_layout where
  "SvmFlags_layout = [(''np_enable'', 1), (''sev_enable'', 1), (''essev_enable'', 1), (''guest_mode_execute_trap'', 1), (''sss_check_fn'', 1),
     (''vte_enable'', 1), (''ro_guest_page_tables_enable'', 1), (''invlpgb_tlbsync_enable'', 1), (''reserved_mbz_0'', 56)]"

type_synonym Intercepts = "192 word"
type_synonym ExitIntInfo = u64
type_synonym SvmFlags = u64

definition ALL_EXCEPTIONS :: u32 where
  "ALL_EXCEPTIONS = 0xffffffff"

subsection \<open>Exit codes\<close>

datatype (plugins only: code) InterceptCode = CrRead "4 word" | CrWrite "4 word" | DrRead "4 word" | DrWrite "4 word" | Exception "5 word" | CrWriteTrap "4 word" | IntrExit |
  NmiExit | SmiExit | InitExit | VirtualIntr | Cr0SelWrite | IdtrRead | GdtrRead | LdtrRead | TrRead | IdtrWrite | GdtrWrite |
  LdtrWrite | TrWrite | Rdtsc | Rdpmc | Pushf | Popf | Cpuid | Rsm | Iret | Swint | Invd | PauseExit | Hlt | Invlpg | Invlpga |
  ExitIoio | MsrExit | TaskSwitch | FErrFreeze | ShutdownExit | Vmrun | Vmmcall | Vmload | Vmsave | Stgi | Clgi | Skinit | Rdtscp |
  Icebp | Wbinvd | MonitorExit | Mwait | MwaitConditional | Rdpru | Xsetbv | EferWriteTrap | Invlpgb | InvlpgbIllegal | Invpcid |
  Mcommit | Tlbsync | BusLock | IdleHlt | Npf | AvicIncompleteIpi | AvicNoAccel | Vmgexit | UnusedExit | InvalidExit | BusyExit |
  IdleRequired | InvalidPmc | QemuInvalid

primrec intercept_code_value :: "InterceptCode \<Rightarrow> int" where
  "intercept_code_value (CrRead n) = uint n"
| "intercept_code_value (CrWrite n) = 0x10 + uint n"
| "intercept_code_value (DrRead n) = 0x20 + uint n"
| "intercept_code_value (DrWrite n) = 0x30 + uint n"
| "intercept_code_value (Exception n) = 0x40 + uint n"
| "intercept_code_value (CrWriteTrap n) = 0x90 + uint n"
| "intercept_code_value IntrExit = 0x60"
| "intercept_code_value NmiExit = 0x61"
| "intercept_code_value SmiExit = 0x62"
| "intercept_code_value InitExit = 0x63"
| "intercept_code_value VirtualIntr = 0x64"
| "intercept_code_value Cr0SelWrite = 0x65"
| "intercept_code_value IdtrRead = 0x66"
| "intercept_code_value GdtrRead = 0x67"
| "intercept_code_value LdtrRead = 0x68"
| "intercept_code_value TrRead = 0x69"
| "intercept_code_value IdtrWrite = 0x6a"
| "intercept_code_value GdtrWrite = 0x6b"
| "intercept_code_value LdtrWrite = 0x6c"
| "intercept_code_value TrWrite = 0x6d"
| "intercept_code_value Rdtsc = 0x6e"
| "intercept_code_value Rdpmc = 0x6f"
| "intercept_code_value Pushf = 0x70"
| "intercept_code_value Popf = 0x71"
| "intercept_code_value Cpuid = 0x72"
| "intercept_code_value Rsm = 0x73"
| "intercept_code_value Iret = 0x74"
| "intercept_code_value Swint = 0x75"
| "intercept_code_value Invd = 0x76"
| "intercept_code_value PauseExit = 0x77"
| "intercept_code_value Hlt = 0x78"
| "intercept_code_value Invlpg = 0x79"
| "intercept_code_value Invlpga = 0x7a"
| "intercept_code_value ExitIoio = 0x7b"
| "intercept_code_value MsrExit = 0x7c"
| "intercept_code_value TaskSwitch = 0x7d"
| "intercept_code_value FErrFreeze = 0x7e"
| "intercept_code_value ShutdownExit = 0x7f"
| "intercept_code_value Vmrun = 0x80"
| "intercept_code_value Vmmcall = 0x81"
| "intercept_code_value Vmload = 0x82"
| "intercept_code_value Vmsave = 0x83"
| "intercept_code_value Stgi = 0x84"
| "intercept_code_value Clgi = 0x85"
| "intercept_code_value Skinit = 0x86"
| "intercept_code_value Rdtscp = 0x87"
| "intercept_code_value Icebp = 0x88"
| "intercept_code_value Wbinvd = 0x89"
| "intercept_code_value MonitorExit = 0x8a"
| "intercept_code_value Mwait = 0x8b"
| "intercept_code_value MwaitConditional = 0x8c"
| "intercept_code_value Rdpru = 0x8e"
| "intercept_code_value Xsetbv = 0x8d"
| "intercept_code_value EferWriteTrap = 0x8f"
| "intercept_code_value Invlpgb = 0xa0"
| "intercept_code_value InvlpgbIllegal = 0xa1"
| "intercept_code_value Invpcid = 0xa2"
| "intercept_code_value Mcommit = 0xa3"
| "intercept_code_value Tlbsync = 0xa4"
| "intercept_code_value BusLock = 0xa5"
| "intercept_code_value IdleHlt = 0xa6"
| "intercept_code_value Npf = 0x400"
| "intercept_code_value AvicIncompleteIpi = 0x401"
| "intercept_code_value AvicNoAccel = 0x402"
| "intercept_code_value Vmgexit = 0x403"
| "intercept_code_value UnusedExit = 0xf000000"
| "intercept_code_value InvalidExit = -1"
| "intercept_code_value BusyExit = -2"
| "intercept_code_value IdleRequired = -3"
| "intercept_code_value InvalidPmc = -4"
| "intercept_code_value QemuInvalid = 0xffffffff"

subsection \<open>The control block\<close>

record ControlArea =
  ca_intercepts :: Intercepts
  ca_reserved_1 :: "u8 list"
  ca_pause_filter_thershold :: u16
  ca_pause_filter_count :: u16
  ca_iopm_base_pa :: u64
  ca_msrpm_base_pa :: u64
  ca_tsc_offset :: u64
  ca_guest_asid :: u32
  ca_tlb_control :: u32
  ca_vintr :: u64
  ca_partially_reserved_7 :: u64
  ca_exitcode :: InterceptCode
  ca_exitinfo1 :: u64
  ca_exitinfo2 :: u64
  ca_exitintinfo :: ExitIntInfo
  ca_flags :: SvmFlags
  ca_avic_apic_bar_reserved :: u64
  ca_guest_phys_addr_ghcb :: u64
  ca_event_injection :: u64
  ca_n_cr3 :: u64
  ca_lbr_virtualization_enable :: u64
  ca_vmcb_clean_bits :: u32
  ca_reserved_11 :: u32
  ca_nrip :: u64
  ca_number_of_bytes_fetched :: u8
  ca_guest_instruction_bytes :: "u8 list"
  ca_avic_apic_backing_page_ptr :: u64
  ca_reserved_13 :: u64
  ca_avic_logical_table_ptr :: u64
  ca_avic_physical_table_ptr :: u64
  ca_reserved_14 :: u64
  ca_vmcb_state_save_ptr :: u64
  ca_reserved_26 :: "u8 list"

definition ControlArea_layout :: struct_layout where
  "ControlArea_layout = [(''intercepts'', 24), (''reserved_1'', 36), (''pause_filter_thershold'', 2), (''pause_filter_count'', 2), (''iopm_base_pa'', 8),
     (''msrpm_base_pa'', 8), (''tsc_offset'', 8), (''guest_asid'', 4), (''tlb_control'', 4), (''vintr'', 8),
     (''partially_reserved_7'', 8), (''exitcode'', 8), (''exitinfo1'', 8), (''exitinfo2'', 8), (''exitintinfo'', 8), (''flags'', 8),
     (''avic_apic_bar_reserved'', 8), (''guest_phys_addr_ghcb'', 8), (''event_injection'', 8), (''n_cr3'', 8),
     (''lbr_virtualization_enable'', 8), (''vmcb_clean_bits'', 4), (''reserved_11'', 4), (''nrip'', 8), (''number_of_bytes_fetched'', 1),
     (''guest_instruction_bytes'', 15), (''avic_apic_backing_page_ptr'', 8), (''reserved_13'', 8), (''avic_logical_table_ptr'', 8),
     (''avic_physical_table_ptr'', 8), (''reserved_14'', 8), (''vmcb_state_save_ptr'', 8), (''reserved_26'', 752)]"

record StateSaveArea =
  ss_es :: FullSegmentSelector
  ss_cs :: FullSegmentSelector
  ss_ss :: FullSegmentSelector
  ss_ds :: FullSegmentSelector
  ss_fs :: FullSegmentSelector
  ss_gs :: FullSegmentSelector
  ss_gdtr :: FullSegmentSelector
  ss_ldtr :: FullSegmentSelector
  ss_idtr :: FullSegmentSelector
  ss_tr :: FullSegmentSelector
  ss_reserved_1 :: "u8 list"
  ss_cpl :: u8
  ss_reserved_2 :: u32
  ss_efer :: u64
  ss_reserved_3 :: "u8 list"
  ss_perf_ctl0 :: u64
  ss_perf_ctr0 :: u64
  ss_perf_ctl1 :: u64
  ss_perf_ctr1 :: u64
  ss_perf_ctl2 :: u64
  ss_perf_ctr2 :: u64
  ss_perf_ctl3 :: u64
  ss_perf_ctr3 :: u64
  ss_perf_ctl4 :: u64
  ss_perf_ctr4 :: u64
  ss_perf_ctl5 :: u64
  ss_perf_ctr5 :: u64
  ss_forgot_reserved :: u64
  ss_cr4 :: u64
  ss_cr3 :: u64
  ss_cr0 :: u64
  ss_dr7 :: u64
  ss_dr6 :: u64
  ss_rflags :: u64
  ss_rip :: usize
  ss_reserved_4 :: "u8 list"
  ss_instr_retired_ctr :: u64
  ss_perf_ctr_global_sts :: u64
  ss_perf_ctr_global_ctl :: u64
  ss_rsp :: u64
  ss_s_cet :: u64
  ss_ssp :: u64
  ss_isst_addr :: u64
  ss_rax :: u64
  ss_start :: u64
  ss_lstart :: u64
  ss_cstar :: u64
  ss_sf_mask :: u64
  ss_kernel_gs_base :: u64
  ss_sysenter_cs :: u64
  ss_sysenter_esp :: u64
  ss_sysenter_eip :: u64
  ss_cr2 :: u64
  ss_reserved_6 :: "u8 list"
  ss_g_pat :: u64
  ss_dbg_ctl :: u64
  ss_br_from :: u64
  ss_br_to :: u64
  ss_last_exception_from :: u64
  ss_last_exception_to :: u64
  ss_dbg_extn_ctl :: u64
  ss_reserved_7 :: "u8 list"
  ss_spec_ctrl :: u64
  ss_reserved_8 :: "u8 list"
  ss_lbr_stack :: "u8 list"
  ss_lbr_select :: u64
  ss_ibs_fetch_ctl :: u64
  ss_ibs_fetch_linaddr :: u64
  ss_ibs_op_ctl :: u64
  ss_ibs_op_rip :: u64
  ss_ibs_op_data :: u64
  ss_ibs_op_data2 :: u64
  ss_ibs_op_data3 :: u64
  ss_ibs_dc_linaddr :: u64
  ss_bp_ibstgt_rip :: u64
  ss_ic_ibs_extd_ctl :: u64

definition StateSaveArea_layout :: struct_layout where
  "StateSaveArea_layout = [(''es'', 16), (''cs'', 16), (''ss'', 16), (''ds'', 16), (''fs'', 16), (''gs'', 16), (''gdtr'', 16), (''ldtr'', 16), (''idtr'', 16),
     (''tr'', 16), (''reserved_1'', 43), (''cpl'', 1), (''reserved_2'', 4), (''efer'', 8), (''reserved_3'', 8), (''perf_ctl0'', 8),
     (''perf_ctr0'', 8), (''perf_ctl1'', 8), (''perf_ctr1'', 8), (''perf_ctl2'', 8), (''perf_ctr2'', 8), (''perf_ctl3'', 8),
     (''perf_ctr3'', 8), (''perf_ctl4'', 8), (''perf_ctr4'', 8), (''perf_ctl5'', 8), (''perf_ctr5'', 8), (''forgot_reserved'', 8),
     (''cr4'', 8), (''cr3'', 8), (''cr0'', 8), (''dr7'', 8), (''dr6'', 8), (''rflags'', 8), (''rip'', 8), (''reserved_4'', 64),
     (''instr_retired_ctr'', 8), (''perf_ctr_global_sts'', 8), (''perf_ctr_global_ctl'', 8), (''rsp'', 8), (''s_cet'', 8), (''ssp'', 8),
     (''isst_addr'', 8), (''rax'', 8), (''start'', 8), (''lstart'', 8), (''cstar'', 8), (''sf_mask'', 8), (''kernel_gs_base'', 8),
     (''sysenter_cs'', 8), (''sysenter_esp'', 8), (''sysenter_eip'', 8), (''cr2'', 8), (''reserved_6'', 32), (''g_pat'', 8),
     (''dbg_ctl'', 8), (''br_from'', 8), (''br_to'', 8), (''last_exception_from'', 8), (''last_exception_to'', 8), (''dbg_extn_ctl'', 8),
     (''reserved_7'', 64), (''spec_ctrl'', 8), (''reserved_8'', 904), (''lbr_stack'', 256), (''lbr_select'', 8), (''ibs_fetch_ctl'', 8),
     (''ibs_fetch_linaddr'', 8), (''ibs_op_ctl'', 8), (''ibs_op_rip'', 8), (''ibs_op_data'', 8), (''ibs_op_data2'', 8),
     (''ibs_op_data3'', 8), (''ibs_dc_linaddr'', 8), (''bp_ibstgt_rip'', 8), (''ic_ibs_extd_ctl'', 8)]"

record Vmcb =
  control :: ControlArea
  state_save :: StateSaveArea

text \<open>\<open>Vmcb::uninit\<close>: all bytes are zero.\<close>

definition selector_zeroed :: FullSegmentSelector where
  "selector_zeroed = \<lparr> fs_selector = 0, fs_attributes = 0, fs_limit = 0, fs_base = 0 \<rparr>"

definition control_zeroed :: ControlArea where
  "control_zeroed = \<lparr> ca_intercepts = 0, ca_reserved_1 = replicate (0x3c - 0x18) 0, ca_pause_filter_thershold = 0, ca_pause_filter_count = 0,
     ca_iopm_base_pa = 0, ca_msrpm_base_pa = 0, ca_tsc_offset = 0, ca_guest_asid = 0, ca_tlb_control = 0, ca_vintr = 0,
     ca_partially_reserved_7 = 0, ca_exitcode = CrRead 0, ca_exitinfo1 = 0, ca_exitinfo2 = 0, ca_exitintinfo = 0, ca_flags = 0,
     ca_avic_apic_bar_reserved = 0, ca_guest_phys_addr_ghcb = 0, ca_event_injection = 0, ca_n_cr3 = 0, ca_lbr_virtualization_enable = 0,
     ca_vmcb_clean_bits = 0, ca_reserved_11 = 0, ca_nrip = 0, ca_number_of_bytes_fetched = 0,
     ca_guest_instruction_bytes = replicate 15 0, ca_avic_apic_backing_page_ptr = 0, ca_reserved_13 = 0, ca_avic_logical_table_ptr = 0,
     ca_avic_physical_table_ptr = 0, ca_reserved_14 = 0, ca_vmcb_state_save_ptr = 0, ca_reserved_26 = replicate 752 0 \<rparr>"

definition state_save_zeroed :: StateSaveArea where
  "state_save_zeroed = \<lparr> ss_es = selector_zeroed, ss_cs = selector_zeroed, ss_ss = selector_zeroed, ss_ds = selector_zeroed, ss_fs = selector_zeroed,
     ss_gs = selector_zeroed, ss_gdtr = selector_zeroed, ss_ldtr = selector_zeroed, ss_idtr = selector_zeroed, ss_tr = selector_zeroed,
     ss_reserved_1 = replicate (0xcb - 0xa0) 0, ss_cpl = 0, ss_reserved_2 = 0, ss_efer = 0, ss_reserved_3 = replicate (0xe0 - 0xd8) 0,
     ss_perf_ctl0 = 0, ss_perf_ctr0 = 0, ss_perf_ctl1 = 0, ss_perf_ctr1 = 0, ss_perf_ctl2 = 0, ss_perf_ctr2 = 0, ss_perf_ctl3 = 0,
     ss_perf_ctr3 = 0, ss_perf_ctl4 = 0, ss_perf_ctr4 = 0, ss_perf_ctl5 = 0, ss_perf_ctr5 = 0, ss_forgot_reserved = 0, ss_cr4 = 0,
     ss_cr3 = 0, ss_cr0 = 0, ss_dr7 = 0, ss_dr6 = 0, ss_rflags = 0, ss_rip = 0, ss_reserved_4 = replicate (0x1c0 - 0x180) 0,
     ss_instr_retired_ctr = 0, ss_perf_ctr_global_sts = 0, ss_perf_ctr_global_ctl = 0, ss_rsp = 0, ss_s_cet = 0, ss_ssp = 0,
     ss_isst_addr = 0, ss_rax = 0, ss_start = 0, ss_lstart = 0, ss_cstar = 0, ss_sf_mask = 0, ss_kernel_gs_base = 0, ss_sysenter_cs = 0,
     ss_sysenter_esp = 0, ss_sysenter_eip = 0, ss_cr2 = 0, ss_reserved_6 = replicate (0x268 - 0x248) 0, ss_g_pat = 0, ss_dbg_ctl = 0,
     ss_br_from = 0, ss_br_to = 0, ss_last_exception_from = 0, ss_last_exception_to = 0, ss_dbg_extn_ctl = 0,
     ss_reserved_7 = replicate 64 0, ss_spec_ctrl = 0, ss_reserved_8 = replicate 904 0, ss_lbr_stack = replicate 256 0,
     ss_lbr_select = 0, ss_ibs_fetch_ctl = 0, ss_ibs_fetch_linaddr = 0, ss_ibs_op_ctl = 0, ss_ibs_op_rip = 0, ss_ibs_op_data = 0,
     ss_ibs_op_data2 = 0, ss_ibs_op_data3 = 0, ss_ibs_dc_linaddr = 0, ss_bp_ibstgt_rip = 0, ss_ic_ibs_extd_ctl = 0 \<rparr>"

definition vmcb_uninit :: Vmcb where
  "vmcb_uninit = \<lparr> control = control_zeroed, state_save = state_save_zeroed \<rparr>"

text \<open>\<open>Layout::new::<Vmcb>()\<close>: the two areas, padded to the alignment of a page.\<close>

definition VMCB_ALIGN :: usize where
  "VMCB_ALIGN = 0x1000"

definition vmcb_size :: usize where
  "vmcb_size = div_ceil (size_of ControlArea_layout + size_of StateSaveArea_layout) VMCB_ALIGN * VMCB_ALIGN"

subsection \<open>The intercept vector and the exit codes\<close>

text \<open>The field of the vector, and the bit in it, that makes the processor exit with a given code: the fields and the
  codes that have the same name.\<close>

definition intercept_names :: "(InterceptCode \<times> string) list" where
  "intercept_names = [(IntrExit, ''intr''), (NmiExit, ''nmi''), (SmiExit, ''smi''), (InitExit, ''init''), (VirtualIntr, ''virtual_intr''),
     (Cr0SelWrite, ''cr0_sel_write''), (IdtrRead, ''idtr_read''), (GdtrRead, ''gdtr_read''), (LdtrRead, ''ldtr_read''),
     (TrRead, ''tr_read''), (IdtrWrite, ''idtr_write''), (GdtrWrite, ''gdtr_write''), (LdtrWrite, ''ldtr_write''),
     (TrWrite, ''tr_write''), (Rdtsc, ''rdtsc''), (Rdpmc, ''rdpmc''), (Pushf, ''pushf''), (Popf, ''popf''), (Cpuid, ''cpuid''),
     (Rsm, ''rsm''), (Iret, ''iret''), (Swint, ''intn''), (Invd, ''invd''), (PauseExit, ''pause''), (Hlt, ''hlt''), (Invlpg, ''invlpg''),
     (Invlpga, ''invlpga''), (ExitIoio, ''ioio_prot''), (MsrExit, ''msr_prot''), (TaskSwitch, ''task_switch''),
     (FErrFreeze, ''f_err_freeze''), (ShutdownExit, ''shutdown''), (Vmrun, ''vmrun''), (Vmmcall, ''vmmcall''), (Vmload, ''vmload''),
     (Vmsave, ''vmsave''), (Stgi, ''stgi''), (Clgi, ''clgi''), (Skinit, ''skinit''), (Rdtscp, ''rdtscp''), (Icebp, ''icebp''),
     (Wbinvd, ''wbinvd''), (MonitorExit, ''monitor''), (Mwait, ''mwait''), (MwaitConditional, ''mwait_conditional''),
     (Xsetbv, ''xsetbv''), (Rdpru, ''rdpru''), (EferWriteTrap, ''efer_write''), (Invlpgb, ''invlpgb_all''),
     (InvlpgbIllegal, ''invlpgb_illegal''), (Invpcid, ''invpcid''), (Mcommit, ''mcommit''), (Tlbsync, ''tlbsync''),
     (BusLock, ''bus_lock''), (IdleHlt, ''idle_hlt'')]"

definition intercept_field :: "InterceptCode \<Rightarrow> (string \<times> nat) option" where
  "intercept_field c = (case c of
     CrRead n \<Rightarrow> Some (''cr_reads'', unat n)
   | CrWrite n \<Rightarrow> Some (''cr_writes'', unat n)
   | DrRead n \<Rightarrow> Some (''dr_reads'', unat n)
   | DrWrite n \<Rightarrow> Some (''dr_writes'', unat n)
   | Exception n \<Rightarrow> Some (''exceptions'', unat n)
   | CrWriteTrap n \<Rightarrow> Some (''cr_writes_foo'', unat n)
   | _ \<Rightarrow> map_option (\<lambda>f. (f, 0)) (map_of intercept_names c))"

definition intercepted :: "Intercepts \<Rightarrow> InterceptCode \<Rightarrow> bool" where
  "intercepted w c = (case intercept_field c of Some (f, i) \<Rightarrow> bit (bf_get Intercepts_layout f w) i | None \<Rightarrow> False)"

lemma intercepts_layout_wf: "layout_wf 192 Intercepts_layout"
  by (simp add: layout_wf_def layout_bits_def Intercepts_layout_def)

lemma intercept_names_at:
  assumes "(c, f) \<in> set intercept_names"
  shows "field_at Intercepts_layout f 0 = Some (nat (intercept_code_value c), 1)" and "0 \<le> intercept_code_value c"
proof -
  have "offsets_ok Intercepts_layout 0 (map (\<lambda>(c, f). (f, nat (intercept_code_value c), 1)) intercept_names)"
    by (simp add: intercept_names_def Intercepts_layout_def)
  from offsets_ok_field_at [OF this] intercepts_layout_wf assms
  show "field_at Intercepts_layout f 0 = Some (nat (intercept_code_value c), 1)" by (force simp: layout_wf_def)
  have "list_all (\<lambda>(c, f). 0 \<le> intercept_code_value c) intercept_names" by (simp add: intercept_names_def)
  with assms show "0 \<le> intercept_code_value c" by (auto simp: list_all_iff)
qed

lemma intercept_families_at:
  "field_at Intercepts_layout ''cr_reads'' 0 = Some (0, 16)" "field_at Intercepts_layout ''cr_writes'' 0 = Some (0x10, 16)"
  "field_at Intercepts_layout ''dr_reads'' 0 = Some (0x20, 16)" "field_at Intercepts_layout ''dr_writes'' 0 = Some (0x30, 16)"
  "field_at Intercepts_layout ''exceptions'' 0 = Some (0x40, 32)" "field_at Intercepts_layout ''cr_writes_foo'' 0 = Some (0x90, 16)"
  by (simp_all add: Intercepts_layout_def)

lemma family_bound: "unat (n :: 4 word) < 16" "unat (m :: 5 word) < 32"
  using unsigned_less [of n, where ?'a = nat] unsigned_less [of m, where ?'a = nat] by simp_all

lemma intercept_named:
  assumes "map_option (\<lambda>f. (f, 0)) (map_of intercept_names c) = Some (f, i)"
  shows "i = 0 \<and> field_at Intercepts_layout f 0 = Some (nat (intercept_code_value c), 1) \<and> 0 \<le> intercept_code_value c"
proof -
  from assms have "map_of intercept_names c = Some f" and i: "i = 0" by auto
  then have "(c, f) \<in> set intercept_names" by (simp add: map_of_SomeD)
  from intercept_names_at [OF this] i show ?thesis by blast
qed

lemma intercept_field_code:
  assumes "intercept_field c = Some (f, i)"
  obtains k n where "field_at Intercepts_layout f 0 = Some (k, n)" and "i < n" and "intercept_code_value c = int (k + i)"
proof -
  have "\<exists>k n. field_at Intercepts_layout f 0 = Some (k, n) \<and> i < n \<and> intercept_code_value c = int (k + i)"
  proof (cases "\<exists>n. c \<in> {CrRead n, CrWrite n, DrRead n, DrWrite n, CrWriteTrap n} \<or> (\<exists>m. c = Exception m)")
    case True
    then show ?thesis using assms by (auto simp: intercept_field_def intercept_families_at family_bound uint_nat)
  next
    case False
    then have "intercept_field c = map_option (\<lambda>f. (f, 0)) (map_of intercept_names c)"
      by (cases c; simp add: intercept_field_def)
    then show ?thesis using intercept_named [of c f i] assms by auto
  qed
  with that show ?thesis by blast
qed

text \<open>An exit code is the number of its bit in the vector.\<close>

lemma intercepted_bit:
  assumes "intercept_field c \<noteq> None"
  shows "intercepted w c \<longleftrightarrow> bit w (nat (intercept_code_value c))"
proof -
  from assms obtain f i where c: "intercept_field c = Some (f, i)" by auto
  from intercept_field_code [OF c] obtain k n where "field_at Intercepts_layout f 0 = Some (k, n)" "i < n" "intercept_code_value c = int (k + i)" .
  then show ?thesis by (simp add: intercepted_def c bit_bf_get nat_int_add)
qed

subsection \<open>The layout in memory\<close>

text \<open>The tables of the processor's manual (Appendix B of the system programming manual): offset and number of bytes of every field of the control
  area and of the state save area that is not reserved, under the names of the code.\<close>

definition amd_control_fields :: "(string \<times> nat \<times> nat) list" where
  "amd_control_fields = [(''intercepts'', 0x0, 24), (''pause_filter_thershold'', 0x3c, 2), (''pause_filter_count'', 0x3e, 2), (''iopm_base_pa'', 0x40, 8),
     (''msrpm_base_pa'', 0x48, 8), (''tsc_offset'', 0x50, 8), (''guest_asid'', 0x58, 4), (''tlb_control'', 0x5c, 4), (''vintr'', 0x60, 8),
     (''partially_reserved_7'', 0x68, 8), (''exitcode'', 0x70, 8), (''exitinfo1'', 0x78, 8), (''exitinfo2'', 0x80, 8), (''exitintinfo'', 0x88, 8),
     (''flags'', 0x90, 8), (''avic_apic_bar_reserved'', 0x98, 8), (''guest_phys_addr_ghcb'', 0xa0, 8), (''event_injection'', 0xa8, 8), (''n_cr3'', 0xb0, 8),
     (''lbr_virtualization_enable'', 0xb8, 8), (''vmcb_clean_bits'', 0xc0, 4), (''nrip'', 0xc8, 8), (''number_of_bytes_fetched'', 0xd0, 1),
     (''guest_instruction_bytes'', 0xd1, 15), (''avic_apic_backing_page_ptr'', 0xe0, 8), (''avic_logical_table_ptr'', 0xf0, 8),
     (''avic_physical_table_ptr'', 0xf8, 8), (''vmcb_state_save_ptr'', 0x108, 8)]"

definition amd_save_fields :: "(string \<times> nat \<times> nat) list" where
  "amd_save_fields = [(''es'', 0x0, 16), (''cs'', 0x10, 16), (''ss'', 0x20, 16), (''ds'', 0x30, 16), (''fs'', 0x40, 16), (''gs'', 0x50, 16), (''gdtr'', 0x60, 16),
     (''ldtr'', 0x70, 16), (''idtr'', 0x80, 16), (''tr'', 0x90, 16), (''cpl'', 0xcb, 1), (''efer'', 0xd0, 8),
     (''perf_ctl0'', 0xe0, 8), (''perf_ctr0'', 0xe8, 8), (''perf_ctl1'', 0xf0, 8), (''perf_ctr1'', 0xf8, 8), (''perf_ctl2'', 0x100, 8), (''perf_ctr2'', 0x108, 8),
     (''perf_ctl3'', 0x110, 8), (''perf_ctr3'', 0x118, 8), (''perf_ctl4'', 0x120, 8), (''perf_ctr4'', 0x128, 8), (''perf_ctl5'', 0x130, 8), (''perf_ctr5'', 0x138, 8),
     (''cr4'', 0x148, 8), (''cr3'', 0x150, 8), (''cr0'', 0x158, 8), (''dr7'', 0x160, 8), (''dr6'', 0x168, 8), (''rflags'', 0x170, 8), (''rip'', 0x178, 8),
     (''instr_retired_ctr'', 0x1c0, 8), (''perf_ctr_global_sts'', 0x1c8, 8), (''perf_ctr_global_ctl'', 0x1d0, 8), (''rsp'', 0x1d8, 8), (''s_cet'', 0x1e0, 8),
     (''ssp'', 0x1e8, 8), (''isst_addr'', 0x1f0, 8), (''rax'', 0x1f8, 8), (''start'', 0x200, 8), (''lstart'', 0x208, 8), (''cstar'', 0x210, 8), (''sf_mask'', 0x218, 8),
     (''kernel_gs_base'', 0x220, 8), (''sysenter_cs'', 0x228, 8), (''sysenter_esp'', 0x230, 8), (''sysenter_eip'', 0x238, 8), (''cr2'', 0x240, 8),
     (''g_pat'', 0x268, 8), (''dbg_ctl'', 0x270, 8), (''br_from'', 0x278, 8), (''br_to'', 0x280, 8), (''last_exception_from'', 0x288, 8),
     (''last_exception_to'', 0x290, 8), (''dbg_extn_ctl'', 0x298, 8), (''spec_ctrl'', 0x2e0, 8), (''lbr_stack'', 0x670, 256), (''lbr_select'', 0x770, 8),
     (''ibs_fetch_ctl'', 0x778, 8), (''ibs_fetch_linaddr'', 0x780, 8), (''ibs_op_ctl'', 0x788, 8), (''ibs_op_rip'', 0x790, 8), (''ibs_op_data'', 0x798, 8),
     (''ibs_op_data2'', 0x7a0, 8), (''ibs_op_data3'', 0x7a8, 8), (''ibs_dc_linaddr'', 0x7b0, 8), (''bp_ibstgt_rip'', 0x7b8, 8), (''ic_ibs_extd_ctl'', 0x7c0, 8)]"

text \<open>The bytes of a control block with given values of the fields, a page.\<close>

definition vmcb_bytes :: "(string \<Rightarrow> nat) \<Rightarrow> (string \<Rightarrow> nat) \<Rightarrow> u8 list" where
  "vmcb_bytes c s = struct_bytes ControlArea_layout c @ struct_bytes StateSaveArea_layout s
     @ replicate (vmcb_size - size_of ControlArea_layout - size_of StateSaveArea_layout) 0"

lemma vmcb_sizes: "size_of ControlArea_layout = 0x400" "size_of StateSaveArea_layout = 0x7c8" "vmcb_size = 0x1000"
  by (simp_all add: vmcb_size_def VMCB_ALIGN_def div_ceil_def size_of_def ControlArea_layout_def StateSaveArea_layout_def)

lemma control_offsets: "offsets_ok ControlArea_layout 0 amd_control_fields" "distinct (map fst ControlArea_layout)"
  by (simp_all add: ControlArea_layout_def amd_control_fields_def)

lemma state_save_offsets: "offsets_ok StateSaveArea_layout 0 amd_save_fields" "distinct (map fst StateSaveArea_layout)"
  by (simp_all add: StateSaveArea_layout_def amd_save_fields_def)

lemma drop_length_append: "length xs = k \<Longrightarrow> drop (k + n) (xs @ ys) = drop n ys"
  by simp

lemma control_field:
  assumes "(f, off, n) \<in> set amd_control_fields"
  shows "take n (drop off (vmcb_bytes c s)) = le_bytes n (c f)"
proof -
  have "field_at ControlArea_layout f 0 = Some (off, n)" by (rule offsets_ok_field_at [OF control_offsets assms])
  from struct_field [OF this] show ?thesis unfolding vmcb_bytes_def by (metis minus_nat.diff_0)
qed

lemma save_field:
  assumes "(f, off, n) \<in> set amd_save_fields"
  shows "take n (drop (0x400 + off) (vmcb_bytes c s)) = le_bytes n (s f)"
proof -
  have "field_at StateSaveArea_layout f 0 = Some (off, n)" by (rule offsets_ok_field_at [OF state_save_offsets assms])
  from struct_field [OF this, of s] have "take n (drop off (struct_bytes StateSaveArea_layout s @ bs)) = le_bytes n (s f)" for bs
    by (metis minus_nat.diff_0)
  moreover have "drop (0x400 + off) (vmcb_bytes c s) = drop off (struct_bytes StateSaveArea_layout s
     @ replicate (vmcb_size - size_of ControlArea_layout - size_of StateSaveArea_layout) 0)"
    unfolding vmcb_bytes_def by (rule drop_length_append) (simp only: length_struct_bytes vmcb_sizes)
  ultimately show ?thesis by (simp only:)
qed

text \<open>C38: The control block has the memory layout the processor expects.  A block is one page; whatever values its fields have, the bytes that the
  processor reads at the offset of a field, for every field that the manual gives for the control area at 0 and the state save area at 0x400, are
  the bytes of the value of that field, lowest first.  The intercept vector and the exit codes, two tables written
  independently, agree: the code of every intercept is the number of its bit in the vector, so a bit set for an
  intercept makes the processor exit with the code of that name.\<close>
theorem vmcb_layout_correct:
  "length (vmcb_bytes c s) = 0x1000
   \<and> (\<forall>(f, off, n) \<in> set amd_control_fields. take n (drop off (vmcb_bytes c s)) = le_bytes n (c f))
   \<and> (\<forall>(f, off, n) \<in> set amd_save_fields. take n (drop (0x400 + off) (vmcb_bytes c s)) = le_bytes n (s f))
   \<and> (\<forall>e w. intercept_field e \<noteq> None \<longrightarrow> (intercepted w e \<longleftrightarrow> bit w (nat (intercept_code_value e))))"
proof (intro conjI)
  show "length (vmcb_bytes c s) = 0x1000" by (simp add: vmcb_bytes_def length_struct_bytes vmcb_sizes)
qed (use control_field save_field intercepted_bit in blast)+

theorem vmcb_layout_correct_witness:
  "take 8 (drop 0x578 (vmcb_bytes (\<lambda>_. 0) ((\<lambda>_. 0)(''rip'' := 0x1234)))) = [0x34, 0x12, 0, 0, 0, 0, 0, 0]
   \<and> intercepted (push_bit 0x78 1) Hlt"
proof -
  have "(''rip'', 0x178, 8) \<in> set amd_save_fields" by (simp add: amd_save_fields_def)
  with vmcb_layout_correct [of "\<lambda>_. 0" "(\<lambda>_. 0)(''rip'' := 0x1234)"]
  have "take 8 (drop (0x400 + 0x178) (vmcb_bytes (\<lambda>_. 0) ((\<lambda>_. 0)(''rip'' := 0x1234)))) = le_bytes 8 0x1234" by fastforce
  moreover have "intercept_field Hlt \<noteq> None" by (simp add: intercept_field_def intercept_names_def)
  with vmcb_layout_correct have "intercepted (push_bit 0x78 1) Hlt \<longleftrightarrow> bit (push_bit 0x78 1 :: Intercepts) (nat (intercept_code_value Hlt))" by blast
  ultimately show ?thesis by (simp add: bit_simps le_bytes_numeral)
qed

end
