(* ===== verification/Svm.thy ===== *)
theory Svm
  imports Vmcb Interrupts Kernel_Heap
begin

text \<open>
  Hardware virtualization (\<open>hypervisor/src/svm/mod.rs\<close>, \<open>svm/cpu.rs\<close>): switching the processor into SVM operation, and the
  life of a control block from its allocation to the handling of an exit.  CPUID and the content of the descriptor table are
  arguments; the instruction \<open>vmrun\<close> is the argument \<open>hw\<close>, which takes the control block and the state of the
  guest's machine to those after the exit.  The allocator of address space identifiers is behind a spin lock
  that the code holds for single calls; here it is a component of the state.
\<close>

record SvmSystem =
  sv_km :: KernelMem
  sv_mem :: "PhysAddr \<Rightarrow> u8"
  sv_cpu :: Cpu
  ASID_ALLOCATOR :: IdTracker
  VMCB_ALLOCATOR :: InternalSlabAllocator

subsection \<open>Starting SVM operation\<close>

text \<open>\<open>memset\<close> through the page tables.\<close>

definition store_byte :: "usize \<Rightarrow> VirtAddr \<Rightarrow> KernelMem \<Rightarrow> VirtAddr \<Rightarrow> u8 \<Rightarrow> (PhysAddr \<Rightarrow> u8) \<Rightarrow> (PhysAddr \<Rightarrow> u8) option" where
  "store_byte hhdm pml k va v mem = do {
     tr \<leftarrow> manager_translate hhdm pml k (va - va mod BASIC_PAGE_SIZE);
     p \<leftarrow> tr;
     Some (mem(p + va mod BASIC_PAGE_SIZE := v)) }"

fun memset_mapped :: "usize \<Rightarrow> VirtAddr \<Rightarrow> KernelMem \<Rightarrow> VirtAddr \<Rightarrow> u8 \<Rightarrow> nat list \<Rightarrow> (PhysAddr \<Rightarrow> u8) \<Rightarrow> (PhysAddr \<Rightarrow> u8) option" where
  "memset_mapped hhdm pml k ptr v [] mem = Some mem"
| "memset_mapped hhdm pml k ptr v (i # is) mem = do {
     mem \<leftarrow> store_byte hhdm pml k (ptr + i) v mem;
     memset_mapped hhdm pml k ptr v is mem }"

definition init_host_state :: "usize \<Rightarrow> VirtAddr \<Rightarrow> SvmSystem \<Rightarrow> SvmSystem option" where
  "init_host_state hhdm pml s = do {
     (r, k) \<leftarrow> allocate_pages hhdm pml (sv_km s) 1 (set_read_write flags_new True) Size4KB;
     host_state_page \<leftarrow> unwrap_ok r;
     mem \<leftarrow> memset_mapped hhdm pml k host_state_page 0 [0..<BASIC_PAGE_SIZE] (sv_mem s);
     tr \<leftarrow> manager_translate hhdm pml k host_state_page;
     phys_addr \<leftarrow> tr;
     let low = ucast ((of_nat phys_addr :: u64) AND 0xffffffff);
     let high = ucast (drop_bit 32 (of_nat phys_addr :: u64) AND 0xffffffff);
     Some (s \<lparr> sv_km := k, sv_mem := mem,
               sv_cpu := wrmsr (amd_msr_address VmHsavePa) \<lparr> msr_low = low, msr_high = high \<rparr> (sv_cpu s) \<rparr>) }"

definition SVM_SUPPORT_ECX_BIT :: u32 where "SVM_SUPPORT_ECX_BIT = push_bit 2 1"

definition check_support :: "cpuid \<Rightarrow> unit option" where
  "check_support cpuid = ensure (cpuid_ecx (cpuid 0x80000001 0) AND SVM_SUPPORT_ECX_BIT \<noteq> 0)"

definition SVM_DISABLE :: u32 where "SVM_DISABLE = push_bit 4 1"
definition CPUID_SVM_BRANCH :: u32 where "CPUID_SVM_BRANCH = 0x8000000a"
definition SVML :: u32 where "SVML = push_bit 2 1"

definition check_firmware_disabled :: "cpuid \<Rightarrow> Cpu \<Rightarrow> unit option" where
  "check_firmware_disabled cpuid c = do {
     let vmcr = rdmsr (amd_msr_address VmCr) c;
     if msr_low vmcr AND SVM_DISABLE \<noteq> 0 then do {
       _ \<leftarrow> ensure (cpuid_edx (cpuid CPUID_SVM_BRANCH 0) AND SVML \<noteq> 0);
       None }
     else Some () }"

definition svm_enable :: "cpuid \<Rightarrow> SvmSystem \<Rightarrow> SvmSystem option" where
  "svm_enable cpuid s = do {
     _ \<leftarrow> check_support cpuid;
     _ \<leftarrow> check_firmware_disabled cpuid (sv_cpu s);
     let data = u64_of_msr (rdmsr (amd_msr_address Efer) (sv_cpu s));
     let data = data OR EFER_SVM;
     Some (s \<lparr> sv_cpu := wrmsr (amd_msr_address Efer) (msr_of_u64 data) (sv_cpu s) \<rparr>) }"

definition init_asid_allocator :: "cpuid \<Rightarrow> SvmSystem \<Rightarrow> SvmSystem option" where
  "init_asid_allocator cpuid s = do {
     let start_id = Id 1;
     let end_id = Id (unat (cpuid_ebx (cpuid 0x8000000a 0)));
     t \<leftarrow> id_tracker_new start_id end_id;
     Some (s \<lparr> ASID_ALLOCATOR := t \<rparr>) }"

definition svm_start :: "usize \<Rightarrow> VirtAddr \<Rightarrow> cpuid \<Rightarrow> SvmSystem \<Rightarrow> SvmSystem option" where
  "svm_start hhdm pml cpuid s = do {
     s \<leftarrow> svm_enable cpuid s;
     s \<leftarrow> init_asid_allocator cpuid s;
     init_host_state hhdm pml s }"

subsection \<open>The control block of a guest\<close>

definition sanity_check_guest_state :: "Vmcb \<Rightarrow> unit option" where
  "sanity_check_guest_state v = do {
     let st = state_save v;
     _ \<leftarrow> ensure (\<not> (ss_efer st AND EFER_SVM = 0));
     _ \<leftarrow> ensure (\<not> (bf_get Cr0_layout ''cd'' (ss_cr0 st) = 0 \<and> bf_get Cr0_layout ''nw'' (ss_cr0 st) \<noteq> 0));
     _ \<leftarrow> ensure (\<not> (bf_get Cr0_layout ''reserved_mbz_3'' (ss_cr0 st) \<noteq> 0));
     _ \<leftarrow> ensure (\<not> (bf_get Cr3_layout ''reserved_mbz_0'' (ss_cr3 st) \<noteq> 0 \<or> bf_get Cr3_layout ''reserved_mbz_1'' (ss_cr3 st) \<noteq> 0));
     _ \<leftarrow> ensure (\<not> (bf_get Cr4_layout ''reserved_mbz_0'' (ss_cr4 st) \<noteq> 0 \<or> bf_get Cr4_layout ''reserved_mbz_1'' (ss_cr4 st) \<noteq> 0
                      \<or> bf_get Cr4_layout ''reserved_mbz_2'' (ss_cr4 st) \<noteq> 0));
     _ \<leftarrow> ensure (\<not> (bf_get AmdDr6_layout ''reserved_mbz_1'' (ss_dr6 st) \<noteq> 0));
     _ \<leftarrow> ensure (\<not> (bf_get AmdDr7_layout ''reserved_mbz_1'' (ss_dr7 st) \<noteq> 0));
     _ \<leftarrow> ensure (\<not> (ss_efer st AND NOT EFER_ALL \<noteq> 0));
     _ \<leftarrow> ensure (\<not> (ss_efer st AND EFER_LMA \<noteq> 0 \<and> bf_get Cr0_layout ''pg'' (ss_cr0 st) \<noteq> 0 \<and> bf_get Cr4_layout ''pae'' (ss_cr4 st) = 0));
     _ \<leftarrow> ensure (\<not> (ss_efer st AND EFER_LMA \<noteq> 0 \<and> bf_get Cr0_layout ''pg'' (ss_cr0 st) \<noteq> 0 \<and> bf_get Cr0_layout ''pe'' (ss_cr0 st) = 0));
     _ \<leftarrow> ensure (\<not> (bf_get Intercepts_layout ''vmrun'' (ca_intercepts (control v)) = 0));
     _ \<leftarrow> ensure (\<not> (ca_guest_asid (control v) = 0));
     ensure (\<not> (bf_get Cr4_layout ''cet'' (ss_cr4 st) \<noteq> 0 \<and> bf_get Cr0_layout ''wp'' (ss_cr0 st) = 0)) }"

definition NESTED_PAGING_BIT :: u32 where "NESTED_PAGING_BIT = push_bit 0 1"

definition check_nested_paging_support :: "cpuid \<Rightarrow> unit option" where
  "check_nested_paging_support cpuid = ensure (cpuid_edx (cpuid 0x8000000a 0) AND NESTED_PAGING_BIT \<noteq> 0)"

definition setup_nested_paging :: "cpuid \<Rightarrow> Vmcb \<Rightarrow> Vmcb option" where
  "setup_nested_paging cpuid v = do {
     _ \<leftarrow> check_nested_paging_support cpuid;
     f \<leftarrow> bf_set SvmFlags_layout ''np_enable'' 1 (ca_flags (control v));
     Some (v \<lparr> control := (control v) \<lparr> ca_flags := f \<rparr> \<rparr>) }"

text \<open>\<open>gdt_at\<close> is the descriptor table found at an address.\<close>

definition init_state_save :: "(u64 \<Rightarrow> Gdt) \<Rightarrow> Cpu \<Rightarrow> usize \<Rightarrow> StateSaveArea \<Rightarrow> StateSaveArea option" where
  "init_state_save gdt_at c rip st = do {
     _ \<leftarrow> ensure (dt_base (read_gdtr c) \<noteq> 0);
     let gdt = gdt_at (dt_base (read_gdtr c));
     cs \<leftarrow> read_full_selector gdt (Cs_read c);
     rflags \<leftarrow> bf_set Rflags_layout ''rf'' 1 0;
     ss \<leftarrow> read_full_selector gdt (Ss_read c);
     cr0 \<leftarrow> bf_set Cr0_layout ''cd'' 1 0;
     cr0 \<leftarrow> bf_set Cr0_layout ''nw'' 1 cr0;
     es \<leftarrow> read_full_selector gdt (Es_read c);
     ds \<leftarrow> read_full_selector gdt (Ds_read c);
     Some (st \<lparr> ss_cs := cs, ss_rip := rip, ss_rflags := rflags, ss_rax := 0, ss_ss := ss, ss_rsp := of_nat (read_rsp c),
       ss_cr0 := cr0, ss_cr3 := Cr3_read c, ss_cr4 := Cr4_read c, ss_efer := u64_of_msr (rdmsr (amd_msr_address Efer) c),
       ss_idtr := full_selector_of_table (read_idtr c), ss_gdtr := full_selector_of_table (read_gdtr c), ss_es := es, ss_ds := ds,
       ss_dr6 := AmdDr6_read c, ss_dr7 := AmdDr7_read c, ss_cpl := 0 \<rparr>) }"

definition init_intercepts :: "Intercepts \<Rightarrow> Intercepts option" where
  "init_intercepts w = do {
     w \<leftarrow> bf_set Intercepts_layout ''vmrun'' 1 w;
     w \<leftarrow> bf_set Intercepts_layout ''cpuid'' 1 w;
     w \<leftarrow> bf_set Intercepts_layout ''hlt'' 1 w;
     bf_set Intercepts_layout ''exceptions'' (ucast ALL_EXCEPTIONS) w }"

definition init_guest_state :: "(u64 \<Rightarrow> Gdt) \<Rightarrow> Cpu \<Rightarrow> usize \<Rightarrow> Vmcb \<Rightarrow> IdTracker \<Rightarrow> (Vmcb \<times> IdTracker) option" where
  "init_guest_state gdt_at c rip v asids = do {
     st \<leftarrow> init_state_save gdt_at c rip (state_save v);
     w \<leftarrow> init_intercepts (ca_intercepts (control v));
     (r, asids) \<leftarrow> id_tracker_allocate asids;
     asid \<leftarrow> unwrap_ok r;
     let v = v \<lparr> control := (control v) \<lparr> ca_intercepts := w, ca_guest_asid := of_nat (id_val asid) \<rparr>, state_save := st \<rparr>;
     _ \<leftarrow> sanity_check_guest_state v;
     Some (v, asids) }"

definition vmcb_layout :: Layout where
  "vmcb_layout = \<lparr> ly_size = vmcb_size, ly_align = VMCB_ALIGN \<rparr>"

text \<open>\<open>Vesselable::new\<close>: the result is a box, the address of the block and its content.\<close>

definition vmcb_new :: "usize \<Rightarrow> VirtAddr \<Rightarrow> (u64 \<Rightarrow> Gdt) \<Rightarrow> usize \<Rightarrow> SvmSystem \<Rightarrow> ((VirtAddr \<times> Vmcb) \<times> SvmSystem) option" where
  "vmcb_new hhdm pml gdt_at rip s = do {
     ((ptr, _), a, k) \<leftarrow> typed_slab_allocate (slab_allocate_pages hhdm pml) vmcb_layout (VMCB_ALLOCATOR s) vmcb_layout (sv_km s);
     (v, asids) \<leftarrow> init_guest_state gdt_at (sv_cpu s) rip vmcb_uninit (ASID_ALLOCATOR s);
     Some ((ptr, v), s \<lparr> sv_km := k, VMCB_ALLOCATOR := a, ASID_ALLOCATOR := asids \<rparr>) }"

subsection \<open>Running a guest\<close>

definition vmrun :: "(Vmcb \<Rightarrow> 'g \<Rightarrow> Vmcb \<times> 'g) \<Rightarrow> PhysAddr \<Rightarrow> Vmcb \<Rightarrow> 'g \<Rightarrow> (Vmcb \<times> 'g) option" where
  "vmrun hw phys_addr v g = do {
     _ \<leftarrow> ensure (phys_addr mod BASIC_PAGE_SIZE = 0);
     Some (hw v g) }"

definition handle_intercept_during_int :: "Vmcb \<Rightarrow> Vmcb option" where
  "handle_intercept_during_int v =
     (if bf_get ExitIntInfo_layout ''valid'' (ca_exitintinfo (control v)) = 0 then Some v else None)"

definition handle_vmexit :: "Vmcb \<Rightarrow> Vmcb option" where
  "handle_vmexit v = do {
     let exit_code = ca_exitcode (control v);
     v \<leftarrow> handle_intercept_during_int v;
     if exit_code = Cpuid then Some v
     else if exit_code = Hlt then Some v
     else if exit_code = Vmrun \<or> exit_code = Vmload \<or> exit_code = Vmsave then Some v
     else None }"

definition vmcb_run :: "usize \<Rightarrow> VirtAddr \<Rightarrow> (Vmcb \<Rightarrow> 'g \<Rightarrow> Vmcb \<times> 'g) \<Rightarrow> KernelMem \<Rightarrow> VirtAddr \<Rightarrow> Vmcb \<Rightarrow> 'g \<Rightarrow> (Vmcb \<times> 'g) option" where
  "vmcb_run hhdm pml hw k ptr v g = do {
     tr \<leftarrow> manager_translate hhdm pml k ptr;
     phys_addr \<leftarrow> tr;
     (v, g) \<leftarrow> vmrun hw phys_addr v g;
     v \<leftarrow> handle_vmexit v;
     Some (v, g) }"

subsection \<open>Starting: lemmas\<close>

lemma memset_mapped_page:
  assumes "manager_translate hhdm pml k va = Some (Some pa)" and "BASIC_PAGE_SIZE dvd va" and "set is \<subseteq> {..<BASIC_PAGE_SIZE}"
  shows "memset_mapped hhdm pml k va v is mem = Some (\<lambda>p. if p \<in> (+) pa ` set is then v else mem p)"
  using assms(3)
proof (induction "is" arbitrary: mem)
  case (Cons i "is")
  then have i: "(va + i) mod BASIC_PAGE_SIZE = i" using assms(2) by (auto simp: mod_add_left_eq [symmetric])
  have "store_byte hhdm pml k (va + i) v mem = Some (mem(pa + i := v))" unfolding store_byte_def i by (simp add: assms(1))
  with Cons show ?case by (auto simp: fun_eq_iff)
qed simp

lemma msr_halves:
  fixes w :: u64
  shows "u64_of_msr \<lparr> msr_low = ucast (w AND 0xffffffff), msr_high = ucast (drop_bit 32 w AND 0xffffffff) \<rparr> = w"
proof -
  have m: "(0xffffffff :: u64) = mask 32" by (simp add: mask_eq_exp_minus_1)
  show ?thesis
    unfolding m by (rule bit_word_eqI) (auto simp: u64_of_msr_def bit_simps dest: bit_imp_le_length)
qed

lemma init_host_state_ok:
  assumes "km_ok L M hhdm pml lim (sv_km s) P U" and "vaa_next (sv_km s) + 1 \<le> lim" and "4 * BASIC_PAGE_SIZE \<le> card U"
  shows "\<exists>s' va pa U'. init_host_state hhdm pml s = Some s' \<and> va \<notin> dom P
    \<and> km_ok L M hhdm pml lim (sv_km s') (P(va \<mapsto> pa)) U' \<and> vaa_next (sv_km s') = vaa_next (sv_km s) + 1 \<and> card U \<le> card U' + 4 * BASIC_PAGE_SIZE
    \<and> sv_mem s' = (\<lambda>p. if p \<in> page pa then 0 else sv_mem s p)
    \<and> sv_cpu s' = (sv_cpu s) \<lparr> r_msr := (r_msr (sv_cpu s))(amd_msr_address VmHsavePa := of_nat pa) \<rparr>
    \<and> ASID_ALLOCATOR s' = ASID_ALLOCATOR s \<and> VMCB_ALLOCATOR s' = VMCB_ALLOCATOR s"
proof -
  let ?va = "vaa_next (sv_km s) * BASIC_PAGE_SIZE"
  from allocate_one_page [OF assms flags_rw] obtain k' pa U' where
    a: "allocate_pages hhdm pml (sv_km s) 1 (set_read_write flags_new True) Size4KB = Some (Ok ?va, k')" "?va \<notin> dom P"
    "km_ok L M hhdm pml lim k' (P(?va \<mapsto> pa)) U'" "vaa_next k' = vaa_next (sv_km s) + 1" "card U \<le> card U' + 4 * BASIC_PAGE_SIZE" by blast
  have tr: "manager_translate hhdm pml k' ?va = Some (Some pa)" by (rule km_translate [OF a(3)]) simp
  have "(+) pa ` set [0..<BASIC_PAGE_SIZE] = page pa" by (simp add: page_def add.commute)
  then have mem: "memset_mapped hhdm pml k' ?va 0 [0..<BASIC_PAGE_SIZE] (sv_mem s) = Some (\<lambda>p. if p \<in> page pa then 0 else sv_mem s p)"
    using memset_mapped_page [OF tr, of "[0..<BASIC_PAGE_SIZE]" 0 "sv_mem s"] by (simp add: lessThan_atLeast0)
  have "init_host_state hhdm pml s = Some (s \<lparr> sv_km := k', sv_mem := \<lambda>p. if p \<in> page pa then 0 else sv_mem s p,
      sv_cpu := (sv_cpu s) \<lparr> r_msr := (r_msr (sv_cpu s))(amd_msr_address VmHsavePa := of_nat pa) \<rparr> \<rparr>)"
    by (simp add: init_host_state_def a(1) [unfolded One_nat_def] mem tr Let_def wrmsr_def msr_halves)
  then show ?thesis using a(2-5) by (intro exI conjI) (assumption | simp)+
qed

definition svm_available :: "cpuid \<Rightarrow> Cpu \<Rightarrow> bool" where
  "svm_available cpuid c \<longleftrightarrow> bit (cpuid_ecx (cpuid 0x80000001 0)) 2 \<and> \<not> bit (r_msr c (amd_msr_address VmCr)) 4"

definition nasid :: "cpuid \<Rightarrow> nat" where
  "nasid cpuid = unat (cpuid_ebx (cpuid 0x8000000a 0))"

lemma svm_enable_eq:
  "svm_enable cpuid s = (if svm_available cpuid (sv_cpu s)
     then Some (s \<lparr> sv_cpu := (sv_cpu s) \<lparr> r_msr := (r_msr (sv_cpu s))(amd_msr_address Efer := r_msr (sv_cpu s) (amd_msr_address Efer) OR EFER_SVM) \<rparr> \<rparr>)
     else None)"
proof -
  have "cpuid_ecx (cpuid 0x80000001 0) AND SVM_SUPPORT_ECX_BIT \<noteq> 0 \<longleftrightarrow> bit (cpuid_ecx (cpuid 0x80000001 0)) 2"
    unfolding SVM_SUPPORT_ECX_BIT_def by (rule and_push_bit_1)
  moreover have "msr_low (rdmsr (amd_msr_address VmCr) (sv_cpu s)) AND SVM_DISABLE \<noteq> 0 \<longleftrightarrow> bit (r_msr (sv_cpu s) (amd_msr_address VmCr)) 4"
    unfolding SVM_DISABLE_def and_push_bit_1 by (simp add: rdmsr_def msr_of_u64_def bit_simps)
  ultimately show ?thesis
    by (simp add: svm_available_def svm_enable_def check_support_def check_firmware_disabled_def ensure_def Let_def wrmsr_def rdmsr_def)
qed

text \<open>C24: Starting SVM operation.  On a processor that supports SVM and whose firmware does not disable it, with at least one address
  space identifier and with an address and four frames left, \<open>Svm::start\<close> returns: the SVM bit of EFER is set and its other bits
  are as before; the register that holds the host save area has the address of a frame that is mapped read-write at a new address,
  belongs to no other page and is zero in all its bytes; no other register, model-specific register or byte of memory has
  changed; and the identifiers from 1 up to the number the processor reports can be allocated, none of them taken.  In all
  other cases it panics.\<close>
theorem svm_start_correct:
  assumes "km_ok L M hhdm pml lim (sv_km s) P U" and "vaa_next (sv_km s) + 1 \<le> lim" and "4 * BASIC_PAGE_SIZE \<le> card U"
  shows "if svm_available cpuid (sv_cpu s) \<and> nasid cpuid \<noteq> 0
    then \<exists>s' va pa U'. svm_start hhdm pml cpuid s = Some s'
      \<and> sv_cpu s' = (sv_cpu s) \<lparr> r_msr := (r_msr (sv_cpu s))(amd_msr_address Efer := r_msr (sv_cpu s) (amd_msr_address Efer) OR EFER_SVM, amd_msr_address VmHsavePa := of_nat pa) \<rparr>
      \<and> va \<notin> dom P \<and> km_ok L M hhdm pml lim (sv_km s') (P(va \<mapsto> pa)) U'
      \<and> sv_mem s' = (\<lambda>p. if p \<in> page pa then 0 else sv_mem s p)
      \<and> tracker_wf (ASID_ALLOCATOR s') \<and> tracker_pool (ASID_ALLOCATOR s') = {Id 1..Id (nasid cpuid)} \<and> tracker_taken (ASID_ALLOCATOR s') = {}
    else svm_start hhdm pml cpuid s = None"
proof (cases "svm_available cpuid (sv_cpu s) \<and> nasid cpuid \<noteq> 0")
  case False
  then show ?thesis
    by (auto simp: svm_start_def svm_enable_eq init_asid_allocator_def nasid_def id_tracker_new_def usub_def)
next
  case True
  define c where "c = sv_cpu s"
  define s1 where "s1 = s \<lparr> sv_cpu := c \<lparr> r_msr := (r_msr c)(amd_msr_address Efer := r_msr c (amd_msr_address Efer) OR EFER_SVM) \<rparr> \<rparr>"
  have e: "svm_enable cpuid s = Some s1" using True by (simp add: svm_enable_eq s1_def c_def)
  have "nasid cpuid < USIZE_LIM - 1" using unsigned_less [of "cpuid_ebx (cpuid 0x8000000a 0)", where ?'a = nat] by (simp add: nasid_def USIZE_LIM_def)
  then have "\<exists>t. id_tracker_new (Id 1) (Id (nasid cpuid)) = Some t \<and> tracker_wf t \<and> tracker_pool t = {Id 1..Id (nasid cpuid)} \<and> tracker_taken t = {}"
    by (intro id_tracker_new_spec) (use True in \<open>simp_all add: USIZE_LIM_def\<close>)
  then obtain t where t: "id_tracker_new (Id 1) (Id (nasid cpuid)) = Some t" "tracker_wf t" "tracker_pool t = {Id 1..Id (nasid cpuid)}" "tracker_taken t = {}" by blast
  define s2 where "s2 = s1 \<lparr> ASID_ALLOCATOR := t \<rparr>"
  have i: "init_asid_allocator cpuid s1 = Some s2" using t(1) by (simp add: init_asid_allocator_def nasid_def s2_def Let_def)
  have s2: "sv_km s2 = sv_km s" "sv_mem s2 = sv_mem s" "sv_cpu s2 = sv_cpu s1" "ASID_ALLOCATOR s2 = t" by (simp_all add: s2_def s1_def)
  from init_host_state_ok [of L M hhdm pml lim s2 P U, unfolded s2, OF assms(1-3)] obtain s' va pa U' where
    h: "init_host_state hhdm pml s2 = Some s'" "va \<notin> dom P" "km_ok L M hhdm pml lim (sv_km s') (P(va \<mapsto> pa)) U'"
    "sv_mem s' = (\<lambda>p. if p \<in> page pa then 0 else sv_mem s p)"
    "sv_cpu s' = (sv_cpu s1) \<lparr> r_msr := (r_msr (sv_cpu s1))(amd_msr_address VmHsavePa := of_nat pa) \<rparr>" "ASID_ALLOCATOR s' = t" by blast
  have "svm_start hhdm pml cpuid s = Some s'" using e i h(1) by (simp add: svm_start_def)
  moreover have "sv_cpu s' = c \<lparr> r_msr := (r_msr c)(amd_msr_address Efer := r_msr c (amd_msr_address Efer) OR EFER_SVM, amd_msr_address VmHsavePa := of_nat pa) \<rparr>"
    using h(5) by (simp add: s1_def c_def)
  ultimately show ?thesis unfolding if_P [OF True] c_def using h(2-4) t(2-4) [folded h(6)] by blast
qed

definition demo_cpuid :: cpuid where
  "demo_cpuid eax sub = (if eax = 0x80000001 then \<lparr> cpuid_eax = 0, cpuid_ebx = 0, cpuid_ecx = 4, cpuid_edx = 0 \<rparr>
     else \<lparr> cpuid_eax = 0, cpuid_ebx = 16, cpuid_ecx = 0, cpuid_edx = 0 \<rparr>)"

theorem svm_start_correct_witness:
  "\<exists>k a s'. svm_start 0x100000 0x108000 demo_cpuid \<lparr> sv_km = k, sv_mem = (\<lambda>_. 7), sv_cpu = demo_cpu, ASID_ALLOCATOR = id_tracker_uninit, VMCB_ALLOCATOR = a \<rparr> = Some s'
    \<and> r_msr (sv_cpu s') 0xC0000080 = 0x1000 \<and> tracker_pool (ASID_ALLOCATOR s') = {Id 1..Id 16}"
proof -
  obtain k where k: "km_ok 4 0x8000 0x100000 0x108000 32 k Map.empty {..<0x8000}" "vaa_next k = 16" using km_demo by blast
  let ?s = "\<lparr> sv_km = k, sv_mem = (\<lambda>_. 7), sv_cpu = demo_cpu, ASID_ALLOCATOR = id_tracker_uninit, VMCB_ALLOCATOR = example_slab_allocator \<rparr>"
  have side: "km_ok 4 0x8000 0x100000 0x108000 32 (sv_km ?s) Map.empty {..<0x8000}" "vaa_next (sv_km ?s) + 1 \<le> 32" "4 * BASIC_PAGE_SIZE \<le> card {..<0x8000 :: nat}"
    using k by (simp_all add: BASIC_PAGE_SIZE_def)
  have n: "svm_available demo_cpuid (sv_cpu ?s)" "nasid demo_cpuid = 16"
    by (simp_all add: svm_available_def nasid_def demo_cpuid_def demo_cpu_def)
  from svm_start_correct [OF side, of demo_cpuid] n obtain s' pa where
    "svm_start 0x100000 0x108000 demo_cpuid ?s = Some s'" "tracker_pool (ASID_ALLOCATOR s') = {Id 1..Id 16}"
    "sv_cpu s' = demo_cpu \<lparr> r_msr := (r_msr demo_cpu)(amd_msr_address Efer := r_msr demo_cpu (amd_msr_address Efer) OR EFER_SVM, amd_msr_address VmHsavePa := of_nat pa) \<rparr>"
    by auto
  then show ?thesis by (intro exI [of _ k] exI [of _ example_slab_allocator] exI [of _ s']) (simp add: demo_cpu_def EFER_SVM_def)
qed

subsection \<open>The guest's state: lemmas\<close>

lemma guest_intercept_fields:
  "field_at Intercepts_layout ''vmrun'' 0 = Some (0x80, 1)" "field_at Intercepts_layout ''cpuid'' 0 = Some (0x72, 1)"
  "field_at Intercepts_layout ''hlt'' 0 = Some (0x78, 1)" "field_at Intercepts_layout ''exceptions'' 0 = Some (0x40, 32)"
  using intercept_names_at [of Vmrun "''vmrun''"] intercept_names_at [of Cpuid "''cpuid''"] intercept_names_at [of Hlt "''hlt''"] intercept_families_at
  by (simp_all add: intercept_names_def)

lemma bit_all_exceptions: "bit (ucast ALL_EXCEPTIONS :: Intercepts) i \<longleftrightarrow> i < 32"
proof -
  have all: "ALL_EXCEPTIONS = mask 32" by (simp add: ALL_EXCEPTIONS_def mask_eq_exp_minus_1)
  show ?thesis unfolding all by (auto simp: bit_simps)
qed

lemma init_intercepts_ok:
  obtains w' where "init_intercepts w = Some w'"
    and "\<And>i. i < 192 \<Longrightarrow> bit w' i \<longleftrightarrow> 0x40 \<le> i \<and> i < 0x60 \<or> i = 0x72 \<or> i = 0x78 \<or> i = 0x80 \<or> bit w i"
proof -
  note f = guest_intercept_fields
  have one: "take_bit 1 (1 :: Intercepts) = 1" by simp
  have ex: "take_bit 32 (ucast ALL_EXCEPTIONS :: Intercepts) = ucast ALL_EXCEPTIONS" by (rule ucast_fits) simp
  obtain w1 where w1: "bf_set Intercepts_layout ''vmrun'' 1 w = Some w1" by (rule bf_set_fits [OF f(1) one])
  obtain w2 where w2: "bf_set Intercepts_layout ''cpuid'' 1 w1 = Some w2" by (rule bf_set_fits [OF f(2) one])
  obtain w3 where w3: "bf_set Intercepts_layout ''hlt'' 1 w2 = Some w3" by (rule bf_set_fits [OF f(3) one])
  obtain w4 where w4: "bf_set Intercepts_layout ''exceptions'' (ucast ALL_EXCEPTIONS) w3 = Some w4" by (rule bf_set_fits [OF f(4) ex])
  have "bit w4 i \<longleftrightarrow> 0x40 \<le> i \<and> i < 0x60 \<or> i = 0x72 \<or> i = 0x78 \<or> i = 0x80 \<or> bit w i" if "i < 192" for i
    using that by (auto simp: bit_bf_set [OF w4 f(4)] bit_bf_set [OF w3 f(3)] bit_bf_set [OF w2 f(2)] bit_bf_set [OF w1 f(1)] bit_all_exceptions bit_1_iff)
  with w1 w2 w3 w4 show ?thesis by (intro that [of w4]) (simp_all add: init_intercepts_def)
qed

lemma control_register_fields:
  "field_at Cr0_layout ''pe'' 0 = Some (0, 1)" "field_at Cr0_layout ''wp'' 0 = Some (16, 1)" "field_at Cr0_layout ''nw'' 0 = Some (29, 1)"
  "field_at Cr0_layout ''cd'' 0 = Some (30, 1)" "field_at Cr0_layout ''pg'' 0 = Some (31, 1)" "field_at Cr0_layout ''reserved_mbz_3'' 0 = Some (32, 32)"
  "field_at Cr3_layout ''reserved_mbz_0'' 0 = Some (0, 3)" "field_at Cr3_layout ''reserved_mbz_1'' 0 = Some (5, 7)"
  "field_at Cr4_layout ''reserved_mbz_0'' 0 = Some (15, 1)" "field_at Cr4_layout ''reserved_mbz_1'' 0 = Some (19, 1)"
  "field_at Cr4_layout ''reserved_mbz_2'' 0 = Some (25, 39)" "field_at Cr4_layout ''cet'' 0 = Some (23, 1)"
  "field_at AmdDr6_layout ''reserved_mbz_1'' 0 = Some (32, 32)" "field_at AmdDr7_layout ''reserved_mbz_1'' 0 = Some (14, 2)"
  "field_at Rflags_layout ''rf'' 0 = Some (16, 1)"
  by (simp_all add: Cr0_layout_def Cr3_layout_def Cr4_layout_def AmdDr6_layout_def AmdDr7_layout_def Rflags_layout_def)

text \<open>The registers of the host that the guest takes over and the check looks at: the SVM bit and no undefined bit in EFER, no
  reserved bit in CR3 and CR4, no control-flow enforcement, the upper half of DR6 and bits 14 and 15 of DR7 clear.\<close>

definition host_registers_ok :: "Cpu \<Rightarrow> bool" where
  "host_registers_ok c \<longleftrightarrow> bit (r_msr c (amd_msr_address Efer)) 12 \<and> r_msr c (amd_msr_address Efer) AND NOT EFER_ALL = 0
     \<and> (\<forall>i \<in> {0..<3} \<union> {5..<12}. \<not> bit (r_cr3 c) i) \<and> (\<forall>i \<in> {15, 19, 23} \<union> {25..<64}. \<not> bit (r_cr4 c) i)
     \<and> (\<forall>i \<in> {32..<64}. \<not> bit (r_dr6 c) i) \<and> \<not> bit (r_dr7 c) 14 \<and> \<not> bit (r_dr7 c) 15"

lemma reserved_fields:
  "bf_get Cr3_layout ''reserved_mbz_0'' w = 0 \<longleftrightarrow> (\<forall>i \<in> {0..<3}. \<not> bit w i)" "bf_get Cr3_layout ''reserved_mbz_1'' w = 0 \<longleftrightarrow> (\<forall>i \<in> {5..<12}. \<not> bit w i)"
  "bf_get Cr4_layout ''reserved_mbz_0'' w = 0 \<longleftrightarrow> \<not> bit w 15" "bf_get Cr4_layout ''reserved_mbz_1'' w = 0 \<longleftrightarrow> \<not> bit w 19"
  "bf_get Cr4_layout ''reserved_mbz_2'' w = 0 \<longleftrightarrow> (\<forall>i \<in> {25..<64}. \<not> bit w i)" "bf_get Cr4_layout ''cet'' w = 0 \<longleftrightarrow> \<not> bit w 23"
  "bf_get AmdDr6_layout ''reserved_mbz_1'' w = 0 \<longleftrightarrow> (\<forall>i \<in> {32..<64}. \<not> bit w i)"
  "bf_get AmdDr7_layout ''reserved_mbz_1'' w = 0 \<longleftrightarrow> \<not> bit w 14 \<and> \<not> bit w 15"
  for w :: u64
proof -
  have two: "(\<forall>i \<in> {k..<k + 2}. \<not> bit w i) \<longleftrightarrow> \<not> bit w k \<and> \<not> bit w (k + 1)" for k
    by (auto simp: numeral_2_eq_2 less_Suc_eq)
  note z = bf_get_zero_iff [OF control_register_fields(7)] bf_get_zero_iff [OF control_register_fields(8)] bf_get_zero_iff [OF control_register_fields(11)]
    bf_get_zero_iff [OF control_register_fields(13)] bf_get_zero_iff [OF control_register_fields(14)]
  show "bf_get Cr3_layout ''reserved_mbz_0'' w = 0 \<longleftrightarrow> (\<forall>i \<in> {0..<3}. \<not> bit w i)" "bf_get Cr3_layout ''reserved_mbz_1'' w = 0 \<longleftrightarrow> (\<forall>i \<in> {5..<12}. \<not> bit w i)"
    "bf_get Cr4_layout ''reserved_mbz_2'' w = 0 \<longleftrightarrow> (\<forall>i \<in> {25..<64}. \<not> bit w i)"
    "bf_get AmdDr6_layout ''reserved_mbz_1'' w = 0 \<longleftrightarrow> (\<forall>i \<in> {32..<64}. \<not> bit w i)" unfolding z by simp_all
  show "bf_get Cr4_layout ''reserved_mbz_0'' w = 0 \<longleftrightarrow> \<not> bit w 15" "bf_get Cr4_layout ''reserved_mbz_1'' w = 0 \<longleftrightarrow> \<not> bit w 19"
    "bf_get Cr4_layout ''cet'' w = 0 \<longleftrightarrow> \<not> bit w 23"
    by (rule bf_get_flag_iff; rule control_register_fields)+
  show "bf_get AmdDr7_layout ''reserved_mbz_1'' w = 0 \<longleftrightarrow> \<not> bit w 14 \<and> \<not> bit w 15" unfolding z two by simp
qed

text \<open>The values of CR0 and RFLAGS the guest starts with: caching disabled, and the resume flag.\<close>

lemma guest_cr0: "bf_set Cr0_layout ''cd'' 1 0 = Some (0x40000000 :: u64)" "bf_set Cr0_layout ''nw'' 1 0x40000000 = Some (0x60000000 :: u64)"
  by (simp_all add: bf_set_def control_register_fields)

lemma guest_rflags: "bf_set Rflags_layout ''rf'' 1 0 = Some (0x10000 :: u64)"
  by (simp add: bf_set_def control_register_fields)

lemma guest_cr0_fields:
  "bf_get Cr0_layout ''cd'' (0x60000000 :: u64) \<noteq> 0" "bf_get Cr0_layout ''reserved_mbz_3'' (0x60000000 :: u64) = 0"
  "bf_get Cr0_layout ''pg'' (0x60000000 :: u64) = 0" "bf_get Cr0_layout ''wp'' (0x60000000 :: u64) = 0"
  by (simp_all add: bf_get_def control_register_fields)

lemma sanity_check_guest:
  assumes "ss_cr0 (state_save v) = 0x60000000" and "ss_cr3 (state_save v) = r_cr3 c" and "ss_cr4 (state_save v) = r_cr4 c"
    and "ss_dr6 (state_save v) = r_dr6 c" and "ss_dr7 (state_save v) = r_dr7 c" and "ss_efer (state_save v) = r_msr c (amd_msr_address Efer)"
    and "bf_get Intercepts_layout ''vmrun'' (ca_intercepts (control v)) \<noteq> 0" and "ca_guest_asid (control v) \<noteq> 0"
  shows "sanity_check_guest_state v = (if host_registers_ok c then Some () else None)"
proof -
  have svm: "r_msr c (amd_msr_address Efer) AND EFER_SVM \<noteq> 0 \<longleftrightarrow> bit (r_msr c (amd_msr_address Efer)) 12"
    unfolding EFER_SVM_def by (rule and_push_bit_1)
  show ?thesis
    unfolding sanity_check_guest_state_def Let_def assms(1-6) ensure_def
    using assms(7,8) svm by (simp add: guest_cr0_fields reserved_fields host_registers_ok_def ball_Un)
qed

text \<open>The segment registers of the guest: the selector of the host, with the attributes, limit and base of
  the null descriptor \<open>g ! 0\<close>.  A full selector is meant to hold the cached information of the descriptor
  that the selector names (\<open>gdt.rs:11\<close>), but the index of the selector is shifted twice (\<open>gdt.rs:322\<close>),
  so that every selector of the six-entry table reads entry 0 (\<open>full_selector_wrong_segment\<close>).\<close>

definition guest_segment :: "Gdt \<Rightarrow> SegmentSelector \<Rightarrow> FullSegmentSelector" where
  "guest_segment g sel = \<lparr> fs_selector = sel, fs_attributes = ucast (bf_get SegmentDescriptor_layout ''access'' (g ! 0)),
     fs_limit = get_limit (g ! 0), fs_base = ucast (get_base (g ! 0)) \<rparr>"

definition guest_state :: "Gdt \<Rightarrow> Cpu \<Rightarrow> usize \<Rightarrow> StateSaveArea \<Rightarrow> StateSaveArea" where
  "guest_state g c rip st = st \<lparr> ss_cs := guest_segment g (r_cs c), ss_rip := rip, ss_rflags := 0x10000, ss_rax := 0, ss_ss := guest_segment g (r_ss c),
     ss_rsp := of_nat (r_rsp c), ss_cr0 := 0x60000000, ss_cr3 := r_cr3 c, ss_cr4 := r_cr4 c, ss_efer := r_msr c (amd_msr_address Efer),
     ss_idtr := full_selector_of_table (r_idtr c), ss_gdtr := full_selector_of_table (r_gdtr c), ss_es := guest_segment g (r_es c),
     ss_ds := guest_segment g (r_ds c), ss_dr6 := r_dr6 c, ss_dr7 := r_dr7 c, ss_cpl := 0 \<rparr>"

definition segments_ok :: "(u64 \<Rightarrow> Gdt) \<Rightarrow> Cpu \<Rightarrow> bool" where
  "segments_ok gdt_at c \<longleftrightarrow> dt_base (r_gdtr c) \<noteq> 0 \<and> length (gdt_at (dt_base (r_gdtr c))) = 6
     \<and> list_all (\<lambda>sel. unat sel div 8 < 6) [r_cs c, r_ss c, r_es c, r_ds c]"

lemma read_guest_segment:
  assumes "length g = 6" and "unat sel div 8 < 6"
  shows "read_full_selector g sel = Some (guest_segment g sel)"
proof -
  have "unat sel div 64 = 0" using assms(2) by simp
  then have "gdt_index g sel = Some (g ! 0)" using assms(1) by (simp add: gdt_index_eq)
  then show ?thesis by (simp add: read_full_selector_def guest_segment_def)
qed

lemma init_state_save_ok:
  assumes "segments_ok gdt_at c"
  shows "init_state_save gdt_at c rip st = Some (guest_state (gdt_at (dt_base (r_gdtr c))) c rip st)"
proof -
  from assms have b: "dt_base (r_gdtr c) \<noteq> 0" and l: "length (gdt_at (dt_base (r_gdtr c))) = 6"
    and sel: "unat (r_cs c) div 8 < 6" "unat (r_ss c) div 8 < 6" "unat (r_es c) div 8 < 6" "unat (r_ds c) div 8 < 6"
    by (simp_all add: segments_ok_def)
  note r = read_guest_segment [OF l sel(1)] read_guest_segment [OF l sel(2)] read_guest_segment [OF l sel(3)] read_guest_segment [OF l sel(4)]
  show ?thesis
    unfolding init_state_save_def guest_state_def read_gdtr_def read_idtr_def Cs_read_def Ss_read_def Es_read_def Ds_read_def Cr3_read_def Cr4_read_def
      AmdDr6_read_def AmdDr7_read_def read_rsp_def rdmsr_def Let_def
    by (simp add: b r guest_cr0 guest_rflags)
qed

text \<open>The exits a new guest is set up for: the three instructions and every exception.\<close>

lemma guest_intercepts:
  fixes w :: Intercepts
  assumes "\<And>i. i < 192 \<Longrightarrow> bit w i \<longleftrightarrow> 0x40 \<le> i \<and> i < 0x60 \<or> i = 0x72 \<or> i = 0x78 \<or> i = 0x80"
  shows "intercepted w e \<longleftrightarrow> e \<in> {Cpuid, Hlt, Vmrun} \<union> range Exception"
proof (cases "intercept_field e")
  case None
  have "intercept_field Cpuid \<noteq> None" "intercept_field Hlt \<noteq> None" "intercept_field Vmrun \<noteq> None" "intercept_field (Exception m) \<noteq> None" for m
    by (simp_all add: intercept_field_def map_of_eq_None_iff) (simp_all add: intercept_names_def)
  with None have "e \<notin> {Cpuid, Hlt, Vmrun} \<union> range Exception" by blast
  then show ?thesis unfolding intercepted_def None by simp
next
  case (Some fi)
  then obtain f i where f: "intercept_field e = Some (f, i)" by (cases fi) simp
  from intercept_field_code [OF f] obtain k n where k: "field_at Intercepts_layout f 0 = Some (k, n)" "i < n" "intercept_code_value e = int (k + i)" .
  have lt: "k + i < 192" using field_at_bounds [OF k(1)] k(2) intercepts_layout_wf by (simp add: layout_wf_def)
  have "intercept_field e \<noteq> None" unfolding f by simp
  from intercepted_bit [OF this, of w] have "intercepted w e \<longleftrightarrow> bit w (k + i)" unfolding k(3) nat_int .
  also have "\<dots> \<longleftrightarrow> 0x40 \<le> intercept_code_value e \<and> intercept_code_value e < 0x60 \<or> intercept_code_value e \<in> {0x72, 0x78, 0x80}"
    unfolding assms [OF lt] k(3) by auto
  also have "\<dots> \<longleftrightarrow> e \<in> {Cpuid, Hlt, Vmrun} \<union> range Exception"
  proof (cases "\<exists>n. e \<in> {CrRead n, CrWrite n, DrRead n, DrWrite n, CrWriteTrap n}")
    case True
    then obtain n where n: "e \<in> {CrRead n, CrWrite n, DrRead n, DrWrite n, CrWriteTrap n}" by blast
    obtain m where m: "uint n = int m" "m < 16" using uint_nat [of n] family_bound(1) [of n] by blast
    from n show ?thesis using m(2) by (auto simp: m(1))
  next
    case False
    have "0x40 \<le> 0x40 + uint m \<and> 0x40 + uint m < 0x60" for m :: "5 word" using uint_nat [of m] family_bound(2) [of m] by linarith
    with False show ?thesis by (cases e; simp add: image_iff)
  qed
  finally show ?thesis .
qed

text \<open>C25: A new guest.  On a processor whose segment registers select entries of its six-entry descriptor table, and with an address space
  identifier left, the control block of a new guest is completed exactly when the host's EFER, CR3, CR4, DR6 and DR7 pass the
  checks; otherwise the code panics.  The guest starts at the given address, on the host's stack and page table, in ring 0 with
  caching and paging disabled.  Its segment registers CS, SS, DS and ES hold the host's selectors, but the attributes,
  limit and base of the null descriptor, entry 0 of the table, and not those of the descriptors that are selected (\<open>guest_segment\<close>): the
  descriptor index is shifted twice in \<open>gdt.rs:322\<close>, a fault of the code.  The guest has the least identifier that was free, which is not 0 and is taken afterwards; and the
  processor exits exactly for CPUID, HLT, VMRUN and the exceptions.  All other fields are zero.\<close>
theorem init_guest_state_correct:
  assumes "segments_ok gdt_at c" and "tracker_wf t" and "tracker_pool t \<subseteq> {Id 1..Id (2 ^ 32 - 1)}" and "\<not> tracker_pool t \<subseteq> tracker_taken t"
  shows "if host_registers_ok c
    then \<exists>v t' asid w. init_guest_state gdt_at c rip vmcb_uninit t = Some (v, t')
      \<and> state_save v = guest_state (gdt_at (dt_base (r_gdtr c))) c rip state_save_zeroed
      \<and> control v = control_zeroed \<lparr> ca_intercepts := w, ca_guest_asid := of_nat asid \<rparr> \<and> 0 < asid \<and> asid < 2 ^ 32
      \<and> (\<forall>e. intercepted w e \<longleftrightarrow> e \<in> {Cpuid, Hlt, Vmrun} \<union> range Exception)
      \<and> tracker_wf t' \<and> tracker_pool t' = tracker_pool t \<and> spec_allocate (tracker_pool t) (tracker_taken t) (Ok (Id asid)) (tracker_taken t')
    else init_guest_state gdt_at c rip vmcb_uninit t = None"
proof -
  let ?st = "guest_state (gdt_at (dt_base (r_gdtr c))) c rip state_save_zeroed"
  from id_tracker_allocate_spec [OF assms(2)] obtain r t' where
    t': "id_tracker_allocate t = Some (r, t')" "tracker_wf t'" "tracker_pool t' = tracker_pool t" "spec_allocate (tracker_pool t) (tracker_taken t) r (tracker_taken t')"
    by blast
  from t'(4) assms(4) obtain n where r: "r = Ok (Id n)" "Id n \<in> tracker_pool t" unfolding spec_allocate_def by (metis Diff_iff Id.exhaust)
  with assms(3) have n: "0 < n" "n < 2 ^ 32" by (auto simp: Id_order subset_iff)
  have n0: "(of_nat n :: u32) \<noteq> 0" using n by (simp add: word_of_nat_eq_0_iff nat_dvd_not_less)
  obtain w where w: "init_intercepts 0 = Some w" "\<And>i. i < 192 \<Longrightarrow> bit w i \<longleftrightarrow> 0x40 \<le> i \<and> i < 0x60 \<or> i = 0x72 \<or> i = 0x78 \<or> i = 0x80"
    by (rule init_intercepts_ok [of 0]) (rule that, simp_all)
  define v where "v = \<lparr> control = control_zeroed \<lparr> ca_intercepts := w, ca_guest_asid := of_nat n \<rparr>, state_save = ?st \<rparr>"
  have "bit (bf_get Intercepts_layout ''vmrun'' w) 0" using w(2) [of "0x80"] by (simp add: bit_bf_get [OF guest_intercept_fields(1)])
  then have "bf_get Intercepts_layout ''vmrun'' w \<noteq> 0" by fastforce
  then have chk: "sanity_check_guest_state v = (if host_registers_ok c then Some () else None)"
    by (intro sanity_check_guest) (simp_all add: v_def guest_state_def n0)
  have "init_guest_state gdt_at c rip vmcb_uninit t = (if host_registers_ok c then Some (v, t') else None)"
    by (simp add: init_guest_state_def init_state_save_ok [OF assms(1)] vmcb_uninit_def control_zeroed_def w(1) t'(1) r(1) Let_def)
       (use chk in \<open>simp add: v_def control_zeroed_def\<close>)
  moreover have "intercepted w e \<longleftrightarrow> e \<in> {Cpuid, Hlt, Vmrun} \<union> range Exception" for e by (rule guest_intercepts) (rule w(2))
  moreover have "state_save v = ?st" "control v = control_zeroed \<lparr> ca_intercepts := w, ca_guest_asid := of_nat n \<rparr>" by (simp_all add: v_def)
  ultimately show ?thesis using n t'(2,3) t'(4) [unfolded r(1)] by (cases "host_registers_ok c") (simp_all only: if_True if_False, blast)
qed

definition demo_host :: Cpu where
  "demo_host = demo_cpu \<lparr> r_gdtr := \<lparr> dt_limit = 47, dt_base = 0x9000 \<rparr>, r_msr := (\<lambda>_. 0)(0xC0000080 := 0x1500) \<rparr>"

theorem init_guest_state_correct_witness:
  "\<exists>t v t'. id_tracker_new (Id 1) (Id 16) = Some t \<and> init_guest_state (\<lambda>_. [0, 1, 2, 3, 4, 5]) demo_host 0x40000 vmcb_uninit t = Some (v, t')
     \<and> ss_rip (state_save v) = 0x40000"
proof -
  obtain t where t: "id_tracker_new (Id 1) (Id 16) = Some t" "tracker_wf t" "tracker_pool t = {Id 1..Id 16}" "tracker_taken t = {}"
    using id_tracker_new_spec [of "Id 1" "Id 16"] by (auto simp: USIZE_LIM_def)
  have s: "segments_ok (\<lambda>_. [0, 1, 2, 3, 4, 5]) demo_host" by (simp add: segments_ok_def demo_host_def demo_cpu_def)
  have h: "host_registers_ok demo_host"
    by (simp add: host_registers_ok_def demo_host_def demo_cpu_def EFER_ALL_def EFER_SCE_def EFER_LME_def EFER_LMA_def EFER_NX_def EFER_SVM_def
        EFER_LMSLE_def EFER_FFXSR_def EFER_TCE_def EFER_MCOMMIT_def EFER_INTWB_def EFER_UAIE_def EFER_AIBRSE_def)
  have "tracker_pool t \<subseteq> {Id 1..Id (2 ^ 32 - 1)}" "\<not> tracker_pool t \<subseteq> tracker_taken t" using t(3,4) by (auto simp: Id_order)
  from init_guest_state_correct [OF s t(2) this, of "0x40000"] h obtain v t' where
    "init_guest_state (\<lambda>_. [0, 1, 2, 3, 4, 5]) demo_host 0x40000 vmcb_uninit t = Some (v, t')"
    "state_save v = guest_state [0, 1, 2, 3, 4, 5] demo_host 0x40000 state_save_zeroed" by auto
  with t(1) show ?thesis by (auto simp: guest_state_def)
qed

subsection \<open>Allocating a control block, and handling an exit: lemmas\<close>

lemma vmcb_new_none:
  assumes "allocator_ok (VMCB_ALLOCATOR s)" and "sa_layout (VMCB_ALLOCATOR s) = vmcb_layout"
    and "km_ok L M hhdm pml lim (sv_km s) P U" and "sa_pages (VMCB_ALLOCATOR s) \<subseteq> dom P"
    and "vaa_next (sv_km s) + 1 \<le> lim" and "4 * BASIC_PAGE_SIZE \<le> card U"
  shows "vmcb_new hhdm pml gdt_at rip s = None"
proof -
  let ?ap = "slab_allocate_pages hhdm pml"
  have "kernel_source_ok L M hhdm pml lim (sv_km s) (dom P) (Suc 0)" using assms(3,5,6) by (auto simp: kernel_source_ok_def)
  from kernel_pages.deliver [OF this] obtain b k' where b: "?ap (sv_km s) 1 = Some (Ok b, k')" "page_ok b" "b \<notin> dom P" by blast
  have "4040 < ly_size (sa_layout (VMCB_ALLOCATOR s))"
    by (simp add: assms(2) vmcb_layout_def vmcb_size_def VMCB_ALIGN_def div_ceil_def size_of_def ControlArea_layout_def StateSaveArea_layout_def)
  then have large: "sa_object_count (VMCB_ALLOCATOR s) = 0"
    using object_count_bound(3) [of "sa_layout (VMCB_ALLOCATOR s)" "sa_object_count (VMCB_ALLOCATOR s)"] assms(1)
    by (simp add: allocator_ok_def)
  have "b \<notin> sa_pages (VMCB_ALLOCATOR s)" using b(3) assms(4) by blast
  from slab_alloc_no_room [where ap = ?ap and m = "sv_km s", OF assms(1) large b(1,2) this]
  obtain a' where "slab_alloc ?ap (VMCB_ALLOCATOR s) (sv_km s) = Some (Err SlabFullInternalError, a', k')" by blast
  then show ?thesis by (simp add: vmcb_new_def typed_slab_allocate_def)
qed

definition exit_handled :: "Vmcb \<Rightarrow> bool" where
  "exit_handled v \<longleftrightarrow> \<not> bit (ca_exitintinfo (control v)) 31 \<and> ca_exitcode (control v) \<in> {Cpuid, Hlt, Vmrun, Vmload, Vmsave}"

lemma handle_vmexit_eq: "handle_vmexit v = (if exit_handled v then Some v else None)"
proof -
  have f: "field_at ExitIntInfo_layout ''valid'' 0 = Some (31, 1)" by (simp add: ExitIntInfo_layout_def)
  have "bf_get ExitIntInfo_layout ''valid'' (ca_exitintinfo (control v)) = 0 \<longleftrightarrow> \<not> bit (ca_exitintinfo (control v)) 31"
    by (rule bf_get_flag_iff [OF f])
  then show ?thesis by (auto simp: handle_vmexit_def handle_intercept_during_int_def exit_handled_def Let_def)
qed

lemma vmcb_run_eq:
  assumes "manager_translate hhdm pml k ptr = Some (Some pa)" and "BASIC_PAGE_SIZE dvd pa"
  shows "vmcb_run hhdm pml hw k ptr v g = (let (v', g') = hw v g in if exit_handled v' then Some (v', g') else None)"
  using assms by (simp add: vmcb_run_def vmrun_def handle_vmexit_eq ensure_def Let_def split: prod.splits)

text \<open>An exception of the guest stops the hypervisor: all exceptions are intercepted and none is handled.\<close>

lemma exception_not_handled: "ca_exitcode (control v) = Exception n \<Longrightarrow> handle_vmexit v = None"
  by (simp add: handle_vmexit_eq exit_handled_def)

end
