(* ===== verification/Vessel.thy ===== *)
theory Vessel
  imports Svm Id_Alloc
begin

text \<open>
  Vessels, the guests of the hypervisor (\<open>hypervisor/src/lib.rs\<close>), and the scheduler that runs a single one
  (\<open>scheduler/src/constant.rs\<close>).  What the scheduler needs of a vessel, the trait \<open>Schedulable\<close>, is the
  locale \<open>schedulable\<close>.
\<close>

subsection \<open>The scheduler\<close>

record 'v Constant =
  scheduable :: "'v option"

definition constant_new_const :: "'v Constant" where
  "constant_new_const = \<lparr> scheduable = None \<rparr>"

definition constant_new :: "'v option \<Rightarrow> 'v Constant" where
  "constant_new params = \<lparr> scheduable = params \<rparr>"

definition constant_add :: "'v Constant \<Rightarrow> 'v \<Rightarrow> 'v Constant option" where
  "constant_add s vessel = do {
     _ \<leftarrow> ensure (scheduable s = None);
     Some (s \<lparr> scheduable := Some vessel \<rparr>) }"

definition constant_remove :: "'v Constant \<Rightarrow> ('v \<times> 'v Constant) option" where
  "constant_remove s = do {
     vessel \<leftarrow> scheduable s;
     Some (vessel, s \<lparr> scheduable := None \<rparr>) }"

text \<open>\<open>operation_loop\<close> never returns.  \<open>operation_loop n\<close> is the state before its round \<open>n\<close>, counted from 0, and \<open>None\<close>
  when the code panics before it gets there.\<close>

fun run_rounds :: "('v \<Rightarrow> 'g \<Rightarrow> ('v \<times> 'g) option) \<Rightarrow> nat \<Rightarrow> 'v \<Rightarrow> 'g \<Rightarrow> ('v \<times> 'g) option" where
  "run_rounds run 0 v g = Some (v, g)"
| "run_rounds run (Suc n) v g = do {
     (v, g) \<leftarrow> run v g;
     run_rounds run n v g }"

definition operation_loop :: "('v \<Rightarrow> 'g \<Rightarrow> ('v \<times> 'g) option) \<Rightarrow> nat \<Rightarrow> 'v Constant \<Rightarrow> 'g \<Rightarrow> ('v Constant \<times> 'g) option" where
  "operation_loop run n s g = (case scheduable s of
     Some vessel \<Rightarrow> do {
       (vessel, g) \<leftarrow> run_rounds run n vessel g;
       Some (s \<lparr> scheduable := Some vessel \<rparr>, g) }
   | None \<Rightarrow> None)"

subsection \<open>Vessels\<close>

text \<open>\<open>vs_control\<close> is a box: the address of the control block and its content.\<close>

record Vessel =
  vs_id :: Id
  vs_control :: "VirtAddr \<times> Vmcb"

definition VID_ALLOCATOR :: IdHander where
  "VID_ALLOCATOR = id_hander_new (Id 0xffffffff)"

definition vessel_new :: "usize \<Rightarrow> VirtAddr \<Rightarrow> (u64 \<Rightarrow> Gdt) \<Rightarrow> usize \<Rightarrow> IdHander \<Rightarrow> SvmSystem \<Rightarrow> (Vessel \<times> IdHander \<times> SvmSystem) option" where
  "vessel_new hhdm pml gdt_at rip vids s = do {
     (r, vids) \<leftarrow> id_hander_handout vids;
     ident \<leftarrow> r;
     (ctl, s) \<leftarrow> vmcb_new hhdm pml gdt_at rip s;
     Some (\<lparr> vs_id = ident, vs_control = ctl \<rparr>, vids, s) }"

definition vessel_id :: "Vessel \<Rightarrow> Id" where
  "vessel_id v = vs_id v"

definition vessel_run :: "usize \<Rightarrow> VirtAddr \<Rightarrow> (Vmcb \<Rightarrow> 'g \<Rightarrow> Vmcb \<times> 'g) \<Rightarrow> KernelMem \<Rightarrow> Vessel \<Rightarrow> 'g \<Rightarrow> (Vessel \<times> 'g) option" where
  "vessel_run hhdm pml hw k v g = do {
     (b, g) \<leftarrow> vmcb_run hhdm pml hw k (fst (vs_control v)) (snd (vs_control v)) g;
     Some (v \<lparr> vs_control := (fst (vs_control v), b) \<rparr>, g) }"

definition hypervisor_start :: "usize \<Rightarrow> VirtAddr \<Rightarrow> cpuid \<Rightarrow> SvmSystem \<Rightarrow> SvmSystem option" where
  "hypervisor_start hhdm pml cpuid s = svm_start hhdm pml cpuid s"

subsection \<open>What the scheduler needs of a vessel\<close>

text \<open>\<open>good v g\<close>: the vessel can be run, and can be run again afterwards.\<close>

locale schedulable =
  fixes run :: "'v \<Rightarrow> 'g \<Rightarrow> ('v \<times> 'g) option"
    and good :: "'v \<Rightarrow> 'g \<Rightarrow> bool"
  assumes run_good: "good v g \<Longrightarrow> \<exists>v' g'. run v g = Some (v', g') \<and> good v' g'"
begin

lemma rounds_good: "good v g \<Longrightarrow> \<exists>v' g'. run_rounds run n v g = Some (v', g') \<and> good v' g'"
proof (induction n arbitrary: v g)
  case (Suc n)
  from run_good [OF Suc.prems] obtain v' g' where r: "run v g = Some (v', g')" "good v' g'" by blast
  from Suc.IH [OF r(2)] show ?case by (simp add: r(1))
qed simp

lemma loop_good:
  assumes "scheduable s = Some v" and "good v g"
  shows "\<exists>s' g'. operation_loop run n s g = Some (s', g') \<and> scheduable s' \<noteq> None"
  using rounds_good [OF assms(2), of n] by (auto simp: operation_loop_def assms(1))

end

subsection \<open>Vessels are schedulable\<close>

text \<open>The states of control block and guest machine after \<open>n\<close> runs of the processor with nothing done in between.\<close>

definition hw_steps :: "(Vmcb \<Rightarrow> 'g \<Rightarrow> Vmcb \<times> 'g) \<Rightarrow> nat \<Rightarrow> Vmcb \<Rightarrow> 'g \<Rightarrow> Vmcb \<times> 'g" where
  "hw_steps hw n b g = ((\<lambda>(b, g). hw b g) ^^ n) (b, g)"

definition block_mapped :: "usize \<Rightarrow> VirtAddr \<Rightarrow> KernelMem \<Rightarrow> VirtAddr \<Rightarrow> bool" where
  "block_mapped hhdm pml k ptr \<longleftrightarrow> (\<exists>pa. manager_translate hhdm pml k ptr = Some (Some pa) \<and> BASIC_PAGE_SIZE dvd pa)"

definition serves :: "usize \<Rightarrow> VirtAddr \<Rightarrow> (Vmcb \<Rightarrow> 'g \<Rightarrow> Vmcb \<times> 'g) \<Rightarrow> KernelMem \<Rightarrow> Vessel \<Rightarrow> 'g \<Rightarrow> bool" where
  "serves hhdm pml hw k v g \<longleftrightarrow> block_mapped hhdm pml k (fst (vs_control v))
     \<and> (\<forall>n. exit_handled (fst (hw_steps hw (Suc n) (snd (vs_control v)) g)))"

lemma hw_steps_0 [simp]: "hw_steps hw 0 b g = (b, g)"
  by (simp add: hw_steps_def)

lemma hw_steps_Suc: "hw b g = (b', g') \<Longrightarrow> hw_steps hw (Suc n) b g = hw_steps hw n b' g'"
  by (simp add: hw_steps_def funpow_Suc_right del: funpow.simps)

lemma vessel_run_eq:
  assumes "block_mapped hhdm pml k (fst (vs_control v))"
  shows "vessel_run hhdm pml hw k v g = (let (b, g') = hw (snd (vs_control v)) g in
     if exit_handled b then Some (v \<lparr> vs_control := (fst (vs_control v), b) \<rparr>, g') else None)"
  using assms by (auto simp: block_mapped_def vessel_run_def vmcb_run_eq Let_def split: prod.splits)

interpretation vessels: schedulable "vessel_run hhdm pml hw k" "serves hhdm pml hw k" for hhdm pml hw k
proof unfold_locales
  fix v g
  assume a: "serves hhdm pml hw k v g"
  obtain b g' where h: "hw (snd (vs_control v)) g = (b, g')" by (cases "hw (snd (vs_control v)) g")
  note steps = hw_steps_Suc [of hw "snd (vs_control v)" g, OF h]
  from a have "exit_handled (fst (hw_steps hw (Suc 0) (snd (vs_control v)) g))" unfolding serves_def by blast
  then have "vessel_run hhdm pml hw k v g = Some (v \<lparr> vs_control := (fst (vs_control v), b) \<rparr>, g')"
    using a by (simp add: steps vessel_run_eq serves_def h)
  moreover have "serves hhdm pml hw k (v \<lparr> vs_control := (fst (vs_control v), b) \<rparr>) g'"
    using a by (simp add: serves_def steps)
  ultimately show "\<exists>v' g'. vessel_run hhdm pml hw k v g = Some (v', g') \<and> serves hhdm pml hw k v' g'" by blast
qed

lemma run_rounds_eq:
  assumes "block_mapped hhdm pml k (fst (vs_control v))"
  shows "run_rounds (vessel_run hhdm pml hw k) n v g =
     (if \<forall>i < n. exit_handled (fst (hw_steps hw (Suc i) (snd (vs_control v)) g))
      then Some (v \<lparr> vs_control := (fst (vs_control v), fst (hw_steps hw n (snd (vs_control v)) g)) \<rparr>, snd (hw_steps hw n (snd (vs_control v)) g))
      else None)"
  using assms
proof (induction n arbitrary: v g)
  case (Suc n)
  obtain b g' where h: "hw (snd (vs_control v)) g = (b, g')" by (cases "hw (snd (vs_control v)) g")
  note steps = hw_steps_Suc [of hw "snd (vs_control v)" g, OF h]
  let ?v = "v \<lparr> vs_control := (fst (vs_control v), b) \<rparr>"
  have "block_mapped hhdm pml k (fst (vs_control ?v))" using Suc.prems by simp
  note IH = Suc.IH [OF this, of g']
  have split: "(\<forall>i < Suc n. Q i) \<longleftrightarrow> Q 0 \<and> (\<forall>i < n. Q (Suc i))" for Q by (auto simp: less_Suc_eq_0_disj)
  show ?case
    unfolding run_rounds.simps vessel_run_eq [OF Suc.prems] split steps using IH by (simp add: h)
qed simp

subsection \<open>Properties\<close>

text \<open>C26: The operation loop runs the guest: the state before its round \<open>n\<close> is the one the processor produces by \<open>n\<close> runs of
  the control block with nothing changed in between, provided each of them ends with an exit that is handled (CPUID, HLT, VMRUN,
  VMLOAD or VMSAVE, and no interrupt in delivery); at the first other exit the code panics.  So the loop goes on for ever
  exactly when every exit is handled.  As the handler changes nothing, the guest resumes where the exit left it.\<close>
theorem operation_loop_correct:
  assumes "scheduable s = Some v" and "vs_control v = (ptr, b)" and "block_mapped hhdm pml k ptr"
  shows "operation_loop (vessel_run hhdm pml hw k) n s g =
      (if \<forall>i < n. exit_handled (fst (hw_steps hw (Suc i) b g))
       then Some (s \<lparr> scheduable := Some (v \<lparr> vs_control := (ptr, fst (hw_steps hw n b g)) \<rparr>) \<rparr>, snd (hw_steps hw n b g)) else None)
    \<and> ((\<forall>m. operation_loop (vessel_run hhdm pml hw k) m s g \<noteq> None) \<longleftrightarrow> (\<forall>i. exit_handled (fst (hw_steps hw (Suc i) b g))))"
proof -
  have "block_mapped hhdm pml k (fst (vs_control v))" using assms(2,3) by simp
  from run_rounds_eq [OF this, of hw _ g] have eq: "operation_loop (vessel_run hhdm pml hw k) m s g =
      (if \<forall>i < m. exit_handled (fst (hw_steps hw (Suc i) b g))
       then Some (s \<lparr> scheduable := Some (v \<lparr> vs_control := (ptr, fst (hw_steps hw m b g)) \<rparr>) \<rparr>, snd (hw_steps hw m b g)) else None)" for m
    by (simp add: operation_loop_def assms(1,2))
  have "exit_handled (fst (hw_steps hw (Suc i) b g))" if "\<forall>m. operation_loop (vessel_run hhdm pml hw k) m s g \<noteq> None" for i
    using that [rule_format, of "Suc i"] unfolding eq by (auto split: if_splits)
  moreover have "operation_loop (vessel_run hhdm pml hw k) m s g \<noteq> None" if "\<forall>i. exit_handled (fst (hw_steps hw (Suc i) b g))" for m
    using vessels.loop_good [OF assms(1), of hhdm pml hw k g m] that assms(2,3) by (auto simp: serves_def)
  ultimately show ?thesis using eq by blast
qed

theorem operation_loop_correct_witness:
  "\<exists>k v s'. block_mapped 0x100000 0x108000 k 0x10000 \<and> vs_control v = (0x10000, vmcb_uninit)
    \<and> operation_loop (vessel_run 0x100000 0x108000 (\<lambda>b g. (b \<lparr> control := (control b) \<lparr> ca_exitcode := Hlt \<rparr> \<rparr>, Suc g)) k) 1 (constant_new (Some v)) 0
      = Some (s', 1)"
proof -
  obtain k P U pa where k: "km_ok 4 0x8000 0x100000 0x108000 32 k P U" "P 0x10000 = Some pa" using km_demo_pages by blast
  have "mem_inv 4 0x8000 0x100000 0x108000 (km_paging k) P U {vaa_next k..<32}" using k(1) by (simp add: km_ok_def)
  from mem_invD(7) [OF this k(2)] km_translate [OF k] have m: "block_mapped 0x100000 0x108000 k 0x10000" by (auto simp: block_mapped_def)
  let ?v = "\<lparr> vs_id = Id 0, vs_control = (0x10000, vmcb_uninit) \<rparr>" and ?hw = "\<lambda>b g. (b \<lparr> control := (control b) \<lparr> ca_exitcode := Hlt \<rparr> \<rparr>, Suc g)"
  have h: "hw_steps ?hw (Suc 0) vmcb_uninit 0 = (vmcb_uninit \<lparr> control := control_zeroed \<lparr> ca_exitcode := Hlt \<rparr> \<rparr>, 1)"
    by (simp add: hw_steps_def vmcb_uninit_def)
  have e: "exit_handled (fst (hw_steps ?hw (Suc 0) vmcb_uninit 0))" unfolding h by (simp add: exit_handled_def control_zeroed_def)
  have "scheduable (constant_new (Some ?v)) = Some ?v" "vs_control ?v = (0x10000, vmcb_uninit)" by (simp_all add: constant_new_def)
  from operation_loop_correct [OF this m, of ?hw 1 0] e h obtain s' where
    "operation_loop (vessel_run 0x100000 0x108000 ?hw k) 1 (constant_new (Some ?v)) 0 = Some (s', 1)" by auto
  with m show ?thesis by (intro exI [of _ k] exI [of _ ?v] exI [of _ s']) simp
qed

text \<open>C39: No vessel can be created.  The slab allocator for control blocks has room for no object beside its node in a page, so even
  with memory left the allocation of the block fails, and \<open>Vessel::new\<close> panics for every start address.\<close>
theorem vessel_new_panics:
  assumes "allocator_ok (VMCB_ALLOCATOR s)" and "sa_layout (VMCB_ALLOCATOR s) = vmcb_layout"
    and "km_ok L M hhdm pml lim (sv_km s) P U" and "sa_pages (VMCB_ALLOCATOR s) \<subseteq> dom P"
    and "vaa_next (sv_km s) + 1 \<le> lim" and "4 * BASIC_PAGE_SIZE \<le> card U"
  shows "vessel_new hhdm pml gdt_at rip vids s = None"
  by (simp add: vessel_new_def vmcb_new_none [OF assms] split: Option.bind_splits)

theorem vessel_new_panics_witness:
  "\<exists>k a. typed_slab_new vmcb_layout = Some a
    \<and> vessel_new 0x100000 0x108000 (\<lambda>_. [0, 1, 2, 3, 4, 5]) 0x40000 VID_ALLOCATOR
        \<lparr> sv_km = k, sv_mem = (\<lambda>_. 0), sv_cpu = demo_host, ASID_ALLOCATOR = id_tracker_uninit, VMCB_ALLOCATOR = a \<rparr> = None"
proof -
  obtain k where k: "km_ok 4 0x8000 0x100000 0x108000 32 k Map.empty {..<0x8000}" "vaa_next k = 16" using km_demo by blast
  have ly: "vmcb_layout = \<lparr> ly_size = 4096, ly_align = 4096 \<rparr>"
    by (simp add: vmcb_layout_def vmcb_size_def VMCB_ALIGN_def div_ceil_def size_of_def ControlArea_layout_def StateSaveArea_layout_def)
  have adj: "adjust_layout vmcb_layout = vmcb_layout" by (simp add: ly adjust_layout_def slab_sizes)
  have "layout_ok (adjust_layout vmcb_layout)" using is_power_of_two_pow2 [of 12] unfolding adj by (simp add: ly layout_ok_def slab_sizes)
  then obtain a where a: "slab_allocator_new vmcb_layout = Some a" "allocator_ok a" "sa_pages a = {}" "sa_layout a = vmcb_layout"
    using slab_allocator_new_ok adj by metis
  let ?s = "\<lparr> sv_km = k, sv_mem = (\<lambda>_. 0), sv_cpu = demo_host, ASID_ALLOCATOR = id_tracker_uninit, VMCB_ALLOCATOR = a \<rparr>"
  have "vessel_new 0x100000 0x108000 (\<lambda>_. [0, 1, 2, 3, 4, 5]) 0x40000 VID_ALLOCATOR ?s = None"
    by (rule vessel_new_panics [of ?s 4 "0x8000" "0x100000" "0x108000" 32 Map.empty "{..<0x8000}"]) (use a k in \<open>simp_all add: BASIC_PAGE_SIZE_def\<close>)
  then show ?thesis using a(1) by (auto simp: typed_slab_new_def)
qed

end
