(* ===== verification/Font.thy ===== *)
theory Font
  imports Prelude
begin

text \<open>The table \<open>BITMAP_FONT_8X16\<close> of \<open>logger/src/framebuffer.rs\<close>: for each of the 256 characters the 16 rows of its glyph,
  the pixel at the left in the lowest bit.\<close>

definition BITMAP_FONT_8X16 :: "u8 list list" where
  "BITMAP_FONT_8X16 = [
     [0, 0, 0, 0, 0, 0, 0, 0, 0, 0, 0, 0, 0, 0, 0, 0],
     [0, 0, 0, 0, 0, 0, 0, 0, 0, 0, 0, 0, 0, 0, 0, 0],
     [0, 0, 0, 0, 0, 0, 0, 0, 0, 0, 0, 0, 0, 0, 0, 0],
     [0, 0, 0, 0, 0, 0, 0, 0, 0, 0, 0, 0, 0, 0, 0, 0],
     [0, 0, 0, 0, 0, 0, 0, 0, 0, 0, 0, 0, 0, 0, 0, 0],
     [0, 0, 0, 0, 0, 0, 0, 0, 0, 0, 0, 0, 0, 0, 0, 0],
     [0, 0, 0, 0, 0, 0, 0, 0, 0, 0, 0, 0, 0, 0, 0, 0],
     [0, 0, 0, 0, 0, 0, 0, 0, 0, 0, 0, 0, 0, 0, 0, 0],
     [0, 0, 0, 0, 0, 0, 0, 0, 0, 0, 0, 0, 0, 0, 0, 0],
     [0, 0, 0, 0, 0, 0, 0, 0, 0, 0, 0, 0, 0, 0, 0, 0],
     [0, 0, 0, 0, 0, 0, 0, 0, 0, 0, 0, 0, 0, 0, 0, 0],
     [0, 0, 0, 0, 0, 0, 0, 0, 0, 0, 0, 0, 0, 0, 0, 0],
     [0, 0, 0, 0, 0, 0, 0, 0, 0, 0, 0, 0, 0, 0, 0, 0],
     [0, 0, 0, 0, 0, 0, 0, 0, 0, 0, 0, 0, 0, 0, 0, 0],
     [0, 0, 0, 0, 0, 0, 0, 0, 0, 0, 0, 0, 0, 0, 0, 0],
     [0, 0, 0, 0, 0, 0, 0, 0, 0, 0, 0, 0, 0, 0, 0, 0],
     [0, 0, 0, 0, 0, 0, 0, 0, 0, 0, 0, 0, 0, 0, 0, 0],
     [0, 0, 0, 0, 0, 0, 0, 0, 0, 0, 0, 0, 0, 0, 0, 0],
     [0, 0, 0, 0, 0, 0, 0, 0, 0, 0, 0, 0, 0, 0, 0, 0],
     [0, 0, 0, 0, 0, 0, 0, 0, 0, 0, 0, 0, 0, 0, 0, 0],
     [0, 0, 0, 0, 0, 0, 0, 0, 0, 0, 0, 0, 0, 0, 0, 0],
     [0, 0, 0, 0, 0, 0, 0, 0, 0, 0, 0, 0, 0, 0, 0, 0],
     [0, 0, 0, 0, 0, 0, 0, 0, 0, 0, 0, 0, 0, 0, 0, 0],
     [0, 0, 0, 0, 0, 0, 0, 0, 0, 0, 0, 0, 0, 0, 0, 0],
     [0, 0, 0, 0, 0, 0, 0, 0, 0, 0, 0, 0, 0, 0, 0, 0],
     [0, 0, 0, 0, 0, 0, 0, 0, 0, 0, 0, 0, 0, 0, 0, 0],
     [0, 0, 0, 0, 0, 0, 0, 0, 0, 0, 0, 0, 0, 0, 0, 0],
     [0, 0, 0, 0, 0, 0, 0, 0, 0, 0, 0, 0, 0, 0, 0, 0],
     [0, 0, 0, 0, 0, 0, 0, 0, 0, 0, 0, 0, 0, 0, 0, 0],
     [0, 0, 0, 0, 0, 0, 0, 0, 0, 0, 0, 0, 0, 0, 0, 0],
     [0, 0, 0, 0, 0, 0, 0, 0, 0, 0, 0, 0, 0, 0, 0, 0],
     [0, 0, 0, 0, 0, 0, 0, 0, 0, 0, 0, 0, 0, 0, 0, 0],
     [0, 0, 0, 0, 0, 0, 0, 0, 0, 0, 0, 0, 0, 0, 0, 0],
     [0, 0, 0x18, 0x18, 0x18, 0x18, 0x18, 0x18, 0x18, 0, 0x18, 0x18, 0, 0, 0, 0],
     [0, 0, 0x6c, 0x6c, 0x36, 0, 0, 0, 0, 0, 0, 0, 0, 0, 0, 0],
     [0, 0, 0, 0x36, 0x36, 0x7f, 0x36, 0x36, 0x7f, 0x36, 0x36, 0, 0, 0, 0, 0],
     [0, 0x08, 0x08, 0x3e, 0x6b, 0x0b, 0x0b, 0x3e, 0x68, 0x68, 0x6b, 0x3e, 0x08, 0x08, 0, 0],
     [0, 0, 0, 0x33, 0x13, 0x18, 0x08, 0x0c, 0x04, 0x06, 0x32, 0x33, 0, 0, 0, 0],
     [0, 0, 0x1c, 0x36, 0x36, 0x1c, 0x6c, 0x3e, 0x33, 0x33, 0x7b, 0xce, 0, 0, 0, 0],
     [0, 0, 0x18, 0x18, 0x0c, 0, 0, 0, 0, 0, 0, 0, 0, 0, 0, 0],
     [0, 0, 0x30, 0x18, 0x18, 0x0c, 0x0c, 0x0c, 0x0c, 0x0c, 0x18, 0x18, 0x30, 0, 0, 0],
     [0, 0, 0x0c, 0x18, 0x18, 0x30, 0x30, 0x30, 0x30, 0x30, 0x18, 0x18, 0x0c, 0, 0, 0],
     [0, 0, 0, 0, 0, 0x36, 0x1c, 0x7f, 0x1c, 0x36, 0, 0, 0, 0, 0, 0],
     [0, 0, 0, 0, 0, 0x18, 0x18, 0x7e, 0x18, 0x18, 0, 0, 0, 0, 0, 0],
     [0, 0, 0, 0, 0, 0, 0, 0, 0, 0, 0x18, 0x18, 0x0c, 0, 0, 0],
     [0, 0, 0, 0, 0, 0, 0, 0x7e, 0, 0, 0, 0, 0, 0, 0, 0],
     [0, 0, 0, 0, 0, 0, 0, 0, 0, 0, 0x18, 0x18, 0, 0, 0, 0],
     [0, 0, 0x60, 0x20, 0x30, 0x10, 0x18, 0x08, 0x0c, 0x04, 0x06, 0x02, 0x03, 0, 0, 0],
     [0, 0, 0x3e, 0x63, 0x63, 0x63, 0x6b, 0x6b, 0x63, 0x63, 0x63, 0x3e, 0, 0, 0, 0],
     [0, 0, 0x18, 0x1e, 0x18, 0x18, 0x18, 0x18, 0x18, 0x18, 0x18, 0x18, 0, 0, 0, 0],
     [0, 0, 0x3e, 0x63, 0x60, 0x60, 0x30, 0x18, 0x0c, 0x06, 0x03, 0x7f, 0, 0, 0, 0],
     [0, 0, 0x3e, 0x63, 0x60, 0x60, 0x3c, 0x60, 0x60, 0x60, 0x63, 0x3e, 0, 0, 0, 0],
     [0, 0, 0x30, 0x38, 0x3c, 0x36, 0x33, 0x7f, 0x30, 0x30, 0x30, 0x30, 0, 0, 0, 0],
     [0, 0, 0x7f, 0x03, 0x03, 0x3f, 0x60, 0x60, 0x60, 0x60, 0x63, 0x3e, 0, 0, 0, 0],
     [0, 0, 0x3c, 0x06, 0x03, 0x03, 0x3f, 0x63, 0x63, 0x63, 0x63, 0x3e, 0, 0, 0, 0],
     [0, 0, 0x7f, 0x60, 0x30, 0x30, 0x18, 0x18, 0x18, 0x0c, 0x0c, 0x0c, 0, 0, 0, 0],
     [0, 0, 0x3e, 0x63, 0x63, 0x63, 0x3e, 0x63, 0x63, 0x63, 0x63, 0x3e, 0, 0, 0, 0],
     [0, 0, 0x3e, 0x63, 0x63, 0x63, 0x7e, 0x60, 0x60, 0x60, 0x30, 0x1e, 0, 0, 0, 0],
     [0, 0, 0, 0, 0, 0x18, 0x18, 0, 0, 0, 0x18, 0x18, 0, 0, 0, 0],
     [0, 0, 0, 0, 0, 0x18, 0x18, 0, 0, 0, 0x18, 0x18, 0x0c, 0, 0, 0],
     [0, 0, 0x60, 0x30, 0x18, 0x0c, 0x06, 0x06, 0x0c, 0x18, 0x30, 0x60, 0, 0, 0, 0],
     [0, 0, 0, 0, 0, 0x7e, 0, 0, 0x7e, 0, 0, 0, 0, 0, 0, 0],
     [0, 0, 0x06, 0x0c, 0x18, 0x30, 0x60, 0x60, 0x30, 0x18, 0x0c, 0x06, 0, 0, 0, 0],
     [0, 0, 0x3e, 0x63, 0x60, 0x30, 0x30, 0x18, 0x18, 0, 0x18, 0x18, 0, 0, 0, 0],
     [0, 0, 0x3c, 0x66, 0x73, 0x7b, 0x6b, 0x6b, 0x7b, 0x33, 0x06, 0x3c, 0, 0, 0, 0],
     [0, 0, 0x3e, 0x63, 0x63, 0x63, 0x7f, 0x63, 0x63, 0x63, 0x63, 0x63, 0, 0, 0, 0],
     [0, 0, 0x3f, 0x63, 0x63, 0x63, 0x3f, 0x63, 0x63, 0x63, 0x63, 0x3f, 0, 0, 0, 0],
     [0, 0, 0x3c, 0x66, 0x03, 0x03, 0x03, 0x03, 0x03, 0x03, 0x66, 0x3c, 0, 0, 0, 0],
     [0, 0, 0x1f, 0x33, 0x63, 0x63, 0x63, 0x63, 0x63, 0x63, 0x33, 0x1f, 0, 0, 0, 0],
     [0, 0, 0x7f, 0x03, 0x03, 0x03, 0x3f, 0x03, 0x03, 0x03, 0x03, 0x7f, 0, 0, 0, 0],
     [0, 0, 0x7f, 0x03, 0x03, 0x03, 0x3f, 0x03, 0x03, 0x03, 0x03, 0x03, 0, 0, 0, 0],
     [0, 0, 0x3c, 0x66, 0x03, 0x03, 0x03, 0x73, 0x63, 0x63, 0x66, 0x7c, 0, 0, 0, 0],
     [0, 0, 0x63, 0x63, 0x63, 0x63, 0x7f, 0x63, 0x63, 0x63, 0x63, 0x63, 0, 0, 0, 0],
     [0, 0, 0x3c, 0x18, 0x18, 0x18, 0x18, 0x18, 0x18, 0x18, 0x18, 0x3c, 0, 0, 0, 0],
     [0, 0, 0x30, 0x30, 0x30, 0x30, 0x30, 0x30, 0x30, 0x30, 0x33, 0x1e, 0, 0, 0, 0],
     [0, 0, 0x63, 0x33, 0x1b, 0x0f, 0x07, 0x07, 0x0f, 0x1b, 0x33, 0x63, 0, 0, 0, 0],
     [0, 0, 0x03, 0x03, 0x03, 0x03, 0x03, 0x03, 0x03, 0x03, 0x03, 0x7f, 0, 0, 0, 0],
     [0, 0, 0x63, 0x63, 0x77, 0x7f, 0x7f, 0x6b, 0x6b, 0x63, 0x63, 0x63, 0, 0, 0, 0],
     [0, 0, 0x63, 0x63, 0x67, 0x6f, 0x6f, 0x7b, 0x7b, 0x73, 0x63, 0x63, 0, 0, 0, 0],
     [0, 0, 0x3e, 0x63, 0x63, 0x63, 0x63, 0x63, 0x63, 0x63, 0x63, 0x3e, 0, 0, 0, 0],
     [0, 0, 0x3f, 0x63, 0x63, 0x63, 0x63, 0x3f, 0x03, 0x03, 0x03, 0x03, 0, 0, 0, 0],
     [0, 0, 0x3e, 0x63, 0x63, 0x63, 0x63, 0x63, 0x63, 0x6f, 0x7b, 0x3e, 0x30, 0x60, 0, 0],
     [0, 0, 0x3f, 0x63, 0x63, 0x63, 0x63, 0x3f, 0x1b, 0x33, 0x63, 0x63, 0, 0, 0, 0],
     [0, 0, 0x3e, 0x63, 0x03, 0x03, 0x0e, 0x38, 0x60, 0x60, 0x63, 0x3e, 0, 0, 0, 0],
     [0, 0, 0x7e, 0x18, 0x18, 0x18, 0x18, 0x18, 0x18, 0x18, 0x18, 0x18, 0, 0, 0, 0],
     [0, 0, 0x63, 0x63, 0x63, 0x63, 0x63, 0x63, 0x63, 0x63, 0x63, 0x3e, 0, 0, 0, 0],
     [0, 0, 0x63, 0x63, 0x63, 0x63, 0x63, 0x36, 0x36, 0x1c, 0x1c, 0x08, 0, 0, 0, 0],
     [0, 0, 0x63, 0x63, 0x6b, 0x6b, 0x6b, 0x6b, 0x7f, 0x36, 0x36, 0x36, 0, 0, 0, 0],
     [0, 0, 0x63, 0x63, 0x36, 0x36, 0x1c, 0x1c, 0x36, 0x36, 0x63, 0x63, 0, 0, 0, 0],
     [0, 0, 0xc3, 0xc3, 0x66, 0x66, 0x3c, 0x3c, 0x18, 0x18, 0x18, 0x18, 0, 0, 0, 0],
     [0, 0, 0x7f, 0x30, 0x30, 0x18, 0x18, 0x0c, 0x0c, 0x06, 0x06, 0x7f, 0, 0, 0, 0],
     [0, 0, 0x3c, 0x0c, 0x0c, 0x0c, 0x0c, 0x0c, 0x0c, 0x0c, 0x0c, 0x3c, 0, 0, 0, 0],
     [0, 0, 0x03, 0x02, 0x06, 0x04, 0x0c, 0x08, 0x18, 0x10, 0x30, 0x20, 0x60, 0, 0, 0],
     [0, 0, 0x3c, 0x30, 0x30, 0x30, 0x30, 0x30, 0x30, 0x30, 0x30, 0x3c, 0, 0, 0, 0],
     [0, 0x08, 0x1c, 0x36, 0x63, 0, 0, 0, 0, 0, 0, 0, 0, 0, 0, 0],
     [0, 0, 0, 0, 0, 0, 0, 0, 0, 0, 0, 0, 0, 0xff, 0, 0],
     [0, 0, 0x0c, 0x0c, 0x18, 0, 0, 0, 0, 0, 0, 0, 0, 0, 0, 0],
     [0, 0, 0, 0, 0, 0x3e, 0x60, 0x7e, 0x63, 0x63, 0x73, 0x6e, 0, 0, 0, 0],
     [0, 0, 0x03, 0x03, 0x03, 0x3b, 0x67, 0x63, 0x63, 0x63, 0x67, 0x3b, 0, 0, 0, 0],
     [0, 0, 0, 0, 0, 0x3e, 0x63, 0x03, 0x03, 0x03, 0x63, 0x3e, 0, 0, 0, 0],
     [0, 0, 0x60, 0x60, 0x60, 0x6e, 0x73, 0x63, 0x63, 0x63, 0x73, 0x6e, 0, 0, 0, 0],
     [0, 0, 0, 0, 0, 0x3e, 0x63, 0x63, 0x7f, 0x03, 0x63, 0x3e, 0, 0, 0, 0],
     [0, 0, 0x3c, 0x66, 0x06, 0x1f, 0x06, 0x06, 0x06, 0x06, 0x06, 0x06, 0, 0, 0, 0],
     [0, 0, 0, 0, 0, 0x6e, 0x73, 0x63, 0x63, 0x63, 0x73, 0x6e, 0x60, 0x63, 0x3e, 0],
     [0, 0, 0x03, 0x03, 0x03, 0x3b, 0x67, 0x63, 0x63, 0x63, 0x63, 0x63, 0, 0, 0, 0],
     [0, 0, 0x0c, 0x0c, 0, 0x0c, 0x0c, 0x0c, 0x0c, 0x0c, 0x0c, 0x38, 0, 0, 0, 0],
     [0, 0, 0x30, 0x30, 0, 0x30, 0x30, 0x30, 0x30, 0x30, 0x30, 0x30, 0x30, 0x33, 0x1e, 0],
     [0, 0, 0x03, 0x03, 0x03, 0x63, 0x33, 0x1b, 0x0f, 0x1f, 0x33, 0x63, 0, 0, 0, 0],
     [0, 0, 0x0c, 0x0c, 0x0c, 0x0c, 0x0c, 0x0c, 0x0c, 0x0c, 0x0c, 0x38, 0, 0, 0, 0],
     [0, 0, 0, 0, 0, 0x35, 0x6b, 0x6b, 0x6b, 0x6b, 0x6b, 0x6b, 0, 0, 0, 0],
     [0, 0, 0, 0, 0, 0x3b, 0x67, 0x63, 0x63, 0x63, 0x63, 0x63, 0, 0, 0, 0],
     [0, 0, 0, 0, 0, 0x3e, 0x63, 0x63, 0x63, 0x63, 0x63, 0x3e, 0, 0, 0, 0],
     [0, 0, 0, 0, 0, 0x3b, 0x67, 0x63, 0x63, 0x63, 0x67, 0x3b, 0x03, 0x03, 0x03, 0],
     [0, 0, 0, 0, 0, 0x6e, 0x73, 0x63, 0x63, 0x63, 0x73, 0x6e, 0x60, 0xe0, 0x60, 0],
     [0, 0, 0, 0, 0, 0x3b, 0x67, 0x03, 0x03, 0x03, 0x03, 0x03, 0, 0, 0, 0],
     [0, 0, 0, 0, 0, 0x3e, 0x63, 0x0e, 0x38, 0x60, 0x63, 0x3e, 0, 0, 0, 0],
     [0, 0, 0, 0x0c, 0x0c, 0x3e, 0x0c, 0x0c, 0x0c, 0x0c, 0x0c, 0x38, 0, 0, 0, 0],
     [0, 0, 0, 0, 0, 0x63, 0x63, 0x63, 0x63, 0x63, 0x73, 0x6e, 0, 0, 0, 0],
     [0, 0, 0, 0, 0, 0x63, 0x63, 0x36, 0x36, 0x1c, 0x1c, 0x08, 0, 0, 0, 0],
     [0, 0, 0, 0, 0, 0x63, 0x6b, 0x6b, 0x6b, 0x3e, 0x36, 0x36, 0, 0, 0, 0],
     [0, 0, 0, 0, 0, 0x63, 0x36, 0x1c, 0x1c, 0x1c, 0x36, 0x63, 0, 0, 0, 0],
     [0, 0, 0, 0, 0, 0x63, 0x63, 0x36, 0x36, 0x1c, 0x1c, 0x0c, 0x0c, 0x06, 0x03, 0],
     [0, 0, 0, 0, 0, 0x7f, 0x60, 0x30, 0x18, 0x0c, 0x06, 0x7f, 0, 0, 0, 0],
     [0, 0, 0x70, 0x18, 0x18, 0x18, 0x18, 0x0e, 0x18, 0x18, 0x18, 0x18, 0x70, 0, 0, 0],
     [0, 0x18, 0x18, 0x18, 0x18, 0x18, 0x18, 0x18, 0x18, 0x18, 0x18, 0x18, 0x18, 0, 0, 0],
     [0, 0, 0x0e, 0x18, 0x18, 0x18, 0x18, 0x70, 0x18, 0x18, 0x18, 0x18, 0x0e, 0, 0, 0],
     [0, 0, 0, 0, 0, 0, 0x6e, 0x3b, 0, 0, 0, 0, 0, 0, 0, 0],
     [0, 0, 0, 0, 0, 0, 0, 0, 0, 0, 0, 0, 0, 0, 0, 0],
     [0, 0, 0, 0, 0, 0, 0, 0, 0, 0, 0, 0, 0, 0, 0, 0],
     [0, 0, 0, 0, 0, 0, 0, 0, 0, 0, 0, 0, 0, 0, 0, 0],
     [0, 0, 0, 0, 0, 0, 0, 0, 0, 0, 0, 0, 0, 0, 0, 0],
     [0, 0, 0, 0, 0, 0, 0, 0, 0, 0, 0, 0, 0, 0, 0, 0],
     [0, 0, 0, 0, 0, 0, 0, 0, 0, 0, 0, 0, 0, 0, 0, 0],
     [0, 0, 0, 0, 0, 0, 0, 0, 0, 0, 0, 0, 0, 0, 0, 0],
     [0, 0, 0, 0, 0, 0, 0, 0, 0, 0, 0, 0, 0, 0, 0, 0],
     [0, 0, 0, 0, 0, 0, 0, 0, 0, 0, 0, 0, 0, 0, 0, 0],
     [0, 0, 0, 0, 0, 0, 0, 0, 0, 0, 0, 0, 0, 0, 0, 0],
     [0, 0, 0, 0, 0, 0, 0, 0, 0, 0, 0, 0, 0, 0, 0, 0],
     [0, 0, 0, 0, 0, 0, 0, 0, 0, 0, 0, 0, 0, 0, 0, 0],
     [0, 0, 0, 0, 0, 0, 0, 0, 0, 0, 0, 0, 0, 0, 0, 0],
     [0, 0, 0, 0, 0, 0, 0, 0, 0, 0, 0, 0, 0, 0, 0, 0],
     [0, 0, 0, 0, 0, 0, 0, 0, 0, 0, 0, 0, 0, 0, 0, 0],
     [0, 0, 0, 0, 0, 0, 0, 0, 0, 0, 0, 0, 0, 0, 0, 0],
     [0, 0, 0, 0, 0, 0, 0, 0, 0, 0, 0, 0, 0, 0, 0, 0],
     [0, 0, 0, 0, 0, 0, 0, 0, 0, 0, 0, 0, 0, 0, 0, 0],
     [0, 0, 0, 0, 0, 0, 0, 0, 0, 0, 0, 0, 0, 0, 0, 0],
     [0, 0, 0, 0, 0, 0, 0, 0, 0, 0, 0, 0, 0, 0, 0, 0],
     [0, 0, 0, 0, 0, 0, 0, 0, 0, 0, 0, 0, 0, 0, 0, 0],
     [0, 0, 0, 0, 0, 0, 0, 0, 0, 0, 0, 0, 0, 0, 0, 0],
     [0, 0, 0, 0, 0, 0, 0, 0, 0, 0, 0, 0, 0, 0, 0, 0],
     [0, 0, 0, 0, 0, 0, 0, 0, 0, 0, 0, 0, 0, 0, 0, 0],
     [0, 0, 0, 0, 0, 0, 0, 0, 0, 0, 0, 0, 0, 0, 0, 0],
     [0, 0, 0, 0, 0, 0, 0, 0, 0, 0, 0, 0, 0, 0, 0, 0],
     [0, 0, 0, 0, 0, 0, 0, 0, 0, 0, 0, 0, 0, 0, 0, 0],
     [0, 0, 0, 0, 0, 0, 0, 0, 0, 0, 0, 0, 0, 0, 0, 0],
     [0, 0, 0, 0, 0, 0, 0, 0, 0, 0, 0, 0, 0, 0, 0, 0],
     [0, 0, 0, 0, 0, 0, 0, 0, 0, 0, 0, 0, 0, 0, 0, 0],
     [0, 0, 0, 0, 0, 0, 0, 0, 0, 0, 0, 0, 0, 0, 0, 0],
     [0, 0, 0, 0, 0, 0, 0, 0, 0, 0, 0, 0, 0, 0, 0, 0],
     [0, 0, 0, 0, 0, 0, 0, 0, 0, 0, 0, 0, 0, 0, 0, 0],
     [0, 0, 0, 0, 0, 0, 0, 0, 0, 0, 0, 0, 0, 0, 0, 0],
     [0, 0, 0, 0, 0x18, 0x18, 0, 0x18, 0x18, 0x18, 0x18, 0x18, 0x18, 0x18, 0, 0],
     [0, 0, 0, 0x08, 0x08, 0x3e, 0x6b, 0x0b, 0x0b, 0x0b, 0x6b, 0x3e, 0x08, 0x08, 0, 0],
     [0, 0, 0x1c, 0x36, 0x06, 0x06, 0x1f, 0x06, 0x06, 0x07, 0x6f, 0x3b, 0, 0, 0, 0],
     [0, 0, 0, 0, 0x66, 0x3c, 0x66, 0x66, 0x66, 0x3c, 0x66, 0, 0, 0, 0, 0],
     [0, 0, 0xc3, 0xc3, 0x66, 0x66, 0x3c, 0x7e, 0x18, 0x7e, 0x18, 0x18, 0, 0, 0, 0],
     [0, 0, 0x18, 0x18, 0x18, 0x18, 0, 0, 0x18, 0x18, 0x18, 0x18, 0, 0, 0, 0],
     [0, 0x3c, 0x66, 0x0c, 0x1e, 0x33, 0x63, 0x66, 0x3c, 0x18, 0x33, 0x1e, 0, 0, 0, 0],
     [0, 0, 0x36, 0x36, 0, 0, 0, 0, 0, 0, 0, 0, 0, 0, 0, 0],
     [0, 0, 0x3c, 0x42, 0x99, 0xa5, 0x85, 0xa5, 0x99, 0x42, 0x3c, 0, 0, 0, 0, 0],
     [0, 0x1e, 0x30, 0x3e, 0x33, 0x3b, 0x36, 0, 0x3f, 0, 0, 0, 0, 0, 0, 0],
     [0, 0, 0, 0, 0, 0x6c, 0x36, 0x1b, 0x1b, 0x36, 0x6c, 0, 0, 0, 0, 0],
     [0, 0, 0, 0, 0, 0, 0x7f, 0x60, 0x60, 0x60, 0, 0, 0, 0, 0, 0],
     [0, 0, 0, 0, 0, 0, 0, 0x3c, 0, 0, 0, 0, 0, 0, 0, 0],
     [0, 0, 0x3c, 0x42, 0x9d, 0xa5, 0x9d, 0xa5, 0xa5, 0x42, 0x3c, 0, 0, 0, 0, 0],
     [0, 0x7e, 0, 0, 0, 0, 0, 0, 0, 0, 0, 0, 0, 0, 0, 0],
     [0, 0, 0x1c, 0x36, 0x36, 0x1c, 0, 0, 0, 0, 0, 0, 0, 0, 0, 0],
     [0, 0, 0, 0, 0x18, 0x18, 0x7e, 0x18, 0x18, 0, 0x7e, 0, 0, 0, 0, 0],
     [0, 0x1e, 0x33, 0x18, 0x0c, 0x06, 0x3f, 0, 0, 0, 0, 0, 0, 0, 0, 0],
     [0, 0x1e, 0x33, 0x18, 0x30, 0x33, 0x1e, 0, 0, 0, 0, 0, 0, 0, 0, 0],
     [0, 0x30, 0x18, 0x0c, 0, 0, 0, 0, 0, 0, 0, 0, 0, 0, 0, 0],
     [0, 0, 0, 0, 0, 0x66, 0x66, 0x66, 0x66, 0x66, 0x76, 0x6e, 0x06, 0x06, 0x03, 0],
     [0, 0, 0x7e, 0x2f, 0x2f, 0x2f, 0x2e, 0x28, 0x28, 0x28, 0x28, 0x28, 0, 0, 0, 0],
     [0, 0, 0, 0, 0, 0, 0, 0x18, 0x18, 0, 0, 0, 0, 0, 0, 0],
     [0, 0, 0, 0, 0, 0, 0, 0, 0, 0, 0, 0, 0x18, 0x30, 0x1e, 0],
     [0, 0x0c, 0x0e, 0x0c, 0x0c, 0x0c, 0x1e, 0, 0, 0, 0, 0, 0, 0, 0, 0],
     [0, 0x1e, 0x33, 0x33, 0x33, 0x33, 0x1e, 0, 0x3f, 0, 0, 0, 0, 0, 0, 0],
     [0, 0, 0, 0, 0, 0x1b, 0x36, 0x6c, 0x6c, 0x36, 0x1b, 0, 0, 0, 0, 0],
     [0, 0x10, 0x1c, 0x18, 0x18, 0x18, 0, 0x7f, 0, 0x18, 0x1c, 0x1a, 0x3e, 0x18, 0, 0],
     [0, 0x10, 0x1c, 0x18, 0x18, 0x18, 0, 0x7f, 0, 0x1c, 0x36, 0x18, 0x0c, 0x3e, 0, 0],
     [0, 0x1c, 0x36, 0x18, 0x36, 0x1c, 0, 0x7f, 0, 0x18, 0x1c, 0x1a, 0x3e, 0x18, 0, 0],
     [0, 0, 0, 0, 0x0c, 0x0c, 0, 0x0c, 0x0c, 0x06, 0x06, 0x03, 0x63, 0x3e, 0, 0],
     [0x0c, 0x18, 0x3e, 0x63, 0x63, 0x63, 0x7f, 0x63, 0x63, 0x63, 0x63, 0x63, 0, 0, 0, 0],
     [0x18, 0x0c, 0x3e, 0x63, 0x63, 0x63, 0x7f, 0x63, 0x63, 0x63, 0x63, 0x63, 0, 0, 0, 0],
     [0x08, 0x14, 0x3e, 0x63, 0x63, 0x63, 0x7f, 0x63, 0x63, 0x63, 0x63, 0x63, 0, 0, 0, 0],
     [0x6e, 0x3b, 0x3e, 0x63, 0x63, 0x63, 0x7f, 0x63, 0x63, 0x63, 0x63, 0x63, 0, 0, 0, 0],
     [0x36, 0, 0x3e, 0x63, 0x63, 0x63, 0x7f, 0x63, 0x63, 0x63, 0x63, 0x63, 0, 0, 0, 0],
     [0x1c, 0x36, 0x3e, 0x63, 0x63, 0x63, 0x7f, 0x63, 0x63, 0x63, 0x63, 0x63, 0, 0, 0, 0],
     [0, 0, 0xfe, 0x33, 0x33, 0x33, 0xff, 0x33, 0x33, 0x33, 0x33, 0xf3, 0, 0, 0, 0],
     [0, 0, 0x3c, 0x66, 0x03, 0x03, 0x03, 0x03, 0x03, 0x03, 0x66, 0x3c, 0x18, 0x30, 0x1e, 0],
     [0x0c, 0x18, 0x7f, 0x03, 0x03, 0x03, 0x3f, 0x03, 0x03, 0x03, 0x03, 0x7f, 0, 0, 0, 0],
     [0x18, 0x0c, 0x7f, 0x03, 0x03, 0x03, 0x3f, 0x03, 0x03, 0x03, 0x03, 0x7f, 0, 0, 0, 0],
     [0x08, 0x14, 0x7f, 0x03, 0x03, 0x03, 0x3f, 0x03, 0x03, 0x03, 0x03, 0x7f, 0, 0, 0, 0],
     [0x36, 0, 0x7f, 0x03, 0x03, 0x03, 0x3f, 0x03, 0x03, 0x03, 0x03, 0x7f, 0, 0, 0, 0],
     [0x0c, 0x18, 0x3c, 0x18, 0x18, 0x18, 0x18, 0x18, 0x18, 0x18, 0x18, 0x3c, 0, 0, 0, 0],
     [0x30, 0x18, 0x3c, 0x18, 0x18, 0x18, 0x18, 0x18, 0x18, 0x18, 0x18, 0x3c, 0, 0, 0, 0],
     [0x18, 0x24, 0x3c, 0x18, 0x18, 0x18, 0x18, 0x18, 0x18, 0x18, 0x18, 0x3c, 0, 0, 0, 0],
     [0x66, 0, 0x3c, 0x18, 0x18, 0x18, 0x18, 0x18, 0x18, 0x18, 0x18, 0x3c, 0, 0, 0, 0],
     [0, 0, 0x1e, 0x36, 0x66, 0x66, 0x6f, 0x66, 0x66, 0x66, 0x36, 0x1e, 0, 0, 0, 0],
     [0x6e, 0x3b, 0x63, 0x63, 0x67, 0x6f, 0x6f, 0x7b, 0x7b, 0x73, 0x63, 0x63, 0, 0, 0, 0],
     [0x06, 0x0c, 0x3e, 0x63, 0x63, 0x63, 0x63, 0x63, 0x63, 0x63, 0x63, 0x3e, 0, 0, 0, 0],
     [0x30, 0x18, 0x3e, 0x63, 0x63, 0x63, 0x63, 0x63, 0x63, 0x63, 0x63, 0x3e, 0, 0, 0, 0],
     [0x08, 0x14, 0x3e, 0x63, 0x63, 0x63, 0x63, 0x63, 0x63, 0x63, 0x63, 0x3e, 0, 0, 0, 0],
     [0x6e, 0x3b, 0x3e, 0x63, 0x63, 0x63, 0x63, 0x63, 0x63, 0x63, 0x63, 0x3e, 0, 0, 0, 0],
     [0x36, 0, 0x3e, 0x63, 0x63, 0x63, 0x63, 0x63, 0x63, 0x63, 0x63, 0x3e, 0, 0, 0, 0],
     [0, 0, 0, 0, 0, 0x66, 0x3c, 0x18, 0x3c, 0x66, 0, 0, 0, 0, 0, 0],
     [0, 0x20, 0x3e, 0x73, 0x73, 0x6b, 0x6b, 0x6b, 0x6b, 0x67, 0x67, 0x3e, 0x02, 0, 0, 0],
     [0x0c, 0x18, 0x63, 0x63, 0x63, 0x63, 0x63, 0x63, 0x63, 0x63, 0x63, 0x3e, 0, 0, 0, 0],
     [0x18, 0x0c, 0x63, 0x63, 0x63, 0x63, 0x63, 0x63, 0x63, 0x63, 0x63, 0x3e, 0, 0, 0, 0],
     [0x08, 0x14, 0x63, 0x63, 0x63, 0x63, 0x63, 0x63, 0x63, 0x63, 0x63, 0x3e, 0, 0, 0, 0],
     [0x36, 0, 0x63, 0x63, 0x63, 0x63, 0x63, 0x63, 0x63, 0x63, 0x63, 0x3e, 0, 0, 0, 0],
     [0x30, 0x18, 0xc3, 0xc3, 0x66, 0x66, 0x3c, 0x3c, 0x18, 0x18, 0x18, 0x18, 0, 0, 0, 0],
     [0, 0, 0x0f, 0x06, 0x3e, 0x66, 0x66, 0x66, 0x66, 0x3e, 0x06, 0x0f, 0, 0, 0, 0],
     [0, 0, 0x1e, 0x33, 0x33, 0x1b, 0x33, 0x63, 0x63, 0x63, 0x63, 0x3b, 0, 0, 0, 0],
     [0, 0x0c, 0x18, 0x30, 0, 0x3e, 0x60, 0x7e, 0x63, 0x63, 0x73, 0x6e, 0, 0, 0, 0],
     [0, 0x30, 0x18, 0x0c, 0, 0x3e, 0x60, 0x7e, 0x63, 0x63, 0x73, 0x6e, 0, 0, 0, 0],
     [0, 0x08, 0x1c, 0x36, 0, 0x3e, 0x60, 0x7e, 0x63, 0x63, 0x73, 0x6e, 0, 0, 0, 0],
     [0, 0, 0x6e, 0x3b, 0, 0x3e, 0x60, 0x7e, 0x63, 0x63, 0x73, 0x6e, 0, 0, 0, 0],
     [0, 0, 0x36, 0x36, 0, 0x3e, 0x60, 0x7e, 0x63, 0x63, 0x73, 0x6e, 0, 0, 0, 0],
     [0, 0x1c, 0x36, 0x1c, 0, 0x3e, 0x60, 0x7e, 0x63, 0x63, 0x73, 0x6e, 0, 0, 0, 0],
     [0, 0, 0, 0, 0, 0x6e, 0xdb, 0xd8, 0xfe, 0x1b, 0xdb, 0x76, 0, 0, 0, 0],
     [0, 0, 0, 0, 0, 0x3e, 0x63, 0x03, 0x03, 0x03, 0x63, 0x3e, 0x18, 0x30, 0x1e, 0],
     [0, 0x0c, 0x18, 0x30, 0, 0x3e, 0x63, 0x63, 0x7f, 0x03, 0x63, 0x3e, 0, 0, 0, 0],
     [0, 0x30, 0x18, 0x0c, 0, 0x3e, 0x63, 0x63, 0x7f, 0x03, 0x63, 0x3e, 0, 0, 0, 0],
     [0, 0x08, 0x1c, 0x36, 0, 0x3e, 0x63, 0x63, 0x7f, 0x03, 0x63, 0x3e, 0, 0, 0, 0],
     [0, 0, 0x36, 0x36, 0, 0x3e, 0x63, 0x63, 0x7f, 0x03, 0x63, 0x3e, 0, 0, 0, 0],
     [0, 0x06, 0x0c, 0x18, 0, 0x0c, 0x0c, 0x0c, 0x0c, 0x0c, 0x0c, 0x38, 0, 0, 0, 0],
     [0, 0x18, 0x0c, 0x06, 0, 0x0c, 0x0c, 0x0c, 0x0c, 0x0c, 0x0c, 0x38, 0, 0, 0, 0],
     [0, 0x08, 0x1c, 0x36, 0, 0x0c, 0x0c, 0x0c, 0x0c, 0x0c, 0x0c, 0x38, 0, 0, 0, 0],
     [0, 0, 0x36, 0x36, 0, 0x0c, 0x0c, 0x0c, 0x0c, 0x0c, 0x0c, 0x38, 0, 0, 0, 0],
     [0, 0, 0x2c, 0x18, 0x34, 0x60, 0x7c, 0x66, 0x66, 0x66, 0x66, 0x3c, 0, 0, 0, 0],
     [0, 0, 0x6e, 0x3b, 0, 0x3b, 0x67, 0x63, 0x63, 0x63, 0x63, 0x63, 0, 0, 0, 0],
     [0, 0x06, 0x0c, 0x18, 0, 0x3e, 0x63, 0x63, 0x63, 0x63, 0x63, 0x3e, 0, 0, 0, 0],
     [0, 0x30, 0x18, 0x0c, 0, 0x3e, 0x63, 0x63, 0x63, 0x63, 0x63, 0x3e, 0, 0, 0, 0],
     [0, 0x08, 0x1c, 0x36, 0, 0x3e, 0x63, 0x63, 0x63, 0x63, 0x63, 0x3e, 0, 0, 0, 0],
     [0, 0, 0x6e, 0x3b, 0, 0x3e, 0x63, 0x63, 0x63, 0x63, 0x63, 0x3e, 0, 0, 0, 0],
     [0, 0, 0x36, 0x36, 0, 0x3e, 0x63, 0x63, 0x63, 0x63, 0x63, 0x3e, 0, 0, 0, 0],
     [0, 0, 0, 0, 0x18, 0x18, 0, 0x7e, 0, 0x18, 0x18, 0, 0, 0, 0, 0],
     [0, 0, 0, 0, 0x20, 0x3e, 0x73, 0x6b, 0x6b, 0x6b, 0x67, 0x3e, 0x02, 0, 0, 0],
     [0, 0x06, 0x0c, 0x18, 0, 0x63, 0x63, 0x63, 0x63, 0x63, 0x73, 0x6e, 0, 0, 0, 0],
     [0, 0x30, 0x18, 0x0c, 0, 0x63, 0x63, 0x63, 0x63, 0x63, 0x73, 0x6e, 0, 0, 0, 0],
     [0, 0x08, 0x1c, 0x36, 0, 0x63, 0x63, 0x63, 0x63, 0x63, 0x73, 0x6e, 0, 0, 0, 0],
     [0, 0, 0x36, 0x36, 0, 0x63, 0x63, 0x63, 0x63, 0x63, 0x73, 0x6e, 0, 0, 0, 0],
     [0, 0x30, 0x18, 0x0c, 0, 0x63, 0x63, 0x36, 0x36, 0x1c, 0x1c, 0x0c, 0x0c, 0x06, 0x03, 0],
     [0, 0, 0x0f, 0x06, 0x06, 0x3e, 0x66, 0x66, 0x66, 0x66, 0x66, 0x3e, 0x06, 0x06, 0x0f, 0],
     [0, 0, 0x36, 0x36, 0, 0x63, 0x63, 0x36, 0x36, 0x1c, 0x1c, 0x0c, 0x0c, 0x06, 0x03, 0]]"

lemma length_font [simp]: "length BITMAP_FONT_8X16 = 256"
  by (simp add: BITMAP_FONT_8X16_def)

lemma font_rows: "i < 256 \<Longrightarrow> length (BITMAP_FONT_8X16 ! i) = 16"
proof -
  have "list_all (\<lambda>g. length g = 16) BITMAP_FONT_8X16" by (simp add: BITMAP_FONT_8X16_def)
  then show "i < 256 \<Longrightarrow> length (BITMAP_FONT_8X16 ! i) = 16" by (simp add: list_all_length)
qed

end
