(* ===== verification/Logger.thy ===== *)
theory Logger
  imports Font Mem_Addr
begin

text \<open>
  The logger (\<open>logger/src\<close>): the serial ports (\<open>serial.rs\<close>), the characters drawn into the framebuffer
  (\<open>framebuffer.rs\<close>) and the writer that feeds both byte by byte (\<open>lib.rs\<close>).  Accesses to I/O ports are a trace of
  writes and an input function that may depend on it; the framebuffer is byte-addressed memory.  The formatting
  of messages is the standard library's.
\<close>

unbundle bit_operations_syntax

subsection \<open>Serial ports\<close>

datatype SerialPort = Comm1 | Comm2 | Comm3 | Comm4 | Comm5 | Comm6 | Comm7 | Comm8

datatype SerialError = FaultySerialPort

fun serial_port_address :: "SerialPort \<Rightarrow> u16" where
  "serial_port_address Comm1 = 0x3f8"
| "serial_port_address Comm2 = 0x2f8"
| "serial_port_address Comm3 = 0x3e8"
| "serial_port_address Comm4 = 0x2e8"
| "serial_port_address Comm5 = 0x5f8"
| "serial_port_address Comm6 = 0x4f8"
| "serial_port_address Comm7 = 0x5e8"
| "serial_port_address Comm8 = 0x4e8"

record SerialWriter =
  sw_ports :: "SerialPort option list"

definition SERIAL_WRITER :: SerialWriter where
  "SERIAL_WRITER = \<lparr> sw_ports = map Some [Comm1, Comm2, Comm3, Comm4, Comm5, Comm6, Comm7, Comm8] \<rparr>"

text \<open>The writes to ports so far, oldest first.  \<open>inb w p\<close> is what a read of port \<open>p\<close> returns after the writes \<open>w\<close>.\<close>

type_synonym port_writes = "(u16 \<times> u8) list"

definition outb_8 :: "u16 \<Rightarrow> u8 \<Rightarrow> port_writes \<Rightarrow> port_writes" where
  "outb_8 port v w = w @ [(port, v)]"

definition serial_port_init :: "(port_writes \<Rightarrow> u16 \<Rightarrow> u8) \<Rightarrow> SerialPort \<Rightarrow> port_writes \<Rightarrow> (SerialError + unit) \<times> port_writes" where
  "serial_port_init inb p w =
     (let a = serial_port_address p;
          w = outb_8 (a + 1) 0 w;
          w = outb_8 (a + 3) 0x80 w;
          w = outb_8 a 3 w;
          w = outb_8 (a + 1) 0 w;
          w = outb_8 (a + 3) 3 w;
          w = outb_8 (a + 2) 0xC7 w;
          w = outb_8 (a + 4) 0x0B w;
          w = outb_8 (a + 4) 0x1E w;
          w = outb_8 a 0xAE w
      in if inb w a \<noteq> 0xae then (Err FaultySerialPort, w)
         else (Ok (), outb_8 (a + 4) 0xf w))"

definition serial_write_byte :: "SerialPort \<Rightarrow> u8 \<Rightarrow> port_writes \<Rightarrow> port_writes" where
  "serial_write_byte p byte w =
     (let w = (if byte = 10 then outb_8 (serial_port_address p) 13 w else w)
      in outb_8 (serial_port_address p) byte w)"

text \<open>The loop of \<open>SerialWriter::init\<close> runs over a copy of the array, as arrays of \<open>Copy\<close> values are iterated by value: the
  assignment that is to mark a port as unusable changes the copy.\<close>

fun serial_init_loop :: "(port_writes \<Rightarrow> u16 \<Rightarrow> u8) \<Rightarrow> SerialPort option list \<Rightarrow> port_writes \<Rightarrow> port_writes" where
  "serial_init_loop inb [] w = w"
| "serial_init_loop inb (None # ps) w = serial_init_loop inb ps w"
| "serial_init_loop inb (Some p # ps) w = serial_init_loop inb ps (snd (serial_port_init inb p w))"

definition serial_writer_init :: "(port_writes \<Rightarrow> u16 \<Rightarrow> u8) \<Rightarrow> SerialWriter \<Rightarrow> port_writes \<Rightarrow> SerialWriter \<times> port_writes" where
  "serial_writer_init inb s w = (s, serial_init_loop inb (sw_ports s) w)"

fun write_ports :: "SerialPort option list \<Rightarrow> u8 \<Rightarrow> port_writes \<Rightarrow> port_writes" where
  "write_ports [] byte w = w"
| "write_ports (None # ps) byte w = write_ports ps byte w"
| "write_ports (Some p # ps) byte w = write_ports ps byte (serial_write_byte p byte w)"

definition write_byte_all :: "SerialWriter \<Rightarrow> u8 \<Rightarrow> port_writes \<Rightarrow> port_writes" where
  "write_byte_all s byte w = write_ports (sw_ports s) byte w"

subsection \<open>Framebuffer\<close>

datatype FramebufferError = InvalidCharacter

record RawFramebuffer =
  fb_ptr :: usize
  fb_width :: usize
  fb_height :: usize
  fb_pitch :: usize
  fb_bpp :: u16

record FramebufferWriter =
  fw_framebuffer :: RawFramebuffer
  fw_curr_y :: usize
  fw_curr_x :: usize
  fw_disabled :: bool

definition FRAMEBUFFER_WRITER :: FramebufferWriter where
  "FRAMEBUFFER_WRITER = \<lparr> fw_framebuffer = \<lparr> fb_ptr = 0, fb_width = 0, fb_height = 0, fb_pitch = 0, fb_bpp = 0 \<rparr>,
     fw_curr_y = 0, fw_curr_x = 0, fw_disabled = False \<rparr>"

definition framebuffer_writer_new :: "usize \<Rightarrow> usize \<Rightarrow> usize \<Rightarrow> usize \<Rightarrow> u16 \<Rightarrow> FramebufferWriter" where
  "framebuffer_writer_new ptr width height pitch bpp =
     \<lparr> fw_framebuffer = \<lparr> fb_ptr = ptr, fb_width = width, fb_height = height, fb_pitch = pitch, fb_bpp = bpp \<rparr>,
       fw_curr_y = 0, fw_curr_x = 0, fw_disabled = False \<rparr>"

type_synonym fbmem = "nat \<Rightarrow> u8"

text \<open>The assignment of a \<open>u32\<close>, low byte first.\<close>

definition store_u32 :: "fbmem \<Rightarrow> nat \<Rightarrow> u32 \<Rightarrow> fbmem" where
  "store_u32 mem a v = mem(a := ucast v, a + 1 := ucast (drop_bit 8 v), a + 2 := ucast (drop_bit 16 v), a + 3 := ucast (drop_bit 24 v))"

definition draw_pixel :: "FramebufferWriter \<Rightarrow> usize \<Rightarrow> usize \<Rightarrow> u32 \<Rightarrow> fbmem \<Rightarrow> fbmem option" where
  "draw_pixel f x y color mem = do {
     y \<leftarrow> umul y (fb_pitch (fw_framebuffer f));
     x \<leftarrow> umul x (unat (fb_bpp (fw_framebuffer f) div 8));
     off \<leftarrow> uadd x y;
     Some (store_u32 mem (fb_ptr (fw_framebuffer f) + off) color) }"

definition scroll_y :: "FramebufferWriter \<Rightarrow> FramebufferWriter option" where
  "scroll_y f = do {
     y \<leftarrow> uadd (fw_curr_y f) 16;
     let f = f \<lparr> fw_curr_y := y \<rparr>;
     Some (if fb_height (fw_framebuffer f) \<le> y then f \<lparr> fw_disabled := True \<rparr> else f) }"

definition scroll_x :: "FramebufferWriter \<Rightarrow> u8 \<Rightarrow> FramebufferWriter option" where
  "scroll_x f character = do {
     x \<leftarrow> uadd (fw_curr_x f) 8;
     let f = f \<lparr> fw_curr_x := x \<rparr>;
     if fb_width (fw_framebuffer f) \<le> x \<or> character = 10 then scroll_y (f \<lparr> fw_curr_x := 0 \<rparr>)
     else Some f }"

fun draw_row :: "FramebufferWriter \<Rightarrow> u8 \<Rightarrow> nat \<Rightarrow> nat list \<Rightarrow> fbmem \<Rightarrow> fbmem option" where
  "draw_row f char_bit y [] mem = Some mem"
| "draw_row f char_bit y (x # xs) mem = do {
     mem \<leftarrow> (if drop_bit x char_bit AND 1 \<noteq> 0
             then do {
               px \<leftarrow> uadd x (fw_curr_x f);
               py \<leftarrow> uadd y (fw_curr_y f);
               draw_pixel f px py 0x00ffffff mem }
             else Some mem);
     draw_row f char_bit y xs mem }"

fun draw_rows :: "FramebufferWriter \<Rightarrow> nat \<Rightarrow> nat list \<Rightarrow> fbmem \<Rightarrow> fbmem option" where
  "draw_rows f index [] mem = Some mem"
| "draw_rows f index (y # ys) mem = do {
     glyph \<leftarrow> idx BITMAP_FONT_8X16 index;
     char_bit \<leftarrow> idx glyph y;
     mem \<leftarrow> draw_row f char_bit y [0..<8] mem;
     draw_rows f index ys mem }"

definition draw_char :: "FramebufferWriter \<Rightarrow> u8 \<Rightarrow> fbmem \<Rightarrow> ((FramebufferError + unit) \<times> FramebufferWriter \<times> fbmem) option" where
  "draw_char f character mem =
     (if fw_disabled f then Some (Ok (), f, mem)
      else do {
        let index = unat character;
        if length BITMAP_FONT_8X16 \<le> index then Some (Err InvalidCharacter, f, mem)
        else do {
          mem \<leftarrow> draw_rows f index [0..<16] mem;
          f \<leftarrow> scroll_x f character;
          Some (Ok (), f, mem) } })"

subsection \<open>The writer\<close>

record Logger =
  lg_serial :: SerialWriter
  lg_writes :: port_writes
  lg_framebuffer :: FramebufferWriter
  lg_mem :: fbmem

text \<open>The boot loader describes its framebuffer by address, width, height, pitch and bits per pixel.\<close>

definition framebuffer_init_from_limine :: "usize \<Rightarrow> usize \<Rightarrow> usize \<Rightarrow> usize \<Rightarrow> u16 \<Rightarrow> Logger \<Rightarrow> Logger" where
  "framebuffer_init_from_limine addr width height pitch bpp l =
     l \<lparr> lg_framebuffer := framebuffer_writer_new addr width height pitch bpp \<rparr>"

text \<open>\<open>serial\<close> and \<open>framebuffer\<close> say which of the two features the logger is compiled with.\<close>

fun logger_write_str :: "bool \<Rightarrow> bool \<Rightarrow> u8 list \<Rightarrow> Logger \<Rightarrow> Logger option" where
  "logger_write_str serial framebuffer [] l = Some l"
| "logger_write_str serial framebuffer (byte # bs) l = do {
     let l = (if serial then l \<lparr> lg_writes := write_byte_all (lg_serial l) byte (lg_writes l) \<rparr> else l);
     l \<leftarrow> (if framebuffer
           then do {
             (r, f, mem) \<leftarrow> draw_char (lg_framebuffer l) byte (lg_mem l);
             _ \<leftarrow> unwrap_ok r;
             Some (l \<lparr> lg_framebuffer := f, lg_mem := mem \<rparr>) }
           else Some l);
     logger_write_str serial framebuffer bs l }"

subsection \<open>Pixels\<close>

definition load_u32 :: "fbmem \<Rightarrow> nat \<Rightarrow> u32" where
  "load_u32 mem a = ucast (mem a) OR push_bit 8 (ucast (mem (a + 1))) OR push_bit 16 (ucast (mem (a + 2))) OR push_bit 24 (ucast (mem (a + 3)))"

definition fb_bytes :: "RawFramebuffer \<Rightarrow> nat" where
  "fb_bytes b = unat (fb_bpp b div 8)"

definition pixel_at :: "RawFramebuffer \<Rightarrow> nat \<Rightarrow> nat \<Rightarrow> nat" where
  "pixel_at b x y = fb_ptr b + (x * fb_bytes b + y * fb_pitch b)"

definition pixel :: "RawFramebuffer \<Rightarrow> fbmem \<Rightarrow> nat \<Rightarrow> nat \<Rightarrow> u32" where
  "pixel b mem x y = load_u32 mem (pixel_at b x y)"

text \<open>A framebuffer with pixels of at least four bytes, whose width and height are multiples of those of a character.\<close>

definition geometry_ok :: "RawFramebuffer \<Rightarrow> bool" where
  "geometry_ok b \<longleftrightarrow> 4 \<le> fb_bytes b \<and> fb_width b * fb_bytes b \<le> fb_pitch b \<and> fb_height b * fb_pitch b < USIZE_LIM
     \<and> 8 dvd fb_width b \<and> 16 dvd fb_height b \<and> 0 < fb_width b \<and> 0 < fb_height b"

lemma load_store_u32: "load_u32 (store_u32 mem a v) a = v"
proof (rule bit_word_eqI)
  fix n assume n: "n < LENGTH(32)"
  consider "n < 8" | "8 \<le> n" "n < 16" | "16 \<le> n" "n < 24" | "24 \<le> n" by linarith
  then show "bit (load_u32 (store_u32 mem a v) a) n \<longleftrightarrow> bit v n"
    using n by cases (auto simp: load_u32_def store_u32_def bit_simps)
qed

lemma store_u32_other: "c < a \<or> a + 4 \<le> c \<Longrightarrow> store_u32 mem a v c = mem c"
  by (auto simp: store_u32_def)

lemma load_store_u32_other: "a + 4 \<le> c \<or> c + 4 \<le> a \<Longrightarrow> load_u32 (store_u32 mem a v) c = load_u32 mem c"
proof -
  assume "a + 4 \<le> c \<or> c + 4 \<le> a"
  then have "store_u32 mem a v (c + i) = mem (c + i)" if "i < 4" for i using that by (intro store_u32_other) auto
  from this [of 0] this [of 1] this [of 2] this [of 3] show ?thesis by (simp add: load_u32_def)
qed

lemma pixel_bounds:
  assumes "geometry_ok b" and "x < fb_width b" and "y < fb_height b"
  shows "x * fb_bytes b + 4 \<le> fb_pitch b" and "x * fb_bytes b + y * fb_pitch b + 4 \<le> fb_height b * fb_pitch b"
proof -
  from assms(1) have g: "4 \<le> fb_bytes b" "fb_width b * fb_bytes b \<le> fb_pitch b" by (simp_all add: geometry_ok_def)
  have "(x + 1) * fb_bytes b \<le> fb_width b * fb_bytes b" using assms(2) by (intro mult_right_mono) simp_all
  with g show x: "x * fb_bytes b + 4 \<le> fb_pitch b" by simp
  have "(y + 1) * fb_pitch b \<le> fb_height b * fb_pitch b" using assms(3) by (intro mult_right_mono) simp_all
  with x show "x * fb_bytes b + y * fb_pitch b + 4 \<le> fb_height b * fb_pitch b" by simp
qed

lemma pixels_apart:
  assumes g: "geometry_ok b" and "x < fb_width b" and "x' < fb_width b" and ne: "(x, y) \<noteq> (x', y')"
    and y: "y < fb_height b" "y' < fb_height b"
  shows "pixel_at b x y + 4 \<le> pixel_at b x' y' \<or> pixel_at b x' y' + 4 \<le> pixel_at b x y"
proof -
  have below: "pixel_at b u v + 4 \<le> pixel_at b u' v'" if "v < v'" "u < fb_width b" "v < fb_height b" for u v u' v'
  proof -
    have "(v + 1) * fb_pitch b \<le> v' * fb_pitch b" using that(1) by (intro mult_right_mono) simp_all
    with pixel_bounds(1) [OF g that(2,3)] show ?thesis by (simp add: pixel_at_def)
  qed
  have left: "pixel_at b u y + 4 \<le> pixel_at b u' y" if "u < u'" for u u'
  proof -
    have "(u + 1) * fb_bytes b \<le> u' * fb_bytes b" using that by (intro mult_right_mono) simp_all
    moreover have "4 \<le> fb_bytes b" using g by (simp add: geometry_ok_def)
    ultimately show ?thesis by (simp add: pixel_at_def)
  qed
  consider "y < y'" | "y' < y" | "y = y'" "x < x'" | "y = y'" "x' < x" using ne by fastforce
  then show ?thesis using below left assms(2,3) y by cases blast+
qed

definition in_pixels :: "RawFramebuffer \<Rightarrow> (nat \<Rightarrow> nat \<Rightarrow> bool) \<Rightarrow> nat \<Rightarrow> bool" where
  "in_pixels b W a \<longleftrightarrow> (\<exists>x < fb_width b. \<exists>y < fb_height b. W x y \<and> pixel_at b x y \<le> a \<and> a < pixel_at b x y + 4)"

lemma in_pixels_or: "in_pixels b (\<lambda>x y. V x y \<or> W x y) a \<longleftrightarrow> in_pixels b V a \<or> in_pixels b W a"
  unfolding in_pixels_def by blast

text \<open>What a set of white pixels makes of a memory: these pixels are white, and no byte but their four changes - neither of another
  pixel, nor between the end of a row and the next, nor outside the framebuffer.\<close>

definition whitened :: "RawFramebuffer \<Rightarrow> (nat \<Rightarrow> nat \<Rightarrow> bool) \<Rightarrow> fbmem \<Rightarrow> fbmem \<Rightarrow> bool" where
  "whitened b W mem mem' \<longleftrightarrow> (\<forall>x < fb_width b. \<forall>y < fb_height b. pixel b mem' x y = (if W x y then 0x00ffffff else pixel b mem x y))
     \<and> (\<forall>a. \<not> in_pixels b W a \<longrightarrow> mem' a = mem a)"

lemma whitened_refl: "whitened b (\<lambda>_ _. False) mem mem"
  by (simp add: whitened_def)

lemma whitened_trans: "whitened b V mem mem1 \<Longrightarrow> whitened b W mem1 mem2 \<Longrightarrow> whitened b (\<lambda>x y. V x y \<or> W x y) mem mem2"
  by (simp add: whitened_def in_pixels_or)

lemma draw_pixel_ok:
  assumes g: "geometry_ok (fw_framebuffer f)" and x: "x < fb_width (fw_framebuffer f)" and y: "y < fb_height (fw_framebuffer f)"
  obtains mem' where "draw_pixel f x y 0x00ffffff mem = Some mem'" and "whitened (fw_framebuffer f) (\<lambda>u v. u = x \<and> v = y) mem mem'"
proof -
  let ?b = "fw_framebuffer f"
  let ?mem = "store_u32 mem (pixel_at ?b x y) 0x00ffffff"
  note bd = pixel_bounds(2) [OF g x y]
  have "fb_height ?b * fb_pitch ?b < USIZE_LIM" using g by (simp add: geometry_ok_def)
  then have "draw_pixel f x y 0x00ffffff mem = Some ?mem"
    using bd by (simp add: draw_pixel_def umul_ok uadd_ok pixel_at_def fb_bytes_def)
  moreover have "pixel ?b ?mem u v = (if u = x \<and> v = y then 0x00ffffff else pixel ?b mem u v)" if "u < fb_width ?b" "v < fb_height ?b" for u v
  proof (cases "u = x \<and> v = y")
    case False
    then have "(x, y) \<noteq> (u, v)" by auto
    from pixels_apart [OF g x that(1) this y that(2)] False show ?thesis by (auto simp: pixel_def load_store_u32_other)
  qed (simp add: pixel_def load_store_u32)
  moreover have "?mem a = mem a" if "\<not> (pixel_at ?b x y \<le> a \<and> a < pixel_at ?b x y + 4)" for a
    using that by (intro store_u32_other) auto
  ultimately show ?thesis using x y by (intro that) (auto simp: whitened_def in_pixels_def)
qed

lemma and_1_bit: "drop_bit x w AND 1 \<noteq> 0 \<longleftrightarrow> bit w x" for w :: "'a::len word"
  by (simp add: and_one_eq bit_iff_odd_drop_bit odd_iff_mod_2_eq_one)

lemma geometry_lim:
  assumes "geometry_ok b"
  shows "fb_width b < USIZE_LIM" and "fb_height b < USIZE_LIM"
proof -
  from assms have g: "4 \<le> fb_bytes b" "fb_width b * fb_bytes b \<le> fb_pitch b" "fb_height b * fb_pitch b < USIZE_LIM" "0 < fb_width b" "0 < fb_height b"
    by (simp_all add: geometry_ok_def)
  have "fb_width b * 1 \<le> fb_width b * fb_bytes b" using g(1) by (intro mult_left_mono) simp_all
  from order_trans [OF this g(2)] have w: "fb_width b \<le> fb_pitch b" by simp
  have p: "1 * fb_pitch b \<le> fb_height b * fb_pitch b" and h: "fb_height b * 1 \<le> fb_height b * fb_pitch b"
    using g(4,5) w by (intro mult_right_mono mult_left_mono; simp)+
  from order.strict_trans1 [OF order_trans [OF w p [unfolded mult_1]] g(3)] show "fb_width b < USIZE_LIM" .
  from order.strict_trans1 [OF h g(3)] show "fb_height b < USIZE_LIM" by simp
qed

lemma draw_row_ok:
  assumes g: "geometry_ok (fw_framebuffer f)" and y: "y + fw_curr_y f < fb_height (fw_framebuffer f)"
    and "\<forall>x \<in> set xs. x + fw_curr_x f < fb_width (fw_framebuffer f)"
  shows "\<exists>mem'. draw_row f cb y xs mem = Some mem'
    \<and> whitened (fw_framebuffer f) (\<lambda>u v. v = y + fw_curr_y f \<and> (\<exists>x \<in> set xs. bit cb x \<and> u = x + fw_curr_x f)) mem mem'"
  using assms(3)
proof (induction xs arbitrary: mem)
  case Nil
  then show ?case by (simp add: whitened_refl)
next
  case (Cons x xs)
  let ?b = "fw_framebuffer f" and ?V = "\<lambda>u v. bit cb x \<and> u = x + fw_curr_x f \<and> v = y + fw_curr_y f"
  have u: "uadd x (fw_curr_x f) = Some (x + fw_curr_x f)" "uadd y (fw_curr_y f) = Some (y + fw_curr_y f)"
    using Cons.prems y geometry_lim [OF g] by (auto intro!: uadd_ok)
  have "\<exists>mem1. (if drop_bit x cb AND 1 \<noteq> 0 then do { px \<leftarrow> uadd x (fw_curr_x f); py \<leftarrow> uadd y (fw_curr_y f); draw_pixel f px py 0x00ffffff mem } else Some mem) = Some mem1
      \<and> whitened ?b ?V mem mem1"
  proof (cases "bit cb x")
    case True
    obtain mem1 where "draw_pixel f (x + fw_curr_x f) (y + fw_curr_y f) 0x00ffffff mem = Some mem1" "whitened ?b (\<lambda>u v. u = x + fw_curr_x f \<and> v = y + fw_curr_y f) mem mem1"
      using draw_pixel_ok [OF g _ y, of "x + fw_curr_x f" mem] Cons.prems by auto
    with True show ?thesis unfolding and_1_bit by (simp add: u)
  next
    case False
    then show ?thesis unfolding and_1_bit by (simp add: whitened_refl)
  qed
  then obtain mem1 where m1: "(if drop_bit x cb AND 1 \<noteq> 0 then do { px \<leftarrow> uadd x (fw_curr_x f); py \<leftarrow> uadd y (fw_curr_y f); draw_pixel f px py 0x00ffffff mem } else Some mem) = Some mem1"
    "whitened ?b ?V mem mem1" by blast
  from Cons.IH [of mem1] Cons.prems obtain mem' where "draw_row f cb y xs mem1 = Some mem'"
    "whitened ?b (\<lambda>u v. v = y + fw_curr_y f \<and> (\<exists>x \<in> set xs. bit cb x \<and> u = x + fw_curr_x f)) mem1 mem'" by auto
  moreover from whitened_trans [OF m1(2) this(2)]
  have "whitened ?b (\<lambda>u v. v = y + fw_curr_y f \<and> (\<exists>z \<in> set (x # xs). bit cb z \<and> u = z + fw_curr_x f)) mem mem'"
    by (rule back_subst [of "\<lambda>W. whitened ?b W mem mem'"]) auto
  ultimately show ?case using m1(1) by (simp del: uadd_def)
qed

lemma draw_rows_ok:
  assumes g: "geometry_ok (fw_framebuffer f)" and c: "fw_curr_x f + 8 \<le> fb_width (fw_framebuffer f)" "fw_curr_y f + 16 \<le> fb_height (fw_framebuffer f)"
    and i: "i < 256" and "set ys \<subseteq> {..<16}"
  shows "\<exists>mem'. draw_rows f i ys mem = Some mem'
    \<and> whitened (fw_framebuffer f) (\<lambda>u v. \<exists>y \<in> set ys. v = y + fw_curr_y f \<and> (\<exists>x < 8. bit (BITMAP_FONT_8X16 ! i ! y) x \<and> u = x + fw_curr_x f)) mem mem'"
  using assms(5)
proof (induction ys arbitrary: mem)
  case Nil
  then show ?case by (simp add: whitened_refl)
next
  case (Cons y ys)
  let ?b = "fw_framebuffer f" and ?cb = "BITMAP_FONT_8X16 ! i ! y"
  have y: "y < 16" "y + fw_curr_y f < fb_height ?b" using Cons.prems c(2) by auto
  have font: "idx BITMAP_FONT_8X16 i = Some (BITMAP_FONT_8X16 ! i)" "idx (BITMAP_FONT_8X16 ! i) y = Some ?cb"
    using i y(1) font_rows [OF i] by (simp_all add: idx_def)
  have "\<forall>x \<in> set [0..<8]. x + fw_curr_x f < fb_width ?b" using c(1) by auto
  from draw_row_ok [OF g y(2) this, of ?cb mem] obtain mem1 where m1: "draw_row f ?cb y [0..<8] mem = Some mem1"
    "whitened ?b (\<lambda>u v. v = y + fw_curr_y f \<and> (\<exists>x \<in> set [0..<8]. bit ?cb x \<and> u = x + fw_curr_x f)) mem mem1" by blast
  have "set ys \<subseteq> {..<16}" using Cons.prems by simp
  from Cons.IH [OF this, of mem1] obtain mem' where m': "draw_rows f i ys mem1 = Some mem'"
    "whitened ?b (\<lambda>u v. \<exists>y \<in> set ys. v = y + fw_curr_y f \<and> (\<exists>x < 8. bit (BITMAP_FONT_8X16 ! i ! y) x \<and> u = x + fw_curr_x f)) mem1 mem'" by blast
  from whitened_trans [OF m1(2) m'(2)]
  have "whitened ?b (\<lambda>u v. \<exists>y \<in> set (y # ys). v = y + fw_curr_y f \<and> (\<exists>x < 8. bit (BITMAP_FONT_8X16 ! i ! y) x \<and> u = x + fw_curr_x f)) mem mem'"
    by (rule back_subst [of "\<lambda>W. whitened ?b W mem mem'"]) (auto simp: fun_eq_iff simp del: upt_Suc)
  then show ?case using font m1(1) m'(1) by (simp del: upt_Suc)
qed

subsection \<open>The framebuffer as a grid of characters\<close>

record TextScreen =
  tx_col :: nat
  tx_row :: nat
  tx_cells :: "nat \<times> nat \<rightharpoonup> u8"

definition text_put :: "nat \<Rightarrow> nat \<Rightarrow> u8 \<Rightarrow> TextScreen \<Rightarrow> TextScreen" where
  "text_put cols rows c t =
     (if rows \<le> tx_row t then t
      else let t = t \<lparr> tx_cells := (tx_cells t)((tx_col t, tx_row t) \<mapsto> c) \<rparr>
           in if cols \<le> tx_col t + 1 \<or> c = 10 then t \<lparr> tx_col := 0, tx_row := tx_row t + 1 \<rparr>
              else t \<lparr> tx_col := tx_col t + 1 \<rparr>)"

definition glyph_pixel :: "(nat \<times> nat \<rightharpoonup> u8) \<Rightarrow> nat \<Rightarrow> nat \<Rightarrow> bool" where
  "glyph_pixel cells x y = (case cells (x div 8, y div 16) of
     Some c \<Rightarrow> bit (BITMAP_FONT_8X16 ! unat c ! (y mod 16)) (x mod 8) | None \<Rightarrow> False)"

text \<open>Compared with \<open>base\<close>, the memory shows the characters of the grid and differs nowhere else.\<close>

definition shows_text :: "FramebufferWriter \<Rightarrow> fbmem \<Rightarrow> fbmem \<Rightarrow> TextScreen \<Rightarrow> bool" where
  "shows_text f base mem t \<longleftrightarrow> geometry_ok (fw_framebuffer f)
     \<and> fw_curr_x f = 8 * tx_col t \<and> fw_curr_y f = 16 * tx_row t \<and> 8 * tx_col t < fb_width (fw_framebuffer f)
     \<and> fw_disabled f = (fb_height (fw_framebuffer f) \<le> 16 * tx_row t)
     \<and> (\<forall>c r. (c, r) \<in> dom (tx_cells t) \<longrightarrow> r < tx_row t \<or> r = tx_row t \<and> c < tx_col t)
     \<and> whitened (fw_framebuffer f) (glyph_pixel (tx_cells t)) base mem"

lemma glyph_pixel_put:
  assumes "cells (c, r) = None"
  shows "glyph_pixel (cells((c, r) \<mapsto> ch)) x y \<longleftrightarrow> glyph_pixel cells x y
     \<or> (\<exists>j < 16. y = j + 16 * r \<and> (\<exists>i < 8. bit (BITMAP_FONT_8X16 ! unat ch ! j) i \<and> x = i + 8 * c))"
proof (cases "x div 8 = c \<and> y div 16 = r")
  case True
  then have x: "x = x mod 8 + 8 * c" and y: "y = y mod 16 + 16 * r" by (auto simp: mult.commute)
  have "(\<exists>j < 16. y = j + 16 * r \<and> (\<exists>i < 8. bit (BITMAP_FONT_8X16 ! unat ch ! j) i \<and> x = i + 8 * c))
     \<longleftrightarrow> bit (BITMAP_FONT_8X16 ! unat ch ! (y mod 16)) (x mod 8)"
  proof
    assume "\<exists>j < 16. y = j + 16 * r \<and> (\<exists>i < 8. bit (BITMAP_FONT_8X16 ! unat ch ! j) i \<and> x = i + 8 * c)"
    then obtain j i where ji: "j < 16" "y = j + 16 * r" "i < 8" "bit (BITMAP_FONT_8X16 ! unat ch ! j) i" "x = i + 8 * c" by blast
    have "y mod 16 = j" "x mod 8 = i" using ji(1,3) by (simp_all add: ji(2,5))
    with ji(4) show "bit (BITMAP_FONT_8X16 ! unat ch ! (y mod 16)) (x mod 8)" by simp
  next
    assume "bit (BITMAP_FONT_8X16 ! unat ch ! (y mod 16)) (x mod 8)"
    with x y show "\<exists>j < 16. y = j + 16 * r \<and> (\<exists>i < 8. bit (BITMAP_FONT_8X16 ! unat ch ! j) i \<and> x = i + 8 * c)"
      by (intro exI [of _ "y mod 16"] exI [of _ "x mod 8"] conjI) simp_all
  qed
  with True assms show ?thesis by (simp add: glyph_pixel_def)
next
  case False
  then have "\<not> (\<exists>j < 16. y = j + 16 * r \<and> (\<exists>i < 8. x = i + 8 * c))" by auto
  with False show ?thesis by (auto simp: glyph_pixel_def)
qed

lemma draw_char_text:
  assumes "shows_text f base mem t"
  shows "\<exists>f' mem'. draw_char f ch mem = Some (Ok (), f', mem') \<and> fw_framebuffer f' = fw_framebuffer f
    \<and> shows_text f' base mem' (text_put (fb_width (fw_framebuffer f) div 8) (fb_height (fw_framebuffer f) div 16) ch t)"
proof -
  let ?b = "fw_framebuffer f"
  from assms have g: "geometry_ok ?b" and cur: "fw_curr_x f = 8 * tx_col t" "fw_curr_y f = 16 * tx_row t" "8 * tx_col t < fb_width ?b"
    and dis: "fw_disabled f = (fb_height ?b \<le> 16 * tx_row t)" and w: "whitened ?b (glyph_pixel (tx_cells t)) base mem"
    and cells: "\<forall>c r. (c, r) \<in> dom (tx_cells t) \<longrightarrow> r < tx_row t \<or> r = tx_row t \<and> c < tx_col t"
    by (simp_all add: shows_text_def)
  from g obtain W H where wh: "fb_width ?b = 8 * W" "fb_height ?b = 16 * H" by (auto simp: geometry_ok_def elim!: dvdE)
  show ?thesis
  proof (cases "fw_disabled f")
    case True
    then show ?thesis using assms dis wh by (simp add: draw_char_def text_put_def)
  next
    case False
    let ?t = "text_put W H ch t" and ?c = "(tx_cells t)((tx_col t, tx_row t) \<mapsto> ch)"
    have room: "fw_curr_x f + 8 \<le> fb_width ?b" "fw_curr_y f + 16 \<le> fb_height ?b" using cur dis False wh by auto
    have ch: "unat ch < 256" using unsigned_less [of ch, where ?'a = nat] by simp
    have "set [0..<16] \<subseteq> {..<16 :: nat}" by auto
    from draw_rows_ok [OF g room ch this, of mem] obtain mem' where
      m: "draw_rows f (unat ch) [0..<16] mem = Some mem'" and w': "whitened ?b (\<lambda>u v. \<exists>y \<in> set [0..<16]. v = y + fw_curr_y f
        \<and> (\<exists>x < 8. bit (BITMAP_FONT_8X16 ! unat ch ! y) x \<and> u = x + fw_curr_x f)) mem mem'" by blast
    have none: "tx_cells t (tx_col t, tx_row t) = None" using cells by blast
    have cell: "r < tx_row t \<or> r = tx_row t \<and> c < tx_col t" if "tx_cells t (c, r) = Some y" for c r y using cells that by blast
    have wt: "whitened ?b (glyph_pixel ?c) base mem'"
      using whitened_trans [OF w w'] by (rule back_subst [of "\<lambda>W. whitened ?b W base mem'"])
        (simp add: fun_eq_iff glyph_pixel_put [of "tx_cells t", OF none] cur Bex_def atLeast0LessThan del: upt_Suc)
    have lim: "fw_curr_x f + 8 < USIZE_LIM" "fw_curr_y f + 16 < USIZE_LIM" using room geometry_lim [OF g] by simp_all
    define f' where "f' = (if W \<le> tx_col t + 1 \<or> ch = 10 then f \<lparr> fw_curr_x := 0, fw_curr_y := 16 * (tx_row t + 1), fw_disabled := H \<le> tx_row t + 1 \<rparr>
      else f \<lparr> fw_curr_x := 8 * (tx_col t + 1) \<rparr>)"
    have "scroll_x f ch = Some f'"
      using lim False by (auto simp: scroll_x_def scroll_y_def uadd_ok Let_def f'_def cur wh)
    then have "draw_char f ch mem = Some (Ok (), f', mem')" using False m ch by (simp add: draw_char_def del: upt_Suc)
    moreover have "shows_text f' base mem' ?t"
      unfolding shows_text_def using g wt dis False wh cur
      by (auto simp: f'_def text_put_def Let_def geometry_ok_def less_Suc_eq dest: cell)
    ultimately show ?thesis using wh by (intro exI [of _ f'] exI [of _ mem']) (simp add: f'_def)
  qed
qed

text \<open>When the height is not a multiple of 16 the rows of the last line that lie below the framebuffer are drawn all the same: the
  memory behind it is overwritten.\<close>

lemma draw_char_overruns:
  assumes g: "geometry_ok ((fw_framebuffer f) \<lparr> fb_height := fw_curr_y f + 16 \<rparr>)" and "\<not> fw_disabled f"
    and c: "fw_curr_x f + 8 \<le> fb_width (fw_framebuffer f)"
    and row: "j < 16" "i < 8" "bit (BITMAP_FONT_8X16 ! unat ch ! j) i" "fb_height (fw_framebuffer f) \<le> fw_curr_y f + j"
  shows "\<exists>f' mem' a. draw_char f ch mem = Some (Ok (), f', mem')
    \<and> fb_ptr (fw_framebuffer f) + fb_height (fw_framebuffer f) * fb_pitch (fw_framebuffer f) \<le> a \<and> load_u32 mem' a = 0x00ffffff"
proof -
  let ?b = "fw_framebuffer f" and ?f = "f \<lparr> fw_framebuffer := (fw_framebuffer f) \<lparr> fb_height := fw_curr_y f + 16 \<rparr> \<rparr>"
  have same: "draw_pixel ?f x y v m = draw_pixel f x y v m" for x y v m by (simp add: draw_pixel_def)
  have row_eq: "draw_row ?f cb y xs = draw_row f cb y xs" for cb y xs
    by (induction xs) (auto intro!: ext simp: same)
  have rows_eq: "draw_rows ?f k ys = draw_rows f k ys" for k ys
    by (induction ys) (auto intro!: ext simp: row_eq simp del: upt_Suc)
  have ch: "unat ch < 256" using unsigned_less [of ch, where ?'a = nat] by simp
  have sub: "set [0..<16] \<subseteq> {..<16 :: nat}" by auto
  have "geometry_ok (fw_framebuffer ?f)" "fw_curr_x ?f + 8 \<le> fb_width (fw_framebuffer ?f)" "fw_curr_y ?f + 16 \<le> fb_height (fw_framebuffer ?f)"
    using g c by simp_all
  from draw_rows_ok [OF this ch sub, of mem] obtain mem' where m: "draw_rows f (unat ch) [0..<16] mem = Some mem'"
    and w: "whitened (fw_framebuffer ?f) (\<lambda>u v. \<exists>y \<in> set [0..<16]. v = y + fw_curr_y ?f
      \<and> (\<exists>x < 8. bit (BITMAP_FONT_8X16 ! unat ch ! y) x \<and> u = x + fw_curr_x ?f)) mem mem'"
    unfolding rows_eq by blast
  let ?x = "i + fw_curr_x f" and ?y = "j + fw_curr_y f"
  have "?x < fb_width (fw_framebuffer ?f)" "?y < fb_height (fw_framebuffer ?f)" using row(1,2) c by simp_all
  then have "pixel (fw_framebuffer ?f) mem' ?x ?y = 0x00ffffff"
    using w row(1-3) unfolding whitened_def by (auto simp del: upt_Suc)
  then have "load_u32 mem' (pixel_at ?b ?x ?y) = 0x00ffffff" by (simp add: pixel_def pixel_at_def fb_bytes_def)
  moreover have "fb_height ?b * fb_pitch ?b \<le> ?y * fb_pitch ?b" using row(4) by (intro mult_right_mono) simp_all
  then have "fb_ptr ?b + fb_height ?b * fb_pitch ?b \<le> pixel_at ?b ?x ?y"
    unfolding pixel_at_def by (intro add_left_mono) (rule trans_le_add2)
  moreover have lim: "fw_curr_x f + 8 < USIZE_LIM" "fw_curr_y f + 16 < USIZE_LIM" using c geometry_lim [OF g] by simp_all
  then obtain f' where "scroll_x f ch = Some f'"
    by (cases "fb_width ?b \<le> fw_curr_x f + 8 \<or> ch = 10") (auto simp: scroll_x_def scroll_y_def uadd_ok Let_def)
  then have "draw_char f ch mem = Some (Ok (), f', mem')" using assms(2) m ch by (simp add: draw_char_def del: upt_Suc)
  ultimately show ?thesis by blast
qed

subsection \<open>The writer\<close>

text \<open>What one byte becomes on the serial ports.\<close>

definition serial_bytes :: "SerialWriter \<Rightarrow> u8 \<Rightarrow> port_writes" where
  "serial_bytes s byte = concat (map (\<lambda>p. (if byte = 10 then [(serial_port_address p, 13)] else []) @ [(serial_port_address p, byte)])
     (map the (filter (\<lambda>p. p \<noteq> None) (sw_ports s))))"

lemma write_byte_all_eq: "write_byte_all s byte w = w @ serial_bytes s byte"
proof -
  have "write_ports ps byte w = w @ concat (map (\<lambda>p. (if byte = 10 then [(serial_port_address p, 13)] else []) @ [(serial_port_address p, byte)])
     (map the (filter (\<lambda>p. p \<noteq> None) ps)))" for ps
    by (induction ps byte w rule: write_ports.induct) (simp_all add: serial_write_byte_def outb_8_def Let_def)
  then show ?thesis by (simp add: write_byte_all_def serial_bytes_def)
qed

text \<open>C20: Writing a string to the log.  On a framebuffer with pixels of at least 32 bits whose width is a multiple of 8 and whose height is a multiple of 16
  (for other heights the last line is drawn beyond the end, \<open>draw_char_overruns\<close>), the writer never fails; the memory then shows the text as a grid of characters, each in its own cell, with a
  new line after a line feed or a full line and nothing drawn once the last line is full.  Compared with the memory \<open>base\<close> before the first character,
  exactly the pixels of the glyphs are white, and no byte that does not belong to such a pixel has changed, inside or outside the framebuffer.  Every byte goes to every serial port in turn, a line feed preceded by a carriage return.\<close>
theorem logger_write_str_correct:
  assumes "shows_text (lg_framebuffer l) base (lg_mem l) t"
  shows "\<exists>l'. logger_write_str serial True s l = Some l' \<and> lg_serial l' = lg_serial l
    \<and> fw_framebuffer (lg_framebuffer l') = fw_framebuffer (lg_framebuffer l)
    \<and> shows_text (lg_framebuffer l') base (lg_mem l')
        (fold (text_put (fb_width (fw_framebuffer (lg_framebuffer l)) div 8) (fb_height (fw_framebuffer (lg_framebuffer l)) div 16)) s t)
    \<and> lg_writes l' = lg_writes l @ (if serial then concat (map (serial_bytes (lg_serial l)) s) else [])"
  using assms
proof (induction s arbitrary: l t)
  case (Cons byte s)
  from draw_char_text [OF Cons.prems, of byte] obtain f mem where
    d: "draw_char (lg_framebuffer l) byte (lg_mem l) = Some (Ok (), f, mem)" "fw_framebuffer f = fw_framebuffer (lg_framebuffer l)"
    "shows_text f base mem (text_put (fb_width (fw_framebuffer (lg_framebuffer l)) div 8) (fb_height (fw_framebuffer (lg_framebuffer l)) div 16) byte t)" by blast
  define l1 where "l1 = (if serial then l \<lparr> lg_writes := write_byte_all (lg_serial l) byte (lg_writes l) \<rparr> else l) \<lparr> lg_framebuffer := f, lg_mem := mem \<rparr>"
  have l1: "lg_framebuffer l1 = f" "lg_mem l1 = mem" "lg_serial l1 = lg_serial l" "lg_writes l1 = lg_writes l @ (if serial then serial_bytes (lg_serial l) byte else [])"
    by (simp_all add: l1_def write_byte_all_eq)
  from d(3) have "shows_text (lg_framebuffer l1) base (lg_mem l1)
      (text_put (fb_width (fw_framebuffer (lg_framebuffer l)) div 8) (fb_height (fw_framebuffer (lg_framebuffer l)) div 16) byte t)" unfolding l1 .
  from Cons.IH [OF this] show ?case
    using d(1) unfolding l1 d(2) by (auto simp: Let_def l1_def)
qed simp

lemma shows_text_new:
  assumes "geometry_ok (fw_framebuffer (framebuffer_writer_new ptr w h p bpp))"
  shows "shows_text (framebuffer_writer_new ptr w h p bpp) mem mem \<lparr> tx_col = 0, tx_row = 0, tx_cells = Map.empty \<rparr>"
  using assms by (simp add: shows_text_def framebuffer_writer_new_def whitened_def glyph_pixel_def geometry_ok_def)

theorem logger_write_str_correct_witness:
  "\<exists>l'. logger_write_str True True [0x48, 0x69, 10] \<lparr> lg_serial = \<lparr> sw_ports = [Some Comm1, None] \<rparr>, lg_writes = [],
        lg_framebuffer = framebuffer_writer_new 0x10000 16 32 64 32, lg_mem = (\<lambda>_. 0) \<rparr> = Some l'
     \<and> lg_writes l' = [(0x3f8, 0x48), (0x3f8, 0x69), (0x3f8, 13), (0x3f8, 10)]"
proof -
  let ?f = "framebuffer_writer_new 0x10000 16 32 64 32"
  let ?l = "\<lparr> lg_serial = \<lparr> sw_ports = [Some Comm1, None] \<rparr>, lg_writes = [], lg_framebuffer = ?f, lg_mem = (\<lambda>_. 0) \<rparr>"
  have "geometry_ok (fw_framebuffer ?f)" by (simp add: geometry_ok_def framebuffer_writer_new_def fb_bytes_def USIZE_LIM_def)
  from shows_text_new [OF this, of "\<lambda>_. 0"]
  have "shows_text (lg_framebuffer ?l) (\<lambda>_. 0) (lg_mem ?l) \<lparr> tx_col = 0, tx_row = 0, tx_cells = Map.empty \<rparr>" by simp
  from logger_write_str_correct [OF this, of True "[0x48, 0x69, 10]"] show ?thesis
    by (auto simp: serial_bytes_def)
qed

end
