(* ===== verification/Boot_Map.thy ===== *)
theory Boot_Map
  imports Paging_Init
begin

text \<open>
  The page tables that \<open>init_from_limine\<close> in \<open>kernel/src/arch/x86_64/paging/mod.rs\<close> builds from the boot loader's memory map.
  The hardware's view of the tables is a map from the low 48 bits of virtual addresses to physical addresses, byte by byte;
  \<open>map_in_entry\<close> adds exactly one region to it, whatever page sizes it picks.  The tables hold no empty table, so that a large page
  never meets one; and the frames they take are exactly the tables needed for the mapped addresses.
\<close>

subsection \<open>The address space\<close>

text \<open>What the processor makes of an address: the page of the last entry on its walk, at the offset of the address in it.\<close>

definition maps_to :: "usize \<Rightarrow> Paging \<Rightarrow> nat \<Rightarrow> nat \<Rightarrow> nat \<Rightarrow> bool" where
  "maps_to hhdm t root va pa \<longleftrightarrow>
     (\<exists>l e. leaf hhdm t root va l e \<and> bit e 0 \<and> pa = entry_addr (12 + 9 * l) e + va mod 2 ^ (12 + 9 * l))"

lemma maps_to_unique: "maps_to hhdm t root va pa \<Longrightarrow> maps_to hhdm t root va pa' \<Longrightarrow> pa = pa'"
  unfolding maps_to_def by (metis leaf_unique)

lemma unmapped_no_map: "unmapped hhdm t root va \<Longrightarrow> \<not> maps_to hhdm t root va pa"
  unfolding maps_to_def ends_def by (metis bit_0_eq bot_apply bot_bool_def leaf_unique(2))

lemma maps_to_ends:
  "maps_to hhdm t root va pa \<longleftrightarrow> (\<exists>l e. ends hhdm t root va l e \<and> bit e 0 \<and> pa = entry_addr (12 + 9 * l) e + va mod 2 ^ (12 + 9 * l))"
proof -
  have "ends hhdm t root va l e = leaf hhdm t root va l e" if "bit e 0" for l e
    using that by (auto simp: ends_def)
  then show ?thesis unfolding maps_to_def by blast
qed

text \<open>Only the low 48 bits of an address matter.\<close>

lemma low_bits:
  assumes "va < USIZE_LIM"
  shows "vdig (va mod 2 ^ 48) l = vdig va l" and "l \<le> 3 \<Longrightarrow> path (va mod 2 ^ 48) l = path va l"
    and "l \<le> 3 \<Longrightarrow> next_level_index (va mod 2 ^ 48) l = next_level_index va l"
proof -
  have b: "va mod 2 ^ 48 < USIZE_LIM" using assms by (meson le_less_trans mod_less_eq_dividend)
  show v: "vdig (va mod 2 ^ 48) l = vdig va l" for l by (simp add: vdig_def)
  show "l \<le> 3 \<Longrightarrow> path (va mod 2 ^ 48) l = path va l" using path_eq_iff [OF assms b] v by simp
  show "l \<le> 3 \<Longrightarrow> next_level_index (va mod 2 ^ 48) l = next_level_index va l"
    using next_level_index_vdig assms b v by simp
qed

lemma leaf_low:
  assumes "va < USIZE_LIM"
  shows "leaf hhdm t root (va mod 2 ^ 48) l e = leaf hhdm t root va l e"
  unfolding leaf_def using low_bits(2,3) [OF assms, of l] by auto

lemma maps_to_low:
  assumes "va < USIZE_LIM"
  shows "maps_to hhdm t root (va mod 2 ^ 48) pa = maps_to hhdm t root va pa"
proof -
  have "va mod 2 ^ 48 mod 2 ^ (12 + 9 * l) = va mod 2 ^ (12 + 9 * l)" if "l \<le> 3" for l
    using that by (intro mod_mod_cancel le_imp_power_dvd) simp
  moreover have "l \<le> 3" if "leaf hhdm t root va l e" for l e using that by (simp add: leaf_def)
  ultimately show ?thesis unfolding maps_to_def leaf_low [OF assms] by metis
qed

text \<open>The tables below the top-level table, and those that are needed for a set of addresses.\<close>

definition tables :: "usize \<Rightarrow> Paging \<Rightarrow> nat \<Rightarrow> nat list set" where
  "tables hhdm t root = {js. js \<noteq> [] \<and> length js \<le> 3 \<and> walk hhdm t root js \<noteq> None}"

definition tables_for :: "nat set \<Rightarrow> nat list set" where
  "tables_for S = (\<Union>v \<in> S. path v ` {..<3})"

lemma tables_for_mono: "S \<subseteq> S' \<Longrightarrow> tables_for S \<subseteq> tables_for S'"
  by (auto simp: tables_for_def)

lemma tables_for_Un: "tables_for (S \<union> S') = tables_for S \<union> tables_for S'"
  by (auto simp: tables_for_def)

lemma finite_tables_for: "S \<subseteq> {..<n} \<Longrightarrow> finite (tables_for S)"
  unfolding tables_for_def by (rule finite_subset [of _ "\<Union>v \<in> {..<n}. path v ` {..<3}"]) auto

text \<open>The address space \<open>A\<close> is what the tables realise, and every table is needed for it.\<close>

definition space_inv :: "nat \<Rightarrow> nat \<Rightarrow> usize \<Rightarrow> nat \<Rightarrow> Paging \<Rightarrow> (nat \<rightharpoonup> nat) \<Rightarrow> nat set \<Rightarrow> bool" where
  "space_inv L M hhdm root t A U \<longleftrightarrow>
     pt_wf hhdm t root U \<and> pmm_free_bytes L M (pg_pmm t) U \<and> M + hhdm \<le> USIZE_LIM \<and> 0 < hhdm \<and> dom A \<subseteq> {..<2 ^ 48}
     \<and> (\<forall>v pa. A v = Some pa \<longrightarrow> maps_to hhdm t root v pa) \<and> (\<forall>v < 2 ^ 48. A v = None \<longrightarrow> unmapped hhdm t root v)
     \<and> tables hhdm t root \<subseteq> tables_for (dom A)"

lemma space_invD:
  assumes "space_inv L M hhdm root t A U"
  shows "pt_wf hhdm t root U" and "pmm_free_bytes L M (pg_pmm t) U" and "M + hhdm \<le> USIZE_LIM" and "0 < hhdm" and "dom A \<subseteq> {..<2 ^ 48}"
    and "A v = Some pa \<Longrightarrow> maps_to hhdm t root v pa" and "v < 2 ^ 48 \<Longrightarrow> A v = None \<Longrightarrow> unmapped hhdm t root v"
    and "tables hhdm t root \<subseteq> tables_for (dom A)"
  using assms unfolding space_inv_def by blast+

lemma space_maps_to:
  assumes "space_inv L M hhdm root t A U" and "v < 2 ^ 48"
  shows "maps_to hhdm t root v pa \<longleftrightarrow> A v = Some pa"
proof (cases "A v")
  case None
  then show ?thesis using unmapped_no_map space_invD(7) [OF assms None] by simp
next
  case (Some q)
  then show ?thesis using space_invD(6) [OF assms(1) Some] maps_to_unique by auto
qed

lemma finite_tables:
  assumes "space_inv L M hhdm root t A U"
  shows "finite (tables hhdm t root)"
  using space_invD(5,8) [OF assms] finite_tables_for finite_subset by blast

text \<open>The frames that are free or hold tables.\<close>

definition budget :: "usize \<Rightarrow> Paging \<Rightarrow> nat \<Rightarrow> nat set \<Rightarrow> nat" where
  "budget hhdm t root U = card U + card (tables hhdm t root) * BASIC_PAGE_SIZE"

lemma budget_room:
  assumes inv: "space_inv L M hhdm root t A U" and S: "dom A \<subseteq> S" "S \<subseteq> {..<2 ^ 48}"
    and room: "(card (tables_for S) + 3) * BASIC_PAGE_SIZE \<le> budget hhdm t root U"
  shows "3 * BASIC_PAGE_SIZE \<le> card U"
proof -
  have "tables hhdm t root \<subseteq> tables_for S" using space_invD(8) [OF inv] tables_for_mono [OF S(1)] by blast
  then have "card (tables hhdm t root) \<le> card (tables_for S)" using finite_tables_for [OF S(2)] by (rule card_mono [rotated])
  then have "card (tables hhdm t root) * BASIC_PAGE_SIZE \<le> card (tables_for S) * BASIC_PAGE_SIZE" by (rule mult_le_mono1)
  then show ?thesis using room unfolding budget_def add_mult_distrib by linarith
qed

lemma grown_tables:
  assumes "grown hhdm t t' root N" and "N \<subseteq> path va ` {..<3}"
  shows "tables hhdm t' root = tables hhdm t root \<union> N" and "tables hhdm t root \<inter> N = {}"
proof -
  have N: "js \<noteq> [] \<and> length js \<le> 3" if "js \<in> N" for js
  proof -
    from assms(2) that obtain k where "js = path va k" "k < 3" by auto
    then show ?thesis using path_simps(3) [of va k] by auto
  qed
  have g: "(walk hhdm t' root js \<noteq> None) = (js \<in> N \<or> walk hhdm t root js \<noteq> None)" if "length js \<le> 3" for js
  proof -
    have "length js \<le> 4" using that by simp
    from conjunct1 [OF assms(1) [unfolded grown_def], rule_format, OF this] show ?thesis .
  qed
  show "tables hhdm t' root = tables hhdm t root \<union> N"
  proof (intro set_eqI iffI)
    fix js assume "js \<in> tables hhdm t' root"
    then show "js \<in> tables hhdm t root \<union> N" using g [of js] by (auto simp: tables_def)
  next
    fix js assume "js \<in> tables hhdm t root \<union> N"
    then show "js \<in> tables hhdm t' root" using g [of js] N [of js] by (auto simp: tables_def)
  qed
  show "tables hhdm t root \<inter> N = {}" using conjunct2 [OF assms(1) [unfolded grown_def]] by (auto simp: tables_def)
qed

subsection \<open>One region\<close>

definition region_map :: "nat \<Rightarrow> nat \<Rightarrow> nat \<Rightarrow> nat \<rightharpoonup> nat" where
  "region_map va pa n = (\<lambda>v. if va mod 2 ^ 48 \<le> v \<and> v < va mod 2 ^ 48 + n then Some (pa + (v - va mod 2 ^ 48)) else None)"

abbreviation span :: "nat \<Rightarrow> nat \<Rightarrow> nat set" where
  "span va n \<equiv> {va mod 2 ^ 48..<va mod 2 ^ 48 + n}"

lemma dom_region_map: "dom (region_map va pa n) = span va n"
  by (auto simp: region_map_def dom_def split: if_splits)

lemma region_map_0 [simp]: "region_map va pa 0 = Map.empty"
  by (auto simp: region_map_def)

lemma region_map_split:
  assumes "va mod 2 ^ 48 + (k + n) \<le> 2 ^ 48"
  shows "region_map va pa k ++ region_map (va + k) (pa + k) n = region_map va pa (k + n)"
proof (cases "n = 0")
  case False
  then have "(va mod 2 ^ 48 + k) mod 2 ^ 48 = va mod 2 ^ 48 + k" using assms by (intro mod_less) simp
  then have "(va + k) mod 2 ^ 48 = va mod 2 ^ 48 + k" by (simp only: mod_add_left_eq)
  then show ?thesis by (auto simp: region_map_def map_add_def fun_eq_iff)
qed simp

text \<open>The addresses of one page.\<close>

lemma page_span:
  assumes "l \<le> 3" and "2 ^ (12 + 9 * l) dvd va" and "v < 2 ^ 48"
  shows "vdig v l = vdig va l \<longleftrightarrow> v \<in> span va (2 ^ (12 + 9 * l))"
    and "v \<in> span va (2 ^ (12 + 9 * l)) \<Longrightarrow> v mod 2 ^ (12 + 9 * l) = v - va mod 2 ^ 48"
proof -
  let ?s = "2 ^ (12 + 9 * l) :: nat"
  have s0: "?s \<noteq> 0" by simp
  have s: "?s dvd 2 ^ 48" using assms(1) by (intro le_imp_power_dvd) simp
  then obtain c where c: "va mod 2 ^ 48 = ?s * c" using dvd_mod [OF assms(2)] by (auto elim: dvdE)
  have iff: "v div ?s = c \<longleftrightarrow> ?s * c \<le> v \<and> v < ?s * c + ?s"
  proof
    assume "v div ?s = c"
    then have "v = ?s * c + v mod ?s" "v mod ?s < ?s" by auto
    then show "?s * c \<le> v \<and> v < ?s * c + ?s" by linarith
  qed (simp add: div_nat_eqI mult.commute)
  show "vdig v l = vdig va l \<longleftrightarrow> v \<in> span va ?s" 
    unfolding vdig_def mod_less [OF assms(3)] c using iff by (simp only: nonzero_mult_div_cancel_left [OF s0] atLeastLessThan_iff)
  assume "v \<in> span va ?s"
  then have "?s * c \<le> v" "v < ?s * c + ?s" unfolding c by simp_all
  then have "v = ?s * c + (v - ?s * c)" "v - ?s * c < ?s" by linarith+
  then show "v mod ?s = v - va mod 2 ^ 48" unfolding c by (metis mod_less mod_mult_self4)
qed

text \<open>A free page meets neither a page nor a table.\<close>

lemma free_page_clear:
  assumes inv: "space_inv L M hhdm root t A U" and l: "l \<le> 2" "2 ^ (12 + 9 * l) dvd va" "va < USIZE_LIM" "va mod 2 ^ 48 + 2 ^ (12 + 9 * l) \<le> 2 ^ 48"
    and free: "dom A \<inter> span va (2 ^ (12 + 9 * l)) = {}"
  shows "way_clear hhdm t root va l 3"
    and "walk hhdm t root (path va l) = Some p \<Longrightarrow> tbl_read t p (next_level_index va l) = Some e \<Longrightarrow> \<not> bit e 0"
proof -
  let ?s = "2 ^ (12 + 9 * l) :: nat"
  have v48: "va mod 2 ^ 48 < 2 ^ 48" by (rule mod_less_divisor) simp
  have "va mod 2 ^ 48 \<in> span va ?s" by simp
  then have "A (va mod 2 ^ 48) = None" using free by blast
  from space_invD(7) [OF inv v48 this] have un: "unmapped hhdm t root va" unfolding ends_def leaf_low [OF l(3)] .
  then show "way_clear hhdm t root va l 3" by (rule unmapped_clear)
  assume w: "walk hhdm t root (path va l) = Some p" "tbl_read t p (next_level_index va l) = Some e"
  show "\<not> bit e 0"
  proof (cases "is_table e")
    case False
    then have "leaf hhdm t root va l e" using w l(1) by (auto simp: leaf_def)
    with un have "e = 0" using leaf_unique(2) by (auto simp: ends_def)
    then show ?thesis by simp
  next
    case True
    have l3: "l \<le> 3" using l(1) by simp
    from pt_wfD(6) [OF space_invD(1) [OF inv] w(1) _ w(2)] have "entry_wf l e" using l3 by (simp add: path_simps)
    with True have "0 < l" by (simp add: entry_wf_def)
    then have pl: "path va (l - 1) = path va l @ [next_level_index va l]" using path_simps(2) [of "l - 1" va] l(1) by simp
    with w True have "walk hhdm t root (path va (l - 1)) \<noteq> None" by (simp add: walk_append)
    then have "path va (l - 1) \<in> tables hhdm t root" using pl \<open>0 < l\<close> by (simp add: tables_def path_simps)
    then obtain v k where v: "v \<in> dom A" "path va (l - 1) = path v k" "k < 3"
      using space_invD(8) [OF inv] by (fastforce simp: tables_for_def)
    have "length (path va (l - 1)) = length (path v k)" by (simp only: v(2))
    then have "k = l - 1" using v(3) l(1) \<open>0 < l\<close> by (simp add: path_simps)
    have v': "v < 2 ^ 48" using v(1) space_invD(5) [OF inv] by blast
    then have "v < USIZE_LIM" by (simp add: USIZE_LIM_def)
    from path_eq_iff [OF this l(3), of "l - 1"] v(2) \<open>k = l - 1\<close> \<open>0 < l\<close> l(1) have "vdig v l = vdig va l" by simp
    with page_span(1) [OF l3 l(2) v'] have "v \<in> span va ?s" by blast
    with v(1) free show ?thesis by blast
  qed
qed

lemma level_size: "page_size_size ps = 2 ^ (12 + 9 * bottom_paging_level ps)" "bottom_paging_level ps \<le> 2"
  by (cases ps; simp)+

text \<open>The bytes of a page whose entry is in the tables.\<close>

lemma leaf_maps_span:
  assumes l: "l \<le> 3" and va: "2 ^ (12 + 9 * l) dvd va" "va < USIZE_LIM" and w: "walk hhdm t root (path va l) = Some p"
    and e: "tbl_read t p (next_level_index va l) = Some e" "bit e 0" "\<not> is_table e" "entry_addr (12 + 9 * l) e = pa"
    and v: "v < 2 ^ 48" "v \<in> span va (2 ^ (12 + 9 * l))"
  shows "maps_to hhdm t root v (pa + (v - va mod 2 ^ 48))"
proof -
  have vl: "v < USIZE_LIM" using v(1) by (simp add: USIZE_LIM_def)
  have "vdig v l = vdig va l" using page_span(1) [OF l va(1) v(1)] v(2) by blast
  then have "path v l = path va l" "next_level_index v l = next_level_index va l"
    using path_eq_iff [OF va(2) vl l] next_level_index_vdig [OF va(2) l] next_level_index_vdig [OF vl l] by (simp_all add: vdig_Suc)
  then have "leaf hhdm t root v l e" using w e(1,3) l by (simp add: leaf_def)
  with e(2,4) page_span(2) [OF l va(1) v] show ?thesis unfolding maps_to_def by metis
qed

text \<open>A page is added to the space: the tables are still well formed, its bytes are mapped and the others are as before.\<close>

lemma space_inv_extend:
  assumes inv: "space_inv L M hhdm root t A U" and wf: "pt_wf hhdm t' root U'" and pmm: "pmm_free_bytes L M (pg_pmm t') U'"
    and sp: "va mod 2 ^ 48 + s \<le> 2 ^ 48" and tab: "tables hhdm t' root \<subseteq> tables hhdm t root \<union> tables_for (span va s)"
    and new: "\<And>v. v < 2 ^ 48 \<Longrightarrow> v \<in> span va s \<Longrightarrow> maps_to hhdm t' root v (pa + (v - va mod 2 ^ 48))"
    and keep: "\<And>v lc ec. ends hhdm t root v lc ec \<Longrightarrow> v < 2 ^ 48 \<Longrightarrow> v \<notin> span va s \<Longrightarrow> ends hhdm t' root v lc ec"
  shows "space_inv L M hhdm root t' (A ++ region_map va pa s) U'"
  unfolding space_inv_def
proof (intro conjI allI impI)
  note I = space_invD [OF inv]
  have dom: "dom (A ++ region_map va pa s) = dom A \<union> span va s" by (simp add: dom_region_map Un_commute)
  show "dom (A ++ region_map va pa s) \<subseteq> {..<2 ^ 48}" unfolding dom using I(5) sp by auto
  show "tables hhdm t' root \<subseteq> tables_for (dom (A ++ region_map va pa s))" unfolding dom tables_for_Un using tab I(8) by blast
  show "M + hhdm \<le> USIZE_LIM" "0 < hhdm" by (rule I(3), rule I(4))
  fix v
  { fix q assume "(A ++ region_map va pa s) v = Some q"
    then consider "v \<in> span va s" "q = pa + (v - va mod 2 ^ 48)" | "v \<notin> span va s" "A v = Some q"
      by (auto simp: map_add_def region_map_def split: if_splits)
    then show "maps_to hhdm t' root v q"
    proof cases
      case 1
      then show ?thesis using new [of v] sp by simp
    next
      case 2
      then have "v < 2 ^ 48" using I(5) by blast
      with I(6) [OF 2(2)] keep 2(1) show ?thesis unfolding maps_to_ends by blast
    qed }
  assume v: "v < 2 ^ 48" "(A ++ region_map va pa s) v = None"
  then have "v \<notin> span va s" "A v = None" by (auto simp: map_add_def region_map_def split: if_splits)
  with I(7) [OF v(1)] keep v(1) show "unmapped hhdm t' root v" by blast
qed (rule wf pmm)+

lemma paths_in_tables_for:
  assumes "va < USIZE_LIM" and "0 < s"
  shows "path va ` {..<3} \<subseteq> tables_for (span va s)"
proof -
  have "va mod 2 ^ 48 \<in> span va s" using assms(2) by simp
  from UN_upper [OF this, of "\<lambda>v. path v ` {..<3}"] have "path (va mod 2 ^ 48) ` {..<3} \<subseteq> tables_for (span va s)" by (simp only: tables_for_def)
  moreover have "path va ` {..<3} = path (va mod 2 ^ 48) ` {..<3}" using low_bits(2) [OF assms(1)] by (intro image_cong) auto
  ultimately show ?thesis by simp
qed

lemma map_page_step:
  assumes inv: "space_inv L M hhdm root t A U" and al: "page_size_size ps dvd va" "va < USIZE_LIM" "va mod 2 ^ 48 + page_size_size ps \<le> 2 ^ 48"
    and pa: "page_size_size ps dvd pa" "pa + page_size_size ps \<le> USIZE_LIM" and f: "flags_ok ps f"
    and free: "dom A \<inter> span va (page_size_size ps) = {}" and room: "3 * BASIC_PAGE_SIZE \<le> card U"
  obtains t' U' where "map_pages hhdm t root va pa 1 ps f = Some (Ok (), t')" and "U' \<subseteq> U"
    and "space_inv L M hhdm root t' (A ++ region_map va pa (page_size_size ps)) U'" and "budget hhdm t' root U' = budget hhdm t root U"
proof -
  define l where "l = bottom_paging_level ps"
  let ?s = "2 ^ (12 + 9 * l) :: nat"
  have sz: "page_size_size ps = ?s" "l \<le> 2" "l \<le> 3" using level_size [of ps] by (simp_all only: l_def)
  note I = space_invD [OF inv]
  note clear = free_page_clear [OF inv sz(2) al(1) [unfolded sz(1)] al(2) al(3) [unfolded sz(1)] free [unfolded sz(1)]]
  have wf: "pt_wf hhdm t root (U \<union> {})" and dis: "{} \<inter> U = {}" using I(1) by simp_all
  have run: "next_level_index va l + 1 \<le> ENTRIES_PER_TABLE" using next_level_index_lt [of va l] by simp
  have room': "(3 - l) * BASIC_PAGE_SIZE \<le> card U" using room by (rule le_trans [rotated]) simp
  have absent: "\<forall>k < 1. \<forall>p e. walk hhdm t root (path va l) = Some p \<and> tbl_read t p (next_level_index va l + k) = Some e \<longrightarrow> \<not> bit e 0"
    using clear(2) by simp
  have pa1: "pa + 1 * page_size_size ps \<le> USIZE_LIM" using pa(2) by simp
  from map_pages_grows [OF wf I(2) dis I(3,4) l_def al(1,2) pa(1) pa1 run f clear(1) room' absent]
  obtain t' U' p N where m: "map_pages hhdm t root va pa 1 ps f = Some (Ok (), t')" "pt_wf hhdm t' root (U' \<union> {})"
    "pmm_free_bytes L M (pg_pmm t') U'" "U' \<subseteq> U"
    "\<forall>va' < USIZE_LIM. \<forall>lc ec. ends hhdm t root va' lc ec \<and> \<not> (\<exists>k < 1. vdig va' l = vdig va l + k) \<longrightarrow> ends hhdm t' root va' lc ec"
    "walk hhdm t' root (path va l) = Some p"
    "\<forall>k < 1. \<exists>e. tbl_read t' p (next_level_index va l + k) = Some e \<and> page_entry ps f (pa + k * page_size_size ps) e"
    "grown hhdm t t' root N" "N \<subseteq> path va ` {l..<3}" "card U = card U' + card N * BASIC_PAGE_SIZE"
    by (elim exE conjE) (rule that)
  from m(7) obtain e where e: "tbl_read t' p (next_level_index va l) = Some e" "page_entry ps f pa e" by auto
  have eb: "bit e 0" "\<not> is_table e" "entry_addr (12 + 9 * l) e = pa"
    using e(2) by (simp_all add: page_entry_def is_table_def offset_bits_level l_def)
  note new = leaf_maps_span [OF sz(3) al(1) [unfolded sz(1)] al(2) m(6) e(1) eb]
  have keep: "ends hhdm t' root v lc ec" if v: "ends hhdm t root v lc ec" "v < 2 ^ 48" "v \<notin> span va ?s" for v lc ec
  proof -
    have "v < USIZE_LIM" using v(2) by (simp add: USIZE_LIM_def)
    with m(5) v page_span(1) [OF sz(3) al(1) [unfolded sz(1)] v(2)] show ?thesis by auto
  qed
  have N: "N \<subseteq> path va ` {..<3}" using m(9) by auto
  note tab = grown_tables [OF m(8) N]
  have sub: "tables hhdm t' root \<subseteq> tables hhdm t root \<union> tables_for (span va ?s)"
    unfolding tab(1) using N paths_in_tables_for [OF al(2), of ?s] by auto
  have wf': "pt_wf hhdm t' root U'" using m(2) by simp
  have "card (tables hhdm t' root) = card (tables hhdm t root) + card N"
    unfolding tab(1) using finite_tables [OF inv] finite_subset [OF N] tab(2) by (intro card_Un_disjoint) auto
  then have "budget hhdm t' root U' = budget hhdm t root U" using m(10) by (simp add: budget_def add_mult_distrib)
  with that [OF m(1,4)] space_inv_extend [OF inv wf' m(3) al(3) [unfolded sz(1)] sub new keep] show ?thesis unfolding sz(1) by blast
qed

subsection \<open>A region of the memory map\<close>

definition region_ok :: "nat \<times> nat \<times> nat \<Rightarrow> bool" where
  "region_ok = (\<lambda>(va, pa, n). BASIC_PAGE_SIZE dvd va \<and> BASIC_PAGE_SIZE dvd pa \<and> BASIC_PAGE_SIZE dvd n
     \<and> va mod 2 ^ 48 + n \<le> 2 ^ 48 \<and> va + n < USIZE_LIM \<and> pa + n < USIZE_LIM)"

lemma pick_page_size_ok:
  assumes "region_ok (va, pa, n)" and "n \<noteq> 0"
  obtains ps where "pick_page_size n pa va = Some ps" and "page_size_size ps \<le> n" and "page_size_size ps dvd va" and "page_size_size ps dvd pa"
    and "BASIC_PAGE_SIZE dvd page_size_size ps"
proof -
  have "4096 dvd n" "4096 dvd pa" "4096 dvd va" using assms(1) by (simp_all add: region_ok_def BASIC_PAGE_SIZE_def)
  then have "4096 \<le> n" "pa mod 4096 = 0" "va mod 4096 = 0" using assms(2) dvd_imp_le by auto
  then have "pick_page_size n pa va \<noteq> None" by (simp add: pick_page_size_def Let_def)
  then obtain ps where ps: "pick_page_size n pa va = Some ps" by blast
  then have "pa mod page_size_size ps = 0" "va mod page_size_size ps = 0"
    by (auto simp: pick_page_size_def Let_def split: if_splits)
  moreover have "BASIC_PAGE_SIZE dvd page_size_size ps" by (cases ps) (simp_all add: BASIC_PAGE_SIZE_def)
  ultimately show ?thesis using ps pick_page_size_le [OF ps] by (intro that) auto
qed

lemma region_rest:
  assumes "region_ok (va, pa, n)" and k: "k \<le> n" "BASIC_PAGE_SIZE dvd k"
  shows "region_ok (va + k, pa + k, n - k)" and "span (va + k) (n - k) \<subseteq> span va n - span va k"
proof -
  have R: "BASIC_PAGE_SIZE dvd va" "BASIC_PAGE_SIZE dvd pa" "BASIC_PAGE_SIZE dvd n" "va mod 2 ^ 48 + n \<le> 2 ^ 48" "va + n < USIZE_LIM" "pa + n < USIZE_LIM"
    using assms(1) by (simp_all add: region_ok_def)
  have low: "(va + k) mod 2 ^ 48 + (n - k) \<le> 2 ^ 48 \<and> span (va + k) (n - k) \<subseteq> span va n - span va k"
  proof (cases "n = k")
    case False
    then have "va mod 2 ^ 48 + k < 2 ^ 48" using R(4) k(1) by linarith
    then have "(va + k) mod 2 ^ 48 = va mod 2 ^ 48 + k" using mod_add_left_eq [of va "2 ^ 48" k] mod_less by simp
    then show ?thesis using R(4) k(1) by auto
  qed (simp add: less_imp_le)
  then show "span (va + k) (n - k) \<subseteq> span va n - span va k" by blast
  show "region_ok (va + k, pa + k, n - k)" using R k low unfolding region_ok_def by (auto intro: dvd_add dvd_diff_nat)
qed

lemma map_in_entry_ok:
  assumes "region_ok (va, pa, n)" and "space_inv L M hhdm root t A U" and "dom A \<inter> span va n = {}" and f: "\<And>ps. flags_ok ps f"
    and "dom A \<union> span va n \<subseteq> S" and S: "S \<subseteq> {..<2 ^ 48}" and "(card (tables_for S) + 3) * BASIC_PAGE_SIZE \<le> budget hhdm t root U"
  shows "\<exists>t' U'. map_in_entry hhdm t va pa n root f None = Some t' \<and> U' \<subseteq> U
    \<and> space_inv L M hhdm root t' (A ++ region_map va pa n) U' \<and> budget hhdm t' root U' = budget hhdm t root U"
  using assms(1-3,5,7)
proof (induction n arbitrary: va pa t A U rule: less_induct)
  case (less n)
  show ?case
  proof (cases "n = 0")
    case True
    then show ?thesis using less.prems(2) by (subst map_in_entry.simps) auto
  next
    case False
    from pick_page_size_ok [OF less.prems(1) False] obtain ps where ps: "pick_page_size n pa va = Some ps" "page_size_size ps \<le> n"
      "page_size_size ps dvd va" "page_size_size ps dvd pa" "BASIC_PAGE_SIZE dvd page_size_size ps" by blast
    let ?k = "page_size_size ps"
    have R: "BASIC_PAGE_SIZE dvd va" "BASIC_PAGE_SIZE dvd pa" "BASIC_PAGE_SIZE dvd n" "va mod 2 ^ 48 + n \<le> 2 ^ 48" "va + n < USIZE_LIM" "pa + n < USIZE_LIM"
      using less.prems(1) by (simp_all add: region_ok_def)
    have b: "va < USIZE_LIM" "va mod 2 ^ 48 + ?k \<le> 2 ^ 48" "pa + ?k \<le> USIZE_LIM" using R ps(2) by linarith+
    have sp: "span va ?k \<subseteq> span va n" using ps(2) by auto
    then have free: "dom A \<inter> span va ?k = {}" using less.prems(3) by blast
    have "dom A \<subseteq> S" using less.prems(4) by blast
    from budget_room [OF less.prems(2) this S less.prems(5)] have room: "3 * BASIC_PAGE_SIZE \<le> card U" .
    obtain t1 U1 where m: "map_pages hhdm t root va pa 1 ps f = Some (Ok (), t1)" "U1 \<subseteq> U"
      "space_inv L M hhdm root t1 (A ++ region_map va pa ?k) U1" "budget hhdm t1 root U1 = budget hhdm t root U"
      by (rule map_page_step [OF less.prems(2) ps(3) b(1,2) ps(4) b(3) f free room]) (rule that)
    note rest = region_rest [OF less.prems(1) ps(2,5)]
    have "region_ok (va + ?k, pa + ?k, n - ?k)" by (rule rest(1))
    moreover have "dom (A ++ region_map va pa ?k) \<inter> span (va + ?k) (n - ?k) = {}"
      using less.prems(3) rest(2) unfolding dom_map_add dom_region_map by blast
    moreover have "dom (A ++ region_map va pa ?k) \<union> span (va + ?k) (n - ?k) \<subseteq> S"
      using less.prems(4) rest(2) sp unfolding dom_map_add dom_region_map by blast
    moreover have "(card (tables_for S) + 3) * BASIC_PAGE_SIZE \<le> budget hhdm t1 root U1" using less.prems(5) m(4) by simp
    moreover have "n - ?k < n" using False by simp
    ultimately obtain t' U' where r: "map_in_entry hhdm t1 (va + ?k) (pa + ?k) (n - ?k) root f None = Some t'" "U' \<subseteq> U1"
      "space_inv L M hhdm root t' (A ++ region_map va pa ?k ++ region_map (va + ?k) (pa + ?k) (n - ?k)) U'" "budget hhdm t' root U' = budget hhdm t1 root U1"
      using less.IH [OF _ _ m(3)] by blast
    have "map_in_entry hhdm t va pa n root f None = Some t'"
      using False ps(1) m(1) r(1) R(5,6) ps(2) by (subst map_in_entry.simps) simp
    moreover have "A ++ region_map va pa ?k ++ region_map (va + ?k) (pa + ?k) (n - ?k) = A ++ region_map va pa n"
      using region_map_split [of va ?k "n - ?k" pa] R(4) ps(2) by (simp add: map_add_assoc [symmetric])
    ultimately show ?thesis using r m by auto
  qed
qed

subsection \<open>The memory map\<close>

text \<open>The region that the entry of the memory map asks for: virtual address, physical address and length.\<close>

definition mem_region :: "bool \<Rightarrow> usize \<Rightarrow> VirtAddr \<Rightarrow> PhysAddr \<Rightarrow> MemEntry \<Rightarrow> (nat \<times> nat \<times> nat) option" where
  "mem_region fb hhdm kernel_virt kernel_phys e =
     (if me_type e = EXECUTABLE_AND_MODULES then Some (kernel_virt, kernel_phys, me_length e)
      else if me_type e \<in> {ACPI_RECLAIMABLE, BOOTLOADER_RECLAIMABLE, USABLE} \<or> fb \<and> me_type e = FRAMEBUFFER
      then Some (me_base e + hhdm, me_base e, me_length e) else None)"

definition region_span :: "nat \<times> nat \<times> nat \<Rightarrow> nat set" where
  "region_span = (\<lambda>(va, pa, n). span va n)"

abbreviation apart :: "nat \<times> nat \<times> nat \<Rightarrow> nat \<times> nat \<times> nat \<Rightarrow> bool" where
  "apart r r' \<equiv> region_span r \<inter> region_span r' = {}"

definition add_region :: "(nat \<rightharpoonup> nat) \<Rightarrow> nat \<times> nat \<times> nat \<Rightarrow> nat \<rightharpoonup> nat" where
  "add_region A = (\<lambda>(va, pa, n). A ++ region_map va pa n)"

lemma dom_add_region: "dom (add_region A r) = dom A \<union> region_span r"
  by (cases r) (auto simp: add_region_def region_span_def dom_region_map)

lemma dom_regions: "dom (foldl add_region A rs) = dom A \<union> \<Union> (region_span ` set rs)"
  by (induction rs arbitrary: A) (simp_all add: dom_add_region Un_assoc)

lemma regions_apply:
  assumes "sorted_wrt apart rs" and "\<forall>r \<in> set rs. dom A \<inter> region_span r = {}"
  shows "foldl add_region A rs v = Some p \<longleftrightarrow> A v = Some p \<or> (\<exists>(va, pa, n) \<in> set rs. region_map va pa n v = Some p)"
  using assms
proof (induction rs arbitrary: A)
  case (Cons r rs)
  obtain va pa n where r: "r = (va, pa, n)" by (cases r) auto
  have dis: "dom A \<inter> span va n = {}" using Cons.prems(2) by (simp add: r region_span_def)
  have "add_region A r v = Some p \<longleftrightarrow> A v = Some p \<or> region_map va pa n v = Some p"
    using dis dom_region_map [of va pa n] by (auto simp: r add_region_def map_add_Some_iff)
  moreover have "\<forall>r' \<in> set rs. dom (add_region A r) \<inter> region_span r' = {}" using Cons.prems by (simp add: dom_add_region Int_Un_distrib2)
  ultimately show ?case using Cons.IH [of "add_region A r"] Cons.prems(1) by (simp add: r)
qed simp

lemma rw_flags_ok: "flags_ok ps (set_read_write flags_new True)"
  by (auto simp: flags_ok_def flag_bits flags_new_def FLAGS_NONE_def)

lemma map_mem_entry_ok:
  assumes e: "fb \<and> me_type e = FRAMEBUFFER \<Longrightarrow> False" and r: "\<And>r. mem_region fb hhdm kv kp e = Some r \<Longrightarrow> region_ok r \<and> dom A \<inter> region_span r = {} \<and> region_span r \<subseteq> S"
    and inv: "space_inv L M hhdm root t A U" and S: "dom A \<subseteq> S" "S \<subseteq> {..<2 ^ 48}" and room: "(card (tables_for S) + 3) * BASIC_PAGE_SIZE \<le> budget hhdm t root U"
  shows "\<exists>t' U'. map_mem_entry fb hhdm kv kp root t e = Some t' \<and> U' \<subseteq> U
    \<and> space_inv L M hhdm root t' (case mem_region fb hhdm kv kp e of None \<Rightarrow> A | Some r \<Rightarrow> add_region A r) U' \<and> budget hhdm t' root U' = budget hhdm t root U"
proof (cases "mem_region fb hhdm kv kp e")
  case None
  then have "map_mem_entry fb hhdm kv kp root t e = Some t"
    by (auto simp: mem_region_def map_mem_entry_def split: if_splits EntryType.splits)
  then show ?thesis using inv None by auto
next
  case (Some x)
  obtain va pa n where x: "x = (va, pa, n)" by (cases x) auto
  from r [OF Some] have ok: "region_ok (va, pa, n)" "dom A \<inter> span va n = {}" "dom A \<union> span va n \<subseteq> S" using S(1) by (auto simp: x region_span_def)
  have "map_mem_entry fb hhdm kv kp root t e = map_in_entry hhdm t va pa n root (set_read_write flags_new True) None"
    using Some e ok(1) by (cases "me_type e") (auto simp: mem_region_def map_mem_entry_def x add_hhdm_offset_def region_ok_def uadd_ok)
  with map_in_entry_ok [OF ok(1) inv ok(2) rw_flags_ok ok(3) S(2) room] show ?thesis by (simp add: Some x add_region_def)
qed

lemma map_mem_entries_ok:
  assumes "\<And>e. e \<in> set es \<Longrightarrow> \<not> (fb \<and> me_type e = FRAMEBUFFER)" and "rs = List.map_filter (mem_region fb hhdm kv kp) es"
    and "\<forall>r \<in> set rs. region_ok r \<and> dom A \<inter> region_span r = {}" and "sorted_wrt apart rs"
    and "space_inv L M hhdm root t A U" and "dom A \<union> \<Union> (region_span ` set rs) \<subseteq> S" and S: "S \<subseteq> {..<2 ^ 48}"
    and "(card (tables_for S) + 3) * BASIC_PAGE_SIZE \<le> budget hhdm t root U"
  shows "\<exists>t' U'. map_mem_entries fb hhdm kv kp root t es = Some t' \<and> U' \<subseteq> U
    \<and> space_inv L M hhdm root t' (foldl add_region A rs) U' \<and> budget hhdm t' root U' = budget hhdm t root U"
  using assms(1-6,8)
proof (induction es arbitrary: t A U rs)
  case (Cons e es)
  let ?r = "mem_region fb hhdm kv kp e" and ?rs = "List.map_filter (mem_region fb hhdm kv kp) es"
  define A1 where "A1 = (case ?r of None \<Rightarrow> A | Some r \<Rightarrow> add_region A r)"
  have rs: "rs = (case ?r of None \<Rightarrow> ?rs | Some r \<Rightarrow> r # ?rs)" using Cons.prems(2) by simp
  have e: "\<not> (fb \<and> me_type e = FRAMEBUFFER)" using Cons.prems(1) by simp
  have r: "region_ok r \<and> dom A \<inter> region_span r = {} \<and> region_span r \<subseteq> S" if "?r = Some r" for r
    using Cons.prems(3,6) that by (auto simp: rs)
  have dS: "dom A \<subseteq> S" using Cons.prems(6) by blast
  from map_mem_entry_ok [OF notE [OF e] r Cons.prems(5) dS S Cons.prems(7)] obtain t1 U1 where
    1: "map_mem_entry fb hhdm kv kp root t e = Some t1" "U1 \<subseteq> U" "space_inv L M hhdm root t1 A1 U1" "budget hhdm t1 root U1 = budget hhdm t root U"
    unfolding A1_def by blast
  have ap: "\<forall>r \<in> set ?rs. region_ok r \<and> dom A1 \<inter> region_span r = {}" and so: "sorted_wrt apart ?rs"
    and sS: "dom A1 \<union> \<Union> (region_span ` set ?rs) \<subseteq> S"
    using Cons.prems(3,4,6) by (auto simp: rs A1_def dom_add_region Int_Un_distrib2 split: option.splits)
  have room: "(card (tables_for S) + 3) * BASIC_PAGE_SIZE \<le> budget hhdm t1 root U1" using Cons.prems(7) 1(4) by simp
  have es: "\<And>e. e \<in> set es \<Longrightarrow> \<not> (fb \<and> me_type e = FRAMEBUFFER)" using Cons.prems(1) by simp
  from Cons.IH [OF es refl ap so 1(3) sS room] obtain t' U' where 2: "map_mem_entries fb hhdm kv kp root t1 es = Some t'" "U' \<subseteq> U1"
    "space_inv L M hhdm root t' (foldl add_region A1 ?rs) U'" "budget hhdm t' root U' = budget hhdm t1 root U1" by blast
  have "foldl add_region A1 ?rs = foldl add_region A rs" by (simp add: rs A1_def split: option.splits)
  then show ?case using 1 2 by auto
qed auto

subsection \<open>The kernel's page tables\<close>

lemma fresh_space:
  assumes "pmm_free_bytes L M (pg_pmm t) U" and "U \<noteq> {}" and h: "M + hhdm \<le> USIZE_LIM" "0 < hhdm"
  obtains pa t' where "page_table_new hhdm t = Some ((pa + hhdm, pa), t')" and "BASIC_PAGE_SIZE dvd pa" and "page pa \<subseteq> U" and "pa + hhdm < USIZE_LIM"
    and "space_inv L M hhdm (pa + hhdm) t' Map.empty (U - page pa)" and "budget hhdm t' (pa + hhdm) (U - page pa) + BASIC_PAGE_SIZE = card U"
proof -
  from page_table_new_ok [OF assms] obtain pa t' where n: "page_table_new hhdm t = Some ((pa + hhdm, pa), t')" "BASIC_PAGE_SIZE dvd pa" "page pa \<subseteq> U"
    "pmm_free_bytes L M (pg_pmm t') (U - page pa)" "pa + hhdm < USIZE_LIM"
    "\<And>q k. tbl_read t' q k = (if q = pa + hhdm then if k < ENTRIES_PER_TABLE then Some 0 else None else tbl_read t q k)"
    "\<And>q. has_table t' q \<longleftrightarrow> q = pa + hhdm \<or> has_table t q" by blast
  have w: "walk hhdm t' (pa + hhdm) js = (if js = [] then Some (pa + hhdm) else None)" for js
    by (cases js) (simp_all add: n(6) is_table_def)
  have "pt_wf hhdm t' (pa + hhdm) (U - page pa)"
    unfolding pt_wf_iff using n(5) h(2) by (auto simp: w n(6,7) entry_wf_def split: if_splits)
  moreover have "leaf hhdm t' (pa + hhdm) v 3 0" for v using next_level_index_lt by (simp add: leaf_def w path_simps n(6) is_table_def)
  then have "unmapped hhdm t' (pa + hhdm) v" for v by (auto simp: ends_def)
  moreover have tab: "tables hhdm t' (pa + hhdm) = {}" by (simp add: tables_def w)
  ultimately have "space_inv L M hhdm (pa + hhdm) t' Map.empty (U - page pa)"
    unfolding space_inv_def using n(4) h by simp
  moreover have "budget hhdm t' (pa + hhdm) (U - page pa) + BASIC_PAGE_SIZE = card U"
    using pool_card(2) [OF assms(1) n(3)] by (simp add: budget_def tab)
  ultimately show ?thesis using n(1,2,3,5) that by blast
qed

text \<open>The regions in the order in which they are mapped: first the entry that holds the memory of the frame allocator.\<close>

definition boot_regions :: "bool \<Rightarrow> usize \<Rightarrow> VirtAddr \<Rightarrow> PhysAddr \<Rightarrow> MemEntry \<Rightarrow> MemEntry list \<Rightarrow> (nat \<times> nat \<times> nat) list" where
  "boot_regions fb hhdm kernel_virt kernel_phys used mm = (me_base used + hhdm, me_base used, me_length used)
     # List.map_filter (mem_region fb hhdm kernel_virt kernel_phys) (filter (\<lambda>e. me_base e \<noteq> me_base used) mm)"

definition regions_ok :: "(nat \<times> nat \<times> nat) list \<Rightarrow> bool" where
  "regions_ok rs \<longleftrightarrow> list_all region_ok rs \<and> sorted_wrt apart rs"

lemma region_span_bound: "region_ok r \<Longrightarrow> region_span r \<subseteq> {..<2 ^ 48}"
  by (auto simp: region_ok_def region_span_def)

lemma paging_init_space:
  assumes pmm: "pmm_free_bytes L M (pg_pmm t) U" and h: "M + hhdm \<le> USIZE_LIM" "0 < hhdm"
    and fb: "\<And>e. e \<in> set mm \<Longrightarrow> \<not> (fb \<and> me_type e = FRAMEBUFFER)"
    and rs: "rs = boot_regions fb hhdm kv kp used mm" "regions_ok rs"
    and room: "(card (tables_for (\<Union> (region_span ` set rs))) + 4) * BASIC_PAGE_SIZE \<le> card U"
  obtains pa t' U' where "paging_init_from_limine fb hhdm t mm kv kp used = Some ((pa + hhdm, pa), t')" and "BASIC_PAGE_SIZE dvd pa"
    and "page pa \<subseteq> U" and "pa + hhdm < USIZE_LIM" and "U' \<subseteq> U - page pa" and "space_inv L M hhdm (pa + hhdm) t' (foldl add_region Map.empty rs) U'"
    and "card U \<le> card U' + (card (tables_for (\<Union> (region_span ` set rs))) + 1) * BASIC_PAGE_SIZE"
proof -
  let ?S = "\<Union> (region_span ` set rs)"
  have ok: "\<forall>r \<in> set rs. region_ok r" "sorted_wrt apart rs" using rs(2) by (simp_all add: regions_ok_def list_all_iff)
  have S: "?S \<subseteq> {..<2 ^ 48}" using ok(1) region_span_bound by blast
  have "U \<noteq> {}" using room by (auto simp: BASIC_PAGE_SIZE_def)
  obtain pa t0 where n: "page_table_new hhdm t = Some ((pa + hhdm, pa), t0)" "BASIC_PAGE_SIZE dvd pa" "page pa \<subseteq> U" "pa + hhdm < USIZE_LIM"
    "space_inv L M hhdm (pa + hhdm) t0 Map.empty (U - page pa)" "budget hhdm t0 (pa + hhdm) (U - page pa) + BASIC_PAGE_SIZE = card U"
    by (rule fresh_space [OF pmm \<open>U \<noteq> {}\<close> h]) (rule that)
  let ?root = "pa + hhdm"
  define es where "es = filter (\<lambda>e. me_base e \<noteq> me_base used) mm"
  define r0 where "r0 = (me_base used + hhdm, me_base used, me_length used)"
  define rs1 where "rs1 = List.map_filter (mem_region fb hhdm kv kp) es"
  have rs': "rs = r0 # rs1" by (simp add: rs(1) boot_regions_def r0_def rs1_def es_def)
  have room0: "(card (tables_for ?S) + 3) * BASIC_PAGE_SIZE \<le> budget hhdm t0 ?root (U - page pa)" using room n(6) by (simp add: add_mult_distrib)
  have r0: "region_ok (me_base used + hhdm, me_base used, me_length used)" using ok(1) by (simp add: rs' r0_def)
  have v: "add_hhdm_offset hhdm (me_base used) = Some (me_base used + hhdm)" using r0 by (simp add: add_hhdm_offset_def region_ok_def uadd_ok)
  have s0: "dom Map.empty \<union> span (me_base used + hhdm) (me_length used) \<subseteq> ?S" by (auto simp: rs' r0_def region_span_def)
  have d0: "dom Map.empty \<inter> span (me_base used + hhdm) (me_length used) = {}" by simp
  from map_in_entry_ok [OF r0 n(5) d0 rw_flags_ok s0 S room0] obtain t1 U1 where
    1: "map_in_entry hhdm t0 (me_base used + hhdm) (me_base used) (me_length used) ?root (set_read_write flags_new True) None = Some t1"
    "U1 \<subseteq> U - page pa" "space_inv L M hhdm ?root t1 (add_region Map.empty r0) U1" "budget hhdm t1 ?root U1 = budget hhdm t0 ?root (U - page pa)"
    unfolding add_region_def r0_def by auto
  have ap: "\<forall>r \<in> set rs1. region_ok r \<and> dom (add_region Map.empty r0) \<inter> region_span r = {}" "sorted_wrt apart rs1"
    using ok by (simp_all add: rs' dom_add_region)
  have s1: "dom (add_region Map.empty r0) \<union> \<Union> (region_span ` set rs1) \<subseteq> ?S" by (simp add: dom_add_region rs')
  have fb1: "\<And>e. e \<in> set es \<Longrightarrow> \<not> (fb \<and> me_type e = FRAMEBUFFER)" using fb by (simp add: es_def)
  have room1: "(card (tables_for ?S) + 3) * BASIC_PAGE_SIZE \<le> budget hhdm t1 ?root U1" using room0 1(4) by simp
  from map_mem_entries_ok [OF fb1 rs1_def ap 1(3) s1 S room1] obtain t2 U2 where
    2: "map_mem_entries fb hhdm kv kp ?root t1 es = Some t2" "U2 \<subseteq> U1" "space_inv L M hhdm ?root t2 (foldl add_region (add_region Map.empty r0) rs1) U2"
    "budget hhdm t2 ?root U2 = budget hhdm t1 ?root U1" by blast
  have sp: "space_inv L M hhdm ?root t2 (foldl add_region Map.empty rs) U2" using 2(3) by (simp add: rs')
  have "card (tables hhdm t2 ?root) \<le> card (tables_for ?S)"
    using space_invD(8) [OF sp] by (intro card_mono finite_tables_for [OF S]) (simp add: dom_regions)
  then have "card (tables hhdm t2 ?root) * BASIC_PAGE_SIZE \<le> card (tables_for ?S) * BASIC_PAGE_SIZE" by (rule mult_le_mono1)
  then have "card U \<le> card U2 + (card (tables_for ?S) + 1) * BASIC_PAGE_SIZE"
    using n(6) 1(4) 2(4) unfolding budget_def add_mult_distrib by linarith
  moreover have "paging_init_from_limine fb hhdm t mm kv kp used = Some ((?root, pa), t2)"
    using n(1) v 1(1) 2(1) by (simp add: paging_init_from_limine_def es_def)
  ultimately show ?thesis using that n(2,3,4) 1(2) 2(2) sp by blast
qed

lemma region_map_Some: "region_map va pa n v = Some q \<longleftrightarrow> (\<exists>i < n. v = va mod 2 ^ 48 + i \<and> q = pa + i)"
proof
  assume "region_map va pa n v = Some q"
  then have "va mod 2 ^ 48 \<le> v" "v < va mod 2 ^ 48 + n" "q = pa + (v - va mod 2 ^ 48)" unfolding region_map_def by (simp_all split: if_splits)
  then show "\<exists>i < n. v = va mod 2 ^ 48 + i \<and> q = pa + i" by (intro exI [of _ "v - va mod 2 ^ 48"]) linarith
qed (auto simp: region_map_def)

text \<open>What the tables do for every address.\<close>

lemma boot_space_maps:
  assumes "space_inv L M hhdm root t (foldl add_region Map.empty rs) U" and "regions_ok rs" and "va < USIZE_LIM"
  shows "maps_to hhdm t root va q \<longleftrightarrow> (\<exists>(v, p, n) \<in> set rs. \<exists>i < n. va mod 2 ^ 48 = v mod 2 ^ 48 + i \<and> q = p + i)"
proof -
  have "va mod 2 ^ 48 < 2 ^ 48" by (rule mod_less_divisor) simp
  from space_maps_to [OF assms(1) this] maps_to_low [OF assms(3)]
  have "maps_to hhdm t root va q \<longleftrightarrow> foldl add_region Map.empty rs (va mod 2 ^ 48) = Some q" by blast
  also have "\<dots> \<longleftrightarrow> (\<exists>(v, p, n) \<in> set rs. region_map v p n (va mod 2 ^ 48) = Some q)"
    using assms(2) regions_apply [of rs Map.empty "va mod 2 ^ 48" q] by (simp add: regions_ok_def)
  finally show ?thesis by (simp only: region_map_Some)
qed

text \<open>How many tables a range of addresses needs: one for every 2 MB, 1 GB and 512 GB that it touches.\<close>

lemma card_tables_for:
  assumes "a < b" and "b \<le> 2 ^ 48"
  shows "card (tables_for {a..<b}) \<le> (\<Sum>k < 3. (b - 1) div 2 ^ (21 + 9 * k) - a div 2 ^ (21 + 9 * k) + 1)"
proof -
  have one: "card ((\<lambda>v. path v k) ` {a..<b}) \<le> (b - 1) div 2 ^ (21 + 9 * k) - a div 2 ^ (21 + 9 * k) + 1" if "k < 3" for k
  proof -
    let ?s = "2 ^ (21 + 9 * k) :: nat" and ?f = "\<lambda>d. path (SOME v. v \<in> {a..<b} \<and> v div 2 ^ (21 + 9 * k) = d) k"
    have s: "vdig v (Suc k) = v div ?s" if "v < 2 ^ 48" for v unfolding vdig_def mod_less [OF that] by simp
    have "path v k = ?f (v div ?s)" if v: "v \<in> {a..<b}" for v
    proof -
      define w where "w = (SOME w. w \<in> {a..<b} \<and> w div ?s = v div ?s)"
      have w: "w \<in> {a..<b} \<and> w div ?s = v div ?s" unfolding w_def by (rule someI [of _ v]) (use v in simp)
      have "v < 2 ^ 48" "w < 2 ^ 48" using v w assms(2) by (meson atLeastLessThan_iff less_le_trans)+
      moreover from this have "v < USIZE_LIM" "w < USIZE_LIM" by (simp_all add: USIZE_LIM_def)
      ultimately have "path w k = path v k" using path_eq_iff [of v w k] s w \<open>k < 3\<close> by simp
      then show ?thesis unfolding w_def by simp
    qed
    then have "(\<lambda>v. path v k) ` {a..<b} \<subseteq> ?f ` {a div ?s..(b - 1) div ?s}"
      by (intro image_subsetI) (auto intro!: image_eqI div_le_mono)
    from surj_card_le [OF _ this] show ?thesis by simp
  qed
  have "tables_for {a..<b} = (\<Union>k < 3. (\<lambda>v. path v k) ` {a..<b})" by (auto simp: tables_for_def)
  then have "card (tables_for {a..<b}) \<le> (\<Sum>k < 3. card ((\<lambda>v. path v k) ` {a..<b}))" by (simp add: card_UN_le)
  also have "\<dots> \<le> (\<Sum>k < 3. (b - 1) div 2 ^ (21 + 9 * k) - a div 2 ^ (21 + 9 * k) + 1)" using one by (intro sum_mono) simp
  finally show ?thesis .
qed

text \<open>C6: The page tables built at boot.  Given regions of the memory map that are page aligned and do not overlap, and free frames for
  the tables they need, the code never panics and builds tables in which the processor finds exactly this: every byte of the usable,
  reclaimable and allocator memory at its address in the direct map, the kernel at the address it is linked to, and nothing
  else, whatever page sizes the regions are cut into; no table is taken that these addresses do not need.\<close>

theorem boot_page_tables_correct:
  assumes "pmm_free_bytes L M (pg_pmm t) U" and "M + hhdm \<le> USIZE_LIM" and "0 < hhdm"
    and "\<forall>e \<in> set mm. \<not> (fb \<and> me_type e = FRAMEBUFFER)" and "regions_ok (boot_regions fb hhdm kv kp used mm)"
    and "S = \<Union> (region_span ` set (boot_regions fb hhdm kv kp used mm))" and "(card (tables_for S) + 4) * BASIC_PAGE_SIZE \<le> card U"
  shows "\<exists>pa t' U'. paging_init_from_limine fb hhdm t mm kv kp used = Some ((pa + hhdm, pa), t')
    \<and> (\<forall>va < USIZE_LIM. \<forall>q. maps_to hhdm t' (pa + hhdm) va q \<longleftrightarrow>
        (\<exists>(v, p, n) \<in> set (boot_regions fb hhdm kv kp used mm). \<exists>i < n. va mod 2 ^ 48 = v mod 2 ^ 48 + i \<and> q = p + i))
    \<and> pt_wf hhdm t' (pa + hhdm) U' \<and> pmm_free_bytes L M (pg_pmm t') U' \<and> U' \<subseteq> U
    \<and> card U \<le> card U' + (card (tables_for S) + 1) * BASIC_PAGE_SIZE"
proof -
  obtain pa t' U' where i: "paging_init_from_limine fb hhdm t mm kv kp used = Some ((pa + hhdm, pa), t')" "U' \<subseteq> U - page pa"
    "space_inv L M hhdm (pa + hhdm) t' (foldl add_region Map.empty (boot_regions fb hhdm kv kp used mm)) U'"
    "card U \<le> card U' + (card (tables_for S) + 1) * BASIC_PAGE_SIZE"
    unfolding assms(6)
    by (rule paging_init_space [OF assms(1-3) _ refl assms(5) assms(7) [unfolded assms(6)]]) (use assms(4) in \<open>blast intro: that\<close>)+
  show ?thesis
    using i(1,2,4) space_invD(1,2) [OF i(3)] boot_space_maps [OF i(3) assms(5)]
    by (intro exI [of _ pa] exI [of _ t'] exI [of _ U']) blast
qed

text \<open>A region whose first page is mapped already, with the page size that would be chosen, makes the code panic.  Every entry for
  the kernel and its modules is mapped at the same address, the kernel's: a memory map with two of them cannot be booted.\<close>

lemma mapped_again_panics:
  assumes wf: "pt_wf hhdm t root U" and lf: "leaf hhdm t root va (bottom_paging_level ps) e" "bit e 0"
    and ps: "pick_page_size n pa va = Some ps" and n: "n \<noteq> 0" "pa < USIZE_LIM"
  shows "map_in_entry hhdm t va pa n root f None = None"
proof -
  let ?l = "bottom_paging_level ps" and ?i = "next_level_index va (bottom_paging_level ps)"
  from lf(1) obtain p where p: "?l \<le> 3" "walk hhdm t root (path va ?l) = Some p" "tbl_read t p ?i = Some e" by (auto simp: leaf_def)
  have al: "va mod page_size_size ps = 0" "pa mod page_size_size ps = 0" using ps by (auto simp: pick_page_size_def Let_def split: if_splits)
  have "get_create_loop hhdm t root va (rev [Suc ?l..<Suc 3]) = Some (p, t)"
    using get_create_follow [OF wf p(1) order_refl p(2)] by simp
  then have g: "get_create_table_range hhdm t root va ps = Some (p, t)"
    using al by (simp add: get_create_table_range_def MAX_BOTTOM_PAGING_LEVEL_def del: upt_Suc)
  have i: "?i < ENTRIES_PER_TABLE" by (rule next_level_index_lt)
  obtain t' where w: "tbl_write t p ?i e = Some t'" by (rule tbl_write_Some [OF p(3), of e]) (rule that)
  have "entry_map e pa f ps = Some (Err PageAlreadyPresent, e)" using lf(2) by (simp add: entry_map_def flag_bits)
  then have "map_pages hhdm t root va pa 1 ps f = Some (Err PageAlreadyPresent, t')"
    using al g i w p(3) n(2) by (simp add: map_pages_def Let_def uadd_def ENTRIES_PER_TABLE_def USIZE_LIM_def addr_add_def umul_def)
  then show ?thesis using n(1) ps by (subst map_in_entry.simps) simp
qed

text \<open>A memory map with 64 KB of usable memory and the kernel's two pages, for examples.\<close>

definition demo_map :: "MemEntry list" where
  "demo_map = [\<lparr> me_base = 0, me_length = 0x10000, me_type = USABLE \<rparr>, \<lparr> me_base = 0x200000, me_length = 0x2000, me_type = EXECUTABLE_AND_MODULES \<rparr>]"

lemma demo_regions:
  "boot_regions fb 0xffff800000000000 0xffffffff80000000 0x200000 (hd demo_map) demo_map = [(0xffff800000000000, 0, 0x10000), (0xffffffff80000000, 0x200000, 0x2000)]"
  by (simp add: boot_regions_def demo_map_def mem_region_def)

lemma demo_regions_ok:
  "regions_ok [(0xffff800000000000, 0, 0x10000), (0xffffffff80000000, 0x200000, 0x2000)]"
  by (auto simp: regions_ok_def region_ok_def region_span_def BASIC_PAGE_SIZE_def USIZE_LIM_def)

lemma demo_tables_for:
  "card (tables_for (\<Union> (region_span ` set [(0xffff800000000000, 0, 0x10000), (0xffffffff80000000, 0x200000, 0x2000)]))) \<le> 6"
proof -
  have s3: "(\<Sum>k < (3::nat). f k) = f 0 + f 1 + f 2" for f :: "nat \<Rightarrow> nat" by (simp add: eval_nat_numeral)
  have "card (tables_for {0x800000000000..<0x800000010000}) \<le> 3" "card (tables_for {0xffff80000000..<0xffff80002000}) \<le> 3"
    using card_tables_for [of "0x800000000000" "0x800000010000"] card_tables_for [of "0xffff80000000" "0xffff80002000"] by (simp_all add: s3)
  moreover have "\<Union> (region_span ` set [(0xffff800000000000, 0, 0x10000), (0xffffffff80000000, 0x200000, 0x2000)]) =
      {0x800000000000..<0x800000010000} \<union> {0xffff80000000..<0xffff80002000}"
    by (simp add: region_span_def del: atLeastLessThan_nat_numeral)
  ultimately show ?thesis
    using card_Un_le [of "tables_for {0x800000000000..<0x800000010000}" "tables_for {0xffff80000000..<0xffff80002000}"] by (simp only: tables_for_Un)
qed

theorem boot_page_tables_correct_witness:
  "\<exists>t pa t'. paging_init_from_limine True 0xffff800000000000 t demo_map 0xffffffff80000000 0x200000 (hd demo_map) = Some ((pa + 0xffff800000000000, pa), t')
    \<and> maps_to 0xffff800000000000 t' (pa + 0xffff800000000000) 0xffffffff80001234 0x201234
    \<and> maps_to 0xffff800000000000 t' (pa + 0xffff800000000000) 0xffff800000000042 0x42
    \<and> (\<forall>q. \<not> maps_to 0xffff800000000000 t' (pa + 0xffff800000000000) 0x42 q)"
proof -
  obtain k where "km_ok 5 0x10000 0x100000 0x110000 32 k Map.empty {..<0x10000}"
    using km_demo_at [of 4 32] by (auto simp: bsz_def)
  then have pmm: "pmm_free_bytes 5 0x10000 (pg_pmm (km_paging k)) {..<0x10000}" by (auto simp: km_ok_def mem_inv_def)
  let ?h = "0xffff800000000000 :: nat" and ?rs = "[(0xffff800000000000, 0, 0x10000), (0xffffffff80000000, 0x200000, 0x2000)] :: (nat \<times> nat \<times> nat) list"
  let ?S = "\<Union> (region_span ` set ?rs)"
  have h: "0x10000 + ?h \<le> USIZE_LIM" "0 < ?h" by (simp_all add: USIZE_LIM_def)
  have fb: "\<forall>e \<in> set demo_map. \<not> (True \<and> me_type e = FRAMEBUFFER)" by (simp add: demo_map_def)
  have room: "(card (tables_for ?S) + 4) * BASIC_PAGE_SIZE \<le> card {..<0x10000 :: nat}"
    using mult_le_mono1 [OF demo_tables_for, of 4096] unfolding card_lessThan BASIC_PAGE_SIZE_def add_mult_distrib by linarith
  from boot_page_tables_correct [OF pmm h fb demo_regions_ok [folded demo_regions [of True]] refl, unfolded demo_regions, OF room]
  obtain pa t' where i: "paging_init_from_limine True ?h (km_paging k) demo_map 0xffffffff80000000 0x200000 (hd demo_map) = Some ((pa + ?h, pa), t')"
    "\<forall>va < USIZE_LIM. \<forall>q. maps_to ?h t' (pa + ?h) va q \<longleftrightarrow> (\<exists>(v, p, n) \<in> set ?rs. \<exists>i < n. va mod 2 ^ 48 = v mod 2 ^ 48 + i \<and> q = p + i)"
    by blast
  have m: "maps_to ?h t' (pa + ?h) va q \<longleftrightarrow> (\<exists>i < 0x10000. va mod 2 ^ 48 = ?h mod 2 ^ 48 + i \<and> q = i)
      \<or> (\<exists>i < 0x2000. va mod 2 ^ 48 = 0xffffffff80000000 mod 2 ^ 48 + i \<and> q = 0x200000 + i)" if "va < USIZE_LIM" for va q
    using i(2) that by simp
  have "maps_to ?h t' (pa + ?h) 0xffffffff80001234 0x201234" "maps_to ?h t' (pa + ?h) 0xffff800000000042 0x42" "\<not> maps_to ?h t' (pa + ?h) 0x42 q" for q
    by (simp_all add: m USIZE_LIM_def)
  with i(1) show ?thesis by blast
qed

end
