(* ===== verification/Boot.thy ===== *)
theory Boot
  imports Acpi Boot_Map Logger
begin

text \<open>
  The entry point (\<open>boot/src/boot/limine.rs\<close>) and the architecture's early initialisation (\<open>kernel/src/arch/x86_64/mod.rs\<close>):
  the composition of the interrupt table, the address allocator, the frame allocator, the page tables and the firmware's
  tables.  The answers of the boot loader are input data; the addresses of the handlers and of the static tables, the processor and
  the devices are parameters.
\<close>

subsection \<open>Model\<close>

text \<open>The answers to the requests; \<open>None\<close> is a request that was not answered.  For the framebuffer these are address, width, height,
  pitch and bits per pixel of the first one.\<close>

record LoaderInfo =
  li_revision_supported :: bool
  li_framebuffer :: "(usize \<times> usize \<times> usize \<times> usize \<times> u16) option"
  li_hhdm_offset :: "usize option"
  li_mem_map :: "MemEntry list option"
  li_kernel_address :: "(VirtAddr \<times> PhysAddr) option"
  li_rsdp :: "PhysAddr option"

text \<open>The statics of the kernel and the memory it runs in: the nodes of lists and the page tables, by their addresses in the direct map.\<close>

record ('h, 'd, 'l) Kernel =
  kn_logger :: Logger
  kn_hhdm :: "usize FastLazyStatic"
  kn_vendor :: "CpuVendor FastLazyStatic"
  kn_nodes :: nodes
  kn_tables :: "VirtAddr \<rightharpoonup> Entry list"
  kn_system :: "('h, 'd, 'l) System"

definition early_boot_init :: "(nat \<Rightarrow> u64) \<Rightarrow> u64 \<Rightarrow> u64 \<Rightarrow> cpuid \<Rightarrow> Cpu \<Rightarrow> Idt \<Rightarrow> CpuVendor FastLazyStatic
    \<Rightarrow> (Cpu \<times> Idt \<times> CpuVendor FastLazyStatic) option" where
  "early_boot_init stub generic_stub idt_addr cpuid c idt vendor = do {
     (c, idt) \<leftarrow> idt_init stub generic_stub idt_addr c idt;
     vendor \<leftarrow> find_cpu_vendor cpuid vendor;
     Some (c, idt, vendor) }"

text \<open>The part of \<open>kmain\<close> from \<open>HHDM_OFFSET.set\<close> to \<open>init_paging_from_limine\<close>.\<close>

definition kmain_memory :: "bool \<Rightarrow> (nat \<Rightarrow> u64) \<Rightarrow> u64 \<Rightarrow> u64 \<Rightarrow> cpuid \<Rightarrow> usize \<Rightarrow> MemEntry list \<Rightarrow> VirtAddr \<Rightarrow> PhysAddr
    \<Rightarrow> ('h, 'd, 'l) Kernel \<Rightarrow> ('h, 'd, 'l) Kernel option" where
  "kmain_memory fb stub generic_stub idt_addr cpuid hhdm mem_map kernel_virt kernel_phys k = do {
     let k = k \<lparr> kn_hhdm := fls_set (kn_hhdm k) hhdm \<rparr>;
     let s = kn_system k;
     (c, idt, vendor) \<leftarrow> early_boot_init stub generic_stub idt_addr cpuid (sys_cpu s) (ts_idt (sys_timers s)) (kn_vendor k);
     vaa \<leftarrow> init_vaa_from_limine (fls_get (kn_hhdm k)) mem_map;
     (pmm, used_by_pmm) \<leftarrow> buddy_init_from_limine (fls_get (kn_hhdm k)) (kn_nodes k) mem_map;
     (c, t) \<leftarrow> init_paging fb cpuid (fls_get (kn_hhdm k)) c \<lparr> pg_tables = kn_tables k, pg_pmm = pmm \<rparr> mem_map kernel_virt kernel_phys used_by_pmm;
     Some (k \<lparr> kn_vendor := vendor, kn_system := s \<lparr> sys_km := \<lparr> km_vaa = vaa, km_paging = t \<rparr>, sys_cpu := c,
       sys_timers := (sys_timers s) \<lparr> ts_idt := idt \<rparr> \<rparr> \<rparr>) }"

text \<open>\<open>fb\<close> is the build feature \<open>framebuffer\<close>.  Every later operation finds the top-level table through CR3.  The final halt is not
  part of the model: the value is the state in which it is reached.\<close>

definition kmain :: "bool \<Rightarrow> (nat \<Rightarrow> u64) \<Rightarrow> u64 \<Rightarrow> u64 \<Rightarrow> ('h, 'd, 'l) Platform \<Rightarrow> LoaderInfo \<Rightarrow> ('h, 'd, 'l) Kernel \<Rightarrow> ('h, 'd, 'l) Kernel option" where
  "kmain fb stub generic_stub idt_addr P li k = do {
     _ \<leftarrow> ensure (li_revision_supported li);
     k \<leftarrow> (if fb
           then do {
             (addr, width, height, pitch, bpp) \<leftarrow> li_framebuffer li;
             Some (k \<lparr> kn_logger := framebuffer_init_from_limine addr width height pitch bpp (kn_logger k) \<rparr>) }
           else Some k);
     hhdm \<leftarrow> li_hhdm_offset li;
     mem_map \<leftarrow> li_mem_map li;
     (kernel_virt, kernel_phys) \<leftarrow> li_kernel_address li;
     rsdp \<leftarrow> li_rsdp li;
     k \<leftarrow> kmain_memory fb stub generic_stub idt_addr (pf_cpuid P) hhdm mem_map kernel_virt kernel_phys k;
     pml \<leftarrow> get_pml hhdm (sys_cpu (kn_system k));
     (r, s) \<leftarrow> acpi_init (P \<lparr> pf_hhdm := hhdm, pf_pml := pml \<rparr>) rsdp (kn_system k);
     _ \<leftarrow> unwrap_ok r;
     Some (k \<lparr> kn_system := s \<rparr>) }"

subsection \<open>The memory of the kernel\<close>

text \<open>What the boot loader and the machine must provide: a memory map from which the frame allocator can be built (\<open>pmm_init_correct\<close>),
  whose regions do not overlap, an end of the memory map from which virtual addresses can be handed out up to page number \<open>lim\<close>, below
  all regions, and frames for the tables.\<close>

definition own_pages :: "nat \<Rightarrow> nat" where
  "own_pages T = div_ceil (24 * Suc (log2_floor T) + FREELIST_BUCKETS_SIZE) BASIC_PAGE_SIZE"

definition first_memory :: "MemEntry list \<Rightarrow> MemEntry \<Rightarrow> nat \<Rightarrow> nat set" where
  "first_memory mm used T = usable_bytes mm - page_range (me_base used div BASIC_PAGE_SIZE) (own_pages T)"

definition allocator_ok :: "usize \<Rightarrow> nodes \<Rightarrow> MemEntry list \<Rightarrow> MemEntry \<Rightarrow> nat \<Rightarrow> bool" where
  "allocator_ok hhdm h mm used T \<longleftrightarrow>
     get_page_count_from_mem_map mm = Some T \<and> 0 < T \<and> Suc (log2_floor T) \<le> 50 \<and> mem_map_ok (T * BASIC_PAGE_SIZE) mm
     \<and> find (\<lambda>e. me_type e = USABLE \<and> 24 * Suc (log2_floor T) + FREELIST_BUCKETS_SIZE \<le> me_length e) mm = Some used
     \<and> 0 < hhdm \<and> 8 dvd hhdm \<and> me_base used + hhdm + (24 * Suc (log2_floor T) + FREELIST_BUCKETS_SIZE) < USIZE_LIM
     \<and> {me_base used + hhdm..<me_base used + hhdm + (24 * Suc (log2_floor T) + FREELIST_BUCKETS_SIZE)} \<subseteq> dom h
     \<and> T + Suc (Suc (log2_floor T)) \<le> 87381 \<and> T * BASIC_PAGE_SIZE + hhdm \<le> USIZE_LIM"

definition regions_fit :: "bool \<Rightarrow> usize \<Rightarrow> MemEntry list \<Rightarrow> VirtAddr \<Rightarrow> PhysAddr \<Rightarrow> MemEntry \<Rightarrow> nat \<Rightarrow> bool" where
  "regions_fit fb hhdm mm kv kp used T \<longleftrightarrow>
     (\<forall>e \<in> set mm. \<not> (fb \<and> me_type e = FRAMEBUFFER)) \<and> regions_ok (boot_regions fb hhdm kv kp used mm)
     \<and> (card (tables_for (\<Union> (region_span ` set (boot_regions fb hhdm kv kp used mm)))) + 4) * BASIC_PAGE_SIZE \<le> card (first_memory mm used T)"

definition addresses_ok :: "bool \<Rightarrow> usize \<Rightarrow> MemEntry list \<Rightarrow> VirtAddr \<Rightarrow> PhysAddr \<Rightarrow> MemEntry \<Rightarrow> nat \<Rightarrow> nat \<Rightarrow> bool" where
  "addresses_ok fb hhdm mm kv kp used n0 lim \<longleftrightarrow>
     mm \<noteq> [] \<and> me_base (last mm) + me_length (last mm) = n0 * BASIC_PAGE_SIZE \<and> 0 < n0 \<and> n0 \<le> lim \<and> lim \<le> 2 ^ 36
     \<and> n0 * BASIC_PAGE_SIZE + MIN_MEM_SPAN \<le> hhdm \<and> hhdm < USIZE_LIM
     \<and> (\<forall>(v, p, n) \<in> set (boot_regions fb hhdm kv kp used mm). lim * BASIC_PAGE_SIZE \<le> v mod 2 ^ 48)"

lemma init_vaa_ok:
  assumes "addresses_ok fb hhdm mm kv kp used n0 lim"
  shows "init_vaa_from_limine hhdm mm = Some \<lparr> vaa_hander = id_hander_new_starting_from (Id n0) MAX_ID \<rparr>"
proof -
  have n0: "n0 * BASIC_PAGE_SIZE < USIZE_LIM" "n0 * BASIC_PAGE_SIZE \<le> hhdm" "MIN_MEM_SPAN \<le> hhdm - n0 * BASIC_PAGE_SIZE"
    using assms by (auto simp: addresses_ok_def)
  have "vaa_new hhdm (n0 * BASIC_PAGE_SIZE) = Some \<lparr> vaa_hander = id_hander_new_starting_from (Id n0) MAX_ID \<rparr>"
    using n0 by (simp add: vaa_new_def BASIC_PAGE_SIZE_def usub_def)
  then show ?thesis using assms n0(1) by (simp add: init_vaa_from_limine_def addresses_ok_def uadd_ok)
qed

text \<open>Once the tables are built, the pages below all regions are free to be mapped.\<close>

lemma boot_km_ok:
  assumes sp: "space_inv L M hhdm root t (foldl add_region Map.empty rs) U" and lim: "0 < n0" "lim \<le> 2 ^ 36"
    and below: "\<forall>(v, p, n) \<in> set rs. lim * BASIC_PAGE_SIZE \<le> v mod 2 ^ 48"
  shows "km_ok L M hhdm root lim \<lparr> km_vaa = \<lparr> vaa_hander = id_hander_new_starting_from (Id n0) MAX_ID \<rparr>, km_paging = t \<rparr> Map.empty U"
proof -
  let ?A = "foldl add_region Map.empty rs"
  have un: "unmapped hhdm t root (n * BASIC_PAGE_SIZE)" if "n < lim" for n
  proof -
    have lt: "n * BASIC_PAGE_SIZE < lim * BASIC_PAGE_SIZE" using that by (simp add: BASIC_PAGE_SIZE_def)
    have "n * BASIC_PAGE_SIZE \<notin> region_span r" if "r \<in> set rs" for r
    proof -
      obtain v p m where r: "r = (v, p, m)" by (cases r) auto
      have "lim * BASIC_PAGE_SIZE \<le> v mod 2 ^ 48" using bspec [OF below that] by (simp only: r prod.case)
      with lt show ?thesis unfolding r region_span_def prod.case atLeastLessThan_iff by linarith
    qed
    then have "n * BASIC_PAGE_SIZE \<notin> dom ?A" by (simp add: dom_regions)
    moreover have "n * BASIC_PAGE_SIZE < 2 ^ 48" using that lim(2) by (simp add: BASIC_PAGE_SIZE_def)
    ultimately show ?thesis using space_invD(7) [OF sp] by blast
  qed
  have "mem_inv L M hhdm root t Map.empty U {n0..<lim}"
    unfolding mem_inv_def using space_invD(1-4) [OF sp] un lim by (auto simp: frames_def)
  then show ?thesis
    using lim by (simp add: km_ok_def vaa_next_def id_hander_new_starting_from_def MAX_ID_def USIZE_LIM_def)
qed

definition vendor_known :: "cpuid \<Rightarrow> bool" where
  "vendor_known cpuid \<longleftrightarrow> (cpuid_ebx (cpuid 0 0), cpuid_edx (cpuid 0 0), cpuid_ecx (cpuid 0 0)) \<in> {INTEL_STRING, AMD_STRING}"

text \<open>The statics before the first call.\<close>

definition fresh_kernel :: "('h, 'd, 'l) Kernel \<Rightarrow> bool" where
  "fresh_kernel k \<longleftrightarrow> fls_get (kn_vendor k) = InvalidVendor \<and> ts_idt (sys_timers (kn_system k)) = idt_new"

text \<open>The kernel after its memory has been set up: the processor walks the new tables, which map exactly the regions \<open>rs\<close>; the
  pages from \<open>n0\<close> to \<open>lim\<close> can be handed out and \<open>U\<close> is free; and the exception handlers are installed.\<close>

definition memory_up :: "nat \<Rightarrow> nat \<Rightarrow> usize \<Rightarrow> (nat \<times> nat \<times> nat) list \<Rightarrow> nat \<Rightarrow> nat \<Rightarrow> nat \<Rightarrow> nat set \<Rightarrow> ('h, 'd, 'l) System \<Rightarrow> bool" where
  "memory_up L M hhdm rs pml n0 lim U s \<longleftrightarrow>
     get_pml hhdm (sys_cpu s) = Some pml \<and> km_ok L M hhdm pml lim (sys_km s) Map.empty U \<and> vaa_next (sys_km s) = n0
     \<and> (\<forall>va < USIZE_LIM. \<forall>q. maps_to hhdm (km_paging (sys_km s)) pml va q \<longleftrightarrow>
          (\<exists>(v, p, n) \<in> set rs. \<exists>i < n. va mod 2 ^ 48 = v mod 2 ^ 48 + i \<and> q = p + i))"

lemma early_boot_init_ok:
  assumes "fresh_kernel k" and "vendor_known cpuid"
  obtains c idt vendor where "early_boot_init stub generic_stub idt_addr cpuid (sys_cpu (kn_system k)) (ts_idt (sys_timers (kn_system k))) (kn_vendor k) = Some (c, idt, vendor)"
    and "\<forall>i < 32. gate_for (stub i) (Cs_read (sys_cpu (kn_system k))) TrapGate (idt ! i)" and "fls_get vendor \<noteq> InvalidVendor"
proof -
  obtain c idt where i: "idt_init stub generic_stub idt_addr (sys_cpu (kn_system k)) idt_new = Some (c, idt)"
    "\<forall>i < 32. gate_for (stub i) (Cs_read (sys_cpu (kn_system k))) TrapGate (idt ! i)" by (rule idt_init_ok)
  have "\<exists>vendor. find_cpu_vendor cpuid (kn_vendor k) = Some vendor \<and> fls_get vendor \<noteq> InvalidVendor"
    using assms vendor_strings by (auto simp: find_cpu_vendor_def fresh_kernel_def vendor_known_def fls_set_def fls_get_def)
  then show ?thesis using that i assms(1) by (auto simp: early_boot_init_def fresh_kernel_def)
qed

lemma kmain_memory_spec:
  fixes k :: "('h, 'd, 'l) Kernel"
  assumes k: "fresh_kernel k" and cpu: "vendor_known cpuid" "paging_supported cpuid"
    and al: "allocator_ok hhdm (kn_nodes k) mm used T" and fit: "regions_fit fb hhdm mm kv kp used T" and ad: "addresses_ok fb hhdm mm kv kp used n0 lim"
  shows "\<exists>k' pml U. kmain_memory fb stub generic_stub idt_addr cpuid hhdm mm kv kp k = Some k'
    \<and> memory_up (Suc (log2_floor T)) (T * BASIC_PAGE_SIZE) hhdm (boot_regions fb hhdm kv kp used mm) pml n0 lim U (kn_system k')
    \<and> U \<subseteq> first_memory mm used T
    \<and> card (first_memory mm used T) \<le> card U + (card (tables_for (\<Union> (region_span ` set (boot_regions fb hhdm kv kp used mm)))) + 1) * BASIC_PAGE_SIZE
    \<and> (\<forall>i < 32. gate_for (stub i) (Cs_read (sys_cpu (kn_system k))) TrapGate (ts_idt (sys_timers (kn_system k')) ! i))
    \<and> fls_get (kn_hhdm k') = hhdm \<and> fls_get (kn_vendor k') \<noteq> InvalidVendor \<and> kn_logger k' = kn_logger k"
proof -
  let ?L = "Suc (log2_floor T)" and ?M = "T * BASIC_PAGE_SIZE" and ?rs = "boot_regions fb hhdm kv kp used mm"
  obtain c idt vendor where e: "early_boot_init stub generic_stub idt_addr cpuid (sys_cpu (kn_system k)) (ts_idt (sys_timers (kn_system k))) (kn_vendor k) = Some (c, idt, vendor)"
    "\<forall>i < 32. gate_for (stub i) (Cs_read (sys_cpu (kn_system k))) TrapGate (idt ! i)" "fls_get vendor \<noteq> InvalidVendor"
    by (rule early_boot_init_ok [OF k cpu(1)])
  have a: "get_page_count_from_mem_map mm = Some T" "0 < T" "?L \<le> 50" "mem_map_ok ?M mm"
    "find (\<lambda>e. me_type e = USABLE \<and> 24 * ?L + FREELIST_BUCKETS_SIZE \<le> me_length e) mm = Some used" "0 < hhdm" "8 dvd hhdm"
    "me_base used + hhdm + (24 * ?L + FREELIST_BUCKETS_SIZE) < USIZE_LIM"
    "{me_base used + hhdm..<me_base used + hhdm + (24 * ?L + FREELIST_BUCKETS_SIZE)} \<subseteq> dom (kn_nodes k)" "T + Suc ?L \<le> 87381" "?M + hhdm \<le> USIZE_LIM"
    using al by (simp_all add: allocator_ok_def)
  from pmm_init_spec [OF a(1,2) refl a(3-10)] obtain h b F where p: "buddy_init_from_limine hhdm (kn_nodes k) mm = Some ((h, b), used)"
    "pmm_ok ?L ?M h b F" "bytes F = first_memory mm used T" unfolding first_memory_def own_pages_def by blast
  define t where "t = \<lparr> pg_tables = kn_tables k, pg_pmm = (h, b) \<rparr>"
  have pm: "pmm_free_bytes ?L ?M (pg_pmm t) (first_memory mm used T)" using p(2,3) by (auto simp: t_def pmm_free_bytes_def)
  have f: "\<And>e. e \<in> set mm \<Longrightarrow> \<not> (fb \<and> me_type e = FRAMEBUFFER)" "regions_ok ?rs"
    "(card (tables_for (\<Union> (region_span ` set ?rs))) + 4) * BASIC_PAGE_SIZE \<le> card (first_memory mm used T)"
    using fit by (auto simp: regions_fit_def)
  obtain pa t' U where i: "paging_init_from_limine fb hhdm t mm kv kp used = Some ((pa + hhdm, pa), t')" "BASIC_PAGE_SIZE dvd pa" "pa + hhdm < USIZE_LIM"
    "U \<subseteq> first_memory mm used T - page pa" "space_inv ?L ?M hhdm (pa + hhdm) t' (foldl add_region Map.empty ?rs) U"
    "card (first_memory mm used T) \<le> card U + (card (tables_for (\<Union> (region_span ` set ?rs))) + 1) * BASIC_PAGE_SIZE"
    by (rule paging_init_space [OF pm a(11,6) f(1) refl f(2,3)], assumption) (rule that)
  have "4096 dvd pa" using i(2) by (simp add: BASIC_PAGE_SIZE_def)
  from finalize_init_spec [OF this i(3) a(6), of cpuid c] cpu(2) obtain c' where
    c': "finalize_init cpuid pa c = Some c'" "get_pml hhdm c' = Some (pa + hhdm)" by auto
  let ?vaa = "\<lparr> vaa_hander = id_hander_new_starting_from (Id n0) MAX_ID \<rparr>"
  define k' where "k' = k \<lparr> kn_hhdm := fls_set (kn_hhdm k) hhdm, kn_vendor := vendor, kn_system := (kn_system k) \<lparr> sys_km := \<lparr> km_vaa = ?vaa, km_paging = t' \<rparr>, sys_cpu := c',
    sys_timers := (sys_timers (kn_system k)) \<lparr> ts_idt := idt \<rparr> \<rparr> \<rparr>"
  have "kmain_memory fb stub generic_stub idt_addr cpuid hhdm mm kv kp k = Some k'"
    using e(1) init_vaa_ok [OF ad] p(1) i(1) c'(1)
    by (simp add: kmain_memory_def Let_def fls_set_def fls_get_def init_paging_def t_def k'_def)
  moreover have "0 < n0" "lim \<le> 2 ^ 36" "\<forall>(v, p, n) \<in> set ?rs. lim * BASIC_PAGE_SIZE \<le> v mod 2 ^ 48" using ad by (simp_all add: addresses_ok_def)
  from boot_km_ok [OF i(5) this] have "memory_up ?L ?M hhdm ?rs (pa + hhdm) n0 lim U (kn_system k')"
    using c'(2) boot_space_maps [OF i(5) f(2)] by (simp add: memory_up_def k'_def vaa_next_def id_hander_new_starting_from_def)
  moreover have "fls_get (kn_hhdm k') = hhdm" "fls_get (kn_vendor k') \<noteq> InvalidVendor" "kn_logger k' = kn_logger k" "ts_idt (sys_timers (kn_system k')) = idt"
    using e(3) by (simp_all add: k'_def fls_set_def fls_get_def)
  ultimately show ?thesis using e(2) i(4,6) by (intro exI [of _ k'] exI [of _ "pa + hhdm"] exI [of _ U]) auto
qed

text \<open>C7: The kernel's memory after boot.  On a processor that is recognised and supports the features the code checks, with a memory map
  from which the frame allocator can be built and whose regions do not overlap, the first part of the entry point never panics: the exception
  handlers are in place, CR3 leads to page tables that map exactly the direct map and the kernel, the free memory is the usable memory
  less the allocator's own pages and the page tables, and the paging manager's invariant holds, so that pages can be allocated and mapped.\<close>

theorem kmain_memory_correct:
  fixes k :: "('h, 'd, 'l) Kernel"
  assumes "fresh_kernel k" and "vendor_known cpuid" and "paging_supported cpuid"
    and "allocator_ok hhdm (kn_nodes k) mm used T" and "regions_fit fb hhdm mm kv kp used T" and "addresses_ok fb hhdm mm kv kp used n0 lim"
  shows "\<exists>k' pml U. kmain_memory fb stub generic_stub idt_addr cpuid hhdm mm kv kp k = Some k'
    \<and> memory_up (Suc (log2_floor T)) (T * BASIC_PAGE_SIZE) hhdm (boot_regions fb hhdm kv kp used mm) pml n0 lim U (kn_system k')
    \<and> U \<subseteq> first_memory mm used T
    \<and> card (first_memory mm used T) \<le> card U + (card (tables_for (\<Union> (region_span ` set (boot_regions fb hhdm kv kp used mm)))) + 1) * BASIC_PAGE_SIZE
    \<and> (\<forall>i < 32. gate_for (stub i) (Cs_read (sys_cpu (kn_system k))) TrapGate (ts_idt (sys_timers (kn_system k')) ! i))
    \<and> fls_get (kn_hhdm k') = hhdm \<and> fls_get (kn_vendor k') \<noteq> InvalidVendor \<and> kn_logger k' = kn_logger k"
  by (rule kmain_memory_spec [OF assms])

subsection \<open>The whole boot\<close>

text \<open>A root pointer, a root table and tables in the firmware's memory.\<close>

definition firmware_ok :: "('h, 'd, 'l) Platform \<Rightarrow> PhysAddr \<Rightarrow> (string \<Rightarrow> nat) \<Rightarrow> (string \<Rightarrow> nat) \<Rightarrow> (nat \<times> AcpiTable) list \<Rightarrow> bool" where
  "firmware_ok P rsdp_addr r v ts \<longleftrightarrow>
     phys_bytes P rsdp_addr (struct_bytes Rsdp2 r) \<and> rsdp_addr mod BASIC_PAGE_SIZE + size_of Rsdp2 \<le> BASIC_PAGE_SIZE \<and> rsdp_addr + BASIC_PAGE_SIZE \<le> USIZE_LIM
     \<and> phys_bytes P (r ''xsdt_address'') (xsdt_bytes v (map fst ts)) \<and> 4 dvd r ''xsdt_address''
     \<and> r ''xsdt_address'' mod BASIC_PAGE_SIZE + length (xsdt_bytes v (map fst ts)) \<le> BASIC_PAGE_SIZE \<and> r ''xsdt_address'' + BASIC_PAGE_SIZE \<le> USIZE_LIM
     \<and> tables_in_memory P ts"

definition roots_valid :: "(string \<Rightarrow> nat) \<Rightarrow> (string \<Rightarrow> nat) \<Rightarrow> (nat \<times> AcpiTable) list \<Rightarrow> bool" where
  "roots_valid r v ts \<longleftrightarrow> checksum_ok (take 20 (struct_bytes Rsdp2 r)) \<and> checksum_ok (drop 20 (struct_bytes Rsdp2 r)) \<and> checksum_ok (xsdt_bytes v (map fst ts))"

lemma firmware_ok_tables [simp]: "firmware_ok (P \<lparr> pf_hhdm := a, pf_pml := b \<rparr>) rsdp_addr r v ts = firmware_ok P rsdp_addr r v ts"
  by (simp add: firmware_ok_def phys_bytes_def tables_in_memory_def)

lemma bind_unwrap:
  "Option.bind x (\<lambda>(r, s). Option.bind (unwrap_ok r) (\<lambda>_. Some (f s))) = (case x of Some (Inr _, s) \<Rightarrow> Some (f s) | _ \<Rightarrow> None)"
  by (auto split: option.splits sum.splits)

text \<open>C8: The boot as a whole, without the framebuffer feature, for every list of firmware tables of the forms of \<open>AcpiTable\<close>, each within one
  page (the event timer's table as the specification has it, interrupt controller tables with entries in the code's layouts, segment group
  tables, and tables of any other signature).  After the kernel's memory is set up by \<open>kmain_memory\<close>, the entry point maps the root
  pointer and the root table at the first two pages of the address allocator, panics when one of them has a wrong checksum, and otherwise carries
  out the tables in their order through the new page tables; it panics when one of them fails, and reaches the end with the state that they
  leave otherwise.  The minimum tick of the event timer is the one the code reads, \<open>hpet_tick_read\<close>.\<close>

theorem kmain_correct:
  fixes k :: "('h, 'd, 'l) Kernel"
  assumes "fresh_kernel k" and "vendor_known (pf_cpuid P)" and "paging_supported (pf_cpuid P)"
    and "allocator_ok hhdm (kn_nodes k) mm used T" and "regions_fit False hhdm mm kv kp used T" and "addresses_ok False hhdm mm kv kp used n0 lim"
    and "li = \<lparr> li_revision_supported = True, li_framebuffer = f, li_hhdm_offset = Some hhdm, li_mem_map = Some mm, li_kernel_address = Some (kv, kp), li_rsdp = Some rsdp \<rparr>"
    and "firmware_ok P rsdp r v ts" and "n0 + 2 + tables_pages (pf_cfg P) ts \<le> lim"
    and "(3 * (2 + tables_pages (pf_cfg P) ts) + card (tables_for (\<Union> (region_span ` set (boot_regions False hhdm kv kp used mm)))) + 1) * BASIC_PAGE_SIZE \<le> card (first_memory mm used T)"
  shows "\<exists>k1 pml U P' s1 s2. kmain_memory False stub generic_stub idt_addr (pf_cpuid P) hhdm mm kv kp k = Some k1
    \<and> memory_up (Suc (log2_floor T)) (T * BASIC_PAGE_SIZE) hhdm (boot_regions False hhdm kv kp used mm) pml n0 lim U (kn_system k1)
    \<and> P' = P \<lparr> pf_hhdm := hhdm, pf_pml := pml \<rparr>
    \<and> map_table P' rsdp (kn_system k1) = Some (n0 * BASIC_PAGE_SIZE + rsdp mod BASIC_PAGE_SIZE, s1)
    \<and> map_table P' (r ''xsdt_address'') s1 = Some (Suc n0 * BASIC_PAGE_SIZE + r ''xsdt_address'' mod BASIC_PAGE_SIZE, s2)
    \<and> kmain False stub generic_stub idt_addr P li k =
        (if \<not> roots_valid r v ts then None
         else case apply_tables P' ts s2 of Some (Inr _, s) \<Rightarrow> Some (k1 \<lparr> kn_system := s \<rparr>) | _ \<Rightarrow> None)"
proof -
  let ?S = "\<Union> (region_span ` set (boot_regions False hhdm kv kp used mm))" and ?L = "Suc (log2_floor T)" and ?M = "T * BASIC_PAGE_SIZE"
  from kmain_memory_spec [OF assms(1-6), of stub generic_stub idt_addr] obtain k1 pml U where
    m: "kmain_memory False stub generic_stub idt_addr (pf_cpuid P) hhdm mm kv kp k = Some k1"
    "memory_up ?L ?M hhdm (boot_regions False hhdm kv kp used mm) pml n0 lim U (kn_system k1)"
    "card (first_memory mm used T) \<le> card U + (card (tables_for ?S) + 1) * BASIC_PAGE_SIZE" by blast
  define P' where "P' = P \<lparr> pf_hhdm := hhdm, pf_pml := pml \<rparr>"
  have P': "pf_hhdm P' = hhdm" "pf_pml P' = pml" "pf_cfg P' = pf_cfg P" by (simp_all add: P'_def)
  have up: "get_pml hhdm (sys_cpu (kn_system k1)) = Some pml" "km_ok ?L ?M hhdm pml lim (sys_km (kn_system k1)) Map.empty U" "vaa_next (sys_km (kn_system k1)) = n0"
    using m(2) by (simp_all add: memory_up_def)
  have ok: "scan_ok ?L ?M (pf_hhdm P') (pf_pml P') n0 lim {} (sys_km (kn_system k1)) Map.empty U"
    using scan_ok_of_km [OF up(2)] up(3) assms(9) by (simp add: P' frames_def)
  have fw: "firmware_ok P' rsdp r v ts" using assms(8) by (simp add: P'_def)
  have room: "vaa_next (sys_km (kn_system k1)) + 2 + tables_pages (pf_cfg P') ts \<le> lim" "3 * (2 + tables_pages (pf_cfg P') ts) * BASIC_PAGE_SIZE \<le> card U"
    using assms(9,10) m(3) up(3) unfolding P' add_mult_distrib by linarith+
  from acpi_init_spec [of P' rsdp r "r ''xsdt_address''" v ts, OF _ _ _ _ refl _ _ _ _ ok room] fw obtain s1 s2 where
    a: "map_table P' rsdp (kn_system k1) = Some (vaa_next (sys_km (kn_system k1)) * BASIC_PAGE_SIZE + rsdp mod BASIC_PAGE_SIZE, s1)"
    "map_table P' (r ''xsdt_address'') s1 = Some (vaa_next (sys_km s1) * BASIC_PAGE_SIZE + r ''xsdt_address'' mod BASIC_PAGE_SIZE, s2)"
    "acpi_init P' rsdp (kn_system k1) =
        (if \<not> (checksum_ok (take 20 (struct_bytes Rsdp2 r)) \<and> checksum_ok (drop 20 (struct_bytes Rsdp2 r))) then Some (Err InvalidChecksum, s1)
         else if \<not> checksum_ok (xsdt_bytes v (map fst ts)) then Some (Err InvalidChecksum, s2)
         else apply_tables P' ts s2)" unfolding firmware_ok_def by blast
  have n1: "vaa_next (sys_km s1) = Suc n0"
  proof -
    have "vaa_next (sys_km (kn_system k1)) < lim" "3 * BASIC_PAGE_SIZE \<le> card U" using room by (simp_all add: BASIC_PAGE_SIZE_def)
    moreover have "rsdp + BASIC_PAGE_SIZE \<le> USIZE_LIM" "rsdp mod BASIC_PAGE_SIZE + 0 \<le> BASIC_PAGE_SIZE" using fw by (simp_all add: firmware_ok_def)
    ultimately obtain s' va where "map_table P' rsdp (kn_system k1) = Some (va, s')" "vaa_next (sys_km s') = vaa_next (sys_km (kn_system k1)) + 1"
      by (rule map_table_ok [OF ok]) (rule that)
    with a(1) up(3) show ?thesis by simp
  qed
  have "kmain False stub generic_stub idt_addr P li k = (case acpi_init P' rsdp (kn_system k1) of Some (Inr _, s) \<Rightarrow> Some (k1 \<lparr> kn_system := s \<rparr>) | _ \<Rightarrow> None)"
    unfolding bind_unwrap [symmetric] P'_def kmain_def assms(7)
    by (simp only: LoaderInfo.simps ensure_True Option.bind.simps if_False prod.case m(1) up(1))
  also have "\<dots> = (if \<not> roots_valid r v ts then None
         else case apply_tables P' ts s2 of Some (Inr _, s) \<Rightarrow> Some (k1 \<lparr> kn_system := s \<rparr>) | _ \<Rightarrow> None)"
    unfolding a(3) roots_valid_def by simp
  finally have eq: "kmain False stub generic_stub idt_addr P li k = (if \<not> roots_valid r v ts then None
         else case apply_tables P' ts s2 of Some (Inr _, s) \<Rightarrow> Some (k1 \<lparr> kn_system := s \<rparr>) | _ \<Rightarrow> None)" .
  show ?thesis
    by (intro exI conjI) (rule m(1), rule m(2), rule P'_def, rule a(1) [unfolded up(3)], rule a(2) [unfolded n1], rule eq)
qed

subsection \<open>An example\<close>

text \<open>A machine with four megabytes of usable memory, the kernel at six megabytes and the firmware's tables of the example of \<open>Acpi\<close>:
  an interrupt controller table, an event timer's table and a segment group table.\<close>

definition boot_map :: "MemEntry list" where
  "boot_map = [\<lparr> me_base = 0x100000, me_length = 0x400000, me_type = USABLE \<rparr>, \<lparr> me_base = 0x600000, me_length = 0x2000, me_type = EXECUTABLE_AND_MODULES \<rparr>]"

definition boot_info :: LoaderInfo where
  "boot_info = \<lparr> li_revision_supported = True, li_framebuffer = None, li_hhdm_offset = Some 0xffff800000000000, li_mem_map = Some boot_map,
     li_kernel_address = Some (0xffffffff80000000, 0x600000), li_rsdp = Some 0x7000000 \<rparr>"

definition boot_cpuid :: cpuid where
  "boot_cpuid n sub = (if n = 0 then case INTEL_STRING of (b, d, c) \<Rightarrow> \<lparr> cpuid_eax = 0, cpuid_ebx = b, cpuid_ecx = c, cpuid_edx = d \<rparr>
     else \<lparr> cpuid_eax = 0, cpuid_ebx = 0, cpuid_ecx = 0, cpuid_edx = mask 32 \<rparr>)"

definition boot_platform :: "(usize \<Rightarrow> u64, demo_ioapic, usize \<Rightarrow> u32) Platform" where
  "boot_platform = (demo_platform demo_image) \<lparr> pf_cpuid := boot_cpuid \<rparr>"

definition boot_kernel :: "(usize \<Rightarrow> u64, demo_ioapic, usize \<Rightarrow> u32) Kernel" where
  "boot_kernel = \<lparr> kn_logger = \<lparr> lg_serial = SERIAL_WRITER, lg_writes = [], lg_framebuffer = FRAMEBUFFER_WRITER, lg_mem = (\<lambda>_. 0) \<rparr>,
     kn_hhdm = fls_new 0, kn_vendor = fls_new InvalidVendor, kn_nodes = (\<lambda>_. Some \<lparr> dn_data = 0, dn_next = None, dn_prev = None \<rparr>), kn_tables = Map.empty,
     kn_system = (demo_system \<lparr> km_vaa = vaa_uninit, km_paging = \<lparr> pg_tables = Map.empty, pg_pmm = (Map.empty, \<lparr> ba_zones = [], ba_freelist = ll_new \<rparr>) \<rparr> \<rparr>)
       \<lparr> sys_timers := (demo_timers id_tracker_uninit) \<lparr> ts_idt := idt_new, ts_dev := (\<lambda>a. if a mod BASIC_PAGE_SIZE = 0 then 0x009896808086A201 else 0) \<rparr> \<rparr> \<rparr>"

lemma boot_cpu: "vendor_known boot_cpuid" "paging_supported boot_cpuid"
  by (simp_all add: vendor_known_def paging_supported_def boot_cpuid_def INTEL_STRING_def bit_mask_iff)

lemma boot_fresh: "fresh_kernel boot_kernel"
  by (simp add: fresh_kernel_def boot_kernel_def fls_get_def fls_new_def)

lemma boot_log2: "log2_floor 0x602 = 10"
  by (rule log2_floor_unique) simp_all

lemma boot_memory: "first_memory boot_map (hd boot_map) 0x602 = {0x301000..<0x500000}"
proof -
  have "{e \<in> set boot_map. usable e} = {hd boot_map}" by (auto simp: usable_def boot_map_def)
  then have "usable_bytes boot_map = {0x100000..<0x500000}" by (simp add: usable_bytes_def PMM.entry_bytes_def boot_map_def del: atLeastLessThan_nat_numeral)
  moreover have "page_range (me_base (hd boot_map) div BASIC_PAGE_SIZE) (own_pages 0x602) = {0x100000..<0x301000}"
    by (simp add: page_range_def own_pages_def boot_log2 FREELIST_BUCKETS_SIZE_def BASIC_PAGE_SIZE_def div_ceil_def boot_map_def del: atLeastLessThan_nat_numeral)
  ultimately show ?thesis unfolding first_memory_def by (auto simp del: atLeastLessThan_nat_numeral)
qed

lemma boot_allocator: "allocator_ok 0xffff800000000000 (kn_nodes boot_kernel) boot_map (hd boot_map) 0x602"
  unfolding allocator_ok_def boot_log2
  by (simp add: boot_map_def boot_kernel_def get_page_count_from_mem_map_def uadd_def udiv_def USIZE_LIM_def BASIC_PAGE_SIZE_def
      mem_map_ok_def usable_def FREELIST_BUCKETS_SIZE_def dom_def)

lemma boot_regions_eq:
  "boot_regions fb 0xffff800000000000 0xffffffff80000000 0x600000 (hd boot_map) boot_map = [(0xffff800000100000, 0x100000, 0x400000), (0xffffffff80000000, 0x600000, 0x2000)]"
  by (simp add: boot_regions_def boot_map_def mem_region_def)

lemma boot_tables_for:
  "card (tables_for (\<Union> (region_span ` set (boot_regions fb 0xffff800000000000 0xffffffff80000000 0x600000 (hd boot_map) boot_map)))) \<le> 8"
proof -
  have s3: "(\<Sum>k < (3::nat). f k) = f 0 + f 1 + f 2" for f :: "nat \<Rightarrow> nat" by (simp add: eval_nat_numeral)
  have "card (tables_for {0x800000100000..<0x800000500000}) \<le> 5" "card (tables_for {0xffff80000000..<0xffff80002000}) \<le> 3"
    using card_tables_for [of "0x800000100000" "0x800000500000"] card_tables_for [of "0xffff80000000" "0xffff80002000"] by (simp_all add: s3)
  moreover have "\<Union> (region_span ` set (boot_regions fb 0xffff800000000000 0xffffffff80000000 0x600000 (hd boot_map) boot_map)) =
      {0x800000100000..<0x800000500000} \<union> {0xffff80000000..<0xffff80002000}"
    by (simp add: boot_regions_eq region_span_def del: atLeastLessThan_nat_numeral)
  ultimately show ?thesis
    using card_Un_le [of "tables_for {0x800000100000..<0x800000500000}" "tables_for {0xffff80000000..<0xffff80002000}"] by (simp only: tables_for_Un)
qed

lemma boot_fit: "regions_fit False 0xffff800000000000 boot_map 0xffffffff80000000 0x600000 (hd boot_map) 0x602"
proof -
  have "(card (tables_for (\<Union> (region_span ` set (boot_regions False 0xffff800000000000 0xffffffff80000000 0x600000 (hd boot_map) boot_map)))) + 4) * BASIC_PAGE_SIZE
      \<le> card (first_memory boot_map (hd boot_map) 0x602)"
    using mult_le_mono1 [OF boot_tables_for [of False], of 4096] unfolding boot_memory BASIC_PAGE_SIZE_def add_mult_distrib card_atLeastLessThan by simp
  moreover have "regions_ok [(0xffff800000100000, 0x100000, 0x400000), (0xffffffff80000000, 0x600000, 0x2000)]"
    by (auto simp: regions_ok_def region_ok_def region_span_def BASIC_PAGE_SIZE_def USIZE_LIM_def)
  ultimately show ?thesis by (simp add: regions_fit_def boot_regions_eq)
qed

lemma boot_addresses: "addresses_ok False 0xffff800000000000 boot_map 0xffffffff80000000 0x600000 (hd boot_map) 0x602 0x1000"
  unfolding addresses_ok_def boot_regions_eq by (simp add: boot_map_def BASIC_PAGE_SIZE_def MIN_MEM_SPAN_def USIZE_LIM_def)

lemma boot_firmware: "firmware_ok boot_platform 0x7000000 demo_rsdp demo_xsdt demo_tables" "roots_valid demo_rsdp demo_xsdt demo_tables"
proof -
  have mem: "pf_mem boot_platform = demo_image" by (simp add: boot_platform_def demo_platform_def)
  have x: "demo_rsdp ''xsdt_address'' = 0x7000100" by (simp add: demo_rsdp_def)
  show "firmware_ok boot_platform 0x7000000 demo_rsdp demo_xsdt demo_tables"
    unfolding firmware_ok_def x using demo_memory [OF mem] demo_lengths(1-3) by (simp add: BASIC_PAGE_SIZE_def USIZE_LIM_def)
  show "roots_valid demo_rsdp demo_xsdt demo_tables" using demo_checksums(1-3) by (simp add: roots_valid_def)
qed

text \<open>The memory boot leaves the devices alone.\<close>

lemma kmain_memory_devices:
  assumes "kmain_memory fb stub generic_stub idt_addr cpuid hhdm mm kv kp k = Some k'"
  shows "ts_dev (sys_timers (kn_system k')) = ts_dev (sys_timers (kn_system k))" and "sys_lapics (kn_system k') = sys_lapics (kn_system k)"
    and "sys_ioapics (kn_system k') = sys_ioapics (kn_system k)" and "sys_pcie (kn_system k') = sys_pcie (kn_system k)"
    and "sys_ports (kn_system k') = sys_ports (kn_system k)"
  using assms by (auto simp: kmain_memory_def Let_def sys_ioapics_def split: Option.bind_splits)

theorem kmain_memory_correct_witness:
  "\<exists>k' pml. kmain_memory False (\<lambda>i. 0x100 * of_nat i) 0x9000 0x8000 boot_cpuid 0xffff800000000000 boot_map 0xffffffff80000000 0x600000 boot_kernel = Some k'
    \<and> get_pml 0xffff800000000000 (sys_cpu (kn_system k')) = Some pml \<and> maps_to 0xffff800000000000 (km_paging (sys_km (kn_system k'))) pml 0xffffffff80001234 0x601234
    \<and> vaa_next (sys_km (kn_system k')) = 0x602"
proof -
  from kmain_memory_correct [OF boot_fresh boot_cpu boot_allocator boot_fit boot_addresses, of "\<lambda>i. 0x100 * of_nat i" "0x9000" "0x8000"]
  obtain k' pml U where m: "kmain_memory False (\<lambda>i. 0x100 * of_nat i) 0x9000 0x8000 boot_cpuid 0xffff800000000000 boot_map 0xffffffff80000000 0x600000 boot_kernel = Some k'"
    "memory_up (Suc (log2_floor 0x602)) (0x602 * BASIC_PAGE_SIZE) 0xffff800000000000 [(0xffff800000100000, 0x100000, 0x400000), (0xffffffff80000000, 0x600000, 0x2000)]
      pml 0x602 0x1000 U (kn_system k')" unfolding boot_regions_eq by blast
  from m(2) have "\<forall>va < USIZE_LIM. \<forall>q. maps_to 0xffff800000000000 (km_paging (sys_km (kn_system k'))) pml va q \<longleftrightarrow>
      (\<exists>(v, p, n) \<in> set [(0xffff800000100000, 0x100000, 0x400000), (0xffffffff80000000, 0x600000, 0x2000)]. \<exists>i < n. va mod 2 ^ 48 = v mod 2 ^ 48 + i \<and> q = p + i)"
    unfolding memory_up_def by blast
  from this [rule_format, of "0xffffffff80001234" "0x601234"] have "maps_to 0xffff800000000000 (km_paging (sys_km (kn_system k'))) pml 0xffffffff80001234 0x601234"
    by (simp add: USIZE_LIM_def)
  with m show ?thesis by (auto simp: memory_up_def)
qed

theorem kmain_correct_witness:
  "\<exists>k'. kmain False (\<lambda>i. 0x100 * of_nat i) 0x9000 0x8000 boot_platform boot_info boot_kernel = Some k'
    \<and> sys_ports (kn_system k') = [Out8 0x21 0xFF, Out8 0xA1 0xFF] \<and> tracker_pool (ia_irq_allocator (sys_ioapics (kn_system k'))) = {Id 0..Id 23}
    \<and> main_clock_period (ts_hpet (sys_timers (kn_system k'))) = 10000000 \<and> vaa_next (sys_km (kn_system k')) = 0x608"
proof -
  have P: "pf_cpuid boot_platform = boot_cpuid" by (simp add: boot_platform_def)
  have B: "BASIC_PAGE_SIZE = 4096" by (simp add: BASIC_PAGE_SIZE_def)
  have n: "tables_pages (pf_cfg boot_platform) demo_tables = 7" by (simp add: tables_pages_def demo_tables_def demo_madt_entries_def all_probed_def)
  let ?S = "\<Union> (region_span ` set (boot_regions False 0xffff800000000000 0xffffffff80000000 0x600000 (hd boot_map) boot_map))"
  have room: "(3 * (2 + tables_pages (pf_cfg boot_platform) demo_tables) + card (tables_for ?S) + 1) * BASIC_PAGE_SIZE \<le> card (first_memory boot_map (hd boot_map) 0x602)"
    using mult_le_mono1 [OF boot_tables_for [of False], of 4096] unfolding n boot_memory B add_mult_distrib card_atLeastLessThan by simp
  have pages: "0x602 + 2 + tables_pages (pf_cfg boot_platform) demo_tables \<le> 0x1000" unfolding n by simp
  from kmain_correct [OF boot_fresh boot_cpu [folded P] boot_allocator boot_fit boot_addresses boot_info_def boot_firmware(1) pages room, of "\<lambda>i. 0x100 * of_nat i" "0x9000" "0x8000"]
    boot_firmware(2) obtain k1 pml U P' s1 s2 where
    m: "kmain_memory False (\<lambda>i. 0x100 * of_nat i) 0x9000 0x8000 (pf_cpuid boot_platform) 0xffff800000000000 boot_map 0xffffffff80000000 0x600000 boot_kernel = Some k1"
    and up: "memory_up (Suc (log2_floor 0x602)) (0x602 * BASIC_PAGE_SIZE) 0xffff800000000000 (boot_regions False 0xffff800000000000 0xffffffff80000000 0x600000 (hd boot_map) boot_map)
      pml 0x602 0x1000 U (kn_system k1)"
    and x: "P' = boot_platform \<lparr> pf_hhdm := 0xffff800000000000, pf_pml := pml \<rparr>" "map_table P' 0x7000000 (kn_system k1) = Some (0x602 * BASIC_PAGE_SIZE + 0x7000000 mod BASIC_PAGE_SIZE, s1)"
      "map_table P' (demo_rsdp ''xsdt_address'') s1 = Some (Suc 0x602 * BASIC_PAGE_SIZE + demo_rsdp ''xsdt_address'' mod BASIC_PAGE_SIZE, s2)"
      "kmain False (\<lambda>i. 0x100 * of_nat i) 0x9000 0x8000 boot_platform boot_info boot_kernel = (case apply_tables P' demo_tables s2 of Some (Inr _, s) \<Rightarrow> Some (k1 \<lparr> kn_system := s \<rparr>) | _ \<Rightarrow> None)"
    by (simp only: not_True_eq_False if_False) (elim exE conjE, rule that)
  obtain pml' U' where u: "memory_up (Suc (log2_floor 0x602)) (0x602 * BASIC_PAGE_SIZE) 0xffff800000000000 (boot_regions False 0xffff800000000000 0xffffffff80000000 0x600000 (hd boot_map) boot_map)
      pml' 0x602 0x1000 U' (kn_system k1)" "card (first_memory boot_map (hd boot_map) 0x602) \<le> card U' + (card (tables_for ?S) + 1) * BASIC_PAGE_SIZE"
    using kmain_memory_spec [OF boot_fresh boot_cpu boot_allocator boot_fit boot_addresses, of "\<lambda>i. 0x100 * of_nat i" "0x9000" "0x8000"] m unfolding P
    by (elim exE conjE) (rule that, simp_all)
  have eq: "pml' = pml" using up u(1) by (simp add: memory_up_def)
  have hh: "pf_hhdm P' = 0xffff800000000000" "pf_pml P' = pml" by (simp_all add: x(1))
  have k: "km_ok (Suc (log2_floor 0x602)) (0x602 * BASIC_PAGE_SIZE) 0xffff800000000000 pml 0x1000 (sys_km (kn_system k1)) Map.empty U'" "vaa_next (sys_km (kn_system k1)) = 0x602"
    using u(1) by (simp_all add: memory_up_def eq)
  have ok: "scan_ok (Suc (log2_floor 0x602)) (0x602 * BASIC_PAGE_SIZE) (pf_hhdm P') (pf_pml P') 0x602 0x1000 {} (sys_km (kn_system k1)) Map.empty U'"
    using scan_ok_of_km [OF k(1)] k(2) unfolding hh by (simp add: frames_def)
  have U: "18 * BASIC_PAGE_SIZE \<le> card U'"
    using u(2) mult_le_mono1 [OF boot_tables_for [of False], of 4096] unfolding boot_memory B add_mult_distrib card_atLeastLessThan by simp
  obtain D2 U2 where s2: "scan_ok (Suc (log2_floor 0x602)) (0x602 * BASIC_PAGE_SIZE) (pf_hhdm P') (pf_pml P') 0x602 0x1000 {} (sys_km s2) D2 U2" "vaa_next (sys_km s2) = 0x604"
    "12 * BASIC_PAGE_SIZE \<le> card U2"
    by (rule map_two_tables [OF ok _ _ x(2,3)]) (use that k(2) U in \<open>auto simp: B USIZE_LIM_def demo_rsdp_def\<close>)
  note f = map_tables_frame [OF x(2,3)] and d = kmain_memory_devices [OF m]
  have dev: "ts_dev (sys_timers s2) (j * BASIC_PAGE_SIZE) = 0x009896808086A201" for j
    by (subst f) (simp add: d(1) boot_kernel_def)
  have "sys_ioapics s2 = sys_ioapics (kn_system k1)" by (subst f) (simp add: sys_ioapics_def)
  then have io: "sys_ioapics s2 = sys_ioapics (kn_system boot_kernel)" by (simp only: d(3))
  have y1: "sys_lapics s2 = []" and y3: "sys_pcie s2 = pcie_manager_new" and p: "sys_ports s2 = []"
    by (subst f, simp add: d boot_kernel_def demo_system_def)+
  have y2: "ia_ioapics (sys_ioapics s2) = [demo_io]" unfolding io by (simp add: sys_ioapics_def boot_kernel_def demo_timers_def demo_ioapics_def)
  have hp: "pf_hpet_rd P' = (\<lambda>d a. d a)" "pf_hpet_wr P' = (\<lambda>d a v. d(a := v))" by (simp_all add: x(1) boot_platform_def demo_platform_def)
  obtain s' where "apply_tables P' demo_tables s2 = Some (Ok (), s')" "vaa_next (sys_km s') = vaa_next (sys_km s2) + 4"
    "sys_ports s' = sys_ports s2 @ [Out8 0x21 0xFF, Out8 0xA1 0xFF]" "tracker_pool (ia_irq_allocator (sys_ioapics s')) = {Id 0..Id 23}"
    "main_clock_period (ts_hpet (sys_timers s')) = 10000000"
    by (rule demo_tables_apply [OF hp dev y1 y2 y3 s2(1)]) (use that s2(2,3) in simp_all)
  then show ?thesis using x(4) s2(2) p by (intro exI [of _ "k1 \<lparr> kn_system := s' \<rparr>"]) simp
qed

end
