(* ===== verification/Isr.thy ===== *)
theory Isr
  imports Interrupts
begin

text \<open>
  The interrupt stubs that the \<open>isr\<close> attribute of \<open>macros/src/lib.rs\<close> generates around a handler, and the exception handlers of
  \<open>kernel/src/arch/x86_64/event.rs\<close>.  The stub is two instructions, \<open>call\<close> and \<open>iretq\<close>; they are modelled with the processor's documented
  behaviour on entry to a handler and on return.  The compiled body of a handler is a parameter; of the one call that a statement is about it is
  assumed that it returns with the stack above its return address as it was.  Nothing is assumed of the registers: the stub enters the handler
  with a stack pointer that the calling convention does not allow.
\<close>

unbundle bit_operations_syntax

subsection \<open>The processor\<close>

datatype Gpr = RAX | RBX | RCX | RDX | RSI | RDI | RBP | R8 | R9 | R10 | R11 | R12 | R13 | R14 | R15

record Machine =
  mc_rip :: u64
  mc_cs :: u64
  mc_rflags :: u64
  mc_rsp :: u64
  mc_ss :: u64
  mc_gpr :: "Gpr \<Rightarrow> u64"
  mc_mem :: "u64 \<Rightarrow> u64"

definition push_u64 :: "u64 \<Rightarrow> Machine \<Rightarrow> Machine" where
  "push_u64 v m = m \<lparr> mc_rsp := mc_rsp m - 8, mc_mem := (mc_mem m)(mc_rsp m - 8 := v) \<rparr>"

definition stack_top :: "nat \<Rightarrow> Machine \<Rightarrow> u64" where
  "stack_top k m = mc_mem m (mc_rsp m + 8 * of_nat k)"

text \<open>Entry to a handler in 64-bit mode: the stack pointer is aligned, five values are pushed and, for some exceptions, an error code; an
  interrupt gate also clears the interrupt flag.\<close>

definition interrupt_entry :: "GateType \<Rightarrow> u64 \<Rightarrow> u64 option \<Rightarrow> Machine \<Rightarrow> Machine" where
  "interrupt_entry gate stub code m =
     (let m' = m \<lparr> mc_rsp := mc_rsp m AND NOT 15 \<rparr>;
          m' = push_u64 (mc_rip m) (push_u64 (mc_cs m) (push_u64 (mc_rflags m) (push_u64 (mc_rsp m) (push_u64 (mc_ss m) m'))));
          m' = (case code of None \<Rightarrow> m' | Some e \<Rightarrow> push_u64 e m')
      in m' \<lparr> mc_rip := stub, mc_rflags := (if gate = InterruptGate then unset_bit 9 (mc_rflags m) else mc_rflags m) \<rparr>)"

definition iretq :: "Machine \<Rightarrow> Machine" where
  "iretq m = m \<lparr> mc_rip := stack_top 0 m, mc_cs := stack_top 1 m, mc_rflags := stack_top 2 m, mc_rsp := stack_top 3 m, mc_ss := stack_top 4 m \<rparr>"

subsection \<open>The stub\<close>

text \<open>\<open>call\<close> pushes the address of the \<open>iretq\<close> behind it, \<open>ret\<close>; \<open>f\<close> is the handler up to and with its return.  The value is \<open>None\<close> when the handler
  does not come back to the stub.\<close>

definition isr_stub :: "u64 \<Rightarrow> (Machine \<Rightarrow> Machine) \<Rightarrow> Machine \<Rightarrow> Machine option" where
  "isr_stub ret f m =
     (let m = f (push_u64 ret m)
      in if mc_rip m = ret then Some (iretq m) else None)"

subsection \<open>Exception handlers\<close>

definition EXCEPTION_MESSAGES :: "string list" where
  "EXCEPTION_MESSAGES = [
    ''Divide-by-zero Error'', ''Debug'', ''Non-maskable Interrupt'', ''Breakpoint'', ''Overflow'', ''Bound Range Exceeded'',
    ''Invalid Opcode'', ''Device Not Available'', ''Double Fault'', ''Coprocessor Segment Overrun'', ''Invalid TSS'',
    ''Segment Not Present'', ''Stack-Segment Fault'', ''General Protection Fault'', ''Page Fault'', ''Unknown'',
    ''x87 Floating-Point Exception'', ''Alignment Check'', ''Machine Check'', ''SIMD Floating-Point Exception'',
    ''Virtualization Exception'', ''Unknown'', ''Unknown'', ''Unknown'', ''Unknown'', ''Unknown'', ''Unknown'', ''Unknown'',
    ''Unknown'', ''Unknown'', ''Security Exception'', ''Unknown'']"

text \<open>The formatting of a number with \<open>{:#x}\<close>.\<close>

definition hex_digit :: "nat \<Rightarrow> char" where
  "hex_digit d = ''0123456789abcdef'' ! d"

fun hex_digits :: "nat \<Rightarrow> string" where
  "hex_digits n = (if n < 16 then [hex_digit n] else hex_digits (n div 16) @ [hex_digit (n mod 16)])"

declare hex_digits.simps [simp del]

text \<open>The message with which the handler of an exception panics; \<open>None\<close> is an index out of range.\<close>

definition generic_exception_isr :: "nat \<Rightarrow> string option" where
  "generic_exception_isr vec = do {
     msg \<leftarrow> idx EXCEPTION_MESSAGES vec;
     Some (''Exception: '' @ msg) }"

definition exception_14 :: "Cpu \<Rightarrow> string option" where
  "exception_14 c = do {
     msg \<leftarrow> idx EXCEPTION_MESSAGES 14;
     Some (''Exception '' @ msg @ '' at address: 0x'' @ hex_digits (unat (r_cr2 c))) }"

definition exception_isr :: "nat \<Rightarrow> Cpu \<Rightarrow> string option" where
  "exception_isr vec c = (if vec = 14 then exception_14 c else generic_exception_isr vec)"

lemma exception_isr_ok: "vec < 32 \<Longrightarrow> \<exists>msg. exception_isr vec c = Some msg"
  by (simp add: exception_isr_def exception_14_def generic_exception_isr_def idx_def EXCEPTION_MESSAGES_def)

subsection \<open>Handlers that return\<close>

text \<open>The call of the handler in state \<open>m\<close> returns: to the return address on the stack, which it removes, and with the five values
  above it as they were.\<close>

definition call_returns :: "(Machine \<Rightarrow> Machine) \<Rightarrow> Machine \<Rightarrow> bool" where
  "call_returns f m \<longleftrightarrow> mc_rip (f m) = stack_top 0 m \<and> mc_rsp (f m) = mc_rsp m + 8 \<and> (\<forall>k. k < 5 \<longrightarrow> stack_top k (f m) = stack_top (Suc k) m)"

lemma push_facts [simp]:
  "mc_rip (push_u64 v m) = mc_rip m" "mc_cs (push_u64 v m) = mc_cs m" "mc_rflags (push_u64 v m) = mc_rflags m" "mc_ss (push_u64 v m) = mc_ss m"
  "mc_gpr (push_u64 v m) = mc_gpr m" "mc_rsp (push_u64 v m) = mc_rsp m - 8" "stack_top 0 (push_u64 v m) = v"
  by (simp_all add: push_u64_def stack_top_def)

lemma stack_top_push: "0 < k \<Longrightarrow> k < 16 \<Longrightarrow> stack_top k (push_u64 v m) = stack_top (k - 1) m"
proof -
  assume k: "0 < k" "k < 16"
  have "8 * of_nat k \<noteq> (0 :: u64)"
  proof
    assume "8 * of_nat k = (0 :: u64)"
    then have "(of_nat (8 * k) :: u64) = 0" by simp
    then have "2 ^ 64 dvd 8 * k" using word_of_nat_eq_0_iff [of "8 * k", where ?'a = 64] by simp
    then have "2 ^ 64 \<le> 8 * k" using k(1) by (intro dvd_imp_le) simp_all
    then show False using k(2) by simp
  qed
  then have ne: "mc_rsp m - 8 + 8 * of_nat k \<noteq> mc_rsp m - 8" by simp
  have a: "mc_rsp m - 8 + 8 * of_nat k = mc_rsp m + 8 * of_nat (k - 1)" using k by (simp add: of_nat_diff algebra_simps)
  have "mc_rsp m + 8 * of_nat (k - 1) \<noteq> mc_rsp m - 8" using ne unfolding a .
  moreover have "stack_top k (push_u64 v m) = (if mc_rsp m - 8 + 8 * of_nat k = mc_rsp m - 8 then v else mc_mem m (mc_rsp m - 8 + 8 * of_nat k))"
    by (simp add: stack_top_def push_u64_def)
  ultimately show ?thesis unfolding a by (simp only: stack_top_def if_False)
qed

text \<open>The stack at the entry to the stub, with the values pushed by the processor.\<close>

definition pushed :: "u64 option \<Rightarrow> Machine \<Rightarrow> u64 list" where
  "pushed code m = (case code of None \<Rightarrow> [] | Some e \<Rightarrow> [e]) @ [mc_rip m, mc_cs m, mc_rflags m, mc_rsp m, mc_ss m]"

lemma interrupt_entry_top:
  assumes "m' = interrupt_entry gate stub code m"
  shows "\<And>k. k < 5 \<Longrightarrow> stack_top k m' = pushed code m ! k"
    and "mc_gpr m' = mc_gpr m" and "mc_rsp m' = (mc_rsp m AND NOT 15) - (case code of None \<Rightarrow> 40 | Some _ \<Rightarrow> 48)"
proof -
  have t: "stack_top k (m \<lparr> mc_rip := a, mc_rflags := b \<rparr>) = stack_top k m" for k a b m by (simp add: stack_top_def)
  have "stack_top 0 m' = pushed code m ! 0" "stack_top 1 m' = pushed code m ! 1" "stack_top 2 m' = pushed code m ! 2"
    "stack_top 3 m' = pushed code m ! 3" "stack_top 4 m' = pushed code m ! 4"
    unfolding assms interrupt_entry_def Let_def by (cases code; simp add: t stack_top_push pushed_def)+
  moreover have "k = 0 \<or> k = 1 \<or> k = 2 \<or> k = 3 \<or> k = 4" if "k < 5" for k :: nat using that by auto
  ultimately show "stack_top k m' = pushed code m ! k" if "k < 5" for k using that by metis
  show "mc_gpr m' = mc_gpr m" "mc_rsp m' = (mc_rsp m AND NOT 15) - (case code of None \<Rightarrow> 40 | Some _ \<Rightarrow> 48)"
    unfolding assms interrupt_entry_def Let_def by (cases code; simp)+
qed

text \<open>The stack pointer with which the handler is entered.\<close>

lemma handler_entry_alignment:
  "mc_rsp (push_u64 ret (interrupt_entry gate stub code m)) AND 15 = (case code of None \<Rightarrow> 0 | Some _ \<Rightarrow> 8)"
proof -
  define v where "v = drop_bit 4 (mc_rsp m)"
  define w where "w = push_bit 4 v"
  have m: "(15 :: u64) = mask 4" by (simp add: mask_eq_exp_minus_1)
  have al: "mc_rsp m AND NOT (mask 4) = w" unfolding w_def v_def by (rule bit_word_eqI) (auto simp: bit_simps)
  have e: "bit (8 :: int) n \<longleftrightarrow> n = 3" for n using bit_push_bit_iff [of 3 "1 :: int" n] by (auto simp: bit_1_iff)
  have "push_bit 4 u AND 8 = 0" for u :: u64 by (rule bit_word_eqI) (auto simp: bit_simps e)
  then have "push_bit 4 u + 8 = push_bit 4 u OR 8" for u :: u64 by (rule disjunctive_add_eq_or)
  moreover have "take_bit 4 (push_bit 4 u OR 8) = 8" "take_bit 4 (push_bit 4 u) = 0" for u :: u64
    by (rule bit_word_eqI; auto simp: bit_simps e)+
  moreover have "w - 48 = push_bit 4 (v - 3)" "w - 56 = push_bit 4 (v - 4) + 8" by (simp_all add: w_def push_bit_eq_mult algebra_simps)
  ultimately have "take_bit 4 (w - 48) = 0" "take_bit 4 (w - 56) = 8" by (simp_all only:)
  moreover have "mc_rsp (push_u64 ret (interrupt_entry gate stub code m)) = w - (case code of None \<Rightarrow> 48 | Some _ \<Rightarrow> 56)"
    using interrupt_entry_top(3) [OF refl, of gate stub code m] al by (cases code) (simp_all add: m)
  ultimately show ?thesis unfolding m take_bit_eq_mask [symmetric] by (cases code) (simp_all only: option.case)
qed


text \<open>A handler that uses a register, as every function may: it is lost for the interrupted code.\<close>

definition rax_handler :: "Machine \<Rightarrow> Machine" where
  "rax_handler m = m \<lparr> mc_rip := stack_top 0 m, mc_rsp := mc_rsp m + 8, mc_gpr := (mc_gpr m)(RAX := 0) \<rparr>"

lemma rax_handler_returns: "call_returns rax_handler m"
  by (simp add: call_returns_def rax_handler_def stack_top_def algebra_simps)


text \<open>The stub saves no register: a handler may lose any of them for the interrupted code.\<close>

lemma isr_stub_clobbers:
  "\<exists>m'. isr_stub ret rax_handler (interrupt_entry gate stub None m) = Some m' \<and> mc_gpr m' RAX = 0"
proof -
  let ?e = "interrupt_entry gate stub None m"
  have "mc_rip (rax_handler (push_u64 ret ?e)) = ret" by (simp add: rax_handler_def)
  then have "isr_stub ret rax_handler ?e = Some (iretq (rax_handler (push_u64 ret ?e)))" by (simp add: isr_stub_def Let_def)
  then show ?thesis by (simp add: iretq_def rax_handler_def)
qed

end
