(* ===== verification/Pit.thy ===== *)
theory Pit
  imports Hpet Lapic
begin

text \<open>
  The programmable interval timer (\<open>drivers/src/timer/pit.rs\<close>).  The module is not compiled at present; the model follows its text, with
  \<open>register_irq\<close> and \<open>set_disabled\<close> the functions of these names in \<open>interrupts.rs\<close> and \<open>ioapic.rs\<close>.  
\<close>

unbundle bit_operations_syntax

definition Command_layout :: bit_layout where
  "Command_layout = [(''channel'', 2), (''access_mode'', 2), (''operating_mode'', 3), (''bcd'', 1)]"

datatype ChannelPort = Channel0Port | Channel1Port | Channel2Port | CommandPort

fun channel_port_value :: "ChannelPort \<Rightarrow> u16" where
  "channel_port_value Channel0Port = 0x40"
| "channel_port_value Channel1Port = 0x41"
| "channel_port_value Channel2Port = 0x42"
| "channel_port_value CommandPort = 0x43"

datatype PitChannel = Channel0 | Channel1 | Channel2 | ReadBack

fun pit_channel_value :: "PitChannel \<Rightarrow> u8" where
  "pit_channel_value Channel0 = 0"
| "pit_channel_value Channel1 = 1"
| "pit_channel_value Channel2 = 2"
| "pit_channel_value ReadBack = 3"

datatype AccessMode = Latch | LowByte | HighByte | LowAndHighByte

fun access_mode_value :: "AccessMode \<Rightarrow> u8" where
  "access_mode_value Latch = 0"
| "access_mode_value LowByte = 1"
| "access_mode_value HighByte = 2"
| "access_mode_value LowAndHighByte = 3"

datatype OperatingMode = InterruptOnTerminalCount | HardwareRetriggerableOneShot | RateGenerator | SquareWaveGenerator
  | SoftwareTriggeredStrobe | HardwareTriggeredStrobe | RateGenerator2 | SquareWaveGenerator2

fun operating_mode_value :: "OperatingMode \<Rightarrow> u8" where
  "operating_mode_value InterruptOnTerminalCount = 0"
| "operating_mode_value HardwareRetriggerableOneShot = 1"
| "operating_mode_value RateGenerator = 2"
| "operating_mode_value SquareWaveGenerator = 3"
| "operating_mode_value SoftwareTriggeredStrobe = 4"
| "operating_mode_value HardwareTriggeredStrobe = 5"
| "operating_mode_value RateGenerator2 = 6"
| "operating_mode_value SquareWaveGenerator2 = 7"

definition PIT_BASE_FREQUENCY :: u32 where
  "PIT_BASE_FREQUENCY = 1193182"

text \<open>The number of microseconds is cut to 32 bits; the division panics when it is 0.\<close>

definition pit_time_to_cycles :: "Duration \<Rightarrow> OperatingMode \<Rightarrow> (TimerError + u16) option" where
  "pit_time_to_cycles period operating_mode =
     (if operating_mode \<in> {RateGenerator, SquareWaveGenerator, RateGenerator2, SquareWaveGenerator2} \<and> period div 1000 = 0
      then Some (Err InvalidTimePeriod)
      else do {
        let micros = (of_nat (period div 1000) :: u32);
        _ \<leftarrow> ensure (micros \<noteq> 0);
        Some (Ok (ucast (PIT_BASE_FREQUENCY div micros))) })"

definition pit_write :: "u8 \<Rightarrow> u16 \<Rightarrow> port_trace \<Rightarrow> port_trace" where
  "pit_write command divisor w =
     (let w = cpu_outb_8 (channel_port_value CommandPort) command w;
          w = cpu_outb_8 (channel_port_value Channel0Port) (ucast (divisor AND 0xff)) w
      in cpu_outb_8 (channel_port_value Channel0Port) (ucast (drop_bit 8 divisor AND 0xff)) w)"

definition pit_command :: "OperatingMode \<Rightarrow> u8 option" where
  "pit_command operating_mode = do {
     w \<leftarrow> bf_set Command_layout ''channel'' (pit_channel_value Channel0) 0;
     w \<leftarrow> bf_set Command_layout ''access_mode'' (access_mode_value LowAndHighByte) w;
     w \<leftarrow> bf_set Command_layout ''operating_mode'' (operating_mode_value operating_mode) w;
     bf_set Command_layout ''bcd'' 0 w }"

definition pit_configure :: "'d mmio_rd \<Rightarrow> 'd mmio_wr \<Rightarrow> Cpu \<Rightarrow> u64 \<Rightarrow> 'd IoApics \<Rightarrow> Idt \<Rightarrow> port_trace \<Rightarrow> Duration \<Rightarrow> OperatingMode
    \<Rightarrow> ((TimerError + u64) \<times> 'd IoApics \<times> Idt \<times> port_trace) option" where
  "pit_configure rd wr c pit_isr_stub s idt w period operating_mode = do {
     (s, idt) \<leftarrow> register_irq rd wr c s idt PIT_IRQ pit_isr_stub;
     command \<leftarrow> pit_command operating_mode;
     r \<leftarrow> pit_time_to_cycles period operating_mode;
     (case r of
        Inl e \<Rightarrow> Some (Err e, s, idt, w)
      | Inr cycles \<Rightarrow> Some (Ok (ucast cycles), s, idt, pit_write command cycles w)) }"

definition pit_set_disabled :: "'d mmio_rd \<Rightarrow> 'd mmio_wr \<Rightarrow> 'd IoApics \<Rightarrow> bool \<Rightarrow> 'd IoApics option" where
  "pit_set_disabled rd wr s status = do {
     (r, s) \<leftarrow> set_disabled rd wr s PIT_IRQ status;
     _ \<leftarrow> unwrap_ok r;
     Some s }"

definition pit_custom_unlock :: "'d mmio_rd \<Rightarrow> 'd mmio_wr \<Rightarrow> 'd IoApics \<Rightarrow> 'd IoApics option" where
  "pit_custom_unlock rd wr s = pit_set_disabled rd wr s True"

text \<open>The handler; the message it prints is not modelled.\<close>

definition pit_isr :: "cpuid \<Rightarrow> 'd mmio_wr32 \<Rightarrow> 'd \<Rightarrow> LocalApic list \<Rightarrow> 'd option" where
  "pit_isr cpuid wr d lapics = do {
     lapic \<leftarrow> get_apic lapics (get_this_apic_id cpuid);
     Some (signal_eoi wr d lapic) }"

subsection \<open>Lemmas\<close>

lemma command_fields:
  "field_at Command_layout ''channel'' 0 = Some (0, 2)" "field_at Command_layout ''access_mode'' 0 = Some (2, 2)"
  "field_at Command_layout ''operating_mode'' 0 = Some (4, 3)" "field_at Command_layout ''bcd'' 0 = Some (7, 1)"
  by (simp_all add: Command_layout_def)

text \<open>The two bytes of the divisor arrive as the divisor.\<close>

lemma pit_write_divisor:
  "pit_write command divisor w = w @ [Out8 0x43 command, Out8 0x40 low, Out8 0x40 high] \<Longrightarrow> ucast low OR push_bit 8 (ucast high) = divisor"
proof -
  assume "pit_write command divisor w = w @ [Out8 0x43 command, Out8 0x40 low, Out8 0x40 high]"
  then have lh: "low = ucast (divisor AND 0xff)" "high = ucast (drop_bit 8 divisor AND 0xff)" by (simp_all add: pit_write_def cpu_outb_8_def)
  have m: "(0xff :: u16) = mask 8" by (simp add: mask_eq_exp_minus_1)
  show ?thesis unfolding lh m by (rule bit_word_eqI) (auto simp: bit_simps)
qed

text \<open>The fields of the command byte are in the opposite order of the hardware's (BCD in bit 0, mode in bits 1 to 3, access in bits 4 and 5,
  channel in bits 6 and 7): the rate generator is programmed with 0x2c instead of 0x34.\<close>

lemma pit_command_reversed: "pit_command RateGenerator = Some 0x2c"
  by (simp add: pit_command_def bf_set_def command_fields take_bit_eq_mod mask_eq_exp_minus_1)

text \<open>A longer period gives a smaller divisor, that is, a higher frequency.\<close>

lemma pit_time_to_cycles_inverse:
  "pit_time_to_cycles 1000000 RateGenerator = Some (Ok 1193)" "pit_time_to_cycles 10000000 RateGenerator = Some (Ok 119)"
  by (simp_all add: pit_time_to_cycles_def PIT_BASE_FREQUENCY_def)

text \<open>A one-shot period below a microsecond panics.\<close>

lemma pit_time_to_cycles_panics: "period < 1000 \<Longrightarrow> pit_time_to_cycles period InterruptOnTerminalCount = None"
  by (simp add: pit_time_to_cycles_def)

lemma pit_command_ok: "\<exists>command. pit_command mode = Some command"
  by (cases mode) (simp_all add: pit_command_def bf_set_def command_fields take_bit_eq_mod)

text \<open>Configuring the timer with a period of 1 to \<open>2 ^ 32 - 1\<close> microseconds installs the handler at the first free vector, routes the interrupt
  line to it and programs the divisor; a periodic mode with a shorter period is refused after the handler has been installed.\<close>

lemma pit_configure_ok:
  assumes "ioapic_device rd wr sel reg B" and "ioapics_ok B (ia_ioapics s)"
    and "gsi = irq_to_gsi (ia_overrides s) PIT_IRQ" and "find (\<lambda>io. serves io gsi) (ia_ioapics s) = Some io"
    and "i < length idt" and "\<not> gate_present (idt ! i)" and "\<forall>j < i. gate_present (idt ! j)"
    and n: "n = period div 1000" "n < 2 ^ 32" "0 < n \<or> mode = RateGenerator"
  shows "\<exists>d g command. pit_configure rd wr c stub s idt w period mode =
        (if n = 0 then Some (Err InvalidTimePeriod, s \<lparr> ia_dev := d \<rparr>, idt[i := g], w)
         else Some (Ok (ucast (ucast (PIT_BASE_FREQUENCY div of_nat n) :: u16)), s \<lparr> ia_dev := d \<rparr>, idt[i := g],
           pit_write command (ucast (PIT_BASE_FREQUENCY div of_nat n)) w))
    \<and> gate_for stub (Cs_read c) InterruptGate g"
proof -
  from register_irq_spec [OF assms(1-4) refl assms(5-7)] obtain d g where
    r: "register_irq rd wr c s idt PIT_IRQ stub = Some (s \<lparr> ia_dev := d \<rparr>, idt[i := g])" "gate_for stub (Cs_read c) InterruptGate g" by blast
  obtain command where "pit_command mode = Some command" using pit_command_ok by blast
  moreover have "(of_nat n :: u32) \<noteq> 0" if "n \<noteq> 0"
  proof -
    have "\<not> 2 ^ 32 dvd n" using that n(2) by (auto dest: dvd_imp_le)
    then show ?thesis using word_of_nat_eq_0_iff [of n, where ?'a = 32] by simp
  qed
  ultimately have "pit_configure rd wr c stub s idt w period mode =
        (if n = 0 then Some (Err InvalidTimePeriod, s \<lparr> ia_dev := d \<rparr>, idt[i := g], w)
         else Some (Ok (ucast (ucast (PIT_BASE_FREQUENCY div of_nat n) :: u16)), s \<lparr> ia_dev := d \<rparr>, idt[i := g],
           pit_write command (ucast (PIT_BASE_FREQUENCY div of_nat n)) w))"
    using r(1) n(1,3) by (cases "n = 0") (simp_all add: pit_configure_def pit_time_to_cycles_def)
  then show ?thesis using r(2) by blast
qed

end
