(* ===== verification/Spec2Isabelle.thy ===== *)
theory Spec2Isabelle
  imports Id_Alloc LinkedList StackList Spinlock Kernel_Heap Interrupts Paging_Init Apic_Timer Acpi Vessel Logger Boot Isr Pit
begin

text \<open>
  \<^bold>\<open>Funderberker: a verification library for the kernel.\<close>

  Funderberker is an x86-64 kernel in Rust.  The entry point (\<open>boot\<close>) takes the answers of the boot loader, installs the
  interrupt table, builds the physical memory manager (\<open>pmm\<close>) and the virtual address allocator from the memory map, builds and
  activates the kernel's page tables (\<open>kernel\<close>), and works through the firmware's tables, which configure the interrupt controllers
  (\<open>kernel\<close>), the event timer and the PCI Express bus (\<open>drivers\<close>).  The heap is a set of slab allocators (\<open>slab\<close>) that take their
  pages from the paging manager.  The hypervisor (\<open>hypervisor\<close>, \<open>scheduler\<close>) runs one guest, a vessel, on AMD's SVM.  The containers
  of \<open>utils\<close> (bitmap, ID allocators, linked lists, spin lock) carry all of them, and \<open>logger\<close> writes messages to the
  framebuffer and the serial ports.

  \<^bold>\<open>Conventions.\<close>  A Rust function becomes a HOL function of the same name, with the prefix of
  its type where several types have a method of that name.  A panic (failed \<open>assert\<close>, \<open>unwrap\<close>
  of an error, overflow of checked arithmetic, index out of range) is the value \<open>None\<close>; a
  \<open>Result\<close> is a sum with \<open>Inl\<close> the error.  \<open>usize\<close> is a natural number below \<open>2 ^ 64\<close> with
  checked operations (\<open>Prelude\<close>); flag words and registers are words of their width, and the accessors of \<open>#[bitfield]\<close>
  structs follow the documentation of that attribute (\<open>Bitfield\<close>).
  Memory that the code reaches through pointers is an explicit store: nodes of lists and page
  tables are maps from addresses, firmware tables are bytes at physical addresses that are read through the page tables.
  Each operation on a lock-protected structure runs with its spin lock held, so that it is one step here; the lock is the
  subject of \<open>Spinlock\<close>.

  \<^bold>\<open>Loops.\<close>  A loop is a recursive function over the list of its indices or over the data it consumes, with a termination proof where the
  recursion is not structural; there is no fuel.  Two loops of the code need not end: the iteration over the interrupt controller
  table (\<open>madt_loop\<close>) and the wait for the event timer (\<open>poll_counter\<close>).  They are partial functions with \<open>None\<close> for no result, and the
  theorems about them show that they return.  The endless loop of the scheduler is modelled by its rounds, the retries of the spin lock by the steps
  of the threads.

  \<^bold>\<open>Parameters.\<close>  What is not Rust code of the repository is an argument: the devices behind memory-mapped registers (\<open>rd\<close>, \<open>wr\<close> on a
  device state), CPUID, I/O ports (a trace of accesses), the bytes of the firmware tables and of the configuration spaces, the
  \<open>vmrun\<close> instruction, the handlers behind interrupt stubs, and the answers of the boot loader.  The theorems name what they need of them as
  hypotheses, and the witnesses instantiate them by concrete functions: \<open>ioapic_device\<close> (registers behind a select and a window register, each plain
  storage: the read-only bits of a redirection entry are not modelled), \<open>shared_registers\<close> (the local APICs, whose areas all lead to the registers of
  the executing processor), \<open>page_source_ok\<close> (a page that is delivered is aligned and new; the source may also fail or panic) and \<open>call_returns\<close> (one call of a
  handler returns with the stack above its return address intact).

  \<^bold>\<open>Shared theories.\<close>
  \<^item> \<open>Prelude\<close>: machine arithmetic, error values, words, lists.
  \<^item> \<open>Bitfield\<close>: register words by their fields; reading back a field and independence of the others.
  \<^item> \<open>Struct_Layout\<close>: structs in memory as lists of fields; decoding the bytes of an encoded struct.

  \<^bold>\<open>Containers and synchronisation\<close> (\<open>utils/src\<close>).
  \<^item> \<open>Bitmap\<close> (\<open>collections/bitmap.rs\<close>): the bit vector and its iterators, refined to lists of booleans (locale \<open>bit_store\<close>).
  \<^item> \<open>Id_Alloc\<close> (\<open>collections/id\<close>): the bump allocator \<open>IdHander\<close> and the \<open>IdTracker\<close>, which
    implements an abstract set of taken IDs on the interface of the bitmap.
  \<^item> \<open>Node_List\<close>, \<open>LinkedList\<close>, \<open>StackList\<close> (\<open>collections/linkedlist.rs\<close>, \<open>stacklist.rs\<close>): the
    pointer-level lists, refined to HOL lists with ownership of their nodes; both implement the locale \<open>node_stack\<close>.
  \<^item> \<open>Mem_Addr\<close> (\<open>mem/mod.rs\<close>): addresses, the direct map, \<open>memcpy\<close>, \<open>memset\<close>, lazily set statics.
  \<^item> \<open>Spinlock\<close> (\<open>sync/spinlock.rs\<close>): the lock as a step relation over any number of
    threads; mutual exclusion and no lost update by rule induction, and progress.

  \<^bold>\<open>Memory.\<close>
  \<^item> \<open>Buddy_Blocks\<close>, \<open>Buddy\<close>, \<open>PMM\<close> (\<open>pmm/src/buddy.rs\<close>): the buddy allocator on pointer-level
    free lists, its invariant (aligned, disjoint, coalesced blocks), every operation on every
    branch, its construction from the memory map, and the interface \<open>page_allocator\<close>.
  \<^item> \<open>Slab\<close>, \<open>Heap\<close> (\<open>slab/src\<close>): slabs, the eight size classes, the interface \<open>page_source\<close> of
    the heap to its pages.
  \<^item> \<open>Page_Flags\<close>, \<open>Page_Table\<close> (\<open>kernel/src/arch/x86_64/paging\<close>): flag words, page sizes, the
    page attribute table; the tree of page tables, mapping, unmapping and translation.
  \<^item> \<open>Paging_Manager\<close> (\<open>kernel/src/mem/paging.rs\<close>, \<open>vaa.rs\<close>): page allocation, as operations on an
    abstract map from page addresses to frames.
  \<^item> \<open>Kernel_Heap\<close>: the heap on the paging manager, an instance of \<open>page_source\<close>.
  \<^item> \<open>Paging_Init\<close>, \<open>Boot_Map\<close> (\<open>paging/mod.rs\<close>): feature checks and activation of the new tables; the tables built from the memory map
    translate exactly as its regions say, whatever page sizes they are cut into, and take no more frames than these addresses need.

  \<^bold>\<open>Processor and interrupts\<close> (\<open>kernel/src/arch/x86_64\<close>).
  \<^item> \<open>Cpu\<close>, \<open>Gdt\<close> (\<open>cpu\<close>, \<open>gdt.rs\<close>): registers, model-specific registers, port instructions, segment descriptors and selectors.
  \<^item> \<open>Apic\<close>, \<open>Ioapic\<close>, \<open>Lapic\<close> (\<open>apic\<close>): the redirection table entry by entry, IRQ overrides and masking; the local vector table,
    the timer, inter-processor interrupts.
  \<^item> \<open>Interrupts\<close> (\<open>interrupts.rs\<close>): the descriptor table, installation of handlers, registration of an interrupt line from the controller to its gate.
  \<^item> \<open>Isr\<close> (\<open>macros/src/lib.rs\<close>, \<open>event.rs\<close>): the stubs around handlers and the exception handlers; when a stub resumes the
    interrupted code, and when it does not.

  \<^bold>\<open>Devices and firmware.\<close>
  \<^item> \<open>Hpet\<close>, \<open>Apic_Timer\<close>, \<open>Pit\<close> (\<open>drivers/src/timer\<close>): the choice of a free interrupt line, exclusive comparators in every run until a
    lock guard of a timer is dropped, exact conversion of durations; the timer of the local APIC and its calibration; the interval timer.
  \<^item> \<open>Pcie\<close> (\<open>drivers/src/bus/pcie.rs\<close>): the bus scan records exactly the functions that answer and keeps the page map otherwise.
  \<^item> \<open>Acpi_Tables\<close>, \<open>Acpi\<close> (\<open>boot/src/acpi\<close>): layouts and checksums, parsing of any list of interrupt controller entries, and
    the initialisation as the tables carried out one after the other.  The event timer's table in memory is the one of the specification (\<open>HpetTable\<close>), which the code
    reads through a struct that lacks a byte (\<open>AcpiHpet\<close>); the interrupt controller entries are in the code's layouts.
  \<^item> \<open>Font\<close>, \<open>Logger\<close> (\<open>logger/src\<close>): text as a grid of characters in the framebuffer, and as bytes on the serial ports.
  \<^item> \<open>Boot\<close> (\<open>boot/src/boot/limine.rs\<close>): the entry point, composed of all of these; it never panics on a supported machine before the
    firmware tables are reached, and then equals carrying them out.

  \<^bold>\<open>Hypervisor\<close> (\<open>hypervisor/src\<close>, \<open>scheduler/src\<close>).
  \<^item> \<open>Vmcb\<close>, \<open>Svm\<close>: the control block as records and as memory layout, the support checks, the initial guest state, the handling of exits.
  \<^item> \<open>Vessel\<close>: creation and run of a vessel, and the scheduler's loop over any \<open>schedulable\<close> job.

  \<^bold>\<open>Interfaces.\<close>  \<open>bit_store\<close> (bitmap, used by the ID tracker), \<open>node_stack\<close> (both lists, used for moving nodes between them), \<open>page_allocator\<close> (the buddy
  allocator, used by paging), \<open>page_source\<close> (the paging manager, used by the heap) and \<open>schedulable\<close> (vessels, used by the
  scheduler) are locales; each is interpreted on the model of the code that provides it.

  \<^bold>\<open>This theory\<close> shows that all register words of the kernel are well typed; the properties stand with their components.

  \<^bold>\<open>Not modelled.\<close>  The real-time clock and the CMOS (\<open>drivers/src/clock/rtc.rs\<close>, \<open>cmos.rs\<close>) are not compiled and call functions
  that exist nowhere; the storage driver (\<open>drivers/src/storage\<close>) has empty bodies; \<open>hypervisor/src/mem.rs\<close> is not valid Rust.  Test code and the test
  attribute, \<open>Debug\<close> and message formatting, the build scripts, the flush instructions of the TLB, the final halt loop and the panic handler have no counterpart here.
  The heap memory of the growing vectors (the lists of APICs, of overrides and of PCI functions) is not part of the state: these lists are values, and the
  pages and frames that the heap would take for them during the boot are not counted.
  Memory ordering of atomics is sequentially consistent.
\<close>

subsection \<open>Register words\<close>

text \<open>All bit fields of the kernel, with the declared number of bits.\<close>

definition register_layouts :: "(nat \<times> bit_layout) list" where
  "register_layouts = [(64, Rflags_layout), (64, Cr0_layout), (64, Cr3_layout), (64, Cr4_layout), (64, AmdDr6_layout),
     (64, AmdDr7_layout), (64, SegmentDescriptor_layout), (16, SegmentSelector_layout), (64, RedirectionEntry_layout),
     (32, LvtReg_layout), (128, GateDescriptor_layout), (64, GeneralCapabilities_layout), (64, GeneralConfiguration_layout),
     (64, TimerConfiguration_layout), (64, FsbInterruptRoute_layout), (8, Command_layout)]"

lemma register_layouts_wf: "list_all (\<lambda>(n, ly). layout_wf n ly) register_layouts"
  by (simp add: register_layouts_def layout_wf_def layout_bits_def Rflags_layout_def Cr0_layout_def Cr3_layout_def Cr4_layout_def
      AmdDr6_layout_def AmdDr7_layout_def SegmentDescriptor_layout_def SegmentSelector_layout_def RedirectionEntry_layout_def
      LvtReg_layout_def GateDescriptor_layout_def GeneralCapabilities_layout_def GeneralConfiguration_layout_def
      TimerConfiguration_layout_def FsbInterruptRoute_layout_def Command_layout_def)

text \<open>Every register word of the kernel is well typed: the fields of the struct fill exactly the declared number of
  bits and have distinct names, so that in a word of that width a field can be set to every value of its width; it then
  reads back as that value, all other fields keep theirs, and a wider value panics.\<close>

theorem register_fields_typed:
  fixes w v :: "'a::len word"
  assumes "(LENGTH('a), ly) \<in> set register_layouts" and "(f, width) \<in> set ly"
  shows "layout_wf LENGTH('a) ly \<and> (case bf_set ly f v w of
        None \<Rightarrow> take_bit width v \<noteq> v
      | Some w' \<Rightarrow> take_bit width v = v \<and> bf_get ly f w' = v \<and> (\<forall>g. g \<noteq> f \<longrightarrow> bf_get ly g w' = bf_get ly g w))"
proof -
  have wf: "layout_wf LENGTH('a) ly" using register_layouts_wf assms(1) by (auto simp: list_all_iff)
  show ?thesis
  proof (cases "take_bit width v = v")
    case True
    from bf_set_typed [OF wf assms(2) this, of w] obtain w' where "bf_set ly f v w = Some w'"
      and "\<forall>g. bf_get ly g w' = (if g = f then v else bf_get ly g w)" by blast
    then show ?thesis using wf True by simp
  next
    case False
    moreover obtain k where "field_at ly f 0 = Some (k, width)" using field_at_member [of ly f width] wf assms(2) by (auto simp: layout_wf_def)
    ultimately show ?thesis using wf by (simp add: bf_set_def)
  qed
qed

theorem register_fields_typed_witness:
  "bf_set LvtReg_layout ''delivery_mode'' (8 :: u32) 0 = None
   \<and> (\<exists>w'. bf_set LvtReg_layout ''delivery_mode'' (7 :: u32) 0 = Some w' \<and> bf_get LvtReg_layout ''delivery_mode'' w' = 7)"
proof -
  have m: "(LENGTH(32), LvtReg_layout) \<in> set register_layouts" "(''delivery_mode'', 3) \<in> set LvtReg_layout"
    by (simp_all add: register_layouts_def LvtReg_layout_def)
  show ?thesis
    using register_fields_typed [OF m, of 8 0] register_fields_typed [OF m, of 7 0] by (auto split: option.splits simp: take_bit_eq_mod)
qed

end
